(* ===== verification/SC_Prelude.thy ===== *)
theory SC_Prelude
  imports Main "HOL-Library.Sublist"
begin

text \<open>
  Shared ground of the development: the machine sizes the C sources use
  (\<^verbatim>\<open>include/sc/api.h\<close>), the collections of rewrite rules the component theories fill,
  and the generic facts on lists and searches that several components need.
\<close>

section \<open>Rule collections\<close>

named_theorems status_simps \<open>evaluation of status values and of status tests\<close>
named_theorems alloc_simps \<open>evaluation of allocation requests\<close>
named_theorems str_simps \<open>evaluation of string views and owned strings\<close>
named_theorems vec_simps \<open>what the vector operations do to the stored items\<close>

section \<open>Sizes\<close>

text \<open>
  \<^verbatim>\<open>size_t\<close> is 64 bits wide on the supported targets. Sizes are natural numbers and the
  checks for wrap-around that the code makes are written out.
\<close>

definition SIZE_MAX :: nat where
  "SIZE_MAX = 2 ^ 64 - 1"

text \<open>
  \<^verbatim>\<open>ckd_add\<close> and \<^verbatim>\<open>ckd_mul\<close>: the result when it fits, nothing when the operation
  overflows.
\<close>

definition sc_size_add_overflow :: "nat \<Rightarrow> nat \<Rightarrow> nat option" where
  "sc_size_add_overflow a b = (if a + b \<le> SIZE_MAX then Some (a + b) else None)"

definition sc_size_mul_overflow :: "nat \<Rightarrow> nat \<Rightarrow> nat option" where
  "sc_size_mul_overflow a b = (if a * b \<le> SIZE_MAX then Some (a * b) else None)"

lemma size_add_SomeD: "sc_size_add_overflow a b = Some c \<Longrightarrow> c = a + b \<and> c \<le> SIZE_MAX"
  by (auto simp: sc_size_add_overflow_def split: if_splits)

lemma size_mul_SomeD: "sc_size_mul_overflow a b = Some c \<Longrightarrow> c = a * b \<and> c \<le> SIZE_MAX"
  by (auto simp: sc_size_mul_overflow_def split: if_splits)

lemma SIZE_MAX_pos: "0 < SIZE_MAX"
  by (simp add: SIZE_MAX_def)

section \<open>Growing a capacity by doubling\<close>

text \<open>
  The loop shared by \<^verbatim>\<open>sc_vec_reserve\<close> and \<^verbatim>\<open>sc_bytes_reserve\<close>:
  \<^verbatim>\<open>while (new_cap < needed) { if (new_cap > SIZE_MAX / 2) { new_cap = needed; break; }
  new_cap *= 2; }\<close>. A capacity of zero is replaced before the loop, which is what makes it
  end; the model carries that as the guard \<open>0 < cap\<close>.
\<close>

function grow_cap :: "nat \<Rightarrow> nat \<Rightarrow> nat" where
  "grow_cap needed cap =
     (if cap < needed \<and> 0 < cap
      then (if cap > SIZE_MAX div 2 then needed else grow_cap needed (2 * cap))
      else cap)"
  by pat_completeness auto
termination
  by (relation "measure (\<lambda>(needed, cap). needed - cap)") auto

declare grow_cap.simps [simp del]

lemma grow_cap_ge: "0 < cap \<Longrightarrow> needed \<le> grow_cap needed cap"
proof (induction needed cap rule: grow_cap.induct)
  case (1 needed cap)
  show ?case
    by (subst grow_cap.simps) (use 1 in \<open>auto simp: not_less\<close>)
qed

lemma grow_cap_mono: "cap \<le> grow_cap needed cap"
proof (induction needed cap rule: grow_cap.induct)
  case (1 needed cap)
  show ?case
  proof (cases "cap < needed \<and> 0 < cap \<and> \<not> cap > SIZE_MAX div 2")
    case True
    with 1 have "2 * cap \<le> grow_cap needed (2 * cap)" by simp
    with True show ?thesis by (subst grow_cap.simps) simp
  next
    case False
    then show ?thesis by (subst grow_cap.simps) auto
  qed
qed

lemma grow_cap_pos: "0 < cap \<Longrightarrow> 0 < grow_cap needed cap"
  using grow_cap_mono [of cap needed] by simp

lemma grow_cap_le_SIZE_MAX:
  "needed \<le> SIZE_MAX \<Longrightarrow> cap \<le> SIZE_MAX \<Longrightarrow> grow_cap needed cap \<le> SIZE_MAX"
proof (induction needed cap rule: grow_cap.induct)
  case (1 needed cap)
  show ?case
    by (subst grow_cap.simps) (use 1 in auto)
qed

lemma grow_cap_lt_double:
  "0 < cap \<Longrightarrow> cap < needed \<Longrightarrow> grow_cap needed cap < 2 * needed"
proof (induction needed cap rule: grow_cap.induct)
  case (1 needed cap)
  show ?case
  proof (cases "cap > SIZE_MAX div 2")
    case True
    with 1 show ?thesis by (subst grow_cap.simps) simp
  next
    case False
    show ?thesis
    proof (cases "2 * cap < needed")
      case True
      with 1 False show ?thesis by (subst grow_cap.simps) simp
    next
      case big: False
      then have "grow_cap needed (2 * cap) = 2 * cap" by (subst grow_cap.simps) simp
      with 1 False show ?thesis by (subst grow_cap.simps) simp
    qed
  qed
qed

section \<open>Searching for a byte string\<close>

text \<open>
  \<^verbatim>\<open>for (i = 0; i + n <= len; i++) if (memcmp(text + i, needle, n) == 0) return true;\<close>
  occurs in several modules. \<open>contains_at\<close> is one \<^verbatim>\<open>memcmp\<close>, \<open>contains_sub\<close> the loop.
\<close>

fun contains_at :: "'a list \<Rightarrow> 'a list \<Rightarrow> bool" where
  "contains_at [] hay = True"
| "contains_at (n # ns) [] = False"
| "contains_at (n # ns) (c # cs) = (n = c \<and> contains_at ns cs)"

fun contains_sub :: "'a list \<Rightarrow> 'a list \<Rightarrow> bool" where
  "contains_sub needle [] = contains_at needle []"
| "contains_sub needle (c # cs) = (contains_at needle (c # cs) \<or> contains_sub needle cs)"

lemma contains_at_prefix: "contains_at needle hay \<longleftrightarrow> prefix needle hay"
  by (induction needle hay rule: contains_at.induct) auto

lemma contains_sub_sublist: "contains_sub needle hay \<longleftrightarrow> sublist needle hay"
proof (induction hay)
  case Nil
  show ?case by (simp add: contains_at_prefix)
next
  case (Cons c cs)
  then show ?case
    by (simp add: contains_at_prefix sublist_Cons_right)
qed

lemma contains_sub_append:
  "contains_sub needle hay \<longleftrightarrow> (\<exists>pre post. hay = pre @ needle @ post)"
  by (auto simp: contains_sub_sublist sublist_def)

lemma same_length_sublist: "sublist xs ys \<Longrightarrow> length xs = length ys \<Longrightarrow> xs = ys"
  by (auto simp: sublist_def)

section \<open>Removing one position\<close>

text \<open>The \<^verbatim>\<open>memmove\<close> that closes the gap left by the element at \<open>i\<close>.\<close>

definition remove_at :: "nat \<Rightarrow> 'a list \<Rightarrow> 'a list" where
  "remove_at i xs = take i xs @ drop (Suc i) xs"

lemma remove_at_0 [simp]: "remove_at 0 (x # xs) = xs"
  by (simp add: remove_at_def)

lemma length_remove_at: "i < length xs \<Longrightarrow> length (remove_at i xs) = length xs - 1"
  by (simp add: remove_at_def)

section \<open>First match in a table\<close>

text \<open>
  Tables of the program (registries, channel routes, provider routes) are vectors searched
  from the front; \<open>find_first\<close> is that loop.
\<close>

fun find_first :: "('a \<Rightarrow> bool) \<Rightarrow> 'a list \<Rightarrow> 'a option" where
  "find_first P [] = None"
| "find_first P (x # xs) = (if P x then Some x else find_first P xs)"

lemma find_first_find: "find_first P xs = find P xs"
  by (induction xs) auto

lemma find_first_SomeD: "find_first P xs = Some x \<Longrightarrow> x \<in> set xs \<and> P x"
  by (induction xs) (auto split: if_splits)

lemma find_first_None_iff: "find_first P xs = None \<longleftrightarrow> (\<forall>x \<in> set xs. \<not> P x)"
  by (induction xs) auto

lemma find_first_append:
  "find_first P (xs @ ys) = (case find_first P xs of Some x \<Rightarrow> Some x | None \<Rightarrow> find_first P ys)"
  by (induction xs) auto

lemma find_first_map: "find_first P (map f xs) = map_option f (find_first (P \<circ> f) xs)"
  by (induction xs) auto

lemma find_first_cong: "(\<And>x. x \<in> set xs \<Longrightarrow> P x = Q x) \<Longrightarrow> find_first P xs = find_first Q xs"
  by (induction xs) auto

lemma find_first_split:
  "find_first P xs = Some x \<Longrightarrow> \<exists>pre post. xs = pre @ x # post \<and> P x \<and> (\<forall>y \<in> set pre. \<not> P y)"
proof (induction xs)
  case Nil
  then show ?case by simp
next
  case (Cons a xs)
  show ?case
  proof (cases "P a")
    case True
    with Cons.prems have "a # xs = [] @ x # xs \<and> P x \<and> (\<forall>y \<in> set []. \<not> P y)" by simp
    then show ?thesis by blast
  next
    case False
    with Cons obtain pre post where
      "xs = pre @ x # post" "P x" "\<forall>y \<in> set pre. \<not> P y" by auto
    with False have "a # xs = (a # pre) @ x # post \<and> P x \<and> (\<forall>y \<in> set (a # pre). \<not> P y)"
      by simp
    then show ?thesis by blast
  qed
qed

section \<open>Counting marked slots of a table\<close>

lemma filter_update_fresh:
  "s < length xs \<Longrightarrow> \<not> P (xs ! s) \<Longrightarrow> P e \<Longrightarrow>
   length (filter P (xs[s := e])) = length (filter P xs) + 1"
  by (induction xs arbitrary: s) (auto split: nat.splits)

lemma filter_update_same:
  "s < length xs \<Longrightarrow> P (xs ! s) \<Longrightarrow> P e \<Longrightarrow> length (filter P (xs[s := e])) = length (filter P xs)"
  by (induction xs arbitrary: s) (auto split: nat.splits)

lemma unmarked_exists: "length (filter P xs) < length xs \<Longrightarrow> \<exists>i < length xs. \<not> P (xs ! i)"
proof (rule ccontr)
  assume "length (filter P xs) < length xs" "\<not> (\<exists>i < length xs. \<not> P (xs ! i))"
  then have "filter P xs = xs" by (auto simp: filter_id_conv in_set_conv_nth)
  with \<open>length (filter P xs) < length xs\<close> show False by simp
qed

lemma distinct_map_filter:
  assumes "\<And>i j. i < length xs \<Longrightarrow> j < length xs \<Longrightarrow> P (xs ! i) \<Longrightarrow> P (xs ! j) \<Longrightarrow>
    f (xs ! i) = f (xs ! j) \<Longrightarrow> i = j"
  shows "distinct (map f (filter P xs))"
  using assms
proof (induction xs)
  case (Cons x xs)
  have "distinct (map f (filter P xs))"
  proof (rule Cons.IH)
    fix i j
    assume "i < length xs" "j < length xs" "P (xs ! i)" "P (xs ! j)" "f (xs ! i) = f (xs ! j)"
    then show "i = j" using Cons.prems [of "Suc i" "Suc j"] by simp
  qed
  moreover have "f x \<notin> f ` set (filter P xs)" if "P x"
  proof
    assume "f x \<in> f ` set (filter P xs)"
    then obtain j where "j < length xs" "P (xs ! j)" "f x = f (xs ! j)"
      by (auto simp: in_set_conv_nth)
    then show False using Cons.prems [of 0 "Suc j"] that by simp
  qed
  ultimately show ?case by simp
qed simp

section \<open>Where a loop over a list of failing steps stops\<close>

lemma takeWhile_dropWhile_split:
  "dropWhile P xs = [] \<or> (\<exists>y ys. dropWhile P xs = y # ys \<and> \<not> P y)"
  by (induction xs) auto

end
