(* ===== verification/SC_Result.thy ===== *)
theory SC_Result
  imports SC_Prelude
begin

text \<open>
  Status values, \<^verbatim>\<open>src/core/result.c\<close> and \<^verbatim>\<open>include/sc/result.h\<close>. Every operation of the
  runtime reports through \<open>sc_status\<close>; a status carries a code and, when it is an error, a
  stable key. The owned message a few callers attach is kept as a field; the allocator that
  owns it is not part of the value.
\<close>

datatype sc_status_code =
    SC_OK
  | SC_ERR_INVALID_ARGUMENT
  | SC_ERR_NO_MEMORY
  | SC_ERR_IO
  | SC_ERR_PARSE
  | SC_ERR_HTTP
  | SC_ERR_SECURITY_DENIED
  | SC_ERR_UNSUPPORTED
  | SC_ERR_TIMEOUT
  | SC_ERR_CANCELLED

record sc_status =
  code :: sc_status_code
  error_key :: "string option"
  message :: "string option"

definition sc_status_ok :: sc_status where
  "sc_status_ok = \<lparr>code = SC_OK, error_key = None, message = None\<rparr>"

definition sc_status_make :: "sc_status_code \<Rightarrow> string option \<Rightarrow> string option \<Rightarrow> sc_status" where
  "sc_status_make c key msg = \<lparr>code = c, error_key = key, message = msg\<rparr>"

definition sc_status_is_ok :: "sc_status \<Rightarrow> bool" where
  "sc_status_is_ok st \<longleftrightarrow> code st = SC_OK"

definition status_with_key :: "sc_status_code \<Rightarrow> string \<Rightarrow> sc_status" where
  "status_with_key c key = sc_status_make c (Some key) None"

definition sc_status_invalid_argument :: "string \<Rightarrow> sc_status" where
  "sc_status_invalid_argument key = status_with_key SC_ERR_INVALID_ARGUMENT key"

definition sc_status_no_memory :: sc_status where
  "sc_status_no_memory = status_with_key SC_ERR_NO_MEMORY ''sc.core.no_memory''"

definition sc_status_io :: "string \<Rightarrow> sc_status" where
  "sc_status_io key = status_with_key SC_ERR_IO key"

definition sc_status_json :: "string \<Rightarrow> sc_status" where
  "sc_status_json key = status_with_key SC_ERR_PARSE key"

definition sc_status_parse :: "string \<Rightarrow> sc_status" where
  "sc_status_parse key = status_with_key SC_ERR_PARSE key"

definition sc_status_http :: "string \<Rightarrow> sc_status" where
  "sc_status_http key = status_with_key SC_ERR_HTTP key"

definition sc_status_security_denied :: "string \<Rightarrow> sc_status" where
  "sc_status_security_denied key = status_with_key SC_ERR_SECURITY_DENIED key"

definition sc_status_unsupported :: "string \<Rightarrow> sc_status" where
  "sc_status_unsupported key = status_with_key SC_ERR_UNSUPPORTED key"

definition sc_status_timeout :: "string \<Rightarrow> sc_status" where
  "sc_status_timeout key = status_with_key SC_ERR_TIMEOUT key"

definition sc_status_cancelled :: "string \<Rightarrow> sc_status" where
  "sc_status_cancelled key = status_with_key SC_ERR_CANCELLED key"

lemmas status_defs =
  sc_status_ok_def sc_status_make_def status_with_key_def sc_status_invalid_argument_def
  sc_status_no_memory_def sc_status_io_def sc_status_json_def sc_status_parse_def
  sc_status_http_def sc_status_security_denied_def sc_status_unsupported_def
  sc_status_timeout_def sc_status_cancelled_def

lemma is_ok_ok [simp, status_simps]: "sc_status_is_ok sc_status_ok"
  by (simp add: sc_status_is_ok_def sc_status_ok_def)

lemma not_ok_errors [simp, status_simps]:
  "\<not> sc_status_is_ok (sc_status_invalid_argument k)"
  "\<not> sc_status_is_ok sc_status_no_memory"
  "\<not> sc_status_is_ok (sc_status_io k)"
  "\<not> sc_status_is_ok (sc_status_json k)"
  "\<not> sc_status_is_ok (sc_status_parse k)"
  "\<not> sc_status_is_ok (sc_status_http k)"
  "\<not> sc_status_is_ok (sc_status_security_denied k)"
  "\<not> sc_status_is_ok (sc_status_unsupported k)"
  "\<not> sc_status_is_ok (sc_status_timeout k)"
  "\<not> sc_status_is_ok (sc_status_cancelled k)"
  by (simp_all add: sc_status_is_ok_def status_defs)

lemma code_errors [simp, status_simps]:
  "code sc_status_ok = SC_OK"
  "code (sc_status_invalid_argument k) = SC_ERR_INVALID_ARGUMENT"
  "code sc_status_no_memory = SC_ERR_NO_MEMORY"
  "code (sc_status_io k) = SC_ERR_IO"
  "code (sc_status_json k) = SC_ERR_PARSE"
  "code (sc_status_parse k) = SC_ERR_PARSE"
  "code (sc_status_http k) = SC_ERR_HTTP"
  "code (sc_status_security_denied k) = SC_ERR_SECURITY_DENIED"
  "code (sc_status_unsupported k) = SC_ERR_UNSUPPORTED"
  "code (sc_status_timeout k) = SC_ERR_TIMEOUT"
  "code (sc_status_cancelled k) = SC_ERR_CANCELLED"
  by (simp_all add: status_defs)

lemma ok_neq_errors [simp, status_simps]:
  "sc_status_invalid_argument k \<noteq> sc_status_ok"
  "sc_status_no_memory \<noteq> sc_status_ok"
  "sc_status_io k \<noteq> sc_status_ok"
  "sc_status_json k \<noteq> sc_status_ok"
  "sc_status_parse k \<noteq> sc_status_ok"
  "sc_status_security_denied k \<noteq> sc_status_ok"
  "sc_status_unsupported k \<noteq> sc_status_ok"
  "sc_status_cancelled k \<noteq> sc_status_ok"
  by (simp_all add: status_defs)

section \<open>Results with a value\<close>

text \<open>
  A function that fills an out-parameter on success is a sum: \<open>Inl\<close> the error status it
  returns (the out-parameter keeps its old value), \<open>Inr\<close> the value written beside
  \<^verbatim>\<open>SC_OK\<close>.
\<close>

type_synonym 'a res = "sc_status + 'a"

definition res_status :: "'a res \<Rightarrow> sc_status" where
  "res_status r = (case r of Inl e \<Rightarrow> e | Inr _ \<Rightarrow> sc_status_ok)"

lemma res_status_simps [simp]:
  "res_status (Inl e) = e"
  "res_status (Inr v) = sc_status_ok"
  by (simp_all add: res_status_def)

end
