(* ===== verification/SC_Allocator.thy ===== *)
theory SC_Allocator
  imports SC_Result
begin

text \<open>
  Allocation, \<^verbatim>\<open>src/core/allocator.c\<close>. Two views of it are modelled.

  The first is what the clients see: an allocator is a table of function pointers that grant
  or refuse a request. Which requests are granted is decided by code outside the repository
  (the C heap), so it is a parameter: \<open>vtab_alloc\<close> and \<open>vtab_resize\<close> say for every request
  number and sz whether it is granted. Every client theorem holds for every such table, so
  every pattern of allocation failures is covered. \<open>live\<close> counts the blocks handed out and
  not yet freed; it is what the leak-freedom theorems speak about. One allocator state stands
  for all the allocators a call reaches: since requests are numbered, the table can answer for
  several of them.

  The second is the repository's own allocators: the test allocator with its failure budget,
  and the arena with its blocks and alignment arithmetic.
\<close>

section \<open>The allocator interface\<close>

record sc_allocator =
  vtab_alloc :: "(nat \<Rightarrow> nat \<Rightarrow> bool) option"
  vtab_resize :: "(nat \<Rightarrow> nat \<Rightarrow> bool) option"
  requests :: nat
  live :: int

definition sc_alloc :: "nat \<Rightarrow> sc_allocator \<Rightarrow> bool \<times> sc_allocator" where
  "sc_alloc sz a =
     (case vtab_alloc a of
        None \<Rightarrow> (False, a)
      | Some grant \<Rightarrow>
          (if grant (requests a) sz
           then (True, a\<lparr>requests := requests a + 1, live := live a + 1\<rparr>)
           else (False, a\<lparr>requests := requests a + 1\<rparr>)))"

text \<open>
  \<^verbatim>\<open>sc_realloc\<close>: \<open>had\<close> says whether the pointer passed in was non-null; a granted request
  then moves the block, otherwise it hands out a new one.
\<close>

definition sc_realloc :: "bool \<Rightarrow> nat \<Rightarrow> sc_allocator \<Rightarrow> bool \<times> sc_allocator" where
  "sc_realloc had new_size a =
     (case vtab_resize a of
        None \<Rightarrow> (False, a)
      | Some grant \<Rightarrow>
          (if grant (requests a) new_size
           then (True, a\<lparr>requests := requests a + 1,
                         live := (if had then live a else live a + 1)\<rparr>)
           else (False, a\<lparr>requests := requests a + 1\<rparr>)))"

text \<open>\<^verbatim>\<open>sc_free\<close>: nothing for a null pointer.\<close>

definition sc_free :: "bool \<Rightarrow> sc_allocator \<Rightarrow> sc_allocator" where
  "sc_free had a = (if had then a\<lparr>live := live a - 1\<rparr> else a)"

fun sc_secure_zero :: "nat list \<Rightarrow> nat \<Rightarrow> nat list" where
  "sc_secure_zero [] len = []"
| "sc_secure_zero (b # bs) 0 = b # bs"
| "sc_secure_zero (b # bs) (Suc len) = 0 # sc_secure_zero bs len"

lemma secure_zero_eq: "sc_secure_zero bs len = replicate (min len (length bs)) 0 @ drop len bs"
  by (induction bs len rule: sc_secure_zero.induct) auto

text \<open>An allocator that never refuses, for the closed examples.\<close>

definition heap0 :: sc_allocator where
  "heap0 = \<lparr>vtab_alloc = Some (\<lambda>_ _. True), vtab_resize = Some (\<lambda>_ _. True), requests = 0, live = 0\<rparr>"

text \<open>An allocator that grants everything it is asked for.\<close>

definition generous :: "sc_allocator \<Rightarrow> bool" where
  "generous a \<longleftrightarrow> vtab_alloc a = Some (\<lambda>_ _. True) \<and> vtab_resize a = Some (\<lambda>_ _. True)"

lemma generous_heap0: "generous heap0"
  by (simp add: generous_def heap0_def)

lemma generous_alloc [alloc_simps]:
  "generous a \<Longrightarrow> sc_alloc n a = (True, a\<lparr>requests := requests a + 1, live := live a + 1\<rparr>)"
  by (simp add: generous_def sc_alloc_def)

lemma generous_realloc [alloc_simps]:
  "generous a \<Longrightarrow> sc_realloc had n a =
     (True, a\<lparr>requests := requests a + 1, live := (if had then live a else live a + 1)\<rparr>)"
  by (simp add: generous_def sc_realloc_def)

lemma generous_upd [simp]:
  "generous (a\<lparr>requests := r\<rparr>) = generous a"
  "generous (a\<lparr>live := l\<rparr>) = generous a"
  by (simp_all add: generous_def)

lemma generous_free [simp]: "generous (sc_free had a) = generous a"
  by (simp add: sc_free_def)

lemma alloc_cases:
  assumes "sc_alloc n a = (ok, a')"
  shows "live a' = (if ok then live a + 1 else live a)"
  using assms by (auto simp: sc_alloc_def split: option.splits if_splits)

lemma realloc_cases:
  assumes "sc_realloc had n a = (ok, a')"
  shows "live a' = (if ok \<and> \<not> had then live a + 1 else live a)"
  using assms by (auto simp: sc_realloc_def split: option.splits if_splits)

lemma live_free [simp]: "live (sc_free had a) = (if had then live a - 1 else live a)"
  by (simp add: sc_free_def)

section \<open>The test allocator\<close>

text \<open>
  \<^verbatim>\<open>sc_test_allocator\<close> counts and can be told to fail after a number of successful
  requests. \<open>heap\<close> is the C heap underneath: does it serve a request of this sz?
\<close>

record sc_test_allocator =
  allocations :: nat
  deallocations :: nat
  resize_calls :: nat
  fail_after :: nat
  fail_enabled :: bool

definition sc_test_allocator_init :: sc_test_allocator where
  "sc_test_allocator_init =
     \<lparr>allocations = 0, deallocations = 0, resize_calls = 0, fail_after = 0, fail_enabled = False\<rparr>"

definition sc_test_allocator_fail_after :: "sc_test_allocator \<Rightarrow> nat \<Rightarrow> sc_test_allocator" where
  "sc_test_allocator_fail_after t n = t\<lparr>fail_after := n, fail_enabled := True\<rparr>"

definition sc_test_allocator_disable_failures :: "sc_test_allocator \<Rightarrow> sc_test_allocator" where
  "sc_test_allocator_disable_failures t = t\<lparr>fail_enabled := False\<rparr>"

definition should_fail :: "sc_test_allocator \<Rightarrow> bool" where
  "should_fail t \<longleftrightarrow> fail_enabled t \<and> allocations t + resize_calls t \<ge> fail_after t"

text \<open>\<^verbatim>\<open>heap_alloc\<close> and \<^verbatim>\<open>heap_resize\<close> round an empty request up to one byte.\<close>

definition heap_alloc :: "(nat \<Rightarrow> bool) \<Rightarrow> nat \<Rightarrow> bool" where
  "heap_alloc heap sz = heap (if sz = 0 then 1 else sz)"

definition heap_resize :: "(nat \<Rightarrow> bool) \<Rightarrow> nat \<Rightarrow> bool" where
  "heap_resize heap new_size = heap (if new_size = 0 then 1 else new_size)"

definition test_alloc :: "(nat \<Rightarrow> bool) \<Rightarrow> nat \<Rightarrow> sc_test_allocator \<Rightarrow> bool \<times> sc_test_allocator" where
  "test_alloc heap sz t =
     (if should_fail t then (False, t)
      else (heap_alloc heap sz, t\<lparr>allocations := allocations t + 1\<rparr>))"

definition test_resize ::
    "(nat \<Rightarrow> bool) \<Rightarrow> bool \<Rightarrow> nat \<Rightarrow> sc_test_allocator \<Rightarrow> bool \<times> sc_test_allocator" where
  "test_resize heap had new_size t =
     (if should_fail t then (False, t)
      else let t1 = t\<lparr>resize_calls := resize_calls t + 1\<rparr>; nxt = heap_resize heap new_size
           in (nxt, if \<not> had \<and> nxt then t1\<lparr>allocations := allocations t1 + 1\<rparr> else t1))"

definition test_dealloc :: "sc_test_allocator \<Rightarrow> sc_test_allocator" where
  "test_dealloc t = t\<lparr>deallocations := deallocations t + 1\<rparr>"

datatype alloc_op = Op_alloc nat | Op_resize bool nat | Op_dealloc

fun test_op :: "(nat \<Rightarrow> bool) \<Rightarrow> alloc_op \<Rightarrow> sc_test_allocator \<Rightarrow> bool \<times> sc_test_allocator" where
  "test_op heap (Op_alloc n) t = test_alloc heap n t"
| "test_op heap (Op_resize had n) t = test_resize heap had n t"
| "test_op heap Op_dealloc t = (True, test_dealloc t)"

text \<open>The requests (not the releases) that a run of operations granted.\<close>

fun test_run :: "(nat \<Rightarrow> bool) \<Rightarrow> alloc_op list \<Rightarrow> sc_test_allocator \<Rightarrow> nat \<times> sc_test_allocator" where
  "test_run heap [] t = (0, t)"
| "test_run heap (p # ps) t =
     (let (ok, t1) = test_op heap p t; (n, t2) = test_run heap ps t1
      in ((if ok \<and> p \<noteq> Op_dealloc then n + 1 else n), t2))"

lemmas test_defs = test_alloc_def test_resize_def test_dealloc_def should_fail_def Let_def

lemma test_op_budget:
  assumes "test_op heap p t = (ok, t1)" "fail_enabled t" "allocations t + resize_calls t \<le> fail_after t + 1"
  shows "fail_enabled t1 \<and> fail_after t1 = fail_after t
    \<and> allocations t1 + resize_calls t1 \<le> fail_after t1 + 1
    \<and> allocations t + resize_calls t + (if ok \<and> p \<noteq> Op_dealloc then 1 else 0)
        \<le> allocations t1 + resize_calls t1
    \<and> (ok \<and> p \<noteq> Op_dealloc \<longrightarrow> allocations t + resize_calls t < fail_after t)"
  using assms by (cases p) (auto simp: test_defs split: if_splits)

lemma test_run_exhausted:
  "fail_enabled t \<Longrightarrow> fail_after t \<le> allocations t + resize_calls t \<Longrightarrow> fst (test_run heap ps t) = 0"
proof (induction ps arbitrary: t)
  case (Cons p ps)
  obtain ok t1 where op: "test_op heap p t = (ok, t1)" by (cases "test_op heap p t")
  then have "fail_enabled t1" "fail_after t1 \<le> allocations t1 + resize_calls t1" "\<not> ok \<or> p = Op_dealloc"
    using Cons.prems by (cases p; auto simp: test_defs split: if_splits)+
  with Cons.IH [of t1] op show ?case by (auto simp: Let_def split: prod.splits)
qed simp

lemma test_run_budget:
  assumes "test_run heap ps t = (n, t')" "fail_enabled t"
    and "allocations t + resize_calls t \<le> fail_after t + 1"
  shows "n \<le> fail_after t - (allocations t + resize_calls t)"
  using assms
proof (induction ps arbitrary: t n t')
  case Nil
  then show ?case by simp
next
  case (Cons p ps)
  obtain ok t1 where op: "test_op heap p t = (ok, t1)" by (cases "test_op heap p t")
  obtain m t2 where run: "test_run heap ps t1 = (m, t2)" by (cases "test_run heap ps t1")
  note inv = test_op_budget [OF op Cons.prems(2,3)]
  have "m \<le> fail_after t1 - (allocations t1 + resize_calls t1)"
    using Cons.IH [OF run] inv by blast
  with inv Cons.prems(1) op run show ?case
    by (auto split: if_splits)
qed

section \<open>The arena\<close>

text \<open>
  An arena block is its data address, the bytes used and its capacity. Addresses and sizes are
  64-bit; the additions of \<^verbatim>\<open>align_offset\<close> are written with their wrap-around.
\<close>

definition SC_ARENA_DEFAULT_BLOCK_SIZE :: nat where
  "SC_ARENA_DEFAULT_BLOCK_SIZE = 4096"

text \<open>\<^verbatim>\<open>sizeof(sc_arena_block)\<close>: two words, a pointer and a \<^verbatim>\<open>max_align_t\<close>, padded.\<close>

definition SIZEOF_ARENA_BLOCK :: nat where
  "SIZEOF_ARENA_BLOCK = 64"

record sc_arena_block =
  blk_data :: nat
  blk_used :: nat
  blk_cap :: nat

record sc_arena =
  blocks :: "sc_arena_block list"
  default_block_size :: nat

definition sc_arena_init :: "nat \<Rightarrow> sc_arena" where
  "sc_arena_init block_size =
     \<lparr>blocks = [],
      default_block_size = (if block_size = 0 then SC_ARENA_DEFAULT_BLOCK_SIZE else block_size)\<rparr>"

definition align_offset :: "nat \<Rightarrow> nat \<Rightarrow> nat \<Rightarrow> nat" where
  "align_offset base value align =
     (if align = 0 then value
      else let remainder = ((base + value) mod 2 ^ 64) mod align
           in if remainder = 0 then value else (value + (align - remainder)) mod 2 ^ 64)"

text \<open>The walk over the blocks: the first one with room serves the request.\<close>

fun arena_take :: "sc_arena_block list \<Rightarrow> nat \<Rightarrow> nat \<Rightarrow> (nat \<times> sc_arena_block list) option" where
  "arena_take [] sz align = None"
| "arena_take (b # bs) sz align =
     (let start = align_offset (blk_data b) (blk_used b) align
      in if start \<le> blk_cap b \<and> sz \<le> blk_cap b - start
         then Some (blk_data b + start, b\<lparr>blk_used := start + sz\<rparr> # bs)
         else map_option (\<lambda>(p, bs'). (p, b # bs')) (arena_take bs sz align))"

text \<open>
  \<open>parent\<close> is the allocator below the arena: the address of the new block's data for a
  request of that many bytes, or nothing.
\<close>

definition sc_arena_alloc ::
    "(nat \<Rightarrow> nat option) \<Rightarrow> sc_arena \<Rightarrow> nat \<Rightarrow> nat \<Rightarrow> nat option \<times> sc_arena" where
  "sc_arena_alloc parent arena sz align0 =
     (if sz = 0 then (None, arena)
      else (let align = (if align0 = 0 then 8 else align0) in
        (case arena_take (blocks arena) sz align of
           Some (p, bs) \<Rightarrow> (Some p, arena\<lparr>blocks := bs\<rparr>)
         | None \<Rightarrow>
           (case sc_size_add_overflow sz (align - 1) of
              None \<Rightarrow> (None, arena)
            | Some minimum_cap \<Rightarrow>
              (let block_cap = (if default_block_size arena < minimum_cap then minimum_cap
                                else default_block_size arena) in
               (case sc_size_add_overflow SIZEOF_ARENA_BLOCK block_cap of
                  None \<Rightarrow> (None, arena)
                | Some total_size \<Rightarrow>
                  (case parent total_size of
                     None \<Rightarrow> (None, arena)
                   | Some addr \<Rightarrow>
                     (let start = align_offset addr 0 align in
                      (if start > block_cap \<or> sz > block_cap - start then (None, arena)
                       else (Some (addr + start),
                             arena\<lparr>blocks := \<lparr>blk_data = addr, blk_used = start + sz, blk_cap = block_cap\<rparr>
                                              # blocks arena\<rparr>))))))))))"

definition sc_arena_reset :: "sc_arena \<Rightarrow> sc_arena" where
  "sc_arena_reset arena = arena\<lparr>blocks := map (\<lambda>b. b\<lparr>blk_used := 0\<rparr>) (blocks arena)\<rparr>"

definition sc_arena_clear :: "sc_arena \<Rightarrow> sc_arena" where
  "sc_arena_clear arena = arena\<lparr>blocks := []\<rparr>"

text \<open>
  \<^verbatim>\<open>arena_allocator_resize\<close>: shrinking keeps the pointer; growing takes fresh space, and the
  last component is how many bytes are copied over.
\<close>

definition arena_allocator_resize ::
    "(nat \<Rightarrow> nat option) \<Rightarrow> sc_arena \<Rightarrow> nat option \<Rightarrow> nat \<Rightarrow> nat \<Rightarrow> nat
      \<Rightarrow> nat option \<times> sc_arena \<times> nat" where
  "arena_allocator_resize parent arena ptr old_size new_size0 align =
     (let new_size = (if new_size0 = 0 then 1 else new_size0)
      in if ptr \<noteq> None \<and> new_size \<le> old_size then (ptr, arena, 0)
         else let (p, arena') = sc_arena_alloc parent arena new_size align
              in (p, arena', if p \<noteq> None \<and> ptr \<noteq> None \<and> old_size > 0
                             then min old_size new_size else 0))"

subsection \<open>Alignment\<close>

lemma align_offset_no_wrap:
  assumes "0 < align" "base + value < 2 ^ 64" "value + align \<le> 2 ^ 64"
  shows "align_offset base value align =
    (if (base + value) mod align = 0 then value else value + (align - (base + value) mod align))"
proof -
  have "align - (base + value) mod align \<le> align" by simp
  moreover have "(base + value) mod align \<noteq> 0 \<Longrightarrow> align - (base + value) mod align < align"
    using assms(1) by simp
  ultimately have "(base + value) mod align \<noteq> 0
      \<Longrightarrow> value + (align - (base + value) mod align) < 2 ^ 64"
    using assms(3) by linarith
  then show ?thesis
    using assms by (simp add: align_offset_def Let_def)
qed

lemma align_offset_spec:
  assumes "0 < align" "base + value < 2 ^ 64" "value + align \<le> 2 ^ 64"
  shows "align dvd base + align_offset base value align"
    and "value \<le> align_offset base value align"
    and "align_offset base value align < value + align"
proof -
  note eq = align_offset_no_wrap [OF assms]
  have lt: "(base + value) mod align < align" using assms(1) by simp
  show "value \<le> align_offset base value align" by (simp add: eq)
  show "align_offset base value align < value + align" using assms(1) by (auto simp: eq)
  show "align dvd base + align_offset base value align"
  proof (cases "(base + value) mod align = 0")
    case True
    then show ?thesis by (simp add: eq mod_eq_0_iff_dvd)
  next
    case False
    have "base + (value + (align - (base + value) mod align))
        = (base + value) div align * align + align"
      using lt div_mult_mod_eq [of "base + value" align] by linarith
    then have "base + (value + (align - (base + value) mod align))
        = align * ((base + value) div align + 1)"
      by (simp add: algebra_simps)
    then show ?thesis using False by (simp add: eq)
  qed
qed

subsection \<open>Regions handed out are aligned, in bounds and disjoint\<close>

text \<open>
  A region is the address, size and alignment of a granted request. \<open>within\<close>: it lies in the
  used part of a block.
\<close>

type_synonym region = "nat \<times> nat \<times> nat"

fun within :: "region \<Rightarrow> sc_arena_block \<Rightarrow> bool" where
  "within (p, sz, al) b \<longleftrightarrow> blk_data b \<le> p \<and> p + sz \<le> blk_data b + blk_used b"

fun region_disjoint :: "region \<Rightarrow> region \<Rightarrow> bool" where
  "region_disjoint (p, sz, al) (q, sz', al') \<longleftrightarrow> p + sz \<le> q \<or> q + sz' \<le> p"

definition block_wf :: "sc_arena_block \<Rightarrow> bool" where
  "block_wf b \<longleftrightarrow> blk_used b \<le> blk_cap b \<and> blk_cap b \<le> 2 ^ 63 \<and> blk_data b + blk_cap b < 2 ^ 64"

definition block_disjoint :: "sc_arena_block \<Rightarrow> sc_arena_block \<Rightarrow> bool" where
  "block_disjoint b c \<longleftrightarrow> blk_data b + blk_cap b \<le> blk_data c \<or> blk_data c + blk_cap c \<le> blk_data b"

text \<open>
  What the allocator below the arena promises, as the C standard does for \<^verbatim>\<open>malloc\<close>: a block
  fits the address space, is no larger than half of it, and overlaps no block still in use.
\<close>

definition parent_ok :: "(nat \<Rightarrow> nat option) \<Rightarrow> sc_arena \<Rightarrow> bool" where
  "parent_ok parent arena \<longleftrightarrow>
     (\<forall>n addr. parent (SIZEOF_ARENA_BLOCK + n) = Some addr \<longrightarrow>
        n \<le> 2 ^ 63 \<and> addr + n < 2 ^ 64 \<and>
        (\<forall>b \<in> set (blocks arena). addr + n \<le> blk_data b \<or> blk_data b + blk_cap b \<le> addr))"

definition arena_inv :: "sc_arena \<Rightarrow> region list \<Rightarrow> bool" where
  "arena_inv arena rs \<longleftrightarrow>
     (\<forall>b \<in> set (blocks arena). block_wf b) \<and>
     sorted_wrt block_disjoint (blocks arena) \<and>
     (\<forall>r \<in> set rs. \<exists>b \<in> set (blocks arena). within r b) \<and>
     sorted_wrt region_disjoint rs \<and>
     (\<forall>(p, sz, al) \<in> set rs. al dvd p)"

lemma arena_take_spec:
  assumes "arena_take bs sz al = Some (p, bs')" "0 < al" "al \<le> 2 ^ 63"
    and "\<forall>b \<in> set bs. block_wf b"
  shows "\<exists>pre b post. bs = pre @ b # post \<and>
    bs' = pre @ b\<lparr>blk_used := p - blk_data b + sz\<rparr> # post \<and>
    blk_data b + blk_used b \<le> p \<and> p + sz \<le> blk_data b + blk_cap b \<and> al dvd p"
  using assms
proof (induction bs arbitrary: p bs')
  case Nil
  then show ?case by simp
next
  case (Cons b bs)
  define start where "start = align_offset (blk_data b) (blk_used b) al"
  have wf: "block_wf b" using Cons.prems(4) by simp
  have noov: "blk_data b + blk_used b < 2 ^ 64" "blk_used b + al \<le> 2 ^ 64"
    using wf Cons.prems(3) by (auto simp: block_wf_def)
  note al = align_offset_spec [OF Cons.prems(2) noov, folded start_def]
  show ?case
  proof (cases "start \<le> blk_cap b \<and> sz \<le> blk_cap b - start")
    case True
    with Cons.prems(1) have "p = blk_data b + start" "bs' = b\<lparr>blk_used := start + sz\<rparr> # bs"
      by (auto simp: start_def Let_def)
    with True al show ?thesis
      by (intro exI [of _ "[]"] exI [of _ b] exI [of _ bs]) auto
  next
    case False
    with Cons.prems(1) obtain bs'' where t: "arena_take bs sz al = Some (p, bs'')"
      and bs': "bs' = b # bs''"
      unfolding start_def by (auto simp: Let_def split: if_splits)
    have "\<forall>b \<in> set bs. block_wf b" using Cons.prems(4) by simp
    from Cons.IH [OF t Cons.prems(2,3) this] obtain pre c post where
      "bs = pre @ c # post" "bs'' = pre @ c\<lparr>blk_used := p - blk_data c + sz\<rparr> # post"
      "blk_data c + blk_used c \<le> p" "p + sz \<le> blk_data c + blk_cap c" "al dvd p" by blast
    then show ?thesis
      unfolding bs' by (intro exI [of _ "b # pre"] exI [of _ c] exI [of _ post]) auto
  qed
qed

lemma within_grow:
  "within r b \<Longrightarrow> blk_used b \<le> u \<Longrightarrow> within r (b\<lparr>blk_used := u\<rparr>)"
  by (cases r) auto

lemma fresh_region_disjoint:
  assumes "within r c" "c \<in> set bs" "b \<in> set bs" "\<forall>b \<in> set bs. block_wf b"
    and dis: "c = b \<or> block_disjoint b c \<or> block_disjoint c b"
    and "blk_data b + blk_used b \<le> p" "p + sz \<le> blk_data b + blk_cap b"
  shows "region_disjoint (p, sz, al) r"
proof -
  obtain q s a where r: "r = (q, s, a)" by (cases r)
  have "blk_used c \<le> blk_cap c" using assms(2,4) by (simp add: block_wf_def)
  then show ?thesis
    using assms(1,6,7) dis unfolding r block_disjoint_def by (cases "c = b") auto
qed

lemma sorted_wrt_member_rel:
  assumes "sorted_wrt R xs" "x \<in> set xs" "y \<in> set xs"
  shows "x = y \<or> R x y \<or> R y x"
  using assms by (induction xs) auto

lemma arena_inv_within:
  "arena_inv arena rs \<Longrightarrow> r \<in> set rs \<Longrightarrow> \<exists>c \<in> set (blocks arena). within r c"
  by (simp add: arena_inv_def)

lemma arena_inv_take:
  assumes inv: "arena_inv arena rs" and "0 < al" "al \<le> 2 ^ 63"
    and t: "arena_take (blocks arena) sz al = Some (p, bs')"
  shows "arena_inv (arena\<lparr>blocks := bs'\<rparr>) ((p, sz, al) # rs)"
proof -
  have wf: "\<forall>b \<in> set (blocks arena). block_wf b" using inv by (simp add: arena_inv_def)
  from arena_take_spec [OF t assms(2,3) wf] obtain pre b post where
    bs: "blocks arena = pre @ b # post" and bs': "bs' = pre @ b\<lparr>blk_used := p - blk_data b + sz\<rparr> # post"
    and lo: "blk_data b + blk_used b \<le> p" and hi: "p + sz \<le> blk_data b + blk_cap b" and dv: "al dvd p" by blast
  have b: "b \<in> set (blocks arena)" by (simp add: bs)
  have fresh: "\<forall>r \<in> set rs. region_disjoint (p, sz, al) r"
  proof
    fix r assume "r \<in> set rs"
    from arena_inv_within [OF inv this]
    obtain c where c: "c \<in> set (blocks arena)" "within r c" by blast
    have "c = b \<or> block_disjoint b c \<or> block_disjoint c b"
      using sorted_wrt_member_rel [of block_disjoint "blocks arena" c b] inv c(1) b
      by (auto simp: arena_inv_def)
    from fresh_region_disjoint [OF c(2,1) b wf this lo hi]
    show "region_disjoint (p, sz, al) r" .
  qed
  have w: "\<exists>c \<in> set bs'. within r c" if "r \<in> set rs" for r
  proof -
    from arena_inv_within [OF inv that]
    obtain c where c: "c \<in> set (blocks arena)" "within r c" by blast
    show ?thesis
    proof (cases "c = b")
      case True
      with c(2) lo have "within r (b\<lparr>blk_used := p - blk_data b + sz\<rparr>)" by (intro within_grow) auto
      then show ?thesis by (auto simp: bs')
    next
      case False
      with c show ?thesis by (auto simp: bs bs')
    qed
  qed
  have "within (p, sz, al) (b\<lparr>blk_used := p - blk_data b + sz\<rparr>)" using lo by auto
  moreover have "block_wf (b\<lparr>blk_used := p - blk_data b + sz\<rparr>)"
    using wf b lo hi by (auto simp: block_wf_def)
  moreover have "sorted_wrt block_disjoint bs'"
    using inv unfolding arena_inv_def bs bs' by (auto simp: sorted_wrt_append block_disjoint_def)
  ultimately show ?thesis
    using inv w fresh dv unfolding arena_inv_def bs bs' by auto
qed

lemma arena_inv_new_block:
  assumes inv: "arena_inv arena rs" and al: "0 < al" "al \<le> 2 ^ 63"
    and start: "start = align_offset addr 0 al" "start + sz \<le> n"
    and n: "n \<le> 2 ^ 63" "addr + n < 2 ^ 64"
    and apart: "\<forall>b \<in> set (blocks arena). addr + n \<le> blk_data b \<or> blk_data b + blk_cap b \<le> addr"
  shows "arena_inv (arena\<lparr>blocks := \<lparr>blk_data = addr, blk_used = start + sz, blk_cap = n\<rparr> # blocks arena\<rparr>)
    ((addr + start, sz, al) # rs)"
proof -
  have "al dvd addr + start"
    using align_offset_spec(1) [of al addr 0] al n start(1) by simp
  moreover have "region_disjoint (addr + start, sz, al) r" if "r \<in> set rs" for r
  proof -
    from arena_inv_within [OF inv that]
    obtain c where c: "c \<in> set (blocks arena)" "within r c" by blast
    obtain q s a where r: "r = (q, s, a)" by (cases r)
    have "blk_used c \<le> blk_cap c" using inv c(1) by (auto simp: arena_inv_def block_wf_def)
    with c apart start(2) show ?thesis unfolding r by fastforce
  qed
  ultimately show ?thesis
    using inv n start(2) apart unfolding arena_inv_def
    by (auto simp: block_wf_def block_disjoint_def)
qed

text \<open>The histories of an arena: requests in any order, and resets.\<close>

inductive arena_reach :: "sc_arena \<Rightarrow> region list \<Rightarrow> bool" where
  init: "arena_reach (sc_arena_init n) []"
| granted: "arena_reach arena rs \<Longrightarrow> parent_ok parent arena \<Longrightarrow> al \<le> 2 ^ 63 \<Longrightarrow>
    sc_arena_alloc parent arena sz al = (Some p, arena') \<Longrightarrow>
    arena_reach arena' ((p, sz, if al = 0 then 8 else al) # rs)"
| refused: "arena_reach arena rs \<Longrightarrow> sc_arena_alloc parent arena sz al = (None, arena') \<Longrightarrow>
    arena_reach arena' rs"
| reset: "arena_reach arena rs \<Longrightarrow> arena_reach (sc_arena_reset arena) []"

lemma arena_refused_unchanged:
  "sc_arena_alloc parent arena sz al = (None, arena') \<Longrightarrow> arena' = arena"
  by (auto simp: sc_arena_alloc_def Let_def split: if_splits option.splits prod.splits)

lemma arena_inv_alloc:
  assumes "arena_inv arena rs" "parent_ok parent arena" "al \<le> 2 ^ 63"
    and alloc: "sc_arena_alloc parent arena sz al = (Some p, arena')"
  shows "arena_inv arena' ((p, sz, if al = 0 then 8 else al) # rs)"
proof -
  define al' where "al' = (if al = 0 then 8 else al)"
  have al': "0 < al'" "al' \<le> 2 ^ 63" using assms(3) by (auto simp: al'_def)
  show ?thesis
  proof (cases "arena_take (blocks arena) sz al'")
    case (Some r)
    with alloc have "arena' = arena\<lparr>blocks := snd r\<rparr>" "p = fst r"
      by (auto simp: sc_arena_alloc_def Let_def al'_def split: if_splits option.splits prod.splits)
    with Some have "arena_inv arena' ((p, sz, al') # rs)"
      using arena_inv_take [OF assms(1) al', of sz p "snd r"] by simp
    then show ?thesis by (simp add: al'_def)
  next
    case None
    define n where "n = (if default_block_size arena < sz + (al' - 1) then sz + (al' - 1)
      else default_block_size arena)"
    from None alloc obtain addr where
      par: "parent (SIZEOF_ARENA_BLOCK + n) = Some addr"
      and fit: "align_offset addr 0 al' + sz \<le> n"
      and p: "p = addr + align_offset addr 0 al'"
      and arena': "arena' = arena\<lparr>blocks :=
            \<lparr>blk_data = addr, blk_used = align_offset addr 0 al' + sz, blk_cap = n\<rparr> # blocks arena\<rparr>"
      unfolding sc_arena_alloc_def Let_def al'_def [symmetric]
      by (auto simp: n_def sc_size_add_overflow_def split: if_splits option.splits)
    have apart: "n \<le> 2 ^ 63" "addr + n < 2 ^ 64"
      "\<forall>b \<in> set (blocks arena). addr + n \<le> blk_data b \<or> blk_data b + blk_cap b \<le> addr"
      using assms(2) par unfolding parent_ok_def by blast+
    from arena_inv_new_block [OF assms(1) al' refl fit apart]
    show ?thesis unfolding p arena' al'_def .
  qed
qed

lemma block_disjoint_used [simp]:
  "block_disjoint (b\<lparr>blk_used := u\<rparr>) c = block_disjoint b c"
  "block_disjoint b (c\<lparr>blk_used := u\<rparr>) = block_disjoint b c"
  by (simp_all add: block_disjoint_def)

lemma arena_reach_inv: "arena_reach arena rs \<Longrightarrow> arena_inv arena rs"
proof (induction rule: arena_reach.induct)
  case (init n)
  show ?case by (simp add: arena_inv_def sc_arena_init_def)
next
  case (granted arena rs parent al sz p arena')
  then show ?case by (blast intro: arena_inv_alloc)
next
  case (refused arena rs parent sz al arena')
  then show ?case using arena_refused_unchanged by blast
next
  case (reset arena rs)
  then show ?case
    by (auto simp: arena_inv_def sc_arena_reset_def block_wf_def sorted_wrt_map)
qed

text \<open>
  The check after a new block is taken never fails: the block was sized with the alignment
  slack.
\<close>

lemma new_block_fits:
  assumes "0 < al" "addr < 2 ^ 64" "al \<le> 2 ^ 63" "sz + (al - 1) \<le> n"
  shows "align_offset addr 0 al \<le> n \<and> sz \<le> n - align_offset addr 0 al"
  using align_offset_spec(3) [of al addr 0] assms by auto

end
