(* ===== verification/SC_String.thy ===== *)
theory SC_String
  imports SC_Allocator
begin

text \<open>
  Borrowed and owned strings, byte buffers and the string builder: \<^verbatim>\<open>src/core/string.c\<close> and
  \<^verbatim>\<open>src/core/buffer.c\<close>. Characters are bytes.

  A borrowed \<open>sc_str\<close> is a pointer with a length. \<open>Str bs\<close> is a non-null pointer to the bytes
  \<open>bs\<close> with their length; \<open>NullStr n\<close> is the null pointer with a claimed length \<open>n\<close>, which
  callers can pass and which the code rejects when \<open>n > 0\<close>. An owned \<open>sc_string\<close> is \<open>None\<close>
  when its pointer is null (the zeroed struct) and \<open>Some bs\<close> when it owns a block holding
  \<open>bs\<close> and a terminating NUL. String literals of the C code, \<^verbatim>\<open>sc_str_from_cstr("...")\<close>,
  are written \<open>Str ''...''\<close>.
\<close>

section \<open>Borrowed strings\<close>

datatype sc_str = Str string | NullStr nat

fun str_len :: "sc_str \<Rightarrow> nat" where
  "str_len (Str bs) = length bs"
| "str_len (NullStr n) = n"

fun ptr_null :: "sc_str \<Rightarrow> bool" where
  "ptr_null (Str bs) = False"
| "ptr_null (NullStr n) = True"

text \<open>The bytes behind the pointer; none for the null pointer.\<close>

fun str_bytes :: "sc_str \<Rightarrow> string" where
  "str_bytes (Str bs) = bs"
| "str_bytes (NullStr n) = []"

definition sc_str_from_cstr :: "string option \<Rightarrow> sc_str" where
  "sc_str_from_cstr p = (case p of None \<Rightarrow> NullStr 0 | Some s \<Rightarrow> Str (takeWhile (\<lambda>c. c \<noteq> CHR 0x00) s))"

definition sc_str_equal :: "sc_str \<Rightarrow> sc_str \<Rightarrow> bool" where
  "sc_str_equal left right =
     (if str_len left \<noteq> str_len right then False
      else if str_len left = 0 then True
      else if ptr_null left \<or> ptr_null right then False
      else str_bytes left = str_bytes right)"

text \<open>The null-for-empty default: \<^verbatim>\<open>s.ptr == nullptr ? sc_str_from_cstr("") : s\<close>.\<close>

definition str_or_empty :: "sc_str \<Rightarrow> sc_str" where
  "str_or_empty s = (if ptr_null s then Str '''' else s)"

lemma str_equal_Str [simp, str_simps]: "sc_str_equal (Str a) (Str b) \<longleftrightarrow> a = b"
  by (auto simp: sc_str_equal_def)

lemma str_equal_refl_iff: "sc_str_equal s s \<longleftrightarrow> \<not> ptr_null s \<or> str_len s = 0"
  by (cases s) (auto simp: sc_str_equal_def)

lemma str_equal_sym: "sc_str_equal s t = sc_str_equal t s"
  by (auto simp: sc_str_equal_def)

lemma str_equal_bytes: "sc_str_equal s t \<Longrightarrow> str_bytes s = str_bytes t"
  by (cases s; cases t) (auto simp: sc_str_equal_def split: if_splits)

lemma str_equal_trans: "sc_str_equal s t \<Longrightarrow> sc_str_equal t u \<Longrightarrow> sc_str_equal s u"
  by (cases s; cases t; cases u) (auto simp: sc_str_equal_def split: if_splits)

lemma from_cstr_literal: "CHR 0x00 \<notin> set s \<Longrightarrow> sc_str_from_cstr (Some s) = Str s"
proof -
  assume "CHR 0x00 \<notin> set s"
  then have "takeWhile (\<lambda>c. c \<noteq> CHR 0x00) s = s"
    by (intro takeWhile_eq_all_conv [THEN iffD2]) auto
  then show ?thesis by (simp add: sc_str_from_cstr_def)
qed

section \<open>Owned strings\<close>

type_synonym sc_string = "string option"

fun sc_string_as_str :: "sc_string \<Rightarrow> sc_str" where
  "sc_string_as_str None = NullStr 0"
| "sc_string_as_str (Some bs) = Str bs"

text \<open>The text of an owned string; empty for the null pointer.\<close>

abbreviation owned_text :: "sc_string \<Rightarrow> string" where
  "owned_text s \<equiv> str_bytes (sc_string_as_str s)"

definition string_len :: "sc_string \<Rightarrow> nat" where
  "string_len s = str_len (sc_string_as_str s)"

lemma string_len_simps [simp, str_simps]:
  "string_len None = 0"
  "string_len (Some bs) = length bs"
  by (simp_all add: string_len_def)

definition sc_string_is_empty :: "sc_string \<Rightarrow> bool" where
  "sc_string_is_empty s \<longleftrightarrow> string_len s = 0"

text \<open>
  \<^verbatim>\<open>sc_string_from_str\<close>: copy into a fresh block of \<^verbatim>\<open>len + 1\<close> bytes.
\<close>

definition sc_string_from_str :: "sc_str \<Rightarrow> sc_allocator \<Rightarrow> sc_string res \<times> sc_allocator" where
  "sc_string_from_str input a =
     (if str_len input > 0 \<and> ptr_null input
      then (Inl (sc_status_invalid_argument ''sc.string.invalid_argument''), a)
      else if str_len input = SIZE_MAX then (Inl sc_status_no_memory, a)
      else (let (ok, a') = sc_alloc (str_len input + 1) a in
            (if ok then (Inr (Some (str_bytes input)), a') else (Inl sc_status_no_memory, a'))))"

definition sc_string_from_cstr :: "string option \<Rightarrow> sc_allocator \<Rightarrow> sc_string res \<times> sc_allocator" where
  "sc_string_from_cstr input a = sc_string_from_str (sc_str_from_cstr input) a"

definition sc_string_redacted :: "sc_allocator \<Rightarrow> sc_string res \<times> sc_allocator" where
  "sc_string_redacted a = sc_string_from_cstr (Some ''[REDACTED]'') a"

text \<open>\<^verbatim>\<open>sc_string_clear\<close> frees the block, if any; the struct is zeroed (\<open>None\<close>).\<close>

definition sc_string_clear :: "sc_string \<Rightarrow> sc_allocator \<Rightarrow> sc_allocator" where
  "sc_string_clear s a = sc_free (s \<noteq> None) a"

text \<open>Blocks an owned string holds.\<close>

definition string_blocks :: "sc_string \<Rightarrow> int" where
  "string_blocks s = (if s = None then 0 else 1)"

lemma string_blocks_simps [simp, str_simps]:
  "string_blocks None = 0"
  "string_blocks (Some bs) = 1"
  by (simp_all add: string_blocks_def)

lemma live_string_clear [simp]: "live (sc_string_clear s a) = live a - string_blocks s"
  by (simp add: sc_string_clear_def string_blocks_def)

lemma generous_string_clear [simp]: "generous (sc_string_clear s a) = generous a"
  by (simp add: sc_string_clear_def)

text \<open>The three outcomes of a copy, with the blocks they leave behind.\<close>

lemma string_from_str_cases:
  assumes "sc_string_from_str input a = (r, a')"
  obtains (copied) bs where "r = Inr (Some bs)" "bs = str_bytes input" "str_len input = length bs"
      "live a' = live a + 1"
  | (invalid) n where "r = Inl (sc_status_invalid_argument ''sc.string.invalid_argument'')"
      "input = NullStr n" "0 < n" "live a' = live a"
  | (no_memory) "r = Inl sc_status_no_memory" "live a' = live a"
proof -
  have "\<exists>bs. r = Inr (Some bs) \<and> bs = str_bytes input \<and> str_len input = length bs
          \<and> live a' = live a + 1"
    if "\<nexists>n. r = Inl (sc_status_invalid_argument ''sc.string.invalid_argument'')
          \<and> input = NullStr n \<and> 0 < n \<and> live a' = live a"
      and "\<not> (r = Inl sc_status_no_memory \<and> live a' = live a)"
    using assms that
    by (cases input) (auto simp: sc_string_from_str_def split: if_splits prod.splits dest: alloc_cases)
  with copied invalid no_memory show thesis by blast
qed

lemma string_from_str_Inr:
  "sc_string_from_str input a = (Inr s, a') \<Longrightarrow>
     s = Some (str_bytes input) \<and> live a' = live a + 1 \<and> str_len input = length (str_bytes input)"
  by (erule string_from_str_cases) auto

lemma string_from_str_Inl:
  "sc_string_from_str input a = (Inl e, a') \<Longrightarrow> \<not> sc_status_is_ok e \<and> live a' = live a"
  by (erule string_from_str_cases) auto

lemma string_from_str_Str_Inl:
  "sc_string_from_str (Str bs) a = (Inl e, a') \<Longrightarrow> e = sc_status_no_memory"
  by (erule string_from_str_cases) auto

lemma string_from_str_generous:
  assumes "generous a" "length bs < SIZE_MAX"
  shows "\<exists>a'. sc_string_from_str (Str bs) a = (Inr (Some bs), a') \<and> generous a'"
  using assms by (simp add: sc_string_from_str_def generous_alloc)

section \<open>Byte buffers\<close>

text \<open>
  \<^verbatim>\<open>sc_bytes\<close>: the first \<^verbatim>\<open>len\<close> bytes of a block of \<^verbatim>\<open>cap\<close> bytes; \<open>held\<close> is a
  non-null pointer.
\<close>

record sc_bytes =
  contents :: string
  bcap :: nat
  held :: bool

definition bytes_zero :: sc_bytes where
  "bytes_zero = \<lparr>contents = [], bcap = 0, held = False\<rparr>"

definition sc_bytes_init :: sc_bytes where
  "sc_bytes_init = bytes_zero"

definition sc_bytes_reserve ::
    "sc_bytes \<Rightarrow> nat \<Rightarrow> sc_allocator \<Rightarrow> sc_status \<times> sc_bytes \<times> sc_allocator" where
  "sc_bytes_reserve b additional a =
     (case sc_size_add_overflow (length (contents b)) additional of
        None \<Rightarrow> (sc_status_no_memory, b, a)
      | Some needed \<Rightarrow>
          (if needed \<le> bcap b then (sc_status_ok, b, a)
           else (let new_cap = grow_cap needed (if bcap b = 0 then 16 else bcap b);
                     (ok, a') = sc_realloc (held b) new_cap a in
                 (if ok then (sc_status_ok, b\<lparr>bcap := new_cap, held := True\<rparr>, a')
                  else (sc_status_no_memory, b, a')))))"

definition sc_bytes_append ::
    "sc_bytes \<Rightarrow> sc_str \<Rightarrow> sc_allocator \<Rightarrow> sc_status \<times> sc_bytes \<times> sc_allocator" where
  "sc_bytes_append b input a =
     (if str_len input > 0 \<and> ptr_null input
      then (sc_status_invalid_argument ''sc.bytes.invalid_argument'', b, a)
      else (case sc_size_add_overflow (str_len input) 1 of
              None \<Rightarrow> (sc_status_no_memory, b, a)
            | Some additional \<Rightarrow>
                (let (st, b', a') = sc_bytes_reserve b additional a in
                 (if \<not> sc_status_is_ok st then (st, b', a')
                  else (sc_status_ok, b'\<lparr>contents := contents b' @ str_bytes input\<rparr>, a')))))"

definition sc_bytes_clear :: "sc_bytes \<Rightarrow> sc_allocator \<Rightarrow> sc_bytes \<times> sc_allocator" where
  "sc_bytes_clear b a = (bytes_zero, sc_free (held b) a)"

definition sc_bytes_from_buf :: "sc_str \<Rightarrow> sc_allocator \<Rightarrow> sc_bytes res \<times> sc_allocator" where
  "sc_bytes_from_buf input a =
     (if str_len input > 0 \<and> ptr_null input
      then (Inl (sc_status_invalid_argument ''sc.bytes.invalid_argument''), a)
      else (let (st, b, a') = sc_bytes_append sc_bytes_init input a in
            (if \<not> sc_status_is_ok st then (Inl st, snd (sc_bytes_clear b a'))
             else (Inr b, a'))))"

text \<open>
  Between operations a buffer is either unallocated and empty, or its block has room for the
  bytes and one terminating NUL.
\<close>

definition bytes_inv :: "sc_bytes \<Rightarrow> bool" where
  "bytes_inv b \<longleftrightarrow>
     (held b \<longleftrightarrow> 0 < bcap b) \<and> (contents b \<noteq> [] \<longrightarrow> length (contents b) < bcap b) \<and> bcap b \<le> SIZE_MAX"

definition bytes_blocks :: "sc_bytes \<Rightarrow> int" where
  "bytes_blocks b = (if held b then 1 else 0)"

lemma bytes_inv_init [simp]: "bytes_inv sc_bytes_init" "bytes_inv bytes_zero"
  by (simp_all add: bytes_inv_def sc_bytes_init_def bytes_zero_def)

lemma bytes_reserve_spec:
  assumes "sc_bytes_reserve b n a = (st, b', a')" "bytes_inv b"
  shows "contents b' = contents b"
    and "live a' = live a + bytes_blocks b' - bytes_blocks b"
    and "sc_status_is_ok st \<Longrightarrow> length (contents b) + n \<le> bcap b'"
    and "sc_status_is_ok st \<Longrightarrow> (held b' \<longleftrightarrow> 0 < bcap b') \<and> bcap b' \<le> SIZE_MAX"
    and "\<not> sc_status_is_ok st \<Longrightarrow> b' = b"
    and "sc_status_is_ok st \<or> st = sc_status_no_memory"
proof -
  define c0 where "c0 = (if bcap b = 0 then 16 else bcap b)"
  have c0: "0 < c0" "c0 \<le> SIZE_MAX"
    using assms(2) by (auto simp: c0_def bytes_inv_def SIZE_MAX_def)
  note def = assms(1) [unfolded sc_bytes_reserve_def, folded c0_def]
  show "contents b' = contents b" "\<not> sc_status_is_ok st \<Longrightarrow> b' = b"
    "sc_status_is_ok st \<or> st = sc_status_no_memory"
    using def by (auto split: option.splits if_splits prod.splits simp: Let_def)
  show "live a' = live a + bytes_blocks b' - bytes_blocks b"
    using def by (auto split: option.splits if_splits prod.splits simp: Let_def bytes_blocks_def
        dest!: realloc_cases)
  show "sc_status_is_ok st \<Longrightarrow> length (contents b) + n \<le> bcap b'"
    using def grow_cap_ge [OF c0(1)]
    by (auto split: option.splits if_splits prod.splits simp: Let_def dest!: size_add_SomeD)
  show "sc_status_is_ok st \<Longrightarrow> (held b' \<longleftrightarrow> 0 < bcap b') \<and> bcap b' \<le> SIZE_MAX"
    using def assms(2) grow_cap_pos [OF c0(1)] grow_cap_le_SIZE_MAX [OF _ c0(2)]
    by (auto split: option.splits if_splits prod.splits simp: Let_def bytes_inv_def
        dest!: size_add_SomeD)
qed

lemma bytes_append_spec:
  assumes "sc_bytes_append b input a = (st, b', a')" "bytes_inv b"
  shows "bytes_inv b'"
    and "live a' = live a + bytes_blocks b' - bytes_blocks b"
    and "sc_status_is_ok st \<Longrightarrow> contents b' = contents b @ str_bytes input \<and> held b'"
    and "\<not> sc_status_is_ok st \<Longrightarrow> b' = b"
proof -
  obtain st1 b1 a1 where res: "sc_bytes_reserve b (str_len input + 1) a = (st1, b1, a1)"
    by (cases "sc_bytes_reserve b (str_len input + 1) a") auto
  note sp = bytes_reserve_spec [OF res assms(2)]
  have len: "\<not> (str_len input > 0 \<and> ptr_null input) \<Longrightarrow> length (str_bytes input) = str_len input"
    by (cases input) auto
  note d = assms(1) [unfolded sc_bytes_append_def]
  show "\<not> sc_status_is_ok st \<Longrightarrow> b' = b"
    using d res sp by (auto split: if_splits option.splits dest!: size_add_SomeD)
  show "sc_status_is_ok st \<Longrightarrow> contents b' = contents b @ str_bytes input \<and> held b'"
    using d res sp by (auto split: if_splits option.splits dest!: size_add_SomeD)
  show "live a' = live a + bytes_blocks b' - bytes_blocks b"
    using d res sp(2) by (auto split: if_splits option.splits dest!: size_add_SomeD simp: bytes_blocks_def)
  show "bytes_inv b'"
    using d res sp(1,3,4,5) len assms(2)
    by (auto split: if_splits option.splits dest!: size_add_SomeD simp: bytes_inv_def)
qed

section \<open>The string builder\<close>

type_synonym sc_string_builder = sc_bytes

definition sc_string_builder_init :: sc_string_builder where
  "sc_string_builder_init = sc_bytes_init"

definition sc_string_builder_append ::
    "sc_string_builder \<Rightarrow> sc_str \<Rightarrow> sc_allocator \<Rightarrow> sc_status \<times> sc_string_builder \<times> sc_allocator" where
  "sc_string_builder_append b input a =
     (let (st, b', a') = sc_bytes_append b input a in
      (if \<not> sc_status_is_ok st then (st, b', a') else (sc_status_ok, b', a')))"

definition sc_string_builder_finish :: "sc_string_builder \<Rightarrow> sc_string \<times> sc_string_builder" where
  "sc_string_builder_finish b = (if held b then Some (contents b) else None, bytes_zero)"

definition sc_string_builder_clear ::
    "sc_string_builder \<Rightarrow> sc_allocator \<Rightarrow> sc_string_builder \<times> sc_allocator" where
  "sc_string_builder_clear b a = sc_bytes_clear b a"

text \<open>
  The pattern the clients use: append the parts in order while the status is ok, then finish,
  or clear on the first failure.
\<close>

fun builder_appends ::
    "sc_str list \<Rightarrow> sc_string_builder \<Rightarrow> sc_allocator \<Rightarrow> sc_status \<times> sc_string_builder \<times> sc_allocator" where
  "builder_appends [] b a = (sc_status_ok, b, a)"
| "builder_appends (p # ps) b a =
     (let (st, b', a') = sc_string_builder_append b p a in
      (if sc_status_is_ok st then builder_appends ps b' a' else (st, b', a')))"

definition build_string :: "sc_str list \<Rightarrow> sc_allocator \<Rightarrow> sc_string res \<times> sc_allocator" where
  "build_string parts a =
     (let (st, b, a') = builder_appends parts sc_string_builder_init a in
      (if sc_status_is_ok st then (Inr (fst (sc_string_builder_finish b)), a')
       else (Inl st, snd (sc_string_builder_clear b a'))))"

lemma builder_append_spec:
  assumes "sc_string_builder_append b input a = (st, b', a')" "bytes_inv b"
  shows "bytes_inv b'"
    and "live a' = live a + bytes_blocks b' - bytes_blocks b"
    and "sc_status_is_ok st \<Longrightarrow> contents b' = contents b @ str_bytes input \<and> held b'"
    and "\<not> sc_status_is_ok st \<Longrightarrow> b' = b"
proof -
  obtain st1 b1 a1 where ap: "sc_bytes_append b input a = (st1, b1, a1)"
    by (cases "sc_bytes_append b input a") auto
  note sp = bytes_append_spec [OF ap assms(2)]
  have eq: "b' = b1" "a' = a1" "sc_status_is_ok st = sc_status_is_ok st1"
    using assms(1) ap by (auto simp: sc_string_builder_append_def split: if_splits)
  show "bytes_inv b'"
    and "live a' = live a + bytes_blocks b' - bytes_blocks b"
    and "sc_status_is_ok st \<Longrightarrow> contents b' = contents b @ str_bytes input \<and> held b'"
    and "\<not> sc_status_is_ok st \<Longrightarrow> b' = b"
    using sp by (simp_all add: eq)
qed

lemma builder_appends_spec:
  assumes "builder_appends ps b a = (st, b', a')" "bytes_inv b"
  shows "bytes_inv b' \<and> live a' = live a + bytes_blocks b' - bytes_blocks b
    \<and> (sc_status_is_ok st \<longrightarrow> contents b' = contents b @ concat (map str_bytes ps)
                              \<and> (held b' \<longleftrightarrow> held b \<or> ps \<noteq> []))"
  using assms
proof (induction ps arbitrary: b a)
  case Nil
  then show ?case by auto
next
  case (Cons p ps)
  obtain st1 b1 a1 where ap: "sc_string_builder_append b p a = (st1, b1, a1)"
    by (cases "sc_string_builder_append b p a") auto
  note sp = builder_append_spec [OF ap Cons.prems(2)]
  show ?case
  proof (cases "sc_status_is_ok st1")
    case True
    with Cons.prems(1) ap have "builder_appends ps b1 a1 = (st, b', a')" by simp
    from Cons.IH [OF this sp(1)] sp(2,3) True show ?thesis by auto
  next
    case False
    with Cons.prems(1) ap sp show ?thesis by auto
  qed
qed

lemma build_string_spec:
  assumes "build_string ps a = (r, a')"
  shows "(\<forall>s. r = Inr s \<longrightarrow> live a' = live a + string_blocks s
            \<and> (if ps = [] then s = None else s = Some (concat (map str_bytes ps))))
    \<and> (\<forall>e. r = Inl e \<longrightarrow> live a' = live a \<and> \<not> sc_status_is_ok e)"
proof -
  obtain st b a1 where ap: "builder_appends ps sc_string_builder_init a = (st, b, a1)"
    by (cases "builder_appends ps sc_string_builder_init a") auto
  have "bytes_inv sc_string_builder_init" by (simp add: sc_string_builder_init_def)
  note sp = builder_appends_spec [OF ap this]
  show ?thesis
    using assms ap sp
    by (auto simp: build_string_def sc_string_builder_finish_def sc_string_builder_clear_def
        sc_bytes_clear_def bytes_blocks_def sc_string_builder_init_def sc_bytes_init_def
        bytes_zero_def split: if_splits)
qed

end
