(* ===== verification/SC_Utf8.thy ===== *)
theory SC_Utf8
  imports SC_String
begin

text \<open>
  UTF-8: the validator \<^verbatim>\<open>sc_str_is_valid_utf8\<close> of \<^verbatim>\<open>src/core/string.c\<close> and the encoder
  \<^verbatim>\<open>append_utf8_codepoint\<close> of \<^verbatim>\<open>src/json/json.c\<close>. Bytes are natural numbers below 256;
  the bit operations are those of the code. The theorem of this theory is that the validator
  accepts exactly the concatenations of encodings of Unicode scalar values: no overlong form,
  no surrogate, nothing above U+10FFFF and no truncated sequence.
\<close>

unbundle bit_operations_syntax

section \<open>The validator\<close>

text \<open>The lead byte: how many bytes the sequence needs and the payload bits of the lead.\<close>

definition utf8_lead :: "nat \<Rightarrow> (nat \<times> nat) option" where
  "utf8_lead byte =
     (if byte AND 0xE0 = 0xC0 then Some (2, byte AND 0x1F)
      else if byte AND 0xF0 = 0xE0 then Some (3, byte AND 0x0F)
      else if byte AND 0xF8 = 0xF0 then Some (4, byte AND 0x07)
      else None)"

text \<open>The inner loop over the continuation bytes.\<close>

fun utf8_cont :: "nat \<Rightarrow> nat list \<Rightarrow> nat \<Rightarrow> nat option" where
  "utf8_cont 0 bs codepoint = Some codepoint"
| "utf8_cont (Suc k) [] codepoint = None"
| "utf8_cont (Suc k) (c # cs) codepoint =
     (if c AND 0xC0 \<noteq> 0x80 then None
      else utf8_cont k cs (push_bit 6 codepoint OR (c AND 0x3F)))"

definition utf8_bad :: "nat \<Rightarrow> nat \<Rightarrow> bool" where
  "utf8_bad needed codepoint \<longleftrightarrow>
     (needed = 2 \<and> codepoint < 0x80) \<or> (needed = 3 \<and> codepoint < 0x800) \<or>
     (needed = 4 \<and> codepoint < 0x10000) \<or> codepoint > 0x10FFFF \<or>
     (0xD800 \<le> codepoint \<and> codepoint \<le> 0xDFFF)"

function utf8_valid :: "nat list \<Rightarrow> bool" where
  "utf8_valid [] = True"
| "utf8_valid (byte # bs) =
     (if byte \<le> 0x7F then utf8_valid bs
      else (case utf8_lead byte of
              None \<Rightarrow> False
            | Some (needed, cp0) \<Rightarrow>
                (if length (byte # bs) < needed then False
                 else (case utf8_cont (needed - 1) bs cp0 of
                         None \<Rightarrow> False
                       | Some codepoint \<Rightarrow>
                           (if utf8_bad needed codepoint then False
                            else utf8_valid (drop (needed - 1) bs))))))"
  by pat_completeness auto
termination
  by (relation "measure length") auto

definition byte_values :: "string \<Rightarrow> nat list" where
  "byte_values bs = map of_char bs"

definition sc_str_is_valid_utf8 :: "sc_str \<Rightarrow> bool" where
  "sc_str_is_valid_utf8 input =
     (case input of Str bs \<Rightarrow> utf8_valid (byte_values bs) | NullStr n \<Rightarrow> n = 0)"

section \<open>The encoder\<close>

definition utf8_encode :: "nat \<Rightarrow> nat list option" where
  "utf8_encode codepoint =
     (if codepoint \<le> 0x7F then Some [codepoint]
      else if codepoint \<le> 0x7FF then
        Some [0xC0 OR drop_bit 6 codepoint, 0x80 OR (codepoint AND 0x3F)]
      else if codepoint \<le> 0xFFFF then
        Some [0xE0 OR drop_bit 12 codepoint, 0x80 OR (drop_bit 6 codepoint AND 0x3F),
              0x80 OR (codepoint AND 0x3F)]
      else if codepoint \<le> 0x10FFFF then
        Some [0xF0 OR drop_bit 18 codepoint, 0x80 OR (drop_bit 12 codepoint AND 0x3F),
              0x80 OR (drop_bit 6 codepoint AND 0x3F), 0x80 OR (codepoint AND 0x3F)]
      else None)"

definition unicode_scalar :: "nat \<Rightarrow> bool" where
  "unicode_scalar cp \<longleftrightarrow> cp \<le> 0x10FFFF \<and> \<not> (0xD800 \<le> cp \<and> cp \<le> 0xDFFF)"

section \<open>Bit operations as arithmetic\<close>

text \<open>A code equation without the pattern of successors, for evaluation with binary numbers.\<close>

lemma utf8_cont_code [code]:
  "utf8_cont n bs codepoint =
     (if n = 0 then Some codepoint
      else (case bs of
              [] \<Rightarrow> None
            | c # cs \<Rightarrow> (if c AND 0xC0 \<noteq> 0x80 then None else utf8_cont (n - 1) cs (push_bit 6 codepoint OR (c AND 0x3F)))))"
  by (cases n; cases bs) auto

lemma and_low_mask: "(n::nat) AND (2 ^ k - 1) = n mod 2 ^ k"
proof -
  have "n AND mask k = take_bit k n" by (simp add: take_bit_eq_mask)
  then show ?thesis by (simp add: mask_eq_exp_minus_1 take_bit_eq_mod)
qed

lemma and_masks:
  "(n::nat) AND 0x3F = n mod 64"
  "(n::nat) AND 0x1F = n mod 32"
  "(n::nat) AND 0x0F = n mod 16"
  "(n::nat) AND 0x07 = n mod 8"
  "(n::nat) AND 0x03 = n mod 4"
  using and_low_mask [of n 6] and_low_mask [of n 5] and_low_mask [of n 4] and_low_mask [of n 3]
    and_low_mask [of n 2]
  by simp_all

lemma and_push_bit: "(n::nat) AND push_bit k m = push_bit k (drop_bit k n AND m)"
  by (rule bit_eqI) (auto simp: bit_and_iff bit_push_bit_iff bit_drop_bit_eq)

lemma not_bit_high: "(r::nat) < 2 ^ k \<Longrightarrow> k \<le> n \<Longrightarrow> \<not> bit r n"
proof -
  assume "r < 2 ^ k" "k \<le> n"
  then have "r < 2 ^ n" by (meson less_le_trans one_le_numeral power_increasing)
  then show ?thesis by (simp add: bit_iff_odd)
qed

lemma or_add_low:
  assumes "(r::nat) < 2 ^ k"
  shows "push_bit k q OR r = q * 2 ^ k + r"
proof -
  have "push_bit k q AND r = 0"
    by (rule bit_eqI) (auto simp: bit_and_iff bit_push_bit_iff not_bit_high [OF assms])
  then have "push_bit k q OR r = push_bit k q + r" using disjunctive_add_eq_or [of "push_bit k q" r] by simp
  then show ?thesis by (simp add: push_bit_eq_mult)
qed

lemma lead_or:
  "x < 32 \<Longrightarrow> (0xC0::nat) OR x = 192 + x"
  "x < 16 \<Longrightarrow> (0xE0::nat) OR x = 224 + x"
  "x < 8 \<Longrightarrow> (0xF0::nat) OR x = 240 + x"
  "x < 64 \<Longrightarrow> (0x80::nat) OR x = 128 + x"
  using or_add_low [of x 5 6] or_add_low [of x 4 14] or_add_low [of x 3 30] or_add_low [of x 6 2]
  by (simp_all add: push_bit_eq_mult)

lemma high_bits:
  assumes "b < (256::nat)"
  shows "b AND 0xE0 = 32 * (b div 32)" "b AND 0xF0 = 16 * (b div 16)"
    "b AND 0xF8 = 8 * (b div 8)" "b AND 0xC0 = 64 * (b div 64)"
proof -
  have "b div 32 < 8" "b div 16 < 16" "b div 8 < 32" "b div 64 < 4"
    using assms by (simp_all add: div_less_iff_less_mult)
  then show "b AND 0xE0 = 32 * (b div 32)" "b AND 0xF0 = 16 * (b div 16)"
    "b AND 0xF8 = 8 * (b div 8)" "b AND 0xC0 = 64 * (b div 64)"
    using and_push_bit [of b 5 7] and_push_bit [of b 4 15] and_push_bit [of b 3 31]
      and_push_bit [of b 6 3] and_low_mask [of "b div 8" 5]
    by (simp_all add: push_bit_eq_mult drop_bit_eq_div and_masks)
qed

lemma quotient_range:
  assumes "0 < (k::nat)"
  shows "(k * (b div k) = k * q) = (k * q \<le> b \<and> b < k * q + k)"
proof -
  have "(b div k = q) = (q \<le> b div k \<and> b div k < Suc q)" by auto
  also have "\<dots> = (k * q \<le> b \<and> b < k * q + k)"
    using assms by (auto simp: less_eq_div_iff_mult_less_eq div_less_iff_less_mult mult.commute)
  finally show ?thesis using assms by simp
qed

lemma byte_tests:
  assumes "b < (256::nat)"
  shows "(b AND 0xE0 = 0xC0) = (192 \<le> b \<and> b < 224)"
    and "(b AND 0xF0 = 0xE0) = (224 \<le> b \<and> b < 240)"
    and "(b AND 0xF8 = 0xF0) = (240 \<le> b \<and> b < 248)"
    and "(b AND 0xC0 = 0x80) = (128 \<le> b \<and> b < 192)"
  using quotient_range [of 32 b 6] quotient_range [of 16 b 14] quotient_range [of 8 b 30]
    quotient_range [of 64 b 2]
  by (simp_all add: high_bits [OF assms])

text \<open>A lead byte is its tag plus a payload, a continuation byte 128 plus six bits.\<close>

lemma lead2: "x < 32 \<Longrightarrow> utf8_lead (192 + x) = Some (2, x)"
  using byte_tests [of "192 + x"] by (simp add: utf8_lead_def and_masks mod_add_left_eq [symmetric])

lemma lead3: "x < 16 \<Longrightarrow> utf8_lead (224 + x) = Some (3, x)"
  using byte_tests [of "224 + x"] by (simp add: utf8_lead_def and_masks mod_add_left_eq [symmetric])

lemma lead4: "x < 8 \<Longrightarrow> utf8_lead (240 + x) = Some (4, x)"
  using byte_tests [of "240 + x"] by (simp add: utf8_lead_def and_masks mod_add_left_eq [symmetric])

lemma lead_none: "b < 256 \<Longrightarrow> b < 192 \<or> 248 \<le> b \<Longrightarrow> utf8_lead b = None"
  using byte_tests [of b] by (auto simp: utf8_lead_def)

lemma cont_step:
  "y < 64 \<Longrightarrow> utf8_cont (Suc k) ((128 + y) # cs) cp = utf8_cont k cs (cp * 64 + y)"
  using byte_tests(4) [of "128 + y"] or_add_low [of y 6 cp]
  by (simp add: and_masks mod_add_left_eq [symmetric])

lemma cont_none:
  "c < 256 \<Longrightarrow> c < 128 \<or> 192 \<le> c \<Longrightarrow> utf8_cont (Suc k) (c # cs) cp = None"
  using byte_tests(4) [of c] by auto

lemma cont_SomeD:
  assumes "utf8_cont (Suc k) bs cp = Some r" "\<forall>b \<in> set bs. b < 256"
  shows "\<exists>y cs. bs = (128 + y) # cs \<and> y < 64 \<and> utf8_cont k cs (cp * 64 + y) = Some r"
proof (cases bs)
  case Nil
  with assms(1) show ?thesis by simp
next
  case (Cons c cs)
  with assms have "128 \<le> c" "c < 192"
    using cont_none [of c k cs cp] by fastforce+
  then obtain y where y: "c = 128 + y" "y < 64"
    using le_Suc_ex [of 128 c] by auto
  with assms(1) Cons cont_step [OF y(2)] show ?thesis by auto
qed

lemma utf8_encode_arith:
  "utf8_encode cp =
     (if cp < 128 then Some [cp]
      else if cp < 2048 then Some [192 + cp div 64, 128 + cp mod 64]
      else if cp < 65536 then Some [224 + cp div 4096, 128 + cp div 64 mod 64, 128 + cp mod 64]
      else if cp < 1114112 then
        Some [240 + cp div 262144, 128 + cp div 4096 mod 64, 128 + cp div 64 mod 64,
              128 + cp mod 64]
      else None)"
proof -
  have "cp < 2048 \<Longrightarrow> cp div 64 < 32" "cp < 65536 \<Longrightarrow> cp div 4096 < 16"
    "cp < 1114112 \<Longrightarrow> cp div 262144 < 8"
    by (simp_all add: div_less_iff_less_mult)
  then show ?thesis
    by (auto simp: utf8_encode_def and_masks drop_bit_eq_div lead_or)
qed

text \<open>The payload bits of the parts of an encoding, put together again.\<close>

lemma div64_split: "n div (64 * k) * 64 + n div k mod 64 = n div (k::nat)"
proof -
  have "n div (64 * k) = n div k div 64" by (simp add: div_mult2_eq mult.commute)
  then show ?thesis by simp
qed

lemmas recombine =
  div64_split [of _ 1, simplified] div64_split [of _ 64, simplified] div64_split [of _ 4096, simplified]

section \<open>The validator accepts exactly the encodings of scalar values\<close>

lemma valid1: "b < 128 \<Longrightarrow> utf8_valid (b # bs) = utf8_valid bs"
  by simp

lemma valid2:
  "x < 32 \<Longrightarrow> y < 64 \<Longrightarrow> utf8_valid ((192 + x) # (128 + y) # bs) =
     (128 \<le> x * 64 + y \<and> utf8_valid bs)"
  using cont_step [of y 0 bs x] by (auto simp: lead2 utf8_bad_def)

lemma valid3:
  "x < 16 \<Longrightarrow> y < 64 \<Longrightarrow> z < 64 \<Longrightarrow>
   utf8_valid ((224 + x) # (128 + y) # (128 + z) # bs) =
     (2048 \<le> (x * 64 + y) * 64 + z \<and>
      \<not> (55296 \<le> (x * 64 + y) * 64 + z \<and> (x * 64 + y) * 64 + z \<le> 57343) \<and> utf8_valid bs)"
  using cont_step [of y 1 "(128 + z) # bs" x] cont_step [of z 0 bs "x * 64 + y"]
  by (auto simp: lead3 utf8_bad_def numeral_2_eq_2 simp del: utf8_cont.simps(2,3))

lemma valid4:
  "x < 8 \<Longrightarrow> y < 64 \<Longrightarrow> z < 64 \<Longrightarrow> w < 64 \<Longrightarrow>
   utf8_valid ((240 + x) # (128 + y) # (128 + z) # (128 + w) # bs) =
     (65536 \<le> ((x * 64 + y) * 64 + z) * 64 + w \<and> ((x * 64 + y) * 64 + z) * 64 + w \<le> 1114111 \<and>
      utf8_valid bs)"
  using cont_step [of y 2 "(128 + z) # (128 + w) # bs" x]
    cont_step [of z 1 "(128 + w) # bs" "x * 64 + y"]
    cont_step [of w 0 bs "(x * 64 + y) * 64 + z"]
  by (auto simp: lead4 utf8_bad_def numeral_3_eq_3 numeral_2_eq_2 simp del: utf8_cont.simps(2,3))


lemma valid_encode:
  assumes "unicode_scalar cp" "utf8_encode cp = Some e"
  shows "utf8_valid (e @ bs) = utf8_valid bs"
proof -
  have bounds: "cp < 2048 \<Longrightarrow> cp div 64 < 32" "cp < 65536 \<Longrightarrow> cp div 4096 < 16"
    "cp < 1114112 \<Longrightarrow> cp div 262144 < 8"
    by (simp_all add: div_less_iff_less_mult)
  have "cp < 1114112" "\<not> (55296 \<le> cp \<and> cp \<le> 57343)"
    using assms(1) by (auto simp: unicode_scalar_def)
  with assms(2) bounds show ?thesis
    by (auto simp: utf8_encode_arith valid1 valid2 valid3 valid4 recombine
        simp del: utf8_valid.simps(2) split: if_splits)
qed

lemma encode_join:
  assumes "y < 64"
  shows "(q * 64 + y) div 64 = (q::nat)" "(q * 64 + y) mod 64 = y"
    "(q * 64 + y) div 4096 = q div 64" "(q * 64 + y) div 262144 = q div 4096"
proof -
  show one: "(q * 64 + y) div 64 = q" "(q * 64 + y) mod 64 = y" using assms by simp_all
  show "(q * 64 + y) div 4096 = q div 64" "(q * 64 + y) div 262144 = q div 4096"
    using div_mult2_eq [of "q * 64 + y" 64 64] div_mult2_eq [of "q * 64 + y" 64 4096] one(1)
    by simp_all
qed

lemma valid_multi_cont:
  assumes "utf8_valid (b # bs)" "utf8_lead b = Some (Suc k, x)" "127 < b"
  obtains cp where "utf8_cont k bs x = Some cp"
  using assms by (auto split: option.splits if_splits)

definition utf8_head :: "nat list \<Rightarrow> bool" where
  "utf8_head bs \<longleftrightarrow> (\<exists>cp e rest. unicode_scalar cp \<and> utf8_encode cp = Some e \<and> bs = e @ rest \<and>
     utf8_valid rest)"

lemma utf8_headI:
  "unicode_scalar cp \<Longrightarrow> utf8_encode cp = Some e \<Longrightarrow> bs = e @ rest \<Longrightarrow> utf8_valid rest \<Longrightarrow> utf8_head bs"
  unfolding utf8_head_def by blast

lemma head2:
  assumes v: "utf8_valid ((192 + x) # bs)" and x: "x < 32" and B: "\<forall>b \<in> set bs. b < 256"
  shows "utf8_head ((192 + x) # bs)"
proof -
  obtain cp where "utf8_cont 1 bs x = Some cp"
    using valid_multi_cont [OF v, of 1 x] lead2 [OF x] by (auto simp: numeral_2_eq_2)
  then obtain y cs where y: "bs = (128 + y) # cs" "y < 64"
    using cont_SomeD [of 0 bs x cp] B by auto
  then have ok: "128 \<le> x * 64 + y" "utf8_valid cs" using v valid2 [OF x y(2)] by auto
  have "x * 64 + y < 2048" using x y(2) by linarith
  with ok y(2) have "utf8_encode (x * 64 + y) = Some [192 + x, 128 + y]"
    by (simp add: utf8_encode_arith encode_join)
  moreover have "unicode_scalar (x * 64 + y)"
    using \<open>x * 64 + y < 2048\<close> by (simp add: unicode_scalar_def)
  ultimately show ?thesis using ok(2) y(1) by (intro utf8_headI) auto
qed

lemma head3:
  assumes v: "utf8_valid ((224 + x) # bs)" and x: "x < 16" and B: "\<forall>b \<in> set bs. b < 256"
  shows "utf8_head ((224 + x) # bs)"
proof -
  obtain cp where "utf8_cont 2 bs x = Some cp"
    using valid_multi_cont [OF v, of 2 x] lead3 [OF x] by (auto simp: numeral_3_eq_3 numeral_2_eq_2)
  then obtain y cs where y: "bs = (128 + y) # cs" "y < 64" "utf8_cont 1 cs (x * 64 + y) = Some cp"
    using cont_SomeD [of 1 bs x cp] B by (auto simp: numeral_2_eq_2)
  then obtain z ds where z: "cs = (128 + z) # ds" "z < 64"
    using cont_SomeD [of 0 cs "x * 64 + y" cp] B by auto
  define c where "c = (x * 64 + y) * 64 + z"
  have ok: "2048 \<le> c" "\<not> (55296 \<le> c \<and> c \<le> 57343)" "utf8_valid ds"
    using v valid3 [OF x y(2) z(2), of ds] unfolding c_def y(1) z(1) by blast+
  have "x * 64 + y < 1024" using x y(2) by linarith
  moreover have "p * 64 + z < 65536" if "p < 1024" for p using that z(2) by linarith
  ultimately have c: "c < 65536" unfolding c_def by blast
  have parts: "c div 4096 = x" "c div 64 mod 64 = y" "c mod 64 = z"
    unfolding c_def encode_join [OF z(2)] encode_join [OF y(2)] by simp_all
  with ok c have "utf8_encode c = Some [224 + x, 128 + y, 128 + z]"
    by (simp add: utf8_encode_arith)
  moreover have "unicode_scalar c" using c ok by (simp add: unicode_scalar_def)
  ultimately show ?thesis using ok(3) y(1) z(1) by (intro utf8_headI) auto
qed

lemma head4:
  assumes v: "utf8_valid ((240 + x) # bs)" and x: "x < 8" and B: "\<forall>b \<in> set bs. b < 256"
  shows "utf8_head ((240 + x) # bs)"
proof -
  obtain cp where "utf8_cont 3 bs x = Some cp"
    using valid_multi_cont [OF v, of 3 x] lead4 [OF x] by (auto simp: numeral_3_eq_3 eval_nat_numeral)
  then obtain y cs where y: "bs = (128 + y) # cs" "y < 64" "utf8_cont 2 cs (x * 64 + y) = Some cp"
    using cont_SomeD [of 2 bs x cp] B by (auto simp: numeral_3_eq_3 numeral_2_eq_2)
  then obtain z ds where z: "cs = (128 + z) # ds" "z < 64"
    "utf8_cont 1 ds ((x * 64 + y) * 64 + z) = Some cp"
    using cont_SomeD [of 1 cs "x * 64 + y" cp] B by (auto simp: numeral_2_eq_2)
  then obtain w es where w: "ds = (128 + w) # es" "w < 64"
    using cont_SomeD [of 0 ds "(x * 64 + y) * 64 + z" cp] B y(1) by auto
  define c where "c = ((x * 64 + y) * 64 + z) * 64 + w"
  have ok: "65536 \<le> c" "c \<le> 1114111" "utf8_valid es"
    using v valid4 [OF x y(2) z(2) w(2), of es] unfolding c_def y(1) z(1) w(1) by blast+
  have parts: "c div 262144 = x" "c div 4096 mod 64 = y" "c div 64 mod 64 = z" "c mod 64 = w"
    unfolding c_def encode_join [OF w(2)] encode_join [OF z(2)] encode_join [OF y(2)] by simp_all
  then have "utf8_encode c = Some [240 + x, 128 + y, 128 + z, 128 + w]"
    using ok by (simp add: utf8_encode_arith)
  moreover have "unicode_scalar c" using ok by (simp add: unicode_scalar_def)
  ultimately show ?thesis using ok(3) y(1) z(1) w(1) by (intro utf8_headI) auto
qed

lemma valid_head:
  assumes "utf8_valid (b # bs)" "\<forall>c \<in> set (b # bs). c < 256"
  shows "utf8_head (b # bs)"
proof -
  have B: "\<forall>c \<in> set bs. c < 256" "b < 256" using assms(2) by auto
  consider "b < 128" | "128 \<le> b" "b < 192 \<or> 248 \<le> b" | "192 \<le> b" "b < 224"
    | "224 \<le> b" "b < 240" | "240 \<le> b" "b < 248" by linarith
  then show ?thesis
  proof cases
    case 1
    with assms(1) show ?thesis
      by (intro utf8_headI [of b "[b]" _ bs]) (auto simp: unicode_scalar_def utf8_encode_arith)
  next
    case 2
    with assms(1) lead_none [OF B(2)] show ?thesis by auto
  next
    case 3
    then show ?thesis using head2 [of "b - 192" bs] assms(1) B(1) by simp
  next
    case 4
    then show ?thesis using head3 [of "b - 224" bs] assms(1) B(1) by simp
  next
    case 5
    then show ?thesis using head4 [of "b - 240" bs] assms(1) B(1) by simp
  qed
qed

definition utf8_text :: "nat list \<Rightarrow> nat list option" where
  "utf8_text cps = (if list_all unicode_scalar cps
     then Some (concat (map (\<lambda>cp. case utf8_encode cp of Some e \<Rightarrow> e | None \<Rightarrow> []) cps)) else None)"

lemma utf8_encode_scalar: "unicode_scalar cp \<Longrightarrow> \<exists>e. utf8_encode cp = Some e"
  by (auto simp: unicode_scalar_def utf8_encode_def)

lemma utf8_text_Cons:
  "unicode_scalar cp \<Longrightarrow> utf8_encode cp = Some e \<Longrightarrow>
   utf8_text (cp # cps) = map_option (\<lambda>rest. e @ rest) (utf8_text cps)"
  by (simp add: utf8_text_def)

lemma utf8_text_valid: "utf8_text cps = Some bs \<Longrightarrow> utf8_valid bs"
proof (induction cps arbitrary: bs)
  case (Cons cp cps)
  then have "unicode_scalar cp" by (simp add: utf8_text_def split: if_splits)
  then obtain e where e: "unicode_scalar cp" "utf8_encode cp = Some e"
    using utf8_encode_scalar by blast
  with Cons show ?case by (auto simp: utf8_text_Cons valid_encode)
qed (simp add: utf8_text_def)

lemma utf8_valid_text:
  "utf8_valid bs \<Longrightarrow> \<forall>b \<in> set bs. b < 256 \<Longrightarrow> \<exists>cps. utf8_text cps = Some bs"
proof (induction bs rule: length_induct)
  case (1 bs)
  show ?case
  proof (cases bs)
    case Nil
    then show ?thesis by (intro exI [of _ "[]"]) (simp add: utf8_text_def)
  next
    case (Cons b cs)
    with valid_head [of b cs] 1 obtain cp e rest where
      h: "unicode_scalar cp" "utf8_encode cp = Some e" "bs = e @ rest" "utf8_valid rest"
      unfolding utf8_head_def by auto
    have "e \<noteq> []" using h(2) by (auto simp: utf8_encode_def split: if_splits)
    then have "length rest < length bs" "\<forall>b \<in> set rest. b < 256" using h(3) 1(3) by auto
    then obtain cps where "utf8_text cps = Some rest" using 1(1) h(4) by blast
    with h show ?thesis by (intro exI [of _ "cp # cps"]) (simp add: utf8_text_Cons)
  qed
qed

lemma byte_values_bounded: "b \<in> set (byte_values s) \<Longrightarrow> b < 256"
  by (auto simp: byte_values_def)


end
