(* ===== verification/SC_Vector.thy ===== *)
theory SC_Vector
  imports SC_String
begin

text \<open>
  Growable vectors, \<^verbatim>\<open>src/core/vector.c\<close>, and the interface they share with the byte
  buffers: an append either adds its items at the end and accounts for the block it may have
  taken, or leaves the container as it was. Clients that append one item after the other are
  verified once against that interface.
\<close>

section \<open>Vectors\<close>

text \<open>
  \<^verbatim>\<open>sc_vec\<close>: the stored items, the capacity in items, the size of an item, and whether
  the pointer is non-null.
\<close>

record 'a sc_vec =
  items :: "'a list"
  vcap :: nat
  item_size :: nat
  vheld :: bool

definition sc_vec_init :: "nat \<Rightarrow> 'a sc_vec" where
  "sc_vec_init isz = \<lparr>items = [], vcap = 0, item_size = isz, vheld = False\<rparr>"

definition sc_vec_reserve ::
    "'a sc_vec \<Rightarrow> nat \<Rightarrow> sc_allocator \<Rightarrow> sc_status \<times> 'a sc_vec \<times> sc_allocator" where
  "sc_vec_reserve vec additional a =
     (if item_size vec = 0
      then (sc_status_invalid_argument ''sc.vec.invalid_argument'', vec, a)
      else (case sc_size_add_overflow (length (items vec)) additional of
              None \<Rightarrow> (sc_status_no_memory, vec, a)
            | Some needed \<Rightarrow>
                (if needed \<le> vcap vec then (sc_status_ok, vec, a)
                 else (let new_cap = grow_cap needed (if vcap vec = 0 then 4 else vcap vec) in
                       (case (sc_size_mul_overflow (vcap vec) (item_size vec),
                              sc_size_mul_overflow new_cap (item_size vec)) of
                          (Some old_bytes, Some new_bytes) \<Rightarrow>
                            (let (ok, a') = sc_realloc (vheld vec) new_bytes a in
                             (if ok then (sc_status_ok, vec\<lparr>vcap := new_cap, vheld := True\<rparr>, a')
                              else (sc_status_no_memory, vec, a')))
                        | _ \<Rightarrow> (sc_status_no_memory, vec, a))))))"

text \<open>The item is passed by address; \<open>None\<close> is the null pointer.\<close>

definition sc_vec_push ::
    "'a sc_vec \<Rightarrow> 'a option \<Rightarrow> sc_allocator \<Rightarrow> sc_status \<times> 'a sc_vec \<times> sc_allocator" where
  "sc_vec_push vec item a =
     (case item of
        None \<Rightarrow> (sc_status_invalid_argument ''sc.vec.invalid_argument'', vec, a)
      | Some x \<Rightarrow>
          (let (st, vec', a') = sc_vec_reserve vec 1 a in
           (if \<not> sc_status_is_ok st then (st, vec', a')
            else (sc_status_ok, vec'\<lparr>items := items vec' @ [x]\<rparr>, a'))))"

definition sc_vec_at :: "'a sc_vec \<Rightarrow> nat \<Rightarrow> 'a option" where
  "sc_vec_at vec index = (if index \<ge> length (items vec) then None else Some (items vec ! index))"

definition sc_vec_at_const :: "'a sc_vec \<Rightarrow> nat \<Rightarrow> 'a option" where
  "sc_vec_at_const vec index =
     (if index \<ge> length (items vec) then None else Some (items vec ! index))"

definition sc_vec_clear :: "'a sc_vec \<Rightarrow> sc_allocator \<Rightarrow> 'a sc_vec \<times> sc_allocator" where
  "sc_vec_clear vec a =
     (sc_vec_init 0,
      (if vheld vec \<and> sc_size_mul_overflow (vcap vec) (item_size vec) \<noteq> None
       then sc_free True a else a))"

section \<open>Pointer vectors\<close>

text \<open>\<^verbatim>\<open>sc_ptr_vec\<close> stores pointers; \<open>None\<close> is a null pointer, which may be stored.\<close>

type_synonym 'p sc_ptr_vec = "'p option sc_vec"

definition sc_ptr_vec_init :: "'p sc_ptr_vec" where
  "sc_ptr_vec_init = sc_vec_init 8"

definition sc_ptr_vec_push ::
    "'p sc_ptr_vec \<Rightarrow> 'p option \<Rightarrow> sc_allocator \<Rightarrow> sc_status \<times> 'p sc_ptr_vec \<times> sc_allocator" where
  "sc_ptr_vec_push vec ptr a = sc_vec_push vec (Some ptr) a"

definition sc_ptr_vec_at :: "'p sc_ptr_vec \<Rightarrow> nat \<Rightarrow> 'p option" where
  "sc_ptr_vec_at vec index = (case sc_vec_at vec index of None \<Rightarrow> None | Some slot \<Rightarrow> slot)"

definition sc_ptr_vec_clear :: "'p sc_ptr_vec \<Rightarrow> sc_allocator \<Rightarrow> 'p sc_ptr_vec \<times> sc_allocator" where
  "sc_ptr_vec_clear vec a = sc_vec_clear vec a"

section \<open>Invariant\<close>

text \<open>
  The items fit in the capacity, the block exists exactly when the capacity is positive, and
  the size of the block in bytes did not overflow.
\<close>

definition vec_inv :: "'a sc_vec \<Rightarrow> bool" where
  "vec_inv vec \<longleftrightarrow> length (items vec) \<le> vcap vec \<and> (vheld vec \<longleftrightarrow> 0 < vcap vec) \<and>
     vcap vec * item_size vec \<le> SIZE_MAX \<and> vcap vec \<le> SIZE_MAX"

definition vec_blocks :: "'a sc_vec \<Rightarrow> int" where
  "vec_blocks vec = (if vheld vec then 1 else 0)"

lemma vec_inv_init [simp]: "vec_inv (sc_vec_init n)"
  by (simp add: vec_inv_def sc_vec_init_def)

lemma vec_blocks_init [simp]: "vec_blocks (sc_vec_init n) = 0"
  by (simp add: vec_blocks_def sc_vec_init_def)

lemma items_init [simp, vec_simps]: "items (sc_vec_init n) = []" "item_size (sc_vec_init n) = n"
  by (simp_all add: sc_vec_init_def)

lemma vec_clear_live: "vec_inv v \<Longrightarrow> live (snd (sc_vec_clear v a)) = live a - vec_blocks v"
  by (auto simp: sc_vec_clear_def vec_inv_def vec_blocks_def sc_size_mul_overflow_def)

text \<open>The outcomes of a reservation.\<close>

lemma vec_reserve_cases:
  assumes "sc_vec_reserve vec n a = (st, vec', a')" "vec_inv vec"
  obtains (zero_items) "st = sc_status_invalid_argument ''sc.vec.invalid_argument''"
      "item_size vec = 0" "vec' = vec" "a' = a"
  | (refused) "st = sc_status_no_memory" "vec' = vec" "live a' = live a"
  | (fits) "st = sc_status_ok" "vec' = vec" "a' = a" "length (items vec) + n \<le> vcap vec"
  | (grown) c where "st = sc_status_ok" "vec' = vec\<lparr>vcap := c, vheld := True\<rparr>"
      "vcap vec < length (items vec) + n" "length (items vec) + n \<le> c" "0 < c"
      "c < 2 * (length (items vec) + n) \<or> c = 4"
      "c * item_size vec \<le> SIZE_MAX" "c \<le> SIZE_MAX" "live a' = live a + (if vheld vec then 0 else 1)"
proof -
  define c0 where "c0 = (if vcap vec = 0 then 4 else vcap vec)"
  define needed where "needed = length (items vec) + n"
  have c0: "0 < c0" "c0 \<le> SIZE_MAX" using assms(2) by (auto simp: c0_def vec_inv_def SIZE_MAX_def)
  have double: "grow_cap needed c0 < 2 * needed \<or> grow_cap needed c0 = 4" if "vcap vec < needed"
  proof (cases "c0 < needed")
    case True
    then show ?thesis using grow_cap_lt_double [OF c0(1)] by blast
  next
    case False
    then have "grow_cap needed c0 = c0" by (subst grow_cap.simps) simp
    with False that show ?thesis by (simp add: c0_def split: if_splits)
  qed
  have grow: "needed \<le> grow_cap needed c0" "0 < grow_cap needed c0"
    "needed \<le> SIZE_MAX \<Longrightarrow> grow_cap needed c0 \<le> SIZE_MAX"
    using grow_cap_ge [OF c0(1)] grow_cap_pos [OF c0(1)] grow_cap_le_SIZE_MAX [OF _ c0(2)] by auto
  note r = assms(1) [unfolded sc_vec_reserve_def, folded c0_def, folded needed_def]
  show thesis
  proof (cases "item_size vec = 0")
    case True
    with r show thesis by (intro zero_items) auto
  next
    case False
    show thesis
    proof (cases "needed \<le> SIZE_MAX")
      case big: False
      with False r show thesis
        by (intro refused) (auto simp: sc_size_add_overflow_def needed_def)
    next
      case sz: True
      then have add: "sc_size_add_overflow (length (items vec)) n = Some needed"
        by (simp add: sc_size_add_overflow_def needed_def)
      show thesis
      proof (cases "needed \<le> vcap vec")
        case True
        with False add r show thesis by (intro fits) (auto simp: needed_def)
      next
        case small: False
        obtain ok a1 where al: "sc_realloc (vheld vec) (grow_cap needed c0 * item_size vec) a = (ok, a1)"
          by (cases "sc_realloc (vheld vec) (grow_cap needed c0 * item_size vec) a") auto
        have old: "sc_size_mul_overflow (vcap vec) (item_size vec) = Some (vcap vec * item_size vec)"
          using assms(2) by (simp add: vec_inv_def sc_size_mul_overflow_def)
        show thesis
        proof (cases "ok \<and> grow_cap needed c0 * item_size vec \<le> SIZE_MAX")
          case True
          then have "st = sc_status_ok" "vec' = vec\<lparr>vcap := grow_cap needed c0, vheld := True\<rparr>" "a' = a1"
            using r False add small al old by (auto simp: sc_size_mul_overflow_def Let_def)
          moreover have "live a1 = live a + (if vheld vec then 0 else 1)"
            using realloc_cases [OF al] True by simp
          ultimately show thesis
            using True small sz grow double
            by (intro grown [of "grow_cap needed c0"]) (auto simp: needed_def)
        next
          case no: False
          with r False add small al old have "st = sc_status_no_memory" "vec' = vec" "live a' = live a"
            using realloc_cases [OF al]
            by (auto simp: sc_size_mul_overflow_def Let_def split: if_splits)
          then show thesis by (rule refused)
        qed
      qed
    qed
  qed
qed

lemma vec_push_spec:
  assumes "sc_vec_push vec (Some x) a = (st, vec', a')" "vec_inv vec"
  shows "vec_inv vec'"
    and "live a' = live a + vec_blocks vec' - vec_blocks vec"
    and "item_size vec' = item_size vec"
    and "sc_status_is_ok st \<Longrightarrow> items vec' = items vec @ [x]"
    and "\<not> sc_status_is_ok st \<Longrightarrow> vec' = vec"
    and "item_size vec > 0 \<Longrightarrow> \<not> sc_status_is_ok st \<Longrightarrow> st = sc_status_no_memory"
proof -
  obtain st1 v1 a1 where r: "sc_vec_reserve vec 1 a = (st1, v1, a1)"
    by (cases "sc_vec_reserve vec 1 a") auto
  note d = assms(1) [unfolded sc_vec_push_def option.case r Let_def prod.case]
  from r assms(2) have "vec_inv vec' \<and> live a' = live a + vec_blocks vec' - vec_blocks vec \<and>
    item_size vec' = item_size vec \<and> (sc_status_is_ok st \<longrightarrow> items vec' = items vec @ [x]) \<and>
    (\<not> sc_status_is_ok st \<longrightarrow> vec' = vec) \<and>
    (item_size vec > 0 \<longrightarrow> \<not> sc_status_is_ok st \<longrightarrow> st = sc_status_no_memory)"
  proof (cases rule: vec_reserve_cases)
    case (grown c)
    from d grown(1,2) have out: "st = sc_status_ok" "a' = a1"
      "vec' = vec\<lparr>vcap := c, vheld := True, items := items vec @ [x]\<rparr>" by simp_all
    show ?thesis unfolding out using grown(4-9) by (simp add: vec_inv_def vec_blocks_def)
  next
    case fits
    from d fits(1,2) have out: "st = sc_status_ok" "a' = a1" "vec' = vec\<lparr>items := items vec @ [x]\<rparr>"
      by simp_all
    show ?thesis unfolding out fits(3) using fits(4) assms(2)
      by (simp add: vec_inv_def vec_blocks_def)
  next
    case zero_items
    from d zero_items(1,3) have out: "st = sc_status_invalid_argument ''sc.vec.invalid_argument''"
      "a' = a1" "vec' = vec" by simp_all
    show ?thesis unfolding out zero_items(4) using zero_items(2) assms(2) by simp
  next
    case refused
    from d refused(1,2) have out: "st = sc_status_no_memory" "a' = a1" "vec' = vec" by simp_all
    show ?thesis unfolding out using refused(3) assms(2) by simp
  qed
  then show "vec_inv vec'" "live a' = live a + vec_blocks vec' - vec_blocks vec"
    "item_size vec' = item_size vec" "sc_status_is_ok st \<Longrightarrow> items vec' = items vec @ [x]"
    "\<not> sc_status_is_ok st \<Longrightarrow> vec' = vec"
    "item_size vec > 0 \<Longrightarrow> \<not> sc_status_is_ok st \<Longrightarrow> st = sc_status_no_memory"
    by blast+
qed

text \<open>A push on a vector with room for one more item within the address space, from an allocator that refuses nothing, succeeds.\<close>

lemma vec_push_generous:
  assumes "generous a" "vec_inv vec" "0 < item_size vec"
    "(2 * length (items vec) + 4) * item_size vec \<le> SIZE_MAX"
  shows "\<exists>vec' a'. sc_vec_push vec (Some x) a = (sc_status_ok, vec', a') \<and>
    items vec' = items vec @ [x] \<and> generous a'"
proof -
  define c0 where "c0 = (if vcap vec = 0 then 4 else vcap vec)"
  define needed where "needed = length (items vec) + 1"
  have c0: "0 < c0" by (auto simp: c0_def)
  have "2 * length (items vec) + 4 \<le> (2 * length (items vec) + 4) * item_size vec"
    using assms(3) by simp
  with assms(4) have sz: "needed \<le> SIZE_MAX" unfolding needed_def by linarith
  have cap: "vcap vec * item_size vec \<le> SIZE_MAX" using assms(2) by (simp add: vec_inv_def)
  have "grow_cap needed c0 \<le> 2 * length (items vec) + 4" if "vcap vec < needed"
  proof (cases "c0 < needed")
    case True
    then show ?thesis using grow_cap_lt_double [OF c0, of needed] by (simp add: needed_def)
  next
    case False
    then have "grow_cap needed c0 = c0" by (subst grow_cap.simps) simp
    with False that show ?thesis by (simp add: c0_def split: if_splits)
  qed
  then have "vcap vec < needed \<Longrightarrow> grow_cap needed c0 * item_size vec \<le> SIZE_MAX"
    using assms(4) by (meson le_trans mult_le_mono1)
  with assms(1,3) sz cap show ?thesis
    by (auto simp: sc_vec_push_def sc_vec_reserve_def c0_def [symmetric] Let_def
        sc_size_add_overflow_def sc_size_mul_overflow_def generous_realloc needed_def)
qed

section \<open>Appending containers\<close>

text \<open>
  What vectors and byte buffers promise to their clients. \<open>elems\<close> is the abstraction to a
  list, \<open>blocks\<close> the heap blocks held, \<open>chunk\<close> the items one append adds.
\<close>

locale appendable =
  fixes inv :: "'b \<Rightarrow> bool"
    and elems :: "'b \<Rightarrow> 'e list"
    and blocks :: "'b \<Rightarrow> int"
    and chunk :: "'c \<Rightarrow> 'e list"
    and append1 :: "'b \<Rightarrow> 'c \<Rightarrow> sc_allocator \<Rightarrow> sc_status \<times> 'b \<times> sc_allocator"
  assumes append_inv: "inv b \<Longrightarrow> append1 b c a = (st, b', a') \<Longrightarrow> inv b'"
    and append_ok: "inv b \<Longrightarrow> append1 b c a = (st, b', a') \<Longrightarrow> sc_status_is_ok st \<Longrightarrow>
      elems b' = elems b @ chunk c"
    and append_fail: "inv b \<Longrightarrow> append1 b c a = (st, b', a') \<Longrightarrow> \<not> sc_status_is_ok st \<Longrightarrow> b' = b"
    and append_live: "inv b \<Longrightarrow> append1 b c a = (st, b', a') \<Longrightarrow>
      live a' = live a + blocks b' - blocks b"
begin

text \<open>The loop of the clients: append one after the other, stop at the first failure.\<close>

fun append_all :: "'b \<Rightarrow> 'c list \<Rightarrow> sc_allocator \<Rightarrow> sc_status \<times> 'b \<times> sc_allocator" where
  "append_all b [] a = (sc_status_ok, b, a)"
| "append_all b (c # cs) a =
     (let (st, b', a') = append1 b c a in
      (if sc_status_is_ok st then append_all b' cs a' else (st, b', a')))"

lemma append_all_spec:
  assumes "inv b" "append_all b cs a = (st, b', a')"
  shows "inv b' \<and> live a' = live a + blocks b' - blocks b \<and>
    (sc_status_is_ok st \<longrightarrow> elems b' = elems b @ concat (map chunk cs)) \<and>
    (\<exists>done rest. cs = done @ rest \<and> elems b' = elems b @ concat (map chunk done))"
  using assms
proof (induction cs arbitrary: b a)
  case Nil
  then show ?case by auto
next
  case (Cons c cs)
  obtain st1 b1 a1 where one: "append1 b c a = (st1, b1, a1)" by (cases "append1 b c a") auto
  note laws = append_inv [OF Cons.prems(1) one] append_ok [OF Cons.prems(1) one]
    append_fail [OF Cons.prems(1) one] append_live [OF Cons.prems(1) one]
  show ?case
  proof (cases "sc_status_is_ok st1")
    case True
    with Cons.prems(2) one have "append_all b1 cs a1 = (st, b', a')" by simp
    note IH = Cons.IH [OF laws(1) this]
    then obtain dn rest where
      split: "cs = dn @ rest" "elems b' = elems b1 @ concat (map chunk dn)" by blast
    from split laws(2) [OF True]
    have "c # cs = (c # dn) @ rest \<and> elems b' = elems b @ concat (map chunk (c # dn))" by simp
    then have "\<exists>dn rest. c # cs = dn @ rest \<and> elems b' = elems b @ concat (map chunk dn)" by blast
    with IH laws(2) [OF True] laws(4) show ?thesis by simp
  next
    case False
    with Cons.prems(2) one laws show ?thesis
      by (auto intro: exI [of _ "[]"])
  qed
qed

end

interpretation bytes_app: appendable bytes_inv contents bytes_blocks str_bytes sc_bytes_append
  by unfold_locales (auto dest: bytes_append_spec)

interpretation vec_app: appendable vec_inv items vec_blocks "\<lambda>x. [x]" "\<lambda>v x. sc_vec_push v (Some x)"
  by unfold_locales (auto dest: vec_push_spec)

end
