(* ===== verification/SC_Hash_Map.thy ===== *)
theory SC_Hash_Map
  imports SC_Vector "HOL-Library.Word"
begin

text \<open>
  The string-keyed hash map of \<^verbatim>\<open>src/core/map.c\<close>: open addressing with linear probing, an
  FNV-1a hash on 64 bits, growth by doubling at 70 percent load. Keys are owned copies, values
  are pointers. The theorems: probing ends because a free slot always remains; the table
  refines a finite map from byte strings to pointers, through growth and overwriting; failed
  insertions leave the table unchanged; every key copy is accounted for.
\<close>

unbundle bit_operations_syntax

section \<open>The table\<close>

text \<open>\<open>evalue\<close> is a \<^verbatim>\<open>void *\<close>; \<open>None\<close> is the null pointer, which may be stored.\<close>

record 'v sc_map_entry =
  ekey :: sc_string
  evalue :: "'v option"
  occupied :: bool

text \<open>\<open>entries\<close> has \<^verbatim>\<open>cap\<close> elements; an empty list is the null pointer.\<close>

record 'v sc_map =
  entries :: "'v sc_map_entry list"
  mlen :: nat

definition SC_MAP_INITIAL_CAP :: nat where
  "SC_MAP_INITIAL_CAP = 8"

definition SC_MAP_MAX_LOAD_PERCENT :: nat where
  "SC_MAP_MAX_LOAD_PERCENT = 70"

definition SIZEOF_MAP_ENTRY :: nat where
  "SIZEOF_MAP_ENTRY = 40"

abbreviation mcap :: "'v sc_map \<Rightarrow> nat" where
  "mcap m \<equiv> length (entries m)"

definition sc_map_init :: "'v sc_map" where
  "sc_map_init = \<lparr>entries = [], mlen = 0\<rparr>"

definition entry_zero :: "'v sc_map_entry" where
  "entry_zero = \<lparr>ekey = None, evalue = None, occupied = False\<rparr>"

text \<open>FNV-1a over the bytes of the key; word arithmetic wraps at 64 bits as in C.\<close>

definition hash_byte :: "64 word \<Rightarrow> char \<Rightarrow> 64 word" where
  "hash_byte h c = (h XOR word_of_nat (of_char c)) * 1099511628211"

definition hash_str :: "sc_str \<Rightarrow> 64 word" where
  "hash_str key = foldl hash_byte 1469598103934665603 (str_bytes key)"

text \<open>
  The probe loop of \<^verbatim>\<open>map_slot\<close>. The C loop has no bound of its own: it ends at a free slot
  or at the key. \<open>fuel\<close> counts the slots looked at; after \<^verbatim>\<open>cap\<close> of them the loop would start
  over, so \<open>None\<close> stands for the loop that never ends.
\<close>

fun map_probe :: "nat \<Rightarrow> 'v sc_map_entry list \<Rightarrow> sc_str \<Rightarrow> nat \<Rightarrow> (nat \<times> bool) option" where
  "map_probe 0 es key slot = None"
| "map_probe (Suc fuel) es key slot =
     (if \<not> occupied (es ! slot) then Some (slot, False)
      else if sc_str_equal (sc_string_as_str (ekey (es ! slot))) key then Some (slot, True)
      else map_probe fuel es key ((slot + 1) mod length es))"

definition home_slot :: "'v sc_map_entry list \<Rightarrow> sc_str \<Rightarrow> nat" where
  "home_slot es key = unat (hash_str key) mod length es"

definition map_slot :: "'v sc_map_entry list \<Rightarrow> sc_str \<Rightarrow> (nat \<times> bool) option" where
  "map_slot es key = map_probe (length es) es key (home_slot es key)"

text \<open>\<^verbatim>\<open>map_insert_owned\<close> takes over the key; \<open>None\<close> is the probe that never ends.\<close>

definition map_insert_owned ::
    "'v sc_map \<Rightarrow> sc_string \<Rightarrow> 'v option \<Rightarrow> sc_allocator \<Rightarrow> (sc_status \<times> 'v sc_map \<times> sc_allocator) option" where
  "map_insert_owned m key value a =
     (case map_slot (entries m) (sc_string_as_str key) of
        None \<Rightarrow> None
      | Some (slot, True) \<Rightarrow>
          (let e = entries m ! slot in
           Some (sc_status_ok,
                 m\<lparr>entries := (entries m)[slot := e\<lparr>ekey := key, evalue := value\<rparr>]\<rparr>,
                 sc_string_clear (ekey e) a))
      | Some (slot, False) \<Rightarrow>
          Some (sc_status_ok,
                m\<lparr>entries := (entries m)[slot := \<lparr>ekey = key, evalue = value, occupied = True\<rparr>],
                  mlen := mlen m + 1\<rparr>, a))"

definition map_needs_growth :: "'v sc_map \<Rightarrow> bool" where
  "map_needs_growth m =
     (if mcap m = 0 then True
      else (let t = (if mcap m > SIZE_MAX div SC_MAP_MAX_LOAD_PERCENT
                     then mcap m - (mcap m div 100) * (100 - SC_MAP_MAX_LOAD_PERCENT)
                     else (mcap m * SC_MAP_MAX_LOAD_PERCENT) div 100);
                threshold = (if t = 0 then 1 else t) in
            mlen m + 1 > threshold))"

text \<open>\<^verbatim>\<open>sc_map_clear\<close>: every occupied key, then the table.\<close>

fun clear_entries :: "'v sc_map_entry list \<Rightarrow> sc_allocator \<Rightarrow> sc_allocator" where
  "clear_entries [] a = a"
| "clear_entries (e # es) a =
     clear_entries es (if occupied e then sc_string_clear (ekey e) a else a)"

definition sc_map_clear :: "'v sc_map \<Rightarrow> sc_allocator \<Rightarrow> 'v sc_map \<times> sc_allocator" where
  "sc_map_clear m a = (sc_map_init, sc_free (entries m \<noteq> []) (clear_entries (entries m) a))"

text \<open>The rehash loop of \<^verbatim>\<open>map_grow\<close>.\<close>

fun map_move ::
    "'v sc_map_entry list \<Rightarrow> 'v sc_map \<Rightarrow> sc_allocator \<Rightarrow> (sc_status \<times> 'v sc_map \<times> sc_allocator) option" where
  "map_move [] nxt a = Some (sc_status_ok, nxt, a)"
| "map_move (e # es) nxt a =
     (if occupied e
      then (case map_insert_owned nxt (ekey e) (evalue e) a of
              None \<Rightarrow> None
            | Some (st, nxt', a') \<Rightarrow>
                (if \<not> sc_status_is_ok st then Some (st, nxt', a') else map_move es nxt' a'))
      else map_move es nxt a)"

definition map_next_cap :: "'v sc_map \<Rightarrow> nat" where
  "map_next_cap m = (if mcap m = 0 then SC_MAP_INITIAL_CAP else (mcap m * 2) mod (SIZE_MAX + 1))"

definition map_grow :: "'v sc_map \<Rightarrow> sc_allocator \<Rightarrow> (sc_status \<times> 'v sc_map \<times> sc_allocator) option" where
  "map_grow m a =
     (let next_cap = map_next_cap m in
      (case sc_size_mul_overflow next_cap SIZEOF_MAP_ENTRY of
         None \<Rightarrow> Some (sc_status_no_memory, m, a)
       | Some bytes \<Rightarrow>
           (let (ok, a') = sc_alloc bytes a in
            (if \<not> ok then Some (sc_status_no_memory, m, a')
             else (case map_move (entries m) \<lparr>entries = replicate next_cap entry_zero, mlen = 0\<rparr> a' of
                     None \<Rightarrow> None
                   | Some (st, nxt, a'') \<Rightarrow>
                       (if \<not> sc_status_is_ok st then Some (st, m, snd (sc_map_clear nxt a''))
                        else Some (sc_status_ok, nxt, sc_free (entries m \<noteq> []) a'')))))))"

definition sc_map_put ::
    "'v sc_map \<Rightarrow> sc_str \<Rightarrow> 'v option \<Rightarrow> sc_allocator \<Rightarrow> (sc_status \<times> 'v sc_map \<times> sc_allocator) option" where
  "sc_map_put m key value a =
     (if str_len key > 0 \<and> ptr_null key
      then Some (sc_status_invalid_argument ''sc.map.invalid_argument'', m, a)
      else if mlen m = SIZE_MAX then Some (sc_status_no_memory, m, a)
      else (case (if map_needs_growth m then map_grow m a else Some (sc_status_ok, m, a)) of
              None \<Rightarrow> None
            | Some (st, m1, a1) \<Rightarrow>
                (if \<not> sc_status_is_ok st then Some (st, m1, a1)
                 else (case sc_string_from_str key a1 of
                         (Inl e, a2) \<Rightarrow> Some (e, m1, a2)
                       | (Inr owned, a2) \<Rightarrow>
                           (case map_insert_owned m1 owned value a2 of
                              None \<Rightarrow> None
                            | Some (st2, m2, a3) \<Rightarrow>
                                (if \<not> sc_status_is_ok st2 then Some (st2, m2, sc_string_clear owned a3)
                                 else Some (st2, m2, a3)))))))"

text \<open>The outer \<open>None\<close> is the probe that never ends, the inner one the null pointer.\<close>

definition sc_map_get :: "'v sc_map \<Rightarrow> sc_str \<Rightarrow> 'v option option" where
  "sc_map_get m key =
     (if mcap m = 0 \<or> (str_len key > 0 \<and> ptr_null key) then Some None
      else (case map_slot (entries m) key of
              None \<Rightarrow> None
            | Some (slot, found) \<Rightarrow> Some (if \<not> found then None else evalue (entries m ! slot))))"

definition sc_map_contains :: "'v sc_map \<Rightarrow> sc_str \<Rightarrow> bool option" where
  "sc_map_contains m key =
     (if mcap m = 0 \<or> (str_len key > 0 \<and> ptr_null key) then Some False
      else map_option snd (map_slot (entries m) key))"

section \<open>Probing\<close>

text \<open>The entry at \<open>i\<close> holds the key \<open>k\<close>.\<close>

definition holds_key :: "'v sc_map_entry list \<Rightarrow> nat \<Rightarrow> string \<Rightarrow> bool" where
  "holds_key es i k \<longleftrightarrow> i < length es \<and> occupied (es ! i) \<and> ekey (es ! i) = Some k"

lemma next_slot [simp]: "slot < length es \<Longrightarrow> Suc slot mod length es < length es"
  by (rule mod_less_divisor) auto

lemma map_probe_bound:
  "slot < length es \<Longrightarrow> map_probe fuel es key slot = Some (i, f) \<Longrightarrow> i < length es"
  by (induction fuel es key slot rule: map_probe.induct) (auto split: if_splits)

lemma map_probe_free: "map_probe fuel es key slot = Some (i, False) \<Longrightarrow> \<not> occupied (es ! i)"
  by (induction fuel es key slot rule: map_probe.induct) (auto split: if_splits)

lemma map_probe_found:
  "map_probe fuel es key slot = Some (i, True) \<Longrightarrow>
     occupied (es ! i) \<and> sc_str_equal (sc_string_as_str (ekey (es ! i))) key"
  by (induction fuel es key slot rule: map_probe.induct) (auto split: if_splits)

lemma map_probe_stuck:
  "map_probe fuel es key slot = None \<Longrightarrow> j < fuel \<Longrightarrow> slot < length es \<Longrightarrow>
     occupied (es ! ((slot + j) mod length es))"
proof (induction fuel es key slot arbitrary: j rule: map_probe.induct)
  case (2 fuel es key slot)
  show ?case
  proof (cases j)
    case 0
    with 2 show ?thesis by (auto split: if_splits)
  next
    case (Suc j')
    have "occupied (es ! (((slot + 1) mod length es + j') mod length es))"
      using 2 Suc by (auto split: if_splits)
    moreover have "((slot + 1) mod length es + j') mod length es = (slot + j) mod length es"
      by (simp add: Suc mod_add_left_eq)
    ultimately show ?thesis by simp
  qed
qed simp

text \<open>Probing ends: \<^verbatim>\<open>cap\<close> steps visit every slot, so a free slot is met.\<close>

lemma map_probe_total:
  assumes "i < length es" "\<not> occupied (es ! i)" "slot < length es"
  shows "\<exists>r. map_probe (length es) es key slot = Some r"
proof (rule ccontr)
  assume "\<nexists>r. map_probe (length es) es key slot = Some r"
  then have none: "map_probe (length es) es key slot = None"
    by (cases "map_probe (length es) es key slot") simp_all
  define j where "j = (i + (length es - slot)) mod length es"
  have "j < length es" using assms(1) unfolding j_def by (intro mod_less_divisor) auto
  moreover have "(slot + j) mod length es = i"
    using assms(1,3) by (simp add: j_def mod_add_right_eq)
  ultimately show False using map_probe_stuck [OF none, of j] assms(2,3) by auto
qed

text \<open>Occupying a free slot does not disturb the probes that found their key, ...\<close>

lemma map_probe_upd_other:
  "map_probe fuel es key slot = Some (i, True) \<Longrightarrow> \<not> occupied (es ! s) \<Longrightarrow>
     map_probe fuel (es[s := e]) key slot = Some (i, True)"
proof (induction fuel es key slot rule: map_probe.induct)
  case (2 fuel es key slot)
  then have "s \<noteq> slot" by (auto split: if_splits)
  with 2 show ?case by (auto split: if_splits)
qed simp

text \<open>... and makes the probe of the new key find it.\<close>

lemma map_probe_upd_new:
  "map_probe fuel es key slot = Some (s, False) \<Longrightarrow> slot < length es \<Longrightarrow> occupied e \<Longrightarrow>
     sc_str_equal (sc_string_as_str (ekey e)) key \<Longrightarrow>
     map_probe fuel (es[s := e]) key slot = Some (s, True)"
proof (induction fuel es key slot rule: map_probe.induct)
  case (2 fuel es key slot)
  show ?case
  proof (cases "occupied (es ! slot)")
    case False
    with 2 show ?thesis by auto
  next
    case True
    with 2 have "\<not> sc_str_equal (sc_string_as_str (ekey (es ! slot))) key"
      by (auto split: if_splits)
    moreover from True 2 have "s \<noteq> slot"
      by (auto split: if_splits dest: map_probe_free)
    ultimately show ?thesis using 2 True by auto
  qed
qed simp

text \<open>Overwriting a slot with the same key changes no probe.\<close>

lemma map_probe_upd_same:
  "occupied e = occupied (es ! s) \<Longrightarrow> ekey e = ekey (es ! s) \<Longrightarrow>
     map_probe fuel (es[s := e]) key slot = map_probe fuel es key slot"
proof (induction fuel es key slot rule: map_probe.induct)
  case (2 fuel es key slot)
  have "occupied (es[s := e] ! slot) = occupied (es ! slot) \<and> ekey (es[s := e] ! slot) = ekey (es ! slot)"
    using 2(2,3) by (cases "s < length es") (auto simp: nth_list_update not_less list_update_beyond)
  with 2 show ?case by simp
qed simp

section \<open>Invariant and abstraction\<close>

text \<open>Every stored key is found where it is stored.\<close>

definition slots_ok :: "'v sc_map_entry list \<Rightarrow> bool" where
  "slots_ok es \<longleftrightarrow> (\<forall>i < length es. occupied (es ! i) \<longrightarrow>
     (\<exists>k. ekey (es ! i) = Some k \<and> map_slot es (Str k) = Some (i, True)))"

definition occupied_count :: "'v sc_map_entry list \<Rightarrow> nat" where
  "occupied_count es = length (filter occupied es)"

definition map_inv :: "'v sc_map \<Rightarrow> bool" where
  "map_inv m \<longleftrightarrow> slots_ok (entries m) \<and> mlen m = occupied_count (entries m) \<and>
     (mcap m = 0 \<or> (8 \<le> mcap m \<and> mlen m < mcap m)) \<and> mcap m * SIZEOF_MAP_ENTRY \<le> SIZE_MAX"

text \<open>The finite map a table stands for.\<close>

fun lookup_entries :: "'v sc_map_entry list \<Rightarrow> string \<Rightarrow> 'v option option" where
  "lookup_entries [] k = None"
| "lookup_entries (e # es) k =
     (if occupied e \<and> ekey e = Some k then Some (evalue e) else lookup_entries es k)"

definition map_abs :: "'v sc_map \<Rightarrow> string \<rightharpoonup> 'v option" where
  "map_abs m = lookup_entries (entries m)"

definition map_blocks :: "'v sc_map \<Rightarrow> int" where
  "map_blocks m = (if entries m = [] then 0 else 1) + int (occupied_count (entries m))"

lemma lookup_SomeD: "lookup_entries es k = Some v \<Longrightarrow> \<exists>i. holds_key es i k \<and> v = evalue (es ! i)"
proof (induction es)
  case (Cons e es)
  show ?case
  proof (cases "occupied e \<and> ekey e = Some k")
    case True
    with Cons.prems show ?thesis by (intro exI [of _ 0]) (simp add: holds_key_def)
  next
    case False
    with Cons obtain i where "holds_key es i k" "v = evalue (es ! i)" by auto
    then show ?thesis by (intro exI [of _ "Suc i"]) (simp add: holds_key_def)
  qed
qed simp

lemma lookup_NoneD: "lookup_entries es k = None \<Longrightarrow> \<not> holds_key es i k"
proof (induction es arbitrary: i)
  case (Cons e es)
  then show ?case by (cases i) (auto simp: holds_key_def split: if_splits)
qed (simp add: holds_key_def)

lemma slots_ok_unique:
  "slots_ok es \<Longrightarrow> holds_key es i k \<Longrightarrow> holds_key es j k \<Longrightarrow> i = j"
  unfolding slots_ok_def holds_key_def by (metis option.inject prod.inject)

lemma lookup_eq:
  assumes "slots_ok es" "holds_key es i k"
  shows "lookup_entries es k = Some (evalue (es ! i))"
proof (cases "lookup_entries es k")
  case None
  with lookup_NoneD assms(2) show ?thesis by blast
next
  case (Some v)
  with lookup_SomeD slots_ok_unique [OF assms] show ?thesis by blast
qed

lemma lookup_none: "(\<And>i. \<not> holds_key es i k) \<Longrightarrow> lookup_entries es k = None"
  using lookup_SomeD [of es k] by (cases "lookup_entries es k") auto

text \<open>What a probe returns, in terms of the map.\<close>

lemma home_slot_lt: "es \<noteq> [] \<Longrightarrow> home_slot es key < length es"
  by (simp add: home_slot_def)

lemma map_slot_found:
  assumes "map_slot es (Str k) = Some (i, True)" "slots_ok es" "es \<noteq> []"
  shows "holds_key es i k"
proof -
  have "i < length es" "occupied (es ! i)" "sc_str_equal (sc_string_as_str (ekey (es ! i))) (Str k)"
    using assms(1) map_probe_bound map_probe_found home_slot_lt [OF assms(3)]
    unfolding map_slot_def by blast+
  with assms(2) show ?thesis by (auto simp: holds_key_def slots_ok_def)
qed

lemma map_slot_free:
  assumes "map_slot es (Str k) = Some (i, False)" "slots_ok es" "es \<noteq> []"
  shows "i < length es" "\<not> occupied (es ! i)" "\<not> holds_key es j k"
proof -
  show "i < length es" "\<not> occupied (es ! i)"
    using assms(1) map_probe_bound map_probe_free home_slot_lt [OF assms(3)]
    unfolding map_slot_def by blast+
  show "\<not> holds_key es j k"
    using assms(1,2) by (auto simp: holds_key_def slots_ok_def)
qed

lemma map_slot_total:
  assumes "occupied_count es < length es"
  shows "\<exists>i f. map_slot es key = Some (i, f)"
proof -
  obtain i where "i < length es" "\<not> occupied (es ! i)"
    using unmarked_exists assms unfolding occupied_count_def by blast
  moreover from this have "es \<noteq> []" by auto
  ultimately show ?thesis
    using map_probe_total [of i es "home_slot es key" key] home_slot_lt [of es key]
    unfolding map_slot_def by auto
qed

text \<open>Writing one slot.\<close>

lemma holds_key_update:
  assumes "s < length es" "occupied e" "ekey e = Some k"
  shows "holds_key (es[s := e]) i k' \<longleftrightarrow> (i = s \<and> k' = k) \<or> (i \<noteq> s \<and> holds_key es i k')"
  using assms by (auto simp: holds_key_def nth_list_update)

lemma lookup_update:
  assumes ok: "slots_ok es" "slots_ok (es[s := e])" and e: "s < length es" "occupied e" "ekey e = Some k"
    and old: "\<And>k'. holds_key es s k' \<Longrightarrow> k' = k"
  shows "lookup_entries (es[s := e]) = (lookup_entries es)(k \<mapsto> evalue e)"
proof
  fix k'
  note upd = holds_key_update [OF e]
  show "lookup_entries (es[s := e]) k' = ((lookup_entries es)(k \<mapsto> evalue e)) k'"
  proof (cases "k' = k")
    case True
    then have "holds_key (es[s := e]) s k'" by (simp add: upd)
    from lookup_eq [OF ok(2) this] True e(1) show ?thesis by simp
  next
    case False
    show ?thesis
    proof (cases "\<exists>i. holds_key es i k'")
      case True
      then obtain i where i: "holds_key es i k'" by blast
      with old False have "i \<noteq> s" by blast
      with i have "holds_key (es[s := e]) i k'" by (simp add: upd)
      from lookup_eq [OF ok(2) this] lookup_eq [OF ok(1) i] False \<open>i \<noteq> s\<close> show ?thesis by simp
    next
      case none: False
      then have "lookup_entries (es[s := e]) k' = None" "lookup_entries es k' = None"
        using False by (auto intro!: lookup_none simp: upd)
      with False show ?thesis by simp
    qed
  qed
qed

lemma home_slot_update [simp]: "home_slot (es[s := e]) key = home_slot es key"
  by (simp add: home_slot_def)

lemma slots_ok_fresh:
  assumes "slots_ok es" "map_slot es (Str k) = Some (s, False)" "es \<noteq> []"
    "occupied e" "ekey e = Some k"
  shows "slots_ok (es[s := e])"
proof -
  note free = map_slot_free [OF assms(2,1,3)]
  have new: "map_slot (es[s := e]) (Str k) = Some (s, True)"
    using assms map_probe_upd_new [of "length es" es "Str k" "home_slot es (Str k)" s e]
      home_slot_lt [OF assms(3), of "Str k"]
    by (simp add: map_slot_def)
  have other: "map_slot (es[s := e]) (Str k') = Some (i, True)" if "map_slot es (Str k') = Some (i, True)" for i k'
    using that map_probe_upd_other [OF _ free(2)] by (simp add: map_slot_def)
  show ?thesis unfolding slots_ok_def
  proof (intro allI impI)
    fix i assume i: "i < length (es[s := e])" "occupied (es[s := e] ! i)"
    show "\<exists>k. ekey (es[s := e] ! i) = Some k \<and> map_slot (es[s := e]) (Str k) = Some (i, True)"
    proof (cases "i = s")
      case True
      with free(1) new assms(5) show ?thesis by simp
    next
      case False
      with i assms(1) obtain k' where "ekey (es ! i) = Some k'" "map_slot es (Str k') = Some (i, True)"
        by (auto simp: slots_ok_def)
      with False other show ?thesis by simp
    qed
  qed
qed

lemma slots_ok_same:
  assumes "slots_ok es" "holds_key es s k" "occupied e" "ekey e = Some k"
  shows "slots_ok (es[s := e])"
proof -
  have "map_slot (es[s := e]) key = map_slot es key" for key
    using map_probe_upd_same [of e es s] assms(2-4)
    by (simp add: map_slot_def holds_key_def)
  with assms show ?thesis
    unfolding slots_ok_def holds_key_def by (auto simp: nth_list_update)
qed

section \<open>Insertion and growth\<close>

lemma insert_owned_spec:
  assumes "slots_ok (entries m)" "mlen m = occupied_count (entries m)" "mlen m < mcap m"
  shows "\<exists>m' a'. map_insert_owned m (Some k) v a = Some (sc_status_ok, m', a') \<and>
    slots_ok (entries m') \<and> mlen m' = occupied_count (entries m') \<and> mcap m' = mcap m \<and>
    map_abs m' = (map_abs m)(k \<mapsto> v) \<and>
    (map_abs m k = None \<longrightarrow> mlen m' = mlen m + 1 \<and> a' = a) \<and>
    (map_abs m k \<noteq> None \<longrightarrow> mlen m' = mlen m \<and> live a' = live a - 1 \<and> generous a' = generous a)"
proof -
  have ne: "entries m \<noteq> []" using assms(3) by auto
  obtain s f where slot: "map_slot (entries m) (Str k) = Some (s, f)"
    using map_slot_total assms(2,3) by metis
  show ?thesis
  proof (cases f)
    case True
    then have h: "holds_key (entries m) s k"
      using map_slot_found [of "entries m" k s] slot assms(1) ne by simp
    define e where "e = (entries m ! s)\<lparr>ekey := Some k, evalue := v\<rparr>"
    have e: "s < mcap m" "occupied e" "ekey e = Some k" "evalue e = v" "ekey (entries m ! s) = Some k"
      "occupied (entries m ! s)"
      using h by (auto simp: holds_key_def e_def)
    note ok = slots_ok_same [OF assms(1) h e(2,3)]
    have "lookup_entries ((entries m)[s := e]) = (lookup_entries (entries m))(k \<mapsto> v)"
      using lookup_update [OF assms(1) ok e(1-3)] e(4) h by (auto simp: holds_key_def)
    moreover have "lookup_entries (entries m) k \<noteq> None" using lookup_eq [OF assms(1) h] by simp
    ultimately show ?thesis
      using slot True ok e assms(2)
      by (simp add: map_insert_owned_def e_def [symmetric] map_abs_def occupied_count_def
          filter_update_same)
  next
    case False
    then have free: "s < mcap m" "\<not> occupied (entries m ! s)" "\<And>j. \<not> holds_key (entries m) j k"
      using map_slot_free [of "entries m" k s] slot assms(1) ne by auto
    define e where "e = \<lparr>ekey = Some k, evalue = v, occupied = True\<rparr>"
    have e: "occupied e" "ekey e = Some k" "evalue e = v" by (auto simp: e_def)
    have ok: "slots_ok ((entries m)[s := e])"
      using slots_ok_fresh [OF assms(1) _ ne e(1,2), of s] slot False by simp
    have "lookup_entries ((entries m)[s := e]) = (lookup_entries (entries m))(k \<mapsto> v)"
      using lookup_update [OF assms(1) ok free(1) e(1,2)] e(3) free(2) by (auto simp: holds_key_def)
    moreover have "lookup_entries (entries m) k = None" using lookup_none free(3) by blast
    ultimately show ?thesis
      using slot False ok free assms(2)
      by (simp add: map_insert_owned_def e_def [symmetric] e map_abs_def occupied_count_def
          filter_update_fresh)
  qed
qed

definition stored_keys :: "'v sc_map_entry list \<Rightarrow> sc_string list" where
  "stored_keys es = map ekey (filter occupied es)"

lemma stored_keys_simps [simp]:
  "stored_keys [] = []"
  "stored_keys (e # es) = (if occupied e then ekey e # stored_keys es else stored_keys es)"
  by (simp_all add: stored_keys_def)

lemma lookup_stored: "lookup_entries es k \<noteq> None \<longleftrightarrow> Some k \<in> set (stored_keys es)"
  by (induction es) auto

lemma occupied_count_simps [simp]:
  "occupied_count [] = 0"
  "occupied_count (e # es) = (if occupied e then occupied_count es + 1 else occupied_count es)"
  by (simp_all add: occupied_count_def)

lemma occupied_count_replicate [simp]: "occupied_count (replicate n entry_zero) = 0"
  by (induction n) (simp_all add: entry_zero_def)

lemma slots_ok_replicate [simp]: "slots_ok (replicate n entry_zero)"
  by (simp add: slots_ok_def entry_zero_def)

lemma lookup_replicate [simp]: "lookup_entries (replicate n entry_zero) k = None"
  by (induction n) (simp_all add: entry_zero_def)

lemma map_move_spec:
  assumes "distinct (stored_keys es)" "None \<notin> set (stored_keys es)"
    and "\<And>k. Some k \<in> set (stored_keys es) \<Longrightarrow> map_abs m k = None"
    and "slots_ok (entries m)" "mlen m = occupied_count (entries m)"
    and "mlen m + occupied_count es < mcap m"
  shows "\<exists>m'. map_move es m a = Some (sc_status_ok, m', a) \<and> slots_ok (entries m') \<and>
    mlen m' = occupied_count (entries m') \<and> mcap m' = mcap m \<and>
    mlen m' = mlen m + occupied_count es \<and> map_abs m' = map_abs m ++ lookup_entries es"
  using assms
proof (induction es arbitrary: m)
  case Nil
  have "map_abs m ++ (\<lambda>k. None) = map_abs m" by (simp add: map_add_def)
  with Nil show ?case by (simp add: map_add_def)
next
  case (Cons e es)
  show ?case
  proof (cases "occupied e")
    case False
    have "lookup_entries (e # es) = lookup_entries es" using False by (simp add: fun_eq_iff)
    with False Cons show ?thesis by simp
  next
    case True
    with Cons.prems(2) obtain k where k: "ekey e = Some k" by (cases "ekey e") auto
    obtain m1 where ins: "map_insert_owned m (ekey e) (evalue e) a = Some (sc_status_ok, m1, a)"
      "slots_ok (entries m1)" "mlen m1 = occupied_count (entries m1)" "mcap m1 = mcap m"
      "map_abs m1 = (map_abs m)(k \<mapsto> evalue e)" "mlen m1 = mlen m + 1"
      using insert_owned_spec [OF Cons.prems(4,5), of k "evalue e" a] Cons.prems(3,6) True k by auto
    have fresh: "lookup_entries es k = None"
      using Cons.prems(1) True k lookup_stored [of es k] by auto
    have "map_abs m1 k' = None" if "Some k' \<in> set (stored_keys es)" for k'
      using that Cons.prems(1,3) True k ins(5) by (auto split: if_splits)
    moreover have "distinct (stored_keys es)" "None \<notin> set (stored_keys es)"
      "mlen m1 + occupied_count es < mcap m1"
      using Cons.prems(1,2,6) True ins(4,6) by auto
    ultimately obtain m' where "map_move es m1 a = Some (sc_status_ok, m', a)" "slots_ok (entries m')"
      "mlen m' = occupied_count (entries m')" "mcap m' = mcap m1"
      "mlen m' = mlen m1 + occupied_count es" "map_abs m' = map_abs m1 ++ lookup_entries es"
      using Cons.IH [of m1] ins(2,3) by blast
    moreover have "map_abs m1 ++ lookup_entries es = map_abs m ++ lookup_entries (e # es)"
      using ins(5) True k fresh by (auto simp: map_add_def fun_eq_iff split: option.splits)
    moreover from calculation have "mlen m' = mlen m + occupied_count (e # es)"
      using True ins(6) by simp
    moreover have "map_move (e # es) m a = map_move es m1 a" using True ins(1) by simp
    ultimately show ?thesis using ins(4) by metis
  qed
qed

lemma slots_ok_stored:
  assumes "slots_ok es"
  shows "distinct (stored_keys es)" "None \<notin> set (stored_keys es)"
proof -
  show "None \<notin> set (stored_keys es)"
    using assms by (auto simp: stored_keys_def slots_ok_def in_set_conv_nth)
  show "distinct (stored_keys es)" unfolding stored_keys_def
  proof (rule distinct_map_filter)
    fix i j
    assume ij: "i < length es" "j < length es" "occupied (es ! i)" "occupied (es ! j)"
      "ekey (es ! i) = ekey (es ! j)"
    with assms obtain k where "ekey (es ! i) = Some k" unfolding slots_ok_def by blast
    with ij show "i = j" using slots_ok_unique [OF assms, of i k j] by (simp add: holds_key_def)
  qed
qed

lemma map_grow_spec:
  assumes "map_inv m"
  shows "\<exists>st m' a'. map_grow m a = Some (st, m', a') \<and> map_inv m' \<and> map_abs m' = map_abs m \<and>
    live a' = live a + map_blocks m' - map_blocks m \<and>
    (sc_status_is_ok st \<longrightarrow> mlen m' + 1 < mcap m') \<and>
    (\<not> sc_status_is_ok st \<longrightarrow> st = sc_status_no_memory \<and> m' = m) \<and>
    (generous a \<longrightarrow> generous a' \<and> ((2 * mcap m + 8) * SIZEOF_MAP_ENTRY \<le> SIZE_MAX \<longrightarrow> st = sc_status_ok))"
proof -
  define cap' where "cap' = map_next_cap m"
  have inv: "slots_ok (entries m)" "mlen m = occupied_count (entries m)"
    "mcap m = 0 \<or> (8 \<le> mcap m \<and> mlen m < mcap m)" "mcap m * SIZEOF_MAP_ENTRY \<le> SIZE_MAX"
    using assms by (auto simp: map_inv_def)
  have "mcap m * 2 \<le> SIZE_MAX" using inv(4) by (simp add: SIZEOF_MAP_ENTRY_def)
  then have cap': "cap' = (if mcap m = 0 then 8 else 2 * mcap m)"
    by (simp add: cap'_def map_next_cap_def SC_MAP_INITIAL_CAP_def)
  show ?thesis
  proof (cases "cap' * SIZEOF_MAP_ENTRY \<le> SIZE_MAX")
    case False
    then have "map_grow m a = Some (sc_status_no_memory, m, a)"
      by (simp add: map_grow_def cap'_def [symmetric] sc_size_mul_overflow_def Let_def)
    moreover have "\<not> (2 * mcap m + 8) * SIZEOF_MAP_ENTRY \<le> SIZE_MAX"
      using False cap' by (simp add: SIZEOF_MAP_ENTRY_def split: if_splits)
    ultimately show ?thesis using assms by simp
  next
    case fits: True
    obtain ok a1 where al: "sc_alloc (cap' * SIZEOF_MAP_ENTRY) a = (ok, a1)"
      by (cases "sc_alloc (cap' * SIZEOF_MAP_ENTRY) a") auto
    show ?thesis
    proof (cases ok)
      case False
      with al fits have "map_grow m a = Some (sc_status_no_memory, m, a1)"
        by (simp add: map_grow_def cap'_def [symmetric] sc_size_mul_overflow_def)
      moreover have "live a1 = live a" "\<not> generous a"
        using alloc_cases [OF al] al False by (auto simp: generous_alloc)
      ultimately show ?thesis using assms by simp
    next
      case True
      let ?n = "\<lparr>entries = replicate cap' entry_zero, mlen = 0\<rparr> :: 'a sc_map"
      have cnt: "occupied_count (entries m) + 1 < cap'" using inv(2,3) cap' by auto
      have empty: "map_abs ?n = Map.empty" by (simp add: map_abs_def fun_eq_iff)
      obtain m' where mv: "map_move (entries m) ?n a1 = Some (sc_status_ok, m', a1)"
        "slots_ok (entries m')" "mlen m' = occupied_count (entries m')" "mcap m' = cap'"
        "mlen m' = occupied_count (entries m)" "map_abs m' = map_abs m"
        using map_move_spec [OF slots_ok_stored [OF inv(1)], of ?n a1] cnt empty
        by (auto simp: map_abs_def)
      have grow: "map_grow m a = Some (sc_status_ok, m', sc_free (entries m \<noteq> []) a1)"
        using True al fits mv(1)
        by (simp add: map_grow_def cap'_def [symmetric] sc_size_mul_overflow_def)
      have "map_inv m'" using mv fits cnt cap' inv(3) by (auto simp: map_inv_def)
      moreover have "entries m' \<noteq> []" using cnt mv(4) by auto
      then have "map_blocks m' = 1 + int (occupied_count (entries m))"
        using mv(3,5) by (simp add: map_blocks_def)
      moreover have "generous a \<Longrightarrow> generous a1" using al by (auto simp: generous_alloc)
      ultimately show ?thesis
        using grow mv cnt alloc_cases [OF al] True by (auto simp: map_blocks_def)
    qed
  qed
qed

lemma no_growth_room:
  assumes "map_inv m" "\<not> map_needs_growth m"
  shows "mlen m + 1 < mcap m"
proof -
  have c: "8 \<le> mcap m" using assms by (auto simp: map_inv_def map_needs_growth_def)
  have "mcap m * 70 div 100 < mcap m" "mcap m * 70 div 100 \<noteq> 0" using c by auto
  moreover have "mcap m - mcap m div 100 * 30 < mcap m" if "mcap m > SIZE_MAX div 70"
  proof -
    have "100 \<le> mcap m" using that by (simp add: SIZE_MAX_def)
    then have "0 < mcap m div 100" by (simp add: div_greater_zero_iff)
    then show ?thesis using c by simp
  qed
  ultimately show ?thesis
    using assms(2) c by (auto simp: map_needs_growth_def Let_def SC_MAP_MAX_LOAD_PERCENT_def
        split: if_splits)
qed

section \<open>The operations refine a finite map\<close>

definition valid_key :: "sc_str \<Rightarrow> bool" where
  "valid_key key \<longleftrightarrow> \<not> (str_len key > 0 \<and> ptr_null key)"

lemma map_put_spec:
  assumes "map_inv m"
  shows "\<exists>st m' a'. sc_map_put m key v a = Some (st, m', a') \<and> map_inv m' \<and>
    live a' = live a + map_blocks m' - map_blocks m \<and>
    (sc_status_is_ok st \<longrightarrow> valid_key key \<and> map_abs m' = (map_abs m)(str_bytes key \<mapsto> v)) \<and>
    (\<not> sc_status_is_ok st \<longrightarrow> map_abs m' = map_abs m) \<and>
    (generous a \<and> valid_key key \<and> str_len key < SIZE_MAX \<and>
       (2 * mcap m + 8) * SIZEOF_MAP_ENTRY \<le> SIZE_MAX \<longrightarrow> sc_status_is_ok st \<and> generous a')"
proof (cases "valid_key key")
  case False
  then have "sc_map_put m key v a =
      Some (sc_status_invalid_argument ''sc.map.invalid_argument'', m, a)"
    by (simp add: sc_map_put_def valid_key_def)
  with False assms show ?thesis by simp
next
  case key: True
  then have nk: "(0 < str_len key \<and> ptr_null key) = False" by (simp add: valid_key_def)
  have nfull: "mlen m \<noteq> SIZE_MAX"
    using assms by (auto simp: map_inv_def SIZEOF_MAP_ENTRY_def SIZE_MAX_def)
  define g where "g = (if map_needs_growth m then map_grow m a else Some (sc_status_ok, m, a))"
  obtain st1 m1 a1 where grow: "g = Some (st1, m1, a1)" "map_inv m1" "map_abs m1 = map_abs m"
    "live a1 = live a + map_blocks m1 - map_blocks m"
    "sc_status_is_ok st1 \<Longrightarrow> mlen m1 + 1 < mcap m1"
    "generous a \<Longrightarrow> generous a1"
    "generous a \<Longrightarrow> (2 * mcap m + 8) * SIZEOF_MAP_ENTRY \<le> SIZE_MAX \<Longrightarrow> st1 = sc_status_ok"
    using map_grow_spec [OF assms, of a] no_growth_room [OF assms] assms
    by (cases "map_needs_growth m") (auto simp: g_def)
  note put = sc_map_put_def [of m key v a, folded g_def, unfolded grow(1) nk, simplified]
  show ?thesis
  proof (cases "sc_status_is_ok st1")
    case False
    then have "sc_map_put m key v a = Some (st1, m1, a1)"
      using put nfull by simp
    with False grow show ?thesis by auto
  next
    case True
    obtain r a2 where cp: "sc_string_from_str key a1 = (r, a2)"
      by (cases "sc_string_from_str key a1") auto
    show ?thesis
    proof (cases r)
      case (Inl e)
      then have "sc_map_put m key v a = Some (e, m1, a2)"
        using put nfull True cp by simp
      moreover have "\<not> sc_status_is_ok e" "live a2 = live a1"
        using string_from_str_Inl cp Inl by auto
      moreover have "\<not> (generous a1 \<and> str_len key < SIZE_MAX)"
        using cp Inl key by (auto simp: sc_string_from_str_def generous_alloc valid_key_def)
      ultimately show ?thesis using grow by auto
    next
      case (Inr owned)
      then have own: "owned = Some (str_bytes key)" "live a2 = live a1 + 1"
        using string_from_str_Inr cp by auto
      have gen: "generous a1 \<Longrightarrow> generous a2"
        using cp by (auto simp: sc_string_from_str_def generous_alloc split: if_splits)
      have m1: "slots_ok (entries m1)" "mlen m1 = occupied_count (entries m1)" "mlen m1 < mcap m1"
        using grow(2,5) True by (auto simp: map_inv_def)
      obtain m2 a3 where ins: "map_insert_owned m1 owned v a2 = Some (sc_status_ok, m2, a3)"
        "slots_ok (entries m2)" "mlen m2 = occupied_count (entries m2)" "mcap m2 = mcap m1"
        "map_abs m2 = (map_abs m1)(str_bytes key \<mapsto> v)" "generous a2 \<Longrightarrow> generous a3"
        "(mlen m2 = mlen m1 + 1 \<and> live a3 = live a2) \<or> (mlen m2 = mlen m1 \<and> live a3 = live a2 - 1)"
        using insert_owned_spec [OF m1, of "str_bytes key" v a2] own(1) by fastforce
      have "sc_map_put m key v a = Some (sc_status_ok, m2, a3)"
        using put nfull True cp Inr ins(1) by simp
      moreover have "map_inv m2"
        using ins(2-4,7) grow(2,5) True by (auto simp: map_inv_def)
      moreover have "live a3 = live a1 + map_blocks m2 - map_blocks m1"
        using ins(3,4,7) m1(2,3) own(2) by (auto simp: map_blocks_def)
      ultimately show ?thesis using ins(5,6) gen grow key by auto
    qed
  qed
qed

lemma str_equal_valid_key:
  "valid_key key \<Longrightarrow> sc_str_equal s key = sc_str_equal s (Str (str_bytes key))"
  by (cases key) (auto simp: valid_key_def sc_str_equal_def)

lemma map_slot_valid_key: "valid_key key \<Longrightarrow> map_slot es key = map_slot es (Str (str_bytes key))"
proof -
  assume key: "valid_key key"
  have "map_probe n es key s = map_probe n es (Str (str_bytes key)) s" for n s
    by (induction n arbitrary: s) (simp_all add: str_equal_valid_key [OF key])
  then show ?thesis by (simp add: map_slot_def home_slot_def hash_str_def)
qed

lemma map_get_spec:
  assumes "map_inv m"
  shows "sc_map_get m key =
    Some (if valid_key key then (case map_abs m (str_bytes key) of None \<Rightarrow> None | Some v \<Rightarrow> v) else None)"
    and "sc_map_contains m key = Some (valid_key key \<and> map_abs m (str_bytes key) \<noteq> None)"
proof -
  have ok: "slots_ok (entries m)" using assms by (simp add: map_inv_def)
  let ?v = "lookup_entries (entries m) (str_bytes key)"
  have look: "\<exists>s f. map_slot (entries m) key = Some (s, f) \<and> (f \<longrightarrow> ?v = Some (evalue (entries m ! s))) \<and>
      (\<not> f \<longrightarrow> ?v = None)" if "entries m \<noteq> []" "valid_key key"
  proof -
    have "occupied_count (entries m) < mcap m" using assms that(1) by (auto simp: map_inv_def)
    then obtain s f where slot: "map_slot (entries m) (Str (str_bytes key)) = Some (s, f)"
      using map_slot_total by blast
    have "?v = Some (evalue (entries m ! s))" if f
      using lookup_eq [OF ok map_slot_found] slot ok that \<open>entries m \<noteq> []\<close> by auto
    moreover have "?v = None" if "\<not> f"
      using lookup_none map_slot_free(3) slot ok that \<open>entries m \<noteq> []\<close> by metis
    ultimately show ?thesis
      using slot map_slot_valid_key [OF \<open>valid_key key\<close>, of "entries m"]
      by (intro exI [of _ s] exI [of _ f]) auto
  qed
  show "sc_map_get m key =
    Some (if valid_key key then (case map_abs m (str_bytes key) of None \<Rightarrow> None | Some v \<Rightarrow> v) else None)"
    using look by (auto simp: sc_map_get_def map_abs_def valid_key_def)
  show "sc_map_contains m key = Some (valid_key key \<and> map_abs m (str_bytes key) \<noteq> None)"
    using look by (auto simp: sc_map_contains_def map_abs_def valid_key_def)
qed

lemma clear_entries_live:
  "(\<forall>e \<in> set es. occupied e \<longrightarrow> ekey e \<noteq> None) \<Longrightarrow>
   live (clear_entries es a) = live a - int (occupied_count es)"
  by (induction es arbitrary: a) auto

lemma map_clear_spec:
  assumes "map_inv m" "sc_map_clear m a = (m', a')"
  shows "m' = sc_map_init" "live a' = live a - map_blocks m"
proof -
  have "\<forall>e \<in> set (entries m). occupied e \<longrightarrow> ekey e \<noteq> None"
    using slots_ok_stored(2) [of "entries m"] assms(1) by (force simp: map_inv_def stored_keys_def)
  with assms(2) show "m' = sc_map_init" "live a' = live a - map_blocks m"
    by (auto simp: sc_map_clear_def clear_entries_live map_blocks_def)
qed

lemma map_inv_init [simp]: "map_inv sc_map_init"
  by (simp add: map_inv_def sc_map_init_def slots_ok_def)

lemma map_abs_init [simp]: "map_abs sc_map_init = Map.empty"
  by (simp add: map_abs_def sc_map_init_def fun_eq_iff)

lemma map_blocks_init [simp]: "map_blocks sc_map_init = 0"
  by (simp add: map_blocks_def sc_map_init_def)

section \<open>The map interface\<close>

text \<open>
  What a client of a string-keyed table may rely on. The client program is a sequence of
  insertions; the lemma says what any later lookup returns and which blocks are held,
  whichever of the insertions failed.
\<close>

locale string_table =
  fixes inv :: "'m \<Rightarrow> bool"
    and abs_of :: "'m \<Rightarrow> string \<rightharpoonup> 'v option"
    and blocks :: "'m \<Rightarrow> int"
    and put :: "'m \<Rightarrow> sc_str \<Rightarrow> 'v option \<Rightarrow> sc_allocator \<Rightarrow> (sc_status \<times> 'm \<times> sc_allocator) option"
    and get :: "'m \<Rightarrow> sc_str \<Rightarrow> 'v option option"
  assumes put_total: "inv m \<Longrightarrow> \<exists>st m' a'. put m k v a = Some (st, m', a')"
    and put_inv: "inv m \<Longrightarrow> put m k v a = Some (st, m', a') \<Longrightarrow> inv m'"
    and put_ok: "inv m \<Longrightarrow> put m k v a = Some (st, m', a') \<Longrightarrow> sc_status_is_ok st \<Longrightarrow>
      abs_of m' = (abs_of m)(str_bytes k \<mapsto> v)"
    and put_fail: "inv m \<Longrightarrow> put m k v a = Some (st, m', a') \<Longrightarrow> \<not> sc_status_is_ok st \<Longrightarrow>
      abs_of m' = abs_of m"
    and put_live: "inv m \<Longrightarrow> put m k v a = Some (st, m', a') \<Longrightarrow>
      live a' = live a + blocks m' - blocks m"
    and get_abs: "inv m \<Longrightarrow> get m (Str s) = Some (case abs_of m s of None \<Rightarrow> None | Some v \<Rightarrow> v)"
begin

fun put_all ::
    "'m \<Rightarrow> (string \<times> 'v option) list \<Rightarrow> sc_allocator \<Rightarrow> (sc_status list \<times> 'm \<times> sc_allocator) option" where
  "put_all m [] a = Some ([], m, a)"
| "put_all m ((k, v) # kvs) a =
     (case put m (Str k) v a of
        None \<Rightarrow> None
      | Some (st, m', a') \<Rightarrow>
          (case put_all m' kvs a' of
             None \<Rightarrow> None
           | Some (sts, m'', a'') \<Rightarrow> Some (st # sts, m'', a'')))"

fun accepted :: "sc_status list \<Rightarrow> 'k list \<Rightarrow> 'k list" where
  "accepted (st # sts) (x # xs) =
     (if sc_status_is_ok st then x # accepted sts xs else accepted sts xs)"
| "accepted sts xs = []"

lemma put_all_spec:
  assumes "inv m"
  shows "\<exists>sts m' a'. put_all m kvs a = Some (sts, m', a') \<and> inv m' \<and> length sts = length kvs \<and>
    abs_of m' = abs_of m ++ map_of (rev (accepted sts kvs)) \<and>
    live a' = live a + blocks m' - blocks m"
  using assms
proof (induction kvs arbitrary: m a)
  case (Cons kv kvs)
  obtain k v where kv: "kv = (k, v)" by (cases kv)
  obtain st m1 a1 where one: "put m (Str k) v a = Some (st, m1, a1)"
    using put_total [OF Cons.prems] by blast
  note laws = put_inv [OF Cons.prems one] put_ok [OF Cons.prems one] put_fail [OF Cons.prems one]
    put_live [OF Cons.prems one]
  obtain sts m' a' where rest: "put_all m1 kvs a1 = Some (sts, m', a')" "inv m'"
    "length sts = length kvs" "abs_of m' = abs_of m1 ++ map_of (rev (accepted sts kvs))"
    "live a' = live a1 + blocks m' - blocks m1"
    using Cons.IH [OF laws(1)] by blast
  have "abs_of m' = abs_of m ++ map_of (rev (accepted (st # sts) (kv # kvs)))"
    using laws(2,3) rest(4) kv by (cases "sc_status_is_ok st") (simp_all add: map_add_assoc [symmetric])
  with one rest laws(4) kv show ?case by auto
qed simp

lemma get_after_puts:
  assumes "inv m" "put_all m kvs a = Some (sts, m', a')"
    "map_of (rev (accepted sts kvs)) k = Some v"
  shows "get m' (Str k) = Some v"
proof -
  have "inv m'" "abs_of m' = abs_of m ++ map_of (rev (accepted sts kvs))"
    using put_all_spec [OF assms(1), of kvs a] assms(2) by auto
  with get_abs assms(3) show ?thesis by simp
qed

end

interpretation hash_table: string_table map_inv map_abs map_blocks sc_map_put sc_map_get
proof unfold_locales
  fix m :: "'a sc_map" and k v a st m' a'
  assume inv: "map_inv m"
  note spec = map_put_spec [OF inv, of k v a]
  show "\<exists>st m' a'. sc_map_put m k v a = Some (st, m', a')" using spec by blast
  assume put: "sc_map_put m k v a = Some (st, m', a')"
  show "map_inv m'" "live a' = live a + map_blocks m' - map_blocks m" using spec put by auto
  show "sc_status_is_ok st \<Longrightarrow> map_abs m' = (map_abs m)(str_bytes k \<mapsto> v)"
    "\<not> sc_status_is_ok st \<Longrightarrow> map_abs m' = map_abs m" using spec put by auto
next
  fix m :: "'a sc_map" and s
  assume "map_inv m"
  then show "sc_map_get m (Str s) = Some (case map_abs m s of None \<Rightarrow> None | Some v \<Rightarrow> v)"
    by (simp add: map_get_spec valid_key_def)
qed

end
