(* ===== verification/SC_Time.thy ===== *)
theory SC_Time
  imports SC_String
begin

text \<open>
  Clocks, random bytes and identifiers, \<^verbatim>\<open>src/core/time.c\<close>. The operating system is a
  parameter: what \<^verbatim>\<open>clock_gettime\<close> returns, and what reading \<^verbatim>\<open>/dev/urandom\<close> gives.
\<close>

unbundle bit_operations_syntax

section \<open>Clocks\<close>

text \<open>A reading of \<^verbatim>\<open>clock_gettime\<close>: seconds and nanoseconds, or a failure.\<close>

type_synonym timespec = "(int \<times> int) option"

definition sc_clock_monotonic :: "timespec \<Rightarrow> int res" where
  "sc_clock_monotonic ts =
     (case ts of None \<Rightarrow> Inl (sc_status_io ''sc.time.monotonic_failed'')
      | Some (sec, nsec) \<Rightarrow> Inr (sec * 1000000000 + nsec))"

definition sc_clock_wall :: "timespec \<Rightarrow> int res" where
  "sc_clock_wall ts =
     (case ts of None \<Rightarrow> Inl (sc_status_io ''sc.time.wall_failed'')
      | Some (sec, nsec) \<Rightarrow> Inr (sec * 1000000000 + nsec))"

section \<open>Random bytes\<close>

text \<open>One reading of \<^verbatim>\<open>/dev/urandom\<close>: did it open, the bytes read, did it close, was \<^verbatim>\<open>errno\<close> zero.\<close>

record urandom =
  dev_open :: bool
  dev_bytes :: "nat list"
  dev_close :: bool
  dev_errno0 :: bool

definition sc_random_bytes :: "urandom \<Rightarrow> nat \<Rightarrow> nat list res" where
  "sc_random_bytes dev len =
     (if len = 0 then Inr []
      else if \<not> dev_open dev then Inl (sc_status_io ''sc.random.open_failed'')
      else if \<not> dev_close dev then Inl (sc_status_io ''sc.random.close_failed'')
      else if length (take len (dev_bytes dev)) \<noteq> len
      then Inl (sc_status_io (if dev_errno0 dev then ''sc.random.short_read'' else ''sc.random.read_failed''))
      else Inr (take len (dev_bytes dev)))"

section \<open>Version 4 identifiers\<close>

definition hex_digit :: "nat \<Rightarrow> char" where
  "hex_digit d = ''0123456789abcdef'' ! d"

definition hex2 :: "nat \<Rightarrow> string" where
  "hex2 b = [hex_digit (b div 16), hex_digit (b mod 16)]"

definition uuid_text :: "nat list \<Rightarrow> string" where
  "uuid_text bs =
     concat (map hex2 (take 4 bs)) @ ''-'' @ concat (map hex2 (take 2 (drop 4 bs))) @ ''-'' @
     concat (map hex2 (take 2 (drop 6 bs))) @ ''-'' @ concat (map hex2 (take 2 (drop 8 bs))) @ ''-'' @
     concat (map hex2 (take 6 (drop 10 bs)))"

definition uuid_tag :: "nat list \<Rightarrow> nat list" where
  "uuid_tag bs = bs[6 := (bs ! 6 AND 0x0F) OR 0x40, 8 := (bs ! 8 AND 0x3F) OR 0x80]"

definition sc_uuid_v4 :: "urandom \<Rightarrow> sc_allocator \<Rightarrow> sc_string res \<times> sc_allocator" where
  "sc_uuid_v4 dev a =
     (case sc_random_bytes dev 16 of
        Inl e \<Rightarrow> (Inl e, a)
      | Inr bs \<Rightarrow>
          (let t = uuid_text (uuid_tag bs) in
           (if length t \<noteq> 36 then (Inl (sc_status_io ''sc.uuid.format_failed''), a)
            else sc_string_from_cstr (Some t) a)))"

lemma length_hex2 [simp]: "length (hex2 b) = 2"
  by (simp add: hex2_def)

lemma length_concat_hex [simp]: "length (concat (map hex2 bs)) = 2 * length bs"
  by (induction bs) auto

lemma length_uuid_text: "length bs = 16 \<Longrightarrow> length (uuid_text bs) = 36"
  by (simp add: uuid_text_def)

lemma hex_digit_not_nul: "d < 16 \<Longrightarrow> hex_digit d \<noteq> CHR 0x00"
  using nth_mem [of d "''0123456789abcdef''"] unfolding hex_digit_def by auto

lemma hex_digit_inj: "d < 16 \<Longrightarrow> e < 16 \<Longrightarrow> hex_digit d = hex_digit e \<Longrightarrow> d = e"
proof -
  have "distinct ''0123456789abcdef''" by simp
  moreover assume "d < 16" "e < 16" "hex_digit d = hex_digit e"
  ultimately show ?thesis unfolding hex_digit_def by (subst (asm) nth_eq_iff_index_eq) auto
qed

lemma hex2_inj: "b < 256 \<Longrightarrow> c < 256 \<Longrightarrow> hex2 b = hex2 c \<Longrightarrow> b = c"
proof -
  assume "b < 256" "c < 256" and eq: "hex2 b = hex2 c"
  then have "b div 16 < 16" "c div 16 < 16" by (simp_all add: div_less_iff_less_mult)
  moreover from eq have "hex_digit (b div 16) = hex_digit (c div 16)" "hex_digit (b mod 16) = hex_digit (c mod 16)"
    by (simp_all add: hex2_def)
  ultimately have "b div 16 = c div 16" "b mod 16 = c mod 16" by (auto intro: hex_digit_inj)
  then show "b = c" by (metis div_mult_mod_eq)
qed

lemma concat_hex_inj:
  "length bs = length cs \<Longrightarrow> \<forall>b \<in> set (bs @ cs). b < 256 \<Longrightarrow>
   concat (map hex2 bs) = concat (map hex2 cs) \<Longrightarrow> bs = cs"
proof (induction bs cs rule: list_induct2)
  case (Cons b bs c cs)
  then have "hex2 b @ concat (map hex2 bs) = hex2 c @ concat (map hex2 cs)" by simp
  then have "hex2 b = hex2 c" "concat (map hex2 bs) = concat (map hex2 cs)"
    by (metis append_eq_append_conv length_hex2)+
  with Cons hex2_inj [of b c] show ?case by auto
qed simp

end
