(* ===== verification/SC_Sandbox_Kinds.thy ===== *)
theory SC_Sandbox_Kinds
  imports SC_String
begin

text \<open>
  The enumerations of the sandbox layer and their configuration spellings:
  \<^verbatim>\<open>include/sc/sandbox.h\<close> and the codec functions of \<^verbatim>\<open>src/security/sandbox.c\<close>. The
  interface \<open>enum_codec\<close> says what a spelling must satisfy to survive being written to a
  configuration file and read again.
\<close>

section \<open>Enumerations\<close>

datatype sc_sandbox_backend =
    SC_SANDBOX_BACKEND_AUTO
  | SC_SANDBOX_BACKEND_LANDLOCK
  | SC_SANDBOX_BACKEND_BUBBLEWRAP
  | SC_SANDBOX_BACKEND_FIREJAIL
  | SC_SANDBOX_BACKEND_DOCKER
  | SC_SANDBOX_BACKEND_SEATBELT
  | SC_SANDBOX_BACKEND_APPCONTAINER
  | SC_SANDBOX_BACKEND_PODMAN
  | SC_SANDBOX_BACKEND_CONTAINER
  | SC_SANDBOX_BACKEND_NOOP
  | SC_SANDBOX_BACKEND_UNKNOWN

datatype sc_sandbox_network_policy =
    SC_SANDBOX_NETWORK_FULL
  | SC_SANDBOX_NETWORK_ALLOWED_DOMAINS
  | SC_SANDBOX_NETWORK_NONE

definition sc_sandbox_backend_from_str :: "sc_str \<Rightarrow> sc_sandbox_backend" where
  "sc_sandbox_backend_from_str value =
     (if sc_str_equal value (Str ''auto'') \<or> str_len value = 0 then SC_SANDBOX_BACKEND_AUTO
      else if sc_str_equal value (Str ''landlock'') then SC_SANDBOX_BACKEND_LANDLOCK
      else if sc_str_equal value (Str ''bubblewrap'') then SC_SANDBOX_BACKEND_BUBBLEWRAP
      else if sc_str_equal value (Str ''firejail'') then SC_SANDBOX_BACKEND_FIREJAIL
      else if sc_str_equal value (Str ''docker'') then SC_SANDBOX_BACKEND_DOCKER
      else if sc_str_equal value (Str ''podman'') then SC_SANDBOX_BACKEND_PODMAN
      else if sc_str_equal value (Str ''container'') \<or> sc_str_equal value (Str ''oci'')
      then SC_SANDBOX_BACKEND_CONTAINER
      else if sc_str_equal value (Str ''seatbelt'') then SC_SANDBOX_BACKEND_SEATBELT
      else if sc_str_equal value (Str ''appcontainer'') then SC_SANDBOX_BACKEND_APPCONTAINER
      else if sc_str_equal value (Str ''noop'') then SC_SANDBOX_BACKEND_NOOP
      else SC_SANDBOX_BACKEND_UNKNOWN)"

fun sc_sandbox_backend_to_str :: "sc_sandbox_backend \<Rightarrow> sc_str" where
  "sc_sandbox_backend_to_str SC_SANDBOX_BACKEND_AUTO = Str ''auto''"
| "sc_sandbox_backend_to_str SC_SANDBOX_BACKEND_LANDLOCK = Str ''landlock''"
| "sc_sandbox_backend_to_str SC_SANDBOX_BACKEND_BUBBLEWRAP = Str ''bubblewrap''"
| "sc_sandbox_backend_to_str SC_SANDBOX_BACKEND_FIREJAIL = Str ''firejail''"
| "sc_sandbox_backend_to_str SC_SANDBOX_BACKEND_DOCKER = Str ''docker''"
| "sc_sandbox_backend_to_str SC_SANDBOX_BACKEND_PODMAN = Str ''podman''"
| "sc_sandbox_backend_to_str SC_SANDBOX_BACKEND_CONTAINER = Str ''container''"
| "sc_sandbox_backend_to_str SC_SANDBOX_BACKEND_SEATBELT = Str ''seatbelt''"
| "sc_sandbox_backend_to_str SC_SANDBOX_BACKEND_APPCONTAINER = Str ''appcontainer''"
| "sc_sandbox_backend_to_str SC_SANDBOX_BACKEND_NOOP = Str ''noop''"
| "sc_sandbox_backend_to_str SC_SANDBOX_BACKEND_UNKNOWN = Str ''unknown''"

definition sc_sandbox_network_policy_from_str :: "sc_str \<Rightarrow> sc_sandbox_network_policy" where
  "sc_sandbox_network_policy_from_str value =
     (if sc_str_equal value (Str ''allowed-domains'') then SC_SANDBOX_NETWORK_ALLOWED_DOMAINS
      else if sc_str_equal value (Str ''none'') then SC_SANDBOX_NETWORK_NONE
      else SC_SANDBOX_NETWORK_FULL)"

fun sc_sandbox_network_policy_to_str :: "sc_sandbox_network_policy \<Rightarrow> sc_str" where
  "sc_sandbox_network_policy_to_str SC_SANDBOX_NETWORK_ALLOWED_DOMAINS = Str ''allowed-domains''"
| "sc_sandbox_network_policy_to_str SC_SANDBOX_NETWORK_NONE = Str ''none''"
| "sc_sandbox_network_policy_to_str SC_SANDBOX_NETWORK_FULL = Str ''full''"

section \<open>Spellings that round-trip\<close>

locale enum_codec =
  fixes to_str :: "'e \<Rightarrow> sc_str" and from_str :: "sc_str \<Rightarrow> 'e"
  assumes from_to: "from_str (to_str e) = e"
begin

lemma to_str_inj: "to_str e = to_str e' \<Longrightarrow> e = e'"
  using from_to by metis

lemma from_str_surj: "\<exists>s. from_str s = e"
  using from_to by blast

text \<open>Writing what was read and reading it again changes nothing.\<close>

lemma normalise_idem: "from_str (to_str (from_str s)) = from_str s"
  by (rule from_to)

end

interpretation backend_codec: enum_codec sc_sandbox_backend_to_str sc_sandbox_backend_from_str
  by unfold_locales (case_tac e; simp add: sc_sandbox_backend_from_str_def)

interpretation network_codec: enum_codec sc_sandbox_network_policy_to_str sc_sandbox_network_policy_from_str
  by unfold_locales (case_tac e; simp add: sc_sandbox_network_policy_from_str_def)

end
