(* ===== verification/SC_Policy.thy ===== *)
theory SC_Policy
  imports SC_Vector SC_Sandbox_Kinds "HOL-Library.Word"
begin

text \<open>
  The security policy of \<^verbatim>\<open>src/security/policy.c\<close>: the record, its string lists, the default
  policy, and the checks that need nothing but the policy and the request (tool lists, shell
  commands, one-time codes, devices, approval). \<^verbatim>\<open>sc_security_validate_request\<close>, which puts
  these together with the path and URL checks, is in \<open>SC_Request\<close>.
\<close>

unbundle bit_operations_syntax

section \<open>Data\<close>

datatype sc_autonomy_level = SC_AUTONOMY_READ_ONLY | SC_AUTONOMY_SUPERVISED | SC_AUTONOMY_FULL

datatype sc_tool_risk =
    SC_TOOL_RISK_READONLY
  | SC_TOOL_RISK_SIDE_EFFECT
  | SC_TOOL_RISK_NETWORK
  | SC_TOOL_RISK_SHELL
  | SC_TOOL_RISK_DESTRUCTIVE

datatype sc_private_network_policy = SC_PRIVATE_NETWORK_BLOCK | SC_PRIVATE_NETWORK_ALLOW

type_synonym string_list = "sc_string sc_vec"

record sc_security_policy =
  autonomy :: sc_autonomy_level
  workspace_root :: sc_string
  allowed_tools :: string_list
  auto_approved_tools :: string_list
  always_ask_tools :: string_list
  denied_tools :: string_list
  allowed_paths :: string_list
  denied_paths :: string_list
  allowed_domains :: string_list
  denied_domains :: string_list
  allowed_commands :: string_list
  forbidden_commands :: string_list
  shell_env_passthrough :: string_list
  sandbox_allowed_domains :: string_list
  sandbox_allow_devices :: string_list
  sandbox_container_runtime :: sc_string
  sandbox_docker_path :: sc_string
  sandbox_podman_path :: sc_string
  sandbox_image_name :: sc_string
  private_network_policy :: sc_private_network_policy
  sandbox_backend :: sc_sandbox_backend
  sandbox_network :: sc_sandbox_network_policy
  shell_enabled :: bool
  workspace_only :: bool
  url_credentials_allowed :: bool
  receipts_enabled :: bool
  receipts_show_in_response :: bool
  receipts_inject_system_prompt :: bool
  approval_timeout_ms :: int
  sandbox_memory_limit_mb :: int
  sandbox_max_subprocesses :: int
  otp_actions :: string_list
  otp_code :: sc_string
  otp_enabled :: bool
  sandbox_fallback_order :: "sc_sandbox_backend sc_vec"
  sandbox_allow_noop_fallback :: bool

record sc_security_tool_request =
  tool_name :: sc_str
  risk :: sc_tool_risk
  path_arg :: sc_str
  path_must_exist :: bool
  url_arg :: sc_str
  shell_arg :: sc_str
  device_arg :: sc_str
  req_otp_code :: sc_str

definition SIZEOF_SC_STRING :: nat where
  "SIZEOF_SC_STRING = 24"

definition SIZEOF_BACKEND :: nat where
  "SIZEOF_BACKEND = 4"

section \<open>String lists\<close>

definition sc_security_list_add ::
    "string_list \<Rightarrow> sc_str \<Rightarrow> sc_allocator \<Rightarrow> sc_status \<times> string_list \<times> sc_allocator" where
  "sc_security_list_add xs value a =
     (if str_len value = 0 \<or> ptr_null value
      then (sc_status_invalid_argument ''sc.security.invalid_argument'', xs, a)
      else (case sc_string_from_str value a of
              (Inl e, a1) \<Rightarrow> (e, xs, a1)
            | (Inr copy, a1) \<Rightarrow>
                (case sc_vec_push xs (Some copy) a1 of
                   (st, xs', a2) \<Rightarrow>
                     (if \<not> sc_status_is_ok st then (st, xs', sc_string_clear copy a2)
                      else (st, xs', a2)))))"

definition sc_security_list_contains :: "string_list \<Rightarrow> sc_str \<Rightarrow> bool" where
  "sc_security_list_contains xs value =
     (if str_len value = 0 \<or> ptr_null value then False
      else list_ex (\<lambda>item. sc_str_equal (sc_string_as_str item) value) (items xs))"

fun clear_strings :: "sc_string list \<Rightarrow> sc_allocator \<Rightarrow> sc_allocator" where
  "clear_strings [] a = a"
| "clear_strings (x # xs) a = clear_strings xs (sc_string_clear x a)"

definition sc_security_string_list_clear :: "string_list \<Rightarrow> sc_allocator \<Rightarrow> string_list \<times> sc_allocator" where
  "sc_security_string_list_clear xs a = sc_vec_clear xs (clear_strings (items xs) a)"

text \<open>The strings a list holds, and membership in terms of them.\<close>

definition list_strings :: "string_list \<Rightarrow> string set" where
  "list_strings xs = {bs. Some bs \<in> set (items xs)}"

lemma list_contains_Str:
  "sc_security_list_contains xs (Str s) \<longleftrightarrow> s \<noteq> [] \<and> s \<in> list_strings xs"
proof -
  have "sc_str_equal (sc_string_as_str item) (Str s) \<longleftrightarrow> item = Some s" if "s \<noteq> []" for item
    using that by (cases item) (auto simp: sc_str_equal_def)
  then show ?thesis
    by (auto simp: sc_security_list_contains_def list_ex_iff list_strings_def)
qed

definition strings_blocks :: "sc_string list \<Rightarrow> int" where
  "strings_blocks xs = sum_list (map string_blocks xs)"

definition list_blocks :: "string_list \<Rightarrow> int" where
  "list_blocks xs = vec_blocks xs + strings_blocks (items xs)"

lemma strings_blocks_simps [simp]:
  "strings_blocks [] = 0"
  "strings_blocks (x # xs) = string_blocks x + strings_blocks xs"
  "strings_blocks (xs @ ys) = strings_blocks xs + strings_blocks ys"
  by (simp_all add: strings_blocks_def)

lemma clear_strings_live [simp]: "live (clear_strings xs a) = live a - strings_blocks xs"
  by (induction xs arbitrary: a) auto

lemma list_add_spec:
  assumes "sc_security_list_add xs value a = (st, xs', a')" "vec_inv xs"
  shows "vec_inv xs'"
    and "live a' = live a + list_blocks xs' - list_blocks xs"
    and "sc_status_is_ok st \<Longrightarrow> items xs' = items xs @ [Some (str_bytes value)] \<and> str_bytes value \<noteq> []"
    and "\<not> sc_status_is_ok st \<Longrightarrow> xs' = xs"
proof -
  have "vec_inv xs' \<and> live a' = live a + list_blocks xs' - list_blocks xs \<and>
    (sc_status_is_ok st \<longrightarrow> items xs' = items xs @ [Some (str_bytes value)] \<and> str_bytes value \<noteq> []) \<and>
    (\<not> sc_status_is_ok st \<longrightarrow> xs' = xs)"
  proof (cases "str_len value = 0 \<or> ptr_null value")
    case True
    then have "st = sc_status_invalid_argument ''sc.security.invalid_argument'' \<and> xs' = xs \<and> a' = a"
      using assms(1) by (simp add: sc_security_list_add_def)
    with assms(2) show ?thesis by simp
  next
    case False
    obtain r a1 where cp: "sc_string_from_str value a = (r, a1)" by (cases "sc_string_from_str value a")
    show ?thesis
    proof (cases r)
      case (Inl e)
      then have "st = e \<and> xs' = xs \<and> a' = a1"
        using assms(1) False cp by (simp add: sc_security_list_add_def)
      with string_from_str_Inl [of "value" a e a1] cp Inl assms(2) show ?thesis by simp
    next
      case (Inr copy)
      then have copy: "copy = Some (str_bytes value)" "live a1 = live a + 1"
        "str_len value = length (str_bytes value)"
        using string_from_str_Inr cp by auto
      obtain st1 xs1 a2 where psh: "sc_vec_push xs (Some copy) a1 = (st1, xs1, a2)"
        by (cases "sc_vec_push xs (Some copy) a1")
      note sp = vec_push_spec [OF psh assms(2)]
      have "st = st1 \<and> xs' = xs1 \<and> a' = (if sc_status_is_ok st1 then a2 else sc_string_clear copy a2)"
        using assms(1) False cp Inr psh by (auto simp: sc_security_list_add_def)
      with sp copy False show ?thesis by (auto simp: list_blocks_def)
    qed
  qed
  then show "vec_inv xs'" "live a' = live a + list_blocks xs' - list_blocks xs"
    "sc_status_is_ok st \<Longrightarrow> items xs' = items xs @ [Some (str_bytes value)] \<and> str_bytes value \<noteq> []"
    "\<not> sc_status_is_ok st \<Longrightarrow> xs' = xs" by auto
qed

lemma list_clear_live:
  assumes "vec_inv xs"
  shows "live (snd (sc_security_string_list_clear xs a)) = live a - list_blocks xs"
  using assms
  by (auto simp: sc_security_string_list_clear_def sc_vec_clear_def vec_inv_def list_blocks_def
      vec_blocks_def sc_size_mul_overflow_def)

section \<open>The policy record\<close>

definition sc_security_policy_init :: sc_security_policy where
  "sc_security_policy_init =
     (let l = sc_vec_init SIZEOF_SC_STRING in
      \<lparr>autonomy = SC_AUTONOMY_READ_ONLY, workspace_root = None, allowed_tools = l,
       auto_approved_tools = l, always_ask_tools = l, denied_tools = l, allowed_paths = l,
       denied_paths = l, allowed_domains = l, denied_domains = l, allowed_commands = l,
       forbidden_commands = l, shell_env_passthrough = l, sandbox_allowed_domains = l,
       sandbox_allow_devices = l, sandbox_container_runtime = None, sandbox_docker_path = None,
       sandbox_podman_path = None, sandbox_image_name = None,
       private_network_policy = SC_PRIVATE_NETWORK_BLOCK,
       sandbox_backend = SC_SANDBOX_BACKEND_AUTO, sandbox_network = SC_SANDBOX_NETWORK_FULL,
       shell_enabled = False, workspace_only = False, url_credentials_allowed = False,
       receipts_enabled = False, receipts_show_in_response = False,
       receipts_inject_system_prompt = False, approval_timeout_ms = 0,
       sandbox_memory_limit_mb = 0, sandbox_max_subprocesses = 0, otp_actions = l,
       otp_code = None, otp_enabled = False,
       sandbox_fallback_order = sc_vec_init SIZEOF_BACKEND,
       sandbox_allow_noop_fallback = False\<rparr>)"

type_synonym policy_state = "sc_status \<times> sc_security_policy \<times> sc_allocator"

definition sc_security_policy_set_workspace ::
    "sc_security_policy \<Rightarrow> sc_str \<Rightarrow> sc_allocator \<Rightarrow> policy_state" where
  "sc_security_policy_set_workspace p root a =
     (if str_len root > 0 \<and> ptr_null root
      then (sc_status_invalid_argument ''sc.security.invalid_argument'', p, a)
      else (let a1 = sc_string_clear (workspace_root p) a; p1 = p\<lparr>workspace_root := None\<rparr> in
            (if str_len root = 0 then (sc_status_ok, p1, a1)
             else (case sc_string_from_str root a1 of
                     (Inl e, a2) \<Rightarrow> (e, p1, a2)
                   | (Inr s, a2) \<Rightarrow> (sc_status_ok, p1\<lparr>workspace_root := s\<rparr>, a2)))))"

definition sc_security_policy_add_allowed_tool :: "sc_security_policy \<Rightarrow> sc_str \<Rightarrow> sc_allocator \<Rightarrow> policy_state" where
  "sc_security_policy_add_allowed_tool p v a =
     (case sc_security_list_add (allowed_tools p) v a of (st, l, a') \<Rightarrow> (st, p\<lparr>allowed_tools := l\<rparr>, a'))"

definition sc_security_policy_add_auto_approved_tool :: "sc_security_policy \<Rightarrow> sc_str \<Rightarrow> sc_allocator \<Rightarrow> policy_state" where
  "sc_security_policy_add_auto_approved_tool p v a =
     (case sc_security_list_add (auto_approved_tools p) v a of (st, l, a') \<Rightarrow> (st, p\<lparr>auto_approved_tools := l\<rparr>, a'))"

definition sc_security_policy_add_always_ask_tool :: "sc_security_policy \<Rightarrow> sc_str \<Rightarrow> sc_allocator \<Rightarrow> policy_state" where
  "sc_security_policy_add_always_ask_tool p v a =
     (case sc_security_list_add (always_ask_tools p) v a of (st, l, a') \<Rightarrow> (st, p\<lparr>always_ask_tools := l\<rparr>, a'))"

definition sc_security_policy_add_denied_tool :: "sc_security_policy \<Rightarrow> sc_str \<Rightarrow> sc_allocator \<Rightarrow> policy_state" where
  "sc_security_policy_add_denied_tool p v a =
     (case sc_security_list_add (denied_tools p) v a of (st, l, a') \<Rightarrow> (st, p\<lparr>denied_tools := l\<rparr>, a'))"

definition sc_security_policy_add_allowed_path :: "sc_security_policy \<Rightarrow> sc_str \<Rightarrow> sc_allocator \<Rightarrow> policy_state" where
  "sc_security_policy_add_allowed_path p v a =
     (case sc_security_list_add (allowed_paths p) v a of (st, l, a') \<Rightarrow> (st, p\<lparr>allowed_paths := l\<rparr>, a'))"

definition sc_security_policy_add_denied_path :: "sc_security_policy \<Rightarrow> sc_str \<Rightarrow> sc_allocator \<Rightarrow> policy_state" where
  "sc_security_policy_add_denied_path p v a =
     (case sc_security_list_add (denied_paths p) v a of (st, l, a') \<Rightarrow> (st, p\<lparr>denied_paths := l\<rparr>, a'))"

definition sc_security_policy_add_allowed_domain :: "sc_security_policy \<Rightarrow> sc_str \<Rightarrow> sc_allocator \<Rightarrow> policy_state" where
  "sc_security_policy_add_allowed_domain p v a =
     (case sc_security_list_add (allowed_domains p) v a of (st, l, a') \<Rightarrow> (st, p\<lparr>allowed_domains := l\<rparr>, a'))"

definition sc_security_policy_add_denied_domain :: "sc_security_policy \<Rightarrow> sc_str \<Rightarrow> sc_allocator \<Rightarrow> policy_state" where
  "sc_security_policy_add_denied_domain p v a =
     (case sc_security_list_add (denied_domains p) v a of (st, l, a') \<Rightarrow> (st, p\<lparr>denied_domains := l\<rparr>, a'))"

definition sc_security_policy_add_allowed_command :: "sc_security_policy \<Rightarrow> sc_str \<Rightarrow> sc_allocator \<Rightarrow> policy_state" where
  "sc_security_policy_add_allowed_command p v a =
     (case sc_security_list_add (allowed_commands p) v a of (st, l, a') \<Rightarrow> (st, p\<lparr>allowed_commands := l\<rparr>, a'))"

definition sc_security_policy_add_forbidden_command :: "sc_security_policy \<Rightarrow> sc_str \<Rightarrow> sc_allocator \<Rightarrow> policy_state" where
  "sc_security_policy_add_forbidden_command p v a =
     (case sc_security_list_add (forbidden_commands p) v a of (st, l, a') \<Rightarrow> (st, p\<lparr>forbidden_commands := l\<rparr>, a'))"

definition sc_security_policy_add_shell_env_passthrough :: "sc_security_policy \<Rightarrow> sc_str \<Rightarrow> sc_allocator \<Rightarrow> policy_state" where
  "sc_security_policy_add_shell_env_passthrough p v a =
     (case sc_security_list_add (shell_env_passthrough p) v a of (st, l, a') \<Rightarrow> (st, p\<lparr>shell_env_passthrough := l\<rparr>, a'))"

definition sc_security_policy_add_otp_action :: "sc_security_policy \<Rightarrow> sc_str \<Rightarrow> sc_allocator \<Rightarrow> policy_state" where
  "sc_security_policy_add_otp_action p v a =
     (case sc_security_list_add (otp_actions p) v a of (st, l, a') \<Rightarrow> (st, p\<lparr>otp_actions := l\<rparr>, a'))"

definition sc_security_policy_add_sandbox_allowed_domain :: "sc_security_policy \<Rightarrow> sc_str \<Rightarrow> sc_allocator \<Rightarrow> policy_state" where
  "sc_security_policy_add_sandbox_allowed_domain p v a =
     (case sc_security_list_add (sandbox_allowed_domains p) v a of (st, l, a') \<Rightarrow> (st, p\<lparr>sandbox_allowed_domains := l\<rparr>, a'))"

definition sc_security_policy_add_sandbox_allow_device :: "sc_security_policy \<Rightarrow> sc_str \<Rightarrow> sc_allocator \<Rightarrow> policy_state" where
  "sc_security_policy_add_sandbox_allow_device p v a =
     (case sc_security_list_add (sandbox_allow_devices p) v a of (st, l, a') \<Rightarrow> (st, p\<lparr>sandbox_allow_devices := l\<rparr>, a'))"

definition sandbox_fallback_order_add :: "sc_security_policy \<Rightarrow> sc_sandbox_backend \<Rightarrow> sc_allocator \<Rightarrow> policy_state" where
  "sandbox_fallback_order_add p b a =
     (case sc_vec_push (sandbox_fallback_order p) (Some b) a of
        (st, l, a') \<Rightarrow> (st, p\<lparr>sandbox_fallback_order := l\<rparr>, a'))"

text \<open>\<^verbatim>\<open>for (...; sc_status_is_ok(status) && i < n; ...) status = add(policy, values[i]);\<close>\<close>

fun add_each ::
    "(sc_security_policy \<Rightarrow> 'v \<Rightarrow> sc_allocator \<Rightarrow> policy_state) \<Rightarrow> 'v list \<Rightarrow> policy_state \<Rightarrow> policy_state" where
  "add_each add [] s = s"
| "add_each add (v # vs) (st, p, a) =
     (if \<not> sc_status_is_ok st then (st, p, a) else add_each add vs (add p v a))"

definition load_default_policy_lists :: "sc_security_policy \<Rightarrow> sc_allocator \<Rightarrow> policy_state" where
  "load_default_policy_lists p a =
     add_each sc_security_policy_add_otp_action
       [Str ''shell'', Str ''browser'', Str ''browser_screenshot'', Str ''file_write'']
     (add_each sc_security_policy_add_shell_env_passthrough
       [Str ''PATH'', Str ''HOME'', Str ''USER'', Str ''LANG'']
     (add_each sc_security_policy_add_forbidden_command
       [Str ''shutdown'', Str ''reboot'', Str ''mkfs'']
     (add_each sc_security_policy_add_denied_path
       [Str ''/etc'', Str ''/sys'', Str ''/boot'', Str ''~/.ssh'', Str ''~/.aws'']
     (sc_status_ok, p, a))))"

definition load_default_sandbox_fallback_order :: "sc_security_policy \<Rightarrow> sc_allocator \<Rightarrow> policy_state" where
  "load_default_sandbox_fallback_order p a =
     add_each sandbox_fallback_order_add
       [SC_SANDBOX_BACKEND_LANDLOCK, SC_SANDBOX_BACKEND_BUBBLEWRAP, SC_SANDBOX_BACKEND_FIREJAIL,
        SC_SANDBOX_BACKEND_DOCKER, SC_SANDBOX_BACKEND_PODMAN]
       (sc_status_ok, p\<lparr>sandbox_fallback_order := (sandbox_fallback_order p)\<lparr>items := []\<rparr>\<rparr>, a)"

definition sc_security_policy_init_defaults :: "sc_allocator \<Rightarrow> policy_state" where
  "sc_security_policy_init_defaults a =
     (let p = sc_security_policy_init\<lparr>autonomy := SC_AUTONOMY_SUPERVISED,
                private_network_policy := SC_PRIVATE_NETWORK_BLOCK,
                sandbox_backend := SC_SANDBOX_BACKEND_AUTO, sandbox_network := SC_SANDBOX_NETWORK_FULL,
                shell_enabled := False, workspace_only := True, url_credentials_allowed := False,
                receipts_enabled := True, receipts_show_in_response := False,
                receipts_inject_system_prompt := True, approval_timeout_ms := 30000\<rparr> in
      (case sc_string_from_cstr (Some ''alpine:3.23.4'') a of
         (Inl e, a1) \<Rightarrow> (e, p, a1)
       | (Inr s, a1) \<Rightarrow>
           (case load_default_policy_lists (p\<lparr>sandbox_image_name := s\<rparr>) a1 of
              (st, p1, a2) \<Rightarrow>
                (if sc_status_is_ok st then load_default_sandbox_fallback_order p1 a2 else (st, p1, a2)))))"

definition sc_security_policy_clear :: "sc_security_policy \<Rightarrow> sc_allocator \<Rightarrow> sc_allocator" where
  "sc_security_policy_clear p a =
     (let a0 = sc_string_clear (workspace_root p) a;
          a1 = fold (\<lambda>l h. snd (sc_security_string_list_clear l h))
                 [allowed_tools p, auto_approved_tools p, always_ask_tools p, denied_tools p,
                  allowed_paths p, denied_paths p, allowed_domains p, denied_domains p,
                  allowed_commands p, forbidden_commands p, shell_env_passthrough p, otp_actions p,
                  sandbox_allowed_domains p, sandbox_allow_devices p] a0;
          a2 = sc_string_clear (sandbox_image_name p) (sc_string_clear (sandbox_podman_path p)
                 (sc_string_clear (sandbox_docker_path p)
                   (sc_string_clear (sandbox_container_runtime p) a1)));
          a3 = snd (sc_vec_clear (sandbox_fallback_order p) a2) in
      sc_string_clear (otp_code p) a3)"

section \<open>Checks\<close>

definition tool_in_allowlist :: "sc_security_policy \<Rightarrow> sc_str \<Rightarrow> bool" where
  "tool_in_allowlist p name =
     (if length (items (allowed_tools p)) = 0 then True
      else sc_security_list_contains (allowed_tools p) name)"

definition sc_security_validate_tool :: "sc_security_policy \<Rightarrow> sc_str \<Rightarrow> sc_status" where
  "sc_security_validate_tool p name =
     (if str_len name = 0 \<or> ptr_null name
      then sc_status_invalid_argument ''sc.security.invalid_argument''
      else if sc_security_list_contains (denied_tools p) name
      then sc_status_security_denied ''sc.security.tool_denied''
      else if \<not> tool_in_allowlist p name
      then sc_status_security_denied ''sc.security.tool_not_allowed''
      else sc_status_ok)"

definition sc_security_requires_approval :: "sc_security_policy option \<Rightarrow> sc_tool_risk \<Rightarrow> bool" where
  "sc_security_requires_approval policy r =
     (case policy of
        None \<Rightarrow> True
      | Some p \<Rightarrow>
          (case autonomy p of
             SC_AUTONOMY_READ_ONLY \<Rightarrow> r \<noteq> SC_TOOL_RISK_READONLY
           | SC_AUTONOMY_SUPERVISED \<Rightarrow>
               r \<noteq> SC_TOOL_RISK_READONLY \<and> r \<noteq> SC_TOOL_RISK_DESTRUCTIVE \<and> r \<noteq> SC_TOOL_RISK_SHELL
           | SC_AUTONOMY_FULL \<Rightarrow> False))"

definition request_requires_approval :: "sc_security_policy \<Rightarrow> sc_security_tool_request \<Rightarrow> bool" where
  "request_requires_approval p req =
     (if sc_security_list_contains (always_ask_tools p) (tool_name req) then True
      else if sc_security_list_contains (auto_approved_tools p) (tool_name req) then False
      else sc_security_requires_approval (Some p) (risk req))"

definition danger_needles :: "string list" where
  "danger_needles = [''rm -rf /'', ''mkfs'', ''shutdown'', ''reboot'', '':(){'', ''dd if='', ''>/dev/'']"

definition command_contains_danger :: "string \<Rightarrow> bool" where
  "command_contains_danger command = list_ex (\<lambda>needle. contains_sub needle command) danger_needles"

text \<open>The first word of a command, without its directory; \<open>None\<close> when there is none.\<close>

definition command_word :: "string \<Rightarrow> string option" where
  "command_word command =
     (let t = dropWhile (\<lambda>c. c = CHR '' '' \<or> c = CHR 0x09) command;
          word = takeWhile (\<lambda>c. c \<noteq> CHR '' '' \<and> c \<noteq> CHR 0x09 \<and> c \<noteq> CHR 0x0A \<and> c \<noteq> CHR 0x0D) t;
          base = rev (takeWhile (\<lambda>c. c \<noteq> CHR ''/'') (rev word)) in
      (if word = [] then None else if base = [] then None else Some base))"

definition command_basename :: "sc_str \<Rightarrow> sc_allocator \<Rightarrow> sc_string res \<times> sc_allocator" where
  "command_basename command a =
     (case command of
        NullStr n \<Rightarrow> (Inl (sc_status_invalid_argument ''sc.security.shell_command_invalid''), a)
      | Str bs \<Rightarrow>
          (if bs = [] then (Inl (sc_status_invalid_argument ''sc.security.shell_command_invalid''), a)
           else (case command_word bs of
                   None \<Rightarrow> (Inl (sc_status_invalid_argument ''sc.security.shell_command_invalid''), a)
                 | Some w \<Rightarrow> sc_string_from_str (Str w) a)))"

definition validate_shell_policy ::
    "sc_security_policy \<Rightarrow> sc_str \<Rightarrow> sc_allocator \<Rightarrow> sc_status \<times> sc_allocator" where
  "validate_shell_policy p command a =
     (if ptr_null command \<or> str_len command = 0
      then (sc_status_invalid_argument ''sc.security.shell_command_invalid'', a)
      else if command_contains_danger (str_bytes command)
      then (sc_status_security_denied ''sc.security.shell_command_denied'', a)
      else (case command_basename command a of
              (Inl e, a1) \<Rightarrow> (e, a1)
            | (Inr b, a1) \<Rightarrow>
                (let s1 = (if sc_security_list_contains (forbidden_commands p) (sc_string_as_str b)
                           then sc_status_security_denied ''sc.security.shell_command_forbidden''
                           else sc_status_ok);
                     s2 = (if sc_status_is_ok s1 \<and> length (items (allowed_commands p)) > 0 \<and>
                              \<not> sc_security_list_contains (allowed_commands p) (sc_string_as_str b)
                           then sc_status_security_denied ''sc.security.shell_command_not_allowed''
                           else s1) in
                 (s2, sc_string_clear b a1))))"

definition validate_otp_policy :: "sc_security_policy \<Rightarrow> sc_security_tool_request \<Rightarrow> sc_status" where
  "validate_otp_policy p req =
     (if \<not> otp_enabled p then sc_status_ok
      else if \<not> sc_security_list_contains (otp_actions p) (tool_name req) then sc_status_ok
      else if string_len (otp_code p) = 0 then sc_status_security_denied ''sc.security.otp_unconfigured''
      else if str_len (req_otp_code req) = 0 then sc_status_security_denied ''sc.security.otp_required''
      else if \<not> sc_str_equal (req_otp_code req) (sc_string_as_str (otp_code p))
      then sc_status_security_denied ''sc.security.otp_invalid''
      else sc_status_ok)"

definition validate_device_policy :: "sc_security_policy \<Rightarrow> sc_security_tool_request \<Rightarrow> sc_status" where
  "validate_device_policy p req =
     (if length (items (sandbox_allow_devices p)) = 0 \<or> str_len (device_arg req) = 0 then sc_status_ok
      else if sc_security_list_contains (sandbox_allow_devices p) (Str ''*'') \<or>
              sc_security_list_contains (sandbox_allow_devices p) (device_arg req)
      then sc_status_ok
      else sc_status_security_denied ''sc.security.device_not_allowed'')"

definition sc_security_path_has_prefix :: "sc_str \<Rightarrow> sc_str \<Rightarrow> bool" where
  "sc_security_path_has_prefix pth pre =
     (if str_len pth < str_len pre \<or> ptr_null pth \<or> ptr_null pre then False
      else if take (str_len pre) (str_bytes pth) \<noteq> str_bytes pre then False
      else str_len pth = str_len pre \<or> str_bytes pth ! str_len pre = CHR ''/'')"

definition autonomy_from_str :: "sc_str \<Rightarrow> sc_autonomy_level" where
  "autonomy_from_str value =
     (if sc_str_equal value (Str ''read_only'') then SC_AUTONOMY_READ_ONLY
      else if sc_str_equal value (Str ''autonomous'') then SC_AUTONOMY_FULL
      else if sc_str_equal value (Str ''full'') then SC_AUTONOMY_FULL
      else if sc_str_equal value (Str ''off'') then SC_AUTONOMY_READ_ONLY
      else SC_AUTONOMY_SUPERVISED)"

section \<open>Hashing\<close>

definition sc_security_hash_init :: "64 word" where
  "sc_security_hash_init = 1469598103934665603"

definition hash_step :: "64 word \<Rightarrow> nat \<Rightarrow> 64 word" where
  "hash_step h byte = (h XOR word_of_nat byte) * 1099511628211"

definition sc_security_hash_bytes :: "64 word \<Rightarrow> sc_str \<Rightarrow> 64 word" where
  "sc_security_hash_bytes h input = foldl hash_step h (map of_char (str_bytes input))"

definition u64_bytes :: "64 word \<Rightarrow> nat list" where
  "u64_bytes value = map (\<lambda>i. unat (drop_bit (i * 8) value AND 0xFF)) [0 ..< 8]"

definition sc_security_hash_u64 :: "64 word \<Rightarrow> 64 word \<Rightarrow> 64 word" where
  "sc_security_hash_u64 h value = foldl hash_step h (u64_bytes value)"

definition sc_security_hash_bool :: "64 word \<Rightarrow> bool \<Rightarrow> 64 word" where
  "sc_security_hash_bool h b = sc_security_hash_u64 h (if b then 1 else 0)"

section \<open>What the checks decide\<close>

lemma path_has_prefix_iff:
  "sc_security_path_has_prefix (Str p) (Str q) \<longleftrightarrow> p = q \<or> (\<exists>r. p = q @ CHR ''/'' # r)"
proof
  assume h: "sc_security_path_has_prefix (Str p) (Str q)"
  then have t: "take (length q) p = q" "length q \<le> length p" "length p = length q \<or> p ! length q = CHR ''/''"
    by (auto simp: sc_security_path_has_prefix_def split: if_splits)
  have eq: "p = q @ drop (length q) p" using t(1) append_take_drop_id [of "length q" p] by simp
  show "p = q \<or> (\<exists>r. p = q @ CHR ''/'' # r)"
  proof (cases "drop (length q) p")
    case Nil
    with eq show ?thesis by simp
  next
    case (Cons c r)
    then have "length q < length p" by (metis drop_eq_Nil list.distinct(1) not_le)
    then have "p ! length q = c" using Cons nth_via_drop by metis
    with t(3) \<open>length q < length p\<close> Cons eq show ?thesis by auto
  qed
next
  assume "p = q \<or> (\<exists>r. p = q @ CHR ''/'' # r)"
  then show "sc_security_path_has_prefix (Str p) (Str q)"
    by (auto simp: sc_security_path_has_prefix_def)
qed

lemma path_has_prefix_null:
  "\<not> sc_security_path_has_prefix (NullStr n) q" "\<not> sc_security_path_has_prefix p (NullStr n)"
  by (simp_all add: sc_security_path_has_prefix_def)

lemma validate_tool_ok:
  "sc_status_is_ok (sc_security_validate_tool p (Str t)) \<longleftrightarrow>
     t \<noteq> [] \<and> t \<notin> list_strings (denied_tools p) \<and>
     (items (allowed_tools p) = [] \<or> t \<in> list_strings (allowed_tools p))"
  by (auto simp: sc_security_validate_tool_def tool_in_allowlist_def list_contains_Str)

lemma validate_shell_live:
  "validate_shell_policy p command a = (st, a') \<Longrightarrow> live a' = live a"
  by (auto simp: validate_shell_policy_def command_basename_def Let_def
      split: if_splits sc_str.splits option.splits prod.splits sum.splits
      dest: string_from_str_Inr string_from_str_Inl)

lemma command_basename_Inr:
  "command_basename (Str bs) a = (Inr b, a') \<Longrightarrow> \<exists>w. command_word bs = Some w \<and> b = Some w"
  by (auto simp: command_basename_def split: if_splits option.splits dest: string_from_str_Inr)

lemma validate_shell_ok:
  assumes "validate_shell_policy p command a = (st, a')" "sc_status_is_ok st"
  shows "\<exists>bs w. command = Str bs \<and> command_word bs = Some w \<and>
    (\<forall>needle \<in> set danger_needles. \<not> (\<exists>pre post. bs = pre @ needle @ post)) \<and>
    w \<notin> list_strings (forbidden_commands p) \<and>
    (items (allowed_commands p) = [] \<or> w \<in> list_strings (allowed_commands p))"
proof -
  from assms obtain bs where bs: "command = Str bs" "bs \<noteq> []" "\<not> command_contains_danger bs"
    by (cases command) (auto simp: validate_shell_policy_def split: if_splits)
  obtain r a1 where b: "command_basename (Str bs) a = (r, a1)" by (cases "command_basename (Str bs) a")
  have fail: "\<not> sc_status_is_ok e" if "r = Inl e" for e
    using b that string_from_str_Inl
    by (auto simp: command_basename_def split: if_splits option.splits)
  with assms b bs obtain w where w: "r = Inr (Some w)" "command_word bs = Some w"
    using command_basename_Inr [of bs a] by (cases r) (auto simp: validate_shell_policy_def)
  have "w \<noteq> []" using w(2) by (auto simp: command_word_def Let_def split: if_splits)
  with assms b bs w show ?thesis
    by (auto simp: validate_shell_policy_def Let_def list_contains_Str command_contains_danger_def
        list_ex_iff contains_sub_append split: if_splits)
qed

lemma validate_otp_ok:
  "sc_status_is_ok (validate_otp_policy p req) \<longleftrightarrow>
     otp_enabled p \<and> sc_security_list_contains (otp_actions p) (tool_name req) \<longrightarrow>
       (\<exists>code. code \<noteq> [] \<and> otp_code p = Some code \<and> req_otp_code req = Str code)"
  by (cases "otp_code p"; cases "req_otp_code req")
    (auto simp: validate_otp_policy_def sc_str_equal_def)

section \<open>Block accounting of the policy\<close>

definition policy_lists :: "sc_security_policy \<Rightarrow> string_list list" where
  "policy_lists p = [allowed_tools p, auto_approved_tools p, always_ask_tools p, denied_tools p,
     allowed_paths p, denied_paths p, allowed_domains p, denied_domains p, allowed_commands p,
     forbidden_commands p, shell_env_passthrough p, otp_actions p, sandbox_allowed_domains p,
     sandbox_allow_devices p]"

definition policy_strings :: "sc_security_policy \<Rightarrow> sc_string list" where
  "policy_strings p = [workspace_root p, sandbox_container_runtime p, sandbox_docker_path p,
     sandbox_podman_path p, sandbox_image_name p, otp_code p]"

definition policy_inv :: "sc_security_policy \<Rightarrow> bool" where
  "policy_inv p \<longleftrightarrow> list_all vec_inv (policy_lists p) \<and> vec_inv (sandbox_fallback_order p)"

definition policy_blocks :: "sc_security_policy \<Rightarrow> int" where
  "policy_blocks p = sum_list (map list_blocks (policy_lists p)) + strings_blocks (policy_strings p) +
     vec_blocks (sandbox_fallback_order p)"

lemma fold_clear_live:
  "list_all vec_inv ls \<Longrightarrow>
   live (fold (\<lambda>l h. snd (sc_security_string_list_clear l h)) ls a) = live a - sum_list (map list_blocks ls)"
  by (induction ls arbitrary: a) (auto simp: list_clear_live)

lemma policy_clear_live:
  assumes "policy_inv p"
  shows "live (sc_security_policy_clear p a) = live a - policy_blocks p"
  using assms
  by (simp add: sc_security_policy_clear_def Let_def policy_inv_def policy_blocks_def
      policy_lists_def [symmetric] fold_clear_live vec_clear_live policy_strings_def)

text \<open>A policy operation that keeps the invariant and accounts for its blocks.\<close>

definition accounts :: "sc_security_policy \<Rightarrow> sc_allocator \<Rightarrow> policy_state \<Rightarrow> bool" where
  "accounts p a s \<longleftrightarrow> (case s of (st, p', a') \<Rightarrow>
     policy_inv p \<longrightarrow> policy_inv p' \<and> live a' = live a + policy_blocks p' - policy_blocks p)"

lemma accounts_refl: "accounts p a (st, p, a)"
  by (simp add: accounts_def)

lemma accounts_trans: "accounts p a (st, p1, a1) \<Longrightarrow> accounts p1 a1 s \<Longrightarrow> accounts p a s"
  by (auto simp: accounts_def)

lemmas policy_add_defs =
  sc_security_policy_add_allowed_tool_def sc_security_policy_add_auto_approved_tool_def
  sc_security_policy_add_always_ask_tool_def sc_security_policy_add_denied_tool_def
  sc_security_policy_add_allowed_path_def sc_security_policy_add_denied_path_def
  sc_security_policy_add_allowed_domain_def sc_security_policy_add_denied_domain_def
  sc_security_policy_add_allowed_command_def sc_security_policy_add_forbidden_command_def
  sc_security_policy_add_shell_env_passthrough_def sc_security_policy_add_otp_action_def
  sc_security_policy_add_sandbox_allowed_domain_def sc_security_policy_add_sandbox_allow_device_def

lemma accounts_field:
  assumes "sc_security_list_add l v a = (st, l', a')" "policy_inv p \<Longrightarrow> vec_inv l"
    "policy_inv p \<Longrightarrow> vec_inv l' \<Longrightarrow> policy_inv p'"
    "policy_blocks p' = policy_blocks p + list_blocks l' - list_blocks l"
  shows "accounts p a (st, p', a')"
  using assms list_add_spec(1,2) [OF assms(1)] by (auto simp: accounts_def)

lemma accounts_add:
  "accounts p a (sc_security_policy_add_allowed_tool p v a)"
  "accounts p a (sc_security_policy_add_auto_approved_tool p v a)"
  "accounts p a (sc_security_policy_add_always_ask_tool p v a)"
  "accounts p a (sc_security_policy_add_denied_tool p v a)"
  "accounts p a (sc_security_policy_add_allowed_path p v a)"
  "accounts p a (sc_security_policy_add_denied_path p v a)"
  "accounts p a (sc_security_policy_add_allowed_domain p v a)"
  "accounts p a (sc_security_policy_add_denied_domain p v a)"
  "accounts p a (sc_security_policy_add_allowed_command p v a)"
  "accounts p a (sc_security_policy_add_forbidden_command p v a)"
  "accounts p a (sc_security_policy_add_shell_env_passthrough p v a)"
  "accounts p a (sc_security_policy_add_otp_action p v a)"
  "accounts p a (sc_security_policy_add_sandbox_allowed_domain p v a)"
  "accounts p a (sc_security_policy_add_sandbox_allow_device p v a)"
  unfolding policy_add_defs
  by (auto split: prod.split intro!: accounts_field
      simp: policy_inv_def policy_blocks_def policy_lists_def policy_strings_def)

lemma accounts_fallback: "accounts p a (sandbox_fallback_order_add p b a)"
proof -
  obtain st l a' where l: "sc_vec_push (sandbox_fallback_order p) (Some b) a = (st, l, a')"
    by (cases "sc_vec_push (sandbox_fallback_order p) (Some b) a")
  with vec_push_spec(1,2) [OF l] show ?thesis
    by (auto simp: sandbox_fallback_order_add_def accounts_def policy_inv_def policy_blocks_def
        policy_lists_def policy_strings_def)
qed

lemma accounts_each:
  assumes "\<And>p v a. accounts p a (add p v a)" "accounts p0 a0 s"
  shows "accounts p0 a0 (add_each add vs s)"
  using assms(2)
proof (induction vs arbitrary: s)
  case (Cons v vs)
  obtain st p a where s: "s = (st, p, a)" by (cases s)
  have "accounts p0 a0 (add p v a)"
    using accounts_trans [OF Cons.prems [unfolded s]] assms(1) by blast
  with Cons s show ?case by simp
qed simp

lemma accounts_defaults: "accounts p a (load_default_policy_lists p a)"
  unfolding load_default_policy_lists_def
  by (intro accounts_each accounts_add accounts_refl)

lemma accounts_order_reset:
  "accounts p a (sc_status_ok, p\<lparr>sandbox_fallback_order := (sandbox_fallback_order p)\<lparr>items := []\<rparr>\<rparr>, a)"
  by (auto simp: accounts_def policy_inv_def policy_blocks_def policy_lists_def policy_strings_def
      vec_inv_def vec_blocks_def)

lemma accounts_default_order: "accounts p a (load_default_sandbox_fallback_order p a)"
  unfolding load_default_sandbox_fallback_order_def
  by (intro accounts_each accounts_fallback accounts_order_reset)

lemma policy_init_inv: "policy_inv sc_security_policy_init" "policy_blocks sc_security_policy_init = 0"
  by (simp_all add: policy_inv_def policy_blocks_def policy_lists_def policy_strings_def
      sc_security_policy_init_def Let_def list_blocks_def)

lemma policy_defaults_accounts:
  assumes "sc_security_policy_init_defaults a = (st, p, a')"
  shows "policy_inv p \<and> live a' = live a + policy_blocks p"
proof -
  define p0 where "p0 = sc_security_policy_init\<lparr>autonomy := SC_AUTONOMY_SUPERVISED,
    private_network_policy := SC_PRIVATE_NETWORK_BLOCK,
    sandbox_backend := SC_SANDBOX_BACKEND_AUTO, sandbox_network := SC_SANDBOX_NETWORK_FULL,
    shell_enabled := False, workspace_only := True, url_credentials_allowed := False,
    receipts_enabled := True, receipts_show_in_response := False,
    receipts_inject_system_prompt := True, approval_timeout_ms := 30000\<rparr>"
  have p0: "policy_inv p0" "policy_blocks p0 = 0" "sandbox_image_name p0 = None"
    using policy_init_inv
    by (simp_all add: p0_def policy_inv_def policy_blocks_def policy_lists_def policy_strings_def
        sc_security_policy_init_def Let_def)
  obtain r a1 where cp: "sc_string_from_cstr (Some ''alpine:3.23.4'') a = (r, a1)"
    by (cases "sc_string_from_cstr (Some ''alpine:3.23.4'') a")
  note d = assms [unfolded sc_security_policy_init_defaults_def Let_def, folded p0_def, unfolded cp]
  show ?thesis
  proof (cases r)
    case (Inl e)
    with d cp string_from_str_Inl p0(1,2) show ?thesis by (auto simp: sc_string_from_cstr_def)
  next
    case (Inr s)
    define p1 where "p1 = p0\<lparr>sandbox_image_name := s\<rparr>"
    have "\<exists>bs. s = Some bs" "live a1 = live a + 1"
      using string_from_str_Inr cp Inr unfolding sc_string_from_cstr_def by blast+
    moreover from this p0(3) have "policy_blocks p1 = policy_blocks p0 + 1"
      by (auto simp: p1_def policy_blocks_def policy_lists_def policy_strings_def)
    ultimately have p1: "policy_inv p1" "live a1 = live a + policy_blocks p1"
      using p0(1,2) by (simp_all add: p1_def policy_inv_def policy_lists_def)
    obtain st2 p2 a2 where l: "load_default_policy_lists p1 a1 = (st2, p2, a2)"
      by (cases "load_default_policy_lists p1 a1")
    have "accounts p1 a1 (st, p, a')"
      using d Inr l accounts_defaults [of p1 a1] accounts_default_order [of p2 a2]
      by (auto simp: p1_def [symmetric] split: if_splits intro: accounts_trans)
    with p1 show ?thesis by (simp add: accounts_def)
  qed
qed

end
