(* ===== verification/SC_Ctype.thy ===== *)
theory SC_Ctype
  imports SC_Prelude
begin

text \<open>
  What the sources use of the C library's character classes and number parsing, and decimal
  printing (the \<^verbatim>\<open>%u\<close> conversions).
\<close>

section \<open>Character classes and number parsing of the C library\<close>

text \<open>The program never calls \<^verbatim>\<open>setlocale\<close>, so the classes are those of the C locale.\<close>

definition is_digit :: "char \<Rightarrow> bool" where
  "is_digit c \<longleftrightarrow> c \<in> set ''0123456789''"

definition is_upper :: "char \<Rightarrow> bool" where
  "is_upper c \<longleftrightarrow> c \<in> set ''ABCDEFGHIJKLMNOPQRSTUVWXYZ''"

definition is_lower :: "char \<Rightarrow> bool" where
  "is_lower c \<longleftrightarrow> c \<in> set ''abcdefghijklmnopqrstuvwxyz''"

definition is_alnum :: "char \<Rightarrow> bool" where
  "is_alnum c \<longleftrightarrow> is_digit c \<or> is_upper c \<or> is_lower c"

definition is_space :: "char \<Rightarrow> bool" where
  "is_space c \<longleftrightarrow> c \<in> {CHR 0x20, CHR 0x09, CHR 0x0A, CHR 0x0B, CHR 0x0C, CHR 0x0D}"

definition to_lower :: "char \<Rightarrow> char" where
  "to_lower c = (if is_upper c then char_of (of_char c + (32 :: nat)) else c)"

fun digits_value :: "int \<Rightarrow> string \<Rightarrow> int" where
  "digits_value acc [] = acc"
| "digits_value acc (c # cs) = digits_value (acc * 10 + (int (of_char c) - 48)) cs"

definition LONG_MAX :: int where
  "LONG_MAX = 2 ^ 63 - 1"

text \<open>
  \<^verbatim>\<open>strtol(s, &end, 10)\<close> on a NUL-terminated string (the list without its NUL): the value,
  clamped to the range of \<^verbatim>\<open>long\<close>, and the rest at \<^verbatim>\<open>end\<close>; \<open>None\<close> when no digit was read.
\<close>

definition strtol10 :: "string \<Rightarrow> (int \<times> string) option" where
  "strtol10 s =
     (let t = dropWhile is_space s;
          negative = (t \<noteq> [] \<and> hd t = CHR ''-'');
          u = (if t \<noteq> [] \<and> (hd t = CHR ''-'' \<or> hd t = CHR ''+'') then tl t else t);
          ds = takeWhile is_digit u;
          v = digits_value 0 ds in
      (if ds = [] then None
       else Some (if negative then max (- LONG_MAX - 1) (- v) else min LONG_MAX v,
                  dropWhile is_digit u)))"

text \<open>\<^verbatim>\<open>*end == '\0'\<close>: the end of the string, or an embedded NUL.\<close>

definition at_nul :: "string \<Rightarrow> bool" where
  "at_nul s \<longleftrightarrow> s = [] \<or> hd s = CHR 0x00"

lemma upper_letters: "''ABCDEFGHIJKLMNOPQRSTUVWXYZ'' = map char_of [65 ..< 91 :: nat]"
  by code_simp

lemma is_upper_code: "is_upper c \<longleftrightarrow> 65 \<le> (of_char c :: nat) \<and> (of_char c :: nat) \<le> 90"
proof
  assume "is_upper c"
  then obtain n :: nat where "n \<in> set [65 ..< 91]" "c = char_of n"
    unfolding is_upper_def upper_letters set_map by blast
  then show "65 \<le> (of_char c :: nat) \<and> (of_char c :: nat) \<le> 90" by (simp add: of_char_of del: upt_rec_numeral)
next
  assume "65 \<le> (of_char c :: nat) \<and> (of_char c :: nat) \<le> 90"
  then have "(of_char c :: nat) \<in> set [65 ..< 91]" by (simp del: upt_rec_numeral)
  moreover have "c = char_of (of_char c :: nat)" by simp
  ultimately show "is_upper c" unfolding is_upper_def upper_letters set_map by (rule rev_image_eqI)
qed

section \<open>Decimal printing\<close>

definition digit_char :: "nat \<Rightarrow> char" where
  "digit_char d = ''0123456789'' ! d"

fun dec :: "nat \<Rightarrow> string" where
  "dec n = (if n < 10 then [digit_char n] else dec (n div 10) @ [digit_char (n mod 10)])"

declare dec.simps [simp del]

lemma less_ten: "(d::nat) < 10 \<Longrightarrow> d \<in> {0, 1, 2, 3, 4, 5, 6, 7, 8, 9}"
  by auto

lemma digit_char_digit: "d < 10 \<Longrightarrow> is_digit (digit_char d)"
  by (drule less_ten) (auto simp: digit_char_def is_digit_def)

lemma digit_char_value: "d < 10 \<Longrightarrow> int (of_char (digit_char d)) - 48 = int d"
  by (drule less_ten) (auto simp: digit_char_def)

lemma dec_digits: "c \<in> set (dec n) \<Longrightarrow> is_digit c"
proof (induction n rule: dec.induct)
  case (1 n)
  then show ?case by (subst (asm) (2) dec.simps) (auto split: if_splits simp: digit_char_digit)
qed

lemma dec_nonempty [simp]: "dec n \<noteq> []"
  by (subst dec.simps) auto

lemma digits_value_append: "digits_value acc (xs @ ys) = digits_value (digits_value acc xs) ys"
  by (induction xs arbitrary: acc) auto

lemma digits_value_dec: "digits_value 0 (dec n) = int n"
proof (induction n rule: dec.induct)
  case (1 n)
  show ?case
  proof (cases "n < 10")
    case True
    then have "dec n = [digit_char n]" by (subst dec.simps) simp
    with True digit_char_value [of n] show ?thesis by simp
  next
    case False
    then have "dec n = dec (n div 10) @ [digit_char (n mod 10)]" by (subst dec.simps) simp
    then have "digits_value 0 (dec n) = int (n div 10) * 10 + int (n mod 10)"
      using 1 False digit_char_value [of "n mod 10"] by (simp add: digits_value_append)
    then show ?thesis by (simp add: zdiv_int zmod_int)
  qed
qed

lemma dec_inject: "dec m = dec n \<longleftrightarrow> m = n"
  using digits_value_dec by (metis of_nat_eq_iff)

lemma length_dec_le: "n < 10 ^ k \<Longrightarrow> 0 < k \<Longrightarrow> length (dec n) \<le> k"
proof (induction n arbitrary: k rule: dec.induct)
  case (1 n)
  show ?case
  proof (cases "n < 10")
    case True
    with 1 show ?thesis by (subst dec.simps) simp
  next
    case False
    then obtain j where k: "k = Suc j" "0 < j" using 1 by (cases k; cases "k - 1") auto
    then have "n div 10 < 10 ^ j" using 1 by (simp add: div_less_iff_less_mult mult.commute)
    with 1 False k show ?thesis by (subst dec.simps) simp
  qed
qed

text \<open>Reading back a printed number.\<close>

lemma strtol10_dec:
  assumes "rest = [] \<or> \<not> is_digit (hd rest)" "int n \<le> LONG_MAX"
  shows "strtol10 (dec n @ rest) = Some (int n, rest)"
proof -
  obtain d ds where d: "dec n = d # ds" using dec_nonempty [of n] by (cases "dec n") auto
  then have dd: "is_digit d" using dec_digits [of d n] by simp
  then have "\<not> is_space d" "d \<noteq> CHR ''-''" "d \<noteq> CHR ''+''"
    by (auto simp: is_digit_def is_space_def)
  moreover have "takeWhile is_digit (dec n @ rest) = dec n" "dropWhile is_digit (dec n @ rest) = rest"
    using assms(1) dec_digits [of _ n] by (cases rest; simp)+
  ultimately show ?thesis
    using d digits_value_dec [of n] assms(2)
    by (simp add: strtol10_def Let_def)
qed

end
