(* ===== verification/SC_Url.thy ===== *)
theory SC_Url
  imports SC_Vector SC_Ctype
begin

text \<open>
  The URL wrapper of \<^verbatim>\<open>src/net/url.c\<close>: splitting an absolute URL into its parts, and the
  questions the security policy asks of the result. The index loops of the C code are written
  as splits of the byte list at the place where the loop stops.

  The theorems: a successful parse takes as host exactly the bytes between the last \<^verbatim>\<open>@\<close> of
  the authority and its port, lower-cased and free of delimiters; putting well-formed parts
  together and parsing gives them back; a failed parse frees what it took.
\<close>

section \<open>The record and its parts\<close>

record sc_url =
  original :: sc_string
  scheme :: sc_string
  host :: sc_string
  path :: sc_string
  url_query :: sc_string
  fragment :: sc_string
  username :: sc_string
  password :: sc_string
  port :: nat
  has_port :: bool

definition sc_url_init :: sc_url where
  "sc_url_init = \<lparr>original = None, scheme = None, host = None, path = None, url_query = None,
     fragment = None, username = None, password = None, port = 0, has_port = False\<rparr>"

definition set_part :: "string \<Rightarrow> sc_allocator \<Rightarrow> sc_string res \<times> sc_allocator" where
  "set_part input a = (if length input = 0 then (Inr None, a) else sc_string_from_str (Str input) a)"

definition lowercase_host :: "sc_string \<Rightarrow> sc_string res" where
  "lowercase_host h =
     (case h of
        None \<Rightarrow> Inl (sc_status_parse ''sc.url.missing_host'')
      | Some bs \<Rightarrow> (if length bs = 0 then Inl (sc_status_parse ''sc.url.missing_host'')
                    else Inr (Some (map to_lower bs))))"

definition is_scheme_char :: "char \<Rightarrow> bool" where
  "is_scheme_char ch \<longleftrightarrow> is_alnum ch \<or> ch = CHR ''+'' \<or> ch = CHR ''-'' \<or> ch = CHR ''.''"

definition sc_url_clear :: "sc_url \<Rightarrow> sc_allocator \<Rightarrow> sc_url \<times> sc_allocator" where
  "sc_url_clear u a =
     (sc_url_init,
      sc_string_clear (password u) (sc_string_clear (username u) (sc_string_clear (fragment u)
        (sc_string_clear (url_query u) (sc_string_clear (path u) (sc_string_clear (host u)
          (sc_string_clear (scheme u) (sc_string_clear (original u) a))))))))"

section \<open>Parsing\<close>

text \<open>The scheme loop: \<open>None\<close> for a byte that is no scheme character, otherwise the split at \<^verbatim>\<open>:\<close>.\<close>

fun scan_scheme :: "string \<Rightarrow> (string \<times> string option) option" where
  "scan_scheme [] = Some ([], None)"
| "scan_scheme (c # cs) =
     (if c = CHR '':'' then Some ([], Some cs)
      else if \<not> is_scheme_char c then None
      else map_option (\<lambda>(s, r). (c # s, r)) (scan_scheme cs))"

text \<open>The last occurrence of a byte, and the first one.\<close>

fun split_last :: "char \<Rightarrow> string \<Rightarrow> (string \<times> string) option" where
  "split_last x [] = None"
| "split_last x (c # cs) =
     (case split_last x cs of
        Some (l, r) \<Rightarrow> Some (c # l, r)
      | None \<Rightarrow> (if c = x then Some ([], cs) else None))"

fun split_first :: "char \<Rightarrow> string \<Rightarrow> (string \<times> string) option" where
  "split_first x [] = None"
| "split_first x (c # cs) =
     (if c = x then Some ([], cs) else map_option (\<lambda>(l, r). (c # l, r)) (split_first x cs))"

definition authority_end :: "char \<Rightarrow> bool" where
  "authority_end c \<longleftrightarrow> c = CHR ''/'' \<or> c = CHR ''?'' \<or> c = CHR ''#''"

text \<open>
  The parts are copied one after the other while the status is still ok; \<open>url_step\<close> is the
  guard \<^verbatim>\<open>if (sc_status_is_ok(status)) status = set_part(...)\<close>.
\<close>

type_synonym url_state = "sc_status \<times> sc_url \<times> sc_allocator"

definition url_step :: "(sc_string \<Rightarrow> sc_url \<Rightarrow> sc_url) \<Rightarrow> string \<Rightarrow> url_state \<Rightarrow> url_state" where
  "url_step upd input s =
     (case s of (st, u, a) \<Rightarrow>
        (if \<not> sc_status_is_ok st then s
         else (case set_part input a of
                 (Inl e, a') \<Rightarrow> (e, u, a')
               | (Inr v, a') \<Rightarrow> (sc_status_ok, upd v u, a'))))"

text \<open>User information: the text before the last \<^verbatim>\<open>@\<close>, split at its first \<^verbatim>\<open>:\<close>.\<close>

definition url_userinfo :: "string option \<Rightarrow> url_state \<Rightarrow> url_state" where
  "url_userinfo info s =
     (case info of
        None \<Rightarrow> s
      | Some userinfo \<Rightarrow>
          (case split_first (CHR '':'') userinfo of
             None \<Rightarrow> url_step (\<lambda>v u. u\<lparr>username := v\<rparr>) userinfo s
           | Some (name, pass) \<Rightarrow>
               url_step (\<lambda>v u. u\<lparr>password := v\<rparr>) pass
                 (url_step (\<lambda>v u. u\<lparr>username := v\<rparr>) name s)))"

text \<open>The port: at most seven bytes, a decimal number from 1 to 65535.\<close>

definition parse_port :: "string \<Rightarrow> nat option" where
  "parse_port ptext =
     (if length ptext = 0 \<or> length ptext \<ge> 8 then None
      else (case strtol10 (takeWhile (\<lambda>c. c \<noteq> CHR 0x00) ptext) of
              None \<Rightarrow> None
            | Some (p, rest) \<Rightarrow> (if rest \<noteq> [] \<or> p \<le> 0 \<or> p > 65535 then None else Some (nat p))))"

definition url_port :: "string option \<Rightarrow> url_state \<Rightarrow> url_state" where
  "url_port ptext s =
     (case s of (st, u, a) \<Rightarrow>
        (if \<not> sc_status_is_ok st then s
         else (case ptext of
                 None \<Rightarrow> s
               | Some t \<Rightarrow>
                   (case parse_port t of
                      None \<Rightarrow> (sc_status_parse ''sc.url.invalid_port'', u, a)
                    | Some p \<Rightarrow> (st, u\<lparr>port := p, has_port := True\<rparr>, a)))))"

definition url_lower :: "url_state \<Rightarrow> url_state" where
  "url_lower s =
     (case s of (st, u, a) \<Rightarrow>
        (if \<not> sc_status_is_ok st then s
         else (case lowercase_host (host u) of
                 Inl e \<Rightarrow> (e, u, a)
               | Inr h \<Rightarrow> (sc_status_ok, u\<lparr>host := h\<rparr>, a))))"

text \<open>Path, query and fragment of the text after the authority.\<close>

definition url_tail :: "string \<Rightarrow> url_state \<Rightarrow> url_state" where
  "url_tail rest s =
     (let before_fragment = (case split_first (CHR ''#'') rest of None \<Rightarrow> rest | Some (l, r) \<Rightarrow> l);
          frag = map_option snd (split_first (CHR ''#'') rest);
          path_part = (case split_first (CHR ''?'') before_fragment of None \<Rightarrow> before_fragment | Some (l, r) \<Rightarrow> l);
          query_part = map_option snd (split_first (CHR ''?'') before_fragment);
          s1 = url_step (\<lambda>v u. u\<lparr>path := v\<rparr>)
                 (if rest \<noteq> [] \<and> hd rest = CHR ''/'' then path_part else ''/'') s;
          s2 = (case query_part of None \<Rightarrow> s1 | Some q \<Rightarrow> url_step (\<lambda>v u. u\<lparr>url_query := v\<rparr>) q s1) in
      (case frag of None \<Rightarrow> s2 | Some f \<Rightarrow> url_step (\<lambda>v u. u\<lparr>fragment := v\<rparr>) f s2))"

definition host_and_port :: "string \<Rightarrow> string \<times> string option" where
  "host_and_port hp =
     (case split_first (CHR '':'') hp of None \<Rightarrow> (hp, None) | Some (h, p) \<Rightarrow> (h, Some p))"

definition url_begin :: "string \<Rightarrow> string \<Rightarrow> string \<Rightarrow> sc_allocator \<Rightarrow> url_state" where
  "url_begin bs scheme_text authority a =
     (let s0 = url_step (\<lambda>v u. u\<lparr>scheme := v\<rparr>) scheme_text
                 (url_step (\<lambda>v u. u\<lparr>original := v\<rparr>) bs (sc_status_ok, sc_url_init, a)) in
      (if authority = []
       then (sc_status_parse ''sc.url.missing_host'', fst (snd s0), snd (snd s0)) else s0))"

definition url_authority :: "string \<Rightarrow> url_state \<Rightarrow> url_state" where
  "url_authority authority s =
     (let at = (if sc_status_is_ok (fst s) then split_last (CHR ''@'') authority else None);
          hp = host_and_port (case at of None \<Rightarrow> authority | Some (l, r) \<Rightarrow> r) in
      url_lower (url_step (\<lambda>v u. u\<lparr>host := v\<rparr>) (fst hp)
        (url_port (snd hp) (url_userinfo (map_option fst at) s))))"

definition url_parts :: "string \<Rightarrow> string \<Rightarrow> string \<Rightarrow> sc_allocator \<Rightarrow> url_state" where
  "url_parts bs scheme_text after a =
     (let authority = takeWhile (\<lambda>c. \<not> authority_end c) after;
          rest = dropWhile (\<lambda>c. \<not> authority_end c) after in
      url_tail rest (url_authority authority (url_begin bs scheme_text authority a)))"

definition sc_url_parse :: "sc_str \<Rightarrow> sc_allocator \<Rightarrow> sc_url res \<times> sc_allocator" where
  "sc_url_parse input a =
     (case input of
        NullStr n \<Rightarrow> (Inl (sc_status_invalid_argument ''sc.url.invalid_argument''), a)
      | Str bs \<Rightarrow>
          (if length bs = 0 then (Inl (sc_status_invalid_argument ''sc.url.invalid_argument''), a)
           else (case scan_scheme bs of
                   None \<Rightarrow> (Inl (sc_status_parse ''sc.url.invalid_scheme''), a)
                 | Some (sch, after_colon) \<Rightarrow>
                     (case after_colon of
                        None \<Rightarrow> (Inl (sc_status_parse ''sc.url.expected_absolute_url''), a)
                      | Some r \<Rightarrow>
                          (if sch = [] \<or> take 2 r \<noteq> ''//''
                           then (Inl (sc_status_parse ''sc.url.expected_absolute_url''), a)
                           else (case url_parts bs sch (drop 2 r) a of
                                   (st, u, a') \<Rightarrow>
                                     (if \<not> sc_status_is_ok st then (Inl st, snd (sc_url_clear u a'))
                                      else (Inr u, a'))))))))"

section \<open>Questions about a parsed URL\<close>

definition sc_url_has_credentials :: "sc_url \<Rightarrow> bool" where
  "sc_url_has_credentials u \<longleftrightarrow> string_len (username u) > 0 \<or> string_len (password u) > 0"

definition sc_url_reject_credentials :: "sc_url \<Rightarrow> sc_status" where
  "sc_url_reject_credentials u =
     (if sc_url_has_credentials u then sc_status_security_denied ''sc.url.credentials_denied''
      else sc_status_ok)"

definition sc_url_host_matches_domain :: "sc_url \<Rightarrow> sc_str \<Rightarrow> bool" where
  "sc_url_host_matches_domain u domain =
     (let h = sc_string_as_str (host u); hb = str_bytes h; db = str_bytes domain in
      (if str_len domain = 0 \<or> ptr_null domain then False
       else if sc_str_equal h domain then True
       else if length hb \<le> length db \<or> hb ! (length hb - length db - 1) \<noteq> CHR ''.'' then False
       else drop (length hb - length db) hb = db))"

text \<open>The loop over the four octets; \<open>i\<close> counts down from 4.\<close>

fun parse_octets :: "nat \<Rightarrow> string \<Rightarrow> nat list option" where
  "parse_octets 0 cursor = Some []"
| "parse_octets (Suc i) cursor =
     (case strtol10 cursor of
        None \<Rightarrow> None
      | Some (value, end_) \<Rightarrow>
          (if value < 0 \<or> value > 255 then None
           else if i > 0
           then (if end_ = [] \<or> hd end_ \<noteq> CHR ''.'' then None
                 else map_option (\<lambda>os. nat value # os) (parse_octets i (tl end_)))
           else (if \<not> at_nul end_ then None else Some [nat value])))"

definition parse_ipv4 :: "string \<Rightarrow> nat list option" where
  "parse_ipv4 h = (if length h \<ge> 32 then None else parse_octets 4 h)"

definition private_octets :: "nat \<Rightarrow> nat \<Rightarrow> bool" where
  "private_octets a b \<longleftrightarrow> a = 0 \<or> a = 10 \<or> a = 127 \<or> a \<ge> 224 \<or> (a = 100 \<and> b \<ge> 64 \<and> b \<le> 127) \<or>
     (a = 172 \<and> b \<ge> 16 \<and> b \<le> 31) \<or> (a = 192 \<and> b = 168) \<or> (a = 169 \<and> b = 254) \<or>
     (a = 198 \<and> (b = 18 \<or> b = 19))"

definition sc_url_host_is_private_address :: "sc_url \<Rightarrow> bool" where
  "sc_url_host_is_private_address u =
     (let h = sc_string_as_str (host u) in
      (if sc_str_equal h (Str ''localhost'') then True
       else (case parse_ipv4 (str_bytes h) of
               None \<Rightarrow> False
             | Some os \<Rightarrow> private_octets (os ! 0) (os ! 1))))"

section \<open>Splitting\<close>

lemma scan_scheme_Some:
  "scan_scheme bs = Some (sch, Some r) \<Longrightarrow>
     bs = sch @ CHR '':'' # r \<and> (\<forall>c \<in> set sch. is_scheme_char c \<and> c \<noteq> CHR '':'')"
  by (induction bs arbitrary: sch) (auto split: if_splits)

lemma scan_scheme_build:
  "\<forall>c \<in> set sch. is_scheme_char c \<Longrightarrow> scan_scheme (sch @ CHR '':'' # r) = Some (sch, Some r)"
proof (induction sch)
  case (Cons c cs)
  then have "c \<noteq> CHR '':''"
    by (auto simp: is_scheme_char_def is_alnum_def is_digit_def is_upper_def is_lower_def)
  with Cons show ?case by simp
qed simp

lemma split_first_Some: "split_first x bs = Some (l, r) \<longleftrightarrow> bs = l @ x # r \<and> x \<notin> set l"
proof (induction bs arbitrary: l)
  case (Cons c cs)
  then show ?case by (cases l) auto
qed simp

lemma split_first_None: "split_first x bs = None \<longleftrightarrow> x \<notin> set bs"
  by (induction bs) auto

lemma split_first_build [simp]: "x \<notin> set l \<Longrightarrow> split_first x (l @ x # r) = Some (l, r)"
  by (simp add: split_first_Some)

lemma split_last_None: "split_last x bs = None \<longleftrightarrow> x \<notin> set bs"
  by (induction bs) (auto split: option.splits)

lemma split_last_Some: "split_last x bs = Some (l, r) \<Longrightarrow> bs = l @ x # r \<and> x \<notin> set r"
proof (induction bs arbitrary: l)
  case (Cons c cs)
  show ?case
  proof (cases "split_last x cs")
    case None
    with Cons.prems show ?thesis by (auto simp: split_last_None split: if_splits)
  next
    case (Some lr)
    obtain l0 r0 where "lr = (l0, r0)" by (cases lr)
    with Some Cons show ?thesis by auto
  qed
qed simp

lemma split_last_build: "x \<notin> set r \<Longrightarrow> split_last x (l @ x # r) = Some (l, r)"
proof (induction l)
  case Nil
  then have "split_last x r = None" by (simp add: split_last_None)
  with Nil show ?case by simp
qed simp

lemma host_and_port_eq:
  "host_and_port hp = (h, p) \<Longrightarrow>
     hp = h @ (case p of None \<Rightarrow> [] | Some t \<Rightarrow> CHR '':'' # t) \<and> CHR '':'' \<notin> set h"
  by (auto simp: host_and_port_def split: option.splits simp: split_first_Some split_first_None)

section \<open>Steps of the parser\<close>

definition opt_part :: "string \<Rightarrow> sc_string" where
  "opt_part bs = (if bs = [] then None else Some bs)"

abbreviation step_url :: "url_state \<Rightarrow> sc_url" where
  "step_url s \<equiv> fst (snd s)"

abbreviation step_heap :: "url_state \<Rightarrow> sc_allocator" where
  "step_heap s \<equiv> snd (snd s)"

abbreviation step_ok :: "url_state \<Rightarrow> bool" where
  "step_ok s \<equiv> sc_status_is_ok (fst s)"

lemma set_part_cases:
  assumes "set_part bs a = (r, a')"
  shows "(r = Inr (opt_part bs) \<and> live a' = live a + string_blocks (opt_part bs)) \<or>
    (\<exists>e. r = Inl e \<and> \<not> sc_status_is_ok e \<and> live a' = live a)"
  using assms
  by (auto simp: set_part_def opt_part_def split: if_splits elim!: string_from_str_cases)

lemma set_part_generous:
  "generous a \<Longrightarrow> length bs < SIZE_MAX \<Longrightarrow>
   \<exists>a'. set_part bs a = (Inr (opt_part bs), a') \<and> generous a'"
  by (auto simp: set_part_def opt_part_def string_from_str_generous)

lemma url_step_ok:
  assumes "step_ok (url_step upd bs s)"
  shows "step_ok s \<and> step_url (url_step upd bs s) = upd (opt_part bs) (step_url s)"
proof -
  obtain st u a where s: "s = (st, u, a)" by (cases s)
  obtain r a' where "set_part bs a = (r, a')" by (cases "set_part bs a")
  with assms s set_part_cases [OF this] show ?thesis
    by (auto simp: url_step_def split: if_splits)
qed

lemma url_step_generous:
  assumes "step_ok s" "generous (step_heap s)" "length bs < SIZE_MAX"
  shows "step_ok (url_step upd bs s)" "generous (step_heap (url_step upd bs s))"
proof -
  obtain st u a where s: "s = (st, u, a)" by (cases s)
  with assms set_part_generous [of a bs]
  show "step_ok (url_step upd bs s)" "generous (step_heap (url_step upd bs s))"
    by (auto simp: url_step_def)
qed

lemma url_step_frame:
  "(\<And>v u. f (upd v u) = f u) \<Longrightarrow> f (step_url (url_step upd bs s)) = f (step_url s)"
  by (auto simp: url_step_def split: prod.splits sum.splits if_splits)

lemmas url_step_frames [simp] =
  url_step_frame [of original] url_step_frame [of scheme] url_step_frame [of host]
  url_step_frame [of path] url_step_frame [of url_query] url_step_frame [of fragment]
  url_step_frame [of username] url_step_frame [of password]

definition url_blocks :: "sc_url \<Rightarrow> int" where
  "url_blocks u = string_blocks (original u) + string_blocks (scheme u) + string_blocks (host u) +
     string_blocks (path u) + string_blocks (url_query u) + string_blocks (fragment u) +
     string_blocks (username u) + string_blocks (password u)"

lemma url_clear_live [simp]: "live (snd (sc_url_clear u a)) = live a - url_blocks u"
  by (simp add: sc_url_clear_def url_blocks_def)

lemma url_clear_generous [simp]: "generous (snd (sc_url_clear u a)) = generous a"
  by (simp add: sc_url_clear_def)

text \<open>Every block taken since the start is held by a part.\<close>

definition balanced :: "int \<Rightarrow> url_state \<Rightarrow> bool" where
  "balanced l s \<longleftrightarrow> live (step_heap s) = l + url_blocks (step_url s)"

lemma balanced_step:
  assumes "balanced l s"
    and "\<And>v. url_blocks (upd v (step_url s)) = url_blocks (step_url s) + string_blocks v"
  shows "balanced l (url_step upd bs s)"
proof -
  obtain st u a where s: "s = (st, u, a)" by (cases s)
  obtain r a' where "set_part bs a = (r, a')" by (cases "set_part bs a")
  with assms s set_part_cases [OF this] show ?thesis
    by (auto simp: url_step_def balanced_def)
qed

lemma balanced_userinfo:
  assumes "balanced l s" "username (step_url s) = None" "password (step_url s) = None"
  shows "balanced l (url_userinfo info s)"
  using assms by (auto simp: url_userinfo_def url_blocks_def split: option.splits
      intro!: balanced_step)

lemma userinfo_frame [simp]:
  "host (step_url (url_userinfo info s)) = host (step_url s)"
  "path (step_url (url_userinfo info s)) = path (step_url s)"
  "url_query (step_url (url_userinfo info s)) = url_query (step_url s)"
  "fragment (step_url (url_userinfo info s)) = fragment (step_url s)"
  "scheme (step_url (url_userinfo info s)) = scheme (step_url s)"
  by (auto simp: url_userinfo_def split: option.splits)

lemma port_frame [simp]:
  "host (step_url (url_port t s)) = host (step_url s)"
  "path (step_url (url_port t s)) = path (step_url s)"
  "url_query (step_url (url_port t s)) = url_query (step_url s)"
  "fragment (step_url (url_port t s)) = fragment (step_url s)"
  "scheme (step_url (url_port t s)) = scheme (step_url s)"
  "username (step_url (url_port t s)) = username (step_url s)"
  "password (step_url (url_port t s)) = password (step_url s)"
  "balanced l (url_port t s) = balanced l s"
  by (auto simp: url_port_def balanced_def url_blocks_def split: option.splits prod.splits)

lemma lower_frame [simp]:
  "path (step_url (url_lower s)) = path (step_url s)"
  "url_query (step_url (url_lower s)) = url_query (step_url s)"
  "fragment (step_url (url_lower s)) = fragment (step_url s)"
  "scheme (step_url (url_lower s)) = scheme (step_url s)"
  "username (step_url (url_lower s)) = username (step_url s)"
  "password (step_url (url_lower s)) = password (step_url s)"
  "balanced l (url_lower s) = balanced l s"
  by (auto simp: url_lower_def balanced_def url_blocks_def lowercase_host_def
      split: option.splits prod.splits sum.splits if_splits)

lemma balanced_tail:
  assumes "balanced l s" "path (step_url s) = None" "url_query (step_url s) = None"
    "fragment (step_url s) = None"
  shows "balanced l (url_tail rest s)"
  using assms unfolding url_tail_def Let_def
  by (auto simp: url_blocks_def split: option.splits intro!: balanced_step)

lemma tail_frame [simp]:
  "host (step_url (url_tail rest s)) = host (step_url s)"
  "scheme (step_url (url_tail rest s)) = scheme (step_url s)"
  "username (step_url (url_tail rest s)) = username (step_url s)"
  "password (step_url (url_tail rest s)) = password (step_url s)"
  by (auto simp: url_tail_def Let_def split: option.splits)

lemma begin_frame:
  "host (step_url (url_begin bs sch authority a)) = None"
  "path (step_url (url_begin bs sch authority a)) = None"
  "url_query (step_url (url_begin bs sch authority a)) = None"
  "fragment (step_url (url_begin bs sch authority a)) = None"
  "username (step_url (url_begin bs sch authority a)) = None"
  "password (step_url (url_begin bs sch authority a)) = None"
  by (simp_all add: url_begin_def Let_def sc_url_init_def)

lemma balanced_begin: "balanced (live a) (url_begin bs sch authority a)"
proof -
  have start: "balanced (live a) (sc_status_ok, sc_url_init, a)"
    by (simp add: balanced_def url_blocks_def sc_url_init_def)
  let ?s = "url_step (\<lambda>v u. u\<lparr>scheme := v\<rparr>) sch
    (url_step (\<lambda>v u. u\<lparr>original := v\<rparr>) bs (sc_status_ok, sc_url_init, a))"
  have "balanced (live a) ?s"
    by (intro balanced_step start) (simp_all add: url_blocks_def sc_url_init_def)
  then show ?thesis by (simp add: url_begin_def Let_def balanced_def)
qed

lemma authority_frame:
  "path (step_url (url_authority authority s)) = path (step_url s)"
  "url_query (step_url (url_authority authority s)) = url_query (step_url s)"
  "fragment (step_url (url_authority authority s)) = fragment (step_url s)"
  "scheme (step_url (url_authority authority s)) = scheme (step_url s)"
  by (simp_all add: url_authority_def Let_def)

lemma balanced_authority:
  assumes "balanced l s" "host (step_url s) = None" "username (step_url s) = None"
    "password (step_url s) = None"
  shows "balanced l (url_authority authority s)"
  using assms unfolding url_authority_def Let_def lower_frame
  by (intro balanced_step) (simp_all add: balanced_userinfo url_blocks_def)

lemma balanced_parts: "balanced (live a) (url_parts bs sch after a)"
  unfolding url_parts_def Let_def
  by (intro balanced_tail balanced_authority balanced_begin)
    (simp_all add: begin_frame authority_frame)

text \<open>A parse that fails gives back every block it took; one that succeeds holds one per part.\<close>

lemma url_parse_live:
  assumes "sc_url_parse input a = (r, a')"
  shows "live a' = live a + (case r of Inl e \<Rightarrow> 0 | Inr u \<Rightarrow> url_blocks u)"
    and "r = Inl e \<Longrightarrow> \<not> sc_status_is_ok e"
proof -
  have "live a' = live a + (case r of Inl e \<Rightarrow> 0 | Inr u \<Rightarrow> url_blocks u) \<and>
      (\<forall>e. r = Inl e \<longrightarrow> \<not> sc_status_is_ok e)"
  proof (cases input)
    case (Str bs)
    show ?thesis
    proof (cases "\<exists>sch rest. bs \<noteq> [] \<and> scan_scheme bs = Some (sch, Some rest) \<and> sch \<noteq> [] \<and> take 2 rest = ''//''")
      case True
      then obtain sch rest where sp: "bs \<noteq> []" "scan_scheme bs = Some (sch, Some rest)" "sch \<noteq> []"
        "take 2 rest = ''//''" by blast
      obtain st u a1 where pt: "url_parts bs sch (drop 2 rest) a = (st, u, a1)"
        by (cases "url_parts bs sch (drop 2 rest) a")
      have "live a1 = live a + url_blocks u"
        using balanced_parts [of a bs sch "drop 2 rest"] pt by (simp add: balanced_def)
      then show ?thesis
        using assms Str sp pt by (auto simp: sc_url_parse_def split: if_splits)
    next
      case False
      then show ?thesis
        using assms Str by (auto simp: sc_url_parse_def split: if_splits option.splits)
    qed
  qed (use assms in \<open>auto simp: sc_url_parse_def\<close>)
  then show "live a' = live a + (case r of Inl e \<Rightarrow> 0 | Inr u \<Rightarrow> url_blocks u)"
    "r = Inl e \<Longrightarrow> \<not> sc_status_is_ok e" by auto
qed

section \<open>What a successful parse says\<close>

lemma url_parse_Inr:
  assumes "sc_url_parse input a = (Inr u, a')"
  obtains bs sch after where "input = Str bs" "bs = sch @ ''://'' @ after" "sch \<noteq> []"
    "\<forall>c \<in> set sch. is_scheme_char c" "step_ok (url_parts bs sch after a)"
    "u = step_url (url_parts bs sch after a)"
proof -
  from assms obtain bs sch rest where in_: "input = Str bs" "scan_scheme bs = Some (sch, Some rest)"
    "sch \<noteq> []" "take 2 rest = ''//''"
    and pt: "(case url_parts bs sch (drop 2 rest) a of (st, u, a') \<Rightarrow>
      (if \<not> sc_status_is_ok st then (Inl st, snd (sc_url_clear u a')) else (Inr u, a'))) = (Inr u, a')"
    by (auto simp: sc_url_parse_def split: sc_str.splits if_splits option.splits)
  have "rest = ''//'' @ drop 2 rest" using append_take_drop_id [of 2 rest] in_(4) by simp
  with scan_scheme_Some [OF in_(2)] have "bs = sch @ ''://'' @ drop 2 rest" "\<forall>c \<in> set sch. is_scheme_char c"
    by auto
  moreover from pt have "step_ok (url_parts bs sch (drop 2 rest) a)"
    "u = step_url (url_parts bs sch (drop 2 rest) a)"
    by (auto split: prod.splits if_splits)
  ultimately show thesis using that in_ by blast
qed

lemma port_ok: "step_ok (url_port t s) \<Longrightarrow> step_ok s"
  by (auto simp: url_port_def split: prod.splits if_splits option.splits)

lemma lower_ok:
  "step_ok (url_lower s) \<Longrightarrow> step_ok s \<and> (\<exists>h. h \<noteq> [] \<and> host (step_url s) = Some h \<and>
     host (step_url (url_lower s)) = Some (map to_lower h))"
  by (auto simp: url_lower_def lowercase_host_def split: prod.splits if_splits option.splits sum.splits)

lemma userinfo_ok: "step_ok (url_userinfo info s) \<Longrightarrow> step_ok s"
  by (auto simp: url_userinfo_def split: option.splits dest!: url_step_ok)

lemma userinfo_parts:
  assumes "step_ok (url_userinfo info s)" "username (step_url s) = None" "password (step_url s) = None"
  shows "sc_url_has_credentials (step_url (url_userinfo info s)) \<longleftrightarrow>
    (\<exists>ui. info = Some ui \<and> ui \<noteq> [] \<and> ui \<noteq> '':'')"
proof (cases info)
  case None
  with assms show ?thesis by (simp add: url_userinfo_def sc_url_has_credentials_def)
next
  case (Some ui)
  show ?thesis
  proof (cases "split_first (CHR '':'') ui")
    case None
    with Some assms(1) have "step_url (url_userinfo info s) = (step_url s)\<lparr>username := opt_part ui\<rparr>"
      by (auto simp: url_userinfo_def dest: url_step_ok)
    with Some assms(3) None show ?thesis
      by (auto simp: sc_url_has_credentials_def opt_part_def split_first_None)
  next
    case lr: (Some lr)
    obtain name pass where np: "lr = (name, pass)" by (cases lr)
    with lr have ui: "ui = name @ CHR '':'' # pass" by (simp add: split_first_Some)
    from Some lr np assms(1) have "step_url (url_userinfo info s) =
        (step_url s)\<lparr>username := opt_part name, password := opt_part pass\<rparr>"
      by (auto simp: url_userinfo_def dest!: url_step_ok)
    with Some ui show ?thesis
      by (cases name; cases pass) (auto simp: sc_url_has_credentials_def opt_part_def)
  qed
qed

lemma tail_ok: "step_ok (url_tail rest s) \<Longrightarrow> step_ok s"
  by (auto simp: url_tail_def Let_def split: option.splits if_splits dest!: url_step_ok)

lemma begin_ok:
  "step_ok (url_begin bs sch authority a) \<Longrightarrow>
     authority \<noteq> [] \<and> scheme (step_url (url_begin bs sch authority a)) = opt_part sch"
  by (auto simp: url_begin_def Let_def split: if_splits dest!: url_step_ok)

text \<open>
  The authority of an accepted URL: optional user information up to the last \<^verbatim>\<open>@\<close>, the host,
  an optional port.
\<close>

lemma authority_ok:
  assumes "step_ok (url_authority authority s)" "username (step_url s) = None" "password (step_url s) = None"
  shows "\<exists>info h p. authority = (case info of None \<Rightarrow> [] | Some ui \<Rightarrow> ui @ ''@'') @ h @
      (case p of None \<Rightarrow> [] | Some t \<Rightarrow> CHR '':'' # t) \<and>
    h \<noteq> [] \<and> CHR ''@'' \<notin> set h \<and> CHR '':'' \<notin> set h \<and>
    host (step_url (url_authority authority s)) = Some (map to_lower h) \<and>
    (sc_url_has_credentials (step_url (url_authority authority s)) \<longleftrightarrow>
       (\<exists>ui. info = Some ui \<and> ui \<noteq> [] \<and> ui \<noteq> '':'')) \<and> step_ok s"
proof -
  define at where "at = (if step_ok s then split_last (CHR ''@'') authority else None)"
  define hp where "hp = host_and_port (case at of None \<Rightarrow> authority | Some (l, r) \<Rightarrow> r)"
  define s1 where "s1 = url_userinfo (map_option fst at) s"
  define s2 where "s2 = url_step (\<lambda>v u. u\<lparr>host := v\<rparr>) (fst hp) (url_port (snd hp) s1)"
  have eq: "url_authority authority s = url_lower s2"
    by (simp add: url_authority_def Let_def at_def hp_def s1_def s2_def)
  with assms(1) lower_ok [of s2] obtain h where h: "step_ok s2" "h \<noteq> []" "host (step_url s2) = Some h"
    "host (step_url (url_lower s2)) = Some (map to_lower h)" by auto
  from url_step_ok [of "\<lambda>v u. u\<lparr>host := v\<rparr>", OF h(1) [unfolded s2_def], folded s2_def]
  have "step_ok (url_port (snd hp) s1)" "host (step_url s2) = opt_part (fst hp)" by auto
  with h(2,3) port_ok have ok1: "step_ok s1" and fh: "fst hp = h"
    by (auto simp: opt_part_def split: if_splits)
  from userinfo_ok ok1 have ok: "step_ok s" unfolding s1_def by blast
  have cred: "sc_url_has_credentials (step_url (url_lower s2)) =
      sc_url_has_credentials (step_url s1)"
    by (simp add: sc_url_has_credentials_def s2_def)
  have hp_eq: "(case at of None \<Rightarrow> authority | Some (l, r) \<Rightarrow> r) =
      h @ (case snd hp of None \<Rightarrow> [] | Some t \<Rightarrow> CHR '':'' # t)" "CHR '':'' \<notin> set h"
    using host_and_port_eq [of _ h "snd hp"] fh unfolding hp_def by (metis prod.collapse)+
  have "authority = (case map_option fst at of None \<Rightarrow> [] | Some ui \<Rightarrow> ui @ ''@'') @
      (case at of None \<Rightarrow> authority | Some (l, r) \<Rightarrow> r)"
    "CHR ''@'' \<notin> set (case at of None \<Rightarrow> authority | Some (l, r) \<Rightarrow> r)"
    using ok by (auto simp: at_def split_last_None split: option.splits dest: split_last_Some)
  with hp_eq h(2,4) ok cred userinfo_parts [OF ok1 [unfolded s1_def] assms(2,3), folded s1_def] eq
  show ?thesis by (intro exI [of _ "map_option fst at"] exI [of _ h] exI [of _ "snd hp"]) auto
qed

lemma url_parse_sound:
  assumes "sc_url_parse input a = (Inr u, a')"
  shows "\<exists>sch info h p rest. input = Str (sch @ ''://'' @ (case info of None \<Rightarrow> [] | Some ui \<Rightarrow> ui @ ''@'') @ h @
      (case p of None \<Rightarrow> [] | Some t \<Rightarrow> CHR '':'' # t) @ rest) \<and>
    scheme u = Some sch \<and> (\<forall>c \<in> set sch. is_scheme_char c) \<and> host u = Some (map to_lower h) \<and> h \<noteq> [] \<and>
    (\<forall>c \<in> set h. \<not> authority_end c \<and> c \<noteq> CHR ''@'' \<and> c \<noteq> CHR '':'') \<and>
    (rest = [] \<or> authority_end (hd rest)) \<and>
    (sc_url_has_credentials u \<longleftrightarrow> (\<exists>ui. info = Some ui \<and> ui \<noteq> [] \<and> ui \<noteq> '':''))"
proof -
  obtain bs sch after where in_: "input = Str bs" "bs = sch @ ''://'' @ after" "sch \<noteq> []"
    "\<forall>c \<in> set sch. is_scheme_char c" "step_ok (url_parts bs sch after a)"
    "u = step_url (url_parts bs sch after a)"
    using url_parse_Inr [OF assms] by blast
  define authority where "authority = takeWhile (\<lambda>c. \<not> authority_end c) after"
  define rest where "rest = dropWhile (\<lambda>c. \<not> authority_end c) after"
  have after: "after = authority @ rest" by (simp add: authority_def rest_def)
  have clean: "\<forall>c \<in> set authority. \<not> authority_end c"
    unfolding authority_def using set_takeWhileD by metis
  have stop: "rest = [] \<or> authority_end (hd rest)"
    unfolding rest_def using hd_dropWhile [of "\<lambda>c. \<not> authority_end c" after] by blast
  define s where "s = url_begin bs sch authority a"
  have parts: "url_parts bs sch after a = url_tail rest (url_authority authority s)"
    by (simp add: url_parts_def Let_def authority_def rest_def s_def)
  from in_(5) parts tail_ok have ok: "step_ok (url_authority authority s)" by metis
  have none: "username (step_url s) = None" "password (step_url s) = None"
    by (simp_all add: s_def begin_frame)
  from authority_ok [OF ok none] obtain info h p where auth:
    "authority = (case info of None \<Rightarrow> [] | Some ui \<Rightarrow> ui @ ''@'') @ h @
      (case p of None \<Rightarrow> [] | Some t \<Rightarrow> CHR '':'' # t)" "h \<noteq> []" "CHR ''@'' \<notin> set h" "CHR '':'' \<notin> set h"
    "host (step_url (url_authority authority s)) = Some (map to_lower h)"
    "sc_url_has_credentials (step_url (url_authority authority s)) \<longleftrightarrow>
       (\<exists>ui. info = Some ui \<and> ui \<noteq> [] \<and> ui \<noteq> '':'')" "step_ok s"
    by blast
  have "scheme u = Some sch"
    using begin_ok [of bs sch authority a] auth(7) in_(3,6) parts
    by (simp add: authority_frame s_def opt_part_def)
  moreover have "sc_url_has_credentials u \<longleftrightarrow> (\<exists>ui. info = Some ui \<and> ui \<noteq> [] \<and> ui \<noteq> '':'')"
    using auth(6) in_(6) parts by (simp add: sc_url_has_credentials_def)
  moreover have "host u = Some (map to_lower h)" using auth(5) in_(6) parts by simp
  moreover have "\<forall>c \<in> set h. \<not> authority_end c \<and> c \<noteq> CHR ''@'' \<and> c \<noteq> CHR '':''"
    using clean auth(1,3,4) by auto
  ultimately show ?thesis
    using in_(1,2,4) after auth(1,2) stop
    by (intro exI [of _ sch] exI [of _ info] exI [of _ h] exI [of _ p] exI [of _ rest]) simp
qed

lemma url_parse_host_scheme:
  assumes "sc_url_parse input a = (Inr u, a')"
  obtains h s where "host u = Some h" "scheme u = Some s"
  using url_parse_sound [OF assms] by (elim exE conjE) (rule that)

section \<open>Domains\<close>

lemma host_matches_domain_iff:
  "sc_url_host_matches_domain u (Str d) \<longleftrightarrow>
     d \<noteq> [] \<and> (\<exists>h. host u = Some h \<and> (h = d \<or> (\<exists>sub. h = sub @ CHR ''.'' # d)))"
proof (cases "host u")
  case None
  then show ?thesis by (auto simp: sc_url_host_matches_domain_def sc_str_equal_def)
next
  case (Some h)
  have "(length d < length h \<and> h ! (length h - length d - 1) = CHR ''.'' \<and>
      drop (length h - length d) h = d) \<longleftrightarrow> (\<exists>sub. h = sub @ CHR ''.'' # d)" (is "?L = ?R")
  proof
    assume L: ?L
    define i where "i = length h - length d - 1"
    from L have i: "i < length h" "Suc i = length h - length d" by (auto simp: i_def)
    have "h = take i h @ h ! i # drop (Suc i) h" using id_take_nth_drop [OF i(1)] .
    with L i show ?R unfolding i_def by metis
  next
    assume ?R
    then show ?L by auto
  qed
  with Some show ?thesis
    by (auto simp: sc_url_host_matches_domain_def Let_def)
qed

lemma host_matches_domain_null: "\<not> sc_url_host_matches_domain u (NullStr n)"
  by (simp add: sc_url_host_matches_domain_def)

section \<open>Addresses\<close>

definition dotted :: "nat \<Rightarrow> nat \<Rightarrow> nat \<Rightarrow> nat \<Rightarrow> string" where
  "dotted a b c d = dec a @ ''.'' @ dec b @ ''.'' @ dec c @ ''.'' @ dec d"

lemma length_dec_octet: "n < 256 \<Longrightarrow> length (dec n) \<le> 3"
  using length_dec_le [of n 3] by simp

lemma parse_ipv4_dotted:
  assumes "a < 256" "b < 256" "c < 256" "d < 256"
  shows "parse_ipv4 (dotted a b c d) = Some [a, b, c, d]"
proof -
  have num: "strtol10 (dec n @ CHR ''.'' # r) = Some (int n, CHR ''.'' # r)"
    "strtol10 (dec n) = Some (int n, [])" if "n < 256" for n r
    using that strtol10_dec [of "CHR ''.'' # r" n] strtol10_dec [of "[]" n]
    by (auto simp: LONG_MAX_def is_digit_def)
  have "length (dotted a b c d) < 32"
    using assms length_dec_octet [of a] length_dec_octet [of b] length_dec_octet [of c]
      length_dec_octet [of d] by (simp add: dotted_def)
  then show ?thesis
    using assms by (simp add: parse_ipv4_def dotted_def num eval_nat_numeral at_nul_def)
qed

lemma private_dotted:
  assumes "a < 256" "b < 256" "c < 256" "d < 256" "host u = Some (dotted a b c d)"
  shows "sc_url_host_is_private_address u \<longleftrightarrow> private_octets a b"
proof -
  have "dotted a b c d \<noteq> ''localhost''"
  proof
    assume "dotted a b c d = ''localhost''"
    moreover have "CHR ''.'' \<in> set (dotted a b c d)" by (simp add: dotted_def)
    ultimately show False by simp
  qed
  with assms show ?thesis
    by (simp add: sc_url_host_is_private_address_def parse_ipv4_dotted Let_def)
qed

section \<open>Round trip\<close>

text \<open>A URL put together from its parts.\<close>

definition opt_text :: "string \<Rightarrow> string option \<Rightarrow> string" where
  "opt_text mark p = (case p of None \<Rightarrow> [] | Some t \<Rightarrow> mark @ t)"

definition url_build ::
    "string \<Rightarrow> string \<Rightarrow> nat option \<Rightarrow> string \<Rightarrow> string option \<Rightarrow> string option \<Rightarrow> string" where
  "url_build sch h p pth q f =
     sch @ ''://'' @ h @ opt_text '':'' (map_option dec p) @ pth @ opt_text ''?'' q @ opt_text ''#'' f"

definition wf_parts ::
    "string \<Rightarrow> string \<Rightarrow> nat option \<Rightarrow> string \<Rightarrow> string option \<Rightarrow> string option \<Rightarrow> bool" where
  "wf_parts sch h p pth q f \<longleftrightarrow>
     sch \<noteq> [] \<and> list_all is_scheme_char sch \<and>
     h \<noteq> [] \<and> list_all (\<lambda>c. \<not> authority_end c \<and> c \<noteq> CHR ''@'' \<and> c \<noteq> CHR '':'') h \<and>
     (case p of None \<Rightarrow> True | Some n \<Rightarrow> 0 < n \<and> n \<le> 65535) \<and>
     (pth = [] \<or> hd pth = CHR ''/'') \<and> CHR ''?'' \<notin> set pth \<and> CHR ''#'' \<notin> set pth \<and>
     (case q of None \<Rightarrow> True | Some t \<Rightarrow> CHR ''#'' \<notin> set t) \<and>
     length (url_build sch h p pth q f) < SIZE_MAX"

lemma parse_port_dec: "0 < n \<Longrightarrow> n \<le> 65535 \<Longrightarrow> parse_port (dec n) = Some n"
proof -
  assume n: "0 < n" "n \<le> 65535"
  have "CHR 0x00 \<notin> set (dec n)" using dec_digits [of "CHR 0x00" n] by (auto simp: is_digit_def)
  then have "takeWhile (\<lambda>c. c \<noteq> CHR 0x00) (dec n) = dec n"
    by (intro takeWhile_eq_all_conv [THEN iffD2]) auto
  moreover have "length (dec n) \<le> 5" using n length_dec_le [of n 5] by simp
  moreover have "strtol10 (dec n) = Some (int n, [])"
    using strtol10_dec [of "[]" n] n by (simp add: LONG_MAX_def)
  ultimately show ?thesis unfolding parse_port_def using n by (simp only: option.case prod.case) simp
qed

lemma digit_not_delim: "is_digit c \<Longrightarrow> \<not> authority_end c \<and> c \<noteq> CHR ''@'' \<and> c \<noteq> CHR '':''"
  by (auto simp: is_digit_def authority_end_def)

lemma tail_generous:
  assumes "step_ok s" "generous (step_heap s)" "CHR ''?'' \<notin> set pth" "CHR ''#'' \<notin> set pth"
    "pth = [] \<or> hd pth = CHR ''/''" "\<And>t. q = Some t \<Longrightarrow> CHR ''#'' \<notin> set t"
    "length (pth @ opt_text ''?'' q @ opt_text ''#'' f) < SIZE_MAX"
  defines "s' \<equiv> url_tail (pth @ opt_text ''?'' q @ opt_text ''#'' f) s"
  shows "step_ok s'" "path (step_url s') = Some (if pth = [] then ''/'' else pth)"
    "url_query (step_url s') = (case q of None \<Rightarrow> url_query (step_url s) | Some t \<Rightarrow> opt_part t)"
    "fragment (step_url s') = (case f of None \<Rightarrow> fragment (step_url s) | Some t \<Rightarrow> opt_part t)"
    "port (step_url s') = port (step_url s)" "has_port (step_url s') = has_port (step_url s)"
proof -
  define rest where "rest = pth @ opt_text ''?'' q @ opt_text ''#'' f"
  have sf: "split_first (CHR ''#'') rest =
      (case f of None \<Rightarrow> None | Some t \<Rightarrow> Some (pth @ opt_text ''?'' q, t))"
    using assms(4,6) unfolding rest_def
    by (cases f; cases q) (auto simp: opt_text_def split_first_None split_first_Some)
  have sq: "split_first (CHR ''?'') (pth @ opt_text ''?'' q) =
      (case q of None \<Rightarrow> None | Some t \<Rightarrow> Some (pth, t))"
    using assms(3) by (cases q) (auto simp: opt_text_def split_first_None)
  have bf: "(case split_first (CHR ''#'') rest of None \<Rightarrow> rest | Some (l, r) \<Rightarrow> l) = pth @ opt_text ''?'' q"
    using sf by (cases f) (auto simp: rest_def opt_text_def)
  have pp: "(if rest \<noteq> [] \<and> hd rest = CHR ''/'' then
      (case split_first (CHR ''?'') (pth @ opt_text ''?'' q) of None \<Rightarrow> pth @ opt_text ''?'' q | Some (l, r) \<Rightarrow> l)
      else ''/'') = (if pth = [] then ''/'' else pth)"
    using sq assms(5) by (cases pth; cases q; cases f) (auto simp: rest_def opt_text_def)
  define s1 where "s1 = url_step (\<lambda>v u. u\<lparr>path := v\<rparr>) (if pth = [] then ''/'' else pth) s"
  define s2 where "s2 = (case q of None \<Rightarrow> s1 | Some t \<Rightarrow> url_step (\<lambda>v u. u\<lparr>url_query := v\<rparr>) t s1)"
  have s': "s' = (case f of None \<Rightarrow> s2 | Some t \<Rightarrow> url_step (\<lambda>v u. u\<lparr>fragment := v\<rparr>) t s2)"
    unfolding s'_def url_tail_def rest_def [symmetric] Let_def bf pp
    unfolding sf sq s1_def s2_def by (cases q; cases f) simp_all
  have len: "length pth < SIZE_MAX" "1 < SIZE_MAX" "\<And>t. q = Some t \<Longrightarrow> length t < SIZE_MAX"
    "\<And>t. f = Some t \<Longrightarrow> length t < SIZE_MAX"
    using assms(7) by (auto simp: opt_text_def SIZE_MAX_def)
  have ok1: "step_ok s1" "generous (step_heap s1)"
    using url_step_generous [OF assms(1,2)] len(1,2) unfolding s1_def by (auto split: if_splits)
  have u1: "step_url s1 = (step_url s)\<lparr>path := Some (if pth = [] then ''/'' else pth)\<rparr>"
    using url_step_ok [of "\<lambda>v u. u\<lparr>path := v\<rparr>", OF ok1(1) [unfolded s1_def]]
    by (auto simp: s1_def opt_part_def)
  have ok2: "step_ok s2" "generous (step_heap s2)"
    using url_step_generous [OF ok1] ok1 len(3) unfolding s2_def by (auto split: option.splits)
  have u2: "step_url s2 = (case q of None \<Rightarrow> step_url s1 | Some t \<Rightarrow> (step_url s1)\<lparr>url_query := opt_part t\<rparr>)"
    using ok2(1) url_step_ok [of "\<lambda>v u. u\<lparr>url_query := v\<rparr>" _ s1]
    by (auto simp: s2_def split: option.splits)
  show ok3: "step_ok s'"
    using url_step_generous [OF ok2] ok2 len(4) unfolding s' by (auto split: option.splits)
  have u3: "step_url s' = (case f of None \<Rightarrow> step_url s2 | Some t \<Rightarrow> (step_url s2)\<lparr>fragment := opt_part t\<rparr>)"
    using ok3 url_step_ok [of "\<lambda>v u. u\<lparr>fragment := v\<rparr>" _ s2]
    by (auto simp: s' split: option.splits)
  show "path (step_url s') = Some (if pth = [] then ''/'' else pth)"
    "url_query (step_url s') = (case q of None \<Rightarrow> url_query (step_url s) | Some t \<Rightarrow> opt_part t)"
    "fragment (step_url s') = (case f of None \<Rightarrow> fragment (step_url s) | Some t \<Rightarrow> opt_part t)"
    "port (step_url s') = port (step_url s)" "has_port (step_url s') = has_port (step_url s)"
    unfolding u3 u2 u1 by (auto split: option.splits)
qed

lemma authority_generous:
  assumes "step_ok s" "generous (step_heap s)" "h \<noteq> []" "CHR ''@'' \<notin> set h" "CHR '':'' \<notin> set h"
    "case p of None \<Rightarrow> True | Some n \<Rightarrow> 0 < n \<and> n \<le> 65535" "length h < SIZE_MAX"
  defines "s' \<equiv> url_authority (h @ opt_text '':'' (map_option dec p)) s"
  shows "step_ok s'" "generous (step_heap s')" "host (step_url s') = Some (map to_lower h)"
    "port (step_url s') = (case p of None \<Rightarrow> port (step_url s) | Some n \<Rightarrow> n)"
    "has_port (step_url s') = (case p of None \<Rightarrow> has_port (step_url s) | Some n \<Rightarrow> True)"
proof -
  let ?auth = "h @ opt_text '':'' (map_option dec p)"
  have "CHR ''@'' \<notin> set ?auth"
    using assms(4) dec_digits [of "CHR ''@''"] by (auto simp: opt_text_def is_digit_def split: option.splits)
  then have at: "split_last (CHR ''@'') ?auth = None" by (simp add: split_last_None)
  have hp: "host_and_port ?auth = (h, map_option dec p)"
    using assms(5) split_first_None [of "CHR '':''" h]
    by (cases p) (simp_all add: host_and_port_def opt_text_def)
  define s1 where "s1 = url_port (map_option dec p) s"
  have s1: "step_ok s1" "generous (step_heap s1)"
    "port (step_url s1) = (case p of None \<Rightarrow> port (step_url s) | Some n \<Rightarrow> n)"
    "has_port (step_url s1) = (case p of None \<Rightarrow> has_port (step_url s) | Some n \<Rightarrow> True)"
    using assms(1,2,6) by (auto simp: s1_def url_port_def parse_port_dec split: option.splits prod.splits)
  define s2 where "s2 = url_step (\<lambda>v u. u\<lparr>host := v\<rparr>) h s1"
  have s2: "step_ok s2" "generous (step_heap s2)"
    using url_step_generous [OF s1(1,2) assms(7)] by (auto simp: s2_def)
  have u2: "step_url s2 = (step_url s1)\<lparr>host := Some h\<rparr>"
    using url_step_ok [of "\<lambda>v u. u\<lparr>host := v\<rparr>", OF s2(1) [unfolded s2_def]] assms(3)
    by (simp add: s2_def opt_part_def)
  have s': "s' = url_lower s2"
    using assms(1) by (simp add: s'_def url_authority_def at hp s1_def s2_def url_userinfo_def)
  show "step_ok s'" "generous (step_heap s')" "host (step_url s') = Some (map to_lower h)"
    "port (step_url s') = (case p of None \<Rightarrow> port (step_url s) | Some n \<Rightarrow> n)"
    "has_port (step_url s') = (case p of None \<Rightarrow> has_port (step_url s) | Some n \<Rightarrow> True)"
    using s2 u2 s1(3,4) assms(3)
    by (auto simp: s' url_lower_def lowercase_host_def split: prod.splits)
qed

lemma url_roundtrip:
  assumes "generous a" "wf_parts sch h p pth q f"
  shows "\<exists>u a'. sc_url_parse (Str (url_build sch h p pth q f)) a = (Inr u, a') \<and>
    scheme u = Some sch \<and> host u = Some (map to_lower h) \<and>
    path u = Some (if pth = [] then ''/'' else pth) \<and>
    url_query u = (case q of None \<Rightarrow> None | Some t \<Rightarrow> opt_part t) \<and>
    fragment u = (case f of None \<Rightarrow> None | Some t \<Rightarrow> opt_part t) \<and>
    has_port u = (p \<noteq> None) \<and> port u = (case p of None \<Rightarrow> 0 | Some n \<Rightarrow> n) \<and>
    \<not> sc_url_has_credentials u"
proof -
  let ?auth = "h @ opt_text '':'' (map_option dec p)"
  let ?tail = "pth @ opt_text ''?'' q @ opt_text ''#'' f"
  let ?bs = "url_build sch h p pth q f"
  note wf = assms(2) [unfolded wf_parts_def list_all_iff]
  have bs: "?bs = sch @ CHR '':'' # ''//'' @ ?auth @ ?tail" by (simp add: url_build_def)
  have scan: "scan_scheme ?bs = Some (sch, Some (''//'' @ ?auth @ ?tail))"
    unfolding bs using wf by (intro scan_scheme_build) auto
  have len: "length ?bs < SIZE_MAX" "length sch < SIZE_MAX" "length h < SIZE_MAX" "length ?tail < SIZE_MAX"
    using wf by (auto simp: url_build_def)
  have clean: "\<forall>c \<in> set ?auth. \<not> authority_end c"
    using wf dec_digits digit_not_delim by (auto simp: opt_text_def authority_end_def split: option.splits)
  have stop: "?tail = [] \<or> authority_end (hd ?tail)"
    using wf by (cases pth; cases q; cases f) (auto simp: opt_text_def authority_end_def)
  have tw: "takeWhile (\<lambda>c. \<not> authority_end c) (?auth @ ?tail) = ?auth"
    "dropWhile (\<lambda>c. \<not> authority_end c) (?auth @ ?tail) = ?tail"
    using clean stop by (cases ?tail; simp add: takeWhile_append2 dropWhile_append2)+
  define s0 where "s0 = url_begin ?bs sch ?auth a"
  define s1 where "s1 = url_authority ?auth s0"
  define s2 where "s2 = url_tail ?tail s1"
  have parts: "url_parts ?bs sch (?auth @ ?tail) a = s2"
    unfolding url_parts_def Let_def tw s0_def s1_def s2_def ..
  let ?t = "url_step (\<lambda>v u. u\<lparr>original := v\<rparr>) ?bs (sc_status_ok, sc_url_init, a)"
  have t: "step_ok ?t" "generous (step_heap ?t)"
    using url_step_generous [of "(sc_status_ok, sc_url_init, a)"] assms(1) len(1) by auto
  have s0: "s0 = url_step (\<lambda>v u. u\<lparr>scheme := v\<rparr>) sch ?t"
    using wf by (simp add: s0_def url_begin_def Let_def)
  have ok0: "step_ok s0" "generous (step_heap s0)"
    unfolding s0 using url_step_generous [OF t len(2)] by blast+
  have u0: "step_url s0 = sc_url_init\<lparr>original := opt_part ?bs, scheme := Some sch\<rparr>"
    using url_step_ok [of "\<lambda>v u. u\<lparr>scheme := v\<rparr>", OF ok0(1) [unfolded s0]]
      url_step_ok [OF t(1)] wf by (simp add: s0 opt_part_def)
  note a1 = authority_generous [OF ok0, of h p, folded s1_def]
  have ok1: "step_ok s1" "generous (step_heap s1)" "host (step_url s1) = Some (map to_lower h)"
    "port (step_url s1) = (case p of None \<Rightarrow> 0 | Some n \<Rightarrow> n)" "has_port (step_url s1) = (p \<noteq> None)"
    using a1 wf len(3) u0 by (auto simp: sc_url_init_def split: option.splits)
  have u1: "scheme (step_url s1) = Some sch" "url_query (step_url s1) = None" "fragment (step_url s1) = None"
    by (simp_all add: s1_def authority_frame u0 sc_url_init_def)
  have cred: "\<not> sc_url_has_credentials (step_url s1)"
  proof -
    have "CHR ''@'' \<notin> set ?auth" using wf dec_digits digit_not_delim
      by (auto simp: opt_text_def split: option.splits)
    then show ?thesis
      using authority_ok [OF ok1(1) [unfolded s1_def], folded s1_def] u0
      by (fastforce simp: sc_url_init_def split: option.splits)
  qed
  have q: "q = Some t \<Longrightarrow> CHR ''#'' \<notin> set t" for t using wf by auto
  note a2 = tail_generous [OF ok1(1,2), of pth q f, OF _ _ _ q len(4), folded s2_def]
  have ok2: "step_ok s2" "sch \<noteq> []" "?bs \<noteq> []" using a2(1) wf bs by auto
  have "sc_url_parse (Str ?bs) a =
      (case url_parts ?bs sch (?auth @ ?tail) a of (st, u, a') \<Rightarrow>
        (if \<not> sc_status_is_ok st then (Inl st, snd (sc_url_clear u a')) else (Inr u, a')))"
    using ok2(2,3) by (simp add: sc_url_parse_def scan)
  then have "sc_url_parse (Str ?bs) a = (Inr (step_url s2), step_heap s2)"
    unfolding parts using ok2(1) by (simp split: prod.splits)
  moreover have "\<not> sc_url_has_credentials (step_url s2)"
    using cred by (simp add: s2_def sc_url_has_credentials_def)
  ultimately show ?thesis
    using a2(2-6) u1 ok1(3-5) wf by (auto simp: s2_def split: option.splits)
qed

end
