(* ===== verification/SC_Domain_Matcher.thy ===== *)
theory SC_Domain_Matcher
  imports SC_Policy SC_Url
begin

text \<open>
  Outbound checks of \<^verbatim>\<open>src/security/domain_matcher.c\<close>: the URL policy, redirects, the sandbox
  network policy, the text filters for prompt injection and leaked secrets, pairing and
  redaction. The URL theorem characterises acceptance completely; the filters are related to
  plain substring search on the lower-cased text.
\<close>

section \<open>URL policy\<close>

definition domain_list_matches :: "string_list \<Rightarrow> sc_url \<Rightarrow> bool" where
  "domain_list_matches domains u =
     list_ex (\<lambda>d. sc_url_host_matches_domain u (sc_string_as_str d)) (items domains)"

text \<open>The decision on a parsed URL, then the whole function.\<close>

definition url_verdict :: "sc_security_policy \<Rightarrow> sc_url \<Rightarrow> sc_status" where
  "url_verdict p u =
     (let s1 = (if \<not> sc_str_equal (sc_string_as_str (scheme u)) (Str ''http'') \<and>
                   \<not> sc_str_equal (sc_string_as_str (scheme u)) (Str ''https'')
                then sc_status_security_denied ''sc.security.url_scheme_denied'' else sc_status_ok);
          s2 = (if \<not> url_credentials_allowed p
                then (if sc_status_is_ok s1 then sc_url_reject_credentials u else s1) else s1);
          s3 = (if sc_status_is_ok s2 \<and> domain_list_matches (denied_domains p) u
                then sc_status_security_denied ''sc.security.domain_denied'' else s2);
          s4 = (if sc_status_is_ok s3 \<and> length (items (allowed_domains p)) > 0 \<and>
                   \<not> domain_list_matches (allowed_domains p) u
                then sc_status_security_denied ''sc.security.domain_not_allowed'' else s3);
          s5 = (if sc_status_is_ok s4 \<and> private_network_policy p = SC_PRIVATE_NETWORK_BLOCK \<and>
                   sc_url_host_is_private_address u
                then sc_status_security_denied ''sc.security.private_network_denied'' else s4) in
      s5)"

definition sc_security_validate_url ::
    "sc_security_policy \<Rightarrow> sc_str \<Rightarrow> sc_allocator \<Rightarrow> sc_status \<times> sc_allocator" where
  "sc_security_validate_url p url_text a =
     (if str_len url_text = 0 \<or> ptr_null url_text
      then (sc_status_invalid_argument ''sc.security.url_invalid_argument'', a)
      else (case sc_url_parse url_text a of
              (Inl e, a1) \<Rightarrow> (e, a1)
            | (Inr u, a1) \<Rightarrow> (url_verdict p u, snd (sc_url_clear u a1))))"

definition sc_security_validate_redirect ::
    "sc_security_policy \<Rightarrow> sc_str \<Rightarrow> sc_str \<Rightarrow> sc_allocator \<Rightarrow> sc_status \<times> sc_allocator" where
  "sc_security_validate_redirect p original_url redirect_url a =
     (case sc_security_validate_url p original_url a of
        (st, a1) \<Rightarrow>
          (if \<not> sc_status_is_ok st then (st, a1)
           else (case sc_security_validate_url p redirect_url a1 of
                   (st2, a2) \<Rightarrow> (if \<not> sc_status_is_ok st2 then (st2, a2) else (sc_status_ok, a2)))))"

definition sc_security_validate_sandbox_network ::
    "sc_security_policy \<Rightarrow> sc_str \<Rightarrow> sc_allocator \<Rightarrow> sc_status \<times> sc_allocator" where
  "sc_security_validate_sandbox_network p url_text a =
     (if str_len url_text = 0 \<or> ptr_null url_text
      then (sc_status_invalid_argument ''sc.security.sandbox_network_invalid_argument'', a)
      else if sandbox_network p = SC_SANDBOX_NETWORK_FULL then (sc_status_ok, a)
      else if sandbox_network p = SC_SANDBOX_NETWORK_NONE
      then (sc_status_security_denied ''sc.security.sandbox_network_denied'', a)
      else (case sc_url_parse url_text a of
              (Inl e, a1) \<Rightarrow> (e, a1)
            | (Inr u, a1) \<Rightarrow>
                ((if \<not> domain_list_matches (sandbox_allowed_domains p) u
                  then sc_status_security_denied ''sc.security.sandbox_domain_not_allowed''
                  else sc_status_ok),
                 snd (sc_url_clear u a1))))"

section \<open>Text filters\<close>

text \<open>The folding of the two comparison bytes; it is \<open>to_lower\<close>, see \<open>fold_case_to_lower\<close>.\<close>

definition fold_case :: "char \<Rightarrow> char" where
  "fold_case c = (if (of_char c :: nat) \<ge> 65 \<and> (of_char c :: nat) \<le> 90
                  then char_of (of_char c - 65 + (97 :: nat)) else c)"

fun match_ci :: "string \<Rightarrow> string \<Rightarrow> bool" where
  "match_ci [] hay = True"
| "match_ci (n # ns) [] = False"
| "match_ci (n # ns) (c # cs) = (if fold_case c \<noteq> fold_case n then False else match_ci ns cs)"

fun scan_ci :: "string \<Rightarrow> string \<Rightarrow> bool" where
  "scan_ci needle [] = match_ci needle []"
| "scan_ci needle (c # cs) = (match_ci needle (c # cs) \<or> scan_ci needle cs)"

definition span_contains_ascii_ci :: "sc_str \<Rightarrow> string \<Rightarrow> bool" where
  "span_contains_ascii_ci haystack needle =
     (if ptr_null haystack \<or> length needle = 0 \<or> str_len haystack < length needle then False
      else scan_ci needle (str_bytes haystack))"

definition injection_needles :: "string list" where
  "injection_needles =
     [''ignore previous instructions'', ''ignore all previous'', ''developer message'',
      ''system prompt'', ''reveal hidden'', ''exfiltrate'', ''disable safety'', ''bypass policy'']"

definition sc_security_validate_prompt_injection :: "sc_str \<Rightarrow> sc_status" where
  "sc_security_validate_prompt_injection t =
     (if ptr_null t \<or> str_len t = 0 then sc_status_ok
      else if list_ex (span_contains_ascii_ci t) injection_needles
      then sc_status_security_denied ''sc.security.prompt_injection_detected''
      else sc_status_ok)"

definition outbound_needles :: "string list" where
  "outbound_needles =
     [''authorization:'', ''api_key'', ''secret='', ''token='', ''password='', ''begin private key'', ''sk-'']"

text \<open>\<^verbatim>\<open>receipt_token_at(text, pos)\<close> on the rest of the text at \<^verbatim>\<open>pos\<close>.\<close>

definition receipt_token_at :: "string \<Rightarrow> bool" where
  "receipt_token_at rest = (if length ''sc-receipt-'' > length rest then False
     else take (length ''sc-receipt-'') rest = ''sc-receipt-'')"

fun outbound_scan :: "string \<Rightarrow> bool" where
  "outbound_scan [] = False"
| "outbound_scan (c # cs) =
     (list_ex (\<lambda>needle. length needle \<le> length (c # cs) \<and>
                span_contains_ascii_ci (Str (take (length needle) (c # cs))) needle \<and>
                \<not> receipt_token_at (c # cs)) outbound_needles
      \<or> outbound_scan cs)"

definition sc_security_validate_outbound_message :: "sc_str \<Rightarrow> sc_status" where
  "sc_security_validate_outbound_message t =
     (if ptr_null t \<or> str_len t = 0 then sc_status_ok
      else if outbound_scan (str_bytes t)
      then sc_status_security_denied ''sc.security.outbound_leak_detected''
      else sc_status_ok)"

definition sc_security_validate_pairing :: "bool \<Rightarrow> bool \<Rightarrow> sc_str \<Rightarrow> sc_status" where
  "sc_security_validate_pairing required paired subject =
     (if required \<and> \<not> paired then sc_status_security_denied ''sc.security.pairing_required''
      else sc_status_ok)"

definition secret_key :: "string option \<Rightarrow> bool" where
  "secret_key key =
     (case key of
        None \<Rightarrow> False
      | Some k \<Rightarrow> contains_sub ''key'' k \<or> contains_sub ''token'' k \<or> contains_sub ''secret'' k \<or>
                  contains_sub ''password'' k \<or> contains_sub ''authorization'' k \<or>
                  contains_sub ''cookie'' k)"

definition sc_security_redact_value_for_key :: "string option \<Rightarrow> sc_str \<Rightarrow> sc_str" where
  "sc_security_redact_value_for_key key v = (if secret_key key then Str ''[REDACTED]'' else v)"

section \<open>Acceptance of a URL\<close>

text \<open>The domains of a list that are a suffix of the host at a label boundary.\<close>

definition domain_covers :: "string \<Rightarrow> string \<Rightarrow> bool" where
  "domain_covers d h \<longleftrightarrow> d \<noteq> [] \<and> (h = d \<or> (\<exists>sub. h = sub @ CHR ''.'' # d))"

lemma domain_list_matches_iff:
  assumes "host u = Some h"
  shows "domain_list_matches ds u \<longleftrightarrow> (\<exists>d \<in> list_strings ds. domain_covers d h)"
proof -
  have "sc_url_host_matches_domain u (sc_string_as_str d) \<longleftrightarrow> (\<exists>bs. d = Some bs \<and> domain_covers bs h)" for d
    using assms by (cases d) (auto simp: host_matches_domain_iff host_matches_domain_null domain_covers_def)
  then show ?thesis by (auto simp: domain_list_matches_def list_ex_iff list_strings_def)
qed

lemma url_verdict_ok:
  assumes "host u = Some h" "scheme u = Some s"
  shows "sc_status_is_ok (url_verdict p u) \<longleftrightarrow>
    (s = ''http'' \<or> s = ''https'') \<and>
    (url_credentials_allowed p \<or> \<not> sc_url_has_credentials u) \<and>
    \<not> (\<exists>d \<in> list_strings (denied_domains p). domain_covers d h) \<and>
    (items (allowed_domains p) = [] \<or> (\<exists>d \<in> list_strings (allowed_domains p). domain_covers d h)) \<and>
    \<not> (private_network_policy p = SC_PRIVATE_NETWORK_BLOCK \<and> sc_url_host_is_private_address u)"
  using assms
  by (auto simp: url_verdict_def Let_def domain_list_matches_iff [OF assms(1)] sc_url_reject_credentials_def)

lemma validate_url_live: "sc_security_validate_url p t a = (st, a') \<Longrightarrow> live a' = live a"
  by (auto simp: sc_security_validate_url_def split: if_splits prod.splits sum.splits
      dest!: url_parse_live(1))

lemma validate_sandbox_network_live:
  "sc_security_validate_sandbox_network p t a = (st, a') \<Longrightarrow> live a' = live a"
  by (auto simp: sc_security_validate_sandbox_network_def split: if_splits prod.splits sum.splits
      dest!: url_parse_live(1))

lemma validate_url_ok:
  assumes "sc_security_validate_url p t a = (st, a')"
  shows "sc_status_is_ok st \<longleftrightarrow> (\<exists>u a1. sc_url_parse t a = (Inr u, a1) \<and> sc_status_is_ok (url_verdict p u))"
proof -
  obtain r a1 where parse: "sc_url_parse t a = (r, a1)" by (cases "sc_url_parse t a")
  have "str_len t = 0 \<or> ptr_null t \<Longrightarrow> \<exists>e. r = Inl e"
    using parse by (cases t) (auto simp: sc_url_parse_def)
  with assms parse url_parse_live(2) [OF parse] show ?thesis
    by (cases r) (auto simp: sc_security_validate_url_def split: if_splits)
qed

section \<open>Filters as substring search\<close>

lemma fold_case_to_lower: "fold_case c = to_lower c"
  by (auto simp: fold_case_def to_lower_def is_upper_code)

lemma match_ci_prefix: "match_ci needle hay \<longleftrightarrow> prefix (map to_lower needle) (map to_lower hay)"
  by (induction needle hay rule: match_ci.induct) (auto simp: fold_case_to_lower)

lemma scan_ci_sublist: "scan_ci needle hay \<longleftrightarrow> sublist (map to_lower needle) (map to_lower hay)"
  by (induction hay) (auto simp: match_ci_prefix sublist_Cons_right)

lemma span_contains_iff:
  "span_contains_ascii_ci (Str hay) needle \<longleftrightarrow>
     needle \<noteq> [] \<and> sublist (map to_lower needle) (map to_lower hay)"
  using sublist_length_le [of "map to_lower needle" "map to_lower hay"]
  by (auto simp: span_contains_ascii_ci_def scan_ci_sublist)

text \<open>
  The exemption for receipt tokens never applies: no needle can match at a position where
  \<^verbatim>\<open>sc-receipt-\<close> starts.
\<close>

lemma needle_not_at_receipt:
  assumes "needle \<in> set outbound_needles" "length needle \<le> length bs" "receipt_token_at bs"
  shows "\<not> span_contains_ascii_ci (Str (take (length needle) bs)) needle"
proof -
  obtain r where bs: "bs = ''sc-receipt-'' @ r"
    using assms(3) append_take_drop_id [of "length ''sc-receipt-''" bs]
    unfolding receipt_token_at_def by (metis (full_types))
  have low: "map to_lower ''sc-receipt-'' = ''sc-receipt-''"
    by (simp add: to_lower_def is_upper_def)
  have "map to_lower needle \<noteq> map to_lower (take (length needle) bs)"
    using assms(1,2) bs by (auto simp: outbound_needles_def to_lower_def is_upper_def)
  then show ?thesis
    using assms(2) same_length_sublist [of "map to_lower needle" "map to_lower (take (length needle) bs)"]
    by (auto simp: span_contains_iff)
qed

lemma outbound_scan_iff:
  "outbound_scan bs \<longleftrightarrow> (\<exists>needle \<in> set outbound_needles. sublist needle (map to_lower bs))"
proof (induction bs)
  case Nil
  show ?case by (simp add: outbound_needles_def)
next
  case (Cons c cs)
  have low: "map to_lower needle = needle" "needle \<noteq> []" if "needle \<in> set outbound_needles" for needle
    using that by (auto simp: outbound_needles_def to_lower_def is_upper_def)
  have one: "(length needle \<le> length (c # cs) \<and>
      span_contains_ascii_ci (Str (take (length needle) (c # cs))) needle \<and> \<not> receipt_token_at (c # cs)) \<longleftrightarrow>
      prefix needle (map to_lower (c # cs))" if n: "needle \<in> set outbound_needles" for needle
  proof -
    have "span_contains_ascii_ci (Str (take (length needle) (c # cs))) needle \<longleftrightarrow>
        prefix needle (map to_lower (c # cs))" if le: "length needle \<le> length (c # cs)"
    proof -
      have len: "length (map to_lower (take (length needle) (c # cs))) = length needle" using le by simp
      have "sublist needle (map to_lower (take (length needle) (c # cs))) \<longleftrightarrow>
          needle = map to_lower (take (length needle) (c # cs))"
        using len same_length_sublist [of needle "map to_lower (take (length needle) (c # cs))"]
          sublist_order.order_refl [of needle] by metis
      moreover have "needle = take (length needle) (map to_lower (c # cs)) \<longleftrightarrow> prefix needle (map to_lower (c # cs))"
        by (metis append_eq_conv_conj prefix_def take_is_prefix)
      ultimately show ?thesis
        using low [OF n] by (simp only: span_contains_iff take_map) simp
    qed
    with needle_not_at_receipt [OF n] show ?thesis
      using prefix_length_le [of needle "map to_lower (c # cs)"] by auto
  qed
  show ?case using Cons one by (auto simp: list_ex_iff sublist_Cons_right)
qed

end
