(* ===== verification/SC_Workspace.thy ===== *)
theory SC_Workspace
  imports SC_Policy SC_Url
begin

text \<open>
  The workspace boundary of \<^verbatim>\<open>src/security/workspace_boundary.c\<close>. The file system is a
  parameter: what \<^verbatim>\<open>realpath\<close>, \<^verbatim>\<open>getcwd\<close> and \<^verbatim>\<open>getenv("HOME")\<close> return, and which
  directories \<^verbatim>\<open>open\<close> and \<^verbatim>\<open>openat\<close> open without following links.

  The theorems: with the workspace-only policy every accepted path lies under the canonical
  workspace root; no accepted path lies under the canonical form of a denied path; no block
  and no file descriptor leaks.
\<close>

section \<open>The file system as the code sees it\<close>

datatype open_error = E_LOOP | E_NOTDIR | E_OTHER

record fs =
  realpath :: "string \<Rightarrow> string option"
  getcwd :: "string option"
  home_dir :: "string option"
  open_dir :: "string \<Rightarrow> nat option"
  openat_dir :: "nat \<Rightarrow> string \<Rightarrow> open_error + nat"

definition PATH_MAX :: nat where
  "PATH_MAX = 4096"

section \<open>Canonical paths\<close>

definition path_has_embedded_nul :: "sc_str \<Rightarrow> bool" where
  "path_has_embedded_nul p \<longleftrightarrow> \<not> ptr_null p \<and> CHR 0x00 \<in> set (str_bytes p)"

definition canonicalize_existing :: "fs \<Rightarrow> sc_str \<Rightarrow> sc_allocator \<Rightarrow> sc_string res \<times> sc_allocator" where
  "canonicalize_existing f p a =
     (if str_len p = 0 \<or> ptr_null p \<or> str_len p \<ge> PATH_MAX \<or> path_has_embedded_nul p
      then (Inl (sc_status_invalid_argument ''sc.security.path_invalid''), a)
      else (case realpath f (str_bytes p) of
              None \<Rightarrow> (Inl (sc_status_io ''sc.security.path_realpath_failed''), a)
            | Some r \<Rightarrow> sc_string_from_cstr (Some r) a))"

definition make_absolute :: "fs \<Rightarrow> sc_str \<Rightarrow> sc_allocator \<Rightarrow> sc_string res \<times> sc_allocator" where
  "make_absolute f p a =
     (if str_len p = 0 \<or> ptr_null p \<or> path_has_embedded_nul p
      then (Inl (sc_status_invalid_argument ''sc.security.path_invalid''), a)
      else (let bs = str_bytes p in
            (if hd bs = CHR ''/'' then sc_string_from_str p a
             else if hd bs = CHR ''~'' \<and> (length bs = 1 \<or> bs ! 1 = CHR ''/'')
             then (case home_dir f of
                     None \<Rightarrow> (Inl (sc_status_invalid_argument ''sc.security.path_invalid''), a)
                   | Some h \<Rightarrow>
                       (if h = [] then (Inl (sc_status_invalid_argument ''sc.security.path_invalid''), a)
                        else build_string (Str h # (if length bs > 1 then [Str (tl bs)] else [])) a))
             else (case getcwd f of
                     None \<Rightarrow> (Inl (sc_status_io ''sc.security.getcwd_failed''), a)
                   | Some cwd \<Rightarrow> build_string [Str cwd, Str ''/'', p] a))))"

text \<open>The split at the last slash; \<open>None\<close> when there is none or nothing follows it.\<close>

definition parent_leaf :: "string \<Rightarrow> (string \<times> string) option" where
  "parent_leaf bs =
     (case split_last (CHR ''/'') bs of
        None \<Rightarrow> None
      | Some (par, leaf) \<Rightarrow> (if leaf = [] then None else Some ((if par = [] then ''/'' else par), leaf)))"

definition parent_and_leaf :: "sc_str \<Rightarrow> sc_allocator \<Rightarrow> (sc_string \<times> string) res \<times> sc_allocator" where
  "parent_and_leaf p a =
     (case parent_leaf (str_bytes p) of
        None \<Rightarrow> (Inl (sc_status_invalid_argument ''sc.security.path_invalid''), a)
      | Some (par, leaf) \<Rightarrow>
          (case sc_string_from_str (Str par) a of
             (Inl e, a1) \<Rightarrow> (Inl e, a1)
           | (Inr s, a1) \<Rightarrow> (Inr (s, leaf), a1)))"

definition canonicalize_for_write :: "fs \<Rightarrow> sc_str \<Rightarrow> sc_allocator \<Rightarrow> sc_string res \<times> sc_allocator" where
  "canonicalize_for_write f p a =
     (case make_absolute f p a of
        (Inl e, a1) \<Rightarrow> (Inl e, a1)
      | (Inr absolute, a1) \<Rightarrow>
          (case parent_and_leaf (sc_string_as_str absolute) a1 of
             (Inl e, a2) \<Rightarrow> (Inl e, sc_string_clear absolute a2)
           | (Inr (parent, leaf), a2) \<Rightarrow>
               (case canonicalize_existing f (sc_string_as_str parent) a2 of
                  (Inl e, a3) \<Rightarrow> (Inl e, sc_string_clear parent (sc_string_clear absolute a3))
                | (Inr real_parent, a3) \<Rightarrow>
                    (case (if leaf = [] \<or> leaf = ''.'' \<or> leaf = ''..''
                           then (Inl (sc_status_security_denied ''sc.security.path_traversal''), a3)
                           else build_string [sc_string_as_str real_parent, Str ''/'', Str leaf] a3) of
                       (r, a4) \<Rightarrow>
                         (r, sc_string_clear real_parent (sc_string_clear parent (sc_string_clear absolute a4)))))))"

definition sc_workspace_resolve ::
    "fs \<Rightarrow> sc_security_policy \<Rightarrow> sc_str \<Rightarrow> bool \<Rightarrow> sc_allocator \<Rightarrow> sc_string res \<times> sc_allocator" where
  "sc_workspace_resolve f p input must_exist a =
     (if str_len input = 0 \<or> ptr_null input
      then (Inl (sc_status_invalid_argument ''sc.security.path_invalid_argument''), a)
      else (case (if workspace_only p \<or> string_len (workspace_root p) > 0
                  then canonicalize_existing f (sc_string_as_str (workspace_root p)) a
                  else (Inr None, a)) of
              (Inl e, a1) \<Rightarrow> (Inl e, a1)
            | (Inr root, a1) \<Rightarrow>
                (case (if must_exist then canonicalize_existing f input a1 else canonicalize_for_write f input a1) of
                   (Inl e, a2) \<Rightarrow> (Inl e, sc_string_clear root a2)
                 | (Inr resolved, a2) \<Rightarrow>
                     (if workspace_only p \<and>
                         \<not> sc_security_path_has_prefix (sc_string_as_str resolved) (sc_string_as_str root)
                      then (Inl (sc_status_security_denied ''sc.security.path_escape''),
                            sc_string_clear resolved (sc_string_clear root a2))
                      else (Inr resolved, sc_string_clear root a2)))))"

section \<open>Denied and allowed paths\<close>

text \<open>The two loops of \<^verbatim>\<open>sc_security_validate_path\<close>.\<close>

fun denied_loop :: "fs \<Rightarrow> sc_string list \<Rightarrow> sc_str \<Rightarrow> sc_allocator \<Rightarrow> sc_status \<times> sc_allocator" where
  "denied_loop f [] resolved a = (sc_status_ok, a)"
| "denied_loop f (item # rest) resolved a =
     (case canonicalize_for_write f (sc_string_as_str item) a of
        (Inl e, a1) \<Rightarrow> (e, a1)
      | (Inr denied, a1) \<Rightarrow>
          (if sc_security_path_has_prefix resolved (sc_string_as_str denied)
           then (sc_status_security_denied ''sc.security.path_denied'', sc_string_clear denied a1)
           else denied_loop f rest resolved (sc_string_clear denied a1)))"

fun allowed_loop ::
    "fs \<Rightarrow> sc_string list \<Rightarrow> sc_str \<Rightarrow> bool \<Rightarrow> sc_allocator \<Rightarrow> (sc_status \<times> bool) \<times> sc_allocator" where
  "allowed_loop f [] resolved allowed a = ((sc_status_ok, allowed), a)"
| "allowed_loop f (item # rest) resolved allowed a =
     (case canonicalize_for_write f (sc_string_as_str item) a of
        (Inl e, a1) \<Rightarrow> ((e, allowed), a1)
      | (Inr ap, a1) \<Rightarrow>
          allowed_loop f rest resolved
            (allowed \<or> sc_security_path_has_prefix resolved (sc_string_as_str ap)) (sc_string_clear ap a1))"

definition sc_security_validate_path ::
    "fs \<Rightarrow> sc_security_policy \<Rightarrow> sc_str \<Rightarrow> bool \<Rightarrow> sc_allocator \<Rightarrow> sc_status \<times> sc_allocator" where
  "sc_security_validate_path f p input must_exist a =
     (case sc_workspace_resolve f p input must_exist a of
        (Inl e, a1) \<Rightarrow> (e, a1)
      | (Inr resolved, a1) \<Rightarrow>
          (case denied_loop f (items (denied_paths p)) (sc_string_as_str resolved) a1 of
             (st, a2) \<Rightarrow>
               (if \<not> sc_status_is_ok st then (st, sc_string_clear resolved a2)
                else if length (items (allowed_paths p)) > 0
                then (case allowed_loop f (items (allowed_paths p)) (sc_string_as_str resolved) False a2 of
                        ((st2, allowed), a3) \<Rightarrow>
                          (if \<not> sc_status_is_ok st2 then (st2, sc_string_clear resolved a3)
                           else ((if \<not> allowed then sc_status_security_denied ''sc.security.path_not_allowed''
                                  else st2), sc_string_clear resolved a3)))
                else (st, sc_string_clear resolved a2))))"

section \<open>Opening the parent directory\<close>

text \<open>
  The descent through the segments of the relative path; \<open>fds\<close> counts the open descriptors.
  The list holds the bytes before the leaf, each segment ended by a slash.
\<close>

function open_segments ::
    "fs \<Rightarrow> nat \<Rightarrow> string \<Rightarrow> int \<Rightarrow> (sc_status + nat) \<times> int" where
  "open_segments f fd [] fds = (Inr fd, fds)"
| "open_segments f fd (c # cs) fds =
     (let segment = takeWhile (\<lambda>x. x \<noteq> CHR ''/'') (c # cs) in
      (if length segment = 0 \<or> length segment > 255
       then (Inl (sc_status_security_denied ''sc.security.path_escape''), fds - 1)
       else (case openat_dir f fd (takeWhile (\<lambda>x. x \<noteq> CHR 0x00) segment) of
               Inl err \<Rightarrow>
                 (Inl (if err = E_LOOP \<or> err = E_NOTDIR
                       then sc_status_security_denied ''sc.security.path_escape''
                       else sc_status_io ''sc.security.path_open_failed''), fds - 1)
             | Inr fd' \<Rightarrow> open_segments f fd' (drop (length segment + 1) (c # cs)) fds)))"
  by pat_completeness auto
termination
  by (relation "measure (\<lambda>(f, fd, bs, fds). length bs)") auto

definition relative_leaf :: "string \<Rightarrow> string \<times> string" where
  "relative_leaf rel =
     (case split_last (CHR ''/'') rel of None \<Rightarrow> ([], rel) | Some (d, leaf) \<Rightarrow> (d @ ''/'', leaf))"

definition sc_workspace_open_parent ::
    "fs \<Rightarrow> sc_security_policy \<Rightarrow> sc_str \<Rightarrow> sc_allocator \<Rightarrow> int \<Rightarrow>
       (nat \<times> sc_string) res \<times> sc_allocator \<times> int" where
  "sc_workspace_open_parent f p input a fds =
     (case sc_security_validate_path f p input False a of
        (st, a0) \<Rightarrow>
          (if \<not> sc_status_is_ok st then (Inl st, a0, fds)
           else (case sc_workspace_resolve f p input False a0 of
                   (Inl e, a1) \<Rightarrow> (Inl e, a1, fds)
                 | (Inr resolved, a1) \<Rightarrow>
                     (case (if workspace_only p then canonicalize_existing f (sc_string_as_str (workspace_root p)) a1
                            else sc_string_from_cstr (Some ''/'') a1) of
                        (Inl e, a2) \<Rightarrow> (Inl e, sc_string_clear resolved a2, fds)
                      | (Inr root, a2) \<Rightarrow>
                          (let rb = str_bytes (sc_string_as_str root);
                               sb = str_bytes (sc_string_as_str resolved);
                               offset = (if rb = ''/'' then 1 else length rb + 1);
                               cleanup = (\<lambda>h. sc_string_clear resolved (sc_string_clear root h)) in
                           (if \<not> sc_security_path_has_prefix (sc_string_as_str resolved) (sc_string_as_str root) \<or>
                               length sb \<le> offset
                            then (Inl (sc_status_security_denied ''sc.security.path_escape''), cleanup a2, fds)
                            else (let (dirs, leaf) = relative_leaf (drop offset sb) in
                                  (case sc_string_from_str (Str leaf) a2 of
                                     (Inl e, a3) \<Rightarrow> (Inl e, cleanup a3, fds)
                                   | (Inr out_leaf, a3) \<Rightarrow>
                                       (case open_dir f rb of
                                          None \<Rightarrow> (Inl (sc_status_io ''sc.security.workspace_open_failed''),
                                                   cleanup (sc_string_clear out_leaf a3), fds)
                                        | Some fd \<Rightarrow>
                                            (case open_segments f fd dirs (fds + 1) of
                                               (Inl e, fds') \<Rightarrow>
                                                 (Inl e, cleanup (sc_string_clear out_leaf a3), fds')
                                             | (Inr fd', fds') \<Rightarrow>
                                                 (Inr (fd', out_leaf), cleanup a3, fds')))))))))))"

section \<open>Canonical paths and their blocks\<close>

lemma canonicalize_existing_spec:
  assumes "canonicalize_existing f p a = (r, a')"
  shows "r = Inl e \<Longrightarrow> \<not> sc_status_is_ok e \<and> live a' = live a"
    and "r = Inr s \<Longrightarrow> \<exists>bs c. p = Str bs \<and> realpath f bs = Some c \<and>
      s = Some (takeWhile (\<lambda>x. x \<noteq> CHR 0x00) c) \<and> live a' = live a + 1"
  using assms
  by (cases p; auto simp: canonicalize_existing_def sc_string_from_cstr_def sc_str_from_cstr_def
      split: if_splits option.splits dest: string_from_str_Inl string_from_str_Inr)+

lemma make_absolute_spec:
  assumes "make_absolute f p a = (r, a')"
  shows "r = Inl e \<Longrightarrow> \<not> sc_status_is_ok e \<and> live a' = live a"
    and "r = Inr s \<Longrightarrow> s \<noteq> None \<and> live a' = live a + 1"
  using assms
  by (auto simp: make_absolute_def Let_def split: if_splits option.splits
      dest: string_from_str_Inl string_from_str_Inr build_string_spec)

lemma parent_and_leaf_spec:
  assumes "parent_and_leaf p a = (r, a')"
  shows "r = Inl e \<Longrightarrow> \<not> sc_status_is_ok e \<and> live a' = live a"
    and "r = Inr (s, leaf) \<Longrightarrow> leaf \<noteq> [] \<and> CHR ''/'' \<notin> set leaf \<and> s \<noteq> None \<and> live a' = live a + 1"
  using assms
  by (auto simp: parent_and_leaf_def parent_leaf_def split: option.splits prod.splits sum.splits if_splits
      dest: string_from_str_Inl string_from_str_Inr split_last_Some)

lemma canonicalize_for_write_spec:
  assumes "canonicalize_for_write f p a = (r, a')"
  shows "(\<forall>e. r = Inl e \<longrightarrow> \<not> sc_status_is_ok e \<and> live a' = live a) \<and>
    (\<forall>s. r = Inr s \<longrightarrow> live a' = live a + 1 \<and>
       (\<exists>par c leaf. realpath f par = Some c \<and> leaf \<noteq> [] \<and> leaf \<noteq> ''.'' \<and> leaf \<noteq> ''..'' \<and>
          CHR ''/'' \<notin> set leaf \<and> s = Some (takeWhile (\<lambda>x. x \<noteq> CHR 0x00) c @ ''/'' @ leaf)))"
proof -
  obtain r1 a1 where one: "make_absolute f p a = (r1, a1)" by (cases "make_absolute f p a")
  show ?thesis
  proof (cases r1)
    case (Inl e)
    with assms one make_absolute_spec(1) [OF one] show ?thesis
      by (auto simp: canonicalize_for_write_def)
  next
    case (Inr absolute)
    note ab = make_absolute_spec(2) [OF one Inr]
    obtain r2 a2 where two: "parent_and_leaf (sc_string_as_str absolute) a1 = (r2, a2)"
      by (cases "parent_and_leaf (sc_string_as_str absolute) a1")
    show ?thesis
    proof (cases r2)
      case (Inl e)
      with assms one \<open>r1 = Inr absolute\<close> two ab parent_and_leaf_spec(1) [OF two] show ?thesis
        by (auto simp: canonicalize_for_write_def)
    next
      case pl: (Inr pl)
      obtain parent leaf where pl': "pl = (parent, leaf)" by (cases pl)
      note pls = parent_and_leaf_spec(2) [OF two pl [unfolded pl']]
      obtain r3 a3 where three: "canonicalize_existing f (sc_string_as_str parent) a2 = (r3, a3)"
        by (cases "canonicalize_existing f (sc_string_as_str parent) a2")
      show ?thesis
      proof (cases r3)
        case (Inl e)
        with assms one Inr two pl pl' three ab pls canonicalize_existing_spec(1) [OF three]
        show ?thesis by (auto simp: canonicalize_for_write_def)
      next
        case rp: (Inr rp)
        from canonicalize_existing_spec(2) [OF three rp] obtain par c where
          rps: "realpath f par = Some c" "rp = Some (takeWhile (\<lambda>x. x \<noteq> CHR 0x00) c)" "live a3 = live a2 + 1"
          by blast
        show ?thesis
        proof (cases "leaf = ''.'' \<or> leaf = ''..''")
          case True
          with assms one Inr two pl pl' three rp rps ab pls show ?thesis
            by (auto simp: canonicalize_for_write_def)
        next
          case False
          obtain r4 a4 where four: "build_string [sc_string_as_str rp, Str ''/'', Str leaf] a3 = (r4, a4)"
            by (cases "build_string [sc_string_as_str rp, Str ''/'', Str leaf] a3")
          have "r = r4" "a' = sc_string_clear rp (sc_string_clear parent (sc_string_clear absolute a4))"
            using assms one Inr two pl pl' three rp four False pls
            by (auto simp: canonicalize_for_write_def)
          moreover have "string_blocks rp = 1" "string_blocks parent = 1" "string_blocks absolute = 1"
            using rps ab pls by (auto simp: string_blocks_def)
          ultimately show ?thesis
            using build_string_spec [OF four] rps ab pls False by auto
        qed
      qed
    qed
  qed
qed

section \<open>The canonical path, without the allocator\<close>

abbreviation cstring :: "string \<Rightarrow> string" where
  "cstring s \<equiv> takeWhile (\<lambda>x. x \<noteq> CHR 0x00) s"

definition canon_existing :: "fs \<Rightarrow> string \<Rightarrow> string option" where
  "canon_existing f bs =
     (if bs = [] \<or> length bs \<ge> PATH_MAX \<or> CHR 0x00 \<in> set bs then None
      else map_option cstring (realpath f bs))"

definition absolute_path :: "fs \<Rightarrow> string \<Rightarrow> string option" where
  "absolute_path f bs =
     (if bs = [] \<or> CHR 0x00 \<in> set bs then None
      else if hd bs = CHR ''/'' then Some bs
      else if hd bs = CHR ''~'' \<and> (length bs = 1 \<or> bs ! 1 = CHR ''/'')
      then (case home_dir f of None \<Rightarrow> None | Some h \<Rightarrow> (if h = [] then None else Some (h @ tl bs)))
      else map_option (\<lambda>cwd. cwd @ ''/'' @ bs) (getcwd f))"

definition canon_write :: "fs \<Rightarrow> string \<Rightarrow> string option" where
  "canon_write f bs =
     (case absolute_path f bs of
        None \<Rightarrow> None
      | Some full \<Rightarrow>
          (case parent_leaf full of
             None \<Rightarrow> None
           | Some (par, leaf) \<Rightarrow>
               (if leaf = ''.'' \<or> leaf = ''..'' then None
                else map_option (\<lambda>c. c @ ''/'' @ leaf) (canon_existing f par))))"

lemma canonicalize_existing_canon:
  "canonicalize_existing f (sc_string_as_str t) a = (Inr s, a') \<Longrightarrow> \<exists>bs. t = Some bs \<and> s = canon_existing f bs \<and> s \<noteq> None"
  "canonicalize_existing f (Str bs) a = (Inr s, a') \<Longrightarrow> s = canon_existing f bs \<and> s \<noteq> None"
  by (cases t; auto simp: canonicalize_existing_def canon_existing_def path_has_embedded_nul_def
      sc_string_from_cstr_def sc_str_from_cstr_def split: if_splits option.splits dest!: string_from_str_Inr)+

lemma make_absolute_canon:
  "make_absolute f (Str bs) a = (Inr s, a') \<Longrightarrow> s = absolute_path f bs \<and> s \<noteq> None"
  by (auto simp: make_absolute_def absolute_path_def path_has_embedded_nul_def Let_def
      split: if_splits option.splits dest!: string_from_str_Inr build_string_spec)
    (case_tac bs; simp)+

lemma parent_and_leaf_canon:
  "parent_and_leaf (Str bs) a = (Inr (s, leaf), a') \<Longrightarrow> \<exists>par. parent_leaf bs = Some (par, leaf) \<and> s = Some par"
  by (auto simp: parent_and_leaf_def split: option.splits prod.splits sum.splits dest!: string_from_str_Inr)

lemma canonicalize_for_write_canon:
  assumes "canonicalize_for_write f (Str bs) a = (Inr s, a')"
  shows "s = canon_write f bs \<and> s \<noteq> None"
proof -
  from assms obtain full a1 where one: "make_absolute f (Str bs) a = (Inr full, a1)"
    by (auto simp: canonicalize_for_write_def split: prod.splits sum.splits)
  from make_absolute_canon [OF one] obtain t where t: "full = Some t" "absolute_path f bs = Some t" by auto
  with assms one obtain parent leaf a2 where two: "parent_and_leaf (Str t) a1 = (Inr (parent, leaf), a2)"
    by (auto simp: canonicalize_for_write_def split: prod.splits sum.splits)
  from parent_and_leaf_canon [OF two] obtain par where par: "parent_leaf t = Some (par, leaf)" "parent = Some par"
    by auto
  with assms one t two obtain rp a3 where three: "canonicalize_existing f (Str par) a2 = (Inr rp, a3)"
    by (auto simp: canonicalize_for_write_def split: prod.splits sum.splits)
  from canonicalize_existing_canon(2) [OF three] obtain c where c: "rp = Some c" "canon_existing f par = Some c"
    by auto
  have "leaf \<noteq> []" using par(1) by (auto simp: parent_leaf_def split: option.splits if_splits)
  with assms one t two par three c have four: "\<not> (leaf = ''.'' \<or> leaf = ''..'')"
    "\<exists>a4. build_string [Str c, Str ''/'', Str leaf] a3 = (Inr s, a4)"
    by (auto simp: canonicalize_for_write_def split: prod.splits if_splits)
  from four(2) have "s = Some (c @ ''/'' @ leaf)" by (auto dest: build_string_spec)
  with four(1) t par c show ?thesis by (simp add: canon_write_def)
qed

lemma canonicalize_for_write_item:
  assumes "canonicalize_for_write f (sc_string_as_str t) a = (Inr s, a')"
  shows "\<exists>bs. t = Some bs \<and> s = canon_write f bs \<and> s \<noteq> None"
proof (cases t)
  case None
  with assms show ?thesis by (simp add: canonicalize_for_write_def make_absolute_def)
next
  case (Some bs)
  with assms canonicalize_for_write_canon show ?thesis by auto
qed

section \<open>Accepted paths\<close>

definition under :: "string \<Rightarrow> string \<Rightarrow> bool" where
  "under p q \<longleftrightarrow> p = q \<or> (\<exists>r. p = q @ CHR ''/'' # r)"

lemma has_prefix_under: "sc_security_path_has_prefix (Str p) (Str q) = under p q"
  by (simp add: path_has_prefix_iff under_def)

definition canon_input :: "fs \<Rightarrow> bool \<Rightarrow> string \<Rightarrow> string option" where
  "canon_input f must_exist bs = (if must_exist then canon_existing f bs else canon_write f bs)"

lemma workspace_resolve_live:
  assumes "sc_workspace_resolve f p input must_exist a = (r, a')"
  shows "(\<forall>e. r = Inl e \<longrightarrow> \<not> sc_status_is_ok e \<and> live a' = live a) \<and>
    (\<forall>s. r = Inr s \<longrightarrow> s \<noteq> None \<and> live a' = live a + 1)"
proof (cases "str_len input = 0 \<or> ptr_null input")
  case True
  with assms show ?thesis by (auto simp: sc_workspace_resolve_def)
next
  case valid: False
  define g where "g = (if workspace_only p \<or> string_len (workspace_root p) > 0
    then canonicalize_existing f (sc_string_as_str (workspace_root p)) a else (Inr None, a))"
  obtain r1 a1 where one: "g = (r1, a1)" by (cases g)
  have g1: "r1 = Inl e \<Longrightarrow> \<not> sc_status_is_ok e \<and> live a1 = live a"
    "r1 = Inr root \<Longrightarrow> live a1 = live a + string_blocks root" for e root
    using one unfolding g_def by (auto split: if_splits dest: canonicalize_existing_spec)
  define h where "h = (if must_exist then canonicalize_existing f input a1 else canonicalize_for_write f input a1)"
  obtain r2 a2 where two: "h = (r2, a2)" by (cases h)
  have h2: "r2 = Inl e \<Longrightarrow> \<not> sc_status_is_ok e \<and> live a2 = live a1"
    "r2 = Inr s \<Longrightarrow> s \<noteq> None \<and> live a2 = live a1 + 1" for e s
    using two canonicalize_for_write_spec [of f input a1 r2 a2]
      canonicalize_existing_spec [of f input a1 r2 a2]
    by (cases must_exist; fastforce simp: h_def)+
  from assms valid one two g1 h2 show ?thesis
    unfolding sc_workspace_resolve_def g_def [symmetric]
    by (cases r1; cases r2) (auto simp: h_def string_blocks_def split: if_splits)
qed

lemma workspace_resolve_ok:
  assumes "sc_workspace_resolve f p (Str bs) must_exist a = (Inr s, a')"
  shows "\<exists>res. s = Some res \<and> canon_input f must_exist bs = Some res \<and>
    (workspace_only p \<longrightarrow> (\<exists>wr root. workspace_root p = Some wr \<and> canon_existing f wr = Some root \<and> under res root))"
proof -
  define g where "g = (if workspace_only p \<or> string_len (workspace_root p) > 0
    then canonicalize_existing f (sc_string_as_str (workspace_root p)) a else (Inr None, a))"
  from assms obtain root a1 where one: "g = (Inr root, a1)"
    by (auto simp: sc_workspace_resolve_def g_def [symmetric] split: prod.splits sum.splits if_splits)
  from assms one obtain a2 where two:
    "(if must_exist then canonicalize_existing f (Str bs) a1 else canonicalize_for_write f (Str bs) a1) = (Inr s, a2)"
    "workspace_only p \<longrightarrow> sc_security_path_has_prefix (sc_string_as_str s) (sc_string_as_str root)"
    by (auto simp: sc_workspace_resolve_def g_def [symmetric] split: prod.splits sum.splits if_splits)
  from two(1) obtain res where res: "s = Some res" "canon_input f must_exist bs = Some res"
    using canonicalize_existing_canon(2) [of f bs a1 s a2] canonicalize_for_write_canon [of f bs a1 s a2]
    by (cases must_exist) (auto simp: canon_input_def)
  have "\<exists>wr root. workspace_root p = Some wr \<and> canon_existing f wr = Some root \<and> under res root"
    if "workspace_only p"
  proof -
    from one that have "canonicalize_existing f (sc_string_as_str (workspace_root p)) a = (Inr root, a1)"
      by (simp add: g_def)
    from canonicalize_existing_canon(1) [OF this] obtain wr c where
      "workspace_root p = Some wr" "root = Some c" "canon_existing f wr = Some c" by force
    with two(2) that res show ?thesis by (auto simp: has_prefix_under)
  qed
  with res show ?thesis by blast
qed

lemma denied_loop_spec:
  "denied_loop f xs (Str res) a = (st, a') \<Longrightarrow> live a' = live a \<and>
     (sc_status_is_ok st \<longrightarrow> (\<forall>t \<in> set xs. \<exists>bs c. t = Some bs \<and> canon_write f bs = Some c \<and> \<not> under res c))"
proof (induction xs arbitrary: a)
  case (Cons t xs)
  obtain r a1 where one: "canonicalize_for_write f (sc_string_as_str t) a = (r, a1)"
    by (cases "canonicalize_for_write f (sc_string_as_str t) a")
  note sp = canonicalize_for_write_spec [OF one]
  show ?case
  proof (cases r)
    case (Inl e)
    with Cons.prems one sp show ?thesis by auto
  next
    case (Inr d)
    with canonicalize_for_write_item one obtain bs c where
      d: "t = Some bs" "d = Some c" "canon_write f bs = Some c" by fastforce
    with Cons.prems one Inr sp Cons.IH [of "sc_string_clear d a1"] show ?thesis
      by (auto simp: has_prefix_under split: if_splits)
  qed
qed simp

lemma allowed_loop_spec:
  "allowed_loop f xs (Str res) al a = ((st, al'), a') \<Longrightarrow> live a' = live a \<and>
     (al' \<longrightarrow> al \<or> (\<exists>bs c. Some bs \<in> set xs \<and> canon_write f bs = Some c \<and> under res c))"
proof (induction xs arbitrary: a al)
  case (Cons t xs)
  obtain r a1 where one: "canonicalize_for_write f (sc_string_as_str t) a = (r, a1)"
    by (cases "canonicalize_for_write f (sc_string_as_str t) a")
  note sp = canonicalize_for_write_spec [OF one]
  show ?case
  proof (cases r)
    case (Inl e)
    with Cons.prems one sp show ?thesis by auto
  next
    case (Inr d)
    with canonicalize_for_write_item one obtain bs c where
      d: "t = Some bs" "d = Some c" "canon_write f bs = Some c" by fastforce
    have "allowed_loop f xs (Str res) (al \<or> under res c) (sc_string_clear d a1) = ((st, al'), a')"
      using Cons.prems one Inr d by (simp add: has_prefix_under)
    from Cons.IH [OF this] sp Inr d show ?thesis by auto
  qed
qed simp

lemma validate_path_ok:
  assumes "sc_security_validate_path f p (Str bs) must_exist a = (st, a')" "sc_status_is_ok st"
  shows "\<exists>res. canon_input f must_exist bs = Some res \<and>
    (workspace_only p \<longrightarrow> (\<exists>wr root. workspace_root p = Some wr \<and> canon_existing f wr = Some root \<and> under res root)) \<and>
    (\<forall>d \<in> list_strings (denied_paths p). \<exists>c. canon_write f d = Some c \<and> \<not> under res c) \<and>
    (items (allowed_paths p) \<noteq> [] \<longrightarrow>
      (\<exists>d \<in> list_strings (allowed_paths p). \<exists>c. canon_write f d = Some c \<and> under res c))"
proof -
  obtain r a1 where one: "sc_workspace_resolve f p (Str bs) must_exist a = (r, a1)"
    by (cases "sc_workspace_resolve f p (Str bs) must_exist a")
  with assms workspace_resolve_live [OF one] obtain s where r: "r = Inr s"
    by (cases r) (auto simp: sc_security_validate_path_def)
  from workspace_resolve_ok [OF one [unfolded r]] obtain res where res: "s = Some res"
    "canon_input f must_exist bs = Some res"
    "workspace_only p \<longrightarrow> (\<exists>wr root. workspace_root p = Some wr \<and> canon_existing f wr = Some root \<and> under res root)"
    by blast
  obtain st1 a2 where two: "denied_loop f (items (denied_paths p)) (Str res) a1 = (st1, a2)"
    by (cases "denied_loop f (items (denied_paths p)) (Str res) a1")
  with assms one r res have ok1: "sc_status_is_ok st1"
    by (auto simp: sc_security_validate_path_def split: if_splits)
  have al: "\<exists>bs c. Some bs \<in> set (items (allowed_paths p)) \<and> canon_write f bs = Some c \<and> under res c"
    if "items (allowed_paths p) \<noteq> []"
  proof -
    obtain st2 al a3 where three: "allowed_loop f (items (allowed_paths p)) (Str res) False a2 = ((st2, al), a3)"
      by (cases "allowed_loop f (items (allowed_paths p)) (Str res) False a2") auto
    with assms one r res two ok1 that have al by (auto simp: sc_security_validate_path_def split: if_splits)
    with allowed_loop_spec [OF three] show ?thesis by blast
  qed
  from denied_loop_spec [OF two] ok1 al res show ?thesis
    by (auto simp: list_strings_def)
qed

lemma validate_path_live:
  assumes "sc_security_validate_path f p input must_exist a = (st, a')"
  shows "live a' = live a"
proof -
  obtain r a1 where one: "sc_workspace_resolve f p input must_exist a = (r, a1)"
    by (cases "sc_workspace_resolve f p input must_exist a")
  note sp = workspace_resolve_live [OF one]
  show ?thesis
  proof (cases r)
    case (Inl e)
    with assms one sp show ?thesis by (auto simp: sc_security_validate_path_def)
  next
    case (Inr s)
    with sp obtain res where s: "s = Some res" "live a1 = live a + 1" by auto
    obtain st1 a2 where two: "denied_loop f (items (denied_paths p)) (Str res) a1 = (st1, a2)"
      by (cases "denied_loop f (items (denied_paths p)) (Str res) a1")
    obtain st2 al a3 where three: "allowed_loop f (items (allowed_paths p)) (Str res) False a2 = ((st2, al), a3)"
      by (cases "allowed_loop f (items (allowed_paths p)) (Str res) False a2") auto
    have "live a2 = live a1" "live a3 = live a2"
      using denied_loop_spec [OF two] allowed_loop_spec [OF three] by auto
    with assms one Inr s two three show ?thesis
      by (auto simp: sc_security_validate_path_def split: if_splits)
  qed
qed

section \<open>Opening the parent: descriptors and blocks\<close>

lemma open_segments_fds:
  "open_segments f fd bs fds = (r, fds') \<Longrightarrow>
     (\<forall>e. r = Inl e \<longrightarrow> \<not> sc_status_is_ok e \<and> fds' = fds - 1) \<and> (\<forall>x. r = Inr x \<longrightarrow> fds' = fds)"
proof (induction f fd bs fds rule: open_segments.induct)
  case (2 f fd c cs fds)
  let ?seg = "takeWhile (\<lambda>x. x \<noteq> CHR ''/'') (c # cs)"
  show ?case
  proof (cases "length ?seg = 0 \<or> length ?seg > 255")
    case True
    with 2 show ?thesis by (auto simp: Let_def)
  next
    case False
    show ?thesis
    proof (cases "openat_dir f fd (takeWhile (\<lambda>x. x \<noteq> CHR 0x00) ?seg)")
      case (Inl err)
      with 2 False show ?thesis by (auto simp: Let_def split: if_splits)
    next
      case (Inr fd')
      from 2(2) False Inr have "open_segments f fd' (drop (length ?seg + 1) (c # cs)) fds = (r, fds')"
        unfolding open_segments.simps(2) Let_def by (simp only: if_False sum.case)
      from 2(1) [OF refl False Inr this] show ?thesis .
    qed
  qed
qed auto

lemma open_parent_spec:
  assumes "sc_workspace_open_parent f p input a fds = (r, a', fds')"
  shows "live a' = live a + (case r of Inl e \<Rightarrow> 0 | Inr x \<Rightarrow> 1) \<and>
    fds' = fds + (case r of Inl e \<Rightarrow> 0 | Inr x \<Rightarrow> 1)"
proof -
  obtain st a0 where v: "sc_security_validate_path f p input False a = (st, a0)"
    by (cases "sc_security_validate_path f p input False a")
  have l0: "live a0 = live a" using validate_path_live [OF v] .
  obtain r1 a1 where res: "sc_workspace_resolve f p input False a0 = (r1, a1)"
    by (cases "sc_workspace_resolve f p input False a0")
  note rs = workspace_resolve_live [OF res]
  define g where "g = (if workspace_only p then canonicalize_existing f (sc_string_as_str (workspace_root p)) a1
    else sc_string_from_cstr (Some ''/'') a1)"
  obtain r2 a2 where root: "g = (r2, a2)" by (cases g)
  have rt: "r2 = Inl e \<Longrightarrow> live a2 = live a1" "r2 = Inr s \<Longrightarrow> s \<noteq> None \<and> live a2 = live a1 + 1" for e s
  proof -
    have "(\<forall>e. r2 = Inl e \<longrightarrow> live a2 = live a1) \<and> (\<forall>s. r2 = Inr s \<longrightarrow> s \<noteq> None \<and> live a2 = live a1 + 1)"
    proof (cases "workspace_only p")
      case True
      then have "canonicalize_existing f (sc_string_as_str (workspace_root p)) a1 = (r2, a2)"
        using root by (simp add: g_def)
      from canonicalize_existing_spec [OF this] show ?thesis by blast
    next
      case False
      then have "sc_string_from_str (sc_str_from_cstr (Some ''/'')) a1 = (r2, a2)"
        using root by (simp add: g_def sc_string_from_cstr_def)
      then show ?thesis using string_from_str_Inl string_from_str_Inr by blast
    qed
    then show "r2 = Inl e \<Longrightarrow> live a2 = live a1" "r2 = Inr s \<Longrightarrow> s \<noteq> None \<and> live a2 = live a1 + 1" by auto
  qed
  have blk: "s \<noteq> None \<Longrightarrow> string_blocks s = 1" for s by (auto simp: string_blocks_def)
  show ?thesis
  proof (cases "sc_status_is_ok st \<and> (\<exists>resolved root. r1 = Inr resolved \<and> r2 = Inr root)")
    case False
    with assms v res root rs rt l0 blk show ?thesis
      unfolding sc_workspace_open_parent_def g_def [symmetric]
      by (cases r1; cases r2) (auto simp: g_def split: if_splits)
  next
    case True
    then obtain resolved rootp where ok: "sc_status_is_ok st" "r1 = Inr resolved" "r2 = Inr rootp" by blast
    define rb where "rb = str_bytes (sc_string_as_str rootp)"
    define sb where "sb = str_bytes (sc_string_as_str resolved)"
    define offset where "offset = (if rb = ''/'' then 1 else length rb + 1)"
    obtain dirs leaf where dl: "relative_leaf (drop offset sb) = (dirs, leaf)"
      by (cases "relative_leaf (drop offset sb)")
    obtain r3 a3 where lf: "sc_string_from_str (Str leaf) a2 = (r3, a3)"
      by (cases "sc_string_from_str (Str leaf) a2")
    have two: "live a2 = live a + 2" "string_blocks resolved = 1" "string_blocks rootp = 1"
      using rs rt ok l0 blk by auto
    have lfs: "r3 = Inl e \<Longrightarrow> live a3 = live a2" "r3 = Inr s \<Longrightarrow> live a3 = live a2 + 1 \<and> string_blocks s = 1" for e s
      using lf by (auto dest!: string_from_str_Inl string_from_str_Inr)
    note d = assms [unfolded sc_workspace_open_parent_def v res prod.case g_def [symmetric] ok(2) sum.case
        root ok(3) Let_def, folded rb_def sb_def, folded offset_def, unfolded dl lf prod.case]
    show ?thesis
      using d ok(1) two lfs
      by (auto split: if_splits sum.splits option.splits prod.splits dest!: open_segments_fds)
  qed
qed

section \<open>Top-level names\<close>

text \<open>
  The canonical form of a path directly under the root has two slashes: the parent \<^verbatim>\<open>/\<close> is
  followed by the separator. No canonical path of a deeper file starts that way.
\<close>

lemma canon_write_top:
  assumes "realpath f ''/'' = Some ''/''" "leaf \<noteq> []" "CHR ''/'' \<notin> set leaf" "CHR 0x00 \<notin> set leaf"
    "leaf \<noteq> ''.''" "leaf \<noteq> ''..''"
  shows "canon_write f (CHR ''/'' # leaf) = Some (''//'' @ leaf)"
proof -
  have "split_last (CHR ''/'') (CHR ''/'' # leaf) = Some ([], leaf)"
    using split_last_build [OF assms(3), of "[]"] by simp
  then have "parent_leaf (CHR ''/'' # leaf) = Some (''/'', leaf)"
    using assms(2) by (simp add: parent_leaf_def)
  moreover have "canon_existing f ''/'' = Some ''/''"
    using assms(1) by (simp add: canon_existing_def PATH_MAX_def)
  ultimately show ?thesis using assms by (simp add: canon_write_def absolute_path_def)
qed

lemma not_under_double: "c \<noteq> CHR ''/'' \<Longrightarrow> \<not> under (CHR ''/'' # c # r) (''//'' @ leaf)"
  by (auto simp: under_def)

end
