(* ===== verification/SC_Estop.thy ===== *)
theory SC_Estop
  imports SC_Policy SC_Time
begin

text \<open>
  The emergency stop of \<^verbatim>\<open>src/security/estop.c\<close> with its state file, and the approval
  messages of \<^verbatim>\<open>src/security/approval.c\<close>. Files are byte strings; whether opening, writing
  and closing succeed is a parameter. The theorems: tripping always stops, whatever the
  allocator does; the state survives being written and read for every reason of one line.
\<close>

section \<open>State\<close>

record sc_estop_state =
  estop_active :: bool
  estop_reason :: sc_string

definition sc_estop_init :: sc_estop_state where
  "sc_estop_init = \<lparr>estop_active = False, estop_reason = None\<rparr>"

definition sc_estop_trip ::
    "sc_estop_state \<Rightarrow> sc_str \<Rightarrow> sc_allocator \<Rightarrow> sc_status \<times> sc_estop_state \<times> sc_allocator" where
  "sc_estop_trip e reason a =
     (let a1 = sc_string_clear (estop_reason e) a;
          e1 = e\<lparr>estop_reason := None, estop_active := True\<rparr> in
      (case sc_string_from_str reason a1 of
         (Inl err, a2) \<Rightarrow> (err, e1, a2)
       | (Inr s, a2) \<Rightarrow> (sc_status_ok, e1\<lparr>estop_reason := s\<rparr>, a2)))"

definition sc_estop_reset :: "sc_estop_state \<Rightarrow> sc_allocator \<Rightarrow> sc_estop_state \<times> sc_allocator" where
  "sc_estop_reset e a =
     (e\<lparr>estop_active := False, estop_reason := None\<rparr>, sc_string_clear (estop_reason e) a)"

definition sc_estop_check :: "sc_estop_state option \<Rightarrow> sc_status" where
  "sc_estop_check e =
     (case e of
        None \<Rightarrow> sc_status_ok
      | Some s \<Rightarrow> (if estop_active s then sc_status_security_denied ''sc.estop.active'' else sc_status_ok))"

definition sc_estop_clear :: "sc_estop_state \<Rightarrow> sc_allocator \<Rightarrow> sc_estop_state \<times> sc_allocator" where
  "sc_estop_clear e a = (sc_estop_init, sc_string_clear (estop_reason e) a)"

section \<open>The state file\<close>

definition newline :: char where
  "newline = CHR 0x0A"

text \<open>\<^verbatim>\<open>fprintf(file, "active=%s\nreason=%s\n", ...)\<close>; \<^verbatim>\<open>%s\<close> stops at a NUL.\<close>

definition estop_text :: "sc_estop_state \<Rightarrow> string" where
  "estop_text e =
     ''active='' @ (if estop_active e then ''true'' else ''false'') @ [newline] @
     ''reason='' @ (case estop_reason e of None \<Rightarrow> [] | Some r \<Rightarrow> takeWhile (\<lambda>c. c \<noteq> CHR 0x00) r) @ [newline]"

definition valid_path_arg :: "sc_str \<Rightarrow> bool" where
  "valid_path_arg p \<longleftrightarrow> \<not> (str_len p = 0 \<or> ptr_null p \<or> str_len p \<ge> 4096)"

text \<open>The status, and the bytes that reached the file when the write was complete.\<close>

definition sc_estop_write_file ::
    "sc_estop_state \<Rightarrow> sc_str \<Rightarrow> bool \<Rightarrow> bool \<Rightarrow> bool \<Rightarrow> sc_status \<times> string option" where
  "sc_estop_write_file e p opened printed closed =
     (if \<not> valid_path_arg p then (sc_status_invalid_argument ''sc.estop.invalid_argument'', None)
      else if \<not> opened then (sc_status_io ''sc.estop.write_open_failed'', None)
      else if \<not> printed then (sc_status_io ''sc.estop.write_failed'', None)
      else if \<not> closed then (sc_status_io ''sc.estop.write_close_failed'', None)
      else (sc_status_ok, Some (estop_text e)))"

text \<open>\<^verbatim>\<open>fgets\<close> with a buffer of 512: at most 511 bytes, up to and with a newline.\<close>

fun fgets_chunk :: "nat \<Rightarrow> string \<Rightarrow> string \<times> string" where
  "fgets_chunk 0 s = ([], s)"
| "fgets_chunk (Suc n) [] = ([], [])"
| "fgets_chunk (Suc n) (c # cs) =
     (if c = newline then ([c], cs) else (case fgets_chunk n cs of (l, r) \<Rightarrow> (c # l, r)))"

lemma fgets_chunk_append: "fgets_chunk n s = (l, r) \<Longrightarrow> s = l @ r"
  by (induction n s arbitrary: l rule: fgets_chunk.induct) (auto split: if_splits prod.splits)

lemma fgets_chunk_progress: "0 < n \<Longrightarrow> fgets_chunk n (c # cs) = (l, r) \<Longrightarrow> length r < length (c # cs)"
  using fgets_chunk_append [of n "c # cs" l r] by (cases n) (auto split: if_splits prod.splits)

function fgets_lines :: "string \<Rightarrow> string list" where
  "fgets_lines [] = []"
| "fgets_lines (c # cs) =
     (case fgets_chunk (511) (c # cs) of (l, r) \<Rightarrow> l # fgets_lines r)"
  by pat_completeness auto
termination
proof (relation "measure length")
  fix c :: char and cs l r
  assume "(l, r) = fgets_chunk 511 (c # cs)"
  then show "(r, c # cs) \<in> measure length"
    using fgets_chunk_progress [of 511 c cs l r] by simp
qed simp

text \<open>The effect of one line; a failed copy of the reason ends the loop.\<close>

definition estop_line ::
    "string \<Rightarrow> sc_estop_state \<Rightarrow> sc_allocator \<Rightarrow> sc_status \<times> sc_estop_state \<times> sc_allocator" where
  "estop_line line e a =
     (let l = takeWhile (\<lambda>c. c \<noteq> CHR 0x00) line in
      (if contains_at ''active=true'' l then (sc_status_ok, e\<lparr>estop_active := True\<rparr>, a)
       else if contains_at ''reason='' l
       then (let l' = (if l \<noteq> [] \<and> last l = newline then butlast l else l) in
             (case sc_string_from_cstr (Some (drop 7 l')) a of
                (Inl err, a1) \<Rightarrow> (err, e, a1)
              | (Inr s, a1) \<Rightarrow> (sc_status_ok, e\<lparr>estop_reason := s\<rparr>, a1)))
       else (sc_status_ok, e, a)))"

fun estop_lines ::
    "string list \<Rightarrow> sc_estop_state \<Rightarrow> sc_allocator \<Rightarrow> sc_status \<times> sc_estop_state \<times> sc_allocator" where
  "estop_lines [] e a = (sc_status_ok, e, a)"
| "estop_lines (l # ls) e a =
     (case estop_line l e a of
        (st, e1, a1) \<Rightarrow> (if \<not> sc_status_is_ok st then (st, e1, a1) else estop_lines ls e1 a1))"

definition sc_estop_read_file ::
    "sc_str \<Rightarrow> string option \<Rightarrow> bool \<Rightarrow> sc_allocator \<Rightarrow> sc_status \<times> sc_estop_state \<times> sc_allocator" where
  "sc_estop_read_file p file closed a =
     (if \<not> valid_path_arg p then (sc_status_invalid_argument ''sc.estop.invalid_argument'', sc_estop_init, a)
      else (case file of
              None \<Rightarrow> (sc_status_io ''sc.estop.read_open_failed'', sc_estop_init, a)
            | Some content \<Rightarrow>
                (case estop_lines (fgets_lines content) sc_estop_init a of
                   (st, e, a1) \<Rightarrow>
                     (let st1 = (if \<not> closed \<and> sc_status_is_ok st
                                 then sc_status_io ''sc.estop.read_close_failed'' else st) in
                      (if \<not> sc_status_is_ok st1
                       then (case sc_estop_clear e a1 of (e2, a2) \<Rightarrow> (st1, e2, a2))
                       else (st1, e, a1))))))"

section \<open>Approval messages\<close>

datatype sc_approval_decision =
    SC_APPROVAL_PENDING | SC_APPROVAL_APPROVED | SC_APPROVAL_DENIED | SC_APPROVAL_EXPIRED

record sc_approval_request =
  areq_id :: sc_string
  areq_tool_name :: sc_string
  areq_summary :: sc_string
  areq_risk :: sc_tool_risk
  areq_created_at :: int
  areq_timeout_ms :: int

record sc_approval_response =
  ares_request_id :: sc_string
  ares_decision :: sc_approval_decision
  ares_reason :: sc_string
  ares_decided_at :: int

definition sc_approval_request_clear :: "sc_approval_request \<Rightarrow> sc_allocator \<Rightarrow> sc_allocator" where
  "sc_approval_request_clear r a =
     sc_string_clear (areq_summary r) (sc_string_clear (areq_tool_name r) (sc_string_clear (areq_id r) a))"

definition sc_approval_response_clear :: "sc_approval_response \<Rightarrow> sc_allocator \<Rightarrow> sc_allocator" where
  "sc_approval_response_clear r a =
     sc_string_clear (ares_reason r) (sc_string_clear (ares_request_id r) a)"

definition sc_approval_request_new ::
    "urandom \<Rightarrow> timespec \<Rightarrow> sc_str \<Rightarrow> sc_str \<Rightarrow> sc_tool_risk \<Rightarrow> int \<Rightarrow> sc_allocator \<Rightarrow>
       sc_approval_request res \<times> sc_allocator" where
  "sc_approval_request_new dev ts tool summ r timeout a =
     (if str_len tool = 0 \<or> ptr_null tool
      then (Inl (sc_status_invalid_argument ''sc.approval.invalid_argument''), a)
      else (let r0 = \<lparr>areq_id = None, areq_tool_name = None, areq_summary = None, areq_risk = r,
                      areq_created_at = 0, areq_timeout_ms = timeout\<rparr> in
            (case sc_uuid_v4 dev a of
               (Inl e, a1) \<Rightarrow> (Inl e, sc_approval_request_clear r0 a1)
             | (Inr i, a1) \<Rightarrow>
                 (let r1 = r0\<lparr>areq_id := i\<rparr> in
                  (case sc_string_from_str tool a1 of
                     (Inl e, a2) \<Rightarrow> (Inl e, sc_approval_request_clear r1 a2)
                   | (Inr t, a2) \<Rightarrow>
                       (let r2 = r1\<lparr>areq_tool_name := t\<rparr> in
                        (case sc_string_from_str summ a2 of
                           (Inl e, a3) \<Rightarrow> (Inl e, sc_approval_request_clear r2 a3)
                         | (Inr s, a3) \<Rightarrow>
                             (let r3 = r2\<lparr>areq_summary := s\<rparr> in
                              (case sc_clock_wall ts of
                                 Inl e \<Rightarrow> (Inl e, sc_approval_request_clear r3 a3)
                               | Inr now \<Rightarrow> (Inr (r3\<lparr>areq_created_at := now\<rparr>), a3))))))))))"

definition sc_approval_response_new ::
    "timespec \<Rightarrow> sc_str \<Rightarrow> sc_approval_decision \<Rightarrow> sc_str \<Rightarrow> sc_allocator \<Rightarrow>
       sc_approval_response res \<times> sc_allocator" where
  "sc_approval_response_new ts request_id d reason a =
     (if str_len request_id = 0 \<or> ptr_null request_id
      then (Inl (sc_status_invalid_argument ''sc.approval.invalid_argument''), a)
      else (let r0 = \<lparr>ares_request_id = None, ares_decision = d, ares_reason = None, ares_decided_at = 0\<rparr> in
            (case sc_string_from_str request_id a of
               (Inl e, a1) \<Rightarrow> (Inl e, sc_approval_response_clear r0 a1)
             | (Inr i, a1) \<Rightarrow>
                 (let r1 = r0\<lparr>ares_request_id := i\<rparr> in
                  (case sc_string_from_str reason a1 of
                     (Inl e, a2) \<Rightarrow> (Inl e, sc_approval_response_clear r1 a2)
                   | (Inr s, a2) \<Rightarrow>
                       (let r2 = r1\<lparr>ares_reason := s\<rparr> in
                        (case sc_clock_wall ts of
                           Inl e \<Rightarrow> (Inl e, sc_approval_response_clear r2 a2)
                         | Inr now \<Rightarrow> (Inr (r2\<lparr>ares_decided_at := now\<rparr>), a2))))))))"

definition sc_approval_response_allows ::
    "sc_approval_request option \<Rightarrow> sc_approval_response option \<Rightarrow> bool" where
  "sc_approval_response_allows request response =
     (case (request, response) of
        (Some req, Some resp) \<Rightarrow>
          (if ares_decision resp \<noteq> SC_APPROVAL_APPROVED then False
           else sc_str_equal (sc_string_as_str (areq_id req)) (sc_string_as_str (ares_request_id resp)))
      | _ \<Rightarrow> False)"

section \<open>Tripping\<close>

lemma estop_trip_spec:
  assumes "sc_estop_trip e reason a = (st, e', a')"
  shows "estop_active e'"
    and "live a' = live a + string_blocks (estop_reason e') - string_blocks (estop_reason e)"
  using assms
  by (auto simp: sc_estop_trip_def Let_def split: prod.splits sum.splits
      dest!: string_from_str_Inr string_from_str_Inl)

section \<open>Reading back what was written\<close>

lemma fgets_chunk_line:
  "newline \<notin> set l \<Longrightarrow> length l < n \<Longrightarrow> fgets_chunk n (l @ newline # r) = (l @ [newline], r)"
proof (induction n "l @ newline # r" arbitrary: l rule: fgets_chunk.induct)
  case (3 n c cs)
  show ?case
  proof (cases l)
    case Nil
    with 3 show ?thesis by simp
  next
    case (Cons d ds)
    with 3 have "c = d" "cs = ds @ newline # r" "c \<noteq> newline" by auto
    with 3 Cons show ?thesis by auto
  qed
qed auto

lemma fgets_lines_line:
  "newline \<notin> set l \<Longrightarrow> length l < 511 \<Longrightarrow> fgets_lines (l @ newline # r) = (l @ [newline]) # fgets_lines r"
proof -
  assume l: "newline \<notin> set l" "length l < 511"
  obtain c cs where c: "l @ newline # r = c # cs" by (cases "l @ newline # r") auto
  have "fgets_chunk (511) (c # cs) = (l @ [newline], r)"
    unfolding c [symmetric] using fgets_chunk_line [of l "511" r] l by simp
  then show ?thesis unfolding c by (simp del: fgets_chunk.simps)
qed

definition one_line :: "string \<Rightarrow> bool" where
  "one_line r \<longleftrightarrow> newline \<notin> set r \<and> CHR 0x00 \<notin> set r \<and> length r \<le> 503"

lemma takeWhile_no_nul: "CHR 0x00 \<notin> set r \<Longrightarrow> takeWhile (\<lambda>c. c \<noteq> CHR 0x00) r = r"
  by (intro takeWhile_eq_all_conv [THEN iffD2]) auto

lemma estop_text_lines:
  assumes "\<And>r. estop_reason e = Some r \<Longrightarrow> one_line r"
  shows "fgets_lines (estop_text e) =
    [''active='' @ (if estop_active e then ''true'' else ''false'') @ [newline],
     ''reason='' @ (case estop_reason e of None \<Rightarrow> [] | Some r \<Rightarrow> r) @ [newline]]"
proof -
  define r where "r = (case estop_reason e of None \<Rightarrow> [] | Some r \<Rightarrow> r)"
  have r: "newline \<notin> set r" "length r \<le> 503"
    "(case estop_reason e of None \<Rightarrow> [] | Some r \<Rightarrow> takeWhile (\<lambda>c. c \<noteq> CHR 0x00) r) = r"
    using assms by (auto simp: r_def one_line_def takeWhile_no_nul split: option.splits)
  have one: "fgets_lines ((''active='' @ b) @ newline # (''reason='' @ r) @ newline # []) =
      [(''active='' @ b) @ [newline], (''reason='' @ r) @ [newline]]"
    if "b = ''true'' \<or> b = ''false''" for b
    using that r(1,2) fgets_lines_line [of "''active='' @ b" "(''reason='' @ r) @ newline # []"]
      fgets_lines_line [of "''reason='' @ r" "[]"]
    by (auto simp: newline_def)
  show ?thesis
    unfolding estop_text_def r(3) r_def [symmetric]
    using one [of "if estop_active e then ''true'' else ''false''"] by simp
qed

lemma estop_active_line:
  "estop_line (''active='' @ (if b then ''true'' else ''false'') @ [newline]) e a =
     (sc_status_ok, (if b then e\<lparr>estop_active := True\<rparr> else e), a)"
  by (simp add: estop_line_def newline_def)

lemma estop_reason_line:
  assumes "CHR 0x00 \<notin> set r" "generous a" "length r < SIZE_MAX"
  shows "\<exists>a'. estop_line (''reason='' @ r @ [newline]) e a = (sc_status_ok, e\<lparr>estop_reason := Some r\<rparr>, a')"
proof -
  have "CHR 0x00 \<notin> set (''reason='' @ r @ [newline])" using assms(1) by (simp add: newline_def)
  then have t: "takeWhile (\<lambda>c. c \<noteq> CHR 0x00) (''reason='' @ r @ [newline]) = ''reason='' @ r @ [newline]"
    by (rule takeWhile_no_nul)
  have b: "butlast (''reason='' @ r @ [newline]) = ''reason='' @ r" by (simp add: butlast_append)
  have c: "sc_string_from_cstr (Some r) a = sc_string_from_str (Str r) a"
    using assms(1) by (simp add: sc_string_from_cstr_def from_cstr_literal)
  have not_active: "\<not> contains_at ''active=true'' (''reason='' @ r @ [newline])" by simp
  have is_reason: "contains_at ''reason='' (''reason='' @ r @ [newline])" by simp
  have "estop_line (''reason='' @ r @ [newline]) e a =
      (case sc_string_from_cstr (Some r) a of
         (Inl err, a1) \<Rightarrow> (err, e, a1) | (Inr s, a1) \<Rightarrow> (sc_status_ok, e\<lparr>estop_reason := s\<rparr>, a1))"
    unfolding estop_line_def t Let_def b using not_active is_reason by simp
  with c string_from_str_generous [OF assms(2,3)] show ?thesis by auto
qed

lemma estop_roundtrip:
  assumes "\<And>r. estop_reason e = Some r \<Longrightarrow> one_line r" "generous a" "valid_path_arg p"
    "sc_estop_write_file e q True True True = (sc_status_ok, Some content)"
  shows "\<exists>a'. sc_estop_read_file p (Some content) True a =
    (sc_status_ok, \<lparr>estop_active = estop_active e,
       estop_reason = Some (case estop_reason e of None \<Rightarrow> [] | Some r \<Rightarrow> r)\<rparr>, a')"
proof -
  let ?r = "case estop_reason e of None \<Rightarrow> [] | Some r \<Rightarrow> r"
  have r: "CHR 0x00 \<notin> set ?r" "length ?r < SIZE_MAX"
    using assms(1) by (auto simp: one_line_def SIZE_MAX_def split: option.splits)
  have "content = estop_text e"
    using assms(4) by (auto simp: sc_estop_write_file_def split: if_splits)
  then have lines: "fgets_lines content =
    [''active='' @ (if estop_active e then ''true'' else ''false'') @ [newline], ''reason='' @ ?r @ [newline]]"
    using estop_text_lines [of e] assms(1) by blast
  let ?e1 = "if estop_active e then sc_estop_init\<lparr>estop_active := True\<rparr> else sc_estop_init"
  obtain a' where "estop_line (''reason='' @ ?r @ [newline]) ?e1 a =
      (sc_status_ok, ?e1\<lparr>estop_reason := Some ?r\<rparr>, a')"
    using estop_reason_line [OF r(1) assms(2) r(2)] by blast
  then have "estop_lines (fgets_lines content) sc_estop_init a =
      (sc_status_ok, ?e1\<lparr>estop_reason := Some ?r\<rparr>, a')"
    unfolding lines estop_lines.simps estop_active_line by (simp only: prod.case is_ok_ok) simp
  then show ?thesis
    using assms(3) by (auto simp: sc_estop_read_file_def sc_estop_init_def)
qed

end
