(* ===== verification/SC_Request.thy ===== *)
theory SC_Request
  imports SC_Domain_Matcher SC_Workspace SC_Estop
begin

text \<open>
  \<^verbatim>\<open>sc_security_validate_request\<close> of \<^verbatim>\<open>src/security/policy.c\<close>: the gate every tool call goes
  through, put together from the emergency stop, the tool lists, the autonomy level, and the
  shell, path, URL, sandbox network, device and one-time-code checks, in that order. The
  theorem collects what an accepted request satisfies; each of its conjuncts is the promise of
  one component.
\<close>

section \<open>The gate\<close>

text \<open>
  A chain of checks that stops at the first failure: \<^verbatim>\<open>status = check(...); if
  (!sc_status_is_ok(status)) return status;\<close>
\<close>

type_synonym check = "sc_allocator \<Rightarrow> sc_status \<times> sc_allocator"

fun run_checks :: "check list \<Rightarrow> check" where
  "run_checks [] a = (sc_status_ok, a)"
| "run_checks (c # cs) a =
     (case c a of (st, a1) \<Rightarrow> (if \<not> sc_status_is_ok st then (st, a1) else run_checks cs a1))"

definition pure_check :: "sc_status \<Rightarrow> check" where
  "pure_check st a = (st, a)"

definition risk_check :: "sc_security_policy \<Rightarrow> sc_security_tool_request \<Rightarrow> sc_status" where
  "risk_check p req =
     (if risk req = SC_TOOL_RISK_SHELL \<and> \<not> shell_enabled p
      then sc_status_security_denied ''sc.security.shell_denied''
      else if autonomy p = SC_AUTONOMY_READ_ONLY \<and> risk req \<noteq> SC_TOOL_RISK_READONLY
      then sc_status_security_denied ''sc.security.read_only_denied''
      else if autonomy p = SC_AUTONOMY_SUPERVISED \<and>
              (risk req = SC_TOOL_RISK_DESTRUCTIVE \<or> risk req = SC_TOOL_RISK_SHELL) \<and>
              \<not> sc_security_list_contains (auto_approved_tools p) (tool_name req)
      then sc_status_security_denied ''sc.security.high_risk_denied''
      else sc_status_ok)"

definition when_arg :: "sc_str \<Rightarrow> check \<Rightarrow> check" where
  "when_arg arg c a = (if str_len arg > 0 then c a else (sc_status_ok, a))"

definition request_checks ::
    "fs \<Rightarrow> sc_security_policy \<Rightarrow> sc_estop_state option \<Rightarrow> sc_security_tool_request \<Rightarrow> check list" where
  "request_checks f p e req =
     [pure_check (sc_estop_check e),
      pure_check (sc_security_validate_tool p (tool_name req)),
      pure_check (risk_check p req),
      when_arg (shell_arg req) (validate_shell_policy p (shell_arg req)),
      when_arg (path_arg req) (sc_security_validate_path f p (path_arg req) (path_must_exist req)),
      when_arg (url_arg req) (sc_security_validate_url p (url_arg req)),
      when_arg (url_arg req) (sc_security_validate_sandbox_network p (url_arg req)),
      pure_check (validate_device_policy p req),
      pure_check (validate_otp_policy p req)]"

text \<open>The status, the approval flag and the allocator.\<close>

definition sc_security_validate_request ::
    "fs \<Rightarrow> sc_security_policy \<Rightarrow> sc_estop_state option \<Rightarrow> sc_security_tool_request \<Rightarrow> sc_allocator \<Rightarrow>
       sc_status \<times> bool \<times> sc_allocator" where
  "sc_security_validate_request f p e req a =
     (case run_checks (request_checks f p e req) a of
        (st, a1) \<Rightarrow>
          (if \<not> sc_status_is_ok st then (st, False, a1)
           else (sc_status_ok, request_requires_approval p req, a1)))"

section \<open>Chains of checks\<close>

text \<open>
  The contract of a check: it gives back every block it takes, and acceptance means the
  property \<open>Q\<close>, whatever the allocator does.
\<close>

locale sound_check =
  fixes c :: check and Q :: bool
  assumes check_live: "c a = (st, a') \<Longrightarrow> live a' = live a"
    and check_sound: "c a = (st, a') \<Longrightarrow> sc_status_is_ok st \<Longrightarrow> Q"
begin

lemma live_guarded: "when_arg arg c a = (st, a') \<Longrightarrow> live a' = live a"
  using check_live by (auto simp: when_arg_def split: if_splits)

lemma sound_guarded: "when_arg arg c a = (st, a') \<Longrightarrow> sc_status_is_ok st \<Longrightarrow> 0 < str_len arg \<Longrightarrow> Q"
  using check_sound by (auto simp: when_arg_def)

end

lemma sound_check_when:
  assumes "sound_check c Q"
  shows "sound_check (when_arg arg c) (0 < str_len arg \<longrightarrow> Q)"
proof unfold_locales
  fix a st a' assume w: "when_arg arg c a = (st, a')"
  show "live a' = live a" using sound_check.live_guarded [OF assms w] .
  show "sc_status_is_ok st \<Longrightarrow> 0 < str_len arg \<longrightarrow> Q" using sound_check.sound_guarded [OF assms w] by blast
qed

lemma sound_check_pure: "sound_check (pure_check st) (sc_status_is_ok st)"
  by unfold_locales (auto simp: pure_check_def)

lemma run_checks_sound:
  assumes "list_all2 sound_check cs Qs" "run_checks cs a = (st, a')"
  shows "live a' = live a" and "sc_status_is_ok st \<Longrightarrow> list_all id Qs"
proof -
  have "live a' = live a \<and> (sc_status_is_ok st \<longrightarrow> list_all id Qs)"
    using assms
  proof (induction cs Qs arbitrary: a rule: list_all2_induct)
    case (Cons c cs Q Qs)
    obtain st1 a1 where one: "c a = (st1, a1)" by (cases "c a")
    have l: "live a1 = live a" "sc_status_is_ok st1 \<Longrightarrow> Q"
      using sound_check.check_live [OF Cons.hyps(1) one] sound_check.check_sound [OF Cons.hyps(1) one] by auto
    with Cons.prems Cons.IH [of a1] one show ?case by (auto split: if_splits)
  qed simp
  then show "live a' = live a" "sc_status_is_ok st \<Longrightarrow> list_all id Qs" by auto
qed

section \<open>The components as checks\<close>

definition shell_promise :: "sc_security_policy \<Rightarrow> sc_str \<Rightarrow> bool" where
  "shell_promise p command \<longleftrightarrow> (\<exists>bs w. command = Str bs \<and> command_word bs = Some w \<and>
    (\<forall>needle \<in> set danger_needles. \<not> (\<exists>pre post. bs = pre @ needle @ post)) \<and>
    w \<notin> list_strings (forbidden_commands p) \<and>
    (items (allowed_commands p) = [] \<or> w \<in> list_strings (allowed_commands p)))"

interpretation shell: sound_check "validate_shell_policy p command" "shell_promise p command" for p command
proof unfold_locales
  fix a st a' assume v: "validate_shell_policy p command a = (st, a')"
  show "live a' = live a" using validate_shell_live [OF v] .
  show "sc_status_is_ok st \<Longrightarrow> shell_promise p command"
    unfolding shell_promise_def using validate_shell_ok [OF v] .
qed

definition path_promise :: "fs \<Rightarrow> sc_security_policy \<Rightarrow> sc_str \<Rightarrow> bool \<Rightarrow> bool" where
  "path_promise f p input must_exist \<longleftrightarrow> (\<exists>bs res. input = Str bs \<and> canon_input f must_exist bs = Some res \<and>
    (workspace_only p \<longrightarrow> (\<exists>wr root. workspace_root p = Some wr \<and> canon_existing f wr = Some root \<and> under res root)) \<and>
    (\<forall>d \<in> list_strings (denied_paths p). \<exists>c. canon_write f d = Some c \<and> \<not> under res c) \<and>
    (items (allowed_paths p) \<noteq> [] \<longrightarrow>
      (\<exists>d \<in> list_strings (allowed_paths p). \<exists>c. canon_write f d = Some c \<and> under res c)))"

lemma validate_path_null: "sc_security_validate_path f p (NullStr n) m a = (st, a') \<Longrightarrow> \<not> sc_status_is_ok st"
  by (auto simp: sc_security_validate_path_def sc_workspace_resolve_def)

interpretation path_check: sound_check "sc_security_validate_path f p input m" "path_promise f p input m"
  for f p input m
proof unfold_locales
  fix a st a' assume v: "sc_security_validate_path f p input m a = (st, a')"
  show "live a' = live a" using validate_path_live [OF v] .
  assume ok: "sc_status_is_ok st"
  show "path_promise f p input m"
  proof (cases input)
    case (Str bs)
    from validate_path_ok [OF v [unfolded Str] ok] Str show ?thesis unfolding path_promise_def by blast
  next
    case (NullStr n)
    with validate_path_null v ok show ?thesis by blast
  qed
qed

definition url_promise :: "sc_security_policy \<Rightarrow> sc_str \<Rightarrow> bool" where
  "url_promise p t \<longleftrightarrow> (\<exists>a u a1 h s. sc_url_parse t a = (Inr u, a1) \<and> host u = Some h \<and> scheme u = Some s \<and>
    (s = ''http'' \<or> s = ''https'') \<and>
    (url_credentials_allowed p \<or> \<not> sc_url_has_credentials u) \<and>
    \<not> (\<exists>d \<in> list_strings (denied_domains p). domain_covers d h) \<and>
    (items (allowed_domains p) = [] \<or> (\<exists>d \<in> list_strings (allowed_domains p). domain_covers d h)) \<and>
    \<not> (private_network_policy p = SC_PRIVATE_NETWORK_BLOCK \<and> sc_url_host_is_private_address u))"

interpretation url_check: sound_check "sc_security_validate_url p t" "url_promise p t" for p t
proof unfold_locales
  fix a st a' assume v: "sc_security_validate_url p t a = (st, a')"
  show "live a' = live a" using validate_url_live [OF v] .
  assume "sc_status_is_ok st"
  with validate_url_ok [OF v] obtain u a1 where u: "sc_url_parse t a = (Inr u, a1)"
    "sc_status_is_ok (url_verdict p u)" by blast
  obtain h s where hs: "host u = Some h" "scheme u = Some s" by (rule url_parse_host_scheme [OF u(1)])
  note verdict = u(2) [unfolded url_verdict_ok [OF hs]]
  show "url_promise p t" unfolding url_promise_def
    by (rule exI [of _ a], rule exI [of _ u], rule exI [of _ a1], rule exI [of _ h], rule exI [of _ s])
      (use u(1) hs verdict in simp)
qed

definition network_promise :: "sc_security_policy \<Rightarrow> sc_str \<Rightarrow> bool" where
  "network_promise p t \<longleftrightarrow> sandbox_network p \<noteq> SC_SANDBOX_NETWORK_NONE \<and>
    (sandbox_network p = SC_SANDBOX_NETWORK_ALLOWED_DOMAINS \<longrightarrow>
      (\<exists>a u a1 h. sc_url_parse t a = (Inr u, a1) \<and> host u = Some h \<and>
        (\<exists>d \<in> list_strings (sandbox_allowed_domains p). domain_covers d h)))"

interpretation network_check: sound_check "sc_security_validate_sandbox_network p t" "network_promise p t"
  for p t
proof unfold_locales
  fix a st a' assume v: "sc_security_validate_sandbox_network p t a = (st, a')"
  show "live a' = live a" using validate_sandbox_network_live [OF v] .
  assume ok: "sc_status_is_ok st"
  obtain r a1 where parse: "sc_url_parse t a = (r, a1)" by (cases "sc_url_parse t a")
  show "network_promise p t"
  proof (cases "sandbox_network p")
    case SC_SANDBOX_NETWORK_ALLOWED_DOMAINS
    with v ok parse url_parse_live(2) [OF parse] obtain u where u: "r = Inr u"
      "domain_list_matches (sandbox_allowed_domains p) u"
      by (cases r) (auto simp: sc_security_validate_sandbox_network_def split: if_splits)
    obtain h s where "host u = Some h" "scheme u = Some s" by (rule url_parse_host_scheme [OF parse [unfolded u(1)]])
    with u parse domain_list_matches_iff [of u h] SC_SANDBOX_NETWORK_ALLOWED_DOMAINS show ?thesis
      unfolding network_promise_def by auto
  qed (use v ok in \<open>auto simp: sc_security_validate_sandbox_network_def network_promise_def split: if_splits\<close>)
qed

section \<open>What an accepted request satisfies\<close>

lemma request_checks_sound:
  "list_all2 sound_check (request_checks f p e req)
    [sc_status_is_ok (sc_estop_check e), sc_status_is_ok (sc_security_validate_tool p (tool_name req)),
     sc_status_is_ok (risk_check p req),
     0 < str_len (shell_arg req) \<longrightarrow> shell_promise p (shell_arg req),
     0 < str_len (path_arg req) \<longrightarrow> path_promise f p (path_arg req) (path_must_exist req),
     0 < str_len (url_arg req) \<longrightarrow> url_promise p (url_arg req),
     0 < str_len (url_arg req) \<longrightarrow> network_promise p (url_arg req),
     sc_status_is_ok (validate_device_policy p req), sc_status_is_ok (validate_otp_policy p req)]"
  unfolding request_checks_def
  by (intro list.rel_intros sound_check_pure sound_check_when shell.sound_check_axioms
      path_check.sound_check_axioms url_check.sound_check_axioms network_check.sound_check_axioms)

lemma validate_request_live:
  assumes "sc_security_validate_request f p e req a = (st, approval, a')"
  shows "live a' = live a"
proof -
  obtain st1 a1 where r: "run_checks (request_checks f p e req) a = (st1, a1)"
    by (cases "run_checks (request_checks f p e req) a")
  from run_checks_sound(1) [OF request_checks_sound r] assms r show ?thesis
    by (auto simp: sc_security_validate_request_def split: if_splits)
qed

lemma validate_request_ok:
  assumes "sc_security_validate_request f p e req a = (st, approval, a')" "sc_status_is_ok st"
  shows "sc_status_is_ok (sc_estop_check e) \<and> sc_status_is_ok (sc_security_validate_tool p (tool_name req)) \<and>
    sc_status_is_ok (risk_check p req) \<and>
    (0 < str_len (shell_arg req) \<longrightarrow> shell_promise p (shell_arg req)) \<and>
    (0 < str_len (path_arg req) \<longrightarrow> path_promise f p (path_arg req) (path_must_exist req)) \<and>
    (0 < str_len (url_arg req) \<longrightarrow> url_promise p (url_arg req) \<and> network_promise p (url_arg req)) \<and>
    sc_status_is_ok (validate_device_policy p req) \<and> sc_status_is_ok (validate_otp_policy p req) \<and>
    approval = request_requires_approval p req"
proof -
  obtain st1 a1 where r: "run_checks (request_checks f p e req) a = (st1, a1)"
    by (cases "run_checks (request_checks f p e req) a")
  with assms have "sc_status_is_ok st1" "approval = request_requires_approval p req"
    by (auto simp: sc_security_validate_request_def split: if_splits)
  with run_checks_sound(2) [OF request_checks_sound r] show ?thesis by simp
qed

end
