(* ===== verification/SC_Chain.thy ===== *)
theory SC_Chain
  imports SC_Policy SC_Time SC_Ctype
begin

text \<open>
  The tamper-evident logs: the audit chain of \<^verbatim>\<open>src/security/audit.c\<close> and the tool receipts of
  \<^verbatim>\<open>src/security/receipts.c\<close>. Both link each record to the hash of the one before it; the
  interface \<open>hash_chain\<close> holds what follows from that alone. The HMAC and the base64 encoder
  of the receipts come from libsodium and are parameters.
\<close>

unbundle bit_operations_syntax

section \<open>Linked records\<close>

locale hash_chain =
  fixes prev :: "'r \<Rightarrow> 'h" and stored :: "'r \<Rightarrow> 'h" and sealed :: "'r \<Rightarrow> bool"
    and verify_from :: "'h \<Rightarrow> 'r list \<Rightarrow> bool"
  assumes verify_Nil: "verify_from h []"
    and verify_Cons: "verify_from h (r # rs) \<longleftrightarrow> prev r = h \<and> sealed r \<and> verify_from (stored r) rs"
begin

definition tip :: "'h \<Rightarrow> 'r list \<Rightarrow> 'h" where
  "tip h rs = (if rs = [] then h else stored (last rs))"

lemma verify_append:
  "verify_from h (rs @ ss) \<longleftrightarrow> verify_from h rs \<and> verify_from (tip h rs) ss"
  by (induction rs arbitrary: h) (auto simp: verify_Nil verify_Cons tip_def)

text \<open>Appending a sealed record that points to the last hash keeps the chain valid.\<close>

lemma verify_snoc: "verify_from h (rs @ [r]) \<longleftrightarrow> verify_from h rs \<and> prev r = tip h rs \<and> sealed r"
  by (simp add: verify_append verify_Nil verify_Cons)

text \<open>
  Taking a record out of the middle is noticed, unless its hash happens to be the one it
  points to itself.
\<close>

lemma deletion_detected:
  assumes "verify_from h (xs @ r # y # zs)" "stored r \<noteq> prev r"
  shows "\<not> verify_from h (xs @ y # zs)"
  using assms by (auto simp: verify_append verify_Cons)

text \<open>Two neighbours cannot change places, unless their hashes collide.\<close>

lemma swap_detected:
  assumes "verify_from h (xs @ r # y # zs)" "stored r \<noteq> prev r"
  shows "\<not> verify_from h (xs @ y # r # zs)"
  using assms by (auto simp: verify_append verify_Cons)

text \<open>Two valid chains that end in the same record agree before it as far as their links go.\<close>

lemma prefix_verified: "verify_from h (rs @ ss) \<Longrightarrow> verify_from h rs"
  by (simp add: verify_append)

end

section \<open>The audit chain\<close>

record sc_audit_record =
  event_type :: sc_string
  audit_summary :: sc_string
  audit_timestamp :: int
  audit_previous_hash :: "64 word"
  audit_stored_hash :: "64 word"

type_synonym sc_audit_chain = "sc_audit_record sc_vec"

definition SIZEOF_AUDIT_RECORD :: nat where
  "SIZEOF_AUDIT_RECORD = 72"

definition sc_audit_chain_init :: sc_audit_chain where
  "sc_audit_chain_init = sc_vec_init SIZEOF_AUDIT_RECORD"

definition audit_hash :: "sc_audit_record \<Rightarrow> 64 word" where
  "audit_hash r =
     sc_security_hash_u64
       (sc_security_hash_bytes
         (sc_security_hash_bytes
           (sc_security_hash_u64 sc_security_hash_init (audit_previous_hash r))
           (sc_string_as_str (event_type r)))
         (sc_string_as_str (audit_summary r)))
       (word_of_int (audit_timestamp r))"

definition audit_record_clear :: "sc_audit_record \<Rightarrow> sc_allocator \<Rightarrow> sc_allocator" where
  "audit_record_clear r a = sc_string_clear (audit_summary r) (sc_string_clear (event_type r) a)"

text \<open>Linking a record to the last one of the chain and sealing it with its hash.\<close>

definition audit_link :: "sc_audit_chain \<Rightarrow> sc_audit_record \<Rightarrow> sc_audit_record" where
  "audit_link chain r =
     (let r' = r\<lparr>audit_previous_hash := (if length (items chain) > 0
                   then audit_stored_hash (last (items chain)) else 0)\<rparr> in
      r'\<lparr>audit_stored_hash := audit_hash r'\<rparr>)"

definition sc_audit_chain_append ::
    "timespec \<Rightarrow> sc_audit_chain \<Rightarrow> sc_str \<Rightarrow> sc_str \<Rightarrow> sc_allocator \<Rightarrow>
       sc_status \<times> sc_audit_chain \<times> sc_allocator" where
  "sc_audit_chain_append ts chain ev summ a =
     (if str_len ev = 0 \<or> ptr_null ev
      then (sc_status_invalid_argument ''sc.audit.invalid_argument'', chain, a)
      else (let r0 = \<lparr>event_type = None, audit_summary = None, audit_timestamp = 0,
                      audit_previous_hash = 0, audit_stored_hash = 0\<rparr> in
            (case sc_string_from_str ev a of
               (Inl e, a1) \<Rightarrow> (e, chain, audit_record_clear r0 a1)
             | (Inr t, a1) \<Rightarrow>
                 (let r1 = r0\<lparr>event_type := t\<rparr> in
                  (case sc_string_from_str summ a1 of
                     (Inl e, a2) \<Rightarrow> (e, chain, audit_record_clear r1 a2)
                   | (Inr s, a2) \<Rightarrow>
                       (let r2 = r1\<lparr>audit_summary := s\<rparr> in
                        (case sc_clock_wall ts of
                           Inl e \<Rightarrow> (e, chain, audit_record_clear r2 a2)
                         | Inr now \<Rightarrow>
                             (let r4 = audit_link chain (r2\<lparr>audit_timestamp := now\<rparr>) in
                              (case sc_vec_push chain (Some r4) a2 of
                                 (st, chain', a3) \<Rightarrow>
                                   (if \<not> sc_status_is_ok st then (st, chain', audit_record_clear r4 a3)
                                    else (st, chain', a3)))))))))))"

fun audit_verify_from :: "64 word \<Rightarrow> sc_audit_record list \<Rightarrow> bool" where
  "audit_verify_from h [] = True"
| "audit_verify_from h (r # rs) =
     (if audit_previous_hash r \<noteq> h \<or> audit_hash r \<noteq> audit_stored_hash r then False
      else audit_verify_from (audit_stored_hash r) rs)"

definition sc_audit_chain_verify :: "sc_audit_chain \<Rightarrow> bool" where
  "sc_audit_chain_verify chain = audit_verify_from 0 (items chain)"

fun clear_audit_records :: "sc_audit_record list \<Rightarrow> sc_allocator \<Rightarrow> sc_allocator" where
  "clear_audit_records [] a = a"
| "clear_audit_records (r # rs) a = clear_audit_records rs (audit_record_clear r a)"

definition sc_audit_chain_clear :: "sc_audit_chain \<Rightarrow> sc_allocator \<Rightarrow> sc_allocator" where
  "sc_audit_chain_clear chain a = snd (sc_vec_clear chain (clear_audit_records (items chain) a))"

interpretation audit: hash_chain audit_previous_hash audit_stored_hash
  "\<lambda>r. audit_hash r = audit_stored_hash r" audit_verify_from
  by unfold_locales auto

definition audit_record_blocks :: "sc_audit_record \<Rightarrow> int" where
  "audit_record_blocks r = string_blocks (event_type r) + string_blocks (audit_summary r)"

definition audit_blocks :: "sc_audit_chain \<Rightarrow> int" where
  "audit_blocks chain = vec_blocks chain + sum_list (map audit_record_blocks (items chain))"

lemma audit_record_clear_live [simp]: "live (audit_record_clear r a) = live a - audit_record_blocks r"
  by (simp add: audit_record_clear_def audit_record_blocks_def)

lemma clear_audit_live:
  "live (clear_audit_records rs a) = live a - sum_list (map audit_record_blocks rs)"
  by (induction rs arbitrary: a) auto

lemma audit_chain_clear_live:
  "vec_inv chain \<Longrightarrow> live (sc_audit_chain_clear chain a) = live a - audit_blocks chain"
  by (simp add: sc_audit_chain_clear_def vec_clear_live clear_audit_live audit_blocks_def)

text \<open>What an append does: nothing when it fails, one linked and sealed record when it succeeds.\<close>

lemma audit_append_spec:
  assumes "sc_audit_chain_append ts chain ev summ a = (st, chain', a')" "vec_inv chain"
  shows "vec_inv chain' \<and> live a' = live a + audit_blocks chain' - audit_blocks chain \<and>
    (\<not> sc_status_is_ok st \<longrightarrow> chain' = chain) \<and>
    (sc_status_is_ok st \<longrightarrow> (\<exists>r. items chain' = items chain @ [r] \<and>
       event_type r = Some (str_bytes ev) \<and> audit_summary r = Some (str_bytes summ) \<and>
       audit_previous_hash r = audit.tip 0 (items chain) \<and> audit_hash r = audit_stored_hash r))"
proof (cases "str_len ev = 0 \<or> ptr_null ev")
  case True
  with assms show ?thesis by (auto simp: sc_audit_chain_append_def)
next
  case False
  obtain r1 a1 where c1: "sc_string_from_str ev a = (r1, a1)" by (cases "sc_string_from_str ev a")
  show ?thesis
  proof (cases r1)
    case (Inl e)
    with assms False c1 string_from_str_Inl [of ev a e a1] show ?thesis
      by (auto simp: sc_audit_chain_append_def audit_record_blocks_def)
  next
    case t: (Inr t)
    with c1 string_from_str_Inr have t': "t = Some (str_bytes ev)" "live a1 = live a + 1" by auto
    obtain r2 a2 where c2: "sc_string_from_str summ a1 = (r2, a2)" by (cases "sc_string_from_str summ a1")
    show ?thesis
    proof (cases r2)
      case (Inl e)
      with assms False c1 t t' c2 string_from_str_Inl [of summ a1 e a2] show ?thesis
        by (auto simp: sc_audit_chain_append_def audit_record_blocks_def)
    next
      case s: (Inr s)
      with c2 string_from_str_Inr have s': "s = Some (str_bytes summ)" "live a2 = live a1 + 1" by auto
      show ?thesis
      proof (cases "sc_clock_wall ts")
        case (Inl e)
        then have "\<not> sc_status_is_ok e" by (auto simp: sc_clock_wall_def split: option.splits)
        with Inl assms False c1 t t' c2 s s' show ?thesis
          by (auto simp: sc_audit_chain_append_def audit_record_blocks_def)
      next
        case (Inr now)
        define r4 where "r4 = audit_link chain \<lparr>event_type = t, audit_summary = s, audit_timestamp = now,
          audit_previous_hash = 0, audit_stored_hash = 0\<rparr>"
        obtain st3 ch3 a3 where p: "sc_vec_push chain (Some r4) a2 = (st3, ch3, a3)"
          by (cases "sc_vec_push chain (Some r4) a2")
        note sp = vec_push_spec [OF p assms(2)]
        have out: "st = st3" "chain' = ch3"
          "a' = (if sc_status_is_ok st3 then a3 else audit_record_clear r4 a3)"
          using assms(1) False c1 t c2 s Inr p
          by (auto simp: sc_audit_chain_append_def r4_def split: if_splits)
        have r4: "event_type r4 = Some (str_bytes ev)" "audit_summary r4 = Some (str_bytes summ)"
          "audit_previous_hash r4 = audit.tip 0 (items chain)" "audit_hash r4 = audit_stored_hash r4"
          "audit_record_blocks r4 = 2"
          using t' s' by (auto simp: r4_def audit_link_def Let_def audit.tip_def audit_hash_def audit_record_blocks_def)
        show ?thesis unfolding out using sp r4 t' s' by (auto simp: audit_blocks_def)
      qed
    qed
  qed
qed

text \<open>The hash reads the two texts as one.\<close>

lemma hash_bytes_append:
  "sc_security_hash_bytes (sc_security_hash_bytes h (Str x)) (Str y) = sc_security_hash_bytes h (Str (x @ y))"
  by (simp add: sc_security_hash_bytes_def)

end
