(* ===== verification/SC_Receipts.thy ===== *)
theory SC_Receipts
  imports SC_Chain
begin

text \<open>
  Tool receipts, \<^verbatim>\<open>src/security/receipts.c\<close>: a hash chain like the audit chain whose records also
  carry a token, the HMAC of their fields under a session key. The HMAC and the base64
  encoding are libsodium's and parameters here; what the theorems need of them is stated where
  they are used. The theorems: an append keeps the chain verifiable; the bytes that are
  authenticated determine every field, so fields cannot be shifted into each other.
\<close>

unbundle bit_operations_syntax

section \<open>Records\<close>

record sc_tool_receipt =
  rc_tool_name :: sc_string
  rc_args_summary :: sc_string
  rc_output_summary :: sc_string
  rc_token :: sc_string
  rc_started_at :: int
  rc_ended_at :: int
  rc_success :: bool
  rc_previous_hash :: "64 word"
  rc_hash :: "64 word"
  rc_policy_decision :: sc_string
  rc_failure_reason :: sc_string
  rc_outcome :: sc_string

record sc_receipt_chain =
  receipts :: "sc_tool_receipt sc_vec"
  session_key :: "nat list"
  key_initialized :: bool

text \<open>\<^verbatim>\<open>crypto_auth_hmacsha256\<close> and \<^verbatim>\<open>sodium_bin2base64\<close>.\<close>

record sodium =
  hmac :: "nat list \<Rightarrow> nat list \<Rightarrow> nat list"
  base64 :: "nat list \<Rightarrow> string"

definition SIZEOF_RECEIPT :: nat where
  "SIZEOF_RECEIPT = 208"

text \<open>\<open>rnd\<close> is what \<^verbatim>\<open>randombytes_buf\<close> delivers when \<^verbatim>\<open>sodium_init\<close> succeeds.\<close>

definition sc_receipt_chain_init :: "nat list option \<Rightarrow> sc_receipt_chain" where
  "sc_receipt_chain_init rnd =
     (case rnd of
        None \<Rightarrow> \<lparr>receipts = sc_vec_init SIZEOF_RECEIPT, session_key = replicate 32 0, key_initialized = False\<rparr>
      | Some k \<Rightarrow> \<lparr>receipts = sc_vec_init SIZEOF_RECEIPT, session_key = k, key_initialized = True\<rparr>)"

definition receipt_hash :: "sc_tool_receipt \<Rightarrow> 64 word" where
  "receipt_hash r =
     (let h0 = sc_security_hash_u64 sc_security_hash_init (rc_previous_hash r);
          h1 = foldl (\<lambda>h s. sc_security_hash_bytes h (sc_string_as_str s)) h0
                 [rc_tool_name r, rc_args_summary r, rc_output_summary r, rc_policy_decision r,
                  rc_failure_reason r, rc_outcome r];
          h2 = sc_security_hash_u64 h1 (word_of_int (rc_started_at r));
          h3 = sc_security_hash_u64 h2 (word_of_int (rc_ended_at r)) in
      sc_security_hash_bool h3 (rc_success r))"

section \<open>What the token authenticates\<close>

definition mac_u64 :: "64 word \<Rightarrow> nat list" where
  "mac_u64 v = u64_bytes v"

definition mac_bool :: "bool \<Rightarrow> nat list" where
  "mac_bool b = mac_u64 (if b then 1 else 0)"

definition mac_str :: "sc_str \<Rightarrow> nat list" where
  "mac_str v = mac_u64 (word_of_nat (str_len v)) @
     (if \<not> ptr_null v \<and> str_len v > 0 then map of_char (str_bytes v) else [])"

definition receipt_mac_bytes :: "sc_tool_receipt \<Rightarrow> nat list" where
  "receipt_mac_bytes r =
     mac_u64 (rc_previous_hash r) @ mac_str (sc_string_as_str (rc_tool_name r)) @
     mac_str (sc_string_as_str (rc_args_summary r)) @ mac_str (sc_string_as_str (rc_output_summary r)) @
     mac_str (sc_string_as_str (rc_policy_decision r)) @ mac_str (sc_string_as_str (rc_failure_reason r)) @
     mac_str (sc_string_as_str (rc_outcome r)) @ mac_u64 (word_of_int (rc_started_at r)) @
     mac_u64 (word_of_int (rc_ended_at r)) @ mac_bool (rc_success r)"

text \<open>\<^verbatim>\<open>%lld\<close>, and C's division, which rounds towards zero.\<close>

definition dec_int :: "int \<Rightarrow> string" where
  "dec_int n = (if n < 0 then CHR ''-'' # dec (nat (- n)) else dec (nat n))"

definition div_trunc :: "int \<Rightarrow> int \<Rightarrow> int" where
  "div_trunc a b = (if a < 0 then - ((- a) div b) else a div b)"

definition token_text :: "sodium \<Rightarrow> nat list \<Rightarrow> sc_tool_receipt \<Rightarrow> string" where
  "token_text s key r =
     ''sc-receipt-'' @ dec_int (div_trunc (rc_ended_at r) 1000000000) @ ''-'' @
     base64 s (hmac s key (receipt_mac_bytes r))"

definition receipt_token ::
    "sodium \<Rightarrow> sc_receipt_chain \<Rightarrow> sc_tool_receipt \<Rightarrow> sc_allocator \<Rightarrow> sc_string res \<times> sc_allocator" where
  "receipt_token s chain r a =
     (if \<not> key_initialized chain then (Inl (sc_status_unsupported ''sc.receipt.crypto_unavailable''), a)
      else (let t = token_text s (session_key chain) r in
            (if length t \<ge> 128 then (Inl (sc_status_io ''sc.receipt.format_failed''), a)
             else sc_string_from_cstr (Some t) a)))"

section \<open>Appending\<close>

definition receipt_clear :: "sc_tool_receipt \<Rightarrow> sc_allocator \<Rightarrow> sc_allocator" where
  "receipt_clear r a =
     fold sc_string_clear
       [rc_tool_name r, rc_args_summary r, rc_output_summary r, rc_token r, rc_policy_decision r,
        rc_failure_reason r, rc_outcome r] a"

type_synonym receipt_state = "sc_status \<times> sc_tool_receipt \<times> sc_allocator"

definition receipt_copy :: "(sc_string \<Rightarrow> sc_tool_receipt \<Rightarrow> sc_tool_receipt) \<Rightarrow> sc_str \<Rightarrow> receipt_state \<Rightarrow> receipt_state" where
  "receipt_copy upd input s =
     (case s of (st, r, a) \<Rightarrow>
        (if \<not> sc_status_is_ok st then s
         else (case sc_string_from_str input a of
                 (Inl e, a') \<Rightarrow> (e, r, a')
               | (Inr v, a') \<Rightarrow> (sc_status_ok, upd v r, a'))))"

definition receipt_zero :: sc_tool_receipt where
  "receipt_zero = \<lparr>rc_tool_name = None, rc_args_summary = None, rc_output_summary = None, rc_token = None,
     rc_started_at = 0, rc_ended_at = 0, rc_success = False, rc_previous_hash = 0, rc_hash = 0,
     rc_policy_decision = None, rc_failure_reason = None, rc_outcome = None\<rparr>"

definition receipt_link :: "sc_receipt_chain \<Rightarrow> int \<Rightarrow> bool \<Rightarrow> sc_tool_receipt \<Rightarrow> sc_tool_receipt" where
  "receipt_link chain now success r =
     (let r' = r\<lparr>rc_started_at := now, rc_ended_at := now, rc_success := success,
                 rc_previous_hash := (if length (items (receipts chain)) > 0
                                      then rc_hash (last (items (receipts chain))) else 0)\<rparr> in
      r'\<lparr>rc_hash := receipt_hash r'\<rparr>)"

definition receipt_seal ::
    "sodium \<Rightarrow> timespec \<Rightarrow> sc_receipt_chain \<Rightarrow> bool \<Rightarrow> receipt_state \<Rightarrow> receipt_state" where
  "receipt_seal sd ts chain success s =
     (case s of (st, r, a) \<Rightarrow>
        (if \<not> sc_status_is_ok st then s
         else (case sc_clock_wall ts of
                 Inl e \<Rightarrow> (e, r, a)
               | Inr now \<Rightarrow>
                   (let r' = receipt_link chain now success r in
                    (case receipt_token sd chain r' a of
                       (Inl e, a') \<Rightarrow> (e, r', a')
                     | (Inr t, a') \<Rightarrow> (sc_status_ok, r'\<lparr>rc_token := t\<rparr>, a'))))))"

definition receipt_fields ::
    "sc_str \<Rightarrow> sc_str \<Rightarrow> sc_str \<Rightarrow> sc_str \<Rightarrow> sc_str \<Rightarrow> sc_str \<Rightarrow> sc_allocator \<Rightarrow> receipt_state" where
  "receipt_fields tool args outp decision reason outc a =
     receipt_copy (\<lambda>v r. r\<lparr>rc_outcome := v\<rparr>) outc
     (receipt_copy (\<lambda>v r. r\<lparr>rc_failure_reason := v\<rparr>) reason
     (receipt_copy (\<lambda>v r. r\<lparr>rc_policy_decision := v\<rparr>) decision
     (receipt_copy (\<lambda>v r. r\<lparr>rc_output_summary := v\<rparr>) outp
     (receipt_copy (\<lambda>v r. r\<lparr>rc_args_summary := v\<rparr>) args
     (receipt_copy (\<lambda>v r. r\<lparr>rc_tool_name := v\<rparr>) tool
     (sc_status_ok, receipt_zero, a))))))"

definition sc_receipt_chain_append_ex ::
    "sodium \<Rightarrow> timespec \<Rightarrow> sc_receipt_chain \<Rightarrow> sc_str \<Rightarrow> sc_str \<Rightarrow> sc_str \<Rightarrow> bool \<Rightarrow> sc_str \<Rightarrow> sc_str \<Rightarrow> sc_str \<Rightarrow>
       sc_allocator \<Rightarrow> sc_status \<times> sc_receipt_chain \<times> sc_allocator" where
  "sc_receipt_chain_append_ex sd ts chain tool args outp success decision reason outc a =
     (if str_len tool = 0 \<or> ptr_null tool
      then (sc_status_invalid_argument ''sc.receipt.invalid_argument'', chain, a)
      else (case receipt_seal sd ts chain success (receipt_fields tool args outp decision reason outc a) of
              (st, r, a1) \<Rightarrow>
                (if \<not> sc_status_is_ok st then (st, chain, receipt_clear r a1)
                 else (case sc_vec_push (receipts chain) (Some r) a1 of
                         (st2, rs, a2) \<Rightarrow>
                           (st2, chain\<lparr>receipts := rs\<rparr>,
                            (if \<not> sc_status_is_ok st2 then receipt_clear r a2 else a2))))))"

definition sc_receipt_chain_append ::
    "sodium \<Rightarrow> timespec \<Rightarrow> sc_receipt_chain \<Rightarrow> sc_str \<Rightarrow> sc_str \<Rightarrow> sc_str \<Rightarrow> bool \<Rightarrow>
       sc_allocator \<Rightarrow> sc_status \<times> sc_receipt_chain \<times> sc_allocator" where
  "sc_receipt_chain_append sd ts chain tool args outp success a =
     sc_receipt_chain_append_ex sd ts chain tool args outp success (Str ''allowed'')
       (if success then NullStr 0 else Str ''sc.tool.failed'')
       (if success then Str ''ok'' else Str ''error'') a"

section \<open>Verifying\<close>

definition verify_receipt_token ::
    "sodium \<Rightarrow> sc_receipt_chain \<Rightarrow> sc_tool_receipt \<Rightarrow> sc_str \<Rightarrow> sc_allocator \<Rightarrow> bool \<times> sc_allocator" where
  "verify_receipt_token sd chain r tok a =
     (if \<not> key_initialized chain \<or> ptr_null tok \<or> str_len tok = 0 then (False, a)
      else (case receipt_token sd chain r a of
              (Inl e, a1) \<Rightarrow> (False, a1)
            | (Inr expected, a1) \<Rightarrow>
                (sc_str_equal (sc_string_as_str expected) tok, sc_string_clear expected a1)))"

definition sc_receipt_chain_verify_token ::
    "sodium \<Rightarrow> sc_receipt_chain \<Rightarrow> nat \<Rightarrow> sc_str \<Rightarrow> sc_allocator \<Rightarrow> bool \<times> sc_allocator" where
  "sc_receipt_chain_verify_token sd chain index tok a =
     (case sc_vec_at_const (receipts chain) index of
        None \<Rightarrow> (False, a)
      | Some r \<Rightarrow> verify_receipt_token sd chain r tok a)"

text \<open>The loop over the receipts; the index it passes on designates the receipt at hand.\<close>

fun receipt_verify_from ::
    "sodium \<Rightarrow> sc_receipt_chain \<Rightarrow> 64 word \<Rightarrow> sc_tool_receipt list \<Rightarrow> sc_allocator \<Rightarrow> bool \<times> sc_allocator" where
  "receipt_verify_from sd chain h [] a = (True, a)"
| "receipt_verify_from sd chain h (r # rs) a =
     (if rc_previous_hash r \<noteq> h \<or> receipt_hash r \<noteq> rc_hash r then (False, a)
      else (case verify_receipt_token sd chain r (sc_string_as_str (rc_token r)) a of
              (ok, a1) \<Rightarrow> (if \<not> ok then (False, a1) else receipt_verify_from sd chain (rc_hash r) rs a1)))"

definition sc_receipt_chain_verify :: "sodium \<Rightarrow> sc_receipt_chain \<Rightarrow> sc_allocator \<Rightarrow> bool \<times> sc_allocator" where
  "sc_receipt_chain_verify sd chain a = receipt_verify_from sd chain 0 (items (receipts chain)) a"

fun clear_receipts :: "sc_tool_receipt list \<Rightarrow> sc_allocator \<Rightarrow> sc_allocator" where
  "clear_receipts [] a = a"
| "clear_receipts (r # rs) a = clear_receipts rs (receipt_clear r a)"

definition sc_receipt_chain_clear :: "sc_receipt_chain \<Rightarrow> sc_allocator \<Rightarrow> sc_allocator" where
  "sc_receipt_chain_clear chain a = snd (sc_vec_clear (receipts chain) (clear_receipts (items (receipts chain)) a))"

section \<open>The chain of valid receipts\<close>

text \<open>The receipt carries the token its fields have under the key, and the token fits.\<close>

definition sealed_receipt :: "sodium \<Rightarrow> sc_receipt_chain \<Rightarrow> sc_tool_receipt \<Rightarrow> bool" where
  "sealed_receipt sd chain r \<longleftrightarrow> receipt_hash r = rc_hash r \<and> key_initialized chain \<and>
     length (token_text sd (session_key chain) r) < 128 \<and>
     (\<exists>t. rc_token r = Some t \<and> t = takeWhile (\<lambda>c. c \<noteq> CHR 0x00) (token_text sd (session_key chain) r) \<and> t \<noteq> [])"

fun valid_receipts :: "sodium \<Rightarrow> sc_receipt_chain \<Rightarrow> 64 word \<Rightarrow> sc_tool_receipt list \<Rightarrow> bool" where
  "valid_receipts sd chain h [] = True"
| "valid_receipts sd chain h (r # rs) \<longleftrightarrow>
     rc_previous_hash r = h \<and> sealed_receipt sd chain r \<and> valid_receipts sd chain (rc_hash r) rs"

interpretation receipt: hash_chain rc_previous_hash rc_hash "sealed_receipt sd chain" "valid_receipts sd chain"
  for sd chain
  by unfold_locales auto

lemma receipt_token_cases:
  assumes "receipt_token sd chain r a = (res, a')"
  shows "(\<exists>e. res = Inl e \<and> \<not> sc_status_is_ok e \<and> live a' = live a) \<or>
    (res = Inr (Some (takeWhile (\<lambda>c. c \<noteq> CHR 0x00) (token_text sd (session_key chain) r))) \<and>
     live a' = live a + 1 \<and> key_initialized chain \<and> length (token_text sd (session_key chain) r) < 128)"
  using assms
  by (cases res) (auto simp: receipt_token_def Let_def sc_string_from_cstr_def sc_str_from_cstr_def
      split: if_splits dest: string_from_str_Inl string_from_str_Inr)

lemma verify_token_spec:
  assumes "verify_receipt_token sd chain r (sc_string_as_str (rc_token r)) a = (ok, a')"
    "receipt_hash r = rc_hash r"
  shows "live a' = live a" "ok \<Longrightarrow> sealed_receipt sd chain r"
proof -
  obtain res a1 where t: "receipt_token sd chain r a = (res, a1)" by (cases "receipt_token sd chain r a")
  have "live a' = live a \<and> (ok \<longrightarrow> sealed_receipt sd chain r)"
    using assms t receipt_token_cases [OF t]
    by (cases "rc_token r"; cases res)
      (auto simp: verify_receipt_token_def sealed_receipt_def split: if_splits)
  then show "live a' = live a" "ok \<Longrightarrow> sealed_receipt sd chain r" by auto
qed

lemma verify_from_spec:
  "receipt_verify_from sd chain h rs a = (ok, a') \<Longrightarrow>
     live a' = live a \<and> (ok \<longrightarrow> valid_receipts sd chain h rs)"
proof (induction rs arbitrary: h a)
  case (Cons r rs)
  show ?case
  proof (cases "rc_previous_hash r \<noteq> h \<or> receipt_hash r \<noteq> rc_hash r")
    case True
    with Cons.prems show ?thesis by auto
  next
    case False
    obtain ok1 a1 where v: "verify_receipt_token sd chain r (sc_string_as_str (rc_token r)) a = (ok1, a1)"
      by (cases "verify_receipt_token sd chain r (sc_string_as_str (rc_token r)) a")
    with False verify_token_spec [OF v] Cons show ?thesis by (auto split: if_splits)
  qed
qed simp

text \<open>With an allocator that refuses nothing, the converse.\<close>

lemma verify_token_generous:
  assumes "generous a" "sealed_receipt sd chain r"
  shows "\<exists>a'. verify_receipt_token sd chain r (sc_string_as_str (rc_token r)) a = (True, a') \<and> generous a'"
proof -
  let ?t = "takeWhile (\<lambda>c. c \<noteq> CHR 0x00) (token_text sd (session_key chain) r)"
  have t: "key_initialized chain" "length (token_text sd (session_key chain) r) < 128" "rc_token r = Some ?t" "?t \<noteq> []"
    using assms(2) by (auto simp: sealed_receipt_def)
  have "length ?t < SIZE_MAX"
    using t(2) length_takeWhile_le [of "\<lambda>c. c \<noteq> CHR 0x00" "token_text sd (session_key chain) r"]
    by (simp add: SIZE_MAX_def)
  then obtain a1 where "receipt_token sd chain r a = (Inr (Some ?t), a1)" "generous a1"
    using string_from_str_generous [OF assms(1), of ?t] t(1,2)
    by (auto simp: receipt_token_def sc_string_from_cstr_def sc_str_from_cstr_def)
  with t show ?thesis by (auto simp: verify_receipt_token_def)
qed

lemma verify_from_generous:
  "generous a \<Longrightarrow> valid_receipts sd chain h rs \<Longrightarrow>
   \<exists>a'. receipt_verify_from sd chain h rs a = (True, a') \<and> generous a'"
proof (induction rs arbitrary: h a)
  case (Cons r rs)
  then have s: "sealed_receipt sd chain r" "rc_previous_hash r = h" "receipt_hash r = rc_hash r"
    "valid_receipts sd chain (rc_hash r) rs"
    by (auto simp: sealed_receipt_def)
  obtain a1 where a1: "verify_receipt_token sd chain r (sc_string_as_str (rc_token r)) a = (True, a1)" "generous a1"
    using verify_token_generous [OF Cons.prems(1) s(1)] by blast
  obtain a2 where "receipt_verify_from sd chain (rc_hash r) rs a1 = (True, a2)" "generous a2"
    using Cons.IH [OF a1(2) s(4)] by blast
  with a1 s show ?case by simp
qed simp

section \<open>An append keeps the chain valid\<close>

definition receipt_blocks :: "sc_tool_receipt \<Rightarrow> int" where
  "receipt_blocks r = string_blocks (rc_tool_name r) + string_blocks (rc_args_summary r) +
     string_blocks (rc_output_summary r) + string_blocks (rc_token r) + string_blocks (rc_policy_decision r) +
     string_blocks (rc_failure_reason r) + string_blocks (rc_outcome r)"

definition chain_blocks :: "sc_receipt_chain \<Rightarrow> int" where
  "chain_blocks chain = vec_blocks (receipts chain) + sum_list (map receipt_blocks (items (receipts chain)))"

lemma receipt_clear_live [simp]: "live (receipt_clear r a) = live a - receipt_blocks r"
  by (simp add: receipt_clear_def receipt_blocks_def)

lemma clear_receipts_live: "live (clear_receipts rs a) = live a - sum_list (map receipt_blocks rs)"
  by (induction rs arbitrary: a) auto

lemma receipt_chain_clear_live:
  "vec_inv (receipts chain) \<Longrightarrow> live (sc_receipt_chain_clear chain a) = live a - chain_blocks chain"
  by (simp add: sc_receipt_chain_clear_def vec_clear_live clear_receipts_live chain_blocks_def)

abbreviation rs_ok :: "receipt_state \<Rightarrow> bool" where
  "rs_ok s \<equiv> sc_status_is_ok (fst s)"

abbreviation rs_receipt :: "receipt_state \<Rightarrow> sc_tool_receipt" where
  "rs_receipt s \<equiv> fst (snd s)"

definition rs_balanced :: "int \<Rightarrow> receipt_state \<Rightarrow> bool" where
  "rs_balanced l s \<longleftrightarrow> live (snd (snd s)) = l + receipt_blocks (rs_receipt s)"

lemma receipt_copy_ok:
  assumes "rs_ok (receipt_copy upd input s)"
  shows "rs_ok s \<and> rs_receipt (receipt_copy upd input s) = upd (Some (str_bytes input)) (rs_receipt s)"
proof -
  obtain st r a where s: "s = (st, r, a)" by (cases s)
  obtain res a' where c: "sc_string_from_str input a = (res, a')" by (cases "sc_string_from_str input a")
  with assms s show ?thesis
    by (cases res) (auto simp: receipt_copy_def split: if_splits dest: string_from_str_Inr string_from_str_Inl)
qed

lemma receipt_copy_balanced:
  assumes "rs_balanced l s"
    "receipt_blocks (upd (Some (str_bytes input)) (rs_receipt s)) = receipt_blocks (rs_receipt s) + 1"
  shows "rs_balanced l (receipt_copy upd input s)"
proof -
  obtain st r a where s: "s = (st, r, a)" by (cases s)
  obtain res a' where c: "sc_string_from_str input a = (res, a')" by (cases "sc_string_from_str input a")
  with assms s string_from_str_Inr [of input a _ a'] string_from_str_Inl [of input a _ a'] show ?thesis
    by (cases res) (auto simp: receipt_copy_def rs_balanced_def)
qed

lemma receipt_copy_frame:
  "(\<And>v r. f (upd v r) = f r) \<Longrightarrow> f (rs_receipt (receipt_copy upd input s)) = f (rs_receipt s)"
  by (auto simp: receipt_copy_def split: prod.splits sum.splits if_splits)

lemmas receipt_copy_frames [simp] =
  receipt_copy_frame [of rc_tool_name] receipt_copy_frame [of rc_args_summary]
  receipt_copy_frame [of rc_output_summary] receipt_copy_frame [of rc_policy_decision]
  receipt_copy_frame [of rc_failure_reason] receipt_copy_frame [of rc_outcome] receipt_copy_frame [of rc_token]

lemma receipt_fields_balanced: "rs_balanced (live a) (receipt_fields tool args outp decision reason outc a)"
  unfolding receipt_fields_def
  by (intro receipt_copy_balanced) (simp_all add: rs_balanced_def receipt_blocks_def receipt_zero_def)

lemma receipt_fields_token: "rc_token (rs_receipt (receipt_fields tool args outp decision reason outc a)) = None"
  by (simp add: receipt_fields_def receipt_zero_def)

lemma receipt_fields_ok:
  assumes "rs_ok (receipt_fields tool args outp decision reason outc a)"
  shows "rs_receipt (receipt_fields tool args outp decision reason outc a) =
    receipt_zero\<lparr>rc_tool_name := Some (str_bytes tool), rc_args_summary := Some (str_bytes args),
      rc_output_summary := Some (str_bytes outp), rc_policy_decision := Some (str_bytes decision),
      rc_failure_reason := Some (str_bytes reason), rc_outcome := Some (str_bytes outc)\<rparr>"
  using assms unfolding receipt_fields_def by (auto dest!: receipt_copy_ok)

lemma receipt_hash_frame [simp]:
  "receipt_hash (r\<lparr>rc_hash := h\<rparr>) = receipt_hash r" "receipt_hash (r\<lparr>rc_token := t\<rparr>) = receipt_hash r"
  by (simp_all add: receipt_hash_def)

lemma token_text_frame [simp]:
  "token_text sd key (r\<lparr>rc_token := t\<rparr>) = token_text sd key r"
  by (simp add: token_text_def receipt_mac_bytes_def)

lemma token_text_start: "takeWhile (\<lambda>c. c \<noteq> CHR 0x00) (token_text sd key r) \<noteq> []"
  by (simp add: token_text_def)

lemma receipt_link_frame [simp]:
  "receipt_blocks (receipt_link chain now b r) = receipt_blocks r"
  "rc_token (receipt_link chain now b r) = rc_token r"
  "receipt_hash (receipt_link chain now b r) = rc_hash (receipt_link chain now b r)"
  "rc_previous_hash (receipt_link chain now b r) = receipt.tip 0 (items (receipts chain))"
  "rc_success (receipt_link chain now b r) = b"
  by (simp_all add: receipt_link_def Let_def receipt_blocks_def receipt.tip_def)

lemma receipt_seal_spec:
  assumes "receipt_seal sd ts chain b s = (st, r, a')" "rs_balanced l s" "rc_token (rs_receipt s) = None"
  shows "live a' = l + receipt_blocks r"
    and "sc_status_is_ok st \<Longrightarrow> rs_ok s \<and> rc_previous_hash r = receipt.tip 0 (items (receipts chain)) \<and>
      sealed_receipt sd chain r \<and> rc_success r = b \<and>
      (\<exists>now. sc_clock_wall ts = Inr now \<and> r = (receipt_link chain now b (rs_receipt s))\<lparr>rc_token := rc_token r\<rparr>)"
proof -
  obtain st0 r0 a0 where s: "s = (st0, r0, a0)" by (cases s)
  have "live a' = l + receipt_blocks r \<and> (sc_status_is_ok st \<longrightarrow> rs_ok s \<and>
      rc_previous_hash r = receipt.tip 0 (items (receipts chain)) \<and> sealed_receipt sd chain r \<and> rc_success r = b \<and>
      (\<exists>now. sc_clock_wall ts = Inr now \<and> r = (receipt_link chain now b (rs_receipt s))\<lparr>rc_token := rc_token r\<rparr>))"
  proof (cases "sc_status_is_ok st0 \<and> (\<exists>now. sc_clock_wall ts = Inr now)")
    case False
    have "\<not> sc_status_is_ok e" if "sc_clock_wall ts = Inl e" for e
      using that by (auto simp: sc_clock_wall_def split: option.splits)
    with False assms s show ?thesis
      by (auto simp: receipt_seal_def rs_balanced_def split: if_splits sum.splits)
  next
    case True
    then obtain now where ok: "sc_status_is_ok st0" "sc_clock_wall ts = Inr now" by blast
    define r1 where "r1 = receipt_link chain now b r0"
    obtain res a1 where t: "receipt_token sd chain r1 a0 = (res, a1)" by (cases "receipt_token sd chain r1 a0")
    have blk: "receipt_blocks r1 = receipt_blocks r0" "rc_token r1 = None"
      using assms(3) s by (simp_all add: r1_def)
    show ?thesis
    proof (cases res)
      case (Inl e)
      with assms s ok t blk receipt_token_cases [OF t] show ?thesis
        by (auto simp: receipt_seal_def r1_def [symmetric] rs_balanced_def)
    next
      case (Inr tk)
      with receipt_token_cases [OF t] have tk:
        "tk = Some (takeWhile (\<lambda>c. c \<noteq> CHR 0x00) (token_text sd (session_key chain) r1))"
        "live a1 = live a0 + 1" "key_initialized chain" "length (token_text sd (session_key chain) r1) < 128"
        by auto
      from assms(1) s ok t Inr have out: "st = sc_status_ok" "r = r1\<lparr>rc_token := tk\<rparr>" "a' = a1"
        by (auto simp: receipt_seal_def r1_def [symmetric])
      have "receipt_blocks r = receipt_blocks r1 + 1"
        using blk(2) tk(1) by (simp add: out receipt_blocks_def)
      moreover have "sealed_receipt sd chain r"
        using tk token_text_start [of sd "session_key chain" r1]
        by (simp add: out sealed_receipt_def) (simp add: r1_def)
      moreover have "rc_previous_hash r = receipt.tip 0 (items (receipts chain))" "rc_success r = b"
        by (simp_all add: out r1_def)
      ultimately show ?thesis
        using assms(2) s ok blk tk(2) by (auto simp: rs_balanced_def out r1_def [symmetric])
    qed
  qed
  then show "live a' = l + receipt_blocks r"
    and "sc_status_is_ok st \<Longrightarrow> rs_ok s \<and> rc_previous_hash r = receipt.tip 0 (items (receipts chain)) \<and>
      sealed_receipt sd chain r \<and> rc_success r = b \<and>
      (\<exists>now. sc_clock_wall ts = Inr now \<and> r = (receipt_link chain now b (rs_receipt s))\<lparr>rc_token := rc_token r\<rparr>)"
    by auto
qed

lemma receipt_append_spec:
  assumes "sc_receipt_chain_append_ex sd ts chain tool args outp success decision reason outc a = (st, chain', a')"
    "vec_inv (receipts chain)"
  shows "vec_inv (receipts chain') \<and> live a' = live a + chain_blocks chain' - chain_blocks chain \<and>
    (\<not> sc_status_is_ok st \<longrightarrow> chain' = chain) \<and>
    (sc_status_is_ok st \<longrightarrow> session_key chain' = session_key chain \<and> key_initialized chain' = key_initialized chain \<and>
      (\<exists>r. items (receipts chain') = items (receipts chain) @ [r] \<and> sealed_receipt sd chain r \<and>
         rc_previous_hash r = receipt.tip 0 (items (receipts chain)) \<and> rc_success r = success \<and>
         rc_tool_name r = Some (str_bytes tool) \<and> rc_args_summary r = Some (str_bytes args) \<and>
         rc_output_summary r = Some (str_bytes outp)))"
proof (cases "str_len tool = 0 \<or> ptr_null tool")
  case True
  with assms show ?thesis by (auto simp: sc_receipt_chain_append_ex_def)
next
  case False
  define s where "s = receipt_fields tool args outp decision reason outc a"
  obtain st1 r a1 where seal: "receipt_seal sd ts chain success s = (st1, r, a1)"
    by (cases "receipt_seal sd ts chain success s")
  note sp = receipt_seal_spec [OF seal receipt_fields_balanced [of a tool args outp decision reason outc, folded s_def]
      receipt_fields_token [of tool args outp decision reason outc a, folded s_def]]
  show ?thesis
  proof (cases "sc_status_is_ok st1")
    case bad: False
    with assms False seal sp(1) show ?thesis
      by (auto simp: sc_receipt_chain_append_ex_def s_def [symmetric])
  next
    case ok: True
    obtain st2 rs a2 where p: "sc_vec_push (receipts chain) (Some r) a1 = (st2, rs, a2)"
      by (cases "sc_vec_push (receipts chain) (Some r) a1")
    note vp = vec_push_spec [OF p assms(2)]
    from assms(1) False seal ok p have out: "st = st2" "chain' = chain\<lparr>receipts := rs\<rparr>"
      "a' = (if \<not> sc_status_is_ok st2 then receipt_clear r a2 else a2)"
      by (auto simp: sc_receipt_chain_append_ex_def s_def [symmetric])
    from sp(2) [OF ok] obtain now where r: "rs_ok s" "sealed_receipt sd chain r" "rc_success r = success"
      "rc_previous_hash r = receipt.tip 0 (items (receipts chain))"
      "r = (receipt_link chain now success (rs_receipt s))\<lparr>rc_token := rc_token r\<rparr>" by blast
    have fields: "rc_tool_name r = Some (str_bytes tool)" "rc_args_summary r = Some (str_bytes args)"
      "rc_output_summary r = Some (str_bytes outp)"
      using receipt_fields_ok [OF r(1) [unfolded s_def], folded s_def]
      by (subst r(5), simp add: receipt_link_def Let_def)+
    show ?thesis
      using vp sp(1) r fields by (auto simp: out chain_blocks_def)
  qed
qed

section \<open>The authenticated bytes determine the fields\<close>

lemma length_u64_bytes [simp]: "length (u64_bytes v) = 8"
  by (simp add: u64_bytes_def)

lemma u64_bytes_inj: "u64_bytes v = u64_bytes w \<Longrightarrow> v = w"
proof (rule bit_eqI)
  fix n assume eq: "u64_bytes v = u64_bytes w" and n: "possible_bit TYPE(64 word) n"
  then have "n < 64" by simp
  define i j where "i = n div 8" and "j = n mod 8"
  have n': "n = i * 8 + j" "i < 8" "j < 8"
    using \<open>n < 64\<close> by (auto simp: i_def j_def div_less_iff_less_mult)
  from eq n'(2) have "unat (drop_bit (i * 8) v AND 0xFF) = unat (drop_bit (i * 8) w AND 0xFF)"
    unfolding u64_bytes_def by (metis (no_types, lifting) nth_map_upt diff_zero add_0)
  then have "drop_bit (i * 8) v AND 0xFF = drop_bit (i * 8) w AND 0xFF"
    by (rule unsigned_word_eqI)
  then have "bit (drop_bit (i * 8) v AND 0xFF) j = bit (drop_bit (i * 8) w AND 0xFF) j" by simp
  moreover have "bit (0xFF :: 64 word) j"
  proof -
    have "(0xFF :: 64 word) = mask 8" by (simp add: mask_eq_exp_minus_1)
    then show ?thesis using n'(3) by (simp only: bit_mask_iff) simp
  qed
  ultimately show "bit v n = bit w n"
    by (simp add: bit_and_iff bit_drop_bit_eq n'(1) add.commute)
qed

lemma mac_u64_append: "mac_u64 v @ x = mac_u64 w @ y \<Longrightarrow> v = w \<and> x = y"
  by (simp add: mac_u64_def) (metis append_eq_append_conv length_u64_bytes u64_bytes_inj)

text \<open>An owned string as the code reads it: a null pointer is the empty text.\<close>

lemma mac_str_owned: "mac_str (sc_string_as_str s) = mac_u64 (word_of_nat (length (owned_text s))) @ map of_char (owned_text s)"
  by (cases s) (auto simp: mac_str_def)

lemma mac_str_append:
  assumes "mac_str (sc_string_as_str s) @ x = mac_str (sc_string_as_str t) @ y"
    "string_len s \<le> SIZE_MAX" "string_len t \<le> SIZE_MAX"
  shows "owned_text s = owned_text t \<and> x = y"
proof -
  have len: "length (owned_text s) < 2 ^ 64" "length (owned_text t) < 2 ^ 64"
    using assms(2,3) by (cases s; cases t; simp add: SIZE_MAX_def)+
  have "mac_u64 (word_of_nat (length (owned_text s))) @ (map of_char (owned_text s) @ x) =
      mac_u64 (word_of_nat (length (owned_text t))) @ (map of_char (owned_text t) @ y)"
    using assms(1) by (simp add: mac_str_owned)
  from mac_u64_append [OF this] have
    w: "(word_of_nat (length (owned_text s)) :: 64 word) = word_of_nat (length (owned_text t))"
    and rest: "map of_char (owned_text s) @ x = (map of_char (owned_text t) @ y :: nat list)" by auto
  from w have "unat (word_of_nat (length (owned_text s)) :: 64 word) = unat (word_of_nat (length (owned_text t)) :: 64 word)"
    by simp
  then have "length (owned_text s) = length (owned_text t)"
    using len by (simp add: unat_of_nat take_bit_nat_eq_self)
  with rest have "map (of_char :: char \<Rightarrow> nat) (owned_text s) = map of_char (owned_text t)" "x = y" by auto
  moreover have "inj (of_char :: char \<Rightarrow> nat)" by (rule inj_of_char)
  ultimately show ?thesis by (simp add: inj_map_eq_map)
qed

definition int64 :: "int \<Rightarrow> bool" where
  "int64 n \<longleftrightarrow> - (2 ^ 63) \<le> n \<and> n < 2 ^ 63"

lemma int64_word_inj:
  assumes "int64 m" "int64 n" "(word_of_int m :: 64 word) = word_of_int n"
  shows "m = n"
proof -
  have "sint (word_of_int m :: 64 word) = sint (word_of_int n :: 64 word)" using assms(3) by simp
  then show ?thesis
    using assms(1,2) by (simp add: int64_def sint_sbintrunc' signed_take_bit_int_eq_self)
qed

definition c_receipt :: "sc_tool_receipt \<Rightarrow> bool" where
  "c_receipt r \<longleftrightarrow> list_all (\<lambda>s. string_len s \<le> SIZE_MAX)
      [rc_tool_name r, rc_args_summary r, rc_output_summary r, rc_policy_decision r, rc_failure_reason r, rc_outcome r]
    \<and> int64 (rc_started_at r) \<and> int64 (rc_ended_at r)"

lemma mac_bool_inj: "mac_bool b = mac_bool c \<Longrightarrow> b = c"
  using mac_u64_append [of "if b then 1 else 0" "[]" "if c then 1 else 0" "[]"]
  by (cases b; cases c) (auto simp: mac_bool_def)

lemma receipt_mac_inj:
  assumes "receipt_mac_bytes r = receipt_mac_bytes q" "c_receipt r" "c_receipt q"
  shows "rc_previous_hash r = rc_previous_hash q \<and> owned_text (rc_tool_name r) = owned_text (rc_tool_name q) \<and>
    owned_text (rc_args_summary r) = owned_text (rc_args_summary q) \<and>
    owned_text (rc_output_summary r) = owned_text (rc_output_summary q) \<and>
    owned_text (rc_policy_decision r) = owned_text (rc_policy_decision q) \<and>
    owned_text (rc_failure_reason r) = owned_text (rc_failure_reason q) \<and>
    owned_text (rc_outcome r) = owned_text (rc_outcome q) \<and>
    rc_started_at r = rc_started_at q \<and> rc_ended_at r = rc_ended_at q \<and> rc_success r = rc_success q"
proof -
  note len = assms(2,3) [unfolded c_receipt_def, simplified]
  note e0 = mac_u64_append [OF assms(1) [unfolded receipt_mac_bytes_def]]
  note e1 = mac_str_append [OF e0 [THEN conjunct2]]
  note e2 = mac_str_append [OF e1 [THEN conjunct2]]
  note e3 = mac_str_append [OF e2 [THEN conjunct2]]
  note e4 = mac_str_append [OF e3 [THEN conjunct2]]
  note e5 = mac_str_append [OF e4 [THEN conjunct2]]
  note e6 = mac_str_append [OF e5 [THEN conjunct2]]
  note e7 = mac_u64_append [OF e6 [THEN conjunct2]]
  note e8 = mac_u64_append [OF e7 [THEN conjunct2]]
  have "rc_started_at r = rc_started_at q" "rc_ended_at r = rc_ended_at q" "rc_success r = rc_success q"
    using e7 e8 mac_bool_inj int64_word_inj len by auto
  then show ?thesis using e0 e1 e2 e3 e4 e5 e6 len by auto
qed

end
