(* ===== verification/SC_Steps.thy ===== *)
theory SC_Steps
  imports SC_Vector
begin

text \<open>
  How the program fills a record, field by field, and how the blocks held by what was filled so far
  are accounted for. The components that copy their arguments into a record share this pattern.
\<close>

section \<open>Filling a record step by step\<close>

text \<open>
  The idiom \<^verbatim>\<open>if (sc_status_is_ok(status)) { status = op(..., &out->field); }\<close>: a step runs only
  while the status is a success, and a failing step leaves its field as it was.
\<close>

type_synonym 'q fill_state = "sc_status \<times> 'q \<times> sc_allocator"

definition fill ::
    "('q \<Rightarrow> sc_allocator \<Rightarrow> 'v res \<times> sc_allocator) \<Rightarrow> ('v \<Rightarrow> 'q \<Rightarrow> 'q) \<Rightarrow> 'q fill_state \<Rightarrow> 'q fill_state" where
  "fill op put s =
     (case s of (st, q, a) \<Rightarrow>
        (if \<not> sc_status_is_ok st then s
         else (case op q a of (Inl e, a1) \<Rightarrow> (e, q, a1) | (Inr v, a1) \<Rightarrow> (sc_status_ok, put v q, a1))))"

lemma fill_failed [simp]: "\<not> sc_status_is_ok st \<Longrightarrow> fill op put (st, q, a) = (st, q, a)"
  by (simp add: fill_def)

lemma fill_cases:
  assumes "fill op put (st, q, a) = (st', q', a')" "sc_status_is_ok st"
  obtains (failed) e where "op q a = (Inl e, a')" "st' = e" "q' = q"
  | (stored) v where "op q a = (Inr v, a')" "st' = sc_status_ok" "q' = put v q"
proof (cases "op q a")
  case (Pair r a1)
  show thesis
  proof (cases r)
    case (Inl e)
    with Pair assms have "st' = e" "q' = q" "a' = a1" by (simp_all add: fill_def)
    with Pair Inl show thesis by (intro failed) simp_all
  next
    case (Inr v)
    with Pair assms have "st' = sc_status_ok" "q' = put v q" "a' = a1" by (simp_all add: fill_def)
    with Pair Inr show thesis by (intro stored) simp_all
  qed
qed

text \<open>
  \<open>filled B k R Q\<close>: the blocks taken since \<open>k\<close> are those of the record, which satisfies \<open>R\<close>, and as long as no
  step failed it satisfies \<open>Q\<close>.
\<close>

definition filled :: "('q \<Rightarrow> int) \<Rightarrow> int \<Rightarrow> ('q \<Rightarrow> bool) \<Rightarrow> ('q \<Rightarrow> bool) \<Rightarrow> 'q fill_state \<Rightarrow> bool" where
  "filled B k R Q s \<longleftrightarrow> (case s of (st, q, a) \<Rightarrow> live a = k + B q \<and> R q \<and> (sc_status_is_ok st \<longrightarrow> Q q))"

lemma fill_filled:
  assumes "filled B k R Q s"
    and "\<And>q a e a'. Q q \<Longrightarrow> op q a = (Inl e, a') \<Longrightarrow> \<not> sc_status_is_ok e \<and> live a' = live a"
    and "\<And>q a v a'. Q q \<Longrightarrow> R q \<Longrightarrow> op q a = (Inr v, a') \<Longrightarrow>
      live a' = live a + (B (put v q) - B q) \<and> R (put v q) \<and> Q' (put v q)"
  shows "filled B k R Q' (fill op put s)"
proof -
  obtain st q a where s: "s = (st, q, a)" by (cases s)
  show ?thesis
  proof (cases "sc_status_is_ok st")
    case True
    with assms(1) s have q: "live a = k + B q" "R q" "Q q" by (auto simp: filled_def)
    obtain st' q' a' where out: "fill op put (st, q, a) = (st', q', a')" by (cases "fill op put (st, q, a)")
    from out True show ?thesis
    proof (cases rule: fill_cases)
      case (failed e)
      with assms(2) [OF q(3)] q out s show ?thesis by (auto simp: filled_def)
    next
      case (stored v)
      with assms(3) [OF q(3,2)] q out s show ?thesis by (auto simp: filled_def)
    qed
  qed (use assms(1) s in \<open>simp add: filled_def\<close>)
qed

text \<open>The same with an allocator that refuses nothing.\<close>

lemma fill_filled_generous:
  assumes "filled B k R Q s" "generous (snd (snd s))"
    and "\<And>q a e a'. Q q \<Longrightarrow> generous a \<Longrightarrow> op q a = (Inl e, a') \<Longrightarrow> \<not> sc_status_is_ok e \<and> live a' = live a \<and> generous a'"
    and "\<And>q a v a'. Q q \<Longrightarrow> R q \<Longrightarrow> generous a \<Longrightarrow> op q a = (Inr v, a') \<Longrightarrow>
      live a' = live a + (B (put v q) - B q) \<and> R (put v q) \<and> Q' (put v q) \<and> generous a'"
  shows "filled B k R Q' (fill op put s)" "generous (snd (snd (fill op put s)))"
proof -
  obtain st q a where s: "s = (st, q, a)" by (cases s)
  have "filled B k R Q' (fill op put s) \<and> generous (snd (snd (fill op put s)))"
  proof (cases "sc_status_is_ok st")
    case True
    with assms(1,2) s have q: "live a = k + B q" "R q" "Q q" "generous a" by (auto simp: filled_def)
    obtain st' q' a' where out: "fill op put (st, q, a) = (st', q', a')" by (cases "fill op put (st, q, a)")
    from out True show ?thesis
    proof (cases rule: fill_cases)
      case (failed e)
      with assms(3) [OF q(3,4)] q out s show ?thesis by (auto simp: filled_def)
    next
      case (stored v)
      with assms(4) [OF q(3,2,4)] q out s show ?thesis by (auto simp: filled_def)
    qed
  qed (use assms(1,2) s in \<open>simp add: filled_def\<close>)
  then show "filled B k R Q' (fill op put s)" "generous (snd (snd (fill op put s)))" by blast+
qed

end
