(* ===== verification/SC_Turn_Queue.thy ===== *)
theory SC_Turn_Queue
  imports SC_Steps SC_Ctype
begin

text \<open>
  The queue of agent turns, \<^verbatim>\<open>src/runtime/turn_queue.c\<close>, and the cancel tokens of
  \<^verbatim>\<open>src/runtime/loop.c\<close> it uses. A job that arrives while an earlier job of the same session and
  thread waits or runs cancels it and takes over its window of consecutive messages. The event
  loop starts at most one turn at a time; its completion removes the head of the queue. The
  callback of a job and its user data are one value of the type \<open>'u\<close>; calling it is an entry of
  the log \<open>completed\<close>.
\<close>

section \<open>Cancel tokens\<close>

record sc_cancel_token =
  token_cancelled :: bool
  token_reason :: sc_string

definition token_zero :: sc_cancel_token where
  "token_zero = \<lparr>token_cancelled = False, token_reason = None\<rparr>"

definition sc_cancel_token_init :: "sc_allocator \<Rightarrow> sc_cancel_token res \<times> sc_allocator" where
  "sc_cancel_token_init a =
     (case sc_string_from_cstr (Some '''') a of
        (Inl e, a1) \<Rightarrow> (Inl e, a1)
      | (Inr r, a1) \<Rightarrow> (Inr \<lparr>token_cancelled = False, token_reason = r\<rparr>, a1))"

text \<open>The token is cancelled and its old reason dropped even when the new reason cannot be copied.\<close>

definition sc_cancel_token_cancel ::
    "sc_cancel_token \<Rightarrow> sc_str \<Rightarrow> sc_allocator \<Rightarrow> sc_status \<times> sc_cancel_token \<times> sc_allocator" where
  "sc_cancel_token_cancel t reason a =
     (let a1 = sc_string_clear (token_reason t) a in
      (case sc_string_from_str (str_or_empty reason) a1 of
         (Inl e, a2) \<Rightarrow> (e, \<lparr>token_cancelled = True, token_reason = None\<rparr>, a2)
       | (Inr r, a2) \<Rightarrow> (sc_status_ok, \<lparr>token_cancelled = True, token_reason = r\<rparr>, a2)))"

definition sc_cancel_token_clear :: "sc_cancel_token \<Rightarrow> sc_allocator \<Rightarrow> sc_cancel_token \<times> sc_allocator" where
  "sc_cancel_token_clear t a = (token_zero, sc_string_clear (token_reason t) a)"

section \<open>Jobs and queued turns\<close>

datatype sc_runtime_agent_job_source =
    SC_RUNTIME_AGENT_JOB_GATEWAY
  | SC_RUNTIME_AGENT_JOB_WEBSOCKET
  | SC_RUNTIME_AGENT_JOB_CHANNEL
  | SC_RUNTIME_AGENT_JOB_CRON

record 'u sc_runtime_agent_job =
  job_source :: sc_runtime_agent_job_source
  job_input :: sc_str
  job_session_id :: sc_str
  job_thread_id :: sc_str
  cancel_previous :: bool
  consecutive_message_limit :: nat
  job_done :: "'u option"

text \<open>The fields of \<^verbatim>\<open>sc_turn\<close> that the queue sets; \<open>turn_token\<close> is the token as it is when the turn starts.\<close>

record sc_turn =
  turn_input :: sc_str
  turn_session_id :: sc_str
  turn_cancel_requested :: bool
  turn_token :: sc_cancel_token

record 'u runtime_queued_turn =
  source :: sc_runtime_agent_job_source
  q_input :: sc_string
  q_session_id :: sc_string
  q_thread_id :: sc_string
  consecutive_inputs :: "sc_string sc_vec"
  cancel_token :: sc_cancel_token
  cancel_requested :: bool
  done_callback :: "'u option"
  active_turn :: "sc_turn option"

record 'u sc_runtime_turn_queue =
  jobs :: "'u runtime_queued_turn sc_vec"
  scheduled :: bool
  in_flight :: bool

definition SIZEOF_QUEUED_TURN :: nat where
  "SIZEOF_QUEUED_TURN = 424"

definition SIZEOF_TURN_QUEUE :: nat where
  "SIZEOF_TURN_QUEUE = 72"

definition SIZEOF_MESSAGE :: nat where
  "SIZEOF_MESSAGE = 24"

definition RUNTIME_TURN_QUEUE_DEFAULT_CONSECUTIVE_LIMIT :: nat where
  "RUNTIME_TURN_QUEUE_DEFAULT_CONSECUTIVE_LIMIT = 5"

definition job_consecutive_limit :: "'u sc_runtime_agent_job \<Rightarrow> nat" where
  "job_consecutive_limit job =
     (if consecutive_message_limit job > 0 then consecutive_message_limit job
      else RUNTIME_TURN_QUEUE_DEFAULT_CONSECUTIVE_LIMIT)"

definition sc_runtime_turn_queue_new :: "sc_allocator \<Rightarrow> 'u sc_runtime_turn_queue res \<times> sc_allocator" where
  "sc_runtime_turn_queue_new a =
     (case sc_alloc SIZEOF_TURN_QUEUE a of
        (False, a1) \<Rightarrow> (Inl sc_status_no_memory, a1)
      | (True, a1) \<Rightarrow>
          (Inr \<lparr>jobs = sc_vec_init SIZEOF_QUEUED_TURN, scheduled = False, in_flight = False\<rparr>, a1))"

section \<open>The window of consecutive messages\<close>

definition queued_turn_push_input ::
    "sc_string sc_vec \<Rightarrow> sc_str \<Rightarrow> sc_allocator \<Rightarrow> sc_status \<times> sc_string sc_vec \<times> sc_allocator" where
  "queued_turn_push_input messages input a =
     (case sc_string_from_str (str_or_empty input) a of
        (Inl e, a1) \<Rightarrow> (e, messages, a1)
      | (Inr copy, a1) \<Rightarrow>
          (case sc_vec_push messages (Some copy) a1 of
             (st, messages', a2) \<Rightarrow>
               (st, messages', (if \<not> sc_status_is_ok st then sc_string_clear copy a2 else a2))))"

fun push_inputs ::
    "sc_string list \<Rightarrow> sc_string sc_vec \<Rightarrow> sc_allocator \<Rightarrow> sc_status \<times> sc_string sc_vec \<times> sc_allocator" where
  "push_inputs [] messages a = (sc_status_ok, messages, a)"
| "push_inputs (m # ms) messages a =
     (case queued_turn_push_input messages (sc_string_as_str m) a of
        (st, messages', a1) \<Rightarrow>
          (if sc_status_is_ok st then push_inputs ms messages' a1 else (st, messages', a1)))"

definition queued_turn_remove_message_at ::
    "sc_string sc_vec \<Rightarrow> nat \<Rightarrow> sc_allocator \<Rightarrow> sc_string sc_vec \<times> sc_allocator" where
  "queued_turn_remove_message_at messages index a =
     (if index \<ge> length (items messages) then (messages, a)
      else (messages\<lparr>items := remove_at index (items messages)\<rparr>,
            sc_string_clear (items messages ! index) a))"

function trim_loop :: "sc_string sc_vec \<Rightarrow> nat \<Rightarrow> sc_allocator \<Rightarrow> sc_string sc_vec \<times> sc_allocator" where
  "trim_loop messages limit a =
     (if length (items messages) > limit
      then (case queued_turn_remove_message_at messages 0 a of (messages', a1) \<Rightarrow> trim_loop messages' limit a1)
      else (messages, a))"
  by pat_completeness auto
termination
  by (relation "measure (\<lambda>(messages, limit, a). length (items messages))")
    (auto simp: queued_turn_remove_message_at_def length_remove_at split: if_splits)

declare trim_loop.simps [simp del]

definition queued_turn_trim_message_window ::
    "sc_string sc_vec \<Rightarrow> nat \<Rightarrow> sc_allocator \<Rightarrow> sc_string sc_vec \<times> sc_allocator" where
  "queued_turn_trim_message_window messages limit a =
     trim_loop messages (if limit = 0 then RUNTIME_TURN_QUEUE_DEFAULT_CONSECUTIVE_LIMIT else limit) a"

fun clear_messages :: "sc_string list \<Rightarrow> sc_allocator \<Rightarrow> sc_allocator" where
  "clear_messages [] a = a"
| "clear_messages (m # ms) a = clear_messages ms (sc_string_clear m a)"

definition queued_turn_messages_clear :: "sc_string sc_vec \<Rightarrow> sc_allocator \<Rightarrow> sc_string sc_vec \<times> sc_allocator" where
  "queued_turn_messages_clear messages a = sc_vec_clear messages (clear_messages (items messages) a)"

definition queued_turn_copy_message_window ::
    "'u runtime_queued_turn option \<Rightarrow> sc_str \<Rightarrow> nat \<Rightarrow> sc_allocator \<Rightarrow> sc_string sc_vec res \<times> sc_allocator" where
  "queued_turn_copy_message_window previous input limit a =
     (let old = (case previous of None \<Rightarrow> [] | Some p \<Rightarrow> items (consecutive_inputs p)) in
      (case push_inputs old (sc_vec_init SIZEOF_MESSAGE) a of
         (st, w, a1) \<Rightarrow>
           (case (if sc_status_is_ok st then queued_turn_push_input w input a1 else (st, w, a1)) of
              (st', w', a2) \<Rightarrow>
                (if sc_status_is_ok st'
                 then (case queued_turn_trim_message_window w' limit a2 of (w'', a3) \<Rightarrow> (Inr w'', a3))
                 else (Inl st', snd (queued_turn_messages_clear w' a2))))))"

definition consecutive_header :: string where
  "consecutive_header =
     ''Consecutive user messages received while an earlier run was active. Respond to the combined latest intent.'' @
     [CHR 0x0A, CHR 0x0A]"

text \<open>The pieces the builder receives: the header, and per message its number, its text and a line feed.\<close>

fun message_parts :: "nat \<Rightarrow> sc_string list \<Rightarrow> sc_str list" where
  "message_parts i [] = []"
| "message_parts i (m # ms) = Str (dec (i + 1) @ ''. '') # sc_string_as_str m # Str [CHR 0x0A] # message_parts (i + 1) ms"

definition queued_turn_build_effective_input :: "sc_string sc_vec \<Rightarrow> sc_allocator \<Rightarrow> sc_string res \<times> sc_allocator" where
  "queued_turn_build_effective_input messages a =
     (case items messages of
        [] \<Rightarrow> (Inl (sc_status_invalid_argument ''sc.runtime_turn_queue.window_invalid_argument''), a)
      | [m] \<Rightarrow> sc_string_from_str (sc_string_as_str m) a
      | ms \<Rightarrow> build_string (Str consecutive_header # message_parts 0 ms) a)"

section \<open>Adding a job\<close>

definition runtime_queued_turn_matches :: "'u runtime_queued_turn \<Rightarrow> sc_str \<Rightarrow> sc_str \<Rightarrow> bool" where
  "runtime_queued_turn_matches job session thread \<longleftrightarrow>
     sc_str_equal (sc_string_as_str (q_session_id job)) (str_or_empty session) \<and>
     sc_str_equal (sc_string_as_str (q_thread_id job)) (str_or_empty thread)"

definition runtime_queued_turn_clear :: "'u runtime_queued_turn \<Rightarrow> sc_allocator \<Rightarrow> sc_allocator" where
  "runtime_queued_turn_clear job a =
     snd (sc_cancel_token_clear (cancel_token job)
       (snd (queued_turn_messages_clear (consecutive_inputs job)
         (sc_string_clear (q_thread_id job) (sc_string_clear (q_session_id job) (sc_string_clear (q_input job) a))))))"

definition queued_turn_zero :: "'u sc_runtime_agent_job \<Rightarrow> 'u runtime_queued_turn" where
  "queued_turn_zero job =
     \<lparr>source = job_source job, q_input = None, q_session_id = None, q_thread_id = None,
      consecutive_inputs = sc_vec_init 0, cancel_token = token_zero, cancel_requested = False,
      done_callback = job_done job, active_turn = None\<rparr>"

definition queued_turn_init ::
    "'u sc_runtime_agent_job \<Rightarrow> 'u runtime_queued_turn option \<Rightarrow> sc_allocator \<Rightarrow> 'u runtime_queued_turn res \<times> sc_allocator" where
  "queued_turn_init job previous a =
     (case fill (\<lambda>q a. queued_turn_build_effective_input (consecutive_inputs q) a) (\<lambda>s q. q\<lparr>q_input := s\<rparr>)
           (fill (\<lambda>q a. queued_turn_copy_message_window previous (job_input job) (job_consecutive_limit job) a)
                 (\<lambda>w q. q\<lparr>consecutive_inputs := w\<rparr>)
             (fill (\<lambda>q a. sc_string_from_str (str_or_empty (job_thread_id job)) a) (\<lambda>s q. q\<lparr>q_thread_id := s\<rparr>)
               (fill (\<lambda>q a. sc_string_from_str (str_or_empty (job_session_id job)) a) (\<lambda>s q. q\<lparr>q_session_id := s\<rparr>)
                 (fill (\<lambda>q a. sc_cancel_token_init a) (\<lambda>t q. q\<lparr>cancel_token := t\<rparr>)
                   (sc_status_ok, queued_turn_zero job, a))))) of
        (st, q, a1) \<Rightarrow>
          (if \<not> sc_status_is_ok st then (Inl st, runtime_queued_turn_clear q a1) else (Inr q, a1)))"

fun cancel_matching ::
    "sc_str \<Rightarrow> sc_str \<Rightarrow> 'u runtime_queued_turn list \<Rightarrow> sc_allocator \<Rightarrow> 'u runtime_queued_turn list \<times> sc_allocator" where
  "cancel_matching session thread [] a = ([], a)"
| "cancel_matching session thread (q # qs) a =
     (if runtime_queued_turn_matches q session thread
      then (case sc_cancel_token_cancel (cancel_token q) (Str ''runtime_turn_queue.consecutive_message'') a of
              (_, t, a1) \<Rightarrow>
                (case cancel_matching session thread qs a1 of
                   (qs', a2) \<Rightarrow> (q\<lparr>cancel_requested := True, cancel_token := t\<rparr> # qs', a2)))
      else (case cancel_matching session thread qs a of (qs', a2) \<Rightarrow> (q # qs', a2)))"

text \<open>The search runs from the back.\<close>

definition latest_matching_queued_turn ::
    "'u runtime_queued_turn list \<Rightarrow> sc_str \<Rightarrow> sc_str \<Rightarrow> 'u runtime_queued_turn option" where
  "latest_matching_queued_turn qs session thread =
     find_first (\<lambda>q. runtime_queued_turn_matches q session thread) (rev qs)"

text \<open>\<open>shutdown\<close> is \<^verbatim>\<open>queue->loop->shutdown.cancel_requested\<close>.\<close>

definition sc_runtime_turn_queue_enqueue ::
    "bool \<Rightarrow> 'u sc_runtime_turn_queue \<Rightarrow> 'u sc_runtime_agent_job \<Rightarrow> sc_allocator \<Rightarrow>
       sc_status \<times> 'u sc_runtime_turn_queue \<times> sc_allocator" where
  "sc_runtime_turn_queue_enqueue shutdown queue job a =
     (if ptr_null (job_input job) \<or> str_len (job_input job) = 0
      then (sc_status_invalid_argument ''sc.runtime_turn_queue.job_invalid_argument'', queue, a)
      else if shutdown then (sc_status_cancelled ''sc.runtime_turn_queue.shutdown'', queue, a)
      else (case (if cancel_previous job
                  then cancel_matching (job_session_id job) (job_thread_id job) (items (jobs queue)) a
                  else (items (jobs queue), a)) of
              (qs, a1) \<Rightarrow>
                (let queue1 = queue\<lparr>jobs := (jobs queue)\<lparr>items := qs\<rparr>\<rparr>;
                     previous = (if cancel_previous job
                                 then latest_matching_queued_turn qs (job_session_id job) (job_thread_id job) else None) in
                 (case queued_turn_init job previous a1 of
                    (Inl e, a2) \<Rightarrow> (e, queue1, a2)
                  | (Inr copy, a2) \<Rightarrow>
                      (case sc_vec_push (jobs queue1) (Some copy) a2 of
                         (st, v, a3) \<Rightarrow>
                           (st, queue1\<lparr>jobs := v\<rparr>,
                            (if \<not> sc_status_is_ok st then runtime_queued_turn_clear copy a3 else a3)))))))"

section \<open>Running the jobs\<close>

definition runtime_turn_queue_remove_at ::
    "'u sc_runtime_turn_queue \<Rightarrow> nat \<Rightarrow> sc_allocator \<Rightarrow> 'u sc_runtime_turn_queue \<times> sc_allocator" where
  "runtime_turn_queue_remove_at queue index a =
     (if index \<ge> length (items (jobs queue)) then (queue, a)
      else (queue\<lparr>jobs := (jobs queue)\<lparr>items := remove_at index (items (jobs queue))\<rparr>\<rparr>,
            runtime_queued_turn_clear (items (jobs queue) ! index) a))"

definition job_turn :: "'u runtime_queued_turn \<Rightarrow> sc_turn" where
  "job_turn job =
     \<lparr>turn_input = sc_string_as_str (q_input job), turn_session_id = sc_string_as_str (q_session_id job),
      turn_cancel_requested = cancel_requested job, turn_token = cancel_token job\<rparr>"

definition notify :: "'u option \<Rightarrow> sc_status \<Rightarrow> ('u \<times> sc_status) list \<Rightarrow> ('u \<times> sc_status) list" where
  "notify callback st completed = (case callback of None \<Rightarrow> completed | Some u \<Rightarrow> completed @ [(u, st)])"

text \<open>
  \<open>process\<close> is \<^verbatim>\<open>sc_agent_process_message\<close> on the agent's state: the status it returns for a turn
  and the state after it.
\<close>

function drain_loop ::
    "('g \<Rightarrow> sc_turn \<Rightarrow> sc_status \<times> 'g) \<Rightarrow> nat \<Rightarrow> nat \<Rightarrow> sc_status \<Rightarrow> 'u sc_runtime_turn_queue \<Rightarrow> 'g \<Rightarrow>
       ('u \<times> sc_status) list \<Rightarrow> sc_allocator \<Rightarrow>
       sc_status \<times> 'u sc_runtime_turn_queue \<times> 'g \<times> ('u \<times> sc_status) list \<times> sc_allocator" where
  "drain_loop process max_turns processed st queue g completed a =
     (if sc_status_is_ok st \<and> items (jobs queue) \<noteq> [] \<and> (max_turns = 0 \<or> processed < max_turns)
      then (let job = hd (items (jobs queue)) in
            (case process g (job_turn job) of
               (st1, g1) \<Rightarrow>
                 (case runtime_turn_queue_remove_at queue 0 a of
                    (queue1, a1) \<Rightarrow>
                      drain_loop process max_turns (processed + 1)
                        (if code st1 = SC_ERR_CANCELLED then sc_status_ok else st1)
                        queue1 g1 (notify (done_callback job) st1 completed) a1)))
      else (st, queue, g, completed, a))"
  by pat_completeness auto
termination
  by (relation "measure (\<lambda>(process, max_turns, processed, st, queue, g, completed, a). length (items (jobs queue)))")
    (auto simp: runtime_turn_queue_remove_at_def length_remove_at split: if_splits)

declare drain_loop.simps [simp del]

definition sc_runtime_turn_queue_drain ::
    "('g \<Rightarrow> sc_turn \<Rightarrow> sc_status \<times> 'g) \<Rightarrow> nat \<Rightarrow> 'u sc_runtime_turn_queue \<Rightarrow> 'g \<Rightarrow> ('u \<times> sc_status) list \<Rightarrow> sc_allocator \<Rightarrow>
       sc_status \<times> 'u sc_runtime_turn_queue \<times> 'g \<times> ('u \<times> sc_status) list \<times> sc_allocator" where
  "sc_runtime_turn_queue_drain process max_turns queue g completed a =
     drain_loop process max_turns 0 sc_status_ok queue g completed a"

definition sc_runtime_turn_queue_len :: "'u sc_runtime_turn_queue \<Rightarrow> nat" where
  "sc_runtime_turn_queue_len queue = length (items (jobs queue))"

fun clear_turns :: "'u runtime_queued_turn list \<Rightarrow> sc_allocator \<Rightarrow> sc_allocator" where
  "clear_turns [] a = a"
| "clear_turns (q # qs) a = clear_turns qs (runtime_queued_turn_clear q a)"

definition sc_runtime_turn_queue_destroy :: "'u sc_runtime_turn_queue \<Rightarrow> sc_allocator \<Rightarrow> sc_allocator" where
  "sc_runtime_turn_queue_destroy queue a =
     sc_free True (snd (sc_vec_clear (jobs queue) (clear_turns (items (jobs queue)) a)))"

text \<open>\<open>add\<close> is the status of adding the queue's repeating task to the event loop.\<close>

definition sc_runtime_turn_queue_schedule ::
    "sc_status \<Rightarrow> 'u sc_runtime_turn_queue \<Rightarrow> sc_status \<times> 'u sc_runtime_turn_queue" where
  "sc_runtime_turn_queue_schedule add queue =
     (if scheduled queue then (sc_status_ok, queue)
      else (add, (if sc_status_is_ok add then queue\<lparr>scheduled := True\<rparr> else queue)))"

text \<open>
  The task of the event loop. \<open>cancelled\<close> is the loop's cancel token, \<open>start\<close> the status of
  \<^verbatim>\<open>sc_agent_process_message_async\<close>, which keeps the address of the job's turn until it completes.
\<close>

definition runtime_turn_queue_task ::
    "bool \<Rightarrow> sc_status \<Rightarrow> 'u sc_runtime_turn_queue \<Rightarrow> sc_status \<times> 'u sc_runtime_turn_queue" where
  "runtime_turn_queue_task cancelled start queue =
     (if cancelled then (sc_status_cancelled ''sc.runtime_turn_queue.cancelled'', queue)
      else if in_flight queue then (sc_status_ok, queue)
      else (case items (jobs queue) of
              [] \<Rightarrow> (sc_status_ok, queue)
            | job # rest \<Rightarrow>
                (start,
                 queue\<lparr>jobs := (jobs queue)\<lparr>items := job\<lparr>active_turn := Some (job_turn job)\<rparr> # rest\<rparr>,
                       in_flight := sc_status_is_ok start\<rparr>)))"

definition runtime_turn_queue_async_done ::
    "sc_status \<Rightarrow> 'u sc_runtime_turn_queue \<Rightarrow> ('u \<times> sc_status) list \<Rightarrow> sc_allocator \<Rightarrow>
       'u sc_runtime_turn_queue \<times> ('u \<times> sc_status) list \<times> sc_allocator" where
  "runtime_turn_queue_async_done st queue completed a =
     (case runtime_turn_queue_remove_at queue 0 a of
        (queue1, a1) \<Rightarrow>
          (queue1\<lparr>in_flight := False\<rparr>,
           (case items (jobs queue) of [] \<Rightarrow> completed | job # _ \<Rightarrow> notify (done_callback job) st completed), a1))"

section \<open>What the window operations do\<close>

definition messages_blocks :: "sc_string list \<Rightarrow> int" where
  "messages_blocks ms = sum_list (map string_blocks ms)"

definition window_blocks :: "sc_string sc_vec \<Rightarrow> int" where
  "window_blocks w = messages_blocks (items w) + vec_blocks w"

lemma messages_blocks_simps [simp]:
  "messages_blocks [] = 0" "messages_blocks (m # ms) = string_blocks m + messages_blocks ms"
  "messages_blocks (ms @ ns) = messages_blocks ms + messages_blocks ns"
  by (simp_all add: messages_blocks_def)

lemma str_or_empty_copy:
  "sc_string_from_str (str_or_empty s) a = (Inr c, a') \<Longrightarrow> c = Some (str_bytes s) \<and> live a' = live a + 1"
  by (cases s) (auto simp: str_or_empty_def dest: string_from_str_Inr)

lemma push_input_spec:
  assumes "queued_turn_push_input ms input a = (st, ms', a')" "vec_inv ms"
  shows "vec_inv ms' \<and> item_size ms' = item_size ms \<and> live a' = live a + window_blocks ms' - window_blocks ms \<and>
    (sc_status_is_ok st \<longrightarrow> items ms' = items ms @ [Some (str_bytes input)]) \<and> (\<not> sc_status_is_ok st \<longrightarrow> ms' = ms)"
proof -
  obtain r a1 where copy: "sc_string_from_str (str_or_empty input) a = (r, a1)"
    by (cases "sc_string_from_str (str_or_empty input) a")
  show ?thesis
  proof (cases r)
    case (Inl e)
    with copy string_from_str_Inl assms show ?thesis by (auto simp: queued_turn_push_input_def)
  next
    case (Inr c)
    note c = str_or_empty_copy [OF copy [unfolded Inr]]
    obtain st1 v a2 where push: "sc_vec_push ms (Some c) a1 = (st1, v, a2)" by (cases "sc_vec_push ms (Some c) a1")
    note sp = vec_push_spec [OF push assms(2)]
    from assms(1) copy Inr push have out: "st = st1" "ms' = v" "a' = (if \<not> sc_status_is_ok st1 then sc_string_clear c a2 else a2)"
      by (auto simp: queued_turn_push_input_def)
    show ?thesis using sp c by (cases "sc_status_is_ok st1") (auto simp: out window_blocks_def)
  qed
qed

lemma push_inputs_spec:
  assumes "push_inputs xs ms a = (st, ms', a')" "vec_inv ms"
  shows "vec_inv ms' \<and> item_size ms' = item_size ms \<and> live a' = live a + window_blocks ms' - window_blocks ms \<and>
    (sc_status_is_ok st \<longrightarrow> items ms' = items ms @ map (\<lambda>m. Some (owned_text m)) xs)"
  using assms
proof (induction xs arbitrary: ms a)
  case (Cons x xs)
  obtain st1 v a1 where one: "queued_turn_push_input ms (sc_string_as_str x) a = (st1, v, a1)"
    by (cases "queued_turn_push_input ms (sc_string_as_str x) a")
  note sp = push_input_spec [OF one Cons.prems(2)]
  show ?case
  proof (cases "sc_status_is_ok st1")
    case True
    with Cons.prems(1) one have "push_inputs xs v a1 = (st, ms', a')" by simp
    from Cons.IH [OF this] sp True show ?thesis by auto
  qed (use Cons.prems one sp in auto)
qed auto

definition last_items :: "nat \<Rightarrow> 'x list \<Rightarrow> 'x list" where
  "last_items n xs = drop (length xs - n) xs"

lemma trim_loop_spec:
  "trim_loop w limit a = (w', a') \<Longrightarrow>
   w' = w\<lparr>items := last_items limit (items w)\<rparr> \<and> live a' = live a + messages_blocks (items w') - messages_blocks (items w)"
proof (induction w limit a rule: trim_loop.induct)
  case (1 w limit a)
  show ?case
  proof (cases "length (items w) > limit")
    case True
    then obtain m ms where w: "items w = m # ms" by (cases "items w") auto
    let ?w1 = "w\<lparr>items := ms\<rparr>"
    have rm: "queued_turn_remove_message_at w 0 a = (?w1, sc_string_clear m a)"
      using w by (simp add: queued_turn_remove_message_at_def)
    have go: "trim_loop ?w1 limit (sc_string_clear m a) = (w', a')"
      using "1.prems" True rm by (subst (asm) trim_loop.simps) simp
    have "Suc (length ms) - limit = Suc (length ms - limit)" using True w by simp
    with "1.IH" [OF True rm [symmetric] go] w show ?thesis by (simp add: last_items_def)
  next
    case False
    with "1.prems" show ?thesis by (subst (asm) trim_loop.simps) (simp add: last_items_def)
  qed
qed

lemma clear_messages_live: "live (clear_messages ms a) = live a - messages_blocks ms"
  by (induction ms arbitrary: a) auto

lemma messages_clear_live: "vec_inv w \<Longrightarrow> live (snd (queued_turn_messages_clear w a)) = live a - window_blocks w"
  by (simp add: queued_turn_messages_clear_def vec_clear_live clear_messages_live window_blocks_def)

definition window_of :: "'u runtime_queued_turn option \<Rightarrow> string list" where
  "window_of previous = (case previous of None \<Rightarrow> [] | Some p \<Rightarrow> map owned_text (items (consecutive_inputs p)))"

lemma copy_window_spec:
  assumes "queued_turn_copy_message_window previous input limit a = (r, a')" "0 < limit"
  shows "case r of
      Inl e \<Rightarrow> \<not> sc_status_is_ok e \<and> live a' = live a
    | Inr w \<Rightarrow> vec_inv w \<and> live a' = live a + window_blocks w \<and>
        items w = map Some (last_items limit (window_of previous @ [str_bytes input]))"
proof -
  define old where "old = (case previous of None \<Rightarrow> [] | Some p \<Rightarrow> items (consecutive_inputs p))"
  obtain st w a1 where ps: "push_inputs old (sc_vec_init SIZEOF_MESSAGE) a = (st, w, a1)"
    by (cases "push_inputs old (sc_vec_init SIZEOF_MESSAGE) a")
  have w: "vec_inv w" "live a1 = live a + window_blocks w"
    "sc_status_is_ok st \<Longrightarrow> items w = map (\<lambda>m. Some (owned_text m)) old"
    using push_inputs_spec [OF ps] by (auto simp: window_blocks_def)
  define next_state where "next_state = (if sc_status_is_ok st then queued_turn_push_input w input a1 else (st, w, a1))"
  obtain st' w' a2 where nx: "next_state = (st', w', a2)" by (cases next_state)
  have w': "vec_inv w'" "live a2 = live a + window_blocks w'"
    "sc_status_is_ok st' \<Longrightarrow> items w' = map (\<lambda>m. Some (owned_text m)) old @ [Some (str_bytes input)]"
    using w push_input_spec [of w input a1 st' w' a2] nx by (auto simp: next_state_def split: if_splits)
  have run: "(r, a') = (if sc_status_is_ok st'
        then (case queued_turn_trim_message_window w' limit a2 of (w'', a3) \<Rightarrow> (Inr w'', a3))
        else (Inl st', snd (queued_turn_messages_clear w' a2)))"
    using assms(1) ps nx
    by (simp add: queued_turn_copy_message_window_def old_def next_state_def Let_def)
  show ?thesis
  proof (cases "sc_status_is_ok st'")
    case True
    obtain w'' a3 where tr: "trim_loop w' limit a2 = (w'', a3)" by (cases "trim_loop w' limit a2")
    note t = trim_loop_spec [OF tr]
    have "items w' = map Some (window_of previous @ [str_bytes input])"
      using w'(3) True by (cases previous) (auto simp: window_of_def old_def)
    moreover have "vec_inv w''" using t w'(1) by (auto simp: vec_inv_def last_items_def)
    moreover have "vec_blocks w'' = vec_blocks w'" using t by (simp add: vec_blocks_def)
    ultimately show ?thesis
      using run True tr t w'(2) assms(2)
      by (auto simp: queued_turn_trim_message_window_def window_blocks_def last_items_def drop_map)
  next
    case False
    with run w' show ?thesis by (simp add: messages_clear_live)
  qed
qed

text \<open>The text the agent gets for a window.\<close>

fun numbered :: "nat \<Rightarrow> string list \<Rightarrow> string" where
  "numbered i [] = []"
| "numbered i (m # ms) = dec (i + 1) @ ''. '' @ m @ [CHR 0x0A] @ numbered (i + 1) ms"

definition effective_text :: "string list \<Rightarrow> string" where
  "effective_text ws = (case ws of [m] \<Rightarrow> m | _ \<Rightarrow> consecutive_header @ numbered 0 ws)"

lemma message_parts_text: "concat (map str_bytes (message_parts i (map Some ws))) = numbered i ws"
  by (induction ws arbitrary: i) auto

lemma build_effective_spec:
  assumes "queued_turn_build_effective_input w a = (r, a')" "items w = map Some ws" "ws \<noteq> []"
  shows "case r of Inl e \<Rightarrow> \<not> sc_status_is_ok e \<and> live a' = live a
    | Inr s \<Rightarrow> s = Some (effective_text ws) \<and> live a' = live a + 1"
proof (cases ws)
  case (Cons m ms)
  show ?thesis
  proof (cases ms)
    case Nil
    with assms Cons show ?thesis
      by (auto simp: queued_turn_build_effective_input_def effective_text_def split: sum.splits
          dest: string_from_str_Inr string_from_str_Inl)
  next
    case more: (Cons m2 ms2)
    have "build_string (Str consecutive_header # message_parts 0 (map Some ws)) a = (r, a')"
      using assms Cons more by (simp add: queued_turn_build_effective_input_def)
    from build_string_spec [OF this] message_parts_text [of 0 ws] Cons more show ?thesis
      by (auto simp: effective_text_def split: sum.splits simp del: message_parts.simps numbered.simps)
  qed
qed (use assms in simp)

section \<open>Adding a job refines an abstract queue\<close>

definition turn_blocks :: "'u runtime_queued_turn \<Rightarrow> int" where
  "turn_blocks q = string_blocks (q_input q) + string_blocks (q_session_id q) + string_blocks (q_thread_id q) +
     window_blocks (consecutive_inputs q) + string_blocks (token_reason (cancel_token q))"

text \<open>A queued turn: its window is not empty, and its input is the text of the window.\<close>

definition turn_inv :: "'u runtime_queued_turn \<Rightarrow> bool" where
  "turn_inv q \<longleftrightarrow> vec_inv (consecutive_inputs q) \<and> q_session_id q \<noteq> None \<and> q_thread_id q \<noteq> None \<and>
     (\<exists>ws. ws \<noteq> [] \<and> items (consecutive_inputs q) = map Some ws \<and> q_input q = Some (effective_text ws)) \<and>
     (cancel_requested q \<longleftrightarrow> token_cancelled (cancel_token q))"

lemma turn_clear_live: "vec_inv (consecutive_inputs q) \<Longrightarrow> live (runtime_queued_turn_clear q a) = live a - turn_blocks q"
  by (simp add: runtime_queued_turn_clear_def sc_cancel_token_clear_def messages_clear_live turn_blocks_def)

lemma token_init_spec:
  assumes "sc_cancel_token_init a = (r, a')"
  shows "case r of Inl e \<Rightarrow> \<not> sc_status_is_ok e \<and> live a' = live a
    | Inr t \<Rightarrow> t = \<lparr>token_cancelled = False, token_reason = Some ''''\<rparr> \<and> live a' = live a + 1"
  using assms
  by (auto simp: sc_cancel_token_init_def sc_string_from_cstr_def sc_str_from_cstr_def split: sum.splits prod.splits
      dest: string_from_str_Inr string_from_str_Inl)

lemma string_from_str_or_empty_Inl:
  "sc_string_from_str (str_or_empty s) a = (Inl e, a') \<Longrightarrow> \<not> sc_status_is_ok e \<and> live a' = live a"
  by (rule string_from_str_Inl)

lemma turn_init_spec:
  assumes "queued_turn_init job previous a = (r, a')"
  shows "case r of
      Inl e \<Rightarrow> \<not> sc_status_is_ok e \<and> live a' = live a
    | Inr q \<Rightarrow> turn_inv q \<and> live a' = live a + turn_blocks q \<and> \<not> cancel_requested q \<and>
        source q = job_source job \<and> done_callback q = job_done job \<and>
        q_session_id q = Some (str_bytes (job_session_id job)) \<and> q_thread_id q = Some (str_bytes (job_thread_id job)) \<and>
        items (consecutive_inputs q) =
          map Some (last_items (job_consecutive_limit job) (window_of previous @ [str_bytes (job_input job)]))"
proof -
  let ?ws = "last_items (job_consecutive_limit job) (window_of previous @ [str_bytes (job_input job)])"
  let ?t = "\<lparr>token_cancelled = False, token_reason = Some []\<rparr>"
  let ?q1 = "(queued_turn_zero job)\<lparr>cancel_token := ?t\<rparr>"
  let ?q2 = "?q1\<lparr>q_session_id := Some (str_bytes (job_session_id job))\<rparr>"
  let ?q3 = "?q2\<lparr>q_thread_id := Some (str_bytes (job_thread_id job))\<rparr>"
  let ?Q4 = "\<lambda>q. \<exists>w. vec_inv w \<and> items w = map Some ?ws \<and> q = ?q3\<lparr>consecutive_inputs := w\<rparr>"
  let ?Q5 = "\<lambda>q. \<exists>w. vec_inv w \<and> items w = map Some ?ws \<and>
    q = ?q3\<lparr>consecutive_inputs := w, q_input := Some (effective_text ?ws)\<rparr>"
  let ?R = "\<lambda>q. vec_inv (consecutive_inputs q)"
  have lim: "0 < job_consecutive_limit job"
    by (simp add: job_consecutive_limit_def RUNTIME_TURN_QUEUE_DEFAULT_CONSECUTIVE_LIMIT_def)
  then have ws: "?ws \<noteq> []" by (simp add: last_items_def)
  note z = queued_turn_zero_def turn_blocks_def window_blocks_def token_zero_def
  have "filled turn_blocks (live a) ?R (\<lambda>q. q = queued_turn_zero job) (sc_status_ok, queued_turn_zero job, a)"
    by (simp add: filled_def z)
  then have "filled turn_blocks (live a) ?R (\<lambda>q. q = ?q1)
      (fill (\<lambda>q a. sc_cancel_token_init a) (\<lambda>t q. q\<lparr>cancel_token := t\<rparr>) (sc_status_ok, queued_turn_zero job, a))" (is "filled _ _ _ _ ?s1")
    by (rule fill_filled) (auto simp: z dest: token_init_spec)
  then have "filled turn_blocks (live a) ?R (\<lambda>q. q = ?q2)
      (fill (\<lambda>q a. sc_string_from_str (str_or_empty (job_session_id job)) a) (\<lambda>s q. q\<lparr>q_session_id := s\<rparr>) ?s1)" (is "filled _ _ _ _ ?s2")
    by (rule fill_filled) (auto simp: z dest: str_or_empty_copy string_from_str_Inl)
  then have "filled turn_blocks (live a) ?R (\<lambda>q. q = ?q3)
      (fill (\<lambda>q a. sc_string_from_str (str_or_empty (job_thread_id job)) a) (\<lambda>s q. q\<lparr>q_thread_id := s\<rparr>) ?s2)" (is "filled _ _ _ _ ?s3")
    by (rule fill_filled) (auto simp: z dest: str_or_empty_copy string_from_str_Inl)
  then have "filled turn_blocks (live a) ?R ?Q4
      (fill (\<lambda>q a. queued_turn_copy_message_window previous (job_input job) (job_consecutive_limit job) a)
        (\<lambda>w q. q\<lparr>consecutive_inputs := w\<rparr>) ?s3)" (is "filled _ _ _ _ ?s4")
    by (rule fill_filled) (use copy_window_spec [OF _ lim] in \<open>fastforce simp: z\<close>)+
  then have "filled turn_blocks (live a) ?R ?Q5
      (fill (\<lambda>q a. queued_turn_build_effective_input (consecutive_inputs q) a) (\<lambda>s q. q\<lparr>q_input := s\<rparr>) ?s4)" (is "filled _ _ _ _ ?s5")
    by (rule fill_filled) (use build_effective_spec [OF _ _ ws] in \<open>fastforce simp: z\<close>)+
  moreover obtain st q a1 where "?s5 = (st, q, a1)" by (cases ?s5)
  ultimately show ?thesis
    using assms ws by (auto simp: queued_turn_init_def filled_def turn_clear_live turn_inv_def queued_turn_zero_def split: if_splits)
qed

text \<open>What the queue promises: turns with their message windows, in order of arrival.\<close>

record 'u aturn =
  at_session :: string
  at_thread :: string
  at_window :: "string list"
  at_cancelled :: bool
  at_done :: "'u option"

definition turn_view :: "'u runtime_queued_turn \<Rightarrow> 'u aturn" where
  "turn_view q = \<lparr>at_session = owned_text (q_session_id q), at_thread = owned_text (q_thread_id q),
     at_window = map owned_text (items (consecutive_inputs q)), at_cancelled = cancel_requested q,
     at_done = done_callback q\<rparr>"

definition queue_view :: "'u sc_runtime_turn_queue \<Rightarrow> 'u aturn list" where
  "queue_view queue = map turn_view (items (jobs queue))"

definition same_thread :: "'u sc_runtime_agent_job \<Rightarrow> 'u aturn \<Rightarrow> bool" where
  "same_thread job t \<longleftrightarrow> at_session t = str_bytes (job_session_id job) \<and> at_thread t = str_bytes (job_thread_id job)"

definition a_cancel :: "'u sc_runtime_agent_job \<Rightarrow> 'u aturn list \<Rightarrow> 'u aturn list" where
  "a_cancel job ts =
     (if cancel_previous job then map (\<lambda>t. if same_thread job t then t\<lparr>at_cancelled := True\<rparr> else t) ts else ts)"

definition a_window :: "'u sc_runtime_agent_job \<Rightarrow> 'u aturn list \<Rightarrow> string list" where
  "a_window job ts =
     (if cancel_previous job
      then (case find_first (same_thread job) (rev ts) of None \<Rightarrow> [] | Some t \<Rightarrow> at_window t) else [])"

definition a_enqueue :: "'u sc_runtime_agent_job \<Rightarrow> 'u aturn list \<Rightarrow> 'u aturn list" where
  "a_enqueue job ts = a_cancel job ts @
     [\<lparr>at_session = str_bytes (job_session_id job), at_thread = str_bytes (job_thread_id job),
       at_window = last_items (job_consecutive_limit job) (a_window job ts @ [str_bytes (job_input job)]),
       at_cancelled = False, at_done = job_done job\<rparr>]"

definition turns_blocks :: "'u runtime_queued_turn list \<Rightarrow> int" where
  "turns_blocks qs = sum_list (map turn_blocks qs)"

definition queue_blocks :: "'u sc_runtime_turn_queue \<Rightarrow> int" where
  "queue_blocks queue = 1 + vec_blocks (jobs queue) + turns_blocks (items (jobs queue))"

definition queue_inv :: "'u sc_runtime_turn_queue \<Rightarrow> bool" where
  "queue_inv queue \<longleftrightarrow> vec_inv (jobs queue) \<and> item_size (jobs queue) = SIZEOF_QUEUED_TURN \<and>
     (\<forall>q \<in> set (items (jobs queue)). turn_inv q)"

lemma turns_blocks_simps [simp]:
  "turns_blocks [] = 0" "turns_blocks (q # qs) = turn_blocks q + turns_blocks qs"
  "turns_blocks (qs @ rs) = turns_blocks qs + turns_blocks rs"
  by (simp_all add: turns_blocks_def)

lemma str_or_empty_bytes: "str_or_empty s = Str (str_bytes s)"
  by (cases s) (auto simp: str_or_empty_def)

lemma turn_matches_view:
  "turn_inv q \<Longrightarrow> runtime_queued_turn_matches q (job_session_id job) (job_thread_id job) \<longleftrightarrow> same_thread job (turn_view q)"
  by (auto simp: runtime_queued_turn_matches_def same_thread_def turn_view_def turn_inv_def str_or_empty_bytes)

lemma token_cancel_spec:
  assumes "sc_cancel_token_cancel t reason a = (st, t', a')"
  shows "token_cancelled t' \<and> live a' = live a + string_blocks (token_reason t') - string_blocks (token_reason t)"
  using assms
  by (auto simp: sc_cancel_token_cancel_def Let_def split: sum.splits prod.splits
      dest: string_from_str_Inl str_or_empty_copy)

lemma cancel_matching_spec:
  assumes "cancel_matching (job_session_id job) (job_thread_id job) qs a = (qs', a')" "\<forall>q \<in> set qs. turn_inv q"
  shows "(\<forall>q \<in> set qs'. turn_inv q) \<and> live a' = live a + turns_blocks qs' - turns_blocks qs \<and> length qs' = length qs \<and>
    map turn_view qs' = map (\<lambda>t. if same_thread job t then t\<lparr>at_cancelled := True\<rparr> else t) (map turn_view qs)"
  using assms
proof (induction qs arbitrary: a qs' a')
  case (Cons q qs)
  note q = turn_matches_view [of q job]
  show ?case
  proof (cases "same_thread job (turn_view q)")
    case True
    obtain st t a1 where c: "sc_cancel_token_cancel (cancel_token q) (Str ''runtime_turn_queue.consecutive_message'') a = (st, t, a1)"
      by (cases "sc_cancel_token_cancel (cancel_token q) (Str ''runtime_turn_queue.consecutive_message'') a")
    obtain rs a2 where r: "cancel_matching (job_session_id job) (job_thread_id job) qs a1 = (rs, a2)"
      by (cases "cancel_matching (job_session_id job) (job_thread_id job) qs a1")
    have out: "qs' = q\<lparr>cancel_requested := True, cancel_token := t\<rparr> # rs" "a' = a2"
      using Cons.prems True q c r by auto
    have "turn_inv (q\<lparr>cancel_requested := True, cancel_token := t\<rparr>)"
      using Cons.prems(2) token_cancel_spec [OF c] by (simp add: turn_inv_def)
    moreover have "turn_view (q\<lparr>cancel_requested := True, cancel_token := t\<rparr>) = (turn_view q)\<lparr>at_cancelled := True\<rparr>"
      by (simp add: turn_view_def)
    ultimately show ?thesis
      using Cons.IH [OF r] Cons.prems(2) token_cancel_spec [OF c] True out by (simp add: turn_blocks_def)
  next
    case False
    obtain rs a2 where r: "cancel_matching (job_session_id job) (job_thread_id job) qs a = (rs, a2)"
      by (cases "cancel_matching (job_session_id job) (job_thread_id job) qs a")
    then show ?thesis using Cons.IH [OF r] Cons.prems False q by auto
  qed
qed auto

lemma latest_matching_view:
  assumes "\<forall>q \<in> set qs. turn_inv q"
  shows "map_option turn_view (latest_matching_queued_turn qs (job_session_id job) (job_thread_id job)) =
    find_first (same_thread job) (rev (map turn_view qs))"
proof -
  have "latest_matching_queued_turn qs (job_session_id job) (job_thread_id job) =
      find_first (same_thread job \<circ> turn_view) (rev qs)"
    unfolding latest_matching_queued_turn_def using assms turn_matches_view by (intro find_first_cong) auto
  then show ?thesis by (simp add: find_first_map rev_map)
qed

lemma same_thread_cancelled [simp]: "same_thread job (t\<lparr>at_cancelled := b\<rparr>) = same_thread job t"
  by (simp add: same_thread_def)

lemma window_after_cancel:
  assumes "\<forall>q \<in> set qs'. turn_inv q" "map turn_view qs' = a_cancel job ts"
  shows "window_of (if cancel_previous job
      then latest_matching_queued_turn qs' (job_session_id job) (job_thread_id job) else None) = a_window job ts"
proof -
  have w: "window_of p = (case map_option turn_view p of None \<Rightarrow> [] | Some t \<Rightarrow> at_window t)"
    for p :: "'a runtime_queued_turn option"
    by (cases p) (simp_all add: window_of_def turn_view_def)
  have "find_first (same_thread job) (rev (map turn_view qs')) =
      map_option (\<lambda>t. t\<lparr>at_cancelled := True\<rparr>) (find_first (same_thread job) (rev ts))" if "cancel_previous job"
    using that assms(2)
  proof (induction ts arbitrary: qs' rule: rev_induct)
    case Nil
    then show ?case by (simp add: a_cancel_def)
  next
    case (snoc t ts)
    then obtain rs r where "qs' = rs @ [r]" "map turn_view rs = a_cancel job ts"
      by (auto simp: a_cancel_def map_eq_append_conv)
    with snoc show ?case by (auto simp: a_cancel_def)
  qed
  then show ?thesis
    using latest_matching_view [OF assms(1), of job]
    by (auto simp: w a_window_def window_of_def split: option.splits)
qed

lemma enqueue_spec:
  assumes "sc_runtime_turn_queue_enqueue shutdown queue job a = (st, queue', a')" "queue_inv queue"
  shows "queue_inv queue' \<and> in_flight queue' = in_flight queue \<and> scheduled queue' = scheduled queue \<and>
    live a' = live a + queue_blocks queue' - queue_blocks queue \<and>
    (sc_status_is_ok st \<longrightarrow> \<not> shutdown \<and> queue_view queue' = a_enqueue job (queue_view queue)) \<and>
    (\<not> sc_status_is_ok st \<longrightarrow> queue_view queue' \<in> {queue_view queue, a_cancel job (queue_view queue)})"
proof (cases "ptr_null (job_input job) \<or> str_len (job_input job) = 0 \<or> shutdown")
  case True
  with assms show ?thesis by (auto simp: sc_runtime_turn_queue_enqueue_def split: if_splits)
next
  case False
  define cm where "cm = (if cancel_previous job
      then cancel_matching (job_session_id job) (job_thread_id job) (items (jobs queue)) a else (items (jobs queue), a))"
  obtain qs a1 where cm': "cm = (qs, a1)" by (cases cm)
  have qs: "\<forall>q \<in> set qs. turn_inv q" "live a1 = live a + turns_blocks qs - turns_blocks (items (jobs queue))"
    "length qs = length (items (jobs queue))" "map turn_view qs = a_cancel job (queue_view queue)"
    using cm' assms(2) cancel_matching_spec [of job "items (jobs queue)" a qs a1]
    by (auto simp: cm_def queue_inv_def a_cancel_def queue_view_def split: if_splits)
  define previous where "previous = (if cancel_previous job
      then latest_matching_queued_turn qs (job_session_id job) (job_thread_id job) else None)"
  define queue1 where "queue1 = queue\<lparr>jobs := (jobs queue)\<lparr>items := qs\<rparr>\<rparr>"
  have inv1: "vec_inv (jobs queue1)" "item_size (jobs queue1) = SIZEOF_QUEUED_TURN"
    using assms(2) qs(3) by (auto simp: queue1_def queue_inv_def vec_inv_def)
  have blk1: "live a1 = live a + queue_blocks queue1 - queue_blocks queue"
    using qs(2) by (simp add: queue_blocks_def queue1_def vec_blocks_def)
  obtain r a2 where init: "queued_turn_init job previous a1 = (r, a2)" by (cases "queued_turn_init job previous a1")
  note tis = turn_init_spec [OF init]
  note enq = assms(1) [unfolded sc_runtime_turn_queue_enqueue_def, folded cm_def, unfolded cm' prod.case,
      folded queue1_def previous_def, unfolded Let_def init prod.case]
  show ?thesis
  proof (cases r)
    case (Inl e)
    with enq False tis inv1 blk1 qs show ?thesis
      by (auto simp: queue_inv_def queue1_def queue_view_def)
  next
    case (Inr copy)
    obtain st1 v a3 where push: "sc_vec_push (jobs queue1) (Some copy) a2 = (st1, v, a3)"
      by (cases "sc_vec_push (jobs queue1) (Some copy) a2")
    note vp = vec_push_spec [OF push inv1(1)]
    have win: "window_of previous = a_window job (queue_view queue)"
      unfolding previous_def by (rule window_after_cancel [OF qs(1,4)])
    from enq False Inr push have out: "st = st1" "queue' = queue1\<lparr>jobs := v\<rparr>"
      "a' = (if \<not> sc_status_is_ok st1 then runtime_queued_turn_clear copy a3 else a3)" by auto
    show ?thesis
    proof (cases "sc_status_is_ok st1")
      case True
      have "turn_view copy = \<lparr>at_session = str_bytes (job_session_id job), at_thread = str_bytes (job_thread_id job),
          at_window = last_items (job_consecutive_limit job) (a_window job (queue_view queue) @ [str_bytes (job_input job)]),
          at_cancelled = False, at_done = job_done job\<rparr>"
        using tis Inr win by (simp add: turn_view_def comp_def)
      with True vp tis Inr qs inv1 blk1 False show ?thesis
        by (auto simp: out queue_inv_def queue_view_def a_enqueue_def queue_blocks_def queue1_def)
    next
      case bad: False
      with vp(5) have "v = jobs queue1" by simp
      moreover have "vec_inv (consecutive_inputs copy)" using tis Inr by (simp add: turn_inv_def)
      ultimately show ?thesis
        using bad vp(2) tis Inr qs inv1 blk1
        by (auto simp: out queue_inv_def queue_view_def queue_blocks_def queue1_def turn_clear_live)
    qed
  qed
qed

text \<open>
  A successful enqueue on a full vector gets a new block for the jobs: an address into the old one,
  such as that of the turn an agent is working on, is no longer valid.
\<close>

lemma enqueue_moves_jobs:
  assumes "sc_runtime_turn_queue_enqueue shutdown queue job a = (st, queue', a')" "sc_status_is_ok st" "queue_inv queue"
    and "length (items (jobs queue)) = vcap (jobs queue)"
  shows "vcap (jobs queue) < vcap (jobs queue')"
proof -
  from enqueue_spec [OF assms(1,3)] assms(2) have "queue_inv queue'" "queue_view queue' = a_enqueue job (queue_view queue)" by auto
  moreover from this(2) have "length (queue_view queue') = length (queue_view queue) + 1"
    by (simp add: a_enqueue_def a_cancel_def)
  then have "length (items (jobs queue')) = length (items (jobs queue)) + 1" by (simp add: queue_view_def)
  ultimately show ?thesis using assms(4) by (auto simp: queue_inv_def vec_inv_def)
qed

section \<open>Removing and draining\<close>

lemma remove_head_spec:
  assumes "runtime_turn_queue_remove_at queue 0 a = (queue', a')" "queue_inv queue"
  shows "queue_inv queue' \<and> queue_view queue' = tl (queue_view queue) \<and>
    live a' = live a + queue_blocks queue' - queue_blocks queue \<and>
    in_flight queue' = in_flight queue \<and> scheduled queue' = scheduled queue \<and> vcap (jobs queue') = vcap (jobs queue)"
proof (cases "items (jobs queue)")
  case Nil
  with assms show ?thesis by (auto simp: runtime_turn_queue_remove_at_def queue_view_def)
next
  case (Cons q qs)
  with assms have "queue' = queue\<lparr>jobs := (jobs queue)\<lparr>items := qs\<rparr>\<rparr>" "a' = runtime_queued_turn_clear q a"
    by (auto simp: runtime_turn_queue_remove_at_def)
  moreover have "vec_inv (consecutive_inputs q)" using assms(2) Cons by (simp add: queue_inv_def turn_inv_def)
  ultimately show ?thesis
    using assms(2) Cons
    by (auto simp: queue_inv_def queue_view_def queue_blocks_def turn_clear_live vec_inv_def vec_blocks_def)
qed

lemma clear_turns_live:
  "\<forall>q \<in> set qs. turn_inv q \<Longrightarrow> live (clear_turns qs a) = live a - turns_blocks qs"
  by (induction qs arbitrary: a) (auto simp: turn_clear_live turn_inv_def)

lemma queue_destroy_live: "queue_inv queue \<Longrightarrow> live (sc_runtime_turn_queue_destroy queue a) = live a - queue_blocks queue"
  by (simp add: sc_runtime_turn_queue_destroy_def vec_clear_live clear_turns_live queue_inv_def queue_blocks_def sc_free_def)

lemma view_Cons: "items (jobs queue) \<noteq> [] \<Longrightarrow>
  queue_view queue = turn_view (hd (items (jobs queue))) # tl (queue_view queue)"
  by (cases "items (jobs queue)") (auto simp: queue_view_def)

text \<open>
  Draining takes turns from the front, each once, in order; what is left is a suffix of the queue. Without a bound on
  the turns it stops early only on an error of the agent other than a cancellation.
\<close>

lemma drain_loop_spec:
  assumes "drain_loop process m p st queue g completed a = (st', queue', g', completed', a')" "queue_inv queue"
  shows "queue_inv queue' \<and> live a' = live a + queue_blocks queue' - queue_blocks queue \<and>
    (\<exists>k \<le> length (queue_view queue). queue_view queue' = drop k (queue_view queue) \<and>
       (\<exists>log. completed' = completed @ log \<and>
          map fst log = concat (map (\<lambda>t. case at_done t of None \<Rightarrow> [] | Some u \<Rightarrow> [u]) (take k (queue_view queue)))) \<and>
       (m \<noteq> 0 \<longrightarrow> p \<le> m \<longrightarrow> p + k \<le> m) \<and> (m = 0 \<longrightarrow> sc_status_is_ok st' \<longrightarrow> queue_view queue' = []))"
  using assms
proof (induction process m p st queue g completed a rule: drain_loop.induct)
  case (1 process m p st queue g completed a)
  show ?case
  proof (cases "sc_status_is_ok st \<and> items (jobs queue) \<noteq> [] \<and> (m = 0 \<or> p < m)")
    case True
    let ?job = "hd (items (jobs queue))"
    obtain st1 g1 where pr: "process g (job_turn ?job) = (st1, g1)" by (cases "process g (job_turn ?job)")
    obtain queue1 a1 where rm: "runtime_turn_queue_remove_at queue 0 a = (queue1, a1)"
      by (cases "runtime_turn_queue_remove_at queue 0 a")
    note sp = remove_head_spec [OF rm "1.prems"(2)]
    let ?st = "if code st1 = SC_ERR_CANCELLED then sc_status_ok else st1"
    have go: "drain_loop process m (p + 1) ?st queue1 g1 (notify (done_callback ?job) st1 completed) a1 =
        (st', queue', g', completed', a')"
      using "1.prems"(1) True pr rm by (subst (asm) drain_loop.simps) (simp add: Let_def)
    from "1.IH" [OF True refl pr [symmetric] rm [symmetric] go] sp obtain k log where
      k: "k \<le> length (queue_view queue1)" "queue_view queue' = drop k (queue_view queue1)"
        "completed' = notify (done_callback ?job) st1 completed @ log"
        "map fst log = concat (map (\<lambda>t. case at_done t of None \<Rightarrow> [] | Some u \<Rightarrow> [u]) (take k (queue_view queue1)))"
        "m \<noteq> 0 \<longrightarrow> p + 1 \<le> m \<longrightarrow> p + 1 + k \<le> m" "m = 0 \<longrightarrow> sc_status_is_ok st' \<longrightarrow> queue_view queue' = []"
      and inv: "queue_inv queue'" "live a' = live a1 + queue_blocks queue' - queue_blocks queue1" by blast
    have view: "queue_view queue = turn_view ?job # queue_view queue1" using view_Cons True sp by metis
    let ?l = "(case done_callback ?job of None \<Rightarrow> [] | Some u \<Rightarrow> [(u, st1)]) @ log"
    have "completed' = completed @ ?l" using k(3) by (auto simp: notify_def split: option.splits)
    moreover have "map fst ?l = concat (map (\<lambda>t. case at_done t of None \<Rightarrow> [] | Some u \<Rightarrow> [u]) (take (Suc k) (queue_view queue)))"
      using k(4) view by (auto simp: turn_view_def split: option.splits)
    moreover have "Suc k \<le> length (queue_view queue)" "queue_view queue' = drop (Suc k) (queue_view queue)"
      using k(1,2) view by auto
    moreover have "m \<noteq> 0 \<longrightarrow> p \<le> m \<longrightarrow> p + Suc k \<le> m" using k(5) True by auto
    ultimately show ?thesis using inv sp k(6) by (intro conjI exI [of _ "Suc k"] exI [of _ ?l]) auto
  next
    case False
    with "1.prems" show ?thesis
      by (subst (asm) drain_loop.simps) (auto simp: queue_view_def intro!: exI [of _ 0])
  qed
qed

section \<open>The queue in the event loop\<close>

text \<open>
  The events of one thread: jobs arrive, the repeating task runs (with the loop's cancel flag and the
  status of starting the agent), and the agent completes a turn that is in flight. The state carries
  the log of callbacks, and the callbacks of the jobs that were accepted.
\<close>

record 'u queue_world =
  the_queue :: "'u sc_runtime_turn_queue"
  completed :: "('u \<times> sc_status) list"
  accepted :: "'u list"
  world_alloc :: sc_allocator

inductive queue_step :: "'u queue_world \<Rightarrow> 'u queue_world \<Rightarrow> bool" where
  arrive: "sc_runtime_turn_queue_enqueue shutdown (the_queue w) job (world_alloc w) = (st, queue', a') \<Longrightarrow>
    queue_step w (w\<lparr>the_queue := queue', world_alloc := a',
      accepted := accepted w @ (if sc_status_is_ok st then (case job_done job of None \<Rightarrow> [] | Some u \<Rightarrow> [u]) else [])\<rparr>)"
| tick: "runtime_turn_queue_task cancelled start (the_queue w) = (st, queue') \<Longrightarrow>
    queue_step w (w\<lparr>the_queue := queue'\<rparr>)"
| finish: "in_flight (the_queue w) \<Longrightarrow>
    runtime_turn_queue_async_done st (the_queue w) (completed w) (world_alloc w) = (queue', log, a') \<Longrightarrow>
    queue_step w (w\<lparr>the_queue := queue', completed := log, world_alloc := a'\<rparr>)"

definition pending :: "'u aturn list \<Rightarrow> 'u list" where
  "pending ts = concat (map (\<lambda>t. case at_done t of None \<Rightarrow> [] | Some u \<Rightarrow> [u]) ts)"

text \<open>
  The invariant: a turn in flight is the head of the queue, every callback of an accepted job has been
  called or is pending, in order, and the blocks taken are those of the queue.
\<close>

definition world_inv :: "int \<Rightarrow> 'u queue_world \<Rightarrow> bool" where
  "world_inv k w \<longleftrightarrow> queue_inv (the_queue w) \<and>
     (in_flight (the_queue w) \<longrightarrow> queue_view (the_queue w) \<noteq> [] \<and>
        active_turn (hd (items (jobs (the_queue w)))) \<noteq> None) \<and>
     map fst (completed w) @ pending (queue_view (the_queue w)) = accepted w \<and>
     live (world_alloc w) = k + queue_blocks (the_queue w)"

lemma pending_simps [simp]:
  "pending [] = []" "pending (t # ts) = (case at_done t of None \<Rightarrow> [] | Some u \<Rightarrow> [u]) @ pending ts"
  "pending (ts @ us) = pending ts @ pending us"
  by (simp_all add: pending_def)

lemma pending_cancel [simp]: "pending (a_cancel job ts) = pending ts"
  by (induction ts) (auto simp: a_cancel_def)

lemma cancel_matching_active:
  "cancel_matching s t qs a = (qs', a') \<Longrightarrow> map active_turn qs' = map active_turn qs"
  by (induction qs arbitrary: a qs' a') (auto split: if_splits prod.splits)

lemma enqueue_active:
  assumes "sc_runtime_turn_queue_enqueue shutdown queue job a = (st, queue', a')" "queue_inv queue" "items (jobs queue) \<noteq> []"
  shows "items (jobs queue') \<noteq> [] \<and> active_turn (hd (items (jobs queue'))) = active_turn (hd (items (jobs queue)))"
proof -
  define cm where "cm = (if cancel_previous job
      then cancel_matching (job_session_id job) (job_thread_id job) (items (jobs queue)) a else (items (jobs queue), a))"
  obtain qs a1 where cm': "cm = (qs, a1)" by (cases cm)
  have act: "map active_turn qs = map active_turn (items (jobs queue))"
    using cm' cancel_matching_active by (auto simp: cm_def split: if_splits)
  then have qs: "qs \<noteq> []" "active_turn (hd qs) = active_turn (hd (items (jobs queue)))"
    using assms(3) by (metis list.map_disc_iff, metis assms(3) hd_map list.map_disc_iff)
  have inv: "vec_inv ((jobs queue)\<lparr>items := qs\<rparr>)"
    using assms(2) act map_eq_imp_length_eq [OF act] by (auto simp: queue_inv_def vec_inv_def)
  have "items (jobs queue') \<in> {items (jobs queue), qs} \<union> {qs @ [q] | q. True}"
    using assms(1) cm' vec_push_spec(4,5) [OF _ inv]
    by (fastforce simp: sc_runtime_turn_queue_enqueue_def cm_def [symmetric] Let_def split: if_splits sum.splits prod.splits)
  with qs assms(3) show ?thesis by auto
qed

lemma task_spec:
  assumes "runtime_turn_queue_task cancelled start queue = (st, queue')" "queue_inv queue"
  shows "queue_inv queue'" "queue_view queue' = queue_view queue" "queue_blocks queue' = queue_blocks queue"
    and "in_flight queue' \<Longrightarrow> in_flight queue \<and> queue' = queue \<or>
      queue_view queue \<noteq> [] \<and> active_turn (hd (items (jobs queue'))) \<noteq> None"
  using assms
  by (auto simp: runtime_turn_queue_task_def queue_inv_def queue_view_def queue_blocks_def vec_inv_def vec_blocks_def
      turn_inv_def turn_blocks_def turn_view_def split: if_splits list.splits)

lemma done_spec:
  assumes "runtime_turn_queue_async_done st queue log a = (queue', log', a')" "queue_inv queue"
  shows "queue_inv queue'" "\<not> in_flight queue'" "queue_view queue' = tl (queue_view queue)"
    "live a' = live a + queue_blocks queue' - queue_blocks queue"
    "map fst log' @ pending (queue_view queue') = map fst log @ pending (queue_view queue)"
proof -
  obtain queue1 a1 where rm: "runtime_turn_queue_remove_at queue 0 a = (queue1, a1)"
    by (cases "runtime_turn_queue_remove_at queue 0 a")
  note sp = remove_head_spec [OF rm assms(2)]
  have out: "queue' = queue1\<lparr>in_flight := False\<rparr>" "a' = a1"
    "log' = (case items (jobs queue) of [] \<Rightarrow> log | job # _ \<Rightarrow> notify (done_callback job) st log)"
    using assms(1) rm by (auto simp: runtime_turn_queue_async_done_def)
  have same: "queue_view (queue1\<lparr>in_flight := False\<rparr>) = queue_view queue1" "queue_blocks (queue1\<lparr>in_flight := False\<rparr>) = queue_blocks queue1"
    "queue_inv (queue1\<lparr>in_flight := False\<rparr>) = queue_inv queue1"
    by (simp_all add: queue_view_def queue_blocks_def queue_inv_def)
  show "queue_inv queue'" "\<not> in_flight queue'" "queue_view queue' = tl (queue_view queue)"
    "live a' = live a + queue_blocks queue' - queue_blocks queue"
    using sp by (simp_all add: out same)
  show "map fst log' @ pending (queue_view queue') = map fst log @ pending (queue_view queue)"
    using sp by (cases "items (jobs queue)") (auto simp: out same notify_def queue_view_def turn_view_def split: option.splits)
qed

lemma queue_step_inv: "queue_step w w' \<Longrightarrow> world_inv k w \<Longrightarrow> world_inv k w'"
proof (induction rule: queue_step.induct)
  case (arrive shutdown w job st queue' a')
  then have inv: "queue_inv (the_queue w)" by (simp add: world_inv_def)
  note sp = enqueue_spec [OF arrive(1) inv]
  have "queue_view (the_queue w) \<noteq> [] \<Longrightarrow> queue_view queue' \<noteq> [] \<and>
      active_turn (hd (items (jobs queue'))) = active_turn (hd (items (jobs (the_queue w))))"
    using enqueue_active [OF arrive(1) inv] by (auto simp: queue_view_def)
  moreover have "pending (queue_view queue') = pending (queue_view (the_queue w)) @
      (if sc_status_is_ok st then (case job_done job of None \<Rightarrow> [] | Some u \<Rightarrow> [u]) else [])"
    using sp by (cases "sc_status_is_ok st") (auto simp: a_enqueue_def)
  ultimately show ?case using arrive(2) sp by (auto simp: world_inv_def)
next
  case (tick cancelled start w st queue')
  then have inv: "queue_inv (the_queue w)" by (simp add: world_inv_def)
  note sp = task_spec [OF tick(1) inv]
  then show ?case using tick(2) by (auto simp: world_inv_def)
next
  case (finish w st queue' log a')
  then have inv: "queue_inv (the_queue w)" by (simp add: world_inv_def)
  note sp = done_spec [OF finish(2) inv]
  then show ?case using finish(3) by (auto simp: world_inv_def)
qed

lemma queue_steps_inv: "queue_step\<^sup>*\<^sup>* w w' \<Longrightarrow> world_inv k w \<Longrightarrow> world_inv k w'"
  by (induction rule: rtranclp_induct) (auto dest: queue_step_inv)

definition world0 :: "sc_allocator \<Rightarrow> 'u queue_world" where
  "world0 a = \<lparr>the_queue = \<lparr>jobs = sc_vec_init SIZEOF_QUEUED_TURN, scheduled = False, in_flight = False\<rparr>,
     completed = [], accepted = [], world_alloc = a\<rparr>"

lemma world0_inv: "world_inv (live a - 1) (world0 a)"
  by (simp add: world_inv_def world0_def queue_inv_def queue_view_def queue_blocks_def)

text \<open>One round of the loop: the task starts the head of the queue, and the agent completes it.\<close>

definition serve_one :: "sc_status \<Rightarrow> 'u queue_world \<Rightarrow> 'u queue_world" where
  "serve_one st w =
     (case runtime_turn_queue_task False sc_status_ok (the_queue w) of
        (_, queue1) \<Rightarrow>
          (case runtime_turn_queue_async_done st queue1 (completed w) (world_alloc w) of
             (queue2, log, a') \<Rightarrow> w\<lparr>the_queue := queue2, completed := log, world_alloc := a'\<rparr>))"

fun serve :: "sc_status list \<Rightarrow> 'u queue_world \<Rightarrow> 'u queue_world" where
  "serve [] w = w"
| "serve (st # sts) w = serve sts (serve_one st w)"

lemma serve_one_spec:
  assumes "world_inv k w" "\<not> in_flight (the_queue w)" "queue_view (the_queue w) \<noteq> []"
  shows "queue_step\<^sup>*\<^sup>* w (serve_one st w)" "\<not> in_flight (the_queue (serve_one st w))"
    "queue_view (the_queue (serve_one st w)) = tl (queue_view (the_queue w))" "accepted (serve_one st w) = accepted w"
proof -
  obtain r queue1 where t: "runtime_turn_queue_task False sc_status_ok (the_queue w) = (r, queue1)"
    by (cases "runtime_turn_queue_task False sc_status_ok (the_queue w)")
  obtain queue2 log a' where d: "runtime_turn_queue_async_done st queue1 (completed w) (world_alloc w) = (queue2, log, a')"
    by (cases "runtime_turn_queue_async_done st queue1 (completed w) (world_alloc w)")
  have inv: "queue_inv (the_queue w)" using assms(1) by (simp add: world_inv_def)
  note sp = task_spec [OF t inv]
  note dn = done_spec [OF d sp(1)]
  have fl: "in_flight queue1"
    using t assms(2,3) by (cases "items (jobs (the_queue w))") (auto simp: runtime_turn_queue_task_def queue_view_def)
  have out: "serve_one st w = w\<lparr>the_queue := queue2, completed := log, world_alloc := a'\<rparr>"
    using t d by (simp add: serve_one_def)
  let ?w1 = "w\<lparr>the_queue := queue1\<rparr>"
  have "queue_step w ?w1" by (rule queue_step.tick [OF t])
  moreover have "queue_step ?w1 (?w1\<lparr>the_queue := queue2, completed := log, world_alloc := a'\<rparr>)"
    using fl d by (intro queue_step.finish) auto
  ultimately show "queue_step\<^sup>*\<^sup>* w (serve_one st w)" unfolding out by simp
  show "\<not> in_flight (the_queue (serve_one st w))" "queue_view (the_queue (serve_one st w)) = tl (queue_view (the_queue w))"
    "accepted (serve_one st w) = accepted w" using dn sp by (simp_all add: out)
qed

lemma serve_all:
  assumes "world_inv k w" "\<not> in_flight (the_queue w)" "length sts = length (queue_view (the_queue w))"
  shows "queue_step\<^sup>*\<^sup>* w (serve sts w) \<and> queue_view (the_queue (serve sts w)) = [] \<and>
    map fst (completed (serve sts w)) = accepted w"
  using assms
proof (induction sts arbitrary: w)
  case Nil
  then show ?case by (simp add: world_inv_def)
next
  case (Cons st sts)
  then have ne: "queue_view (the_queue w) \<noteq> []" by auto
  note one = serve_one_spec [OF Cons.prems(1,2) ne, of st]
  have "world_inv k (serve_one st w)" using queue_steps_inv [OF one(1) Cons.prems(1)] .
  from Cons.IH [OF this one(2)] one Cons.prems(3) show ?case by (auto intro: rtranclp_trans)
qed

end
