(* ===== verification/SC_Json.thy ===== *)
theory SC_Json
  imports SC_Vector
begin

text \<open>
  JSON values, \<^verbatim>\<open>src/json/json.c\<close> without the parser and the printer: construction, lookup,
  cloning and release, and \<^verbatim>\<open>src/json/json_schema.c\<close>. A value is the tree of its nodes; every
  node is one block, and an array or object node also carries the storage of its vector. The type of
  floating-point numbers is a parameter: nothing here looks into a number.
\<close>

section \<open>Values\<close>

datatype sc_json_type =
    JSON_NULL | JSON_BOOL | JSON_NUMBER | JSON_STRING | JSON_ARRAY | JSON_OBJECT

text \<open>
  \<^verbatim>\<open>struct sc_json_value\<close>. The last two fields of an array or object are the capacity of its
  vector and whether the vector holds a block.
\<close>

datatype 'd sc_json_value =
    SC_JSON_NULL
  | SC_JSON_BOOL bool
  | SC_JSON_NUMBER 'd
  | SC_JSON_STRING sc_string
  | SC_JSON_ARRAY "'d sc_json_value list" nat bool
  | SC_JSON_OBJECT "(sc_string \<times> 'd sc_json_value) list" nat bool

type_synonym 'd json_member = "sc_string \<times> 'd sc_json_value"

definition JSON_MAX_DEPTH :: nat where
  "JSON_MAX_DEPTH = 64"

definition JSON_MAX_ARRAY_ITEMS :: nat where
  "JSON_MAX_ARRAY_ITEMS = 100000"

definition SIZEOF_JSON_VALUE :: nat where
  "SIZEOF_JSON_VALUE = 56"

definition SIZEOF_JSON_MEMBER :: nat where
  "SIZEOF_JSON_MEMBER = 32"

text \<open>The vectors inside a node.\<close>

definition array_vec :: "'d sc_json_value list \<Rightarrow> nat \<Rightarrow> bool \<Rightarrow> 'd sc_json_value sc_ptr_vec" where
  "array_vec xs c h = \<lparr>items = map Some xs, vcap = c, item_size = 8, vheld = h\<rparr>"

definition object_vec :: "'d json_member list \<Rightarrow> nat \<Rightarrow> bool \<Rightarrow> 'd json_member sc_vec" where
  "object_vec ms c h = \<lparr>items = ms, vcap = c, item_size = SIZEOF_JSON_MEMBER, vheld = h\<rparr>"

section \<open>Release\<close>

fun sc_json_destroy :: "'d sc_json_value \<Rightarrow> sc_allocator \<Rightarrow> sc_allocator"
  and destroy_items :: "'d sc_json_value list \<Rightarrow> sc_allocator \<Rightarrow> sc_allocator"
  and destroy_members :: "'d json_member list \<Rightarrow> sc_allocator \<Rightarrow> sc_allocator" where
  "sc_json_destroy SC_JSON_NULL a = sc_free True a"
| "sc_json_destroy (SC_JSON_BOOL b) a = sc_free True a"
| "sc_json_destroy (SC_JSON_NUMBER d) a = sc_free True a"
| "sc_json_destroy (SC_JSON_STRING s) a = sc_free True (sc_string_clear s a)"
| "sc_json_destroy (SC_JSON_ARRAY xs c h) a =
     sc_free True (snd (sc_ptr_vec_clear (array_vec xs c h) (destroy_items xs a)))"
| "sc_json_destroy (SC_JSON_OBJECT ms c h) a =
     sc_free True (snd (sc_vec_clear (object_vec ms c h) (destroy_members ms a)))"
| "destroy_items [] a = a"
| "destroy_items (x # xs) a = destroy_items xs (sc_json_destroy x a)"
| "destroy_members [] a = a"
| "destroy_members ((k, x) # ms) a = destroy_members ms (sc_json_destroy x (sc_string_clear k a))"

section \<open>Queries\<close>

text \<open>A null pointer is \<open>None\<close>.\<close>

fun sc_json_type_of :: "'d sc_json_value option \<Rightarrow> sc_json_type" where
  "sc_json_type_of None = JSON_NULL"
| "sc_json_type_of (Some SC_JSON_NULL) = JSON_NULL"
| "sc_json_type_of (Some (SC_JSON_BOOL b)) = JSON_BOOL"
| "sc_json_type_of (Some (SC_JSON_NUMBER d)) = JSON_NUMBER"
| "sc_json_type_of (Some (SC_JSON_STRING s)) = JSON_STRING"
| "sc_json_type_of (Some (SC_JSON_ARRAY xs c h)) = JSON_ARRAY"
| "sc_json_type_of (Some (SC_JSON_OBJECT ms c h)) = JSON_OBJECT"

definition sc_json_object_len_internal :: "'d sc_json_value option \<Rightarrow> nat" where
  "sc_json_object_len_internal v = (case v of Some (SC_JSON_OBJECT ms c h) \<Rightarrow> length ms | _ \<Rightarrow> 0)"

definition sc_json_object_entry_internal ::
    "'d sc_json_value option \<Rightarrow> nat \<Rightarrow> (sc_str \<times> 'd sc_json_value) res" where
  "sc_json_object_entry_internal v index =
     (case v of
        Some (SC_JSON_OBJECT ms c h) \<Rightarrow>
          (case sc_vec_at_const (object_vec ms c h) index of
             None \<Rightarrow> Inl (sc_status_invalid_argument ''sc.json.object_entry_invalid_argument'')
           | Some (k, x) \<Rightarrow> Inr (sc_string_as_str k, x))
      | _ \<Rightarrow> Inl (sc_status_invalid_argument ''sc.json.object_entry_invalid_argument''))"

text \<open>The search runs from the last member to the first.\<close>

fun last_member :: "'d json_member list \<Rightarrow> sc_str \<Rightarrow> 'd sc_json_value option" where
  "last_member [] key = None"
| "last_member ((k, x) # ms) key =
     (case last_member ms key of
        Some y \<Rightarrow> Some y
      | None \<Rightarrow> (if sc_str_equal (sc_string_as_str k) key then Some x else None))"

definition sc_json_object_get :: "'d sc_json_value option \<Rightarrow> sc_str \<Rightarrow> 'd sc_json_value option" where
  "sc_json_object_get v key =
     (case v of Some (SC_JSON_OBJECT ms c h) \<Rightarrow> last_member ms key | _ \<Rightarrow> None)"

definition sc_json_array_len :: "'d sc_json_value option \<Rightarrow> nat" where
  "sc_json_array_len v = (case v of Some (SC_JSON_ARRAY xs c h) \<Rightarrow> length xs | _ \<Rightarrow> 0)"

definition sc_json_array_get :: "'d sc_json_value option \<Rightarrow> nat \<Rightarrow> 'd sc_json_value option" where
  "sc_json_array_get v index =
     (case v of Some (SC_JSON_ARRAY xs c h) \<Rightarrow> sc_ptr_vec_at (array_vec xs c h) index | _ \<Rightarrow> None)"

definition sc_json_as_bool :: "'d sc_json_value option \<Rightarrow> bool option" where
  "sc_json_as_bool v = (case v of Some (SC_JSON_BOOL b) \<Rightarrow> Some b | _ \<Rightarrow> None)"

definition sc_json_as_number :: "'d sc_json_value option \<Rightarrow> 'd option" where
  "sc_json_as_number v = (case v of Some (SC_JSON_NUMBER d) \<Rightarrow> Some d | _ \<Rightarrow> None)"

definition sc_json_as_str :: "'d sc_json_value option \<Rightarrow> sc_str option" where
  "sc_json_as_str v = (case v of Some (SC_JSON_STRING s) \<Rightarrow> Some (sc_string_as_str s) | _ \<Rightarrow> None)"

definition sc_json_is_null :: "'d sc_json_value option \<Rightarrow> bool" where
  "sc_json_is_null v = (v = Some SC_JSON_NULL)"

section \<open>Construction\<close>

text \<open>\<^verbatim>\<open>json_alloc_value\<close>: the block of a node; the node itself is what the caller makes of it.\<close>

definition json_alloc_value :: "'d sc_json_value \<Rightarrow> sc_allocator \<Rightarrow> 'd sc_json_value res \<times> sc_allocator" where
  "json_alloc_value v a =
     (case sc_alloc SIZEOF_JSON_VALUE a of
        (False, a1) \<Rightarrow> (Inl sc_status_no_memory, a1)
      | (True, a1) \<Rightarrow> (Inr v, a1))"

definition sc_json_object_new :: "sc_allocator \<Rightarrow> 'd sc_json_value res \<times> sc_allocator" where
  "sc_json_object_new a = json_alloc_value (SC_JSON_OBJECT [] 0 False) a"

definition sc_json_array_new :: "sc_allocator \<Rightarrow> 'd sc_json_value res \<times> sc_allocator" where
  "sc_json_array_new a = json_alloc_value (SC_JSON_ARRAY [] 0 False) a"

definition sc_json_string_new :: "sc_str \<Rightarrow> sc_allocator \<Rightarrow> 'd sc_json_value res \<times> sc_allocator" where
  "sc_json_string_new value a =
     (case json_alloc_value (SC_JSON_STRING None :: 'd sc_json_value) a of
        (Inl e, a1) \<Rightarrow> (Inl e, a1)
      | (Inr v, a1) \<Rightarrow>
          (case sc_string_from_str value a1 of
             (Inl e, a2) \<Rightarrow> (Inl e, sc_json_destroy v a2)
           | (Inr s, a2) \<Rightarrow> (Inr (SC_JSON_STRING s), a2)))"

definition sc_json_number_new :: "'d \<Rightarrow> sc_allocator \<Rightarrow> 'd sc_json_value res \<times> sc_allocator" where
  "sc_json_number_new d a = json_alloc_value (SC_JSON_NUMBER d) a"

definition sc_json_bool_new :: "bool \<Rightarrow> sc_allocator \<Rightarrow> 'd sc_json_value res \<times> sc_allocator" where
  "sc_json_bool_new b a = json_alloc_value (SC_JSON_BOOL b) a"

definition sc_json_null_new :: "sc_allocator \<Rightarrow> 'd sc_json_value res \<times> sc_allocator" where
  "sc_json_null_new a = json_alloc_value SC_JSON_NULL a"

definition sc_json_object_set ::
    "'d sc_json_value \<Rightarrow> sc_str \<Rightarrow> 'd sc_json_value \<Rightarrow> sc_allocator \<Rightarrow> sc_status \<times> 'd sc_json_value \<times> sc_allocator" where
  "sc_json_object_set v key x a =
     (case v of
        SC_JSON_OBJECT ms c h \<Rightarrow>
          (case sc_string_from_str key a of
             (Inl e, a1) \<Rightarrow> (e, v, a1)
           | (Inr k, a1) \<Rightarrow>
               (case sc_vec_push (object_vec ms c h) (Some (k, x)) a1 of
                  (st, vec, a2) \<Rightarrow>
                    (st, SC_JSON_OBJECT (items vec) (vcap vec) (vheld vec),
                     (if \<not> sc_status_is_ok st then sc_string_clear k a2 else a2))))
      | _ \<Rightarrow> (sc_status_invalid_argument ''sc.json.invalid_argument'', v, a))"

definition sc_json_array_append ::
    "'d sc_json_value \<Rightarrow> 'd sc_json_value \<Rightarrow> sc_allocator \<Rightarrow> sc_status \<times> 'd sc_json_value \<times> sc_allocator" where
  "sc_json_array_append v x a =
     (case v of
        SC_JSON_ARRAY xs c h \<Rightarrow>
          (if length xs \<ge> JSON_MAX_ARRAY_ITEMS then (sc_status_parse ''sc.json.array_too_large'', v, a)
           else (case sc_ptr_vec_push (array_vec xs c h) (Some x) a of
                   (st, vec, a1) \<Rightarrow>
                     (st, SC_JSON_ARRAY (map the (items vec)) (vcap vec) (vheld vec), a1)))
      | _ \<Rightarrow> (sc_status_invalid_argument ''sc.json.invalid_argument'', v, a))"

section \<open>Cloning\<close>

fun sc_json_clone :: "'d sc_json_value \<Rightarrow> sc_allocator \<Rightarrow> 'd sc_json_value res \<times> sc_allocator"
  and clone_items ::
    "'d sc_json_value list \<Rightarrow> 'd sc_json_value \<Rightarrow> sc_allocator \<Rightarrow> sc_status \<times> 'd sc_json_value \<times> sc_allocator"
  and clone_members ::
    "'d json_member list \<Rightarrow> 'd sc_json_value \<Rightarrow> sc_allocator \<Rightarrow> sc_status \<times> 'd sc_json_value \<times> sc_allocator" where
  "sc_json_clone SC_JSON_NULL a = json_alloc_value SC_JSON_NULL a"
| "sc_json_clone (SC_JSON_BOOL b) a = json_alloc_value (SC_JSON_BOOL b) a"
| "sc_json_clone (SC_JSON_NUMBER d) a = json_alloc_value (SC_JSON_NUMBER d) a"
| "sc_json_clone (SC_JSON_STRING s) a =
     (case json_alloc_value (SC_JSON_STRING None :: 'd sc_json_value) a of
        (Inl e, a1) \<Rightarrow> (Inl e, a1)
      | (Inr v, a1) \<Rightarrow>
          (case sc_string_from_str (sc_string_as_str s) a1 of
             (Inl e, a2) \<Rightarrow> (Inl e, sc_json_destroy v a2)
           | (Inr t, a2) \<Rightarrow> (Inr (SC_JSON_STRING t), a2)))"
| "sc_json_clone (SC_JSON_ARRAY xs c h) a =
     (case json_alloc_value (SC_JSON_ARRAY [] 0 False) a of
        (Inl e, a1) \<Rightarrow> (Inl e, a1)
      | (Inr v, a1) \<Rightarrow>
          (case clone_items xs v a1 of
             (st, v', a2) \<Rightarrow> (if \<not> sc_status_is_ok st then (Inl st, sc_json_destroy v' a2) else (Inr v', a2))))"
| "sc_json_clone (SC_JSON_OBJECT ms c h) a =
     (case json_alloc_value (SC_JSON_OBJECT [] 0 False) a of
        (Inl e, a1) \<Rightarrow> (Inl e, a1)
      | (Inr v, a1) \<Rightarrow>
          (case clone_members ms v a1 of
             (st, v', a2) \<Rightarrow> (if \<not> sc_status_is_ok st then (Inl st, sc_json_destroy v' a2) else (Inr v', a2))))"
| "clone_items [] v a = (sc_status_ok, v, a)"
| "clone_items (x # xs) v a =
     (case sc_json_clone x a of
        (Inl e, a1) \<Rightarrow> (e, v, a1)
      | (Inr child, a1) \<Rightarrow>
          (case sc_json_array_append v child a1 of
             (st, v', a2) \<Rightarrow>
               (if \<not> sc_status_is_ok st then (st, v', sc_json_destroy child a2) else clone_items xs v' a2)))"
| "clone_members [] v a = (sc_status_ok, v, a)"
| "clone_members ((k, x) # ms) v a =
     (case sc_json_clone x a of
        (Inl e, a1) \<Rightarrow> (e, v, a1)
      | (Inr child, a1) \<Rightarrow>
          (case sc_json_object_set v (sc_string_as_str k) child a1 of
             (st, v', a2) \<Rightarrow>
               (if \<not> sc_status_is_ok st then (st, v', sc_json_destroy child a2) else clone_members ms v' a2)))"

section \<open>What a value holds and what it says\<close>

text \<open>The blocks of a value, and the well-formedness of its vectors.\<close>

fun json_blocks :: "'d sc_json_value \<Rightarrow> int"
  and items_blocks :: "'d sc_json_value list \<Rightarrow> int"
  and members_blocks :: "'d json_member list \<Rightarrow> int" where
  "json_blocks SC_JSON_NULL = 1"
| "json_blocks (SC_JSON_BOOL b) = 1"
| "json_blocks (SC_JSON_NUMBER d) = 1"
| "json_blocks (SC_JSON_STRING s) = 1 + string_blocks s"
| "json_blocks (SC_JSON_ARRAY xs c h) = 1 + vec_blocks (array_vec xs c h) + items_blocks xs"
| "json_blocks (SC_JSON_OBJECT ms c h) = 1 + vec_blocks (object_vec ms c h) + members_blocks ms"
| "items_blocks [] = 0"
| "items_blocks (x # xs) = json_blocks x + items_blocks xs"
| "members_blocks [] = 0"
| "members_blocks ((k, x) # ms) = string_blocks k + json_blocks x + members_blocks ms"

fun json_inv :: "'d sc_json_value \<Rightarrow> bool"
  and items_inv :: "'d sc_json_value list \<Rightarrow> bool"
  and members_inv :: "'d json_member list \<Rightarrow> bool" where
  "json_inv SC_JSON_NULL \<longleftrightarrow> True"
| "json_inv (SC_JSON_BOOL b) \<longleftrightarrow> True"
| "json_inv (SC_JSON_NUMBER d) \<longleftrightarrow> True"
| "json_inv (SC_JSON_STRING s) \<longleftrightarrow> True"
| "json_inv (SC_JSON_ARRAY xs c h) \<longleftrightarrow> vec_inv (array_vec xs c h) \<and> items_inv xs"
| "json_inv (SC_JSON_OBJECT ms c h) \<longleftrightarrow> vec_inv (object_vec ms c h) \<and> members_inv ms"
| "items_inv [] \<longleftrightarrow> True"
| "items_inv (x # xs) \<longleftrightarrow> json_inv x \<and> items_inv xs"
| "members_inv [] \<longleftrightarrow> True"
| "members_inv ((k, x) # ms) \<longleftrightarrow> json_inv x \<and> members_inv ms"

text \<open>The document a value stands for, without its storage.\<close>

datatype 'd json =
    JNull | JBool bool | JNumber 'd | JString string | JArray "'d json list" | JObject "(string \<times> 'd json) list"

fun json_view :: "'d sc_json_value \<Rightarrow> 'd json"
  and items_view :: "'d sc_json_value list \<Rightarrow> 'd json list"
  and members_view :: "'d json_member list \<Rightarrow> (string \<times> 'd json) list" where
  "json_view SC_JSON_NULL = JNull"
| "json_view (SC_JSON_BOOL b) = JBool b"
| "json_view (SC_JSON_NUMBER d) = JNumber d"
| "json_view (SC_JSON_STRING s) = JString (owned_text s)"
| "json_view (SC_JSON_ARRAY xs c h) = JArray (items_view xs)"
| "json_view (SC_JSON_OBJECT ms c h) = JObject (members_view ms)"
| "items_view [] = []"
| "items_view (x # xs) = json_view x # items_view xs"
| "members_view [] = []"
| "members_view ((k, x) # ms) = (owned_text k, json_view x) # members_view ms"

lemma items_append [simp]:
  "items_blocks (xs @ ys) = items_blocks xs + items_blocks ys"
  "items_inv (xs @ ys) \<longleftrightarrow> items_inv xs \<and> items_inv ys"
  "items_view (xs @ ys) = items_view xs @ items_view ys"
  by (induction xs) auto

lemma members_append [simp]:
  "members_blocks (ms @ ns) = members_blocks ms + members_blocks ns"
  "members_inv (ms @ ns) \<longleftrightarrow> members_inv ms \<and> members_inv ns"
  "members_view (ms @ ns) = members_view ms @ members_view ns"
  by (induction ms) auto

lemma array_vec_simps [simp]:
  "items (array_vec xs c h) = map Some xs" "item_size (array_vec xs c h) = 8"
  "vcap (array_vec xs c h) = c" "vheld (array_vec xs c h) = h"
  by (simp_all add: array_vec_def)

lemma object_vec_simps [simp]:
  "items (object_vec ms c h) = ms" "item_size (object_vec ms c h) = SIZEOF_JSON_MEMBER"
  "vcap (object_vec ms c h) = c" "vheld (object_vec ms c h) = h"
  by (simp_all add: object_vec_def)

lemma destroy_live:
  fixes v :: "'d sc_json_value" and xs :: "'d sc_json_value list" and ms :: "'d json_member list"
  shows "json_inv v \<Longrightarrow> live (sc_json_destroy v a) = live a - json_blocks v"
    and "items_inv xs \<Longrightarrow> live (destroy_items xs a) = live a - items_blocks xs"
    and "members_inv ms \<Longrightarrow> live (destroy_members ms a) = live a - members_blocks ms"
  by (induction v a and xs a and ms a rule: sc_json_destroy_destroy_items_destroy_members.induct)
    (auto simp: sc_ptr_vec_clear_def vec_clear_live)

lemma json_alloc_cases:
  assumes "json_alloc_value v a = (r, a')"
  obtains "r = Inl sc_status_no_memory" "live a' = live a" | "r = Inr v" "live a' = live a + 1"
  using assms by (auto simp: json_alloc_value_def split: prod.splits bool.splits dest!: alloc_cases)

text \<open>Adding to a container: what changes on success, and that nothing changes on failure.\<close>

lemma object_set_spec:
  assumes "sc_json_object_set v key x a = (st, v', a')" "json_inv v" "json_inv x"
  shows "sc_status_is_ok st \<Longrightarrow> json_inv v' \<and>
      live a' = live a + json_blocks v' - json_blocks v - json_blocks x \<and>
      (\<exists>ms c h c' h'. v = SC_JSON_OBJECT ms c h \<and> v' = SC_JSON_OBJECT (ms @ [(Some (str_bytes key), x)]) c' h')"
    and "\<not> sc_status_is_ok st \<Longrightarrow> v' = v \<and> live a' = live a"
proof -
  have "(sc_status_is_ok st \<longrightarrow> json_inv v' \<and>
      live a' = live a + json_blocks v' - json_blocks v - json_blocks x \<and>
      (\<exists>ms c h c' h'. v = SC_JSON_OBJECT ms c h \<and> v' = SC_JSON_OBJECT (ms @ [(Some (str_bytes key), x)]) c' h')) \<and>
    (\<not> sc_status_is_ok st \<longrightarrow> v' = v \<and> live a' = live a)"
  proof (cases v)
    case (SC_JSON_OBJECT ms c h)
    obtain r a1 where one: "sc_string_from_str key a = (r, a1)" by (cases "sc_string_from_str key a")
    show ?thesis
    proof (cases r)
      case (Inl e)
      with assms(1) one SC_JSON_OBJECT string_from_str_Inl show ?thesis
        by (auto simp: sc_json_object_set_def)
    next
      case (Inr k)
      obtain st2 vec a2 where push: "sc_vec_push (object_vec ms c h) (Some (k, x)) a1 = (st2, vec, a2)"
        by (cases "sc_vec_push (object_vec ms c h) (Some (k, x)) a1")
      have vi: "vec_inv (object_vec ms c h)" using assms(2) SC_JSON_OBJECT by simp
      note sp = vec_push_spec [OF push vi]
      have k: "k = Some (str_bytes key)" "live a1 = live a + 1"
        using string_from_str_Inr one Inr by auto
      have out: "st = st2" "v' = SC_JSON_OBJECT (items vec) (vcap vec) (vheld vec)"
        "a' = (if \<not> sc_status_is_ok st2 then sc_string_clear k a2 else a2)"
        using assms(1) one Inr push SC_JSON_OBJECT by (auto simp: sc_json_object_set_def)
      have vec: "vec = object_vec (items vec) (vcap vec) (vheld vec)"
        using sp(3) by (simp add: object_vec_def)
      show ?thesis
      proof (cases "sc_status_is_ok st2")
        case True
        with sp(4) have it: "items vec = ms @ [(k, x)]" by simp
        have "vec_blocks (object_vec (ms @ [(k, x)]) (vcap vec) (vheld vec)) = vec_blocks vec"
          "vec_inv (object_vec (ms @ [(k, x)]) (vcap vec) (vheld vec))"
          using sp(1) vec it by simp_all
        with True out it sp(2) k assms(2,3) SC_JSON_OBJECT show ?thesis
          by (auto simp: string_blocks_def)
      next
        case False
        with sp(5) have "vec = object_vec ms c h" by simp
        with False out k sp(2) SC_JSON_OBJECT show ?thesis by (simp add: string_blocks_def)
      qed
    qed
  qed (use assms(1) in \<open>auto simp: sc_json_object_set_def\<close>)
  then show "sc_status_is_ok st \<Longrightarrow> json_inv v' \<and>
      live a' = live a + json_blocks v' - json_blocks v - json_blocks x \<and>
      (\<exists>ms c h c' h'. v = SC_JSON_OBJECT ms c h \<and> v' = SC_JSON_OBJECT (ms @ [(Some (str_bytes key), x)]) c' h')"
    "\<not> sc_status_is_ok st \<Longrightarrow> v' = v \<and> live a' = live a" by blast+
qed

lemma array_append_spec:
  assumes "sc_json_array_append v x a = (st, v', a')" "json_inv v" "json_inv x"
  shows "sc_status_is_ok st \<Longrightarrow> json_inv v' \<and>
      live a' = live a + json_blocks v' - json_blocks v - json_blocks x \<and>
      (\<exists>xs c h c' h'. v = SC_JSON_ARRAY xs c h \<and> v' = SC_JSON_ARRAY (xs @ [x]) c' h' \<and>
         length xs < JSON_MAX_ARRAY_ITEMS)"
    and "\<not> sc_status_is_ok st \<Longrightarrow> v' = v \<and> live a' = live a"
proof -
  have "(sc_status_is_ok st \<longrightarrow> json_inv v' \<and>
      live a' = live a + json_blocks v' - json_blocks v - json_blocks x \<and>
      (\<exists>xs c h c' h'. v = SC_JSON_ARRAY xs c h \<and> v' = SC_JSON_ARRAY (xs @ [x]) c' h' \<and>
         length xs < JSON_MAX_ARRAY_ITEMS)) \<and>
    (\<not> sc_status_is_ok st \<longrightarrow> v' = v \<and> live a' = live a)"
  proof (cases v)
    case (SC_JSON_ARRAY xs c h)
    show ?thesis
    proof (cases "length xs \<ge> JSON_MAX_ARRAY_ITEMS")
      case True
      with assms(1) SC_JSON_ARRAY show ?thesis by (auto simp: sc_json_array_append_def)
    next
      case room: False
      obtain st2 vec a2 where push: "sc_vec_push (array_vec xs c h) (Some (Some x)) a = (st2, vec, a2)"
        by (cases "sc_vec_push (array_vec xs c h) (Some (Some x)) a")
      have vi: "vec_inv (array_vec xs c h)" using assms(2) SC_JSON_ARRAY by simp
      note sp = vec_push_spec [OF push vi]
      have out: "st = st2" "v' = SC_JSON_ARRAY (map the (items vec)) (vcap vec) (vheld vec)" "a' = a2"
        using assms(1) push SC_JSON_ARRAY room by (auto simp: sc_json_array_append_def sc_ptr_vec_push_def)
      show ?thesis
      proof (cases "sc_status_is_ok st2")
        case True
        with sp(4) have it: "items vec = map Some (xs @ [x])" by simp
        have vec: "vec = array_vec (xs @ [x]) (vcap vec) (vheld vec)"
          using sp(3) it by (simp add: array_vec_def)
        have "map the (items vec) = xs @ [x]" by (simp add: it comp_def)
        moreover have "vec_blocks (array_vec (xs @ [x]) (vcap vec) (vheld vec)) = vec_blocks vec"
          "vec_inv (array_vec (xs @ [x]) (vcap vec) (vheld vec))"
          using sp(1) vec by simp_all
        ultimately show ?thesis using True out sp(2) assms(2,3) SC_JSON_ARRAY room by auto
      next
        case False
        with sp(5) have "vec = array_vec xs c h" by simp
        with False out sp(2) SC_JSON_ARRAY show ?thesis by (simp add: comp_def)
      qed
    qed
  qed (use assms(1) in \<open>auto simp: sc_json_array_append_def\<close>)
  then show "sc_status_is_ok st \<Longrightarrow> json_inv v' \<and>
      live a' = live a + json_blocks v' - json_blocks v - json_blocks x \<and>
      (\<exists>xs c h c' h'. v = SC_JSON_ARRAY xs c h \<and> v' = SC_JSON_ARRAY (xs @ [x]) c' h' \<and>
         length xs < JSON_MAX_ARRAY_ITEMS)"
    "\<not> sc_status_is_ok st \<Longrightarrow> v' = v \<and> live a' = live a" by blast+
qed

section \<open>A clone is the same document\<close>

text \<open>The containers a clone grows start empty and gain the view of each child at the end.\<close>

definition cloned :: "'d json \<Rightarrow> sc_allocator \<Rightarrow> 'd sc_json_value res \<times> sc_allocator \<Rightarrow> bool" where
  "cloned j a out \<longleftrightarrow> (case out of
     (Inl e, a') \<Rightarrow> \<not> sc_status_is_ok e \<and> live a' = live a
   | (Inr v, a') \<Rightarrow> json_inv v \<and> json_view v = j \<and> live a' = live a + json_blocks v)"

definition grown_array ::
    "'d json list \<Rightarrow> 'd sc_json_value \<Rightarrow> sc_allocator \<Rightarrow> sc_status \<times> 'd sc_json_value \<times> sc_allocator \<Rightarrow> bool" where
  "grown_array js v a out \<longleftrightarrow> (case out of (st, v', a') \<Rightarrow>
     json_inv v' \<and> live a' = live a + json_blocks v' - json_blocks v \<and>
     (sc_status_is_ok st \<longrightarrow> (\<forall>ks. json_view v = JArray ks \<longrightarrow> json_view v' = JArray (ks @ js))))"

definition grown_object ::
    "(string \<times> 'd json) list \<Rightarrow> 'd sc_json_value \<Rightarrow> sc_allocator \<Rightarrow> sc_status \<times> 'd sc_json_value \<times> sc_allocator \<Rightarrow> bool" where
  "grown_object js v a out \<longleftrightarrow> (case out of (st, v', a') \<Rightarrow>
     json_inv v' \<and> live a' = live a + json_blocks v' - json_blocks v \<and>
     (sc_status_is_ok st \<longrightarrow> (\<forall>ks. json_view v = JObject ks \<longrightarrow> json_view v' = JObject (ks @ js))))"

lemma clone_container:
  assumes "json_inv v0" "json_blocks v0 = 1"
    and "\<And>a1. case f v0 a1 of (st, v', a2) \<Rightarrow> json_inv v' \<and> live a2 = live a1 + json_blocks v' - 1 \<and>
      (sc_status_is_ok st \<longrightarrow> json_view v' = j)"
  shows "cloned j a (case json_alloc_value v0 a of
      (Inl e, a1) \<Rightarrow> (Inl e, a1)
    | (Inr v, a1) \<Rightarrow>
        (case f v a1 of
           (st, v', a2) \<Rightarrow> (if \<not> sc_status_is_ok st then (Inl st, sc_json_destroy v' a2) else (Inr v', a2))))"
proof -
  obtain r a1 where one: "json_alloc_value v0 a = (r, a1)" by (cases "json_alloc_value v0 a")
  then show ?thesis
  proof (cases rule: json_alloc_cases)
    case 2
    with one assms(3) [of a1] show ?thesis
      by (auto simp: cloned_def destroy_live split: prod.splits)
  qed (use one in \<open>simp add: cloned_def\<close>)
qed

lemma clone_spec:
  fixes v :: "'d sc_json_value" and xs :: "'d sc_json_value list" and ms :: "'d json_member list"
  shows "cloned (json_view v) a (sc_json_clone v a)"
    and "json_inv t \<Longrightarrow> grown_array (items_view xs) t a (clone_items xs t a)"
    and "json_inv t \<Longrightarrow> grown_object (members_view ms) t a (clone_members ms t a)"
proof (induction v and xs and ms arbitrary: a and t a and t a
    rule: json_blocks_items_blocks_members_blocks.induct)
  case (4 s)
  obtain r a1 where one: "json_alloc_value (SC_JSON_STRING None :: 'd sc_json_value) a = (r, a1)"
    by (cases "json_alloc_value (SC_JSON_STRING None :: 'd sc_json_value) a")
  then show ?case
  proof (cases rule: json_alloc_cases)
    case 2
    with one show ?thesis
      by (auto simp: cloned_def string_blocks_def destroy_live split: prod.splits sum.splits
          dest!: string_from_str_Inl string_from_str_Inr)
  qed (use one in \<open>simp add: cloned_def\<close>)
next
  case (5 xs c h)
  have start: "json_inv (SC_JSON_ARRAY [] 0 False)" "json_blocks (SC_JSON_ARRAY [] 0 False) = 1"
    by (simp_all add: vec_inv_def vec_blocks_def)
  show ?case
    unfolding sc_json_clone.simps json_view.simps
    by (rule clone_container [OF start], insert 5 [OF start(1)])
      (fastforce simp: grown_array_def vec_blocks_def split: prod.splits)
next
  case (6 ms c h)
  have start: "json_inv (SC_JSON_OBJECT [] 0 False)" "json_blocks (SC_JSON_OBJECT [] 0 False) = 1"
    by (simp_all add: vec_inv_def vec_blocks_def)
  show ?case
    unfolding sc_json_clone.simps json_view.simps
    by (rule clone_container [OF start], insert 6 [OF start(1)])
      (fastforce simp: grown_object_def vec_blocks_def split: prod.splits)
next
  case (8 x xs)
  obtain r a1 where one: "sc_json_clone x a = (r, a1)" by (cases "sc_json_clone x a")
  with 8(1) [of a] have cl: "cloned (json_view x) a (r, a1)" by simp
  show ?case
  proof (cases r)
    case (Inl e)
    with one cl 8(3) show ?thesis by (simp add: cloned_def grown_array_def)
  next
    case (Inr child)
    with cl have ch: "json_inv child" "json_view child = json_view x" "live a1 = live a + json_blocks child"
      by (auto simp: cloned_def)
    obtain st t' a2 where two: "sc_json_array_append t child a1 = (st, t', a2)"
      by (cases "sc_json_array_append t child a1")
    note sp = array_append_spec [OF two 8(3) ch(1)]
    show ?thesis
    proof (cases "sc_status_is_ok st")
      case True
      with sp(1) have t': "json_inv t'" by blast
      with one Inr two True 8(2) [OF t', of a2] sp(1) ch show ?thesis
        by (auto simp: grown_array_def split: prod.splits)
    next
      case False
      with sp(2) one Inr two ch 8(3) show ?thesis by (auto simp: grown_array_def destroy_live)
    qed
  qed
next
  case (10 k x ms)
  obtain r a1 where one: "sc_json_clone x a = (r, a1)" by (cases "sc_json_clone x a")
  with 10(1) [of a] have cl: "cloned (json_view x) a (r, a1)" by simp
  show ?case
  proof (cases r)
    case (Inl e)
    with one cl 10(3) show ?thesis by (simp add: cloned_def grown_object_def)
  next
    case (Inr child)
    with cl have ch: "json_inv child" "json_view child = json_view x" "live a1 = live a + json_blocks child"
      by (auto simp: cloned_def)
    obtain st t' a2 where two: "sc_json_object_set t (sc_string_as_str k) child a1 = (st, t', a2)"
      by (cases "sc_json_object_set t (sc_string_as_str k) child a1")
    note sp = object_set_spec [OF two 10(3) ch(1)]
    show ?thesis
    proof (cases "sc_status_is_ok st")
      case True
      with sp(1) have t': "json_inv t'" by blast
      with one Inr two True 10(2) [OF t', of a2] sp(1) ch show ?thesis
        by (auto simp: grown_object_def split: prod.splits)
    next
      case False
      with sp(2) one Inr two ch 10(3) show ?thesis by (auto simp: grown_object_def destroy_live)
    qed
  qed
qed (auto simp: cloned_def grown_array_def grown_object_def elim!: json_alloc_cases)

section \<open>Documents put together by the program\<close>

text \<open>
  The pattern of \<^verbatim>\<open>json_schema.c\<close>: make a child, set it as a member, and forget the pointer to it
  whether or not the member was stored. A child that could not be stored is lost.
\<close>

type_synonym 'd build_state = "sc_status \<times> 'd sc_json_value \<times> sc_allocator"

definition put_new ::
    "string \<Rightarrow> (sc_allocator \<Rightarrow> 'd sc_json_value res \<times> sc_allocator) \<Rightarrow> 'd build_state \<Rightarrow> 'd build_state" where
  "put_new key mk s =
     (case s of (st, v, a) \<Rightarrow>
        (if \<not> sc_status_is_ok st then s
         else (case mk a of
                 (Inl e, a1) \<Rightarrow> (e, v, a1)
               | (Inr x, a1) \<Rightarrow> sc_json_object_set v (Str key) x a1)))"

definition build_document ::
    "('d build_state \<Rightarrow> 'd build_state) \<Rightarrow> sc_allocator \<Rightarrow> 'd sc_json_value res \<times> sc_allocator" where
  "build_document steps a =
     (case sc_json_object_new a of
        (Inl e, a1) \<Rightarrow> (Inl e, a1)
      | (Inr v, a1) \<Rightarrow>
          (case steps (sc_status_ok, v, a1) of
             (st, v', a2) \<Rightarrow> (if \<not> sc_status_is_ok st then (Inl st, sc_json_destroy v' a2) else (Inr v', a2))))"

definition sc_json_schema_object :: "sc_allocator \<Rightarrow> 'd sc_json_value res \<times> sc_allocator" where
  "sc_json_schema_object a =
     build_document (\<lambda>s. put_new ''required'' sc_json_array_new
       (put_new ''properties'' sc_json_object_new
         (put_new ''type'' (sc_json_string_new (Str ''object'')) s))) a"

definition sc_json_provider_payload :: "sc_str \<Rightarrow> sc_str \<Rightarrow> sc_allocator \<Rightarrow> 'd sc_json_value res \<times> sc_allocator" where
  "sc_json_provider_payload model prompt a =
     build_document (\<lambda>s. put_new ''prompt'' (sc_json_string_new prompt)
       (put_new ''model'' (sc_json_string_new model) s)) a"

text \<open>
  \<^verbatim>\<open>sc_json_schema_add_string_property\<close> works on the members the two look-ups return, in place:
  \<open>set_member\<close> puts a changed member back where the look-up found it.
\<close>

fun set_last_member :: "'d json_member list \<Rightarrow> sc_str \<Rightarrow> 'd sc_json_value \<Rightarrow> 'd json_member list" where
  "set_last_member [] key y = []"
| "set_last_member ((k, x) # ms) key y =
     (if last_member ms key = None \<and> sc_str_equal (sc_string_as_str k) key then (k, y) # ms
      else (k, x) # set_last_member ms key y)"

definition set_member :: "'d sc_json_value \<Rightarrow> sc_str \<Rightarrow> 'd sc_json_value \<Rightarrow> 'd sc_json_value" where
  "set_member v key y =
     (case v of SC_JSON_OBJECT ms c h \<Rightarrow> SC_JSON_OBJECT (set_last_member ms key y) c h | _ \<Rightarrow> v)"

definition sc_json_schema_add_string_property ::
    "'d sc_json_value \<Rightarrow> sc_str \<Rightarrow> bool \<Rightarrow> sc_allocator \<Rightarrow> sc_status \<times> 'd sc_json_value \<times> sc_allocator" where
  "sc_json_schema_add_string_property schema name required a =
     (case (sc_json_object_get (Some schema) (Str ''properties''), sc_json_object_get (Some schema) (Str ''required'')) of
        (Some properties, Some required_array) \<Rightarrow>
          (case sc_json_object_new a of
             (Inl e, a1) \<Rightarrow> (e, schema, a1)
           | (Inr property, a1) \<Rightarrow>
               (case put_new ''type'' (sc_json_string_new (Str ''string'')) (sc_status_ok, property, a1) of
                  (st, property', a2) \<Rightarrow>
                    (if \<not> sc_status_is_ok st then (st, schema, sc_json_destroy property' a2)
                     else (case sc_json_object_set properties name property' a2 of
                             (st1, properties', a3) \<Rightarrow>
                               (let schema1 = set_member schema (Str ''properties'') properties' in
                                (if \<not> sc_status_is_ok st1 \<or> \<not> required then (st1, schema1, a3)
                                 else (case sc_json_string_new name a3 of
                                         (Inl e, a4) \<Rightarrow> (e, schema1, a4)
                                       | (Inr name_value, a4) \<Rightarrow>
                                           (case sc_json_array_append required_array name_value a4 of
                                              (st2, required', a5) \<Rightarrow>
                                                (st2, set_member schema1 (Str ''required'') required',
                                                 (if \<not> sc_status_is_ok st2 then sc_json_destroy name_value a5
                                                  else a5))))))))))
      | _ \<Rightarrow>
          (case sc_json_object_new a of
             (Inl e, a1) \<Rightarrow> (sc_status_invalid_argument ''sc.json.schema.invalid_argument'', schema, a1)
           | (Inr property, a1) \<Rightarrow>
               (sc_status_invalid_argument ''sc.json.schema.invalid_argument'', schema,
                sc_json_destroy (property :: 'd sc_json_value) a1)))"

text \<open>
  Blocks lost by a sequence of steps: none as long as it succeeds, and none when the first refusal
  was in making a child.
\<close>

lemma put_new_ok:
  assumes "put_new key mk (st, v, a) = (st', v', a')" "json_inv v" "sc_status_is_ok st'"
    and made: "\<And>x a1. mk a = (Inr x, a1) \<Longrightarrow> json_inv x \<and> json_view x = j \<and> live a1 = live a + json_blocks x"
    and fail: "\<And>e a1. mk a = (Inl e, a1) \<Longrightarrow> \<not> sc_status_is_ok e"
  shows "sc_status_is_ok st \<and> json_inv v' \<and> live a' = live a + json_blocks v' - json_blocks v \<and>
    (\<forall>ks. json_view v = JObject ks \<longrightarrow> json_view v' = JObject (ks @ [(key, j)]))"
proof -
  have st: "sc_status_is_ok st" using assms(1,3) by (auto simp: put_new_def split: if_splits)
  obtain x a1 where one: "mk a = (Inr x, a1)" "sc_json_object_set v (Str key) x a1 = (st', v', a')"
    using assms(1,3) st fail by (auto simp: put_new_def split: if_splits prod.splits sum.splits)
  note m = made [OF one(1)]
  from object_set_spec(1) [OF one(2) assms(2) m [THEN conjunct1] assms(3)] m st show ?thesis by auto
qed

lemma set_last_member_get:
  "last_member ms key = Some x \<Longrightarrow> last_member (set_last_member ms key y) key = Some y"
  by (induction ms) (auto split: option.splits if_splits)

lemma sc_str_equal_trans_neq:
  "sc_str_equal u key \<Longrightarrow> \<not> sc_str_equal key other \<Longrightarrow> \<not> sc_str_equal u other"
  by (auto simp: sc_str_equal_def split: if_splits)

lemma set_last_member_other:
  "\<not> sc_str_equal key other \<Longrightarrow> last_member (set_last_member ms key y) other = last_member ms other"
  by (induction ms) (auto split: option.splits dest: sc_str_equal_trans_neq)

end
