(* ===== verification/SC_Json_Parse.thy ===== *)
theory SC_Json_Parse
  imports SC_Json SC_Utf8 SC_Ctype
begin

text \<open>
  The JSON parser of \<^verbatim>\<open>src/json/json.c\<close>. The parser's position is the rest of the input. Reading a
  floating-point number is the parameter \<open>strtod\<close>: the number a token stands for, or nothing when
  there is no conversion or the number is not finite. The recursive functions carry fuel; twice
  the number of bytes and one more is always enough, which is proved below.
\<close>

unbundle bit_operations_syntax

section \<open>Scanning\<close>

definition json_ws :: "char \<Rightarrow> bool" where
  "json_ws c \<longleftrightarrow> c = CHR '' '' \<or> c = CHR 0x0A \<or> c = CHR 0x0D \<or> c = CHR 0x09"

definition skip_ws :: "string \<Rightarrow> string" where
  "skip_ws s = dropWhile json_ws s"

definition json_consume :: "char \<Rightarrow> string \<Rightarrow> bool \<times> string" where
  "json_consume expected s = (if s \<noteq> [] \<and> hd s = expected then (True, tl s) else (False, s))"

abbreviation parser_error :: "string \<Rightarrow> 'x res" where
  "parser_error key \<equiv> Inl (sc_status_json key)"

definition json_hex_value :: "char \<Rightarrow> nat option" where
  "json_hex_value ch =
     (let c = of_char ch in
      (if of_char (CHR ''0'') \<le> c \<and> c \<le> of_char (CHR ''9'') then Some (c - of_char (CHR ''0''))
       else if of_char (CHR ''a'') \<le> c \<and> c \<le> of_char (CHR ''f'') then Some (c - of_char (CHR ''a'') + 10)
       else if of_char (CHR ''A'') \<le> c \<and> c \<le> of_char (CHR ''F'') then Some (c - of_char (CHR ''A'') + 10)
       else None))"

text \<open>The loop over four hexadecimal digits; a bad digit is consumed.\<close>

fun json_hex4 :: "nat \<Rightarrow> nat \<Rightarrow> string \<Rightarrow> nat option \<times> string" where
  "json_hex4 0 acc s = (Some acc, s)"
| "json_hex4 (Suc n) acc [] = (None, [])"
| "json_hex4 (Suc n) acc (c # s) =
     (case json_hex_value c of
        None \<Rightarrow> (None, s)
      | Some v \<Rightarrow> json_hex4 n (push_bit 4 acc OR v) s)"

definition parse_unicode_escape :: "string \<Rightarrow> nat res \<times> string" where
  "parse_unicode_escape s =
     (if length s < 4 then (parser_error ''sc.json.bad_unicode_escape'', s)
      else (case json_hex4 4 0 s of
              (None, s1) \<Rightarrow> (parser_error ''sc.json.bad_unicode_escape'', s1)
            | (Some cp, s1) \<Rightarrow>
                (if 0xD800 \<le> cp \<and> cp \<le> 0xDBFF
                 then (if length s1 < 6 \<or> s1 ! 0 \<noteq> CHR 0x5C \<or> s1 ! 1 \<noteq> CHR ''u''
                       then (parser_error ''sc.json.bad_unicode_escape'', s1)
                       else (case json_hex4 4 0 (drop 2 s1) of
                               (None, s2) \<Rightarrow> (parser_error ''sc.json.bad_unicode_escape'', s2)
                             | (Some low, s2) \<Rightarrow>
                                 (if low < 0xDC00 \<or> low > 0xDFFF
                                  then (parser_error ''sc.json.bad_unicode_escape'', s2)
                                  else (Inr (0x10000 + (push_bit 10 (cp - 0xD800) OR (low - 0xDC00))), s2))))
                 else if 0xDC00 \<le> cp \<and> cp \<le> 0xDFFF
                 then (parser_error ''sc.json.bad_unicode_escape'', s1)
                 else (Inr cp, s1))))"

definition append_utf8_codepoint ::
    "sc_string_builder \<Rightarrow> nat \<Rightarrow> sc_allocator \<Rightarrow> sc_status \<times> sc_string_builder \<times> sc_allocator" where
  "append_utf8_codepoint b cp a =
     (case utf8_encode cp of
        None \<Rightarrow> (sc_status_parse ''sc.json.bad_unicode_escape'', b, a)
      | Some bytes \<Rightarrow> sc_string_builder_append b (Str (map char_of bytes)) a)"

text \<open>The one-letter escapes.\<close>

definition json_escape :: "char \<Rightarrow> char option" where
  "json_escape c =
     (if c = CHR 0x22 \<or> c = CHR 0x5C \<or> c = CHR ''/'' then Some c
      else if c = CHR ''b'' then Some (CHR 0x08)
      else if c = CHR ''f'' then Some (CHR 0x0C)
      else if c = CHR ''n'' then Some (CHR 0x0A)
      else if c = CHR ''r'' then Some (CHR 0x0D)
      else if c = CHR ''t'' then Some (CHR 0x09)
      else None)"

text \<open>A code equation without the pattern of successors, for evaluation with binary numbers.\<close>

lemma json_hex4_code [code]:
  "json_hex4 n acc s =
     (if n = 0 then (Some acc, s)
      else (case s of
              [] \<Rightarrow> (None, [])
            | c # s' \<Rightarrow> (case json_hex_value c of None \<Rightarrow> (None, s') | Some v \<Rightarrow> json_hex4 (n - 1) (push_bit 4 acc OR v) s')))"
  by (cases n; cases s) (auto split: option.split)

lemma json_hex4_length: "json_hex4 n acc s = (r, s') \<Longrightarrow> length s' \<le> length s"
  by (induction n acc s rule: json_hex4.induct) (fastforce split: option.splits)+

lemma unicode_escape_length: "parse_unicode_escape s = (r, s') \<Longrightarrow> length s' \<le> length s"
  by (auto simp: parse_unicode_escape_def split: if_splits prod.splits option.splits dest!: json_hex4_length)

lemma unicode_escape_error: "parse_unicode_escape s = (Inl e, s') \<Longrightarrow> \<not> sc_status_is_ok e"
  by (auto simp: parse_unicode_escape_def split: if_splits prod.splits option.splits)

section \<open>Strings\<close>

type_synonym string_state = "sc_string res \<times> string \<times> sc_allocator"

function string_loop :: "string \<Rightarrow> sc_string_builder \<Rightarrow> sc_allocator \<Rightarrow> string_state" where
  "string_loop [] b a = (parser_error ''sc.json.unexpected_eof'', [], snd (sc_string_builder_clear b a))"
| "string_loop (ch # s) b a =
     (if ch = CHR 0x22 then (Inr (fst (sc_string_builder_finish b)), s, a)
      else if (of_char ch :: nat) < 0x20
      then (parser_error ''sc.json.control_in_string'', s, snd (sc_string_builder_clear b a))
      else if ch = CHR 0x5C
      then (case s of
              [] \<Rightarrow> (parser_error ''sc.json.bad_escape'', s, snd (sc_string_builder_clear b a))
            | e # s2 \<Rightarrow>
                (case json_escape e of
                   Some c \<Rightarrow>
                     (case sc_string_builder_append b (Str [c]) a of
                        (st, b', a') \<Rightarrow>
                          (if \<not> sc_status_is_ok st then (Inl st, s2, snd (sc_string_builder_clear b' a'))
                           else string_loop s2 b' a'))
                 | None \<Rightarrow>
                     (if e = CHR ''u''
                      then (case parse_unicode_escape s2 of
                              (Inl st, s3) \<Rightarrow> (Inl st, s3, snd (sc_string_builder_clear b a))
                            | (Inr cp, s3) \<Rightarrow>
                                (case append_utf8_codepoint b cp a of
                                   (st, b', a') \<Rightarrow>
                                     (if \<not> sc_status_is_ok st then (Inl st, s3, snd (sc_string_builder_clear b' a'))
                                      else string_loop s3 b' a')))
                      else (parser_error ''sc.json.unsupported_escape'', s2, snd (sc_string_builder_clear b a)))))
      else (case sc_string_builder_append b (Str [ch]) a of
              (st, b', a') \<Rightarrow>
                (if \<not> sc_status_is_ok st then (Inl st, s, snd (sc_string_builder_clear b' a'))
                 else string_loop s b' a')))"
  by pat_completeness auto
termination
  by (relation "measure (\<lambda>(s, b, a). length s)") (auto dest: unicode_escape_length [OF sym])

definition parse_string :: "string \<Rightarrow> sc_allocator \<Rightarrow> string_state" where
  "parse_string s a =
     (case json_consume (CHR 0x22) s of
        (False, s1) \<Rightarrow> (parser_error ''sc.json.expected_string'', s1, a)
      | (True, s1) \<Rightarrow> string_loop s1 sc_string_builder_init a)"

section \<open>Numbers and literals\<close>

text \<open>The token: sign, digits, fraction, exponent, each taken when it is there.\<close>

definition drop_sign :: "string \<Rightarrow> string" where
  "drop_sign s = (if s \<noteq> [] \<and> hd s = CHR ''-'' then tl s else s)"

definition drop_fraction :: "string \<Rightarrow> string" where
  "drop_fraction s = (if s \<noteq> [] \<and> hd s = CHR ''.'' then dropWhile is_digit (tl s) else s)"

definition drop_exponent :: "string \<Rightarrow> string" where
  "drop_exponent s =
     (if s \<noteq> [] \<and> (hd s = CHR ''e'' \<or> hd s = CHR ''E'')
      then (let t = tl s in
            dropWhile is_digit (if t \<noteq> [] \<and> (hd t = CHR ''+'' \<or> hd t = CHR ''-'') then tl t else t))
      else s)"

definition number_span :: "string \<Rightarrow> string \<times> string" where
  "number_span s =
     (let rest = drop_exponent (drop_fraction (dropWhile is_digit (drop_sign s))) in
      (take (length s - length rest) s, rest))"

type_synonym 'd parse_state = "'d sc_json_value res \<times> string \<times> sc_allocator"

definition parse_number :: "(string \<Rightarrow> 'd option) \<Rightarrow> string \<Rightarrow> sc_allocator \<Rightarrow> 'd parse_state" where
  "parse_number strtod s a =
     (case number_span s of
        (tok, s1) \<Rightarrow>
          (if length tok = 0 \<or> length tok \<ge> 128 then (parser_error ''sc.json.number_too_large'', s1, a)
           else (case strtod tok of
                   None \<Rightarrow> (parser_error ''sc.json.invalid_number'', s1, a)
                 | Some d \<Rightarrow> (case sc_json_number_new d a of (r, a1) \<Rightarrow> (r, s1, a1)))))"

definition parse_literal :: "string \<Rightarrow> 'd sc_json_value \<Rightarrow> string \<Rightarrow> sc_allocator \<Rightarrow> 'd parse_state" where
  "parse_literal lit v s a =
     (if length s < length lit \<or> take (length lit) s \<noteq> lit
      then (parser_error ''sc.json.invalid_literal'', s, a)
      else (case json_alloc_value v a of (r, a1) \<Rightarrow> (r, drop (length lit) s, a1)))"

section \<open>Values\<close>

text \<open>A value that starts with a double quote.\<close>

definition parse_string_value :: "string \<Rightarrow> sc_allocator \<Rightarrow> 'd parse_state" where
  "parse_string_value s a =
     (case parse_string s a of
        (Inl e, s1, a1) \<Rightarrow> (Inl e, s1, a1)
      | (Inr str, s1, a1) \<Rightarrow>
          (case json_alloc_value (SC_JSON_STRING str :: 'd sc_json_value) a1 of
             (Inl e, a2) \<Rightarrow> (Inl e, s1, sc_string_clear str a2)
           | (Inr v, a2) \<Rightarrow> (Inr v, s1, a2)))"

text \<open>
  \<^verbatim>\<open>parse_object\<close> and \<^verbatim>\<open>parse_array\<close> up to their loops; \<open>loop\<close> is the loop over the members or
  items at the given depth.
\<close>

definition parse_object ::
    "(nat \<Rightarrow> 'd sc_json_value \<Rightarrow> string \<Rightarrow> sc_allocator \<Rightarrow> 'd parse_state option) \<Rightarrow>
       nat \<Rightarrow> string \<Rightarrow> sc_allocator \<Rightarrow> 'd parse_state option" where
  "parse_object loop depth s a =
     (case sc_json_object_new a of
        (Inl e, a1) \<Rightarrow> Some (Inl e, s, a1)
      | (Inr obj, a1) \<Rightarrow>
          (let s1 = skip_ws (snd (json_consume (CHR ''{'') s)) in
           (case json_consume (CHR ''}'') s1 of
              (True, s2) \<Rightarrow> Some (Inr obj, s2, a1)
            | (False, s2) \<Rightarrow> loop (depth + 1) obj s1 a1)))"

definition parse_array ::
    "(nat \<Rightarrow> 'd sc_json_value \<Rightarrow> string \<Rightarrow> sc_allocator \<Rightarrow> 'd parse_state option) \<Rightarrow>
       nat \<Rightarrow> string \<Rightarrow> sc_allocator \<Rightarrow> 'd parse_state option" where
  "parse_array loop depth s a =
     (case sc_json_array_new a of
        (Inl e, a1) \<Rightarrow> Some (Inl e, s, a1)
      | (Inr arr, a1) \<Rightarrow>
          (let s1 = skip_ws (snd (json_consume (CHR ''['') s)) in
           (case json_consume (CHR '']'') s1 of
              (True, s2) \<Rightarrow> Some (Inr arr, s2, a1)
            | (False, s2) \<Rightarrow> loop (depth + 1) arr s1 a1)))"

text \<open>
  What follows a stored member or item: the closing bracket, or a comma and the next round.
\<close>

definition after_element ::
    "char \<Rightarrow> ('d sc_json_value \<Rightarrow> string \<Rightarrow> sc_allocator \<Rightarrow> 'd parse_state option) \<Rightarrow>
       'd sc_json_value \<Rightarrow> string \<Rightarrow> sc_allocator \<Rightarrow> 'd parse_state option" where
  "after_element close again v s a =
     (let s1 = skip_ws s in
      (case json_consume close s1 of
         (True, s2) \<Rightarrow> Some (Inr v, s2, a)
       | (False, _) \<Rightarrow>
           (case json_consume (CHR '','') s1 of
              (False, _) \<Rightarrow> Some (parser_error ''sc.json.expected_comma'', s1, sc_json_destroy v a)
            | (True, s2) \<Rightarrow> again v (skip_ws s2) a)))"

fun parse_value ::
    "(string \<Rightarrow> 'd option) \<Rightarrow> nat \<Rightarrow> nat \<Rightarrow> string \<Rightarrow> sc_allocator \<Rightarrow> 'd parse_state option"
  and object_loop ::
    "(string \<Rightarrow> 'd option) \<Rightarrow> nat \<Rightarrow> nat \<Rightarrow> 'd sc_json_value \<Rightarrow> string \<Rightarrow> sc_allocator \<Rightarrow> 'd parse_state option"
  and array_loop ::
    "(string \<Rightarrow> 'd option) \<Rightarrow> nat \<Rightarrow> nat \<Rightarrow> 'd sc_json_value \<Rightarrow> string \<Rightarrow> sc_allocator \<Rightarrow> 'd parse_state option" where
  "parse_value strtod 0 depth s0 a = None"
| "parse_value strtod (Suc n) depth s0 a =
     (let s = skip_ws s0 in
      (if depth > JSON_MAX_DEPTH then Some (parser_error ''sc.json.too_deep'', s, a)
       else (case s of
               [] \<Rightarrow> Some (parser_error ''sc.json.unexpected_eof'', s, a)
             | c # _ \<Rightarrow>
                 (if c = CHR ''{'' then parse_object (\<lambda>d v t h. object_loop strtod n d v t h) depth s a
                  else if c = CHR ''['' then parse_array (\<lambda>d v t h. array_loop strtod n d v t h) depth s a
                  else if c = CHR 0x22 then Some (parse_string_value s a)
                  else if c = CHR ''t'' then Some (parse_literal ''true'' (SC_JSON_BOOL True) s a)
                  else if c = CHR ''f'' then Some (parse_literal ''false'' (SC_JSON_BOOL False) s a)
                  else if c = CHR ''n'' then Some (parse_literal ''null'' SC_JSON_NULL s a)
                  else if c = CHR ''-'' \<or> is_digit c then Some (parse_number strtod s a)
                  else Some (parser_error ''sc.json.unexpected_token'', s, a)))))"
| "object_loop strtod 0 depth obj s a = None"
| "object_loop strtod (Suc n) depth obj s a =
     (if s = [] then Some (parser_error ''sc.json.unexpected_eof'', s, sc_json_destroy obj a)
      else if hd s \<noteq> CHR 0x22
      then Some (parser_error ''sc.json.expected_object_key'', s, sc_json_destroy obj a)
      else (case parse_string s a of
              (Inl e, s1, a1) \<Rightarrow> Some (Inl e, s1, sc_json_destroy obj a1)
            | (Inr key, s1, a1) \<Rightarrow>
                (let s2 = skip_ws s1 in
                 (case json_consume (CHR '':'') s2 of
                    (False, _) \<Rightarrow>
                      Some (parser_error ''sc.json.expected_colon'', s2,
                            sc_json_destroy obj (sc_string_clear key a1))
                  | (True, s3) \<Rightarrow>
                      (case parse_value strtod n depth s3 a1 of
                         None \<Rightarrow> None
                       | Some (Inl e, s4, a2) \<Rightarrow>
                           Some (Inl e, s4, sc_json_destroy obj (sc_string_clear key a2))
                       | Some (Inr v, s4, a2) \<Rightarrow>
                           (case sc_json_object_set obj (sc_string_as_str key) v a2 of
                              (st, obj', a3) \<Rightarrow>
                                (if \<not> sc_status_is_ok st
                                 then Some (Inl st, s4, sc_json_destroy obj' (sc_string_clear key a3))
                                 else after_element (CHR ''}'') (\<lambda>v t h. object_loop strtod n depth v t h)
                                        obj' s4 (sc_string_clear key a3))))))))"
| "array_loop strtod 0 depth arr s a = None"
| "array_loop strtod (Suc n) depth arr s a =
     (if s = [] then Some (parser_error ''sc.json.unexpected_eof'', s, sc_json_destroy arr a)
      else if sc_json_array_len (Some arr) \<ge> JSON_MAX_ARRAY_ITEMS
      then Some (parser_error ''sc.json.array_too_large'', s, sc_json_destroy arr a)
      else (case parse_value strtod n depth s a of
              None \<Rightarrow> None
            | Some (Inl e, s1, a1) \<Rightarrow> Some (Inl e, s1, sc_json_destroy arr a1)
            | Some (Inr v, s1, a1) \<Rightarrow>
                (case sc_json_array_append arr v a1 of
                   (st, arr', a2) \<Rightarrow>
                     (if \<not> sc_status_is_ok st then Some (Inl st, s1, sc_json_destroy arr' a2)
                      else after_element (CHR '']'') (\<lambda>v t h. array_loop strtod n depth v t h) arr' s1 a2))))"

section \<open>The entry point\<close>

record sc_json_parse_error =
  err_offset :: nat
  err_key :: "string option"

definition json_error_zero :: sc_json_parse_error where
  "json_error_zero = \<lparr>err_offset = 0, err_key = None\<rparr>"

text \<open>
  What the last \<^verbatim>\<open>parser_error\<close> wrote: the parser's position and the key. A refused allocation
  leaves the record as it was cleared; the two other places that give a parse status are not
  reached from the parser, since a code point of an escape has an encoding and the array loop
  checks its size first.
\<close>

definition json_error_at :: "sc_status \<Rightarrow> string \<Rightarrow> string \<Rightarrow> sc_json_parse_error" where
  "json_error_at st input rest =
     (if code st = SC_ERR_PARSE then \<lparr>err_offset = length input - length rest, err_key = error_key st\<rparr>
      else json_error_zero)"

definition sc_json_parse ::
    "(string \<Rightarrow> 'd option) \<Rightarrow> sc_str \<Rightarrow> sc_allocator \<Rightarrow>
       ('d sc_json_value res \<times> sc_json_parse_error \<times> sc_allocator) option" where
  "sc_json_parse strtod input a =
     (if str_len input > 0 \<and> ptr_null input
      then Some (Inl (sc_status_invalid_argument ''sc.json.invalid_argument''), json_error_zero, a)
      else if \<not> sc_str_is_valid_utf8 input
      then Some (Inl (sc_status_parse ''sc.json.invalid_utf8''),
                 \<lparr>err_offset = 0, err_key = Some ''sc.json.invalid_utf8''\<rparr>, a)
      else (let bs = str_bytes input in
            (case parse_value strtod (2 * length bs + 1) 0 (skip_ws bs) a of
               None \<Rightarrow> None
             | Some (Inl e, s1, a1) \<Rightarrow> Some (Inl e, json_error_at e bs s1, a1)
             | Some (Inr v, s1, a1) \<Rightarrow>
                 (let s2 = skip_ws s1 in
                  (if s2 \<noteq> []
                   then (let e = sc_status_json ''sc.json.trailing_input'' in
                         Some (Inl e, json_error_at e bs s2, sc_json_destroy v a1))
                   else Some (Inr v, json_error_zero, a1))))))"

section \<open>The parser returns, and what it holds\<close>

lemma skip_ws_length: "length (skip_ws s) \<le> length s"
  by (simp add: skip_ws_def length_dropWhile_le)

lemma consume_cases:
  assumes "json_consume c s = (b, s')"
  obtains "b" "s = c # s'" | "\<not> b" "s' = s"
  using assms by (cases s) (auto simp: json_consume_def split: if_splits)

text \<open>
  The outcome of a parse that was handed \<open>L\<close> bytes and a container of \<open>B\<close> blocks: it is there, a
  value accounts for its blocks and consumed something, and an error gives the container back unless
  memory was refused.
\<close>

definition parsed :: "int \<Rightarrow> nat \<Rightarrow> sc_allocator \<Rightarrow> 'd parse_state option \<Rightarrow> bool" where
  "parsed B L a out \<longleftrightarrow> (case out of
     None \<Rightarrow> False
   | Some (Inl e, s', a') \<Rightarrow> \<not> sc_status_is_ok e \<and> length s' \<le> L \<and>
       (e \<noteq> sc_status_no_memory \<longrightarrow> live a' = live a - B)
   | Some (Inr v, s', a') \<Rightarrow> json_inv v \<and> length s' < L \<and> live a' = live a - B + json_blocks v)"

definition string_read :: "int \<Rightarrow> nat \<Rightarrow> sc_allocator \<Rightarrow> string_state \<Rightarrow> bool" where
  "string_read B L a out \<longleftrightarrow> (case out of
     (Inl e, s', a') \<Rightarrow> \<not> sc_status_is_ok e \<and> length s' \<le> L \<and> live a' = live a - B
   | (Inr k, s', a') \<Rightarrow> length s' < L \<and> live a' = live a - B + string_blocks k)"

lemma finish_blocks: "string_blocks (fst (sc_string_builder_finish b)) = bytes_blocks b"
  by (simp add: sc_string_builder_finish_def string_blocks_def bytes_blocks_def)

lemma live_builder_clear [simp]: "live (snd (sc_string_builder_clear b a)) = live a - bytes_blocks b"
  by (simp add: sc_string_builder_clear_def sc_bytes_clear_def bytes_blocks_def)

lemma string_read_mono: "string_read B L a out \<Longrightarrow> L \<le> L' \<Longrightarrow> string_read B L' a out"
  by (auto simp: string_read_def split: prod.splits sum.splits)

text \<open>One appended piece and the rest of the loop.\<close>

lemma string_step:
  assumes "bytes_inv b"
    and "\<And>b' a'. bytes_inv b' \<Longrightarrow> string_read (bytes_blocks b') L a' (string_loop s b' a')" "length s \<le> L"
  shows "string_read (bytes_blocks b) L a
    (case sc_string_builder_append b piece a of
       (st, b', a') \<Rightarrow> (if \<not> sc_status_is_ok st then (Inl st, s, snd (sc_string_builder_clear b' a'))
                       else string_loop s b' a'))"
proof -
  obtain st b' a' where ap: "sc_string_builder_append b piece a = (st, b', a')"
    by (cases "sc_string_builder_append b piece a")
  note sp = builder_append_spec [OF ap assms(1)]
  show ?thesis
  proof (cases "sc_status_is_ok st")
    case True
    have "string_read (bytes_blocks b') L a' (string_loop s b' a')" by (rule assms(2) [OF sp(1)])
    with True ap sp(2) show ?thesis by (auto simp: string_read_def split: prod.splits sum.splits)
  next
    case False
    with ap sp assms(3) show ?thesis by (auto simp: string_read_def)
  qed
qed

lemma string_loop_spec: "bytes_inv b \<Longrightarrow> string_read (bytes_blocks b) (length s) a (string_loop s b a)"
proof (induction "length s" arbitrary: s b a rule: less_induct)
  case less
  have ih: "string_read (bytes_blocks b') (length s) a' (string_loop t b' a')"
    if "length t < length s" "bytes_inv b'" for t b' a'
    using string_read_mono [OF less(1) [OF that, of a']] that(1) by simp
  show ?case
  proof (cases s)
    case Nil
    then show ?thesis by (simp add: string_read_def)
  next
    case (Cons ch s1)
    note step = string_step [OF less(2), of "length s"]
    show ?thesis
    proof (cases "ch = CHR 0x5C")
      case False
      have plain: "string_read (bytes_blocks b) (length s) a
          (case sc_string_builder_append b (Str [ch]) a of
             (st, b', a') \<Rightarrow> (if \<not> sc_status_is_ok st then (Inl st, s1, snd (sc_string_builder_clear b' a'))
                             else string_loop s1 b' a'))"
        by (rule step) (use ih Cons in auto)
      show ?thesis
        using plain False Cons by (auto simp: string_read_def finish_blocks)
    next
      case True
      show ?thesis
      proof (cases s1)
        case Nil
        with True Cons show ?thesis by (simp add: string_read_def)
      next
        case s2: (Cons e s2)
        have esc: "string_read (bytes_blocks b) (length s) a
            (case sc_string_builder_append b (Str [c]) a of
               (st, b', a') \<Rightarrow> (if \<not> sc_status_is_ok st then (Inl st, s2, snd (sc_string_builder_clear b' a'))
                               else string_loop s2 b' a'))" for c
          by (rule step) (use ih Cons s2 in auto)
        obtain r s3 where u: "parse_unicode_escape s2 = (r, s3)" by (cases "parse_unicode_escape s2")
        note len = unicode_escape_length [OF u]
        have uni: "string_read (bytes_blocks b) (length s) a
            (case append_utf8_codepoint b cp a of
               (st, b', a') \<Rightarrow> (if \<not> sc_status_is_ok st then (Inl st, s3, snd (sc_string_builder_clear b' a'))
                               else string_loop s3 b' a'))" for cp
        proof (cases "utf8_encode cp")
          case None
          with len Cons s2 show ?thesis by (simp add: append_utf8_codepoint_def string_read_def)
        next
          case (Some bytes)
          have "string_read (bytes_blocks b) (length s) a
            (case sc_string_builder_append b (Str (map char_of bytes)) a of
               (st, b', a') \<Rightarrow> (if \<not> sc_status_is_ok st then (Inl st, s3, snd (sc_string_builder_clear b' a'))
                               else string_loop s3 b' a'))"
            by (rule step) (use ih Cons s2 len in auto)
          with Some show ?thesis by (simp add: append_utf8_codepoint_def)
        qed
        show ?thesis
        proof (cases "json_escape e")
          case (Some c)
          with esc [of c] True Cons s2 show ?thesis by simp
        next
          case none: None
          show ?thesis
          proof (cases r)
            case (Inl err)
            with u len unicode_escape_error [OF u [unfolded Inl]] none True Cons s2 show ?thesis
              by (simp add: string_read_def)
          next
            case (Inr cp)
            with uni [of cp] u len none True Cons s2 show ?thesis by (auto simp: string_read_def)
          qed
        qed
      qed
    qed
  qed
qed

lemma parse_string_spec: "string_read 0 (length s) a (parse_string s a)"
proof -
  obtain c s1 where c: "json_consume (CHR 0x22) s = (c, s1)" by (cases "json_consume (CHR 0x22) s")
  then show ?thesis
  proof (cases rule: consume_cases)
    case 1
    have "string_read 0 (length s1) a (string_loop s1 sc_string_builder_init a)"
      using string_loop_spec [of sc_string_builder_init s1 a]
      by (simp add: sc_string_builder_init_def sc_bytes_init_def bytes_zero_def bytes_blocks_def bytes_inv_def)
    from string_read_mono [OF this, of "length s"] 1 c show ?thesis
      by (simp add: parse_string_def)
  next
    case 2
    with c show ?thesis by (simp add: parse_string_def string_read_def)
  qed
qed

lemma number_parts_length:
  "length (drop_sign s) \<le> length s" "length (drop_fraction s) \<le> length s" "length (drop_exponent s) \<le> length s"
proof -
  have tl: "length (dropWhile is_digit (tl t)) \<le> length t" "length (dropWhile is_digit (tl (tl t))) \<le> length t" for t
    using length_dropWhile_le [of is_digit "tl t"] length_dropWhile_le [of is_digit "tl (tl t)"]
    unfolding length_tl by linarith+
  show "length (drop_sign s) \<le> length s" "length (drop_fraction s) \<le> length s" "length (drop_exponent s) \<le> length s"
    using tl by (simp_all add: drop_sign_def drop_fraction_def drop_exponent_def Let_def)
qed

lemma number_span_length:
  assumes "number_span s = (tok, s1)"
  shows "length s1 \<le> length s" "length tok = length s - length s1"
proof -
  show "length s1 \<le> length s"
    using assms number_parts_length(1) [of s] length_dropWhile_le [of is_digit "drop_sign s"]
      number_parts_length(2) [of "dropWhile is_digit (drop_sign s)"]
      number_parts_length(3) [of "drop_fraction (dropWhile is_digit (drop_sign s))"]
    by (simp add: number_span_def Let_def)
  show "length tok = length s - length s1" using assms by (auto simp: number_span_def Let_def)
qed

text \<open>The parsers that do not recurse.\<close>

lemma leaf_parsed:
  "parsed 0 (length s) a (Some (parse_string_value s a :: 'd parse_state))"
  "parsed 0 (length s) a (Some (parse_number strtod s a))"
  "lit \<noteq> [] \<Longrightarrow> json_inv v \<Longrightarrow> json_blocks v = 1 \<Longrightarrow> parsed 0 (length s) a (Some (parse_literal lit v s a))"
proof -
  obtain r s1 a1 where str: "parse_string s a = (r, s1, a1)" by (cases "parse_string s a")
  note ps = parse_string_spec [of s a, unfolded str]
  show "parsed 0 (length s) a (Some (parse_string_value s a :: 'd parse_state))"
  proof (cases r)
    case (Inl e)
    with str ps show ?thesis by (simp add: parse_string_value_def parsed_def string_read_def)
  next
    case (Inr k)
    obtain r2 a2 where al: "json_alloc_value (SC_JSON_STRING k :: 'd sc_json_value) a1 = (r2, a2)"
      by (cases "json_alloc_value (SC_JSON_STRING k :: 'd sc_json_value) a1")
    then show ?thesis
      by (cases rule: json_alloc_cases)
        (use Inr str ps al in \<open>auto simp: parse_string_value_def parsed_def string_read_def\<close>)
  qed
next
  obtain tok s1 where sp: "number_span s = (tok, s1)" by (cases "number_span s")
  note len = number_span_length [OF sp]
  have shorter: "tok \<noteq> [] \<Longrightarrow> length s1 < length s" using len by (cases tok) auto
  show "parsed 0 (length s) a (Some (parse_number strtod s a))"
  proof (cases "strtod tok")
    case None
    with sp len show ?thesis by (simp add: parse_number_def parsed_def)
  next
    case (Some d)
    obtain r a1 where al: "json_alloc_value (SC_JSON_NUMBER d) a = (r, a1)"
      by (cases "json_alloc_value (SC_JSON_NUMBER d) a")
    then show ?thesis
      by (cases rule: json_alloc_cases)
        (use Some sp len shorter al in \<open>auto simp: parse_number_def parsed_def sc_json_number_new_def\<close>)
  qed
next
  assume v: "lit \<noteq> []" "json_inv v" "json_blocks v = 1"
  have shorter: "length lit \<le> length s \<Longrightarrow> length s - length lit < length s"
    using v(1) by (cases lit) auto
  obtain r a1 where al: "json_alloc_value v a = (r, a1)" by (cases "json_alloc_value v a")
  then show "parsed 0 (length s) a (Some (parse_literal lit v s a))"
    by (cases rule: json_alloc_cases)
      (use v al shorter in \<open>auto simp: parse_literal_def parsed_def\<close>)
qed

text \<open>The container steps, given what the loop does on a shorter rest.\<close>

lemma container_parsed:
  assumes head: "s = c # t" and v0: "json_inv v0" "json_blocks v0 = 1"
    and loop: "\<And>a1. parsed 1 (length (skip_ws t)) a1 (loop (depth + 1) v0 (skip_ws t) a1)"
    and def: "out = (case json_alloc_value v0 a of
        (Inl e, a1) \<Rightarrow> Some (Inl e, s, a1)
      | (Inr v, a1) \<Rightarrow>
          (let s1 = skip_ws (snd (json_consume c s)) in
           (case json_consume close s1 of
              (True, s2) \<Rightarrow> Some (Inr v, s2, a1)
            | (False, s2) \<Rightarrow> loop (depth + 1) v s1 a1)))"
  shows "parsed 0 (length s) a out"
proof -
  have c: "snd (json_consume c s) = t" using head by (simp add: json_consume_def)
  obtain r a1 where al: "json_alloc_value v0 a = (r, a1)" by (cases "json_alloc_value v0 a")
  then show ?thesis
  proof (cases rule: json_alloc_cases)
    case 1
    with al def show ?thesis by (simp add: parsed_def)
  next
    case 2
    obtain b s2 where cl: "json_consume close (skip_ws t) = (b, s2)" by (cases "json_consume close (skip_ws t)")
    note len = skip_ws_length [of t]
    from cl show ?thesis
    proof (cases rule: consume_cases)
      case 1
      have "length s2 < length (skip_ws t)" using 1 by simp
      with 1 2 al cl def c v0 len head show ?thesis by (simp add: parsed_def)
    next
      case 2
      with loop [of a1] al cl def c len head \<open>r = Inr v0\<close> \<open>live a1 = live a + 1\<close> show ?thesis
        by (auto simp: parsed_def split: option.splits prod.splits sum.splits)
    qed
  qed
qed

lemma after_element_parsed:
  assumes "json_inv v" "length s < L"
    and "\<And>t h. length t < length s \<Longrightarrow> parsed (json_blocks v) (length t) h (again v t h)"
  shows "parsed (json_blocks v) L a (after_element close again v s a)"
proof -
  obtain b s2 where cl: "json_consume close (skip_ws s) = (b, s2)" by (cases "json_consume close (skip_ws s)")
  obtain b' s3 where co: "json_consume (CHR '','') (skip_ws s) = (b', s3)"
    by (cases "json_consume (CHR '','') (skip_ws s)")
  note len = skip_ws_length [of s] skip_ws_length [of s3]
  from cl show ?thesis
  proof (cases rule: consume_cases)
    case 1
    have "length s2 < length (skip_ws s)" using 1 by simp
    with 1 cl assms(1,2) len show ?thesis by (simp add: after_element_def parsed_def)
  next
    case no: 2
    from co show ?thesis
    proof (cases rule: consume_cases)
      case 1
      have "length s3 < length (skip_ws s)" using 1 by simp
      with len have "length (skip_ws s3) < length s" by linarith
      from assms(3) [OF this, of a] this no cl co 1 assms(2) show ?thesis
        by (auto simp: after_element_def parsed_def split: option.splits prod.splits sum.splits)
    next
      case 2
      with no cl co assms(1,2) len show ?thesis
        by (simp add: after_element_def parsed_def destroy_live)
    qed
  qed
qed

lemma object_set_no_memory:
  assumes "sc_json_object_set (SC_JSON_OBJECT ms c h) (sc_string_as_str k) x a = (st, v', a')"
    "vec_inv (object_vec ms c h)" "\<not> sc_status_is_ok st"
  shows "st = sc_status_no_memory"
proof -
  obtain r a1 where one: "sc_string_from_str (sc_string_as_str k) a = (r, a1)"
    by (cases "sc_string_from_str (sc_string_as_str k) a")
  show ?thesis
  proof (cases r)
    case (Inl e)
    with one have "e = sc_status_no_memory"
      by (cases k) (auto simp: sc_string_from_str_def split: if_splits prod.splits)
    with assms(1) one Inl show ?thesis by (simp add: sc_json_object_set_def)
  next
    case (Inr key)
    obtain st2 vec a2 where push: "sc_vec_push (object_vec ms c h) (Some (key, x)) a1 = (st2, vec, a2)"
      by (cases "sc_vec_push (object_vec ms c h) (Some (key, x)) a1")
    from vec_push_spec(6) [OF push assms(2)] assms(1,3) one Inr push show ?thesis
      by (simp add: sc_json_object_set_def SIZEOF_JSON_MEMBER_def)
  qed
qed

lemma array_append_no_memory:
  assumes "sc_json_array_append (SC_JSON_ARRAY xs c h) x a = (st, v', a')"
    "vec_inv (array_vec xs c h)" "length xs < JSON_MAX_ARRAY_ITEMS" "\<not> sc_status_is_ok st"
  shows "st = sc_status_no_memory"
proof -
  obtain st2 vec a2 where push: "sc_vec_push (array_vec xs c h) (Some (Some x)) a = (st2, vec, a2)"
    by (cases "sc_vec_push (array_vec xs c h) (Some (Some x)) a")
  from vec_push_spec(6) [OF push assms(2)] assms(1,3,4) push show ?thesis
    by (simp add: sc_json_array_append_def sc_ptr_vec_push_def)
qed

lemma parsed_weaken:
  "parsed 0 L a out \<Longrightarrow> L \<le> L' \<Longrightarrow> parsed 0 L' a out"
  by (auto simp: parsed_def split: option.splits prod.splits sum.splits)

lemma empty_containers:
  "json_inv (SC_JSON_ARRAY [] 0 False)" "json_blocks (SC_JSON_ARRAY [] 0 False) = 1"
  "json_inv (SC_JSON_OBJECT [] 0 False)" "json_blocks (SC_JSON_OBJECT [] 0 False) = 1"
  by (simp_all add: vec_inv_def vec_blocks_def)

lemma parsed_if:
  "(b \<Longrightarrow> parsed B L a x) \<Longrightarrow> (\<not> b \<Longrightarrow> parsed B L a y) \<Longrightarrow> parsed B L a (if b then x else y)"
  by simp

text \<open>The dispatch on the first byte, given that the loops behave on every shorter rest.\<close>

lemma dispatch_parsed:
  assumes obj: "\<And>t a1. length t < length s0 \<Longrightarrow>
      parsed 1 (length t) a1 (object_loop strtod n (depth + 1) (SC_JSON_OBJECT [] 0 False) t a1)"
    and arr: "\<And>t a1. length t < length s0 \<Longrightarrow>
      parsed 1 (length t) a1 (array_loop strtod n (depth + 1) (SC_JSON_ARRAY [] 0 False) t a1)"
  shows "parsed 0 (length s0) a (parse_value strtod (Suc n) depth s0 a)"
proof -
  define s where "s = skip_ws s0"
  have len: "length s \<le> length s0" by (simp add: s_def skip_ws_length)
  have "parsed 0 (length s) a (parse_value strtod (Suc n) depth s0 a)"
  proof (cases s)
    case Nil
    then show ?thesis by (simp add: s_def [symmetric] parsed_def)
  next
    case (Cons c t)
    have t: "length (skip_ws t) < length s0" using skip_ws_length [of t] Cons len by simp
    have o: "c = CHR ''{'' \<Longrightarrow> parsed 0 (length s) a (parse_object (\<lambda>d v t h. object_loop strtod n d v t h) depth s a)"
      by (rule container_parsed [where c = c and t = t and close = "CHR ''}''",
            OF Cons empty_containers(3,4), of "\<lambda>d v t h. object_loop strtod n d v t h" depth])
        (use obj t in \<open>auto simp: parse_object_def sc_json_object_new_def\<close>)
    have r: "c = CHR ''['' \<Longrightarrow> parsed 0 (length s) a (parse_array (\<lambda>d v t h. array_loop strtod n d v t h) depth s a)"
      by (rule container_parsed [where c = c and t = t and close = "CHR '']''",
            OF Cons empty_containers(1,2), of "\<lambda>d v t h. array_loop strtod n d v t h" depth])
        (use arr t in \<open>auto simp: parse_array_def sc_json_array_new_def\<close>)
    have leaves: "parsed 0 (length s) a (Some (parse_literal ''true'' (SC_JSON_BOOL True) s a))"
      "parsed 0 (length s) a (Some (parse_literal ''false'' (SC_JSON_BOOL False) s a))"
      "parsed 0 (length s) a (Some (parse_literal ''null'' SC_JSON_NULL s a))"
      "parsed 0 (length s) a (Some (parse_number strtod s a))"
      "parsed 0 (length s) a (Some (parse_string_value s a))"
      by (rule leaf_parsed; simp)+
    have err: "parsed 0 (length s) a (Some (parser_error key, s, a))" for key
      by (simp add: parsed_def)
    show ?thesis
      unfolding parse_value.simps Let_def s_def [symmetric] Cons list.case
      unfolding Cons [symmetric]
      by (intro parsed_if o r leaves err)
  qed
  with len show ?thesis by (rule parsed_weaken [rotated])
qed

lemma array_round_parsed:
  assumes arr: "json_inv (SC_JSON_ARRAY xs c h)"
    and val: "\<And>a1. parsed 0 (length s) a1 (parse_value strtod n depth s a1)"
    and again: "\<And>v t a1. json_inv v \<Longrightarrow> length t < length s \<Longrightarrow> sc_json_type_of (Some v) = JSON_ARRAY \<Longrightarrow>
      parsed (json_blocks v) (length t) a1 (array_loop strtod n depth v t a1)"
  shows "parsed (json_blocks (SC_JSON_ARRAY xs c h)) (length s) a
    (array_loop strtod (Suc n) depth (SC_JSON_ARRAY xs c h) s a)"
proof (cases "s = [] \<or> sc_json_array_len (Some (SC_JSON_ARRAY xs c h)) \<ge> JSON_MAX_ARRAY_ITEMS")
  case True
  with arr destroy_live(1) [OF arr] show ?thesis by (auto simp: parsed_def)
next
  case room: False
  obtain r s1 a1 where v: "parse_value strtod n depth s a = Some (r, s1, a1)"
    using val [of a] by (auto simp: parsed_def split: option.splits)
  note pv = val [of a, unfolded v]
  show ?thesis
  proof (cases r)
    case (Inl e)
    with v pv room destroy_live(1) [OF arr, of a1] show ?thesis by (auto simp: parsed_def)
  next
    case (Inr x)
    with pv have x: "json_inv x" "length s1 < length s" "live a1 = live a + json_blocks x"
      by (auto simp: parsed_def)
    obtain st arr' a2 where ap: "sc_json_array_append (SC_JSON_ARRAY xs c h) x a1 = (st, arr', a2)"
      by (cases "sc_json_array_append (SC_JSON_ARRAY xs c h) x a1")
    note sp = array_append_spec [OF ap arr x(1)]
    show ?thesis
    proof (cases "sc_status_is_ok st")
      case True
      note ok = sp(1) [OF True]
      have kind: "json_inv arr'" "sc_json_type_of (Some arr') = JSON_ARRAY" using ok by auto
      have "parsed (json_blocks arr') (length s) a2
          (after_element (CHR '']'') (\<lambda>v t h. array_loop strtod n depth v t h) arr' s1 a2)"
        by (rule after_element_parsed [OF kind(1) x(2)], rule again [OF kind(1) _ kind(2)]) (use x(2) in simp)
      with v Inr ap True room ok x(3) show ?thesis
        by (auto simp: parsed_def split: option.splits prod.splits sum.splits)
    next
      case False
      have "st = sc_status_no_memory"
        using array_append_no_memory [OF ap _ _ False] arr room by (simp add: sc_json_array_len_def)
      with v Inr ap False room x(2) show ?thesis by (simp add: parsed_def)
    qed
  qed
qed

lemma object_round_parsed:
  assumes obj: "json_inv (SC_JSON_OBJECT ms c h)"
    and val: "\<And>t a1. length t < length s \<Longrightarrow> parsed 0 (length t) a1 (parse_value strtod n depth t a1)"
    and again: "\<And>v t a1. json_inv v \<Longrightarrow> length t < length s \<Longrightarrow> sc_json_type_of (Some v) = JSON_OBJECT \<Longrightarrow>
      parsed (json_blocks v) (length t) a1 (object_loop strtod n depth v t a1)"
  shows "parsed (json_blocks (SC_JSON_OBJECT ms c h)) (length s) a
    (object_loop strtod (Suc n) depth (SC_JSON_OBJECT ms c h) s a)"
proof (cases "s = [] \<or> hd s \<noteq> CHR 0x22")
  case True
  with obj destroy_live(1) [OF obj] show ?thesis by (auto simp: parsed_def)
next
  case start: False
  obtain r s1 a1 where str: "parse_string s a = (r, s1, a1)" by (cases "parse_string s a")
  note ps = parse_string_spec [of s a, unfolded str]
  show ?thesis
  proof (cases r)
    case (Inl e)
    with str ps start destroy_live(1) [OF obj, of a1] show ?thesis by (auto simp: parsed_def string_read_def)
  next
    case (Inr key)
    with ps have key: "length s1 < length s" "live a1 = live a + string_blocks key" by (auto simp: string_read_def)
    note ws = skip_ws_length [of s1]
    obtain b s3 where co: "json_consume (CHR '':'') (skip_ws s1) = (b, s3)"
      by (cases "json_consume (CHR '':'') (skip_ws s1)")
    from co show ?thesis
    proof (cases rule: consume_cases)
      case 2
      with str Inr co start key ws destroy_live(1) [OF obj] show ?thesis by (auto simp: parsed_def)
    next
      case 1
      have "length s3 < length (skip_ws s1)" using 1 by simp
      with ws key have s3: "length s3 < length s" by linarith
      obtain r2 s4 a2 where v: "parse_value strtod n depth s3 a1 = Some (r2, s4, a2)"
        using val [OF s3, of a1] by (auto simp: parsed_def split: option.splits)
      note pv = val [OF s3, of a1, unfolded v]
      show ?thesis
      proof (cases r2)
        case err: (Inl e)
        with str Inr co 1 v pv start key s3 destroy_live(1) [OF obj] show ?thesis by (auto simp: parsed_def)
      next
        case val': (Inr x)
        with pv s3 have x: "json_inv x" "length s4 < length s" "live a2 = live a1 + json_blocks x"
          by (auto simp: parsed_def)
        obtain st obj' a3 where ap: "sc_json_object_set (SC_JSON_OBJECT ms c h) (sc_string_as_str key) x a2 = (st, obj', a3)"
          by (cases "sc_json_object_set (SC_JSON_OBJECT ms c h) (sc_string_as_str key) x a2")
        note sp = object_set_spec [OF ap obj x(1)]
        show ?thesis
        proof (cases "sc_status_is_ok st")
          case True
          note ok = sp(1) [OF True]
          have kind: "json_inv obj'" "sc_json_type_of (Some obj') = JSON_OBJECT" using ok by auto
          have "parsed (json_blocks obj') (length s) (sc_string_clear key a3)
              (after_element (CHR ''}'') (\<lambda>v t h. object_loop strtod n depth v t h) obj' s4 (sc_string_clear key a3))"
            by (rule after_element_parsed [OF kind(1) x(2)], rule again [OF kind(1) _ kind(2)]) (use x(2) in simp)
          with str Inr co 1 v val' ap True start ok x(3) key show ?thesis
            by (auto simp: parsed_def split: option.splits prod.splits sum.splits)
        next
          case False
          have "st = sc_status_no_memory"
            using object_set_no_memory [OF ap _ False] obj by simp
          with str Inr co 1 v val' ap False start x(2) show ?thesis by (simp add: parsed_def)
        qed
      qed
    qed
  qed
qed

text \<open>Enough fuel, by induction on it: both loops need one more than a value of the same rest.\<close>

lemma parser_total:
  "2 * length s + 1 \<le> n \<Longrightarrow> parsed 0 (length s) a (parse_value strtod n depth s a)"
  "2 * length s + 2 \<le> n \<Longrightarrow> json_inv v \<Longrightarrow> sc_json_type_of (Some v) = JSON_OBJECT \<Longrightarrow>
     parsed (json_blocks v) (length s) a (object_loop strtod n depth v s a)"
  "2 * length s + 2 \<le> n \<Longrightarrow> json_inv v \<Longrightarrow> sc_json_type_of (Some v) = JSON_ARRAY \<Longrightarrow>
     parsed (json_blocks v) (length s) a (array_loop strtod n depth v s a)"
proof (induction n arbitrary: s a depth v)
  case (Suc n)
  {
    case 1
    have "parsed 1 (length t) a1 (object_loop strtod n (depth + 1) (SC_JSON_OBJECT [] 0 False) t a1)"
      "parsed 1 (length t) a1 (array_loop strtod n (depth + 1) (SC_JSON_ARRAY [] 0 False) t a1)"
      if "length t < length s" for t a1
      using Suc.IH(2) [of t "SC_JSON_OBJECT [] 0 False" a1 "depth + 1"]
        Suc.IH(3) [of t "SC_JSON_ARRAY [] 0 False" a1 "depth + 1"] that 1
      by (simp_all add: empty_containers [simplified] vec_blocks_def)
    then show ?case by (rule dispatch_parsed)
  next
    case 2
    then obtain ms c h where v: "v = SC_JSON_OBJECT ms c h" by (cases v) auto
    show ?case unfolding v
      by (rule object_round_parsed) (use 2 v Suc.IH(1,2) in auto)
  next
    case 3
    then obtain xs c h where v: "v = SC_JSON_ARRAY xs c h" by (cases v) auto
    show ?case unfolding v
      by (rule array_round_parsed) (use 3 v Suc.IH(1,3) in auto)
  }
qed simp_all

lemma json_parse_total:
  "\<exists>r err a'. sc_json_parse strtod input a = Some (r, err, a') \<and>
     (case r of Inl e \<Rightarrow> \<not> sc_status_is_ok e \<and> (e \<noteq> sc_status_no_memory \<longrightarrow> live a' = live a)
      | Inr v \<Rightarrow> json_inv v \<and> live a' = live a + json_blocks v)"
proof -
  define bs where "bs = str_bytes input"
  have fuel: "2 * length (skip_ws bs) + 1 \<le> 2 * length bs + 1" using skip_ws_length [of bs] by simp
  from parser_total(1) [OF fuel, of a strtod 0] obtain r s1 a1 where
    p: "parse_value strtod (2 * length bs + 1) 0 (skip_ws bs) a = Some (r, s1, a1)"
    and sp: "case r of Inl e \<Rightarrow> \<not> sc_status_is_ok e \<and> (e \<noteq> sc_status_no_memory \<longrightarrow> live a1 = live a)
      | Inr v \<Rightarrow> json_inv v \<and> live a1 = live a + json_blocks v"
    by (auto simp: parsed_def split: option.splits sum.splits)
  show ?thesis
    using p sp by (cases r) (auto simp: sc_json_parse_def Let_def bs_def [symmetric] destroy_live)
qed

end
