(* ===== verification/SC_Json_Print.thy ===== *)
theory SC_Json_Print
  imports SC_Json_Parse
begin

text \<open>
  The JSON printer: \<^verbatim>\<open>sc_json_serialize\<close> and \<^verbatim>\<open>json_emit_value\<close> of \<^verbatim>\<open>src/json/json.c\<close>, on the
  writer of \<^verbatim>\<open>vendor/microjson/mjson_write.c\<close>. The writer only counts when it has no buffer and
  otherwise fills the buffer; the printer runs once in either way. Printing a floating-point number
  with \<^verbatim>\<open>%.17g\<close> is the parameter \<open>fmt\<close>: the text, or nothing when it does not fit. The reference
  is \<open>json_text\<close>, and the printed text parses back to the same document.
\<close>

section \<open>The writer\<close>

text \<open>\<open>wbuf\<close> is what the buffer holds so far; \<open>None\<close> is a null buffer.\<close>

record mjson_writer =
  wbuf :: "string option"
  wcap :: nat
  wlen :: nat
  wtrunc :: bool

datatype mjson_status = MJSON_WRITE_OK | MJSON_WRITE_INVALID | MJSON_WRITE_OVERFLOW | MJSON_WRITE_FORMAT

definition mjson_writer_init :: "bool \<Rightarrow> nat \<Rightarrow> mjson_writer" where
  "mjson_writer_init buffered capacity =
     \<lparr>wbuf = (if buffered then Some [] else None), wcap = capacity, wlen = 0, wtrunc = False\<rparr>"

definition mjson_write_raw :: "mjson_writer \<Rightarrow> sc_str \<Rightarrow> mjson_status \<times> mjson_writer" where
  "mjson_write_raw w p =
     (if str_len p > 0 \<and> ptr_null p then (MJSON_WRITE_INVALID, w)
      else if SIZE_MAX - wlen w < str_len p then (MJSON_WRITE_OVERFLOW, w)
      else (let available = (if wbuf w \<noteq> None \<and> wlen w < wcap w then min (wcap w - wlen w) (str_len p) else 0);
                remaining = (if wlen w < wcap w then wcap w - wlen w else 0) in
            (MJSON_WRITE_OK,
             w\<lparr>wbuf := map_option (\<lambda>b. b @ take available (str_bytes p)) (wbuf w),
               wtrunc := wtrunc w \<or> (wbuf w \<noteq> None \<and> remaining < str_len p),
               wlen := wlen w + str_len p\<rparr>)))"

definition mjson_write_cstr :: "mjson_writer \<Rightarrow> string \<Rightarrow> mjson_status \<times> mjson_writer" where
  "mjson_write_cstr w s = mjson_write_raw w (Str s)"

definition mjson_write_null :: "mjson_writer \<Rightarrow> mjson_status \<times> mjson_writer" where
  "mjson_write_null w = mjson_write_cstr w ''null''"

definition mjson_write_bool :: "mjson_writer \<Rightarrow> bool \<Rightarrow> mjson_status \<times> mjson_writer" where
  "mjson_write_bool w b = mjson_write_cstr w (if b then ''true'' else ''false'')"

definition mjson_write_number_double ::
    "('d \<Rightarrow> string option) \<Rightarrow> mjson_writer \<Rightarrow> 'd \<Rightarrow> mjson_status \<times> mjson_writer" where
  "mjson_write_number_double fmt w d =
     (case fmt d of
        None \<Rightarrow> (MJSON_WRITE_FORMAT, w)
      | Some t \<Rightarrow> (if length t \<ge> 64 then (MJSON_WRITE_FORMAT, w) else mjson_write_raw w (Str t)))"

definition mjson_hex_digit :: "nat \<Rightarrow> char" where
  "mjson_hex_digit value = ''0123456789abcdef'' ! (value mod 16)"

text \<open>What is written for one byte of a string.\<close>

definition mjson_escaped :: "char \<Rightarrow> string" where
  "mjson_escaped ch =
     (if ch = CHR 0x22 then [CHR 0x5C, CHR 0x22]
      else if ch = CHR 0x5C then [CHR 0x5C, CHR 0x5C]
      else if ch = CHR 0x0A then [CHR 0x5C, CHR ''n'']
      else if ch = CHR 0x0D then [CHR 0x5C, CHR ''r'']
      else if ch = CHR 0x09 then [CHR 0x5C, CHR ''t'']
      else if (of_char ch :: nat) < 0x20
      then [CHR 0x5C, CHR ''u'', CHR ''0'', CHR ''0'', mjson_hex_digit (of_char ch div 16),
            mjson_hex_digit (of_char ch mod 16)]
      else [ch])"

fun mjson_write_chars :: "mjson_writer \<Rightarrow> string \<Rightarrow> mjson_status \<times> mjson_writer" where
  "mjson_write_chars w [] = (MJSON_WRITE_OK, w)"
| "mjson_write_chars w (c # cs) =
     (case mjson_write_raw w (Str (mjson_escaped c)) of
        (st, w1) \<Rightarrow> (if st = MJSON_WRITE_OK then mjson_write_chars w1 cs else (st, w1)))"

definition mjson_write_string :: "mjson_writer \<Rightarrow> sc_str \<Rightarrow> mjson_status \<times> mjson_writer" where
  "mjson_write_string w s =
     (if str_len s > 0 \<and> ptr_null s then (MJSON_WRITE_INVALID, w)
      else (case mjson_write_cstr w [CHR 0x22] of
              (st, w1) \<Rightarrow>
                (if st \<noteq> MJSON_WRITE_OK then (st, w1)
                 else (case mjson_write_chars w1 (str_bytes s) of
                         (st2, w2) \<Rightarrow>
                           (if st2 \<noteq> MJSON_WRITE_OK then (st2, w2) else mjson_write_cstr w2 [CHR 0x22])))))"

section \<open>The printer\<close>

definition json_emit_status :: "mjson_status \<Rightarrow> sc_status" where
  "json_emit_status st =
     (case st of
        MJSON_WRITE_OK \<Rightarrow> sc_status_ok
      | MJSON_WRITE_INVALID \<Rightarrow> sc_status_invalid_argument ''sc.json.serialize_invalid_argument''
      | MJSON_WRITE_OVERFLOW \<Rightarrow> sc_status_no_memory
      | MJSON_WRITE_FORMAT \<Rightarrow> sc_status_io ''sc.json.serialize_number_failed'')"

text \<open>A printing step that does nothing after a failure.\<close>

type_synonym emit_state = "sc_status \<times> mjson_writer"

definition emit_then :: "(mjson_writer \<Rightarrow> emit_state) \<Rightarrow> emit_state \<Rightarrow> emit_state" where
  "emit_then f s = (if sc_status_is_ok (fst s) then f (snd s) else s)"

definition emit_raw :: "(mjson_writer \<Rightarrow> mjson_status \<times> mjson_writer) \<Rightarrow> mjson_writer \<Rightarrow> emit_state" where
  "emit_raw f w = (case f w of (st, w') \<Rightarrow> (json_emit_status st, w'))"

fun json_emit_value :: "('d \<Rightarrow> string option) \<Rightarrow> 'd sc_json_value \<Rightarrow> mjson_writer \<Rightarrow> emit_state"
  and emit_items :: "('d \<Rightarrow> string option) \<Rightarrow> bool \<Rightarrow> 'd sc_json_value list \<Rightarrow> emit_state \<Rightarrow> emit_state"
  and emit_members :: "('d \<Rightarrow> string option) \<Rightarrow> bool \<Rightarrow> 'd json_member list \<Rightarrow> emit_state \<Rightarrow> emit_state" where
  "json_emit_value fmt SC_JSON_NULL w = emit_raw mjson_write_null w"
| "json_emit_value fmt (SC_JSON_BOOL b) w = emit_raw (\<lambda>w. mjson_write_bool w b) w"
| "json_emit_value fmt (SC_JSON_NUMBER d) w = emit_raw (\<lambda>w. mjson_write_number_double fmt w d) w"
| "json_emit_value fmt (SC_JSON_STRING s) w = emit_raw (\<lambda>w. mjson_write_string w (sc_string_as_str s)) w"
| "json_emit_value fmt (SC_JSON_ARRAY xs c h) w =
     emit_then (emit_raw (\<lambda>w. mjson_write_cstr w '']''))
       (emit_items fmt True xs (emit_raw (\<lambda>w. mjson_write_cstr w ''['') w))"
| "json_emit_value fmt (SC_JSON_OBJECT ms c h) w =
     emit_then (emit_raw (\<lambda>w. mjson_write_cstr w ''}''))
       (emit_members fmt True ms (emit_raw (\<lambda>w. mjson_write_cstr w ''{'') w))"
| "emit_items fmt first [] s = s"
| "emit_items fmt first (x # xs) s =
     emit_items fmt False xs
       (emit_then (json_emit_value fmt x)
         (emit_then (\<lambda>w. if first then (sc_status_ok, w) else emit_raw (\<lambda>w. mjson_write_cstr w '','') w) s))"
| "emit_members fmt first [] s = s"
| "emit_members fmt first ((k, x) # ms) s =
     emit_members fmt False ms
       (emit_then (json_emit_value fmt x)
         (emit_then (emit_raw (\<lambda>w. mjson_write_cstr w '':''))
           (emit_then (emit_raw (\<lambda>w. mjson_write_string w (sc_string_as_str k)))
             (emit_then (\<lambda>w. if first then (sc_status_ok, w) else emit_raw (\<lambda>w. mjson_write_cstr w '','') w) s))))"

definition sc_json_serialize ::
    "('d \<Rightarrow> string option) \<Rightarrow> 'd sc_json_value \<Rightarrow> sc_allocator \<Rightarrow> sc_string res \<times> sc_allocator" where
  "sc_json_serialize fmt v a =
     (case json_emit_value fmt v (mjson_writer_init False 0) of
        (st, measure_) \<Rightarrow>
          (if \<not> sc_status_is_ok st then (Inl st, a)
           else if wlen measure_ = SIZE_MAX then (Inl sc_status_no_memory, a)
           else (case sc_alloc (wlen measure_ + 1) a of
                   (False, a1) \<Rightarrow> (Inl sc_status_no_memory, a1)
                 | (True, a1) \<Rightarrow>
                     (case json_emit_value fmt v (mjson_writer_init True (wlen measure_)) of
                        (st2, w) \<Rightarrow>
                          (if \<not> sc_status_is_ok st2 \<or> wtrunc w \<or> wlen w \<noteq> wlen measure_
                           then (Inl (if sc_status_is_ok st2 then sc_status_io ''sc.json.serialize_size_mismatch''
                                      else st2), sc_free True a1)
                           else (Inr (wbuf w), a1))))))"

section \<open>The reference printer\<close>

definition quoted :: "string \<Rightarrow> string" where
  "quoted s = CHR 0x22 # concat (map mjson_escaped s) @ [CHR 0x22]"

fun json_text :: "('d \<Rightarrow> string) \<Rightarrow> 'd json \<Rightarrow> string"
  and items_text :: "('d \<Rightarrow> string) \<Rightarrow> 'd json list \<Rightarrow> string"
  and members_text :: "('d \<Rightarrow> string) \<Rightarrow> (string \<times> 'd json) list \<Rightarrow> string" where
  "json_text f JNull = ''null''"
| "json_text f (JBool b) = (if b then ''true'' else ''false'')"
| "json_text f (JNumber d) = f d"
| "json_text f (JString s) = quoted s"
| "json_text f (JArray []) = ''[]''"
| "json_text f (JArray (j # js)) = ''['' @ json_text f j @ items_text f js @ '']''"
| "json_text f (JObject []) = ''{}''"
| "json_text f (JObject ((k, j) # ms)) = ''{'' @ quoted k @ '':'' @ json_text f j @ members_text f ms @ ''}''"
| "items_text f [] = []"
| "items_text f (j # js) = '','' @ json_text f j @ items_text f js"
| "members_text f [] = []"
| "members_text f ((k, j) # ms) = '','' @ quoted k @ '':'' @ json_text f j @ members_text f ms"

section \<open>The printer writes the reference text\<close>

text \<open>The writer after \<open>t\<close> was written, and the steps that write exactly a given text.\<close>

definition wrote :: "mjson_writer \<Rightarrow> string \<Rightarrow> mjson_writer" where
  "wrote w t = w\<lparr>wbuf := map_option (\<lambda>b. b @ take (wcap w - wlen w) t) (wbuf w),
     wtrunc := wtrunc w \<or> (wbuf w \<noteq> None \<and> wcap w - wlen w < length t), wlen := wlen w + length t\<rparr>"

lemma wlen_wrote [simp]: "wlen (wrote w t) = wlen w + length t"
  by (simp add: wrote_def)

lemma wrote_Nil [simp]: "wrote w [] = w"
  by (cases w) (simp add: wrote_def option.map_ident)

lemma wrote_append [simp]: "wrote (wrote w s) t = wrote w (s @ t)"
proof -
  have "take (wcap w - wlen w) s @ take (wcap w - (wlen w + length s)) t = take (wcap w - wlen w) (s @ t)"
    by simp
  moreover have "(wcap w - wlen w < length s \<or> wcap w - (wlen w + length s) < length t) \<longleftrightarrow>
      wcap w - wlen w < length (s @ t)"
    by (simp add: less_diff_conv2) linarith
  ultimately show ?thesis
    by (cases w; cases "wbuf w") (auto simp: wrote_def)
qed

lemma write_raw_wrote:
  assumes "wlen w + length t \<le> SIZE_MAX"
  shows "mjson_write_raw w (Str t) = (MJSON_WRITE_OK, wrote w t)"
proof -
  have "take (min (wcap w - wlen w) (length t)) t = take (wcap w - wlen w) t" by (simp add: min_def)
  with assms show ?thesis
    by (cases "wbuf w") (auto simp: mjson_write_raw_def wrote_def Let_def)
qed

definition emits :: "(mjson_writer \<Rightarrow> emit_state) \<Rightarrow> string \<Rightarrow> bool" where
  "emits f t \<longleftrightarrow> (\<forall>w. wlen w + length t \<le> SIZE_MAX \<longrightarrow> f w = (sc_status_ok, wrote w t))"

lemma emits_cstr: "emits (emit_raw (\<lambda>w. mjson_write_cstr w t)) t"
  by (simp add: emits_def emit_raw_def mjson_write_cstr_def write_raw_wrote json_emit_status_def)

lemma write_chars_wrote:
  "wlen w + length (concat (map mjson_escaped cs)) \<le> SIZE_MAX \<Longrightarrow>
   mjson_write_chars w cs = (MJSON_WRITE_OK, wrote w (concat (map mjson_escaped cs)))"
  by (induction cs arbitrary: w) (simp_all add: write_raw_wrote)

lemma emits_string: "emits (emit_raw (\<lambda>w. mjson_write_string w (sc_string_as_str s))) (quoted (owned_text s))"
proof -
  have "mjson_write_string w (sc_string_as_str s) = (MJSON_WRITE_OK, wrote w (quoted (owned_text s)))"
    if "wlen w + length (quoted (owned_text s)) \<le> SIZE_MAX" for w
    using that
    by (cases s) (simp_all add: mjson_write_string_def mjson_write_cstr_def quoted_def write_raw_wrote
        write_chars_wrote)
  then show ?thesis by (simp add: emits_def emit_raw_def json_emit_status_def)
qed

lemma emit_then_wrote:
  "emits f t \<Longrightarrow> wlen w + length t \<le> SIZE_MAX \<Longrightarrow> emit_then f (sc_status_ok, w) = (sc_status_ok, wrote w t)"
  by (simp add: emit_then_def emits_def)

text \<open>Every number of a value has a text that fits the writer's buffer.\<close>

definition printable :: "('d \<Rightarrow> string option) \<Rightarrow> 'd \<Rightarrow> bool" where
  "printable fmt d \<longleftrightarrow> (\<exists>t. fmt d = Some t \<and> length t < 64)"

fun json_numbers :: "'d json \<Rightarrow> 'd set"
  and items_numbers :: "'d json list \<Rightarrow> 'd set"
  and members_numbers :: "(string \<times> 'd json) list \<Rightarrow> 'd set" where
  "json_numbers JNull = {}"
| "json_numbers (JBool b) = {}"
| "json_numbers (JNumber d) = {d}"
| "json_numbers (JString s) = {}"
| "json_numbers (JArray js) = items_numbers js"
| "json_numbers (JObject ms) = members_numbers ms"
| "items_numbers [] = {}"
| "items_numbers (j # js) = json_numbers j \<union> items_numbers js"
| "members_numbers [] = {}"
| "members_numbers ((k, j) # ms) = json_numbers j \<union> members_numbers ms"

abbreviation fmt_text :: "('d \<Rightarrow> string option) \<Rightarrow> 'd \<Rightarrow> string" where
  "fmt_text fmt d \<equiv> the (fmt d)"

lemma items_text_first:
  "json_text f (JArray js) = ''['' @ drop 1 (items_text f js) @ '']''"
  "json_text f (JObject ms) = ''{'' @ drop 1 (members_text f ms) @ ''}''"
  by (cases js; simp) (cases ms; auto)

lemma emit_value_text:
  fixes v :: "'d sc_json_value" and xs :: "'d sc_json_value list" and ms :: "'d json_member list"
  shows "\<forall>d \<in> json_numbers (json_view v). printable fmt d \<Longrightarrow>
      emits (json_emit_value fmt v) (json_text (fmt_text fmt) (json_view v))"
    and "\<forall>d \<in> items_numbers (items_view xs). printable fmt d \<Longrightarrow>
      t = (if first then drop 1 (items_text (fmt_text fmt) (items_view xs))
           else items_text (fmt_text fmt) (items_view xs)) \<Longrightarrow> wlen w + length t \<le> SIZE_MAX \<Longrightarrow>
      emit_items fmt first xs (sc_status_ok, w) = (sc_status_ok, wrote w t)"
    and "\<forall>d \<in> members_numbers (members_view ms). printable fmt d \<Longrightarrow>
      t = (if first then drop 1 (members_text (fmt_text fmt) (members_view ms))
           else members_text (fmt_text fmt) (members_view ms)) \<Longrightarrow> wlen w + length t \<le> SIZE_MAX \<Longrightarrow>
      emit_members fmt first ms (sc_status_ok, w) = (sc_status_ok, wrote w t)"
proof (induction v and xs and ms arbitrary: and first t w and first t w
    rule: json_blocks_items_blocks_members_blocks.induct)
  case 1
  then show ?case using emits_cstr [of "''null''"] by (simp add: mjson_write_null_def [abs_def])
next
  case (2 b)
  then show ?case using emits_cstr [of "if b then ''true'' else ''false''"]
    by (simp add: mjson_write_bool_def [abs_def])
next
  case (3 d)
  then show ?case
    by (auto simp: emits_def emit_raw_def mjson_write_number_double_def printable_def write_raw_wrote
        json_emit_status_def)
next
  case (4 s)
  then show ?case using emits_string [of s] by simp
next
  case (5 xs c h)
  show ?case unfolding json_view.simps items_text_first emits_def
  proof (intro allI impI)
    fix w :: mjson_writer
    let ?t = "drop 1 (items_text (fmt_text fmt) (items_view xs))"
    assume fits: "wlen w + length (''['' @ ?t @ '']'') \<le> SIZE_MAX"
    have "emit_raw (\<lambda>w. mjson_write_cstr w ''['') w = (sc_status_ok, wrote w ''['')"
      using emits_cstr [of "''[''"] fits by (simp add: emits_def)
    with 5(1) [OF _ refl, where first = True and w = "wrote w ''[''"] 5(2) fits
    show "json_emit_value fmt (SC_JSON_ARRAY xs c h) w = (sc_status_ok, wrote w (''['' @ ?t @ '']''))"
      by (simp add: emit_then_wrote [OF emits_cstr])
  qed
next
  case (6 ms c h)
  show ?case unfolding json_view.simps items_text_first emits_def
  proof (intro allI impI)
    fix w :: mjson_writer
    let ?t = "drop 1 (members_text (fmt_text fmt) (members_view ms))"
    assume fits: "wlen w + length (''{'' @ ?t @ ''}'') \<le> SIZE_MAX"
    have "emit_raw (\<lambda>w. mjson_write_cstr w ''{'') w = (sc_status_ok, wrote w ''{'')"
      using emits_cstr [of "''{''"] fits by (simp add: emits_def)
    with 6(1) [OF _ refl, where first = True and w = "wrote w ''{''"] 6(2) fits
    show "json_emit_value fmt (SC_JSON_OBJECT ms c h) w = (sc_status_ok, wrote w (''{'' @ ?t @ ''}''))"
      by (simp add: emit_then_wrote [OF emits_cstr])
  qed
next
  case 7
  then show ?case by (simp split: if_splits)
next
  case (8 x xs)
  let ?tx = "json_text (fmt_text fmt) (json_view x)" and ?txs = "items_text (fmt_text fmt) (items_view xs)"
  have x: "emits (json_emit_value fmt x) ?tx" using 8 by simp
  have t: "t = (if first then [] else '','') @ ?tx @ ?txs" using 8(4) by simp
  have comma: "emit_then (\<lambda>w. if first then (sc_status_ok, w) else emit_raw (\<lambda>w. mjson_write_cstr w '','') w)
      (sc_status_ok, w) = (sc_status_ok, wrote w (if first then [] else '',''))"
    using emits_cstr [of "'',''"] 8(5) t by (auto simp: emits_def emit_then_def)
  show ?case
    using 8(2) [of ?txs False "wrote w ((if first then [] else '','') @ ?tx)"] 8(3,5) t
    by (simp add: comma emit_then_wrote [OF x])
next
  case 9
  then show ?case by (simp split: if_splits)
next
  case (10 k x ms)
  let ?tx = "json_text (fmt_text fmt) (json_view x)" and ?tms = "members_text (fmt_text fmt) (members_view ms)"
  have x: "emits (json_emit_value fmt x) ?tx" using 10 by simp
  have t: "t = (if first then [] else '','') @ quoted (owned_text k) @ '':'' @ ?tx @ ?tms" using 10(4) by simp
  have comma: "emit_then (\<lambda>w. if first then (sc_status_ok, w) else emit_raw (\<lambda>w. mjson_write_cstr w '','') w)
      (sc_status_ok, w) = (sc_status_ok, wrote w (if first then [] else '',''))"
    using emits_cstr [of "'',''"] 10(5) t by (auto simp: emits_def emit_then_def)
  show ?case
    using 10(2) [of ?tms False "wrote w ((if first then [] else '','') @ quoted (owned_text k) @ '':'' @ ?tx)"] 10(3,5) t
    by (simp add: comma emit_then_wrote [OF x] emit_then_wrote [OF emits_cstr] emit_then_wrote [OF emits_string])
qed

lemma serialize_text:
  assumes "\<forall>d \<in> json_numbers (json_view v). printable fmt d"
    and len: "length (json_text (fmt_text fmt) (json_view v)) < SIZE_MAX"
    and run: "sc_json_serialize fmt v a = (r, a')"
  shows "(r = Inl sc_status_no_memory \<and> live a' = live a) \<or>
    (r = Inr (Some (json_text (fmt_text fmt) (json_view v))) \<and> live a' = live a + 1)"
    and "generous a \<Longrightarrow> r = Inr (Some (json_text (fmt_text fmt) (json_view v))) \<and> generous a'"
proof -
  let ?t = "json_text (fmt_text fmt) (json_view v)"
  have "json_emit_value fmt v (mjson_writer_init b n) = (sc_status_ok, wrote (mjson_writer_init b n) ?t)" for b n
    using emit_value_text(1) [OF assms(1)] len by (simp add: emits_def mjson_writer_init_def)
  note emit = this
  have w: "wlen (wrote (mjson_writer_init b n) ?t) = length ?t"
    "wtrunc (wrote (mjson_writer_init True (length ?t)) ?t) = False"
    "wbuf (wrote (mjson_writer_init True (length ?t)) ?t) = Some ?t" for b n
    by (simp_all add: wrote_def mjson_writer_init_def)
  obtain ok a1 where al: "sc_alloc (length ?t + 1) a = (ok, a1)" by (cases "sc_alloc (length ?t + 1) a")
  have out: "sc_json_serialize fmt v a = (if ok then (Inr (Some ?t), a1) else (Inl sc_status_no_memory, a1))"
    using len al unfolding sc_json_serialize_def emit prod.case w by (cases ok) simp_all
  show "(r = Inl sc_status_no_memory \<and> live a' = live a) \<or> (r = Inr (Some ?t) \<and> live a' = live a + 1)"
    using out run al by (cases ok) (auto dest!: alloc_cases)
  show "generous a \<Longrightarrow> r = Inr (Some ?t) \<and> generous a'"
    using out run al by (auto simp: generous_alloc)
qed

section \<open>Parsing the printed text\<close>

subsection \<open>Strings\<close>

lemma builder_append_generous:
  assumes "generous a" "bytes_inv b" "length (contents b) + length p < SIZE_MAX"
  shows "\<exists>b' a'. sc_string_builder_append b (Str p) a = (sc_status_ok, b', a') \<and> bytes_inv b' \<and>
    contents b' = contents b @ p \<and> held b' \<and> generous a'"
proof -
  obtain st b' a' where ap: "sc_string_builder_append b (Str p) a = (st, b', a')"
    by (cases "sc_string_builder_append b (Str p) a")
  have "st = sc_status_ok \<and> generous a'"
    using ap assms(1,3)
    by (auto simp: sc_string_builder_append_def sc_bytes_append_def sc_bytes_reserve_def sc_size_add_overflow_def
        generous_realloc Let_def split: if_splits prod.splits)
  with ap builder_append_spec [OF ap assms(2)] show ?thesis by auto
qed

lemma hex_value_digit: "n < 16 \<Longrightarrow> json_hex_value (mjson_hex_digit n) = Some n"
proof -
  assume "n < 16"
  then have "n \<in> set [0..<16]" by simp
  moreover have "list_all (\<lambda>n. json_hex_value (mjson_hex_digit n) = Some n) [0..<16]" by code_simp
  ultimately show ?thesis by (simp add: list_all_iff)
qed

lemma hex_zero: "json_hex_value (CHR ''0'') = Some 0" "mjson_hex_digit 0 = CHR ''0''"
  by (simp_all add: json_hex_value_def mjson_hex_digit_def)

lemma escape_control:
  assumes "(of_char ch :: nat) < 32"
  shows "parse_unicode_escape (CHR ''0'' # CHR ''0'' # mjson_hex_digit (of_char ch div 16) #
      mjson_hex_digit (of_char ch mod 16) # rest) = (Inr (of_char ch), rest)"
proof -
  let ?n = "of_char ch :: nat"
  have "push_bit 4 (?n div 16) OR (?n mod 16) = ?n"
    using or_add_low [of "?n mod 16" 4 "?n div 16"] by simp
  moreover have "?n div 16 < 16" "?n mod 16 < 16" using assms by (simp_all add: div_less_iff_less_mult)
  ultimately have "json_hex4 (Suc (Suc (Suc (Suc 0)))) 0 (CHR ''0'' # CHR ''0'' # mjson_hex_digit (?n div 16) #
      mjson_hex_digit (?n mod 16) # rest) = (Some ?n, rest)"
    by (simp add: hex_value_digit hex_zero)
  moreover have "(4 :: nat) = Suc (Suc (Suc (Suc 0)))" by simp
  ultimately have "json_hex4 4 0 (CHR ''0'' # CHR ''0'' # mjson_hex_digit (?n div 16) #
      mjson_hex_digit (?n mod 16) # rest) = (Some ?n, rest)" by presburger
  with assms show ?thesis by (simp add: parse_unicode_escape_def)
qed

lemma string_loop_escaped:
  assumes "sc_string_builder_append b (Str [c]) a = (sc_status_ok, b', a')"
  shows "string_loop (mjson_escaped c @ t) b a = string_loop t b' a'"
proof (cases "c = CHR 0x22 \<or> c = CHR 0x5C \<or> c = CHR 0x0A \<or> c = CHR 0x0D \<or> c = CHR 0x09")
  case True
  with assms show ?thesis by (auto simp: mjson_escaped_def json_escape_def)
next
  case plain: False
  show ?thesis
  proof (cases "(of_char c :: nat) < 0x20")
    case True
    have "append_utf8_codepoint b (of_char c) a = (sc_status_ok, b', a')"
      using True assms by (simp add: append_utf8_codepoint_def utf8_encode_def)
    with plain True show ?thesis
      by (simp add: mjson_escaped_def json_escape_def escape_control)
  next
    case False
    with plain assms show ?thesis by (simp add: mjson_escaped_def)
  qed
qed

lemma owned_text_finish: "bytes_inv b \<Longrightarrow> owned_text (fst (sc_string_builder_finish b)) = contents b"
  by (auto simp: sc_string_builder_finish_def bytes_inv_def)

lemma string_loop_quoted:
  "generous a \<Longrightarrow> bytes_inv b \<Longrightarrow> length (contents b) + length s < SIZE_MAX \<Longrightarrow>
   \<exists>k a'. string_loop (concat (map mjson_escaped s) @ CHR 0x22 # rest) b a = (Inr k, rest, a') \<and>
     owned_text k = contents b @ s \<and> generous a'"
proof (induction s arbitrary: b a)
  case Nil
  then show ?case using owned_text_finish [of b] by simp
next
  case (Cons c s)
  obtain b' a' where ap: "sc_string_builder_append b (Str [c]) a = (sc_status_ok, b', a')"
    and b': "bytes_inv b'" "contents b' = contents b @ [c]" "generous a'"
    using builder_append_generous [OF Cons.prems(1,2), of "[c]"] Cons.prems(3) by auto
  from Cons.IH [OF b'(3,1)] b'(2) Cons.prems(3) string_loop_escaped [OF ap] show ?case by simp
qed

lemma parse_string_quoted:
  assumes "generous a" "length s < SIZE_MAX"
  shows "\<exists>k a'. parse_string (quoted s @ rest) a = (Inr k, rest, a') \<and> owned_text k = s \<and> generous a'"
  using string_loop_quoted [OF assms(1), of sc_string_builder_init s rest] assms(2)
  by (simp add: parse_string_def quoted_def json_consume_def sc_string_builder_init_def sc_bytes_init_def bytes_zero_def
      bytes_inv_def)

subsection \<open>Numbers\<close>

text \<open>What may follow a value in a printed text.\<close>

definition ends_value :: "string \<Rightarrow> bool" where
  "ends_value rest \<longleftrightarrow> rest = [] \<or> hd rest \<in> {CHR '','', CHR '']'', CHR ''}''}"

lemma ends_value_simps [simp]:
  "ends_value []" "ends_value (CHR '','' # t)" "ends_value (CHR '']'' # t)" "ends_value (CHR ''}'' # t)"
  by (simp_all add: ends_value_def)

text \<open>A text the parser takes for one number.\<close>

definition number_text :: "string \<Rightarrow> bool" where
  "number_text t \<longleftrightarrow> t \<noteq> [] \<and> (hd t = CHR ''-'' \<or> is_digit (hd t)) \<and> length t < 128 \<and> number_span t = (t, [])"

lemma span_parts_append:
  assumes "ends_value rest"
  shows "drop_sign (t @ rest) = drop_sign t @ rest"
    and "dropWhile is_digit (t @ rest) = dropWhile is_digit t @ rest"
    and "drop_fraction (t @ rest) = drop_fraction t @ rest"
    and "drop_exponent (t @ rest) = drop_exponent t @ rest"
proof -
  have dig: "dropWhile is_digit (u @ rest) = dropWhile is_digit u @ rest" for u
    using assms by (induction u) (cases rest; auto simp: ends_value_def is_digit_def)+
  show "dropWhile is_digit (t @ rest) = dropWhile is_digit t @ rest" by (rule dig)
  show "drop_sign (t @ rest) = drop_sign t @ rest"
    using assms by (cases t; cases rest) (auto simp: drop_sign_def ends_value_def)
  show "drop_fraction (t @ rest) = drop_fraction t @ rest"
  proof (cases t)
    case Nil
    with assms show ?thesis by (cases rest) (auto simp: drop_fraction_def ends_value_def)
  qed (simp add: drop_fraction_def dig)
  show "drop_exponent (t @ rest) = drop_exponent t @ rest"
  proof (cases t)
    case Nil
    with assms show ?thesis by (cases rest) (auto simp: drop_exponent_def ends_value_def)
  next
    case (Cons c u)
    then show ?thesis
      using assms dig [of u] dig [of "tl u"]
      by (cases u; cases rest) (auto simp: drop_exponent_def ends_value_def Let_def)
  qed
qed

lemma parse_number_text:
  assumes "number_text t" "strtod t = Some d" "ends_value rest" "generous a"
  shows "\<exists>a'. parse_number strtod (t @ rest) a = (Inr (SC_JSON_NUMBER d), rest, a') \<and> generous a'"
proof -
  have "drop_exponent (drop_fraction (dropWhile is_digit (drop_sign t))) = []"
    using assms(1) by (simp add: number_text_def number_span_def Let_def)
  then have "number_span (t @ rest) = (t, rest)"
    by (simp add: number_span_def span_parts_append [OF assms(3)] Let_def)
  with assms show ?thesis
    by (simp add: parse_number_def number_text_def sc_json_number_new_def json_alloc_value_def generous_alloc)
qed

subsection \<open>Documents\<close>

text \<open>Documents the printer and the parser agree on.\<close>

fun doc_ok :: "(string \<Rightarrow> 'd option) \<Rightarrow> ('d \<Rightarrow> string) \<Rightarrow> 'd json \<Rightarrow> bool"
  and docs_ok :: "(string \<Rightarrow> 'd option) \<Rightarrow> ('d \<Rightarrow> string) \<Rightarrow> 'd json list \<Rightarrow> bool"
  and members_ok :: "(string \<Rightarrow> 'd option) \<Rightarrow> ('d \<Rightarrow> string) \<Rightarrow> (string \<times> 'd json) list \<Rightarrow> bool" where
  "doc_ok strtod f JNull \<longleftrightarrow> True"
| "doc_ok strtod f (JBool b) \<longleftrightarrow> True"
| "doc_ok strtod f (JNumber d) \<longleftrightarrow> number_text (f d) \<and> strtod (f d) = Some d"
| "doc_ok strtod f (JString s) \<longleftrightarrow> sc_str_is_valid_utf8 (Str s)"
| "doc_ok strtod f (JArray js) \<longleftrightarrow> length js \<le> JSON_MAX_ARRAY_ITEMS \<and> docs_ok strtod f js"
| "doc_ok strtod f (JObject ms) \<longleftrightarrow> members_ok strtod f ms"
| "docs_ok strtod f [] \<longleftrightarrow> True"
| "docs_ok strtod f (j # js) \<longleftrightarrow> doc_ok strtod f j \<and> docs_ok strtod f js"
| "members_ok strtod f [] \<longleftrightarrow> True"
| "members_ok strtod f ((k, j) # ms) \<longleftrightarrow> sc_str_is_valid_utf8 (Str k) \<and> doc_ok strtod f j \<and> members_ok strtod f ms"

text \<open>How deep the containers nest around a value.\<close>

fun json_depth :: "'d json \<Rightarrow> nat"
  and items_depth :: "'d json list \<Rightarrow> nat"
  and members_depth :: "(string \<times> 'd json) list \<Rightarrow> nat" where
  "json_depth JNull = 0"
| "json_depth (JBool b) = 0"
| "json_depth (JNumber d) = 0"
| "json_depth (JString s) = 0"
| "json_depth (JArray js) = items_depth js"
| "json_depth (JObject ms) = members_depth ms"
| "items_depth [] = 0"
| "items_depth (j # js) = max (1 + json_depth j) (items_depth js)"
| "members_depth [] = 0"
| "members_depth ((k, j) # ms) = max (1 + json_depth j) (members_depth ms)"

text \<open>The bound on a text that keeps the sizes of all its vectors in range.\<close>

definition TEXT_MAX :: nat where
  "TEXT_MAX = 2 ^ 56"

definition reads :: "(string \<Rightarrow> 'd option) \<Rightarrow> ('d \<Rightarrow> string) \<Rightarrow> 'd json \<Rightarrow> bool" where
  "reads strtod f j \<longleftrightarrow> (\<forall>n depth rest a. generous a \<and> ends_value rest \<and>
     2 * length (json_text f j @ rest) + 1 \<le> n \<and> length (json_text f j @ rest) \<le> TEXT_MAX \<and>
     depth + json_depth j \<le> JSON_MAX_DEPTH \<longrightarrow>
     (\<exists>v a'. parse_value strtod n depth (json_text f j @ rest) a = Some (Inr v, rest, a') \<and>
        json_view v = j \<and> json_inv v \<and> generous a'))"

lemma skip_ws_start: "\<not> json_ws c \<Longrightarrow> skip_ws (c # t) = c # t"
  by (simp add: skip_ws_def)

lemma json_ws_simps [simp]:
  "\<not> json_ws (CHR ''{'')" "\<not> json_ws (CHR ''['')" "\<not> json_ws (CHR 0x22)" "\<not> json_ws (CHR '','')" "\<not> json_ws (CHR '']'')"
  "\<not> json_ws (CHR ''}'')" "\<not> json_ws (CHR ''n'')" "\<not> json_ws (CHR ''t'')" "\<not> json_ws (CHR ''f'')" "\<not> json_ws (CHR '':'')"
  "\<not> json_ws (CHR ''-'')"
  by (simp_all add: json_ws_def)

lemma digit_not_ws: "is_digit c \<Longrightarrow> \<not> json_ws c"
  by (auto simp: is_digit_def json_ws_def)

lemma text_start:
  assumes "doc_ok strtod f j"
  obtains c t where "json_text f j = c # t" "\<not> json_ws c" "c \<noteq> CHR '']''"
proof (cases j)
  case (JNumber d)
  with assms that show thesis by (cases "f d") (auto simp: number_text_def digit_not_ws is_digit_def)
next
  case (JArray js)
  with that show thesis by (cases js) auto
next
  case (JObject ms)
  with that show thesis by (cases ms) auto
next
  case (JBool b)
  with that show thesis by (cases b) auto
qed (use that in \<open>auto simp: quoted_def\<close>)

lemma skip_ws_text: "doc_ok strtod f j \<Longrightarrow> skip_ws (json_text f j @ rest) = json_text f j @ rest"
  by (erule text_start) (simp add: skip_ws_start)

lemma skip_ws_ends: "ends_value rest \<Longrightarrow> skip_ws rest = rest"
  by (cases rest) (auto simp: ends_value_def skip_ws_def json_ws_def)

lemma array_append_generous:
  assumes "generous a" "json_inv (SC_JSON_ARRAY xs c h)" "json_inv x" "length xs < JSON_MAX_ARRAY_ITEMS"
  shows "\<exists>c' h' a'. sc_json_array_append (SC_JSON_ARRAY xs c h) x a = (sc_status_ok, SC_JSON_ARRAY (xs @ [x]) c' h', a') \<and>
    json_inv (SC_JSON_ARRAY (xs @ [x]) c' h') \<and> generous a'"
proof -
  obtain vec a' where push: "sc_vec_push (array_vec xs c h) (Some (Some x)) a = (sc_status_ok, vec, a')" "generous a'"
    using vec_push_generous [OF assms(1), of "array_vec xs c h" "Some x"] assms(2,4)
    by (auto simp: SIZE_MAX_def JSON_MAX_ARRAY_ITEMS_def)
  define st v' where "st = sc_status_ok" and "v' = SC_JSON_ARRAY (map the (items vec)) (vcap vec) (vheld vec)"
  have ap: "sc_json_array_append (SC_JSON_ARRAY xs c h) x a = (sc_status_ok, v', a')"
    using push assms(4) by (simp add: sc_json_array_append_def sc_ptr_vec_push_def v'_def)
  from array_append_spec(1) [OF ap assms(2,3)] ap push(2) show ?thesis by auto
qed

lemma object_set_generous:
  assumes "generous a" "json_inv (SC_JSON_OBJECT ms c h)" "json_inv x" "length ms \<le> TEXT_MAX" "string_len key < SIZE_MAX"
  shows "\<exists>c' h' a'. sc_json_object_set (SC_JSON_OBJECT ms c h) (sc_string_as_str key) x a =
      (sc_status_ok, SC_JSON_OBJECT (ms @ [(Some (owned_text key), x)]) c' h', a') \<and>
    json_inv (SC_JSON_OBJECT (ms @ [(Some (owned_text key), x)]) c' h') \<and> generous a'"
proof -
  obtain a1 where str: "sc_string_from_str (sc_string_as_str key) a = (Inr (Some (owned_text key)), a1)" "generous a1"
    using assms(1,5) by (cases key) (auto simp: sc_string_from_str_def generous_alloc SIZE_MAX_def)
  obtain vec a2 where push: "sc_vec_push (object_vec ms c h) (Some (Some (owned_text key), x)) a1 = (sc_status_ok, vec, a2)"
    "generous a2"
    using vec_push_generous [OF str(2), of "object_vec ms c h" "(Some (owned_text key), x)"] assms(2,4)
    by (auto simp: SIZE_MAX_def TEXT_MAX_def SIZEOF_JSON_MEMBER_def)
  have ap: "sc_json_object_set (SC_JSON_OBJECT ms c h) (sc_string_as_str key) x a =
      (sc_status_ok, SC_JSON_OBJECT (items vec) (vcap vec) (vheld vec), a2)"
    using str push by (simp add: sc_json_object_set_def)
  from object_set_spec(1) [OF ap assms(2,3)] ap push(2) show ?thesis by auto
qed


lemma length_text: "doc_ok strtod f j \<Longrightarrow> 1 \<le> length (json_text f j)"
  by (erule text_start) simp

lemma length_members_text: "length ms \<le> length (members_text f ms)"
  by (induction ms) (auto split: prod.splits)

lemma after_last [simp]: "after_element close again v (close # rest) a = Some (Inr v, rest, a)" if "\<not> json_ws close"
  using that by (simp add: after_element_def skip_ws_start json_consume_def Let_def)

lemma after_more:
  assumes "\<not> json_ws c" "close \<noteq> CHR '',''"
  shows "after_element close again v (CHR '','' # c # t) a = again v (c # t) a"
  using assms by (simp add: after_element_def skip_ws_start json_consume_def Let_def)

lemma readsE:
  assumes "reads strtod f j" "generous a" "ends_value rest" "2 * length (json_text f j @ rest) + 1 \<le> n"
    "length (json_text f j @ rest) \<le> TEXT_MAX" "depth + json_depth j \<le> JSON_MAX_DEPTH"
  obtains v a' where "parse_value strtod n depth (json_text f j @ rest) a = Some (Inr v, rest, a')"
    "json_view v = j" "json_inv v" "generous a'"
proof -
  have "\<exists>v a'. parse_value strtod n depth (json_text f j @ rest) a = Some (Inr v, rest, a') \<and>
      json_view v = j \<and> json_inv v \<and> generous a'"
    using assms(1) [unfolded reads_def, rule_format, of a rest n depth] assms(2-) by simp
  with that show thesis by blast
qed

text \<open>One round of each loop on a printed element.\<close>

lemma array_round:
  assumes "doc_ok strtod f j" "reads strtod f j" "depth + json_depth j \<le> JSON_MAX_DEPTH" "generous a"
    and "json_inv (SC_JSON_ARRAY xs c h)" "length xs < JSON_MAX_ARRAY_ITEMS" "ends_value tail"
    and "2 * length (json_text f j @ tail) + 1 \<le> m" "length (json_text f j @ tail) \<le> TEXT_MAX"
  obtains v c' h' a' where "array_loop strtod (Suc m) depth (SC_JSON_ARRAY xs c h) (json_text f j @ tail) a =
      after_element (CHR '']'') (\<lambda>v t h. array_loop strtod m depth v t h) (SC_JSON_ARRAY (xs @ [v]) c' h') tail a'"
    "json_inv (SC_JSON_ARRAY (xs @ [v]) c' h')" "json_view v = j" "generous a'"
proof -
  obtain v a1 where pv: "parse_value strtod m depth (json_text f j @ tail) a = Some (Inr v, tail, a1)"
    and v: "json_view v = j" "json_inv v" "generous a1"
    using readsE [OF assms(2,4,7,8,9,3)] by metis
  obtain c' h' a2 where ap: "sc_json_array_append (SC_JSON_ARRAY xs c h) v a1 =
      (sc_status_ok, SC_JSON_ARRAY (xs @ [v]) c' h', a2)" "json_inv (SC_JSON_ARRAY (xs @ [v]) c' h')" "generous a2"
    using array_append_generous [OF v(3) assms(5) v(2) assms(6)] by auto
  have "json_text f j \<noteq> []" using length_text [OF assms(1)] by auto
  with pv ap(1) assms(6) show thesis
    by (intro that [OF _ ap(2) v(1) ap(3)]) (simp add: sc_json_array_len_def)
qed

lemma quoted_length: "length s + 2 \<le> length (quoted s)"
proof -
  have "length s \<le> length (concat (map mjson_escaped s))"
    by (induction s) (auto simp: mjson_escaped_def)
  then show ?thesis by (simp add: quoted_def)
qed

lemma owned_text_len: "string_len s = length (owned_text s)"
  by (cases s) simp_all

lemma object_round:
  assumes "doc_ok strtod f j" "reads strtod f j" "depth + json_depth j \<le> JSON_MAX_DEPTH" "generous a"
    and "json_inv (SC_JSON_OBJECT xs c h)" "length xs \<le> TEXT_MAX" "ends_value tail"
    and "2 * length (json_text f j @ tail) + 1 \<le> m" "length (quoted k @ '':'' @ json_text f j @ tail) \<le> TEXT_MAX"
  obtains v c' h' a' where "object_loop strtod (Suc m) depth (SC_JSON_OBJECT xs c h) (quoted k @ '':'' @ json_text f j @ tail) a =
      after_element (CHR ''}'') (\<lambda>v t h. object_loop strtod m depth v t h) (SC_JSON_OBJECT (xs @ [(Some k, v)]) c' h') tail a'"
    "json_inv (SC_JSON_OBJECT (xs @ [(Some k, v)]) c' h')" "json_view v = j" "generous a'"
proof -
  let ?u = "json_text f j @ tail"
  have k: "length k < SIZE_MAX" using assms(9) quoted_length [of k] by (simp add: TEXT_MAX_def SIZE_MAX_def)
  then obtain key a0 where key: "parse_string (quoted k @ '':'' @ ?u) a = (Inr key, '':'' @ ?u, a0)"
      "owned_text key = k" "generous a0"
    using parse_string_quoted [OF assms(4), of k "'':'' @ ?u"] by blast
  have len: "length ?u \<le> TEXT_MAX" using assms(9) by simp
  obtain v a1 where pv: "parse_value strtod m depth ?u a0 = Some (Inr v, tail, a1)"
    and v: "json_view v = j" "json_inv v" "generous a1"
    using readsE [OF assms(2) key(3) assms(7,8) len assms(3)] by metis
  have "string_len key < SIZE_MAX" using k key(2) by (simp add: owned_text_len)
  then obtain c' h' a2 where ap: "sc_json_object_set (SC_JSON_OBJECT xs c h) (sc_string_as_str key) v a1 =
      (sc_status_ok, SC_JSON_OBJECT (xs @ [(Some k, v)]) c' h', a2)"
      "json_inv (SC_JSON_OBJECT (xs @ [(Some k, v)]) c' h')" "generous a2"
    using object_set_generous [OF v(3) assms(5) v(2) assms(6)] key(2) by metis
  have "quoted k @ w \<noteq> []" "hd (quoted k @ w) = CHR 0x22" for w by (simp_all add: quoted_def)
  with key(1) pv ap(1) show thesis
    by (intro that [where a' = "sc_string_clear key a2", OF _ ap(2) v(1)]) (simp_all add: skip_ws_start json_consume_def Let_def ap(3))
qed

lemma array_loop_reads:
  assumes "\<forall>x \<in> set (j # js). doc_ok strtod f x \<and> reads strtod f x \<and> depth + json_depth x \<le> JSON_MAX_DEPTH"
    and "generous a" "json_inv (SC_JSON_ARRAY xs c h)" "length xs + length (j # js) \<le> JSON_MAX_ARRAY_ITEMS"
    and "2 * length (json_text f j @ items_text f js @ CHR '']'' # rest) + 2 \<le> n"
    and "length (json_text f j @ items_text f js @ CHR '']'' # rest) \<le> TEXT_MAX"
  shows "\<exists>v a'. array_loop strtod n depth (SC_JSON_ARRAY xs c h) (json_text f j @ items_text f js @ CHR '']'' # rest) a =
      Some (Inr v, rest, a') \<and> json_view v = JArray (items_view xs @ j # js) \<and> json_inv v \<and> generous a'"
  using assms
proof (induction js arbitrary: j xs c h n a)
  case Nil
  obtain m where n: "n = Suc m" "2 * length (json_text f j @ CHR '']'' # rest) + 1 \<le> m"
    using Nil.prems(5) by (cases n) auto
  obtain v c' h' a' where "array_loop strtod (Suc m) depth (SC_JSON_ARRAY xs c h) (json_text f j @ CHR '']'' # rest) a =
      after_element (CHR '']'') (\<lambda>v t h. array_loop strtod m depth v t h) (SC_JSON_ARRAY (xs @ [v]) c' h') (CHR '']'' # rest) a'"
    "json_inv (SC_JSON_ARRAY (xs @ [v]) c' h')" "json_view v = j" "generous a'"
    using Nil.prems n by (elim array_round [rotated 7, where tail = "CHR '']'' # rest"]) auto
  with n(1) show ?case by simp
next
  case (Cons k ks)
  let ?t = "json_text f k @ items_text f ks @ CHR '']'' # rest"
  obtain m where n: "n = Suc m" "2 * length (json_text f j @ CHR '','' # ?t) + 1 \<le> m"
    using Cons.prems(5) by (cases n) auto
  obtain v c' h' a' where round: "array_loop strtod (Suc m) depth (SC_JSON_ARRAY xs c h) (json_text f j @ CHR '','' # ?t) a =
      after_element (CHR '']'') (\<lambda>v t h. array_loop strtod m depth v t h) (SC_JSON_ARRAY (xs @ [v]) c' h') (CHR '','' # ?t) a'"
    "json_inv (SC_JSON_ARRAY (xs @ [v]) c' h')" "json_view v = j" "generous a'"
    using Cons.prems n by (elim array_round [rotated 7, where tail = "CHR '','' # ?t"]) auto
  obtain ch u where "json_text f k = ch # u" "\<not> json_ws ch" using text_start Cons.prems(1) by (metis list.set_intros)
  with round(1) have step: "array_loop strtod n depth (SC_JSON_ARRAY xs c h) (json_text f j @ CHR '','' # ?t) a =
      array_loop strtod m depth (SC_JSON_ARRAY (xs @ [v]) c' h') ?t a'" by (simp add: n(1) after_more)
  have "\<exists>w a2. array_loop strtod m depth (SC_JSON_ARRAY (xs @ [v]) c' h') ?t a' = Some (Inr w, rest, a2) \<and>
      json_view w = JArray (items_view (xs @ [v]) @ k # ks) \<and> json_inv w \<and> generous a2"
    using Cons.prems n by (intro Cons.IH round) auto
  with step round(3) show ?case by simp
qed

lemma object_loop_reads:
  assumes "\<forall>(i, x) \<in> set ((k, j) # ms). doc_ok strtod f x \<and> reads strtod f x \<and> depth + json_depth x \<le> JSON_MAX_DEPTH"
    and "generous a" "json_inv (SC_JSON_OBJECT xs c h)" "length xs + length ms \<le> TEXT_MAX"
    and "2 * length (quoted k @ '':'' @ json_text f j @ members_text f ms @ CHR ''}'' # rest) + 2 \<le> n"
    and "length (quoted k @ '':'' @ json_text f j @ members_text f ms @ CHR ''}'' # rest) \<le> TEXT_MAX"
  shows "\<exists>v a'. object_loop strtod n depth (SC_JSON_OBJECT xs c h)
        (quoted k @ '':'' @ json_text f j @ members_text f ms @ CHR ''}'' # rest) a = Some (Inr v, rest, a') \<and>
      json_view v = JObject (members_view xs @ (k, j) # ms) \<and> json_inv v \<and> generous a'"
  using assms
proof (induction ms arbitrary: k j xs c h n a)
  case Nil
  obtain m where n: "n = Suc m" "2 * length (json_text f j @ CHR ''}'' # rest) + 1 \<le> m"
    using Nil.prems(5) by (cases n) auto
  obtain v c' h' a' where "object_loop strtod (Suc m) depth (SC_JSON_OBJECT xs c h)
        (quoted k @ '':'' @ json_text f j @ CHR ''}'' # rest) a =
      after_element (CHR ''}'') (\<lambda>v t h. object_loop strtod m depth v t h) (SC_JSON_OBJECT (xs @ [(Some k, v)]) c' h')
        (CHR ''}'' # rest) a'"
    "json_inv (SC_JSON_OBJECT (xs @ [(Some k, v)]) c' h')" "json_view v = j" "generous a'"
    using Nil.prems n by (elim object_round [rotated 7, where tail = "CHR ''}'' # rest"]) auto
  with n(1) show ?case by simp
next
  case (Cons q ms)
  obtain k' j' where q: "q = (k', j')" by (cases q)
  let ?t = "quoted k' @ '':'' @ json_text f j' @ members_text f ms @ CHR ''}'' # rest"
  obtain m where n: "n = Suc m" "2 * length (json_text f j @ CHR '','' # ?t) + 1 \<le> m"
    using Cons.prems(5) q by (cases n) auto
  obtain v c' h' a' where round: "object_loop strtod (Suc m) depth (SC_JSON_OBJECT xs c h)
        (quoted k @ '':'' @ json_text f j @ CHR '','' # ?t) a =
      after_element (CHR ''}'') (\<lambda>v t h. object_loop strtod m depth v t h) (SC_JSON_OBJECT (xs @ [(Some k, v)]) c' h')
        (CHR '','' # ?t) a'"
    "json_inv (SC_JSON_OBJECT (xs @ [(Some k, v)]) c' h')" "json_view v = j" "generous a'"
    using Cons.prems n q by (elim object_round [rotated 7, where tail = "CHR '','' # ?t"]) auto
  have step: "object_loop strtod n depth (SC_JSON_OBJECT xs c h) (quoted k @ '':'' @ json_text f j @ CHR '','' # ?t) a =
      object_loop strtod m depth (SC_JSON_OBJECT (xs @ [(Some k, v)]) c' h') ?t a'"
    using round(1) by (simp add: n(1) quoted_def after_more)
  have "\<exists>w a2. object_loop strtod m depth (SC_JSON_OBJECT (xs @ [(Some k, v)]) c' h') ?t a' = Some (Inr w, rest, a2) \<and>
      json_view w = JObject (members_view (xs @ [(Some k, v)]) @ (k', j') # ms) \<and> json_inv w \<and> generous a2"
    using Cons.prems n q by (intro Cons.IH round) auto
  with step round(3) q show ?case by simp
qed

lemma docs_ok_all: "docs_ok strtod f js \<longleftrightarrow> (\<forall>x \<in> set js. doc_ok strtod f x)"
  by (induction js) simp_all

lemma members_ok_all: "members_ok strtod f ms \<longleftrightarrow> (\<forall>(k, x) \<in> set ms. sc_str_is_valid_utf8 (Str k) \<and> doc_ok strtod f x)"
  by (induction ms) auto

lemma items_depth_all: "x \<in> set js \<Longrightarrow> json_depth x < items_depth js"
  by (induction js) auto

lemma members_depth_all: "(k, x) \<in> set ms \<Longrightarrow> json_depth x < members_depth ms"
  by (induction ms) auto

lemma parse_value_start:
  assumes "\<not> json_ws c" "depth \<le> JSON_MAX_DEPTH"
  shows "parse_value strtod (Suc n) depth (c # t) a =
    (if c = CHR ''{'' then parse_object (\<lambda>d v t h. object_loop strtod n d v t h) depth (c # t) a
     else if c = CHR ''['' then parse_array (\<lambda>d v t h. array_loop strtod n d v t h) depth (c # t) a
     else if c = CHR 0x22 then Some (parse_string_value (c # t) a)
     else if c = CHR ''t'' then Some (parse_literal ''true'' (SC_JSON_BOOL True) (c # t) a)
     else if c = CHR ''f'' then Some (parse_literal ''false'' (SC_JSON_BOOL False) (c # t) a)
     else if c = CHR ''n'' then Some (parse_literal ''null'' SC_JSON_NULL (c # t) a)
     else if c = CHR ''-'' \<or> is_digit c then Some (parse_number strtod (c # t) a)
     else Some (parser_error ''sc.json.unexpected_token'', c # t, a))"
  using assms by (simp add: skip_ws_start Let_def)

declare parse_value.simps [simp del]

lemma readsI:
  assumes "\<And>n depth rest a. generous a \<Longrightarrow> ends_value rest \<Longrightarrow> 2 * length (json_text f j @ rest) \<le> n \<Longrightarrow>
      length (json_text f j @ rest) \<le> TEXT_MAX \<Longrightarrow> depth + json_depth j \<le> JSON_MAX_DEPTH \<Longrightarrow>
      \<exists>v a'. parse_value strtod (Suc n) depth (json_text f j @ rest) a = Some (Inr v, rest, a') \<and>
        json_view v = j \<and> json_inv v \<and> generous a'"
  shows "reads strtod f j"
  unfolding reads_def
proof (intro allI impI)
  fix n depth :: nat and rest :: string and a :: sc_allocator
  assume pre: "generous a \<and> ends_value rest \<and> 2 * length (json_text f j @ rest) + 1 \<le> n \<and>
      length (json_text f j @ rest) \<le> TEXT_MAX \<and> depth + json_depth j \<le> JSON_MAX_DEPTH"
  then obtain m where "n = Suc m" "2 * length (json_text f j @ rest) \<le> m" by (cases n) auto
  with pre assms show "\<exists>v a'. parse_value strtod n depth (json_text f j @ rest) a = Some (Inr v, rest, a') \<and>
      json_view v = j \<and> json_inv v \<and> generous a'" by simp
qed

lemma reads_leaf:
  "reads strtod f JNull" "reads strtod f (JBool b)"
  "number_text (f d) \<Longrightarrow> strtod (f d) = Some d \<Longrightarrow> reads strtod f (JNumber d)"
  "reads strtod f (JString s)"
proof -
  show "reads strtod f JNull"
    by (rule readsI) (simp add: parse_value_start parse_literal_def json_alloc_value_def generous_alloc)
  show "reads strtod f (JBool b)"
    by (rule readsI; cases b) (simp_all add: parse_value_start parse_literal_def json_alloc_value_def generous_alloc)
  show "reads strtod f (JString s)"
  proof (rule readsI)
    fix n depth :: nat and rest :: string and a :: sc_allocator
    assume a: "generous a" and len: "length (json_text f (JString s) @ rest) \<le> TEXT_MAX"
      and d: "depth + json_depth (JString s :: 'a json) \<le> JSON_MAX_DEPTH"
    have "length s < SIZE_MAX" using len quoted_length [of s] by (simp add: TEXT_MAX_def SIZE_MAX_def)
    then obtain k a1 where "parse_string (quoted s @ rest) a = (Inr k, rest, a1)" "owned_text k = s" "generous a1"
      using parse_string_quoted [OF a] by blast
    moreover have "quoted s @ rest = CHR 0x22 # tl (quoted s @ rest)" by (simp add: quoted_def)
    ultimately show "\<exists>v a'. parse_value strtod (Suc n) depth (json_text f (JString s) @ rest) a = Some (Inr v, rest, a') \<and>
        json_view v = JString s \<and> json_inv v \<and> generous a'"
      using d parse_value_start [of "CHR 0x22" depth strtod n "tl (quoted s @ rest)" a]
      by (simp add: parse_string_value_def json_alloc_value_def generous_alloc)
  qed
  assume num: "number_text (f d)" "strtod (f d) = Some d"
  show "reads strtod f (JNumber d)"
  proof (rule readsI)
    fix n depth :: nat and rest :: string and a :: sc_allocator
    assume pre: "generous a" "ends_value rest" "depth + json_depth (JNumber d) \<le> JSON_MAX_DEPTH"
    obtain a' where pn: "parse_number strtod (f d @ rest) a = (Inr (SC_JSON_NUMBER d), rest, a')" "generous a'"
      using parse_number_text [where strtod = strtod, OF num pre(2,1)] by blast
    obtain c t where c: "f d = c # t" "c = CHR ''-'' \<or> is_digit c" using num by (cases "f d") (auto simp: number_text_def)
    have "\<not> json_ws c" "c \<noteq> CHR ''{''" "c \<noteq> CHR ''[''" "c \<noteq> CHR 0x22" "c \<noteq> CHR ''t''" "c \<noteq> CHR ''f''" "c \<noteq> CHR ''n''"
      using c(2) digit_not_ws [of c] by (auto simp: is_digit_def)
    then have "parse_value strtod (Suc n) depth (f d @ rest) a = Some (parse_number strtod (f d @ rest) a)"
      using pre(3) c parse_value_start [of c depth strtod n "t @ rest" a] by simp
    with pn show "\<exists>v a'. parse_value strtod (Suc n) depth (json_text f (JNumber d) @ rest) a = Some (Inr v, rest, a') \<and>
        json_view v = JNumber d \<and> json_inv v \<and> generous a'" by simp
  qed
qed

lemma reads_array:
  assumes "\<forall>x \<in> set js. doc_ok strtod f x \<and> reads strtod f x" "length js \<le> JSON_MAX_ARRAY_ITEMS"
  shows "reads strtod f (JArray js)"
proof (rule readsI)
  fix n depth :: nat and rest :: string and a :: sc_allocator
  assume a: "generous a" and n: "2 * length (json_text f (JArray js) @ rest) \<le> n"
    and len: "length (json_text f (JArray js) @ rest) \<le> TEXT_MAX" and d: "depth + json_depth (JArray js) \<le> JSON_MAX_DEPTH"
  obtain a1 where new: "sc_json_array_new a = (Inr (SC_JSON_ARRAY [] 0 False :: 'a sc_json_value), a1)" "generous a1"
    using a by (simp add: sc_json_array_new_def json_alloc_value_def generous_alloc)
  have inv0: "json_inv (SC_JSON_ARRAY [] 0 False :: 'a sc_json_value)"
    by (simp add: array_vec_def vec_inv_def)
  show "\<exists>v a'. parse_value strtod (Suc n) depth (json_text f (JArray js) @ rest) a = Some (Inr v, rest, a') \<and>
      json_view v = JArray js \<and> json_inv v \<and> generous a'"
  proof (cases js)
    case Nil
    with d new inv0 show ?thesis
      by (simp add: parse_value_start parse_array_def json_consume_def skip_ws_start Let_def)
  next
    case (Cons j ks)
    let ?u = "json_text f j @ items_text f ks @ CHR '']'' # rest"
    obtain c t where st: "json_text f j = c # t" "\<not> json_ws c" "c \<noteq> CHR '']''"
      using text_start assms(1) Cons by (metis list.set_intros(1))
    have "parse_value strtod (Suc n) depth (CHR ''['' # ?u) a = array_loop strtod n (depth + 1) (SC_JSON_ARRAY [] 0 False) ?u a1"
      using d new(1) st by (simp add: parse_value_start parse_array_def json_consume_def skip_ws_start Let_def)
    moreover have "\<forall>x \<in> set (j # ks). doc_ok strtod f x \<and> reads strtod f x \<and> depth + 1 + json_depth x \<le> JSON_MAX_DEPTH"
      using assms(1) Cons d items_depth_all [of _ js] by fastforce
    then have "\<exists>v a'. array_loop strtod n (depth + 1) (SC_JSON_ARRAY [] 0 False) ?u a1 = Some (Inr v, rest, a') \<and>
        json_view v = JArray (items_view [] @ j # ks) \<and> json_inv v \<and> generous a'"
      using n len assms(2) Cons by (intro array_loop_reads new(2) inv0) auto
    ultimately show ?thesis using Cons by simp
  qed
qed

lemma reads_object:
  assumes "\<forall>(k, x) \<in> set ms. doc_ok strtod f x \<and> reads strtod f x"
  shows "reads strtod f (JObject ms)"
proof (rule readsI)
  fix n depth :: nat and rest :: string and a :: sc_allocator
  assume a: "generous a" and n: "2 * length (json_text f (JObject ms) @ rest) \<le> n"
    and len: "length (json_text f (JObject ms) @ rest) \<le> TEXT_MAX" and d: "depth + json_depth (JObject ms) \<le> JSON_MAX_DEPTH"
  obtain a1 where new: "sc_json_object_new a = (Inr (SC_JSON_OBJECT [] 0 False :: 'a sc_json_value), a1)" "generous a1"
    using a by (simp add: sc_json_object_new_def json_alloc_value_def generous_alloc)
  have inv0: "json_inv (SC_JSON_OBJECT [] 0 False :: 'a sc_json_value)"
    by (simp add: object_vec_def vec_inv_def SIZEOF_JSON_MEMBER_def)
  show "\<exists>v a'. parse_value strtod (Suc n) depth (json_text f (JObject ms) @ rest) a = Some (Inr v, rest, a') \<and>
      json_view v = JObject ms \<and> json_inv v \<and> generous a'"
  proof (cases ms)
    case Nil
    with d new inv0 show ?thesis
      by (simp add: parse_value_start parse_object_def json_consume_def skip_ws_start Let_def)
  next
    case (Cons q ns)
    obtain k j where q: "q = (k, j)" by (cases q)
    let ?u = "quoted k @ '':'' @ json_text f j @ members_text f ns @ CHR ''}'' # rest"
    have "parse_value strtod (Suc n) depth (CHR ''{'' # ?u) a = object_loop strtod n (depth + 1) (SC_JSON_OBJECT [] 0 False) ?u a1"
      using d new(1) by (simp add: parse_value_start parse_object_def json_consume_def skip_ws_start Let_def quoted_def)
    moreover have "\<forall>(i, x) \<in> set ((k, j) # ns). doc_ok strtod f x \<and> reads strtod f x \<and> depth + 1 + json_depth x \<le> JSON_MAX_DEPTH"
      using assms(1) Cons q d members_depth_all [of _ _ ms] by fastforce
    then have "\<exists>v a'. object_loop strtod n (depth + 1) (SC_JSON_OBJECT [] 0 False) ?u a1 = Some (Inr v, rest, a') \<and>
        json_view v = JObject (members_view [] @ (k, j) # ns) \<and> json_inv v \<and> generous a'"
      using n len Cons q length_members_text [of ns f] by (intro object_loop_reads new(2) inv0) auto
    ultimately show ?thesis using Cons q by simp
  qed
qed

lemma reads_all: "doc_ok strtod f j \<Longrightarrow> reads strtod f j"
proof (induction j)
  case (JArray js)
  then show ?case by (intro reads_array) (auto simp: docs_ok_all)
next
  case (JObject ms)
  then show ?case by (intro reads_object) (fastforce simp: members_ok_all)
qed (auto intro: reads_leaf)

subsection \<open>The printed text is UTF-8\<close>

lemma valid_ascii:
  "\<forall>c \<in> set t. (of_char c :: nat) < 128 \<Longrightarrow> utf8_valid (byte_values (t @ u)) = utf8_valid (byte_values u)"
  by (induction t) (simp_all add: byte_values_def valid1)

lemma escaped_high: "128 \<le> (of_char c :: nat) \<Longrightarrow> mjson_escaped c = [c]"
  by (auto simp: mjson_escaped_def)

lemma hex_digit_ascii: "n < 16 \<Longrightarrow> (of_char (mjson_hex_digit n) :: nat) < 128"
proof -
  assume "n < 16"
  then have "n \<in> set [0..<16]" by simp
  moreover have "list_all (\<lambda>n. (of_char (mjson_hex_digit n) :: nat) < 128) [0..<16]" by code_simp
  ultimately show ?thesis by (simp add: list_all_iff)
qed

lemma escaped_ascii: "(of_char c :: nat) < 128 \<Longrightarrow> \<forall>x \<in> set (mjson_escaped c). (of_char x :: nat) < 128"
  by (auto simp: mjson_escaped_def hex_digit_ascii div_less_iff_less_mult)

lemma escaped_encoding:
  assumes "utf8_encode cp = Some e" "unicode_scalar cp" "map of_char s = e"
  shows "utf8_valid (byte_values (concat (map mjson_escaped s) @ u)) = utf8_valid (byte_values u)"
proof (cases "cp < 128")
  case True
  then have "\<forall>c \<in> set s. (of_char c :: nat) < 128" using assms(1,3) by (auto simp: utf8_encode_def)
  then have "\<forall>c \<in> set (concat (map mjson_escaped s)). (of_char c :: nat) < 128" using escaped_ascii by auto
  then show ?thesis by (rule valid_ascii)
next
  case False
  then have "\<forall>b \<in> set e. 128 \<le> b" using utf8_encode_arith assms(1,2) by (auto split: if_splits)
  then have "concat (map mjson_escaped s) = s" using assms(3) by (induction s arbitrary: e) (auto simp: escaped_high)
  then show ?thesis using valid_encode [OF assms(2,1)] assms(3) by (simp add: byte_values_def)
qed

lemma valid_string_text:
  assumes "sc_str_is_valid_utf8 (Str s)"
  shows "utf8_valid (byte_values (concat (map mjson_escaped s) @ u)) = utf8_valid (byte_values u)"
proof -
  have "utf8_text cps = Some (byte_values s) \<Longrightarrow> ?thesis" for cps
  proof (induction cps arbitrary: s)
    case Nil
    then show ?case by (simp add: utf8_text_def byte_values_def)
  next
    case (Cons cp cps)
    then have "unicode_scalar cp" by (simp add: utf8_text_def split: if_splits)
    then obtain e where e: "unicode_scalar cp" "utf8_encode cp = Some e"
      using utf8_encode_scalar by blast
    then obtain bs where "utf8_text cps = Some bs" "byte_values s = e @ bs"
      using Cons.prems by (auto simp: utf8_text_Cons)
    then obtain s1 s2 where "s = s1 @ s2" "map of_char s1 = e" "byte_values s2 = bs"
      by (auto simp: byte_values_def map_eq_append_conv)
    with Cons.IH [of s2] \<open>utf8_text cps = Some bs\<close> escaped_encoding [OF e(2,1)] show ?case by simp
  qed
  moreover obtain cps where "utf8_text cps = Some (byte_values s)"
    using utf8_valid_text [of "byte_values s"] assms byte_values_bounded by (auto simp: sc_str_is_valid_utf8_def)
  ultimately show ?thesis by blast
qed

lemma valid_char: "(of_char c :: nat) < 128 \<Longrightarrow> utf8_valid (byte_values (c # u)) = utf8_valid (byte_values u)"
  using valid_ascii [of "[c]" u] by simp

lemma valid_quoted:
  "sc_str_is_valid_utf8 (Str s) \<Longrightarrow> utf8_valid (byte_values (quoted s @ u)) = utf8_valid (byte_values u)"
  by (simp add: quoted_def valid_char valid_string_text)

definition ascii :: "string \<Rightarrow> bool" where
  "ascii t \<longleftrightarrow> (\<forall>c \<in> set t. (of_char c :: nat) < 128)"

lemma ascii_simps [simp]: "ascii []" "ascii (c # t) \<longleftrightarrow> (of_char c :: nat) < 128 \<and> ascii t" "ascii (s @ t) \<longleftrightarrow> ascii s \<and> ascii t"
  by (auto simp: ascii_def)

lemma ascii_dropWhile: "ascii (dropWhile is_digit t) \<longleftrightarrow> ascii t"
proof -
  have "ascii (takeWhile is_digit t)"
    unfolding ascii_def by (auto dest!: set_takeWhileD simp: is_digit_def)
  then show ?thesis using ascii_simps(3) [of "takeWhile is_digit t" "dropWhile is_digit t"] by simp
qed

lemma ascii_number: "number_text t \<Longrightarrow> ascii t"
proof -
  assume "number_text t"
  then have "drop_exponent (drop_fraction (dropWhile is_digit (drop_sign t))) = []"
    by (simp add: number_text_def number_span_def Let_def)
  moreover have "ascii (drop_sign u) = ascii u" "ascii (drop_fraction u) = ascii u" for u
    by (cases u; simp add: drop_sign_def drop_fraction_def ascii_dropWhile; fail)+
  moreover have "ascii (drop_exponent u) = ascii u" for u
    by (cases u; cases "tl u") (auto simp: drop_exponent_def Let_def ascii_dropWhile)
  ultimately show ?thesis by (metis ascii_simps(1) ascii_dropWhile)
qed

lemma valid_ascii_text: "ascii t \<Longrightarrow> utf8_valid (byte_values (t @ u)) = utf8_valid (byte_values u)"
  unfolding ascii_def by (rule valid_ascii)

lemma valid_json_text:
  "doc_ok strtod f j \<Longrightarrow> utf8_valid (byte_values (json_text f j @ u)) = utf8_valid (byte_values u)"
  "docs_ok strtod f js \<Longrightarrow> utf8_valid (byte_values (items_text f js @ u)) = utf8_valid (byte_values u)"
  "members_ok strtod f ms \<Longrightarrow> utf8_valid (byte_values (members_text f ms @ u)) = utf8_valid (byte_values u)"
  by (induction f j and f js and f ms arbitrary: u and u and u rule: json_text_items_text_members_text.induct)
    (simp_all add: valid_char valid_quoted valid_ascii_text ascii_number)

section \<open>The round trip\<close>

lemma parse_printed:
  assumes "generous a" "doc_ok strtod f j" "json_depth j \<le> JSON_MAX_DEPTH" "length (json_text f j) \<le> TEXT_MAX"
  shows "\<exists>v a'. sc_json_parse strtod (Str (json_text f j)) a = Some (Inr v, json_error_zero, a') \<and>
    json_view v = j \<and> json_inv v \<and> generous a'"
proof -
  let ?t = "json_text f j"
  have "utf8_valid (byte_values ?t)" using valid_json_text(1) [OF assms(2), of "[]"] by (simp add: byte_values_def)
  then have valid: "sc_str_is_valid_utf8 (Str ?t)" by (simp add: sc_str_is_valid_utf8_def)
  have "skip_ws ?t = ?t" using skip_ws_text [OF assms(2), of "[]"] by simp
  moreover obtain v a' where "parse_value strtod (2 * length ?t + 1) 0 (?t @ []) a = Some (Inr v, [], a')"
    "json_view v = j" "json_inv v" "generous a'"
    using readsE [OF reads_all [OF assms(2)] assms(1), of "[]" "2 * length ?t + 1" 0] assms(3,4) by auto
  ultimately show ?thesis
    using valid by (simp add: sc_json_parse_def skip_ws_def Let_def)
qed

end
