(* ===== verification/SC_Json_Memory.thy ===== *)
theory SC_Json_Memory
  imports SC_Json_Print
begin

text \<open>
  The JSON parser with an allocator that refuses nothing: on a text of a length that keeps every size in range it
  never reports a refused allocation, so by the accounting of \<open>SC_Json_Parse\<close> a failed parse holds nothing.
\<close>

section \<open>Operations keep an allocator that refuses nothing\<close>

lemma generous_alloc_out: "sc_alloc n a = (ok, a') \<Longrightarrow> generous a' = generous a"
  by (auto simp: sc_alloc_def split: option.splits if_splits)

lemma generous_realloc_out: "sc_realloc had n a = (ok, a') \<Longrightarrow> generous a' = generous a"
  by (auto simp: sc_realloc_def split: option.splits if_splits)

lemma generous_string_out: "sc_string_from_str s a = (r, a') \<Longrightarrow> generous a' = generous a"
  by (auto simp: sc_string_from_str_def split: if_splits prod.splits dest: generous_alloc_out)

lemma generous_push_out: "sc_vec_push v x a = (st, v', a') \<Longrightarrow> generous a' = generous a"
  by (auto simp: sc_vec_push_def sc_vec_reserve_def Let_def split: if_splits prod.splits option.splits
      dest: generous_realloc_out)

lemma generous_vec_clear [simp]: "generous (snd (sc_vec_clear v a)) = generous a"
  by (simp add: sc_vec_clear_def)

lemma generous_ptr_vec_clear [simp]: "generous (snd (sc_ptr_vec_clear v a)) = generous a"
  by (simp add: sc_ptr_vec_clear_def)

lemma generous_json_alloc_out: "json_alloc_value v a = (r, a') \<Longrightarrow> generous a' = generous a"
  by (auto simp: json_alloc_value_def split: prod.splits bool.splits dest: generous_alloc_out)

lemma generous_json_destroy [simp]:
  fixes v :: "'d sc_json_value" and xs :: "'d sc_json_value list" and ms :: "'d json_member list"
  shows "generous (sc_json_destroy v a) = generous a" "generous (destroy_items xs a) = generous a"
    "generous (destroy_members ms a) = generous a"
  by (induction v and xs and ms arbitrary: a and a and a rule: json_blocks_items_blocks_members_blocks.induct)
    simp_all

lemma generous_object_set_out: "sc_json_object_set v k x a = (st, v', a') \<Longrightarrow> generous a' = generous a"
  by (auto simp: sc_json_object_set_def split: sc_json_value.splits prod.splits sum.splits if_splits
      dest!: generous_string_out generous_push_out)

lemma generous_array_append_out: "sc_json_array_append v x a = (st, v', a') \<Longrightarrow> generous a' = generous a"
  by (auto simp: sc_json_array_append_def sc_ptr_vec_push_def split: sc_json_value.splits prod.splits if_splits
      dest!: generous_push_out)

lemma generous_json_clone_out:
  fixes v :: "'d sc_json_value" and xs :: "'d sc_json_value list" and ms :: "'d json_member list"
  shows "sc_json_clone v a = (r, a') \<Longrightarrow> generous a' = generous a"
    "clone_items xs t a = (st, t', a') \<Longrightarrow> generous a' = generous a"
    "clone_members ms t a = (st, t', a') \<Longrightarrow> generous a' = generous a"
  by (induction v and xs and ms arbitrary: a r a' and t a st t' a' and t a st t' a'
      rule: json_blocks_items_blocks_members_blocks.induct)
    (fastforce split: prod.splits sum.splits if_splits
      dest!: generous_json_alloc_out generous_string_out generous_object_set_out generous_array_append_out)+

lemma generous_builder_out: "sc_string_builder_append b s a = (st, b', a') \<Longrightarrow> generous a' = generous a"
  by (auto simp: sc_string_builder_append_def sc_bytes_append_def sc_bytes_reserve_def Let_def
      split: if_splits prod.splits option.splits dest!: generous_realloc_out)

lemma generous_builder_clear [simp]: "generous (snd (sc_string_builder_clear b a)) = generous a"
  by (simp add: sc_string_builder_clear_def sc_bytes_clear_def)

section \<open>Strings\<close>

lemma json_hex4_exact: "json_hex4 n acc s = (Some v, s') \<Longrightarrow> length s = length s' + n"
  by (induction n acc s rule: json_hex4.induct) (auto split: option.splits)

lemma unicode_escape_exact: "parse_unicode_escape s = (Inr cp, s') \<Longrightarrow> length s' + 4 \<le> length s"
  by (auto simp: parse_unicode_escape_def split: if_splits prod.splits option.splits dest!: json_hex4_exact)

lemma unicode_escape_not_memory: "parse_unicode_escape s = (Inl e, s') \<Longrightarrow> code e = SC_ERR_PARSE"
  by (auto simp: parse_unicode_escape_def split: if_splits prod.splits option.splits)

lemma utf8_encode_length: "utf8_encode cp = Some bs \<Longrightarrow> length bs \<le> 4"
  by (auto simp: utf8_encode_def split: if_splits)

text \<open>
  The outcome of reading a string from \<open>L\<close> bytes when nothing is refused: no error is a refusal, the allocator still
  refuses nothing, and the string is no longer than what was read.
\<close>

definition string_fed :: "nat \<Rightarrow> string_state \<Rightarrow> bool" where
  "string_fed L out \<longleftrightarrow> (case out of (r, s', a') \<Rightarrow>
     generous a' \<and> (case r of Inl e \<Rightarrow> code e \<noteq> SC_ERR_NO_MEMORY | Inr k \<Rightarrow> string_len k \<le> L))"

lemma string_feed_step:
  assumes "generous a" "bytes_inv b" "length (contents b) + length p + length t \<le> L" "L \<le> TEXT_MAX"
    and "\<And>b' a'. generous a' \<Longrightarrow> bytes_inv b' \<Longrightarrow> contents b' = contents b @ p \<Longrightarrow> string_fed L (string_loop t b' a')"
  shows "string_fed L (case sc_string_builder_append b (Str p) a of
      (st, b', a') \<Rightarrow> (if \<not> sc_status_is_ok st then (Inl st, t, snd (sc_string_builder_clear b' a')) else string_loop t b' a'))"
proof -
  have "length (contents b) + length p < SIZE_MAX" using assms(3,4) by (simp add: TEXT_MAX_def SIZE_MAX_def)
  then obtain b' a' where "sc_string_builder_append b (Str p) a = (sc_status_ok, b', a')" "bytes_inv b'"
    "contents b' = contents b @ p" "generous a'"
    using builder_append_generous [OF assms(1,2)] by blast
  with assms(5) show ?thesis by simp
qed

lemma string_loop_fed:
  "generous a \<Longrightarrow> bytes_inv b \<Longrightarrow> length (contents b) + length s \<le> L \<Longrightarrow> L \<le> TEXT_MAX \<Longrightarrow> string_fed L (string_loop s b a)"
proof (induction "length s" arbitrary: s b a rule: less_induct)
  case less
  have step: "string_fed L (case sc_string_builder_append b (Str p) a of
      (st, b', a') \<Rightarrow> (if \<not> sc_status_is_ok st then (Inl st, t, snd (sc_string_builder_clear b' a')) else string_loop t b' a'))"
    if "length p + length t \<le> length s" "length t < length s" for p t
    by (rule string_feed_step) (use less that in auto)
  show ?case
  proof (cases s)
    case Nil
    with less show ?thesis by (simp add: string_fed_def)
  next
    case (Cons ch s1)
    show ?thesis
    proof (cases "ch = CHR 0x5C")
      case False
      have "string_len (fst (sc_string_builder_finish b)) \<le> L"
        using less.prems(3) by (simp add: sc_string_builder_finish_def)
      with False Cons step [of "[ch]" s1] less.prems(1) show ?thesis by (simp add: string_fed_def)
    next
      case True
      show ?thesis
      proof (cases s1)
        case Nil
        with True Cons less.prems(1) show ?thesis by (simp add: string_fed_def)
      next
        case s2: (Cons e s2)
        show ?thesis
        proof (cases "json_escape e")
          case (Some c)
          with step [of "[c]" s2] True Cons s2 show ?thesis by simp
        next
          case none: None
          obtain r s3 where u: "parse_unicode_escape s2 = (r, s3)" by (cases "parse_unicode_escape s2")
          show ?thesis
          proof (cases r)
            case (Inl err)
            with u unicode_escape_not_memory none True Cons s2 less.prems(1) show ?thesis by (auto simp: string_fed_def)
          next
            case (Inr cp)
            note len = unicode_escape_exact [OF u [unfolded Inr]]
            show ?thesis
            proof (cases "utf8_encode cp")
              case None
              with u Inr none True Cons s2 less.prems(1) show ?thesis
                by (simp add: string_fed_def append_utf8_codepoint_def)
            next
              case (Some bs)
              have "length (map char_of bs) + length s3 \<le> length s" "length s3 < length s"
                using utf8_encode_length [OF Some] len Cons s2 by auto
              from step [OF this] u Inr Some none True Cons s2 less.prems(1) show ?thesis
                by (simp add: append_utf8_codepoint_def string_fed_def)
            qed
          qed
        qed
      qed
    qed
  qed
qed

lemma parse_string_fed:
  assumes "generous a" "length s \<le> TEXT_MAX"
  shows "string_fed (length s) (parse_string s a)"
proof (cases "s \<noteq> [] \<and> hd s = CHR 0x22")
  case True
  have "string_fed (length s) (string_loop (tl s) sc_string_builder_init a)"
    by (rule string_loop_fed)
      (use assms in \<open>auto simp: sc_string_builder_init_def sc_bytes_init_def bytes_zero_def bytes_inv_def\<close>)
  with True show ?thesis by (simp add: parse_string_def json_consume_def)
next
  case False
  with assms(1) show ?thesis by (auto simp: parse_string_def json_consume_def string_fed_def)
qed

section \<open>Values\<close>

definition fed :: "'d parse_state option \<Rightarrow> bool" where
  "fed out \<longleftrightarrow> (case out of None \<Rightarrow> True
   | Some (r, s', a') \<Rightarrow> generous a' \<and> (\<forall>e. r = Inl e \<longrightarrow> code e \<noteq> SC_ERR_NO_MEMORY))"

lemma leaf_fed:
  assumes "generous a" "length s \<le> TEXT_MAX"
  shows "fed (Some (parse_string_value s a :: 'd parse_state))" "fed (Some (parse_number strtod s a))"
    "fed (Some (parse_literal lit v s a))"
proof -
  obtain r s1 a1 where str: "parse_string s a = (r, s1, a1)" by (cases "parse_string s a")
  note ps = parse_string_fed [OF assms, unfolded str]
  show "fed (Some (parse_string_value s a :: 'd parse_state))"
    using ps str by (cases r) (auto simp: parse_string_value_def fed_def string_fed_def json_alloc_value_def generous_alloc)
  show "fed (Some (parse_number strtod s a))"
    using assms(1) by (auto simp: parse_number_def fed_def sc_json_number_new_def json_alloc_value_def generous_alloc
        split: prod.splits option.splits)
  show "fed (Some (parse_literal lit v s a))"
    using assms(1) by (auto simp: parse_literal_def fed_def json_alloc_value_def generous_alloc)
qed

lemma after_element_fed:
  assumes "generous a" "length s \<le> L" "\<And>t. length t < L \<Longrightarrow> fed (again v t a)"
  shows "fed (after_element close again v s a)"
proof -
  obtain b s2 where cl: "json_consume close (skip_ws s) = (b, s2)" by (cases "json_consume close (skip_ws s)")
  obtain b' s3 where co: "json_consume (CHR '','') (skip_ws s) = (b', s3)" by (cases "json_consume (CHR '','') (skip_ws s)")
  have "b' \<Longrightarrow> length (skip_ws s3) < L"
    using co skip_ws_length [of s] skip_ws_length [of s3] assms(2)
    by (cases "skip_ws s") (auto simp: json_consume_def split: if_splits)
  with cl co assms(1,3) show ?thesis by (cases b; cases b') (auto simp: after_element_def fed_def)
qed

lemma array_round_fed:
  assumes inv: "json_inv (SC_JSON_ARRAY xs c h)" and a: "generous a"
    and val: "\<And>a1. parsed 0 (length s) a1 (parse_value strtod n depth s a1)"
    and fv: "\<And>a1. generous a1 \<Longrightarrow> fed (parse_value strtod n depth s a1)"
    and again: "\<And>ys c h t a1. json_inv (SC_JSON_ARRAY ys c h) \<Longrightarrow> generous a1 \<Longrightarrow> length t < length s \<Longrightarrow>
      fed (array_loop strtod n depth (SC_JSON_ARRAY ys c h) t a1)"
  shows "fed (array_loop strtod (Suc n) depth (SC_JSON_ARRAY xs c h) s a)"
proof (cases "s = [] \<or> length xs \<ge> JSON_MAX_ARRAY_ITEMS")
  case True
  with a show ?thesis by (auto simp: fed_def sc_json_array_len_def)
next
  case room: False
  obtain r s1 a1 where v: "parse_value strtod n depth s a = Some (r, s1, a1)"
    using val [of a] by (auto simp: parsed_def split: option.splits)
  note f = fv [OF a, unfolded v]
  show ?thesis
  proof (cases r)
    case (Inl e)
    with v f room show ?thesis by (auto simp: fed_def sc_json_array_len_def)
  next
    case (Inr x)
    have x: "json_inv x" "length s1 < length s" "generous a1" using val [of a] v f Inr by (auto simp: parsed_def fed_def)
    obtain c' h' a2 where ap: "sc_json_array_append (SC_JSON_ARRAY xs c h) x a1 = (sc_status_ok, SC_JSON_ARRAY (xs @ [x]) c' h', a2)"
        "json_inv (SC_JSON_ARRAY (xs @ [x]) c' h')" "generous a2"
      using array_append_generous [OF x(3) inv x(1)] room by auto
    have "fed (after_element (CHR '']'') (\<lambda>v t h. array_loop strtod n depth v t h) (SC_JSON_ARRAY (xs @ [x]) c' h') s1 a2)"
      by (rule after_element_fed [where L = "length s"]) (use again [OF ap(2,3)] ap(3) x(2) in auto)
    with v Inr ap(1) room show ?thesis by (simp add: sc_json_array_len_def)
  qed
qed

lemma object_round_fed:
  assumes inv: "json_inv (SC_JSON_OBJECT ms c h)" and a: "generous a" and size: "length ms + length s \<le> TEXT_MAX"
    and val: "\<And>t a1. length t < length s \<Longrightarrow> parsed 0 (length t) a1 (parse_value strtod n depth t a1)"
    and fv: "\<And>t a1. length t < length s \<Longrightarrow> generous a1 \<Longrightarrow> fed (parse_value strtod n depth t a1)"
    and again: "\<And>ns c h t a1. json_inv (SC_JSON_OBJECT ns c h) \<Longrightarrow> generous a1 \<Longrightarrow> length t < length s \<Longrightarrow>
      length ns + length t \<le> TEXT_MAX \<Longrightarrow> fed (object_loop strtod n depth (SC_JSON_OBJECT ns c h) t a1)"
  shows "fed (object_loop strtod (Suc n) depth (SC_JSON_OBJECT ms c h) s a)"
proof (cases "s = [] \<or> hd s \<noteq> CHR 0x22")
  case True
  with a show ?thesis by (auto simp: fed_def)
next
  case start: False
  obtain r s1 a1 where str: "parse_string s a = (r, s1, a1)" by (cases "parse_string s a")
  note ps = parse_string_spec [of s a, unfolded str]
  have fs: "string_fed (length s) (r, s1, a1)" using parse_string_fed [OF a, of s] str size by simp
  show ?thesis
  proof (cases r)
    case (Inl e)
    with str fs start show ?thesis by (auto simp: fed_def string_fed_def)
  next
    case (Inr key)
    with ps fs have key: "length s1 < length s" "generous a1" "string_len key \<le> length s"
      by (auto simp: string_read_def string_fed_def)
    obtain b s3 where co: "json_consume (CHR '':'') (skip_ws s1) = (b, s3)" by (cases "json_consume (CHR '':'') (skip_ws s1)")
    from co show ?thesis
    proof (cases rule: consume_cases)
      case 2
      with str Inr co start key show ?thesis by (simp add: fed_def)
    next
      case 1
      have "length s3 < length (skip_ws s1)" using 1 by simp
      with skip_ws_length [of s1] key have s3: "length s3 < length s" by linarith
      obtain r2 s4 a2 where v: "parse_value strtod n depth s3 a1 = Some (r2, s4, a2)"
        using val [OF s3, of a1] by (auto simp: parsed_def split: option.splits)
      note f = fv [OF s3 key(2), unfolded v]
      show ?thesis
      proof (cases r2)
        case err: (Inl e)
        with str Inr co 1 v f start show ?thesis by (auto simp: fed_def)
      next
        case val': (Inr x)
        have x: "json_inv x" "length s4 < length s" "generous a2" using val [OF s3, of a1] v f val' s3 by (auto simp: parsed_def fed_def)
        have "length ms \<le> TEXT_MAX" "string_len key < SIZE_MAX" using size key(3) by (auto simp: TEXT_MAX_def SIZE_MAX_def)
        then obtain c' h' a3 where ap: "sc_json_object_set (SC_JSON_OBJECT ms c h) (sc_string_as_str key) x a2 =
            (sc_status_ok, SC_JSON_OBJECT (ms @ [(Some (owned_text key), x)]) c' h', a3)"
            "json_inv (SC_JSON_OBJECT (ms @ [(Some (owned_text key), x)]) c' h')" "generous a3"
          using object_set_generous [OF x(3) inv x(1)] by blast
        have "fed (after_element (CHR ''}'') (\<lambda>v t h. object_loop strtod n depth v t h)
            (SC_JSON_OBJECT (ms @ [(Some (owned_text key), x)]) c' h') s4 (sc_string_clear key a3))"
          by (rule after_element_fed [where L = "length s"]) (use again [OF ap(2)] ap(3) x(2) size in auto)
        with str Inr co 1 v val' ap(1) start show ?thesis by simp
      qed
    qed
  qed
qed

lemma fed_if: "(b \<Longrightarrow> fed x) \<Longrightarrow> (\<not> b \<Longrightarrow> fed y) \<Longrightarrow> fed (if b then x else y)"
  by simp

lemma container_fed:
  assumes "generous a" "\<And>t a1. length t < length s \<Longrightarrow> generous a1 \<Longrightarrow> fed (loop (depth + 1) v0 t a1)" "s = c # u"
    and "out = (case json_alloc_value v0 a of
        (Inl e, a1) \<Rightarrow> Some (Inl e, s, a1)
      | (Inr v, a1) \<Rightarrow>
          (let s1 = skip_ws (snd (json_consume c s)) in
           (case json_consume close s1 of (True, s2) \<Rightarrow> Some (Inr v, s2, a1) | (False, s2) \<Rightarrow> loop (depth + 1) v s1 a1)))"
  shows "fed out"
proof -
  define a1 where "a1 = a\<lparr>requests := Suc (requests a), live := live a + 1\<rparr>"
  have u: "snd (json_consume c s) = u" "length (skip_ws u) < length s"
    using assms(3) skip_ws_length [of u] by (auto simp: json_consume_def)
  have "generous a1" using assms(1) by (simp add: a1_def)
  moreover obtain b s2 where "json_consume close (skip_ws u) = (b, s2)" by (cases "json_consume close (skip_ws u)")
  moreover have "out = (case json_consume close (skip_ws u) of
      (True, s2) \<Rightarrow> Some (Inr v0, s2, a1) | (False, s2) \<Rightarrow> loop (depth + 1) v0 (skip_ws u) a1)"
    unfolding a1_def using assms(1,4) u(1) by (simp add: json_alloc_value_def generous_alloc Let_def)
  ultimately show ?thesis using assms(2) [OF u(2), of a1] by (cases b) (simp_all add: fed_def)
qed

lemma dispatch_fed:
  assumes a: "generous a" and len: "length s0 \<le> TEXT_MAX"
    and obj: "\<And>t a1. length t < length s0 \<Longrightarrow> generous a1 \<Longrightarrow>
      fed (object_loop strtod n (depth + 1) (SC_JSON_OBJECT [] 0 False) t a1)"
    and arr: "\<And>t a1. length t < length s0 \<Longrightarrow> generous a1 \<Longrightarrow>
      fed (array_loop strtod n (depth + 1) (SC_JSON_ARRAY [] 0 False) t a1)"
  shows "fed (parse_value strtod (Suc n) depth s0 a)"
proof -
  define s where "s = skip_ws s0"
  have l: "length s \<le> length s0" by (simp add: s_def skip_ws_length)
  show ?thesis
  proof (cases s)
    case Nil
    with a show ?thesis by (simp add: parse_value.simps s_def [symmetric] fed_def)
  next
    case (Cons c t)
    have o: "c = CHR ''{'' \<Longrightarrow> fed (parse_object (\<lambda>d v t h. object_loop strtod n d v t h) depth s a)"
      by (rule container_fed [OF a _ Cons, where loop = "\<lambda>d v t h. object_loop strtod n d v t h" and close = "CHR ''}''"])
        (use obj l in \<open>auto simp: parse_object_def sc_json_object_new_def\<close>)
    have r: "c = CHR ''['' \<Longrightarrow> fed (parse_array (\<lambda>d v t h. array_loop strtod n d v t h) depth s a)"
      by (rule container_fed [OF a _ Cons, where loop = "\<lambda>d v t h. array_loop strtod n d v t h" and close = "CHR '']''"])
        (use arr l in \<open>auto simp: parse_array_def sc_json_array_new_def\<close>)
    have "length s \<le> TEXT_MAX" using l len by simp
    note leaves = leaf_fed [OF a this]
    have err: "fed (Some (parser_error key, s, a))" for key using a by (simp add: fed_def)
    show ?thesis
      unfolding parse_value.simps Let_def s_def [symmetric] Cons list.case
      unfolding Cons [symmetric]
      by (intro fed_if o r leaves err)
  qed
qed

lemma parser_fed:
  "2 * length s + 1 \<le> n \<Longrightarrow> generous a \<Longrightarrow> length s \<le> TEXT_MAX \<Longrightarrow> fed (parse_value strtod n depth s a)"
  "2 * length s + 2 \<le> n \<Longrightarrow> generous a \<Longrightarrow> json_inv (SC_JSON_OBJECT ms c h) \<Longrightarrow> length ms + length s \<le> TEXT_MAX \<Longrightarrow>
     fed (object_loop strtod n depth (SC_JSON_OBJECT ms c h) s a)"
  "2 * length s + 2 \<le> n \<Longrightarrow> generous a \<Longrightarrow> json_inv (SC_JSON_ARRAY xs c h) \<Longrightarrow> length s \<le> TEXT_MAX \<Longrightarrow>
     fed (array_loop strtod n depth (SC_JSON_ARRAY xs c h) s a)"
proof (induction n arbitrary: s a depth ms xs c h)
  case (Suc n)
  {
    case 1
    show ?case
    proof (rule dispatch_fed)
      fix t :: string and a1 assume t: "length t < length s" "generous a1"
      show "fed (object_loop strtod n (depth + 1) (SC_JSON_OBJECT [] 0 False) t a1)"
        by (rule Suc.IH(2)) (use 1 t empty_containers in auto)
      show "fed (array_loop strtod n (depth + 1) (SC_JSON_ARRAY [] 0 False) t a1)"
        by (rule Suc.IH(3)) (use 1 t empty_containers in auto)
    qed (use 1 in auto)
  next
    case 2
    show ?case
    proof (rule object_round_fed)
      fix t :: string and a1 assume t: "length t < length s"
      show "parsed 0 (length t) a1 (parse_value strtod n depth t a1)" by (rule parser_total(1)) (use 2 t in auto)
    qed (use 2 Suc.IH(1,2) in auto)
  next
    case 3
    show ?case
    proof (rule array_round_fed)
      fix a1
      show "parsed 0 (length s) a1 (parse_value strtod n depth s a1)" by (rule parser_total(1)) (use 3 in auto)
    qed (use 3 Suc.IH(1,3) in auto)
  }
qed (simp_all add: parse_value.simps)

lemma json_parse_generous:
  assumes "generous a" "length (str_bytes input) \<le> TEXT_MAX" "sc_json_parse strtod input a = Some (r, err, a')"
  shows "generous a'" "\<And>e. r = Inl e \<Longrightarrow> live a' = live a"
proof -
  define bs where "bs = str_bytes input"
  have len: "length bs \<le> TEXT_MAX" "length (skip_ws bs) \<le> TEXT_MAX"
    using assms(2) skip_ws_length [of bs] by (simp_all add: bs_def)
  have fuel: "2 * length (skip_ws bs) + 1 \<le> 2 * length bs + 1" using skip_ws_length [of bs] by simp
  obtain r1 s1 a1 where p: "parse_value strtod (2 * length bs + 1) 0 (skip_ws bs) a = Some (r1, s1, a1)"
    using parser_total(1) [OF fuel, of a strtod 0] by (auto simp: parsed_def split: option.splits)
  have f: "generous a1" "\<And>e. r1 = Inl e \<Longrightarrow> code e \<noteq> SC_ERR_NO_MEMORY"
    using parser_fed(1) [OF fuel assms(1) len(2), of strtod 0] p by (auto simp: fed_def)
  then show "generous a'" using assms(1,3) p
    by (cases r1) (auto simp: sc_json_parse_def Let_def bs_def [symmetric] split: if_splits)
  fix e assume e: "r = Inl e"
  have "code e \<noteq> SC_ERR_NO_MEMORY"
    using assms(3) p e f(2) by (cases r1) (auto simp: sc_json_parse_def Let_def bs_def [symmetric] split: if_splits)
  then have "e \<noteq> sc_status_no_memory" by auto
  with json_parse_total [of strtod input a] assms(3) e show "live a' = live a" by auto
qed

end
