(* ===== verification/SC_Provider.thy ===== *)
theory SC_Provider
  imports SC_Steps SC_Json_Memory "HOL-Library.Word"
begin

text \<open>
  Language-model providers: the parts of \<^verbatim>\<open>src/providers/provider_common.c\<close> every provider shares (responses and
  their tool calls, request validation, the retry classes) and the provider handle of
  \<^verbatim>\<open>src/contracts/contracts.c\<close>. A provider is the vtable of its implementation with the implementation filled in:
  its operations act on a world of the type \<open>'w\<close>. The default heap and the allocator passed to a call are one
  allocator of the model.
\<close>

unbundle bit_operations_syntax

section \<open>Requests, responses and events\<close>

record sc_provider_request =
  req_model :: sc_str
  req_prompt :: sc_str
  req_system_instruction :: sc_str
  req_tool_specs_json :: sc_str
  req_media_count :: nat
  req_media_context :: sc_str
  req_cancel_requested :: bool
  req_route_hint :: sc_str

record 'd sc_provider_tool_call =
  call_id :: sc_string
  call_name :: sc_string
  arguments_json :: sc_string
  arguments :: "'d sc_json_value option"

record 'd sc_provider_response =
  rs_text :: sc_string
  rs_tool_calls :: "'d sc_provider_tool_call sc_vec"
  malformed_tool_call :: bool
  streaming_complete :: bool
  rs_input_tokens :: int
  rs_output_tokens :: int
  rs_total_tokens :: int
  rs_cost_usd :: 'd
  rs_finish_reason :: sc_string
  rs_model :: sc_string
  rs_error_message :: sc_string
  rs_reasoning_text :: sc_string
  pre_executed_tool_call :: "'d sc_provider_tool_call"
  pre_executed_tool_result :: sc_string

datatype sc_provider_stream_event_type =
    SC_PROVIDER_STREAM_DELTA
  | SC_PROVIDER_STREAM_TOOL_CALL
  | SC_PROVIDER_STREAM_DONE
  | SC_PROVIDER_STREAM_ERROR
  | SC_PROVIDER_STREAM_REASONING_DELTA
  | SC_PROVIDER_STREAM_PRE_EXECUTED_TOOL_CALL
  | SC_PROVIDER_STREAM_PRE_EXECUTED_TOOL_RESULT
  | SC_PROVIDER_STREAM_FINAL_USAGE

record 'd sc_provider_stream_event =
  ev_type :: sc_provider_stream_event_type
  ev_text :: sc_string
  ev_tool_call :: "'d sc_provider_tool_call"
  ev_error_message :: sc_string

definition SIZEOF_TOOL_CALL :: nat where
  "SIZEOF_TOOL_CALL = 88"

definition tool_call_zero :: "'d sc_provider_tool_call" where
  "tool_call_zero = \<lparr>call_id = None, call_name = None, arguments_json = None, arguments = None\<rparr>"

definition destroy_arguments :: "'d sc_json_value option \<Rightarrow> sc_allocator \<Rightarrow> sc_allocator" where
  "destroy_arguments v a = (case v of None \<Rightarrow> a | Some x \<Rightarrow> sc_json_destroy x a)"

definition sc_provider_tool_call_clear :: "'d sc_provider_tool_call \<Rightarrow> sc_allocator \<Rightarrow> sc_allocator" where
  "sc_provider_tool_call_clear c a =
     destroy_arguments (arguments c)
       (sc_string_clear (arguments_json c) (sc_string_clear (call_name c) (sc_string_clear (call_id c) a)))"

text \<open>What a tool gets: the call's id and its arguments, borrowed.\<close>

definition sc_provider_tool_call_as_tool_call ::
    "'d sc_provider_tool_call \<Rightarrow> (sc_str \<times> 'd sc_json_value) res" where
  "sc_provider_tool_call_as_tool_call c =
     (case arguments c of
        None \<Rightarrow> Inl (sc_status_invalid_argument ''sc.provider_tool_call.invalid_argument'')
      | Some v \<Rightarrow> Inr (sc_string_as_str (call_id c), v))"

definition response_zero :: "'d::zero sc_provider_response" where
  "response_zero =
     \<lparr>rs_text = None, rs_tool_calls = sc_vec_init 0, malformed_tool_call = False, streaming_complete = False,
      rs_input_tokens = 0, rs_output_tokens = 0, rs_total_tokens = 0, rs_cost_usd = 0, rs_finish_reason = None,
      rs_model = None, rs_error_message = None, rs_reasoning_text = None, pre_executed_tool_call = tool_call_zero,
      pre_executed_tool_result = None\<rparr>"

definition sc_provider_response_init :: "'d::zero sc_provider_response" where
  "sc_provider_response_init = response_zero\<lparr>rs_tool_calls := sc_vec_init SIZEOF_TOOL_CALL\<rparr>"

definition SC_PROVIDER_MAX_MODEL_BYTES :: nat where "SC_PROVIDER_MAX_MODEL_BYTES = 256"
definition SC_PROVIDER_MAX_PROMPT_BYTES :: nat where "SC_PROVIDER_MAX_PROMPT_BYTES = 1048576"
definition SC_PROVIDER_MAX_SYSTEM_BYTES :: nat where "SC_PROVIDER_MAX_SYSTEM_BYTES = 262144"
definition SC_PROVIDER_MAX_MEDIA_CONTEXT_BYTES :: nat where "SC_PROVIDER_MAX_MEDIA_CONTEXT_BYTES = 262144"
definition SC_PROVIDER_MAX_TOOL_SPEC_BYTES :: nat where "SC_PROVIDER_MAX_TOOL_SPEC_BYTES = 262144"
definition SC_PROVIDER_MAX_TOOL_ARGUMENT_BYTES :: nat where "SC_PROVIDER_MAX_TOOL_ARGUMENT_BYTES = 262144"

definition copy_string_field :: "sc_str \<Rightarrow> sc_allocator \<Rightarrow> sc_string res \<times> sc_allocator" where
  "copy_string_field v a = sc_string_from_str (str_or_empty v) a"

definition clone_arguments :: "'d sc_json_value option \<Rightarrow> sc_allocator \<Rightarrow> 'd sc_json_value option res \<times> sc_allocator" where
  "clone_arguments v a =
     (case v of
        None \<Rightarrow> (Inr None, a)
      | Some x \<Rightarrow> (case sc_json_clone x a of (Inl e, a1) \<Rightarrow> (Inl e, a1) | (Inr y, a1) \<Rightarrow> (Inr (Some y), a1)))"

text \<open>The four steps that copy a tool call; \<open>cp\<close> copies a string.\<close>

definition copy_tool_call ::
    "(sc_str \<Rightarrow> sc_allocator \<Rightarrow> sc_string res \<times> sc_allocator) \<Rightarrow> 'd sc_provider_tool_call \<Rightarrow> sc_allocator \<Rightarrow>
       'd sc_provider_tool_call fill_state" where
  "copy_tool_call cp c a =
     fill (\<lambda>_. clone_arguments (arguments c)) (\<lambda>v q. q\<lparr>arguments := v\<rparr>)
       (fill (\<lambda>_. cp (sc_string_as_str (arguments_json c))) (\<lambda>s q. q\<lparr>arguments_json := s\<rparr>)
         (fill (\<lambda>_. cp (sc_string_as_str (call_name c))) (\<lambda>s q. q\<lparr>call_name := s\<rparr>)
           (fill (\<lambda>_. cp (sc_string_as_str (call_id c))) (\<lambda>s q. q\<lparr>call_id := s\<rparr>)
             (sc_status_ok, tool_call_zero, a))))"

definition sc_provider_response_add_tool_call ::
    "'d sc_provider_response \<Rightarrow> 'd sc_provider_tool_call \<Rightarrow> sc_allocator \<Rightarrow>
       sc_status \<times> 'd sc_provider_response \<times> sc_allocator" where
  "sc_provider_response_add_tool_call response c a =
     (if item_size (rs_tool_calls response) \<noteq> SIZEOF_TOOL_CALL
      then (sc_status_invalid_argument ''sc.provider_response.invalid_argument'', response, a)
      else if string_len (arguments_json c) > SC_PROVIDER_MAX_TOOL_ARGUMENT_BYTES
      then (sc_status_invalid_argument ''sc.provider_tool_call.arguments_too_large'', response, a)
      else (case copy_tool_call copy_string_field c a of
              (st, copy, a1) \<Rightarrow>
                (if \<not> sc_status_is_ok st then (st, response, sc_provider_tool_call_clear copy a1)
                 else (case sc_vec_push (rs_tool_calls response) (Some copy) a1 of
                         (st', v, a2) \<Rightarrow>
                           (if \<not> sc_status_is_ok st'
                            then (st', response\<lparr>rs_tool_calls := v\<rparr>, sc_provider_tool_call_clear copy a2)
                            else (sc_status_ok, response\<lparr>rs_tool_calls := v\<rparr>, a2))))))"

fun clear_tool_calls :: "'d sc_provider_tool_call list \<Rightarrow> sc_allocator \<Rightarrow> sc_allocator" where
  "clear_tool_calls [] a = a"
| "clear_tool_calls (c # cs) a = clear_tool_calls cs (sc_provider_tool_call_clear c a)"

definition sc_provider_response_clear :: "'d sc_provider_response \<Rightarrow> sc_allocator \<Rightarrow> sc_allocator" where
  "sc_provider_response_clear r a =
     (let a1 = sc_string_clear (rs_reasoning_text r) (sc_string_clear (rs_error_message r) (sc_string_clear (rs_model r)
                 (sc_string_clear (rs_finish_reason r) (sc_string_clear (rs_text r) a))));
          a2 = sc_string_clear (pre_executed_tool_result r) (sc_provider_tool_call_clear (pre_executed_tool_call r) a1) in
      snd (sc_vec_clear (rs_tool_calls r) (clear_tool_calls (items (rs_tool_calls r)) a2)))"

definition event_of :: "sc_provider_stream_event_type \<Rightarrow> 'd sc_provider_stream_event" where
  "event_of t = \<lparr>ev_type = t, ev_text = None, ev_tool_call = tool_call_zero, ev_error_message = None\<rparr>"

definition sc_provider_stream_event_clear :: "'d sc_provider_stream_event \<Rightarrow> sc_allocator \<Rightarrow> sc_allocator" where
  "sc_provider_stream_event_clear e a =
     sc_string_clear (ev_error_message e) (sc_provider_tool_call_clear (ev_tool_call e) (sc_string_clear (ev_text e) a))"

section \<open>Options\<close>

datatype sc_provider_thinking_level =
    SC_PROVIDER_THINKING_DEFAULT
  | SC_PROVIDER_THINKING_DISABLED
  | SC_PROVIDER_THINKING_LOW
  | SC_PROVIDER_THINKING_MEDIUM
  | SC_PROVIDER_THINKING_HIGH

definition sc_provider_parse_thinking_level :: "sc_str \<Rightarrow> sc_provider_thinking_level res" where
  "sc_provider_parse_thinking_level v =
     (if ptr_null v \<or> str_len v = 0 \<or> sc_str_equal v (Str ''default'') then Inr SC_PROVIDER_THINKING_DEFAULT
      else if sc_str_equal v (Str ''disabled'') \<or> sc_str_equal v (Str ''none'') \<or> sc_str_equal v (Str ''off'')
      then Inr SC_PROVIDER_THINKING_DISABLED
      else if sc_str_equal v (Str ''low'') then Inr SC_PROVIDER_THINKING_LOW
      else if sc_str_equal v (Str ''medium'') then Inr SC_PROVIDER_THINKING_MEDIUM
      else if sc_str_equal v (Str ''high'') then Inr SC_PROVIDER_THINKING_HIGH
      else Inl (sc_status_invalid_argument ''sc.provider.thinking_level.invalid''))"

fun sc_provider_thinking_level_name :: "sc_provider_thinking_level \<Rightarrow> string" where
  "sc_provider_thinking_level_name SC_PROVIDER_THINKING_DEFAULT = ''default''"
| "sc_provider_thinking_level_name SC_PROVIDER_THINKING_DISABLED = ''disabled''"
| "sc_provider_thinking_level_name SC_PROVIDER_THINKING_LOW = ''low''"
| "sc_provider_thinking_level_name SC_PROVIDER_THINKING_MEDIUM = ''medium''"
| "sc_provider_thinking_level_name SC_PROVIDER_THINKING_HIGH = ''high''"

lemma thinking_level_roundtrip:
  "sc_provider_parse_thinking_level (Str (sc_provider_thinking_level_name l)) = Inr l"
  by (cases l) (simp_all add: sc_provider_parse_thinking_level_def)

text \<open>The options a provider's credential is resolved from; \<open>getenv\<close> is the environment.\<close>

record sc_provider_options =
  opt_api_key :: sc_str
  opt_secret_value :: sc_str
  opt_credential_env :: sc_str
  opt_generic_credential_env :: sc_str
  opt_default_model :: sc_str

definition present :: "sc_str \<Rightarrow> bool" where
  "present s \<longleftrightarrow> \<not> ptr_null s \<and> str_len s > 0"

definition sc_provider_redact_credential :: "sc_str \<Rightarrow> sc_allocator \<Rightarrow> sc_string res \<times> sc_allocator" where
  "sc_provider_redact_credential v a = sc_string_redacted a"

text \<open>
  A variable named by an option: the name is copied for its terminator, looked up, and released; \<open>otherwise\<close> goes on
  when it is not set or empty.
\<close>

definition credential_from_env ::
    "(string \<Rightarrow> string option) \<Rightarrow> sc_str \<Rightarrow> (sc_allocator \<Rightarrow> sc_string res \<times> sc_allocator) \<Rightarrow> sc_allocator \<Rightarrow>
       sc_string res \<times> sc_allocator" where
  "credential_from_env getenv name otherwise a =
     (if \<not> present name then otherwise a
      else (case sc_string_from_str name a of
              (Inl e, a1) \<Rightarrow> (Inl e, a1)
            | (Inr env_name, a1) \<Rightarrow>
                (let a2 = sc_string_clear env_name a1 in
                 (case getenv (str_bytes (sc_str_from_cstr env_name)) of
                    Some v \<Rightarrow> (if v \<noteq> [] then sc_string_from_cstr (Some v) a2 else otherwise a2)
                  | None \<Rightarrow> otherwise a2))))"

definition sc_provider_resolve_credential ::
    "(string \<Rightarrow> string option) \<Rightarrow> sc_provider_options \<Rightarrow> sc_allocator \<Rightarrow> sc_string res \<times> sc_allocator" where
  "sc_provider_resolve_credential getenv options a =
     (if present (opt_api_key options) then sc_string_from_str (opt_api_key options) a
      else if present (opt_secret_value options) then sc_string_from_str (opt_secret_value options) a
      else credential_from_env getenv (opt_credential_env options)
             (credential_from_env getenv (opt_generic_credential_env options)
                (\<lambda>a. (Inl (sc_status_security_denied ''sc.provider_credential.missing''), a))) a)"

section \<open>Validating a request\<close>

definition SC_PROVIDER_MODE_TOOL_CALLS :: "64 word" where "SC_PROVIDER_MODE_TOOL_CALLS = push_bit 3 1"
definition SC_PROVIDER_MODE_VISION :: "64 word" where "SC_PROVIDER_MODE_VISION = push_bit 4 1"
definition SC_PROVIDER_MODE_AUDIO :: "64 word" where "SC_PROVIDER_MODE_AUDIO = push_bit 5 1"
definition SC_PROVIDER_MODE_CHAT :: "64 word" where "SC_PROVIDER_MODE_CHAT = push_bit 0 1"
definition SC_PROVIDER_MODE_STREAM :: "64 word" where "SC_PROVIDER_MODE_STREAM = push_bit 1 1"

definition validate_text :: "sc_str \<Rightarrow> nat \<Rightarrow> string \<Rightarrow> sc_status" where
  "validate_text v max_len key =
     (if ptr_null v then sc_status_ok
      else if str_len v > max_len then sc_status_invalid_argument key
      else if \<not> sc_str_is_valid_utf8 v then sc_status_parse key
      else sc_status_ok)"

definition model_name_valid :: "sc_str \<Rightarrow> bool" where
  "model_name_valid m \<longleftrightarrow> (\<forall>ch \<in> set (str_bytes m). is_alnum ch \<or> ch \<in> set ''-_.:/'')"

text \<open>The parser of the model always returns; \<open>parse_json\<close> is its result.\<close>

definition parse_json ::
    "(string \<Rightarrow> 'd option) \<Rightarrow> sc_str \<Rightarrow> sc_allocator \<Rightarrow> 'd sc_json_value res \<times> sc_allocator" where
  "parse_json strtod s a =
     (case sc_json_parse strtod s a of
        Some (r, err, a1) \<Rightarrow> (r, a1)
      | None \<Rightarrow> (Inl (sc_status_parse ''sc.json.no_result''), a))"

lemma parse_json_spec:
  "case parse_json strtod s a of (r, a') \<Rightarrow>
     (case r of Inl e \<Rightarrow> \<not> sc_status_is_ok e \<and> (e \<noteq> sc_status_no_memory \<longrightarrow> live a' = live a)
      | Inr v \<Rightarrow> json_inv v \<and> live a' = live a + json_blocks v)"
proof -
  obtain r err a' where p: "sc_json_parse strtod s a = Some (r, err, a')"
    "case r of Inl e \<Rightarrow> \<not> sc_status_is_ok e \<and> (e \<noteq> sc_status_no_memory \<longrightarrow> live a' = live a)
      | Inr v \<Rightarrow> json_inv v \<and> live a' = live a + json_blocks v"
    using json_parse_total [of strtod s a] by blast
  then show ?thesis by (simp add: parse_json_def)
qed

definition tool_specs_valid :: "(string \<Rightarrow> 'd option) \<Rightarrow> sc_str \<Rightarrow> sc_allocator \<Rightarrow> bool \<times> sc_allocator" where
  "tool_specs_valid strtod s a =
     (case parse_json strtod s a of
        (Inl e, a1) \<Rightarrow> (False, a1)
      | (Inr v, a1) \<Rightarrow> (sc_json_type_of (Some v) = JSON_ARRAY, sc_json_destroy v a1))"

text \<open>The checks on the texts, in order; the first that fails gives the status.\<close>

definition request_text_checks :: "sc_provider_options option \<Rightarrow> sc_provider_request \<Rightarrow> sc_status" where
  "request_text_checks options request =
     (let model = (if str_len (req_model request) > 0 then req_model request
                   else (case options of None \<Rightarrow> Str [] | Some opts \<Rightarrow> opt_default_model opts));
          s0 = validate_text model SC_PROVIDER_MAX_MODEL_BYTES ''sc.provider_request.model_invalid'';
          s1 = (if sc_status_is_ok s0 \<and> str_len model > 0 \<and> \<not> model_name_valid model
                then sc_status_invalid_argument ''sc.provider_request.model_invalid'' else s0);
          s2 = (if sc_status_is_ok s1
                then validate_text (req_prompt request) SC_PROVIDER_MAX_PROMPT_BYTES ''sc.provider_request.prompt_invalid'' else s1);
          s3 = (if sc_status_is_ok s2
                then validate_text (req_system_instruction request) SC_PROVIDER_MAX_SYSTEM_BYTES ''sc.provider_request.system_invalid''
                else s2);
          s4 = (if sc_status_is_ok s3
                then validate_text (req_media_context request) SC_PROVIDER_MAX_MEDIA_CONTEXT_BYTES
                       ''sc.provider_request.media_context_invalid'' else s3) in
      (if sc_status_is_ok s4
       then validate_text (req_tool_specs_json request) SC_PROVIDER_MAX_TOOL_SPEC_BYTES ''sc.provider_request.tools_invalid''
       else s4))"

definition request_media_check :: "64 word \<Rightarrow> sc_provider_request \<Rightarrow> sc_status" where
  "request_media_check modes request =
     (if req_media_count request > 0 \<and> modes AND (SC_PROVIDER_MODE_VISION OR SC_PROVIDER_MODE_AUDIO) = 0
      then sc_status_unsupported ''sc.provider_request.media_unsupported'' else sc_status_ok)"

definition sc_provider_validate_request ::
    "(string \<Rightarrow> 'd option) \<Rightarrow> 64 word \<Rightarrow> sc_provider_options option \<Rightarrow> sc_provider_request \<Rightarrow> sc_allocator \<Rightarrow>
       sc_status \<times> sc_allocator" where
  "sc_provider_validate_request strtod modes options request a =
     (let st = request_text_checks options request in
      (if \<not> sc_status_is_ok st then (st, a)
       else if str_len (req_tool_specs_json request) > 0
       then (if modes AND SC_PROVIDER_MODE_TOOL_CALLS = 0
             then (sc_status_unsupported ''sc.provider_request.tools_unsupported'', a)
             else (case tool_specs_valid strtod (req_tool_specs_json request) a of
                     (ok, a1) \<Rightarrow>
                       (if \<not> ok then (sc_status_parse ''sc.provider_request.tools_invalid'', a1)
                        else (request_media_check modes request, a1))))
       else (request_media_check modes request, a)))"

section \<open>Retry classes and addresses\<close>

datatype sc_provider_retry_class =
    SC_PROVIDER_RETRY_NONE
  | SC_PROVIDER_RETRY_TRANSIENT
  | SC_PROVIDER_RETRY_RATE_LIMIT
  | SC_PROVIDER_RETRY_SERVER
  | SC_PROVIDER_RETRY_INVALID_CREDENTIALS
  | SC_PROVIDER_RETRY_INVALID_REQUEST
  | SC_PROVIDER_RETRY_SECURITY_DENIED
  | SC_PROVIDER_RETRY_CANCELLED

definition sc_provider_classify_retry :: "sc_status \<Rightarrow> int \<Rightarrow> sc_provider_retry_class" where
  "sc_provider_classify_retry st http =
     (if code st = SC_ERR_CANCELLED then SC_PROVIDER_RETRY_CANCELLED
      else if code st = SC_ERR_SECURITY_DENIED then SC_PROVIDER_RETRY_SECURITY_DENIED
      else if code st = SC_ERR_INVALID_ARGUMENT \<or> code st = SC_ERR_PARSE then SC_PROVIDER_RETRY_INVALID_REQUEST
      else if http = 401 \<or> http = 403 then SC_PROVIDER_RETRY_INVALID_CREDENTIALS
      else if http = 408 \<or> code st = SC_ERR_TIMEOUT then SC_PROVIDER_RETRY_TRANSIENT
      else if http = 429 then SC_PROVIDER_RETRY_RATE_LIMIT
      else if http \<ge> 500 \<or> code st = SC_ERR_IO \<or> code st = SC_ERR_HTTP \<or> code st = SC_ERR_TIMEOUT
      then SC_PROVIDER_RETRY_SERVER
      else SC_PROVIDER_RETRY_NONE)"

definition sc_provider_should_retry :: "sc_status \<Rightarrow> int \<Rightarrow> bool" where
  "sc_provider_should_retry st http \<longleftrightarrow>
     sc_provider_classify_retry st http \<in>
       {SC_PROVIDER_RETRY_TRANSIENT, SC_PROVIDER_RETRY_RATE_LIMIT, SC_PROVIDER_RETRY_SERVER}"

lemma should_retry_iff:
  "sc_provider_should_retry st 0 \<longleftrightarrow> code st \<in> {SC_ERR_TIMEOUT, SC_ERR_IO, SC_ERR_HTTP}"
  by (cases "code st") (simp_all add: sc_provider_should_retry_def sc_provider_classify_retry_def)

definition str_has_prefix :: "sc_str \<Rightarrow> string \<Rightarrow> bool" where
  "str_has_prefix v pre \<longleftrightarrow> \<not> ptr_null v \<and> str_len v \<ge> length pre \<and> take (length pre) (str_bytes v) = pre"

definition sc_provider_url_allowed :: "sc_str \<Rightarrow> bool \<Rightarrow> bool" where
  "sc_provider_url_allowed url allow_loopback =
     (if ptr_null url \<or> str_len url = 0 then False
      else if str_has_prefix url ''https://'' then True
      else if \<not> allow_loopback \<or> \<not> str_has_prefix url ''http://'' then False
      else str_has_prefix url ''http://127.0.0.1'' \<or> str_has_prefix url ''http://localhost'' \<or>
           str_has_prefix url ''http://[::1]'')"

section \<open>The provider handle\<close>

definition SC_ABI_VERSION_MAJOR :: nat where
  "SC_ABI_VERSION_MAJOR = 0"

definition sc_contract_name_is_valid :: "sc_str \<Rightarrow> bool" where
  "sc_contract_name_is_valid name =
     (if str_len name = 0 \<or> str_len name > 64 \<or> ptr_null name then False
      else if \<not> is_lower (str_bytes name ! 0) \<and> \<not> is_digit (str_bytes name ! 0) then False
      else (\<forall>ch \<in> set (str_bytes name). is_lower ch \<or> is_digit ch \<or> ch \<in> set ''-_.''))"

definition sc_contract_common_vtab_valid :: "nat \<Rightarrow> nat \<Rightarrow> string option \<Rightarrow> bool \<Rightarrow> bool \<Rightarrow> bool" where
  "sc_contract_common_vtab_valid struct_size abi name required_present destroy_present \<longleftrightarrow>
     struct_size > 0 \<and> abi = SC_ABI_VERSION_MAJOR \<and> sc_contract_name_is_valid (sc_str_from_cstr name) \<and>
     required_present \<and> destroy_present"

type_synonym ('d, 'w) generate_fn =
  "'w \<Rightarrow> sc_provider_request \<Rightarrow> 'd sc_provider_response \<Rightarrow> sc_allocator \<Rightarrow>
     sc_status \<times> 'd sc_provider_response \<times> sc_allocator \<times> 'w"

type_synonym ('d, 'c) stream_callback = "'c \<Rightarrow> 'd sc_provider_stream_event \<Rightarrow> sc_status \<times> 'c"

type_synonym ('d, 'w, 'c) stream_fn =
  "'w \<Rightarrow> sc_provider_request \<Rightarrow> sc_allocator \<Rightarrow> ('d, 'c) stream_callback \<Rightarrow> 'c \<Rightarrow> sc_status \<times> sc_allocator \<times> 'w \<times> 'c"

record ('d, 'w, 'c) sc_provider =
  p_struct_size :: nat
  p_abi_major :: nat
  p_name :: "string option"
  p_modes :: "64 word"
  p_generate :: "('d, 'w) generate_fn option"
  p_stream :: "('d, 'w, 'c) stream_fn option"
  p_destroy :: "(sc_allocator \<Rightarrow> sc_allocator) option"

definition SIZEOF_PROVIDER_VTAB :: nat where
  "SIZEOF_PROVIDER_VTAB = 168"

definition SIZEOF_PROVIDER :: nat where
  "SIZEOF_PROVIDER = 24"

definition sc_provider_vtab_valid :: "('d, 'w, 'c) sc_provider option \<Rightarrow> bool" where
  "sc_provider_vtab_valid vtab =
     (case vtab of
        None \<Rightarrow> False
      | Some p \<Rightarrow>
          sc_contract_common_vtab_valid (p_struct_size p) (p_abi_major p) (p_name p) (p_generate p \<noteq> None) (p_destroy p \<noteq> None) \<and>
          p_struct_size p \<ge> SIZEOF_PROVIDER_VTAB)"

definition sc_contract_handle_new :: "'h option \<Rightarrow> nat \<Rightarrow> sc_allocator \<Rightarrow> 'h res \<times> sc_allocator" where
  "sc_contract_handle_new vtab sz a =
     (case vtab of
        None \<Rightarrow> (Inl (sc_status_invalid_argument ''sc.contract.invalid_argument''), a)
      | Some h \<Rightarrow>
          (case sc_alloc sz a of
             (False, a1) \<Rightarrow> (Inl sc_status_no_memory, a1)
           | (True, a1) \<Rightarrow> (Inr h, a1)))"

definition sc_contract_handle_destroy :: "(sc_allocator \<Rightarrow> sc_allocator) option \<Rightarrow> sc_allocator \<Rightarrow> sc_allocator" where
  "sc_contract_handle_destroy destroy a = sc_free True (case destroy of None \<Rightarrow> a | Some d \<Rightarrow> d a)"

definition sc_provider_new :: "('d, 'w, 'c) sc_provider option \<Rightarrow> sc_allocator \<Rightarrow> ('d, 'w, 'c) sc_provider res \<times> sc_allocator" where
  "sc_provider_new vtab a =
     (if \<not> sc_provider_vtab_valid vtab then (Inl (sc_status_invalid_argument ''sc.provider.invalid_vtab''), a)
      else sc_contract_handle_new vtab SIZEOF_PROVIDER a)"

definition sc_provider_destroy :: "('d, 'w, 'c) sc_provider option \<Rightarrow> sc_allocator \<Rightarrow> sc_allocator" where
  "sc_provider_destroy p a = (case p of None \<Rightarrow> a | Some q \<Rightarrow> sc_contract_handle_destroy (p_destroy q) a)"

text \<open>A null provider and a provider without \<^verbatim>\<open>generate\<close> give the same error.\<close>

definition sc_provider_generate :: "('d, 'w, 'c) sc_provider option \<Rightarrow> ('d, 'w) generate_fn" where
  "sc_provider_generate provider w request out a =
     (case provider of
        None \<Rightarrow> (sc_status_invalid_argument ''sc.provider.invalid_argument'', out, a, w)
      | Some p \<Rightarrow>
          (case p_generate p of
             None \<Rightarrow> (sc_status_invalid_argument ''sc.provider.invalid_argument'', out, a, w)
           | Some gen \<Rightarrow>
               (if req_cancel_requested request then (sc_status_cancelled ''sc.provider.cancelled'', out, a, w)
                else gen w request out a)))"

definition provider_emit_tool_call_event ::
    "'d sc_provider_tool_call \<Rightarrow> sc_allocator \<Rightarrow> ('d, 'c) stream_callback \<Rightarrow> 'c \<Rightarrow> sc_status \<times> sc_allocator \<times> 'c" where
  "provider_emit_tool_call_event c a callback user =
     (case copy_tool_call sc_string_from_str c a of
        (st, copy, a1) \<Rightarrow>
          (let event = (event_of SC_PROVIDER_STREAM_TOOL_CALL)\<lparr>ev_tool_call := copy\<rparr> in
           (if \<not> sc_status_is_ok st then (st, sc_provider_stream_event_clear event a1, user)
            else (case callback user event of
                    (st', user') \<Rightarrow> (st', sc_provider_stream_event_clear event a1, user')))))"

fun emit_tool_calls ::
    "'d sc_provider_tool_call list \<Rightarrow> sc_allocator \<Rightarrow> ('d, 'c) stream_callback \<Rightarrow> 'c \<Rightarrow> sc_status \<times> sc_allocator \<times> 'c" where
  "emit_tool_calls [] a callback user = (sc_status_ok, a, user)"
| "emit_tool_calls (c # cs) a callback user =
     (case provider_emit_tool_call_event c a callback user of
        (st, a1, user1) \<Rightarrow> (if sc_status_is_ok st then emit_tool_calls cs a1 callback user1 else (st, a1, user1)))"

text \<open>One delta event with a copy of the given text.\<close>

definition emit_delta ::
    "sc_str \<Rightarrow> sc_allocator \<Rightarrow> ('d, 'c) stream_callback \<Rightarrow> 'c \<Rightarrow> sc_status \<times> sc_allocator \<times> 'c" where
  "emit_delta s a callback user =
     (case sc_string_from_str s a of
        (Inl e, a1) \<Rightarrow> (e, a1, user)
      | (Inr c, a1) \<Rightarrow>
          (let event = (event_of SC_PROVIDER_STREAM_DELTA)\<lparr>ev_text := c\<rparr> in
           (case callback user event of (st, user') \<Rightarrow> (st, sc_provider_stream_event_clear event a1, user'))))"

definition provider_stream_from_generate :: "('d::zero, 'w, 'c) sc_provider \<Rightarrow> ('d, 'w, 'c) stream_fn" where
  "provider_stream_from_generate p w request a callback user =
     (case sc_provider_generate (Some p) w request response_zero a of
        (st, response, a1, w1) \<Rightarrow>
          (case (if sc_status_is_ok st \<and> string_len (rs_text response) > 0
                 then emit_delta (sc_string_as_str (rs_text response)) a1 callback user else (st, a1, user)) of
             (st2, a2, user2) \<Rightarrow>
               (case (if sc_status_is_ok st2 then emit_tool_calls (items (rs_tool_calls response)) a2 callback user2
                      else (st2, a2, user2)) of
                  (st3, a3, user3) \<Rightarrow>
                    (case (if sc_status_is_ok st3 then callback user3 (event_of SC_PROVIDER_STREAM_DONE) else (st3, user3)) of
                       (st4, user4) \<Rightarrow> (st4, sc_provider_response_clear response a3, w1, user4)))))"

definition sc_provider_stream :: "('d::zero, 'w, 'c) sc_provider option \<Rightarrow> ('d, 'w, 'c) stream_fn" where
  "sc_provider_stream provider w request a callback user =
     (case provider of
        None \<Rightarrow> (sc_status_invalid_argument ''sc.provider.stream_invalid_argument'', a, w, user)
      | Some p \<Rightarrow>
          (if p_generate p = None then (sc_status_invalid_argument ''sc.provider.stream_invalid_argument'', a, w, user)
           else if req_cancel_requested request then (sc_status_cancelled ''sc.provider.cancelled'', a, w, user)
           else (case p_stream p of
                   Some stream \<Rightarrow> stream w request a callback user
                 | None \<Rightarrow> provider_stream_from_generate p w request a callback user)))"

section \<open>The blocks of a response\<close>

definition arguments_blocks :: "'d sc_json_value option \<Rightarrow> int" where
  "arguments_blocks v = (case v of None \<Rightarrow> 0 | Some x \<Rightarrow> json_blocks x)"

definition call_blocks :: "'d sc_provider_tool_call \<Rightarrow> int" where
  "call_blocks c = string_blocks (call_id c) + string_blocks (call_name c) + string_blocks (arguments_json c) +
     arguments_blocks (arguments c)"

definition call_inv :: "'d sc_provider_tool_call \<Rightarrow> bool" where
  "call_inv c \<longleftrightarrow> (case arguments c of None \<Rightarrow> True | Some v \<Rightarrow> json_inv v)"

definition calls_blocks :: "'d sc_provider_tool_call list \<Rightarrow> int" where
  "calls_blocks cs = sum_list (map call_blocks cs)"

definition response_blocks :: "'d sc_provider_response \<Rightarrow> int" where
  "response_blocks r = string_blocks (rs_text r) + string_blocks (rs_finish_reason r) + string_blocks (rs_model r) +
     string_blocks (rs_error_message r) + string_blocks (rs_reasoning_text r) + call_blocks (pre_executed_tool_call r) +
     string_blocks (pre_executed_tool_result r) + vec_blocks (rs_tool_calls r) + calls_blocks (items (rs_tool_calls r))"

definition response_inv :: "'d sc_provider_response \<Rightarrow> bool" where
  "response_inv r \<longleftrightarrow> vec_inv (rs_tool_calls r) \<and> (\<forall>c \<in> set (items (rs_tool_calls r)). call_inv c) \<and>
     call_inv (pre_executed_tool_call r)"

lemma calls_blocks_simps [simp]:
  "calls_blocks [] = 0" "calls_blocks (c # cs) = call_blocks c + calls_blocks cs"
  "calls_blocks (cs @ ds) = calls_blocks cs + calls_blocks ds"
  by (simp_all add: calls_blocks_def)

lemma call_zero_simps [simp]: "call_blocks tool_call_zero = 0" "call_inv tool_call_zero"
  by (simp_all add: call_blocks_def call_inv_def tool_call_zero_def arguments_blocks_def)

lemma response_zero_simps [simp]:
  "response_blocks response_zero = 0" "response_inv response_zero"
  "response_blocks sc_provider_response_init = 0" "response_inv sc_provider_response_init"
  by (simp_all add: response_blocks_def response_inv_def response_zero_def sc_provider_response_init_def)

lemma tool_call_clear_live: "call_inv c \<Longrightarrow> live (sc_provider_tool_call_clear c a) = live a - call_blocks c"
  by (auto simp: sc_provider_tool_call_clear_def destroy_arguments_def call_blocks_def arguments_blocks_def call_inv_def
      destroy_live split: option.splits)

lemma clear_tool_calls_live:
  "\<forall>c \<in> set cs. call_inv c \<Longrightarrow> live (clear_tool_calls cs a) = live a - calls_blocks cs"
  by (induction cs arbitrary: a) (simp_all add: tool_call_clear_live)

lemma response_clear_live: "response_inv r \<Longrightarrow> live (sc_provider_response_clear r a) = live a - response_blocks r"
  by (simp add: sc_provider_response_clear_def Let_def response_inv_def response_blocks_def vec_clear_live
      clear_tool_calls_live tool_call_clear_live)

lemma event_clear_live:
  "call_inv (ev_tool_call e) \<Longrightarrow> live (sc_provider_stream_event_clear e a) =
     live a - string_blocks (ev_text e) - string_blocks (ev_error_message e) - call_blocks (ev_tool_call e)"
  by (simp add: sc_provider_stream_event_clear_def tool_call_clear_live)

lemma clone_arguments_spec:
  assumes "clone_arguments v a = (r, a')"
  shows "case r of Inl e \<Rightarrow> \<not> sc_status_is_ok e \<and> live a' = live a
    | Inr w \<Rightarrow> (case w of None \<Rightarrow> True | Some y \<Rightarrow> json_inv y) \<and> map_option json_view w = map_option json_view v \<and>
        live a' = live a + arguments_blocks w"
proof (cases v)
  case (Some x)
  then show ?thesis
    using assms clone_spec(1) [of x a]
    by (auto simp: clone_arguments_def cloned_def arguments_blocks_def split: prod.splits sum.splits)
qed (use assms in \<open>auto simp: clone_arguments_def arguments_blocks_def\<close>)

text \<open>Both ways to copy a text that the program uses.\<close>

definition copies :: "(sc_str \<Rightarrow> sc_allocator \<Rightarrow> sc_string res \<times> sc_allocator) \<Rightarrow> bool" where
  "copies cp \<longleftrightarrow> (\<forall>s a r a'. cp s a = (r, a') \<longrightarrow>
     (case r of Inl e \<Rightarrow> \<not> sc_status_is_ok e \<and> live a' = live a
      | Inr c \<Rightarrow> c = Some (str_bytes s) \<and> live a' = live a + 1))"

lemma copies_from_str: "copies sc_string_from_str"
  by (auto simp: copies_def split: sum.splits dest: string_from_str_Inl string_from_str_Inr)

lemma copies_field: "copies copy_string_field"
  unfolding copies_def copy_string_field_def
proof (intro allI impI)
  fix s a and r :: "sc_string res" and a' assume c: "sc_string_from_str (str_or_empty s) a = (r, a')"
  have "str_bytes (str_or_empty s) = str_bytes s" by (cases s) (auto simp: str_or_empty_def)
  with c copies_from_str show "case r of Inl e \<Rightarrow> \<not> sc_status_is_ok e \<and> live a' = live a
      | Inr c \<Rightarrow> c = Some (str_bytes s) \<and> live a' = live a + 1"
    unfolding copies_def by metis
qed

lemma copiesD:
  assumes "copies cp"
  shows "cp s a = (Inl e, a') \<Longrightarrow> \<not> sc_status_is_ok e \<and> live a' = live a"
    and "cp s a = (Inr c, a') \<Longrightarrow> c = Some (str_bytes s) \<and> live a' = live a + 1"
  using assms unfolding copies_def by fastforce+

definition same_call :: "'d sc_provider_tool_call \<Rightarrow> 'd sc_provider_tool_call \<Rightarrow> bool" where
  "same_call c d \<longleftrightarrow> owned_text (call_id c) = owned_text (call_id d) \<and> owned_text (call_name c) = owned_text (call_name d) \<and>
     owned_text (arguments_json c) = owned_text (arguments_json d) \<and>
     map_option json_view (arguments c) = map_option json_view (arguments d)"

lemma copy_tool_call_filled:
  assumes "copies cp"
  shows "filled call_blocks (live a) call_inv (same_call c) (copy_tool_call cp c a)"
proof -
  let ?q1 = "tool_call_zero\<lparr>call_id := Some (owned_text (call_id c))\<rparr>"
  let ?q2 = "?q1\<lparr>call_name := Some (owned_text (call_name c))\<rparr>"
  let ?q3 = "?q2\<lparr>arguments_json := Some (owned_text (arguments_json c))\<rparr>"
  note z = tool_call_zero_def call_blocks_def call_inv_def arguments_blocks_def
  have "filled call_blocks (live a) call_inv (\<lambda>q. q = tool_call_zero) (sc_status_ok, tool_call_zero, a)"
    by (simp add: filled_def)
  then have "filled call_blocks (live a) call_inv (\<lambda>q. q = ?q1)
      (fill (\<lambda>_. cp (sc_string_as_str (call_id c))) (\<lambda>s q. q\<lparr>call_id := s\<rparr>) (sc_status_ok, tool_call_zero, a))"
    by (rule fill_filled) (auto simp: z dest: copiesD [OF assms])
  then have "filled call_blocks (live a) call_inv (\<lambda>q. q = ?q2)
      (fill (\<lambda>_. cp (sc_string_as_str (call_name c))) (\<lambda>s q. q\<lparr>call_name := s\<rparr>)
        (fill (\<lambda>_. cp (sc_string_as_str (call_id c))) (\<lambda>s q. q\<lparr>call_id := s\<rparr>) (sc_status_ok, tool_call_zero, a)))"
    by (rule fill_filled) (auto simp: z dest: copiesD [OF assms])
  then have "filled call_blocks (live a) call_inv (\<lambda>q. q = ?q3)
      (fill (\<lambda>_. cp (sc_string_as_str (arguments_json c))) (\<lambda>s q. q\<lparr>arguments_json := s\<rparr>)
        (fill (\<lambda>_. cp (sc_string_as_str (call_name c))) (\<lambda>s q. q\<lparr>call_name := s\<rparr>)
          (fill (\<lambda>_. cp (sc_string_as_str (call_id c))) (\<lambda>s q. q\<lparr>call_id := s\<rparr>) (sc_status_ok, tool_call_zero, a))))"
    by (rule fill_filled) (auto simp: z dest: copiesD [OF assms])
  then show ?thesis
    unfolding copy_tool_call_def
    by (rule fill_filled) (use clone_arguments_spec in \<open>fastforce simp: z same_call_def split: option.splits\<close>)+
qed

lemma add_tool_call_spec:
  assumes "sc_provider_response_add_tool_call r c a = (st, r', a')" "response_inv r"
  shows "response_inv r' \<and> live a' = live a + response_blocks r' - response_blocks r \<and>
    (sc_status_is_ok st \<longrightarrow> (\<exists>d. same_call c d \<and> items (rs_tool_calls r') = items (rs_tool_calls r) @ [d]) \<and>
       r'\<lparr>rs_tool_calls := rs_tool_calls r\<rparr> = r) \<and> (\<not> sc_status_is_ok st \<longrightarrow> r' = r)"
proof (cases "item_size (rs_tool_calls r) \<noteq> SIZEOF_TOOL_CALL \<or> string_len (arguments_json c) > SC_PROVIDER_MAX_TOOL_ARGUMENT_BYTES")
  case True
  with assms show ?thesis by (auto simp: sc_provider_response_add_tool_call_def split: if_splits)
next
  case False
  obtain s copy a1 where cp: "copy_tool_call copy_string_field c a = (s, copy, a1)"
    by (cases "copy_tool_call copy_string_field c a")
  have f: "live a1 = live a + call_blocks copy" "call_inv copy" "sc_status_is_ok s \<Longrightarrow> same_call c copy"
    using copy_tool_call_filled [OF copies_field, of a c] cp by (auto simp: filled_def)
  show ?thesis
  proof (cases "sc_status_is_ok s")
    case True
    obtain st1 v a2 where push: "sc_vec_push (rs_tool_calls r) (Some copy) a1 = (st1, v, a2)"
      by (cases "sc_vec_push (rs_tool_calls r) (Some copy) a1")
    have "vec_inv (rs_tool_calls r)" using assms(2) by (simp add: response_inv_def)
    note sp = vec_push_spec [OF push this]
    show ?thesis
    proof (cases "sc_status_is_ok st1")
      case ok: True
      with assms(1) False cp True push have out: "st = sc_status_ok" "r' = r\<lparr>rs_tool_calls := v\<rparr>" "a' = a2"
        by (auto simp: sc_provider_response_add_tool_call_def)
      show ?thesis using sp ok f True assms(2) by (auto simp: out response_inv_def response_blocks_def)
    next
      case bad: False
      with assms(1) False cp True push sp(5) have out: "st = st1" "r' = r" "a' = sc_provider_tool_call_clear copy a2"
        by (auto simp: sc_provider_response_add_tool_call_def)
      have "v = rs_tool_calls r" using sp(5) bad by simp
      then show ?thesis using sp(2) bad f assms(2) by (simp add: out tool_call_clear_live)
    qed
  next
    case bad: False
    with assms(1) False cp have out: "st = s" "r' = r" "a' = sc_provider_tool_call_clear copy a1"
      by (auto simp: sc_provider_response_add_tool_call_def)
    show ?thesis using bad f assms(2) by (simp add: out tool_call_clear_live)
  qed
qed

end
