(* ===== verification/SC_Providers.thy ===== *)
theory SC_Providers
  imports SC_Provider
begin

text \<open>
  The providers that need no network: the mock (\<^verbatim>\<open>src/providers/mock_provider.c\<close>), the retrying provider
  (\<^verbatim>\<open>src/providers/reliable.c\<close>) and the router (\<^verbatim>\<open>src/providers/router.c\<close>). What a caller relies on is
  the locale \<open>provider_contract\<close>: a call that is given an empty response leaves a response that accounts for the
  blocks taken, and a failed call leaves an empty one. The mock satisfies it, and the other two
  satisfy it when the providers behind them do.
\<close>

section \<open>The contract of a provider\<close>

definition fresh_response :: "'d sc_provider_response \<Rightarrow> bool" where
  "fresh_response r \<longleftrightarrow> response_inv r \<and> response_blocks r = 0"

locale provider_contract =
  fixes generate :: "('d, 'w) generate_fn"
  assumes failed_fresh: "generate w request out a = (st, out', a', w') \<Longrightarrow> fresh_response out \<Longrightarrow> \<not> sc_status_is_ok st \<Longrightarrow>
      fresh_response out'"
    and ok_inv: "generate w request out a = (st, out', a', w') \<Longrightarrow> fresh_response out \<Longrightarrow> sc_status_is_ok st \<Longrightarrow>
      response_inv out'"
    and balanced: "generate w request out a = (st, out', a', w') \<Longrightarrow> fresh_response out \<Longrightarrow> generous a \<Longrightarrow>
      live a' = live a + response_blocks out' \<and> generous a'"
begin

text \<open>A caller that clears the response afterwards has given back every block, whatever the status was.\<close>

lemma clear_gives_back:
  assumes "generate w request out a = (st, out', a', w')" "fresh_response out" "generous a"
  shows "live (sc_provider_response_clear out' a') = live a"
proof -
  have "response_inv out'"
    using assms failed_fresh [OF assms(1,2)] ok_inv [OF assms(1,2)] by (cases "sc_status_is_ok st") (auto simp: fresh_response_def)
  then show ?thesis using balanced [OF assms] by (simp add: response_clear_live)
qed

end

lemma fresh_zero [simp]: "fresh_response response_zero" "fresh_response sc_provider_response_init"
  by (simp_all add: fresh_response_def)

lemma contract_generate:
  assumes "\<And>gen. p_generate p = Some gen \<Longrightarrow> provider_contract gen"
  shows "provider_contract (sc_provider_generate (Some p))"
proof (cases "p_generate p")
  case None
  then show ?thesis
    by unfold_locales (auto simp: sc_provider_generate_def fresh_response_def)
next
  case (Some gen)
  then have c: "provider_contract gen" using assms by blast
  note laws = provider_contract.failed_fresh [OF c] provider_contract.ok_inv [OF c] provider_contract.balanced [OF c]
  show ?thesis
    by unfold_locales
      (auto simp: sc_provider_generate_def Some fresh_response_def [symmetric] split: if_splits dest: laws,
        simp_all add: fresh_response_def)
qed

lemma provider_new_live:
  assumes "sc_provider_new (Some p) a = (r, a')"
  shows "case r of Inl e \<Rightarrow> \<not> sc_status_is_ok e \<and> live a' = live a | Inr h \<Rightarrow> h = p \<and> live a' = live a + 1"
  using assms by (auto simp: sc_provider_new_def sc_contract_handle_new_def split: if_splits prod.splits bool.splits dest: alloc_cases)

lemma provider_destroy_live:
  "p_destroy p = Some d \<Longrightarrow> live (sc_provider_destroy (Some p) a) = live (d a) - 1"
  by (simp add: sc_provider_destroy_def sc_contract_handle_destroy_def)

section \<open>The mock provider\<close>

datatype sc_provider_mock_mode =
    SC_PROVIDER_MOCK_TEXT
  | SC_PROVIDER_MOCK_TOOL_CALL
  | SC_PROVIDER_MOCK_MULTI_TOOL_CALL
  | SC_PROVIDER_MOCK_ERROR
  | SC_PROVIDER_MOCK_MALFORMED_TOOL_CALL

record mock_provider =
  mock_mode :: sc_provider_mock_mode
  mock_text :: sc_string

definition SIZEOF_MOCK_PROVIDER :: nat where
  "SIZEOF_MOCK_PROVIDER = 40"

definition mock_modes :: "64 word" where
  "mock_modes = (SC_PROVIDER_MODE_CHAT OR SC_PROVIDER_MODE_STREAM) OR SC_PROVIDER_MODE_TOOL_CALLS"

definition parsed_arguments ::
    "(string \<Rightarrow> 'd option) \<Rightarrow> bool \<Rightarrow> sc_str \<Rightarrow> sc_allocator \<Rightarrow> 'd sc_json_value option res \<times> sc_allocator" where
  "parsed_arguments strtod parse s a =
     (if \<not> parse then (Inr None, a)
      else (case parse_json strtod s a of (Inl e, a1) \<Rightarrow> (Inl e, a1) | (Inr v, a1) \<Rightarrow> (Inr (Some v), a1)))"

definition mock_call ::
    "(string \<Rightarrow> 'd option) \<Rightarrow> sc_str \<Rightarrow> sc_str \<Rightarrow> sc_str \<Rightarrow> bool \<Rightarrow> sc_allocator \<Rightarrow> 'd sc_provider_tool_call fill_state" where
  "mock_call strtod cid name args parse a =
     fill (\<lambda>_. parsed_arguments strtod parse args) (\<lambda>v q. q\<lparr>arguments := v\<rparr>)
       (fill (\<lambda>_. sc_string_from_str args) (\<lambda>s q. q\<lparr>arguments_json := s\<rparr>)
         (fill (\<lambda>_. sc_string_from_str name) (\<lambda>s q. q\<lparr>call_name := s\<rparr>)
           (fill (\<lambda>_. sc_string_from_str cid) (\<lambda>s q. q\<lparr>call_id := s\<rparr>) (sc_status_ok, tool_call_zero, a))))"

definition add_mock_tool_call ::
    "(string \<Rightarrow> 'd option) \<Rightarrow> 'd sc_provider_response \<Rightarrow> sc_str \<Rightarrow> sc_str \<Rightarrow> sc_str \<Rightarrow> bool \<Rightarrow> sc_allocator \<Rightarrow>
       sc_status \<times> 'd sc_provider_response \<times> sc_allocator" where
  "add_mock_tool_call strtod response cid name args parse a =
     (case mock_call strtod cid name args parse a of
        (st, c, a1) \<Rightarrow>
          (case (if sc_status_is_ok st then sc_provider_response_add_tool_call response c a1 else (st, response, a1)) of
             (st', response', a2) \<Rightarrow> (st', response', sc_provider_tool_call_clear c a2)))"

definition one_args :: string where
  "one_args = ''{'' @ quoted ''value'' @ '':'' @ quoted ''one'' @ ''}''"

definition two_args :: string where
  "two_args = ''{'' @ quoted ''value'' @ '':'' @ quoted ''two'' @ ''}''"

definition mock_calls ::
    "(string \<Rightarrow> 'd option) \<Rightarrow> sc_provider_mock_mode \<Rightarrow> 'd sc_provider_response \<Rightarrow> sc_allocator \<Rightarrow>
       sc_status \<times> 'd sc_provider_response \<times> sc_allocator" where
  "mock_calls strtod m out a =
     (case (if m = SC_PROVIDER_MOCK_TOOL_CALL \<or> m = SC_PROVIDER_MOCK_MULTI_TOOL_CALL
            then add_mock_tool_call strtod out (Str ''call-1'') (Str ''mock_tool'') (Str one_args) True a
            else (sc_status_ok, out, a)) of
        (st1, out1, a1) \<Rightarrow>
          (case (if sc_status_is_ok st1 \<and> m = SC_PROVIDER_MOCK_MULTI_TOOL_CALL
                 then add_mock_tool_call strtod out1 (Str ''call-2'') (Str ''mock_tool'') (Str two_args) True a1
                 else (st1, out1, a1)) of
             (st2, out2, a2) \<Rightarrow>
               (if m = SC_PROVIDER_MOCK_MALFORMED_TOOL_CALL
                then (case add_mock_tool_call strtod out2 (Str ''bad-call'') (Str ''mock_tool'') (Str ''{'') False a2 of
                        (st3, out3, a3) \<Rightarrow> (st3, out3\<lparr>malformed_tool_call := True\<rparr>, a3))
                else (st2, out2, a2))))"

definition mock_generate :: "(string \<Rightarrow> 'd option) \<Rightarrow> mock_provider \<Rightarrow> ('d::zero, 'w) generate_fn" where
  "mock_generate strtod m w request out a =
     (case sc_provider_validate_request strtod mock_modes None request a of
        (st, a0) \<Rightarrow>
          (if \<not> sc_status_is_ok st then (st, out, a0, w)
           else if mock_mode m = SC_PROVIDER_MOCK_ERROR then (sc_status_http ''sc.provider_mock.error'', out, a0, w)
           else (case sc_string_from_str (sc_string_as_str (mock_text m)) a0 of
                   (Inl e, a1) \<Rightarrow> (e, response_zero, sc_provider_response_clear (sc_provider_response_init :: 'd sc_provider_response) a1, w)
                 | (Inr t, a1) \<Rightarrow>
                     (case mock_calls strtod (mock_mode m) (sc_provider_response_init\<lparr>rs_text := t\<rparr>) a1 of
                        (st2, out2, a2) \<Rightarrow>
                          (if \<not> sc_status_is_ok st2 then (st2, response_zero, sc_provider_response_clear out2 a2, w)
                           else (sc_status_ok, out2, a2, w))))))"

text \<open>The text is sent in two halves, or in one piece when it is a single byte.\<close>

definition mock_chunks :: "string \<Rightarrow> string list" where
  "mock_chunks t =
     (let n = length t; split = (if n div 2 = 0 \<and> n > 0 then n else n div 2) in
      (if n = 0 then [] else if split < n then [take split t, drop split t] else [take split t]))"

fun emit_deltas ::
    "string list \<Rightarrow> sc_allocator \<Rightarrow> ('d, 'c) stream_callback \<Rightarrow> 'c \<Rightarrow> sc_status \<times> sc_allocator \<times> 'c" where
  "emit_deltas [] a callback user = (sc_status_ok, a, user)"
| "emit_deltas (t # ts) a callback user =
     (case emit_delta (Str t) a callback user of
        (st, a1, user1) \<Rightarrow> (if sc_status_is_ok st then emit_deltas ts a1 callback user1 else (st, a1, user1)))"

definition mock_stream :: "(string \<Rightarrow> 'd option) \<Rightarrow> mock_provider \<Rightarrow> ('d::zero, 'w, 'c) stream_fn" where
  "mock_stream strtod m w request a callback user =
     (case mock_generate strtod m w request response_zero a of
        (st, response, a1, w1) \<Rightarrow>
          (if \<not> sc_status_is_ok st then (st, a1, w1, user)
           else (case emit_deltas (mock_chunks (owned_text (rs_text response))) a1 callback user of
                   (st2, a2, user2) \<Rightarrow>
                     (case (if sc_status_is_ok st2 then emit_tool_calls (items (rs_tool_calls response)) a2 callback user2
                            else (st2, a2, user2)) of
                        (st3, a3, user3) \<Rightarrow>
                          (case (if sc_status_is_ok st3 then callback user3 (event_of SC_PROVIDER_STREAM_DONE) else (st3, user3)) of
                             (st4, user4) \<Rightarrow> (st4, sc_provider_response_clear response a3, w1, user4))))))"

definition mock_destroy :: "mock_provider \<Rightarrow> sc_allocator \<Rightarrow> sc_allocator" where
  "mock_destroy m a = sc_free True (sc_string_clear (mock_text m) a)"

definition mock_vtab :: "(string \<Rightarrow> 'd option) \<Rightarrow> mock_provider \<Rightarrow> ('d::zero, 'w, 'c) sc_provider" where
  "mock_vtab strtod m =
     \<lparr>p_struct_size = SIZEOF_PROVIDER_VTAB, p_abi_major = SC_ABI_VERSION_MAJOR, p_name = Some ''mock'', p_modes = mock_modes,
      p_generate = Some (mock_generate strtod m), p_stream = Some (mock_stream strtod m), p_destroy = Some (mock_destroy m)\<rparr>"

definition sc_provider_mock_new ::
    "(string \<Rightarrow> 'd option) \<Rightarrow> sc_provider_mock_mode \<Rightarrow> sc_str \<Rightarrow> sc_allocator \<Rightarrow> ('d::zero, 'w, 'c) sc_provider res \<times> sc_allocator" where
  "sc_provider_mock_new strtod m t a =
     (case sc_alloc SIZEOF_MOCK_PROVIDER a of
        (False, a1) \<Rightarrow> (Inl sc_status_no_memory, a1)
      | (True, a1) \<Rightarrow>
          (case sc_string_from_str (if ptr_null t then Str ''mock assistant'' else t) a1 of
             (Inl e, a2) \<Rightarrow> (Inl e, mock_destroy \<lparr>mock_mode = m, mock_text = None\<rparr> a2)
           | (Inr s, a2) \<Rightarrow>
               (case sc_provider_new (Some (mock_vtab strtod \<lparr>mock_mode = m, mock_text = s\<rparr>)) a2 of
                  (Inl e, a3) \<Rightarrow> (Inl e, mock_destroy \<lparr>mock_mode = m, mock_text = s\<rparr> a3)
                | (Inr p, a3) \<Rightarrow> (Inr p, a3))))"

subsection \<open>The mock keeps the contract\<close>

lemma parse_json_generous:
  assumes "generous a" "length (str_bytes s) \<le> TEXT_MAX" "parse_json strtod s a = (r, a')"
  shows "generous a' \<and> (case r of Inl e \<Rightarrow> \<not> sc_status_is_ok e \<and> live a' = live a
    | Inr v \<Rightarrow> json_inv v \<and> live a' = live a + json_blocks v)"
proof -
  obtain r1 err a1 where p: "sc_json_parse strtod s a = Some (r1, err, a1)" using json_parse_total [of strtod s a] by blast
  with assms(3) have "r1 = r" "a1 = a'" by (auto simp: parse_json_def)
  with json_parse_generous [OF assms(1,2) p] parse_json_spec [where strtod = strtod and s = s and a = a] assms(3) show ?thesis
    by (auto split: sum.splits)
qed

lemma validate_text_len: "sc_status_is_ok (validate_text v n key) \<Longrightarrow> length (str_bytes v) \<le> n"
  by (cases v) (auto simp: validate_text_def split: if_splits)

lemma request_texts_ok:
  "sc_status_is_ok (request_text_checks options request) \<Longrightarrow>
   length (str_bytes (req_tool_specs_json request)) \<le> SC_PROVIDER_MAX_TOOL_SPEC_BYTES"
  by (auto simp: request_text_checks_def Let_def split: if_splits dest: validate_text_len)

lemma validate_request_generous:
  assumes "sc_provider_validate_request strtod modes options request a = (st, a')" "generous a"
  shows "live a' = live a \<and> generous a'"
proof (cases "sc_status_is_ok (request_text_checks options request)")
  case True
  obtain r a1 where p: "parse_json strtod (req_tool_specs_json request) a = (r, a1)"
    by (cases "parse_json strtod (req_tool_specs_json request) a")
  have "length (str_bytes (req_tool_specs_json request)) \<le> TEXT_MAX"
    using request_texts_ok [OF True] by (simp add: SC_PROVIDER_MAX_TOOL_SPEC_BYTES_def TEXT_MAX_def)
  from parse_json_generous [OF assms(2) this p] p True assms show ?thesis
    by (auto simp: sc_provider_validate_request_def tool_specs_valid_def Let_def destroy_live split: if_splits sum.splits)
next
  case False
  with assms show ?thesis by (auto simp: sc_provider_validate_request_def Let_def)
qed

lemma parsed_arguments_generous:
  assumes "generous a" "length (str_bytes s) \<le> TEXT_MAX" "parsed_arguments strtod parse s a = (r, a')"
  shows "generous a' \<and> (case r of Inl e \<Rightarrow> \<not> sc_status_is_ok e \<and> live a' = live a
    | Inr v \<Rightarrow> live a' = live a + arguments_blocks v \<and> (case v of None \<Rightarrow> True | Some x \<Rightarrow> json_inv x))"
proof -
  obtain r1 a1 where p: "parse_json strtod s a = (r1, a1)" by (cases "parse_json strtod s a")
  from parse_json_generous [OF assms(1,2) p] p assms(1,3) show ?thesis
    by (auto simp: parsed_arguments_def arguments_blocks_def split: if_splits sum.splits)
qed

lemma mock_call_filled:
  assumes "generous a" "length (str_bytes args) \<le> TEXT_MAX"
  shows "filled call_blocks (live a) call_inv (\<lambda>_. True) (mock_call strtod cid name args parse a)"
    and "generous (snd (snd (mock_call strtod cid name args parse a)))"
proof -
  let ?s0 = "(sc_status_ok, tool_call_zero :: 'a sc_provider_tool_call, a)"
  let ?s1 = "fill (\<lambda>_. sc_string_from_str cid) (\<lambda>s q. q\<lparr>call_id := s\<rparr>) ?s0"
  let ?s2 = "fill (\<lambda>_. sc_string_from_str name) (\<lambda>s q. q\<lparr>call_name := s\<rparr>) ?s1"
  let ?s3 = "fill (\<lambda>_. sc_string_from_str args) (\<lambda>s q. q\<lparr>arguments_json := s\<rparr>) ?s2"
  let ?e1 = "\<lambda>q :: 'a sc_provider_tool_call. arguments q = None"
  let ?e2 = "\<lambda>q. ?e1 q \<and> arguments_json q = None" let ?e3 = "\<lambda>q. ?e2 q \<and> call_name q = None"
  note z = call_blocks_def call_inv_def arguments_blocks_def
  note str = string_from_str_Inl string_from_str_Inr generous_string_out
  have "filled call_blocks (live a) call_inv (\<lambda>q. ?e3 q \<and> call_id q = None) ?s0" "generous (snd (snd ?s0))"
    using assms(1) by (simp_all add: filled_def, simp_all add: tool_call_zero_def)
  then have f1: "filled call_blocks (live a) call_inv ?e3 ?s1" "generous (snd (snd ?s1))"
    by (rule fill_filled_generous; auto simp: z dest: str)+
  then have f2: "filled call_blocks (live a) call_inv ?e2 ?s2" "generous (snd (snd ?s2))"
    by (rule fill_filled_generous; auto simp: z dest: str)+
  then have f3: "filled call_blocks (live a) call_inv ?e1 ?s3" "generous (snd (snd ?s3))"
    by (rule fill_filled_generous; auto simp: z dest: str)+
  then show "filled call_blocks (live a) call_inv (\<lambda>_. True) (mock_call strtod cid name args parse a)"
    "generous (snd (snd (mock_call strtod cid name args parse a)))"
    unfolding mock_call_def
    by (rule fill_filled_generous;
        use parsed_arguments_generous [OF _ assms(2)] in \<open>fastforce simp: z split: option.splits\<close>)+
qed

lemma generous_tool_call_clear [simp]: "generous (sc_provider_tool_call_clear c a) = generous a"
  by (auto simp: sc_provider_tool_call_clear_def destroy_arguments_def split: option.splits)

lemma generous_clear_tool_calls [simp]: "generous (clear_tool_calls cs a) = generous a"
  by (induction cs arbitrary: a) simp_all

lemma generous_response_clear [simp]: "generous (sc_provider_response_clear r a) = generous a"
  by (simp add: sc_provider_response_clear_def Let_def)

lemma generous_fill_out:
  assumes "\<And>q a r a'. op q a = (r, a') \<Longrightarrow> generous a' = generous a"
  shows "generous (snd (snd (fill op put s))) = generous (snd (snd s))"
  using assms by (auto simp: fill_def split: prod.splits sum.splits)

lemma generous_clone_arguments_out: "clone_arguments v a = (r, a') \<Longrightarrow> generous a' = generous a"
  by (auto simp: clone_arguments_def split: option.splits prod.splits sum.splits dest: generous_json_clone_out)

lemma generous_copy_field_out: "copy_string_field s a = (r, a') \<Longrightarrow> generous a' = generous a"
  by (simp add: copy_string_field_def generous_string_out)

lemma generous_copy_tool_call: "generous (snd (snd (copy_tool_call copy_string_field c a))) = generous a"
  unfolding copy_tool_call_def
  by (subst generous_fill_out, erule generous_clone_arguments_out generous_copy_field_out)+ simp

lemma add_tool_call_generous:
  assumes "sc_provider_response_add_tool_call r c a = (st, r', a')"
  shows "generous a' = generous a"
  using assms generous_copy_tool_call [of c a]
  by (auto simp: sc_provider_response_add_tool_call_def split: if_splits prod.splits dest!: generous_push_out)

lemma add_mock_inv:
  "add_mock_tool_call strtod r cid name args parse a = (st, r', a') \<Longrightarrow> response_inv r \<Longrightarrow> response_inv r'"
  by (auto simp: add_mock_tool_call_def split: prod.splits if_splits dest: add_tool_call_spec)

lemma add_mock_balanced:
  assumes "add_mock_tool_call strtod r cid name args parse a = (st, r', a')" "response_inv r" "generous a"
    "length (str_bytes args) \<le> TEXT_MAX"
  shows "live a' = live a + response_blocks r' - response_blocks r \<and> generous a'"
proof -
  obtain s c a1 where mc: "mock_call strtod cid name args parse a = (s, c, a1)"
    by (cases "mock_call strtod cid name args parse a")
  have c: "live a1 = live a + call_blocks c" "call_inv c" "generous a1"
    using mock_call_filled [OF assms(3,4), of strtod cid name parse] mc by (auto simp: filled_def)
  show ?thesis
  proof (cases "sc_status_is_ok s")
    case True
    obtain s2 r2 a2 where ad: "sc_provider_response_add_tool_call r c a1 = (s2, r2, a2)"
      by (cases "sc_provider_response_add_tool_call r c a1")
    from add_tool_call_spec [OF ad assms(2)] add_tool_call_generous [OF ad] assms(1) mc True ad c show ?thesis
      by (auto simp: add_mock_tool_call_def tool_call_clear_live)
  next
    case False
    with assms(1) mc c show ?thesis by (auto simp: add_mock_tool_call_def tool_call_clear_live)
  qed
qed

lemma short_args [simp]: "length one_args \<le> TEXT_MAX" "length two_args \<le> TEXT_MAX" "Suc 0 \<le> TEXT_MAX"
  by (simp_all add: one_args_def two_args_def quoted_def mjson_escaped_def TEXT_MAX_def)

lemma mock_calls_inv: "mock_calls strtod m out a = (st, out', a') \<Longrightarrow> response_inv out \<Longrightarrow> response_inv out'"
  by (auto simp: mock_calls_def response_inv_def [of "_\<lparr>malformed_tool_call := _\<rparr>"] split: if_splits prod.splits
      dest!: add_mock_inv) (auto simp: response_inv_def)

lemma mock_calls_balanced:
  assumes "mock_calls strtod m out a = (st, out', a')" "response_inv out" "generous a"
  shows "live a' = live a + response_blocks out' - response_blocks out \<and> generous a'"
proof -
  have [simp]: "response_blocks (r\<lparr>malformed_tool_call := b\<rparr>) = response_blocks r" for r :: "'a sc_provider_response" and b
    by (simp add: response_blocks_def)
  note one = add_mock_balanced [where args = "Str one_args", simplified] and two = add_mock_balanced [where args = "Str two_args", simplified]
    and bad = add_mock_balanced [where args = "Str ''{''", simplified]
  obtain s1 o1 a1 where r1: "add_mock_tool_call strtod out (Str ''call-1'') (Str ''mock_tool'') (Str one_args) True a = (s1, o1, a1)"
    by (cases "add_mock_tool_call strtod out (Str ''call-1'') (Str ''mock_tool'') (Str one_args) True a")
  note b1 = one [OF r1 assms(2,3)] and i1 = add_mock_inv [OF r1 assms(2)]
  show ?thesis
  proof (cases m)
    case SC_PROVIDER_MOCK_MULTI_TOOL_CALL
    obtain s2 o2 a2 where r2: "add_mock_tool_call strtod o1 (Str ''call-2'') (Str ''mock_tool'') (Str two_args) True a1 = (s2, o2, a2)"
      by (cases "add_mock_tool_call strtod o1 (Str ''call-2'') (Str ''mock_tool'') (Str two_args) True a1")
    from two [OF r2 i1] b1 assms(1) r1 r2 SC_PROVIDER_MOCK_MULTI_TOOL_CALL show ?thesis
      by (auto simp: mock_calls_def split: if_splits)
  next
    case SC_PROVIDER_MOCK_MALFORMED_TOOL_CALL
    with assms show ?thesis by (auto simp: mock_calls_def split: prod.splits dest: bad)
  qed (use assms b1 r1 in \<open>auto simp: mock_calls_def\<close>)
qed

interpretation mock: provider_contract "mock_generate strtod m"
proof
  fix w :: 'c and request out a st out' a' w'
  assume run: "mock_generate strtod m w request out a = (st, out', a', w')" and f: "fresh_response out"
  have inv: "response_inv (sc_provider_response_init\<lparr>rs_text := t\<rparr> :: 'a sc_provider_response)" for t
    by (simp add: response_inv_def sc_provider_response_init_def response_zero_def)
  show "\<not> sc_status_is_ok st \<Longrightarrow> fresh_response out'" "sc_status_is_ok st \<Longrightarrow> response_inv out'"
    using run f mock_calls_inv [OF _ inv]
    by (auto simp: mock_generate_def split: prod.splits if_splits sum.splits)
  assume g: "generous a"
  obtain s0 a0 where v: "sc_provider_validate_request strtod mock_modes None request a = (s0, a0)"
    by (cases "sc_provider_validate_request strtod mock_modes None request a")
  note va = validate_request_generous [OF v g]
  obtain r a1 where t: "sc_string_from_str (sc_string_as_str (mock_text m)) a0 = (r, a1)"
    by (cases "sc_string_from_str (sc_string_as_str (mock_text m)) a0")
  have ga: "generous a1" using generous_string_out [OF t] va by simp
  show "live a' = live a + response_blocks out' \<and> generous a'"
  proof (cases "\<not> sc_status_is_ok s0 \<or> mock_mode m = SC_PROVIDER_MOCK_ERROR")
    case True
    with run v va f show ?thesis by (auto simp: mock_generate_def fresh_response_def split: if_splits)
  next
    case False
    show ?thesis
    proof (cases r)
      case (Inl e)
      with False run v t va ga string_from_str_Inl [OF t [unfolded Inl]] show ?thesis
        by (auto simp: mock_generate_def response_clear_live)
    next
      case (Inr c)
      let ?o = "sc_provider_response_init\<lparr>rs_text := c\<rparr> :: 'a sc_provider_response"
      obtain s2 o2 a2 where mc: "mock_calls strtod (mock_mode m) ?o a1 = (s2, o2, a2)"
        by (cases "mock_calls strtod (mock_mode m) ?o a1")
      have b: "response_blocks ?o = 1"
        using string_from_str_Inr [OF t [unfolded Inr]]
        by (simp add: response_blocks_def sc_provider_response_init_def response_zero_def)
      from mock_calls_balanced [OF mc inv ga] mock_calls_inv [OF mc inv] b False run v t va Inr mc string_from_str_Inr [OF t [unfolded Inr]]
      show ?thesis by (auto simp: mock_generate_def response_clear_live split: if_splits)
    qed
  qed
qed

text \<open>A mock that was created is given back whole; a mock that could not be created left nothing behind.\<close>

lemma mock_new_balanced:
  fixes r :: "('d::zero, 'w, 'c) sc_provider res"
  assumes "sc_provider_mock_new strtod m t a = (r, a')"
  shows "case r of Inl e \<Rightarrow> \<not> sc_status_is_ok e \<and> live a' = live a
    | Inr h \<Rightarrow> live (sc_provider_destroy (Some h) a') = live a \<and>
        (\<exists>mp. h = mock_vtab strtod mp \<and> mock_mode mp = m)"
proof -
  let ?t = "if ptr_null t then Str ''mock assistant'' else t"
  obtain ok a1 where al: "sc_alloc SIZEOF_MOCK_PROVIDER a = (ok, a1)" by (cases "sc_alloc SIZEOF_MOCK_PROVIDER a")
  obtain rs a2 where cp: "sc_string_from_str ?t a1 = (rs, a2)" by (cases "sc_string_from_str ?t a1")
  note live1 = alloc_cases [OF al]
  show ?thesis
  proof (cases rs)
    case (Inl e)
    with assms al cp live1 string_from_str_Inl [OF cp [unfolded Inl]] show ?thesis
      by (auto simp: sc_provider_mock_new_def mock_destroy_def split: bool.splits)
  next
    case (Inr s)
    define mp where "mp = \<lparr>mock_mode = m, mock_text = s\<rparr>"
    obtain r3 a3 where pn: "sc_provider_new (Some (mock_vtab strtod mp :: ('d, 'w, 'c) sc_provider)) a2 = (r3, a3)"
      by (cases "sc_provider_new (Some (mock_vtab strtod mp :: ('d, 'w, 'c) sc_provider)) a2")
    have s: "live a2 = live a1 + 1" "string_blocks s = 1" using string_from_str_Inr [OF cp [unfolded Inr]] by simp_all
    have d: "p_destroy (mock_vtab strtod mp :: ('d, 'w, 'c) sc_provider) = Some (mock_destroy mp)" "live (mock_destroy mp b) = live b - 2" for b
      using s(2) by (simp_all add: mock_vtab_def mock_destroy_def mp_def)
    show ?thesis
      using assms al cp live1 s d pn Inr provider_new_live [OF pn]
      by (auto simp: sc_provider_mock_new_def mp_def [symmetric] provider_destroy_live split: bool.splits sum.splits
          intro!: exI [of _ mp]) (simp_all add: mp_def)
  qed
qed

end
