(* ===== verification/SC_Reliable.thy ===== *)
theory SC_Reliable
  imports SC_Providers
begin

text \<open>
  The retrying provider, \<^verbatim>\<open>src/providers/reliable.c\<close>: a call goes to the candidates in order, each of them is
  called again while it fails with a retryable status, at most \<^verbatim>\<open>max_retries + 1\<close> times (a 32-bit sum). The log
  entries and the pauses are events that the function \<open>note\<close> records in the world.
\<close>

section \<open>The loops\<close>

datatype reliable_event =
    Attempt "string option" "32 word" sc_status string
  | Slept "32 word"

definition sleep_ms :: "(reliable_event \<Rightarrow> 's \<Rightarrow> 's) \<Rightarrow> 32 word \<Rightarrow> 's \<Rightarrow> 's" where
  "sleep_ms note delay_ms s = (if delay_ms = 0 then s else note (Slept delay_ms) s)"

definition attempt_key :: "sc_status \<Rightarrow> string" where
  "attempt_key st = (if sc_status_is_ok st then ''provider.reliable.selected'' else ''provider.reliable.attempt'')"

text \<open>
  The loop of \<^verbatim>\<open>reliable_call_generate\<close> and \<^verbatim>\<open>reliable_call_stream\<close>, over the call it repeats. The condition of the
  loop and the one that leaves it are both kept: their sums wrap at 32 bits.
\<close>

function retry_loop ::
    "('s \<Rightarrow> sc_status \<times> 's) \<Rightarrow> (reliable_event \<Rightarrow> 's \<Rightarrow> 's) \<Rightarrow> string option \<Rightarrow> 32 word \<Rightarrow> 32 word \<Rightarrow> 32 word \<Rightarrow>
       sc_status \<Rightarrow> 's \<Rightarrow> sc_status \<times> 's" where
  "retry_loop call note name max_retries backoff attempt st s =
     (if \<not> attempt \<le> max_retries + 1 then (st, s)
      else (case call s of
              (st', s1) \<Rightarrow>
                (let s2 = note (Attempt name attempt st' (attempt_key st')) s1 in
                 (if sc_status_is_ok st' \<or> \<not> sc_provider_should_retry st' 0 \<or> attempt > max_retries then (st', s2)
                  else retry_loop call note name max_retries backoff (attempt + 1) sc_status_ok
                         (sleep_ms note (backoff * attempt) s2)))))"
  by pat_completeness auto

lemma unat_plus_one: "w \<noteq> - 1 \<Longrightarrow> unat (w + 1) = unat w + 1"
  using unatSuc [of w] eq_neg_iff_add_eq_0 [of w 1] by (simp add: add.commute)

lemma attempt_Suc:
  fixes attempt max_retries :: "32 word"
  assumes "attempt \<le> max_retries + 1" "\<not> attempt > max_retries"
  shows "unat (attempt + 1) = unat attempt + 1" "unat attempt \<le> unat max_retries"
proof -
  have "attempt \<noteq> - 1"
  proof
    assume m: "attempt = - 1"
    with assms(2) have "max_retries = - 1" using word_order.not_eq_extremum [of max_retries] by simp
    with assms(1) m show False by simp
  qed
  then show "unat (attempt + 1) = unat attempt + 1"
    by (rule unat_plus_one)
  show "unat attempt \<le> unat max_retries" using assms(2) by (simp add: word_less_nat_alt)
qed

lemma attempt_measure:
  fixes attempt max_retries :: "32 word"
  assumes "attempt \<le> max_retries + 1" "\<not> attempt > max_retries"
  shows "unat max_retries + 1 - unat (attempt + 1) < unat max_retries + 1 - unat attempt"
  using attempt_Suc [OF assms] by linarith

termination retry_loop
  by (relation "measure (\<lambda>(call, note, name, max_retries, backoff, attempt, st, s). unat max_retries + 1 - unat attempt)")
    (use attempt_measure in auto)

declare retry_loop.simps [simp del]

definition final_code :: "sc_status \<Rightarrow> bool" where
  "final_code st \<longleftrightarrow> code st \<in> {SC_ERR_SECURITY_DENIED, SC_ERR_CANCELLED, SC_ERR_INVALID_ARGUMENT, SC_ERR_PARSE}"

text \<open>The second loop of \<^verbatim>\<open>reliable_generate\<close> and \<^verbatim>\<open>reliable_stream\<close>; \<open>exhausted\<close> writes the log entry.\<close>

fun try_candidates ::
    "('p \<Rightarrow> bool) \<Rightarrow> ('p \<Rightarrow> 's \<Rightarrow> sc_status \<times> 's) \<Rightarrow> ('p \<Rightarrow> sc_status \<Rightarrow> 's \<Rightarrow> 's) \<Rightarrow> 'p list \<Rightarrow> sc_status \<Rightarrow> 's \<Rightarrow>
       sc_status \<times> 's" where
  "try_candidates skipped call exhausted [] prev s = (prev, s)"
| "try_candidates skipped call exhausted (c # cs) prev s =
     (if skipped c then try_candidates skipped call exhausted cs prev s
      else (case call c s of
              (st, s1) \<Rightarrow>
                (if sc_status_is_ok st \<or> final_code st then (st, s1)
                 else try_candidates skipped call exhausted cs st (exhausted c st s1))))"

definition str_contains_cstr :: "sc_str \<Rightarrow> string option \<Rightarrow> bool" where
  "str_contains_cstr haystack needle =
     (case needle of
        None \<Rightarrow> False
      | Some n \<Rightarrow> (if ptr_null haystack \<or> str_len haystack = 0 \<or> length n = 0 \<or> length n > str_len haystack then False
                   else contains_sub n (str_bytes haystack)))"

definition provider_matches_model :: "('d, 'w, 'c) sc_provider \<Rightarrow> sc_str \<Rightarrow> bool" where
  "provider_matches_model p model \<longleftrightarrow> p_name p \<noteq> None \<and> str_contains_cstr model (p_name p)"

section \<open>The provider\<close>

record ('d, 'w, 'c) reliable_provider =
  rp_providers :: "('d, 'w, 'c) sc_provider sc_vec"
  rp_max_retries :: "32 word"
  rp_retry_backoff_ms :: "32 word"

definition SIZEOF_RELIABLE_PROVIDER :: nat where
  "SIZEOF_RELIABLE_PROVIDER = 56"

definition reliable_null_provider :: sc_status where
  "reliable_null_provider = sc_status_invalid_argument ''sc.provider_reliable.null_provider''"

text \<open>The state of a generating call is the response, the allocator and the world; of a streaming call the allocator, the world and the callback's data.\<close>

definition generate_call ::
    "('d, 'w, 'c) sc_provider \<Rightarrow> sc_provider_request \<Rightarrow> 'd sc_provider_response \<times> sc_allocator \<times> 'w \<Rightarrow>
       sc_status \<times> 'd sc_provider_response \<times> sc_allocator \<times> 'w" where
  "generate_call p request s = (case s of (out, a, w) \<Rightarrow> sc_provider_generate (Some p) w request out a)"

definition stream_call ::
    "('d::zero, 'w, 'c) sc_provider \<Rightarrow> sc_provider_request \<Rightarrow> ('d, 'c) stream_callback \<Rightarrow> sc_allocator \<times> 'w \<times> 'c \<Rightarrow>
       sc_status \<times> sc_allocator \<times> 'w \<times> 'c" where
  "stream_call p request callback s = (case s of (a, w, user) \<Rightarrow> sc_provider_stream (Some p) w request a callback user)"

definition note_generate :: "(reliable_event \<Rightarrow> 'w \<Rightarrow> 'w) \<Rightarrow> reliable_event \<Rightarrow> 'r \<times> 'a \<times> 'w \<Rightarrow> 'r \<times> 'a \<times> 'w" where
  "note_generate note e s = (case s of (out, a, w) \<Rightarrow> (out, a, note e w))"

definition note_stream :: "(reliable_event \<Rightarrow> 'w \<Rightarrow> 'w) \<Rightarrow> reliable_event \<Rightarrow> 'a \<times> 'w \<times> 'c \<Rightarrow> 'a \<times> 'w \<times> 'c" where
  "note_stream note e s = (case s of (a, w, user) \<Rightarrow> (a, note e w, user))"

definition reliable_call_generate ::
    "(reliable_event \<Rightarrow> 'w \<Rightarrow> 'w) \<Rightarrow> ('d, 'w, 'c) reliable_provider \<Rightarrow> ('d, 'w, 'c) sc_provider \<Rightarrow> sc_provider_request \<Rightarrow>
       'd sc_provider_response \<times> sc_allocator \<times> 'w \<Rightarrow> sc_status \<times> 'd sc_provider_response \<times> sc_allocator \<times> 'w" where
  "reliable_call_generate note rp p request s =
     retry_loop (generate_call p request) (note_generate note) (p_name p) (rp_max_retries rp) (rp_retry_backoff_ms rp) 1
       reliable_null_provider s"

definition reliable_call_stream ::
    "(reliable_event \<Rightarrow> 'w \<Rightarrow> 'w) \<Rightarrow> ('d::zero, 'w, 'c) reliable_provider \<Rightarrow> ('d, 'w, 'c) sc_provider \<Rightarrow> sc_provider_request \<Rightarrow>
       ('d, 'c) stream_callback \<Rightarrow> sc_allocator \<times> 'w \<times> 'c \<Rightarrow> sc_status \<times> sc_allocator \<times> 'w \<times> 'c" where
  "reliable_call_stream note rp p request callback s =
     retry_loop (stream_call p request callback) (note_stream note) (p_name p) (rp_max_retries rp) (rp_retry_backoff_ms rp) 1
       reliable_null_provider s"

text \<open>Once some candidate's name occurs in the model's name, the candidates whose names do not occur in it are left out.\<close>

definition candidate_skipped :: "('d, 'w, 'c) sc_provider list \<Rightarrow> sc_str \<Rightarrow> ('d, 'w, 'c) sc_provider \<Rightarrow> bool" where
  "candidate_skipped ps model p \<longleftrightarrow>
     list_ex (\<lambda>q. provider_matches_model q model) ps \<and> \<not> provider_matches_model p model"

definition exhausted_event :: "('d, 'w, 'c) reliable_provider \<Rightarrow> ('d, 'w, 'c) sc_provider \<Rightarrow> sc_status \<Rightarrow> reliable_event" where
  "exhausted_event rp p st = Attempt (p_name p) (rp_max_retries rp + 1) st ''provider.reliable.exhausted''"

definition reliable_generate ::
    "(reliable_event \<Rightarrow> 'w \<Rightarrow> 'w) \<Rightarrow> ('d, 'w, 'c) reliable_provider \<Rightarrow> ('d, 'w) generate_fn" where
  "reliable_generate note rp w request out a =
     try_candidates (candidate_skipped (items (rp_providers rp)) (req_model request))
       (\<lambda>p. reliable_call_generate note rp p request) (\<lambda>p st. note_generate note (exhausted_event rp p st))
       (items (rp_providers rp)) (sc_status_invalid_argument ''sc.provider_reliable.empty'') (out, a, w)"

definition reliable_stream ::
    "(reliable_event \<Rightarrow> 'w \<Rightarrow> 'w) \<Rightarrow> ('d::zero, 'w, 'c) reliable_provider \<Rightarrow> ('d, 'w, 'c) stream_fn" where
  "reliable_stream note rp w request a callback user =
     try_candidates (candidate_skipped (items (rp_providers rp)) (req_model request))
       (\<lambda>p. reliable_call_stream note rp p request callback) (\<lambda>p st. note_stream note (exhausted_event rp p st))
       (items (rp_providers rp)) (sc_status_invalid_argument ''sc.provider_reliable.empty'') (a, w, user)"

definition reliable_destroy :: "('d, 'w, 'c) reliable_provider \<Rightarrow> sc_allocator \<Rightarrow> sc_allocator" where
  "reliable_destroy rp a = sc_free True (snd (sc_vec_clear (rp_providers rp) a))"

definition reliable_vtab :: "(reliable_event \<Rightarrow> 'w \<Rightarrow> 'w) \<Rightarrow> ('d::zero, 'w, 'c) reliable_provider \<Rightarrow> ('d, 'w, 'c) sc_provider" where
  "reliable_vtab note rp =
     \<lparr>p_struct_size = SIZEOF_PROVIDER_VTAB, p_abi_major = SC_ABI_VERSION_MAJOR, p_name = Some ''reliable'',
      p_modes = SC_PROVIDER_MODE_CHAT OR SC_PROVIDER_MODE_STREAM, p_generate = Some (reliable_generate note rp),
      p_stream = Some (reliable_stream note rp), p_destroy = Some (reliable_destroy rp)\<rparr>"

fun push_providers ::
    "('d, 'w, 'c) sc_provider option list \<Rightarrow> ('d, 'w, 'c) sc_provider sc_vec \<Rightarrow> sc_allocator \<Rightarrow>
       sc_status \<times> ('d, 'w, 'c) sc_provider sc_vec \<times> sc_allocator" where
  "push_providers [] v a = (sc_status_ok, v, a)"
| "push_providers (None # ps) v a = (reliable_null_provider, v, a)"
| "push_providers (Some p # ps) v a =
     (case sc_vec_push v (Some p) a of
        (st, v1, a1) \<Rightarrow> (if sc_status_is_ok st then push_providers ps v1 a1 else (st, v1, a1)))"

definition sc_provider_reliable_new_with_options ::
    "(reliable_event \<Rightarrow> 'w \<Rightarrow> 'w) \<Rightarrow> ('d::zero, 'w, 'c) sc_provider option list \<Rightarrow> 32 word \<Rightarrow> 32 word \<Rightarrow> sc_allocator \<Rightarrow>
       ('d, 'w, 'c) sc_provider res \<times> sc_allocator" where
  "sc_provider_reliable_new_with_options note ps max_retries backoff a =
     (if ps = [] then (Inl (sc_status_invalid_argument ''sc.provider_reliable.invalid_argument''), a)
      else (case sc_alloc SIZEOF_RELIABLE_PROVIDER a of
              (False, a1) \<Rightarrow> (Inl sc_status_no_memory, a1)
            | (True, a1) \<Rightarrow>
                (case push_providers ps (sc_vec_init 8) a1 of
                   (st, v, a2) \<Rightarrow>
                     (let rp = \<lparr>rp_providers = v, rp_max_retries = max_retries, rp_retry_backoff_ms = backoff\<rparr> in
                      (if \<not> sc_status_is_ok st then (Inl st, reliable_destroy rp a2)
                       else (case sc_provider_new (Some (reliable_vtab note rp)) a2 of
                               (Inl e, a3) \<Rightarrow> (Inl e, reliable_destroy rp a3)
                             | (Inr h, a3) \<Rightarrow> (Inr h, a3)))))))"

definition sc_provider_reliable_new ::
    "(reliable_event \<Rightarrow> 'w \<Rightarrow> 'w) \<Rightarrow> ('d::zero, 'w, 'c) sc_provider option list \<Rightarrow> sc_allocator \<Rightarrow>
       ('d, 'w, 'c) sc_provider res \<times> sc_allocator" where
  "sc_provider_reliable_new note ps a = sc_provider_reliable_new_with_options note ps 2 0 a"

section \<open>What the retry loop does\<close>

text \<open>The state before the attempt that follows \<open>k\<close> attempts which all failed, and the status of that attempt.\<close>

primrec failed_attempts ::
    "('s \<Rightarrow> sc_status \<times> 's) \<Rightarrow> (reliable_event \<Rightarrow> 's \<Rightarrow> 's) \<Rightarrow> string option \<Rightarrow> 32 word \<Rightarrow> 's \<Rightarrow> nat \<Rightarrow> 's" where
  "failed_attempts call note name backoff s 0 = s"
| "failed_attempts call note name backoff s (Suc k) =
     (case call (failed_attempts call note name backoff s k) of
        (st, s1) \<Rightarrow> sleep_ms note (backoff * of_nat (Suc k)) (note (Attempt name (of_nat (Suc k)) st (attempt_key st)) s1))"

definition attempt_status ::
    "('s \<Rightarrow> sc_status \<times> 's) \<Rightarrow> (reliable_event \<Rightarrow> 's \<Rightarrow> 's) \<Rightarrow> string option \<Rightarrow> 32 word \<Rightarrow> 's \<Rightarrow> nat \<Rightarrow> sc_status" where
  "attempt_status call note name backoff s k = fst (call (failed_attempts call note name backoff s k))"

lemma should_retry_not_ok: "sc_provider_should_retry st 0 \<Longrightarrow> \<not> sc_status_is_ok st"
  by (auto simp: should_retry_iff sc_status_is_ok_def)

lemma attempt_in_range:
  fixes m :: "32 word"
  assumes "m \<noteq> - 1" "k \<le> unat m"
  shows "(of_nat (Suc k) :: 32 word) \<le> m + 1" "(of_nat (Suc k) :: 32 word) > m \<longleftrightarrow> k = unat m"
proof -
  have m1: "unat (m + 1) = unat m + 1"
    using assms(1) by (rule unat_plus_one)
  have "unat (m + 1) < 2 ^ 32" using unsigned_less [of "m + 1"] by simp
  then have "Suc k < 2 ^ 32" using m1 assms(2) by linarith
  then have k: "unat (of_nat (Suc k) :: 32 word) = Suc k" by (simp add: unsigned_of_nat take_bit_nat_eq_self del: of_nat_Suc)
  show "(of_nat (Suc k) :: 32 word) \<le> m + 1" using k m1 assms(2) by (simp add: word_le_nat_alt del: of_nat_Suc)
  show "(of_nat (Suc k) :: 32 word) > m \<longleftrightarrow> k = unat m" using k assms(2) by (auto simp: word_less_nat_alt simp del: of_nat_Suc)
qed

lemma retry_loop_unroll:
  assumes "m \<noteq> - 1" "k \<le> unat m"
    and "\<And>i. i < k \<Longrightarrow> sc_provider_should_retry (attempt_status call note name backoff s i) 0"
  shows "\<exists>st'. retry_loop call note name m backoff 1 st s =
    retry_loop call note name m backoff (of_nat (Suc k)) st' (failed_attempts call note name backoff s k)"
  using assms(2,3)
proof (induction k)
  case 0
  then show ?case by auto
next
  case (Suc k)
  then obtain st' where ih: "retry_loop call note name m backoff 1 st s =
      retry_loop call note name m backoff (of_nat (Suc k)) st' (failed_attempts call note name backoff s k)" by fastforce
  let ?f = "failed_attempts call note name backoff s"
  have r: "sc_provider_should_retry (fst (call (?f k))) 0" using Suc.prems(2) [of k] by (simp add: attempt_status_def)
  have le: "(of_nat (Suc k) :: 32 word) \<le> m + 1" "\<not> (of_nat (Suc k) :: 32 word) > m"
    using attempt_in_range [OF assms(1), of k] Suc.prems(1) by auto
  have "retry_loop call note name m backoff (of_nat (Suc k)) st' (?f k) =
      retry_loop call note name m backoff (of_nat (Suc k) + 1) sc_status_ok (?f (Suc k))"
    using r le should_retry_not_ok [OF r]
    by (subst retry_loop.simps) (auto simp: Let_def split: prod.splits simp del: of_nat_Suc)
  with ih show ?case by (auto simp: add.commute)
qed

text \<open>The loop stops at the first attempt that succeeds, that cannot be retried, or that is the last one allowed.\<close>

lemma retry_loop_settles:
  assumes "m \<noteq> - 1" "k \<le> unat m"
    and "\<And>i. i < k \<Longrightarrow> sc_provider_should_retry (attempt_status call note name backoff s i) 0"
    and "\<not> sc_provider_should_retry (attempt_status call note name backoff s k) 0 \<or> k = unat m"
  shows "retry_loop call note name m backoff 1 st s =
    (case call (failed_attempts call note name backoff s k) of
       (st', s1) \<Rightarrow> (st', note (Attempt name (of_nat (Suc k)) st' (attempt_key st')) s1))"
proof -
  obtain st' where u: "retry_loop call note name m backoff 1 st s =
      retry_loop call note name m backoff (of_nat (Suc k)) st' (failed_attempts call note name backoff s k)"
    using retry_loop_unroll [OF assms(1-3)] by blast
  have "(of_nat (Suc k) :: 32 word) \<le> m + 1" "(of_nat (Suc k) :: 32 word) > m \<longleftrightarrow> k = unat m"
    using attempt_in_range [OF assms(1,2)] by auto
  then show ?thesis
    using assms(4) unfolding u
    by (subst retry_loop.simps) (auto simp: Let_def attempt_status_def split: prod.splits simp del: of_nat_Suc)
qed

lemma settles_somewhere:
  fixes n :: nat
  shows "\<exists>k \<le> n. (\<forall>i < k. P i) \<and> (\<not> P k \<or> k = n)"
proof (cases "\<exists>k \<le> n. \<not> P k")
  case True
  define k where "k = (LEAST k. \<not> P k)"
  have "\<not> P k" unfolding k_def using True LeastI_ex [of "\<lambda>k. \<not> P k"] by blast
  moreover have "P i" if "i < k" for i using that unfolding k_def by (blast dest: not_less_Least)
  moreover have "k \<le> n" unfolding k_def using True by (meson Least_le order_trans)
  ultimately show ?thesis by blast
qed auto

lemma retry_loop_characterised:
  assumes "m \<noteq> - 1"
  shows "\<exists>k \<le> unat m. (\<forall>i < k. sc_provider_should_retry (attempt_status call note name backoff s i) 0) \<and>
    (\<not> sc_provider_should_retry (attempt_status call note name backoff s k) 0 \<or> k = unat m) \<and>
    retry_loop call note name m backoff 1 st s =
      (case call (failed_attempts call note name backoff s k) of
         (st', s1) \<Rightarrow> (st', note (Attempt name (of_nat (Suc k)) st' (attempt_key st')) s1))"
proof -
  obtain k where k: "k \<le> unat m" "\<forall>i < k. sc_provider_should_retry (attempt_status call note name backoff s i) 0"
    "\<not> sc_provider_should_retry (attempt_status call note name backoff s k) 0 \<or> k = unat m"
    using settles_somewhere [of "unat m" "\<lambda>i. sc_provider_should_retry (attempt_status call note name backoff s i) 0"] by blast
  have "retry_loop call note name m backoff 1 st s =
      (case call (failed_attempts call note name backoff s k) of
         (st', s1) \<Rightarrow> (st', note (Attempt name (of_nat (Suc k)) st' (attempt_key st')) s1))"
    by (rule retry_loop_settles [OF assms k(1) _ k(3)]) (use k(2) in simp)
  with k show ?thesis by (intro exI [of _ k] conjI)
qed

text \<open>With the largest number of retries the sum wraps to zero and the candidate is never called.\<close>

lemma retry_loop_wraps: "retry_loop call note name (- 1) backoff 1 st s = (st, s)"
  by (subst retry_loop.simps) simp

section \<open>The contract is kept\<close>

text \<open>A rule for the two loops: \<open>I\<close> holds between the calls, \<open>J\<close> after a call that succeeded.\<close>

lemma failed_attempts_keep:
  assumes "\<And>s st s'. I s \<Longrightarrow> call s = (st, s') \<Longrightarrow> \<not> sc_status_is_ok st \<Longrightarrow> I s'" "\<And>e s. I s \<Longrightarrow> I (note e s)"
    and "\<And>i. i < k \<Longrightarrow> sc_provider_should_retry (attempt_status call note name backoff s i) 0" "I s"
  shows "I (failed_attempts call note name backoff s k)"
  using assms(3)
proof (induction k)
  case (Suc k)
  then have "I (failed_attempts call note name backoff s k)" by simp
  moreover have "\<not> sc_status_is_ok (fst (call (failed_attempts call note name backoff s k)))"
    using Suc.prems [of k] should_retry_not_ok by (simp add: attempt_status_def)
  ultimately show ?case
    using assms(1,2) by (auto simp: sleep_ms_def split: prod.splits simp del: of_nat_Suc)
qed (use assms(4) in simp)

lemma retry_loop_rule:
  assumes run: "retry_loop call note name m backoff 1 st s = (st', s')" and s: "I s" and st: "\<not> sc_status_is_ok st"
    and call: "\<And>s st s'. I s \<Longrightarrow> call s = (st, s') \<Longrightarrow> if sc_status_is_ok st then J s' else I s'"
    and nt: "\<And>e s. I s \<Longrightarrow> I (note e s)" "\<And>e s. J s \<Longrightarrow> J (note e s)"
  shows "if sc_status_is_ok st' then J s' else I s'"
proof (cases "m = - 1")
  case True
  with run s st show ?thesis by (simp add: retry_loop_wraps)
next
  case False
  from retry_loop_characterised [OF this, of call "note" name backoff s st] obtain k where
    k: "\<And>i. i < k \<Longrightarrow> sc_provider_should_retry (attempt_status call note name backoff s i) 0"
    "retry_loop call note name m backoff 1 st s =
      (case call (failed_attempts call note name backoff s k) of
         (st', s1) \<Rightarrow> (st', note (Attempt name (of_nat (Suc k)) st' (attempt_key st')) s1))" by blast
  have "I (failed_attempts call note name backoff s k)"
    by (rule failed_attempts_keep [where I = I]) (use call nt(1) k(1) s in \<open>auto dest: call\<close>)
  from call [OF this] k(2) run nt show ?thesis by (auto split: prod.splits if_splits)
qed

lemma try_candidates_rule:
  assumes "try_candidates skipped call exhausted cs st s = (st', s')" "I s" "\<not> sc_status_is_ok st"
    and call: "\<And>c s st s'. c \<in> set cs \<Longrightarrow> I s \<Longrightarrow> call c s = (st, s') \<Longrightarrow> if sc_status_is_ok st then J s' else I s'"
    and log: "\<And>c st s. I s \<Longrightarrow> I (exhausted c st s)"
  shows "if sc_status_is_ok st' then J s' else I s'"
  using assms
proof (induction cs arbitrary: st s)
  case (Cons c cs)
  have rest: "c' \<in> set cs \<Longrightarrow> I s \<Longrightarrow> call c' s = (st, s') \<Longrightarrow> if sc_status_is_ok st then J s' else I s'" for c' s st s'
    by (rule Cons.prems(4)) simp_all
  show ?case
  proof (cases "skipped c")
    case True
    with Cons.prems(1) have "try_candidates skipped call exhausted cs st s = (st', s')" by simp
    then show ?thesis using Cons.IH Cons.prems(2,3,5) rest by blast
  next
    case False
    obtain st1 s1 where c: "call c s = (st1, s1)" by (cases "call c s")
    have out: "if sc_status_is_ok st1 then J s1 else I s1" using Cons.prems(4) [OF _ Cons.prems(2) c] by simp
    show ?thesis
    proof (cases "sc_status_is_ok st1 \<or> final_code st1")
      case True
      with Cons.prems(1) False c out show ?thesis by auto
    next
      case go: False
      then have "try_candidates skipped call exhausted cs st1 (exhausted c st1 s1) = (st', s')" "I (exhausted c st1 s1)"
        using Cons.prems(1,5) False c out by auto
      from Cons.IH [OF this] rest Cons.prems(5) go show ?thesis by blast
    qed
  qed
qed simp

text \<open>The contract as a single invariant of the state of a generating call.\<close>

definition gen_before :: "bool \<Rightarrow> int \<Rightarrow> 'd sc_provider_response \<times> sc_allocator \<times> 'w \<Rightarrow> bool" where
  "gen_before g k s = (case s of (out, a, w) \<Rightarrow> fresh_response out \<and> (g \<longrightarrow> generous a \<and> live a = k))"

definition gen_after :: "bool \<Rightarrow> int \<Rightarrow> 'd sc_provider_response \<times> sc_allocator \<times> 'w \<Rightarrow> bool" where
  "gen_after g k s = (case s of (out, a, w) \<Rightarrow> response_inv out \<and> (g \<longrightarrow> generous a \<and> live a = k + response_blocks out))"

lemma contract_step:
  assumes "provider_contract gen" "gen w request out a = (st, s')" "gen_before g k (out, a, w)"
  shows "if sc_status_is_ok st then gen_after g k s' else gen_before g k s'"
proof -
  obtain out' a' w' where s': "s' = (out', a', w')" by (cases s')
  note laws = provider_contract.failed_fresh [OF assms(1)] provider_contract.ok_inv [OF assms(1)]
    provider_contract.balanced [OF assms(1)]
  have f: "fresh_response out" "g \<Longrightarrow> generous a \<and> live a = k" using assms(3) by (auto simp: gen_before_def)
  show ?thesis
    using laws [OF assms(2) [unfolded s'] f(1)] f(2) by (auto simp: s' gen_before_def gen_after_def fresh_response_def)
qed

lemma contract_from_step:
  assumes "\<And>w request out a st s' g k. gen w request out a = (st, s') \<Longrightarrow> gen_before g k (out, a, w) \<Longrightarrow>
    if sc_status_is_ok st then gen_after g k s' else gen_before g k s'"
  shows "provider_contract gen"
proof
  fix w request out a st out' a' w'
  assume run: "gen w request out a = (st, out', a', w')" and f: "fresh_response out"
  have "gen_before False 0 (out, a, w)" using f by (simp add: gen_before_def)
  from assms [OF run this] show "\<not> sc_status_is_ok st \<Longrightarrow> fresh_response out'" "sc_status_is_ok st \<Longrightarrow> response_inv out'"
    by (simp_all add: gen_before_def gen_after_def)
  assume "generous a"
  then have "gen_before True (live a) (out, a, w)" using f by (simp add: gen_before_def)
  from assms [OF run this] show "live a' = live a + response_blocks out' \<and> generous a'"
    by (auto simp: gen_before_def gen_after_def fresh_response_def split: if_splits)
qed

lemma note_generate_keeps:
  "gen_before g k s \<Longrightarrow> gen_before g k (note_generate note e s)" "gen_after g k s \<Longrightarrow> gen_after g k (note_generate note e s)"
  by (auto simp: gen_before_def gen_after_def note_generate_def split: prod.splits)

definition keeps_contract :: "('d, 'w, 'c) sc_provider \<Rightarrow> bool" where
  "keeps_contract p \<longleftrightarrow> (\<forall>gen. p_generate p = Some gen \<longrightarrow> provider_contract gen)"

lemma reliable_contract:
  assumes "\<And>p. p \<in> set (items (rp_providers rp)) \<Longrightarrow> keeps_contract p"
  shows "provider_contract (reliable_generate note rp)"
proof (rule contract_from_step)
  fix w request out a st s' g and k :: int
  assume run: "reliable_generate note rp w request out a = (st, s')" and b: "gen_before g k (out, a, w)"
  have call: "if sc_status_is_ok st then gen_after g k s' else gen_before g k s'"
    if "p \<in> set (items (rp_providers rp))" "gen_before g k s" "reliable_call_generate note rp p request s = (st, s')" for p s st s'
  proof (rule retry_loop_rule [where I = "gen_before g k" and J = "gen_after g k", OF that(3) [unfolded reliable_call_generate_def] that(2)])
    have c: "provider_contract (sc_provider_generate (Some p))"
      using assms [OF that(1)] by (intro contract_generate) (simp add: keeps_contract_def)
    show "if sc_status_is_ok st then gen_after g k s' else gen_before g k s'"
      if "gen_before g k s" "generate_call p request s = (st, s')" for s st s'
      using contract_step [OF c] that by (cases s) (auto simp: generate_call_def)
  qed (auto simp: reliable_null_provider_def note_generate_keeps)
  show "if sc_status_is_ok st then gen_after g k s' else gen_before g k s'"
    by (rule try_candidates_rule [where I = "gen_before g k" and J = "gen_after g k", OF run [unfolded reliable_generate_def] b])
      (use call in \<open>auto simp: note_generate_keeps\<close>)
qed

lemma reliable_keeps_contract:
  assumes "\<And>p. p \<in> set (items (rp_providers rp)) \<Longrightarrow> keeps_contract p"
  shows "keeps_contract (reliable_vtab note rp)"
  using reliable_contract [OF assms] by (simp add: keeps_contract_def reliable_vtab_def)

lemma mock_keeps_contract: "keeps_contract (mock_vtab strtod m)"
  by (simp add: keeps_contract_def mock_vtab_def mock.provider_contract_axioms)

section \<open>Creating and destroying\<close>

lemma push_providers_spec:
  assumes "push_providers ps v a = (st, v', a')" "vec_inv v"
  shows "vec_inv v' \<and> live a' = live a + vec_blocks v' - vec_blocks v \<and>
    (sc_status_is_ok st \<longrightarrow> map Some (items v') = map Some (items v) @ ps)"
  using assms
proof (induction ps v a arbitrary: st v' a' rule: push_providers.induct)
  case (3 p ps v a)
  obtain s1 v1 a1 where push: "sc_vec_push v (Some p) a = (s1, v1, a1)" by (cases "sc_vec_push v (Some p) a")
  note sp = vec_push_spec [OF push 3(3)]
  show ?case
  proof (cases "sc_status_is_ok s1")
    case True
    with 3(2) push have "push_providers ps v1 a1 = (st, v', a')" by simp
    from 3(1) [OF push [symmetric] refl True this] sp True show ?thesis by auto
  qed (use 3(2) push sp in auto)
qed (auto simp: reliable_null_provider_def)

lemma reliable_new_balanced:
  assumes "sc_provider_reliable_new_with_options note ps m backoff a = (r, a')"
  shows "case r of Inl e \<Rightarrow> \<not> sc_status_is_ok e \<and> live a' = live a
    | Inr h \<Rightarrow> live (sc_provider_destroy (Some h) a') = live a \<and>
        (\<exists>rp. h = reliable_vtab note rp \<and> map Some (items (rp_providers rp)) = ps \<and> rp_max_retries rp = m \<and> rp_retry_backoff_ms rp = backoff)"
proof (cases "ps = []")
  case False
  obtain ok a1 where al: "sc_alloc SIZEOF_RELIABLE_PROVIDER a = (ok, a1)" by (cases "sc_alloc SIZEOF_RELIABLE_PROVIDER a")
  obtain st v a2 where pp: "push_providers ps (sc_vec_init 8) a1 = (st, v, a2)" by (cases "push_providers ps (sc_vec_init 8) a1")
  define rp where "rp = \<lparr>rp_providers = v, rp_max_retries = m, rp_retry_backoff_ms = backoff\<rparr>"
  obtain r3 a3 where pn: "sc_provider_new (Some (reliable_vtab note rp)) a2 = (r3, a3)"
    by (cases "sc_provider_new (Some (reliable_vtab note rp)) a2")
  note vec = push_providers_spec [OF pp vec_inv_init] and live1 = alloc_cases [OF al]
  note new = provider_new_live [OF pn]
  have d: "live (reliable_destroy rp b) = live b - 1 - vec_blocks v" for b
    using vec by (simp add: reliable_destroy_def rp_def vec_clear_live)
  have "p_destroy (reliable_vtab note rp) = Some (reliable_destroy rp)" by (simp add: reliable_vtab_def)
  note dest = provider_destroy_live [OF this] and run = assms [unfolded sc_provider_reliable_new_with_options_def Let_def]
  show ?thesis
  proof (cases "ok \<and> sc_status_is_ok st")
    case True
    then have "(case r3 of Inl e \<Rightarrow> (Inl e, reliable_destroy rp a3) | Inr h \<Rightarrow> (Inr h, a3)) = (r, a')"
      using run False al pp pn by (cases r3) (auto simp: rp_def)
    moreover have "map Some (items (rp_providers rp)) = ps" "rp_max_retries rp = m" "rp_retry_backoff_ms rp = backoff"
      using vec True by (simp_all add: rp_def)
    ultimately show ?thesis using new d dest live1 vec True by (auto split: sum.splits)
  next
    case bad: False
    then have "r = Inl (if ok then st else sc_status_no_memory)" "a' = (if ok then reliable_destroy rp a2 else a1)"
      using run False al pp by (auto simp: rp_def split: bool.splits if_splits)
    then show ?thesis using d live1 vec bad by auto
  qed
qed (use assms in \<open>auto simp: sc_provider_reliable_new_with_options_def\<close>)

end
