(* ===== verification/SC_Router.thy ===== *)
theory SC_Router
  imports SC_Reliable
begin

text \<open>
  The routing provider, \<^verbatim>\<open>src/providers/router.c\<close>: a request goes to the provider of the first route that its hint
  names, to the tool provider when the prompt mentions tools, and to the default provider otherwise. The observer is
  a function on the world that is given the name of the route.
\<close>

section \<open>The router\<close>

record ('d, 'w, 'c) router_route =
  hint :: sc_string
  route_provider :: "('d, 'w, 'c) sc_provider"

record ('d, 'w, 'c) router_provider =
  default_provider :: "('d, 'w, 'c) sc_provider"
  tool_provider :: "('d, 'w, 'c) sc_provider"
  routes :: "('d, 'w, 'c) router_route sc_vec"
  observer :: "(sc_str \<Rightarrow> 'w \<Rightarrow> 'w) option"

definition SIZEOF_ROUTER_PROVIDER :: nat where
  "SIZEOF_ROUTER_PROVIDER = 72"

definition SIZEOF_ROUTER_ROUTE :: nat where
  "SIZEOF_ROUTER_ROUTE = 32"

text \<open>A hint is a list of names; a colon ends only what stands before a name.\<close>

definition hint_at :: "string \<Rightarrow> string \<Rightarrow> nat \<Rightarrow> bool" where
  "hint_at configured requested i \<longleftrightarrow>
     (i = 0 \<or> requested ! (i - 1) \<in> set '', :;'') \<and>
     (i + length configured = length requested \<or> requested ! (i + length configured) \<in> set '', ;'') \<and>
     take (length configured) (drop i requested) = configured"

definition route_hint_matches :: "sc_str \<Rightarrow> sc_str \<Rightarrow> bool" where
  "route_hint_matches configured requested =
     (if str_len configured = 0 \<or> str_len requested = 0 then False
      else if sc_str_equal configured requested then True
      else list_ex (hint_at (str_bytes configured) (str_bytes requested)) [0..<str_len requested + 1 - str_len configured])"

definition prompt_mentions_tools :: "sc_str \<Rightarrow> bool" where
  "prompt_mentions_tools prompt =
     (if ptr_null prompt \<or> str_len prompt < 4 then False else contains_sub ''tool'' (str_bytes prompt))"

definition select_hint_route ::
    "('d, 'w, 'c) router_provider \<Rightarrow> sc_str \<Rightarrow> (('d, 'w, 'c) sc_provider \<times> sc_str) option" where
  "select_hint_route r route_hint =
     (if str_len route_hint = 0 then None
      else map_option (\<lambda>t. (route_provider t, sc_str_from_cstr (hint t)))
             (find_first (\<lambda>t. route_hint_matches (sc_string_as_str (hint t)) route_hint) (items (routes r))))"

text \<open>The provider chosen and the name of its route.\<close>

definition select_provider :: "('d, 'w, 'c) router_provider \<Rightarrow> sc_provider_request \<Rightarrow> ('d, 'w, 'c) sc_provider \<times> sc_str" where
  "select_provider r request =
     (case select_hint_route r (req_route_hint request) of
        Some c \<Rightarrow> c
      | None \<Rightarrow> (if prompt_mentions_tools (req_prompt request) then (tool_provider r, Str ''tools'')
                 else (default_provider r, Str ''default'')))"

definition emit_route :: "('d, 'w, 'c) router_provider \<Rightarrow> sc_str \<Rightarrow> 'w \<Rightarrow> 'w" where
  "emit_route r name w = (case observer r of None \<Rightarrow> w | Some emit \<Rightarrow> emit name w)"

definition router_generate :: "('d, 'w, 'c) router_provider \<Rightarrow> ('d, 'w) generate_fn" where
  "router_generate r w request out a =
     (case select_provider r request of
        (selected, name) \<Rightarrow> sc_provider_generate (Some selected) (emit_route r name w) request out a)"

definition router_stream :: "('d::zero, 'w, 'c) router_provider \<Rightarrow> ('d, 'w, 'c) stream_fn" where
  "router_stream r w request a callback user =
     (case select_provider r request of
        (selected, name) \<Rightarrow> sc_provider_stream (Some selected) (emit_route r name w) request a callback user)"

fun clear_hints :: "('d, 'w, 'c) router_route list \<Rightarrow> sc_allocator \<Rightarrow> sc_allocator" where
  "clear_hints [] a = a"
| "clear_hints (t # ts) a = clear_hints ts (sc_string_clear (hint t) a)"

definition router_destroy :: "('d, 'w, 'c) router_provider \<Rightarrow> sc_allocator \<Rightarrow> sc_allocator" where
  "router_destroy r a = sc_free True (snd (sc_vec_clear (routes r) (clear_hints (items (routes r)) a)))"

definition router_vtab :: "('d::zero, 'w, 'c) router_provider \<Rightarrow> ('d, 'w, 'c) sc_provider" where
  "router_vtab r =
     \<lparr>p_struct_size = SIZEOF_PROVIDER_VTAB, p_abi_major = SC_ABI_VERSION_MAJOR, p_name = Some ''router'',
      p_modes = SC_PROVIDER_MODE_CHAT OR SC_PROVIDER_MODE_STREAM, p_generate = Some (router_generate r),
      p_stream = Some (router_stream r), p_destroy = Some (router_destroy r)\<rparr>"

section \<open>Creating a router\<close>

record ('d, 'w, 'c) sc_provider_route =
  cfg_hint :: sc_str
  cfg_provider :: "('d, 'w, 'c) sc_provider option"

fun push_routes ::
    "('d, 'w, 'c) sc_provider_route list \<Rightarrow> ('d, 'w, 'c) router_route sc_vec \<Rightarrow> sc_allocator \<Rightarrow>
       sc_status \<times> ('d, 'w, 'c) router_route sc_vec \<times> sc_allocator" where
  "push_routes [] v a = (sc_status_ok, v, a)"
| "push_routes (c # cs) v a =
     (if str_len (cfg_hint c) = 0 then (sc_status_invalid_argument ''sc.provider_router.invalid_route'', v, a)
      else (case cfg_provider c of
              None \<Rightarrow> (sc_status_invalid_argument ''sc.provider_router.invalid_route'', v, a)
            | Some p \<Rightarrow>
                (case sc_string_from_str (cfg_hint c) a of
                   (Inl e, a1) \<Rightarrow> (e, v, a1)
                 | (Inr h, a1) \<Rightarrow>
                     (case sc_vec_push v (Some \<lparr>hint = h, route_provider = p\<rparr>) a1 of
                        (st, v1, a2) \<Rightarrow>
                          (if sc_status_is_ok st then push_routes cs v1 a2 else (st, v1, sc_string_clear h a2))))))"

definition tools_route :: "('d, 'w, 'c) router_route list \<Rightarrow> ('d, 'w, 'c) sc_provider \<Rightarrow> ('d, 'w, 'c) sc_provider" where
  "tools_route ts dflt =
     (case find_first (\<lambda>t. sc_str_equal (sc_string_as_str (hint t)) (Str ''tools'')) ts of
        None \<Rightarrow> dflt
      | Some t \<Rightarrow> route_provider t)"

definition sc_provider_router_routes_new ::
    "('d::zero, 'w, 'c) sc_provider option \<Rightarrow> ('d, 'w, 'c) sc_provider_route list \<Rightarrow> (sc_str \<Rightarrow> 'w \<Rightarrow> 'w) option \<Rightarrow> sc_allocator \<Rightarrow>
       ('d, 'w, 'c) sc_provider res \<times> sc_allocator" where
  "sc_provider_router_routes_new dflt rs obs a =
     (case dflt of
        None \<Rightarrow> (Inl (sc_status_invalid_argument ''sc.provider_router.invalid_argument''), a)
      | Some dp \<Rightarrow>
          (case sc_alloc SIZEOF_ROUTER_PROVIDER a of
             (False, a1) \<Rightarrow> (Inl sc_status_no_memory, a1)
           | (True, a1) \<Rightarrow>
               (case push_routes rs (sc_vec_init SIZEOF_ROUTER_ROUTE) a1 of
                  (st, v, a2) \<Rightarrow>
                    (if \<not> sc_status_is_ok st
                     then (Inl st, router_destroy \<lparr>default_provider = dp, tool_provider = dp, routes = v, observer = obs\<rparr> a2)
                     else (let r = \<lparr>default_provider = dp, tool_provider = tools_route (items v) dp, routes = v, observer = obs\<rparr> in
                           (case sc_provider_new (Some (router_vtab r)) a2 of
                              (Inl e, a3) \<Rightarrow> (Inl e, router_destroy r a3)
                            | (Inr h, a3) \<Rightarrow> (Inr h, a3)))))))"

definition sc_provider_router_new ::
    "('d::zero, 'w, 'c) sc_provider option \<Rightarrow> ('d, 'w, 'c) sc_provider option \<Rightarrow> (sc_str \<Rightarrow> 'w \<Rightarrow> 'w) option \<Rightarrow> sc_allocator \<Rightarrow>
       ('d, 'w, 'c) sc_provider res \<times> sc_allocator" where
  "sc_provider_router_new dflt tool obs a =
     sc_provider_router_routes_new dflt
       (case tool of None \<Rightarrow> [] | Some p \<Rightarrow> [\<lparr>cfg_hint = Str ''tools'', cfg_provider = Some p\<rparr>]) obs a"

section \<open>What a hint selects\<close>

definition left_bound :: "string \<Rightarrow> bool" where
  "left_bound l \<longleftrightarrow> l = [] \<or> last l \<in> set '', :;''"

definition right_bound :: "string \<Rightarrow> bool" where
  "right_bound r \<longleftrightarrow> r = [] \<or> hd r \<in> set '', ;''"

lemma hint_at_split:
  assumes "i + length c \<le> length t"
  shows "hint_at c t i \<longleftrightarrow>
    (left_bound (take i t) \<and> right_bound (drop (i + length c) t) \<and> t = take i t @ c @ drop (i + length c) t)"
proof -
  have "last (take i t) = t ! (i - 1)" if "i \<noteq> 0" "t \<noteq> []"
    using assms that by (subst last_conv_nth) auto
  then have l: "left_bound (take i t) \<longleftrightarrow> i = 0 \<or> t ! (i - 1) \<in> set '', :;''" if "t \<noteq> []"
    unfolding left_bound_def using that by (metis take_eq_Nil)
  have r: "right_bound (drop (i + length c) t) \<longleftrightarrow> i + length c = length t \<or> t ! (i + length c) \<in> set '', ;''"
    using assms by (cases "i + length c = length t") (auto simp: right_bound_def hd_drop_conv_nth)
  have m: "take (length c) (drop i t) = c \<longleftrightarrow> t = take i t @ c @ drop (i + length c) t"
    using assms by (metis add.commute append_eq_conv_conj append_take_drop_id drop_drop length_drop length_take min.absorb2
        nat_le_iff_add append_same_eq same_append_eq take_add)
  show ?thesis
  proof (cases "t = []")
    case True
    with assms show ?thesis by (auto simp: hint_at_def left_bound_def right_bound_def)
  qed (use l r m in \<open>auto simp: hint_at_def\<close>)
qed

text \<open>A configured hint matches where it stands in the request between two bounds: the index loop finds every such place.\<close>

lemma route_hint_matches_iff:
  "route_hint_matches (Str c) (Str t) \<longleftrightarrow> c \<noteq> [] \<and> (\<exists>l r. t = l @ c @ r \<and> left_bound l \<and> right_bound r)"
proof (cases "c = [] \<or> t = []")
  case True
  then show ?thesis by (auto simp: route_hint_matches_def)
next
  case False
  let ?at = "list_ex (hint_at c t) [0..<length t + 1 - length c]"
  have "i \<in> set [0..<length t + 1 - length c] \<longleftrightarrow> i + length c \<le> length t" for i by auto
  then have "?at \<longleftrightarrow> (\<exists>i. i + length c \<le> length t \<and> hint_at c t i)" unfolding list_ex_iff by blast
  also have "\<dots> \<longleftrightarrow> (\<exists>l r. t = l @ c @ r \<and> left_bound l \<and> right_bound r)" (is "?L \<longleftrightarrow> ?R")
  proof
    assume ?L
    then show ?R using hint_at_split by blast
  next
    assume ?R
    then obtain l r where t: "t = l @ c @ r" "left_bound l" "right_bound r" by blast
    then have le: "length l + length c \<le> length t" by simp
    moreover have "hint_at c t (length l)" using hint_at_split [OF le] t by simp
    ultimately show ?L by blast
  qed
  finally have at: "?at \<longleftrightarrow> ?R" .
  moreover have ?R if "c = t" using that by (intro exI [of _ "[]"]) (simp add: left_bound_def right_bound_def)
  ultimately show ?thesis using False by (auto simp: route_hint_matches_def simp del: upt_Suc)
qed

section \<open>The contract is kept\<close>

definition router_candidates :: "('d, 'w, 'c) router_provider \<Rightarrow> ('d, 'w, 'c) sc_provider set" where
  "router_candidates r = {default_provider r, tool_provider r} \<union> route_provider ` set (items (routes r))"

lemma selected_candidate: "fst (select_provider r request) \<in> router_candidates r"
  by (auto simp: select_provider_def select_hint_route_def router_candidates_def split: option.splits if_splits
      dest: find_first_SomeD)

lemma router_contract:
  assumes "\<And>p. p \<in> router_candidates r \<Longrightarrow> keeps_contract p"
  shows "provider_contract (router_generate r)"
proof (rule contract_from_step)
  fix w request out a st s' g and k :: int
  assume run: "router_generate r w request out a = (st, s')" and b: "gen_before g k (out, a, w)"
  obtain p name where sel: "select_provider r request = (p, name)" by (cases "select_provider r request")
  have "keeps_contract p" using assms selected_candidate [of r request] sel by simp
  then have c: "provider_contract (sc_provider_generate (Some p))"
    by (intro contract_generate) (simp add: keeps_contract_def)
  have "sc_provider_generate (Some p) (emit_route r name w) request out a = (st, s')"
    using run sel by (simp add: router_generate_def)
  moreover have "gen_before g k (out, a, emit_route r name w)" using b by (simp add: gen_before_def)
  ultimately show "if sc_status_is_ok st then gen_after g k s' else gen_before g k s'" by (rule contract_step [OF c])
qed

lemma router_keeps_contract:
  assumes "\<And>p. p \<in> router_candidates r \<Longrightarrow> keeps_contract p"
  shows "keeps_contract (router_vtab r)"
  using router_contract [OF assms] by (simp add: keeps_contract_def router_vtab_def)

section \<open>Creating and destroying\<close>

definition hints_blocks :: "('d, 'w, 'c) router_route list \<Rightarrow> int" where
  "hints_blocks ts = sum_list (map (\<lambda>t. string_blocks (hint t)) ts)"

lemma clear_hints_live: "live (clear_hints ts a) = live a - hints_blocks ts"
  by (induction ts arbitrary: a) (simp_all add: hints_blocks_def)

definition configured_route :: "('d, 'w, 'c) sc_provider_route \<Rightarrow> ('d, 'w, 'c) router_route \<Rightarrow> bool" where
  "configured_route c t \<longleftrightarrow> hint t = Some (str_bytes (cfg_hint c)) \<and> cfg_provider c = Some (route_provider t)"

lemma push_routes_spec:
  assumes "push_routes cs v a = (st, v', a')" "vec_inv v"
  shows "vec_inv v' \<and> live a' - vec_blocks v' - hints_blocks (items v') = live a - vec_blocks v - hints_blocks (items v) \<and>
    (sc_status_is_ok st \<longrightarrow> (\<exists>ts. items v' = items v @ ts \<and> list_all2 configured_route cs ts))"
  using assms
proof (induction cs v a arbitrary: st v' a' rule: push_routes.induct)
  case (2 c cs v a)
  show ?case
  proof (cases "str_len (cfg_hint c) = 0 \<or> cfg_provider c = None")
    case True
    with 2(2,3) show ?thesis by (auto split: if_splits)
  next
    case False
    then obtain p where p: "cfg_provider c = Some p" by auto
    obtain rh a1 where h: "sc_string_from_str (cfg_hint c) a = (rh, a1)" by (cases "sc_string_from_str (cfg_hint c) a")
    show ?thesis
    proof (cases rh)
      case (Inl e)
      with 2(2,3) False p h string_from_str_Inl [OF h [unfolded Inl]] show ?thesis by auto
    next
      case (Inr hs)
      let ?t = "\<lparr>hint = hs, route_provider = p\<rparr>"
      obtain s1 v1 a2 where push: "sc_vec_push v (Some ?t) a1 = (s1, v1, a2)" by (cases "sc_vec_push v (Some ?t) a1")
      note sp = vec_push_spec [OF push 2(3)] and str = string_from_str_Inr [OF h [unfolded Inr]]
      show ?thesis
      proof (cases "sc_status_is_ok s1")
        case True
        with 2(2) False p h Inr push have "push_routes cs v1 a2 = (st, v', a')" by auto
        from 2(1) [OF _ p h [symmetric] Inr push [symmetric] refl True this] False sp True
        have ih: "vec_inv v'" "live a' - vec_blocks v' - hints_blocks (items v') = live a2 - vec_blocks v1 - hints_blocks (items v1)"
          "sc_status_is_ok st \<longrightarrow> (\<exists>ts. items v' = items v1 @ ts \<and> list_all2 configured_route cs ts)" by auto
        have "configured_route c ?t" using str p by (simp add: configured_route_def)
        then have "items v' = items v1 @ ts \<Longrightarrow> list_all2 configured_route cs ts \<Longrightarrow>
            items v' = items v @ (?t # ts) \<and> list_all2 configured_route (c # cs) (?t # ts)" for ts
          using sp True by simp
        with ih(3) have "sc_status_is_ok st \<longrightarrow> (\<exists>ts. items v' = items v @ ts \<and> list_all2 configured_route (c # cs) ts)" by blast
        with ih(1,2) sp True str show ?thesis by (auto simp: hints_blocks_def)
      next
        case bad: False
        with 2(2) False p h Inr push have "st = s1" "v' = v1" "a' = sc_string_clear hs a2" by auto
        with bad sp str show ?thesis by auto
      qed
    qed
  qed
qed auto

lemma router_new_balanced:
  assumes "sc_provider_router_routes_new dflt cs obs a = (r, a')"
  shows "case r of Inl e \<Rightarrow> \<not> sc_status_is_ok e \<and> live a' = live a
    | Inr h \<Rightarrow> live (sc_provider_destroy (Some h) a') = live a \<and>
        (\<exists>rt. h = router_vtab rt \<and> Some (default_provider rt) = dflt \<and> list_all2 configured_route cs (items (routes rt)) \<and>
           tool_provider rt = tools_route (items (routes rt)) (default_provider rt) \<and> observer rt = obs)"
proof (cases dflt)
  case (Some dp)
  obtain ok a1 where al: "sc_alloc SIZEOF_ROUTER_PROVIDER a = (ok, a1)" by (cases "sc_alloc SIZEOF_ROUTER_PROVIDER a")
  obtain st v a2 where pr: "push_routes cs (sc_vec_init SIZEOF_ROUTER_ROUTE) a1 = (st, v, a2)"
    by (cases "push_routes cs (sc_vec_init SIZEOF_ROUTER_ROUTE) a1")
  define rt where "rt = \<lparr>default_provider = dp, tool_provider = tools_route (items v) dp, routes = v, observer = obs\<rparr>"
  obtain r3 a3 where pn: "sc_provider_new (Some (router_vtab rt)) a2 = (r3, a3)" by (cases "sc_provider_new (Some (router_vtab rt)) a2")
  note vec = push_routes_spec [OF pr vec_inv_init] and live1 = alloc_cases [OF al] and new = provider_new_live [OF pn]
  have d: "live (router_destroy x b) = live b - 1 - vec_blocks v - hints_blocks (items v)" if "routes x = v" for x :: "('a, 'b, 'c) router_provider" and b
    using vec that by (simp add: router_destroy_def vec_clear_live clear_hints_live)
  have "p_destroy (router_vtab rt) = Some (router_destroy rt)" by (simp add: router_vtab_def)
  note dest = provider_destroy_live [OF this] and run = assms [unfolded sc_provider_router_routes_new_def Let_def]
  show ?thesis
  proof (cases "ok \<and> sc_status_is_ok st")
    case True
    then have "(case r3 of Inl e \<Rightarrow> (Inl e, router_destroy rt a3) | Inr h \<Rightarrow> (Inr h, a3)) = (r, a')"
      using run Some al pr pn by (cases r3) (auto simp: rt_def)
    moreover have "Some (default_provider rt) = dflt" "list_all2 configured_route cs (items (routes rt))"
      "tool_provider rt = tools_route (items (routes rt)) (default_provider rt)" "observer rt = obs" "routes rt = v"
      using vec True Some by (auto simp: rt_def)
    ultimately show ?thesis using new d [of rt] dest live1 vec True by (auto simp: hints_blocks_def split: sum.splits)
  next
    case False
    let ?x = "\<lparr>default_provider = dp, tool_provider = dp, routes = v, observer = obs\<rparr>"
    from False have "r = Inl (if ok then st else sc_status_no_memory)" "a' = (if ok then router_destroy ?x a2 else a1)"
      using run Some al pr by (auto split: bool.splits if_splits)
    then show ?thesis using d [of ?x] live1 vec False by (auto simp: hints_blocks_def)
  qed
qed (use assms in \<open>auto simp: sc_provider_router_routes_new_def\<close>)

end
