(* ===== verification/SC_History.thy ===== *)
theory SC_History
  imports SC_Steps SC_Utf8 "HOL-Library.Sublist"
begin

text \<open>
  The conversation history and the prompt builder of the agent, \<^verbatim>\<open>src/runtime/agent.c\<close>: messages with their
  roles, the removal of tool results that follow no request, compression of the older messages into a summary, and
  the budget in characters. Lengths of texts in memory are below the largest \<^verbatim>\<open>size_t\<close>, so the sums of a few lengths
  are written without wrap-around; the sums over a whole history saturate as in the code.
\<close>

section \<open>Messages and histories\<close>

record sc_history_message =
  msg_role :: sc_string
  msg_content :: sc_string

record sc_history =
  messages :: "sc_history_message sc_vec"
  max_messages :: nat

definition SIZEOF_HISTORY_MESSAGE :: nat where
  "SIZEOF_HISTORY_MESSAGE = 56"

definition message_zero :: sc_history_message where
  "message_zero = \<lparr>msg_role = None, msg_content = None\<rparr>"

definition empty_if_null :: "sc_str \<Rightarrow> sc_str" where
  "empty_if_null v = (if ptr_null v then Str [] else v)"

definition history_message_clear :: "sc_history_message \<Rightarrow> sc_allocator \<Rightarrow> sc_allocator" where
  "history_message_clear m a = sc_string_clear (msg_content m) (sc_string_clear (msg_role m) a)"

definition history_role_is :: "sc_str \<Rightarrow> string \<Rightarrow> bool" where
  "history_role_is role expected \<longleftrightarrow> \<not> ptr_null role \<and> str_len role = length expected \<and> str_bytes role = expected"

definition history_role_is_tool_result :: "sc_str \<Rightarrow> bool" where
  "history_role_is_tool_result role \<longleftrightarrow> history_role_is role ''tool'' \<or> history_role_is role ''tool_result''"

definition size_add_saturating :: "nat \<Rightarrow> nat \<Rightarrow> nat" where
  "size_add_saturating target v = (case sc_size_add_overflow target v of None \<Rightarrow> SIZE_MAX | Some n \<Rightarrow> n)"

definition history_message_estimated_chars :: "sc_history_message \<Rightarrow> nat" where
  "history_message_estimated_chars m =
     size_add_saturating (size_add_saturating (size_add_saturating 0 (string_len (msg_role m))) (string_len (msg_content m))) 2"

definition estimated_chars :: "sc_history_message list \<Rightarrow> nat" where
  "estimated_chars ms = foldl (\<lambda>total m. size_add_saturating total (history_message_estimated_chars m)) 0 ms"

definition sc_history_estimated_chars :: "sc_history \<Rightarrow> nat" where
  "sc_history_estimated_chars h = estimated_chars (items (messages h))"

definition sc_history_init :: "nat \<Rightarrow> sc_history" where
  "sc_history_init n = \<lparr>messages = sc_vec_init SIZEOF_HISTORY_MESSAGE, max_messages = n\<rparr>"

definition with_messages :: "sc_history \<Rightarrow> sc_history_message list \<Rightarrow> sc_history" where
  "with_messages h ms = h\<lparr>messages := (messages h)\<lparr>items := ms\<rparr>\<rparr>"

definition history_remove_at :: "sc_history \<Rightarrow> nat \<Rightarrow> sc_allocator \<Rightarrow> sc_history \<times> sc_allocator" where
  "history_remove_at h i a =
     (if i \<ge> length (items (messages h)) then (h, a)
      else (with_messages h (remove_at i (items (messages h))), history_message_clear (items (messages h) ! i) a))"

text \<open>The loops that remove the oldest message while a condition holds.\<close>

fun remove_while ::
    "(sc_history_message list \<Rightarrow> bool) \<Rightarrow> sc_history_message list \<Rightarrow> sc_allocator \<Rightarrow> sc_history_message list \<times> sc_allocator" where
  "remove_while P [] a = ([], a)"
| "remove_while P (m # ms) a =
     (if P (m # ms) then remove_while P ms (history_message_clear m a) else (m # ms, a))"

definition remove_oldest_while :: "(sc_history_message list \<Rightarrow> bool) \<Rightarrow> sc_history \<Rightarrow> sc_allocator \<Rightarrow> sc_history \<times> sc_allocator" where
  "remove_oldest_while P h a =
     (case remove_while P (items (messages h)) a of (ms, a') \<Rightarrow> (with_messages h ms, a'))"

definition message_role :: "sc_history_message \<Rightarrow> sc_str" where
  "message_role m = sc_string_as_str (msg_role m)"

definition allows_tool_result :: "sc_history_message \<Rightarrow> bool" where
  "allows_tool_result m \<longleftrightarrow> history_role_is (message_role m) ''assistant'' \<or> history_role_is_tool_result (message_role m)"

text \<open>The loop of \<^verbatim>\<open>sc_history_prune_orphans\<close>; \<open>prev\<close> is \<^verbatim>\<open>previous_allows_tool_result\<close>.\<close>

fun prune_orphans_from ::
    "bool \<Rightarrow> sc_history_message list \<Rightarrow> sc_allocator \<Rightarrow> sc_history_message list \<times> sc_allocator" where
  "prune_orphans_from prev [] a = ([], a)"
| "prune_orphans_from prev (m # ms) a =
     (if history_role_is_tool_result (message_role m) \<and> \<not> prev
      then prune_orphans_from prev ms (history_message_clear m a)
      else (case prune_orphans_from (allows_tool_result m) ms a of (ms', a') \<Rightarrow> (m # ms', a')))"

definition sc_history_prune_orphans :: "sc_history \<Rightarrow> sc_allocator \<Rightarrow> sc_history \<times> sc_allocator" where
  "sc_history_prune_orphans h a =
     (case prune_orphans_from False (items (messages h)) a of (ms, a') \<Rightarrow> (with_messages h ms, a'))"

definition sc_history_trim :: "sc_history \<Rightarrow> sc_allocator \<Rightarrow> sc_history \<times> sc_allocator" where
  "sc_history_trim h a =
     (if max_messages h = 0 then (h, a)
      else (case sc_history_prune_orphans h a of
              (h1, a1) \<Rightarrow> remove_oldest_while (\<lambda>ms. length ms > max_messages h) h1 a1))"

definition history_push_message ::
    "sc_history \<Rightarrow> sc_history_message \<Rightarrow> sc_allocator \<Rightarrow> sc_status \<times> sc_history \<times> sc_allocator" where
  "history_push_message h m a =
     (case sc_vec_push (messages h) (Some m) a of (st, v, a') \<Rightarrow> (st, h\<lparr>messages := v\<rparr>, a'))"

definition history_message ::
    "sc_str \<Rightarrow> sc_str \<Rightarrow> sc_allocator \<Rightarrow> sc_history_message fill_state" where
  "history_message role content a =
     fill (\<lambda>_. sc_string_from_str content) (\<lambda>s m. m\<lparr>msg_content := s\<rparr>)
       (fill (\<lambda>_. sc_string_from_str role) (\<lambda>s m. m\<lparr>msg_role := s\<rparr>) (sc_status_ok, message_zero, a))"

definition sc_history_append :: "sc_history \<Rightarrow> sc_str \<Rightarrow> sc_str \<Rightarrow> sc_allocator \<Rightarrow> sc_status \<times> sc_history \<times> sc_allocator" where
  "sc_history_append h role content a =
     (if ptr_null role \<or> str_len role = 0 then (sc_status_invalid_argument ''sc.history.invalid_argument'', h, a)
      else (case history_message role (empty_if_null content) a of
              (st, m, a1) \<Rightarrow>
                (if \<not> sc_status_is_ok st then (st, h, history_message_clear m a1)
                 else (case history_push_message h m a1 of
                         (st', h', a2) \<Rightarrow>
                           (if \<not> sc_status_is_ok st' then (st', h', history_message_clear m a2)
                            else (case sc_history_trim h' a2 of (h2, a3) \<Rightarrow> (sc_status_ok, h2, a3)))))))"

fun clear_history_messages :: "sc_history_message list \<Rightarrow> sc_allocator \<Rightarrow> sc_allocator" where
  "clear_history_messages [] a = a"
| "clear_history_messages (m # ms) a = clear_history_messages ms (history_message_clear m a)"

definition sc_history_clear :: "sc_history \<Rightarrow> sc_allocator \<Rightarrow> sc_allocator" where
  "sc_history_clear h a = snd (sc_vec_clear (messages h) (clear_history_messages (items (messages h)) a))"

section \<open>The prompt\<close>

record sc_prompt_builder =
  pb_bytes :: sc_string_builder
  pb_max_bytes :: nat

definition sc_prompt_builder_init :: "nat \<Rightarrow> sc_prompt_builder" where
  "sc_prompt_builder_init n = \<lparr>pb_bytes = sc_string_builder_init, pb_max_bytes = n\<rparr>"

text \<open>A body that does not fit is cut to the room that is left, wherever that is.\<close>

definition bounded_body :: "sc_prompt_builder \<Rightarrow> string \<Rightarrow> string \<Rightarrow> string" where
  "bounded_body pb title body =
     (let room = pb_max_bytes pb - length (contents (pb_bytes pb)) in
      (if pb_max_bytes pb > 0 \<and> length body + length title + 8 > room
       then take (if room > length title + 8 then room - length title - 8 else 0) body else body))"

definition sc_prompt_builder_append_section ::
    "sc_prompt_builder \<Rightarrow> sc_str \<Rightarrow> sc_str \<Rightarrow> sc_allocator \<Rightarrow> sc_status \<times> sc_prompt_builder \<times> sc_allocator" where
  "sc_prompt_builder_append_section pb title body a =
     (if ptr_null title \<or> str_len title = 0 then (sc_status_invalid_argument ''sc.prompt_builder.invalid_argument'', pb, a)
      else if pb_max_bytes pb > 0 \<and> length (contents (pb_bytes pb)) \<ge> pb_max_bytes pb then (sc_status_ok, pb, a)
      else (case builder_appends
               [Str ''## '', title, Str [CHR 0x0A], Str (bounded_body pb (str_bytes title) (str_bytes (empty_if_null body))),
                Str [CHR 0x0A, CHR 0x0A]] (pb_bytes pb) a of
              (st, b, a1) \<Rightarrow> (st, pb\<lparr>pb_bytes := b\<rparr>, a1)))"

definition sc_prompt_builder_finish :: "sc_prompt_builder \<Rightarrow> sc_string \<times> sc_prompt_builder" where
  "sc_prompt_builder_finish pb = (case sc_string_builder_finish (pb_bytes pb) of (s, b) \<Rightarrow> (s, pb\<lparr>pb_bytes := b\<rparr>))"

definition sc_prompt_builder_clear :: "sc_prompt_builder \<Rightarrow> sc_allocator \<Rightarrow> sc_allocator" where
  "sc_prompt_builder_clear pb a = snd (sc_string_builder_clear (pb_bytes pb) a)"

definition append_line :: "sc_string_builder \<Rightarrow> sc_str \<Rightarrow> sc_str \<Rightarrow> sc_allocator \<Rightarrow> sc_status \<times> sc_string_builder \<times> sc_allocator" where
  "append_line b left right a = builder_appends [empty_if_null left, Str '': '', empty_if_null right, Str [CHR 0x0A]] b a"

fun prompt_lines :: "bool \<Rightarrow> sc_history_message list \<Rightarrow> sc_string_builder \<Rightarrow> sc_allocator \<Rightarrow> sc_status \<times> sc_string_builder \<times> sc_allocator" where
  "prompt_lines prev [] b a = (sc_status_ok, b, a)"
| "prompt_lines prev (m # ms) b a =
     (if history_role_is_tool_result (message_role m) \<and> \<not> prev then prompt_lines prev ms b a
      else (case append_line b (message_role m) (sc_string_as_str (msg_content m)) a of
              (st, b1, a1) \<Rightarrow> (if sc_status_is_ok st then prompt_lines (allows_tool_result m) ms b1 a1 else (st, b1, a1))))"

definition sc_history_append_to_prompt ::
    "sc_history \<Rightarrow> sc_prompt_builder \<Rightarrow> sc_allocator \<Rightarrow> sc_status \<times> sc_prompt_builder \<times> sc_allocator" where
  "sc_history_append_to_prompt h pb a =
     (case prompt_lines False (items (messages h)) sc_string_builder_init a of
        (st, b, a1) \<Rightarrow>
          (if \<not> sc_status_is_ok st then (st, pb, snd (sc_string_builder_clear b a1))
           else (case sc_string_builder_finish b of
                   (s, _) \<Rightarrow>
                     (case sc_prompt_builder_append_section pb (Str ''Recent history'') (sc_string_as_str s) a1 of
                        (st', pb', a2) \<Rightarrow> (st', pb', sc_string_clear s a2)))))"

section \<open>Compression and the budget\<close>

definition summary_header :: string where
  "summary_header = ''Compressed earlier context. Keep these facts as background, but prefer newer messages:'' @ [CHR 0x0A]"

text \<open>What of a message's content goes into the summary: at most 180 bytes, fewer when the room is less.\<close>

definition summary_content :: "nat \<Rightarrow> nat \<Rightarrow> sc_history_message \<Rightarrow> string" where
  "summary_content max_chars room m =
     (let role_len = str_len (message_role m); content = take 180 (str_bytes (sc_string_as_str (msg_content m))) in
      (if max_chars > 0 \<and> length content + role_len + 8 > room
       then take (if room > role_len + 8 then room - role_len - 8 else 0) content else content))"

fun summary_lines ::
    "nat \<Rightarrow> sc_history_message list \<Rightarrow> sc_string_builder \<Rightarrow> sc_allocator \<Rightarrow> sc_status \<times> sc_string_builder \<times> sc_allocator" where
  "summary_lines max_chars [] b a = (sc_status_ok, b, a)"
| "summary_lines max_chars (m # ms) b a =
     (let room = max_chars - length (contents b) in
      (if max_chars > 0 \<and> room \<le> 8 then (sc_status_ok, b, a)
       else (case builder_appends [Str ''- '', message_role m, Str '': '', Str (summary_content max_chars room m), Str [CHR 0x0A]] b a of
               (st, b1, a1) \<Rightarrow> (if sc_status_is_ok st then summary_lines max_chars ms b1 a1 else (st, b1, a1)))))"

definition summary_text ::
    "nat \<Rightarrow> sc_history_message list \<Rightarrow> sc_allocator \<Rightarrow> sc_string res \<times> sc_allocator" where
  "summary_text max_chars ms a =
     (case builder_appends [Str summary_header] sc_string_builder_init a of
        (st0, b0, a1) \<Rightarrow>
          (case (if sc_status_is_ok st0 then summary_lines max_chars ms b0 a1 else (st0, b0, a1)) of
             (st, b, a2) \<Rightarrow>
               (if sc_status_is_ok st then (Inr (fst (sc_string_builder_finish b)), a2)
                else (Inl st, snd (sc_string_builder_clear b a2)))))"

fun remove_first :: "nat \<Rightarrow> sc_history \<Rightarrow> sc_allocator \<Rightarrow> sc_history \<times> sc_allocator" where
  "remove_first 0 h a = (h, a)"
| "remove_first (Suc n) h a = (case history_remove_at h 0 a of (h1, a1) \<Rightarrow> remove_first n h1 a1)"

text \<open>The summary, pushed last, is moved to the front.\<close>

definition last_to_front :: "'a list \<Rightarrow> 'a list" where
  "last_to_front xs = (if length xs > 1 then last xs # butlast xs else xs)"

definition sc_history_compress_to_recent ::
    "sc_history \<Rightarrow> nat \<Rightarrow> nat \<Rightarrow> sc_allocator \<Rightarrow> sc_status \<times> sc_history \<times> sc_allocator" where
  "sc_history_compress_to_recent h recent max_chars a =
     (case sc_history_prune_orphans h a of
        (h1, a1) \<Rightarrow>
          (let recent' = (if recent = 0 then 1 else recent); n = length (items (messages h1)) - recent' in
           (if length (items (messages h1)) \<le> recent' then (sc_status_ok, h1, a1)
            else (case summary_text max_chars (take n (items (messages h1))) a1 of
                    (Inl e, a2) \<Rightarrow> (e, h1, a2)
                  | (Inr s, a2) \<Rightarrow>
                      (case history_message (Str ''system'') (sc_string_as_str s) a2 of
                         (st, m, a3) \<Rightarrow>
                           (if \<not> sc_status_is_ok st then (st, h1, sc_string_clear s (history_message_clear m a3))
                            else (case remove_first n h1 a3 of
                                    (h2, a4) \<Rightarrow>
                                      (case history_push_message h2 m a4 of
                                         (st', h3, a5) \<Rightarrow>
                                           (if \<not> sc_status_is_ok st'
                                            then (st', h3, sc_string_clear s (history_message_clear m a5))
                                            else (case sc_history_prune_orphans (with_messages h3 (last_to_front (items (messages h3)))) a5 of
                                                    (h4, a6) \<Rightarrow> (sc_status_ok, h4, sc_string_clear s a6)))))))))))"

text \<open>How many of the newest messages fit, at least one; the loop runs from the back.\<close>

fun recent_loop :: "nat \<Rightarrow> nat \<Rightarrow> nat \<Rightarrow> sc_history_message list \<Rightarrow> nat" where
  "recent_loop max_chars count used [] = count"
| "recent_loop max_chars count used (m # ms) =
     (let after = size_add_saturating used (history_message_estimated_chars m) in
      (if count > 0 \<and> max_chars > 0 \<and> after > max_chars then count
       else if max_chars = 0 then count + 1
       else recent_loop max_chars (count + 1) after ms))"

definition history_recent_messages_for_budget :: "sc_history \<Rightarrow> nat \<Rightarrow> nat" where
  "history_recent_messages_for_budget h max_chars =
     (if items (messages h) = [] then 0
      else (let count = recent_loop max_chars 0 0 (rev (items (messages h))) in (if count = 0 then 1 else count)))"

text \<open>The compression step of \<^verbatim>\<open>sc_history_prune_to_budget\<close>.\<close>

definition compress_for_budget :: "sc_history \<Rightarrow> nat \<Rightarrow> sc_allocator \<Rightarrow> sc_status \<times> sc_history \<times> sc_allocator" where
  "compress_for_budget h max_chars a =
     (if length (items (messages h)) > 1
      then (let r = history_recent_messages_for_budget h (max_chars - max_chars div 4);
                recent = (if r \<ge> length (items (messages h)) then length (items (messages h)) - 1 else r);
                summary = (if max_chars div 4 < 128 \<and> max_chars \<ge> 128 then 128 else max_chars div 4) in
            sc_history_compress_to_recent h recent summary a)
      else (sc_status_ok, h, a))"

definition sc_history_prune_to_budget :: "sc_history \<Rightarrow> nat \<Rightarrow> sc_allocator \<Rightarrow> sc_status \<times> sc_history \<times> sc_allocator" where
  "sc_history_prune_to_budget h max_chars a =
     (case sc_history_prune_orphans h a of
        (h1, a1) \<Rightarrow>
          (if sc_history_estimated_chars h1 \<le> max_chars then (sc_status_ok, h1, a1)
           else if max_chars = 0
           then (case remove_oldest_while (\<lambda>ms. length ms > 0) h1 a1 of (h2, a2) \<Rightarrow> (sc_status_ok, h2, a2))
           else (case compress_for_budget h1 max_chars a1 of
                   (st, h2, a2) \<Rightarrow>
                     (if \<not> sc_status_is_ok st then (st, h2, a2)
                      else (case remove_oldest_while (\<lambda>ms. estimated_chars ms > max_chars) h2 a2 of
                              (h3, a3) \<Rightarrow>
                                (case sc_history_prune_orphans h3 a3 of (h4, a4) \<Rightarrow> (sc_status_ok, h4, a4)))))))"

section \<open>Sizes\<close>

lemma size_add_saturating_min: "size_add_saturating x y = min SIZE_MAX (x + y)"
  by (simp add: size_add_saturating_def sc_size_add_overflow_def min_def)

definition message_chars :: "sc_history_message \<Rightarrow> nat" where
  "message_chars m = string_len (msg_role m) + string_len (msg_content m) + 2"

lemma message_estimate: "history_message_estimated_chars m = min SIZE_MAX (message_chars m)"
  by (simp add: history_message_estimated_chars_def size_add_saturating_min message_chars_def)

text \<open>The saturating sum is the sum cut off at the largest size.\<close>

lemma estimated_chars_sum: "estimated_chars ms = min SIZE_MAX (sum_list (map message_chars ms))"
proof -
  have "foldl (\<lambda>total m. size_add_saturating total (history_message_estimated_chars m)) n ms =
      min SIZE_MAX (n + sum_list (map message_chars ms))" if "n \<le> SIZE_MAX" for n
    using that by (induction ms arbitrary: n) (auto simp: size_add_saturating_min message_estimate min_def)
  from this [of 0] show ?thesis by (simp add: estimated_chars_def)
qed

lemma estimated_chars_subseq: "subseq xs ys \<Longrightarrow> estimated_chars xs \<le> estimated_chars ys"
proof -
  assume "subseq xs ys"
  then have "sum_list (map message_chars xs) \<le> sum_list (map message_chars ys)"
    by (induction rule: list_emb.induct) auto
  then show ?thesis by (simp add: estimated_chars_sum)
qed

section \<open>Tool results that follow no request\<close>

text \<open>The messages that are kept, and the histories from which none is removed.\<close>

fun kept :: "bool \<Rightarrow> sc_history_message list \<Rightarrow> sc_history_message list" where
  "kept prev [] = []"
| "kept prev (m # ms) =
     (if history_role_is_tool_result (message_role m) \<and> \<not> prev then kept prev ms else m # kept (allows_tool_result m) ms)"

fun no_orphans :: "bool \<Rightarrow> sc_history_message list \<Rightarrow> bool" where
  "no_orphans prev [] \<longleftrightarrow> True"
| "no_orphans prev (m # ms) \<longleftrightarrow> (history_role_is_tool_result (message_role m) \<longrightarrow> prev) \<and> no_orphans (allows_tool_result m) ms"

lemma kept_no_orphans: "no_orphans prev (kept prev ms)"
  by (induction prev ms rule: kept.induct) auto

lemma kept_id: "no_orphans prev ms \<Longrightarrow> kept prev ms = ms"
  by (induction prev ms rule: kept.induct) auto

lemma kept_subseq: "subseq (kept prev ms) ms"
  by (induction prev ms rule: kept.induct) auto

text \<open>The prompt leaves orphans out by itself: its text is that of the pruned history.\<close>

lemma prompt_lines_kept: "prompt_lines prev (kept prev ms) b a = prompt_lines prev ms b a"
proof (induction prev ms arbitrary: b a rule: kept.induct)
  case (2 prev m ms)
  show ?case
  proof (cases "history_role_is_tool_result (message_role m) \<and> \<not> prev")
    case True
    with 2(1) show ?thesis by simp
  next
    case False
    with 2(2) show ?thesis by (auto split: prod.splits)
  qed
qed simp

section \<open>The blocks of a history\<close>

definition message_blocks :: "sc_history_message \<Rightarrow> int" where
  "message_blocks m = string_blocks (msg_role m) + string_blocks (msg_content m)"

definition messages_held :: "sc_history_message list \<Rightarrow> int" where
  "messages_held ms = sum_list (map message_blocks ms)"

definition history_blocks :: "sc_history \<Rightarrow> int" where
  "history_blocks h = vec_blocks (messages h) + messages_held (items (messages h))"

definition history_inv :: "sc_history \<Rightarrow> bool" where
  "history_inv h \<longleftrightarrow> vec_inv (messages h) \<and> item_size (messages h) = SIZEOF_HISTORY_MESSAGE"

lemma messages_held_simps [simp]:
  "messages_held [] = 0" "messages_held (m # ms) = message_blocks m + messages_held ms"
  "messages_held (ms @ ns) = messages_held ms + messages_held ns"
  by (simp_all add: messages_held_def)

lemma history_init_inv [simp]: "history_inv (sc_history_init n)" "history_blocks (sc_history_init n) = 0"
  by (simp_all add: history_inv_def history_blocks_def sc_history_init_def)

lemma message_clear_live [simp]: "live (history_message_clear m a) = live a - message_blocks m"
  by (simp add: history_message_clear_def message_blocks_def)

lemma with_messages_simps [simp]:
  "items (messages (with_messages h ms)) = ms" "max_messages (with_messages h ms) = max_messages h"
  "vec_blocks (messages (with_messages h ms)) = vec_blocks (messages h)"
  "vcap (messages (with_messages h ms)) = vcap (messages h)"
  "item_size (messages (with_messages h ms)) = item_size (messages h)"
  by (simp_all add: with_messages_def vec_blocks_def)

lemma with_messages_inv: "history_inv h \<Longrightarrow> length ms \<le> length (items (messages h)) \<Longrightarrow> history_inv (with_messages h ms)"
  by (auto simp: history_inv_def with_messages_def vec_inv_def)

lemma history_messages_clear_live: "live (clear_history_messages ms a) = live a - messages_held ms"
  by (induction ms arbitrary: a) simp_all

lemma history_clear_live: "history_inv h \<Longrightarrow> live (sc_history_clear h a) = live a - history_blocks h"
  by (simp add: sc_history_clear_def vec_clear_live history_messages_clear_live history_inv_def history_blocks_def)

lemma remove_while_spec:
  assumes "remove_while P ms a = (ms', a')"
  shows "(\<exists>k \<le> length ms. ms' = drop k ms) \<and> live a' = live a + messages_held ms' - messages_held ms \<and> (ms' = [] \<or> \<not> P ms')"
  using assms
proof (induction P ms a rule: remove_while.induct)
  case (2 P m ms a)
  show ?case
  proof (cases "P (m # ms)")
    case True
    with 2 obtain k where k: "k \<le> length ms" "ms' = drop k ms"
      and rest: "live a' = live (history_message_clear m a) + messages_held ms' - messages_held ms" "ms' = [] \<or> \<not> P ms'" by auto
    from k have "Suc k \<le> length (m # ms) \<and> ms' = drop (Suc k) (m # ms)" by simp
    with rest show ?thesis by auto
  qed (use 2(2) in \<open>auto intro!: exI [of _ 0]\<close>)
qed simp

lemma prune_from_spec:
  "\<exists>a'. prune_orphans_from prev ms a = (kept prev ms, a') \<and> live a' = live a + messages_held (kept prev ms) - messages_held ms"
proof (induction prev ms arbitrary: a rule: kept.induct)
  case (2 prev m ms)
  show ?case
  proof (cases "history_role_is_tool_result (message_role m) \<and> \<not> prev")
    case True
    with 2(1) [OF True, of "history_message_clear m a"] show ?thesis by auto
  next
    case False
    with 2(2) [OF False, of a] show ?thesis by auto
  qed
qed simp

text \<open>What every operation on a history keeps, when the block count of the allocator follows the history.\<close>

definition rebuilt :: "sc_history \<Rightarrow> sc_allocator \<Rightarrow> sc_history \<Rightarrow> sc_allocator \<Rightarrow> bool" where
  "rebuilt h a h' a' \<longleftrightarrow> history_inv h' \<and> live a' - history_blocks h' = live a - history_blocks h \<and>
     max_messages h' = max_messages h \<and> vcap (messages h') \<ge> vcap (messages h)"

lemma rebuilt_trans: "rebuilt h a h1 a1 \<Longrightarrow> rebuilt h1 a1 h2 a2 \<Longrightarrow> rebuilt h a h2 a2"
  by (auto simp: rebuilt_def)

lemma rebuilt_refl: "history_inv h \<Longrightarrow> rebuilt h a h a"
  by (simp add: rebuilt_def)

lemma rebuilt_fewer:
  assumes "history_inv h" "length ms \<le> length (items (messages h))" "live a' = live a + messages_held ms - messages_held (items (messages h))"
  shows "rebuilt h a (with_messages h ms) a'"
  using assms with_messages_inv [OF assms(1,2)] by (simp add: rebuilt_def history_blocks_def)

lemma prune_orphans_spec:
  assumes "sc_history_prune_orphans h a = (h', a')" "history_inv h"
  shows "rebuilt h a h' a'" "items (messages h') = kept False (items (messages h))"
proof -
  obtain a1 where p: "prune_orphans_from False (items (messages h)) a = (kept False (items (messages h)), a1)"
    "live a1 = live a + messages_held (kept False (items (messages h))) - messages_held (items (messages h))"
    using prune_from_spec by blast
  with assms(1) have out: "h' = with_messages h (kept False (items (messages h)))" "a' = a1"
    by (auto simp: sc_history_prune_orphans_def)
  show "rebuilt h a h' a'"
    unfolding out using p(2) kept_subseq by (intro rebuilt_fewer assms(2)) (auto dest: list_emb_length)
  show "items (messages h') = kept False (items (messages h))" by (simp add: out)
qed

lemma remove_oldest_while_spec:
  assumes "remove_oldest_while P h a = (h', a')" "history_inv h"
  shows "rebuilt h a h' a'" "\<exists>k. items (messages h') = drop k (items (messages h))" "items (messages h') = [] \<or> \<not> P (items (messages h'))"
proof -
  obtain ms a1 where r: "remove_while P (items (messages h)) a = (ms, a1)" by (cases "remove_while P (items (messages h)) a")
  with assms(1) have out: "h' = with_messages h ms" "a' = a1" by (auto simp: remove_oldest_while_def)
  note sp = remove_while_spec [OF r]
  then have "length ms \<le> length (items (messages h))" by auto
  then show "rebuilt h a h' a'" unfolding out using sp by (intro rebuilt_fewer assms(2)) auto
  show "\<exists>k. items (messages h') = drop k (items (messages h))" "items (messages h') = [] \<or> \<not> P (items (messages h'))"
    using sp by (auto simp: out)
qed

lemma trim_spec:
  assumes "sc_history_trim h a = (h', a')" "history_inv h"
  shows "rebuilt h a h' a'" "max_messages h > 0 \<Longrightarrow> length (items (messages h')) \<le> max_messages h"
    "\<exists>k. items (messages h') = drop k (if max_messages h = 0 then items (messages h) else kept False (items (messages h)))"
proof -
  obtain h1 a1 where p: "sc_history_prune_orphans h a = (h1, a1)" by (cases "sc_history_prune_orphans h a")
  note sp = prune_orphans_spec [OF p assms(2)]
  show "rebuilt h a h' a'"
  proof (cases "max_messages h = 0")
    case False
    with assms(1) p have "remove_oldest_while (\<lambda>ms. length ms > max_messages h) h1 a1 = (h', a')" by (simp add: sc_history_trim_def)
    from remove_oldest_while_spec(1) [OF this] sp(1) show ?thesis by (auto simp: rebuilt_def)
  qed (use assms in \<open>simp add: sc_history_trim_def rebuilt_refl\<close>)
  have inv: "history_inv h1" using sp(1) by (simp add: rebuilt_def)
  show "max_messages h > 0 \<Longrightarrow> length (items (messages h')) \<le> max_messages h"
    using assms(1) p remove_oldest_while_spec(3) [OF _ inv] by (fastforce simp: sc_history_trim_def)
  show "\<exists>k. items (messages h') = drop k (if max_messages h = 0 then items (messages h) else kept False (items (messages h)))"
    using assms(1) p remove_oldest_while_spec(2) [OF _ inv] sp(2)
    by (auto simp: sc_history_trim_def intro: exI [of _ 0] split: if_splits)
qed

section \<open>Compression\<close>

lemma vec_push_with_room:
  assumes "vec_inv v" "length (items v) < vcap v" "item_size v > 0"
  shows "sc_vec_push v (Some x) a = (sc_status_ok, v\<lparr>items := items v @ [x]\<rparr>, a)"
proof -
  have "vcap v \<le> vcap v * item_size v" using assms(3) by simp
  moreover have "vcap v * item_size v \<le> SIZE_MAX" using assms(1) by (simp add: vec_inv_def)
  ultimately have "length (items v) + 1 \<le> SIZE_MAX" using assms(2) by linarith
  then show ?thesis
    using assms(2,3) by (auto simp: sc_vec_push_def sc_vec_reserve_def sc_size_add_overflow_def Let_def)
qed

lemma builder_append_held:
  assumes "sc_string_builder_append b p a = (st, b', a')" "bytes_inv b" "held b"
  shows "held b'"
  using builder_append_spec(3,4) [OF assms(1,2)] assms(3) by (cases "sc_status_is_ok st") auto

lemma builder_appends_held:
  assumes "builder_appends ps b a = (st, b', a')" "bytes_inv b" "held b"
  shows "held b'"
  using assms
proof (induction ps arbitrary: b a)
  case (Cons p ps)
  obtain s1 b1 a1 where ap: "sc_string_builder_append b p a = (s1, b1, a1)" by (cases "sc_string_builder_append b p a")
  have b1: "bytes_inv b1" "held b1"
    using builder_append_spec(1) [OF ap Cons.prems(2)] builder_append_held [OF ap Cons.prems(2,3)] by blast+
  show ?case
  proof (cases "sc_status_is_ok s1")
    case True
    with Cons.prems(1) ap have "builder_appends ps b1 a1 = (st, b', a')" by simp
    then show ?thesis using Cons.IH b1 by blast
  qed (use Cons.prems(1) ap b1 in auto)
qed simp

lemma summary_lines_spec:
  assumes "summary_lines max_chars ms b a = (st, b', a')" "bytes_inv b" "held b"
  shows "bytes_inv b' \<and> held b' \<and> live a' = live a"
  using assms
proof (induction ms arbitrary: b a)
  case (Cons m ms)
  let ?ps = "[Str ''- '', message_role m, Str '': '', Str (summary_content max_chars (max_chars - length (contents b)) m), Str [CHR 0x0A]]"
  obtain s1 b1 a1 where ap: "builder_appends ?ps b a = (s1, b1, a1)" by (cases "builder_appends ?ps b a")
  have one: "bytes_inv b1 \<and> live a1 = live a + bytes_blocks b1 - bytes_blocks b" using builder_appends_spec [OF ap Cons.prems(2)] by simp
  have "held b1" by (rule builder_appends_held [OF ap Cons.prems(2,3)])
  with one Cons.prems(3) have same: "bytes_inv b1" "held b1" "live a1 = live a" by (auto simp: bytes_blocks_def)
  show ?case
  proof (cases "max_chars > 0 \<and> max_chars - length (contents b) \<le> 8")
    case True
    with Cons.prems show ?thesis by simp
  next
    case go: False
    show ?thesis
    proof (cases "sc_status_is_ok s1")
      case True
      with Cons.prems(1) go ap have "summary_lines max_chars ms b1 a1 = (st, b', a')" by (simp add: Let_def)
      from Cons.IH [OF this same(1,2)] same show ?thesis by simp
    next
      case False
      with Cons.prems(1) go ap same show ?thesis by (auto simp: Let_def)
    qed
  qed
qed simp

lemma summary_text_spec:
  assumes "summary_text max_chars ms a = (r, a')"
  shows "case r of Inl e \<Rightarrow> \<not> sc_status_is_ok e \<and> live a' = live a | Inr s \<Rightarrow> s \<noteq> None \<and> live a' = live a + 1"
proof -
  obtain s0 b0 a1 where h: "builder_appends [Str summary_header] sc_string_builder_init a = (s0, b0, a1)"
    by (cases "builder_appends [Str summary_header] sc_string_builder_init a")
  have init: "bytes_inv sc_string_builder_init" "bytes_blocks sc_string_builder_init = 0"
    by (simp_all add: sc_string_builder_init_def) (simp add: bytes_blocks_def sc_bytes_init_def bytes_zero_def)
  note sp = builder_appends_spec [OF h init(1)]
  show ?thesis
  proof (cases "sc_status_is_ok s0")
    case True
    obtain s1 b a2 where l: "summary_lines max_chars ms b0 a1 = (s1, b, a2)" by (cases "summary_lines max_chars ms b0 a1")
    have "held b0" using sp True by simp
    with sp have "bytes_inv b0" "held b0" by auto
    note ls = summary_lines_spec [OF l this]
    from assms h l True ls sp \<open>held b0\<close> init(2) show ?thesis
      by (auto simp: summary_text_def sc_string_builder_finish_def sc_string_builder_clear_def sc_bytes_clear_def bytes_blocks_def split: if_splits)
  next
    case False
    with assms h sp init(2) show ?thesis
      by (auto simp: summary_text_def sc_string_builder_clear_def sc_bytes_clear_def bytes_blocks_def split: if_splits)
  qed
qed

lemma history_message_filled:
  "filled message_blocks (live a) (\<lambda>_. True)
     (\<lambda>m. m = \<lparr>msg_role = Some (str_bytes role), msg_content = Some (str_bytes content)\<rparr>) (history_message role content a)"
proof -
  let ?m = "\<lparr>msg_role = Some (str_bytes role), msg_content = None\<rparr>"
  note z = message_zero_def message_blocks_def
  have "filled message_blocks (live a) (\<lambda>_. True) (\<lambda>m. m = message_zero) (sc_status_ok, message_zero, a)"
    by (simp add: filled_def z)
  then have "filled message_blocks (live a) (\<lambda>_. True) (\<lambda>m. m = ?m)
      (fill (\<lambda>_. sc_string_from_str role) (\<lambda>s m. m\<lparr>msg_role := s\<rparr>) (sc_status_ok, message_zero, a))"
    by (rule fill_filled) (auto simp: z dest: string_from_str_Inr string_from_str_Inl)
  then show ?thesis
    unfolding history_message_def
    by (rule fill_filled) (auto simp: z dest: string_from_str_Inr string_from_str_Inl)
qed

lemma remove_first_spec:
  assumes "remove_first n h a = (h', a')" "history_inv h"
  shows "rebuilt h a h' a' \<and> items (messages h') = drop n (items (messages h)) \<and> vcap (messages h') = vcap (messages h)"
  using assms
proof (induction n h a rule: remove_first.induct)
  case (2 n h a)
  obtain h1 a1 where r: "history_remove_at h 0 a = (h1, a1)" by (cases "history_remove_at h 0 a")
  have "rebuilt h a h1 a1 \<and> items (messages h1) = tl (items (messages h)) \<and> vcap (messages h1) = vcap (messages h)"
  proof (cases "items (messages h)")
    case Nil
    with r 2(3) show ?thesis by (auto simp: history_remove_at_def rebuilt_refl)
  next
    case (Cons m ms)
    with r have out: "h1 = with_messages h ms" "a1 = history_message_clear m a" by (auto simp: history_remove_at_def)
    show ?thesis unfolding out using Cons by (auto intro!: rebuilt_fewer 2(3))
  qed
  moreover from this have "history_inv h1" by (simp add: rebuilt_def)
  ultimately show ?case
    using 2(1) [OF r [symmetric]] 2(2) r by (auto simp: drop_Suc intro: rebuilt_trans)
qed (auto simp: rebuilt_refl)

text \<open>
  Compression keeps the newest messages behind a summary of the others, with the tool results that lost their request
  taken out. The push of the summary finds room, since at least one message was removed before it: a compression
  that fails has changed nothing but the orphans.
\<close>

lemma compress_spec:
  assumes "sc_history_compress_to_recent h recent max_chars a = (st, h', a')" "history_inv h"
  defines "ms \<equiv> kept False (items (messages h))" and "r \<equiv> (if recent = 0 then 1 else recent)"
  shows "rebuilt h a h' a'"
    and "if sc_status_is_ok st \<and> length ms > r
      then \<exists>s. items (messages h') = \<lparr>msg_role = Some ''system'', msg_content = Some s\<rparr> # kept False (drop (length ms - r) ms)
      else items (messages h') = ms"
proof -
  obtain h1 a1 where p: "sc_history_prune_orphans h a = (h1, a1)" by (cases "sc_history_prune_orphans h a")
  note pr = prune_orphans_spec [OF p assms(2), folded ms_def]
  have inv1: "history_inv h1" using pr(1) by (simp add: rebuilt_def)
  let ?n = "length ms - r"
  obtain rs a2 where s: "summary_text max_chars (take ?n ms) a1 = (rs, a2)" by (cases "summary_text max_chars (take ?n ms) a1")
  note run = assms(1) [unfolded sc_history_compress_to_recent_def p Let_def, simplified, folded r_def, unfolded pr(2)]
  have "rebuilt h a h' a' \<and> (if sc_status_is_ok st \<and> length ms > r
      then \<exists>s. items (messages h') = \<lparr>msg_role = Some ''system'', msg_content = Some s\<rparr> # kept False (drop (length ms - r) ms)
      else items (messages h') = ms)"
  proof (cases "length ms \<le> r")
    case True
    with run pr show ?thesis by simp
  next
    case long: False
    show ?thesis
    proof (cases rs)
      case (Inl e)
      with run long s have out: "st = e" "h' = h1" "a' = a2" by auto
      with summary_text_spec [OF s] Inl pr show ?thesis by (auto simp: rebuilt_def)
    next
      case (Inr t)
      then have t: "t \<noteq> None" "live a2 = live a1 + 1" using summary_text_spec [OF s] by simp_all
      obtain s3 m a3 where hm: "history_message (Str ''system'') (sc_string_as_str t) a2 = (s3, m, a3)"
        by (cases "history_message (Str ''system'') (sc_string_as_str t) a2")
      have m: "live a3 = live a2 + message_blocks m"
        "sc_status_is_ok s3 \<Longrightarrow> m = \<lparr>msg_role = Some ''system'', msg_content = Some (owned_text t)\<rparr>"
        using history_message_filled [of a2 "Str ''system''" "sc_string_as_str t"] hm by (auto simp: filled_def)
      show ?thesis
      proof (cases "sc_status_is_ok s3")
        case False
        with run long s Inr hm have out: "st = s3" "h' = h1" "a' = sc_string_clear t (history_message_clear m a3)" by auto
        show ?thesis using pr m t False by (auto simp: out rebuilt_def string_blocks_def)
      next
        case True
        obtain h2 a4 where rm: "remove_first ?n h1 a3 = (h2, a4)" by (cases "remove_first ?n h1 a3")
        note rf = remove_first_spec [OF rm inv1]
        then have inv2: "vec_inv (messages h2)" "item_size (messages h2) = SIZEOF_HISTORY_MESSAGE" by (auto simp: rebuilt_def history_inv_def)
        have "length ms \<le> vcap (messages h1)" using inv1 pr(2) by (auto simp: history_inv_def vec_inv_def)
        then have room: "length (items (messages h2)) < vcap (messages h2)" using rf long pr(2) by auto
        let ?h3 = "with_messages h2 (drop ?n ms @ [m])"
        have push: "history_push_message h2 m a4 = (sc_status_ok, ?h3, a4)"
          using vec_push_with_room [OF inv2(1) room, of m a4] inv2(2) rf pr(2)
          by (simp add: history_push_message_def with_messages_def SIZEOF_HISTORY_MESSAGE_def)
        have ne: "drop ?n ms \<noteq> []" using long by (auto simp: r_def)
        then have front: "last_to_front (drop ?n ms @ [m]) = m # drop ?n ms" by (simp add: last_to_front_def)
        let ?h4 = "with_messages ?h3 (m # drop ?n ms)"
        obtain h5 a5 where po: "sc_history_prune_orphans ?h4 a4 = (h5, a5)" by (cases "sc_history_prune_orphans ?h4 a4")
        have out: "st = sc_status_ok" "h' = h5" "a' = sc_string_clear t a5"
          using run long s Inr hm True rm push po front by auto
        have inv4: "history_inv ?h4"
          using inv2 room rf pr(2) by (auto simp: history_inv_def with_messages_def vec_inv_def)
        note sp = prune_orphans_spec [OF po inv4]
        have "items (messages h') = m # kept False (drop ?n ms)"
          using sp(2) m(2) True by (simp add: out message_role_def allows_tool_result_def history_role_is_tool_result_def history_role_is_def)
        moreover have "rebuilt h a h' a'"
        proof -
          have "history_blocks ?h4 = history_blocks h2 + message_blocks m" using rf pr(2) by (simp add: history_blocks_def)
          then show ?thesis using sp(1) rf pr(1) m t by (auto simp: out rebuilt_def string_blocks_def)
        qed
        ultimately show ?thesis using m(2) True long by (auto simp: out)
      qed
    qed
  qed
  then show "rebuilt h a h' a'"
    and "if sc_status_is_ok st \<and> length ms > r
      then \<exists>s. items (messages h') = \<lparr>msg_role = Some ''system'', msg_content = Some s\<rparr> # kept False (drop (length ms - r) ms)
      else items (messages h') = ms" by blast+
qed

section \<open>The budget\<close>

text \<open>What is left of a history: its messages in order, after at most one that is new.\<close>

definition derived :: "sc_history_message list \<Rightarrow> sc_history_message list \<Rightarrow> bool" where
  "derived ms ms' \<longleftrightarrow> (\<exists>pre rest. ms' = pre @ rest \<and> length pre \<le> 1 \<and> subseq rest ms)"

lemma subseq_drop: "subseq (drop k xs) xs"
  by (simp add: suffix_drop suffix_imp_subseq)

lemma derivedI: "length pre \<le> 1 \<Longrightarrow> subseq rest ms \<Longrightarrow> derived ms (pre @ rest)"
  by (auto simp: derived_def)

lemma derived_same: "derived ms ms"
  using derivedI [of "[]" ms ms] by simp

lemma derived_kept: "derived ms ms' \<Longrightarrow> derived ms (kept False ms')"
proof -
  assume "derived ms ms'"
  then obtain pre rest where d: "ms' = pre @ rest" "length pre \<le> 1" "subseq rest ms" by (auto simp: derived_def)
  have sub: "subseq (kept prev rest) ms" for prev by (rule subseq_order.trans [OF kept_subseq d(3)])
  consider "pre = []" | m where "pre = [m]" using d(2) by (cases pre) auto
  then show ?thesis
  proof cases
    case 1
    with derivedI [of "[]", OF _ sub] d(1) show ?thesis by simp
  next
    case (2 m)
    with derivedI [of "[]", OF _ sub] derivedI [of "[m]", OF _ sub] d(1) show ?thesis by simp
  qed
qed

lemma derived_drop: "derived ms ms' \<Longrightarrow> derived ms (drop k ms')"
proof -
  assume "derived ms ms'"
  then obtain pre rest where d: "ms' = pre @ rest" "length pre \<le> 1" "subseq rest ms" by (auto simp: derived_def)
  then have "drop k ms' = drop k pre @ drop (k - length pre) rest" "length (drop k pre) \<le> 1"
    "subseq (drop (k - length pre) rest) ms"
    using subseq_order.trans [OF subseq_drop d(3)] by simp_all
  then show ?thesis unfolding derived_def by blast
qed

lemma compress_derived:
  assumes "sc_history_compress_to_recent h recent max_chars a = (st, h', a')" "history_inv h"
  shows "derived (items (messages h)) (items (messages h'))"
proof -
  let ?ms = "kept False (items (messages h))"
  have k: "derived (items (messages h)) ?ms" by (rule derived_kept [OF derived_same])
  have "subseq (kept False (drop n ?ms)) (items (messages h))" for n
    by (rule subseq_order.trans [OF kept_subseq subseq_order.trans [OF subseq_drop kept_subseq]])
  then have "derived (items (messages h)) (x # kept False (drop n ?ms))" for x n
    using derivedI [of "[x]"] by simp
  with k compress_spec(2) [OF assms] show ?thesis by (metis (no_types, lifting))
qed

lemma compress_for_budget_spec:
  assumes "compress_for_budget h max_chars a = (st, h', a')" "history_inv h" "no_orphans False (items (messages h))"
  shows "rebuilt h a h' a'" "derived (items (messages h)) (items (messages h'))"
    "\<not> sc_status_is_ok st \<Longrightarrow> items (messages h') = items (messages h)"
proof -
  have "(st, h', a') = (sc_status_ok, h, a) \<or> (\<exists>recent budget. sc_history_compress_to_recent h recent budget a = (st, h', a'))"
    using assms(1) unfolding compress_for_budget_def Let_def by (metis (full_types))
  then consider "st = sc_status_ok" "h' = h" "a' = a"
    | recent budget where "sc_history_compress_to_recent h recent budget a = (st, h', a')" by blast
  then have "rebuilt h a h' a' \<and> derived (items (messages h)) (items (messages h')) \<and>
      (\<not> sc_status_is_ok st \<longrightarrow> items (messages h') = items (messages h))"
  proof cases
    case 1
    then show ?thesis using rebuilt_refl [OF assms(2)] derived_same by simp
  next
    case 2
    show ?thesis
      using compress_spec [OF 2 assms(2)] compress_derived [OF 2 assms(2)] kept_id [OF assms(3)] by auto
  qed
  then show "rebuilt h a h' a'" "derived (items (messages h)) (items (messages h'))"
    "\<not> sc_status_is_ok st \<Longrightarrow> items (messages h') = items (messages h)" by blast+
qed

lemma prune_to_budget_spec:
  assumes "sc_history_prune_to_budget h max_chars a = (st, h', a')" "history_inv h"
  shows "rebuilt h a h' a'" "derived (items (messages h)) (items (messages h'))"
    and "no_orphans False (items (messages h'))"
    and "if sc_status_is_ok st then sc_history_estimated_chars h' \<le> max_chars
      else items (messages h') = kept False (items (messages h))"
proof -
  obtain h1 a1 where p: "sc_history_prune_orphans h a = (h1, a1)" by (cases "sc_history_prune_orphans h a")
  note pr = prune_orphans_spec [OF p assms(2)]
  have inv1: "history_inv h1" using pr(1) by (simp add: rebuilt_def)
  have d1: "derived (items (messages h)) (items (messages h1))" using derived_kept [OF derived_same] pr(2) by simp
  have k1: "kept False (items (messages h1)) = items (messages h1)" using kept_id [OF kept_no_orphans] pr(2) by simp
  note run = assms(1) [unfolded sc_history_prune_to_budget_def p, simplified]
  have "rebuilt h a h' a' \<and> derived (items (messages h)) (items (messages h')) \<and> no_orphans False (items (messages h')) \<and>
    (if sc_status_is_ok st then sc_history_estimated_chars h' \<le> max_chars
      else items (messages h') = kept False (items (messages h)))"
  proof (cases "sc_history_estimated_chars h1 \<le> max_chars")
    case True
    with run pr d1 show ?thesis by (simp add: kept_no_orphans)
  next
    case over: False
    show ?thesis
    proof (cases "max_chars = 0")
      case True
      obtain h2 a2 where r: "remove_oldest_while (\<lambda>ms. length ms > 0) h1 a1 = (h2, a2)"
        by (cases "remove_oldest_while (\<lambda>ms. length ms > 0) h1 a1")
      note sp = remove_oldest_while_spec [OF r inv1]
      with run over True r pr show ?thesis
        by (auto simp: sc_history_estimated_chars_def estimated_chars_def derived_def intro: rebuilt_trans)
    next
      case False
      obtain s2 h2 a2 where c: "compress_for_budget h1 max_chars a1 = (s2, h2, a2)" by (cases "compress_for_budget h1 max_chars a1")
      have "no_orphans False (items (messages h1))" using pr(2) kept_no_orphans by simp
      note cs = compress_for_budget_spec [OF c inv1 this]
      have d2: "derived (items (messages h)) (items (messages h2))"
        using cs(2) subseq_order.trans [OF _ kept_subseq] unfolding derived_def pr(2) by blast
      have inv2: "history_inv h2" using cs(1) by (simp add: rebuilt_def)
      show ?thesis
      proof (cases "sc_status_is_ok s2")
        case True
        obtain h3 a3 where r: "remove_oldest_while (\<lambda>ms. estimated_chars ms > max_chars) h2 a2 = (h3, a3)"
          by (cases "remove_oldest_while (\<lambda>ms. estimated_chars ms > max_chars) h2 a2")
        note rs = remove_oldest_while_spec [OF r inv2]
        have inv3: "history_inv h3" using rs(1) by (simp add: rebuilt_def)
        obtain h4 a4 where po: "sc_history_prune_orphans h3 a3 = (h4, a4)" by (cases "sc_history_prune_orphans h3 a3")
        note ps = prune_orphans_spec [OF po inv3]
        have out: "st = sc_status_ok" "h' = h4" "a' = a4" using run over False c True r po by auto
        have "estimated_chars (items (messages h3)) \<le> max_chars" using rs(3) by (auto simp: estimated_chars_def)
        then have "sc_history_estimated_chars h4 \<le> max_chars"
          using estimated_chars_subseq [OF kept_subseq] ps(2) le_trans by (fastforce simp: sc_history_estimated_chars_def)
        moreover have "derived (items (messages h)) (items (messages h4))"
          using d2 rs(2) ps(2) derived_drop derived_kept by metis
        ultimately show ?thesis
          using pr(1) cs(1) rs(1) ps kept_no_orphans by (auto simp: out intro: rebuilt_trans)
      next
        case bad: False
        with run over False c have out: "st = s2" "h' = h2" "a' = a2" by auto
        show ?thesis using pr cs d2 bad kept_no_orphans by (auto simp: out intro: rebuilt_trans)
      qed
    qed
  qed
  then show "rebuilt h a h' a'" "derived (items (messages h)) (items (messages h'))"
    and "no_orphans False (items (messages h'))"
    and "if sc_status_is_ok st then sc_history_estimated_chars h' \<le> max_chars
      else items (messages h') = kept False (items (messages h))" by blast+
qed

lemma append_spec:
  assumes "sc_history_append h role content a = (st, h', a')" "history_inv h"
  shows "history_inv h'" "live a' - history_blocks h' = live a - history_blocks h"
    and "sc_status_is_ok st \<Longrightarrow> 0 < max_messages h \<Longrightarrow> length (items (messages h')) \<le> max_messages h"
    and "\<not> sc_status_is_ok st \<Longrightarrow> h' = h"
proof -
  obtain s1 m a1 where hm: "history_message role (empty_if_null content) a = (s1, m, a1)"
    by (cases "history_message role (empty_if_null content) a")
  have m: "live a1 = live a + message_blocks m" using history_message_filled [of a role "empty_if_null content"] hm by (auto simp: filled_def)
  obtain s2 v a2 where push: "sc_vec_push (messages h) (Some m) a1 = (s2, v, a2)" by (cases "sc_vec_push (messages h) (Some m) a1")
  have "vec_inv (messages h)" using assms(2) by (simp add: history_inv_def)
  note vs = vec_push_spec [OF push this]
  obtain h2 a3 where tr: "sc_history_trim (h\<lparr>messages := v\<rparr>) a2 = (h2, a3)" by (cases "sc_history_trim (h\<lparr>messages := v\<rparr>) a2")
  have inv: "history_inv (h\<lparr>messages := v\<rparr>)" using vs(1,3) assms(2) by (simp add: history_inv_def)
  note ts = trim_spec [OF tr inv]
  note run = assms(1) [unfolded sc_history_append_def history_push_message_def hm push prod.case]
  show "history_inv h'" "live a' - history_blocks h' = live a - history_blocks h"
    "sc_status_is_ok st \<Longrightarrow> 0 < max_messages h \<Longrightarrow> length (items (messages h')) \<le> max_messages h"
    using run tr m vs ts assms(2)
    by (auto simp: rebuilt_def history_blocks_def split: if_splits)
  show "\<not> sc_status_is_ok st \<Longrightarrow> h' = h" using run vs(5) tr by (auto split: if_splits)
qed

section \<open>The length of the prompt\<close>

text \<open>A section keeps the prompt within its limit, or is a title alone.\<close>

lemma section_length:
  assumes "sc_prompt_builder_append_section pb title body a = (st, pb', a')" "bytes_inv (pb_bytes pb)" "sc_status_is_ok st"
    and "0 < pb_max_bytes pb"
  shows "length (contents (pb_bytes pb')) \<le> max (pb_max_bytes pb) (length (contents (pb_bytes pb)) + str_len title + 6)"
proof (cases "length (contents (pb_bytes pb)) \<ge> pb_max_bytes pb")
  case True
  with assms show ?thesis by (auto simp: sc_prompt_builder_append_section_def split: if_splits prod.splits)
next
  case False
  let ?b = "bounded_body pb (str_bytes title) (str_bytes (empty_if_null body))"
  obtain s1 b1 a1 where ap:
    "builder_appends [Str ''## '', title, Str [CHR 0x0A], Str ?b, Str [CHR 0x0A, CHR 0x0A]] (pb_bytes pb) a = (s1, b1, a1)"
    by (cases "builder_appends [Str ''## '', title, Str [CHR 0x0A], Str ?b, Str [CHR 0x0A, CHR 0x0A]] (pb_bytes pb) a")
  have t: "str_len title = length (str_bytes title)" using assms(1,3) by (cases title) (auto simp: sc_prompt_builder_append_section_def split: if_splits)
  have out: "st = s1" "pb' = pb\<lparr>pb_bytes := b1\<rparr>"
    using assms(1,3) False ap by (auto simp: sc_prompt_builder_append_section_def split: if_splits)
  have "length (contents b1) = length (contents (pb_bytes pb)) + 6 + length (str_bytes title) + length ?b"
    using builder_appends_spec [OF ap assms(2)] assms(3) by (simp add: out)
  moreover have "length ?b = 0 \<or> length (contents (pb_bytes pb)) + length (str_bytes title) + 8 + length ?b \<le> pb_max_bytes pb"
    using False assms(4) by (auto simp: bounded_body_def Let_def split: if_splits)
  ultimately show ?thesis by (auto simp: out t)
qed

end
