(* ===== verification/SC_Agent_Properties.thy ===== *)
theory SC_Agent_Properties
  imports "HOL-Library.Code_Target_Numeral" SC_Turn_Queue SC_Router SC_Url SC_History
begin

text \<open>
  The properties of the turn queue and of the providers, with the inputs that show their hypotheses can hold.
\<close>

section \<open>The turn queue\<close>

definition start_world :: "'u sc_runtime_turn_queue \<Rightarrow> sc_allocator \<Rightarrow> 'u queue_world" where
  "start_world queue a = \<lparr>the_queue = queue, completed = [], accepted = [], world_alloc = a\<rparr>"

lemma start_world_inv:
  assumes "sc_runtime_turn_queue_new a0 = (Inr queue, a)"
  shows "world_inv (live a0) (start_world queue a)"
proof -
  have "start_world queue a = world0 a" "live a = live a0 + 1"
    using assms
    by (auto simp: sc_runtime_turn_queue_new_def start_world_def world0_def split: prod.splits bool.splits dest: alloc_cases)
  then show ?thesis using world0_inv [of a] by simp
qed

definition demo_job :: "string \<Rightarrow> nat sc_runtime_agent_job" where
  "demo_job input = \<lparr>job_source = SC_RUNTIME_AGENT_JOB_CHANNEL, job_input = Str input, job_session_id = Str ''s'',
     job_thread_id = Str ''t'', cancel_previous = True, consecutive_message_limit = 2, job_done = Some (length input)\<rparr>"

definition demo_queue :: "nat sc_runtime_turn_queue \<times> sc_allocator" where
  "demo_queue =
     (let a = snd (sc_runtime_turn_queue_new heap0 :: nat sc_runtime_turn_queue res \<times> sc_allocator);
          queue = \<lparr>jobs = sc_vec_init SIZEOF_QUEUED_TURN, scheduled = False, in_flight = False\<rparr> in
      (queue, a))"

lemma demo_queue_new: "sc_runtime_turn_queue_new heap0 = (Inr (fst demo_queue), snd demo_queue)"
  by (simp add: demo_queue_def sc_runtime_turn_queue_new_def heap0_def sc_alloc_def)

lemma demo_arrives:
  "queue_step (start_world (fst demo_queue) (snd demo_queue))
     (case sc_runtime_turn_queue_enqueue False (fst demo_queue) (demo_job ''hi'') (snd demo_queue) of
        (st, queue', a') \<Rightarrow> \<lparr>the_queue = queue', completed = [],
          accepted = (if sc_status_is_ok st then [2] else []), world_alloc = a'\<rparr>)"
proof -
  obtain st queue' a' where e: "sc_runtime_turn_queue_enqueue False (fst demo_queue) (demo_job ''hi'') (snd demo_queue) = (st, queue', a')"
    by (cases "sc_runtime_turn_queue_enqueue False (fst demo_queue) (demo_job ''hi'') (snd demo_queue)")
  from queue_step.arrive [of False "start_world (fst demo_queue) (snd demo_queue)" "demo_job ''hi''" st queue' a'] e
  show ?thesis by (simp add: start_world_def demo_job_def numeral_2_eq_2 split: if_splits)
qed

lemma demo_accepted:
  "sc_status_is_ok (fst (sc_runtime_turn_queue_enqueue False (fst demo_queue) (demo_job ''hi'') (snd demo_queue)))"
  "\<not> in_flight (fst (snd (sc_runtime_turn_queue_enqueue False (fst demo_queue) (demo_job ''hi'') (snd demo_queue))))"
  "length (queue_view (fst (snd (sc_runtime_turn_queue_enqueue False (fst demo_queue) (demo_job ''hi'') (snd demo_queue))))) = 1"
  by code_simp+

text \<open>C36. However jobs arrive, the loop's task runs and turns complete: the callbacks called so far and those of
  the queued turns are, in order, the callbacks of the jobs that were accepted, each once; a turn in flight is the
  head of the queue and has been started; and destroying the queue gives back every block.\<close>

theorem turn_queue_callbacks_in_order:
  assumes "sc_runtime_turn_queue_new a0 = (Inr queue, a)" "queue_step\<^sup>*\<^sup>* (start_world queue a) w"
  shows "map fst (completed w) @ pending (queue_view (the_queue w)) = accepted w \<and>
    (in_flight (the_queue w) \<longrightarrow> items (jobs (the_queue w)) \<noteq> [] \<and> active_turn (hd (items (jobs (the_queue w)))) \<noteq> None) \<and>
    live (sc_runtime_turn_queue_destroy (the_queue w) (world_alloc w)) = live a0"
proof -
  have "world_inv (live a0) w" using queue_steps_inv [OF assms(2) start_world_inv [OF assms(1)]] .
  then show ?thesis by (auto simp: world_inv_def queue_destroy_live queue_view_def)
qed

theorem turn_queue_order_witness:
  "\<exists>w. queue_step\<^sup>*\<^sup>* (start_world (fst demo_queue) (snd demo_queue)) w \<and> accepted w = [2] \<and>
     map fst (completed w) @ pending (queue_view (the_queue w)) = [2]"
proof -
  let ?w = "case sc_runtime_turn_queue_enqueue False (fst demo_queue) (demo_job ''hi'') (snd demo_queue) of
    (st, queue', a') \<Rightarrow> \<lparr>the_queue = queue', completed = [], accepted = (if sc_status_is_ok st then [2] else []), world_alloc = a'\<rparr>"
  have "accepted ?w = [2]" using demo_accepted(1) by (auto split: prod.splits)
  moreover have s: "queue_step\<^sup>*\<^sup>* (start_world (fst demo_queue) (snd demo_queue)) ?w" using demo_arrives by blast
  ultimately show ?thesis using turn_queue_callbacks_in_order [OF demo_queue_new s] by (intro exI [of _ ?w]) simp
qed



text \<open>C38. Adding a job refines the abstract queue: on success the turns of the same session and thread are marked
  cancelled, the new turn stands last with the newest messages of the window it takes over, and nothing else
  changes; on failure no turn was added. The blocks taken are those of the queue.\<close>

theorem enqueue_refines_abstract_queue:
  assumes "sc_runtime_turn_queue_enqueue shutdown queue job a = (st, queue', a')" "queue_inv queue"
  shows "queue_inv queue' \<and> live a' - queue_blocks queue' = live a - queue_blocks queue \<and>
    (if sc_status_is_ok st then queue_view queue' = a_enqueue job (queue_view queue)
     else queue_view queue' \<in> {queue_view queue, a_cancel job (queue_view queue)})"
  using enqueue_spec [OF assms] by auto

theorem enqueue_refines_witness:
  "\<exists>st queue' a'. sc_runtime_turn_queue_enqueue False (fst demo_queue) (demo_job ''hi'') (snd demo_queue) = (st, queue', a') \<and>
     queue_view queue' = a_enqueue (demo_job ''hi'') []"
proof -
  obtain st queue' a' where e: "sc_runtime_turn_queue_enqueue False (fst demo_queue) (demo_job ''hi'') (snd demo_queue) = (st, queue', a')"
    by (cases "sc_runtime_turn_queue_enqueue False (fst demo_queue) (demo_job ''hi'') (snd demo_queue)")
  have "queue_inv (fst demo_queue)" "queue_view (fst demo_queue) = []"
    by (simp_all add: demo_queue_def queue_inv_def queue_view_def)
  with enqueue_refines_abstract_queue [OF e] e demo_accepted(1) show ?thesis by auto
qed

section \<open>Retries and routes\<close>

text \<open>C39. The retrying provider calls a candidate until it succeeds, fails in a way that is not retried, or has been
  called once more than the number of retries: there is an attempt, at most that many, before which every attempt
  failed retryably and at which the loop stops with its status and response.\<close>

theorem reliable_call_stops_at_settled:
  assumes "rp_max_retries rp \<noteq> - 1"
  shows "\<exists>k \<le> unat (rp_max_retries rp).
    (\<forall>i < k. sc_provider_should_retry
       (attempt_status (generate_call p request) (note_generate note) (p_name p) (rp_retry_backoff_ms rp) s i) 0) \<and>
    (\<not> sc_provider_should_retry
       (attempt_status (generate_call p request) (note_generate note) (p_name p) (rp_retry_backoff_ms rp) s k) 0 \<or>
     k = unat (rp_max_retries rp)) \<and>
    reliable_call_generate note rp p request s =
      (case generate_call p request (failed_attempts (generate_call p request) (note_generate note) (p_name p) (rp_retry_backoff_ms rp) s k) of
         (st, s1) \<Rightarrow> (st, note_generate note (Attempt (p_name p) (of_nat (Suc k)) st (attempt_key st)) s1))"
  unfolding reliable_call_generate_def by (rule retry_loop_characterised [OF assms])

text \<open>A provider that fails until the log shows two attempts.\<close>

definition flaky_generate :: "(int, reliable_event list) generate_fn" where
  "flaky_generate w request out a =
     (if length w < 4 then (sc_status_io ''down'', out, a, w) else (sc_status_ok, out\<lparr>streaming_complete := True\<rparr>, a, w))"

definition flaky :: "(int, reliable_event list, unit) sc_provider" where
  "flaky = (mock_vtab (\<lambda>_. None) \<lparr>mock_mode = SC_PROVIDER_MOCK_TEXT, mock_text = None\<rparr>)\<lparr>p_generate := Some flaky_generate, p_stream := None\<rparr>"

definition demo_provider_request :: sc_provider_request where
  "demo_provider_request = \<lparr>req_model = Str [], req_prompt = Str ''hi'', req_system_instruction = Str [], req_tool_specs_json = Str [],
     req_media_count = 0, req_media_context = Str [], req_cancel_requested = False, req_route_hint = Str []\<rparr>"

definition demo_reliable :: "(int, reliable_event list, unit) reliable_provider" where
  "demo_reliable = \<lparr>rp_providers = (sc_vec_init 8)\<lparr>items := [flaky], vcap := 8\<rparr>, rp_max_retries = 2, rp_retry_backoff_ms = 100\<rparr>"

theorem reliable_call_witness:
  "(\<exists>k \<le> 2. reliable_call_generate (\<lambda>e w. w @ [e]) demo_reliable flaky demo_provider_request (response_zero, heap0, []) =
     (case generate_call flaky demo_provider_request
        (failed_attempts (generate_call flaky demo_provider_request) (note_generate (\<lambda>e w. w @ [e])) (p_name flaky) 100 (response_zero, heap0, []) k) of
        (st, s1) \<Rightarrow> (st, note_generate (\<lambda>e w. w @ [e]) (Attempt (p_name flaky) (of_nat (Suc k)) st (attempt_key st)) s1))) \<and>
   sc_status_is_ok (fst (reliable_call_generate (\<lambda>e w. w @ [e]) demo_reliable flaky demo_provider_request (response_zero, heap0, [])))"
proof -
  have r: "rp_max_retries demo_reliable = 2" "rp_retry_backoff_ms demo_reliable = 100" by (simp_all add: demo_reliable_def)
  then have "rp_max_retries demo_reliable \<noteq> - 1" by simp
  note law = reliable_call_stops_at_settled [OF this, of flaky demo_provider_request
      "\<lambda>e w. w @ [e]" "(response_zero, heap0, [])", unfolded r]
  have "sc_status_is_ok (fst (reliable_call_generate (\<lambda>e w. w @ [e]) demo_reliable flaky demo_provider_request (response_zero, heap0, [])))"
    by code_simp
  moreover have "unat (2 :: 32 word) = 2" by simp
  ultimately show ?thesis using law by auto
qed







text \<open>The router's hint test, an index loop, finds exactly the places where the configured name stands in the
  request between two bounds: after the start, a comma, space, colon or semicolon, and before the end, a comma,
  space or semicolon.\<close>

theorem route_hint_is_token_search:
  "route_hint_matches (Str c) (Str t) \<longleftrightarrow> c \<noteq> [] \<and>
     (\<exists>l r. t = l @ c @ r \<and> (l = [] \<or> last l \<in> set '', :;'') \<and> (r = [] \<or> hd r \<in> set '', ;''))"
  by (simp add: route_hint_matches_iff left_bound_def right_bound_def)

definition cut_stream :: "string \<Rightarrow> string \<Rightarrow> (int, nat, string list) stream_fn" where
  "cut_stream t u w request a callback user =
     (case callback user ((event_of SC_PROVIDER_STREAM_DELTA)\<lparr>ev_text := Some t\<rparr>) of
        (st, user1) \<Rightarrow>
          (if w = 0 then (sc_status_io ''sc.http.reset'', a, Suc w, user1)
           else (case callback user1 ((event_of SC_PROVIDER_STREAM_DELTA)\<lparr>ev_text := Some u\<rparr>) of
                   (st, user2) \<Rightarrow> (sc_status_ok, a, Suc w, user2))))"

definition cut_provider :: "string \<Rightarrow> string \<Rightarrow> (int, nat, string list) sc_provider" where
  "cut_provider t u = (mock_vtab (\<lambda>_. None) \<lparr>mock_mode = SC_PROVIDER_MOCK_TEXT, mock_text = None\<rparr>)\<lparr>p_stream := Some (cut_stream t u)\<rparr>"

definition collect :: "(int, string list) stream_callback" where
  "collect user e = (sc_status_ok, user @ [owned_text (ev_text e)])"

text \<open>A stream that breaks off after some text is started again, and the text delivered before the break is
  delivered a second time: the callback cannot tell the repetition from the answer.\<close>

theorem reliable_stream_repeats_text:
  "reliable_stream (\<lambda>_ w. w)
     \<lparr>rp_providers = (sc_vec_init 8)\<lparr>items := [cut_provider t u], vcap := 8\<rparr>, rp_max_retries = 2, rp_retry_backoff_ms = 0\<rparr>
     0 demo_provider_request a collect [] = (sc_status_ok, a, 2, [t, t, u])"
proof -
  have io: "sc_provider_should_retry (sc_status_io k) 0" "\<not> sc_status_is_ok (sc_status_io k)" for k
    by (simp_all add: should_retry_iff sc_status_is_ok_def sc_status_io_def status_with_key_def sc_status_make_def)
  let ?call = "stream_call (cut_provider t u) demo_provider_request collect"
  have call: "?call (a, 0, []) = (sc_status_io ''sc.http.reset'', a, Suc 0, [t])" "?call (a, Suc 0, [t]) = (sc_status_ok, a, 2, [t, t, u])"
    by (simp_all add: stream_call_def sc_provider_stream_def cut_provider_def mock_vtab_def demo_provider_request_def cut_stream_def collect_def)
  have "retry_loop ?call (note_stream (\<lambda>_ w. w)) name 2 0 1 st (a, 0, []) = (sc_status_ok, a, 2, [t, t, u])" for name st
    by (subst retry_loop.simps, simp add: call io note_stream_def sleep_ms_def)
      (subst retry_loop.simps, simp add: call io note_stream_def)
  then show ?thesis by (simp add: reliable_stream_def reliable_call_stream_def candidate_skipped_def)
qed

text \<open>The address test of the providers compares only the beginning of the text: with loopback allowed it lets a
  plain-text address through whose host, as the URL parser reads it, is not the local one.\<close>

theorem provider_url_prefix_not_host:
  "sc_provider_url_allowed (Str ''http://localhost.evil.example/v1'') True \<and>
   (case fst (sc_url_parse (Str ''http://localhost.evil.example/v1'') heap0) of
      Inl e \<Rightarrow> False | Inr u \<Rightarrow> host u = Some ''localhost.evil.example'')"
  by code_simp

end
