(* ===== verification/SC_Tools.thy ===== *)
theory SC_Tools
  imports SC_Request SC_Receipts SC_Provider SC_Utf8
begin

text \<open>
  Tools: the handle of \<^verbatim>\<open>src/contracts/contracts.c\<close> and what every tool uses of
  \<^verbatim>\<open>src/tools/tool_common.c\<close>: results, schemas and the validation of a call against them, string arguments, the
  security check with its approval override, receipts, and the descriptions handed to the model. A tool is the
  record of its functions; \<open>'w\<close> is the world they act on. Log entries do not change what the functions return and
  are left out.
\<close>

section \<open>Specifications, calls and results\<close>

datatype sc_attachment_delivery =
  SC_ATTACHMENT_DELIVERY_DEFAULT | SC_ATTACHMENT_DELIVERY_PHOTO | SC_ATTACHMENT_DELIVERY_DOCUMENT

datatype sc_tool_side_effect =
    SC_TOOL_SIDE_EFFECT_NONE | SC_TOOL_SIDE_EFFECT_READ | SC_TOOL_SIDE_EFFECT_WRITE
  | SC_TOOL_SIDE_EFFECT_NETWORK | SC_TOOL_SIDE_EFFECT_PROCESS | SC_TOOL_SIDE_EFFECT_DESTRUCTIVE

record 'd sc_tool_spec =
  ts_name :: sc_str
  ts_description :: sc_str
  ts_input_schema :: "'d sc_json_value option"
  ts_capabilities :: "64 word"
  ts_risk :: sc_tool_risk
  ts_output_schema :: "'d sc_json_value option"
  ts_capability_category :: "32 word"
  ts_side_effect :: sc_tool_side_effect
  ts_default_autonomy :: sc_autonomy_level
  ts_catalog_metadata_key :: sc_str

text \<open>The callers start from a specification with all fields zero.\<close>

definition spec_zero :: "'d sc_tool_spec" where
  "spec_zero = \<lparr>ts_name = NullStr 0, ts_description = NullStr 0, ts_input_schema = None, ts_capabilities = 0,
     ts_risk = SC_TOOL_RISK_READONLY, ts_output_schema = None, ts_capability_category = 0,
     ts_side_effect = SC_TOOL_SIDE_EFFECT_NONE, ts_default_autonomy = SC_AUTONOMY_READ_ONLY, ts_catalog_metadata_key = NullStr 0\<rparr>"

text \<open>The cancel token is read where it is needed: the flag is its value, false without a token.\<close>

record 'd sc_tool_call =
  tc_call_id :: sc_str
  tc_args :: "'d sc_json_value option"
  tc_cancel_requested :: bool

record sc_tool_result =
  tr_success :: bool
  tr_output :: sc_string
  tr_attachment_content_type :: sc_string
  tr_attachment_filename :: sc_string
  tr_attachment_bytes :: sc_bytes
  tr_attachment_delivery :: sc_attachment_delivery

definition tool_result_zero :: sc_tool_result where
  "tool_result_zero = \<lparr>tr_success = False, tr_output = None, tr_attachment_content_type = None, tr_attachment_filename = None,
     tr_attachment_bytes = bytes_zero, tr_attachment_delivery = SC_ATTACHMENT_DELIVERY_DEFAULT\<rparr>"

definition sc_tool_result_clear :: "sc_tool_result \<Rightarrow> sc_allocator \<Rightarrow> sc_allocator" where
  "sc_tool_result_clear r a =
     snd (sc_bytes_clear (tr_attachment_bytes r)
       (sc_string_clear (tr_attachment_filename r)
         (sc_string_clear (tr_attachment_content_type r) (sc_string_clear (tr_output r) a))))"

section \<open>Schemas\<close>

text \<open>The schema builders differ in the number of string properties they add.\<close>

fun add_string_properties :: "(sc_str \<times> bool) list \<Rightarrow> 'd build_state \<Rightarrow> 'd build_state" where
  "add_string_properties [] s = s"
| "add_string_properties ((name, required) # ps) (st, schema, a) =
     (if \<not> sc_status_is_ok st then (st, schema, a)
      else add_string_properties ps (sc_json_schema_add_string_property schema name required a))"

definition schema_of_strings :: "(sc_str \<times> bool) list \<Rightarrow> sc_allocator \<Rightarrow> 'd sc_json_value res \<times> sc_allocator" where
  "schema_of_strings ps a =
     (case sc_json_schema_object a of
        (Inl e, a1) \<Rightarrow> (Inl e, a1)
      | (Inr schema, a1) \<Rightarrow>
          (case add_string_properties ps (sc_status_ok, schema, a1) of
             (st, schema', a2) \<Rightarrow> (if \<not> sc_status_is_ok st then (Inl st, sc_json_destroy schema' a2) else (Inr schema', a2))))"

definition sc_tool_schema_string :: "sc_str \<Rightarrow> bool \<Rightarrow> sc_allocator \<Rightarrow> 'd sc_json_value res \<times> sc_allocator" where
  "sc_tool_schema_string name required a = schema_of_strings [(name, required)] a"

definition sc_tool_schema_string_required :: "sc_str \<Rightarrow> sc_str \<Rightarrow> sc_allocator \<Rightarrow> 'd sc_json_value res \<times> sc_allocator" where
  "sc_tool_schema_string_required name description a = sc_tool_schema_string name True a"

definition sc_tool_output_schema_text :: "sc_allocator \<Rightarrow> 'd sc_json_value res \<times> sc_allocator" where
  "sc_tool_output_schema_text a = sc_tool_schema_string_required (Str ''text'') (Str ''tool.output.text'') a"

definition sc_tool_schema_two_strings ::
    "sc_str \<Rightarrow> bool \<Rightarrow> sc_str \<Rightarrow> bool \<Rightarrow> sc_allocator \<Rightarrow> 'd sc_json_value res \<times> sc_allocator" where
  "sc_tool_schema_two_strings n1 r1 n2 r2 a = schema_of_strings [(n1, r1), (n2, r2)] a"

definition sc_tool_schema_three_strings ::
    "sc_str \<Rightarrow> bool \<Rightarrow> sc_str \<Rightarrow> bool \<Rightarrow> sc_str \<Rightarrow> bool \<Rightarrow> sc_allocator \<Rightarrow> 'd sc_json_value res \<times> sc_allocator" where
  "sc_tool_schema_three_strings n1 r1 n2 r2 n3 r3 a = schema_of_strings [(n1, r1), (n2, r2), (n3, r3)] a"

definition sc_tool_schema_four_strings ::
    "sc_str \<Rightarrow> bool \<Rightarrow> sc_str \<Rightarrow> bool \<Rightarrow> sc_str \<Rightarrow> bool \<Rightarrow> sc_str \<Rightarrow> bool \<Rightarrow> sc_allocator \<Rightarrow> 'd sc_json_value res \<times> sc_allocator" where
  "sc_tool_schema_four_strings n1 r1 n2 r2 n3 r3 n4 r4 a = schema_of_strings [(n1, r1), (n2, r2), (n3, r3), (n4, r4)] a"

section \<open>Arguments\<close>

definition span_contains_nul :: "sc_str \<Rightarrow> bool" where
  "span_contains_nul v \<longleftrightarrow> \<not> ptr_null v \<and> CHR 0x00 \<in> set (str_bytes v)"

text \<open>The checks on a string that both argument functions and the schema validation end with.\<close>

definition string_arg_status :: "sc_str \<Rightarrow> sc_status" where
  "string_arg_status v =
     (if span_contains_nul v then sc_status_invalid_argument ''sc.tool.args.embedded_nul''
      else if \<not> sc_str_is_valid_utf8 v then sc_status_invalid_argument ''sc.tool.args.invalid_utf8''
      else sc_status_ok)"

text \<open>Both functions write the string they found before they look at its bytes; \<open>out\<close> is what was there before.\<close>

definition sc_tool_get_string_arg :: "'d sc_tool_call option \<Rightarrow> sc_str \<Rightarrow> sc_str \<Rightarrow> sc_status \<times> sc_str" where
  "sc_tool_get_string_arg call name out =
     (let args = Option.bind call tc_args in
      (if args = None \<or> ptr_null name \<or> str_len name = 0
       then (sc_status_invalid_argument ''sc.tool.args.invalid_argument'', out)
       else (case sc_json_as_str (sc_json_object_get args name) of
               None \<Rightarrow> (sc_status_invalid_argument ''sc.tool.args.missing_string'', out)
             | Some v \<Rightarrow>
                 (if ptr_null v \<or> str_len v = 0 then (sc_status_invalid_argument ''sc.tool.args.missing_string'', v)
                  else (string_arg_status v, v)))))"

definition sc_tool_get_optional_string_arg :: "'d sc_tool_call option \<Rightarrow> sc_str \<Rightarrow> sc_str \<Rightarrow> sc_status \<times> sc_str" where
  "sc_tool_get_optional_string_arg call name out =
     (let args = Option.bind call tc_args in
      (if args = None \<or> ptr_null name \<or> str_len name = 0
       then (sc_status_invalid_argument ''sc.tool.args.invalid_argument'', out)
       else (case sc_json_object_get args name of
               None \<Rightarrow> (sc_status_ok, Str [])
             | Some x \<Rightarrow>
                 (if sc_json_is_null (Some x) then (sc_status_ok, Str [])
                  else (case sc_json_as_str (Some x) of
                          None \<Rightarrow> (sc_status_invalid_argument ''sc.tool.args.wrong_type'', out)
                        | Some v \<Rightarrow> (string_arg_status v, v))))))"

section \<open>Validation against the schema\<close>

definition array_items :: "'d sc_json_value option \<Rightarrow> 'd sc_json_value list" where
  "array_items v = (case v of Some (SC_JSON_ARRAY xs c h) \<Rightarrow> xs | _ \<Rightarrow> [])"

fun required_present :: "'d sc_json_value option \<Rightarrow> 'd sc_json_value list \<Rightarrow> sc_status" where
  "required_present args [] = sc_status_ok"
| "required_present args (r # rs) =
     (case sc_json_as_str (Some r) of
        None \<Rightarrow> sc_status_invalid_argument ''sc.tool.schema.invalid_required''
      | Some name \<Rightarrow>
          (case sc_json_object_get args name of
             None \<Rightarrow> sc_status_invalid_argument ''sc.tool.schema.required_missing''
           | Some x \<Rightarrow>
               (if sc_json_type_of (Some x) \<noteq> JSON_STRING then sc_status_invalid_argument ''sc.tool.schema.type_mismatch''
                else required_present args rs)))"

fun required_encoded :: "'d sc_json_value option \<Rightarrow> 'd sc_json_value list \<Rightarrow> sc_status" where
  "required_encoded args [] = sc_status_ok"
| "required_encoded args (r # rs) =
     (case sc_json_as_str (Some r) of
        None \<Rightarrow> required_encoded args rs
      | Some name \<Rightarrow>
          (case sc_json_as_str (sc_json_object_get args name) of
             None \<Rightarrow> required_encoded args rs
           | Some v \<Rightarrow> (if sc_status_is_ok (string_arg_status v) then required_encoded args rs else string_arg_status v)))"

definition validate_schema_string_subset :: "'d sc_json_value option \<Rightarrow> 'd sc_json_value option \<Rightarrow> sc_status" where
  "validate_schema_string_subset schema args =
     (let required = array_items (sc_json_object_get schema (Str ''required'')) in
      (if schema = None then sc_status_ok
       else if sc_json_type_of args \<noteq> JSON_OBJECT then sc_status_invalid_argument ''sc.tool.schema.args_not_object''
       else if \<not> sc_status_is_ok (required_present args required) then required_present args required
       else if sc_json_object_get schema (Str ''properties'') \<noteq> None then required_encoded args required
       else sc_status_ok))"

definition sc_tool_validate_call_against_schema :: "'d sc_tool_spec \<Rightarrow> 'd sc_tool_call \<Rightarrow> sc_status" where
  "sc_tool_validate_call_against_schema spec call =
     (if ts_input_schema spec = None then sc_status_ok
      else if tc_args call = None then sc_status_invalid_argument ''sc.tool.schema.missing_args''
      else validate_schema_string_subset (ts_input_schema spec) (tc_args call))"

section \<open>The tool handle\<close>

type_synonym ('d, 'w) invoke_fn =
  "'w \<Rightarrow> 'd sc_tool_call \<Rightarrow> sc_tool_result \<Rightarrow> sc_allocator \<Rightarrow> sc_status \<times> sc_tool_result \<times> sc_allocator \<times> 'w"

record ('d, 'w) sc_tool =
  t_struct_size :: nat
  t_abi_major :: nat
  t_name :: "string option"
  t_spec :: "(sc_status \<times> 'd sc_tool_spec) option"
  t_invoke :: "('d, 'w) invoke_fn option"
  t_destroy :: "(sc_allocator \<Rightarrow> sc_allocator) option"

definition SIZEOF_TOOL_VTAB :: nat where
  "SIZEOF_TOOL_VTAB = 88"

definition SIZEOF_TOOL :: nat where
  "SIZEOF_TOOL = 24"

definition sc_tool_vtab_valid :: "('d, 'w) sc_tool option \<Rightarrow> bool" where
  "sc_tool_vtab_valid vtab =
     (case vtab of
        None \<Rightarrow> False
      | Some t \<Rightarrow>
          sc_contract_common_vtab_valid (t_struct_size t) (t_abi_major t) (t_name t) (t_invoke t \<noteq> None) (t_destroy t \<noteq> None) \<and>
          t_struct_size t \<ge> SIZEOF_TOOL_VTAB \<and> t_spec t \<noteq> None)"

definition sc_tool_new :: "('d, 'w) sc_tool option \<Rightarrow> sc_allocator \<Rightarrow> ('d, 'w) sc_tool res \<times> sc_allocator" where
  "sc_tool_new vtab a =
     (if \<not> sc_tool_vtab_valid vtab then (Inl (sc_status_invalid_argument ''sc.tool.invalid_vtab''), a)
      else sc_contract_handle_new vtab SIZEOF_TOOL a)"

definition sc_tool_spec_get :: "('d, 'w) sc_tool option \<Rightarrow> 'd sc_tool_spec res" where
  "sc_tool_spec_get tool =
     (case tool of
        None \<Rightarrow> Inl (sc_status_invalid_argument ''sc.tool.invalid_argument'')
      | Some t \<Rightarrow> (case t_spec t of
                      None \<Rightarrow> Inl (sc_status_invalid_argument ''sc.tool.invalid_argument'')
                    | Some (st, spec) \<Rightarrow> (if sc_status_is_ok st then Inr spec else Inl st)))"

definition sc_tool_invoke :: "('d, 'w) sc_tool option \<Rightarrow> ('d, 'w) invoke_fn" where
  "sc_tool_invoke tool w call out a =
     (case tool of
        None \<Rightarrow> (sc_status_invalid_argument ''sc.tool.invalid_argument'', out, a, w)
      | Some t \<Rightarrow>
          (case t_invoke t of
             None \<Rightarrow> (sc_status_invalid_argument ''sc.tool.invalid_argument'', out, a, w)
           | Some invoke \<Rightarrow>
               (case sc_tool_spec_get tool of
                  Inl e \<Rightarrow> (e, out, a, w)
                | Inr spec \<Rightarrow>
                    (if \<not> sc_status_is_ok (sc_tool_validate_call_against_schema spec call)
                     then (sc_tool_validate_call_against_schema spec call, out, a, w)
                     else invoke w call out a))))"

definition sc_tool_destroy :: "('d, 'w) sc_tool option \<Rightarrow> sc_allocator \<Rightarrow> sc_allocator" where
  "sc_tool_destroy tool a = (case tool of None \<Rightarrow> a | Some t \<Rightarrow> sc_contract_handle_destroy (t_destroy t) a)"

section \<open>Context, security and output\<close>

text \<open>The fields of the context the shared functions use. The chain of receipts is passed along with the calls.\<close>

record sc_tool_context =
  cx_policy :: "sc_security_policy option"
  cx_estop :: "sc_estop_state option"
  cx_max_output_bytes :: nat
  cx_max_arg_bytes :: nat
  cx_timeout_ms :: int
  cx_cancel_requested :: bool

record 'd sc_tool_impl_context =
  ic_context :: sc_tool_context
  ic_schema :: "'d sc_json_value option"
  ic_output_schema :: "'d sc_json_value option"

definition sc_tool_context_copy :: "sc_tool_context option \<Rightarrow> 'd sc_tool_impl_context res" where
  "sc_tool_context_copy context =
     (case context of
        None \<Rightarrow> Inl (sc_status_invalid_argument ''sc.tool_context.invalid_argument'')
      | Some cx \<Rightarrow>
          (if cx_policy cx = None then Inl (sc_status_invalid_argument ''sc.tool_context.invalid_argument'')
           else Inr \<lparr>ic_context = cx, ic_schema = None, ic_output_schema = None\<rparr>))"

definition sc_tool_impl_context_clear :: "'d sc_tool_impl_context \<Rightarrow> sc_allocator \<Rightarrow> sc_allocator" where
  "sc_tool_impl_context_clear ic a = destroy_arguments (ic_output_schema ic) (destroy_arguments (ic_schema ic) a)"

definition sc_tool_check_cancelled :: "'d sc_tool_impl_context option \<Rightarrow> 'd sc_tool_call option \<Rightarrow> sc_status" where
  "sc_tool_check_cancelled context call =
     (if (case call of None \<Rightarrow> False | Some c \<Rightarrow> tc_cancel_requested c) then sc_status_cancelled ''sc.tool.cancelled''
      else if (case context of None \<Rightarrow> False | Some ic \<Rightarrow> cx_cancel_requested (ic_context ic))
      then sc_status_cancelled ''sc.tool.cancelled''
      else sc_status_ok)"

text \<open>The thread-local \<^verbatim>\<open>current_approval_override\<close> is an argument, with the values of its set and clear functions.\<close>

definition sc_tool_approval_override_set :: "sc_str \<Rightarrow> sc_str" where
  "sc_tool_approval_override_set name = name"

definition sc_tool_approval_override_clear :: sc_str where
  "sc_tool_approval_override_clear = NullStr 0"

definition sc_tool_security_check_ex ::
    "fs \<Rightarrow> sc_str \<Rightarrow> 'd sc_tool_impl_context option \<Rightarrow> sc_security_tool_request \<Rightarrow> sc_allocator \<Rightarrow> sc_status \<times> sc_allocator" where
  "sc_tool_security_check_ex f override context request a =
     (case context of
        None \<Rightarrow> (sc_status_invalid_argument ''sc.tool.security.invalid_argument'', a)
      | Some ic \<Rightarrow>
          (case cx_policy (ic_context ic) of
             None \<Rightarrow> (sc_status_invalid_argument ''sc.security.invalid_argument'', a)
           | Some p \<Rightarrow>
               (case sc_security_validate_request f p (cx_estop (ic_context ic)) request a of
                  (st, approval_required, a1) \<Rightarrow>
                    (if \<not> sc_status_is_ok st then (st, a1)
                     else if approval_required \<and> \<not> sc_str_equal override (tool_name request)
                     then (sc_status_cancelled ''sc.tool.approval_required'', a1)
                     else (sc_status_ok, a1)))))"

definition sc_tool_security_check ::
    "fs \<Rightarrow> sc_str \<Rightarrow> 'd sc_tool_impl_context option \<Rightarrow> sc_str \<Rightarrow> sc_tool_risk \<Rightarrow> sc_str \<Rightarrow> bool \<Rightarrow> sc_str \<Rightarrow> sc_str \<Rightarrow> sc_allocator \<Rightarrow>
       sc_status \<times> sc_allocator" where
  "sc_tool_security_check f override context name rk pth must_exist url shell a =
     sc_tool_security_check_ex f override context
       \<lparr>tool_name = name, risk = rk, path_arg = pth, path_must_exist = must_exist, url_arg = url, shell_arg = shell,
        device_arg = Str [], req_otp_code = Str []\<rparr> a"

definition max_output :: "'d sc_tool_impl_context option \<Rightarrow> nat" where
  "max_output context =
     (case context of
        None \<Rightarrow> 4096
      | Some ic \<Rightarrow> (if cx_max_output_bytes (ic_context ic) = 0 then 4096 else cx_max_output_bytes (ic_context ic)))"

text \<open>The result that was there is overwritten.\<close>

definition sc_tool_set_output ::
    "'d sc_tool_impl_context option \<Rightarrow> sc_str \<Rightarrow> bool \<Rightarrow> sc_allocator \<Rightarrow> sc_status \<times> sc_tool_result \<times> sc_allocator" where
  "sc_tool_set_output context output success a =
     (case sc_string_from_str (Str (take (max_output context) (str_bytes output))) a of
        (Inl e, a1) \<Rightarrow> (e, tool_result_zero\<lparr>tr_success := success\<rparr>, a1)
      | (Inr s, a1) \<Rightarrow> (sc_status_ok, tool_result_zero\<lparr>tr_success := success, tr_output := s\<rparr>, a1))"

section \<open>Receipts\<close>

definition receipt_summary_hash :: "sc_str \<Rightarrow> 64 word" where
  "receipt_summary_hash v = foldl hash_step 1469598103934665603 (map of_char (str_bytes v))"

text \<open>\<^verbatim>\<open>%016llx\<close>: the sixteen hexadecimal digits.\<close>

definition hex16 :: "64 word \<Rightarrow> string" where
  "hex16 w = map (\<lambda>i. hex_digit (unat (drop_bit (60 - 4 * i) w AND 0xF))) [0 ..< 16]"

definition receipt_summary :: "sc_str \<Rightarrow> sc_allocator \<Rightarrow> sc_string res \<times> sc_allocator" where
  "receipt_summary v a =
     (let t = ''hash='' @ hex16 (receipt_summary_hash v) @ '' len='' @ dec (str_len v) in
      (if length t \<ge> 64 then (Inl sc_status_no_memory, a) else sc_string_from_cstr (Some t) a))"

fun tool_status_code_name :: "sc_status_code \<Rightarrow> string" where
  "tool_status_code_name SC_OK = ''ok''"
| "tool_status_code_name SC_ERR_INVALID_ARGUMENT = ''invalid_argument''"
| "tool_status_code_name SC_ERR_NO_MEMORY = ''no_memory''"
| "tool_status_code_name SC_ERR_IO = ''io''"
| "tool_status_code_name SC_ERR_PARSE = ''parse''"
| "tool_status_code_name SC_ERR_HTTP = ''http''"
| "tool_status_code_name SC_ERR_SECURITY_DENIED = ''security_denied''"
| "tool_status_code_name SC_ERR_UNSUPPORTED = ''unsupported''"
| "tool_status_code_name SC_ERR_TIMEOUT = ''timeout''"
| "tool_status_code_name SC_ERR_CANCELLED = ''cancelled''"

text \<open>No receipt is kept without a chain or when the policy turns receipts off.\<close>

definition receipts_off :: "'d sc_tool_impl_context option \<Rightarrow> sc_receipt_chain option \<Rightarrow> bool" where
  "receipts_off context chain \<longleftrightarrow> chain = None \<or>
     (case context of
        None \<Rightarrow> True
      | Some ic \<Rightarrow> (case cx_policy (ic_context ic) of None \<Rightarrow> False | Some p \<Rightarrow> \<not> receipts_enabled p))"

definition sc_tool_record_receipt_status ::
    "sodium \<Rightarrow> timespec \<Rightarrow> 'd sc_tool_impl_context option \<Rightarrow> sc_receipt_chain option \<Rightarrow> sc_str \<Rightarrow> sc_str \<Rightarrow> sc_str \<Rightarrow> bool \<Rightarrow>
       sc_status \<Rightarrow> sc_allocator \<Rightarrow> sc_status \<times> sc_receipt_chain option \<times> sc_allocator" where
  "sc_tool_record_receipt_status sd ts context chain name args_summary output_summary success tool_status a =
     (let failure_reason = (if success then NullStr 0
                            else Str (case error_key tool_status of None \<Rightarrow> ''sc.tool.failed'' | Some k \<Rightarrow> k));
          denied = (code tool_status = SC_ERR_SECURITY_DENIED);
          decision = Str (if denied then ''denied'' else ''allowed'');
          outc = Str (if success then ''ok'' else if denied then ''denied'' else ''error'') in
      (if receipts_off context chain then (sc_status_ok, chain, a)
       else (case receipt_summary (str_or_empty args_summary) a of
               (Inl e, a1) \<Rightarrow> (e, chain, a1)
             | (Inr safe_args, a1) \<Rightarrow>
                 (case receipt_summary (str_or_empty output_summary) a1 of
                    (Inl e, a2) \<Rightarrow> (e, chain, sc_string_clear safe_args a2)
                  | (Inr safe_output, a2) \<Rightarrow>
                      (case sc_receipt_chain_append_ex sd ts (the chain) name (sc_string_as_str safe_args)
                          (sc_string_as_str safe_output) success decision failure_reason outc a2 of
                         (st, chain', a3) \<Rightarrow> (st, Some chain', sc_string_clear safe_output (sc_string_clear safe_args a3)))))))"

definition sc_tool_record_receipt ::
    "sodium \<Rightarrow> timespec \<Rightarrow> 'd sc_tool_impl_context option \<Rightarrow> sc_receipt_chain option \<Rightarrow> sc_str \<Rightarrow> sc_str \<Rightarrow> sc_str \<Rightarrow> bool \<Rightarrow>
       sc_allocator \<Rightarrow> sc_status \<times> sc_receipt_chain option \<times> sc_allocator" where
  "sc_tool_record_receipt sd ts context chain name args_summary output_summary success a =
     sc_tool_record_receipt_status sd ts context chain name args_summary output_summary success
       (if success then sc_status_ok else sc_status_make SC_ERR_IO (Some ''sc.tool.failed'') None) a"

section \<open>Descriptions for the model\<close>

definition clone_schema :: "'d sc_json_value option \<Rightarrow> sc_allocator \<Rightarrow> 'd sc_json_value res \<times> sc_allocator" where
  "clone_schema v a =
     (case v of None \<Rightarrow> (Inl (sc_status_invalid_argument ''sc.json.invalid_argument''), a) | Some x \<Rightarrow> sc_json_clone x a)"

text \<open>
  As in the schema builders, the pointer to a child is forgotten whether or not it could be stored. The inner object
  is made between the two members of the outer one; what is released after a failure is released in either order.
\<close>

fun put_all :: "(string \<times> (sc_allocator \<Rightarrow> 'd sc_json_value res \<times> sc_allocator)) list \<Rightarrow> 'd build_state \<Rightarrow> 'd build_state" where
  "put_all [] s = s"
| "put_all ((key, mk) # ps) s = put_all ps (put_new key mk s)"

definition model_spec_value :: "'d sc_tool_spec \<Rightarrow> sc_allocator \<Rightarrow> 'd sc_json_value res \<times> sc_allocator" where
  "model_spec_value spec a =
     build_document (put_all
       [(''type'', sc_json_string_new (Str ''function'')),
        (''function'', build_document (put_all
           [(''name'', sc_json_string_new (ts_name spec)),
            (''description'', sc_json_string_new (ts_description spec)),
            (''parameters'', clone_schema (ts_input_schema spec))]))]) a"

definition append_model_spec ::
    "'d sc_json_value \<Rightarrow> ('d, 'w) sc_tool option \<Rightarrow> sc_allocator \<Rightarrow> sc_status \<times> 'd sc_json_value \<times> sc_allocator" where
  "append_model_spec array tool a =
     (case tool of
        None \<Rightarrow> (sc_status_invalid_argument ''sc.tool_specs.null_tool'', array, a)
      | Some t \<Rightarrow>
          (case sc_tool_spec_get tool of
             Inl e \<Rightarrow> (e, array, a)
           | Inr spec \<Rightarrow>
               (case model_spec_value spec a of
                  (Inl e, a1) \<Rightarrow> (e, array, a1)
                | (Inr outer, a1) \<Rightarrow> sc_json_array_append array outer a1)))"

fun duplicate_check :: "('d, 'w) sc_tool option list \<Rightarrow> 'd sc_tool_spec \<Rightarrow> sc_status" where
  "duplicate_check [] current = sc_status_ok"
| "duplicate_check (t # ts) current =
     (case sc_tool_spec_get t of
        Inl e \<Rightarrow> e
      | Inr prior \<Rightarrow>
          (if sc_str_equal (ts_name prior) (ts_name current) then sc_status_invalid_argument ''sc.tool_specs.duplicate_tool''
           else duplicate_check ts current))"

text \<open>The loop over the tools; \<open>priors\<close> are those before index \<^verbatim>\<open>i\<close>.\<close>

fun model_specs_loop ::
    "('d, 'w) sc_tool option list \<Rightarrow> ('d, 'w) sc_tool option list \<Rightarrow> 'd sc_json_value \<Rightarrow> sc_allocator \<Rightarrow>
       sc_status \<times> 'd sc_json_value \<times> sc_allocator" where
  "model_specs_loop priors [] array a = (sc_status_ok, array, a)"
| "model_specs_loop priors (t # ts) array a =
     (case t of
        None \<Rightarrow> (sc_status_invalid_argument ''sc.tool_specs.null_tool'', array, a)
      | Some _ \<Rightarrow>
          (case sc_tool_spec_get t of
             Inl e \<Rightarrow> (e, array, a)
           | Inr current \<Rightarrow>
               (if \<not> sc_status_is_ok (duplicate_check priors current) then (duplicate_check priors current, array, a)
                else (case append_model_spec array t a of
                        (st, array', a1) \<Rightarrow>
                          (if \<not> sc_status_is_ok st then (st, array', a1) else model_specs_loop (priors @ [t]) ts array' a1)))))"

definition sc_tool_registry_model_specs_from_tools ::
    "('d, 'w) sc_tool option list \<Rightarrow> sc_allocator \<Rightarrow> 'd sc_json_value res \<times> sc_allocator" where
  "sc_tool_registry_model_specs_from_tools ts a =
     (case sc_json_array_new a of
        (Inl e, a1) \<Rightarrow> (Inl e, a1)
      | (Inr array, a1) \<Rightarrow>
          (case model_specs_loop [] ts array a1 of
             (st, array', a2) \<Rightarrow> (if \<not> sc_status_is_ok st then (Inl st, sc_json_destroy array' a2) else (Inr array', a2))))"

section \<open>What the schemas admit\<close>

text \<open>The blocks of a result.\<close>

definition result_blocks :: "sc_tool_result \<Rightarrow> int" where
  "result_blocks r = string_blocks (tr_output r) + string_blocks (tr_attachment_content_type r) +
     string_blocks (tr_attachment_filename r) + bytes_blocks (tr_attachment_bytes r)"

lemma result_clear_live [simp]: "live (sc_tool_result_clear r a) = live a - result_blocks r"
  by (simp add: sc_tool_result_clear_def result_blocks_def sc_bytes_clear_def bytes_blocks_def)

lemma result_zero_blocks [simp]: "result_blocks tool_result_zero = 0"
  by (simp add: result_blocks_def tool_result_zero_def bytes_zero_def bytes_blocks_def)

text \<open>A schema with the given string properties, as the builders lay it out.\<close>

definition string_property :: "'d json" where
  "string_property = JObject [(''type'', JString ''string'')]"

definition schema_shape :: "(string \<times> bool) list \<Rightarrow> 'd sc_json_value \<Rightarrow> bool" where
  "schema_shape ps s \<longleftrightarrow> json_inv s \<and>
     (\<exists>ty props c1 h1 c2 h2 c h. s = SC_JSON_OBJECT
        [(Some ''type'', ty), (Some ''properties'', SC_JSON_OBJECT props c1 h1),
         (Some ''required'', SC_JSON_ARRAY (map (\<lambda>p. SC_JSON_STRING (Some (fst p))) (filter snd ps)) c2 h2)] c h \<and>
        json_view ty = JString ''object'' \<and> members_view props = map (\<lambda>p. (fst p, string_property)) ps)"

lemma put_new_cases:
  assumes "put_new key mk (st0, v, a) = (st, v', a')" "sc_status_is_ok st0"
  obtains (failed) e where "mk a = (Inl e, a')" "st = e" "v' = v"
  | (made) x a1 where "mk a = (Inr x, a1)" "sc_json_object_set v (Str key) x a1 = (st, v', a')"
  using assms by (cases "mk a"; cases "fst (mk a)") (auto simp: put_new_def)

lemma json_new_specs:
  "sc_json_object_new a = (Inr x, a') \<Longrightarrow> x = SC_JSON_OBJECT [] 0 False \<and> live a' = live a + 1"
  "sc_json_array_new a = (Inr x, a') \<Longrightarrow> x = SC_JSON_ARRAY [] 0 False \<and> live a' = live a + 1"
  "sc_json_string_new (Str t) a = (Inr x, a') \<Longrightarrow> x = SC_JSON_STRING (Some t) \<and> live a' = live a + 2"
  by (auto simp: sc_json_object_new_def sc_json_array_new_def sc_json_string_new_def string_blocks_def
      elim!: json_alloc_cases split: prod.splits sum.splits if_splits dest!: string_from_str_Inr)

lemma json_new_fails:
  "sc_json_object_new a = (Inl e, a') \<Longrightarrow> \<not> sc_status_is_ok e \<and> live a' = live a"
  "sc_json_array_new a = (Inl e, a') \<Longrightarrow> \<not> sc_status_is_ok e \<and> live a' = live a"
  "sc_json_string_new (Str t) a = (Inl e, a') \<Longrightarrow> \<not> sc_status_is_ok e \<and> live a' = live a"
  by (auto simp: sc_json_object_new_def sc_json_array_new_def sc_json_string_new_def string_blocks_def
      elim!: json_alloc_cases split: prod.splits sum.splits if_splits dest!: string_from_str_Inr string_from_str_Inl)

lemma fresh_containers [simp]:
  "json_inv (SC_JSON_OBJECT [] 0 False)" "json_inv (SC_JSON_ARRAY [] 0 False)" "json_inv (SC_JSON_STRING s)"
  by (simp_all add: vec_inv_def)

lemma put_new_ok_before: "put_new key mk (st0, v, a) = (st, v', a') \<Longrightarrow> sc_status_is_ok st \<Longrightarrow> sc_status_is_ok st0"
  by (auto simp: put_new_def split: if_splits)

lemma put_new_stored:
  assumes "put_new key mk (st0, v, a) = (st, v', a')" "json_inv v" "sc_status_is_ok st"
    and "\<And>x a1. mk a = (Inr x, a1) \<Longrightarrow> json_inv x \<and> Q x \<and> live a1 = live a + json_blocks x"
    and "\<And>e a1. mk a = (Inl e, a1) \<Longrightarrow> \<not> sc_status_is_ok e"
  obtains x ms c h c' h' where "Q x" "json_inv x" "json_inv v'" "live a' = live a + json_blocks v' - json_blocks v"
    "v = SC_JSON_OBJECT ms c h" "v' = SC_JSON_OBJECT (ms @ [(Some key, x)]) c' h'"
  using assms(1) put_new_ok_before [OF assms(1,3)]
proof (cases rule: put_new_cases)
  case (failed e)
  with assms(3) assms(5) show thesis by blast
next
  case (made x a1)
  note x = assms(4) [OF made(1)]
  from object_set_spec(1) [OF made(2) assms(2) conjunct1 [OF x] assms(3)] x that show thesis by fastforce
qed

lemma schema_object_shape:
  fixes s :: "'d sc_json_value"
  assumes "sc_json_schema_object a = (Inr s, a')"
  shows "schema_shape [] s \<and> live a' = live a + json_blocks s"
proof -
  obtain v0 :: "'d sc_json_value" and a0 where v0: "sc_json_object_new a = (Inr v0, a0)"
    using assms unfolding sc_json_schema_object_def build_document_def by (auto split: prod.splits sum.splits)
  note z = json_new_specs(1) [OF v0]
  obtain st1 v1 a1 where p1: "put_new ''type'' (sc_json_string_new (Str ''object'')) (sc_status_ok, v0, a0) = (st1, v1, a1)"
    by (cases "put_new ''type'' (sc_json_string_new (Str ''object'')) (sc_status_ok, v0, a0)")
  obtain st2 v2 a2 where p2: "put_new ''properties'' sc_json_object_new (st1, v1, a1) = (st2, v2, a2)"
    by (cases "put_new ''properties'' sc_json_object_new (st1, v1, a1)")
  obtain st3 v3 a3 where p3: "put_new ''required'' sc_json_array_new (st2, v2, a2) = (st3, v3, a3)"
    by (cases "put_new ''required'' sc_json_array_new (st2, v2, a2)")
  have out: "sc_status_is_ok st3" "s = v3" "a' = a3"
    using assms v0 p1 p2 p3 unfolding sc_json_schema_object_def build_document_def by (auto split: if_splits)
  have ok: "sc_status_is_ok st2" "sc_status_is_ok st1"
    using put_new_ok_before [OF p3 out(1)] put_new_ok_before [OF p2] by blast+
  have b0: "json_inv v0" "json_blocks v0 = 1" using z by (simp_all add: vec_inv_def vec_blocks_def)
  obtain ty c1 h1 where one: "json_view ty = JString ''object''" "json_inv v1" "live a1 = live a0 + json_blocks v1 - json_blocks v0"
    "v1 = SC_JSON_OBJECT [(Some ''type'', ty)] c1 h1"
    using p1 ok(2) z b0
    by (elim put_new_stored [where Q = "\<lambda>x. json_view x = JString ''object''"])
      (auto dest!: json_new_specs json_new_fails simp: string_blocks_def)
  obtain c2 h2 where two: "json_inv v2" "live a2 = live a1 + json_blocks v2 - json_blocks v1"
    "v2 = SC_JSON_OBJECT [(Some ''type'', ty), (Some ''properties'', SC_JSON_OBJECT [] 0 False)] c2 h2"
    using p2 ok(1) one(2,4)
    by (elim put_new_stored [where Q = "\<lambda>x. x = SC_JSON_OBJECT [] 0 False"])
      (auto dest!: json_new_specs json_new_fails simp: vec_inv_def vec_blocks_def)
  obtain c3 h3 where three: "json_inv v3" "live a3 = live a2 + json_blocks v3 - json_blocks v2"
    "v3 = SC_JSON_OBJECT [(Some ''type'', ty), (Some ''properties'', SC_JSON_OBJECT [] 0 False),
       (Some ''required'', SC_JSON_ARRAY [] 0 False)] c3 h3"
    using p3 two(1,3) out(1)
    by (elim put_new_stored [where Q = "\<lambda>x. x = SC_JSON_ARRAY [] 0 False"])
      (auto dest!: json_new_specs json_new_fails simp: vec_inv_def vec_blocks_def)
  show ?thesis using one three two z b0 out by (auto simp: schema_shape_def)
qed

lemma schema_shapeI:
  assumes "json_inv s" "s = SC_JSON_OBJECT [(Some ''type'', ty), (Some ''properties'', SC_JSON_OBJECT props c1 h1),
      (Some ''required'', SC_JSON_ARRAY reqs c2 h2)] c h"
    and "json_view ty = JString ''object''" "members_view props = map (\<lambda>p. (fst p, string_property)) ps"
    and "reqs = map (\<lambda>p. SC_JSON_STRING (Some (fst p))) (filter snd ps)"
  shows "schema_shape ps s"
  using assms unfolding schema_shape_def by blast

lemma add_property_shape:
  fixes s :: "'d sc_json_value"
  assumes "sc_json_schema_add_string_property s (Str n) r a = (st, s', a')" "schema_shape ps s" "sc_status_is_ok st"
  shows "schema_shape (ps @ [(n, r)]) s' \<and> live a' = live a + json_blocks s' - json_blocks s"
proof -
  let ?reqs = "map (\<lambda>p. SC_JSON_STRING (Some (fst p)) :: 'd sc_json_value) (filter snd ps)"
  obtain ty props c1 h1 c2 h2 c h where s: "s = SC_JSON_OBJECT [(Some ''type'', ty), (Some ''properties'', SC_JSON_OBJECT props c1 h1),
      (Some ''required'', SC_JSON_ARRAY ?reqs c2 h2)] c h"
    and v: "json_view ty = JString ''object''" "members_view props = map (\<lambda>p. (fst p, string_property)) ps" and inv: "json_inv s"
    using assms(2) by (auto simp: schema_shape_def)
  have get: "sc_json_object_get (Some s) (Str ''properties'') = Some (SC_JSON_OBJECT props c1 h1)"
    "sc_json_object_get (Some s) (Str ''required'') = Some (SC_JSON_ARRAY ?reqs c2 h2)"
    by (simp_all add: s sc_json_object_get_def)
  obtain p0 :: "'d sc_json_value" and a1 where new: "sc_json_object_new a = (Inr p0, a1)"
    using assms(1,3) get json_new_fails(1) by (auto simp: sc_json_schema_add_string_property_def split: prod.splits sum.splits)
  note p0 = json_new_specs(1) [OF new]
  obtain st1 p1 a2 where put: "put_new ''type'' (sc_json_string_new (Str ''string'')) (sc_status_ok, p0, a1) = (st1, p1, a2)"
    by (cases "put_new ''type'' (sc_json_string_new (Str ''string'')) (sc_status_ok, p0, a1)")
  obtain st2 props' a3 where set: "sc_json_object_set (SC_JSON_OBJECT props c1 h1) (Str n) p1 a2 = (st2, props', a3)"
    by (cases "sc_json_object_set (SC_JSON_OBJECT props c1 h1) (Str n) p1 a2")
  have st1: "sc_status_is_ok st1" using assms(1,3) get new put by (auto simp: sc_json_schema_add_string_property_def split: if_splits)
  obtain t c3 h3 where p1: "json_view t = JString ''string''" "json_inv p1" "live a2 = live a1 + json_blocks p1 - json_blocks p0"
    "p1 = SC_JSON_OBJECT [(Some ''type'', t)] c3 h3"
    using put st1 p0
    by (elim put_new_stored [where Q = "\<lambda>x. json_view x = JString ''string''"])
      (auto dest!: json_new_specs json_new_fails simp: string_blocks_def vec_inv_def)
  have st2: "sc_status_is_ok st2"
    using assms(1,3) get new put st1 set
    by (cases "sc_status_is_ok st2") (auto simp: sc_json_schema_add_string_property_def)
  have "json_inv (SC_JSON_OBJECT props c1 h1)" "json_inv (SC_JSON_ARRAY ?reqs c2 h2)" "json_inv ty"
    using inv by (simp_all add: s)
  note invs = this
  obtain c4 h4 where props': "props' = SC_JSON_OBJECT (props @ [(Some n, p1)]) c4 h4" "json_inv props'"
    "live a3 = live a2 + json_blocks props' - json_blocks (SC_JSON_OBJECT props c1 h1) - json_blocks p1"
    using object_set_spec(1) [OF set invs(1) p1(2) st2] by auto
  let ?s1 = "set_member s (Str ''properties'') props'"
  have s1: "?s1 = SC_JSON_OBJECT [(Some ''type'', ty), (Some ''properties'', props'), (Some ''required'', SC_JSON_ARRAY ?reqs c2 h2)] c h"
    by (simp add: s set_member_def)
  have p0b: "json_blocks p0 = 1" using p0 by (simp add: vec_blocks_def)
  have vi: "vec_inv (object_vec [(Some ''type'', ty), (Some ''properties'', x), (Some ''required'', y)] c h)" for x y
    using inv by (simp add: s vec_inv_def)
  have bl: "vec_blocks (object_vec [(Some ''type'', ty), (Some ''properties'', x), (Some ''required'', y)] c h) = vec_blocks (object_vec [(Some ''type'', ty), (Some ''properties'', x'), (Some ''required'', y')] c h)" for x y x' y'
    by (simp add: vec_blocks_def)
  have mv: "members_view (props @ [(Some n, p1)]) = map (\<lambda>p. (fst p, string_property)) (ps @ [(n, r)])"
    using v p1(1,4) by (simp add: string_property_def)
  show ?thesis
  proof (cases r)
    case False
    then have out: "s' = ?s1" "a' = a3"
      using assms(1,3) get new put st1 set st2 by (auto simp: sc_json_schema_add_string_property_def Let_def)
    have "json_inv ?s1" using invs props'(2) vi by (simp add: s1)
    moreover have "live a3 = live a + json_blocks ?s1 - json_blocks s"
      unfolding s1 using props'(3) p1(3) p0 p0b bl [of props' _ "SC_JSON_OBJECT props c1 h1"] by (simp add: s)
    moreover have "schema_shape (ps @ [(n, r)]) ?s1"
      by (rule schema_shapeI [OF calculation(1) trans [OF s1] v(1) mv]) (simp_all add: False props'(1))
    ultimately show ?thesis by (simp add: out)
  next
    case True
    obtain nv :: "'d sc_json_value" and a4 where nv: "sc_json_string_new (Str n) a3 = (Inr nv, a4)"
      using assms(1,3) get new put st1 set st2 True json_new_fails(3)
      by (cases "sc_json_string_new (Str n) a3 :: 'd sc_json_value res \<times> sc_allocator")
        (auto simp: sc_json_schema_add_string_property_def Let_def split: sum.splits)
    note nvs = json_new_specs(3) [OF nv]
    obtain st5 reqs' a5 where app: "sc_json_array_append (SC_JSON_ARRAY ?reqs c2 h2) nv a4 = (st5, reqs', a5)"
      by (cases "sc_json_array_append (SC_JSON_ARRAY ?reqs c2 h2) nv a4")
    have out: "sc_status_is_ok st5" "s' = set_member ?s1 (Str ''required'') reqs'" "a' = a5"
      using assms(1,3) get new put st1 set st2 True nv app
      by (auto simp: sc_json_schema_add_string_property_def Let_def split: if_splits)
    have "json_inv nv" using nvs by simp
    with array_append_spec(1) [OF app invs(2) this out(1)] obtain c5 h5 where
      reqs': "reqs' = SC_JSON_ARRAY (?reqs @ [nv]) c5 h5" "json_inv reqs'"
      "live a5 = live a4 + json_blocks reqs' - json_blocks (SC_JSON_ARRAY ?reqs c2 h2) - json_blocks nv" by auto
    have s2: "s' = SC_JSON_OBJECT [(Some ''type'', ty), (Some ''properties'', props'), (Some ''required'', reqs')] c h"
      unfolding out(2) s1 by (simp add: set_member_def)
    have "json_inv s'" using invs props'(2) reqs'(2) vi by (simp add: s2)
    moreover have "live a5 = live a + json_blocks s' - json_blocks s"
      using props'(3) reqs'(3) nvs p1(3) p0 p0b bl [of props' reqs' "SC_JSON_OBJECT props c1 h1" "SC_JSON_ARRAY ?reqs c2 h2"]
      by (simp add: s s2 string_blocks_def)
    moreover have "schema_shape (ps @ [(n, r)]) s'"
      by (rule schema_shapeI [OF calculation(1) trans [OF s2] v(1) mv]) (simp_all add: True nvs props'(1) reqs'(1))
    ultimately show ?thesis by (simp add: out(3))
  qed
qed

lemma add_properties_shape:
  fixes s :: "'d sc_json_value"
  assumes "add_string_properties (map (\<lambda>p. (Str (fst p), snd p)) qs) (sc_status_ok, s, a) = (st, s', a')" "schema_shape ps s" "sc_status_is_ok st"
  shows "schema_shape (ps @ qs) s' \<and> live a' = live a + json_blocks s' - json_blocks s"
proof -
  have "schema_shape (ps @ qs) s' \<and> live a' = live a + json_blocks s' - json_blocks s"
    if "add_string_properties (map (\<lambda>p. (Str (fst p), snd p)) qs) (st0, s, a) = (st, s', a')" "schema_shape ps s" "sc_status_is_ok st" for st0
    using that
  proof (induction qs arbitrary: ps s a st0)
    case (Cons q qs)
    obtain st1 s1 a1 where one: "sc_json_schema_add_string_property s (Str (fst q)) (snd q) a = (st1, s1, a1)"
      by (cases "sc_json_schema_add_string_property s (Str (fst q)) (snd q) a")
    have st0: "sc_status_is_ok st0" using Cons.prems(1,3) by (auto split: if_splits)
    with Cons.prems(1) one have rest: "add_string_properties (map (\<lambda>p. (Str (fst p), snd p)) qs) (st1, s1, a1) = (st, s', a')" by simp
    have st1: "sc_status_is_ok st1"
      using rest Cons.prems(3) by (cases qs) (auto split: if_splits)
    from add_property_shape [OF one Cons.prems(2) st1] Cons.IH [OF rest _ Cons.prems(3)] show ?case by fastforce
  qed simp
  with assms show ?thesis by blast
qed

lemma schema_of_strings_shape:
  fixes s :: "'d sc_json_value"
  assumes "schema_of_strings (map (\<lambda>p. (Str (fst p), snd p)) ps) a = (Inr s, a')"
  shows "schema_shape ps s \<and> live a' = live a + json_blocks s"
proof -
  obtain s0 :: "'d sc_json_value" and a0 where one: "sc_json_schema_object a = (Inr s0, a0)"
    using assms by (auto simp: schema_of_strings_def split: prod.splits sum.splits)
  obtain st s1 a1 where two: "add_string_properties (map (\<lambda>p. (Str (fst p), snd p)) ps) (sc_status_ok, s0, a0) = (st, s1, a1)"
    by (cases "add_string_properties (map (\<lambda>p. (Str (fst p), snd p)) ps) (sc_status_ok, s0, a0)")
  have out: "sc_status_is_ok st" "s = s1" "a' = a1" using assms one two by (auto simp: schema_of_strings_def split: if_splits)
  from schema_object_shape [OF one] add_properties_shape [OF two _ out(1), of "[]"] show ?thesis by (auto simp: out)
qed

text \<open>A string argument without a zero byte and in UTF-8.\<close>

definition clean_string :: "'d sc_json_value option \<Rightarrow> bool" where
  "clean_string v \<longleftrightarrow> (\<exists>t. v = Some (SC_JSON_STRING t) \<and> CHR 0x00 \<notin> set (owned_text t) \<and> sc_str_is_valid_utf8 (sc_string_as_str t))"

lemma string_arg_status_ok:
  "sc_status_is_ok (string_arg_status (sc_string_as_str t)) \<longleftrightarrow>
     CHR 0x00 \<notin> set (owned_text t) \<and> sc_str_is_valid_utf8 (sc_string_as_str t)"
  by (cases t) (auto simp: string_arg_status_def span_contains_nul_def)

lemma required_present_iff:
  "sc_status_is_ok (required_present (Some (SC_JSON_OBJECT ms c h)) (map (\<lambda>p. SC_JSON_STRING (Some (fst p))) ps)) \<longleftrightarrow>
     (\<forall>p \<in> set ps. \<exists>t. last_member ms (Str (fst p)) = Some (SC_JSON_STRING t))"
proof (induction ps)
  case (Cons p ps)
  show ?case
  proof (cases "last_member ms (Str (fst p))")
    case (Some x)
    with Cons show ?thesis by (cases x) (auto simp: sc_json_as_str_def sc_json_object_get_def)
  qed (simp add: sc_json_as_str_def sc_json_object_get_def)
qed simp

lemma required_encoded_iff:
  assumes "\<forall>p \<in> set ps. \<exists>t. last_member ms (Str (fst p)) = Some (SC_JSON_STRING t)"
  shows "sc_status_is_ok (required_encoded (Some (SC_JSON_OBJECT ms c h)) (map (\<lambda>p. SC_JSON_STRING (Some (fst p))) ps)) \<longleftrightarrow>
    (\<forall>p \<in> set ps. clean_string (last_member ms (Str (fst p))))"
  using assms
proof (induction ps)
  case (Cons p ps)
  then obtain t where "last_member ms (Str (fst p)) = Some (SC_JSON_STRING t)" by auto
  with Cons show ?case
    by (auto simp: sc_json_as_str_def sc_json_object_get_def clean_string_def string_arg_status_ok)
qed simp

lemma validate_call_iff:
  assumes "schema_shape ps s" "ts_input_schema spec = Some s"
  shows "sc_status_is_ok (sc_tool_validate_call_against_schema spec call) \<longleftrightarrow>
    (\<exists>ms c h. tc_args call = Some (SC_JSON_OBJECT ms c h) \<and>
       (\<forall>p \<in> set ps. snd p \<longrightarrow> clean_string (last_member ms (Str (fst p)))))"
proof -
  let ?reqs = "map (\<lambda>p. SC_JSON_STRING (Some (fst p))) (filter snd ps)"
  have get: "array_items (sc_json_object_get (Some s) (Str ''required'')) = ?reqs" "sc_json_object_get (Some s) (Str ''properties'') \<noteq> None"
    using assms(1) by (auto simp: schema_shape_def sc_json_object_get_def array_items_def)
  have clean: "(\<forall>p \<in> set (filter snd qs). Q p) \<longleftrightarrow> (\<forall>p \<in> set qs. snd p \<longrightarrow> Q p)" for Q and qs :: "(string \<times> bool) list"
    by (induction qs) auto
  have present: "\<forall>p \<in> set (filter snd ps). \<exists>t. last_member ms (Str (fst p)) = Some (SC_JSON_STRING t)"
    if "\<forall>p \<in> set ps. snd p \<longrightarrow> clean_string (last_member ms (Str (fst p)))" for ms :: "'a json_member list"
    using that by (auto simp: clean_string_def)
  note law = sc_tool_validate_call_against_schema_def validate_schema_string_subset_def Let_def get
  show ?thesis
  proof (cases "\<exists>ms c h. tc_args call = Some (SC_JSON_OBJECT ms c h)")
    case True
    then obtain ms c h where a: "tc_args call = Some (SC_JSON_OBJECT ms c h)" by blast
    let ?P = "\<forall>p \<in> set (filter snd ps). \<exists>t. last_member ms (Str (fst p)) = Some (SC_JSON_STRING t)"
    have "sc_status_is_ok (sc_tool_validate_call_against_schema spec call) \<longleftrightarrow>
        ?P \<and> (\<forall>p \<in> set ps. snd p \<longrightarrow> clean_string (last_member ms (Str (fst p))))"
    proof (cases ?P)
      case True
      with required_present_iff [of ms c h "filter snd ps"] required_encoded_iff [OF True, of c h] clean [of ps "\<lambda>p. clean_string (last_member ms (Str (fst p)))"]
      show ?thesis using assms(2) a get by (simp add: law)
    next
      case False
      with required_present_iff have "\<not> sc_status_is_ok (required_present (Some (SC_JSON_OBJECT ms c h)) ?reqs)" by blast
      then have "\<not> sc_status_is_ok (sc_tool_validate_call_against_schema spec call)" using assms(2) a by (simp add: law)
      with False show ?thesis by blast
    qed
    with a present [of ms] show ?thesis by auto
  next
    case False
    then have "sc_json_type_of (tc_args call) \<noteq> JSON_OBJECT" by (cases "tc_args call" rule: sc_json_type_of.cases) auto
    with False show ?thesis using assms(2) by (auto simp: law)
  qed
qed

text \<open>An argument the schema requires can be read, unless it is empty.\<close>

lemma required_arg_read:
  assumes "schema_shape ps s" "ts_input_schema spec = Some s" "sc_status_is_ok (sc_tool_validate_call_against_schema spec call)"
    and "(n, True) \<in> set ps" "n \<noteq> []"
  shows "\<exists>t. sc_json_object_get (tc_args call) (Str n) = Some (SC_JSON_STRING t) \<and>
    (owned_text t \<noteq> [] \<longrightarrow> sc_tool_get_string_arg (Some call) (Str n) out = (sc_status_ok, Str (owned_text t)))"
proof -
  obtain ms c h where a: "tc_args call = Some (SC_JSON_OBJECT ms c h)" and "clean_string (last_member ms (Str n))"
    using validate_call_iff [OF assms(1,2), of call] assms(3,4) by force
  then obtain t where t: "last_member ms (Str n) = Some (SC_JSON_STRING t)" "CHR 0x00 \<notin> set (owned_text t)"
    "sc_str_is_valid_utf8 (sc_string_as_str t)" by (auto simp: clean_string_def)
  have "owned_text t \<noteq> [] \<longrightarrow> sc_tool_get_string_arg (Some call) (Str n) out = (sc_status_ok, Str (owned_text t))"
    using a t assms(5) by (cases t)
      (auto simp: sc_tool_get_string_arg_def sc_json_object_get_def sc_json_as_str_def string_arg_status_def span_contains_nul_def)
  with a t(1) show ?thesis by (simp add: sc_json_object_get_def)
qed

section \<open>Security, output and receipts\<close>

lemma security_check_spec:
  assumes "sc_tool_security_check_ex f override context request a = (st, a')"
  shows "live a' = live a"
    and "sc_status_is_ok st \<Longrightarrow> \<exists>ic p. context = Some ic \<and> cx_policy (ic_context ic) = Some p \<and>
      (\<exists>approval b. sc_security_validate_request f p (cx_estop (ic_context ic)) request a = (sc_status_ok, approval, b) \<and>
        (approval \<longrightarrow> sc_str_equal override (tool_name request)))"
proof -
  have "live a' = live a \<and> (sc_status_is_ok st \<longrightarrow> (\<exists>ic p. context = Some ic \<and> cx_policy (ic_context ic) = Some p \<and>
      (\<exists>approval b. sc_security_validate_request f p (cx_estop (ic_context ic)) request a = (sc_status_ok, approval, b) \<and>
        (approval \<longrightarrow> sc_str_equal override (tool_name request)))))"
  proof (cases "\<exists>ic p. context = Some ic \<and> cx_policy (ic_context ic) = Some p")
    case True
    then obtain ic p where c: "context = Some ic" "cx_policy (ic_context ic) = Some p" by blast
    obtain st1 approval a1 where v: "sc_security_validate_request f p (cx_estop (ic_context ic)) request a = (st1, approval, a1)"
      by (cases "sc_security_validate_request f p (cx_estop (ic_context ic)) request a")
    have "st1 = sc_status_ok" if "sc_status_is_ok st1"
      using v that by (auto simp: sc_security_validate_request_def split: prod.splits if_splits)
    with validate_request_live [OF v] assms v c show ?thesis
      by (auto simp: sc_tool_security_check_ex_def split: if_splits)
  qed (use assms in \<open>auto simp: sc_tool_security_check_ex_def split: option.splits\<close>)
  then show "live a' = live a"
    and "sc_status_is_ok st \<Longrightarrow> \<exists>ic p. context = Some ic \<and> cx_policy (ic_context ic) = Some p \<and>
      (\<exists>approval b. sc_security_validate_request f p (cx_estop (ic_context ic)) request a = (sc_status_ok, approval, b) \<and>
        (approval \<longrightarrow> sc_str_equal override (tool_name request)))" by blast+
qed

lemma set_output_spec:
  assumes "sc_tool_set_output context output success a = (st, r, a')"
  shows "live a' = live a + result_blocks r \<and> tr_success r = success \<and>
    (sc_status_is_ok st \<longrightarrow> tr_output r = Some (take (max_output context) (str_bytes output)))"
  using assms
  by (auto simp: sc_tool_set_output_def tool_result_zero_def result_blocks_def string_blocks_def bytes_zero_def bytes_blocks_def
      split: prod.splits sum.splits dest!: string_from_str_Inr string_from_str_Inl)

text \<open>The text of a summary, which holds the hash and the length but none of the bytes.\<close>

definition summary_of :: "sc_str \<Rightarrow> string" where
  "summary_of v = ''hash='' @ hex16 (receipt_summary_hash v) @ '' len='' @ dec (str_len v)"

lemma receipt_summary_fits: "str_len v \<le> SIZE_MAX \<Longrightarrow> length (summary_of v) < 64"
  using length_dec_le [of "str_len v" 20] by (simp add: hex16_def SIZE_MAX_def summary_of_def)

lemma hex16_not_nul: "CHR 0x00 \<notin> set (hex16 w)"
proof -
  have "unat (drop_bit k w AND 0xF) < 16" for k
  proof -
    have "(0xF :: 64 word) = mask 4" by (simp add: mask_eq_exp_minus_1)
    then have "drop_bit k w AND 0xF = take_bit 4 (drop_bit k w)" by (simp only: take_bit_eq_mask)
    then show ?thesis by (simp add: take_bit_eq_mod unat_mod)
  qed
  then show ?thesis by (auto simp: hex16_def dest!: hex_digit_not_nul [THEN not_sym])
qed

lemma summary_of_not_nul: "takeWhile (\<lambda>c. c \<noteq> CHR 0x00) (summary_of v) = summary_of v"
proof -
  have "CHR 0x00 \<notin> set (dec n)" for n using dec_digits [of "CHR 0x00" n] by (auto simp: is_digit_def)
  with hex16_not_nul show ?thesis by (auto simp: summary_of_def takeWhile_eq_all_conv)
qed

lemma receipt_summary_spec:
  assumes "receipt_summary v a = (r, a')" "str_len v \<le> SIZE_MAX"
  shows "case r of Inl e \<Rightarrow> \<not> sc_status_is_ok e \<and> live a' = live a | Inr s \<Rightarrow> s = Some (summary_of v) \<and> live a' = live a + 1"
proof -
  have "sc_string_from_str (Str (summary_of v)) a = (r, a')"
    using assms receipt_summary_fits [OF assms(2)] summary_of_not_nul [of v]
    unfolding receipt_summary_def Let_def summary_of_def [symmetric]
    by (simp add: sc_string_from_cstr_def sc_str_from_cstr_def)
  then show ?thesis by (cases r) (auto dest: string_from_str_Inr string_from_str_Inl)
qed

text \<open>
  A receipt names the tool and holds the summaries of its arguments and of its output: hashes and lengths, never the
  bytes themselves. A failure leaves the chain as it was.
\<close>

lemma record_receipt_spec:
  assumes "sc_tool_record_receipt_status sd ts context (Some chain) name args outp success tst a = (st, chain', a')"
    and "vec_inv (receipts chain)" "str_len args \<le> SIZE_MAX" "str_len outp \<le> SIZE_MAX"
  shows "\<exists>ch. chain' = Some ch \<and> vec_inv (receipts ch) \<and> live a' = live a + chain_blocks ch - chain_blocks chain \<and>
    (receipts_off context (Some chain) \<or> \<not> sc_status_is_ok st \<longrightarrow> ch = chain) \<and>
    (\<not> receipts_off context (Some chain) \<and> sc_status_is_ok st \<longrightarrow>
      (\<exists>r. items (receipts ch) = items (receipts chain) @ [r] \<and> sealed_receipt sd chain r \<and>
        rc_previous_hash r = receipt.tip 0 (items (receipts chain)) \<and> rc_success r = success \<and>
        rc_tool_name r = Some (str_bytes name) \<and> rc_args_summary r = Some (summary_of (str_or_empty args)) \<and>
        rc_output_summary r = Some (summary_of (str_or_empty outp))))"
proof (cases "receipts_off context (Some chain)")
  case True
  with assms show ?thesis by (simp add: sc_tool_record_receipt_status_def)
next
  case False
  have len: "str_len (str_or_empty args) \<le> SIZE_MAX" "str_len (str_or_empty outp) \<le> SIZE_MAX"
    using assms(3,4) by (simp_all add: str_or_empty_def)
  obtain r1 a1 where one: "receipt_summary (str_or_empty args) a = (r1, a1)" by (cases "receipt_summary (str_or_empty args) a")
  note s1 = receipt_summary_spec [OF one len(1)]
  show ?thesis
  proof (cases r1)
    case (Inl e)
    with assms(1,2) False one s1 show ?thesis by (simp add: sc_tool_record_receipt_status_def Let_def)
  next
    case r1: (Inr t1)
    obtain r2 a2 where two: "receipt_summary (str_or_empty outp) a1 = (r2, a2)" by (cases "receipt_summary (str_or_empty outp) a1")
    note s2 = receipt_summary_spec [OF two len(2)]
    show ?thesis
    proof (cases r2)
      case (Inl e)
      with assms(1,2) False one two s1 s2 r1 show ?thesis
        by (auto simp: sc_tool_record_receipt_status_def Let_def string_blocks_def)
    next
      case (Inr t2)
      with assms(1) False one two r1 obtain st' ch a3 decision reason outc where
        app: "sc_receipt_chain_append_ex sd ts chain name (sc_string_as_str t1) (sc_string_as_str t2) success decision reason outc a2 = (st', ch, a3)"
        and out: "st = st'" "chain' = Some ch" "a' = sc_string_clear t2 (sc_string_clear t1 a3)"
        by (auto simp: sc_tool_record_receipt_status_def Let_def split: prod.splits)
      from receipt_append_spec [OF app assms(2)] s1 s2 r1 Inr False out show ?thesis
        by (auto simp: string_blocks_def)
    qed
  qed
qed

section \<open>The descriptions\<close>

text \<open>A function that makes a document: what it delivers stands for the document and owns its blocks.\<close>

definition makes :: "(sc_allocator \<Rightarrow> 'd sc_json_value res \<times> sc_allocator) \<Rightarrow> 'd json \<Rightarrow> bool" where
  "makes mk j \<longleftrightarrow> (\<forall>a x a'. mk a = (Inr x, a') \<longrightarrow> json_inv x \<and> json_view x = j \<and> live a' = live a + json_blocks x) \<and>
     (\<forall>a e a'. mk a = (Inl e, a') \<longrightarrow> \<not> sc_status_is_ok e)"

lemma makesD:
  "makes mk j \<Longrightarrow> mk a = (Inr x, a') \<Longrightarrow> json_inv x \<and> json_view x = j \<and> live a' = live a + json_blocks x"
  "makes mk j \<Longrightarrow> mk a = (Inl e, a') \<Longrightarrow> \<not> sc_status_is_ok e"
  unfolding makes_def by blast+

lemma makesI:
  assumes "\<And>a x a'. mk a = (Inr x, a') \<Longrightarrow> json_inv x \<and> json_view x = j \<and> live a' = live a + json_blocks x"
    and "\<And>a e a'. mk a = (Inl e, a') \<Longrightarrow> \<not> sc_status_is_ok e"
  shows "makes mk j"
  unfolding makes_def using assms by blast

lemma makes_string: "makes (sc_json_string_new s) (JString (str_bytes s))"
  by (auto simp: makes_def sc_json_string_new_def string_blocks_def
      elim!: json_alloc_cases split: prod.splits sum.splits if_splits dest!: string_from_str_Inr string_from_str_Inl)

lemma makes_clone: "makes (clone_schema s) (json_view (the s))"
proof (cases s)
  case (Some x)
  have "cloned (json_view x) a (sc_json_clone x a)" for a by (rule clone_spec(1))
  note law = this
  show ?thesis
  proof (rule makesI)
    fix a y a' assume "clone_schema s a = (Inr y, a')"
    with law [of a] Some show "json_inv y \<and> json_view y = json_view (the s) \<and> live a' = live a + json_blocks y"
      by (simp add: clone_schema_def cloned_def)
  next
    fix a e a' assume "clone_schema s a = (Inl e, a')"
    with law [of a] Some show "\<not> sc_status_is_ok e" by (simp add: clone_schema_def cloned_def)
  qed
qed (simp add: makes_def clone_schema_def)

lemma put_all_ok:
  assumes "put_all ps (st, v, a) = (st', v', a')" "json_inv v" "json_view v = JObject ks" "sc_status_is_ok st'"
    and "list_all2 (\<lambda>p kj. fst p = fst kj \<and> makes (snd p) (snd kj)) ps kjs"
  shows "sc_status_is_ok st \<and> json_inv v' \<and> live a' = live a + json_blocks v' - json_blocks v \<and> json_view v' = JObject (ks @ kjs)"
  using assms(5,1-4)
proof (induction ps kjs arbitrary: st v a ks rule: list_all2_induct)
  case (Cons p ps kj kjs)
  obtain st1 v1 a1 where one: "put_new (fst p) (snd p) (st, v, a) = (st1, v1, a1)" by (cases "put_new (fst p) (snd p) (st, v, a)")
  have rest: "put_all ps (st1, v1, a1) = (st', v', a')" using Cons.prems(1) one by (cases p) simp
  have "sc_status_is_ok st1"
  proof (rule ccontr)
    assume n: "\<not> sc_status_is_ok st1"
    have "put_all ps (st1, v1, a1) = (st1, v1, a1)" for ps using n by (induction ps rule: induct_list012) (auto simp: put_new_def)
    with rest Cons.prems(4) n show False by simp
  qed
  note st1 = this
  have mk: "fst p = fst kj" "makes (snd p) (snd kj)" using Cons.hyps(1) by simp_all
  from put_new_ok [OF one Cons.prems(2) st1 makesD(1) [OF mk(2)] makesD(2) [OF mk(2)]] Cons.prems(3) mk(1)
  have v1: "sc_status_is_ok st" "json_inv v1" "live a1 = live a + json_blocks v1 - json_blocks v" "json_view v1 = JObject (ks @ [kj])"
    by auto
  from Cons.IH [OF rest v1(2,4) Cons.prems(4)] v1 show ?case by simp
qed simp

lemma makes_document:
  fixes kjs :: "(string \<times> 'd json) list"
  assumes "list_all2 (\<lambda>p kj. fst p = fst kj \<and> makes (snd p) (snd kj)) ps kjs"
  shows "makes (build_document (put_all ps)) (JObject kjs)"
proof -
  have "json_inv x \<and> json_view x = JObject kjs \<and> live a' = live a + json_blocks x"
    if b: "build_document (put_all ps) a = (Inr x, a')" for a x a'
  proof -
    obtain v :: "'d sc_json_value" and a1 where new: "sc_json_object_new a = (Inr v, a1)" using b by (auto simp: build_document_def split: prod.splits sum.splits)
    note v = json_new_specs(1) [OF new]
    obtain st v' a2 where p: "put_all ps (sc_status_ok, v, a1) = (st, v', a2)" by (cases "put_all ps (sc_status_ok, v, a1)")
    have out: "sc_status_is_ok st" "x = v'" "a' = a2" using b new p by (auto simp: build_document_def split: if_splits)
    from put_all_ok [OF p _ _ out(1) assms, of "[]"] v show ?thesis by (simp add: out vec_inv_def vec_blocks_def)
  qed
  moreover have "\<not> sc_status_is_ok e" if "build_document (put_all ps) a = (Inl e, a')" for a e a'
    using that json_new_fails(1) by (auto simp: build_document_def split: prod.splits sum.splits if_splits)
  ultimately show ?thesis by (rule makesI)
qed

text \<open>The document a tool is described by.\<close>

definition model_spec :: "'d sc_tool_spec \<Rightarrow> 'd json" where
  "model_spec spec = JObject
     [(''type'', JString ''function''),
      (''function'', JObject [(''name'', JString (str_bytes (ts_name spec))), (''description'', JString (str_bytes (ts_description spec))),
         (''parameters'', json_view (the (ts_input_schema spec)))])]"

lemma makes_model_spec: "makes (model_spec_value spec) (model_spec spec)"
proof -
  have "makes (sc_json_string_new (Str ''function'')) (JString ''function'')" using makes_string [of "Str ''function''"] by simp
  then show ?thesis
    unfolding model_spec_value_def model_spec_def by (intro makes_document list.rel_intros conjI) (simp_all add: makes_string makes_clone makes_document)
qed

definition distinct_names :: "'d sc_tool_spec list \<Rightarrow> bool" where
  "distinct_names specs \<longleftrightarrow> sorted_wrt (\<lambda>p q. \<not> sc_str_equal (ts_name p) (ts_name q)) specs"

lemma duplicate_check_iff:
  assumes "map sc_tool_spec_get priors = map Inr specs"
  shows "sc_status_is_ok (duplicate_check priors spec) \<longleftrightarrow> (\<forall>p \<in> set specs. \<not> sc_str_equal (ts_name p) (ts_name spec))"
  using assms
proof (induction priors arbitrary: specs)
  case (Cons t ts)
  then obtain p ps where "specs = p # ps" "sc_tool_spec_get t = Inr p" "map sc_tool_spec_get ts = map Inr ps" by auto
  with Cons.IH [of ps] show ?case by (cases "sc_str_equal (ts_name p) (ts_name spec)") simp_all
qed simp

lemma spec_get_fails: "sc_tool_spec_get t = Inl e \<Longrightarrow> \<not> sc_status_is_ok e"
  by (auto simp: sc_tool_spec_get_def split: option.splits if_splits)

text \<open>The loop describes every tool, in order, and refuses a second tool of the same name.\<close>

lemma model_specs_loop_ok:
  assumes "model_specs_loop priors ts array a = (st, array', a')" "json_inv array" "json_view array = JArray js" "sc_status_is_ok st"
    and "map sc_tool_spec_get priors = map Inr pspecs" "distinct_names pspecs"
  shows "json_inv array' \<and> live a' = live a + json_blocks array' - json_blocks array \<and>
    (\<exists>specs. map sc_tool_spec_get ts = map Inr specs \<and> json_view array' = JArray (js @ map model_spec specs) \<and>
       distinct_names (pspecs @ specs))"
  using assms
proof (induction priors ts array a arbitrary: js pspecs rule: model_specs_loop.induct)
  case (1 priors array a)
  then show ?case by auto
next
  case (2 priors t ts array a)
  obtain t' spec where t: "t = Some t'" "sc_tool_spec_get t = Inr spec" "sc_status_is_ok (duplicate_check priors spec)"
    using 2(2,5) by (auto split: option.splits sum.splits if_splits dest: spec_get_fails)
  obtain st1 array1 a1 where one: "append_model_spec array t a = (st1, array1, a1)" by (cases "append_model_spec array t a")
  have st1: "sc_status_is_ok st1" and rest: "model_specs_loop (priors @ [t]) ts array1 a1 = (st, array', a')"
    using 2(2,5) t one by (auto split: if_splits)
  obtain x a0 where x: "model_spec_value spec a = (Inr x, a0)" "sc_json_array_append array x a0 = (st1, array1, a1)"
    using one t st1 makesD(2) [OF makes_model_spec, of spec a] by (auto simp: append_model_spec_def split: prod.splits sum.splits)
  have mx: "json_inv x" "json_view x = model_spec spec" "live a0 = live a + json_blocks x"
    using makesD(1) [OF makes_model_spec x(1)] by blast+
  from array_append_spec(1) [OF x(2) 2(3) mx(1) st1] mx 2(4)
  have a1: "json_inv array1" "live a1 = live a + json_blocks array1 - json_blocks array" "json_view array1 = JArray (js @ [model_spec spec])"
    by auto
  have p: "map sc_tool_spec_get (priors @ [t]) = map Inr (pspecs @ [spec])" using 2(6) t(2) by simp
  have d: "distinct_names (pspecs @ [spec])"
    using 2(7) duplicate_check_iff [OF 2(6)] t(3) by (auto simp: distinct_names_def sorted_wrt_append)
  from 2(1) [OF t(1) t(2) _ one [symmetric] refl, of "js @ [model_spec spec]" "pspecs @ [spec]"] rest a1 2(5) p d st1 t(3)
  obtain specs where s: "json_inv array'" "live a' = live a1 + json_blocks array' - json_blocks array1"
    "map sc_tool_spec_get ts = map Inr specs" "json_view array' = JArray ((js @ [model_spec spec]) @ map model_spec specs)"
    "distinct_names ((pspecs @ [spec]) @ specs)" by auto
  then show ?case using t(2) a1(2) by (intro conjI exI [of _ "spec # specs"]) simp_all
qed

lemma model_specs_ok:
  fixes v :: "'d sc_json_value"
  assumes "sc_tool_registry_model_specs_from_tools ts a = (Inr v, a')"
  shows "json_inv v \<and> live a' = live a + json_blocks v \<and>
    (\<exists>specs. map sc_tool_spec_get ts = map Inr specs \<and> json_view v = JArray (map model_spec specs) \<and> distinct_names specs)"
proof -
  obtain v0 :: "'d sc_json_value" and a0 where new: "sc_json_array_new a = (Inr v0, a0)"
    using assms by (auto simp: sc_tool_registry_model_specs_from_tools_def split: prod.splits sum.splits)
  note v0 = json_new_specs(2) [OF new]
  obtain st v1 a1 where l: "model_specs_loop [] ts v0 a0 = (st, v1, a1)" by (cases "model_specs_loop [] ts v0 a0")
  have out: "sc_status_is_ok st" "v = v1" "a' = a1"
    using assms new l by (auto simp: sc_tool_registry_model_specs_from_tools_def split: if_splits)
  from model_specs_loop_ok [OF l _ _ out(1), of "[]" "[]"] v0 show ?thesis
    by (simp add: out vec_inv_def vec_blocks_def distinct_names_def)
qed

text \<open>The blocks, whatever the lengths are.\<close>

definition chain_held :: "sc_receipt_chain option \<Rightarrow> int" where
  "chain_held ch = (case ch of None \<Rightarrow> 0 | Some c \<Rightarrow> chain_blocks c)"

definition chain_ok :: "sc_receipt_chain option \<Rightarrow> bool" where
  "chain_ok ch \<longleftrightarrow> (case ch of None \<Rightarrow> True | Some c \<Rightarrow> vec_inv (receipts c))"

lemma receipt_summary_live:
  "receipt_summary v a = (Inl e, a') \<Longrightarrow> \<not> sc_status_is_ok e \<and> live a' = live a"
  "receipt_summary v a = (Inr s, a') \<Longrightarrow> s \<noteq> None \<and> live a' = live a + 1"
  by (auto simp: receipt_summary_def Let_def sc_string_from_cstr_def split: if_splits dest: string_from_str_Inl string_from_str_Inr)

lemma record_receipt_live:
  assumes "sc_tool_record_receipt_status sd ts context ch name args outp success tst a = (st, ch', a')" "chain_ok ch"
  shows "chain_ok ch' \<and> live a' - chain_held ch' = live a - chain_held ch"
proof (cases "receipts_off context ch")
  case True
  with assms show ?thesis by (simp add: sc_tool_record_receipt_status_def)
next
  case False
  then obtain c where c: "ch = Some c" by (auto simp: receipts_off_def)
  obtain r1 a1 where one: "receipt_summary (str_or_empty args) a = (r1, a1)" by (cases "receipt_summary (str_or_empty args) a")
  obtain r2 a2 where two: "receipt_summary (str_or_empty outp) a1 = (r2, a2)" by (cases "receipt_summary (str_or_empty outp) a1")
  have off: "\<not> receipts_off context (Some c)" using False c by simp
  show ?thesis
  proof (cases r1)
    case (Inl e)
    with assms(1) off c one have "ch' = ch" "a' = a1" by (auto simp: sc_tool_record_receipt_status_def Let_def)
    with receipt_summary_live(1) [OF one [unfolded Inl]] assms(2) show ?thesis by simp
  next
    case r1: (Inr t1)
    note s1 = receipt_summary_live(2) [OF one [unfolded r1]]
    show ?thesis
    proof (cases r2)
      case (Inl e)
      with assms(1) off c one two r1 have "ch' = ch" "a' = sc_string_clear t1 a2" by (auto simp: sc_tool_record_receipt_status_def Let_def)
      with receipt_summary_live(1) [OF two [unfolded Inl]] s1 assms(2) show ?thesis by (auto simp: string_blocks_def)
    next
      case (Inr t2)
      note s2 = receipt_summary_live(2) [OF two [unfolded Inr]]
      from assms(1) off c one two r1 Inr obtain st' c' a3 decision reason outc where
        app: "sc_receipt_chain_append_ex sd ts c name (sc_string_as_str t1) (sc_string_as_str t2) success decision reason outc a2 = (st', c', a3)"
        and out: "ch' = Some c'" "a' = sc_string_clear t2 (sc_string_clear t1 a3)"
        by (auto simp: sc_tool_record_receipt_status_def Let_def split: prod.splits)
      have v: "vec_inv (receipts c)" using assms(2) c by (simp add: chain_ok_def)
      have "string_blocks t1 = 1" "string_blocks t2 = 1" using s1 s2 by (auto simp: string_blocks_def)
      with receipt_append_spec [OF app v] s1 s2 out c show ?thesis by (simp add: chain_ok_def chain_held_def)
    qed
  qed
qed

end
