(* ===== verification/SC_Wrappers.thy ===== *)
theory SC_Wrappers
  imports SC_Tools
begin

text \<open>
  The contract a tool keeps towards its callers, and the wrappers of \<^verbatim>\<open>src/tools/tool_wrappers.c\<close> that limit the
  number of calls, check the domain of an address, and measure the time. A wrapper forwards to the tool it owns; its
  counter is part of the world of the wrapped tool.
\<close>

section \<open>The contract of a tool\<close>

text \<open>
  \<open>hold\<close> is the number of blocks the world itself keeps, a chain of receipts for instance, and \<open>good\<close> an invariant
  of the world: an invocation that starts with an empty result takes no blocks but those of the result and the world.
\<close>

locale tool_contract =
  fixes invoke :: "('d, 'w) invoke_fn" and hold :: "'w \<Rightarrow> int" and good :: "'w \<Rightarrow> bool"
  assumes invoke_good: "invoke w call tool_result_zero a = (st, out, a', w') \<Longrightarrow> good w \<Longrightarrow> good w'"
    and invoke_live: "invoke w call tool_result_zero a = (st, out, a', w') \<Longrightarrow> good w \<Longrightarrow>
      live a' - hold w' = live a - hold w + result_blocks out"
begin

lemma clear_gives_back:
  assumes "invoke w call tool_result_zero a = (st, out, a', w')" "good w"
  shows "good w' \<and> live (sc_tool_result_clear out a') - hold w' = live a - hold w"
  using invoke_good [OF assms] invoke_live [OF assms] by simp

end

text \<open>A sequence of invocations, each with an empty result that is cleared after its text was read.\<close>

fun invoke_all ::
    "('d, 'w) invoke_fn \<Rightarrow> 'd sc_tool_call list \<Rightarrow> 'w \<Rightarrow> sc_allocator \<Rightarrow> (sc_status \<times> string) list \<times> sc_allocator \<times> 'w" where
  "invoke_all f [] w a = ([], a, w)"
| "invoke_all f (c # cs) w a =
     (case f w c tool_result_zero a of
        (st, out, a1, w1) \<Rightarrow>
          (case invoke_all f cs w1 (sc_tool_result_clear out a1) of
             (rs, a2, w2) \<Rightarrow> ((st, owned_text (tr_output out)) # rs, a2, w2)))"

context tool_contract
begin

lemma invoke_all_balanced:
  "invoke_all invoke cs w a = (rs, a', w') \<Longrightarrow> good w \<Longrightarrow> good w' \<and> live a' - hold w' = live a - hold w"
proof (induction cs arbitrary: w a rs)
  case (Cons c cs)
  obtain st out a1 w1 where one: "invoke w c tool_result_zero a = (st, out, a1, w1)" by (cases "invoke w c tool_result_zero a")
  obtain rs' where rest: "invoke_all invoke cs w1 (sc_tool_result_clear out a1) = (rs', a', w')"
    using Cons.prems(1) one by (auto split: prod.splits)
  from clear_gives_back [OF one Cons.prems(2)] Cons.IH [OF rest] show ?case by simp
qed simp

end

section \<open>The wrappers\<close>

datatype tool_wrapper_kind = TOOL_WRAPPER_RATE_LIMIT | TOOL_WRAPPER_DOMAIN_GUARD | TOOL_WRAPPER_TIMEOUT

text \<open>The fields that are set once; the call count is part of the state.\<close>

record tool_wrapper =
  tw_policy :: "sc_security_policy option"
  tw_kind :: tool_wrapper_kind
  tw_max_calls :: nat
  tw_timeout_ms :: int

definition SIZEOF_TOOL_WRAPPER :: nat where
  "SIZEOF_TOOL_WRAPPER = 56"

definition wrapper_spec :: "('d, 'w) sc_tool \<Rightarrow> 'd sc_tool_spec res" where
  "wrapper_spec inner = sc_tool_spec_get (Some inner)"

definition counted :: "nat \<Rightarrow> sc_status \<times> sc_tool_result \<times> sc_allocator \<times> 'w \<Rightarrow>
    sc_status \<times> sc_tool_result \<times> sc_allocator \<times> nat \<times> 'w" where
  "counted n r = (case r of (st, out, a, w) \<Rightarrow> (st, out, a, n, w))"

text \<open>\<open>clock\<close> is a reading of the monotonic clock.\<close>

definition timed_invoke ::
    "('w \<Rightarrow> timespec \<times> 'w) \<Rightarrow> int \<Rightarrow> ('d, 'w) sc_tool \<Rightarrow> ('d, 'w) invoke_fn" where
  "timed_invoke clock timeout inner w call out a =
     (if timeout \<le> 0 then (sc_status_timeout ''sc.tool.timeout'', out, a, w)
      else (case clock w of
              (t0, w1) \<Rightarrow>
                (case sc_clock_monotonic t0 of
                   Inl e \<Rightarrow> (e, out, a, w1)
                 | Inr started \<Rightarrow>
                     (case sc_tool_invoke (Some inner) w1 call out a of
                        (st, out1, a1, w2) \<Rightarrow>
                          (case clock w2 of
                             (t1, w3) \<Rightarrow>
                               (case sc_clock_monotonic t1 of
                                  Inl e \<Rightarrow> (st, out1, a1, w3)
                                | Inr ended \<Rightarrow>
                                    (if ended - started > timeout * 1000000
                                     then (sc_status_timeout ''sc.tool.timeout'', tool_result_zero, sc_tool_result_clear out1 a1, w3)
                                     else (st, out1, a1, w3))))))))"

definition guarded_invoke :: "sc_security_policy option \<Rightarrow> ('d, 'w) sc_tool \<Rightarrow> ('d, 'w) invoke_fn" where
  "guarded_invoke policy inner w call out a =
     (case policy of
        None \<Rightarrow> (sc_status_invalid_argument ''sc.tool.domain_guard_policy_missing'', out, a, w)
      | Some p \<Rightarrow>
          (case sc_tool_get_optional_string_arg (Some call) (Str ''url'') (NullStr 0) of
             (st, url) \<Rightarrow>
               (if \<not> sc_status_is_ok st then (st, out, a, w)
                else (case (if str_len url > 0 then sc_security_validate_url p url a else (sc_status_ok, a)) of
                        (st1, a1) \<Rightarrow>
                          (if \<not> sc_status_is_ok st1 then (st1, out, a1, w)
                           else sc_tool_invoke (Some inner) w call out a1)))))"

definition wrapper_invoke ::
    "('w \<Rightarrow> timespec \<times> 'w) \<Rightarrow> tool_wrapper \<Rightarrow> ('d, 'w) sc_tool \<Rightarrow> ('d, nat \<times> 'w) invoke_fn" where
  "wrapper_invoke clock tw inner s call out a =
     (case s of
        (n, w) \<Rightarrow>
          (case tw_kind tw of
             TOOL_WRAPPER_RATE_LIMIT \<Rightarrow>
               (if tw_max_calls tw = 0 \<or> n \<ge> tw_max_calls tw then (sc_status_timeout ''sc.tool.rate_limited'', out, a, n, w)
                else counted (n + 1) (sc_tool_invoke (Some inner) w call out a))
           | TOOL_WRAPPER_DOMAIN_GUARD \<Rightarrow> counted n (guarded_invoke (tw_policy tw) inner w call out a)
           | TOOL_WRAPPER_TIMEOUT \<Rightarrow> counted n (timed_invoke clock (tw_timeout_ms tw) inner w call out a)))"

definition wrapper_destroy :: "('d, 'w) sc_tool \<Rightarrow> sc_allocator \<Rightarrow> sc_allocator" where
  "wrapper_destroy inner a = sc_free True (sc_tool_destroy (Some inner) a)"

definition wrapper_vtab :: "('w \<Rightarrow> timespec \<times> 'w) \<Rightarrow> tool_wrapper \<Rightarrow> ('d, 'w) sc_tool \<Rightarrow> ('d, nat \<times> 'w) sc_tool" where
  "wrapper_vtab clock tw inner =
     \<lparr>t_struct_size = SIZEOF_TOOL_VTAB, t_abi_major = SC_ABI_VERSION_MAJOR, t_name = Some ''tool_wrapper'',
      t_spec = Some (case wrapper_spec inner of Inl e \<Rightarrow> (e, spec_zero) | Inr spec \<Rightarrow> (sc_status_ok, spec)),
      t_invoke = Some (wrapper_invoke clock tw inner), t_destroy = Some (wrapper_destroy inner)\<rparr>"

text \<open>
  The wrapper takes over the inner tool: when the handle cannot be made it destroys the inner tool with itself, but
  when its own block cannot be taken the caller keeps the tool.
\<close>

definition wrapper_new ::
    "('w \<Rightarrow> timespec \<times> 'w) \<Rightarrow> tool_wrapper \<Rightarrow> ('d, 'w) sc_tool option \<Rightarrow> sc_allocator \<Rightarrow> ('d, nat \<times> 'w) sc_tool res \<times> sc_allocator" where
  "wrapper_new clock tw inner a =
     (case inner of
        None \<Rightarrow> (Inl (sc_status_invalid_argument ''sc.tool_wrapper.invalid_argument''), a)
      | Some t \<Rightarrow>
          (case sc_alloc SIZEOF_TOOL_WRAPPER a of
             (False, a1) \<Rightarrow> (Inl sc_status_no_memory, a1)
           | (True, a1) \<Rightarrow>
               (case sc_tool_new (Some (wrapper_vtab clock tw t)) a1 of
                  (Inl e, a2) \<Rightarrow> (Inl e, wrapper_destroy t a2)
                | (Inr h, a2) \<Rightarrow> (Inr h, a2))))"

definition wrapper_zero :: tool_wrapper where
  "wrapper_zero = \<lparr>tw_policy = None, tw_kind = TOOL_WRAPPER_RATE_LIMIT, tw_max_calls = 0, tw_timeout_ms = 0\<rparr>"

definition sc_tool_rate_limit_wrapper_new ::
    "('w \<Rightarrow> timespec \<times> 'w) \<Rightarrow> ('d, 'w) sc_tool option \<Rightarrow> nat \<Rightarrow> sc_allocator \<Rightarrow> ('d, nat \<times> 'w) sc_tool res \<times> sc_allocator" where
  "sc_tool_rate_limit_wrapper_new clock inner max_calls a =
     wrapper_new clock (wrapper_zero\<lparr>tw_kind := TOOL_WRAPPER_RATE_LIMIT, tw_max_calls := max_calls\<rparr>) inner a"

definition sc_tool_domain_guard_wrapper_new ::
    "('w \<Rightarrow> timespec \<times> 'w) \<Rightarrow> ('d, 'w) sc_tool option \<Rightarrow> sc_security_policy option \<Rightarrow> sc_allocator \<Rightarrow>
       ('d, nat \<times> 'w) sc_tool res \<times> sc_allocator" where
  "sc_tool_domain_guard_wrapper_new clock inner policy a =
     wrapper_new clock (wrapper_zero\<lparr>tw_kind := TOOL_WRAPPER_DOMAIN_GUARD, tw_policy := policy\<rparr>) inner a"

definition sc_tool_timeout_wrapper_new ::
    "('w \<Rightarrow> timespec \<times> 'w) \<Rightarrow> ('d, 'w) sc_tool option \<Rightarrow> int \<Rightarrow> sc_allocator \<Rightarrow> ('d, nat \<times> 'w) sc_tool res \<times> sc_allocator" where
  "sc_tool_timeout_wrapper_new clock inner timeout_ms a =
     wrapper_new clock (wrapper_zero\<lparr>tw_kind := TOOL_WRAPPER_TIMEOUT, tw_timeout_ms := timeout_ms\<rparr>) inner a"

section \<open>A wrapped tool keeps the contract\<close>

lemma result_clear_zero [simp]: "sc_tool_result_clear tool_result_zero a = a"
  by (simp add: sc_tool_result_clear_def tool_result_zero_def sc_bytes_clear_def bytes_zero_def sc_string_clear_def sc_free_def)

lemma contract_invoke:
  assumes "\<And>f. t_invoke t = Some f \<Longrightarrow> tool_contract f hold good"
  shows "tool_contract (sc_tool_invoke (Some t)) hold good"
proof -
  have "good w' \<and> live a' - hold w' = live a - hold w + result_blocks out"
    if "sc_tool_invoke (Some t) w call tool_result_zero a = (st, out, a', w')" "good w" for w call a st out a' w'
  proof (cases "t_invoke t")
    case (Some f)
    with tool_contract.invoke_good [OF assms [OF Some], of w call a st out a' w']
      tool_contract.invoke_live [OF assms [OF Some], of w call a st out a' w'] that
    show ?thesis by (auto simp: sc_tool_invoke_def split: sum.splits if_splits)
  qed (use that in \<open>auto simp: sc_tool_invoke_def\<close>)
  then show ?thesis by unfold_locales blast+
qed

locale wrapped_tool = tool_contract "sc_tool_invoke (Some inner)" hold good
  for inner :: "('d, 'w) sc_tool" and hold :: "'w \<Rightarrow> int" and good :: "'w \<Rightarrow> bool" +
  fixes clock :: "'w \<Rightarrow> timespec \<times> 'w"
  assumes clock_keeps: "clock w = (ts, w') \<Longrightarrow> hold w' = hold w \<and> good w' = good w"
begin

lemma timed_balanced:
  assumes "timed_invoke clock timeout inner w call tool_result_zero a = (st, out, a', w')" "good w"
  shows "good w' \<and> live a' - hold w' = live a - hold w + result_blocks out"
proof (cases "timeout \<le> 0")
  case True
  with assms show ?thesis by (auto simp: timed_invoke_def)
next
  case False
  obtain t0 w1 where c0: "clock w = (t0, w1)" by (cases "clock w")
  obtain st1 out1 a1 w2 where inv: "sc_tool_invoke (Some inner) w1 call tool_result_zero a = (st1, out1, a1, w2)"
    by (cases "sc_tool_invoke (Some inner) w1 call tool_result_zero a")
  obtain t1 w3 where c1: "clock w2 = (t1, w3)" by (cases "clock w2")
  have "good w1" using clock_keeps [OF c0] assms(2) by simp
  note law = invoke_good [OF inv this] invoke_live [OF inv this] clock_keeps [OF c0] clock_keeps [OF c1]
  with assms False c0 inv c1 show ?thesis by (auto simp: timed_invoke_def split: sum.splits if_splits)
qed

lemma guarded_balanced:
  assumes "guarded_invoke policy inner w call tool_result_zero a = (st, out, a', w')" "good w"
  shows "good w' \<and> live a' - hold w' = live a - hold w + result_blocks out"
proof (cases policy)
  case (Some p)
  obtain st0 url where g: "sc_tool_get_optional_string_arg (Some call) (Str ''url'') (NullStr 0) = (st0, url)"
    by (cases "sc_tool_get_optional_string_arg (Some call) (Str ''url'') (NullStr 0)")
  obtain st1 a1 where v: "(if str_len url > 0 then sc_security_validate_url p url a else (sc_status_ok, a)) = (st1, a1)"
    by (cases "if str_len url > 0 then sc_security_validate_url p url a else (sc_status_ok, a)")
  have l: "live a1 = live a" using v validate_url_live by (auto split: if_splits)
  show ?thesis
  proof (cases "sc_status_is_ok st0 \<and> sc_status_is_ok st1")
    case True
    with assms(1) Some g v have "sc_tool_invoke (Some inner) w call tool_result_zero a1 = (st, out, a', w')"
      by (simp add: guarded_invoke_def)
    from invoke_good [OF this assms(2)] invoke_live [OF this assms(2)] l show ?thesis by simp
  next
    case False
    with assms Some g v l show ?thesis by (auto simp: guarded_invoke_def split: if_splits)
  qed
qed (use assms in \<open>auto simp: guarded_invoke_def\<close>)

lemma wrapper_balanced:
  assumes "wrapper_invoke clock tw inner s call tool_result_zero a = (st, out, a', s')" "good (snd s)"
  shows "good (snd s') \<and> live a' - hold (snd s') = live a - hold (snd s) + result_blocks out"
proof (cases "tw_kind tw")
  case TOOL_WRAPPER_RATE_LIMIT
  with assms invoke_good [of "snd s" call a] invoke_live [of "snd s" call a] show ?thesis
    by (cases "sc_tool_invoke (Some inner) (snd s) call tool_result_zero a")
      (auto simp: wrapper_invoke_def counted_def split: prod.splits if_splits)
next
  case TOOL_WRAPPER_DOMAIN_GUARD
  with assms guarded_balanced [of "tw_policy tw" "snd s" call a] show ?thesis
    by (cases "guarded_invoke (tw_policy tw) inner (snd s) call tool_result_zero a")
      (auto simp: wrapper_invoke_def counted_def split: prod.splits)
next
  case TOOL_WRAPPER_TIMEOUT
  with assms timed_balanced [of "tw_timeout_ms tw" "snd s" call a] show ?thesis
    by (cases "timed_invoke clock (tw_timeout_ms tw) inner (snd s) call tool_result_zero a")
      (auto simp: wrapper_invoke_def counted_def split: prod.splits)
qed

end

sublocale wrapped_tool \<subseteq> wrapper: tool_contract "wrapper_invoke clock tw inner" "\<lambda>s. hold (snd s)" "\<lambda>s. good (snd s)"
  for tw
  by unfold_locales (use wrapper_balanced in blast)+

section \<open>The rate limit\<close>

lemma rate_limited:
  assumes "tw_kind tw = TOOL_WRAPPER_RATE_LIMIT" "n \<ge> tw_max_calls tw"
  shows "invoke_all (wrapper_invoke clock tw inner) cs (n, w) a =
    (replicate (length cs) (sc_status_timeout ''sc.tool.rate_limited'', []), a, n, w)"
  using assms by (induction cs) (simp_all add: wrapper_invoke_def tool_result_zero_def [symmetric], simp add: tool_result_zero_def)

text \<open>
  A rate-limited tool is the tool for as many calls as the limit still allows; every later call is refused and
  reaches nothing.
\<close>

lemma rate_limit_calls:
  assumes "tw_kind tw = TOOL_WRAPPER_RATE_LIMIT" "n \<le> tw_max_calls tw"
  shows "invoke_all (wrapper_invoke clock tw inner) cs (n, w) a =
    (case invoke_all (sc_tool_invoke (Some inner)) (take (tw_max_calls tw - n) cs) w a of
       (rs, a', w') \<Rightarrow>
         (rs @ replicate (length cs - (tw_max_calls tw - n)) (sc_status_timeout ''sc.tool.rate_limited'', []), a',
          n + min (tw_max_calls tw - n) (length cs), w'))"
  using assms(2)
proof (induction cs arbitrary: n w a)
  case (Cons c cs)
  show ?case
  proof (cases "n = tw_max_calls tw")
    case True
    with rate_limited [OF assms(1), of n clock inner "c # cs" w a] show ?thesis by simp
  next
    case False
    with Cons.prems have n: "n < tw_max_calls tw" by simp
    then obtain k where k: "tw_max_calls tw - n = Suc k" "tw_max_calls tw - Suc n = k" by (cases "tw_max_calls tw - n") auto
    obtain st out a1 w1 where inv: "sc_tool_invoke (Some inner) w c tool_result_zero a = (st, out, a1, w1)"
      by (cases "sc_tool_invoke (Some inner) w c tool_result_zero a")
    from n assms(1) inv have "wrapper_invoke clock tw inner (n, w) c tool_result_zero a = (st, out, a1, Suc n, w1)"
      by (simp add: wrapper_invoke_def counted_def)
    with Cons.IH [of "Suc n" w1 "sc_tool_result_clear out a1"] n k inv show ?thesis
      by (auto split: prod.splits)
  qed
qed simp

end
