(* ===== verification/SC_File_Tools.thy ===== *)
theory SC_File_Tools
  imports SC_Wrappers
begin

text \<open>
  The time tool, \<^verbatim>\<open>src/tools/time_tool.c\<close>, and the tools that read, write and list files,
  \<^verbatim>\<open>src/tools/file_read.c\<close> and \<^verbatim>\<open>src/tools/file_tools.c\<close>. The world is a disk: what every open directory holds,
  what the next system calls do, the descriptors that are open, and the chain of receipts.
\<close>

section \<open>The disk\<close>

datatype node = Regular string | Symbolic_link | Directory | Special

text \<open>What a call of \<^verbatim>\<open>read\<close> or \<^verbatim>\<open>write\<close> does: it moves at most so many bytes, is interrupted, or fails.\<close>

datatype transfer = Moved nat | Interrupted | Broken

text \<open>
  \<open>transfers\<close> and \<open>faults\<close> say what the next calls do; when they are used up, a transfer moves everything and a call
  succeeds. \<open>listing\<close> is what \<^verbatim>\<open>readdir\<close> delivers for an opened directory, by its path.
\<close>

record disk =
  dk_entries :: "nat \<Rightarrow> string \<Rightarrow> node option"
  dk_transfers :: "transfer list"
  dk_faults :: "bool list"
  dk_listing :: "string \<Rightarrow> string list option"
  dk_fds :: int
  dk_chain :: "sc_receipt_chain option"
  dk_override :: sc_str
  dk_wall :: timespec

record tm =
  tm_year :: int
  tm_mon :: int
  tm_mday :: int
  tm_hour :: int
  tm_min :: int
  tm_sec :: int

text \<open>The surroundings that stay the same: path resolution, libsodium, the process id, and \<^verbatim>\<open>gmtime_r(time())\<close>.\<close>

record env =
  env_fs :: fs
  env_sodium :: sodium
  env_pid :: nat
  env_gmtime :: "tm option"

definition fault :: "disk \<Rightarrow> bool \<times> disk" where
  "fault d = (case dk_faults d of [] \<Rightarrow> (False, d) | b # bs \<Rightarrow> (b, d\<lparr>dk_faults := bs\<rparr>))"

definition set_entry :: "nat \<Rightarrow> string \<Rightarrow> node option \<Rightarrow> disk \<Rightarrow> disk" where
  "set_entry dir name v d = d\<lparr>dk_entries := (dk_entries d)(dir := (dk_entries d dir)(name := v))\<rparr>"

text \<open>\<^verbatim>\<open>unlinkat(dir, name, 0)\<close>, whose result nobody looks at; it does not remove a directory.\<close>

definition unlinkat :: "nat \<Rightarrow> string \<Rightarrow> disk \<Rightarrow> disk" where
  "unlinkat dir name d =
     (case fault d of
        (True, d1) \<Rightarrow> d1
      | (False, d1) \<Rightarrow> (if dk_entries d1 dir name = Some Directory then d1 else set_entry dir name None d1))"

section \<open>Reading and writing\<close>

fun write_all_fd :: "transfer list \<Rightarrow> string \<Rightarrow> string \<Rightarrow> sc_status \<times> string \<times> transfer list" where
  "write_all_fd ts [] written = (sc_status_ok, written, ts)"
| "write_all_fd [] (c # cs) written = (sc_status_ok, written @ c # cs, [])"
| "write_all_fd (Interrupted # ts) (c # cs) written = write_all_fd ts (c # cs) written"
| "write_all_fd (Broken # ts) (c # cs) written = (sc_status_io ''sc.file_write.write_failed'', written, ts)"
| "write_all_fd (Moved n # ts) (c # cs) written =
     (if n = 0 then (sc_status_io ''sc.file_write.write_incomplete'', written, ts)
      else write_all_fd ts (drop n (c # cs)) (written @ take n (c # cs)))"

text \<open>The loop of \<^verbatim>\<open>read_file_limited\<close>: \<open>file\<close> is what is left of the file, \<open>room\<close> the bytes still wanted.\<close>

fun read_loop :: "transfer list \<Rightarrow> string \<Rightarrow> nat \<Rightarrow> string \<Rightarrow> string res \<times> transfer list" where
  "read_loop [] file room got = (Inr (got @ take room file), [])"
| "read_loop (Interrupted # ts) file room got =
     (if room = 0 then (Inr got, Interrupted # ts) else read_loop ts file room got)"
| "read_loop (Broken # ts) file room got =
     (if room = 0 then (Inr got, Broken # ts) else (Inl (sc_status_io ''sc.file_read.read_failed''), ts))"
| "read_loop (Moved n # ts) file room got =
     (if room = 0 then (Inr got, Moved n # ts)
      else (let k = min n (min room (length file)) in
            (if k = 0 then (Inr got, ts) else read_loop ts (drop k file) (room - k) (got @ take k file))))"

definition read_file_limited ::
    "node \<Rightarrow> nat \<Rightarrow> disk \<Rightarrow> sc_allocator \<Rightarrow> sc_string res \<times> disk \<times> sc_allocator" where
  "read_file_limited nd max_bytes d a =
     (if sc_size_add_overflow max_bytes 1 = None
      then (Inl (sc_status_invalid_argument ''sc.file_read.max_bytes_overflow''), d, a)
      else (case fault d of
              (bad_stat, d1) \<Rightarrow>
                (case nd of
                   Regular file \<Rightarrow>
                     (if bad_stat then (Inl (sc_status_security_denied ''sc.file_read.non_regular_denied''), d1, a)
                      else (case sc_alloc (max_bytes + 1) a of
                              (False, a1) \<Rightarrow> (Inl sc_status_no_memory, d1, a1)
                            | (True, a1) \<Rightarrow>
                                (case read_loop (dk_transfers d1) file max_bytes [] of
                                   (Inl e, ts) \<Rightarrow> (Inl e, d1\<lparr>dk_transfers := ts\<rparr>, sc_free True a1)
                                 | (Inr got, ts) \<Rightarrow> (Inr (Some got), d1\<lparr>dk_transfers := ts\<rparr>, a1))))
                 | _ \<Rightarrow> (Inl (sc_status_security_denied ''sc.file_read.non_regular_denied''), d1, a))))"

text \<open>Writing a file that was opened, and closing it.\<close>

definition write_and_close :: "nat \<Rightarrow> string \<Rightarrow> string \<Rightarrow> string \<Rightarrow> disk \<Rightarrow> sc_status \<times> disk" where
  "write_and_close dir name start content d =
     (case write_all_fd (dk_transfers d) content start of
        (st, t, ts) \<Rightarrow>
          (case fault ((set_entry dir name (Some (Regular t)) d)\<lparr>dk_transfers := ts\<rparr>) of
             (bad_close, d1) \<Rightarrow>
               (if bad_close \<and> sc_status_is_ok st then (sc_status_io ''sc.file_write.close_failed'', d1) else (st, d1))))"

definition write_all_at :: "nat \<Rightarrow> sc_str \<Rightarrow> sc_str \<Rightarrow> bool \<Rightarrow> disk \<Rightarrow> sc_status \<times> disk" where
  "write_all_at dir leaf content appending d =
     (if ptr_null leaf \<or> str_len leaf = 0 then (sc_status_invalid_argument ''sc.file_write.path_invalid'', d)
      else (case fault d of
              (no_open, d1) \<Rightarrow>
                (let name = str_bytes leaf; old = dk_entries d1 dir name;
                     start = (case old of Some (Regular t) \<Rightarrow> (if appending then t else []) | _ \<Rightarrow> []);
                     d2 = (if old = Some Special then d1 else set_entry dir name (Some (Regular start)) d1) in
                 (if old = Some Symbolic_link then (sc_status_security_denied ''sc.file_write.symlink_denied'', d1)
                  else if no_open \<or> old = Some Directory then (sc_status_io ''sc.file_write.open_failed'', d1)
                  else (case fault d2 of
                          (bad_stat, d3) \<Rightarrow>
                            (if bad_stat \<or> old = Some Special
                             then (sc_status_security_denied ''sc.file_write.non_regular_denied'', d3)
                             else write_and_close dir name start (str_bytes content) d3))))))"

section \<open>The atomic write\<close>

definition temp_name :: "nat \<Rightarrow> string \<Rightarrow> string" where
  "temp_name pid leaf = leaf @ ''.tmp.'' @ dec pid"

text \<open>Opening the temporary file with \<^verbatim>\<open>O_CREAT | O_EXCL\<close>, writing it and closing it.\<close>

definition write_temp :: "nat \<Rightarrow> string \<Rightarrow> string \<Rightarrow> disk \<Rightarrow> sc_status \<times> disk" where
  "write_temp dir tmp content d =
     (case fault d of
        (no_open, d1) \<Rightarrow>
          (if dk_entries d1 dir tmp \<noteq> None then (sc_status_invalid_argument ''sc.file_write.temp_exists'', d1)
           else if no_open then (sc_status_io ''sc.file_write.temp_open_failed'', d1)
           else write_and_close dir tmp [] content d1))"

text \<open>Giving the file its name: a link that must be new, or a rename over what is there.\<close>

definition link_temp :: "nat \<Rightarrow> string \<Rightarrow> string \<Rightarrow> disk \<Rightarrow> sc_status \<times> disk" where
  "link_temp dir tmp leaf d =
     (case fault d of
        (bad, d1) \<Rightarrow>
          (let r = (if dk_entries d1 dir leaf \<noteq> None then (sc_status_invalid_argument ''sc.file_write.exists'', d1)
                    else if bad then (sc_status_io ''sc.file_write.link_failed'', d1)
                    else (sc_status_ok, set_entry dir leaf (dk_entries d1 dir tmp) d1)) in
           (fst r, unlinkat dir tmp (snd r))))"

definition rename_temp :: "nat \<Rightarrow> string \<Rightarrow> string \<Rightarrow> disk \<Rightarrow> sc_status \<times> disk" where
  "rename_temp dir tmp leaf d =
     (case fault d of
        (bad, d1) \<Rightarrow>
          (if bad \<or> dk_entries d1 dir leaf = Some Directory then (sc_status_io ''sc.file_write.rename_failed'', d1)
           else (sc_status_ok, set_entry dir tmp None (set_entry dir leaf (dk_entries d1 dir tmp) d1))))"

text \<open>
  Whatever failed, the temporary name is unlinked at the end. The process id has at most 19 digits, so the suffix fits
  its buffer.
\<close>

definition write_atomic_at ::
    "env \<Rightarrow> nat \<Rightarrow> sc_str \<Rightarrow> sc_str \<Rightarrow> bool \<Rightarrow> disk \<Rightarrow> sc_allocator \<Rightarrow> sc_status \<times> disk \<times> sc_allocator" where
  "write_atomic_at en dir leaf content fail_if_exists d a =
     (if ptr_null leaf \<or> str_len leaf = 0 then (sc_status_invalid_argument ''sc.file_write.path_invalid'', d, a)
      else (case build_string [leaf, Str (''.tmp.'' @ dec (env_pid en))] a of
              (Inl e, a1) \<Rightarrow> (e, d, a1)
            | (Inr tmp, a1) \<Rightarrow>
                (let name = str_bytes leaf; t = owned_text tmp in
                 (case write_temp dir t (str_bytes content) d of
                    (st, d1) \<Rightarrow>
                      (case (if \<not> sc_status_is_ok st then (st, d1)
                             else if fail_if_exists then link_temp dir t name d1
                             else rename_temp dir t name d1) of
                         (st', d2) \<Rightarrow>
                           (st', (if sc_status_is_ok st' then d2 else unlinkat dir t d2), sc_string_clear tmp a1))))))"

section \<open>What the tools share\<close>

text \<open>The receipt at the end of every invocation; \<open>st\<close> is the status so far.\<close>

definition with_receipt ::
    "env \<Rightarrow> 'd sc_tool_impl_context \<Rightarrow> sc_str \<Rightarrow> sc_str \<Rightarrow> sc_str \<Rightarrow> sc_status \<Rightarrow> disk \<Rightarrow> sc_allocator \<Rightarrow> sc_status \<times> disk \<times> sc_allocator" where
  "with_receipt en ic name args outp st d a =
     (case (if sc_status_is_ok st
            then sc_tool_record_receipt (env_sodium en) (dk_wall d) (Some ic) (dk_chain d) name args outp True a
            else sc_tool_record_receipt_status (env_sodium en) (dk_wall d) (Some ic) (dk_chain d) name args (Str ''error'') False st a) of
        (st', ch, a1) \<Rightarrow> ((if sc_status_is_ok st then st' else st), d\<lparr>dk_chain := ch\<rparr>, a1))"

text \<open>
  The constructors: a block for the tool, its context, the two schemas and the handle. When the context is refused the
  tool does not know its allocator yet, and its block goes to the default heap instead of the allocator it came from.
\<close>

definition SIZEOF_TOOL_IMPL :: nat where
  "SIZEOF_TOOL_IMPL = 136"

definition SIZEOF_FILE_TOOL :: nat where
  "SIZEOF_FILE_TOOL = 144"

definition tool_impl_destroy :: "'d sc_tool_impl_context \<Rightarrow> sc_allocator \<Rightarrow> sc_allocator" where
  "tool_impl_destroy ic a = sc_free True (sc_tool_impl_context_clear ic a)"

definition tool_impl_new ::
    "nat \<Rightarrow> ('d sc_tool_impl_context \<Rightarrow> ('d, disk) sc_tool) \<Rightarrow> (sc_allocator \<Rightarrow> 'd sc_json_value res \<times> sc_allocator) \<Rightarrow>
       sc_tool_context option \<Rightarrow> sc_allocator \<Rightarrow> ('d, disk) sc_tool res \<times> sc_allocator" where
  "tool_impl_new sz vtab schema context a =
     (case sc_alloc sz a of
        (False, a0) \<Rightarrow> (Inl sc_status_no_memory, a0)
      | (True, a0) \<Rightarrow>
          (case sc_tool_context_copy context of
             Inl e \<Rightarrow> (Inl e, a0)
           | Inr ic \<Rightarrow>
               (case fill (\<lambda>_ b. case sc_tool_output_schema_text b of (Inl e, b1) \<Rightarrow> (Inl e, b1) | (Inr v, b1) \<Rightarrow> (Inr (Some v), b1))
                   (\<lambda>v q. q\<lparr>ic_output_schema := v\<rparr>)
                   (fill (\<lambda>_ b. case schema b of (Inl e, b1) \<Rightarrow> (Inl e, b1) | (Inr v, b1) \<Rightarrow> (Inr (Some v), b1))
                     (\<lambda>v q. q\<lparr>ic_schema := v\<rparr>) (sc_status_ok, ic, a0)) of
                  (st, ic', a1) \<Rightarrow>
                    (if \<not> sc_status_is_ok st then (Inl st, tool_impl_destroy ic' a1)
                     else (case sc_tool_new (Some (vtab ic')) a1 of
                             (Inl e, a2) \<Rightarrow> (Inl e, tool_impl_destroy ic' a2)
                           | (Inr t, a2) \<Rightarrow> (Inr t, a2))))))"

definition tool_vtab ::
    "string \<Rightarrow> 'd sc_tool_spec \<Rightarrow> ('d, disk) invoke_fn \<Rightarrow> 'd sc_tool_impl_context \<Rightarrow> ('d, disk) sc_tool" where
  "tool_vtab name spec invoke ic =
     \<lparr>t_struct_size = SIZEOF_TOOL_VTAB, t_abi_major = SC_ABI_VERSION_MAJOR, t_name = Some name,
      t_spec = Some (sc_status_ok, spec), t_invoke = Some invoke, t_destroy = Some (tool_impl_destroy ic)\<rparr>"

section \<open>The time tool\<close>

definition timezone_is_utc :: "sc_str \<Rightarrow> bool" where
  "timezone_is_utc tz \<longleftrightarrow> sc_str_equal tz (Str ''UTC'') \<or> sc_str_equal tz (Str ''Etc/UTC'') \<or> sc_str_equal tz (Str ''Z'') \<or>
     sc_str_equal tz (Str ''+00:00'') \<or> sc_str_equal tz (Str ''-00:00'')"

text \<open>\<^verbatim>\<open>%0wd\<close>: the width counts the sign.\<close>

definition dec_pad :: "nat \<Rightarrow> int \<Rightarrow> string" where
  "dec_pad w i =
     (let s = dec (nat \<bar>i\<bar>) in
      (if i < 0 then CHR ''-'' # replicate (w - 1 - length s) (CHR ''0'') @ s else replicate (w - length s) (CHR ''0'') @ s))"

definition time_text :: "tm \<Rightarrow> string \<Rightarrow> string" where
  "time_text t tz =
     dec_pad 4 (tm_year t + 1900) @ ''-'' @ dec_pad 2 (tm_mon t + 1) @ ''-'' @ dec_pad 2 (tm_mday t) @ ''T'' @
     dec_pad 2 (tm_hour t) @ '':'' @ dec_pad 2 (tm_min t) @ '':'' @ dec_pad 2 (tm_sec t) @ ''Z timezone='' @ tz"

definition time_spec :: "'d sc_tool_impl_context \<Rightarrow> 'd sc_tool_spec" where
  "time_spec ic =
     \<lparr>ts_name = Str ''time'', ts_description = Str ''tool.time.description'', ts_input_schema = ic_schema ic, ts_capabilities = 0,
      ts_risk = SC_TOOL_RISK_READONLY, ts_output_schema = ic_output_schema ic, ts_capability_category = 0,
      ts_side_effect = SC_TOOL_SIDE_EFFECT_READ, ts_default_autonomy = SC_AUTONOMY_FULL, ts_catalog_metadata_key = Str ''tool.time.catalog''\<rparr>"

definition time_zone_arg :: "'d sc_tool_call \<Rightarrow> sc_str" where
  "time_zone_arg call =
     (let tz = snd (sc_tool_get_optional_string_arg (Some call) (Str ''timezone'') (Str ''UTC'')) in
      (if str_len tz = 0 then Str ''UTC'' else tz))"

definition time_checks ::
    "env \<Rightarrow> 'd sc_tool_impl_context \<Rightarrow> disk \<Rightarrow> 'd sc_tool_call \<Rightarrow> sc_allocator \<Rightarrow> sc_status \<times> sc_str \<times> sc_allocator" where
  "time_checks en ic d call a =
     (let st0 = sc_tool_check_cancelled (Some ic) (Some call); tz = time_zone_arg call in
      (if \<not> sc_status_is_ok st0 then (st0, Str ''UTC'', a)
       else if \<not> timezone_is_utc tz then (sc_status_unsupported ''sc.time_tool.timezone_unsupported'', tz, a)
       else (case sc_tool_security_check (env_fs en) (dk_override d) (Some ic) (Str ''time'') SC_TOOL_RISK_READONLY (Str []) False (Str []) (Str []) a of
               (st, a1) \<Rightarrow> (st, tz, a1))))"

definition time_invoke :: "env \<Rightarrow> 'd sc_tool_impl_context \<Rightarrow> ('d, disk) invoke_fn" where
  "time_invoke en ic d call out a =
     (case time_checks en ic d call a of
        (st, tz, a1) \<Rightarrow>
          (let r = (if \<not> sc_status_is_ok st then Inl st
                    else (case env_gmtime en of
                            None \<Rightarrow> Inl (sc_status_io ''sc.time_tool.clock_failed'')
                          | Some t \<Rightarrow>
                              (if length (time_text t (str_bytes tz)) \<ge> 128
                               then Inl (sc_status_invalid_argument ''sc.time_tool.output_too_large'')
                               else Inr (time_text t (str_bytes tz))))) in
           (case r of
              Inl e \<Rightarrow> (case with_receipt en ic (Str ''time'') tz (Str ''error'') e d a1 of (st', d1, a2) \<Rightarrow> (st', out, a2, d1))
            | Inr t \<Rightarrow>
                (case sc_tool_set_output (Some ic) (Str t) True a1 of
                   (st1, out1, a2) \<Rightarrow>
                     (case with_receipt en ic (Str ''time'') tz (sc_string_as_str (tr_output out1)) st1 d a2 of
                        (st', d1, a3) \<Rightarrow> (st', out1, a3, d1))))))"

definition time_vtab :: "env \<Rightarrow> 'd sc_tool_impl_context \<Rightarrow> ('d, disk) sc_tool" where
  "time_vtab en ic = tool_vtab ''time'' (time_spec ic) (time_invoke en ic) ic"

definition sc_tool_time_new :: "env \<Rightarrow> sc_tool_context option \<Rightarrow> sc_allocator \<Rightarrow> ('d, disk) sc_tool res \<times> sc_allocator" where
  "sc_tool_time_new en context a = tool_impl_new SIZEOF_TOOL_IMPL (time_vtab en) (sc_tool_schema_string (Str ''timezone'') False) context a"

section \<open>Reading a file\<close>

definition SC_TOOL_CAPABILITY_FILESYSTEM :: "32 word" where
  "SC_TOOL_CAPABILITY_FILESYSTEM = 1"

definition file_read_spec :: "'d sc_tool_impl_context \<Rightarrow> 'd sc_tool_spec" where
  "file_read_spec ic =
     \<lparr>ts_name = Str ''file_read'', ts_description = Str ''tool.file_read.description'', ts_input_schema = ic_schema ic, ts_capabilities = 0,
      ts_risk = SC_TOOL_RISK_READONLY, ts_output_schema = ic_output_schema ic, ts_capability_category = SC_TOOL_CAPABILITY_FILESYSTEM,
      ts_side_effect = SC_TOOL_SIDE_EFFECT_READ, ts_default_autonomy = SC_AUTONOMY_FULL,
      ts_catalog_metadata_key = Str ''tool.file_read.catalog''\<rparr>"

text \<open>
  The file is opened without following a link; its descriptor is closed again. The parent directory and the name of
  the file come from \<^verbatim>\<open>sc_workspace_open_parent\<close>, which also opens the descriptor that is closed at the end.
\<close>

definition read_leaf :: "nat \<Rightarrow> nat \<Rightarrow> string \<Rightarrow> disk \<Rightarrow> sc_allocator \<Rightarrow> sc_string res \<times> disk \<times> sc_allocator" where
  "read_leaf max_bytes dir leaf d a =
     (case fault d of
        (no_open, d1) \<Rightarrow>
          (case dk_entries d1 dir leaf of
             None \<Rightarrow> (Inl (sc_status_io ''sc.file_read.open_failed''), d1, a)
           | Some nd \<Rightarrow>
               (if nd = Symbolic_link then (Inl (sc_status_security_denied ''sc.file_read.symlink_denied''), d1, a)
                else if no_open then (Inl (sc_status_io ''sc.file_read.open_failed''), d1, a)
                else read_file_limited nd max_bytes d1 a)))"

definition in_parent ::
    "env \<Rightarrow> sc_security_policy option \<Rightarrow> sc_str \<Rightarrow> (nat \<Rightarrow> string \<Rightarrow> disk \<Rightarrow> sc_allocator \<Rightarrow> 'r res \<times> disk \<times> sc_allocator) \<Rightarrow>
       disk \<Rightarrow> sc_allocator \<Rightarrow> 'r res \<times> disk \<times> sc_allocator" where
  "in_parent en policy pth act d a =
     (case policy of
        None \<Rightarrow> (Inl (sc_status_invalid_argument ''sc.security.path_invalid_argument''), d, a)
      | Some p \<Rightarrow>
          (case sc_workspace_open_parent (env_fs en) p pth a (dk_fds d) of
             (Inl e, a1, n) \<Rightarrow> (Inl e, d\<lparr>dk_fds := n\<rparr>, a1)
           | (Inr (dir, leaf), a1, n) \<Rightarrow>
               (case act dir (owned_text leaf) (d\<lparr>dk_fds := n\<rparr>) a1 of
                  (r, d2, a2) \<Rightarrow> (r, d2\<lparr>dk_fds := dk_fds d2 - 1\<rparr>, sc_string_clear leaf a2))))"

definition path_checks ::
    "env \<Rightarrow> 'd sc_tool_impl_context \<Rightarrow> string \<Rightarrow> disk \<Rightarrow> 'd sc_tool_call \<Rightarrow> sc_allocator \<Rightarrow> sc_status \<times> sc_str \<times> sc_allocator" where
  "path_checks en ic name d call a =
     (let st0 = sc_tool_check_cancelled (Some ic) (Some call) in
      (if \<not> sc_status_is_ok st0 then (st0, NullStr 0, a)
       else (case sc_tool_get_string_arg (Some call) (Str ''path'') (NullStr 0) of
               (st1, pth) \<Rightarrow>
                 (if \<not> sc_status_is_ok st1 then (st1, pth, a)
                  else (case sc_tool_security_check (env_fs en) (dk_override d) (Some ic) (Str name) SC_TOOL_RISK_READONLY pth True (Str []) (Str []) a of
                          (st2, a1) \<Rightarrow> (st2, pth, a1))))))"

definition file_read_invoke :: "env \<Rightarrow> 'd sc_tool_impl_context \<Rightarrow> ('d, disk) invoke_fn" where
  "file_read_invoke en ic d call out a =
     (case path_checks en ic ''file_read'' d call a of
        (st, pth, a1) \<Rightarrow>
          (case (if \<not> sc_status_is_ok st then (Inl st, d, a1)
                 else in_parent en (cx_policy (ic_context ic)) pth (read_leaf (max_output (Some ic))) d a1) of
             (Inl e, d1, a2) \<Rightarrow>
               (case with_receipt en ic (Str ''file_read'') pth (Str ''error'') e d1 a2 of (st', d2, a3) \<Rightarrow> (st', out, a3, d2))
           | (Inr content, d1, a2) \<Rightarrow>
               (case sc_tool_set_output (Some ic) (sc_string_as_str content) True a2 of
                  (st1, out1, a3) \<Rightarrow>
                    (case with_receipt en ic (Str ''file_read'') pth (sc_string_as_str (tr_output out1)) st1 d1 a3 of
                       (st', d2, a4) \<Rightarrow> (st', out1, sc_string_clear content a4, d2)))))"

definition file_read_vtab :: "env \<Rightarrow> 'd sc_tool_impl_context \<Rightarrow> ('d, disk) sc_tool" where
  "file_read_vtab en ic = tool_vtab ''file_read'' (file_read_spec ic) (file_read_invoke en ic) ic"

definition sc_tool_file_read_new :: "env \<Rightarrow> sc_tool_context option \<Rightarrow> sc_allocator \<Rightarrow> ('d, disk) sc_tool res \<times> sc_allocator" where
  "sc_tool_file_read_new en context a =
     tool_impl_new SIZEOF_TOOL_IMPL (file_read_vtab en) (sc_tool_schema_string_required (Str ''path'') (Str ''tool.file_read.description'')) context a"

section \<open>Writing and listing files\<close>

datatype file_tool_kind = FILE_TOOL_WRITE | FILE_TOOL_LIST

definition file_tool_spec :: "file_tool_kind \<Rightarrow> 'd sc_tool_impl_context \<Rightarrow> 'd sc_tool_spec" where
  "file_tool_spec kind ic =
     (let w = (kind = FILE_TOOL_WRITE) in
      \<lparr>ts_name = Str (if w then ''file_write'' else ''file_list''),
       ts_description = Str (if w then ''tool.file_write.description'' else ''tool.file_list.description''),
       ts_input_schema = ic_schema ic, ts_capabilities = 0, ts_risk = (if w then SC_TOOL_RISK_SIDE_EFFECT else SC_TOOL_RISK_READONLY),
       ts_output_schema = ic_output_schema ic, ts_capability_category = SC_TOOL_CAPABILITY_FILESYSTEM,
       ts_side_effect = (if w then SC_TOOL_SIDE_EFFECT_WRITE else SC_TOOL_SIDE_EFFECT_READ),
       ts_default_autonomy = (if w then SC_AUTONOMY_SUPERVISED else SC_AUTONOMY_FULL),
       ts_catalog_metadata_key = Str (if w then ''tool.file_write.catalog'' else ''tool.file_list.catalog'')\<rparr>)"

text \<open>The arguments of a write: the path, the content, the mode with its default, and the one-time code.\<close>

definition write_args :: "'d sc_tool_call \<Rightarrow> sc_status \<times> sc_str \<times> sc_str \<times> sc_str \<times> sc_str" where
  "write_args call =
     (case sc_tool_get_string_arg (Some call) (Str ''path'') (NullStr 0) of
        (st1, pth) \<Rightarrow>
          (if \<not> sc_status_is_ok st1 then (st1, pth, NullStr 0, Str ''overwrite'', NullStr 0)
           else (case sc_tool_get_string_arg (Some call) (Str ''content'') (NullStr 0) of
                   (st2, content) \<Rightarrow>
                     (if \<not> sc_status_is_ok st2 then (st2, pth, content, Str ''overwrite'', NullStr 0)
                      else (let m = snd (sc_tool_get_optional_string_arg (Some call) (Str ''mode'') (Str ''overwrite''));
                                otp = snd (sc_tool_get_optional_string_arg (Some call) (Str ''otp'') (NullStr 0)) in
                            (sc_status_ok, pth, content, (if str_len m = 0 then Str ''overwrite'' else m), otp))))))"

definition write_checks ::
    "env \<Rightarrow> 'd sc_tool_impl_context \<Rightarrow> disk \<Rightarrow> 'd sc_tool_call \<Rightarrow> sc_allocator \<Rightarrow>
       sc_status \<times> sc_str \<times> sc_str \<times> sc_str \<times> sc_allocator" where
  "write_checks en ic d call a =
     (let st0 = sc_tool_check_cancelled (Some ic) (Some call) in
      (if \<not> sc_status_is_ok st0 then (st0, NullStr 0, NullStr 0, Str ''overwrite'', a)
       else (case write_args call of
               (st1, pth, content, mode, otp) \<Rightarrow>
                 (if \<not> sc_status_is_ok st1 then (st1, pth, content, mode, a)
                  else (case sc_tool_security_check_ex (env_fs en) (dk_override d) (Some ic)
                            \<lparr>tool_name = Str ''file_write'', risk = SC_TOOL_RISK_SIDE_EFFECT, path_arg = pth, path_must_exist = False,
                             url_arg = Str [], shell_arg = Str [], device_arg = Str [], req_otp_code = otp\<rparr> a of
                          (st2, a1) \<Rightarrow> (st2, pth, content, mode, a1))))))"

definition write_leaf ::
    "env \<Rightarrow> sc_str \<Rightarrow> sc_str \<Rightarrow> nat \<Rightarrow> string \<Rightarrow> disk \<Rightarrow> sc_allocator \<Rightarrow> unit res \<times> disk \<times> sc_allocator" where
  "write_leaf en mode content dir leaf d a =
     (case (if sc_str_equal mode (Str ''append'')
            then (case write_all_at dir (Str leaf) content True d of (st, d1) \<Rightarrow> (st, d1, a))
            else if sc_str_equal mode (Str ''create'') then write_atomic_at en dir (Str leaf) content True d a
            else if sc_str_equal mode (Str ''overwrite'') then write_atomic_at en dir (Str leaf) content False d a
            else (sc_status_invalid_argument ''sc.file_write.invalid_mode'', d, a)) of
        (st, d1, a1) \<Rightarrow> ((if sc_status_is_ok st then Inr () else Inl st), d1, a1))"

definition invoke_file_write :: "env \<Rightarrow> 'd sc_tool_impl_context \<Rightarrow> ('d, disk) invoke_fn" where
  "invoke_file_write en ic d call out a =
     (case write_checks en ic d call a of
        (st, pth, content, mode, a1) \<Rightarrow>
          (case (if \<not> sc_status_is_ok st then (Inl st, d, a1)
                 else in_parent en (cx_policy (ic_context ic)) pth (write_leaf en mode content) d a1) of
             (Inl e, d1, a2) \<Rightarrow>
               (case with_receipt en ic (Str ''file_write'') pth (Str ''error'') e d1 a2 of (st', d2, a3) \<Rightarrow> (st', out, a3, d2))
           | (Inr _, d1, a2) \<Rightarrow>
               (case sc_tool_set_output (Some ic) (Str ''written'') True a2 of
                  (st1, out1, a3) \<Rightarrow>
                    (case with_receipt en ic (Str ''file_write'') pth (Str ''written'') st1 d1 a3 of
                       (st', d2, a4) \<Rightarrow> (st', out1, a4, d2)))))"

definition name_matches :: "sc_str \<Rightarrow> sc_str \<Rightarrow> bool" where
  "name_matches name pat \<longleftrightarrow> ptr_null pat \<or> str_len pat = 0 \<or> sc_str_equal pat (Str ''*'') \<or> contains_sub (str_bytes pat) (str_bytes name)"

fun list_entries :: "sc_str \<Rightarrow> string list \<Rightarrow> sc_string_builder \<Rightarrow> sc_allocator \<Rightarrow> sc_status \<times> sc_string_builder \<times> sc_allocator" where
  "list_entries pat [] b a = (sc_status_ok, b, a)"
| "list_entries pat (e # es) b a =
     (if e = ''.'' \<or> e = ''..'' \<or> \<not> name_matches (Str e) pat then list_entries pat es b a
      else (case builder_appends [Str e, Str [CHR 0x0A]] b a of
              (st, b1, a1) \<Rightarrow> (if sc_status_is_ok st then list_entries pat es b1 a1 else (st, b1, a1))))"

text \<open>An opened directory is closed again, and a failed close is an error of its own.\<close>

definition list_directory :: "sc_str \<Rightarrow> string \<Rightarrow> disk \<Rightarrow> sc_allocator \<Rightarrow> sc_string res \<times> disk \<times> sc_allocator" where
  "list_directory pat dir d a =
     (case dk_listing d dir of
        None \<Rightarrow> (Inl (sc_status_io ''sc.file_list.open_failed''), d, a)
      | Some es \<Rightarrow>
          (case list_entries pat es sc_string_builder_init a of
             (st, b, a1) \<Rightarrow>
               (case fault d of
                  (bad_close, d1) \<Rightarrow>
                    (let st' = (if bad_close \<and> sc_status_is_ok st then sc_status_io ''sc.file_list.close_failed'' else st) in
                     (if sc_status_is_ok st' then (Inr (fst (sc_string_builder_finish b)), d1, a1)
                      else (Inl st', d1, snd (sc_string_builder_clear b a1)))))))"

definition invoke_file_list :: "env \<Rightarrow> 'd sc_tool_impl_context \<Rightarrow> ('d, disk) invoke_fn" where
  "invoke_file_list en ic d call out a =
     (let pat = snd (sc_tool_get_optional_string_arg (Some call) (Str ''pattern'') (NullStr 0)) in
      (case path_checks en ic ''file_list'' d call a of
         (st, pth, a1) \<Rightarrow>
           (case (if \<not> sc_status_is_ok st then (Inl st, a1)
                  else (case cx_policy (ic_context ic) of
                          None \<Rightarrow> (Inl (sc_status_invalid_argument ''sc.security.path_invalid_argument''), a1)
                        | Some p \<Rightarrow> sc_workspace_resolve (env_fs en) p pth True a1)) of
              (Inl e, a2) \<Rightarrow>
                (case with_receipt en ic (Str ''file_list'') pth (Str ''error'') e d a2 of (st', d2, a3) \<Rightarrow> (st', out, a3, d2))
            | (Inr resolved, a2) \<Rightarrow>
                (case list_directory pat (owned_text resolved) d a2 of
                   (Inl e, d1, a3) \<Rightarrow>
                     (case with_receipt en ic (Str ''file_list'') pth (Str ''error'') e d1 a3 of
                        (st', d2, a4) \<Rightarrow> (st', out, sc_string_clear resolved a4, d2))
                 | (Inr lst, d1, a3) \<Rightarrow>
                     (case sc_tool_set_output (Some ic) (sc_string_as_str lst) True a3 of
                        (st1, out1, a4) \<Rightarrow>
                          (case with_receipt en ic (Str ''file_list'') pth (sc_string_as_str (tr_output out1)) st1 d1 (sc_string_clear lst a4) of
                             (st', d2, a5) \<Rightarrow> (st', out1, sc_string_clear resolved a5, d2)))))))"

definition file_tool_invoke :: "env \<Rightarrow> file_tool_kind \<Rightarrow> 'd sc_tool_impl_context \<Rightarrow> ('d, disk) invoke_fn" where
  "file_tool_invoke en kind ic =
     (case kind of FILE_TOOL_WRITE \<Rightarrow> invoke_file_write en ic | FILE_TOOL_LIST \<Rightarrow> invoke_file_list en ic)"

definition file_tool_vtab :: "env \<Rightarrow> file_tool_kind \<Rightarrow> 'd sc_tool_impl_context \<Rightarrow> ('d, disk) sc_tool" where
  "file_tool_vtab en kind ic =
     tool_vtab (case kind of FILE_TOOL_WRITE \<Rightarrow> ''file_write'' | FILE_TOOL_LIST \<Rightarrow> ''file_list'')
       (file_tool_spec kind ic) (file_tool_invoke en kind ic) ic"

definition file_tool_new :: "env \<Rightarrow> file_tool_kind \<Rightarrow> sc_tool_context option \<Rightarrow> sc_allocator \<Rightarrow> ('d, disk) sc_tool res \<times> sc_allocator" where
  "file_tool_new en kind context a =
     tool_impl_new SIZEOF_FILE_TOOL (file_tool_vtab en kind)
       (case kind of
          FILE_TOOL_WRITE \<Rightarrow> sc_tool_schema_three_strings (Str ''path'') True (Str ''content'') True (Str ''mode'') False
        | FILE_TOOL_LIST \<Rightarrow> sc_tool_schema_two_strings (Str ''path'') True (Str ''pattern'') False) context a"

definition sc_tool_file_write_new :: "env \<Rightarrow> sc_tool_context option \<Rightarrow> sc_allocator \<Rightarrow> ('d, disk) sc_tool res \<times> sc_allocator" where
  "sc_tool_file_write_new en context a = file_tool_new en FILE_TOOL_WRITE context a"

definition sc_tool_file_list_new :: "env \<Rightarrow> sc_tool_context option \<Rightarrow> sc_allocator \<Rightarrow> ('d, disk) sc_tool res \<times> sc_allocator" where
  "sc_tool_file_list_new en context a = file_tool_new en FILE_TOOL_LIST context a"

section \<open>Transfers\<close>

lemma fault_disk:
  assumes "fault d = (b, d')"
  shows "dk_entries d' = dk_entries d" "dk_transfers d' = dk_transfers d" "dk_fds d' = dk_fds d" "dk_chain d' = dk_chain d"
  using assms by (auto simp: fault_def split: list.splits)

lemma fault_none: "fault d = (b, d') \<Longrightarrow> dk_faults d = [] \<Longrightarrow> d' = d \<and> \<not> b"
  by (auto simp: fault_def)

lemma set_entry_disk [simp]:
  "dk_transfers (set_entry dir name v d) = dk_transfers d" "dk_fds (set_entry dir name v d) = dk_fds d"
  "dk_chain (set_entry dir name v d) = dk_chain d" "dk_faults (set_entry dir name v d) = dk_faults d"
  by (simp_all add: set_entry_def)

lemma set_entry_at: "dk_entries (set_entry dir name v d) dir' name' = (if dir' = dir \<and> name' = name then v else dk_entries d dir' name')"
  by (simp add: set_entry_def)

text \<open>A write puts down a beginning of the content behind what was there, and all of it when it succeeds.\<close>

lemma write_all_fd_spec:
  assumes "write_all_fd ts content written = (st, t, ts')"
  shows "\<exists>k \<le> length content. t = written @ take k content \<and> (sc_status_is_ok st \<longrightarrow> k = length content)"
  using assms
proof (induction ts content written rule: write_all_fd.induct)
  case (3 ts c cs written)
  then show ?case by simp
next
  case (4 ts c cs written)
  then show ?case by (intro exI [of _ 0]) auto
next
  case (5 n ts c cs written)
  show ?case
  proof (cases "n = 0")
    case True
    with 5(2) show ?thesis by (intro exI [of _ 0]) auto
  next
    case False
    with 5 obtain k where k: "k \<le> length (drop n (c # cs))"
      "t = (written @ take n (c # cs)) @ take k (drop n (c # cs))" "sc_status_is_ok st \<longrightarrow> k = length (drop n (c # cs))" by auto
    have "take n (c # cs) @ take k (drop n (c # cs)) = take (n + k) (c # cs)" by (rule take_add [symmetric])
    moreover have "sc_status_is_ok st \<Longrightarrow> take (n + k) (c # cs) = c # cs" using k(3) by simp
    ultimately show ?thesis using k
      by (intro exI [of _ "min (n + k) (length (c # cs))"]) (auto simp: min_def)
  qed
qed auto

text \<open>A read delivers a beginning of the file of at most the wanted length; without a read of zero bytes, all of it.\<close>

lemma read_loop_spec:
  assumes "read_loop ts rest room got = (Inr t, ts')"
  shows "\<exists>k \<le> room. t = got @ take k rest \<and> (Moved 0 \<notin> set ts \<longrightarrow> t = got @ take room rest)"
  using assms
proof (induction ts rest room got rule: read_loop.induct)
  case (1 rest room got)
  then show ?case by auto
next
  case (2 ts rest room got)
  then show ?case by (auto split: if_splits)
next
  case (3 ts rest room got)
  then show ?case by (auto split: if_splits)
next
  case (4 n ts rest room got)
  let ?k = "min n (min room (length rest))"
  show ?case
  proof (cases "room = 0 \<or> ?k = 0")
    case True
    with 4(2) have "t = got" by (auto simp: Let_def split: if_splits)
    moreover have "Moved 0 \<notin> set (Moved n # ts) \<Longrightarrow> take room rest = []" using True by (auto simp: min_def split: if_splits)
    ultimately show ?thesis by (intro exI [of _ 0]) auto
  next
    case False
    define j where "j = ?k"
    have nz: "room \<noteq> 0" "j \<noteq> 0" using False by (auto simp: j_def)
    have run: "read_loop ts (drop j rest) (room - j) (got @ take j rest) = (Inr t, ts')"
      using 4(2) nz unfolding read_loop.simps Let_def j_def [symmetric] by simp
    from 4(1) [OF nz(1) j_def nz(2) run] obtain k where k: "k \<le> room - j" "t = (got @ take j rest) @ take k (drop j rest)"
      "Moved 0 \<notin> set ts \<longrightarrow> t = (got @ take j rest) @ take (room - j) (drop j rest)" by blast
    have join: "(got @ take j rest) @ take m (drop j rest) = got @ take (j + m) rest" for m
      by (simp only: append_assoc take_add)
    have "j \<le> room" by (simp add: j_def)
    then have "j + (room - j) = room" "j + k \<le> room" using k(1) by auto
    with k(2,3) show ?thesis unfolding join by (intro exI [of _ "j + k"]) auto
  qed
qed

section \<open>The atomic write keeps its promise\<close>

text \<open>What two disks share when only some names of one directory may differ.\<close>

definition changed_only :: "nat \<Rightarrow> string set \<Rightarrow> disk \<Rightarrow> disk \<Rightarrow> bool" where
  "changed_only dir names d d' \<longleftrightarrow> dk_fds d' = dk_fds d \<and> dk_chain d' = dk_chain d \<and>
     (\<forall>dir' name. dir' \<noteq> dir \<or> name \<notin> names \<longrightarrow> dk_entries d' dir' name = dk_entries d dir' name)"

lemma changed_refl: "changed_only dir names d d"
  by (simp add: changed_only_def)

lemma changed_trans: "changed_only dir ns d d1 \<Longrightarrow> changed_only dir ms d1 d2 \<Longrightarrow> ns \<subseteq> ks \<Longrightarrow> ms \<subseteq> ks \<Longrightarrow> changed_only dir ks d d2"
  unfolding changed_only_def subset_iff by metis

lemma changed_fault: "fault d = (b, d') \<Longrightarrow> changed_only dir names d d'"
  by (auto simp: changed_only_def fault_disk)

lemma changed_set: "name \<in> names \<Longrightarrow> changed_only dir names d (set_entry dir name v d)"
  by (auto simp: changed_only_def set_entry_at)

lemma unlinkat_spec:
  "changed_only dir {name} d (unlinkat dir name d)"
  "dk_faults d = [] \<Longrightarrow> dk_entries d dir name \<noteq> Some Directory \<Longrightarrow> dk_entries (unlinkat dir name d) dir name = None"
proof -
  obtain b d1 where f: "fault d = (b, d1)" by (cases "fault d")
  show "changed_only dir {name} d (unlinkat dir name d)"
    using f fault_disk [OF f] by (auto simp: unlinkat_def changed_only_def set_entry_at split: bool.splits)
  show "dk_faults d = [] \<Longrightarrow> dk_entries d dir name \<noteq> Some Directory \<Longrightarrow> dk_entries (unlinkat dir name d) dir name = None"
    by (simp add: unlinkat_def fault_def set_entry_at)
qed

lemma write_and_close_spec:
  assumes "write_and_close dir name start content d = (st, d')"
  shows "changed_only dir {name} d d'"
    and "\<exists>k \<le> length content. dk_entries d' dir name = Some (Regular (start @ take k content)) \<and> (sc_status_is_ok st \<longrightarrow> k = length content)"
    and "dk_faults d = [] \<Longrightarrow> dk_faults d' = []"
proof -
  obtain st1 t ts where w: "write_all_fd (dk_transfers d) content start = (st1, t, ts)"
    by (cases "write_all_fd (dk_transfers d) content start")
  let ?d = "(set_entry dir name (Some (Regular t)) d)\<lparr>dk_transfers := ts\<rparr>"
  obtain b d1 where f: "fault ?d = (b, d1)" by (cases "fault ?d")
  have out: "d' = d1" "sc_status_is_ok st \<Longrightarrow> sc_status_is_ok st1"
    using assms w f by (auto simp: write_and_close_def split: if_splits)
  have e: "dk_entries ?d dir' name' = (if dir' = dir \<and> name' = name then Some (Regular t) else dk_entries d dir' name')" for dir' name'
    using set_entry_at [of dir name "Some (Regular t)" d] by simp
  have d1: "dk_entries d1 dir' name' = (if dir' = dir \<and> name' = name then Some (Regular t) else dk_entries d dir' name')"
    "dk_fds d1 = dk_fds d" "dk_chain d1 = dk_chain d" for dir' name'
    using fault_disk [OF f] e by simp_all
  show "changed_only dir {name} d d'" by (auto simp: changed_only_def out d1)
  show "\<exists>k \<le> length content. dk_entries d' dir name = Some (Regular (start @ take k content)) \<and> (sc_status_is_ok st \<longrightarrow> k = length content)"
    using write_all_fd_spec [OF w] out by (auto simp: d1)
  show "dk_faults d = [] \<Longrightarrow> dk_faults d' = []" using fault_none [OF f] by (simp add: out)
qed

lemma write_temp_spec:
  assumes "write_temp dir tmp content d = (st, d')"
  shows "changed_only dir {tmp} d d'"
    and "sc_status_is_ok st \<Longrightarrow> dk_entries d dir tmp = None \<and> dk_entries d' dir tmp = Some (Regular content)"
    and "dk_entries d dir tmp \<noteq> None \<Longrightarrow> \<not> sc_status_is_ok st \<and> dk_entries d' = dk_entries d"
    and "dk_faults d = [] \<Longrightarrow> dk_faults d' = []"
    and "dk_entries d dir tmp \<noteq> Some Directory \<Longrightarrow> dk_entries d' dir tmp \<noteq> Some Directory"
proof -
  obtain b d1 where f: "fault d = (b, d1)" by (cases "fault d")
  note fd = fault_disk [OF f]
  have ff: "dk_faults d = [] \<Longrightarrow> dk_faults d1 = []" using fault_none [OF f] by simp
  have "(dk_entries d dir tmp \<noteq> None \<and> st = sc_status_invalid_argument ''sc.file_write.temp_exists'' \<and> d' = d1) \<or>
      (dk_entries d dir tmp = None \<and> st = sc_status_io ''sc.file_write.temp_open_failed'' \<and> d' = d1) \<or>
      (dk_entries d dir tmp = None \<and> write_and_close dir tmp [] content d1 = (st, d'))"
    using assms unfolding write_temp_def f prod.case fd(1) by (simp split: if_splits)
  then consider (exists) "dk_entries d dir tmp \<noteq> None" "st = sc_status_invalid_argument ''sc.file_write.temp_exists''" "d' = d1"
    | (failed) "dk_entries d dir tmp = None" "st = sc_status_io ''sc.file_write.temp_open_failed''" "d' = d1"
    | (run) "dk_entries d dir tmp = None" "write_and_close dir tmp [] content d1 = (st, d')"
    by argo
  note cs = this
  show "changed_only dir {tmp} d d'"
    using cs
  proof cases
    case run
    from changed_trans [OF changed_fault [OF f, of dir "{tmp}"] write_and_close_spec(1) [OF run(2)]] show ?thesis by simp
  qed (use changed_fault [OF f] in simp_all)
  show "sc_status_is_ok st \<Longrightarrow> dk_entries d dir tmp = None \<and> dk_entries d' dir tmp = Some (Regular content)"
    using cs by cases (use write_and_close_spec(2) [of dir tmp "[]" content d1 st d'] in auto)
  show "dk_entries d dir tmp \<noteq> None \<Longrightarrow> \<not> sc_status_is_ok st \<and> dk_entries d' = dk_entries d"
    using cs by cases (use fd in auto)
  show "dk_faults d = [] \<Longrightarrow> dk_faults d' = []" using cs by cases (use ff write_and_close_spec(3) in auto)
  show "dk_entries d dir tmp \<noteq> Some Directory \<Longrightarrow> dk_entries d' dir tmp \<noteq> Some Directory"
    using cs by cases (use fd write_and_close_spec(2) [of dir tmp "[]" content d1 st d'] in auto)
qed

lemma link_temp_spec:
  assumes "link_temp dir tmp leaf d = (st, d')" "tmp \<noteq> leaf"
  shows "changed_only dir {tmp, leaf} d d'"
    and "sc_status_is_ok st \<Longrightarrow> dk_entries d dir leaf = None \<and> dk_entries d' dir leaf = dk_entries d dir tmp"
    and "\<not> sc_status_is_ok st \<Longrightarrow> dk_entries d' dir leaf = dk_entries d dir leaf"
proof -
  obtain b d1 where f: "fault d = (b, d1)" by (cases "fault d")
  note fd = fault_disk [OF f]
  define r where "r = (if dk_entries d1 dir leaf \<noteq> None then (sc_status_invalid_argument ''sc.file_write.exists'', d1)
                    else if b then (sc_status_io ''sc.file_write.link_failed'', d1)
                    else (sc_status_ok, set_entry dir leaf (dk_entries d1 dir tmp) d1))"
  have out: "st = fst r" "d' = unlinkat dir tmp (snd r)" using assms(1) f by (auto simp: link_temp_def r_def)
  have r: "changed_only dir {leaf} d (snd r)" "sc_status_is_ok st \<Longrightarrow> dk_entries d dir leaf = None \<and> dk_entries (snd r) dir leaf = dk_entries d dir tmp"
    "\<not> sc_status_is_ok st \<Longrightarrow> dk_entries (snd r) dir leaf = dk_entries d dir leaf"
    unfolding out(1) r_def using fd by (auto simp: changed_only_def set_entry_at)
  have u: "dk_entries d' dir leaf = dk_entries (snd r) dir leaf"
    using unlinkat_spec(1) [of dir tmp "snd r"] assms(2) out(2) by (simp add: changed_only_def)
  show "changed_only dir {tmp, leaf} d d'" using changed_trans [OF r(1) unlinkat_spec(1)] out(2) by auto
  show "sc_status_is_ok st \<Longrightarrow> dk_entries d dir leaf = None \<and> dk_entries d' dir leaf = dk_entries d dir tmp" using r(2) u by simp
  show "\<not> sc_status_is_ok st \<Longrightarrow> dk_entries d' dir leaf = dk_entries d dir leaf" using r(3) u by simp
qed

lemma rename_temp_spec:
  assumes "rename_temp dir tmp leaf d = (st, d')" "tmp \<noteq> leaf"
  shows "changed_only dir {tmp, leaf} d d'"
    and "sc_status_is_ok st \<Longrightarrow> dk_entries d' dir leaf = dk_entries d dir tmp \<and> dk_entries d' dir tmp = None"
    and "\<not> sc_status_is_ok st \<Longrightarrow> dk_entries d' dir leaf = dk_entries d dir leaf"
proof -
  obtain b d1 where f: "fault d = (b, d1)" by (cases "fault d")
  note fd = fault_disk [OF f]
  from assms f fd show "changed_only dir {tmp, leaf} d d'"
    and "sc_status_is_ok st \<Longrightarrow> dk_entries d' dir leaf = dk_entries d dir tmp \<and> dk_entries d' dir tmp = None"
    and "\<not> sc_status_is_ok st \<Longrightarrow> dk_entries d' dir leaf = dk_entries d dir leaf"
    by (auto simp: rename_temp_def changed_only_def set_entry_at split: if_splits)
qed

text \<open>
  The file is either written completely or left as it was; nothing but it and the temporary name changes. A name that
  must be new is not taken over.
\<close>

lemma temp_name_differs: "temp_name pid leaf \<noteq> leaf"
  by (simp add: temp_name_def)

lemma write_atomic_spec:
  assumes "write_atomic_at en dir (Str leaf) content fail_if_exists d a = (st, d', a')"
  defines "tmp \<equiv> temp_name (env_pid en) leaf"
  shows "live a' = live a"
    and "changed_only dir {tmp, leaf} d d'"
    and "\<not> sc_status_is_ok st \<Longrightarrow> dk_entries d' dir leaf = dk_entries d dir leaf"
    and "sc_status_is_ok st \<Longrightarrow> dk_entries d' dir leaf = Some (Regular (str_bytes content)) \<and> dk_entries d dir tmp = None \<and>
      (fail_if_exists \<longrightarrow> dk_entries d dir leaf = None)"
proof -
  have ne: "tmp \<noteq> leaf" by (simp add: tmp_def temp_name_differs)
  let ?P = "live a' = live a \<and> changed_only dir {tmp, leaf} d d' \<and>
    (\<not> sc_status_is_ok st \<longrightarrow> dk_entries d' dir leaf = dk_entries d dir leaf) \<and>
    (sc_status_is_ok st \<longrightarrow> dk_entries d' dir leaf = Some (Regular (str_bytes content)) \<and> dk_entries d dir tmp = None \<and>
      (fail_if_exists \<longrightarrow> dk_entries d dir leaf = None))"
  obtain r a1 where b: "build_string [Str leaf, Str (''.tmp.'' @ dec (env_pid en))] a = (r, a1)"
    by (cases "build_string [Str leaf, Str (''.tmp.'' @ dec (env_pid en))] a")
  note bs = build_string_spec [OF b]
  have ?P
  proof (cases "leaf = []")
    case True
    with assms(1) show ?thesis by (auto simp: write_atomic_at_def changed_refl)
  next
    case leaf: False
    show ?thesis
    proof (cases r)
      case (Inl e)
      with assms(1) leaf b bs show ?thesis by (auto simp: write_atomic_at_def changed_refl)
    next
      case (Inr t)
      with bs have t: "t = Some tmp" "live a1 = live a + 1" by (simp_all add: tmp_def temp_name_def)
      obtain st1 d1 where w: "write_temp dir tmp (str_bytes content) d = (st1, d1)" by (cases "write_temp dir tmp (str_bytes content) d")
      note ws = write_temp_spec [OF w]
      obtain st2 d2 where n: "(if \<not> sc_status_is_ok st1 then (st1, d1)
          else if fail_if_exists then link_temp dir tmp leaf d1 else rename_temp dir tmp leaf d1) = (st2, d2)"
        by (cases "if \<not> sc_status_is_ok st1 then (st1, d1)
          else if fail_if_exists then link_temp dir tmp leaf d1 else rename_temp dir tmp leaf d1")
      have out: "st = st2" "d' = (if sc_status_is_ok st2 then d2 else unlinkat dir tmp d2)" "a' = sc_string_clear t a1"
        using assms(1) leaf b Inr t w n by (auto simp: write_atomic_at_def)
      have l1: "dk_entries d1 dir leaf = dk_entries d dir leaf" using ws(1) ne by (simp add: changed_only_def)
      have d2: "changed_only dir {tmp, leaf} d1 d2" "\<not> sc_status_is_ok st2 \<Longrightarrow> dk_entries d2 dir leaf = dk_entries d1 dir leaf"
        "sc_status_is_ok st2 \<Longrightarrow> sc_status_is_ok st1 \<and> dk_entries d2 dir leaf = dk_entries d1 dir tmp \<and>
          (fail_if_exists \<longrightarrow> dk_entries d1 dir leaf = None)"
        using n link_temp_spec [OF _ ne, of dir d1 st2 d2] rename_temp_spec [OF _ ne, of dir d1 st2 d2]
        by (auto simp: changed_refl split: if_splits)
      have u: "dk_entries d' dir leaf = dk_entries d2 dir leaf" "changed_only dir {tmp, leaf} d2 d'"
        using unlinkat_spec(1) [of dir tmp d2] ne out(2) by (auto simp: changed_only_def)
      have "changed_only dir {tmp, leaf} d d'"
        using changed_trans [OF changed_trans [OF ws(1) d2(1), of "{tmp, leaf}"] u(2), of "{tmp, leaf}"] by simp
      moreover have "live a' = live a" using t out(3) by (simp add: string_blocks_def)
      ultimately show ?thesis using d2(2,3) u(1) l1 ws(2) out(1) by auto
    qed
  qed
  then show "live a' = live a" "changed_only dir {tmp, leaf} d d'"
    "\<not> sc_status_is_ok st \<Longrightarrow> dk_entries d' dir leaf = dk_entries d dir leaf"
    "sc_status_is_ok st \<Longrightarrow> dk_entries d' dir leaf = Some (Regular (str_bytes content)) \<and> dk_entries d dir tmp = None \<and>
      (fail_if_exists \<longrightarrow> dk_entries d dir leaf = None)" by blast+
qed

text \<open>A file of the temporary name that another wrote is removed, although the write is refused because of it.\<close>

lemma write_atomic_removes_other:
  assumes "write_atomic_at en dir (Str leaf) content fail_if_exists d a = (st, d', a')" "leaf \<noteq> []"
    and "build_string [Str leaf, Str (''.tmp.'' @ dec (env_pid en))] a = (Inr t, a1)"
    and "dk_entries d dir (temp_name (env_pid en) leaf) = Some (Regular other)" "dk_faults d = []"
  shows "\<not> sc_status_is_ok st \<and> dk_entries d' dir (temp_name (env_pid en) leaf) = None"
proof -
  let ?tmp = "temp_name (env_pid en) leaf"
  have t: "owned_text t = ?tmp" using build_string_spec [OF assms(3)] by (simp add: temp_name_def)
  obtain st1 d1 where w: "write_temp dir ?tmp (str_bytes content) d = (st1, d1)" by (cases "write_temp dir ?tmp (str_bytes content) d")
  have one: "\<not> sc_status_is_ok st1" "dk_entries d1 = dk_entries d" "dk_faults d1 = []"
    using write_temp_spec(3,4) [OF w] assms(4,5) by auto
  then have "st = st1" "d' = unlinkat dir ?tmp d1"
    using assms(1-3) w t by (auto simp: write_atomic_at_def Let_def)
  with one unlinkat_spec(2) [of d1 dir ?tmp] assms(4) show ?thesis by simp
qed

section \<open>The tools keep their contract\<close>

lemma with_receipt_spec:
  assumes "with_receipt en ic name args outp st d a = (st', d', a')" "chain_ok (dk_chain d)"
  shows "chain_ok (dk_chain d') \<and> live a' - chain_held (dk_chain d') = live a - chain_held (dk_chain d) \<and>
    dk_entries d' = dk_entries d \<and> dk_fds d' = dk_fds d \<and> (sc_status_is_ok st' \<longrightarrow> sc_status_is_ok st)"
  using assms
  by (auto simp: with_receipt_def sc_tool_record_receipt_def split: prod.splits if_splits dest: record_receipt_live)

lemma security_check_live: "sc_tool_security_check f ov context name rk pth me url shell a = (st, a') \<Longrightarrow> live a' = live a"
  unfolding sc_tool_security_check_def by (rule security_check_spec(1))

lemma read_loop_fails: "read_loop ts rest room got = (Inl e, ts') \<Longrightarrow> \<not> sc_status_is_ok e"
  by (induction ts rest room got rule: read_loop.induct) (auto simp: Let_def split: if_splits)

lemma alloc_live: "sc_alloc n a = (b, a') \<Longrightarrow> live a' = live a + (if b then 1 else 0)"
  by (auto dest: alloc_cases)

text \<open>What a read of a file delivers: a beginning of a regular file, of at most the wanted length.\<close>

definition read_of :: "disk \<Rightarrow> nat \<Rightarrow> node option \<Rightarrow> sc_string \<Rightarrow> bool" where
  "read_of d n nd s \<longleftrightarrow> (\<exists>body k. nd = Some (Regular body) \<and> k \<le> n \<and> s = Some (take k body) \<and>
     (Moved 0 \<notin> set (dk_transfers d) \<longrightarrow> take k body = take n body))"

text \<open>A step on the disk that opens and changes nothing, and delivers an owned text or an error.\<close>

definition quiet :: "disk \<Rightarrow> sc_allocator \<Rightarrow> (sc_string \<Rightarrow> bool) \<Rightarrow> sc_string res \<times> disk \<times> sc_allocator \<Rightarrow> bool" where
  "quiet d a Q x \<longleftrightarrow> (case x of (r, d', a') \<Rightarrow>
     dk_chain d' = dk_chain d \<and> dk_fds d' = dk_fds d \<and> dk_entries d' = dk_entries d \<and>
     (case r of Inl e \<Rightarrow> live a' = live a \<and> \<not> sc_status_is_ok e | Inr s \<Rightarrow> live a' = live a + string_blocks s \<and> Q s))"

lemma read_file_quiet: "quiet d a (read_of d n (Some nd)) (read_file_limited nd n d a)"
proof -
  obtain b d1 where f: "fault d = (b, d1)" by (cases "fault d")
  note fd = fault_disk [OF f]
  show ?thesis
  proof (cases "sc_size_add_overflow n 1 = None \<or> b \<or> (\<forall>body. nd \<noteq> Regular body)")
    case True
    then show ?thesis using fd by (cases nd) (auto simp: quiet_def read_file_limited_def f)
  next
    case False
    then obtain body where nd: "nd = Regular body" by blast
    obtain ok a1 where al: "sc_alloc (n + 1) a = (ok, a1)" by (cases "sc_alloc (n + 1) a")
    note l = alloc_live [OF al]
    obtain rr ts where rl: "read_loop (dk_transfers d1) body n [] = (rr, ts)" by (cases "read_loop (dk_transfers d1) body n []")
    show ?thesis
    proof (cases rr)
      case (Inl e)
      with read_loop_fails [of "dk_transfers d1" body n "[]" e ts] rl False l al fd nd show ?thesis
        by (cases ok) (auto simp: quiet_def read_file_limited_def f)
    next
      case (Inr t)
      then obtain k where k: "k \<le> n" "t = take k body" "Moved 0 \<notin> set (dk_transfers d) \<longrightarrow> t = take n body"
        using read_loop_spec [OF rl [unfolded Inr]] fd by auto
      then have "read_of d n (Some nd) (Some t)" unfolding read_of_def nd by blast
      with rl Inr False l al fd nd show ?thesis
        by (cases ok) (auto simp: quiet_def read_file_limited_def f string_blocks_def)
    qed
  qed
qed

lemma read_leaf_quiet: "quiet d a (read_of d n (dk_entries d dir leaf)) (read_leaf n dir leaf d a)"
proof -
  obtain b d1 where f: "fault d = (b, d1)" by (cases "fault d")
  note fd = fault_disk [OF f]
  have q: "quiet d a (read_of d n (Some nd)) x" if "quiet d1 a (read_of d1 n (Some nd)) x" for nd x
  proof -
    have "read_of d1 = read_of d" using fd by (simp add: read_of_def fun_eq_iff)
    with that fd show ?thesis by (simp add: quiet_def)
  qed
  show ?thesis
  proof (cases "dk_entries d dir leaf")
    case None
    with fd show ?thesis by (simp add: quiet_def read_leaf_def f)
  next
    case (Some nd)
    show ?thesis
    proof (cases "nd = Symbolic_link \<or> b")
      case True
      with Some fd show ?thesis by (auto simp: quiet_def read_leaf_def f)
    next
      case False
      with Some fd q [OF read_file_quiet] show ?thesis by (simp add: read_leaf_def f)
    qed
  qed
qed

text \<open>A step that keeps the chain and closes what it opens; \<open>B\<close> counts the blocks of what it delivers.\<close>

definition balanced_step :: "disk \<Rightarrow> sc_allocator \<Rightarrow> ('r \<Rightarrow> int) \<Rightarrow> 'r res \<times> disk \<times> sc_allocator \<Rightarrow> bool" where
  "balanced_step d a B x \<longleftrightarrow> (case x of (r, d', a') \<Rightarrow>
     dk_chain d' = dk_chain d \<and> dk_fds d' = dk_fds d \<and>
     (case r of Inl e \<Rightarrow> live a' = live a \<and> \<not> sc_status_is_ok e | Inr s \<Rightarrow> live a' = live a + B s))"

lemma quiet_balanced: "quiet d a Q x \<Longrightarrow> balanced_step d a string_blocks x"
  by (auto simp: quiet_def balanced_step_def split: sum.splits)

lemma open_segments_fails: "open_segments f fd bs n = (Inl e, n') \<Longrightarrow> \<not> sc_status_is_ok e"
proof (induction f fd bs n rule: open_segments.induct)
  case (2 f fd c cs n)
  let ?seg = "takeWhile (\<lambda>x. x \<noteq> CHR ''/'') (c # cs)"
  show ?case
  proof (cases "length ?seg = 0 \<or> length ?seg > 255")
    case True
    with 2(2) show ?thesis by (auto simp: Let_def split: if_splits)
  next
    case False
    show ?thesis
    proof (cases "openat_dir f fd (takeWhile (\<lambda>x. x \<noteq> CHR 0x00) ?seg)")
      case (Inl err)
      with 2(2) False show ?thesis by (cases err) (auto simp: Let_def split: if_splits)
    next
      case (Inr fd')
      from 2(2) False Inr have "open_segments f fd' (drop (length ?seg + 1) (c # cs)) n = (Inl e, n')"
        unfolding open_segments.simps(2) Let_def by (simp only: if_False sum.case)
      from 2(1) [OF refl False Inr this] show ?thesis .
    qed
  qed
qed simp

lemma open_parent_out:
  assumes "sc_workspace_open_parent f p pth a n = (r, a', n')"
  shows "(\<forall>e. r = Inl e \<longrightarrow> \<not> sc_status_is_ok e) \<and> (\<forall>fd leaf. r = Inr (fd, leaf) \<longrightarrow> string_blocks leaf = 1)"
proof -
  obtain st a0 where v: "sc_security_validate_path f p pth False a = (st, a0)" by (cases "sc_security_validate_path f p pth False a")
  obtain r1 a1 where res: "sc_workspace_resolve f p pth False a0 = (r1, a1)" by (cases "sc_workspace_resolve f p pth False a0")
  have canon: "\<not> sc_status_is_ok e" if "canonicalize_existing f q b = (Inl e, b')" for q b e b'
    using canonicalize_existing_spec(1) [OF that] by blast
  have cstr: "\<not> sc_status_is_ok e" if "sc_string_from_cstr t b = (Inl e, b')" for t b e b'
    using that by (auto simp: sc_string_from_cstr_def dest: string_from_str_Inl)
  have leaf: "string_blocks s = 1" if "sc_string_from_str t b = (Inr s, b')" for s t b b'
    using string_from_str_Inr [OF that] by (auto simp: string_blocks_def)
  show ?thesis
    using assms v res workspace_resolve_live [OF res]
    unfolding sc_workspace_open_parent_def
    by (auto simp: Let_def split: if_splits sum.splits option.splits prod.splits
        dest: string_from_str_Inl open_segments_fails canon cstr leaf)
qed

lemma in_parent_balanced:
  assumes "\<And>dir leaf d a. balanced_step d a B (act dir leaf d a)"
  shows "balanced_step d a B (in_parent en policy pth act d a)"
proof (cases policy)
  case (Some p)
  obtain r a1 n where o: "sc_workspace_open_parent (env_fs en) p pth a (dk_fds d) = (r, a1, n)"
    by (cases "sc_workspace_open_parent (env_fs en) p pth a (dk_fds d)")
  note os = open_parent_spec [OF o]
  show ?thesis
  proof (cases r)
    case (Inl e)
    with Some o os open_parent_out [OF o] show ?thesis by (auto simp: in_parent_def balanced_step_def)
  next
    case (Inr x)
    obtain dir leaf where x: "x = (dir, leaf)" by (cases x)
    obtain r2 d2 a2 where act: "act dir (owned_text leaf) (d\<lparr>dk_fds := n\<rparr>) a1 = (r2, d2, a2)"
      by (cases "act dir (owned_text leaf) (d\<lparr>dk_fds := n\<rparr>) a1")
    have "string_blocks leaf = 1" using open_parent_out [OF o] Inr x by blast
    with assms [of "d\<lparr>dk_fds := n\<rparr>" a1 dir "owned_text leaf"] act Some o os Inr x show ?thesis
      by (auto simp: in_parent_def balanced_step_def split: sum.splits)
  qed
qed (simp add: in_parent_def balanced_step_def)

lemma write_all_at_disk:
  assumes "write_all_at dir leaf content appending d = (st, d')"
  shows "changed_only dir {str_bytes leaf} d d'"
proof -
  obtain b d1 where f: "fault d = (b, d1)" by (cases "fault d")
  note c1 = changed_fault [OF f, of dir "{str_bytes leaf}"]
  define start where "start = (case dk_entries d1 dir (str_bytes leaf) of Some (Regular t) \<Rightarrow> (if appending then t else []) | _ \<Rightarrow> [])"
  define d2 where "d2 = (if dk_entries d1 dir (str_bytes leaf) = Some Special then d1 else set_entry dir (str_bytes leaf) (Some (Regular start)) d1)"
  have c2: "changed_only dir {str_bytes leaf} d1 d2" by (simp add: d2_def changed_refl changed_set)
  obtain b3 d3 where f3: "fault d2 = (b3, d3)" by (cases "fault d2")
  have c3: "changed_only dir {str_bytes leaf} d d3"
    using changed_trans [OF changed_trans [OF c1 c2] changed_fault [OF f3, of dir "{str_bytes leaf}"]] by blast
  have "d' = d \<or> d' = d1 \<or> d' = d3 \<or> write_and_close dir (str_bytes leaf) start (str_bytes content) d3 = (st, d')"
    using assms unfolding write_all_at_def f prod.case Let_def start_def [symmetric] d2_def [symmetric] f3
    by (simp split: if_splits)
  then show ?thesis
    using changed_refl c1 c3 changed_trans [OF c3 write_and_close_spec(1)] by (elim disjE) auto
qed

lemma write_leaf_balanced: "balanced_step d a (\<lambda>_. 0) (write_leaf en mode content dir leaf d a)"
proof -
  let ?x = "if sc_str_equal mode (Str ''append'')
            then (case write_all_at dir (Str leaf) content True d of (st, d1) \<Rightarrow> (st, d1, a))
            else if sc_str_equal mode (Str ''create'') then write_atomic_at en dir (Str leaf) content True d a
            else if sc_str_equal mode (Str ''overwrite'') then write_atomic_at en dir (Str leaf) content False d a
            else (sc_status_invalid_argument ''sc.file_write.invalid_mode'', d, a)"
  obtain st d1 a1 where x: "?x = (st, d1, a1)" by (cases ?x)
  have "live a1 = live a \<and> dk_chain d1 = dk_chain d \<and> dk_fds d1 = dk_fds d"
    using x write_all_at_disk [of dir "Str leaf" content True d]
      write_atomic_spec(1,2) [of en dir leaf content _ d a st d1 a1]
    by (auto simp: changed_only_def split: if_splits prod.splits)
  then show ?thesis unfolding write_leaf_def x by (simp add: balanced_step_def)
qed

lemma path_checks_live: "path_checks en ic name d call a = (st, pth, a') \<Longrightarrow> live a' = live a"
  by (auto simp: path_checks_def Let_def split: if_splits prod.splits dest: security_check_live)

lemma write_checks_live: "write_checks en ic d call a = (st, pth, content, mode, a') \<Longrightarrow> live a' = live a"
  by (auto simp: write_checks_def Let_def split: if_splits prod.splits dest: security_check_spec(1))

lemma time_checks_live: "time_checks en ic d call a = (st, tz, a') \<Longrightarrow> live a' = live a"
  by (auto simp: time_checks_def Let_def split: if_splits prod.splits dest: security_check_live)

text \<open>The end of an invocation: after an error, or with the output and the receipt.\<close>

definition disk_held :: "disk \<Rightarrow> int" where
  "disk_held d = chain_held (dk_chain d)"

definition disk_good :: "disk \<Rightarrow> bool" where
  "disk_good d \<longleftrightarrow> chain_ok (dk_chain d)"

lemma finish_error:
  assumes "(case with_receipt en ic name args outp e d1 a1 of (st', d2, a2) \<Rightarrow> (st', tool_result_zero, g a2, d2)) = (st, out, a', d')"
    and "disk_good d" "dk_chain d1 = dk_chain d" "\<And>b. live (g b) = live b - k"
  shows "disk_good d' \<and> live a' - disk_held d' = live a1 - k - disk_held d + result_blocks out \<and> dk_fds d' = dk_fds d1"
proof -
  obtain st' d2 a2 where w: "with_receipt en ic name args outp e d1 a1 = (st', d2, a2)" by (cases "with_receipt en ic name args outp e d1 a1")
  from assms(1) w have "out = tool_result_zero" "a' = g a2" "d' = d2" by auto
  with with_receipt_spec [OF w] assms(2-) show ?thesis by (simp add: disk_good_def disk_held_def)
qed

lemma finish_output:
  assumes "(case sc_tool_set_output context output True a1 of (st1, out1, a2) \<Rightarrow>
      (case with_receipt en ic name args (summ out1) st1 d1 (h a2) of (st', d2, a3) \<Rightarrow> (st', out1, g a3, d2))) = (st, out, a', d')"
    and "disk_good d" "dk_chain d1 = dk_chain d" "\<And>b. live (h b) = live b - m" "\<And>b. live (g b) = live b - k"
  shows "disk_good d' \<and> live a' - disk_held d' = live a1 - m - k - disk_held d + result_blocks out \<and> dk_fds d' = dk_fds d1"
proof -
  obtain st1 out1 a2 where o: "sc_tool_set_output context output True a1 = (st1, out1, a2)" by (cases "sc_tool_set_output context output True a1")
  obtain st' d2 a3 where w: "with_receipt en ic name args (summ out1) st1 d1 (h a2) = (st', d2, a3)"
    by (cases "with_receipt en ic name args (summ out1) st1 d1 (h a2)")
  from assms o w have "out = out1" "a' = g a3" "d' = d2" by auto
  with set_output_spec [OF o] with_receipt_spec [OF w] assms(2-) show ?thesis by (simp add: disk_good_def disk_held_def)
qed

lemma time_contract: "tool_contract (time_invoke en ic) disk_held disk_good"
proof -
  have "disk_good d' \<and> live a' - disk_held d' = live a - disk_held d + result_blocks out"
    if run: "time_invoke en ic d call tool_result_zero a = (st, out, a', d')" "disk_good d" for d call a st out a' d'
  proof -
    obtain st0 tz a1 where c: "time_checks en ic d call a = (st0, tz, a1)" by (cases "time_checks en ic d call a")
    define r where "r = (if \<not> sc_status_is_ok st0 then Inl st0
                    else (case env_gmtime en of
                            None \<Rightarrow> Inl (sc_status_io ''sc.time_tool.clock_failed'')
                          | Some t \<Rightarrow>
                              (if length (time_text t (str_bytes tz)) \<ge> 128
                               then Inl (sc_status_invalid_argument ''sc.time_tool.output_too_large'')
                               else Inr (time_text t (str_bytes tz)))))"
    note law = run(1) [unfolded time_invoke_def c prod.case r_def [symmetric] Let_def]
    show ?thesis
    proof (cases r)
      case (Inl e)
      from finish_error [where g = "\<lambda>b. b" and k = 0, OF law [unfolded Inl sum.case] run(2) refl] time_checks_live [OF c] show ?thesis by simp
    next
      case (Inr t)
      from finish_output [where g = "\<lambda>b. b" and h = "\<lambda>b. b" and k = 0 and m = 0, OF law [unfolded Inr sum.case] run(2) refl]
        time_checks_live [OF c] show ?thesis by simp
    qed
  qed
  then show ?thesis by unfold_locales blast+
qed

lemma file_read_balanced:
  assumes run: "file_read_invoke en ic d call tool_result_zero a = (st, out, a', d')" "disk_good d"
  shows "disk_good d' \<and> live a' - disk_held d' = live a - disk_held d + result_blocks out \<and> dk_fds d' = dk_fds d"
proof -
  obtain st0 pth a1 where c: "path_checks en ic ''file_read'' d call a = (st0, pth, a1)" by (cases "path_checks en ic ''file_read'' d call a")
  define x where "x = (if \<not> sc_status_is_ok st0 then (Inl st0, d, a1)
    else in_parent en (cx_policy (ic_context ic)) pth (read_leaf (max_output (Some ic))) d a1)"
  obtain r d1 a2 where r: "x = (r, d1, a2)" by (cases x)
  have b: "balanced_step d a1 string_blocks x"
  proof (cases "sc_status_is_ok st0")
    case True
    then show ?thesis unfolding x_def by (simp add: in_parent_balanced [OF quiet_balanced [OF read_leaf_quiet]])
  qed (simp add: x_def balanced_step_def)
  note law = run(1) [unfolded file_read_invoke_def c prod.case x_def [symmetric] r]
  show ?thesis
  proof (cases r)
    case (Inl e)
    with b r have s: "dk_chain d1 = dk_chain d" "dk_fds d1 = dk_fds d" "live a2 = live a1" by (auto simp: balanced_step_def)
    from finish_error [where g = "\<lambda>b. b" and k = 0, OF law [unfolded Inl sum.case] run(2) s(1)] s path_checks_live [OF c] show ?thesis by simp
  next
    case (Inr t)
    with b r have s: "dk_chain d1 = dk_chain d" "dk_fds d1 = dk_fds d" "live a2 = live a1 + string_blocks t" by (auto simp: balanced_step_def)
    from finish_output [where g = "sc_string_clear t" and h = "\<lambda>b. b" and k = "string_blocks t" and m = 0,
        OF law [unfolded Inr sum.case] run(2) s(1)] s path_checks_live [OF c] show ?thesis by simp
  qed
qed

lemma file_write_balanced:
  assumes run: "invoke_file_write en ic d call tool_result_zero a = (st, out, a', d')" "disk_good d"
  shows "disk_good d' \<and> live a' - disk_held d' = live a - disk_held d + result_blocks out \<and> dk_fds d' = dk_fds d"
proof -
  obtain st0 pth content mode a1 where c: "write_checks en ic d call a = (st0, pth, content, mode, a1)" by (cases "write_checks en ic d call a")
  define x where "x = (if \<not> sc_status_is_ok st0 then (Inl st0, d, a1)
    else in_parent en (cx_policy (ic_context ic)) pth (write_leaf en mode content) d a1)"
  obtain r d1 a2 where r: "x = (r, d1, a2)" by (cases x)
  have b: "balanced_step d a1 (\<lambda>_. 0) x"
  proof (cases "sc_status_is_ok st0")
    case True
    then show ?thesis unfolding x_def by (simp add: in_parent_balanced [OF write_leaf_balanced])
  qed (simp add: x_def balanced_step_def)
  note law = run(1) [unfolded invoke_file_write_def c prod.case x_def [symmetric] r]
  show ?thesis
  proof (cases r)
    case (Inl e)
    with b r have s: "dk_chain d1 = dk_chain d" "dk_fds d1 = dk_fds d" "live a2 = live a1" by (auto simp: balanced_step_def)
    from finish_error [where g = "\<lambda>b. b" and k = 0, OF law [unfolded Inl sum.case] run(2) s(1)] s write_checks_live [OF c] show ?thesis by simp
  next
    case (Inr t)
    with b r have s: "dk_chain d1 = dk_chain d" "dk_fds d1 = dk_fds d" "live a2 = live a1" by (auto simp: balanced_step_def)
    from finish_output [where summ = "\<lambda>_. Str ''written''" and g = "\<lambda>b. b" and h = "\<lambda>b. b" and k = 0 and m = 0,
        OF law [unfolded Inr sum.case] run(2) s(1)] s write_checks_live [OF c] show ?thesis by simp
  qed
qed

lemma list_entries_spec:
  assumes "list_entries pat es b a = (st, b', a')" "bytes_inv b"
  shows "bytes_inv b' \<and> live a' - bytes_blocks b' = live a - bytes_blocks b"
  using assms
proof (induction es arbitrary: b a)
  case (Cons e es)
  show ?case
  proof (cases "e = ''.'' \<or> e = ''..'' \<or> \<not> name_matches (Str e) pat")
    case True
    with Cons show ?thesis by simp
  next
    case False
    obtain s1 b1 a1 where ap: "builder_appends [Str e, Str [CHR 0x0A]] b a = (s1, b1, a1)" by (cases "builder_appends [Str e, Str [CHR 0x0A]] b a")
    have one: "bytes_inv b1" "live a1 - bytes_blocks b1 = live a - bytes_blocks b"
      using builder_appends_spec [OF ap Cons.prems(2)] by auto
    show ?thesis
    proof (cases "sc_status_is_ok s1")
      case True
      with Cons.prems(1) False ap have "list_entries pat es b1 a1 = (st, b', a')" by (simp del: builder_appends.simps)
      from Cons.IH [OF this one(1)] one show ?thesis by simp
    next
      case fail: False
      with Cons.prems(1) False ap one show ?thesis by (auto simp del: builder_appends.simps)
    qed
  qed
qed simp

lemma list_directory_balanced: "balanced_step d a string_blocks (list_directory pat dir d a)"
proof (cases "dk_listing d dir")
  case (Some es)
  obtain st b a1 where l: "list_entries pat es sc_string_builder_init a = (st, b, a1)" by (cases "list_entries pat es sc_string_builder_init a")
  obtain bad d1 where f: "fault d = (bad, d1)" by (cases "fault d")
  have init: "bytes_inv sc_string_builder_init" "bytes_blocks sc_string_builder_init = 0"
    by (simp_all add: sc_string_builder_init_def) (simp add: bytes_blocks_def sc_bytes_init_def bytes_zero_def)
  have "bytes_inv b" "live a1 = live a + bytes_blocks b" using list_entries_spec [OF l init(1)] init(2) by simp_all
  then show ?thesis
    using fault_disk [OF f] Some l f
    by (auto simp: list_directory_def balanced_step_def Let_def sc_string_builder_finish_def sc_string_builder_clear_def
        sc_bytes_clear_def bytes_blocks_def string_blocks_def)
qed (simp add: list_directory_def balanced_step_def)

lemma file_list_balanced:
  assumes run: "invoke_file_list en ic d call tool_result_zero a = (st, out, a', d')" "disk_good d"
  shows "disk_good d' \<and> live a' - disk_held d' = live a - disk_held d + result_blocks out \<and> dk_fds d' = dk_fds d"
proof -
  define pat where "pat = snd (sc_tool_get_optional_string_arg (Some call) (Str ''pattern'') (NullStr 0))"
  obtain st0 pth a1 where c: "path_checks en ic ''file_list'' d call a = (st0, pth, a1)" by (cases "path_checks en ic ''file_list'' d call a")
  define x where "x = (if \<not> sc_status_is_ok st0 then (Inl st0, a1)
                  else (case cx_policy (ic_context ic) of
                          None \<Rightarrow> (Inl (sc_status_invalid_argument ''sc.security.path_invalid_argument''), a1)
                        | Some p \<Rightarrow> sc_workspace_resolve (env_fs en) p pth True a1))"
  obtain r a2 where r: "x = (r, a2)" by (cases x)
  have rl: "r = Inl e \<Longrightarrow> live a2 = live a1" "r = Inr s \<Longrightarrow> live a2 = live a1 + string_blocks s" for e s
    using r workspace_resolve_live [of "env_fs en" _ pth True a1 r a2]
    by (auto simp: x_def string_blocks_def split: if_splits option.splits)
  note law = run(1) [unfolded invoke_file_list_def c prod.case x_def [symmetric] r Let_def pat_def [symmetric]]
  note l1 = path_checks_live [OF c]
  show ?thesis
  proof (cases r)
    case (Inl e)
    from finish_error [where g = "\<lambda>b. b" and k = 0, OF law [unfolded Inl sum.case] run(2) refl] rl(1) [OF Inl] l1 show ?thesis by simp
  next
    case (Inr resolved)
    obtain r3 d1 a3 where l: "list_directory pat (owned_text resolved) d a2 = (r3, d1, a3)" by (cases "list_directory pat (owned_text resolved) d a2")
    have b: "balanced_step d a2 string_blocks (r3, d1, a3)" using list_directory_balanced [of d a2 pat "owned_text resolved"] l by simp
    note law2 = law [unfolded Inr sum.case l prod.case]
    show ?thesis
    proof (cases r3)
      case Inl3: (Inl e)
      with b have s: "dk_chain d1 = dk_chain d" "dk_fds d1 = dk_fds d" "live a3 = live a2" by (auto simp: balanced_step_def)
      from finish_error [where g = "sc_string_clear resolved" and k = "string_blocks resolved", OF law2 [unfolded Inl3 sum.case] run(2) s(1)]
        s rl(2) [OF Inr] l1 show ?thesis by simp
    next
      case Inr3: (Inr lst)
      with b have s: "dk_chain d1 = dk_chain d" "dk_fds d1 = dk_fds d" "live a3 = live a2 + string_blocks lst" by (auto simp: balanced_step_def)
      from finish_output [where g = "sc_string_clear resolved" and h = "sc_string_clear lst" and k = "string_blocks resolved" and m = "string_blocks lst",
          OF law2 [unfolded Inr3 sum.case] run(2) s(1)] s rl(2) [OF Inr] l1 show ?thesis by simp
    qed
  qed
qed

interpretation time_tool: tool_contract "time_invoke en ic" disk_held disk_good for en ic
  by (rule time_contract)

interpretation file_read: tool_contract "file_read_invoke en ic" disk_held disk_good for en ic
  by unfold_locales (use file_read_balanced in blast)+

interpretation file_tools: tool_contract "file_tool_invoke en kind ic" disk_held disk_good for en kind ic
  by unfold_locales
    (cases kind; auto simp: file_tool_invoke_def dest: file_write_balanced file_list_balanced)+

text \<open>A wrapped file tool, for a clock that only reads.\<close>

interpretation limited_read: wrapped_tool "file_read_vtab en ic" disk_held disk_good "\<lambda>d. (dk_wall d, d)" for en ic
proof -
  have "tool_contract (sc_tool_invoke (Some (file_read_vtab en ic))) disk_held disk_good"
    by (rule contract_invoke) (auto simp: file_read_vtab_def tool_vtab_def intro: file_read.tool_contract_axioms)
  then show "wrapped_tool (file_read_vtab en ic) disk_held disk_good (\<lambda>d. (dk_wall d, d))"
    by (simp add: wrapped_tool_def wrapped_tool_axioms_def)
qed

section \<open>What a successful invocation did\<close>

text \<open>What the security check of a tool has established about a request.\<close>

definition authorised :: "env \<Rightarrow> 'd sc_tool_impl_context \<Rightarrow> sc_str \<Rightarrow> sc_security_tool_request \<Rightarrow> bool" where
  "authorised en ic override req \<longleftrightarrow> (\<exists>p. cx_policy (ic_context ic) = Some p \<and> sc_status_is_ok (sc_estop_check (cx_estop (ic_context ic))) \<and>
     sc_status_is_ok (sc_security_validate_tool p (tool_name req)) \<and> sc_status_is_ok (risk_check p req) \<and>
     (0 < str_len (path_arg req) \<longrightarrow> path_promise (env_fs en) p (path_arg req) (path_must_exist req)) \<and>
     sc_status_is_ok (validate_otp_policy p req) \<and>
     (request_requires_approval p req \<longrightarrow> sc_str_equal override (tool_name req)))"

lemma security_check_authorised:
  assumes "sc_tool_security_check_ex (env_fs en) override (Some ic) req a = (st, a')" "sc_status_is_ok st"
  shows "authorised en ic override req"
proof -
  obtain p approval b where p: "cx_policy (ic_context ic) = Some p"
    "sc_security_validate_request (env_fs en) p (cx_estop (ic_context ic)) req a = (sc_status_ok, approval, b)"
    "approval \<longrightarrow> sc_str_equal override (tool_name req)"
    using security_check_spec(2) [OF assms] by auto
  from validate_request_ok [OF p(2) is_ok_ok] p(1,3) show ?thesis
    unfolding authorised_def by (intro exI [of _ p]) simp
qed

lemma string_arg_ok: "sc_tool_get_string_arg call name out = (st, v) \<Longrightarrow> sc_status_is_ok st \<Longrightarrow> \<not> ptr_null v \<and> 0 < str_len v"
  by (auto simp: sc_tool_get_string_arg_def Let_def split: if_splits option.splits)

definition write_request :: "sc_str \<Rightarrow> sc_str \<Rightarrow> sc_security_tool_request" where
  "write_request pth otp = \<lparr>tool_name = Str ''file_write'', risk = SC_TOOL_RISK_SIDE_EFFECT, path_arg = pth, path_must_exist = False,
     url_arg = Str [], shell_arg = Str [], device_arg = Str [], req_otp_code = otp\<rparr>"

definition read_request :: "sc_str \<Rightarrow> sc_security_tool_request" where
  "read_request pth = \<lparr>tool_name = Str ''file_read'', risk = SC_TOOL_RISK_READONLY, path_arg = pth, path_must_exist = True,
     url_arg = Str [], shell_arg = Str [], device_arg = Str [], req_otp_code = Str []\<rparr>"

lemma write_checks_ok:
  assumes "write_checks en ic d call a = (st, pth, content, mode, a')" "sc_status_is_ok st"
  shows "0 < str_len pth \<and> (\<exists>otp. authorised en ic (dk_override d) (write_request pth otp))"
proof -
  obtain st1 p1 c1 m1 otp where w: "write_args call = (st1, p1, c1, m1, otp)" by (cases "write_args call")
  obtain st2 a2 where s: "sc_tool_security_check_ex (env_fs en) (dk_override d) (Some ic) (write_request p1 otp) a = (st2, a2)"
    by (cases "sc_tool_security_check_ex (env_fs en) (dk_override d) (Some ic) (write_request p1 otp) a")
  have out: "sc_status_is_ok st1" "sc_status_is_ok st2" "pth = p1"
    using assms w s by (auto simp: write_checks_def Let_def write_request_def split: if_splits)
  have "0 < str_len p1" using w out(1) string_arg_ok [of "Some call" "Str ''path''" "NullStr 0"]
    by (auto simp: write_args_def Let_def split: prod.splits if_splits)
  with security_check_authorised [OF s out(2)] out(3) show ?thesis by blast
qed

lemma path_checks_ok:
  assumes "path_checks en ic ''file_read'' d call a = (st, pth, a')" "sc_status_is_ok st"
  shows "0 < str_len pth \<and> authorised en ic (dk_override d) (read_request pth)"
proof -
  obtain st1 p1 where w: "sc_tool_get_string_arg (Some call) (Str ''path'') (NullStr 0) = (st1, p1)"
    by (cases "sc_tool_get_string_arg (Some call) (Str ''path'') (NullStr 0)")
  obtain st2 a2 where s: "sc_tool_security_check_ex (env_fs en) (dk_override d) (Some ic) (read_request p1) a = (st2, a2)"
    by (cases "sc_tool_security_check_ex (env_fs en) (dk_override d) (Some ic) (read_request p1) a")
  have out: "sc_status_is_ok st1" "sc_status_is_ok st2" "pth = p1"
    using assms w s by (auto simp: path_checks_def Let_def read_request_def sc_tool_security_check_def split: if_splits)
  with string_arg_ok [OF w] security_check_authorised [OF s out(2)] show ?thesis by simp
qed

text \<open>The parent directory and the name a path leads to.\<close>

definition opens :: "env \<Rightarrow> 'd sc_tool_impl_context \<Rightarrow> sc_str \<Rightarrow> nat \<Rightarrow> string \<Rightarrow> bool" where
  "opens en ic pth dir leaf \<longleftrightarrow> (\<exists>p a a' n n'. cx_policy (ic_context ic) = Some p \<and>
     sc_workspace_open_parent (env_fs en) p pth a n = (Inr (dir, Some leaf), a', n'))"

lemma in_parent_act:
  assumes "in_parent en (cx_policy (ic_context ic)) pth act d a = (r, d', a')"
  obtains (none) e where "r = Inl e" "dk_entries d' = dk_entries d"
  | (at) dir leaf n a1 d2 a2 where "opens en ic pth dir leaf" "act dir leaf (d\<lparr>dk_fds := n\<rparr>) a1 = (r, d2, a2)" "dk_entries d' = dk_entries d2"
proof (cases "cx_policy (ic_context ic)")
  case None
  with assms none show thesis by (auto simp: in_parent_def)
next
  case (Some p)
  obtain x a1 n where o: "sc_workspace_open_parent (env_fs en) p pth a (dk_fds d) = (x, a1, n)"
    by (cases "sc_workspace_open_parent (env_fs en) p pth a (dk_fds d)")
  show thesis
  proof (cases x)
    case (Inl e)
    with assms Some o none show thesis by (auto simp: in_parent_def)
  next
    case (Inr y)
    obtain dir l where y: "y = (dir, l)" by (cases y)
    then have "string_blocks l = 1" using open_parent_out [OF o] Inr by blast
    then obtain leaf where l: "l = Some leaf" by (cases l) (auto simp: string_blocks_def)
    obtain r2 d2 a2 where act: "act dir leaf (d\<lparr>dk_fds := n\<rparr>) a1 = (r2, d2, a2)" by (cases "act dir leaf (d\<lparr>dk_fds := n\<rparr>) a1")
    have "opens en ic pth dir leaf" using Some o Inr y l unfolding opens_def by blast
    with assms Some o Inr y l act at show thesis by (auto simp: in_parent_def)
  qed
qed

lemma write_leaf_changes:
  assumes "write_leaf en mode content dir leaf d a = (r, d', a')"
  shows "changed_only dir {temp_name (env_pid en) leaf, leaf} d d'"
    and "r = Inl e \<Longrightarrow> \<not> sc_str_equal mode (Str ''append'') \<Longrightarrow> dk_entries d' dir leaf = dk_entries d dir leaf"
    and "r = Inr u \<Longrightarrow> \<not> sc_str_equal mode (Str ''append'') \<Longrightarrow> dk_entries d' dir leaf = Some (Regular (str_bytes content))"
    and "r = Inr u \<Longrightarrow> sc_str_equal mode (Str ''create'') \<Longrightarrow> \<not> sc_str_equal mode (Str ''append'') \<Longrightarrow> dk_entries d dir leaf = None"
proof -
  let ?t = "temp_name (env_pid en) leaf"
  consider (appended) st where "sc_str_equal mode (Str ''append'')" "write_all_at dir (Str leaf) content True d = (st, d')"
    | (atomic) st b where "\<not> sc_str_equal mode (Str ''append'')" "write_atomic_at en dir (Str leaf) content b d a = (st, d', a')"
        "r = (if sc_status_is_ok st then Inr () else Inl st)" "sc_str_equal mode (Str ''create'') \<longrightarrow> b"
    | (bad) e where "\<not> sc_str_equal mode (Str ''append'')" "d' = d" "r = Inl e"
    using assms by (auto simp: write_leaf_def split: if_splits prod.splits)
  then have "changed_only dir {?t, leaf} d d' \<and> (\<not> sc_str_equal mode (Str ''append'') \<longrightarrow>
      (\<forall>e. r = Inl e \<longrightarrow> dk_entries d' dir leaf = dk_entries d dir leaf) \<and>
      (\<forall>u. r = Inr u \<longrightarrow> dk_entries d' dir leaf = Some (Regular (str_bytes content)) \<and>
        (sc_str_equal mode (Str ''create'') \<longrightarrow> dk_entries d dir leaf = None)))"
  proof cases
    case (appended st)
    with changed_trans [OF changed_refl write_all_at_disk [OF appended(2)], of "{}" "{?t, leaf}"] show ?thesis by simp
  next
    case (atomic st b)
    note sp = write_atomic_spec [OF atomic(2)]
    with atomic show ?thesis by (cases "sc_status_is_ok st") simp_all
  qed (simp add: changed_refl)
  then show "changed_only dir {?t, leaf} d d'"
    and "r = Inl e \<Longrightarrow> \<not> sc_str_equal mode (Str ''append'') \<Longrightarrow> dk_entries d' dir leaf = dk_entries d dir leaf"
    and "r = Inr u \<Longrightarrow> \<not> sc_str_equal mode (Str ''append'') \<Longrightarrow> dk_entries d' dir leaf = Some (Regular (str_bytes content))"
    and "r = Inr u \<Longrightarrow> sc_str_equal mode (Str ''create'') \<Longrightarrow> \<not> sc_str_equal mode (Str ''append'') \<Longrightarrow> dk_entries d dir leaf = None"
    by blast+
qed

text \<open>
  A write that changed anything was authorised, and changed only the file its path leads to and the temporary name
  beside it.
\<close>

lemma file_write_effect:
  assumes run: "invoke_file_write en ic d call tool_result_zero a = (st, out, a', d')" "disk_good d"
  shows "dk_entries d' = dk_entries d \<or>
    (\<exists>pth otp dir leaf. authorised en ic (dk_override d) (write_request pth otp) \<and> 0 < str_len pth \<and> opens en ic pth dir leaf \<and>
       (\<forall>dir' name. dir' \<noteq> dir \<or> name \<notin> {temp_name (env_pid en) leaf, leaf} \<longrightarrow> dk_entries d' dir' name = dk_entries d dir' name))"
proof -
  obtain st0 pth content mode a1 where c: "write_checks en ic d call a = (st0, pth, content, mode, a1)" by (cases "write_checks en ic d call a")
  define x where "x = (if \<not> sc_status_is_ok st0 then (Inl st0, d, a1)
    else in_parent en (cx_policy (ic_context ic)) pth (write_leaf en mode content) d a1)"
  obtain r d1 a2 where r: "x = (r, d1, a2)" by (cases x)
  have b: "dk_chain d1 = dk_chain d"
  proof (cases "sc_status_is_ok st0")
    case True
    have "balanced_step d a1 (\<lambda>_. 0) x" unfolding x_def using True by (simp add: in_parent_balanced [OF write_leaf_balanced])
    then show ?thesis by (simp add: r balanced_step_def)
  qed (use r in \<open>simp add: x_def\<close>)
  have ok: "chain_ok (dk_chain d1)" using run(2) b by (simp add: disk_good_def)
  note law = run(1) [unfolded invoke_file_write_def c prod.case x_def [symmetric] r]
  have e: "dk_entries d' = dk_entries d1"
  proof (cases r)
    case (Inl e)
    obtain s d2 a3 where w: "with_receipt en ic (Str ''file_write'') pth (Str ''error'') e d1 a2 = (s, d2, a3)"
      by (cases "with_receipt en ic (Str ''file_write'') pth (Str ''error'') e d1 a2")
    with law Inl have "d' = d2" by simp
    with with_receipt_spec [OF w ok] show ?thesis by simp
  next
    case (Inr u)
    obtain s1 o1 a3 where o: "sc_tool_set_output (Some ic) (Str ''written'') True a2 = (s1, o1, a3)"
      by (cases "sc_tool_set_output (Some ic) (Str ''written'') True a2")
    obtain s d2 a4 where w: "with_receipt en ic (Str ''file_write'') pth (Str ''written'') s1 d1 a3 = (s, d2, a4)"
      by (cases "with_receipt en ic (Str ''file_write'') pth (Str ''written'') s1 d1 a3")
    with law Inr o have "d' = d2" by simp
    with with_receipt_spec [OF w ok] show ?thesis by simp
  qed
  show ?thesis
  proof (cases "sc_status_is_ok st0")
    case True
    then have "in_parent en (cx_policy (ic_context ic)) pth (write_leaf en mode content) d a1 = (r, d1, a2)" using r by (simp add: x_def)
    then show ?thesis
    proof (cases rule: in_parent_act)
      case (at dir leaf n a3 d2 a4)
      obtain otp where otp: "0 < str_len pth" "authorised en ic (dk_override d) (write_request pth otp)"
        using write_checks_ok [OF c True] by blast
      have "\<forall>dir' name. dir' \<noteq> dir \<or> name \<notin> {temp_name (env_pid en) leaf, leaf} \<longrightarrow> dk_entries d' dir' name = dk_entries d dir' name"
        using write_leaf_changes(1) [OF at(2)] at(3) e by (simp add: changed_only_def)
      with otp at(1) show ?thesis by blast
    qed (simp add: e)
  qed (use r e in \<open>simp add: x_def\<close>)
qed

text \<open>
  A successful read delivers a beginning of the regular file its path leads to, at most as long as the output may be,
  and nothing on the disk has changed.
\<close>

lemma file_read_effect:
  assumes run: "file_read_invoke en ic d call tool_result_zero a = (st, out, a', d')" "disk_good d"
  shows "dk_entries d' = dk_entries d"
    and "sc_status_is_ok st \<Longrightarrow> \<exists>pth dir leaf body k. authorised en ic (dk_override d) (read_request pth) \<and> 0 < str_len pth \<and>
      opens en ic pth dir leaf \<and> dk_entries d dir leaf = Some (Regular body) \<and> k \<le> max_output (Some ic) \<and> tr_output out = Some (take k body) \<and>
      (Moved 0 \<notin> set (dk_transfers d) \<longrightarrow> take k body = take (max_output (Some ic)) body)"
proof -
  obtain st0 pth a1 where c: "path_checks en ic ''file_read'' d call a = (st0, pth, a1)" by (cases "path_checks en ic ''file_read'' d call a")
  define x where "x = (if \<not> sc_status_is_ok st0 then (Inl st0, d, a1)
    else in_parent en (cx_policy (ic_context ic)) pth (read_leaf (max_output (Some ic))) d a1)"
  obtain r d1 a2 where r: "x = (r, d1, a2)" by (cases x)
  have b: "balanced_step d a1 string_blocks x"
  proof (cases "sc_status_is_ok st0")
    case True
    then show ?thesis unfolding x_def by (simp add: in_parent_balanced [OF quiet_balanced [OF read_leaf_quiet]])
  qed (simp add: x_def balanced_step_def)
  then have ok: "chain_ok (dk_chain d1)" using run(2) r by (simp add: disk_good_def balanced_step_def)
  have read: "dk_entries d1 = dk_entries d \<and> (\<forall>s. r = Inr s \<longrightarrow> sc_status_is_ok st0 \<and>
      (\<exists>dir leaf. opens en ic pth dir leaf \<and> read_of d (max_output (Some ic)) (dk_entries d dir leaf) s))"
  proof (cases "sc_status_is_ok st0")
    case True
    then have "in_parent en (cx_policy (ic_context ic)) pth (read_leaf (max_output (Some ic))) d a1 = (r, d1, a2)" using r by (simp add: x_def)
    then show ?thesis
    proof (cases rule: in_parent_act)
      case (at dir leaf n a3 d2 a4)
      from read_leaf_quiet [of "d\<lparr>dk_fds := n\<rparr>" a3 "max_output (Some ic)" dir leaf] at show ?thesis
        by (cases r) (auto simp: quiet_def read_of_def True)
    qed simp
  qed (use r in \<open>auto simp: x_def\<close>)
  note law = run(1) [unfolded file_read_invoke_def c prod.case x_def [symmetric] r]
  have "dk_entries d' = dk_entries d1 \<and> (sc_status_is_ok st \<longrightarrow>
      (\<exists>s. r = Inr s \<and> tr_output out = Some (take (max_output (Some ic)) (owned_text s))))"
  proof (cases r)
    case (Inl e)
    obtain s d2 a3 where w: "with_receipt en ic (Str ''file_read'') pth (Str ''error'') e d1 a2 = (s, d2, a3)"
      by (cases "with_receipt en ic (Str ''file_read'') pth (Str ''error'') e d1 a2")
    with law Inl have "d' = d2" "st = s" by simp_all
    with with_receipt_spec [OF w ok] b r Inl show ?thesis by (auto simp: balanced_step_def)
  next
    case (Inr t)
    obtain s1 o1 a3 where o: "sc_tool_set_output (Some ic) (sc_string_as_str t) True a2 = (s1, o1, a3)"
      by (cases "sc_tool_set_output (Some ic) (sc_string_as_str t) True a2")
    obtain s d2 a4 where w: "with_receipt en ic (Str ''file_read'') pth (sc_string_as_str (tr_output o1)) s1 d1 a3 = (s, d2, a4)"
      by (cases "with_receipt en ic (Str ''file_read'') pth (sc_string_as_str (tr_output o1)) s1 d1 a3")
    with law Inr o have "d' = d2" "st = s" "out = o1" by simp_all
    with with_receipt_spec [OF w ok] set_output_spec [OF o] Inr show ?thesis by (cases t) auto
  qed
  note fin = this
  from fin read show "dk_entries d' = dk_entries d" by simp
  show "sc_status_is_ok st \<Longrightarrow> \<exists>pth dir leaf body k. authorised en ic (dk_override d) (read_request pth) \<and> 0 < str_len pth \<and>
      opens en ic pth dir leaf \<and> dk_entries d dir leaf = Some (Regular body) \<and> k \<le> max_output (Some ic) \<and> tr_output out = Some (take k body) \<and>
      (Moved 0 \<notin> set (dk_transfers d) \<longrightarrow> take k body = take (max_output (Some ic)) body)"
  proof -
    assume "sc_status_is_ok st"
    with fin obtain s where s: "r = Inr s" "tr_output out = Some (take (max_output (Some ic)) (owned_text s))" by blast
    with read obtain dir leaf where at: "sc_status_is_ok st0" "opens en ic pth dir leaf" "read_of d (max_output (Some ic)) (dk_entries d dir leaf) s"
      by blast
    then obtain body k where k: "dk_entries d dir leaf = Some (Regular body)" "k \<le> max_output (Some ic)" "s = Some (take k body)"
      "Moved 0 \<notin> set (dk_transfers d) \<longrightarrow> take k body = take (max_output (Some ic)) body" by (auto simp: read_of_def)
    then have "tr_output out = Some (take k body)" using s(2) by (simp add: min_def)
    with k at(2) path_checks_ok [OF c at(1)] show ?thesis by blast
  qed
qed

end
