(* ===== verification/SC_Turn.thy ===== *)
theory SC_Turn
  imports SC_Wrappers SC_Json_Print
begin

text \<open>
  What a turn of the agent, \<^verbatim>\<open>src/runtime/agent.c\<close>, is made of: the turn and its result with the events, the tests that a tool
  call has to pass, and the four lists a tool loop keeps (tools the user declined, calls the user granted, calls that
  succeeded, tools that cannot work in this turn). The scratch arena and the caller's allocator are one allocator here.
\<close>

section \<open>Turns, events and results\<close>

datatype sc_turn_event_type =
    SC_TURN_EVENT_INPUT_VALIDATED
  | SC_TURN_EVENT_MEMORY_LOADED
  | SC_TURN_EVENT_PROMPT_BUILT
  | SC_TURN_EVENT_PROVIDER_CALLED
  | SC_TURN_EVENT_TEXT_DELTA
  | SC_TURN_EVENT_TOOL_CALLED
  | SC_TURN_EVENT_TOOL_RESULT
  | SC_TURN_EVENT_TURN_PERSISTED
  | SC_TURN_EVENT_MODEL_SWITCHED
  | SC_TURN_EVENT_CANCELLED
  | SC_TURN_EVENT_ERROR
  | SC_TURN_EVENT_STARTED
  | SC_TURN_EVENT_PROVIDER_STARTED
  | SC_TURN_EVENT_TOOL_DENIED
  | SC_TURN_EVENT_MEMORY_WRITTEN
  | SC_TURN_EVENT_COMPLETED
  | SC_TURN_EVENT_TIMEOUT

record sc_turn_event =
  te_type :: sc_turn_event_type
  te_name :: sc_string
  te_message :: sc_string
  te_status_code :: sc_status_code

definition SIZEOF_TURN_EVENT :: nat where
  "SIZEOF_TURN_EVENT = 72"

text \<open>
  The turn, with the world its callbacks and its cancel flags live in. A list of tool names with no name in it is the
  same as a null pointer.
\<close>

record ('d, 'w) sc_turn =
  tn_cancel_requested :: "'w \<Rightarrow> bool"
  tn_media_count :: nat
  tn_media_context :: sc_str
  tn_allowed_tools :: "sc_str list"
  tn_denied_tools :: "sc_str list"
  tn_autonomy_override :: "sc_autonomy_level option"
  tn_max_total_tokens :: int
  tn_max_cost_usd :: 'd
  tn_route_hint :: sc_str
  tn_request_tool_approval :: "(sc_str \<Rightarrow> sc_str \<Rightarrow> sc_allocator \<Rightarrow> 'w \<Rightarrow> sc_status \<times> bool \<times> sc_allocator \<times> 'w) option"
  tn_event_callback :: "(sc_turn_event \<Rightarrow> 'w \<Rightarrow> 'w) option"
  tn_disable_memory :: bool

record 'd sc_agent_turn_result =
  ar_output :: sc_string
  ar_receipts :: sc_receipt_chain
  ar_events :: "sc_turn_event sc_vec"
  ar_provider_call_count :: nat
  ar_tool_call_count :: nat
  ar_input_tokens :: int
  ar_output_tokens :: int
  ar_total_tokens :: int
  ar_cost_usd :: 'd
  ar_budget_exceeded :: bool
  ar_model_switched :: bool
  ar_active_model :: sc_string
  ar_cancelled :: bool
  ar_timed_out :: bool
  ar_attachment_content_type :: sc_string
  ar_attachment_filename :: sc_string
  ar_attachment_bytes :: sc_bytes
  ar_attachment_delivery :: sc_attachment_delivery

definition sc_turn_event_clear :: "sc_turn_event \<Rightarrow> sc_allocator \<Rightarrow> sc_allocator" where
  "sc_turn_event_clear e a = sc_string_clear (te_message e) (sc_string_clear (te_name e) a)"

text \<open>A record whose fields are filled, or were not, is pushed onto a vector, or cleared.\<close>

definition push_filled ::
    "('q \<Rightarrow> sc_allocator \<Rightarrow> sc_allocator) \<Rightarrow> 'q sc_vec \<Rightarrow> 'q fill_state \<Rightarrow> sc_status \<times> 'q sc_vec \<times> sc_allocator" where
  "push_filled clear v s =
     (case s of (st, q, a) \<Rightarrow>
        (if \<not> sc_status_is_ok st then (st, v, clear q a)
         else (case sc_vec_push v (Some q) a of
                 (st', v', a') \<Rightarrow> (if sc_status_is_ok st' then (st', v', a') else (st', v', clear q a')))))"

definition result_add_event ::
    "'d sc_agent_turn_result \<Rightarrow> sc_turn_event_type \<Rightarrow> sc_str \<Rightarrow> sc_str \<Rightarrow> sc_status_code \<Rightarrow> sc_allocator \<Rightarrow>
       sc_status \<times> 'd sc_agent_turn_result \<times> sc_allocator" where
  "result_add_event result ty name msg st_code a =
     (if item_size (ar_events result) \<noteq> SIZEOF_TURN_EVENT
      then (sc_status_invalid_argument ''sc.turn_event.invalid_argument'', result, a)
      else (case push_filled sc_turn_event_clear (ar_events result)
                  (fill (\<lambda>_. sc_string_from_str (str_or_empty msg)) (\<lambda>s e. e\<lparr>te_message := s\<rparr>)
                    (fill (\<lambda>_. sc_string_from_str (str_or_empty name)) (\<lambda>s e. e\<lparr>te_name := s\<rparr>)
                      (sc_status_ok, \<lparr>te_type = ty, te_name = None, te_message = None, te_status_code = st_code\<rparr>, a))) of
              (st, v, a') \<Rightarrow> (st, result\<lparr>ar_events := v\<rparr>, a')))"

definition turn_add_event ::
    "('d, 'w) sc_turn \<Rightarrow> 'd sc_agent_turn_result \<Rightarrow> sc_turn_event_type \<Rightarrow> sc_str \<Rightarrow> sc_str \<Rightarrow> sc_status_code \<Rightarrow> sc_allocator \<Rightarrow> 'w \<Rightarrow>
       sc_status \<times> 'd sc_agent_turn_result \<times> sc_allocator \<times> 'w" where
  "turn_add_event turn result ty name msg st_code a w =
     (case result_add_event result ty name msg st_code a of
        (st, result', a') \<Rightarrow>
          (st, result', a',
           (case tn_event_callback turn of
              Some callback \<Rightarrow>
                (case sc_vec_at_const (ar_events result') (length (items (ar_events result))) of
                   Some e \<Rightarrow> (if sc_status_is_ok st then callback e w else w)
                 | None \<Rightarrow> w)
            | None \<Rightarrow> w)))"

section \<open>Whether a call may run\<close>

definition turn_memory_disabled :: "('d, 'w) sc_turn \<Rightarrow> bool" where
  "turn_memory_disabled turn \<longleftrightarrow> tn_disable_memory turn"

definition turn_cancel_requested :: "('d, 'w) sc_turn \<Rightarrow> 'w \<Rightarrow> bool" where
  "turn_cancel_requested turn w \<longleftrightarrow> tn_cancel_requested turn w"

definition turn_deadline_expired :: "('w \<Rightarrow> timespec \<times> 'w) \<Rightarrow> int \<Rightarrow> 'w \<Rightarrow> bool \<times> 'w" where
  "turn_deadline_expired clock deadline_ns w =
     (if deadline_ns \<le> 0 then (False, w)
      else (case clock w of
              (ts, w') \<Rightarrow> (case sc_clock_monotonic ts of Inl e \<Rightarrow> (False, w') | Inr now \<Rightarrow> (now \<ge> deadline_ns, w'))))"

definition turn_check_continue :: "('w \<Rightarrow> timespec \<times> 'w) \<Rightarrow> ('d, 'w) sc_turn \<Rightarrow> int \<Rightarrow> 'w \<Rightarrow> sc_status \<times> 'w" where
  "turn_check_continue clock turn deadline_ns w =
     (if turn_cancel_requested turn w then (sc_status_cancelled ''sc.agent.turn.cancelled'', w)
      else (case turn_deadline_expired clock deadline_ns w of
              (expired, w') \<Rightarrow> ((if expired then sc_status_timeout ''sc.agent.turn.timeout'' else sc_status_ok), w')))"

definition tool_name_is_memory :: "sc_str \<Rightarrow> bool" where
  "tool_name_is_memory name \<longleftrightarrow>
     (\<exists>n \<in> set [''memory_store'', ''memory_recall'', ''memory_search'', ''memory_pin'', ''memory_forget'', ''memory_export'', ''memory_purge''].
        sc_str_equal name (Str n))"

definition turn_allows_tool :: "('d, 'w) sc_turn \<Rightarrow> sc_str \<Rightarrow> bool" where
  "turn_allows_tool turn name =
     (if turn_memory_disabled turn \<and> tool_name_is_memory name then False
      else if list_ex (\<lambda>n. sc_str_equal n name) (tn_denied_tools turn) then False
      else if tn_allowed_tools turn = [] then True
      else list_ex (\<lambda>n. sc_str_equal n name) (tn_allowed_tools turn))"

definition turn_autonomy_allows_risk :: "('d, 'w) sc_turn \<Rightarrow> sc_tool_risk \<Rightarrow> bool" where
  "turn_autonomy_allows_risk turn rk =
     (case tn_autonomy_override turn of
        None \<Rightarrow> True
      | Some level \<Rightarrow>
          (if level = SC_AUTONOMY_FULL then True
           else if level = SC_AUTONOMY_READ_ONLY then rk = SC_TOOL_RISK_READONLY
           else rk \<noteq> SC_TOOL_RISK_DESTRUCTIVE \<and> rk \<noteq> SC_TOOL_RISK_SHELL))"

definition turn_autonomy_allows_spec :: "('d, 'w) sc_turn \<Rightarrow> 'd sc_tool_spec \<Rightarrow> bool" where
  "turn_autonomy_allows_spec turn spec = turn_autonomy_allows_risk turn (ts_risk spec)"

text \<open>The tools are a vector of pointers, which may be null.\<close>

definition find_tool_by_name :: "('d, 'w) sc_tool option list \<Rightarrow> sc_str \<Rightarrow> ('d, 'w) sc_tool option" where
  "find_tool_by_name tools name =
     (case find_first (\<lambda>t. case sc_tool_spec_get t of Inl e \<Rightarrow> False | Inr spec \<Rightarrow> sc_str_equal (ts_name spec) name) tools of
        None \<Rightarrow> None
      | Some t \<Rightarrow> t)"

fun required_args :: "'d sc_json_value option \<Rightarrow> 'd sc_json_value list \<Rightarrow> sc_status" where
  "required_args args [] = sc_status_ok"
| "required_args args (r # rs) =
     (case sc_json_as_str (Some r) of
        None \<Rightarrow> sc_status_invalid_argument ''sc.agent.tool_schema.invalid_required''
      | Some name \<Rightarrow>
          (case sc_json_object_get args name of
             None \<Rightarrow> sc_status_invalid_argument ''sc.agent.tool_schema.required_missing''
           | Some v \<Rightarrow>
               (if sc_json_type_of (Some v) \<noteq> JSON_STRING then sc_status_invalid_argument ''sc.agent.tool_schema.type_mismatch''
                else required_args args rs)))"

definition validate_tool_call_args :: "'d sc_tool_spec \<Rightarrow> 'd sc_provider_tool_call \<Rightarrow> sc_status" where
  "validate_tool_call_args spec pc =
     (if arguments pc = None then sc_status_invalid_argument ''sc.agent.tool_schema.missing_args''
      else if ts_input_schema spec = None then sc_status_ok
      else if sc_json_type_of (arguments pc) \<noteq> JSON_OBJECT then sc_status_invalid_argument ''sc.agent.tool_schema.args_not_object''
      else required_args (arguments pc) (array_items (sc_json_object_get (ts_input_schema spec) (Str ''required''))))"
section \<open>Statuses of a tool call\<close>

definition error_key_is :: "sc_status \<Rightarrow> string \<Rightarrow> bool" where
  "error_key_is st key \<longleftrightarrow> error_key st = Some key"

definition error_key_or :: "sc_status \<Rightarrow> string \<Rightarrow> sc_str" where
  "error_key_or st fallback = sc_str_from_cstr (Some (case error_key st of None \<Rightarrow> fallback | Some k \<Rightarrow> k))"

definition tool_status_is_approval_required :: "sc_status \<Rightarrow> bool" where
  "tool_status_is_approval_required st \<longleftrightarrow> code st = SC_ERR_CANCELLED \<and> error_key_is st ''sc.tool.approval_required''"

definition tool_status_is_turn_terminal :: "sc_status \<Rightarrow> bool" where
  "tool_status_is_turn_terminal st =
     (if sc_status_is_ok st \<or> error_key st = None \<or> error_key_is st ''sc.agent.tool_loop.repeated_terminal_failure'' then False
      else if code st = SC_ERR_UNSUPPORTED then True
      else error_key_is st ''sc.browser_tool.cdp_connect_failed'' \<or> error_key_is st ''sc.browser_tool.websocket_client_unavailable'')"

definition tool_policy_decision :: "sc_status \<Rightarrow> sc_str" where
  "tool_policy_decision st =
     (if sc_status_is_ok st then Str ''allowed''
      else if code st = SC_ERR_SECURITY_DENIED then Str ''denied''
      else if tool_status_is_approval_required st then Str ''approval-required''
      else Str ''allowed'')"

definition tool_outcome :: "sc_status \<Rightarrow> bool \<Rightarrow> sc_str" where
  "tool_outcome st success =
     (if success then Str ''ok''
      else if code st = SC_ERR_SECURITY_DENIED then Str ''denied''
      else if tool_status_is_approval_required st then Str ''approval_required''
      else Str ''error'')"

definition tool_failure_reason :: "sc_status \<Rightarrow> sc_str" where
  "tool_failure_reason st = (if sc_status_is_ok st then NullStr 0 else error_key_or st ''sc.tool.failed'')"

section \<open>Declined tools and granted calls\<close>

record tool_approval_denial =
  ad_tool_name :: sc_string

record tool_approval_grant =
  ag_tool_name :: sc_string
  ag_arguments_json :: sc_string

record tool_success_cache =
  sk_tool_name :: sc_string
  sk_arguments_json :: sc_string
  sk_output :: sc_string
  sk_attachment_content_type :: sc_string
  sk_attachment_filename :: sc_string
  sk_attachment_bytes :: sc_bytes
  sk_attachment_delivery :: sc_attachment_delivery
  sk_replay_count :: nat

record tool_terminal_failure =
  tf_tool_name :: sc_string
  tf_error_key :: sc_string

definition SIZEOF_APPROVAL_GRANT :: nat where "SIZEOF_APPROVAL_GRANT = 48"
definition SIZEOF_SUCCESS_CACHE :: nat where "SIZEOF_SUCCESS_CACHE = 168"
definition SIZEOF_TERMINAL_FAILURE :: nat where "SIZEOF_TERMINAL_FAILURE = 48"

definition names_call :: "sc_string \<Rightarrow> 'd sc_provider_tool_call \<Rightarrow> bool" where
  "names_call n pc \<longleftrightarrow> sc_str_equal (sc_string_as_str n) (sc_string_as_str (call_name pc))"

definition gives_arguments :: "sc_string \<Rightarrow> 'd sc_provider_tool_call \<Rightarrow> bool" where
  "gives_arguments j pc \<longleftrightarrow> sc_str_equal (sc_string_as_str j) (sc_string_as_str (arguments_json pc))"

text \<open>Every vector is cleared item by item, and then itself.\<close>

fun clear_each :: "('q \<Rightarrow> sc_allocator \<Rightarrow> sc_allocator) \<Rightarrow> 'q list \<Rightarrow> sc_allocator \<Rightarrow> sc_allocator" where
  "clear_each clear [] a = a"
| "clear_each clear (q # qs) a = clear_each clear qs (clear q a)"

definition approval_denials_contains :: "tool_approval_denial sc_vec \<Rightarrow> 'd sc_provider_tool_call \<Rightarrow> bool" where
  "approval_denials_contains denials pc = list_ex (\<lambda>d. names_call (ad_tool_name d) pc) (items denials)"

definition tool_approval_denial_clear :: "tool_approval_denial \<Rightarrow> sc_allocator \<Rightarrow> sc_allocator" where
  "tool_approval_denial_clear d a = sc_string_clear (ad_tool_name d) a"

definition approval_denials_add ::
    "tool_approval_denial sc_vec \<Rightarrow> 'd sc_provider_tool_call \<Rightarrow> sc_allocator \<Rightarrow> sc_status \<times> tool_approval_denial sc_vec \<times> sc_allocator" where
  "approval_denials_add denials pc a =
     (if approval_denials_contains denials pc then (sc_status_ok, denials, a)
      else push_filled tool_approval_denial_clear denials
             (fill (\<lambda>_. sc_string_from_str (sc_string_as_str (call_name pc))) (\<lambda>s d. d\<lparr>ad_tool_name := s\<rparr>)
               (sc_status_ok, \<lparr>ad_tool_name = None\<rparr>, a)))"

definition approval_denials_clear :: "tool_approval_denial sc_vec \<Rightarrow> sc_allocator \<Rightarrow> sc_allocator" where
  "approval_denials_clear denials a = snd (sc_vec_clear denials (clear_each tool_approval_denial_clear (items denials) a))"

definition approval_grants_contains :: "tool_approval_grant sc_vec \<Rightarrow> 'd sc_provider_tool_call \<Rightarrow> bool" where
  "approval_grants_contains grants pc =
     list_ex (\<lambda>g. names_call (ag_tool_name g) pc \<and> gives_arguments (ag_arguments_json g) pc) (items grants)"

definition tool_approval_grant_clear :: "tool_approval_grant \<Rightarrow> sc_allocator \<Rightarrow> sc_allocator" where
  "tool_approval_grant_clear g a = sc_string_clear (ag_arguments_json g) (sc_string_clear (ag_tool_name g) a)"

definition approval_grants_add ::
    "tool_approval_grant sc_vec \<Rightarrow> 'd sc_provider_tool_call \<Rightarrow> sc_allocator \<Rightarrow> sc_status \<times> tool_approval_grant sc_vec \<times> sc_allocator" where
  "approval_grants_add grants pc a =
     (if approval_grants_contains grants pc then (sc_status_ok, grants, a)
      else push_filled tool_approval_grant_clear grants
             (fill (\<lambda>_. sc_string_from_str (sc_string_as_str (arguments_json pc))) (\<lambda>s g. g\<lparr>ag_arguments_json := s\<rparr>)
               (fill (\<lambda>_. sc_string_from_str (sc_string_as_str (call_name pc))) (\<lambda>s g. g\<lparr>ag_tool_name := s\<rparr>)
                 (sc_status_ok, \<lparr>ag_tool_name = None, ag_arguments_json = None\<rparr>, a))))"

definition approval_grants_clear :: "tool_approval_grant sc_vec \<Rightarrow> sc_allocator \<Rightarrow> sc_allocator" where
  "approval_grants_clear grants a = snd (sc_vec_clear grants (clear_each tool_approval_grant_clear (items grants) a))"

definition request_turn_tool_approval ::
    "('d, 'w) sc_turn \<Rightarrow> 'd sc_provider_tool_call \<Rightarrow> sc_allocator \<Rightarrow> 'w \<Rightarrow> sc_status \<times> bool \<times> sc_allocator \<times> 'w" where
  "request_turn_tool_approval turn pc a w =
     (case tn_request_tool_approval turn of
        None \<Rightarrow> (sc_status_cancelled ''sc.tool.approval_required'', False, a, w)
      | Some ask \<Rightarrow> ask (sc_string_as_str (call_name pc)) (sc_string_as_str (arguments_json pc)) a w)"

section \<open>Calls that succeeded and tools that cannot work\<close>

text \<open>The entry found is named by its index, because a replay is counted in place.\<close>

definition tool_success_cache_find :: "tool_success_cache sc_vec \<Rightarrow> 'd sc_provider_tool_call \<Rightarrow> nat option" where
  "tool_success_cache_find successes pc =
     find_first (\<lambda>i. names_call (sk_tool_name (items successes ! i)) pc \<and> gives_arguments (sk_arguments_json (items successes ! i)) pc)
       [0 ..< length (items successes)]"

definition tool_success_cache_find_attachment_by_name :: "tool_success_cache sc_vec \<Rightarrow> 'd sc_provider_tool_call \<Rightarrow> nat option" where
  "tool_success_cache_find_attachment_by_name successes pc =
     find_first (\<lambda>i. length (contents (sk_attachment_bytes (items successes ! i))) > 0 \<and> names_call (sk_tool_name (items successes ! i)) pc)
       [0 ..< length (items successes)]"

definition tool_success_cache_entry_clear :: "tool_success_cache \<Rightarrow> sc_allocator \<Rightarrow> sc_allocator" where
  "tool_success_cache_entry_clear e a =
     snd (sc_bytes_clear (sk_attachment_bytes e)
       (sc_string_clear (sk_attachment_filename e)
         (sc_string_clear (sk_attachment_content_type e)
           (sc_string_clear (sk_output e) (sc_string_clear (sk_arguments_json e) (sc_string_clear (sk_tool_name e) a))))))"

definition success_cache_zero :: tool_success_cache where
  "success_cache_zero = \<lparr>sk_tool_name = None, sk_arguments_json = None, sk_output = None, sk_attachment_content_type = None,
     sk_attachment_filename = None, sk_attachment_bytes = bytes_zero, sk_attachment_delivery = SC_ATTACHMENT_DELIVERY_DEFAULT, sk_replay_count = 0\<rparr>"

text \<open>The steps that copy an attachment run only when there is one.\<close>

definition fill_if :: "bool \<Rightarrow> ('q fill_state \<Rightarrow> 'q fill_state) \<Rightarrow> 'q fill_state \<Rightarrow> 'q fill_state" where
  "fill_if b f s = (if b then f s else s)"

definition has_attachment :: "sc_bytes \<Rightarrow> bool" where
  "has_attachment b \<longleftrightarrow> length (contents b) > 0"

definition tool_success_cache_add ::
    "tool_success_cache sc_vec \<Rightarrow> 'd sc_provider_tool_call \<Rightarrow> sc_tool_result \<Rightarrow> sc_allocator \<Rightarrow>
       sc_status \<times> tool_success_cache sc_vec \<times> sc_allocator" where
  "tool_success_cache_add successes pc r a =
     (let attached = has_attachment (tr_attachment_bytes r) in
      (if tool_success_cache_find successes pc \<noteq> None then (sc_status_ok, successes, a)
       else push_filled tool_success_cache_entry_clear successes
         (fill_if attached (fill (\<lambda>_. sc_bytes_from_buf (Str (contents (tr_attachment_bytes r))))
             (\<lambda>b e. e\<lparr>sk_attachment_bytes := b, sk_attachment_delivery := tr_attachment_delivery r\<rparr>))
           (fill_if attached (fill (\<lambda>_. sc_string_from_str (sc_string_as_str (tr_attachment_filename r))) (\<lambda>s e. e\<lparr>sk_attachment_filename := s\<rparr>))
             (fill_if attached (fill (\<lambda>_. sc_string_from_str (sc_string_as_str (tr_attachment_content_type r)))
                 (\<lambda>s e. e\<lparr>sk_attachment_content_type := s\<rparr>))
               (fill (\<lambda>_. sc_string_from_str (sc_string_as_str (tr_output r))) (\<lambda>s e. e\<lparr>sk_output := s\<rparr>)
                 (fill (\<lambda>_. sc_string_from_str (sc_string_as_str (arguments_json pc))) (\<lambda>s e. e\<lparr>sk_arguments_json := s\<rparr>)
                   (fill (\<lambda>_. sc_string_from_str (sc_string_as_str (call_name pc))) (\<lambda>s e. e\<lparr>sk_tool_name := s\<rparr>)
                     (sc_status_ok, success_cache_zero, a)))))))))"

definition replay_text :: "tool_success_cache \<Rightarrow> sc_str list" where
  "replay_text e = Str ''duplicate tool call suppressed; previous result reused'' #
     (if string_len (sk_output e) > 0 then [Str '': '', sc_string_as_str (sk_output e)] else [])"

definition tool_result_from_success_cache :: "tool_success_cache \<Rightarrow> sc_allocator \<Rightarrow> sc_status \<times> sc_tool_result \<times> sc_allocator" where
  "tool_result_from_success_cache e a =
     (let attached = has_attachment (sk_attachment_bytes e) in
      (case fill_if attached (fill (\<lambda>_. sc_bytes_from_buf (Str (contents (sk_attachment_bytes e))))
                (\<lambda>b r. r\<lparr>tr_attachment_bytes := b, tr_attachment_delivery := sk_attachment_delivery e\<rparr>))
              (fill_if attached (fill (\<lambda>_. sc_string_from_str (sc_string_as_str (sk_attachment_filename e))) (\<lambda>s r. r\<lparr>tr_attachment_filename := s\<rparr>))
                (fill_if attached (fill (\<lambda>_. sc_string_from_str (sc_string_as_str (sk_attachment_content_type e)))
                    (\<lambda>s r. r\<lparr>tr_attachment_content_type := s\<rparr>))
                  (fill (\<lambda>_. build_string (replay_text e)) (\<lambda>s r. r\<lparr>tr_output := s\<rparr>)
                    (sc_status_ok, tool_result_zero\<lparr>tr_success := True\<rparr>, a)))) of
         (st, r, a') \<Rightarrow> (if sc_status_is_ok st then (st, r, a') else (st, tool_result_zero, sc_tool_result_clear r a'))))"

definition tool_success_cache_clear :: "tool_success_cache sc_vec \<Rightarrow> sc_allocator \<Rightarrow> sc_allocator" where
  "tool_success_cache_clear successes a =
     snd (sc_vec_clear successes (clear_each tool_success_cache_entry_clear (items successes) a))"

definition tool_terminal_failures_contains :: "tool_terminal_failure sc_vec \<Rightarrow> 'd sc_provider_tool_call \<Rightarrow> bool" where
  "tool_terminal_failures_contains failures pc = list_ex (\<lambda>f. names_call (tf_tool_name f) pc) (items failures)"

definition tool_terminal_failure_clear :: "tool_terminal_failure \<Rightarrow> sc_allocator \<Rightarrow> sc_allocator" where
  "tool_terminal_failure_clear f a = sc_string_clear (tf_error_key f) (sc_string_clear (tf_tool_name f) a)"

definition tool_terminal_failures_add ::
    "tool_terminal_failure sc_vec \<Rightarrow> 'd sc_provider_tool_call \<Rightarrow> sc_status \<Rightarrow> sc_allocator \<Rightarrow>
       sc_status \<times> tool_terminal_failure sc_vec \<times> sc_allocator" where
  "tool_terminal_failures_add failures pc st a =
     (if error_key st = None then (sc_status_invalid_argument ''sc.agent.terminal_failure.invalid_argument'', failures, a)
      else if tool_terminal_failures_contains failures pc then (sc_status_ok, failures, a)
      else push_filled tool_terminal_failure_clear failures
             (fill (\<lambda>_. sc_string_from_cstr (error_key st)) (\<lambda>s f. f\<lparr>tf_error_key := s\<rparr>)
               (fill (\<lambda>_. sc_string_from_str (sc_string_as_str (call_name pc))) (\<lambda>s f. f\<lparr>tf_tool_name := s\<rparr>)
                 (sc_status_ok, \<lparr>tf_tool_name = None, tf_error_key = None\<rparr>, a))))"

definition tool_terminal_failures_clear :: "tool_terminal_failure sc_vec \<Rightarrow> sc_allocator \<Rightarrow> sc_allocator" where
  "tool_terminal_failures_clear failures a =
     snd (sc_vec_clear failures (clear_each tool_terminal_failure_clear (items failures) a))"

section \<open>What a tool call leaves in the result\<close>

text \<open>The attachment is copied first, and the old one given back after that.\<close>

definition result_copy_tool_attachment ::
    "'d sc_agent_turn_result \<Rightarrow> sc_tool_result \<Rightarrow> sc_allocator \<Rightarrow> sc_status \<times> 'd sc_agent_turn_result \<times> sc_allocator" where
  "result_copy_tool_attachment out r a =
     (if \<not> has_attachment (tr_attachment_bytes r) then (sc_status_ok, out, a)
      else (case fill (\<lambda>_. sc_bytes_from_buf (Str (contents (tr_attachment_bytes r)))) (\<lambda>b q. q\<lparr>tr_attachment_bytes := b\<rparr>)
                   (fill (\<lambda>_. sc_string_from_str (sc_string_as_str (tr_attachment_filename r))) (\<lambda>s q. q\<lparr>tr_attachment_filename := s\<rparr>)
                     (fill (\<lambda>_. sc_string_from_str (sc_string_as_str (tr_attachment_content_type r))) (\<lambda>s q. q\<lparr>tr_attachment_content_type := s\<rparr>)
                       (sc_status_ok, tool_result_zero, a))) of
              (st, q, a1) \<Rightarrow>
                (if \<not> sc_status_is_ok st then (st, out, sc_tool_result_clear q a1)
                 else (sc_status_ok,
                       out\<lparr>ar_attachment_content_type := tr_attachment_content_type q, ar_attachment_filename := tr_attachment_filename q,
                         ar_attachment_bytes := tr_attachment_bytes q, ar_attachment_delivery := tr_attachment_delivery r\<rparr>,
                       snd (sc_bytes_clear (ar_attachment_bytes out)
                         (sc_string_clear (ar_attachment_filename out) (sc_string_clear (ar_attachment_content_type out) a1)))))))"

definition result_add_usage :: "('d::plus) sc_agent_turn_result \<Rightarrow> 'd sc_provider_response \<Rightarrow> 'd sc_agent_turn_result" where
  "result_add_usage out response =
     out\<lparr>ar_input_tokens := ar_input_tokens out + rs_input_tokens response,
       ar_output_tokens := ar_output_tokens out + rs_output_tokens response,
       ar_total_tokens := ar_total_tokens out + rs_total_tokens response,
       ar_cost_usd := ar_cost_usd out + rs_cost_usd response\<rparr>"

definition result_exceeds_budget :: "('d::{zero, ord}, 'w) sc_turn \<Rightarrow> 'd sc_agent_turn_result \<Rightarrow> bool" where
  "result_exceeds_budget turn out \<longleftrightarrow>
     (tn_max_total_tokens turn > 0 \<and> ar_total_tokens out > tn_max_total_tokens turn) \<or>
     (tn_max_cost_usd turn > 0 \<and> ar_cost_usd out > tn_max_cost_usd turn)"

definition receipt_hash_for_turn :: "sc_str \<Rightarrow> 64 word" where
  "receipt_hash_for_turn v = foldl hash_step 1469598103934665603 (map of_char (str_bytes v))"

definition receipt_summary_for_turn :: "sc_str \<Rightarrow> sc_allocator \<Rightarrow> sc_string res \<times> sc_allocator" where
  "receipt_summary_for_turn v a =
     (let t = ''hash='' @ hex16 (receipt_hash_for_turn v) @ '' len='' @ dec (str_len v) in
      (if length t \<ge> 64 then (Inl sc_status_no_memory, a) else sc_string_from_cstr (Some t) a))"

definition append_bounded :: "sc_string_builder \<Rightarrow> sc_str \<Rightarrow> nat \<Rightarrow> sc_allocator \<Rightarrow> sc_status \<times> sc_string_builder \<times> sc_allocator" where
  "append_bounded b v max_bytes a =
     (if max_bytes > 0 \<and> str_len v > max_bytes
      then sc_string_builder_append b (if ptr_null v then NullStr max_bytes else Str (take max_bytes (str_bytes v))) a
      else sc_string_builder_append b v a)"
section \<open>Results and tool specifications\<close>

text \<open>The session key of the receipt chain comes from \<^verbatim>\<open>randombytes_buf\<close>; it is an argument.\<close>

definition sc_agent_turn_result_init :: "nat list option \<Rightarrow> ('d::zero) sc_agent_turn_result" where
  "sc_agent_turn_result_init key =
     \<lparr>ar_output = None, ar_receipts = sc_receipt_chain_init key, ar_events = sc_vec_init SIZEOF_TURN_EVENT, ar_provider_call_count = 0,
      ar_tool_call_count = 0, ar_input_tokens = 0, ar_output_tokens = 0, ar_total_tokens = 0, ar_cost_usd = 0, ar_budget_exceeded = False,
      ar_model_switched = False, ar_active_model = None, ar_cancelled = False, ar_timed_out = False,
      ar_attachment_content_type = None, ar_attachment_filename = None, ar_attachment_bytes = bytes_zero,
      ar_attachment_delivery = SC_ATTACHMENT_DELIVERY_DEFAULT\<rparr>"

definition sc_agent_turn_result_clear :: "'d sc_agent_turn_result \<Rightarrow> sc_allocator \<Rightarrow> sc_allocator" where
  "sc_agent_turn_result_clear r a =
     (let a1 = sc_string_clear (ar_attachment_filename r) (sc_string_clear (ar_attachment_content_type r)
                 (sc_string_clear (ar_active_model r) (sc_string_clear (ar_output r) a)));
          a2 = sc_receipt_chain_clear (ar_receipts r) (snd (sc_bytes_clear (ar_attachment_bytes r) a1)) in
      snd (sc_vec_clear (ar_events r) (clear_each sc_turn_event_clear (items (ar_events r)) a2)))"

definition turn_uses_default_tool_specs :: "('d, 'w) sc_turn \<Rightarrow> bool" where
  "turn_uses_default_tool_specs turn \<longleftrightarrow>
     \<not> turn_memory_disabled turn \<and> tn_allowed_tools turn = [] \<and> tn_denied_tools turn = [] \<and> tn_autonomy_override turn = None"

definition selected_tools :: "('d, 'w) sc_turn \<Rightarrow> ('d, 'w) sc_tool option list \<Rightarrow> ('d, 'w) sc_tool option list" where
  "selected_tools turn tools =
     filter (\<lambda>t. case sc_tool_spec_get t of
                     Inl e \<Rightarrow> False
                   | Inr spec \<Rightarrow> turn_allows_tool turn (ts_name spec) \<and> turn_autonomy_allows_spec turn spec) tools"

definition tool_specs_for_turn ::
    "('d, 'w) sc_tool option list \<Rightarrow> ('d, 'w) sc_turn \<Rightarrow> sc_allocator \<Rightarrow> 'd sc_json_value res \<times> sc_allocator" where
  "tool_specs_for_turn tools turn a =
     (if turn_uses_default_tool_specs turn then sc_tool_registry_model_specs_from_tools tools a
      else if tools = [] then sc_tool_registry_model_specs_from_tools (selected_tools turn tools) a
      else (case sc_alloc (length tools * 8) a of
              (False, a1) \<Rightarrow> (Inl sc_status_no_memory, a1)
            | (True, a1) \<Rightarrow>
                (case sc_tool_registry_model_specs_from_tools (selected_tools turn tools) a1 of (r, a2) \<Rightarrow> (r, sc_free True a2))))"

text \<open>
  The text of the specifications; for a turn without restrictions it is kept in the agent, with the number of tools it was
  made for. The result says where the text lives: in the agent's cache, which is returned, or in a string of its own.
\<close>

definition tool_specs_json_for_turn ::
    "('d \<Rightarrow> string option) \<Rightarrow> ('d, 'w) sc_tool option list \<Rightarrow> ('d, 'w) sc_turn \<Rightarrow> sc_string \<times> nat \<Rightarrow> sc_allocator \<Rightarrow>
       sc_str res \<times> sc_string \<times> (sc_string \<times> nat) \<times> sc_allocator" where
  "tool_specs_json_for_turn fmt tools turn cache a =
     (if turn_uses_default_tool_specs turn \<and> fst cache \<noteq> None \<and> snd cache = length tools
      then (Inr (sc_string_as_str (fst cache)), None, cache, a)
      else (case tool_specs_for_turn tools turn a of
              (Inl e, a1) \<Rightarrow> (Inl e, None, cache, a1)
            | (Inr specs, a1) \<Rightarrow>
                (if turn_uses_default_tool_specs turn
                 then (case sc_json_serialize fmt specs (sc_string_clear (fst cache) a1) of
                         (Inl e, a2) \<Rightarrow> (Inl e, None, (None, snd cache), sc_json_destroy specs a2)
                       | (Inr t, a2) \<Rightarrow> (Inr (sc_string_as_str t), None, (t, length tools), sc_json_destroy specs a2))
                 else (case sc_json_serialize fmt specs a1 of
                         (Inl e, a2) \<Rightarrow> (Inl e, None, cache, sc_json_destroy specs a2)
                       | (Inr t, a2) \<Rightarrow> (Inr (sc_string_as_str t), t, cache, sc_json_destroy specs a2)))))"

lemma specs_listed:
  assumes "map sc_tool_spec_get ts = map Inr specs"
  shows "spec \<in> set specs \<longleftrightarrow> (\<exists>t \<in> set ts. sc_tool_spec_get t = Inr spec)"
proof -
  have "Inr spec \<in> set (map sc_tool_spec_get ts) \<longleftrightarrow> spec \<in> set specs" unfolding assms by auto
  then show ?thesis by (metis image_iff set_map)
qed

lemma specs_of_selected:
  assumes "map sc_tool_spec_get (selected_tools turn tools) = map Inr specs"
  shows "\<forall>spec \<in> set specs. turn_allows_tool turn (ts_name spec) \<and> turn_autonomy_allows_spec turn spec"
  using specs_listed [OF assms] by (auto simp: selected_tools_def)

lemma default_allows: "turn_uses_default_tool_specs turn \<Longrightarrow> turn_allows_tool turn name \<and> turn_autonomy_allows_spec turn spec"
  by (simp add: turn_uses_default_tool_specs_def turn_allows_tool_def turn_autonomy_allows_spec_def turn_autonomy_allows_risk_def)

lemma tool_specs_for_turn_ok:
  fixes v :: "'d sc_json_value"
  assumes "tool_specs_for_turn tools turn a = (Inr v, a')"
  shows "json_inv v \<and> live a' = live a + json_blocks v \<and>
    (\<exists>specs. json_view v = JArray (map model_spec specs) \<and> distinct_names specs \<and>
      (\<forall>spec \<in> set specs. turn_allows_tool turn (ts_name spec) \<and> turn_autonomy_allows_spec turn spec) \<and>
      (\<forall>spec. turn_allows_tool turn (ts_name spec) \<and> turn_autonomy_allows_spec turn spec \<longrightarrow>
        (spec \<in> set specs \<longleftrightarrow> (\<exists>t \<in> set tools. sc_tool_spec_get t = Inr spec))))"
proof -
  show ?thesis
  proof (cases "turn_uses_default_tool_specs turn")
    case True
    then have run: "sc_tool_registry_model_specs_from_tools tools a = (Inr v, a')" using assms by (simp add: tool_specs_for_turn_def)
    from model_specs_ok [OF run] True show ?thesis by (metis default_allows specs_listed)
  next
    case False
    have sel: "(\<exists>t \<in> set (selected_tools turn tools). sc_tool_spec_get t = Inr spec) = (\<exists>t \<in> set tools. sc_tool_spec_get t = Inr spec)"
      if "turn_allows_tool turn (ts_name spec) \<and> turn_autonomy_allows_spec turn spec" for spec
      using that by (force simp: selected_tools_def)
    obtain a0 a1 where run: "sc_tool_registry_model_specs_from_tools (selected_tools turn tools) a0 = (Inr v, a1)" "live a' = live a1 + (live a - live a0)"
    proof (cases "tools = []")
      case True
      with False assms that [of a a'] show thesis by (simp add: tool_specs_for_turn_def selected_tools_def)
    next
      case ne: False
      obtain ok a0 where al: "sc_alloc (length tools * 8) a = (ok, a0)" by (cases "sc_alloc (length tools * 8) a")
      with False ne assms have ok by (cases ok) (auto simp: tool_specs_for_turn_def)
      moreover obtain r a1 where m: "sc_tool_registry_model_specs_from_tools (selected_tools turn tools) a0 = (r, a1)"
        by (cases "sc_tool_registry_model_specs_from_tools (selected_tools turn tools) a0")
      ultimately have "r = Inr v" "a' = sc_free True a1" using False ne assms al by (auto simp: tool_specs_for_turn_def)
      with m al \<open>ok\<close> show thesis by (intro that [of a0 a1]) (auto simp: sc_alloc_def sc_free_def split: if_splits option.splits)
    qed
    obtain specs where specs: "map sc_tool_spec_get (selected_tools turn tools) = map Inr specs" "json_view v = JArray (map model_spec specs)"
      "distinct_names specs" "json_inv v" "live a1 = live a0 + json_blocks v" using model_specs_ok [OF run(1)] by blast
    have "live a' = live a + json_blocks v" using specs(5) run(2) by simp
    moreover have "(spec \<in> set specs) = (\<exists>t \<in> set tools. sc_tool_spec_get t = Inr spec)"
      if "turn_allows_tool turn (ts_name spec) \<and> turn_autonomy_allows_spec turn spec" for spec
      unfolding specs_listed [OF specs(1)] by (rule sel [OF that])
    ultimately show ?thesis using specs(2-4) specs_of_selected [OF specs(1)] by blast
  qed
qed

end
