(* ===== verification/SC_Turn_Text.thy ===== *)
theory SC_Turn_Text
  imports SC_Turn
begin

text \<open>
  The text functions of a turn, \<^verbatim>\<open>src/runtime/agent.c\<close>: tool calls that a provider wrote into its text, and the receipts
  shown in and stripped from the output. A position that was not found, \<^verbatim>\<open>SIZE_MAX\<close> in the code, is \<open>None\<close>.
\<close>

section \<open>Searching\<close>

definition find_literal :: "string \<Rightarrow> nat \<Rightarrow> string \<Rightarrow> nat option" where
  "find_literal hay start needle =
     (if needle = [] \<or> start > length hay \<or> length needle > length hay then None
      else find_first (\<lambda>i. take (length needle) (drop i hay) = needle) [start ..< Suc (length hay) - length needle])"

definition find_byte :: "string \<Rightarrow> nat \<Rightarrow> char \<Rightarrow> nat option" where
  "find_byte hay start c = (if start > length hay then None else find_first (\<lambda>i. hay ! i = c) [start ..< length hay])"

definition blank :: "char \<Rightarrow> bool" where
  "blank c \<longleftrightarrow> c = CHR '' '' \<or> c = CHR 0x0A \<or> c = CHR 0x0D \<or> c = CHR 0x09"

definition trim_ascii :: "string \<Rightarrow> string" where
  "trim_ascii v = rev (dropWhile blank (rev (dropWhile blank v)))"

lemma find_first_member: "find_first P xs = Some x \<Longrightarrow> x \<in> set xs \<and> P x"
  by (meson find_first_SomeD)

lemma find_literal_bounds:
  assumes "find_literal hay start needle = Some i"
  shows "start \<le> i" "i + length needle \<le> length hay" "take (length needle) (drop i hay) = needle"
proof -
  have "i \<in> set [start ..< Suc (length hay) - length needle] \<and> take (length needle) (drop i hay) = needle"
    using assms by (intro find_first_member) (auto simp: find_literal_def split: if_splits)
  then show "start \<le> i" "i + length needle \<le> length hay" "take (length needle) (drop i hay) = needle" by auto
qed

lemma find_byte_bounds:
  assumes "find_byte hay start c = Some i"
  shows "start \<le> i" "i < length hay" "hay ! i = c"
proof -
  have "i \<in> set [start ..< length hay] \<and> hay ! i = c"
    using assms by (intro find_first_member) (auto simp: find_byte_def split: if_splits)
  then show "start \<le> i" "i < length hay" "hay ! i = c" by auto
qed

section \<open>Tool calls in the text of a response\<close>

definition add_recovered_named_tool_call ::
    "(string \<Rightarrow> 'd option) \<Rightarrow> sc_str \<Rightarrow> sc_str \<Rightarrow> nat \<Rightarrow> 'd sc_provider_response \<Rightarrow> sc_allocator \<Rightarrow>
       sc_status \<times> 'd sc_provider_response \<times> sc_allocator" where
  "add_recovered_named_tool_call strtod name args_json index response a =
     (if ptr_null name \<or> str_len name = 0 \<or> ptr_null args_json
      then (sc_status_invalid_argument ''sc.agent.text_tool_call.invalid_argument'', response, a)
      else (case fill (\<lambda>_. parse_json strtod args_json) (\<lambda>v c. c\<lparr>arguments := Some v\<rparr>)
                   (fill (\<lambda>_. sc_string_from_str args_json) (\<lambda>s c. c\<lparr>arguments_json := s\<rparr>)
                     (fill (\<lambda>_. sc_string_from_str name) (\<lambda>s c. c\<lparr>call_name := s\<rparr>)
                       (fill (\<lambda>_. sc_string_from_cstr (Some (''text-call-'' @ dec index))) (\<lambda>s c. c\<lparr>call_id := s\<rparr>)
                         (sc_status_ok, tool_call_zero, a)))) of
              (st, c, a1) \<Rightarrow>
                (if \<not> sc_status_is_ok st then (st, response, sc_provider_tool_call_clear c a1)
                 else (case sc_provider_response_add_tool_call response c a1 of
                         (st', response', a2) \<Rightarrow> (st', response', sc_provider_tool_call_clear c a2)))))"

text \<open>The name is the member \<open>name\<close>, or else \<open>tool\<close>; the arguments are \<open>arguments\<close>, or else \<open>args\<close>.\<close>

definition recovered_name :: "'d sc_json_value \<Rightarrow> sc_str" where
  "recovered_name root =
     (case sc_json_as_str (sc_json_object_get (Some root) (Str ''name'')) of
        Some n \<Rightarrow> n
      | None \<Rightarrow> (case sc_json_as_str (sc_json_object_get (Some root) (Str ''tool'')) of Some n \<Rightarrow> n | None \<Rightarrow> NullStr 0))"

definition recovered_args :: "'d sc_json_value \<Rightarrow> 'd sc_json_value option" where
  "recovered_args root =
     (case sc_json_object_get (Some root) (Str ''arguments'') of
        Some v \<Rightarrow> Some v
      | None \<Rightarrow> sc_json_object_get (Some root) (Str ''args''))"

definition add_recovered_json_tool_call ::
    "(string \<Rightarrow> 'd option) \<Rightarrow> ('d \<Rightarrow> string option) \<Rightarrow> sc_str \<Rightarrow> nat \<Rightarrow> 'd sc_provider_response \<Rightarrow> sc_allocator \<Rightarrow>
       sc_status \<times> 'd sc_provider_response \<times> sc_allocator" where
  "add_recovered_json_tool_call strtod fmt payload index response a =
     (case parse_json strtod payload a of
        (Inl e, a1) \<Rightarrow> (e, response, a1)
      | (Inr root, a1) \<Rightarrow>
          (let name = recovered_name root in
           (case (if ptr_null name \<or> str_len name = 0
                  then (sc_status_parse ''sc.agent.text_tool_call.missing_name'', response, a1)
                  else (case recovered_args root of
                          None \<Rightarrow> (sc_status_parse ''sc.agent.text_tool_call.missing_arguments'', response, a1)
                        | Some args \<Rightarrow>
                            (case sc_json_serialize fmt args a1 of
                               (Inl e, a2) \<Rightarrow> (e, response, a2)
                             | (Inr j, a2) \<Rightarrow>
                                 (case add_recovered_named_tool_call strtod name (sc_string_as_str j) index response a2 of
                                    (st, response', a3) \<Rightarrow> (st, response', sc_string_clear j a3))))) of
              (st, response', a4) \<Rightarrow> (st, response', sc_json_destroy root a4))))"

text \<open>
  A mark found in the text: what it is, a call to add or text that stays visible, and where the scan goes on. \<open>Stop\<close>
  makes the rest of the text, from the mark on, visible and ends the scan.
\<close>

datatype mark = Stop | Visible nat | Json_call string nat | Named_call string string nat

definition read_mark :: "string \<Rightarrow> bool \<Rightarrow> nat \<Rightarrow> mark" where
  "read_mark src use_tool_call start =
     (if use_tool_call
      then (case find_literal src (start + length ''<tool_call>'') ''</tool_call>'' of
              None \<Rightarrow> Stop
            | Some fin \<Rightarrow>
                Json_call (trim_ascii (take (fin - (start + length ''<tool_call>'')) (drop (start + length ''<tool_call>'') src)))
                  (fin + length ''</tool_call>''))
      else (case (find_literal src start ''name=\"'', find_byte src start CHR ''>'') of
              (Some name_start, Some tag_end) \<Rightarrow>
                (case find_literal src (tag_end + 1) ''</tool>'' of
                   None \<Rightarrow> Stop
                 | Some fin \<Rightarrow>
                     (if name_start > tag_end then Stop
                      else (let ns = name_start + length ''name=\"'' in
                            (case find_byte src ns CHR 0x22 of
                               None \<Rightarrow> Visible (fin + length ''</tool>'')
                             | Some name_end \<Rightarrow>
                                 (if name_end > tag_end then Visible (fin + length ''</tool>'')
                                  else Named_call (take (name_end - ns) (drop ns src)) (trim_ascii (take (fin - tag_end - 1) (drop (tag_end + 1) src)))
                                         (fin + length ''</tool>''))))))
            | _ \<Rightarrow> Stop))"

definition next_mark :: "string \<Rightarrow> nat \<Rightarrow> (bool \<times> nat) option" where
  "next_mark src pos =
     (case (find_literal src pos ''<tool_call>'', find_literal src pos ''<tool '') of
        (None, None) \<Rightarrow> None
      | (Some i, None) \<Rightarrow> Some (True, i)
      | (None, Some j) \<Rightarrow> Some (False, j)
      | (Some i, Some j) \<Rightarrow> (if i < j then Some (True, i) else Some (False, j)))"
fun mark_end :: "mark \<Rightarrow> nat" where
  "mark_end Stop = 0"
| "mark_end (Visible n) = n"
| "mark_end (Json_call p n) = n"
| "mark_end (Named_call name args n) = n"

lemma next_mark_bounds: "next_mark src pos = Some (use, start) \<Longrightarrow> pos \<le> start"
  by (auto simp: next_mark_def split: option.splits if_splits dest: find_literal_bounds)

lemma read_mark_end: "read_mark src use start = m \<Longrightarrow> m \<noteq> Stop \<Longrightarrow> start < mark_end m"
  by (auto simp: read_mark_def Let_def split: option.splits if_splits dest!: find_literal_bounds(1) find_byte_bounds(1))

definition try_mark ::
    "(string \<Rightarrow> 'd option) \<Rightarrow> ('d \<Rightarrow> string option) \<Rightarrow> mark \<Rightarrow> nat \<Rightarrow> 'd sc_provider_response \<Rightarrow> sc_allocator \<Rightarrow>
       bool \<times> 'd sc_provider_response \<times> sc_allocator" where
  "try_mark strtod fmt m index response a =
     (case m of
        Json_call payload n \<Rightarrow>
          (case add_recovered_json_tool_call strtod fmt (Str payload) index response a of
             (st, response', a') \<Rightarrow> (sc_status_is_ok st, response', a'))
      | Named_call name args n \<Rightarrow>
          (case add_recovered_named_tool_call strtod (Str name) (Str args) index response a of
             (st, response', a') \<Rightarrow> (sc_status_is_ok st, response', a'))
      | _ \<Rightarrow> (False, response, a))"

function recover_loop ::
    "(string \<Rightarrow> 'd option) \<Rightarrow> ('d \<Rightarrow> string option) \<Rightarrow> string \<Rightarrow> nat \<Rightarrow> nat \<Rightarrow> bool \<Rightarrow> 'd sc_provider_response \<Rightarrow> sc_string_builder \<Rightarrow> sc_allocator \<Rightarrow>
       sc_status \<times> bool \<times> 'd sc_provider_response \<times> sc_string_builder \<times> sc_allocator" where
  "recover_loop strtod fmt src pos recovered changed response visible a =
     (if pos \<ge> length src then (sc_status_ok, changed, response, visible, a)
      else (case next_mark src pos of
              None \<Rightarrow>
                (case sc_string_builder_append visible (Str (drop pos src)) a of
                   (st, visible', a') \<Rightarrow> (st, changed, response, visible', a'))
            | Some (use_tool_call, start) \<Rightarrow>
                (case sc_string_builder_append visible (Str (take (start - pos) (drop pos src))) a of
                   (st, visible1, a1) \<Rightarrow>
                     (if \<not> sc_status_is_ok st then (st, changed, response, visible1, a1)
                      else (let m = read_mark src use_tool_call start in
                            (if m = Stop
                             then (case sc_string_builder_append visible1 (Str (drop start src)) a1 of
                                     (st', visible', a') \<Rightarrow> (st', changed, response, visible', a'))
                             else (case try_mark strtod fmt m (Suc recovered) response a1 of
                                     (added, response', a2) \<Rightarrow>
                                       (if added then recover_loop strtod fmt src (mark_end m) (Suc recovered) True response' visible1 a2
                                        else (case sc_string_builder_append visible1 (Str (take (mark_end m - start) (drop start src))) a2 of
                                                (st2, visible2, a3) \<Rightarrow>
                                                  (if sc_status_is_ok st2
                                                   then recover_loop strtod fmt src (mark_end m) recovered changed response' visible2 a3
                                                   else (st2, changed, response', visible2, a3)))))))))))"
  by pat_completeness auto
termination
proof (relation "measure (\<lambda>(strtod, fmt, src, pos, rest). length src - pos)", goal_cases)
  case 1
  show ?case by simp
next
  case (2 strtod fmt src pos recovered changed response visible a p use start)
  then have "pos \<le> start" "start < mark_end (read_mark src use start)" by (auto dest: next_mark_bounds intro: read_mark_end)
  with 2 show ?case by auto
next
  case (3 strtod fmt src pos recovered changed response visible a p use start)
  then have "pos \<le> start" "start < mark_end (read_mark src use start)" by (auto dest: next_mark_bounds intro: read_mark_end)
  with 3 show ?case by auto
qed

declare recover_loop.simps [simp del]

definition recover_text_tool_calls ::
    "(string \<Rightarrow> 'd option) \<Rightarrow> ('d \<Rightarrow> string option) \<Rightarrow> 'd sc_provider_response \<Rightarrow> sc_allocator \<Rightarrow>
       sc_status \<times> 'd sc_provider_response \<times> sc_allocator" where
  "recover_text_tool_calls strtod fmt response a =
     (if string_len (rs_text response) = 0 then (sc_status_ok, response, a)
      else (case recover_loop strtod fmt (owned_text (rs_text response)) 0 0 False response sc_string_builder_init a of
              (st, changed, response', visible, a1) \<Rightarrow>
                (if sc_status_is_ok st \<and> changed
                 then (case sc_string_builder_finish visible of
                         (t, _) \<Rightarrow> (sc_status_ok, response'\<lparr>rs_text := t\<rparr>, sc_string_clear (rs_text response') a1))
                 else (st, response', snd (sc_string_builder_clear visible a1)))))"

section \<open>Receipts in the output\<close>

definition receipt_line :: "sc_tool_receipt \<Rightarrow> sc_str list" where
  "receipt_line r = [Str ''[receipt: '', sc_string_as_str (rc_token r), Str ''] '', sc_string_as_str (rc_tool_name r), Str '' '',
     sc_string_as_str (rc_outcome r), Str [CHR 0x0A]]"

definition append_receipt_block_to_output ::
    "sc_security_policy option \<Rightarrow> 'd sc_agent_turn_result \<Rightarrow> sc_allocator \<Rightarrow> sc_status \<times> 'd sc_agent_turn_result \<times> sc_allocator" where
  "append_receipt_block_to_output policy out a =
     (if (case policy of None \<Rightarrow> True | Some p \<Rightarrow> \<not> receipts_enabled p \<or> \<not> receipts_show_in_response p) \<or> items (receipts (ar_receipts out)) = []
      then (sc_status_ok, out, a)
      else (case build_string (sc_string_as_str (ar_output out) # Str ([CHR 0x0A, CHR 0x0A] @ ''Tool receipts:'' @ [CHR 0x0A]) #
                   concat (map receipt_line (items (receipts (ar_receipts out))))) a of
              (Inl e, a1) \<Rightarrow> (e, out, a1)
            | (Inr t, a1) \<Rightarrow> (sc_status_ok, out\<lparr>ar_output := t\<rparr>, sc_string_clear (ar_output out) a1)))"

definition token_ends :: "char \<Rightarrow> bool" where
  "token_ends c \<longleftrightarrow> c = CHR '' '' \<or> c = CHR 0x09 \<or> c = CHR 0x0D \<or> c = CHR 0x0A \<or> c = CHR '']'' \<or> c = CHR '')'' \<or> c = CHR '','' \<or> c = CHR ''.''"

text \<open>Where the text goes on behind a token that starts at a position.\<close>

definition skip_end :: "string \<Rightarrow> nat \<Rightarrow> nat option" where
  "skip_end input i =
     (if take 21 (drop i input) = ''[receipt: sc-receipt-''
      then (case find_byte input i CHR '']'' of None \<Rightarrow> None | Some k \<Rightarrow> Some (k + 1))
      else if take 11 (drop i input) = ''sc-receipt-''
      then Some (i + 11 + length (takeWhile (\<lambda>c. \<not> token_ends c) (drop (i + 11) input)))
      else None)"

lemma skip_end_grows: "skip_end input i = Some k \<Longrightarrow> i < k"
  by (auto simp: skip_end_def split: if_splits option.splits dest: find_byte_bounds)

function strip_loop ::
    "string \<Rightarrow> nat \<Rightarrow> nat \<Rightarrow> bool \<Rightarrow> sc_string_builder \<Rightarrow> sc_allocator \<Rightarrow> sc_status \<times> nat \<times> bool \<times> sc_string_builder \<times> sc_allocator" where
  "strip_loop input i start changed b a =
     (if i \<ge> length input then (sc_status_ok, start, changed, b, a)
      else (case skip_end input i of
              None \<Rightarrow> strip_loop input (i + 1) start changed b a
            | Some k \<Rightarrow>
                (case (if i > start then sc_string_builder_append b (Str (take (i - start) (drop start input))) a else (sc_status_ok, b, a)) of
                   (st, b', a') \<Rightarrow>
                     (if sc_status_is_ok st then strip_loop input k k True b' a' else (st, k, True, b', a')))))"
  by pat_completeness auto
termination
  by (relation "measure (\<lambda>(input, i, rest). length input - i)") (auto dest: skip_end_grows)

declare strip_loop.simps [simp del]

definition strip_receipt_tokens_from_output ::
    "'d sc_agent_turn_result \<Rightarrow> sc_allocator \<Rightarrow> sc_status \<times> 'd sc_agent_turn_result \<times> sc_allocator" where
  "strip_receipt_tokens_from_output out a =
     (let input = owned_text (ar_output out) in
      (if string_len (ar_output out) = 0 then (sc_status_ok, out, a)
       else (case strip_loop input 0 0 False sc_string_builder_init a of
               (st, start, changed, b, a1) \<Rightarrow>
                 (if sc_status_is_ok st \<and> \<not> changed then (sc_status_ok, out, snd (sc_string_builder_clear b a1))
                  else (case (if sc_status_is_ok st \<and> start < length input
                              then sc_string_builder_append b (Str (drop start input)) a1 else (st, b, a1)) of
                          (st', b', a2) \<Rightarrow>
                            (if sc_status_is_ok st'
                             then (case sc_string_builder_finish b' of
                                     (t, _) \<Rightarrow> (sc_status_ok, out\<lparr>ar_output := t\<rparr>, sc_string_clear (ar_output out) a2))
                             else (st', out, snd (sc_string_builder_clear b' a2))))))))"
section \<open>What is left of a text with receipts\<close>

text \<open>The text without the tokens, read from the left.\<close>

function stripped :: "string \<Rightarrow> string" where
  "stripped s =
     (case skip_end s 0 of
        Some k \<Rightarrow> stripped (drop k s)
      | None \<Rightarrow> (case s of [] \<Rightarrow> [] | c # cs \<Rightarrow> c # stripped cs))"
  by pat_completeness auto
termination
proof (relation "measure length", goal_cases)
  case (3 s k)
  from skip_end_grows [OF 3] have "0 < k" .
  moreover from 3 have "s \<noteq> []" by (auto simp: skip_end_def find_byte_def)
  ultimately show ?case by simp
qed auto

declare stripped.simps [simp del]

lemma find_first_shift: "find_first P (map (\<lambda>j. i + j) xs) = map_option (\<lambda>j. i + j) (find_first (\<lambda>j. P (i + j)) xs)"
  by (simp add: find_first_map comp_def)

lemma skip_end_drop:
  assumes "i \<le> length input"
  shows "skip_end input i = map_option (\<lambda>k. i + k) (skip_end (drop i input) 0)"
proof -
  have "[i ..< length input] = map (\<lambda>j. i + j) [0 ..< length input - i]" using assms by (simp add: map_add_upt add.commute)
  then have "find_byte input i c = map_option (\<lambda>k. i + k) (find_byte (drop i input) 0 c)" for c
    using assms find_first_shift [of "\<lambda>j. input ! j = c" i] by (simp add: find_byte_def)
  then show ?thesis by (auto simp: skip_end_def add.commute split: option.splits)
qed

lemma skip_end_length:
  assumes "skip_end input i = Some k" "i \<le> length input"
  shows "k \<le> length input"
proof -
  have "i + 11 \<le> length input" if "take 11 (drop i input) = ''sc-receipt-''"
    using arg_cong [OF that, of length] by simp
  moreover have "length (takeWhile (\<lambda>c. \<not> token_ends c) (drop (i + 11) input)) \<le> length input - (i + 11)"
    using length_takeWhile_le [of "\<lambda>c. \<not> token_ends c" "drop (i + 11) input"] by simp
  ultimately show ?thesis using assms(1)
    by (auto simp: skip_end_def split: if_splits option.splits dest: find_byte_bounds)
qed

lemma strip_loop_text:
  assumes "strip_loop input i start changed b a = (st, start', changed', b', a')" "sc_status_is_ok st" "bytes_inv b" "start \<le> i" "i \<le> length input"
  shows "contents b' @ drop start' input = contents b @ take (i - start) (drop start input) @ stripped (drop i input) \<and>
    (\<not> changed' \<longrightarrow> \<not> changed \<and> b' = b \<and> start' = start) \<and> start' \<le> length input \<and> bytes_inv b'"
  using assms
proof (induction input i start changed b a rule: strip_loop.induct)
  case (1 input i start changed b a)
  note run = 1(3) [unfolded strip_loop.simps [of input i start changed b a]]
  show ?case
  proof (cases "i \<ge> length input")
    case True
    with run have "start' = start" "changed' = changed" "b' = b" by simp_all
    moreover have "stripped [] = []" by (subst stripped.simps) (simp add: skip_end_def)
    ultimately show ?thesis using True 1(5,6,7) by simp
  next
    case lt: False
    show ?thesis
    proof (cases "skip_end input i")
      case None
      then have "stripped (drop i input) = input ! i # stripped (drop (i + 1) input)"
        using lt skip_end_drop [of i input] by (subst stripped.simps) (auto simp: Cons_nth_drop_Suc [symmetric])
      moreover have "take (i + 1 - start) (drop start input) = take (i - start) (drop start input) @ [input ! i]"
        using lt 1(6) by (simp add: Suc_diff_le take_Suc_conv_app_nth)
      moreover have "strip_loop input (i + 1) start changed b a = (st, start', changed', b', a')"
        using run lt None by simp
      ultimately show ?thesis using 1(1) [OF lt None] 1(4-7) lt by simp
    next
      case (Some k)
      have k: "i < k" "k \<le> length input" using skip_end_grows [OF Some] skip_end_length [OF Some 1(7)] by auto
      have s: "stripped (drop i input) = stripped (drop k input)"
        using Some skip_end_drop [OF 1(7)] by (subst stripped.simps) (auto simp: add.commute split: option.splits)
      let ?app = "if i > start then sc_string_builder_append b (Str (take (i - start) (drop start input))) a else (sc_status_ok, b, a)"
      obtain st1 b1 a1 where app: "?app = (st1, b1, a1)" by (cases ?app)
      have ok: "sc_status_is_ok st1" using run 1(4) lt Some app by (auto split: if_splits)
      have b1: "contents b1 = contents b @ take (i - start) (drop start input) \<and> bytes_inv b1"
        using app ok 1(5,6) builder_append_spec(1,3) [of b "Str (take (i - start) (drop start input))" a st1 b1 a1] by (auto split: if_splits)
      have rec: "strip_loop input k k True b1 a1 = (st, start', changed', b', a')"
        using run lt Some app ok by simp
      from 1(2) [OF lt Some app [symmetric] refl ok rec 1(4)] b1 k s show ?thesis by auto
    qed
  qed
qed

lemma strip_receipt_text:
  assumes "strip_receipt_tokens_from_output out a = (st, out', a')" "sc_status_is_ok st" "ar_output out = Some t" "t \<noteq> []"
  shows "owned_text (ar_output out') = stripped t"
proof -
  obtain st1 start changed b a1 where loop: "strip_loop t 0 0 False sc_string_builder_init a = (st1, start, changed, b, a1)"
    by (cases "strip_loop t 0 0 False sc_string_builder_init a")
  have ok: "sc_status_is_ok st1"
    using assms loop by (auto simp: strip_receipt_tokens_from_output_def Let_def split: if_splits prod.splits)
  have b0: "bytes_inv sc_string_builder_init" "contents sc_string_builder_init = []" by (simp_all add: sc_string_builder_init_def sc_bytes_init_def bytes_zero_def bytes_inv_def)
  note l = strip_loop_text [OF loop ok b0(1)]
  have body: "contents b @ drop start t = stripped t" "start \<le> length t" "bytes_inv b" "\<not> changed \<Longrightarrow> b = sc_string_builder_init \<and> start = 0"
    using l b0(2) by auto
  show ?thesis
  proof (cases changed)
    case False
    then have "out' = out" using assms loop ok by (auto simp: strip_receipt_tokens_from_output_def Let_def)
    with body(1,4) False b0(2) assms(3) show ?thesis by simp
  next
    case True
    let ?app = "if start < length t then sc_string_builder_append b (Str (drop start t)) a1 else (st1, b, a1)"
    obtain st2 b2 a2 where app: "?app = (st2, b2, a2)" by (cases ?app)
    have ok2: "sc_status_is_ok st2"
      using assms loop ok True app by (auto simp: strip_receipt_tokens_from_output_def Let_def split: if_splits prod.splits)
    have "contents b2 = stripped t" "bytes_inv b2"
      using app ok2 body(1-3) builder_append_spec(1,3) [of b "Str (drop start t)" a1 st2 b2 a2] by (auto split: if_splits)
    then show ?thesis using assms loop ok True app ok2
      by (auto simp: strip_receipt_tokens_from_output_def Let_def sc_string_builder_finish_def bytes_inv_def split: if_splits prod.splits)
  qed
qed

end
