(* ===== verification/SC_Tool_Loop.thy ===== *)
theory SC_Tool_Loop
  imports SC_Turn_Text
begin

text \<open>
  The loop of an agent's turn, \<^verbatim>\<open>src/runtime/agent.c\<close>: the provider is asked, the tool calls of its response are executed, their
  results go back into the prompt, and so on until a response has no tool call, up to \<^verbatim>\<open>max_tool_iterations\<close> times. The turn
  is not a streaming one.
\<close>

section \<open>The agent and the state of a loop\<close>

text \<open>
  What the loop needs of its surroundings: the two clocks, libsodium, and the thread-local approval override, which lives in
  the world the tools look at.
\<close>

record 'w runtime_env =
  rt_monotonic :: "'w \<Rightarrow> timespec \<times> 'w"
  rt_wall :: "'w \<Rightarrow> timespec \<times> 'w"
  rt_sodium :: sodium
  rt_set_override :: "sc_str \<Rightarrow> 'w \<Rightarrow> 'w"

record ('d, 'w) sc_agent =
  sa_provider :: "('d, 'w, unit) sc_provider option"
  sa_observer :: "(sc_str \<Rightarrow> sc_str \<Rightarrow> 'w \<Rightarrow> sc_status \<times> 'w) option"
  sa_policy :: "sc_security_policy option"
  sa_tools :: "('d, 'w) sc_tool option list"
  sa_model :: sc_string
  sa_identity :: sc_string
  sa_max_tool_iterations :: nat
  sa_max_tool_output_bytes :: nat

text \<open>The variables of \<^verbatim>\<open>run_provider_loop\<close> and of the body of \<^verbatim>\<open>execute_tool_calls\<close>, with the allocator and the world.\<close>

record ('d, 'w) loop_state =
  lp_alloc :: sc_allocator
  lp_world :: 'w
  lp_out :: "'d sc_agent_turn_result"
  lp_output :: sc_string_builder
  lp_prompt :: sc_string_builder
  lp_response :: "'d sc_provider_response"
  lp_feedback :: sc_string_builder
  lp_denials :: "tool_approval_denial sc_vec"
  lp_grants :: "tool_approval_grant sc_vec"
  lp_successes :: "tool_success_cache sc_vec"
  lp_failures :: "tool_terminal_failure sc_vec"
  lp_result :: sc_tool_result
  lp_args_summary :: sc_string
  lp_output_summary :: sc_string

type_synonym ('d, 'w) loop_step = "('d, 'w) loop_state \<Rightarrow> sc_status \<times> ('d, 'w) loop_state"

text \<open>The idiom \<^verbatim>\<open>if (sc_status_is_ok(status)) { status = ...; }\<close>, step after step, and a step with a condition of its own.\<close>

fun run_steps :: "('s \<Rightarrow> sc_status \<times> 's) list \<Rightarrow> sc_status \<times> 's \<Rightarrow> sc_status \<times> 's" where
  "run_steps [] r = r"
| "run_steps (f # fs) (st, s) = (if sc_status_is_ok st then run_steps fs (f s) else (st, s))"

definition step_if :: "bool \<Rightarrow> ('s \<Rightarrow> sc_status \<times> 's) \<Rightarrow> 's \<Rightarrow> sc_status \<times> 's" where
  "step_if b f s = (if b then f s else (sc_status_ok, s))"

definition event_step ::
    "('d, 'w) sc_turn \<Rightarrow> sc_turn_event_type \<Rightarrow> sc_str \<Rightarrow> sc_str \<Rightarrow> sc_status_code \<Rightarrow> ('d, 'w) loop_step" where
  "event_step turn ty name msg st_code s =
     (case turn_add_event turn (lp_out s) ty name msg st_code (lp_alloc s) (lp_world s) of
        (st, out, a, w) \<Rightarrow> (st, s\<lparr>lp_out := out, lp_alloc := a, lp_world := w\<rparr>))"

definition agent_emit_observer :: "('d, 'w) sc_agent \<Rightarrow> sc_str \<Rightarrow> sc_str \<Rightarrow> 'w \<Rightarrow> sc_status \<times> 'w" where
  "agent_emit_observer agent name status_text w =
     (case sa_observer agent of None \<Rightarrow> (sc_status_ok, w) | Some emit \<Rightarrow> emit name status_text w)"

definition observer_step :: "('d, 'w) sc_agent \<Rightarrow> sc_str \<Rightarrow> sc_str \<Rightarrow> ('d, 'w) loop_step" where
  "observer_step agent name status_text s =
     (case agent_emit_observer agent name status_text (lp_world s) of (st, w) \<Rightarrow> (st, s\<lparr>lp_world := w\<rparr>))"

definition agent_receipts_enabled :: "('d, 'w) sc_agent \<Rightarrow> bool" where
  "agent_receipts_enabled agent \<longleftrightarrow> (case sa_policy agent of None \<Rightarrow> True | Some p \<Rightarrow> receipts_enabled p)"

section \<open>Running one tool\<close>

text \<open>The call, with the approval override set around it when the call was granted.\<close>

definition invoke_tool ::
    "'w runtime_env \<Rightarrow> bool \<Rightarrow> ('d, 'w) sc_tool \<Rightarrow> sc_str \<Rightarrow> 'd sc_tool_call \<Rightarrow> ('d, 'w) loop_step" where
  "invoke_tool env granted tool name call s =
     (case sc_tool_invoke (Some tool) (if granted then rt_set_override env (sc_tool_approval_override_set name) (lp_world s) else lp_world s)
             call (lp_result s) (lp_alloc s) of
        (st, r, a, w) \<Rightarrow>
          (st, s\<lparr>lp_result := r, lp_alloc := a,
             lp_world := (if granted then rt_set_override env sc_tool_approval_override_clear w else w)\<rparr>))"

text \<open>The tests before the call, in order; the first that fails gives the status.\<close>

definition call_gates ::
    "('d, 'w) sc_turn \<Rightarrow> tool_approval_denial sc_vec \<Rightarrow> 'd sc_tool_spec \<Rightarrow> 'd sc_provider_tool_call \<Rightarrow> sc_status" where
  "call_gates turn denials spec pc =
     (let injection = sc_security_validate_prompt_injection (sc_string_as_str (arguments_json pc));
          args = validate_tool_call_args spec pc in
      (if \<not> turn_autonomy_allows_spec turn spec then sc_status_security_denied ''sc.agent.tool_loop.autonomy_denied''
       else if \<not> sc_status_is_ok injection then injection
       else if \<not> sc_status_is_ok args then args
       else if approval_denials_contains denials pc then sc_status_security_denied ''sc.tool.approval_declined''
       else sc_status_ok))"

text \<open>The tool asks for an approval: the user is asked, and the tool runs again if the user grants the call.\<close>

definition ask_and_invoke ::
    "'w runtime_env \<Rightarrow> ('d, 'w) sc_turn \<Rightarrow> ('d, 'w) sc_tool \<Rightarrow> 'd sc_provider_tool_call \<Rightarrow> 'd sc_tool_call \<Rightarrow> ('d, 'w) loop_step" where
  "ask_and_invoke env turn tool pc call s =
     (case request_turn_tool_approval turn pc (sc_tool_result_clear (lp_result s) (lp_alloc s)) (lp_world s) of
        (ast, approved, a, w) \<Rightarrow>
          (let s1 = s\<lparr>lp_result := tool_result_zero, lp_alloc := a, lp_world := w\<rparr> in
           (if \<not> sc_status_is_ok ast then (ast, s1)
            else if \<not> approved
            then (case approval_denials_add (lp_denials s1) pc a of
                    (st, ds, a') \<Rightarrow>
                      ((if sc_status_is_ok st then sc_status_security_denied ''sc.tool.approval_declined'' else st),
                       s1\<lparr>lp_denials := ds, lp_alloc := a'\<rparr>))
            else (case approval_grants_add (lp_grants s1) pc a of
                    (st, gs, a') \<Rightarrow>
                      (let s2 = s1\<lparr>lp_grants := gs, lp_alloc := a'\<rparr> in
                       (if sc_status_is_ok st then invoke_tool env True tool (sc_string_as_str (call_name pc)) call s2 else (st, s2)))))))"

definition fresh_call ::
    "'w runtime_env \<Rightarrow> ('d, 'w) sc_turn \<Rightarrow> ('d, 'w) sc_tool \<Rightarrow> 'd sc_provider_tool_call \<Rightarrow> ('d, 'w) loop_step" where
  "fresh_call env turn tool pc s =
     (case sc_tool_spec_get (Some tool) of
        Inl e \<Rightarrow> (e, s)
      | Inr spec \<Rightarrow>
          (let gates = call_gates turn (lp_denials s) spec pc in
           (if \<not> sc_status_is_ok gates then (gates, s)
            else (case sc_provider_tool_call_as_tool_call pc of
                    Inl e \<Rightarrow> (e, s)
                  | Inr (cid, args) \<Rightarrow>
                      (let call = \<lparr>tc_call_id = cid, tc_args = Some args, tc_cancel_requested = False\<rparr> in
                       (case invoke_tool env (approval_grants_contains (lp_grants s) pc) tool (sc_string_as_str (call_name pc)) call s of
                          (st, s1) \<Rightarrow>
                            (if tool_status_is_approval_required st then ask_and_invoke env turn tool pc call s1 else (st, s1))))))))"

text \<open>A call that succeeded before is not made again: its result is reused, and counted in place.\<close>

definition replay_call :: "nat \<Rightarrow> ('d, 'w) loop_step" where
  "replay_call i s =
     (let e = items (lp_successes s) ! i in
      (case tool_result_from_success_cache e (lp_alloc s) of
         (st, r, a) \<Rightarrow>
           (st, s\<lparr>lp_result := r, lp_alloc := a,
              lp_successes := (if sc_status_is_ok st
                then (lp_successes s)\<lparr>items := (items (lp_successes s))[i := e\<lparr>sk_replay_count := sk_replay_count e + 1\<rparr>]\<rparr>
                else lp_successes s)\<rparr>)))"

text \<open>The status of the call, whether the result was reused, and whether the loop is to stop.\<close>

definition call_tool ::
    "'w runtime_env \<Rightarrow> ('d, 'w) sc_agent \<Rightarrow> ('d, 'w) sc_turn \<Rightarrow> 'd sc_provider_tool_call \<Rightarrow> ('d, 'w) loop_state \<Rightarrow>
       sc_status \<times> bool \<times> bool \<times> ('d, 'w) loop_state" where
  "call_tool env agent turn pc s =
     (let name = sc_string_as_str (call_name pc) in
      (if \<not> turn_allows_tool turn name then (sc_status_security_denied ''sc.agent.tool_loop.filtered_tool'', False, False, s)
       else (case find_tool_by_name (sa_tools agent) name of
               None \<Rightarrow> (sc_status_invalid_argument ''sc.agent.tool_loop.unknown_tool'', False, False, s)
             | Some tool \<Rightarrow>
                 (if tool_terminal_failures_contains (lp_failures s) pc
                  then (sc_status_unsupported ''sc.agent.tool_loop.repeated_terminal_failure'', False, False, s)
                  else (case tool_success_cache_find (lp_successes s) pc of
                          Some i \<Rightarrow>
                            (case replay_call i s of
                               (st, s1) \<Rightarrow> (st, True, sk_replay_count (items (lp_successes s) ! i) > 0, s1))
                        | None \<Rightarrow>
                            (case tool_success_cache_find_attachment_by_name (lp_successes s) pc of
                               Some i \<Rightarrow> (case replay_call i s of (st, s1) \<Rightarrow> (st, True, True, s1))
                             | None \<Rightarrow> (case fresh_call env turn tool pc s of (st, s1) \<Rightarrow> (st, False, False, s1))))))))"
section \<open>Writing down what a tool did\<close>

definition failure_step :: "'d sc_provider_tool_call \<Rightarrow> sc_status \<Rightarrow> ('d, 'w) loop_step" where
  "failure_step pc tst s =
     (case tool_terminal_failures_add (lp_failures s) pc tst (lp_alloc s) of
        (st, fs, a) \<Rightarrow> (st, s\<lparr>lp_failures := fs, lp_alloc := a\<rparr>))"

definition success_step :: "'d sc_provider_tool_call \<Rightarrow> ('d, 'w) loop_step" where
  "success_step pc s =
     (case tool_success_cache_add (lp_successes s) pc (lp_result s) (lp_alloc s) of
        (st, es, a) \<Rightarrow> (st, s\<lparr>lp_successes := es, lp_alloc := a\<rparr>))"

definition count_call :: "('d, 'w) loop_state \<Rightarrow> ('d, 'w) loop_state" where
  "count_call s = s\<lparr>lp_out := (lp_out s)\<lparr>ar_tool_call_count := ar_tool_call_count (lp_out s) + 1\<rparr>\<rparr>"

definition summary_step ::
    "sc_str \<Rightarrow> (sc_string \<Rightarrow> ('d, 'w) loop_state \<Rightarrow> ('d, 'w) loop_state) \<Rightarrow> ('d, 'w) loop_step" where
  "summary_step v put s =
     (case receipt_summary_for_turn v (lp_alloc s) of
        (Inl e, a) \<Rightarrow> (e, s\<lparr>lp_alloc := a\<rparr>)
      | (Inr t, a) \<Rightarrow> (sc_status_ok, put t (s\<lparr>lp_alloc := a\<rparr>)))"

definition call_succeeded :: "sc_status \<Rightarrow> ('d, 'w) loop_state \<Rightarrow> bool" where
  "call_succeeded tst s \<longleftrightarrow> sc_status_is_ok tst \<and> tr_success (lp_result s)"

text \<open>What the call delivered: its output, or the key of its error.\<close>

definition call_output :: "sc_status \<Rightarrow> ('d, 'w) loop_state \<Rightarrow> sc_str" where
  "call_output tst s = (if sc_status_is_ok tst then sc_string_as_str (tr_output (lp_result s)) else error_key_or tst ''tool_error'')"

definition receipt_step :: "'w runtime_env \<Rightarrow> 'd sc_provider_tool_call \<Rightarrow> sc_status \<Rightarrow> ('d, 'w) loop_step" where
  "receipt_step env pc tst s =
     (case rt_wall env (lp_world s) of
        (ts, w) \<Rightarrow>
          (case sc_receipt_chain_append_ex (rt_sodium env) ts (ar_receipts (lp_out s)) (sc_string_as_str (call_name pc))
                  (sc_string_as_str (lp_args_summary s)) (sc_string_as_str (lp_output_summary s)) (call_succeeded tst s)
                  (tool_policy_decision tst) (tool_failure_reason tst) (tool_outcome tst (call_succeeded tst s)) (lp_alloc s) of
             (st, chain, a) \<Rightarrow> (st, s\<lparr>lp_out := (lp_out s)\<lparr>ar_receipts := chain\<rparr>, lp_alloc := a, lp_world := w\<rparr>)))"

definition attachment_step :: "('d, 'w) loop_step" where
  "attachment_step s =
     (case result_copy_tool_attachment (lp_out s) (lp_result s) (lp_alloc s) of
        (st, out, a) \<Rightarrow> (st, s\<lparr>lp_out := out, lp_alloc := a\<rparr>))"

definition feedback_step :: "sc_str \<Rightarrow> ('d, 'w) loop_step" where
  "feedback_step v s =
     (case sc_string_builder_append (lp_feedback s) v (lp_alloc s) of
        (st, b, a) \<Rightarrow> (st, s\<lparr>lp_feedback := b, lp_alloc := a\<rparr>))"

definition feedback_output_step :: "('d, 'w) sc_agent \<Rightarrow> sc_status \<Rightarrow> ('d, 'w) loop_step" where
  "feedback_output_step agent tst s =
     (case append_bounded (lp_feedback s) (call_output tst s) (sa_max_tool_output_bytes agent) (lp_alloc s) of
        (st, b, a) \<Rightarrow> (st, s\<lparr>lp_feedback := b, lp_alloc := a\<rparr>))"

definition call_denied :: "sc_status \<Rightarrow> bool" where
  "call_denied tst \<longleftrightarrow> \<not> sc_status_is_ok tst \<and>
     (code tst = SC_ERR_SECURITY_DENIED \<or> code tst = SC_ERR_INVALID_ARGUMENT \<or> tool_status_is_approval_required tst)"

text \<open>The events, the receipt, the attachment and the feedback for the next prompt, in the order of the code.\<close>

definition record_steps ::
    "'w runtime_env \<Rightarrow> ('d, 'w) sc_agent \<Rightarrow> ('d, 'w) sc_turn \<Rightarrow> 'd sc_provider_tool_call \<Rightarrow> sc_status \<Rightarrow> ('d, 'w) loop_step list" where
  "record_steps env agent turn pc tst =
     (let name = sc_string_as_str (call_name pc); ok = sc_status_is_ok tst in
      [event_step turn SC_TURN_EVENT_TOOL_CALLED name (if ok then Str ''requested'' else Str ''denied_or_failed'') (code tst),
       step_if (call_denied tst) (event_step turn SC_TURN_EVENT_TOOL_DENIED name (error_key_or tst ''tool_denied'') (code tst)),
       event_step turn SC_TURN_EVENT_TOOL_RESULT name (if ok then Str ''completed'' else error_key_or tst ''tool_error'') (code tst),
       observer_step agent (if ok then Str ''runtime.tool.completed'' else Str ''runtime.tool.denied'')
         (if ok then Str ''ok'' else error_key_or tst ''error''),
       summary_step (sc_string_as_str (arguments_json pc)) (\<lambda>t s. s\<lparr>lp_args_summary := t\<rparr>),
       (\<lambda>s. summary_step (call_output tst s) (\<lambda>t s. s\<lparr>lp_output_summary := t\<rparr>) s),
       step_if (agent_receipts_enabled agent) (receipt_step env pc tst),
       (\<lambda>s. step_if (call_succeeded tst s) attachment_step s),
       feedback_step (Str ''tool=''),
       feedback_step name,
       feedback_step (Str '' success=''),
       (\<lambda>s. feedback_step (if call_succeeded tst s then Str ''true'' else Str ''false'') s),
       feedback_step (Str '' output=''),
       feedback_output_step agent tst,
       feedback_step (Str [CHR 0x0A])])"

definition record_call ::
    "'w runtime_env \<Rightarrow> ('d, 'w) sc_agent \<Rightarrow> ('d, 'w) sc_turn \<Rightarrow> 'd sc_provider_tool_call \<Rightarrow> sc_status \<Rightarrow> bool \<Rightarrow> ('d, 'w) loop_step" where
  "record_call env agent turn pc tst used s =
     (case run_steps [step_if (tool_status_is_turn_terminal tst) (failure_step pc tst),
                      (\<lambda>s. step_if (\<not> used \<and> call_succeeded tst s) (success_step pc) s)] (sc_status_ok, s) of
        (st, s1) \<Rightarrow> run_steps (record_steps env agent turn pc tst) (st, count_call s1))"

definition clear_locals :: "('d, 'w) loop_state \<Rightarrow> ('d, 'w) loop_state" where
  "clear_locals s =
     s\<lparr>lp_alloc := sc_string_clear (lp_output_summary s) (sc_string_clear (lp_args_summary s) (sc_tool_result_clear (lp_result s) (lp_alloc s))),
       lp_result := tool_result_zero, lp_args_summary := None, lp_output_summary := None\<rparr>"

definition one_call ::
    "'w runtime_env \<Rightarrow> ('d, 'w) sc_agent \<Rightarrow> ('d, 'w) sc_turn \<Rightarrow> int \<Rightarrow> 'd sc_provider_tool_call \<Rightarrow> ('d, 'w) loop_state \<Rightarrow>
       sc_status \<times> bool \<times> ('d, 'w) loop_state" where
  "one_call env agent turn deadline_ns pc s =
     (case turn_check_continue (rt_monotonic env) turn deadline_ns (lp_world s) of
        (c, w) \<Rightarrow>
          (let s0 = s\<lparr>lp_world := w\<rparr> in
           (if \<not> sc_status_is_ok c
            then ((if code c = SC_ERR_TIMEOUT then sc_status_timeout ''sc.agent.tool_loop.timeout''
                   else sc_status_cancelled ''sc.agent.tool_loop.cancelled''), False, s0)
            else (case call_tool env agent turn pc s0 of
                    (tst, used, stop, s1) \<Rightarrow>
                      (case record_call env agent turn pc tst used s1 of
                         (st, s2) \<Rightarrow>
                           ((if \<not> sc_status_is_ok tst \<and> code tst = SC_ERR_CANCELLED
                             then sc_status_cancelled ''sc.agent.tool_loop.cancelled'' else st), stop, clear_locals s2))))))"

text \<open>The calls of a response, one after the other. Every place of the vector holds a call.\<close>

fun execute_tool_calls ::
    "'w runtime_env \<Rightarrow> ('d, 'w) sc_agent \<Rightarrow> ('d, 'w) sc_turn \<Rightarrow> int \<Rightarrow> 'd sc_provider_tool_call list \<Rightarrow> ('d, 'w) loop_state \<Rightarrow>
       sc_status \<times> bool \<times> ('d, 'w) loop_state" where
  "execute_tool_calls env agent turn deadline_ns [] s = (sc_status_ok, False, s)"
| "execute_tool_calls env agent turn deadline_ns (pc # pcs) s =
     (case one_call env agent turn deadline_ns pc s of
        (st, stop, s1) \<Rightarrow>
          (if sc_status_is_ok st \<and> \<not> stop then execute_tool_calls env agent turn deadline_ns pcs s1 else (st, stop, s1)))"

section \<open>The loop\<close>

definition provider_request ::
    "('d, 'w) sc_agent \<Rightarrow> ('d, 'w) sc_turn \<Rightarrow> sc_str \<Rightarrow> ('d, 'w) loop_state \<Rightarrow> sc_provider_request" where
  "provider_request agent turn specs_json s =
     \<lparr>req_model = sc_string_as_str (sa_model agent), req_prompt = Str (contents (lp_prompt s)),
      req_system_instruction = sc_string_as_str (sa_identity agent), req_tool_specs_json = specs_json,
      req_media_count = tn_media_count turn, req_media_context = tn_media_context turn,
      req_cancel_requested = turn_cancel_requested turn (lp_world s), req_route_hint = tn_route_hint turn\<rparr>"

definition provider_request_once :: "('d, 'w) sc_agent \<Rightarrow> sc_provider_request \<Rightarrow> ('d, 'w) loop_step" where
  "provider_request_once agent request s =
     (case sc_provider_generate (sa_provider agent) (lp_world s) request (lp_response s) (lp_alloc s) of
        (st, r, a, w) \<Rightarrow> (st, s\<lparr>lp_response := r, lp_alloc := a, lp_world := w\<rparr>))"

definition recover_step :: "(string \<Rightarrow> 'd option) \<Rightarrow> ('d \<Rightarrow> string option) \<Rightarrow> ('d, 'w) loop_step" where
  "recover_step strtod fmt s =
     (case recover_text_tool_calls strtod fmt (lp_response s) (lp_alloc s) of
        (st, r, a) \<Rightarrow> (st, s\<lparr>lp_response := r, lp_alloc := a\<rparr>))"

definition usage_step :: "('d::plus, 'w) loop_step" where
  "usage_step s = (sc_status_ok, s\<lparr>lp_out := result_add_usage (lp_out s) (lp_response s)\<rparr>)"

definition malformed_step :: "('d, 'w) loop_step" where
  "malformed_step s =
     ((if malformed_tool_call (lp_response s) then sc_status_parse ''sc.agent.provider.malformed_tool_call'' else sc_status_ok), s)"

definition budget_step :: "('d::{zero, ord}, 'w) sc_turn \<Rightarrow> ('d, 'w) loop_step" where
  "budget_step turn s =
     (if result_exceeds_budget turn (lp_out s)
      then (sc_status_cancelled ''sc.agent.budget_exceeded'', s\<lparr>lp_out := (lp_out s)\<lparr>ar_budget_exceeded := True\<rparr>\<rparr>)
      else (sc_status_ok, s))"

definition output_step :: "sc_str \<Rightarrow> ('d, 'w) loop_step" where
  "output_step v s =
     (case sc_string_builder_append (lp_output s) v (lp_alloc s) of
        (st, b, a) \<Rightarrow> (st, s\<lparr>lp_output := b, lp_alloc := a\<rparr>))"

definition text_steps :: "('d, 'w) sc_turn \<Rightarrow> ('d, 'w) loop_step" where
  "text_steps turn s =
     (let t = sc_string_as_str (rs_text (lp_response s)) in
      step_if (string_len (rs_text (lp_response s)) > 0)
        (\<lambda>s. run_steps [output_step t, event_step turn SC_TURN_EVENT_TEXT_DELTA (Str ''assistant'') t SC_OK] (sc_status_ok, s)) s)"

text \<open>One request, up to the point where the response is known to be good.\<close>

definition ask_provider ::
    "(string \<Rightarrow> 'd option) \<Rightarrow> ('d \<Rightarrow> string option) \<Rightarrow> ('d::{zero, plus, ord}, 'w) sc_agent \<Rightarrow> ('d, 'w) sc_turn \<Rightarrow> sc_provider_request \<Rightarrow> ('d, 'w) loop_step" where
  "ask_provider strtod fmt agent turn request s =
     run_steps
       [event_step turn SC_TURN_EVENT_PROVIDER_STARTED (Str ''provider'') (Str ''started'') SC_OK,
        observer_step agent (Str ''runtime.provider.request.started'') (Str ''ok''),
        provider_request_once agent request,
        recover_step strtod fmt,
        usage_step,
        event_step turn SC_TURN_EVENT_PROVIDER_CALLED (Str ''provider'') (Str ''completed'') SC_OK,
        observer_step agent (Str ''runtime.provider.completed'') (Str ''ok''),
        malformed_step,
        budget_step turn,
        text_steps turn]
       (sc_status_ok, s\<lparr>lp_out := (lp_out s)\<lparr>ar_provider_call_count := ar_provider_call_count (lp_out s) + 1\<rparr>\<rparr>)"

definition clear_response :: "('d::zero, 'w) loop_state \<Rightarrow> ('d, 'w) loop_state" where
  "clear_response s = s\<lparr>lp_response := response_zero, lp_alloc := sc_provider_response_clear (lp_response s) (lp_alloc s)\<rparr>"

definition clear_feedback :: "('d, 'w) loop_state \<Rightarrow> ('d, 'w) loop_state" where
  "clear_feedback s =
     (case sc_string_builder_clear (lp_feedback s) (lp_alloc s) of (b, a) \<Rightarrow> s\<lparr>lp_feedback := b, lp_alloc := a\<rparr>)"

text \<open>A call that is repeated once too often ends the loop, with a sentence when there is no other output.\<close>

definition stop_text :: "('d, 'w) sc_turn \<Rightarrow> ('d, 'w) loop_step" where
  "stop_text turn s =
     (let fallback = Str (if has_attachment (ar_attachment_bytes (lp_out s)) then ''The requested tool result is attached.''
                          else ''The requested tool action completed.'') in
      step_if (contents (lp_output s) = [])
        (\<lambda>s. run_steps [output_step fallback, event_step turn SC_TURN_EVENT_TEXT_DELTA (Str ''assistant'') fallback SC_OK] (sc_status_ok, s)) s)"

definition prompt_step :: "sc_str \<Rightarrow> ('d, 'w) loop_step" where
  "prompt_step v s =
     (case sc_string_builder_append (lp_prompt s) v (lp_alloc s) of
        (st, b, a) \<Rightarrow> (st, s\<lparr>lp_prompt := b, lp_alloc := a\<rparr>))"

text \<open>The feedback becomes the next section of the prompt.\<close>

definition extend_prompt :: "('d, 'w) loop_step" where
  "extend_prompt s =
     (case sc_string_builder_finish (lp_feedback s) of
        (t, b) \<Rightarrow>
          (case run_steps [prompt_step (Str ([CHR 0x0A] @ ''## Tool results'' @ [CHR 0x0A])), prompt_step (sc_string_as_str t)]
                  (sc_status_ok, s\<lparr>lp_feedback := b\<rparr>) of
             (st, s1) \<Rightarrow> (st, s1\<lparr>lp_alloc := sc_string_clear t (lp_alloc s1)\<rparr>)))"

text \<open>\<open>left\<close> counts the iterations that may still start.\<close>

fun provider_loop ::
    "(string \<Rightarrow> 'd option) \<Rightarrow> ('d \<Rightarrow> string option) \<Rightarrow> 'w runtime_env \<Rightarrow> ('d::{zero, plus, ord}, 'w) sc_agent \<Rightarrow> ('d, 'w) sc_turn \<Rightarrow> sc_str \<Rightarrow> int \<Rightarrow>
       nat \<Rightarrow> ('d, 'w) loop_step" where
  "provider_loop strtod fmt env agent turn specs_json deadline_ns 0 s = (sc_status_cancelled ''sc.agent.tool_loop.max_iterations'', s)"
| "provider_loop strtod fmt env agent turn specs_json deadline_ns (Suc left) s =
     (let request = provider_request agent turn specs_json s in
      (case turn_check_continue (rt_monotonic env) turn deadline_ns (lp_world s) of
         (c, w) \<Rightarrow>
           (if \<not> sc_status_is_ok c then (c, s\<lparr>lp_world := w\<rparr>)
            else (case ask_provider strtod fmt agent turn request (s\<lparr>lp_world := w\<rparr>) of
                    (st, s1) \<Rightarrow>
                      (if \<not> sc_status_is_ok st \<or> items (rs_tool_calls (lp_response s1)) = [] then (st, clear_response s1)
                       else (case execute_tool_calls env agent turn deadline_ns (items (rs_tool_calls (lp_response s1)))
                                     (s1\<lparr>lp_feedback := sc_string_builder_init\<rparr>) of
                               (st2, stop, s2) \<Rightarrow>
                                 (if sc_status_is_ok st2 \<and> stop
                                  then (case stop_text turn s2 of (st3, s3) \<Rightarrow> (st3, clear_response (clear_feedback s3)))
                                  else (case (if sc_status_is_ok st2 then extend_prompt s2 else (st2, s2)) of
                                          (st3, s3) \<Rightarrow>
                                            (let s4 = clear_response (clear_feedback s3) in
                                             (if sc_status_is_ok st3
                                              then provider_loop strtod fmt env agent turn specs_json deadline_ns left s4
                                              else (st3, s4)))))))))))"

definition loop_start :: "'d sc_agent_turn_result \<Rightarrow> sc_allocator \<Rightarrow> 'w \<Rightarrow> ('d::zero, 'w) loop_state" where
  "loop_start out a w =
     \<lparr>lp_alloc = a, lp_world = w, lp_out = out, lp_output = sc_string_builder_init, lp_prompt = sc_string_builder_init,
      lp_response = response_zero, lp_feedback = sc_string_builder_init, lp_denials = sc_vec_init SIZEOF_SC_STRING,
      lp_grants = sc_vec_init SIZEOF_APPROVAL_GRANT, lp_successes = sc_vec_init SIZEOF_SUCCESS_CACHE,
      lp_failures = sc_vec_init SIZEOF_TERMINAL_FAILURE, lp_result = tool_result_zero, lp_args_summary = None, lp_output_summary = None\<rparr>"

definition clear_caches :: "('d, 'w) loop_state \<Rightarrow> ('d, 'w) loop_state" where
  "clear_caches s =
     s\<lparr>lp_alloc := tool_terminal_failures_clear (lp_failures s) (tool_success_cache_clear (lp_successes s)
         (approval_grants_clear (lp_grants s) (approval_denials_clear (lp_denials s) (lp_alloc s)))),
       lp_denials := sc_vec_init 0, lp_grants := sc_vec_init 0, lp_successes := sc_vec_init 0, lp_failures := sc_vec_init 0\<rparr>"

definition take_output :: "('d, 'w) loop_state \<Rightarrow> ('d, 'w) loop_state" where
  "take_output s =
     (case sc_string_builder_finish (lp_output s) of (t, b) \<Rightarrow> s\<lparr>lp_out := (lp_out s)\<lparr>ar_output := t\<rparr>, lp_output := b\<rparr>)"

text \<open>
  The specifications of the tools may be the ones the agent keeps: \<open>cache\<close> is that text with the number of tools it was made for.
\<close>

definition run_provider_loop ::
    "(string \<Rightarrow> 'd option) \<Rightarrow> ('d \<Rightarrow> string option) \<Rightarrow> 'w runtime_env \<Rightarrow> ('d::{zero, plus, ord}, 'w) sc_agent \<Rightarrow> ('d, 'w) sc_turn \<Rightarrow> sc_str \<Rightarrow> sc_string \<times> nat \<Rightarrow>
       int \<Rightarrow> 'd sc_agent_turn_result \<Rightarrow> sc_allocator \<Rightarrow> 'w \<Rightarrow> sc_status \<times> 'd sc_agent_turn_result \<times> (sc_string \<times> nat) \<times> sc_allocator \<times> 'w" where
  "run_provider_loop strtod fmt env agent turn initial_prompt cache deadline_ns out a w =
     (case prompt_step initial_prompt (loop_start out a w) of
        (st0, s0) \<Rightarrow>
          (case (if sc_status_is_ok st0 then tool_specs_json_for_turn fmt (sa_tools agent) turn cache (lp_alloc s0)
                 else (Inl st0, None, cache, lp_alloc s0)) of
             (specs, owned, cache', a1) \<Rightarrow>
               (case (case specs of
                        Inl e \<Rightarrow> (e, s0\<lparr>lp_alloc := a1\<rparr>)
                      | Inr specs_json \<Rightarrow>
                          provider_loop strtod fmt env agent turn specs_json deadline_ns (sa_max_tool_iterations agent) (s0\<lparr>lp_alloc := a1\<rparr>)) of
                  (st, s1) \<Rightarrow>
                    (let s2 = (if sc_status_is_ok st then take_output (clear_caches s1) else clear_caches s1) in
                     (st, lp_out s2, cache',
                      snd (sc_string_builder_clear (lp_prompt s2) (snd (sc_string_builder_clear (lp_output s2) (sc_string_clear owned (lp_alloc s2))))),
                      lp_world s2)))))"

section \<open>What the loop does to the world\<close>

text \<open>
  The tests a call has passed when its tool runs: the filters of the turn, its autonomy, the search for injected instructions, the
  required arguments, and that none of the declined tools is named.
\<close>

definition gated :: "('d, 'w) sc_turn \<Rightarrow> tool_approval_denial set \<Rightarrow> 'd sc_tool_spec \<Rightarrow> 'd sc_provider_tool_call \<Rightarrow> bool" where
  "gated turn D spec pc \<longleftrightarrow>
     turn_allows_tool turn (sc_string_as_str (call_name pc)) \<and> turn_autonomy_allows_spec turn spec \<and>
     sc_status_is_ok (sc_security_validate_prompt_injection (sc_string_as_str (arguments_json pc))) \<and>
     sc_status_is_ok (validate_tool_call_args spec pc) \<and> (\<forall>d \<in> D. \<not> names_call (ad_tool_name d) pc)"

definition call_key :: "'d sc_provider_tool_call \<Rightarrow> string \<times> string" where
  "call_key pc = (owned_text (call_name pc), owned_text (arguments_json pc))"

definition grant_keys :: "tool_approval_grant sc_vec \<Rightarrow> (string \<times> string) set" where
  "grant_keys gs = (\<lambda>g. (owned_text (ag_tool_name g), owned_text (ag_arguments_json g))) ` set (items gs)"

text \<open>
  A property of the world, given the calls the user granted, that everything but a tool keeps, and that a tool keeps whenever its
  call passed the tests, and was granted if the approval override is set.
\<close>

locale guarded_tools =
  fixes env :: "'w runtime_env" and agent :: "('d::{zero, plus, ord}, 'w) sc_agent" and turn :: "('d, 'w) sc_turn"
    and D :: "tool_approval_denial set" and Inv :: "(string \<times> string) set \<Rightarrow> 'w \<Rightarrow> bool"
  assumes fewer: "G \<subseteq> G' \<Longrightarrow> Inv G' w \<Longrightarrow> Inv G w"
    and monotonic: "rt_monotonic env w = (ts, w') \<Longrightarrow> Inv G w \<Longrightarrow> Inv G w'"
    and wall: "rt_wall env w = (ts, w') \<Longrightarrow> Inv G w \<Longrightarrow> Inv G w'"
    and observer: "sa_observer agent = Some emit \<Longrightarrow> emit name status_text w = (st, w') \<Longrightarrow> Inv G w \<Longrightarrow> Inv G w'"
    and event: "tn_event_callback turn = Some callback \<Longrightarrow> Inv G w \<Longrightarrow> Inv G (callback e w)"
    and provider: "sc_provider_generate (sa_provider agent) w request resp a = (st, resp', a', w') \<Longrightarrow> Inv G w \<Longrightarrow> Inv G w'"
    and approval: "tn_request_tool_approval turn = Some ask \<Longrightarrow> ask name args_json a w = (st, approved, a', w') \<Longrightarrow> Inv G w \<Longrightarrow>
      Inv (if sc_status_is_ok st \<and> approved then insert (str_bytes name, str_bytes args_json) G else G) w'"
    and tool: "find_tool_by_name (sa_tools agent) (sc_string_as_str (call_name pc)) = Some t \<Longrightarrow> sc_tool_spec_get (Some t) = Inr spec \<Longrightarrow>
      gated turn D spec pc \<Longrightarrow> tc_args call = arguments pc \<Longrightarrow> (granted \<Longrightarrow> call_key pc \<in> G) \<Longrightarrow> Inv G w \<Longrightarrow>
      sc_tool_invoke (Some t) (if granted then rt_set_override env (sc_tool_approval_override_set (sc_string_as_str (call_name pc))) w else w)
        call r a = (st, r', a', w') \<Longrightarrow>
      Inv G (if granted then rt_set_override env sc_tool_approval_override_clear w' else w')"

text \<open>The declined tools stay in the list, and the granted calls are those of the list.\<close>

definition guarded_state :: "tool_approval_denial set \<Rightarrow> ((string \<times> string) set \<Rightarrow> 'w \<Rightarrow> bool) \<Rightarrow> ('d, 'w) loop_state \<Rightarrow> bool" where
  "guarded_state D Inv s \<longleftrightarrow> D \<subseteq> set (items (lp_denials s)) \<and> Inv (grant_keys (lp_grants s)) (lp_world s)"

definition step_keeps :: "(('d, 'w) loop_state \<Rightarrow> bool) \<Rightarrow> ('d, 'w) loop_step \<Rightarrow> bool" where
  "step_keeps P f \<longleftrightarrow> (\<forall>s. P s \<longrightarrow> P (snd (f s)))"

lemma step_keepsI: "(\<And>s st s'. P s \<Longrightarrow> f s = (st, s') \<Longrightarrow> P s') \<Longrightarrow> step_keeps P f"
  unfolding step_keeps_def by (metis prod.collapse)

lemma step_keepsD: "step_keeps P f \<Longrightarrow> P s \<Longrightarrow> f s = (st, s') \<Longrightarrow> P s'"
  by (auto simp: step_keeps_def)

lemma run_steps_keeps:
  assumes "\<And>f. f \<in> set fs \<Longrightarrow> step_keeps P f" "P s" "run_steps fs (st, s) = (st', s')"
  shows "P s'"
  using assms
proof (induction fs arbitrary: st s)
  case (Cons f fs)
  obtain st1 s1 where f: "f s = (st1, s1)" by (cases "f s")
  show ?case
  proof (cases "sc_status_is_ok st")
    case True
    have "P s1" using Cons.prems(1) [of f] Cons.prems(2) f by (auto intro: step_keepsD)
    with Cons.IH [of s1 st1] Cons.prems True f show ?thesis by simp
  qed (use Cons.prems in auto)
qed simp

lemma step_if_keeps: "step_keeps P f \<Longrightarrow> step_keeps P (step_if b f)"
  by (simp add: step_keeps_def step_if_def)

text \<open>Steps with an argument read from the state.\<close>

lemma step_depends_keeps:
  "step_keeps P f \<Longrightarrow> step_keeps P (\<lambda>s. step_if (b s) f s)"
  "(\<And>v. step_keeps P (summary_step v put)) \<Longrightarrow> step_keeps P (\<lambda>s. summary_step (g s) put s)"
  "(\<And>v. step_keeps P (feedback_step v)) \<Longrightarrow> step_keeps P (\<lambda>s. feedback_step (g s) s)"
  by (simp_all add: step_keeps_def step_if_def)

lemma guarded_cong:
  "lp_denials s' = lp_denials s \<Longrightarrow> lp_grants s' = lp_grants s \<Longrightarrow> lp_world s' = lp_world s \<Longrightarrow> guarded_state D Inv s' = guarded_state D Inv s"
  by (simp add: guarded_state_def)

text \<open>The steps that leave the world and the lists of the user's answers alone.\<close>

lemma quiet_steps_keep [intro]:
  "step_keeps (guarded_state D Inv) (failure_step pc tst)"
  "step_keeps (guarded_state D Inv) (success_step pc)"
  "step_keeps (guarded_state D Inv) attachment_step"
  "step_keeps (guarded_state D Inv) (feedback_step v)"
  "step_keeps (guarded_state D Inv) (feedback_output_step agent tst)"
  "step_keeps (guarded_state D Inv) (summary_step v (\<lambda>t s. s\<lparr>lp_args_summary := t\<rparr>))"
  "step_keeps (guarded_state D Inv) (summary_step v (\<lambda>t s. s\<lparr>lp_output_summary := t\<rparr>))"
  "step_keeps (guarded_state D Inv) (replay_call i)"
  "step_keeps (guarded_state D Inv) (recover_step strtod fmt)"
  "step_keeps (guarded_state D Inv) usage_step"
  "step_keeps (guarded_state D Inv) malformed_step"
  "step_keeps (guarded_state D Inv) (budget_step turn)"
  "step_keeps (guarded_state D Inv) (output_step v)"
  "step_keeps (guarded_state D Inv) (prompt_step v)"
  by (auto intro!: step_keepsI del: subsetI simp: guarded_state_def failure_step_def success_step_def attachment_step_def feedback_step_def
      feedback_output_step_def summary_step_def replay_call_def recover_step_def usage_step_def malformed_step_def budget_step_def
      output_step_def prompt_step_def Let_def split: prod.splits sum.splits if_splits)

lemma guarded_clear [simp]:
  "guarded_state D Inv (clear_locals s) = guarded_state D Inv s"
  "guarded_state D Inv (count_call s) = guarded_state D Inv s"
  "guarded_state D Inv (clear_response s) = guarded_state D Inv s"
  "guarded_state D Inv (clear_feedback s) = guarded_state D Inv s"
  by (simp_all add: guarded_state_def clear_locals_def count_call_def clear_response_def clear_feedback_def split: prod.splits)

lemma names_call_text: "names_call n pc \<Longrightarrow> owned_text n = owned_text (call_name pc)"
  by (cases n; cases "call_name pc") (auto simp: names_call_def sc_str_equal_def split: if_splits)

lemma gives_arguments_text: "gives_arguments j pc \<Longrightarrow> owned_text j = owned_text (arguments_json pc)"
  by (cases j; cases "arguments_json pc") (auto simp: gives_arguments_def sc_str_equal_def split: if_splits)

lemma grants_contains_key: "approval_grants_contains gs pc \<Longrightarrow> call_key pc \<in> grant_keys gs"
  unfolding approval_grants_contains_def list_ex_iff grant_keys_def call_key_def
  by (metis (mono_tags, lifting) gives_arguments_text image_iff names_call_text)
lemma gates_passed:
  assumes "sc_status_is_ok (call_gates turn (lp_denials s) spec pc)" "turn_allows_tool turn (sc_string_as_str (call_name pc))"
    and "guarded_state D Inv s"
  shows "gated turn D spec pc"
proof -
  have "\<not> approval_denials_contains (lp_denials s) pc" using assms(1) by (auto simp: call_gates_def Let_def split: if_splits)
  with assms(3) have "\<forall>d \<in> D. \<not> names_call (ad_tool_name d) pc"
    by (auto simp: approval_denials_contains_def list_ex_iff guarded_state_def)
  with assms(1,2) show ?thesis by (auto simp: gated_def call_gates_def Let_def split: if_splits)
qed

lemma push_filled_items:
  assumes "push_filled clear v (st0, q, a) = (st, v', a')"
  shows "if sc_status_is_ok st then sc_status_is_ok st0 \<and> items v' = items v @ [q] else items v' = items v"
  using assms by (auto simp: push_filled_def sc_vec_push_def sc_vec_reserve_def Let_def split: prod.splits if_splits option.splits)

lemma denials_add_items:
  assumes "approval_denials_add ds pc a = (st, ds', a')"
  shows "set (items ds) \<subseteq> set (items ds')"
proof -
  let ?f = "fill (\<lambda>_. sc_string_from_str (sc_string_as_str (call_name pc))) (\<lambda>s d. d\<lparr>ad_tool_name := s\<rparr>) (sc_status_ok, \<lparr>ad_tool_name = None\<rparr>, a)"
  obtain st0 q a0 where f: "?f = (st0, q, a0)" by (cases ?f)
  show ?thesis
    using assms push_filled_items [of tool_approval_denial_clear ds st0 q a0 st ds' a'] f
    by (auto simp: approval_denials_add_def split: if_splits)
qed

lemma grants_add_keys:
  assumes "approval_grants_add gs pc a = (st, gs', a')"
  shows "grant_keys gs' \<subseteq> insert (call_key pc) (grant_keys gs)" "sc_status_is_ok st \<Longrightarrow> call_key pc \<in> grant_keys gs'"
proof -
  let ?f = "fill (\<lambda>_. sc_string_from_str (sc_string_as_str (arguments_json pc))) (\<lambda>s g. g\<lparr>ag_arguments_json := s\<rparr>)
      (fill (\<lambda>_. sc_string_from_str (sc_string_as_str (call_name pc))) (\<lambda>s g. g\<lparr>ag_tool_name := s\<rparr>)
        (sc_status_ok, \<lparr>ag_tool_name = None, ag_arguments_json = None\<rparr>, a))"
  obtain st0 q a0 where f: "?f = (st0, q, a0)" by (cases ?f)
  have q: "(owned_text (ag_tool_name q), owned_text (ag_arguments_json q)) = call_key pc" if "sc_status_is_ok st0"
    using f that by (auto simp: fill_def call_key_def split: prod.splits sum.splits if_splits dest: string_from_str_Inl string_from_str_Inr)
  have "grant_keys gs' \<subseteq> insert (call_key pc) (grant_keys gs) \<and> (sc_status_is_ok st \<longrightarrow> call_key pc \<in> grant_keys gs')"
  proof (cases "approval_grants_contains gs pc")
    case True
    with assms have "gs' = gs" by (simp add: approval_grants_add_def)
    with grants_contains_key [OF True] show ?thesis by auto
  next
    case False
    with assms f have "push_filled tool_approval_grant_clear gs (st0, q, a0) = (st, gs', a')" by (simp add: approval_grants_add_def)
    from push_filled_items [OF this] q show ?thesis by (auto simp: grant_keys_def split: if_splits)
  qed
  then show "grant_keys gs' \<subseteq> insert (call_key pc) (grant_keys gs)" "sc_status_is_ok st \<Longrightarrow> call_key pc \<in> grant_keys gs'" by blast+
qed

context guarded_tools
begin

abbreviation ok_state :: "('d, 'w) loop_state \<Rightarrow> bool" where
  "ok_state \<equiv> guarded_state D Inv"

lemma check_keeps:
  assumes "turn_check_continue (rt_monotonic env) turn deadline_ns w = (c, w')" "Inv G w"
  shows "Inv G w'"
  using assms monotonic by (auto simp: turn_check_continue_def turn_deadline_expired_def split: if_splits prod.splits sum.splits)

lemma event_step_keeps: "step_keeps ok_state (event_step turn ty name msg st_code)"
  by (rule step_keepsI)
    (auto simp: guarded_state_def event_step_def turn_add_event_def intro: event split: prod.splits option.splits if_splits)

lemma observer_step_keeps: "step_keeps ok_state (observer_step agent name status_text)"
  by (rule step_keepsI)
    (auto simp: guarded_state_def observer_step_def agent_emit_observer_def dest: observer split: prod.splits option.splits)

lemma receipt_step_keeps: "step_keeps ok_state (receipt_step env pc tst)"
  by (rule step_keepsI) (auto simp: guarded_state_def receipt_step_def dest: wall split: prod.splits)

lemma provider_once_keeps: "step_keeps ok_state (provider_request_once agent request)"
  by (rule step_keepsI) (auto simp: guarded_state_def provider_request_once_def dest: provider split: prod.splits)

lemmas world_steps_keep [intro] = event_step_keeps observer_step_keeps receipt_step_keeps provider_once_keeps

lemma record_call_keeps: "step_keeps ok_state (record_call env agent turn pc tst used)"
proof (rule step_keepsI)
  fix s st s'
  assume s: "ok_state s" and run: "record_call env agent turn pc tst used s = (st, s')"
  let ?first = "[step_if (tool_status_is_turn_terminal tst) (failure_step pc tst), (\<lambda>s. step_if (\<not> used \<and> call_succeeded tst s) (success_step pc) s)]"
  obtain st1 s1 where one: "run_steps ?first (sc_status_ok, s) = (st1, s1)" by (cases "run_steps ?first (sc_status_ok, s)")
  have "ok_state s1" by (rule run_steps_keeps [where P = ok_state, OF _ s one]) (auto intro: step_if_keeps step_depends_keeps)
  moreover have "step_keeps ok_state f" if "f \<in> set (record_steps env agent turn pc tst)" for f
    using that by (auto simp: record_steps_def Let_def intro: step_if_keeps step_depends_keeps)
  ultimately show "ok_state s'" using run one run_steps_keeps [of "record_steps env agent turn pc tst" ok_state "count_call s1" st1 st s']
    by (simp add: record_call_def)
qed

end
context guarded_tools
begin

lemma invoke_keeps:
  assumes "find_tool_by_name (sa_tools agent) (sc_string_as_str (call_name pc)) = Some t" "sc_tool_spec_get (Some t) = Inr spec"
    and "gated turn D spec pc" "tc_args call = arguments pc" "granted \<Longrightarrow> call_key pc \<in> grant_keys (lp_grants s)" "ok_state s"
    and "invoke_tool env granted t (sc_string_as_str (call_name pc)) call s = (st, s')"
  shows "ok_state s' \<and> lp_grants s' = lp_grants s"
proof -
  let ?w = "if granted then rt_set_override env (sc_tool_approval_override_set (sc_string_as_str (call_name pc))) (lp_world s) else lp_world s"
  obtain st1 r a w where run: "sc_tool_invoke (Some t) ?w call (lp_result s) (lp_alloc s) = (st1, r, a, w)"
    by (cases "sc_tool_invoke (Some t) ?w call (lp_result s) (lp_alloc s)")
  have "Inv (grant_keys (lp_grants s)) (if granted then rt_set_override env sc_tool_approval_override_clear w else w)"
    using tool [OF assms(1-5) _ run] assms(6) by (simp add: guarded_state_def)
  with assms(6,7) run show ?thesis by (auto simp: invoke_tool_def guarded_state_def)
qed

lemma ask_keeps:
  assumes "find_tool_by_name (sa_tools agent) (sc_string_as_str (call_name pc)) = Some t" "sc_tool_spec_get (Some t) = Inr spec"
    and "gated turn D spec pc" "tc_args call = arguments pc" "ok_state s" "ask_and_invoke env turn t pc call s = (st, s')"
  shows "ok_state s'"
proof -
  let ?G = "grant_keys (lp_grants s)"
  obtain ast approved a w where ask: "request_turn_tool_approval turn pc (sc_tool_result_clear (lp_result s) (lp_alloc s)) (lp_world s) = (ast, approved, a, w)"
    by (cases "request_turn_tool_approval turn pc (sc_tool_result_clear (lp_result s) (lp_alloc s)) (lp_world s)")
  have w: "Inv (if sc_status_is_ok ast \<and> approved then insert (call_key pc) ?G else ?G) w"
    using ask assms(5) approval
    by (fastforce simp: request_turn_tool_approval_def guarded_state_def call_key_def split: option.splits)
  let ?s1 = "s\<lparr>lp_result := tool_result_zero, lp_alloc := a, lp_world := w\<rparr>"
  show ?thesis
  proof (cases "sc_status_is_ok ast \<and> approved")
    case False
    have "Inv ?G w" using w unfolding if_not_P [OF False] .
    moreover obtain st1 ds a1 where d: "approval_denials_add (lp_denials s) pc a = (st1, ds, a1)" by (cases "approval_denials_add (lp_denials s) pc a")
    ultimately show ?thesis using False ask assms(5,6) denials_add_items [OF d]
      by (auto simp: ask_and_invoke_def Let_def guarded_state_def split: if_splits)
  next
    case True
    obtain st1 gs a1 where g: "approval_grants_add (lp_grants s) pc a = (st1, gs, a1)" by (cases "approval_grants_add (lp_grants s) pc a")
    let ?s2 = "?s1\<lparr>lp_grants := gs, lp_alloc := a1\<rparr>"
    have "Inv (grant_keys gs) w" using w True grants_add_keys(1) [OF g] fewer by auto
    then have s2: "ok_state ?s2" using assms(5) by (simp add: guarded_state_def)
    show ?thesis
    proof (cases "sc_status_is_ok st1")
      case False
      with True ask g assms(6) have "s' = ?s2" by (simp add: ask_and_invoke_def Let_def)
      with s2 show ?thesis by simp
    next
      case ok: True
      with True ask g assms(6) have "invoke_tool env True t (sc_string_as_str (call_name pc)) call ?s2 = (st, s')"
        by (simp add: ask_and_invoke_def Let_def)
      moreover have "call_key pc \<in> grant_keys (lp_grants ?s2)" using grants_add_keys(2) [OF g ok] by simp
      ultimately show ?thesis using invoke_keeps [OF assms(1-4) _ s2] by blast
    qed
  qed
qed

lemma fresh_keeps:
  assumes "find_tool_by_name (sa_tools agent) (sc_string_as_str (call_name pc)) = Some t" "turn_allows_tool turn (sc_string_as_str (call_name pc))"
    and "ok_state s" "fresh_call env turn t pc s = (st, s')"
  shows "ok_state s'"
proof (cases "sc_tool_spec_get (Some t)")
  case (Inl e)
  with assms(3,4) show ?thesis by (simp add: fresh_call_def)
next
  case (Inr spec)
  show ?thesis
  proof (cases "sc_status_is_ok (call_gates turn (lp_denials s) spec pc) \<and> arguments pc \<noteq> None")
    case False
    with assms(3,4) Inr show ?thesis by (auto simp: fresh_call_def Let_def sc_provider_tool_call_as_tool_call_def split: if_splits)
  next
    case True
    then obtain args where args: "arguments pc = Some args" by blast
    let ?call = "\<lparr>tc_call_id = sc_string_as_str (call_id pc), tc_args = Some args, tc_cancel_requested = False\<rparr>"
    have g: "gated turn D spec pc" using gates_passed [OF _ assms(2,3)] True by blast
    obtain st1 s1 where one: "invoke_tool env (approval_grants_contains (lp_grants s) pc) t (sc_string_as_str (call_name pc)) ?call s = (st1, s1)"
      by (cases "invoke_tool env (approval_grants_contains (lp_grants s) pc) t (sc_string_as_str (call_name pc)) ?call s")
    have a: "tc_args ?call = arguments pc" by (simp add: args)
    have s1: "ok_state s1" using invoke_keeps [OF assms(1) Inr g a _ assms(3) one] grants_contains_key by blast
    have "(if tool_status_is_approval_required st1 then ask_and_invoke env turn t pc ?call s1 else (st1, s1)) = (st, s')"
      using assms(4) Inr True args one by (simp add: fresh_call_def Let_def sc_provider_tool_call_as_tool_call_def)
    then show ?thesis using s1 ask_keeps [OF assms(1) Inr g a s1] by (auto split: if_splits)
  qed
qed

lemma call_tool_keeps:
  assumes "call_tool env agent turn pc s = (st, used, stop, s')" "ok_state s"
  shows "ok_state s'"
proof -
  have replay: "ok_state s1" if "replay_call i s = (st1, s1)" for i st1 s1
    using that assms(2) quiet_steps_keep(8) step_keepsD by blast
  from assms(1,2) show ?thesis
    by (auto simp: call_tool_def Let_def split: if_splits option.splits prod.splits dest: replay fresh_keeps)
qed

lemma one_call_keeps:
  assumes "one_call env agent turn deadline_ns pc s = (st, stop, s')" "ok_state s"
  shows "ok_state s'"
proof -
  obtain c w where c: "turn_check_continue (rt_monotonic env) turn deadline_ns (lp_world s) = (c, w)"
    by (cases "turn_check_continue (rt_monotonic env) turn deadline_ns (lp_world s)")
  let ?s0 = "s\<lparr>lp_world := w\<rparr>"
  have s0: "ok_state ?s0" using assms(2) check_keeps [OF c] by (simp add: guarded_state_def)
  obtain tst used stop1 s1 where t: "call_tool env agent turn pc ?s0 = (tst, used, stop1, s1)" by (cases "call_tool env agent turn pc ?s0")
  obtain st2 s2 where r: "record_call env agent turn pc tst used s1 = (st2, s2)" by (cases "record_call env agent turn pc tst used s1")
  have "ok_state s2" using step_keepsD [OF record_call_keeps call_tool_keeps [OF t s0] r] .
  with assms(1) s0 c t r show ?thesis by (auto simp: one_call_def Let_def split: if_splits)
qed

lemma execute_keeps:
  "execute_tool_calls env agent turn deadline_ns pcs s = (st, stop, s') \<Longrightarrow> ok_state s \<Longrightarrow> ok_state s'"
proof (induction pcs arbitrary: s)
  case (Cons pc pcs)
  then show ?case by (auto split: prod.splits if_splits dest: one_call_keeps)
qed simp

lemma say_keeps:
  "step_keeps ok_state (\<lambda>s. run_steps [output_step v, event_step turn SC_TURN_EVENT_TEXT_DELTA (Str ''assistant'') v SC_OK] (sc_status_ok, s))"
proof (rule step_keepsI)
  fix s st s'
  assume s: "ok_state s"
    and run: "run_steps [output_step v, event_step turn SC_TURN_EVENT_TEXT_DELTA (Str ''assistant'') v SC_OK] (sc_status_ok, s) = (st, s')"
  show "ok_state s'" by (rule run_steps_keeps [where P = ok_state, OF _ s run]) auto
qed

lemma text_steps_keep: "step_keeps ok_state (text_steps turn)" "step_keeps ok_state (stop_text turn)"
  by (rule step_keepsI; use say_keeps in \<open>auto simp: text_steps_def stop_text_def step_if_def Let_def simp del: run_steps.simps
      dest: step_keepsD split: if_splits\<close>)+

lemma ask_provider_keeps: "step_keeps ok_state (ask_provider strtod fmt agent turn request)"
proof (rule step_keepsI)
  fix s st s'
  assume s: "ok_state s" and run: "ask_provider strtod fmt agent turn request s = (st, s')"
  have s0: "ok_state (s\<lparr>lp_out := (lp_out s)\<lparr>ar_provider_call_count := ar_provider_call_count (lp_out s) + 1\<rparr>\<rparr>)"
    using s by (simp add: guarded_state_def)
  show "ok_state s'"
    by (rule run_steps_keeps [where P = ok_state, OF _ s0 run [unfolded ask_provider_def]]) (auto intro: text_steps_keep)
qed

lemma extend_prompt_keeps: "step_keeps ok_state extend_prompt"
proof (rule step_keepsI)
  fix s st and s' :: "('d, 'w) loop_state"
  assume s: "ok_state s" and run: "extend_prompt s = (st, s')"
  obtain t b where f: "sc_string_builder_finish (lp_feedback s) = (t, b)" by (cases "sc_string_builder_finish (lp_feedback s)")
  let ?fs = "[prompt_step (Str ([CHR 0x0A] @ ''## Tool results'' @ [CHR 0x0A])), prompt_step (sc_string_as_str t)]"
  obtain st1 s1 where r: "run_steps ?fs (sc_status_ok, s\<lparr>lp_feedback := b\<rparr>) = (st1, s1)" by (cases "run_steps ?fs (sc_status_ok, s\<lparr>lp_feedback := b\<rparr>)")
  have "ok_state (s\<lparr>lp_feedback := b\<rparr>)" using s by (simp add: guarded_state_def)
  from run_steps_keeps [where P = ok_state, OF _ this r] have "ok_state s1" by auto
  moreover have "s' = s1\<lparr>lp_alloc := sc_string_clear t (lp_alloc s1)\<rparr>" using run f r by (simp add: extend_prompt_def del: run_steps.simps)
  ultimately show "ok_state s'" by (simp add: guarded_state_def)
qed

lemma provider_loop_keeps:
  "provider_loop strtod fmt env agent turn specs_json deadline_ns left s = (st, s') \<Longrightarrow> ok_state s \<Longrightarrow> ok_state s'"
proof (induction left arbitrary: s)
  case (Suc left)
  let ?request = "provider_request agent turn specs_json s"
  obtain c w where c: "turn_check_continue (rt_monotonic env) turn deadline_ns (lp_world s) = (c, w)"
    by (cases "turn_check_continue (rt_monotonic env) turn deadline_ns (lp_world s)")
  let ?s0 = "s\<lparr>lp_world := w\<rparr>"
  have s0: "ok_state ?s0" using Suc.prems(2) check_keeps [OF c] by (simp add: guarded_state_def)
  obtain st1 s1 where p: "ask_provider strtod fmt agent turn ?request ?s0 = (st1, s1)" by (cases "ask_provider strtod fmt agent turn ?request ?s0")
  have s1: "ok_state s1" using step_keepsD [OF ask_provider_keeps s0 p] .
  let ?s1 = "s1\<lparr>lp_feedback := sc_string_builder_init\<rparr>"
  have "ok_state ?s1" using s1 by (simp add: guarded_state_def)
  obtain st2 stop s2 where e: "execute_tool_calls env agent turn deadline_ns (items (rs_tool_calls (lp_response s1))) ?s1 = (st2, stop, s2)"
    by (cases "execute_tool_calls env agent turn deadline_ns (items (rs_tool_calls (lp_response s1))) ?s1")
  have s2: "ok_state s2" using execute_keeps [OF e \<open>ok_state ?s1\<close>] .
  obtain st3 s3 where t: "stop_text turn s2 = (st3, s3)" by (cases "stop_text turn s2")
  have s3: "ok_state s3" using step_keepsD [OF text_steps_keep(2) s2 t] .
  obtain st4 s4 where x: "extend_prompt s2 = (st4, s4)" by (cases "extend_prompt s2")
  have s4: "ok_state s4" using step_keepsD [OF extend_prompt_keeps s2 x] .
  show ?case using Suc.prems(1) c p e t x s0 s1 s2 s3 s4 Suc.IH [of "clear_response (clear_feedback s4)"]
    by (auto simp: Let_def split: if_splits)
qed simp

lemma run_keeps:
  assumes "run_provider_loop strtod fmt env agent turn initial_prompt cache deadline_ns out a w = (st, out', cache', a', w')" "D = {}" "Inv {} w"
  shows "\<exists>G. Inv G w'"
proof -
  obtain st0 s0 where p: "prompt_step initial_prompt (loop_start out a w) = (st0, s0)" by (cases "prompt_step initial_prompt (loop_start out a w)")
  have "ok_state (loop_start out a w)" using assms(2,3) by (simp add: guarded_state_def loop_start_def grant_keys_def sc_vec_init_def)
  then have s0: "ok_state s0" using p quiet_steps_keep(14) step_keepsD by blast
  obtain specs owned c a1 where specs: "(if sc_status_is_ok st0 then tool_specs_json_for_turn fmt (sa_tools agent) turn cache (lp_alloc s0)
      else (Inl st0, None, cache, lp_alloc s0)) = (specs, owned, c, a1)" by (metis prod.exhaust)
  have s1: "ok_state (s0\<lparr>lp_alloc := a1\<rparr>)" using s0 by (simp add: guarded_state_def)
  obtain st1 s1 where r: "(case specs of Inl e \<Rightarrow> (e, s0\<lparr>lp_alloc := a1\<rparr>)
        | Inr specs_json \<Rightarrow> provider_loop strtod fmt env agent turn specs_json deadline_ns (sa_max_tool_iterations agent) (s0\<lparr>lp_alloc := a1\<rparr>)) = (st1, s1)"
    by (meson surj_pair)
  then have "ok_state s1" using s1 by (auto split: sum.splits dest: provider_loop_keeps)
  moreover have "w' = lp_world s1"
    using assms(1) p specs r by (auto simp: run_provider_loop_def Let_def take_output_def clear_caches_def split: prod.splits)
  ultimately show ?thesis by (auto simp: guarded_state_def)
qed

end

end
