(* ===== verification/SC_Tool_Trace.thy ===== *)
theory SC_Tool_Trace
  imports SC_Tool_Loop
begin

text \<open>
  What an agent's turn does with its tools, as a trace: the world is extended by a list of deeds, to which every tool adds its
  invocation and the approval callback adds the user's answer. Nothing else of the agent, the turn or the surroundings changes.
\<close>

section \<open>Deeds\<close>

datatype 'd deed =
    Invoked "'d sc_tool_spec" "'d sc_json_value option" bool
  | Answered string string bool

record ('d, 'w) traced =
  wt_deeds :: "'d deed list"
  wt_override :: sc_str
  wt_world :: 'w

definition start_trace :: "'w \<Rightarrow> ('d, 'w) traced" where
  "start_trace w = \<lparr>wt_deeds = [], wt_override = sc_tool_approval_override_clear, wt_world = w\<rparr>"

definition in_world :: "('w \<Rightarrow> 'x \<times> 'w) \<Rightarrow> ('d, 'w) traced \<Rightarrow> 'x \<times> ('d, 'w) traced" where
  "in_world f w = (case f (wt_world w) of (x, v) \<Rightarrow> (x, w\<lparr>wt_world := v\<rparr>))"

definition did :: "'d deed \<Rightarrow> ('d, 'w) traced \<Rightarrow> 'w \<Rightarrow> ('d, 'w) traced" where
  "did deed w v = w\<lparr>wt_deeds := wt_deeds w @ [deed], wt_world := v\<rparr>"

definition traced_env :: "'w runtime_env \<Rightarrow> ('d, 'w) traced runtime_env" where
  "traced_env env =
     \<lparr>rt_monotonic = in_world (rt_monotonic env), rt_wall = in_world (rt_wall env), rt_sodium = rt_sodium env,
      rt_set_override = (\<lambda>name w. w\<lparr>wt_override := name, wt_world := rt_set_override env name (wt_world w)\<rparr>)\<rparr>"

definition traced_invoke :: "'d sc_tool_spec \<Rightarrow> ('d, 'w) invoke_fn \<Rightarrow> ('d, ('d, 'w) traced) invoke_fn" where
  "traced_invoke spec invoke w call r a =
     (case invoke (wt_world w) call r a of
        (st, r', a', v) \<Rightarrow> (st, r', a', did (Invoked spec (tc_args call) (\<not> ptr_null (wt_override w))) w v))"

definition traced_tool :: "('d, 'w) sc_tool \<Rightarrow> ('d, ('d, 'w) traced) sc_tool" where
  "traced_tool t =
     \<lparr>t_struct_size = t_struct_size t, t_abi_major = t_abi_major t, t_name = t_name t, t_spec = t_spec t,
      t_invoke = map_option (traced_invoke (case t_spec t of None \<Rightarrow> spec_zero | Some (st, spec) \<Rightarrow> spec)) (t_invoke t), t_destroy = t_destroy t\<rparr>"

definition traced_provider :: "('d, 'w, 'c) sc_provider \<Rightarrow> ('d, ('d, 'w) traced, 'c) sc_provider" where
  "traced_provider p =
     \<lparr>p_struct_size = p_struct_size p, p_abi_major = p_abi_major p, p_name = p_name p, p_modes = p_modes p,
      p_generate = map_option (\<lambda>f w request r a. case f (wt_world w) request r a of (st, r', a', v) \<Rightarrow> (st, r', a', w\<lparr>wt_world := v\<rparr>)) (p_generate p),
      p_stream = map_option (\<lambda>f w request a callback user. case f (wt_world w) request a callback user of
        (st, a', v, user') \<Rightarrow> (st, a', w\<lparr>wt_world := v\<rparr>, user')) (p_stream p),
      p_destroy = p_destroy p\<rparr>"

definition traced_agent :: "('d, 'w) sc_agent \<Rightarrow> ('d, ('d, 'w) traced) sc_agent" where
  "traced_agent agent =
     \<lparr>sa_provider = map_option traced_provider (sa_provider agent),
      sa_observer = map_option (\<lambda>emit name status_text. in_world (emit name status_text)) (sa_observer agent),
      sa_policy = sa_policy agent, sa_tools = map (map_option traced_tool) (sa_tools agent), sa_model = sa_model agent,
      sa_identity = sa_identity agent, sa_max_tool_iterations = sa_max_tool_iterations agent,
      sa_max_tool_output_bytes = sa_max_tool_output_bytes agent\<rparr>"

definition traced_turn :: "('d, 'w) sc_turn \<Rightarrow> ('d, ('d, 'w) traced) sc_turn" where
  "traced_turn turn =
     \<lparr>tn_cancel_requested = (\<lambda>w. tn_cancel_requested turn (wt_world w)), tn_media_count = tn_media_count turn,
      tn_media_context = tn_media_context turn, tn_allowed_tools = tn_allowed_tools turn, tn_denied_tools = tn_denied_tools turn,
      tn_autonomy_override = tn_autonomy_override turn, tn_max_total_tokens = tn_max_total_tokens turn, tn_max_cost_usd = tn_max_cost_usd turn,
      tn_route_hint = tn_route_hint turn,
      tn_request_tool_approval = map_option (\<lambda>ask name args_json a w. case ask name args_json a (wt_world w) of
        (st, approved, a', v) \<Rightarrow>
          (st, approved, a', did (Answered (str_bytes name) (str_bytes args_json) (sc_status_is_ok st \<and> approved)) w v)) (tn_request_tool_approval turn),
      tn_event_callback = map_option (\<lambda>callback e w. w\<lparr>wt_world := callback e (wt_world w)\<rparr>) (tn_event_callback turn),
      tn_disable_memory = tn_disable_memory turn\<rparr>"

text \<open>
  An invocation is in order when its tool is one of the agent's, some call of the provider names it, gives it these arguments and
  passed the tests, and the user granted that very call before, if the approval override was set.
\<close>

fun deed_ok :: "('d, 'w) sc_agent \<Rightarrow> ('d, 'w) sc_turn \<Rightarrow> tool_approval_denial set \<Rightarrow> 'd deed list \<Rightarrow> 'd deed \<Rightarrow> bool" where
  "deed_ok agent turn D before (Answered name args_json granted) \<longleftrightarrow> True"
| "deed_ok agent turn D before (Invoked spec args granted) \<longleftrightarrow>
     (\<exists>t \<in> set (sa_tools agent). sc_tool_spec_get t = Inr spec) \<and>
     (\<exists>pc. sc_str_equal (ts_name spec) (sc_string_as_str (call_name pc)) \<and> arguments pc = args \<and> gated turn D spec pc \<and>
        (granted \<longrightarrow> Answered (owned_text (call_name pc)) (owned_text (arguments_json pc)) True \<in> set before))"

fun deeds_ok :: "('d, 'w) sc_agent \<Rightarrow> ('d, 'w) sc_turn \<Rightarrow> tool_approval_denial set \<Rightarrow> 'd deed list \<Rightarrow> 'd deed list \<Rightarrow> bool" where
  "deeds_ok agent turn D before [] \<longleftrightarrow> True"
| "deeds_ok agent turn D before (d # ds) \<longleftrightarrow> deed_ok agent turn D before d \<and> deeds_ok agent turn D (before @ [d]) ds"

lemma deeds_ok_append: "deeds_ok agent turn D before (ds @ [d]) \<longleftrightarrow> deeds_ok agent turn D before ds \<and> deed_ok agent turn D (before @ ds) d"
  by (induction ds arbitrary: before) auto

definition trace_inv ::
    "('d, 'w) sc_agent \<Rightarrow> ('d, 'w) sc_turn \<Rightarrow> tool_approval_denial set \<Rightarrow> 'd deed list \<Rightarrow> (string \<times> string) set \<Rightarrow> ('d, 'w) traced \<Rightarrow> bool" where
  "trace_inv agent turn D before G w \<longleftrightarrow>
     ptr_null (wt_override w) \<and> (\<forall>(n, j) \<in> G. Answered n j True \<in> set (wt_deeds w)) \<and>
     (\<exists>ds. wt_deeds w = before @ ds \<and> deeds_ok agent turn D before ds)"

lemma trace_inv_world [simp]: "trace_inv agent turn D before G (w\<lparr>wt_world := v\<rparr>) = trace_inv agent turn D before G w"
  by (simp add: trace_inv_def)

lemma trace_inv_did:
  assumes "deed_ok agent turn D (wt_deeds w) d" "ptr_null (wt_override w)" "\<forall>(n, j) \<in> G. Answered n j True \<in> insert d (set (wt_deeds w))"
    and "\<exists>ds. wt_deeds w = before @ ds \<and> deeds_ok agent turn D before ds"
  shows "trace_inv agent turn D before G (did d w v)"
proof -
  obtain ds where ds: "wt_deeds w = before @ ds" "deeds_ok agent turn D before ds" using assms(4) by blast
  then have "deeds_ok agent turn D before (ds @ [d])" using assms(1) by (simp add: deeds_ok_append)
  with ds assms(2,3) show ?thesis by (auto simp: trace_inv_def did_def)
qed

lemma traced_gated [simp]: "gated (traced_turn turn) D spec pc = gated turn D spec pc"
  by (simp add: gated_def turn_allows_tool_def turn_memory_disabled_def turn_autonomy_allows_spec_def turn_autonomy_allows_risk_def traced_turn_def)

lemma traced_spec [simp]: "sc_tool_spec_get (map_option traced_tool t) = sc_tool_spec_get t"
  by (cases t) (simp_all add: sc_tool_spec_get_def traced_tool_def)

lemma find_traced_tool:
  assumes "find_tool_by_name (sa_tools (traced_agent agent)) name = Some t"
  obtains u where "t = traced_tool u" "Some u \<in> set (sa_tools agent)" "find_tool_by_name (sa_tools agent) name = Some u"
    "\<exists>spec. sc_tool_spec_get (Some u) = Inr spec \<and> sc_str_equal (ts_name spec) name"
proof -
  let ?P = "\<lambda>t. case sc_tool_spec_get t of Inl e \<Rightarrow> False | Inr spec \<Rightarrow> sc_str_equal (ts_name spec) name"
  have "find_first ?P (map (map_option traced_tool) (sa_tools agent)) = map_option (map_option traced_tool) (find_first (?P \<circ> map_option traced_tool) (sa_tools agent))"
    by (rule find_first_map)
  with assms obtain v where v: "find_first ?P (sa_tools agent) = Some v" "map_option traced_tool v = Some t"
    by (auto simp: find_tool_by_name_def traced_agent_def comp_def split: option.splits)
  then obtain u where u: "v = Some u" "t = traced_tool u" by (cases v) auto
  from find_first_member [OF v(1)] u have "Some u \<in> set (sa_tools agent)" "\<exists>spec. sc_tool_spec_get (Some u) = Inr spec \<and> sc_str_equal (ts_name spec) name"
    by (auto split: sum.splits)
  with u v(1) show thesis by (intro that) (simp_all add: find_tool_by_name_def)
qed
lemma traced_tool_run:
  assumes "sc_tool_invoke (Some (traced_tool u)) w call r a = (st, r', a', w')" "sc_tool_spec_get (Some u) = Inr spec"
  shows "w' = w \<or> (\<exists>v. w' = did (Invoked spec (tc_args call) (\<not> ptr_null (wt_override w))) w v)"
proof -
  have stored: "(case t_spec u of None \<Rightarrow> spec_zero | Some (st, sp) \<Rightarrow> sp) = spec"
    using assms(2) by (auto simp: sc_tool_spec_get_def split: option.splits if_splits)
  have get: "sc_tool_spec_get (Some (traced_tool u)) = Inr spec" using assms(2) traced_spec [of "Some u"] by simp
  show ?thesis
  proof (cases "t_invoke u")
    case None
    with assms(1) show ?thesis by (simp add: sc_tool_invoke_def traced_tool_def)
  next
    case (Some f)
    obtain st1 r1 a1 v where f: "f (wt_world w) call r a = (st1, r1, a1, v)" by (cases "f (wt_world w) call r a")
    have "t_invoke (traced_tool u) = Some (traced_invoke spec f)" using Some stored by (simp add: traced_tool_def)
    with assms(1) get f show ?thesis by (auto simp: sc_tool_invoke_def traced_invoke_def split: if_splits)
  qed
qed

lemma traced_invoke_inv:
  assumes "find_tool_by_name (sa_tools (traced_agent agent)) (sc_string_as_str (call_name pc)) = Some t"
    and "sc_tool_spec_get (Some t) = Inr spec" "gated turn D spec pc" "tc_args call = arguments pc"
    and "granted \<Longrightarrow> call_key pc \<in> G" "trace_inv agent turn D before G w"
    and "sc_tool_invoke (Some t) (if granted then rt_set_override (traced_env env) name w else w) call r a = (st, r', a', w')"
  shows "trace_inv agent turn D before G (if granted then rt_set_override (traced_env env) sc_tool_approval_override_clear w' else w')"
proof -
  from assms(1) obtain u where u: "t = traced_tool u" "Some u \<in> set (sa_tools agent)"
    "\<exists>sp. sc_tool_spec_get (Some u) = Inr sp \<and> sc_str_equal (ts_name sp) (sc_string_as_str (call_name pc))"
    by (rule find_traced_tool)
  have spec: "sc_tool_spec_get (Some u) = Inr spec" using assms(2) traced_spec [of "Some u"] u(1) by simp
  have inv: "ptr_null (wt_override w)" "\<forall>(n, j) \<in> G. Answered n j True \<in> set (wt_deeds w)" "\<exists>ds. wt_deeds w = before @ ds \<and> deeds_ok agent turn D before ds"
    using assms(6) by (auto simp: trace_inv_def)
  let ?w = "if granted then rt_set_override (traced_env env) name w else w"
  have deeds: "wt_deeds ?w = wt_deeds w" by (simp add: traced_env_def)
  have deed: "deed_ok agent turn D (wt_deeds w) (Invoked spec (tc_args call) (\<not> ptr_null (wt_override ?w)))"
  proof -
    have "granted" if "\<not> ptr_null (wt_override ?w)" using that inv(1) by (auto split: if_splits)
    then have "\<not> ptr_null (wt_override ?w) \<longrightarrow> Answered (owned_text (call_name pc)) (owned_text (arguments_json pc)) True \<in> set (wt_deeds w)"
      using assms(5) inv(2) by (auto simp: call_key_def)
    then show ?thesis using u spec assms(3,4) by auto
  qed
  let ?d = "Invoked spec (tc_args call) (\<not> ptr_null (wt_override ?w))"
  let ?w' = "if granted then rt_set_override (traced_env env) sc_tool_approval_override_clear w' else w'"
  have same: "wt_deeds ?w' = wt_deeds w'" by (simp add: traced_env_def)
  from traced_tool_run [OF assms(7) [unfolded u(1)] spec] have deeds': "wt_deeds w' = wt_deeds w \<or> wt_deeds w' = wt_deeds w @ [?d]"
    and o: "wt_override w' = wt_override ?w"
    using deeds by (auto simp: did_def)
  from o inv(1) have "ptr_null (wt_override ?w')" by (cases granted) (simp_all add: traced_env_def sc_tool_approval_override_clear_def)
  moreover have "\<forall>(n, j) \<in> G. Answered n j True \<in> set (wt_deeds ?w')" unfolding same using deeds' inv(2) by auto
  moreover have "\<exists>ds. wt_deeds ?w' = before @ ds \<and> deeds_ok agent turn D before ds"
    unfolding same using deeds' inv(3) deed by (metis append.assoc deeds_ok_append)
  ultimately show ?thesis unfolding trace_inv_def by blast
qed

interpretation traced: guarded_tools "traced_env env" "traced_agent agent" "traced_turn turn" D "trace_inv agent turn D before"
  for env :: "'w runtime_env" and agent :: "('d::{zero, plus, ord}, 'w) sc_agent" and turn D before
proof (unfold_locales, goal_cases)
  case (1 G G' w)
  then show ?case by (auto simp: trace_inv_def)
next
  case (2 w ts w' G)
  then show ?case by (auto simp: traced_env_def in_world_def split: prod.splits)
next
  case (3 w ts w' G)
  then show ?case by (auto simp: traced_env_def in_world_def split: prod.splits)
next
  case (4 emit name status_text w st w' G)
  then show ?case by (auto simp: traced_agent_def in_world_def split: prod.splits)
next
  case (5 callback G w e)
  then show ?case by (auto simp: traced_turn_def)
next
  case (6 w request resp a st resp' a' w' G)
  then show ?case by (auto simp: traced_agent_def traced_provider_def sc_provider_generate_def split: option.splits prod.splits if_splits)
next
  case (7 ask name args_json a w st approved a' w' G)
  then obtain base where base: "tn_request_tool_approval turn = Some base"
    "ask = (\<lambda>name args_json a w. case base name args_json a (wt_world w) of
      (st, approved, a', v) \<Rightarrow> (st, approved, a', did (Answered (str_bytes name) (str_bytes args_json) (sc_status_is_ok st \<and> approved)) w v))"
    by (auto simp: traced_turn_def)
  obtain st1 ap1 a1 v where run: "base name args_json a (wt_world w) = (st1, ap1, a1, v)" by (cases "base name args_json a (wt_world w)")
  have w': "w' = did (Answered (str_bytes name) (str_bytes args_json) (sc_status_is_ok st \<and> approved)) w v" using 7(2) base run by auto
  show ?case unfolding w' by (rule trace_inv_did) (use 7(3) in \<open>auto simp: trace_inv_def split: if_splits\<close>)
next
  case (8 pc t spec call granted G w r a st r' a' w')
  show ?case by (rule traced_invoke_inv [OF 8(1,2) 8(3) [simplified] 8(4,5,6,7)])
qed
lemma run_trace:
  assumes "run_provider_loop strtod fmt (traced_env env) (traced_agent agent) (traced_turn turn) initial_prompt cache deadline_ns out a (start_trace w)
    = (st, out', cache', a', w')"
  shows "deeds_ok agent turn {} [] (wt_deeds w')"
proof -
  have "trace_inv agent turn {} [] {} (start_trace w)"
    by (simp add: trace_inv_def start_trace_def sc_tool_approval_override_clear_def)
  from traced.run_keeps [OF assms refl this] show ?thesis by (auto simp: trace_inv_def)
qed

lemma execute_trace:
  fixes agent :: "('d::{zero, plus, ord}, 'w) sc_agent"
  assumes "execute_tool_calls (traced_env env) (traced_agent agent) (traced_turn turn) deadline_ns pcs s = (st, stop, s')"
    and "ptr_null (wt_override (lp_world s))" "\<forall>(n, j) \<in> grant_keys (lp_grants s). Answered n j True \<in> set (wt_deeds (lp_world s))"
  shows "\<exists>ds. wt_deeds (lp_world s') = wt_deeds (lp_world s) @ ds \<and>
    deeds_ok agent turn (set (items (lp_denials s))) (wt_deeds (lp_world s)) ds"
proof -
  have "guarded_state (set (items (lp_denials s))) (trace_inv agent turn (set (items (lp_denials s))) (wt_deeds (lp_world s))) s"
    using assms(2,3) by (auto simp: guarded_state_def trace_inv_def)
  from traced.execute_keeps [OF assms(1) this] show ?thesis by (auto simp: guarded_state_def trace_inv_def)
qed
section \<open>How often the provider is asked\<close>

definition calls_made :: "('d, 'w) loop_state \<Rightarrow> nat" where
  "calls_made s = ar_provider_call_count (lp_out s)"

lemma quiet_calls_made:
  "step_keeps (\<lambda>s. calls_made s = n) (failure_step pc tst)"
  "step_keeps (\<lambda>s. calls_made s = n) (success_step pc)"
  "step_keeps (\<lambda>s. calls_made s = n) attachment_step"
  "step_keeps (\<lambda>s. calls_made s = n) (feedback_step v)"
  "step_keeps (\<lambda>s. calls_made s = n) (feedback_output_step agent tst)"
  "step_keeps (\<lambda>s. calls_made s = n) (summary_step v (\<lambda>t s. s\<lparr>lp_args_summary := t\<rparr>))"
  "step_keeps (\<lambda>s. calls_made s = n) (summary_step v (\<lambda>t s. s\<lparr>lp_output_summary := t\<rparr>))"
  "step_keeps (\<lambda>s. calls_made s = n) (replay_call i)"
  "step_keeps (\<lambda>s. calls_made s = n) (recover_step strtod fmt)"
  "step_keeps (\<lambda>s. calls_made s = n) usage_step"
  "step_keeps (\<lambda>s. calls_made s = n) malformed_step"
  "step_keeps (\<lambda>s. calls_made s = n) (budget_step turn')"
  "step_keeps (\<lambda>s. calls_made s = n) (output_step v)"
  "step_keeps (\<lambda>s. calls_made s = n) (prompt_step v)"
  "step_keeps (\<lambda>s. calls_made s = n) (event_step turn ty name msg st_code)"
  "step_keeps (\<lambda>s. calls_made s = n) (observer_step agent name status_text)"
  "step_keeps (\<lambda>s. calls_made s = n) (receipt_step env pc tst)"
  "step_keeps (\<lambda>s. calls_made s = n) (provider_request_once agent request)"
  by (auto intro!: step_keepsI simp: calls_made_def failure_step_def success_step_def attachment_step_def feedback_step_def
      feedback_output_step_def summary_step_def replay_call_def recover_step_def usage_step_def malformed_step_def budget_step_def
      output_step_def prompt_step_def event_step_def observer_step_def receipt_step_def provider_request_once_def turn_add_event_def
      result_add_event_def result_add_usage_def result_copy_tool_attachment_def Let_def split: prod.splits sum.splits if_splits)

lemma invoke_calls_made: "invoke_tool env granted t name call s = (st, s') \<Longrightarrow> calls_made s' = calls_made s"
  by (auto simp: invoke_tool_def calls_made_def split: prod.splits)

lemma fresh_calls_made: "fresh_call env turn t pc s = (st, s') \<Longrightarrow> calls_made s' = calls_made s"
proof -
  have ask: "calls_made s2 = calls_made s1" if "ask_and_invoke env turn t pc call s1 = (st1, s2)" for call s1 st1 s2
    using that by (auto simp: ask_and_invoke_def Let_def calls_made_def split: prod.splits if_splits dest!: invoke_calls_made [unfolded calls_made_def])
  assume "fresh_call env turn t pc s = (st, s')"
  then show ?thesis
    by (auto simp: fresh_call_def Let_def split: sum.splits prod.splits if_splits dest!: invoke_calls_made ask)
qed
lemmas calls_made_steps = quiet_calls_made step_if_keeps step_depends_keeps

lemma record_calls_made:
  assumes "record_call env agent turn pc tst used s = (st, s')"
  shows "calls_made s' = calls_made s"
proof -
  let ?P = "\<lambda>s'. calls_made s' = calls_made s"
  let ?first = "[step_if (tool_status_is_turn_terminal tst) (failure_step pc tst), (\<lambda>s. step_if (\<not> used \<and> call_succeeded tst s) (success_step pc) s)]"
  obtain st1 s1 where one: "run_steps ?first (sc_status_ok, s) = (st1, s1)" by (cases "run_steps ?first (sc_status_ok, s)")
  have "?P s1" by (rule run_steps_keeps [where P = ?P, OF _ refl one]) (auto intro: calls_made_steps)
  then have s1: "?P (count_call s1)" by (simp add: calls_made_def count_call_def)
  have "run_steps (record_steps env agent turn pc tst) (st1, count_call s1) = (st, s')" using assms one by (simp add: record_call_def)
  then show ?thesis
    by (rule run_steps_keeps [where P = ?P, OF _ s1, rotated]) (auto simp: record_steps_def Let_def intro: calls_made_steps)
qed

lemma one_calls_made:
  assumes "one_call env agent turn deadline_ns pc s = (st, stop, s')"
  shows "calls_made s' = calls_made s"
proof -
  obtain c w where c: "turn_check_continue (rt_monotonic env) turn deadline_ns (lp_world s) = (c, w)"
    by (cases "turn_check_continue (rt_monotonic env) turn deadline_ns (lp_world s)")
  let ?s0 = "s\<lparr>lp_world := w\<rparr>"
  obtain tst used stop1 s1 where t: "call_tool env agent turn pc ?s0 = (tst, used, stop1, s1)" by (cases "call_tool env agent turn pc ?s0")
  have replay: "calls_made s2 = calls_made s" if "replay_call i ?s0 = (st2, s2)" for i st2 s2
    using that by (auto simp: replay_call_def Let_def calls_made_def split: prod.splits)
  have fresh: "calls_made s2 = calls_made s" if "fresh_call env turn u pc ?s0 = (st2, s2)" for u st2 s2
    using fresh_calls_made [OF that] by (simp add: calls_made_def)
  have "calls_made s1 = calls_made s"
    using t by (auto simp: call_tool_def Let_def calls_made_def split: if_splits option.splits prod.splits
        dest!: replay [unfolded calls_made_def] fresh [unfolded calls_made_def])
  moreover obtain st2 s2 where r: "record_call env agent turn pc tst used s1 = (st2, s2)" by (cases "record_call env agent turn pc tst used s1")
  ultimately show ?thesis using assms c t r record_calls_made [OF r]
    by (auto simp: one_call_def Let_def calls_made_def clear_locals_def split: if_splits)
qed

lemma execute_calls_made:
  "execute_tool_calls env agent turn deadline_ns pcs s = (st, stop, s') \<Longrightarrow> calls_made s' = calls_made s"
proof (induction pcs arbitrary: s)
  case (Cons pc pcs)
  obtain st1 stop1 s1 where o: "one_call env agent turn deadline_ns pc s = (st1, stop1, s1)" by (cases "one_call env agent turn deadline_ns pc s")
  with Cons one_calls_made [OF o] show ?case by (auto split: if_splits)
qed simp

lemma say_calls_made:
  assumes "run_steps [output_step v, event_step turn ty name v st_code] (sc_status_ok, s) = (st, s')"
  shows "calls_made s' = calls_made s"
  by (rule run_steps_keeps [where P = "\<lambda>s'. calls_made s' = calls_made s", OF _ refl assms]) (auto intro: calls_made_steps)

lemma text_calls_made:
  "step_keeps (\<lambda>s. calls_made s = n) (text_steps turn)" "step_keeps (\<lambda>s. calls_made s = n) (stop_text turn)"
  by (rule step_keepsI; use say_calls_made in \<open>force simp: text_steps_def stop_text_def step_if_def Let_def simp del: run_steps.simps
      split: if_splits\<close>)+

lemma ask_provider_calls_made:
  assumes "ask_provider strtod fmt agent turn request s = (st, s')"
  shows "calls_made s' = calls_made s + 1"
proof -
  let ?P = "\<lambda>s'. calls_made s' = calls_made s + 1"
  have "?P (s\<lparr>lp_out := (lp_out s)\<lparr>ar_provider_call_count := ar_provider_call_count (lp_out s) + 1\<rparr>\<rparr>)" by (simp add: calls_made_def)
  from run_steps_keeps [where P = ?P, OF _ this assms [unfolded ask_provider_def]] show ?thesis
    by (auto intro: calls_made_steps text_calls_made)
qed

lemma provider_loop_calls_made:
  "provider_loop strtod fmt env agent turn specs_json deadline_ns left s = (st, s') \<Longrightarrow> calls_made s' \<le> calls_made s + left"
proof (induction left arbitrary: s)
  case (Suc left)
  let ?request = "provider_request agent turn specs_json s"
  obtain c w where c: "turn_check_continue (rt_monotonic env) turn deadline_ns (lp_world s) = (c, w)"
    by (cases "turn_check_continue (rt_monotonic env) turn deadline_ns (lp_world s)")
  let ?s0 = "s\<lparr>lp_world := w\<rparr>"
  obtain st1 s1 where p: "ask_provider strtod fmt agent turn ?request ?s0 = (st1, s1)" by (cases "ask_provider strtod fmt agent turn ?request ?s0")
  have s1: "calls_made s1 = calls_made s + 1" using ask_provider_calls_made [OF p] by (simp add: calls_made_def)
  let ?s1 = "s1\<lparr>lp_feedback := sc_string_builder_init\<rparr>"
  obtain st2 stop s2 where e: "execute_tool_calls env agent turn deadline_ns (items (rs_tool_calls (lp_response s1))) ?s1 = (st2, stop, s2)"
    by (cases "execute_tool_calls env agent turn deadline_ns (items (rs_tool_calls (lp_response s1))) ?s1")
  have s2: "calls_made s2 = calls_made s + 1" using execute_calls_made [OF e] s1 by (simp add: calls_made_def)
  obtain st3 s3 where t: "stop_text turn s2 = (st3, s3)" by (cases "stop_text turn s2")
  have s3: "calls_made s3 = calls_made s + 1" using step_keepsD [OF text_calls_made(2) s2 t] .
  obtain st4 s4 where x: "extend_prompt s2 = (st4, s4)" by (cases "extend_prompt s2")
  have "calls_made s4 = calls_made s2"
    using x by (auto simp: extend_prompt_def calls_made_def prompt_step_def split: prod.splits if_splits)
  with s2 have s4: "calls_made s4 = calls_made s + 1" by simp
  have clear: "calls_made (clear_response q) = calls_made q" "calls_made (clear_feedback q) = calls_made q" for q :: "('a, 'b) loop_state"
    by (simp_all add: calls_made_def clear_response_def clear_feedback_def split: prod.splits)
  show ?case using Suc.prems c p e t x s1 s2 s3 s4 clear Suc.IH [of "clear_response (clear_feedback s4)"]
    by (auto simp: Let_def split: if_splits) (simp_all add: calls_made_def)
qed simp

lemma run_calls_made:
  assumes "run_provider_loop strtod fmt env agent turn initial_prompt cache deadline_ns out a w = (st, out', cache', a', w')"
  shows "ar_provider_call_count out' \<le> ar_provider_call_count out + sa_max_tool_iterations agent"
proof -
  obtain st0 s0 where p: "prompt_step initial_prompt (loop_start out a w) = (st0, s0)" by (cases "prompt_step initial_prompt (loop_start out a w)")
  then have s0: "calls_made s0 = ar_provider_call_count out" by (auto simp: prompt_step_def loop_start_def calls_made_def split: prod.splits)
  obtain specs owned c a1 where specs: "(if sc_status_is_ok st0 then tool_specs_json_for_turn fmt (sa_tools agent) turn cache (lp_alloc s0)
      else (Inl st0, None, cache, lp_alloc s0)) = (specs, owned, c, a1)" by (metis prod.exhaust)
  have same: "calls_made (s0\<lparr>lp_alloc := a1\<rparr>) = calls_made s0" by (simp add: calls_made_def)
  obtain st1 s1 where r: "(case specs of Inl e \<Rightarrow> (e, s0\<lparr>lp_alloc := a1\<rparr>)
        | Inr specs_json \<Rightarrow> provider_loop strtod fmt env agent turn specs_json deadline_ns (sa_max_tool_iterations agent) (s0\<lparr>lp_alloc := a1\<rparr>)) = (st1, s1)"
    by (meson surj_pair)
  then have "calls_made s1 \<le> calls_made s0 + sa_max_tool_iterations agent"
    using same by (auto split: sum.splits dest: provider_loop_calls_made)
  moreover have "ar_provider_call_count out' = calls_made s1"
    using assms p specs r by (auto simp: run_provider_loop_def Let_def take_output_def clear_caches_def calls_made_def split: prod.splits)
  ultimately show ?thesis using s0 by simp
qed

section \<open>Repeated calls\<close>

text \<open>A repeated call: nothing of the world changes, and the output is the one of the first call.\<close>

lemma fill_if_keeps:
  assumes "fill_if b (fill op put) (st, q, a) = (st', q', a')" "\<And>v q. g (put v q) = g q"
  shows "g q' = g q \<and> (sc_status_is_ok st' \<longrightarrow> sc_status_is_ok st)"
  using assms(1) by (auto simp: fill_if_def fill_def assms(2) split: prod.splits sum.splits if_splits)

lemma replay_text_bytes:
  "concat (map str_bytes (replay_text e)) = ''duplicate tool call suppressed; previous result reused'' @
     (if owned_text (sk_output e) = [] then [] else '': '' @ owned_text (sk_output e))"
  by (cases "sk_output e") (auto simp: replay_text_def string_len_def)

lemma result_from_cache_output:
  assumes "tool_result_from_success_cache e a = (st, r, a')" "sc_status_is_ok st"
  shows "tr_output r = Some (''duplicate tool call suppressed; previous result reused'' @
     (if owned_text (sk_output e) = [] then [] else '': '' @ owned_text (sk_output e)))"
proof -
  let ?att = "has_attachment (sk_attachment_bytes e)"
  let ?s0 = "fill (\<lambda>_. build_string (replay_text e)) (\<lambda>s r. r\<lparr>tr_output := s\<rparr>) (sc_status_ok, tool_result_zero\<lparr>tr_success := True\<rparr>, a)"
  let ?s1 = "fill_if ?att (fill (\<lambda>_. sc_string_from_str (sc_string_as_str (sk_attachment_content_type e))) (\<lambda>s r. r\<lparr>tr_attachment_content_type := s\<rparr>)) ?s0"
  let ?s2 = "fill_if ?att (fill (\<lambda>_. sc_string_from_str (sc_string_as_str (sk_attachment_filename e))) (\<lambda>s r. r\<lparr>tr_attachment_filename := s\<rparr>)) ?s1"
  let ?s3 = "fill_if ?att (fill (\<lambda>_. sc_bytes_from_buf (Str (contents (sk_attachment_bytes e))))
    (\<lambda>b r. r\<lparr>tr_attachment_bytes := b, tr_attachment_delivery := sk_attachment_delivery e\<rparr>)) ?s2"
  obtain st0 q0 a0 where s0: "?s0 = (st0, q0, a0)" by (cases ?s0)
  obtain st1 q1 a1 where s1: "?s1 = (st1, q1, a1)" by (cases ?s1)
  obtain st2 q2 a2 where s2: "?s2 = (st2, q2, a2)" by (cases ?s2)
  obtain st3 q3 a3 where s3: "?s3 = (st3, q3, a3)" by (cases ?s3)
  have "st = st3 \<and> r = q3" using assms s3 by (auto simp: tool_result_from_success_cache_def Let_def split: if_splits)
  moreover note fill_if_keeps [where g = tr_output, OF s3 [unfolded s2]] fill_if_keeps [where g = tr_output, OF s2 [unfolded s1]]
    fill_if_keeps [where g = tr_output, OF s1 [unfolded s0]]
  ultimately have "tr_output r = tr_output q0" "sc_status_is_ok st0" using assms(2) by auto
  moreover obtain rb ab where b: "build_string (replay_text e) a = (rb, ab)" by (cases "build_string (replay_text e) a")
  moreover have "replay_text e \<noteq> []" by (simp add: replay_text_def)
  ultimately show ?thesis using s0 build_string_spec [OF b] unfolding replay_text_bytes [symmetric]
    by (cases rb) (auto simp: fill_def)
qed

lemma repeated_call:
  assumes "tool_success_cache_find (lp_successes s) pc = Some i" "turn_allows_tool turn (sc_string_as_str (call_name pc))"
    and "find_tool_by_name (sa_tools agent) (sc_string_as_str (call_name pc)) = Some t" "\<not> tool_terminal_failures_contains (lp_failures s) pc"
    and "call_tool env agent turn pc s = (st, used, stop, s')"
  defines "old \<equiv> owned_text (sk_output (items (lp_successes s) ! i))"
  shows "used \<and> lp_world s' = lp_world s \<and> (sc_status_is_ok st \<longrightarrow>
    tr_output (lp_result s') = Some (''duplicate tool call suppressed; previous result reused'' @ (if old = [] then [] else '': '' @ old)))"
proof -
  let ?e = "items (lp_successes s) ! i"
  obtain st1 r a where c: "tool_result_from_success_cache ?e (lp_alloc s) = (st1, r, a)" by (cases "tool_result_from_success_cache ?e (lp_alloc s)")
  with assms(1-5) have "used" "st = st1" "lp_result s' = r" "lp_world s' = lp_world s"
    by (auto simp: call_tool_def replay_call_def Let_def)
  with result_from_cache_output [OF c] show ?thesis unfolding old_def by simp
qed
lemma deeds_ok_member: "deeds_ok agent turn D before ds \<Longrightarrow> d \<in> set ds \<Longrightarrow> \<exists>b. deed_ok agent turn D b d"
  by (induction ds arbitrary: before) auto

lemma deeds_ok_not_declined:
  assumes "deeds_ok agent turn D before ds" "Invoked spec args granted \<in> set ds" "d \<in> D"
  shows "\<not> sc_str_equal (sc_string_as_str (ad_tool_name d)) (ts_name spec)"
proof
  assume eq: "sc_str_equal (sc_string_as_str (ad_tool_name d)) (ts_name spec)"
  from deeds_ok_member [OF assms(1,2)] obtain pc where pc: "sc_str_equal (ts_name spec) (sc_string_as_str (call_name pc))" "gated turn D spec pc" by auto
  from pc(2) assms(3) have "\<not> names_call (ad_tool_name d) pc" by (auto simp: gated_def)
  moreover from eq pc(1) have "names_call (ad_tool_name d) pc" unfolding names_call_def by (rule str_equal_trans)
  ultimately show False by contradiction
qed

end
