(* ===== verification/SC_Tool_Properties.thy ===== *)
theory SC_Tool_Properties
  imports "HOL-Library.Code_Target_Numeral" SC_File_Tools SC_History SC_Tool_Trace
begin

text \<open>
  What the conversation history and the tools promise: the properties of the theories \<open>SC_History\<close>, \<open>SC_Tools\<close>,
  \<open>SC_Wrappers\<close> and \<open>SC_File_Tools\<close>, each with a closed instance where it has hypotheses.
\<close>

section \<open>Concrete inputs for the closed instances\<close>

text \<open>A workspace \<^verbatim>\<open>/w\<close>, opened as descriptor 3, that holds the file \<^verbatim>\<open>f\<close>.\<close>

definition tool_fs :: fs where
  "tool_fs = \<lparr>realpath = (\<lambda>p. if p \<in> set [''/'', ''/w'', ''/w/f''] then Some p else None), getcwd = Some ''/w'',
     home_dir = Some ''/w'', open_dir = (\<lambda>_. Some 3), openat_dir = (\<lambda>fd _. Inr (fd + 1))\<rparr>"

definition tool_policy :: sc_security_policy where
  "tool_policy = sc_security_policy_init\<lparr>autonomy := SC_AUTONOMY_FULL, workspace_root := Some ''/w'', workspace_only := True\<rparr>"

definition tool_env :: env where
  "tool_env = \<lparr>env_fs = tool_fs, env_sodium = \<lparr>hmac = (\<lambda>key msg. [length msg]), base64 = (\<lambda>bs. map (\<lambda>_. CHR ''b'') bs)\<rparr>, env_pid = 7, env_gmtime = None\<rparr>"

definition tool_disk :: disk where
  "tool_disk = \<lparr>dk_entries = (\<lambda>dir name. if dir = 3 \<and> name = ''f'' then Some (Regular ''old'') else None), dk_transfers = [Interrupted, Moved 2],
     dk_faults = [], dk_listing = (\<lambda>_. None), dk_fds = 0, dk_chain = None, dk_override = Str [], dk_wall = Some (0, 0)\<rparr>"

definition tool_ic :: "nat sc_tool_impl_context" where
  "tool_ic = \<lparr>ic_context = \<lparr>cx_policy = Some tool_policy, cx_estop = None, cx_max_output_bytes = 100, cx_max_arg_bytes = 0,
     cx_timeout_ms = 0, cx_cancel_requested = False\<rparr>, ic_schema = None, ic_output_schema = None\<rparr>"

definition tool_call :: "(string \<times> string) list \<Rightarrow> nat sc_tool_call" where
  "tool_call args = \<lparr>tc_call_id = Str ''1'', tc_args = Some (SC_JSON_OBJECT (map (\<lambda>(k, v). (Some k, SC_JSON_STRING (Some v))) args) 8 True),
     tc_cancel_requested = False\<rparr>"
definition model_ic :: "nat sc_tool_impl_context" where
  "model_ic = tool_ic\<lparr>ic_schema := Some (SC_JSON_OBJECT [(Some ''type'', SC_JSON_STRING (Some ''object''))] 8 True)\<rparr>"

definition model_tool :: "(nat, disk) sc_tool" where
  "model_tool = file_read_vtab tool_env model_ic"

definition tool_history :: sc_history where
  "tool_history = (sc_history_init 0)\<lparr>messages := (messages (sc_history_init 0))\<lparr>items :=
     [\<lparr>msg_role = Some ''user'', msg_content = Some ''please look at the file and tell me what it says''\<rparr>,
      \<lparr>msg_role = Some ''tool'', msg_content = Some ''a result without its request''\<rparr>,
      \<lparr>msg_role = Some ''user'', msg_content = Some ''go on''\<rparr>], vcap := 8, vheld := True\<rparr>\<rparr>"



definition loop_turn :: "(nat, disk) sc_turn" where
  "loop_turn = \<lparr>tn_cancel_requested = (\<lambda>_. False), tn_media_count = 0, tn_media_context = Str [], tn_allowed_tools = [], tn_denied_tools = [],
     tn_autonomy_override = None, tn_max_total_tokens = 0, tn_max_cost_usd = 0, tn_route_hint = Str [], tn_request_tool_approval = None,
     tn_event_callback = None, tn_disable_memory = False\<rparr>"




section \<open>The conversation history\<close>

text \<open>C32. Cutting a history to a budget of characters: when it succeeds, the history fits the budget; when it does not,
  nothing but the orphaned tool results is gone. In both cases no tool result stands without the assistant's message it answers,
  what is kept of the old messages keeps its order and gains at most a summary in front, and every block of a dropped
  message is given back.\<close>

theorem history_fits_budget:
  assumes "sc_history_prune_to_budget h max_chars a = (st, h', a')" "history_inv h"
  shows "history_inv h' \<and> live a' - history_blocks h' = live a - history_blocks h \<and>
    no_orphans False (items (messages h')) \<and> derived (items (messages h)) (items (messages h')) \<and>
    (if sc_status_is_ok st then sc_history_estimated_chars h' \<le> max_chars
     else items (messages h') = kept False (items (messages h)))"
  using prune_to_budget_spec [OF assms] by (simp add: rebuilt_def)

theorem history_fits_budget_witness:
  "\<exists>st h' a'. sc_history_prune_to_budget tool_history 60 heap0 = (st, h', a') \<and> sc_status_is_ok st \<and>
     no_orphans False (items (messages h')) \<and> sc_history_estimated_chars h' \<le> 60"
proof -
  obtain st h' a' where run: "sc_history_prune_to_budget tool_history 60 heap0 = (st, h', a')"
    by (cases "sc_history_prune_to_budget tool_history 60 heap0")
  have "sc_status_is_ok (fst (sc_history_prune_to_budget tool_history 60 heap0))" by code_simp
  moreover have "history_inv tool_history" 
    by (simp add: history_inv_def tool_history_def sc_history_init_def vec_inv_def SIZEOF_HISTORY_MESSAGE_def SIZE_MAX_def)
  ultimately show ?thesis using history_fits_budget [OF run] run by auto
qed

text \<open>The section of the prompt that shows the history is the same whether or not the orphaned tool results were removed
  from the history before: the loop that writes the lines skips exactly the messages the removal takes out.\<close>

theorem prompt_shows_pruned_history:
  "sc_history_append_to_prompt (fst (sc_history_prune_orphans h b)) pb a = sc_history_append_to_prompt h pb a"
proof -
  obtain b' where "prune_orphans_from False (items (messages h)) b = (kept False (items (messages h)), b')"
    using prune_from_spec by blast
  then show ?thesis
    by (simp add: sc_history_prune_orphans_def sc_history_append_to_prompt_def prompt_lines_kept)
qed

section \<open>The tools\<close>

text \<open>C31. A schema of string parameters admits a call exactly when the arguments are an object in which every required
  parameter is a string of valid UTF-8 without a zero byte; a tool that reads a required parameter then gets that string,
  unless it is empty.\<close>

theorem schema_admits_exactly:
  fixes s :: "'d sc_json_value"
  assumes "schema_of_strings (map (\<lambda>p. (Str (fst p), snd p)) ps) a = (Inr s, a')" "ts_input_schema spec = Some s"
  shows "live a' = live a + json_blocks s \<and>
    (sc_status_is_ok (sc_tool_validate_call_against_schema spec call) \<longleftrightarrow>
      (\<exists>ms c h. tc_args call = Some (SC_JSON_OBJECT ms c h) \<and>
         (\<forall>p \<in> set ps. snd p \<longrightarrow> clean_string (last_member ms (Str (fst p)))))) \<and>
    (\<forall>n out. sc_status_is_ok (sc_tool_validate_call_against_schema spec call) \<and> (n, True) \<in> set ps \<and> n \<noteq> [] \<longrightarrow>
      (\<exists>t. sc_json_object_get (tc_args call) (Str n) = Some (SC_JSON_STRING t) \<and>
        (owned_text t \<noteq> [] \<longrightarrow> sc_tool_get_string_arg (Some call) (Str n) out = (sc_status_ok, Str (owned_text t)))))"
proof -
  from schema_of_strings_shape [OF assms(1)] have s: "schema_shape ps s" "live a' = live a + json_blocks s" by auto
  show ?thesis using s(2) validate_call_iff [OF s(1) assms(2), of call] required_arg_read [OF s(1) assms(2), of call] by blast
qed
theorem schema_admits_witness:
  "\<exists>s a'. sc_tool_schema_two_strings (Str ''path'') True (Str ''mode'') False heap0 = (Inr s, a') \<and>
     sc_status_is_ok (sc_tool_validate_call_against_schema (spec_zero\<lparr>ts_input_schema := Some (s :: nat sc_json_value)\<rparr>) (tool_call [(''path'', ''f'')])) \<and>
     \<not> sc_status_is_ok (sc_tool_validate_call_against_schema (spec_zero\<lparr>ts_input_schema := Some s\<rparr>) (tool_call [(''mode'', ''f'')]))"
proof -
  let ?ps = "[(''path'', True), (''mode'', False)]"
  have "case fst (sc_tool_schema_two_strings (Str ''path'') True (Str ''mode'') False heap0 :: nat sc_json_value res \<times> sc_allocator) of
      Inl e \<Rightarrow> False | Inr s \<Rightarrow> True" by code_simp
  then obtain s a' where two: "sc_tool_schema_two_strings (Str ''path'') True (Str ''mode'') False heap0 = (Inr (s :: nat sc_json_value), a')"
    by (cases "sc_tool_schema_two_strings (Str ''path'') True (Str ''mode'') False heap0 :: nat sc_json_value res \<times> sc_allocator")
       (auto split: sum.splits)
  then have run: "schema_of_strings (map (\<lambda>p. (Str (fst p), snd p)) ?ps) heap0 = (Inr s, a')" by (simp add: sc_tool_schema_two_strings_def)
  have u: "sc_str_is_valid_utf8 (Str ''f'')" by code_simp
  show ?thesis
    using two schema_admits_exactly [OF run, of "spec_zero\<lparr>ts_input_schema := Some s\<rparr>" "tool_call [(''path'', ''f'')]"]
      schema_admits_exactly [OF run, of "spec_zero\<lparr>ts_input_schema := Some s\<rparr>" "tool_call [(''mode'', ''f'')]"]
    by (auto simp: tool_call_def clean_string_def u)
qed



text \<open>C28. Replacing or creating a file through its temporary file is all or nothing: when it fails, at whichever call, the file
  is as before, and when it succeeds, it holds exactly the content and did not exist before if it was to be created. No other
  entry but the temporary one changes, and no block or descriptor is kept.\<close>

theorem atomic_write_all_or_nothing:
  assumes "write_atomic_at en dir (Str leaf) content fail_if_exists d a = (st, d', a')"
  shows "live a' = live a \<and> changed_only dir {temp_name (env_pid en) leaf, leaf} d d' \<and>
    dk_entries d' dir leaf = (if sc_status_is_ok st then Some (Regular (str_bytes content)) else dk_entries d dir leaf) \<and>
    (sc_status_is_ok st \<and> fail_if_exists \<longrightarrow> dk_entries d dir leaf = None)"
  using write_atomic_spec [OF assms] by simp

theorem atomic_write_witness:
  "\<exists>st d' a'. write_atomic_at tool_env 3 (Str ''f'') (Str ''new'') True tool_disk heap0 = (st, d', a') \<and>
     \<not> sc_status_is_ok st \<and> dk_entries d' 3 ''f'' = Some (Regular ''old'')"
proof -
  obtain st d' a' where run: "write_atomic_at tool_env 3 (Str ''f'') (Str ''new'') True tool_disk heap0 = (st, d', a')"
    by (cases "write_atomic_at tool_env 3 (Str ''f'') (Str ''new'') True tool_disk heap0")
  have "dk_entries tool_disk 3 ''f'' = Some (Regular ''old'')" by (simp add: tool_disk_def)
  with atomic_write_all_or_nothing [OF run] have "\<not> sc_status_is_ok st" "dk_entries d' 3 ''f'' = Some (Regular ''old'')"
    by (auto split: if_splits)
  with run show ?thesis by blast
qed


text \<open>A tool behind the rate limit answers a sequence of calls like the tool itself as long as calls are left; every later call
  gets a timeout without reaching the tool, whose state and memory stay as they were.\<close>

theorem rate_limit_is_prefix:
  assumes "tw_kind tw = TOOL_WRAPPER_RATE_LIMIT" "n \<le> tw_max_calls tw"
  shows "invoke_all (wrapper_invoke clock tw inner) cs (n, w) a =
    (case invoke_all (sc_tool_invoke (Some inner)) (take (tw_max_calls tw - n) cs) w a of
       (rs, a', w') \<Rightarrow>
         (rs @ replicate (length cs - (tw_max_calls tw - n)) (sc_status_timeout ''sc.tool.rate_limited'', []), a',
          n + min (tw_max_calls tw - n) (length cs), w'))"
  by (rule rate_limit_calls [OF assms])

theorem rate_limit_witness:
  "invoke_all (wrapper_invoke (\<lambda>d. (dk_wall d, d)) (wrapper_zero\<lparr>tw_max_calls := 1\<rparr>) (file_read_vtab tool_env tool_ic))
       [tool_call [], tool_call []] (1, tool_disk) heap0 =
     ([(sc_status_timeout ''sc.tool.rate_limited'', []), (sc_status_timeout ''sc.tool.rate_limited'', [])], heap0, 1, tool_disk)"
  by (subst rate_limit_is_prefix) (simp_all add: wrapper_zero_def numeral_2_eq_2)

text \<open>The tool specifications sent to a model list every registered tool once, in order, as a function with its name, its description
  and a copy of its parameter schema: when the list is built, every tool answered with its specification, no two tools have the
  same name, and the document holds exactly the blocks that were taken.\<close>

theorem model_specs_list_every_tool:
  fixes v :: "'d sc_json_value"
  assumes "sc_tool_registry_model_specs_from_tools ts a = (Inr v, a')"
  shows "json_inv v \<and> live a' = live a + json_blocks v \<and>
    (\<exists>specs. map sc_tool_spec_get ts = map Inr specs \<and> json_view v = JArray (map model_spec specs) \<and> distinct_names specs)"
  by (rule model_specs_ok [OF assms])

theorem model_specs_witness:
  "\<exists>v a'. sc_tool_registry_model_specs_from_tools [Some model_tool] heap0 = (Inr v, a') \<and>
     json_view v = JArray [model_spec (file_read_spec model_ic)]"
proof -
  let ?run = "sc_tool_registry_model_specs_from_tools [Some model_tool] heap0"
  have "case fst ?run of Inl e \<Rightarrow> False | Inr v \<Rightarrow> True" by code_simp
  then obtain v a' where run: "?run = (Inr v, a')" by (cases ?run) (auto split: sum.splits)
  have "sc_tool_spec_get (Some model_tool) = Inr (file_read_spec model_ic)" by code_simp
  with model_specs_list_every_tool [OF run] run show ?thesis by auto
qed

text \<open>A file that another writer left under the name of the temporary file is removed, although the write is refused because
  that file is there.\<close>

theorem atomic_write_removes_other_file:
  assumes "dk_entries d dir (temp_name (env_pid en) leaf) = Some (Regular other)" "dk_faults d = []" "leaf \<noteq> []"
    and "write_atomic_at en dir (Str leaf) content fail_if_exists d a = (st, d', a')"
    and "build_string [Str leaf, Str (''.tmp.'' @ dec (env_pid en))] a = (Inr t, a1)"
  shows "\<not> sc_status_is_ok st \<and> dk_entries d' dir (temp_name (env_pid en) leaf) = None"
  by (rule write_atomic_removes_other [OF assms(4,3,5,1,2)])

theorem atomic_write_removes_witness:
  "\<exists>st d' a'. write_atomic_at tool_env 3 (Str ''f'') (Str ''new'') False (set_entry 3 (temp_name 7 ''f'') (Some (Regular ''other'')) tool_disk) heap0
       = (st, d', a') \<and> \<not> sc_status_is_ok st \<and> dk_entries d' 3 (temp_name 7 ''f'') = None"
proof -
  let ?d = "set_entry 3 (temp_name 7 ''f'') (Some (Regular ''other'')) tool_disk"
  obtain st d' a' where run: "write_atomic_at tool_env 3 (Str ''f'') (Str ''new'') False ?d heap0 = (st, d', a')"
    by (cases "write_atomic_at tool_env 3 (Str ''f'') (Str ''new'') False ?d heap0")
  let ?b = "build_string [Str ''f'', Str (''.tmp.'' @ dec (env_pid tool_env))] heap0"
  have "case fst ?b of Inl e \<Rightarrow> False | Inr t \<Rightarrow> True" by code_simp
  then obtain t a1 where b: "?b = (Inr t, a1)" by (cases ?b) (auto split: sum.splits)
  have "env_pid tool_env = 7" "dk_faults ?d = []" by (simp_all add: tool_env_def tool_disk_def set_entry_def)
  with atomic_write_removes_other_file [OF _ _ _ run b, of "''other''"] run show ?thesis by (simp add: set_entry_def)
qed
section \<open>The tool loop\<close>




text \<open>The provider is asked at most as often as the agent's limit allows, whatever it answers and whatever the tools do.\<close>

theorem provider_calls_bounded:
  "ar_provider_call_count (fst (snd (run_provider_loop strtod fmt env agent turn initial_prompt cache deadline_ns out a w)))
     \<le> ar_provider_call_count out + sa_max_tool_iterations agent"
  using run_calls_made by (metis prod.collapse)

text \<open>C18. The tools offered to the model in a turn are exactly the agent's tools that the turn's filters and its autonomy allow, each once, with
  distinct names.\<close>

theorem offered_tools_are_allowed:
  fixes v :: "'d sc_json_value"
  assumes "tool_specs_for_turn tools turn a = (Inr v, a')"
  shows "json_inv v \<and> live a' = live a + json_blocks v \<and>
    (\<exists>specs. json_view v = JArray (map model_spec specs) \<and> distinct_names specs \<and>
      (\<forall>spec \<in> set specs. turn_allows_tool turn (ts_name spec) \<and> turn_autonomy_allows_spec turn spec) \<and>
      (\<forall>spec. turn_allows_tool turn (ts_name spec) \<and> turn_autonomy_allows_spec turn spec \<longrightarrow>
        (spec \<in> set specs \<longleftrightarrow> (\<exists>t \<in> set tools. sc_tool_spec_get t = Inr spec))))"
  by (rule tool_specs_for_turn_ok [OF assms])

theorem offered_tools_witness:
  "\<exists>v a' specs. tool_specs_for_turn [Some model_tool] (loop_turn\<lparr>tn_denied_tools := [Str ''file_read'']\<rparr>) heap0 = (Inr v, a') \<and>
     json_view v = JArray (map model_spec specs) \<and> file_read_spec model_ic \<notin> set specs"
proof -
  let ?turn = "loop_turn\<lparr>tn_denied_tools := [Str ''file_read'']\<rparr>"
  let ?run = "tool_specs_for_turn [Some model_tool] ?turn heap0"
  have "case fst ?run of Inl e \<Rightarrow> False | Inr v \<Rightarrow> True" by code_simp
  then obtain v a' where run: "?run = (Inr v, a')" by (cases ?run) (auto split: sum.splits)
  have "\<not> turn_allows_tool ?turn (ts_name (file_read_spec model_ic))" by code_simp
  with offered_tools_are_allowed [OF run] run show ?thesis by blast
qed



text \<open>Stripping the receipt tokens from an output can leave one: the text around a token that is taken out may join to another token.\<close>

theorem receipt_token_survives:
  "case strip_receipt_tokens_from_output ((sc_agent_turn_result_init None :: nat sc_agent_turn_result)
       \<lparr>ar_output := Some ''sc-re[receipt: sc-receipt-a]ceipt-x''\<rparr>) heap0 of
     (st, out, a) \<Rightarrow> sc_status_is_ok st \<and> ar_output out = Some ''sc-receipt-x''"
  by code_simp

end
