(* ===== verification/SC_Memory.thy ===== *)
theory SC_Memory
  imports SC_Provider SC_Time SC_Ctype "HOL-Library.Multiset"
begin

text \<open>
  Long-term memory: the records, entries, queries and results of \<^verbatim>\<open>include/sc/memory.h\<close>, the store that
  \<^verbatim>\<open>src/memory/memory_common.c\<close> keeps in a vector of entries, and the handle of \<^verbatim>\<open>src/contracts/contracts.c\<close> through
  which an agent uses a backend. The store is shown to be a finite map from a namespace and a key to an entry.

  \<^verbatim>\<open>qsort\<close> of the C library is an argument; what is known of it is that it returns its items in an order in which none comes
  before one it compares greater than, for a comparison that is a total preorder.
\<close>

section \<open>Records, entries, queries and results\<close>

text \<open>Snapshots are read with any number in place of the enumeration, so the type has room for the others.\<close>

datatype sc_memory_redaction_state =
    SC_MEMORY_REDACTION_NONE
  | SC_MEMORY_REDACTION_REDACTED
  | SC_MEMORY_REDACTION_DELETED
  | REDACTION_OTHER int

datatype sc_memory_retention_policy =
    SC_MEMORY_RETENTION_DEFAULT
  | SC_MEMORY_RETENTION_EPHEMERAL
  | SC_MEMORY_RETENTION_PERSISTENT
  | SC_MEMORY_RETENTION_EXPIRES_AT

record 'd sc_memory_record =
  mr_id :: sc_str
  mr_namespace_name :: sc_str
  mr_session_id :: sc_str
  mr_category :: sc_str
  mr_key :: sc_str
  mr_value :: sc_str
  mr_score :: 'd
  mr_importance :: int
  mr_superseded_by_id :: sc_str
  mr_source :: sc_str
  mr_metadata_json :: sc_str
  mr_redaction_state :: sc_memory_redaction_state
  mr_retention_policy :: sc_memory_retention_policy
  mr_expires_at :: int
  mr_content_ref :: sc_str
  mr_allow_sensitive_content :: bool

record 'd sc_memory_entry =
  me_id :: sc_string
  me_namespace_name :: sc_string
  me_session_id :: sc_string
  me_category :: sc_string
  me_key :: sc_string
  me_content :: sc_string
  me_timestamp :: int
  me_score :: 'd
  me_importance :: int
  me_superseded_by_id :: sc_string
  me_source :: sc_string
  me_metadata_json :: sc_string
  me_redaction_state :: sc_memory_redaction_state
  me_retention_policy :: sc_memory_retention_policy
  me_expires_at :: int
  me_content_ref :: sc_string

record sc_memory_query =
  mq_namespace_name :: sc_str
  mq_session_id :: sc_str
  mq_category :: sc_str
  mq_query :: sc_str
  mq_limit :: nat
  mq_include_superseded :: bool
  mq_max_query_bytes :: nat
  mq_max_results :: nat
  mq_max_total_result_bytes :: nat
  mq_include_redacted :: bool
  mq_include_deleted :: bool

type_synonym 'd sc_memory_result = "'d sc_memory_entry sc_vec"
type_synonym 'd sc_memory_store = "'d sc_memory_entry sc_vec"

definition SIZEOF_MEMORY_ENTRY :: nat where
  "SIZEOF_MEMORY_ENTRY = 288"

definition SC_MEMORY_MAX_NAMESPACE_BYTES :: nat where
  "SC_MEMORY_MAX_NAMESPACE_BYTES = 256"

definition SC_MEMORY_MAX_SESSION_BYTES :: nat where
  "SC_MEMORY_MAX_SESSION_BYTES = 256"

definition SC_MEMORY_MAX_CATEGORY_BYTES :: nat where
  "SC_MEMORY_MAX_CATEGORY_BYTES = 128"

definition SC_MEMORY_MAX_KEY_BYTES :: nat where
  "SC_MEMORY_MAX_KEY_BYTES = 512"

definition SC_MEMORY_MAX_SOURCE_BYTES :: nat where
  "SC_MEMORY_MAX_SOURCE_BYTES = 256"

definition SC_MEMORY_MAX_CONTENT_BYTES :: nat where
  "SC_MEMORY_MAX_CONTENT_BYTES = 262144"

definition SC_MEMORY_MAX_METADATA_BYTES :: nat where
  "SC_MEMORY_MAX_METADATA_BYTES = 65536"

definition SC_MEMORY_MAX_QUERY_BYTES :: nat where
  "SC_MEMORY_MAX_QUERY_BYTES = 8192"

definition SC_MEMORY_DEFAULT_MAX_RESULTS :: nat where
  "SC_MEMORY_DEFAULT_MAX_RESULTS = 64"

definition entry_zero_memory :: "'d::zero sc_memory_entry" where
  "entry_zero_memory = \<lparr>me_id = None, me_namespace_name = None, me_session_id = None, me_category = None, me_key = None,
     me_content = None, me_timestamp = 0, me_score = 0, me_importance = 0, me_superseded_by_id = None, me_source = None,
     me_metadata_json = None, me_redaction_state = SC_MEMORY_REDACTION_NONE, me_retention_policy = SC_MEMORY_RETENTION_DEFAULT,
     me_expires_at = 0, me_content_ref = None\<rparr>"

definition memory_record_zero :: "'d::zero sc_memory_record" where
  "memory_record_zero = \<lparr>mr_id = NullStr 0, mr_namespace_name = NullStr 0, mr_session_id = NullStr 0, mr_category = NullStr 0,
     mr_key = NullStr 0, mr_value = NullStr 0, mr_score = 0, mr_importance = 0, mr_superseded_by_id = NullStr 0, mr_source = NullStr 0,
     mr_metadata_json = NullStr 0, mr_redaction_state = SC_MEMORY_REDACTION_NONE, mr_retention_policy = SC_MEMORY_RETENTION_DEFAULT,
     mr_expires_at = 0, mr_content_ref = NullStr 0, mr_allow_sensitive_content = False\<rparr>"

definition memory_query_zero :: sc_memory_query where
  "memory_query_zero = \<lparr>mq_namespace_name = NullStr 0, mq_session_id = NullStr 0, mq_category = NullStr 0, mq_query = NullStr 0,
     mq_limit = 0, mq_include_superseded = False, mq_max_query_bytes = 0, mq_max_results = 0, mq_max_total_result_bytes = 0,
     mq_include_redacted = False, mq_include_deleted = False\<rparr>"

section \<open>Text helpers\<close>

definition str_is_empty :: "sc_str \<Rightarrow> bool" where
  "str_is_empty v \<longleftrightarrow> ptr_null v \<or> str_len v = 0"

definition string_or_empty :: "sc_string \<Rightarrow> sc_str" where
  "string_or_empty s = (case s of None \<Rightarrow> Str [] | Some t \<Rightarrow> Str t)"

definition copy_string_field :: "sc_str \<Rightarrow> sc_allocator \<Rightarrow> sc_string res \<times> sc_allocator" where
  "copy_string_field v a = sc_string_from_str (str_or_empty v) a"

definition validate_text_field :: "sc_str \<Rightarrow> nat \<Rightarrow> string \<Rightarrow> sc_status" where
  "validate_text_field v max_len key =
     (if ptr_null v then sc_status_ok
      else if str_len v > max_len then sc_status_invalid_argument key
      else if \<not> sc_str_is_valid_utf8 v then sc_status_parse key
      else sc_status_ok)"

text \<open>The inner loop over the needle, and the outer loop over the places where it may start.\<close>

fun casefold_at :: "string \<Rightarrow> string \<Rightarrow> bool" where
  "casefold_at [] hay = True"
| "casefold_at (n # ns) [] = False"
| "casefold_at (n # ns) (c # cs) = (if to_lower c \<noteq> to_lower n then False else casefold_at ns cs)"

fun casefold_from :: "string \<Rightarrow> string \<Rightarrow> bool" where
  "casefold_from needle [] = casefold_at needle []"
| "casefold_from needle (c # cs) = (casefold_at needle (c # cs) \<or> casefold_from needle cs)"

definition str_contains_casefold :: "sc_str \<Rightarrow> sc_str \<Rightarrow> bool" where
  "str_contains_casefold haystack needle =
     (if str_is_empty needle then True
      else if ptr_null haystack \<or> str_len haystack < str_len needle then False
      else casefold_from (str_bytes needle) (str_bytes haystack))"

definition secret_needles :: "string list" where
  "secret_needles = [''api_key'', ''apikey'', ''bot_token'', ''token'', ''secret'', ''password'', ''authorization'', ''cookie'']"

definition key_looks_secret :: "sc_str \<Rightarrow> bool" where
  "key_looks_secret key = list_ex (\<lambda>n. str_contains_casefold key (Str n)) secret_needles"

definition reserved_keys :: "string list" where
  "reserved_keys = [''__smolclaw_autosave'', ''__smolclaw_autosave_context'', ''smolclaw.autosave'', ''autosave.context'']"

definition sc_memory_key_is_reserved :: "sc_str \<Rightarrow> bool" where
  "sc_memory_key_is_reserved key = list_ex (\<lambda>r. sc_str_equal key (Str r)) reserved_keys"

definition redaction_state_valid :: "sc_memory_redaction_state \<Rightarrow> bool" where
  "redaction_state_valid s \<longleftrightarrow>
     s = SC_MEMORY_REDACTION_NONE \<or> s = SC_MEMORY_REDACTION_REDACTED \<or> s = SC_MEMORY_REDACTION_DELETED"

text \<open>The sign of \<^verbatim>\<open>memcmp\<close> over the shorter of the two lengths, then the lengths.\<close>

fun compare_bytes :: "string \<Rightarrow> string \<Rightarrow> int" where
  "compare_bytes (c # cs) (d # ds) =
     (if (of_char c :: nat) < of_char d then -1 else if (of_char c :: nat) > of_char d then 1 else compare_bytes cs ds)"
| "compare_bytes [] (d # ds) = -1"
| "compare_bytes (c # cs) [] = 1"
| "compare_bytes [] [] = 0"

definition compare_str :: "sc_str \<Rightarrow> sc_str \<Rightarrow> int" where
  "compare_str left right = compare_bytes (str_bytes left) (str_bytes right)"

section \<open>Validation\<close>

fun validate_fields :: "(sc_str \<times> nat \<times> string) list \<Rightarrow> sc_status" where
  "validate_fields [] = sc_status_ok"
| "validate_fields ((v, n, key) # fs) =
     (let st = validate_text_field v n key in (if sc_status_is_ok st then validate_fields fs else st))"

definition record_fields :: "'d sc_memory_record \<Rightarrow> (sc_str \<times> nat \<times> string) list" where
  "record_fields r =
     [(mr_namespace_name r, SC_MEMORY_MAX_NAMESPACE_BYTES, ''sc.memory.namespace_invalid''),
      (mr_session_id r, SC_MEMORY_MAX_SESSION_BYTES, ''sc.memory.session_invalid''),
      (mr_category r, SC_MEMORY_MAX_CATEGORY_BYTES, ''sc.memory.category_invalid''),
      (mr_key r, SC_MEMORY_MAX_KEY_BYTES, ''sc.memory.key_invalid''),
      (mr_value r, SC_MEMORY_MAX_CONTENT_BYTES, ''sc.memory.content_invalid''),
      (mr_source r, SC_MEMORY_MAX_SOURCE_BYTES, ''sc.memory.source_invalid''),
      (mr_metadata_json r, SC_MEMORY_MAX_METADATA_BYTES, ''sc.memory.metadata_invalid'')]"

definition validate_metadata :: "(string \<Rightarrow> 'd option) \<Rightarrow> sc_str \<Rightarrow> sc_allocator \<Rightarrow> sc_status \<times> sc_allocator" where
  "validate_metadata strtod m a =
     (if str_is_empty m then (sc_status_ok, a)
      else (case parse_json strtod m a of
              (Inl e, a1) \<Rightarrow> (e, a1)
            | (Inr v, a1) \<Rightarrow>
                ((if sc_json_type_of (Some v) \<noteq> JSON_OBJECT then sc_status_parse ''sc.memory.metadata_expected_object'' else sc_status_ok),
                 sc_json_destroy v a1)))"

definition sc_memory_validate_record :: "(string \<Rightarrow> 'd option) \<Rightarrow> 'd sc_memory_record \<Rightarrow> sc_allocator \<Rightarrow> sc_status \<times> sc_allocator" where
  "sc_memory_validate_record strtod r a =
     (if str_is_empty (mr_namespace_name r) \<or> str_is_empty (mr_key r)
      then (sc_status_invalid_argument ''sc.memory.record_invalid_argument'', a)
      else if sc_memory_key_is_reserved (mr_key r) \<or> \<not> mr_allow_sensitive_content r \<and> key_looks_secret (mr_key r)
      then (sc_status_security_denied ''sc.memory.secret_denied'', a)
      else if \<not> redaction_state_valid (mr_redaction_state r)
      then (sc_status_invalid_argument ''sc.memory.invalid_redaction_state'', a)
      else (let st = validate_fields (record_fields r) in
            (if sc_status_is_ok st then validate_metadata strtod (mr_metadata_json r) a else (st, a))))"

definition sc_memory_validate_query :: "sc_memory_query option \<Rightarrow> sc_status" where
  "sc_memory_validate_query query =
     (case query of
        None \<Rightarrow> sc_status_ok
      | Some q \<Rightarrow>
          (if mq_max_query_bytes q > 0 \<and> str_len (mq_query q) > mq_max_query_bytes q
           then sc_status_invalid_argument ''sc.memory.query_too_large''
           else validate_fields
                  [(mq_namespace_name q, SC_MEMORY_MAX_NAMESPACE_BYTES, ''sc.memory.query_namespace_invalid''),
                   (mq_session_id q, SC_MEMORY_MAX_SESSION_BYTES, ''sc.memory.query_session_invalid''),
                   (mq_category q, SC_MEMORY_MAX_CATEGORY_BYTES, ''sc.memory.query_category_invalid''),
                   (mq_query q, SC_MEMORY_MAX_QUERY_BYTES, ''sc.memory.query_invalid'')]))"

section \<open>Entries and results\<close>

definition sc_memory_entry_clear :: "'d sc_memory_entry \<Rightarrow> sc_allocator \<Rightarrow> sc_allocator" where
  "sc_memory_entry_clear e a =
     foldl (\<lambda>b s. sc_string_clear s b) a
       [me_id e, me_namespace_name e, me_session_id e, me_category e, me_key e, me_content e, me_superseded_by_id e,
        me_source e, me_metadata_json e, me_content_ref e]"

fun clear_memory_entries :: "'d sc_memory_entry list \<Rightarrow> sc_allocator \<Rightarrow> sc_allocator" where
  "clear_memory_entries [] a = a"
| "clear_memory_entries (e # es) a = clear_memory_entries es (sc_memory_entry_clear e a)"

definition sc_memory_result_init :: "'d sc_memory_result" where
  "sc_memory_result_init = sc_vec_init SIZEOF_MEMORY_ENTRY"

definition sc_memory_result_clear :: "'d sc_memory_result \<Rightarrow> sc_allocator \<Rightarrow> sc_allocator" where
  "sc_memory_result_clear r a = snd (sc_vec_clear r (clear_memory_entries (items r) a))"

definition copy_field ::
    "sc_str \<Rightarrow> (sc_string \<Rightarrow> 'd sc_memory_entry \<Rightarrow> 'd sc_memory_entry) \<Rightarrow> 'd sc_memory_entry fill_state \<Rightarrow> 'd sc_memory_entry fill_state" where
  "copy_field v put = fill (\<lambda>_. copy_string_field v) put"

text \<open>The ten strings are copied in the order of the struct, from the first failure on nothing is.\<close>

definition copy_entry :: "'d sc_memory_entry \<Rightarrow> sc_allocator \<Rightarrow> 'd::zero sc_memory_entry fill_state" where
  "copy_entry e a =
     copy_field (string_or_empty (me_content_ref e)) (\<lambda>s q. q\<lparr>me_content_ref := s\<rparr>)
     (copy_field (string_or_empty (me_metadata_json e)) (\<lambda>s q. q\<lparr>me_metadata_json := s\<rparr>)
     (copy_field (string_or_empty (me_source e)) (\<lambda>s q. q\<lparr>me_source := s\<rparr>)
     (copy_field (string_or_empty (me_superseded_by_id e)) (\<lambda>s q. q\<lparr>me_superseded_by_id := s\<rparr>)
     (copy_field (string_or_empty (me_content e)) (\<lambda>s q. q\<lparr>me_content := s\<rparr>)
     (copy_field (string_or_empty (me_key e)) (\<lambda>s q. q\<lparr>me_key := s\<rparr>)
     (copy_field (string_or_empty (me_category e)) (\<lambda>s q. q\<lparr>me_category := s\<rparr>)
     (copy_field (string_or_empty (me_session_id e)) (\<lambda>s q. q\<lparr>me_session_id := s\<rparr>)
     (copy_field (string_or_empty (me_namespace_name e)) (\<lambda>s q. q\<lparr>me_namespace_name := s\<rparr>)
     (copy_field (string_or_empty (me_id e)) (\<lambda>s q. q\<lparr>me_id := s\<rparr>)
       (sc_status_ok,
        entry_zero_memory\<lparr>me_timestamp := me_timestamp e, me_score := me_score e, me_importance := me_importance e,
          me_redaction_state := me_redaction_state e, me_retention_policy := me_retention_policy e, me_expires_at := me_expires_at e\<rparr>,
        a))))))))))"

definition sc_memory_result_push ::
    "'d::zero sc_memory_result \<Rightarrow> 'd sc_memory_entry \<Rightarrow> sc_allocator \<Rightarrow> sc_status \<times> 'd sc_memory_result \<times> sc_allocator" where
  "sc_memory_result_push r e a =
     (if item_size r \<noteq> SIZEOF_MEMORY_ENTRY then (sc_status_invalid_argument ''sc.memory_result.invalid_argument'', r, a)
      else (case copy_entry e a of
              (st, c, a1) \<Rightarrow>
                (if \<not> sc_status_is_ok st then (st, r, sc_memory_entry_clear c a1)
                 else (case sc_vec_push r (Some c) a1 of
                         (st', r', a2) \<Rightarrow>
                           (if \<not> sc_status_is_ok st' then (st', r', sc_memory_entry_clear c a2) else (sc_status_ok, r', a2))))))"

text \<open>A new identifier comes from the random device, the time from the wall clock.\<close>

definition entry_id :: "urandom \<Rightarrow> sc_str \<Rightarrow> sc_allocator \<Rightarrow> sc_string res \<times> sc_allocator" where
  "entry_id dev i a = (if str_is_empty i then sc_uuid_v4 dev a else copy_string_field i a)"

definition copy_entry_from_record ::
    "urandom \<Rightarrow> timespec \<Rightarrow> 'd sc_memory_record \<Rightarrow> sc_allocator \<Rightarrow> 'd::zero sc_memory_entry fill_state" where
  "copy_entry_from_record dev now r a =
     fill (\<lambda>_ b. (sc_clock_wall now, b)) (\<lambda>t q. q\<lparr>me_timestamp := t\<rparr>)
     (copy_field (mr_content_ref r) (\<lambda>s q. q\<lparr>me_content_ref := s\<rparr>)
     (copy_field (mr_metadata_json r) (\<lambda>s q. q\<lparr>me_metadata_json := s\<rparr>)
     (copy_field (mr_source r) (\<lambda>s q. q\<lparr>me_source := s\<rparr>)
     (copy_field (mr_superseded_by_id r) (\<lambda>s q. q\<lparr>me_superseded_by_id := s\<rparr>)
     (copy_field (mr_value r) (\<lambda>s q. q\<lparr>me_content := s\<rparr>)
     (copy_field (mr_key r) (\<lambda>s q. q\<lparr>me_key := s\<rparr>)
     (copy_field (mr_category r) (\<lambda>s q. q\<lparr>me_category := s\<rparr>)
     (copy_field (mr_session_id r) (\<lambda>s q. q\<lparr>me_session_id := s\<rparr>)
     (copy_field (mr_namespace_name r) (\<lambda>s q. q\<lparr>me_namespace_name := s\<rparr>)
     (fill (\<lambda>_. entry_id dev (mr_id r)) (\<lambda>s q. q\<lparr>me_id := s\<rparr>)
       (sc_status_ok,
        entry_zero_memory\<lparr>me_score := mr_score r, me_importance := mr_importance r, me_redaction_state := mr_redaction_state r,
          me_retention_policy := mr_retention_policy r, me_expires_at := mr_expires_at r\<rparr>,
        a)))))))))))"

section \<open>The store\<close>

definition sc_memory_store_init :: "'d sc_memory_store" where
  "sc_memory_store_init = sc_vec_init SIZEOF_MEMORY_ENTRY"

definition namespace_key_equal :: "'d sc_memory_entry \<Rightarrow> sc_str \<Rightarrow> sc_str \<Rightarrow> bool" where
  "namespace_key_equal e ns key \<longleftrightarrow>
     sc_str_equal (sc_string_as_str (me_namespace_name e)) ns \<and> sc_str_equal (sc_string_as_str (me_key e)) key"

fun replace_entry ::
    "sc_str \<Rightarrow> sc_str \<Rightarrow> 'd sc_memory_entry \<Rightarrow> 'd sc_memory_entry list \<Rightarrow> sc_allocator \<Rightarrow> ('d sc_memory_entry list \<times> sc_allocator) option" where
  "replace_entry ns key new [] a = None"
| "replace_entry ns key new (e # es) a =
     (if namespace_key_equal e ns key then Some (new # es, sc_memory_entry_clear e a)
      else map_option (\<lambda>(fs, b). (e # fs, b)) (replace_entry ns key new es a))"

definition sc_memory_store_put ::
    "(string \<Rightarrow> 'd option) \<Rightarrow> urandom \<Rightarrow> timespec \<Rightarrow> 'd::zero sc_memory_store \<Rightarrow> 'd sc_memory_record \<Rightarrow> sc_allocator \<Rightarrow>
       sc_status \<times> 'd sc_memory_store \<times> sc_allocator" where
  "sc_memory_store_put strtod dev now store r a =
     (if str_is_empty (mr_namespace_name r) \<or> str_is_empty (mr_key r)
      then (sc_status_invalid_argument ''sc.memory_store.invalid_record'', store, a)
      else (case sc_memory_validate_record strtod r a of
              (st, a1) \<Rightarrow>
                (if \<not> sc_status_is_ok st then (st, store, a1)
                 else (case copy_entry_from_record dev now r a1 of
                         (st2, e, a2) \<Rightarrow>
                           (if \<not> sc_status_is_ok st2 then (st2, store, sc_memory_entry_clear e a2)
                            else (case replace_entry (mr_namespace_name r) (mr_key r) e (items store) a2 of
                                    Some (es, a3) \<Rightarrow> (sc_status_ok, store\<lparr>items := es\<rparr>, a3)
                                  | None \<Rightarrow>
                                      (case sc_vec_push store (Some e) a2 of
                                         (st3, store', a3) \<Rightarrow>
                                           (if \<not> sc_status_is_ok st3 then (st3, store', sc_memory_entry_clear e a3)
                                            else (sc_status_ok, store', a3)))))))))"

definition readable :: "sc_str \<Rightarrow> sc_str \<Rightarrow> 'd sc_memory_entry \<Rightarrow> bool" where
  "readable ns key e \<longleftrightarrow>
     namespace_key_equal e ns key \<and> string_len (me_superseded_by_id e) = 0 \<and> me_redaction_state e = SC_MEMORY_REDACTION_NONE"

definition sc_memory_store_get :: "'d sc_memory_store \<Rightarrow> sc_str \<Rightarrow> sc_str \<Rightarrow> sc_allocator \<Rightarrow> sc_string res \<times> sc_allocator" where
  "sc_memory_store_get store ns key a =
     (if str_is_empty ns \<or> str_is_empty key then (Inl (sc_status_invalid_argument ''sc.memory_store.invalid_argument''), a)
      else (case find_first (readable ns key) (items store) of
              None \<Rightarrow> (Inl (sc_status_invalid_argument ''sc.memory_store.not_found''), a)
            | Some e \<Rightarrow> sc_string_from_str (sc_string_as_str (me_content e)) a))"

definition unless_given :: "sc_str \<Rightarrow> sc_string \<Rightarrow> bool" where
  "unless_given wanted s \<longleftrightarrow> str_is_empty wanted \<or> sc_str_equal (sc_string_as_str s) wanted"

definition sc_memory_query_matches_entry :: "sc_memory_query option \<Rightarrow> 'd sc_memory_entry \<Rightarrow> bool" where
  "sc_memory_query_matches_entry query e =
     (case query of
        None \<Rightarrow> string_len (me_superseded_by_id e) = 0 \<and> me_redaction_state e = SC_MEMORY_REDACTION_NONE
      | Some q \<Rightarrow>
          (if \<not> mq_include_superseded q \<and> string_len (me_superseded_by_id e) > 0 then False
           else if \<not> mq_include_redacted q \<and> me_redaction_state e = SC_MEMORY_REDACTION_REDACTED then False
           else if \<not> mq_include_deleted q \<and> me_redaction_state e = SC_MEMORY_REDACTION_DELETED then False
           else if \<not> unless_given (mq_namespace_name q) (me_namespace_name e) then False
           else if \<not> unless_given (mq_session_id q) (me_session_id e) then False
           else if \<not> unless_given (mq_category q) (me_category e) then False
           else if \<not> str_is_empty (mq_query q) \<and> \<not> str_contains_casefold (sc_string_as_str (me_key e)) (mq_query q) \<and>
             \<not> str_contains_casefold (sc_string_as_str (me_content e)) (mq_query q) then False
           else True))"

definition sc_memory_entry_compare_desc :: "'d::ord sc_memory_entry \<Rightarrow> 'd sc_memory_entry \<Rightarrow> int" where
  "sc_memory_entry_compare_desc l r =
     (if me_score l < me_score r then 1
      else if me_score r < me_score l then -1
      else if me_importance l < me_importance r then 1
      else if me_importance l > me_importance r then -1
      else if me_timestamp l < me_timestamp r then 1
      else if me_timestamp l > me_timestamp r then -1
      else (let key_cmp = compare_str (sc_string_as_str (me_key l)) (sc_string_as_str (me_key r)) in
            (if key_cmp \<noteq> 0 then key_cmp else compare_str (sc_string_as_str (me_id l)) (sc_string_as_str (me_id r)))))"

fun push_matches ::
    "sc_memory_query option \<Rightarrow> 'd::zero sc_memory_entry list \<Rightarrow> 'd sc_memory_result \<Rightarrow> sc_allocator \<Rightarrow> sc_status \<times> 'd sc_memory_result \<times> sc_allocator" where
  "push_matches query [] out a = (sc_status_ok, out, a)"
| "push_matches query (e # es) out a =
     (if \<not> sc_memory_query_matches_entry query e then push_matches query es out a
      else (case sc_memory_result_push out e a of
              (st, out', a') \<Rightarrow> (if \<not> sc_status_is_ok st then (st, out', a') else push_matches query es out' a')))"

definition cut_results :: "nat \<Rightarrow> 'd sc_memory_result \<Rightarrow> sc_allocator \<Rightarrow> 'd sc_memory_result \<times> sc_allocator" where
  "cut_results n out a = (out\<lparr>items := take n (items out)\<rparr>, clear_memory_entries (drop n (items out)) a)"

definition result_bytes :: "'d sc_memory_entry \<Rightarrow> nat" where
  "result_bytes e = (string_len (me_content e) + string_len (me_metadata_json e)) mod (SIZE_MAX + 1)"

text \<open>How many entries fit: the loop over \<^verbatim>\<open>total\<close>.\<close>

fun fitting :: "nat \<Rightarrow> nat \<Rightarrow> 'd sc_memory_entry list \<Rightarrow> nat" where
  "fitting max_bytes used [] = 0"
| "fitting max_bytes used (e # es) =
     (let after = (used + result_bytes e) mod (SIZE_MAX + 1) in
      (if after > max_bytes then 0 else Suc (fitting max_bytes after es)))"

definition limit_results :: "sc_memory_query option \<Rightarrow> 'd sc_memory_result \<Rightarrow> sc_allocator \<Rightarrow> 'd sc_memory_result \<times> sc_allocator" where
  "limit_results query out a =
     (case query of
        None \<Rightarrow> (if length (items out) > SC_MEMORY_DEFAULT_MAX_RESULTS then cut_results SC_MEMORY_DEFAULT_MAX_RESULTS out a else (out, a))
      | Some q \<Rightarrow>
          (let max_results = (if mq_max_results q > 0 then mq_max_results q else mq_limit q);
               (out1, a1) = (if max_results > 0 \<and> length (items out) > max_results then cut_results max_results out a else (out, a)) in
           (if mq_max_total_result_bytes q > 0
            then cut_results (fitting (mq_max_total_result_bytes q) 0 (items out1)) out1 a1 else (out1, a1))))"

type_synonym 'd qsort = "('d sc_memory_entry \<Rightarrow> 'd sc_memory_entry \<Rightarrow> int) \<Rightarrow> 'd sc_memory_entry list \<Rightarrow> 'd sc_memory_entry list"

definition sc_memory_store_search ::
    "'d qsort \<Rightarrow> 'd::{zero, ord} sc_memory_store \<Rightarrow> sc_memory_query option \<Rightarrow> sc_allocator \<Rightarrow> 'd sc_memory_result res \<times> sc_allocator" where
  "sc_memory_store_search qsort store query a =
     (let st = sc_memory_validate_query query in
      (if \<not> sc_status_is_ok st then (Inl st, a)
       else (case push_matches query (items store) sc_memory_result_init a of
               (st1, out, a1) \<Rightarrow>
                 (if \<not> sc_status_is_ok st1 then (Inl st1, sc_memory_result_clear out a1)
                  else (let sorted_out = (if length (items out) > 1
                                     then out\<lparr>items := qsort sc_memory_entry_compare_desc (items out)\<rparr> else out) in
                        (case limit_results query sorted_out a1 of (out', a2) \<Rightarrow> (Inr out', a2)))))))"

text \<open>Forgetting and redacting differ in the mark they leave; the mark stays when the placeholder cannot be allocated.\<close>

fun mark_entry ::
    "sc_memory_redaction_state \<Rightarrow> sc_str \<Rightarrow> sc_str \<Rightarrow> 'd sc_memory_entry list \<Rightarrow> sc_allocator \<Rightarrow> sc_status \<times> 'd sc_memory_entry list \<times> sc_allocator" where
  "mark_entry state ns key [] a = (sc_status_ok, [], a)"
| "mark_entry state ns key (e # es) a =
     (if namespace_key_equal e ns key
      then (let e' = e\<lparr>me_content := None, me_metadata_json := None, me_redaction_state := state\<rparr> in
            (case sc_string_redacted (sc_string_clear (me_metadata_json e) (sc_string_clear (me_content e) a)) of
               (Inl st, a1) \<Rightarrow> (st, e' # es, a1)
             | (Inr s, a1) \<Rightarrow> (sc_status_ok, e'\<lparr>me_content := s\<rparr> # es, a1)))
      else (case mark_entry state ns key es a of (st, fs, a1) \<Rightarrow> (st, e # fs, a1)))"

definition mark_in_store ::
    "sc_memory_redaction_state \<Rightarrow> 'd sc_memory_store \<Rightarrow> sc_str \<Rightarrow> sc_str \<Rightarrow> sc_allocator \<Rightarrow> sc_status \<times> 'd sc_memory_store \<times> sc_allocator" where
  "mark_in_store state store ns key a =
     (if str_is_empty ns \<or> str_is_empty key then (sc_status_invalid_argument ''sc.memory_store.invalid_argument'', store, a)
      else (case mark_entry state ns key (items store) a of (st, es, a1) \<Rightarrow> (st, store\<lparr>items := es\<rparr>, a1)))"

definition sc_memory_store_forget ::
    "'d sc_memory_store \<Rightarrow> sc_str \<Rightarrow> sc_str \<Rightarrow> sc_allocator \<Rightarrow> sc_status \<times> 'd sc_memory_store \<times> sc_allocator" where
  "sc_memory_store_forget = mark_in_store SC_MEMORY_REDACTION_DELETED"

definition sc_memory_store_redact ::
    "'d sc_memory_store \<Rightarrow> sc_str \<Rightarrow> sc_str \<Rightarrow> sc_allocator \<Rightarrow> sc_status \<times> 'd sc_memory_store \<times> sc_allocator" where
  "sc_memory_store_redact = mark_in_store SC_MEMORY_REDACTION_REDACTED"

definition store_remove_at :: "'d sc_memory_store \<Rightarrow> nat \<Rightarrow> sc_allocator \<Rightarrow> 'd sc_memory_store \<times> sc_allocator" where
  "store_remove_at store i a =
     (if i \<ge> length (items store) then (store, a)
      else (store\<lparr>items := remove_at i (items store)\<rparr>, sc_memory_entry_clear (items store ! i) a))"

text \<open>The loops of the two purges: the index moves on only when the entry stays.\<close>

function purge_from :: "('d sc_memory_entry \<Rightarrow> bool) \<Rightarrow> nat \<Rightarrow> 'd sc_memory_store \<Rightarrow> sc_allocator \<Rightarrow> 'd sc_memory_store \<times> sc_allocator" where
  "purge_from P i store a =
     (if i \<ge> length (items store) then (store, a)
      else if P (items store ! i)
      then (case store_remove_at store i a of (store', a') \<Rightarrow> purge_from P i store' a')
      else purge_from P (Suc i) store a)"
  by pat_completeness auto
termination
  by (relation "measure (\<lambda>(P, i, store, a). length (items store) - i)")
     (auto simp: store_remove_at_def remove_at_def)

declare purge_from.simps [simp del]

definition sc_memory_store_purge_namespace ::
    "'d sc_memory_store \<Rightarrow> sc_str \<Rightarrow> sc_allocator \<Rightarrow> sc_status \<times> 'd sc_memory_store \<times> sc_allocator" where
  "sc_memory_store_purge_namespace store ns a =
     (if str_is_empty ns then (sc_status_invalid_argument ''sc.memory_store.invalid_argument'', store, a)
      else (sc_status_ok, purge_from (\<lambda>e. sc_str_equal (sc_string_as_str (me_namespace_name e)) ns) 0 store a))"

definition sc_memory_store_purge_session ::
    "'d sc_memory_store \<Rightarrow> sc_str \<Rightarrow> sc_str \<Rightarrow> sc_allocator \<Rightarrow> sc_status \<times> 'd sc_memory_store \<times> sc_allocator" where
  "sc_memory_store_purge_session store ns session a =
     (if str_is_empty ns \<or> str_is_empty session then (sc_status_invalid_argument ''sc.memory_store.invalid_argument'', store, a)
      else (sc_status_ok, purge_from (\<lambda>e. sc_str_equal (sc_string_as_str (me_namespace_name e)) ns \<and>
              sc_str_equal (sc_string_as_str (me_session_id e)) session) 0 store a))"

definition sc_memory_store_clear :: "'d sc_memory_store \<Rightarrow> sc_allocator \<Rightarrow> sc_allocator" where
  "sc_memory_store_clear store a = snd (sc_vec_clear store (clear_memory_entries (items store) a))"

section \<open>The store as a finite map\<close>

lemma str_equal_owned: "\<not> str_is_empty v \<Longrightarrow> sc_str_equal (sc_string_as_str s) v \<longleftrightarrow> owned_text s = str_bytes v"
  by (cases v; cases s) (auto simp: str_is_empty_def sc_str_equal_def)

definition entry_key :: "'d sc_memory_entry \<Rightarrow> string \<times> string" where
  "entry_key e = (owned_text (me_namespace_name e), owned_text (me_key e))"

definition entry_blocks :: "'d sc_memory_entry \<Rightarrow> int" where
  "entry_blocks e = string_blocks (me_id e) + string_blocks (me_namespace_name e) + string_blocks (me_session_id e) +
     string_blocks (me_category e) + string_blocks (me_key e) + string_blocks (me_content e) + string_blocks (me_superseded_by_id e) +
     string_blocks (me_source e) + string_blocks (me_metadata_json e) + string_blocks (me_content_ref e)"

definition entries_blocks :: "'d sc_memory_entry list \<Rightarrow> int" where
  "entries_blocks es = sum_list (map entry_blocks es)"

definition store_blocks :: "'d sc_memory_entry sc_vec \<Rightarrow> int" where
  "store_blocks store = vec_blocks store + entries_blocks (items store)"

definition result_inv :: "'d sc_memory_entry sc_vec \<Rightarrow> bool" where
  "result_inv r \<longleftrightarrow> vec_inv r \<and> item_size r = SIZEOF_MEMORY_ENTRY"

definition store_inv :: "'d sc_memory_store \<Rightarrow> bool" where
  "store_inv store \<longleftrightarrow> result_inv store \<and> distinct (map entry_key (items store))"

definition store_abs :: "'d sc_memory_store \<Rightarrow> string \<times> string \<rightharpoonup> 'd sc_memory_entry" where
  "store_abs store = map_of (map (\<lambda>e. (entry_key e, e)) (items store))"

lemma entries_blocks_simps [simp]:
  "entries_blocks [] = 0" "entries_blocks (e # es) = entry_blocks e + entries_blocks es"
  "entries_blocks (es @ fs) = entries_blocks es + entries_blocks fs"
  by (simp_all add: entries_blocks_def)

lemma live_entry_clear [simp]: "live (sc_memory_entry_clear e a) = live a - entry_blocks e"
  by (simp add: sc_memory_entry_clear_def entry_blocks_def)

lemma live_clear_entries [simp]: "live (clear_memory_entries es a) = live a - entries_blocks es"
  by (induction es arbitrary: a) simp_all

lemma entry_key_equal: "\<not> str_is_empty ns \<Longrightarrow> \<not> str_is_empty key \<Longrightarrow>
   namespace_key_equal e ns key \<longleftrightarrow> entry_key e = (str_bytes ns, str_bytes key)"
  by (auto simp: namespace_key_equal_def entry_key_def str_equal_owned)

lemma memory_result_clear_live: "result_inv r \<Longrightarrow> live (sc_memory_result_clear r a) = live a - store_blocks r"
  by (simp add: sc_memory_result_clear_def vec_clear_live result_inv_def store_blocks_def)

lemma store_clear_live: "store_inv s \<Longrightarrow> live (sc_memory_store_clear s a) = live a - store_blocks s"
  by (simp add: sc_memory_store_clear_def vec_clear_live store_inv_def result_inv_def store_blocks_def)

lemma result_inv_init [simp]: "result_inv sc_memory_result_init" "store_blocks sc_memory_result_init = 0"
  by (simp_all add: result_inv_def sc_memory_result_init_def store_blocks_def)

lemma store_inv_init [simp]:
  "store_inv sc_memory_store_init" "store_blocks sc_memory_store_init = 0" "store_abs sc_memory_store_init = Map.empty"
  by (simp_all add: store_inv_def result_inv_def sc_memory_store_init_def store_blocks_def store_abs_def)

lemma vec_inv_items: "vec_inv v \<Longrightarrow> length xs \<le> length (items v) \<Longrightarrow> vec_inv (v\<lparr>items := xs\<rparr>)"
  by (simp add: vec_inv_def)

lemma store_abs_Some: "store_inv store \<Longrightarrow> store_abs store k = Some e \<longleftrightarrow> e \<in> set (items store) \<and> entry_key e = k"
  by (auto simp: store_abs_def store_inv_def dest: map_of_SomeD intro!: map_of_is_SomeI simp: comp_def)

subsection \<open>Copying entries\<close>

lemma copy_string_field_cases:
  assumes "copy_string_field v a = (r, a')"
  shows "case r of Inl e \<Rightarrow> \<not> sc_status_is_ok e \<and> live a' = live a | Inr s \<Rightarrow> s = Some (str_bytes v) \<and> live a' = live a + 1"
proof -
  have "str_bytes (str_or_empty v) = str_bytes v" by (cases v) (simp_all add: str_or_empty_def)
  with assms string_from_str_Inr [of "str_or_empty v"] string_from_str_Inl [of "str_or_empty v"] show ?thesis
    by (auto simp: copy_string_field_def split: sum.splits)
qed

lemma copy_field_filled:
  assumes "filled B k (\<lambda>_. True) Q s"
    and "\<And>q t. Q q \<Longrightarrow> B (put (Some t) q) = B q + 1" "\<And>q. Q q \<Longrightarrow> Q' (put (Some (str_bytes v)) q)"
  shows "filled B k (\<lambda>_. True) Q' (copy_field v put s)"
  unfolding copy_field_def
proof (rule fill_filled [OF assms(1)])
  fix q a e a'
  assume "copy_string_field v a = (Inl e, a')"
  from copy_string_field_cases [OF this] show "\<not> sc_status_is_ok e \<and> live a' = live a" by simp
next
  fix q a s a'
  assume "Q q" "copy_string_field v a = (Inr s, a')"
  with copy_string_field_cases [OF this(2)] assms(2,3)
  show "live a' = live a + (B (put s q) - B q) \<and> True \<and> Q' (put s q)" by simp
qed

text \<open>What the copies of an entry agree in: everything but the difference between a null and an empty string.\<close>

definition owned_copy :: "sc_string \<Rightarrow> sc_string" where
  "owned_copy s = Some (owned_text s)"

definition entry_copy :: "'d sc_memory_entry \<Rightarrow> 'd sc_memory_entry" where
  "entry_copy e = e\<lparr>me_id := owned_copy (me_id e), me_namespace_name := owned_copy (me_namespace_name e),
     me_session_id := owned_copy (me_session_id e), me_category := owned_copy (me_category e), me_key := owned_copy (me_key e),
     me_content := owned_copy (me_content e), me_superseded_by_id := owned_copy (me_superseded_by_id e),
     me_source := owned_copy (me_source e), me_metadata_json := owned_copy (me_metadata_json e),
     me_content_ref := owned_copy (me_content_ref e)\<rparr>"

lemma string_or_empty_bytes [simp]: "str_bytes (string_or_empty s) = owned_text s"
  by (cases s) (simp_all add: string_or_empty_def)

lemma owned_copy_simps [simp]: "owned_text (owned_copy s) = owned_text s" "string_len (owned_copy s) = string_len s" "string_blocks (owned_copy s) = 1"
  by (cases s; simp add: owned_copy_def)+

lemma copy_field_exact:
  assumes "filled B k (\<lambda>_. True) (\<lambda>x. x = q) s" "\<And>t. B (put (Some t) q) = B q + 1"
  shows "filled B k (\<lambda>_. True) (\<lambda>x. x = put (Some (str_bytes v)) q) (copy_field v put s)"
  by (rule copy_field_filled [OF assms(1)]) (simp_all add: assms(2))

lemma filled_start: "B q = 0 \<Longrightarrow> filled B (live a) (\<lambda>_. True) (\<lambda>x. x = q) (sc_status_ok, q, a)"
  by (simp add: filled_def)

lemma copy_entry_spec:
  assumes "copy_entry e a = (st, c, a')"
  shows "live a' = live a + entry_blocks c \<and> (sc_status_is_ok st \<longrightarrow> c = entry_copy e)"
proof -
  have "\<exists>q. filled entry_blocks (live a) (\<lambda>_. True) (\<lambda>x. x = q) (copy_entry e a) \<and> q = entry_copy e"
    apply (intro exI conjI)
     apply (unfold copy_entry_def)
     apply (rule copy_field_exact filled_start)+
    apply (simp_all add: entry_blocks_def entry_zero_memory_def entry_copy_def owned_copy_def)
    done
  with assms show ?thesis by (auto simp: filled_def)
qed

lemma result_push_spec:
  assumes "sc_memory_result_push r e a = (st, r', a')" "result_inv r"
  shows "result_inv r' \<and> live a' = live a + store_blocks r' - store_blocks r \<and>
    (if sc_status_is_ok st then items r' = items r @ [entry_copy e] else r' = r)"
proof -
  obtain st1 c a1 where copy: "copy_entry e a = (st1, c, a1)" by (cases "copy_entry e a")
  note c = copy_entry_spec [OF copy]
  show ?thesis
  proof (cases "sc_status_is_ok st1")
    case True
    obtain st2 r2 a2 where push: "sc_vec_push r (Some c) a1 = (st2, r2, a2)" by (cases "sc_vec_push r (Some c) a1")
    have r: "vec_inv r" "item_size r = SIZEOF_MEMORY_ENTRY" using assms(2) by (auto simp: result_inv_def)
    note p = vec_push_spec [OF push r(1)]
    from assms(1) True copy push r have
      "st = (if sc_status_is_ok st2 then sc_status_ok else st2)" "r' = r2" "a' = (if sc_status_is_ok st2 then a2 else sc_memory_entry_clear c a2)"
      by (auto simp: sc_memory_result_push_def split: if_splits)
    with p c True r show ?thesis by (auto simp: result_inv_def store_blocks_def)
  next
    case False
    with assms copy c show ?thesis by (auto simp: sc_memory_result_push_def result_inv_def)
  qed
qed

text \<open>The entry that a record becomes, up to its identifier and its time.\<close>

definition entry_of_record :: "'d sc_memory_record \<Rightarrow> sc_string \<Rightarrow> int \<Rightarrow> 'd sc_memory_entry" where
  "entry_of_record r i t =
     \<lparr>me_id = i, me_namespace_name = Some (str_bytes (mr_namespace_name r)), me_session_id = Some (str_bytes (mr_session_id r)),
      me_category = Some (str_bytes (mr_category r)), me_key = Some (str_bytes (mr_key r)), me_content = Some (str_bytes (mr_value r)),
      me_timestamp = t, me_score = mr_score r, me_importance = mr_importance r,
      me_superseded_by_id = Some (str_bytes (mr_superseded_by_id r)), me_source = Some (str_bytes (mr_source r)),
      me_metadata_json = Some (str_bytes (mr_metadata_json r)), me_redaction_state = mr_redaction_state r,
      me_retention_policy = mr_retention_policy r, me_expires_at = mr_expires_at r,
      me_content_ref = Some (str_bytes (mr_content_ref r))\<rparr>"

lemma entry_id_cases:
  assumes "entry_id dev i a = (r, a')"
  shows "case r of Inl e \<Rightarrow> \<not> sc_status_is_ok e \<and> live a' = live a
    | Inr s \<Rightarrow> live a' = live a + 1 \<and> s \<noteq> None \<and> (\<not> str_is_empty i \<longrightarrow> s = Some (str_bytes i))"
proof (cases "str_is_empty i")
  case False
  with assms copy_string_field_cases [of i a r a'] show ?thesis by (auto simp: entry_id_def split: sum.splits)
next
  case True
  with assms have "sc_uuid_v4 dev a = (r, a')" by (simp add: entry_id_def)
  then show ?thesis
    using True
    by (auto simp: sc_uuid_v4_def sc_random_bytes_def sc_string_from_cstr_def Let_def split: sum.splits if_splits
        dest!: string_from_str_Inr string_from_str_Inl)
qed

lemma entry_id_filled:
  assumes "entry_blocks q = 0" "me_id q = None"
  shows "filled entry_blocks (live a) (\<lambda>_. True) (\<lambda>x. \<exists>s. s \<noteq> None \<and> (\<not> str_is_empty i \<longrightarrow> s = Some (str_bytes i)) \<and> x = q\<lparr>me_id := s\<rparr>)
    (fill (\<lambda>_. entry_id dev i) (\<lambda>s q. q\<lparr>me_id := s\<rparr>) (sc_status_ok, q, a))"
proof (rule fill_filled [OF filled_start [where B = entry_blocks, OF assms(1)]])
  fix q' b e b'
  assume "entry_id dev i b = (Inl e, b')"
  from entry_id_cases [OF this] show "\<not> sc_status_is_ok e \<and> live b' = live b" by simp
next
  fix q' b s b'
  assume "q' = q" and get: "entry_id dev i b = (Inr s, b')"
  from entry_id_cases [OF get] this assms
  show "live b' = live b + (entry_blocks (q'\<lparr>me_id := s\<rparr>) - entry_blocks q') \<and> True \<and>
      (\<exists>t. t \<noteq> None \<and> (\<not> str_is_empty i \<longrightarrow> t = Some (str_bytes i)) \<and> q'\<lparr>me_id := s\<rparr> = q\<lparr>me_id := t\<rparr>)"
    by (auto simp: entry_blocks_def)
qed

lemma copy_field_some:
  assumes "filled B k (\<lambda>_. True) (\<lambda>x. \<exists>s. P s \<and> x = q s) st" "\<And>s t. P s \<Longrightarrow> B (put (Some t) (q s)) = B (q s) + 1"
  shows "filled B k (\<lambda>_. True) (\<lambda>x. \<exists>s. P s \<and> x = put (Some (str_bytes v)) (q s)) (copy_field v put st)"
  by (rule copy_field_filled [OF assms(1)]) (use assms(2) in auto)

definition fresh_id :: "sc_str \<Rightarrow> sc_string \<Rightarrow> bool" where
  "fresh_id i s \<longleftrightarrow> s \<noteq> None \<and> (\<not> str_is_empty i \<longrightarrow> s = Some (str_bytes i))"

lemma copy_record_spec:
  assumes "copy_entry_from_record dev now r a = (st, e, a')"
  shows "live a' = live a + entry_blocks e \<and> (sc_status_is_ok st \<longrightarrow> (\<exists>i t. fresh_id (mr_id r) i \<and> e = entry_of_record r i t))"
proof -
  let ?q = "entry_zero_memory\<lparr>me_score := mr_score r, me_importance := mr_importance r, me_redaction_state := mr_redaction_state r,
          me_retention_policy := mr_retention_policy r, me_expires_at := mr_expires_at r\<rparr>"
  have start: "filled entry_blocks (live a) (\<lambda>_. True) (\<lambda>x. \<exists>s. fresh_id (mr_id r) s \<and> x = ?q\<lparr>me_id := s\<rparr>)
      (fill (\<lambda>_. entry_id dev (mr_id r)) (\<lambda>s q. q\<lparr>me_id := s\<rparr>) (sc_status_ok, ?q, a))"
    using entry_id_filled [of ?q a "mr_id r" dev] by (simp add: fresh_id_def entry_zero_memory_def entry_blocks_def)
  have "filled entry_blocks (live a) (\<lambda>_. True) (\<lambda>x. \<exists>i t. fresh_id (mr_id r) i \<and> x = entry_of_record r i t) (copy_entry_from_record dev now r a)"
    apply (unfold copy_entry_from_record_def)
    apply (rule fill_filled)
      apply (rule copy_field_some)+
               apply (rule start)
              apply (simp_all add: entry_blocks_def entry_zero_memory_def)
     apply (auto simp: sc_clock_wall_def entry_of_record_def split: option.splits)
    done
  with assms show ?thesis by (auto simp: filled_def)
qed

subsection \<open>Writing, reading, marking and removing\<close>

text \<open>What a record has passed when it is stored.\<close>

definition record_ok :: "'d sc_memory_record \<Rightarrow> bool" where
  "record_ok r \<longleftrightarrow> \<not> str_is_empty (mr_namespace_name r) \<and> \<not> str_is_empty (mr_key r) \<and> \<not> sc_memory_key_is_reserved (mr_key r) \<and>
     (mr_allow_sensitive_content r \<or> \<not> key_looks_secret (mr_key r)) \<and> redaction_state_valid (mr_redaction_state r) \<and>
     sc_status_is_ok (validate_fields (record_fields r))"

lemma validate_metadata_live:
  assumes "validate_metadata strtod m a = (st, a')"
  shows "st \<noteq> sc_status_no_memory \<longrightarrow> live a' = live a"
proof
  assume ok: "st \<noteq> sc_status_no_memory"
  obtain r a1 where p: "parse_json strtod m a = (r, a1)" by (cases "parse_json strtod m a")
  show "live a' = live a"
  proof (cases r)
    case (Inl e)
    with parse_json_spec [where strtod = strtod and s = m and a = a] p assms ok show ?thesis by (auto simp: validate_metadata_def split: if_splits)
  next
    case (Inr v)
    with parse_json_spec [where strtod = strtod and s = m and a = a] p assms destroy_live(1) [of v a1] show ?thesis
      by (auto simp: validate_metadata_def split: if_splits)
  qed
qed

lemma validate_record_spec:
  assumes "sc_memory_validate_record strtod r a = (st, a')"
  shows "(sc_status_is_ok st \<longrightarrow> record_ok r) \<and> (st \<noteq> sc_status_no_memory \<longrightarrow> live a' = live a)"
  using assms
  by (auto dest: validate_metadata_live simp: sc_memory_validate_record_def record_ok_def Let_def split: if_splits)

lemma replace_entry_None: "replace_entry ns key new es a = None \<longleftrightarrow> (\<forall>e \<in> set es. \<not> namespace_key_equal e ns key)"
  by (induction es) auto

lemma replace_entry_Some:
  assumes "replace_entry ns key new es a = Some (fs, a')"
  shows "\<exists>xs e ys. es = xs @ e # ys \<and> fs = xs @ new # ys \<and> namespace_key_equal e ns key \<and> live a' = live a - entry_blocks e"
  using assms
proof (induction es arbitrary: fs)
  case (Cons e es)
  show ?case
  proof (cases "namespace_key_equal e ns key")
    case True
    with Cons.prems have "e # es = [] @ e # es \<and> fs = [] @ new # es \<and> namespace_key_equal e ns key \<and> live a' = live a - entry_blocks e"
      by auto
    then show ?thesis by blast
  next
    case False
    with Cons.prems obtain gs where gs: "replace_entry ns key new es a = Some (gs, a')" "fs = e # gs" by auto
    from Cons.IH [OF gs(1)] obtain xs e' ys where
      "es = xs @ e' # ys \<and> gs = xs @ new # ys \<and> namespace_key_equal e' ns key \<and> live a' = live a - entry_blocks e'" by blast
    with gs(2) have "e # es = (e # xs) @ e' # ys \<and> fs = (e # xs) @ new # ys \<and> namespace_key_equal e' ns key \<and> live a' = live a - entry_blocks e'"
      by simp
    then show ?thesis by blast
  qed
qed simp

text \<open>Replacing an entry by one with the same key, and adding one with a new key, are updates of the map.\<close>

lemma map_of_replace:
  "distinct (map f (xs @ e # ys)) \<Longrightarrow> f new = f e \<Longrightarrow>
     map_of (map (\<lambda>x. (f x, x)) (xs @ new # ys)) = (map_of (map (\<lambda>x. (f x, x)) (xs @ e # ys)))(f e \<mapsto> new)"
  by (induction xs) auto

lemma map_of_snoc: "f new \<notin> f ` set xs \<Longrightarrow>
   map_of (map (\<lambda>x. (f x, x)) (xs @ [new])) = (map_of (map (\<lambda>x. (f x, x)) xs))(f new \<mapsto> new)"
  by (induction xs) auto

lemma store_put_spec:
  assumes "sc_memory_store_put strtod dev now store r a = (st, store', a')" "store_inv store"
  shows "store_inv store' \<and> (st \<noteq> sc_status_no_memory \<longrightarrow> live a' = live a + store_blocks store' - store_blocks store) \<and>
    (if sc_status_is_ok st
     then record_ok r \<and> (\<exists>i t. fresh_id (mr_id r) i \<and>
       store_abs store' = (store_abs store)((str_bytes (mr_namespace_name r), str_bytes (mr_key r)) \<mapsto> entry_of_record r i t))
     else store' = store)"
proof (cases "str_is_empty (mr_namespace_name r) \<or> str_is_empty (mr_key r)")
  case True
  with assms show ?thesis by (auto simp: sc_memory_store_put_def)
next
  case named: False
  obtain st1 a1 where val: "sc_memory_validate_record strtod r a = (st1, a1)" by (cases "sc_memory_validate_record strtod r a")
  note v = validate_record_spec [OF val]
  show ?thesis
  proof (cases "sc_status_is_ok st1")
    case False
    with assms val named v show ?thesis by (auto simp: sc_memory_store_put_def)
  next
    case ok1: True
    obtain st2 e a2 where copy: "copy_entry_from_record dev now r a1 = (st2, e, a2)" by (cases "copy_entry_from_record dev now r a1")
    note c = copy_record_spec [OF copy]
    show ?thesis
    proof (cases "sc_status_is_ok st2")
      case False
      with assms val named v ok1 copy c show ?thesis by (auto simp: sc_memory_store_put_def)
    next
      case ok2: True
      let ?k = "(str_bytes (mr_namespace_name r), str_bytes (mr_key r))"
      from c ok2 obtain i t where e: "fresh_id (mr_id r) i" "e = entry_of_record r i t" by blast
      have ek: "entry_key e = ?k" by (simp add: e entry_of_record_def entry_key_def)
      note eq = entry_key_equal [of "mr_namespace_name r" "mr_key r"]
      have inv: "vec_inv store" "item_size store = SIZEOF_MEMORY_ENTRY" "distinct (map entry_key (items store))"
        using assms(2) by (auto simp: store_inv_def result_inv_def)
      have live2: "live a2 = live a + entry_blocks e" "record_ok r" using c v ok1 by auto
      show ?thesis
      proof (cases "replace_entry (mr_namespace_name r) (mr_key r) e (items store) a2")
        case (Some p)
        obtain es a3 where p: "p = (es, a3)" by (cases p)
        have out: "st = sc_status_ok" "store' = store\<lparr>items := es\<rparr>" "a' = a3"
          using assms(1) val named ok1 copy ok2 Some p by (simp_all add: sc_memory_store_put_def)
        from replace_entry_Some [OF Some [unfolded p]] obtain xs old ys where
          s: "items store = xs @ old # ys" "es = xs @ e # ys" "namespace_key_equal old (mr_namespace_name r) (mr_key r)" "live a3 = live a2 - entry_blocks old"
          by blast
        have old: "entry_key old = ?k" using s(3) eq named by blast
        have "distinct (map entry_key es)" using inv(3) by (simp add: s ek old)
        then have "store_inv store'" using inv(1,2) by (simp add: out store_inv_def result_inv_def vec_inv_items s)
        moreover have "store_abs store' = (store_abs store)(?k \<mapsto> e)"
          using map_of_replace [of entry_key xs old ys e] inv(3) by (simp add: store_abs_def out s(1,2) old ek)
        moreover have "live a' = live a + store_blocks store' - store_blocks store"
          using live2 s by (simp add: out store_blocks_def vec_blocks_def)
        ultimately show ?thesis using out e live2 by auto
      next
        case None
        obtain st3 v3 a3 where push: "sc_vec_push store (Some e) a2 = (st3, v3, a3)" by (cases "sc_vec_push store (Some e) a2")
        note p = vec_push_spec [OF push inv(1)]
        have out: "st = (if sc_status_is_ok st3 then sc_status_ok else st3)" "store' = v3"
            "a' = (if sc_status_is_ok st3 then a3 else sc_memory_entry_clear e a3)"
          using assms(1) val named ok1 copy ok2 None push by (auto simp: sc_memory_store_put_def split: if_splits)
        have new: "entry_key e \<notin> entry_key ` set (items store)"
          using None [unfolded replace_entry_None] eq named by (metis (no_types, lifting) ek imageE)
        show ?thesis
        proof (cases "sc_status_is_ok st3")
          case True
          then have it: "items v3 = items store @ [e]" using p(4) by simp
          have "store_abs store' = (store_abs store)(?k \<mapsto> e)"
            using map_of_snoc [OF new] by (simp add: store_abs_def out it ek)
          moreover have "store_inv store'" using p(1,3) inv new by (auto simp: out store_inv_def result_inv_def it)
          ultimately show ?thesis using True out e live2 p(2) it by (auto simp: store_blocks_def)
        next
          case False
          then show ?thesis using p(2,5) live2 out assms(2) by (auto simp: store_blocks_def)
        qed
      qed
    qed
  qed
qed
text \<open>A key is in the map at most once, so the loop that skips unreadable entries finds the entry of the map or nothing.\<close>

lemma store_get_spec:
  assumes "sc_memory_store_get store ns key a = (r, a')" "store_inv store"
  shows "(case r of Inl e \<Rightarrow> \<not> sc_status_is_ok e \<and> live a' = live a
      | Inr s \<Rightarrow> live a' = live a + 1 \<and> (\<exists>e. store_abs store (str_bytes ns, str_bytes key) = Some e \<and> readable ns key e \<and> s = owned_copy (me_content e)))
    \<and> (\<forall>e. store_abs store (str_bytes ns, str_bytes key) = Some e \<and> readable ns key e \<and> \<not> str_is_empty ns \<and> \<not> str_is_empty key \<longrightarrow>
         r = Inr (owned_copy (me_content e)) \<or> r = Inl sc_status_no_memory)"
proof (cases "str_is_empty ns \<or> str_is_empty key")
  case True
  with assms show ?thesis by (auto simp: sc_memory_store_get_def)
next
  case named: False
  have abs: "store_abs store (str_bytes ns, str_bytes key) = Some e \<longleftrightarrow> e \<in> set (items store) \<and> namespace_key_equal e ns key" for e
    using store_abs_Some [OF assms(2)] entry_key_equal named by metis
  show ?thesis
  proof (cases "find_first (readable ns key) (items store)")
    case None
    then have "\<not> (store_abs store (str_bytes ns, str_bytes key) = Some e \<and> readable ns key e)" for e
      unfolding abs find_first_None_iff by blast
    moreover from None assms(1) named have "r = Inl (sc_status_invalid_argument ''sc.memory_store.not_found'')" "a' = a"
      by (auto simp: sc_memory_store_get_def)
    ultimately show ?thesis by auto
  next
    case (Some e)
    from find_first_SomeD [OF this] have e: "e \<in> set (items store)" "readable ns key e" by auto
    with abs have ab: "store_abs store (str_bytes ns, str_bytes key) = Some e" by (simp add: readable_def)
    have get: "sc_string_from_str (sc_string_as_str (me_content e)) a = (r, a')" using assms(1) named Some by (simp add: sc_memory_store_get_def)
    then show ?thesis
    proof (cases rule: string_from_str_cases)
      case (invalid n)
      then show ?thesis by (cases "me_content e") auto
    qed (use ab e in \<open>auto simp: owned_copy_def\<close>)
  qed
qed

definition marked :: "sc_memory_redaction_state \<Rightarrow> sc_string \<Rightarrow> 'd sc_memory_entry \<Rightarrow> 'd sc_memory_entry" where
  "marked state s e = e\<lparr>me_content := s, me_metadata_json := None, me_redaction_state := state\<rparr>"

lemma marked_key [simp]: "entry_key (marked state s e) = entry_key e"
  by (simp add: marked_def entry_key_def)

lemma mark_entry_spec:
  assumes "mark_entry state ns key es a = (st, fs, a')"
  shows "(fs = es \<and> sc_status_is_ok st \<and> a' = a \<and> (\<forall>e \<in> set es. \<not> namespace_key_equal e ns key)) \<or>
    (\<exists>xs e ys s. es = xs @ e # ys \<and> fs = xs @ marked state s e # ys \<and> namespace_key_equal e ns key \<and>
       live a' = live a + entry_blocks (marked state s e) - entry_blocks e \<and> s = (if sc_status_is_ok st then Some ''[REDACTED]'' else None))"
  using assms
proof (induction es arbitrary: st fs)
  case (Cons e es)
  show ?case
  proof (cases "namespace_key_equal e ns key")
    case True
    obtain r a1 where red: "sc_string_redacted (sc_string_clear (me_metadata_json e) (sc_string_clear (me_content e) a)) = (r, a1)"
      by (cases "sc_string_redacted (sc_string_clear (me_metadata_json e) (sc_string_clear (me_content e) a))")
    then have "fs = marked state (if sc_status_is_ok st then Some ''[REDACTED]'' else None) e # es \<and>
        live a' = live a + entry_blocks (marked state (if sc_status_is_ok st then Some ''[REDACTED]'' else None) e) - entry_blocks e"
      unfolding sc_string_redacted_def sc_string_from_cstr_def
      by (cases rule: string_from_str_cases)
        (use True Cons.prems red in \<open>auto simp: marked_def entry_blocks_def sc_str_from_cstr_def sc_string_redacted_def sc_string_from_cstr_def\<close>)
    with True show ?thesis by (intro disjI2 exI [of _ "[]"]) auto
  next
    case False
    obtain st1 gs a1 where rest: "mark_entry state ns key es a = (st1, gs, a1)" by (cases "mark_entry state ns key es a")
    with False Cons.prems have out: "st = st1" "fs = e # gs" "a' = a1" by auto
    from Cons.IH rest out consider
      (none) "gs = es" "sc_status_is_ok st" "a' = a" "\<forall>e \<in> set es. \<not> namespace_key_equal e ns key"
      | (one) xs f ys s where "es = xs @ f # ys" "gs = xs @ marked state s f # ys" "namespace_key_equal f ns key"
        "live a' = live a + entry_blocks (marked state s f) - entry_blocks f" "s = (if sc_status_is_ok st then Some ''[REDACTED]'' else None)"
      by blast
    then show ?thesis
    proof cases
      case none
      with out False show ?thesis by auto
    next
      case one
      with out show ?thesis by (intro disjI2 exI [of _ "e # xs"]) auto
    qed
  qed
qed simp

text \<open>The entry of the key, if there is one, loses its content and its metadata and is marked; no other entry changes.\<close>

lemma mark_in_store_spec:
  assumes "mark_in_store state store ns key a = (st, store', a')" "store_inv store"
  shows "store_inv store' \<and> live a' = live a + store_blocks store' - store_blocks store \<and>
    (if str_is_empty ns \<or> str_is_empty key then store' = store \<and> \<not> sc_status_is_ok st
     else store_abs store' = (case store_abs store (str_bytes ns, str_bytes key) of
        None \<Rightarrow> store_abs store
      | Some e \<Rightarrow> (store_abs store)((str_bytes ns, str_bytes key) \<mapsto>
          marked state (if sc_status_is_ok st then Some ''[REDACTED]'' else None) e)))"
proof (cases "str_is_empty ns \<or> str_is_empty key")
  case True
  with assms show ?thesis by (auto simp: mark_in_store_def)
next
  case named: False
  obtain st1 es a1 where mark: "mark_entry state ns key (items store) a = (st1, es, a1)" by (cases "mark_entry state ns key (items store) a")
  have out: "st = st1" "store' = store\<lparr>items := es\<rparr>" "a' = a1" using assms(1) named mark by (auto simp: mark_in_store_def)
  have inv: "vec_inv store" "item_size store = SIZEOF_MEMORY_ENTRY" "distinct (map entry_key (items store))"
    using assms(2) by (auto simp: store_inv_def result_inv_def)
  have eq: "namespace_key_equal e ns key \<longleftrightarrow> entry_key e = (str_bytes ns, str_bytes key)" for e
    using entry_key_equal named by metis
  from mark_entry_spec [OF mark] consider
    (none) "es = items store" "a1 = a" "\<forall>e \<in> set (items store). \<not> namespace_key_equal e ns key"
    | (one) xs f ys where "items store = xs @ f # ys" "es = xs @ marked state (if sc_status_is_ok st1 then Some ''[REDACTED]'' else None) f # ys"
      "namespace_key_equal f ns key" "live a1 = live a + entry_blocks (marked state (if sc_status_is_ok st1 then Some ''[REDACTED]'' else None) f) - entry_blocks f"
    by blast
  then show ?thesis
  proof cases
    case none
    have "store_abs store (str_bytes ns, str_bytes key) = None"
      using none(3) store_abs_Some [OF assms(2)] eq by (metis not_Some_eq)
    with none out named assms(2) show ?thesis by simp
  next
    case one
    let ?f = "marked state (if sc_status_is_ok st1 then Some ''[REDACTED]'' else None) f"
    have f: "entry_key f = (str_bytes ns, str_bytes key)" using one(3) eq by blast
    then have "store_abs store (str_bytes ns, str_bytes key) = Some f" using store_abs_Some [OF assms(2)] one(1) by simp
    moreover have "store_abs store' = (store_abs store)(entry_key f \<mapsto> ?f)"
      using map_of_replace [of entry_key xs f ys ?f] inv(3) by (simp add: store_abs_def out one(1,2))
    moreover have "store_inv store'" using inv by (simp add: out store_inv_def result_inv_def vec_inv_items one(1,2))
    ultimately show ?thesis using named out f one(1,2,4) by (simp add: store_blocks_def vec_blocks_def)
  qed
qed

text \<open>A purge keeps exactly the entries it is not meant for.\<close>

lemma purge_from_spec:
  assumes "purge_from P i store a = (store', a')"
  shows "items store' = take i (items store) @ filter (\<lambda>e. \<not> P e) (drop i (items store)) \<and> store' = store\<lparr>items := items store'\<rparr> \<and>
    live a' = live a + entries_blocks (items store') - entries_blocks (items store)"
  using assms
proof (induction P i store a rule: purge_from.induct)
  case (1 P i store a)
  show ?case
  proof (cases "i \<ge> length (items store)")
    case True
    with 1(3) show ?thesis by (simp add: purge_from.simps [of P i store a])
  next
    case False
    let ?e = "items store ! i"
    have split: "items store = take i (items store) @ ?e # drop (Suc i) (items store)" using False by (simp add: id_take_nth_drop)
    have drop: "drop i (items store) = ?e # drop (Suc i) (items store)" using False by (simp add: Cons_nth_drop_Suc)
    show ?thesis
    proof (cases "P ?e")
      case True
      let ?s = "store\<lparr>items := remove_at i (items store)\<rparr>"
      have rem: "store_remove_at store i a = (?s, sc_memory_entry_clear ?e a)" using False by (simp add: store_remove_at_def)
      with 1(3) False True have run: "purge_from P i ?s (sc_memory_entry_clear ?e a) = (store', a')"
        by (simp add: purge_from.simps [of P i store a])
      have upd: "?s\<lparr>items := x\<rparr> = store\<lparr>items := x\<rparr>" for x by simp
      note IH = 1(1) [OF False True rem [symmetric] run]
      have "entries_blocks (items store) = entries_blocks (items ?s) + entry_blocks ?e"
        by (subst split) (simp add: remove_at_def)
      with IH have "live a' = live a + entries_blocks (items store') - entries_blocks (items store)" by simp
      moreover have "items store' = take i (items store) @ filter (\<lambda>e. \<not> P e) (drop i (items store))"
        using IH True drop False by (simp add: remove_at_def min_def)
      moreover have "store' = store\<lparr>items := items store'\<rparr>" using IH [THEN conjunct2, THEN conjunct1] unfolding upd .
      ultimately show ?thesis by blast
    next
      case no: False
      with 1(3) False have "purge_from P (Suc i) store a = (store', a')" by (simp add: purge_from.simps [of P i store a])
      note IH = 1(2) [OF False no this]
      have "items store' = take i (items store) @ filter (\<lambda>e. \<not> P e) (drop i (items store))"
        using IH no drop False by (simp add: take_Suc_conv_app_nth)
      with IH show ?thesis by blast
    qed
  qed
qed

lemma purge_store_spec:
  assumes "purge_from P 0 store a = (store', a')" "store_inv store"
  shows "store_inv store' \<and> live a' = live a + store_blocks store' - store_blocks store \<and>
    (\<forall>k e. store_abs store' k = Some e \<longleftrightarrow> store_abs store k = Some e \<and> \<not> P e)"
proof -
  have s: "items store' = filter (\<lambda>e. \<not> P e) (items store)" "store' = store\<lparr>items := items store'\<rparr>"
    "live a' = live a + entries_blocks (items store') - entries_blocks (items store)"
    using purge_from_spec [OF assms(1)] by auto
  have "vec_inv store'" "item_size store' = item_size store" "vec_blocks store' = vec_blocks store"
    using assms(2) s(1) by (subst s(2), simp add: store_inv_def result_inv_def vec_inv_items vec_blocks_def)+
  moreover have "distinct (map entry_key (items store'))" using assms(2) unfolding s(1) by (auto simp: store_inv_def distinct_map inj_on_def)
  ultimately have "store_inv store'" "live a' = live a + store_blocks store' - store_blocks store"
    using assms(2) s(3) by (simp_all add: store_inv_def result_inv_def store_blocks_def)
  then show ?thesis using assms(2) s(1) by (auto simp: store_abs_Some)
qed
subsection \<open>Searching\<close>

text \<open>What is known of \<^verbatim>\<open>qsort\<close>.\<close>

definition total_preorder :: "('a \<Rightarrow> 'a \<Rightarrow> int) \<Rightarrow> bool" where
  "total_preorder cmp \<longleftrightarrow> (\<forall>x y. cmp x y \<le> 0 \<or> cmp y x \<le> 0) \<and> (\<forall>x y z. cmp x y \<le> 0 \<longrightarrow> cmp y z \<le> 0 \<longrightarrow> cmp x z \<le> 0)"

definition qsort_ok :: "'d qsort \<Rightarrow> bool" where
  "qsort_ok qsort \<longleftrightarrow> (\<forall>cmp xs. mset (qsort cmp xs) = mset xs \<and> (total_preorder cmp \<longrightarrow> sorted_wrt (\<lambda>x y. cmp x y \<le> 0) (qsort cmp xs)))"

text \<open>Insertion is one way to do it.\<close>

fun insert_by :: "('a \<Rightarrow> 'a \<Rightarrow> int) \<Rightarrow> 'a \<Rightarrow> 'a list \<Rightarrow> 'a list" where
  "insert_by cmp x [] = [x]"
| "insert_by cmp x (y # ys) = (if cmp x y \<le> 0 then x # y # ys else y # insert_by cmp x ys)"

definition insertion_qsort :: "'d qsort" where
  "insertion_qsort cmp xs = foldr (insert_by cmp) xs []"

lemma mset_insert_by [simp]: "mset (insert_by cmp x ys) = add_mset x (mset ys)"
  by (induction ys) auto

lemma set_insert_by [simp]: "set (insert_by cmp x ys) = insert x (set ys)"
  by (induction ys) auto

lemma sorted_insert_by:
  "total_preorder cmp \<Longrightarrow> sorted_wrt (\<lambda>x y. cmp x y \<le> 0) ys \<Longrightarrow> sorted_wrt (\<lambda>x y. cmp x y \<le> 0) (insert_by cmp x ys)"
  by (induction ys) (auto simp: total_preorder_def)

lemma mset_insertion: "mset (foldr (insert_by cmp) xs []) = mset xs"
  by (induction xs) auto

lemma sorted_insertion: "total_preorder cmp \<Longrightarrow> sorted_wrt (\<lambda>x y. cmp x y \<le> 0) (foldr (insert_by cmp) xs [])"
  by (induction xs) (auto simp: sorted_insert_by)

lemma insertion_qsort_ok: "qsort_ok insertion_qsort"
  by (simp add: qsort_ok_def insertion_qsort_def mset_insertion sorted_insertion)

lemma compare_bytes_le: "compare_bytes x y \<le> 0 \<or> compare_bytes y x \<le> 0"
  by (induction x y rule: compare_bytes.induct) auto

lemma compare_bytes_zero: "compare_bytes x y = 0 \<longleftrightarrow> x = y"
  by (induction x y rule: compare_bytes.induct) auto

lemma compare_bytes_neg: "compare_bytes y x < 0 \<longleftrightarrow> compare_bytes x y > 0"
  by (induction x y rule: compare_bytes.induct) auto

lemma compare_bytes_trans: "compare_bytes x y \<le> 0 \<Longrightarrow> compare_bytes y z \<le> 0 \<Longrightarrow> compare_bytes x z \<le> 0"
proof (induction x z arbitrary: y rule: compare_bytes.induct)
  case (1 c cs d ds)
  then show ?case by (cases y) (auto split: if_splits)
next
  case (3 c cs)
  then show ?case by (cases y) auto
qed auto

text \<open>
  The order of the results: by score, importance and time, all falling, then by key and identifier, both rising. Scores are
  numbers, none of them is a NaN.
\<close>

lemma compare_desc_iff:
  fixes l :: "'d::linorder sc_memory_entry"
  shows "sc_memory_entry_compare_desc l r \<le> 0 \<longleftrightarrow>
    me_score l > me_score r \<or> me_score l = me_score r \<and>
    (me_importance l > me_importance r \<or> me_importance l = me_importance r \<and>
    (me_timestamp l > me_timestamp r \<or> me_timestamp l = me_timestamp r \<and>
    (compare_bytes (owned_text (me_key l)) (owned_text (me_key r)) < 0 \<or> owned_text (me_key l) = owned_text (me_key r) \<and>
     compare_bytes (owned_text (me_id l)) (owned_text (me_id r)) \<le> 0)))"
  using compare_bytes_zero [of "owned_text (me_key l)" "owned_text (me_key r)"]
  by (auto simp: sc_memory_entry_compare_desc_def Let_def compare_str_def)

lemma compare_bytes_less_trans: "compare_bytes x y < 0 \<Longrightarrow> compare_bytes y z < 0 \<Longrightarrow> compare_bytes x z < 0"
  using compare_bytes_trans [of x y z] compare_bytes_trans [of y z x] compare_bytes_zero [of x z] compare_bytes_neg compare_bytes_zero
  by (metis less_le not_le)

lemma compare_desc_preorder: "total_preorder (sc_memory_entry_compare_desc :: 'd::linorder sc_memory_entry \<Rightarrow> _)"
  unfolding total_preorder_def compare_desc_iff
proof (intro conjI allI impI, goal_cases)
  case (1 x y)
  have "compare_bytes (owned_text (me_key x)) (owned_text (me_key y)) < 0 \<or> owned_text (me_key x) = owned_text (me_key y) \<or>
      compare_bytes (owned_text (me_key y)) (owned_text (me_key x)) < 0"
    using compare_bytes_zero compare_bytes_neg by (metis less_linear)
  then show ?case
    using less_linear [of "me_score x" "me_score y"] less_linear [of "me_importance x" "me_importance y"]
      less_linear [of "me_timestamp x" "me_timestamp y"] compare_bytes_le [of "owned_text (me_id x)" "owned_text (me_id y)"]
    by auto
next
  case (2 x y z)
  then show ?case by (elim disjE conjE) (auto dest: compare_bytes_less_trans compare_bytes_trans)
qed

lemma items_result_init [simp]: "items sc_memory_result_init = []"
  by (simp add: sc_memory_result_init_def)

lemma push_matches_spec:
  assumes "push_matches query es out a = (st, out', a')" "result_inv out"
  shows "result_inv out' \<and> live a' = live a + store_blocks out' - store_blocks out \<and>
    (sc_status_is_ok st \<longrightarrow> items out' = items out @ map entry_copy (filter (sc_memory_query_matches_entry query) es))"
  using assms
proof (induction es arbitrary: out a)
  case (Cons e es)
  show ?case
  proof (cases "sc_memory_query_matches_entry query e")
    case False
    with Cons show ?thesis by simp
  next
    case True
    obtain st1 o1 a1 where push: "sc_memory_result_push out e a = (st1, o1, a1)" by (cases "sc_memory_result_push out e a")
    note p = result_push_spec [OF push Cons.prems(2)]
    show ?thesis
    proof (cases "sc_status_is_ok st1")
      case ok: True
      with Cons.prems(1) True push have "push_matches query es o1 a1 = (st, out', a')" by simp
      with Cons.IH [of o1 a1] p ok True show ?thesis by simp
    next
      case False
      with Cons.prems(1) True push p show ?thesis by auto
    qed
  qed
qed simp

text \<open>How many of the sorted matches a query lets through.\<close>

definition kept_results :: "sc_memory_query option \<Rightarrow> 'd sc_memory_entry list \<Rightarrow> nat" where
  "kept_results query es =
     (case query of
        None \<Rightarrow> SC_MEMORY_DEFAULT_MAX_RESULTS
      | Some q \<Rightarrow>
          (let n = (if mq_max_results q > 0 then mq_max_results q else if mq_limit q > 0 then mq_limit q else length es) in
           (if mq_max_total_result_bytes q > 0 then min n (fitting (mq_max_total_result_bytes q) 0 (take n es)) else n)))"

lemma cut_results_spec:
  assumes "result_inv out"
  shows "result_inv (fst (cut_results n out a))" "items (fst (cut_results n out a)) = take n (items out)"
    "live (snd (cut_results n out a)) = live a + store_blocks (fst (cut_results n out a)) - store_blocks out"
proof -
  have "entries_blocks (items out) = entries_blocks (take n (items out)) + entries_blocks (drop n (items out))"
    by (metis append_take_drop_id entries_blocks_simps(3))
  then show "result_inv (fst (cut_results n out a))" "items (fst (cut_results n out a)) = take n (items out)"
    "live (snd (cut_results n out a)) = live a + store_blocks (fst (cut_results n out a)) - store_blocks out"
    using assms by (simp_all add: cut_results_def result_inv_def vec_inv_items store_blocks_def vec_blocks_def)
qed

lemma cut_if_spec:
  assumes "(if length (items out) > n then cut_results n out a else (out, a)) = (out', a')" "result_inv out"
  shows "result_inv out' \<and> items out' = take n (items out) \<and> live a' = live a + store_blocks out' - store_blocks out"
  using assms cut_results_spec [OF assms(2), of n a] by (auto split: if_splits)

lemma limit_results_spec:
  assumes "limit_results query out a = (out', a')" "result_inv out"
  shows "result_inv out' \<and> items out' = take (kept_results query (items out)) (items out) \<and>
    live a' = live a + store_blocks out' - store_blocks out"
proof (cases query)
  case None
  with assms cut_if_spec [where n = SC_MEMORY_DEFAULT_MAX_RESULTS and out = out and a = a and out' = out' and a' = a'] show ?thesis
    by (simp add: limit_results_def kept_results_def)
next
  case (Some q)
  define n where "n = (if mq_max_results q > 0 then mq_max_results q else if mq_limit q > 0 then mq_limit q else length (items out))"
  define m where "m = (if mq_max_results q > 0 then mq_max_results q else mq_limit q)"
  obtain o1 a1 where one: "(if m > 0 \<and> length (items out) > m then cut_results m out a else (out, a)) = (o1, a1)" by fastforce
  have o1: "result_inv o1 \<and> items o1 = take n (items out) \<and> live a1 = live a + store_blocks o1 - store_blocks out"
    using one cut_results_spec [OF assms(2), of m a] assms(2) by (auto simp: n_def m_def split: if_splits)
  have last: "(if mq_max_total_result_bytes q > 0 then cut_results (fitting (mq_max_total_result_bytes q) 0 (items o1)) o1 a1 else (o1, a1)) = (out', a')"
    using assms(1) [unfolded limit_results_def Some option.case Let_def, folded m_def, unfolded one prod.case] by simp
  show ?thesis
  proof (cases "mq_max_total_result_bytes q > 0")
    case True
    with last have "cut_results (fitting (mq_max_total_result_bytes q) 0 (items o1)) o1 a1 = (out', a')" by simp
    with o1 cut_results_spec [of o1 "fitting (mq_max_total_result_bytes q) 0 (items o1)" a1] have
      "result_inv out'" "items out' = take (min (fitting (mq_max_total_result_bytes q) 0 (take n (items out))) n) (items out)"
      "live a' = live a + store_blocks out' - store_blocks out" by auto
    with True Some show ?thesis by (simp add: kept_results_def n_def [symmetric] Let_def min.commute)
  next
    case False
    with last o1 Some show ?thesis by (simp add: kept_results_def n_def [symmetric] Let_def)
  qed
qed

text \<open>
  A search gives copies of the matching entries, best first, as many as the query lets through; it holds nothing else, and a search
  that fails holds nothing.
\<close>

lemma store_search_spec:
  fixes store :: "'d::{zero, linorder} sc_memory_store"
  assumes "sc_memory_store_search qsort store query a = (r, a')" "qsort_ok qsort"
  shows "case r of Inl e \<Rightarrow> \<not> sc_status_is_ok e \<and> live a' = live a
    | Inr out \<Rightarrow> result_inv out \<and> live a' = live a + store_blocks out \<and>
        (\<exists>es. mset es = mset (map entry_copy (filter (sc_memory_query_matches_entry query) (items store))) \<and>
           sorted_wrt (\<lambda>x y. sc_memory_entry_compare_desc x y \<le> 0) es \<and> items out = take (kept_results query es) es)"
proof (cases "sc_status_is_ok (sc_memory_validate_query query)")
  case False
  with assms(1) show ?thesis by (auto simp: sc_memory_store_search_def)
next
  case valid: True
  obtain st1 out a1 where push: "push_matches query (items store) sc_memory_result_init a = (st1, out, a1)"
    by (cases "push_matches query (items store) sc_memory_result_init a")
  note p = push_matches_spec [OF push result_inv_init(1)]
  show ?thesis
  proof (cases "sc_status_is_ok st1")
    case False
    with assms(1) valid push p memory_result_clear_live [of out a1] show ?thesis by (auto simp: sc_memory_store_search_def Let_def)
  next
    case True
    let ?ms = "map entry_copy (filter (sc_memory_query_matches_entry query) (items store))"
    let ?s = "if length (items out) > 1 then out\<lparr>items := qsort sc_memory_entry_compare_desc (items out)\<rparr> else out"
    have out: "items out = ?ms" "result_inv out" "live a1 = live a + store_blocks out"
      using p True by simp_all
    have perm: "mset (items ?s) = mset ?ms" using assms(2) out(1) by (auto simp: qsort_ok_def)
    have ord: "sorted_wrt (\<lambda>x y. sc_memory_entry_compare_desc x y \<le> 0) (items ?s)"
    proof (cases "length (items out) > 1")
      case True
      then show ?thesis using assms(2) compare_desc_preorder by (auto simp: qsort_ok_def)
    next
      case False
      then show ?thesis by (cases "items out") auto
    qed
    have "length (items ?s) = length ?ms" using perm by (metis size_mset)
    then have inv: "result_inv ?s" using out by (auto simp: result_inv_def intro!: vec_inv_items)
    have "entries_blocks (items ?s) = entries_blocks (items out)"
      using perm out(1) by (metis entries_blocks_def mset_map sum_mset_sum_list)
    then have blocks: "store_blocks ?s = store_blocks out" by (auto simp: store_blocks_def vec_blocks_def)
    obtain o2 a2 where lim: "limit_results query ?s a1 = (o2, a2)" by (cases "limit_results query ?s a1")
    with assms(1) valid push True have "r = Inr o2" "a' = a2" by (auto simp: sc_memory_store_search_def Let_def split: if_splits)
    with limit_results_spec [OF lim inv] perm ord blocks out(3) show ?thesis by auto
  qed
qed

end
