(* ===== verification/SC_Snapshot.thy ===== *)
theory SC_Snapshot
  imports SC_Memory SC_Tools
begin

text \<open>
  Snapshots of a memory: the text a store is exported to and the import of such a text, of
  \<^verbatim>\<open>src/memory/memory_common.c\<close> and \<^verbatim>\<open>src/memory/memory_hydrate.c\<close>; the memory handle of \<^verbatim>\<open>src/contracts/contracts.c\<close>
  with the operations that work through it, and the backend that stores nothing, \<^verbatim>\<open>src/memory/none_memory.c\<close>.
  The exporter writes its own text; it is shown to be the text of a document, so that the results on the JSON parser apply.

  \<open>int_of\<close> is the conversion of a double to an integer.
\<close>

section \<open>Export\<close>

record sc_memory_export_options =
  xo_include_raw_sensitive_content :: bool
  xo_include_redacted :: bool
  xo_include_deleted :: bool

definition hex4 :: "nat \<Rightarrow> string" where
  "hex4 n = [hex_digit (n div 4096 mod 16), hex_digit (n div 256 mod 16), hex_digit (n div 16 mod 16), hex_digit (n mod 16)]"

text \<open>What is appended for one byte; \<^verbatim>\<open>%04x\<close> always writes four digits here.\<close>

definition json_escape :: "char \<Rightarrow> string" where
  "json_escape ch =
     (if ch = CHR 0x22 \<or> ch = CHR 0x5C then [CHR 0x5C, ch]
      else if ch = CHR 0x0A then [CHR 0x5C, CHR ''n'']
      else if ch = CHR 0x0D then [CHR 0x5C, CHR ''r'']
      else if ch = CHR 0x09 then [CHR 0x5C, CHR ''t'']
      else if (of_char ch :: nat) < 0x20 then [CHR 0x5C, CHR ''u''] @ hex4 (of_char ch)
      else [ch])"

text \<open>The parts that are appended one after the other.\<close>

definition json_string_parts :: "sc_str \<Rightarrow> sc_str list" where
  "json_string_parts v = [Str [CHR 0x22]] @ map (\<lambda>ch. Str (json_escape ch)) (str_bytes v) @ [Str [CHR 0x22]]"

definition sc_memory_append_json_string ::
    "sc_string_builder \<Rightarrow> sc_str \<Rightarrow> sc_allocator \<Rightarrow> sc_status \<times> sc_string_builder \<times> sc_allocator" where
  "sc_memory_append_json_string b v a = builder_appends (json_string_parts v) b a"

definition redaction_number :: "sc_memory_redaction_state \<Rightarrow> int" where
  "redaction_number s =
     (case s of SC_MEMORY_REDACTION_NONE \<Rightarrow> 0 | SC_MEMORY_REDACTION_REDACTED \<Rightarrow> 1 | SC_MEMORY_REDACTION_DELETED \<Rightarrow> 2
      | REDACTION_OTHER n \<Rightarrow> n)"

definition exports_raw :: "sc_memory_export_options option \<Rightarrow> bool" where
  "exports_raw options = (case options of None \<Rightarrow> False | Some x \<Rightarrow> xo_include_raw_sensitive_content x)"

definition exported_content :: "bool \<Rightarrow> 'd sc_memory_entry \<Rightarrow> sc_str" where
  "exported_content raw e =
     (if raw \<or> me_redaction_state e \<noteq> SC_MEMORY_REDACTION_NONE then sc_string_as_str (me_content e) else Str ''[REDACTED]'')"

definition exported_metadata :: "bool \<Rightarrow> 'd sc_memory_entry \<Rightarrow> sc_str" where
  "exported_metadata raw e =
     (if raw \<or> me_redaction_state e \<noteq> SC_MEMORY_REDACTION_NONE then sc_string_as_str (me_metadata_json e) else Str ''{}'')"

text \<open>A member: the text before the value and the value. The buffer of 32 bytes for the number holds every 32-bit integer.\<close>

definition member_parts :: "string \<Rightarrow> sc_str \<Rightarrow> sc_str list" where
  "member_parts before v = Str before # json_string_parts v"

definition quote_name :: "string \<Rightarrow> string" where
  "quote_name n = [CHR 0x22] @ n @ [CHR 0x22, CHR '':'']"

definition entry_json_parts :: "bool \<Rightarrow> 'd sc_memory_entry \<Rightarrow> sc_str list" where
  "entry_json_parts raw e =
     member_parts (''{'' @ quote_name ''id'') (sc_string_as_str (me_id e)) @
     member_parts ('','' @ quote_name ''namespace'') (sc_string_as_str (me_namespace_name e)) @
     member_parts ('','' @ quote_name ''session_id'') (sc_string_as_str (me_session_id e)) @
     member_parts ('','' @ quote_name ''category'') (sc_string_as_str (me_category e)) @
     member_parts ('','' @ quote_name ''key'') (sc_string_as_str (me_key e)) @
     member_parts ('','' @ quote_name ''content'') (exported_content raw e) @
     member_parts ('','' @ quote_name ''metadata'') (exported_metadata raw e) @
     member_parts ('','' @ quote_name ''source'') (sc_string_as_str (me_source e)) @
     member_parts ('','' @ quote_name ''content_ref'') (sc_string_as_str (me_content_ref e)) @
     member_parts ('','' @ quote_name ''superseded_by'') (sc_string_as_str (me_superseded_by_id e)) @
     [Str ('','' @ quote_name ''redaction_state'' @ dec_int (redaction_number (me_redaction_state e)) @ ''}'')]"

definition sc_memory_append_entry_json ::
    "sc_memory_export_options option \<Rightarrow> sc_string_builder \<Rightarrow> 'd sc_memory_entry \<Rightarrow> sc_allocator \<Rightarrow> sc_status \<times> sc_string_builder \<times> sc_allocator" where
  "sc_memory_append_entry_json options b e a = builder_appends (entry_json_parts (exports_raw options) e) b a"

fun append_entries ::
    "sc_memory_export_options option \<Rightarrow> bool \<Rightarrow> 'd sc_memory_entry list \<Rightarrow> sc_string_builder \<Rightarrow> sc_allocator \<Rightarrow>
       sc_status \<times> sc_string_builder \<times> sc_allocator" where
  "append_entries options first [] b a = (sc_status_ok, b, a)"
| "append_entries options first (e # es) b a =
     (case (if first then (sc_status_ok, b, a) else sc_string_builder_append b (Str '','') a) of
        (st, b1, a1) \<Rightarrow>
          (if \<not> sc_status_is_ok st then (st, b1, a1)
           else (case sc_memory_append_entry_json options b1 e a1 of
                   (st2, b2, a2) \<Rightarrow>
                     (if \<not> sc_status_is_ok st2 then (st2, b2, a2) else append_entries options False es b2 a2))))"

definition snapshot_text ::
    "sc_memory_export_options option \<Rightarrow> 'd sc_memory_entry list \<Rightarrow> sc_allocator \<Rightarrow> sc_string res \<times> sc_allocator" where
  "snapshot_text options es a =
     (case sc_string_builder_append sc_string_builder_init (Str ''['') a of
        (st, b, a1) \<Rightarrow>
          (case (if sc_status_is_ok st then append_entries options True es b a1 else (st, b, a1)) of
             (st2, b2, a2) \<Rightarrow>
               (case (if sc_status_is_ok st2 then sc_string_builder_append b2 (Str '']'') a2 else (st2, b2, a2)) of
                  (st3, b3, a3) \<Rightarrow>
                    (if sc_status_is_ok st3
                     then (case sc_string_builder_finish b3 of (t, b4) \<Rightarrow> (Inr t, snd (sc_string_builder_clear b4 a3)))
                     else (Inl st3, snd (sc_string_builder_clear b3 a3))))))"

definition sc_memory_store_export_snapshot ::
    "'d qsort \<Rightarrow> 'd::{zero, ord} sc_memory_store \<Rightarrow> sc_memory_query option \<Rightarrow> sc_memory_export_options option \<Rightarrow> sc_allocator \<Rightarrow>
       sc_string res \<times> sc_allocator" where
  "sc_memory_store_export_snapshot qsort store query options a =
     (case sc_memory_store_search qsort store query a of
        (Inl e, a1) \<Rightarrow> (Inl e, a1)
      | (Inr found, a1) \<Rightarrow>
          (case snapshot_text options (items found) a1 of (r, a2) \<Rightarrow> (r, sc_memory_result_clear found a2)))"

section \<open>Import\<close>

definition SC_MEMORY_IMPORT_MAX_BYTES :: nat where
  "SC_MEMORY_IMPORT_MAX_BYTES = 4194304"

definition SC_MEMORY_IMPORT_MAX_RECORDS :: nat where
  "SC_MEMORY_IMPORT_MAX_RECORDS = 10000"

record sc_memory_import_options =
  io_max_bytes :: nat
  io_max_records :: nat
  io_allow_secrets :: bool

definition redaction_of_number :: "int \<Rightarrow> sc_memory_redaction_state" where
  "redaction_of_number n =
     (if n = 0 then SC_MEMORY_REDACTION_NONE else if n = 1 then SC_MEMORY_REDACTION_REDACTED
      else if n = 2 then SC_MEMORY_REDACTION_DELETED else REDACTION_OTHER n)"

definition optional_member :: "'d sc_json_value \<Rightarrow> string \<Rightarrow> sc_str" where
  "optional_member object name =
     (case sc_json_as_str (sc_json_object_get (Some object) (Str name)) of None \<Rightarrow> NullStr 0 | Some s \<Rightarrow> s)"

text \<open>The record an object of a snapshot stands for; both import functions read it alike.\<close>

definition hydrated_record :: "('d \<Rightarrow> int) \<Rightarrow> 'd::zero sc_json_value \<Rightarrow> bool \<Rightarrow> 'd sc_memory_record res" where
  "hydrated_record int_of object allow_secrets =
     (if sc_json_type_of (Some object) \<noteq> JSON_OBJECT then Inl (sc_status_parse ''sc.memory.hydrate_expected_object'')
      else (case sc_json_as_str (sc_json_object_get (Some object) (Str ''namespace'')) of
              None \<Rightarrow> Inl (sc_status_parse ''sc.memory.hydrate_missing_namespace'')
            | Some ns \<Rightarrow>
                (case sc_json_as_str (sc_json_object_get (Some object) (Str ''key'')) of
                   None \<Rightarrow> Inl (sc_status_parse ''sc.memory.hydrate_missing_key'')
                 | Some key \<Rightarrow>
                     (case sc_json_as_str (sc_json_object_get (Some object) (Str ''content'')) of
                        None \<Rightarrow> Inl (sc_status_parse ''sc.memory.hydrate_missing_content'')
                      | Some content \<Rightarrow>
                          Inr (memory_record_zero\<lparr>mr_id := optional_member object ''id'', mr_namespace_name := ns,
                            mr_session_id := optional_member object ''session_id'', mr_category := optional_member object ''category'',
                            mr_key := key, mr_value := content, mr_superseded_by_id := optional_member object ''superseded_by'',
                            mr_source := optional_member object ''source'', mr_metadata_json := optional_member object ''metadata'',
                            mr_redaction_state := redaction_of_number
                              (case sc_json_as_number (sc_json_object_get (Some object) (Str ''redaction_state'')) of None \<Rightarrow> 0 | Some d \<Rightarrow> int_of d),
                            mr_content_ref := optional_member object ''content_ref'', mr_allow_sensitive_content := allow_secrets\<rparr>)))))"

text \<open>Both imports are the same loop over a function that stores one record in a state.\<close>

type_synonym ('d, 's) put_fn = "'s \<Rightarrow> 'd sc_memory_record \<Rightarrow> sc_allocator \<Rightarrow> sc_status \<times> sc_allocator \<times> 's"

definition hydrate_one ::
    "('d \<Rightarrow> int) \<Rightarrow> ('d::zero, 's) put_fn \<Rightarrow> 'd sc_json_value \<Rightarrow> bool \<Rightarrow> 's \<Rightarrow> sc_allocator \<Rightarrow> sc_status \<times> sc_allocator \<times> 's" where
  "hydrate_one int_of put object allow_secrets s a =
     (case hydrated_record int_of object allow_secrets of Inl e \<Rightarrow> (e, a, s) | Inr r \<Rightarrow> put s r a)"

fun hydrate_all ::
    "('d \<Rightarrow> int) \<Rightarrow> ('d::zero, 's) put_fn \<Rightarrow> bool \<Rightarrow> 'd sc_json_value list \<Rightarrow> 's \<Rightarrow> sc_allocator \<Rightarrow> sc_status \<times> sc_allocator \<times> 's" where
  "hydrate_all int_of put allow_secrets [] s a = (sc_status_ok, a, s)"
| "hydrate_all int_of put allow_secrets (v # vs) s a =
     (case hydrate_one int_of put v allow_secrets s a of
        (st, a1, s1) \<Rightarrow> (if \<not> sc_status_is_ok st then (st, a1, s1) else hydrate_all int_of put allow_secrets vs s1 a1))"

definition import_max_bytes :: "sc_memory_import_options option \<Rightarrow> nat" where
  "import_max_bytes options =
     (case options of None \<Rightarrow> SC_MEMORY_IMPORT_MAX_BYTES
      | Some x \<Rightarrow> (if io_max_bytes x > 0 then io_max_bytes x else SC_MEMORY_IMPORT_MAX_BYTES))"

definition import_max_records :: "sc_memory_import_options option \<Rightarrow> nat" where
  "import_max_records options =
     (case options of None \<Rightarrow> SC_MEMORY_IMPORT_MAX_RECORDS
      | Some x \<Rightarrow> (if io_max_records x > 0 then io_max_records x else SC_MEMORY_IMPORT_MAX_RECORDS))"

definition import_allows_secrets :: "sc_memory_import_options option \<Rightarrow> bool" where
  "import_allows_secrets options = (case options of None \<Rightarrow> False | Some x \<Rightarrow> io_allow_secrets x)"

definition import_snapshot ::
    "(string \<Rightarrow> 'd option) \<Rightarrow> ('d \<Rightarrow> int) \<Rightarrow> ('d::zero, 's) put_fn \<Rightarrow> sc_str \<Rightarrow> sc_memory_import_options option \<Rightarrow> 's \<Rightarrow> sc_allocator \<Rightarrow>
       sc_status \<times> sc_allocator \<times> 's" where
  "import_snapshot strtod int_of put snapshot options s a =
     (if str_is_empty snapshot then (sc_status_invalid_argument ''sc.memory.hydrate_invalid_argument'', a, s)
      else if str_len snapshot > import_max_bytes options then (sc_status_invalid_argument ''sc.memory.import_too_large'', a, s)
      else (case parse_json strtod snapshot a of
              (Inl e, a1) \<Rightarrow> (e, a1, s)
            | (Inr root, a1) \<Rightarrow>
                (case (if sc_json_type_of (Some root) \<noteq> JSON_ARRAY then (sc_status_parse ''sc.memory.hydrate_expected_array'', a1, s)
                       else if sc_json_array_len (Some root) > import_max_records options
                       then (sc_status_invalid_argument ''sc.memory.import_too_many_records'', a1, s)
                       else hydrate_all int_of put (import_allows_secrets options) (array_items (Some root)) s a1) of
                   (st, a2, s1) \<Rightarrow> (st, sc_json_destroy root a2, s1))))"

text \<open>The store takes a new identifier and the time of the clock for every record; \<open>draws\<close> is what the next records get.\<close>

type_synonym draws = "nat \<Rightarrow> urandom \<times> timespec"

definition store_put_next ::
    "(string \<Rightarrow> 'd option) \<Rightarrow> draws \<Rightarrow> ('d::zero, 'd sc_memory_store \<times> nat) put_fn" where
  "store_put_next strtod draws s r a =
     (case s of (store, n) \<Rightarrow>
        (case sc_memory_store_put strtod (fst (draws n)) (snd (draws n)) store r a of (st, store', a') \<Rightarrow> (st, a', store', Suc n)))"

definition sc_memory_hydrate_store_entry ::
    "(string \<Rightarrow> 'd option) \<Rightarrow> ('d \<Rightarrow> int) \<Rightarrow> draws \<Rightarrow> 'd::zero sc_json_value \<Rightarrow> bool \<Rightarrow> 'd sc_memory_store \<times> nat \<Rightarrow> sc_allocator \<Rightarrow>
       sc_status \<times> sc_allocator \<times> 'd sc_memory_store \<times> nat" where
  "sc_memory_hydrate_store_entry strtod int_of draws = hydrate_one int_of (store_put_next strtod draws)"

definition sc_memory_store_import_snapshot ::
    "(string \<Rightarrow> 'd option) \<Rightarrow> ('d \<Rightarrow> int) \<Rightarrow> draws \<Rightarrow> sc_str \<Rightarrow> sc_memory_import_options option \<Rightarrow> 'd::zero sc_memory_store \<times> nat \<Rightarrow> sc_allocator \<Rightarrow>
       sc_status \<times> sc_allocator \<times> 'd sc_memory_store \<times> nat" where
  "sc_memory_store_import_snapshot strtod int_of draws = import_snapshot strtod int_of (store_put_next strtod draws)"

section \<open>The handle\<close>

record ('d, 'w) sc_memory =
  m_struct_size :: nat
  m_abi_major :: nat
  m_name :: "string option"
  m_put :: "('d, 'w) put_fn option"
  m_get :: "('w \<Rightarrow> sc_str \<Rightarrow> sc_str \<Rightarrow> sc_allocator \<Rightarrow> sc_string res \<times> sc_allocator \<times> 'w) option"
  m_search :: "('w \<Rightarrow> sc_memory_query option \<Rightarrow> sc_allocator \<Rightarrow> 'd sc_memory_result res \<times> sc_allocator \<times> 'w) option"
  m_forget :: "('w \<Rightarrow> sc_str \<Rightarrow> sc_str \<Rightarrow> sc_allocator \<Rightarrow> sc_status \<times> sc_allocator \<times> 'w) option"
  m_purge_namespace :: "('w \<Rightarrow> sc_str \<Rightarrow> sc_allocator \<Rightarrow> sc_status \<times> sc_allocator \<times> 'w) option"
  m_purge_session :: "('w \<Rightarrow> sc_str \<Rightarrow> sc_str \<Rightarrow> sc_allocator \<Rightarrow> sc_status \<times> sc_allocator \<times> 'w) option"
  m_export_snapshot :: "('w \<Rightarrow> sc_memory_query option \<Rightarrow> sc_allocator \<Rightarrow> sc_string res \<times> sc_allocator \<times> 'w) option"
  m_destroy :: "(sc_allocator \<Rightarrow> sc_allocator) option"
  m_capabilities :: nat
  m_redact :: "('w \<Rightarrow> sc_str \<Rightarrow> sc_str \<Rightarrow> sc_allocator \<Rightarrow> sc_status \<times> sc_allocator \<times> 'w) option"
  m_export_snapshot_ex ::
    "('w \<Rightarrow> sc_memory_query option \<Rightarrow> sc_memory_export_options option \<Rightarrow> sc_allocator \<Rightarrow> sc_string res \<times> sc_allocator \<times> 'w) option"

definition SIZEOF_MEMORY_VTAB :: nat where
  "SIZEOF_MEMORY_VTAB = 168"

definition SIZEOF_MEMORY :: nat where
  "SIZEOF_MEMORY = 24"

definition sc_memory_vtab_valid :: "('d, 'w) sc_memory option \<Rightarrow> bool" where
  "sc_memory_vtab_valid vtab =
     (case vtab of
        None \<Rightarrow> False
      | Some m \<Rightarrow>
          sc_contract_common_vtab_valid (m_struct_size m) (m_abi_major m) (m_name m) (m_put m \<noteq> None) (m_destroy m \<noteq> None) \<and>
          m_struct_size m \<ge> SIZEOF_MEMORY_VTAB \<and> m_get m \<noteq> None)"

definition sc_memory_new :: "('d, 'w) sc_memory option \<Rightarrow> sc_allocator \<Rightarrow> ('d, 'w) sc_memory res \<times> sc_allocator" where
  "sc_memory_new vtab a =
     (if \<not> sc_memory_vtab_valid vtab then (Inl (sc_status_invalid_argument ''sc.memory.invalid_vtab''), a)
      else sc_contract_handle_new vtab SIZEOF_MEMORY a)"

definition sc_memory_put :: "('d, 'w) sc_memory option \<Rightarrow> ('d, 'w) put_fn" where
  "sc_memory_put memory w r a =
     (case memory of
        None \<Rightarrow> (sc_status_invalid_argument ''sc.memory.invalid_argument'', a, w)
      | Some m \<Rightarrow> (case m_put m of None \<Rightarrow> (sc_status_invalid_argument ''sc.memory.invalid_argument'', a, w) | Some put \<Rightarrow> put w r a))"

definition sc_memory_get ::
    "('d, 'w) sc_memory option \<Rightarrow> 'w \<Rightarrow> sc_str \<Rightarrow> sc_str \<Rightarrow> sc_allocator \<Rightarrow> sc_string res \<times> sc_allocator \<times> 'w" where
  "sc_memory_get memory w ns key a =
     (case memory of
        None \<Rightarrow> (Inl (sc_status_invalid_argument ''sc.memory.invalid_argument''), a, w)
      | Some m \<Rightarrow>
          (case m_get m of None \<Rightarrow> (Inl (sc_status_invalid_argument ''sc.memory.invalid_argument''), a, w) | Some get \<Rightarrow> get w ns key a))"

definition sc_memory_search ::
    "('d, 'w) sc_memory option \<Rightarrow> 'w \<Rightarrow> sc_memory_query option \<Rightarrow> sc_allocator \<Rightarrow> 'd sc_memory_result res \<times> sc_allocator \<times> 'w" where
  "sc_memory_search memory w query a =
     (case memory of
        None \<Rightarrow> (Inl (sc_status_invalid_argument ''sc.memory.invalid_argument''), a, w)
      | Some m \<Rightarrow>
          (case m_search m of None \<Rightarrow> (Inl (sc_status_unsupported ''sc.memory.search_unsupported''), a, w) | Some search \<Rightarrow> search w query a))"

definition sc_memory_forget :: "('d, 'w) sc_memory option \<Rightarrow> 'w \<Rightarrow> sc_str \<Rightarrow> sc_str \<Rightarrow> sc_allocator \<Rightarrow> sc_status \<times> sc_allocator \<times> 'w" where
  "sc_memory_forget memory w ns key a =
     (case memory of
        None \<Rightarrow> (sc_status_invalid_argument ''sc.memory.invalid_argument'', a, w)
      | Some m \<Rightarrow> (case m_forget m of None \<Rightarrow> (sc_status_unsupported ''sc.memory.forget_unsupported'', a, w) | Some forget \<Rightarrow> forget w ns key a))"

text \<open>A backend that cannot redact forgets instead.\<close>

definition sc_memory_redact :: "('d, 'w) sc_memory option \<Rightarrow> 'w \<Rightarrow> sc_str \<Rightarrow> sc_str \<Rightarrow> sc_allocator \<Rightarrow> sc_status \<times> sc_allocator \<times> 'w" where
  "sc_memory_redact memory w ns key a =
     (case memory of
        None \<Rightarrow> (sc_status_invalid_argument ''sc.memory.invalid_argument'', a, w)
      | Some m \<Rightarrow>
          (case m_redact m of
             Some redact \<Rightarrow> redact w ns key a
           | None \<Rightarrow> (case m_forget m of None \<Rightarrow> (sc_status_unsupported ''sc.memory.redact_unsupported'', a, w) | Some forget \<Rightarrow> forget w ns key a)))"

definition sc_memory_purge_namespace :: "('d, 'w) sc_memory option \<Rightarrow> 'w \<Rightarrow> sc_str \<Rightarrow> sc_allocator \<Rightarrow> sc_status \<times> sc_allocator \<times> 'w" where
  "sc_memory_purge_namespace memory w ns a =
     (case memory of
        None \<Rightarrow> (sc_status_invalid_argument ''sc.memory.invalid_argument'', a, w)
      | Some m \<Rightarrow>
          (case m_purge_namespace m of None \<Rightarrow> (sc_status_unsupported ''sc.memory.purge_namespace_unsupported'', a, w) | Some purge \<Rightarrow> purge w ns a))"

definition sc_memory_purge_session ::
    "('d, 'w) sc_memory option \<Rightarrow> 'w \<Rightarrow> sc_str \<Rightarrow> sc_str \<Rightarrow> sc_allocator \<Rightarrow> sc_status \<times> sc_allocator \<times> 'w" where
  "sc_memory_purge_session memory w ns session a =
     (case memory of
        None \<Rightarrow> (sc_status_invalid_argument ''sc.memory.invalid_argument'', a, w)
      | Some m \<Rightarrow>
          (case m_purge_session m of None \<Rightarrow> (sc_status_unsupported ''sc.memory.purge_session_unsupported'', a, w) | Some purge \<Rightarrow> purge w ns session a))"

definition sc_memory_export_snapshot_ex ::
    "('d, 'w) sc_memory option \<Rightarrow> 'w \<Rightarrow> sc_memory_query option \<Rightarrow> sc_memory_export_options option \<Rightarrow> sc_allocator \<Rightarrow> sc_string res \<times> sc_allocator \<times> 'w" where
  "sc_memory_export_snapshot_ex memory w query options a =
     (case memory of
        None \<Rightarrow> (Inl (sc_status_invalid_argument ''sc.memory.invalid_argument''), a, w)
      | Some m \<Rightarrow>
          (case m_export_snapshot_ex m of
             Some export \<Rightarrow> export w query options a
           | None \<Rightarrow>
               (case m_export_snapshot m of
                  None \<Rightarrow> (Inl (sc_status_unsupported ''sc.memory.export_unsupported''), a, w)
                | Some export \<Rightarrow> export w query a)))"

definition sc_memory_export_snapshot ::
    "('d, 'w) sc_memory option \<Rightarrow> 'w \<Rightarrow> sc_memory_query option \<Rightarrow> sc_allocator \<Rightarrow> sc_string res \<times> sc_allocator \<times> 'w" where
  "sc_memory_export_snapshot memory w query a = sc_memory_export_snapshot_ex memory w query None a"

definition sc_memory_destroy :: "('d, 'w) sc_memory option \<Rightarrow> sc_allocator \<Rightarrow> sc_allocator" where
  "sc_memory_destroy memory a = (case memory of None \<Rightarrow> a | Some m \<Rightarrow> sc_contract_handle_destroy (m_destroy m) a)"

definition sc_memory_hydrate_entry ::
    "('d \<Rightarrow> int) \<Rightarrow> ('d::zero, 'w) sc_memory option \<Rightarrow> 'd sc_json_value \<Rightarrow> bool \<Rightarrow> 'w \<Rightarrow> sc_allocator \<Rightarrow> sc_status \<times> sc_allocator \<times> 'w" where
  "sc_memory_hydrate_entry int_of memory = hydrate_one int_of (sc_memory_put memory)"

definition sc_memory_import_snapshot ::
    "(string \<Rightarrow> 'd option) \<Rightarrow> ('d \<Rightarrow> int) \<Rightarrow> ('d::zero, 'w) sc_memory option \<Rightarrow> sc_str \<Rightarrow> sc_memory_import_options option \<Rightarrow> 'w \<Rightarrow> sc_allocator \<Rightarrow>
       sc_status \<times> sc_allocator \<times> 'w" where
  "sc_memory_import_snapshot strtod int_of memory snapshot options w a =
     (if memory = None then (sc_status_invalid_argument ''sc.memory.hydrate_invalid_argument'', a, w)
      else import_snapshot strtod int_of (sc_memory_put memory) snapshot options w a)"

definition sc_memory_hydrate_snapshot ::
    "(string \<Rightarrow> 'd option) \<Rightarrow> ('d \<Rightarrow> int) \<Rightarrow> ('d::zero, 'w) sc_memory option \<Rightarrow> sc_str \<Rightarrow> 'w \<Rightarrow> sc_allocator \<Rightarrow> sc_status \<times> sc_allocator \<times> 'w" where
  "sc_memory_hydrate_snapshot strtod int_of memory snapshot = sc_memory_import_snapshot strtod int_of memory snapshot None"

text \<open>The entries beyond the first \<open>max_entries\<close> of a namespace, best first, are forgotten.\<close>

fun forget_all ::
    "('d, 'w) sc_memory option \<Rightarrow> sc_str \<Rightarrow> 'd sc_memory_entry list \<Rightarrow> 'w \<Rightarrow> sc_allocator \<Rightarrow> sc_status \<times> sc_allocator \<times> 'w" where
  "forget_all memory ns [] w a = (sc_status_ok, a, w)"
| "forget_all memory ns (e # es) w a =
     (case sc_memory_forget memory w ns (sc_string_as_str (me_key e)) a of
        (st, a1, w1) \<Rightarrow> (if \<not> sc_status_is_ok st then (st, a1, w1) else forget_all memory ns es w1 a1))"

definition sc_memory_apply_retention ::
    "('d, 'w) sc_memory option \<Rightarrow> sc_str \<Rightarrow> nat \<Rightarrow> 'w \<Rightarrow> sc_allocator \<Rightarrow> sc_status \<times> sc_allocator \<times> 'w" where
  "sc_memory_apply_retention memory ns max_entries w a =
     (if memory = None \<or> str_is_empty ns then (sc_status_invalid_argument ''sc.memory.retention_invalid_argument'', a, w)
      else (case sc_memory_search memory w (Some (memory_query_zero\<lparr>mq_namespace_name := ns\<rparr>)) a of
              (Inl e, a1, w1) \<Rightarrow> (e, a1, w1)
            | (Inr found, a1, w1) \<Rightarrow>
                (case forget_all memory ns (drop max_entries (items found)) w1 a1 of
                   (st, a2, w2) \<Rightarrow> (st, sc_memory_result_clear found a2, w2))))"

definition sc_memory_find_duplicate ::
    "('d, 'w) sc_memory option \<Rightarrow> sc_str \<Rightarrow> sc_str \<Rightarrow> 'w \<Rightarrow> sc_allocator \<Rightarrow> sc_string res \<times> sc_allocator \<times> 'w" where
  "sc_memory_find_duplicate memory ns content w a =
     (if memory = None \<or> str_is_empty ns \<or> str_is_empty content
      then (Inl (sc_status_invalid_argument ''sc.memory.duplicate_invalid_argument''), a, w)
      else (case sc_memory_search memory w (Some (memory_query_zero\<lparr>mq_namespace_name := ns\<rparr>)) a of
              (Inl e, a1, w1) \<Rightarrow> (Inl e, a1, w1)
            | (Inr found, a1, w1) \<Rightarrow>
                (case (case find_first (\<lambda>e. sc_str_equal (sc_string_as_str (me_content e)) content) (items found) of
                         None \<Rightarrow> (Inl (sc_status_invalid_argument ''sc.memory.duplicate_not_found''), a1)
                       | Some e \<Rightarrow> sc_string_from_str (sc_string_as_str (me_key e)) a1) of
                   (r, a2) \<Rightarrow> (r, sc_memory_result_clear found a2, w1))))"

record sc_memory_embedding_spec =
  em_model_id :: sc_str
  em_dimensions :: nat
  em_batch_size :: nat
  em_contains_secret :: bool

definition SC_MEMORY_BACKEND_CAP_EMBEDDINGS :: nat where
  "SC_MEMORY_BACKEND_CAP_EMBEDDINGS = 4"

definition sc_memory_validate_embedding ::
    "('d, 'w) sc_memory \<Rightarrow> sc_memory_embedding_spec \<Rightarrow> sc_memory_embedding_spec \<Rightarrow> sc_status" where
  "sc_memory_validate_embedding vtab expected actual =
     (if \<not> bit (m_capabilities vtab) SC_MEMORY_BACKEND_CAP_EMBEDDINGS then sc_status_unsupported ''sc.memory.embedding_unsupported''
      else if str_is_empty (em_model_id expected) \<or> str_is_empty (em_model_id actual) \<or> \<not> sc_str_equal (em_model_id expected) (em_model_id actual)
      then sc_status_invalid_argument ''sc.memory.embedding_model_mismatch''
      else if em_dimensions expected = 0 \<or> em_dimensions actual = 0 \<or> em_dimensions expected \<noteq> em_dimensions actual
      then sc_status_invalid_argument ''sc.memory.embedding_dimension_mismatch''
      else if em_batch_size actual = 0 \<or> em_batch_size expected > 0 \<and> em_batch_size actual > em_batch_size expected
      then sc_status_invalid_argument ''sc.memory.embedding_batch_too_large''
      else if em_contains_secret actual then sc_status_security_denied ''sc.memory.embedding_secret_denied''
      else sc_status_ok)"

section \<open>The backend that stores nothing\<close>

definition none_put :: "(string \<Rightarrow> 'd option) \<Rightarrow> ('d, 'w) put_fn" where
  "none_put strtod w r a = (case sc_memory_validate_record strtod r a of (st, a1) \<Rightarrow> (st, a1, w))"

definition none_vtab :: "(string \<Rightarrow> 'd option) \<Rightarrow> ('d, 'w) sc_memory" where
  "none_vtab strtod =
     \<lparr>m_struct_size = SIZEOF_MEMORY_VTAB, m_abi_major = SC_ABI_VERSION_MAJOR, m_name = Some ''none'',
      m_put = Some (none_put strtod),
      m_get = Some (\<lambda>w ns key a. (Inl (sc_status_invalid_argument ''sc.memory_none.not_found''), a, w)),
      m_search = Some (\<lambda>w query a. (Inr sc_memory_result_init, a, w)),
      m_forget = Some (\<lambda>w ns key a. (sc_status_ok, a, w)),
      m_purge_namespace = Some (\<lambda>w ns a. (sc_status_ok, a, w)),
      m_purge_session = Some (\<lambda>w ns session a. (sc_status_ok, a, w)),
      m_export_snapshot = Some (\<lambda>w query a. (case sc_string_from_cstr (Some ''[]'') a of (r, a1) \<Rightarrow> (r, a1, w))),
      m_destroy = Some (\<lambda>a. a), m_capabilities = 0, m_redact = None, m_export_snapshot_ex = None\<rparr>"

definition sc_memory_none_new :: "(string \<Rightarrow> 'd option) \<Rightarrow> sc_allocator \<Rightarrow> ('d, 'w) sc_memory res \<times> sc_allocator" where
  "sc_memory_none_new strtod a = sc_memory_new (Some (none_vtab strtod)) a"

section \<open>The exported text is the text of a document\<close>

lemma json_escape_eq: "json_escape ch = mjson_escaped ch"
proof -
  have "hex4 n = [CHR ''0'', CHR ''0'', mjson_hex_digit (n div 16), mjson_hex_digit (n mod 16)]" if "n < 32" for n
  proof -
    from that have "n div 4096 = 0" "n div 256 = 0" "n div 16 mod 16 = n div 16" by (simp_all add: div_less_iff_less_mult)
    then show ?thesis by (simp add: hex4_def hex_digit_def mjson_hex_digit_def)
  qed
  then show ?thesis by (simp add: json_escape_def mjson_escaped_def)
qed

lemma json_string_parts_text: "concat (map str_bytes (json_string_parts v)) = quoted (str_bytes v)"
  by (simp add: json_string_parts_def quoted_def comp_def json_escape_eq)

lemma member_parts_text [simp]: "concat (map str_bytes (member_parts before v)) = before @ quoted (str_bytes v)"
  using json_string_parts_text [of v] by (simp add: member_parts_def)

definition plain_name :: "string \<Rightarrow> bool" where
  "plain_name n \<longleftrightarrow> (\<forall>c \<in> set n. mjson_escaped c = [c])"

lemma quote_name_text: "plain_name n \<Longrightarrow> quote_name n = quoted n @ '':''"
proof -
  assume "plain_name n"
  then have "concat (map mjson_escaped n) = n" by (induction n) (auto simp: plain_name_def)
  then show ?thesis by (simp add: quote_name_def quoted_def)
qed

text \<open>The document of an entry; \<open>number\<close> gives the number that stands for an integer.\<close>

definition entry_doc :: "(int \<Rightarrow> 'x) \<Rightarrow> bool \<Rightarrow> 'd sc_memory_entry \<Rightarrow> 'x json" where
  "entry_doc number raw e =
     JObject [(''id'', JString (owned_text (me_id e))), (''namespace'', JString (owned_text (me_namespace_name e))),
       (''session_id'', JString (owned_text (me_session_id e))), (''category'', JString (owned_text (me_category e))),
       (''key'', JString (owned_text (me_key e))), (''content'', JString (str_bytes (exported_content raw e))),
       (''metadata'', JString (str_bytes (exported_metadata raw e))), (''source'', JString (owned_text (me_source e))),
       (''content_ref'', JString (owned_text (me_content_ref e))), (''superseded_by'', JString (owned_text (me_superseded_by_id e))),
       (''redaction_state'', JNumber (number (redaction_number (me_redaction_state e))))]"

lemma plain_names:
  "plain_name ''id''" "plain_name ''namespace''" "plain_name ''session_id''" "plain_name ''category''" "plain_name ''key''"
  "plain_name ''content''" "plain_name ''metadata''" "plain_name ''source''" "plain_name ''content_ref''" "plain_name ''superseded_by''"
  "plain_name ''redaction_state''"
  by (simp_all add: plain_name_def mjson_escaped_def)

lemma entry_json_text:
  assumes "\<And>n. f (number n) = dec_int n"
  shows "concat (map str_bytes (entry_json_parts raw e)) = json_text f (entry_doc number raw e)"
  by (simp add: entry_json_parts_def entry_doc_def quote_name_text plain_names assms)

text \<open>The list of the documents, after its first separator.\<close>

lemma append_entries_spec:
  assumes "append_entries options first es b a = (st, b', a')" "bytes_inv b" "\<And>n. f (number n) = dec_int n"
  shows "bytes_inv b' \<and> live a' = live a + bytes_blocks b' - bytes_blocks b \<and>
    (sc_status_is_ok st \<longrightarrow> contents b' = contents b @
       drop (if first then 1 else 0) (items_text f (map (entry_doc number (exports_raw options)) es)) \<and> (held b \<longrightarrow> held b'))"
  using assms(1,2)
proof (induction es arbitrary: first b a)
  case (Cons e es)
  let ?doc = "entry_doc number (exports_raw options)"
  obtain st1 b1 a1 where sep: "(if first then (sc_status_ok, b, a) else sc_string_builder_append b (Str '','') a) = (st1, b1, a1)"
    by (cases "if first then (sc_status_ok, b, a) else sc_string_builder_append b (Str '','') a")
  have b1: "bytes_inv b1 \<and> live a1 = live a + bytes_blocks b1 - bytes_blocks b \<and>
      (sc_status_is_ok st1 \<longrightarrow> contents b1 = contents b @ (if first then [] else '','') \<and> (held b \<longrightarrow> held b1))"
  proof (cases first)
    case True
    with sep Cons.prems(2) show ?thesis by simp
  next
    case False
    with sep have "sc_string_builder_append b (Str '','') a = (st1, b1, a1)" by simp
    from builder_append_spec [OF this Cons.prems(2)] False show ?thesis by simp
  qed
  show ?case
  proof (cases "sc_status_is_ok st1")
    case False
    with Cons.prems(1) sep have "st = st1" "b' = b1" "a' = a1" by auto
    with False b1 show ?thesis by simp
  next
    case ok1: True
    obtain st2 b2 a2 where one: "sc_memory_append_entry_json options b1 e a1 = (st2, b2, a2)"
      by (cases "sc_memory_append_entry_json options b1 e a1")
    have ne: "entry_json_parts (exports_raw options) e \<noteq> []" by (simp add: entry_json_parts_def)
    have b2: "bytes_inv b2 \<and> live a2 = live a1 + bytes_blocks b2 - bytes_blocks b1 \<and>
        (sc_status_is_ok st2 \<longrightarrow> contents b2 = contents b1 @ json_text f (?doc e) \<and> held b2)"
    proof -
      have "concat (map str_bytes (entry_json_parts (exports_raw options) e)) = json_text f (?doc e)"
        by (rule entry_json_text) (rule assms(3))
      with builder_appends_spec [OF one [unfolded sc_memory_append_entry_json_def]] b1 ne show ?thesis by simp
    qed
    show ?thesis
    proof (cases "sc_status_is_ok st2")
      case False
      with Cons.prems(1) sep ok1 one have "st = st2" "b' = b2" "a' = a2" by auto
      with False b1 b2 show ?thesis by simp
    next
      case ok2: True
      with Cons.prems(1) sep ok1 one have "append_entries options False es b2 a2 = (st, b', a')" by simp
      from Cons.IH [OF this] b2 have rest: "bytes_inv b' \<and> live a' = live a2 + bytes_blocks b' - bytes_blocks b2 \<and>
          (sc_status_is_ok st \<longrightarrow> contents b' = contents b2 @ items_text f (map ?doc es) \<and> (held b2 \<longrightarrow> held b'))"
        by simp
      have first: "drop (if first then 1 else 0) (items_text f (map ?doc (e # es))) =
          (if first then [] else '','') @ json_text f (?doc e) @ items_text f (map ?doc es)" by simp
      show ?thesis unfolding first using rest b1 b2 ok1 ok2 by simp
    qed
  qed
qed simp

lemma snapshot_text_spec:
  assumes "snapshot_text options es a = (r, a')" "\<And>n. f (number n) = dec_int n"
  shows "case r of Inl e \<Rightarrow> \<not> sc_status_is_ok e \<and> live a' = live a
    | Inr t \<Rightarrow> t = Some (json_text f (JArray (map (entry_doc number (exports_raw options)) es))) \<and> live a' = live a + 1"
proof -
  obtain st b a1 where one: "sc_string_builder_append sc_string_builder_init (Str ''['') a = (st, b, a1)"
    by (cases "sc_string_builder_append sc_string_builder_init (Str ''['') a")
  have init: "bytes_inv sc_string_builder_init" "contents sc_string_builder_init = []" "bytes_blocks sc_string_builder_init = 0"
    by (simp_all add: sc_string_builder_init_def sc_bytes_init_def bytes_zero_def bytes_inv_def bytes_blocks_def)
  note b = builder_append_spec [OF one init(1)]
  obtain st2 b2 a2 where two: "(if sc_status_is_ok st then append_entries options True es b a1 else (st, b, a1)) = (st2, b2, a2)"
    by (cases "if sc_status_is_ok st then append_entries options True es b a1 else (st, b, a1)")
  have b2: "bytes_inv b2 \<and> live a2 = live a + bytes_blocks b2 \<and>
      (sc_status_is_ok st2 \<longrightarrow> contents b2 = ''['' @ drop 1 (items_text f (map (entry_doc number (exports_raw options)) es)) \<and> held b2)"
    using two b init append_entries_spec [where f = f and number = number and b = b and options = options and first = True and es = es and a = a1 and st = st2 and b' = b2 and a' = a2, OF _ _ assms(2)] by (auto split: if_splits)
  obtain st3 b3 a3 where three: "(if sc_status_is_ok st2 then sc_string_builder_append b2 (Str '']'') a2 else (st2, b2, a2)) = (st3, b3, a3)"
    by (cases "if sc_status_is_ok st2 then sc_string_builder_append b2 (Str '']'') a2 else (st2, b2, a2)")
  have b3: "bytes_inv b3 \<and> live a3 = live a + bytes_blocks b3 \<and>
      (sc_status_is_ok st3 \<longrightarrow> contents b3 = json_text f (JArray (map (entry_doc number (exports_raw options)) es)) \<and> held b3)"
    using three b2 builder_append_spec [of b2 "Str '']''" a2 st3 b3 a3] by (auto simp: items_text_first split: if_splits)
  have "snapshot_text options es a = (if sc_status_is_ok st3
      then (case sc_string_builder_finish b3 of (t, b4) \<Rightarrow> (Inr t, snd (sc_string_builder_clear b4 a3)))
      else (Inl st3, snd (sc_string_builder_clear b3 a3)))"
    by (simp add: snapshot_text_def one two three del: append_entries.simps)
  then show ?thesis
    using assms(1) b3
    by (auto simp: sc_string_builder_finish_def sc_string_builder_clear_def sc_bytes_clear_def bytes_zero_def bytes_blocks_def split: if_splits)
qed


section \<open>Reading a snapshot back\<close>

lemma last_member_view:
  "k \<noteq> [] \<Longrightarrow> map_option json_view (last_member ms (Str k)) = map_of (rev (members_view ms)) k"
proof (induction ms)
  case (Cons m ms)
  obtain s x where m: "m = (s, x)" by (cases m)
  have eq: "sc_str_equal (sc_string_as_str s) (Str k) \<longleftrightarrow> owned_text s = k"
    using Cons.prems str_equal_owned [of "Str k" s] by (simp add: str_is_empty_def)
  show ?case
  proof (cases "last_member ms (Str k)")
    case None
    with Cons eq show ?thesis by (simp add: m map_add_def)
  next
    case (Some y)
    with Cons have "map_of (rev (members_view ms)) k = Some (json_view y)" by simp
    with Some show ?thesis by (simp add: m map_add_def)
  qed
qed simp

lemma as_str_view: "map_option json_view x = Some (JString s) \<Longrightarrow> \<exists>v. sc_json_as_str x = Some v \<and> str_bytes v = s"
  by (auto simp: sc_json_as_str_def elim!: json_view.elims)

lemma as_number_view: "map_option json_view x = Some (JNumber d) \<Longrightarrow> sc_json_as_number x = Some d"
  by (auto simp: sc_json_as_number_def elim!: json_view.elims)

lemma redaction_number_inverse [simp]:
  "redaction_state_valid s \<Longrightarrow> redaction_of_number (redaction_number s) = s"
  by (cases s) (simp_all add: redaction_of_number_def redaction_number_def redaction_state_valid_def)

text \<open>What a record takes over from an entry; the scores, the time and the retention are not part of a snapshot.\<close>

definition restored :: "'d sc_memory_entry \<Rightarrow> 'd sc_memory_record \<Rightarrow> bool" where
  "restored e r \<longleftrightarrow>
     str_bytes (mr_id r) = owned_text (me_id e) \<and> str_bytes (mr_namespace_name r) = owned_text (me_namespace_name e) \<and>
     str_bytes (mr_session_id r) = owned_text (me_session_id e) \<and> str_bytes (mr_category r) = owned_text (me_category e) \<and>
     str_bytes (mr_key r) = owned_text (me_key e) \<and> str_bytes (mr_value r) = owned_text (me_content e) \<and>
     str_bytes (mr_superseded_by_id r) = owned_text (me_superseded_by_id e) \<and> str_bytes (mr_source r) = owned_text (me_source e) \<and>
     str_bytes (mr_metadata_json r) = owned_text (me_metadata_json e) \<and> str_bytes (mr_content_ref r) = owned_text (me_content_ref e) \<and>
     mr_redaction_state r = me_redaction_state e"

lemma hydrate_entry_doc:
  assumes "json_view v = entry_doc number True e" "\<And>n. int_of (number n) = n" "redaction_state_valid (me_redaction_state e)"
  shows "\<exists>r. hydrated_record int_of v allow = Inr r \<and> restored e r \<and> mr_allow_sensitive_content r = allow"
proof -
  obtain ms c h where v: "v = SC_JSON_OBJECT ms c h"
    using assms(1) unfolding entry_doc_def by (auto elim!: json_view.elims)
  define get where "get k = sc_json_object_get (Some v) (Str k)" for k
  have view: "map_option json_view (get k) = map_of (rev (members_view ms)) k" if "k \<noteq> []" for k
    using last_member_view [OF that, of ms] by (simp add: get_def v sc_json_object_get_def)
  have ms: "JObject (members_view ms) = entry_doc number True e" using assms(1) v by simp
  note look = view ms [unfolded entry_doc_def, simplified]
  have str: "\<exists>s. sc_json_as_str (get k) = Some s \<and> str_bytes s = t"
    if "k \<noteq> []" "map_of (rev (members_view ms)) k = Some (JString t)" for k t
    using as_str_view view that by metis
  obtain i where i: "sc_json_as_str (get ''id'') = Some i" "str_bytes i = owned_text (me_id e)" using str [of "''id''"] look(2) by auto
  obtain ns where ns: "sc_json_as_str (get ''namespace'') = Some ns" "str_bytes ns = owned_text (me_namespace_name e)"
    using str [of "''namespace''"] look(2) by auto
  obtain se where se: "sc_json_as_str (get ''session_id'') = Some se" "str_bytes se = owned_text (me_session_id e)"
    using str [of "''session_id''"] look(2) by auto
  obtain ca where ca: "sc_json_as_str (get ''category'') = Some ca" "str_bytes ca = owned_text (me_category e)"
    using str [of "''category''"] look(2) by auto
  obtain ke where ke: "sc_json_as_str (get ''key'') = Some ke" "str_bytes ke = owned_text (me_key e)" using str [of "''key''"] look(2) by auto
  obtain co where co: "sc_json_as_str (get ''content'') = Some co" "str_bytes co = owned_text (me_content e)"
    using str [of "''content''"] look(2) by (auto simp: exported_content_def)
  obtain me where me: "sc_json_as_str (get ''metadata'') = Some me" "str_bytes me = owned_text (me_metadata_json e)"
    using str [of "''metadata''"] look(2) by (auto simp: exported_metadata_def)
  obtain so where so: "sc_json_as_str (get ''source'') = Some so" "str_bytes so = owned_text (me_source e)"
    using str [of "''source''"] look(2) by auto
  obtain cr where cr: "sc_json_as_str (get ''content_ref'') = Some cr" "str_bytes cr = owned_text (me_content_ref e)"
    using str [of "''content_ref''"] look(2) by auto
  obtain su where su: "sc_json_as_str (get ''superseded_by'') = Some su" "str_bytes su = owned_text (me_superseded_by_id e)"
    using str [of "''superseded_by''"] look(2) by auto
  have "map_option json_view (get ''redaction_state'') = Some (JNumber (number (redaction_number (me_redaction_state e))))"
    using view [of "''redaction_state''"] look(2) by simp
  then have re: "sc_json_as_number (get ''redaction_state'') = Some (number (redaction_number (me_redaction_state e)))"
    by (rule as_number_view)
  note all = i ns se ca ke co me so cr su re
  have "sc_json_type_of (Some v) = JSON_OBJECT" by (simp add: v)
  then show ?thesis
    using all(1,3,5,7,9,11,13,15,17,19,21) [unfolded get_def] all(2,4,6,8,10,12,14,16,18,20) assms(2,3)
    by (simp add: hydrated_record_def optional_member_def restored_def memory_record_zero_def)
qed

lemma items_view_map: "items_view xs = map json_view xs"
  by (induction xs) simp_all

lemma depth_entry_docs: "items_depth (map (entry_doc number raw) es) \<le> 2"
  by (induction es) (simp_all add: entry_doc_def)

lemma snapshot_restores:
  assumes "generous a" "doc_ok strtod f (JArray (map (entry_doc number True) es))" "\<And>n. int_of (number n) = n"
    and "length (json_text f (JArray (map (entry_doc number True) es))) \<le> TEXT_MAX" "\<forall>e \<in> set es. redaction_state_valid (me_redaction_state e)"
  shows "\<exists>v a'. sc_json_parse strtod (Str (json_text f (JArray (map (entry_doc number True) es)))) a = Some (Inr v, json_error_zero, a') \<and>
    list_all2 (\<lambda>x e. \<exists>r. hydrated_record int_of x allow = Inr r \<and> restored e r \<and> mr_allow_sensitive_content r = allow) (array_items (Some v)) es"
proof -
  have depth: "json_depth (JArray (map (entry_doc number True) es)) \<le> JSON_MAX_DEPTH"
    using depth_entry_docs [of number True es] by (simp add: JSON_MAX_DEPTH_def)
  from parse_printed [OF assms(1,2) depth assms(4)] obtain v a' where
    parsed: "sc_json_parse strtod (Str (json_text f (JArray (map (entry_doc number True) es)))) a = Some (Inr v, json_error_zero, a')"
    and view: "json_view v = JArray (map (entry_doc number True) es)" by auto
  from view obtain xs c h where v: "v = SC_JSON_ARRAY xs c h" by (auto elim!: json_view.elims)
  with view have xs: "map json_view xs = map (entry_doc number True) es" by (simp add: items_view_map)
  have "list_all2 (\<lambda>x e. json_view x = entry_doc number True e) xs es"
    using xs by (simp add: list_all2_conv_all_nth) (metis length_map nth_map)
  then have "list_all2 (\<lambda>x e. \<exists>r. hydrated_record int_of x allow = Inr r \<and> restored e r \<and> mr_allow_sensitive_content r = allow) xs es"
    using assms(5) hydrate_entry_doc [where int_of = int_of and number = number and allow = allow] assms(3)
    by (auto simp: list_all2_conv_all_nth)
  with parsed show ?thesis by (auto simp: array_items_def v)
qed


section \<open>What an export shows of entries that are not marked\<close>

text \<open>Without the permission for raw contents, two lists that differ in the contents and the metadata of unmarked entries only
  are exported alike: the text, the status and every request to the allocator are the same.\<close>

definition masked :: "'d sc_memory_entry \<Rightarrow> 'd sc_memory_entry" where
  "masked e = (if me_redaction_state e = SC_MEMORY_REDACTION_NONE then e\<lparr>me_content := None, me_metadata_json := None\<rparr> else e)"

lemma entry_json_masked: "entry_json_parts False (masked e) = entry_json_parts False e"
  by (simp add: masked_def entry_json_parts_def exported_content_def exported_metadata_def)

lemma append_entries_masked:
  assumes "\<not> exports_raw options"
  shows "append_entries options first (map masked es) b a = append_entries options first es b a"
proof (induction es arbitrary: first b a)
  case (Cons e es)
  have "sc_memory_append_entry_json options b (masked e) a = sc_memory_append_entry_json options b e a" for b a
    using assms by (simp add: sc_memory_append_entry_json_def entry_json_masked)
  with Cons show ?case by (simp split: prod.split)
qed simp

lemma snapshot_text_masked:
  assumes "\<not> exports_raw options" "map masked es = map masked fs"
  shows "snapshot_text options es a = snapshot_text options fs a"
proof -
  have "append_entries options first es b a = append_entries options first fs b a" for first b a
    using append_entries_masked [OF assms(1), of first es b a] append_entries_masked [OF assms(1), of first fs b a] assms(2) by simp
  then have "append_entries options first es = append_entries options first fs" for first by (intro ext)
  then show ?thesis unfolding snapshot_text_def by presburger
qed

section \<open>What an import may change\<close>

text \<open>
  The contract of a function that stores one record: it keeps the invariant of the state, and the map of the state
  changes at most at the record's key, where the record must have been valid.
\<close>

locale record_put =
  fixes inv :: "'s \<Rightarrow> bool"
    and abs :: "'s \<Rightarrow> string \<times> string \<rightharpoonup> 'd::zero sc_memory_entry"
    and put :: "('d, 's) put_fn"
  assumes put_inv: "put s r a = (st, a', s') \<Longrightarrow> inv s \<Longrightarrow> inv s'"
    and put_abs: "put s r a = (st, a', s') \<Longrightarrow> inv s \<Longrightarrow> abs s' = abs s \<or>
      record_ok r \<and> (\<exists>i t. abs s' = (abs s)((str_bytes (mr_namespace_name r), str_bytes (mr_key r)) \<mapsto> entry_of_record r i t))"
begin

text \<open>A key whose entry is another one than before.\<close>

definition changed :: "'s \<Rightarrow> 's \<Rightarrow> (string \<times> string) set" where
  "changed s s' = {k. abs s' k \<noteq> abs s k}"

definition imported :: "('d \<Rightarrow> int) \<Rightarrow> bool \<Rightarrow> 'd sc_json_value list \<Rightarrow> 's \<Rightarrow> string \<times> string \<Rightarrow> bool" where
  "imported int_of allow vs s' k \<longleftrightarrow> (\<exists>v \<in> set vs. \<exists>r i t. hydrated_record int_of v allow = Inr r \<and> record_ok r \<and>
     k = (str_bytes (mr_namespace_name r), str_bytes (mr_key r)) \<and> abs s' k = Some (entry_of_record r i t))"

lemma put_changed_refl [simp]: "changed s s = {}"
  by (simp add: changed_def)

lemma put_changed_trans: "changed s s'' \<subseteq> changed s s' \<union> changed s' s''"
  by (auto simp: changed_def)

lemma hydrate_one_spec:
  assumes "hydrate_one int_of put v allow s a = (st, a', s')" "inv s"
  shows "inv s' \<and> finite (changed s s') \<and> card (changed s s') \<le> 1 \<and> (\<forall>k \<in> changed s s'. imported int_of allow [v] s' k)"
proof (cases "hydrated_record int_of v allow")
  case (Inl e)
  with assms show ?thesis by (simp add: hydrate_one_def)
next
  case (Inr r)
  with assms(1) have run: "put s r a = (st, a', s')" by (simp add: hydrate_one_def)
  let ?k = "(str_bytes (mr_namespace_name r), str_bytes (mr_key r))"
  from put_abs [OF run assms(2)] consider (same) "abs s' = abs s"
    | (set) i t where "record_ok r" "abs s' = (abs s)(?k \<mapsto> entry_of_record r i t)" by auto
  then show ?thesis
  proof cases
    case same
    then have "changed s s' = {}" by (simp add: changed_def)
    then show ?thesis using put_inv [OF run assms(2)] by simp
  next
    case set
    then have "changed s s' \<subseteq> {?k}" by (auto simp: changed_def)
    then have "finite (changed s s')" "card (changed s s') \<le> 1"
      using card_mono [of "{?k}" "changed s s'"] finite_subset by auto
    moreover have "imported int_of allow [v] s' ?k" using set Inr by (auto simp: imported_def)
    ultimately show ?thesis using put_inv [OF run assms(2)] \<open>changed s s' \<subseteq> {?k}\<close> by auto
  qed
qed

lemma hydrate_all_spec:
  assumes "hydrate_all int_of put allow vs s a = (st, a', s')" "inv s"
  shows "inv s' \<and> finite (changed s s') \<and> card (changed s s') \<le> length vs \<and> (\<forall>k \<in> changed s s'. imported int_of allow vs s' k)"
  using assms
proof (induction vs arbitrary: s a)
  case (Cons v vs)
  obtain st1 a1 s1 where one: "hydrate_one int_of put v allow s a = (st1, a1, s1)" by (cases "hydrate_one int_of put v allow s a")
  note o = hydrate_one_spec [OF one Cons.prems(2)]
  show ?case
  proof (cases "sc_status_is_ok st1")
    case False
    with Cons.prems(1) one have "s' = s1" by simp
    then show ?thesis using o by (auto simp: imported_def)
  next
    case True
    with Cons.prems(1) one have "hydrate_all int_of put allow vs s1 a1 = (st, a', s')" by simp
    from Cons.IH [OF this] o have r: "inv s'" "finite (changed s1 s')" "card (changed s1 s') \<le> length vs"
      "\<forall>k \<in> changed s1 s'. imported int_of allow vs s' k" by auto
    have fin: "finite (changed s s1 \<union> changed s1 s')" using o r(2) by simp
    have "card (changed s s') \<le> card (changed s s1 \<union> changed s1 s')" by (rule card_mono [OF fin put_changed_trans])
    also have "\<dots> \<le> card (changed s s1) + card (changed s1 s')" by (rule card_Un_le)
    also have "\<dots> \<le> length (v # vs)" using o r(3) by simp
    finally have "card (changed s s') \<le> length (v # vs)" .
    moreover have "imported int_of allow (v # vs) s' k" if "k \<in> changed s s'" for k
    proof (cases "k \<in> changed s1 s'")
      case True
      with r(4) show ?thesis by (auto simp: imported_def)
    next
      case False
      with that put_changed_trans [of s s' s1] have "k \<in> changed s s1" "abs s' k = abs s1 k" by (auto simp: changed_def)
      with o show ?thesis by (auto simp: imported_def)
    qed
    ultimately show ?thesis using r(1) finite_subset [OF put_changed_trans fin] by simp
  qed
qed simp

lemma import_snapshot_spec:
  assumes "import_snapshot strtod int_of put snapshot options s a = (st, a', s')" "inv s"
  shows "inv s' \<and> finite (changed s s') \<and> card (changed s s') \<le> import_max_records options \<and>
    (changed s s' \<noteq> {} \<longrightarrow> str_len snapshot \<le> import_max_bytes options) \<and>
    (\<forall>k \<in> changed s s'. \<exists>vs. imported int_of (import_allows_secrets options) vs s' k)"
proof (cases "str_is_empty snapshot \<or> str_len snapshot > import_max_bytes options")
  case True
  with assms show ?thesis by (auto simp: import_snapshot_def split: if_splits)
next
  case size: False
  obtain r a1 where p: "parse_json strtod snapshot a = (r, a1)" by (cases "parse_json strtod snapshot a")
  show ?thesis
  proof (cases r)
    case (Inl e)
    with assms size p show ?thesis by (auto simp: import_snapshot_def split: if_splits)
  next
    case (Inr root)
    let ?vs = "array_items (Some root)"
    show ?thesis
    proof (cases "sc_json_type_of (Some root) \<noteq> JSON_ARRAY \<or> sc_json_array_len (Some root) > import_max_records options")
      case True
      with assms size p Inr show ?thesis by (auto simp: import_snapshot_def split: if_splits)
    next
      case fits: False
      obtain st1 a2 s1 where all: "hydrate_all int_of put (import_allows_secrets options) ?vs s a1 = (st1, a2, s1)"
        by (cases "hydrate_all int_of put (import_allows_secrets options) ?vs s a1")
      with assms(1) size p Inr fits have "s' = s1" by (auto simp: import_snapshot_def split: if_splits)
      moreover have "length ?vs = sc_json_array_len (Some root)"
        by (cases root) (simp_all add: array_items_def sc_json_array_len_def)
      ultimately show ?thesis using hydrate_all_spec [OF all assms(2)] fits size by auto
    qed
  qed
qed

lemma imported_allowed:
  assumes "imported int_of allow vs s' k"
  shows "(allow \<or> \<not> key_looks_secret (Str (snd k))) \<and> \<not> sc_memory_key_is_reserved (Str (snd k)) \<and> fst k \<noteq> [] \<and> snd k \<noteq> [] \<and>
    (\<exists>e. abs s' k = Some e \<and> redaction_state_valid (me_redaction_state e))"
proof -
  from assms obtain v r i t where r: "hydrated_record int_of v allow = Inr r" "record_ok r"
    "k = (str_bytes (mr_namespace_name r), str_bytes (mr_key r))" "abs s' k = Some (entry_of_record r i t)"
    by (auto simp: imported_def)
  have "mr_allow_sensitive_content r = allow" using r(1) by (auto simp: hydrated_record_def split: if_splits option.splits)
  moreover have key: "mr_key r = Str (str_bytes (mr_key r))"
    using r(2) by (cases "mr_key r") (auto simp: record_ok_def str_is_empty_def)
  moreover have "str_bytes (mr_namespace_name r) \<noteq> []"
    using r(2) by (cases "mr_namespace_name r") (auto simp: record_ok_def str_is_empty_def)
  ultimately show ?thesis using r(2-4) by (auto simp: record_ok_def entry_of_record_def str_is_empty_def)
qed

end

text \<open>The store and the backend that stores nothing keep this contract.\<close>

interpretation store_import: record_put "\<lambda>s. store_inv (fst s)" "\<lambda>s. store_abs (fst s)" "store_put_next strtod draws"
proof
  fix s r a st a' s'
  assume run: "store_put_next strtod draws s r a = (st, a', s')" and inv: "store_inv (fst s)"
  then obtain store n where s: "s = (store, n)" "store_inv store" by (cases s) auto
  obtain st1 store' a1 where put: "sc_memory_store_put strtod (fst (draws n)) (snd (draws n)) store r a = (st1, store', a1)"
    by (cases "sc_memory_store_put strtod (fst (draws n)) (snd (draws n)) store r a")
  then have out: "s' = (store', Suc n)" using run s(1) by (simp add: store_put_next_def)
  note spec = store_put_spec [OF put s(2)]
  show "store_inv (fst s')" using spec out by simp
  show "store_abs (fst s') = store_abs (fst s) \<or> record_ok r \<and>
      (\<exists>i t. store_abs (fst s') = (store_abs (fst s))((str_bytes (mr_namespace_name r), str_bytes (mr_key r)) \<mapsto> entry_of_record r i t))"
    using spec out s(1) by (auto split: if_splits)
qed

interpretation none_import: record_put "\<lambda>_. True" "\<lambda>_. Map.empty" "none_put strtod"
  by unfold_locales simp_all

end
