(* ===== verification/SC_Memory_Properties.thy ===== *)
theory SC_Memory_Properties
  imports "HOL-Library.Code_Target_Numeral" SC_Snapshot
begin

text \<open>
  Properties of the memory: sequences of operations on the store of \<^verbatim>\<open>src/memory/memory_common.c\<close> against a finite map from
  a namespace and a key to the record put there last, what a search returns, what forgetting leaves, and what goes out of a
  memory and comes into it with a snapshot.
\<close>

section \<open>Sequences of operations\<close>

datatype 'd memory_op =
    Op_put urandom timespec "'d sc_memory_record"
  | Op_forget sc_str sc_str
  | Op_redact sc_str sc_str
  | Op_purge_namespace sc_str
  | Op_purge_session sc_str sc_str

fun memory_step ::
    "(string \<Rightarrow> 'd option) \<Rightarrow> 'd memory_op \<Rightarrow> 'd::zero sc_memory_store \<Rightarrow> sc_allocator \<Rightarrow> sc_status \<times> 'd sc_memory_store \<times> sc_allocator" where
  "memory_step strtod (Op_put dev now r) store a = sc_memory_store_put strtod dev now store r a"
| "memory_step strtod (Op_forget ns key) store a = sc_memory_store_forget store ns key a"
| "memory_step strtod (Op_redact ns key) store a = sc_memory_store_redact store ns key a"
| "memory_step strtod (Op_purge_namespace ns) store a = sc_memory_store_purge_namespace store ns a"
| "memory_step strtod (Op_purge_session ns session) store a = sc_memory_store_purge_session store ns session a"

text \<open>The operations with the statuses they returned.\<close>

fun memory_run ::
    "(string \<Rightarrow> 'd option) \<Rightarrow> 'd memory_op list \<Rightarrow> 'd::zero sc_memory_store \<Rightarrow> sc_allocator \<Rightarrow>
       ('d memory_op \<times> sc_status) list \<times> 'd sc_memory_store \<times> sc_allocator" where
  "memory_run strtod [] store a = ([], store, a)"
| "memory_run strtod (x # xs) store a =
     (case memory_step strtod x store a of
        (st, store1, a1) \<Rightarrow> (case memory_run strtod xs store1 a1 of (done, store2, a2) \<Rightarrow> ((x, st) # done, store2, a2)))"

section \<open>The abstract memory\<close>

type_synonym 'd memory_spec = "string \<times> string \<rightharpoonup> 'd sc_memory_record"

definition record_key :: "'d sc_memory_record \<Rightarrow> string \<times> string" where
  "record_key r = (str_bytes (mr_namespace_name r), str_bytes (mr_key r))"

text \<open>
  A record stays until another one is put under its key, the key is forgotten or redacted, or its namespace or its session is
  purged; a record that was refused is not put.
\<close>

fun spec_step :: "'d memory_op \<times> sc_status \<Rightarrow> 'd memory_spec \<Rightarrow> 'd memory_spec" where
  "spec_step (Op_put dev now r, st) m = (if sc_status_is_ok st then m(record_key r \<mapsto> r) else m)"
| "spec_step (Op_forget ns key, st) m = m((str_bytes ns, str_bytes key) := None)"
| "spec_step (Op_redact ns key, st) m = m((str_bytes ns, str_bytes key) := None)"
| "spec_step (Op_purge_namespace ns, st) m = (\<lambda>k. if fst k = str_bytes ns then None else m k)"
| "spec_step (Op_purge_session ns session, st) m =
     (\<lambda>k. case m k of None \<Rightarrow> None
        | Some r \<Rightarrow> if str_bytes session \<noteq> [] \<and> fst k = str_bytes ns \<and> str_bytes (mr_session_id r) = str_bytes session then None else Some r)"

definition spec_run :: "('d memory_op \<times> sc_status) list \<Rightarrow> 'd memory_spec" where
  "spec_run done = fold spec_step done Map.empty"

definition current :: "'d sc_memory_record \<Rightarrow> bool" where
  "current r \<longleftrightarrow> str_bytes (mr_superseded_by_id r) = [] \<and> mr_redaction_state r = SC_MEMORY_REDACTION_NONE"

text \<open>The store holds the records of the abstract memory; what else it holds is marked.\<close>

definition slot_ok :: "string \<times> string \<Rightarrow> 'd sc_memory_record option \<Rightarrow> 'd sc_memory_entry option \<Rightarrow> bool" where
  "slot_ok k wanted held_entry \<longleftrightarrow>
     (case wanted of
        None \<Rightarrow> (case held_entry of None \<Rightarrow> True | Some e \<Rightarrow> me_redaction_state e \<noteq> SC_MEMORY_REDACTION_NONE)
      | Some r \<Rightarrow> record_key r = k \<and> record_ok r \<and> (\<exists>i t. held_entry = Some (entry_of_record r i t)))"

definition implements :: "'d sc_memory_store \<Rightarrow> 'd memory_spec \<Rightarrow> bool" where
  "implements store m \<longleftrightarrow> store_inv store \<and> (\<forall>k. slot_ok k (m k) (store_abs store k))"

lemma slot_ok_simps [simp]:
  "slot_ok k None None"
  "slot_ok k None (Some e) \<longleftrightarrow> me_redaction_state e \<noteq> SC_MEMORY_REDACTION_NONE"
  "slot_ok k (Some r) x \<longleftrightarrow> record_key r = k \<and> record_ok r \<and> (\<exists>i t. x = Some (entry_of_record r i t))"
  by (simp_all add: slot_ok_def)

lemma implements_empty: "implements sc_memory_store_init Map.empty"
  by (simp add: implements_def)

lemma implementsD:
  assumes "implements store m"
  shows "store_inv store"
    and "m k = None \<Longrightarrow> store_abs store k = Some e \<Longrightarrow> me_redaction_state e \<noteq> SC_MEMORY_REDACTION_NONE"
    and "m k = Some r \<Longrightarrow> record_key r = k \<and> record_ok r \<and> (\<exists>i t. store_abs store k = Some (entry_of_record r i t))"
proof -
  have "store_inv store" and slot: "slot_ok k (m k) (store_abs store k)" using assms unfolding implements_def by blast+
  then show "store_inv store" by simp
  show "me_redaction_state e \<noteq> SC_MEMORY_REDACTION_NONE" if "m k = None" "store_abs store k = Some e" using slot that by simp
  show "record_key r = k \<and> record_ok r \<and> (\<exists>i t. store_abs store k = Some (entry_of_record r i t))" if "m k = Some r" using slot that by simp
qed

lemma str_empty_bytes: "\<not> str_is_empty v \<longleftrightarrow> str_bytes v \<noteq> []"
  by (cases v) (auto simp: str_is_empty_def)

lemma str_equal_text: "\<not> str_is_empty v \<Longrightarrow> sc_str_equal (Str t) v \<longleftrightarrow> t = str_bytes v"
  using str_equal_owned [of v "Some t"] by simp

lemma key_not_empty:
  assumes "implements store m" "m (str_bytes ns, str_bytes key) = Some r"
  shows "\<not> str_is_empty ns" "\<not> str_is_empty key"
  using implementsD(3) [OF assms] by (auto simp: record_key_def record_ok_def str_empty_bytes)

lemma entry_of_record_simps [simp]:
  "me_redaction_state (entry_of_record r i t) = mr_redaction_state r"
  "me_content (entry_of_record r i t) = Some (str_bytes (mr_value r))"
  "me_superseded_by_id (entry_of_record r i t) = Some (str_bytes (mr_superseded_by_id r))"
  "me_session_id (entry_of_record r i t) = Some (str_bytes (mr_session_id r))"
  "me_namespace_name (entry_of_record r i t) = Some (str_bytes (mr_namespace_name r))"
  "me_key (entry_of_record r i t) = Some (str_bytes (mr_key r))"
  by (simp_all add: entry_of_record_def)

lemma put_implements:
  assumes "sc_memory_store_put strtod dev now store r a = (st, store', a')" "implements store m"
  shows "implements store' (spec_step (Op_put dev now r, st) m)"
proof (cases "sc_status_is_ok st")
  case False
  with store_put_spec [OF assms(1) implementsD(1) [OF assms(2)]] assms(2) show ?thesis by simp
next
  case True
  with store_put_spec [OF assms(1) implementsD(1) [OF assms(2)]] obtain i t where
    "store_inv store'" "record_ok r" "store_abs store' = (store_abs store)(record_key r \<mapsto> entry_of_record r i t)"
    by (auto simp: record_key_def)
  with True assms(2) show ?thesis by (simp add: implements_def) blast
qed

lemma mark_implements:
  assumes "mark_in_store state store ns key a = (st, store', a')" "implements store m" "state \<noteq> SC_MEMORY_REDACTION_NONE"
  shows "implements store' (m((str_bytes ns, str_bytes key) := None))"
proof -
  note spec = mark_in_store_spec [OF assms(1) implementsD(1) [OF assms(2)]]
  let ?k = "(str_bytes ns, str_bytes key)"
  show ?thesis
  proof (cases "str_is_empty ns \<or> str_is_empty key")
    case True
    with key_not_empty [OF assms(2)] have "m ?k = None" by (cases "m ?k") auto
    with True spec assms(2) show ?thesis by (simp add: fun_upd_idem)
  next
    case False
    with spec have s: "store_inv store'" "store_abs store' = (case store_abs store ?k of None \<Rightarrow> store_abs store
        | Some e \<Rightarrow> (store_abs store)(?k \<mapsto> marked state (if sc_status_is_ok st then Some ''[REDACTED]'' else None) e))" by auto
    have "slot_ok k ((m(?k := None)) k) (store_abs store' k)" for k
    proof (cases "k = ?k")
      case True
      then show ?thesis using s(2) assms(3) by (cases "store_abs store ?k") (simp_all add: marked_def)
    next
      case False
      then have "store_abs store' k = store_abs store k" using s(2) by (simp split: option.splits)
      moreover have "slot_ok k (m k) (store_abs store k)" using assms(2) unfolding implements_def by blast
      ultimately show ?thesis using False by simp
    qed
    with s(1) show ?thesis by (simp add: implements_def)
  qed
qed

lemma purge_implements:
  assumes "purge_from P 0 store a = (store', a')" "implements store m"
    and "\<And>k r i t. m k = Some r \<Longrightarrow> m' k = (if P (entry_of_record r i t) then None else Some r)" "\<And>k. m k = None \<Longrightarrow> m' k = None"
  shows "implements store' m'"
proof -
  have inv: "store_inv store'" and s: "store_abs store' k = Some e \<longleftrightarrow> store_abs store k = Some e \<and> \<not> P e" for k e
    using purge_store_spec [OF assms(1) implementsD(1) [OF assms(2)]] by blast+
  have "slot_ok k (m' k) (store_abs store' k)" for k
  proof (cases "m k")
    case None
    have "me_redaction_state e \<noteq> SC_MEMORY_REDACTION_NONE" if "store_abs store' k = Some e" for e
      using implementsD(2) [OF assms(2) None] s that by blast
    with assms(4) [OF None] show ?thesis by (cases "store_abs store' k") simp_all
  next
    case (Some r)
    with implementsD(3) [OF assms(2)] obtain i t where
      e: "record_key r = k" "record_ok r" "store_abs store k = Some (entry_of_record r i t)" by blast
    show ?thesis
    proof (cases "P (entry_of_record r i t)")
      case True
      have "store_abs store' k \<noteq> Some x" for x using s [of k x] e(3) True by auto
      then have "store_abs store' k = None" by (meson not_Some_eq)
      with True assms(3) [OF Some, of i t] show ?thesis by simp
    next
      case False
      with s e(3) have "store_abs store' k = Some (entry_of_record r i t)" by blast
      with False e assms(3) [OF Some, of i t] show ?thesis by auto
    qed
  qed
  with inv show ?thesis by (simp add: implements_def)
qed

lemma step_implements:
  assumes "memory_step strtod x store a = (st, store', a')" "implements store m"
  shows "implements store' (spec_step (x, st) m)"
proof (cases x)
  case (Op_put dev now r)
  with assms put_implements [of strtod dev now store r a st store' a' m] show ?thesis by simp
next
  case (Op_forget ns key)
  with assms mark_implements [of SC_MEMORY_REDACTION_DELETED] show ?thesis by (simp add: sc_memory_store_forget_def)
next
  case (Op_redact ns key)
  with assms mark_implements [of SC_MEMORY_REDACTION_REDACTED] show ?thesis by (simp add: sc_memory_store_redact_def)
next
  case (Op_purge_namespace ns)
  show ?thesis
  proof (cases "str_is_empty ns")
    case True
    have "spec_step (x, st) m = m"
    proof
      fix k
      show "spec_step (x, st) m k = m k"
      proof (cases "m k")
        case (Some r)
        with implementsD(3) [OF assms(2)] have "record_key r = k" "record_ok r" by auto
        then have "fst k \<noteq> []" by (auto simp: record_key_def record_ok_def str_empty_bytes)
        then have "fst k \<noteq> str_bytes ns" using True str_empty_bytes [of ns] by auto
        then show ?thesis by (simp add: Op_purge_namespace)
      qed (simp add: Op_purge_namespace)
    qed
    with True assms show ?thesis by (simp add: Op_purge_namespace sc_memory_store_purge_namespace_def)
  next
    case False
    with assms(1) have run: "purge_from (\<lambda>e. sc_str_equal (sc_string_as_str (me_namespace_name e)) ns) 0 store a = (store', a')"
      by (simp add: Op_purge_namespace sc_memory_store_purge_namespace_def)
    show ?thesis
    proof (rule purge_implements [OF run assms(2)])
      fix k r i t
      assume "m k = Some r"
      with implementsD(3) [OF assms(2)] have "record_key r = k" by auto
      with \<open>m k = Some r\<close> False
      show "spec_step (x, st) m k =
          (if sc_str_equal (sc_string_as_str (me_namespace_name (entry_of_record r i t))) ns then None else Some r)"
        by (auto simp: Op_purge_namespace str_equal_text record_key_def)
    qed (simp add: Op_purge_namespace)
  qed
next
  case (Op_purge_session ns session)
  show ?thesis
  proof (cases "str_is_empty ns \<or> str_is_empty session")
    case True
    have "spec_step (x, st) m = m"
    proof
      fix k
      show "spec_step (x, st) m k = m k"
      proof (cases "m k")
        case (Some r)
        with implementsD(3) [OF assms(2)] have "record_key r = k" "record_ok r" by auto
        then have "fst k \<noteq> []" by (auto simp: record_key_def record_ok_def str_empty_bytes)
        then have "fst k = str_bytes ns \<Longrightarrow> str_bytes session = []" using True str_empty_bytes [of ns] str_empty_bytes [of session] by auto
        with Some show ?thesis by (auto simp: Op_purge_session)
      qed (simp add: Op_purge_session)
    qed
    with True assms show ?thesis by (simp add: Op_purge_session sc_memory_store_purge_session_def)
  next
    case False
    with assms(1) have run: "purge_from (\<lambda>e. sc_str_equal (sc_string_as_str (me_namespace_name e)) ns \<and>
        sc_str_equal (sc_string_as_str (me_session_id e)) session) 0 store a = (store', a')"
      by (simp add: Op_purge_session sc_memory_store_purge_session_def)
    show ?thesis
    proof (rule purge_implements [OF run assms(2)])
      fix k r i t
      assume "m k = Some r"
      with implementsD(3) [OF assms(2)] have "record_key r = k" by auto
      with \<open>m k = Some r\<close> False
      show "spec_step (x, st) m k = (if sc_str_equal (sc_string_as_str (me_namespace_name (entry_of_record r i t))) ns \<and>
          sc_str_equal (sc_string_as_str (me_session_id (entry_of_record r i t))) session then None else Some r)"
        by (auto simp: Op_purge_session str_equal_text record_key_def str_empty_bytes [symmetric])
    qed (simp add: Op_purge_session)
  qed
qed

lemma run_implements:
  assumes "memory_run strtod ops store a = (log, store', a')" "implements store m"
  shows "implements store' (fold spec_step log m)"
  using assms
proof (induction ops arbitrary: store a m log)
  case (Cons x xs)
  obtain st store1 a1 where one: "memory_step strtod x store a = (st, store1, a1)" by (cases "memory_step strtod x store a")
  obtain l2 s2 a2 where rest: "memory_run strtod xs store1 a1 = (l2, s2, a2)" by (cases "memory_run strtod xs store1 a1")
  from Cons.prems(1) one rest have "log = (x, st) # l2" "store' = s2" "a' = a2" by simp_all
  with Cons.IH [OF rest [folded this] step_implements [OF one Cons.prems(2)]] rest show ?case
    using Cons.IH [of store1 a1 l2, OF _ step_implements [OF one Cons.prems(2)]] by simp
qed simp

lemma get_implements:
  assumes "implements store m" "sc_memory_store_get store ns key a = (r, a')" "\<not> str_is_empty ns" "\<not> str_is_empty key"
  shows "case m (str_bytes ns, str_bytes key) of
      Some x \<Rightarrow> (if current x then r = Inr (Some (str_bytes (mr_value x))) \<or> r = Inl sc_status_no_memory else \<exists>e. r = Inl e \<and> \<not> sc_status_is_ok e)
    | None \<Rightarrow> \<exists>e. r = Inl e \<and> \<not> sc_status_is_ok e"
proof -
  let ?k = "(str_bytes ns, str_bytes key)"
  note g = store_get_spec [OF assms(2) implementsD(1) [OF assms(1)]]
  show ?thesis
  proof (cases "m ?k")
    case None
    with implementsD(2) [OF assms(1) None] g show ?thesis by (cases r) (auto simp: readable_def)
  next
    case (Some x)
    with implementsD(3) [OF assms(1)] obtain i t where e: "record_key x = ?k" "store_abs store ?k = Some (entry_of_record x i t)" by blast
    have "namespace_key_equal (entry_of_record x i t) ns key"
      unfolding namespace_key_equal_def str_equal_owned [OF assms(3)] str_equal_owned [OF assms(4)] using e(1) by (simp add: record_key_def)
    then have "readable ns key (entry_of_record x i t) \<longleftrightarrow> current x" by (simp add: readable_def current_def)
    with g e(2) Some assms(3,4) show ?thesis by (cases r) (auto simp: owned_copy_def)
  qed
qed


section \<open>Properties\<close>

text \<open>C5. Whatever sequence of puts, forgets, redactions and purges runs on a new store, and whichever allocation fails on the
  way, reading a key gives the value of the record put there last, provided it was put successfully, is current and was neither
  forgotten, redacted nor purged since; in every other case it gives an error. The only other error is a refused allocation.\<close>

theorem memory_get_is_last_kept:
  assumes "memory_run strtod ops sc_memory_store_init a = (log, store, a1)"
    and "sc_memory_store_get store ns key a2 = (r, a3)" "\<not> str_is_empty ns" "\<not> str_is_empty key"
  shows "case spec_run log (str_bytes ns, str_bytes key) of
      Some x \<Rightarrow> (if current x then r = Inr (Some (str_bytes (mr_value x))) \<or> r = Inl sc_status_no_memory else \<exists>e. r = Inl e \<and> \<not> sc_status_is_ok e)
    | None \<Rightarrow> \<exists>e. r = Inl e \<and> \<not> sc_status_is_ok e"
  unfolding spec_run_def by (rule get_implements [OF run_implements [OF assms(1) implements_empty] assms(2-4)])

definition demo_record :: "string \<Rightarrow> string \<Rightarrow> nat sc_memory_record" where
  "demo_record key v = memory_record_zero\<lparr>mr_id := Str ''a'', mr_namespace_name := Str ''n'', mr_key := Str key, mr_value := Str v\<rparr>"

definition demo_dev :: urandom where
  "demo_dev = \<lparr>dev_open = False, dev_bytes = [], dev_close = False, dev_errno0 = False\<rparr>"

definition demo_ops :: "nat memory_op list" where
  "demo_ops = [Op_put demo_dev (Some (1, 0)) (demo_record ''k'' ''v''), Op_put demo_dev (Some (2, 0)) (demo_record ''j'' ''w''),
     Op_forget (Str ''n'') (Str ''j'')]"

lemma demo_run:
  "case memory_run (\<lambda>_. None) demo_ops sc_memory_store_init heap0 of (log, store, a1) \<Rightarrow>
     map snd log = [sc_status_ok, sc_status_ok, sc_status_ok] \<and> map me_content (items store) = [Some ''v'', Some ''[REDACTED]'']"
  by code_simp
lemma demo_spec:
  "case memory_run (\<lambda>_. None) demo_ops sc_memory_store_init heap0 of (log, store, a1) \<Rightarrow>
     spec_run log (''n'', ''k'') = Some (demo_record ''k'' ''v'') \<and> spec_run log (''n'', ''j'') = None"
  by code_simp

theorem memory_get_witness:
  "case memory_run (\<lambda>_. None) demo_ops sc_memory_store_init heap0 of (log, store, a1) \<Rightarrow>
     (case sc_memory_store_get store (Str ''n'') (Str ''k'') heap0 of (r, a2) \<Rightarrow> r = Inr (Some ''v'') \<or> r = Inl sc_status_no_memory) \<and>
     (case sc_memory_store_get store (Str ''n'') (Str ''j'') heap0 of (r, a2) \<Rightarrow> \<exists>e. r = Inl e)"
proof -
  obtain log store a1 where run: "memory_run (\<lambda>_. None) demo_ops sc_memory_store_init heap0 = (log, store, a1)"
    by (cases "memory_run (\<lambda>_. None) demo_ops sc_memory_store_init heap0")
  obtain r2 a2 where k: "sc_memory_store_get store (Str ''n'') (Str ''k'') heap0 = (r2, a2)"
    by (cases "sc_memory_store_get store (Str ''n'') (Str ''k'') heap0")
  obtain r3 a3 where j: "sc_memory_store_get store (Str ''n'') (Str ''j'') heap0 = (r3, a3)"
    by (cases "sc_memory_store_get store (Str ''n'') (Str ''j'') heap0")
  have "spec_run log (''n'', ''k'') = Some (demo_record ''k'' ''v'')" "spec_run log (''n'', ''j'') = None"
    using demo_spec run by simp_all
  moreover have "current (demo_record ''k'' ''v'')" by (simp add: current_def demo_record_def memory_record_zero_def)
  ultimately show ?thesis
    using memory_get_is_last_kept [OF run k] memory_get_is_last_kept [OF run j] run k j
    by (auto simp: str_is_empty_def demo_record_def)
qed

text \<open>C12. A search returns copies of exactly the entries that the query matches, the best first, cut to the limits of the query:
  its length is the limit in force and, with a limit on the total size, the longest beginning that fits. A failed search keeps
  no block, a successful one only those of its result.\<close>

theorem memory_search_returns_best:
  fixes store :: "'d::{zero, linorder} sc_memory_store"
  assumes "sc_memory_store_search qsort store query a = (r, a')" "qsort_ok qsort"
  shows "case r of Inl e \<Rightarrow> \<not> sc_status_is_ok e \<and> live a' = live a
    | Inr out \<Rightarrow> result_inv out \<and> live a' = live a + store_blocks out \<and>
        (\<exists>es. mset es = mset (map entry_copy (filter (sc_memory_query_matches_entry query) (items store))) \<and>
           sorted_wrt (\<lambda>x y. sc_memory_entry_compare_desc x y \<le> 0) es \<and> items out = take (kept_results query es) es)"
  by (rule store_search_spec [OF assms])


text \<open>C13. Forgetting or redacting a key erases its content and its metadata, even when the placeholder cannot be allocated;
  the entry stays marked and every other entry stays as it was.\<close>

theorem memory_forget_erases:
  assumes "store_inv store" "\<not> str_is_empty ns" "\<not> str_is_empty key"
    and "sc_memory_store_forget store ns key a = (st, store', a') \<or> sc_memory_store_redact store ns key a = (st, store', a')"
  shows "store_inv store' \<and> dom (store_abs store') = dom (store_abs store) \<and>
    live a' = live a + store_blocks store' - store_blocks store \<and>
    (\<forall>k. k \<noteq> (str_bytes ns, str_bytes key) \<longrightarrow> store_abs store' k = store_abs store k) \<and>
    (\<forall>e. store_abs store' (str_bytes ns, str_bytes key) = Some e \<longrightarrow>
       me_content e \<in> {None, Some ''[REDACTED]''} \<and> me_metadata_json e = None \<and> me_redaction_state e \<noteq> SC_MEMORY_REDACTION_NONE)"
proof -
  from assms(4) obtain state where state: "state \<noteq> SC_MEMORY_REDACTION_NONE" "mark_in_store state store ns key a = (st, store', a')"
    by (auto simp: sc_memory_store_forget_def sc_memory_store_redact_def)
  let ?k = "(str_bytes ns, str_bytes key)"
  from mark_in_store_spec [OF state(2) assms(1)] assms(2,3)
  have s: "store_inv store'" "live a' = live a + store_blocks store' - store_blocks store"
    "store_abs store' = (case store_abs store ?k of None \<Rightarrow> store_abs store
      | Some e \<Rightarrow> (store_abs store)(?k \<mapsto> marked state (if sc_status_is_ok st then Some ''[REDACTED]'' else None) e))" by auto
  show ?thesis
  proof (cases "store_abs store ?k")
    case None
    with s show ?thesis by simp
  next
    case (Some e)
    with s(3) have "store_abs store' = (store_abs store)(?k \<mapsto> marked state (if sc_status_is_ok st then Some ''[REDACTED]'' else None) e)" by simp
    with s(1,2) Some state(1) show ?thesis by (auto simp: marked_def)
  qed
qed

definition demo_store :: "nat sc_memory_store" where
  "demo_store = (case memory_run (\<lambda>_. None) demo_ops sc_memory_store_init heap0 of (log, store, a1) \<Rightarrow> store)"

lemma demo_store_inv: "store_inv demo_store"
  using implementsD(1) [OF run_implements [OF _ implements_empty]]
  by (cases "memory_run (\<lambda>_. None) demo_ops sc_memory_store_init heap0") (simp add: demo_store_def)

lemma demo_search:
  "case sc_memory_store_search insertion_qsort demo_store None heap0 of (r, a') \<Rightarrow> (case r of Inl e \<Rightarrow> False | Inr out \<Rightarrow> map me_key (items out) = [Some ''k''])"
  by code_simp

theorem memory_search_witness:
  "\<exists>out a'. sc_memory_store_search insertion_qsort demo_store None heap0 = (Inr out, a') \<and> map me_key (items out) = [Some ''k''] \<and>
     result_inv out \<and> live a' = live heap0 + store_blocks out \<and>
     (\<exists>es. mset es = mset (map entry_copy (filter (sc_memory_query_matches_entry None) (items demo_store))) \<and>
        sorted_wrt (\<lambda>x y. sc_memory_entry_compare_desc x y \<le> 0) es \<and> items out = take (kept_results None es) es)"
proof -
  obtain r a' where run: "sc_memory_store_search insertion_qsort demo_store None heap0 = (r, a')"
    by (cases "sc_memory_store_search insertion_qsort demo_store None heap0")
  with demo_search obtain out where "r = Inr out" "map me_key (items out) = [Some ''k'']" by (cases r) auto
  with run memory_search_returns_best [OF run insertion_qsort_ok] show ?thesis by simp
qed

theorem memory_forget_witness:
  "case sc_memory_store_forget demo_store (Str ''n'') (Str ''k'') heap0 of (st, store', a') \<Rightarrow>
     \<forall>e. store_abs store' (''n'', ''k'') = Some e \<longrightarrow> me_content e \<in> {None, Some ''[REDACTED]''}"
proof -
  obtain st store' a' where run: "sc_memory_store_forget demo_store (Str ''n'') (Str ''k'') heap0 = (st, store', a')"
    by (cases "sc_memory_store_forget demo_store (Str ''n'') (Str ''k'') heap0")
  have "\<not> str_is_empty (Str ''n'')" "\<not> str_is_empty (Str ''k'')" by (simp_all add: str_is_empty_def)
  from memory_forget_erases [OF demo_store_inv this disjI1, OF run] run show ?thesis by simp
qed

text \<open>C14. An import, whatever the text is, changes at most as many entries as its limit allows, and none when the text is longer
  than its limit. A changed entry comes from a valid record: its key is not reserved, and looks like the name of a secret only
  when secrets are allowed.\<close>

theorem memory_import_bounded:
  assumes "sc_memory_store_import_snapshot strtod int_of draws snapshot options (store, n) a = (st, a', store', n')" "store_inv store"
  shows "store_inv store' \<and> finite {k. store_abs store' k \<noteq> store_abs store k} \<and>
    card {k. store_abs store' k \<noteq> store_abs store k} \<le> import_max_records options \<and>
    (\<forall>k. store_abs store' k \<noteq> store_abs store k \<longrightarrow> str_len snapshot \<le> import_max_bytes options \<and>
       (import_allows_secrets options \<or> \<not> key_looks_secret (Str (snd k))) \<and> \<not> sc_memory_key_is_reserved (Str (snd k)) \<and>
       (\<exists>e. store_abs store' k = Some e \<and> redaction_state_valid (me_redaction_state e)))"
proof -
  note spec = store_import.import_snapshot_spec [OF assms(1) [unfolded sc_memory_store_import_snapshot_def], simplified, OF assms(2)]
  have ch: "store_import.changed (store, n) (store', n') = {k. store_abs store' k \<noteq> store_abs store k}"
    by (simp add: store_import.changed_def)
  have "str_len snapshot \<le> import_max_bytes options \<and>
       (import_allows_secrets options \<or> \<not> key_looks_secret (Str (snd k))) \<and> \<not> sc_memory_key_is_reserved (Str (snd k)) \<and>
       (\<exists>e. store_abs store' k = Some e \<and> redaction_state_valid (me_redaction_state e))"
    if "store_abs store' k \<noteq> store_abs store k" for k
  proof -
    from that ch have k: "k \<in> store_import.changed (store, n) (store', n')" by simp
    with spec obtain vs where "store_import.imported int_of (import_allows_secrets options) vs (store', n') k" by blast
    from store_import.imported_allowed [OF this] spec k show ?thesis by auto
  qed
  then show ?thesis using spec unfolding ch by blast
qed

definition demo_snapshot :: string where
  "demo_snapshot = ''[{\"namespace\":\"n\",\"key\":\"k\",\"content\":\"w\"},{\"namespace\":\"n\",\"key\":\"api_key\",\"content\":\"s\"}]''"

definition demo_strtod_memory :: "string \<Rightarrow> nat option" where
  "demo_strtod_memory t = Some (nat (digits_value 0 t))"

theorem memory_import_witness:
  "case sc_memory_store_import_snapshot demo_strtod_memory int (\<lambda>_. (demo_dev, Some (1, 0))) (Str demo_snapshot) None (sc_memory_store_init, 0) heap0 of
     (st, a', store', n') \<Rightarrow> store_inv store' \<and> store_abs store' (''n'', ''api_key'') = None"
proof -
  obtain st a' store' n' where run: "sc_memory_store_import_snapshot demo_strtod_memory int (\<lambda>_. (demo_dev, Some (1, 0))) (Str demo_snapshot) None
      (sc_memory_store_init, 0) heap0 = (st, a', store', n')"
    by (metis prod.exhaust)
  have secret: "key_looks_secret (Str ''api_key'')" "\<not> import_allows_secrets None" by code_simp+
  have "store_abs store' (''n'', ''api_key'') = store_abs sc_memory_store_init (''n'', ''api_key'')"
  proof (rule ccontr)
    assume other: "\<not> ?thesis"
    from memory_import_bounded [OF run store_inv_init(1)] have "\<forall>k. store_abs store' k \<noteq> store_abs sc_memory_store_init k \<longrightarrow>
        import_allows_secrets None \<or> \<not> key_looks_secret (Str (snd k))" by blast
    from spec [OF this, of "(''n'', ''api_key'')"] other secret show False by simp
  qed
  then show ?thesis using run memory_import_bounded [OF run store_inv_init(1)] by simp
qed

text \<open>An exported snapshot is the text of a JSON array with one object for each entry found, in the order of the search; an
  export that fails keeps no block, and one that succeeds only the text.\<close>

theorem memory_export_is_document:
  fixes store :: "'d::{zero, linorder} sc_memory_store"
  assumes "sc_memory_store_export_snapshot qsort store query options a = (r, a')" "qsort_ok qsort" "\<And>n. f (number n) = dec_int n"
  shows "case r of Inl e \<Rightarrow> \<not> sc_status_is_ok e \<and> live a' = live a
    | Inr t \<Rightarrow> live a' = live a + 1 \<and>
        (\<exists>es. mset es = mset (map entry_copy (filter (sc_memory_query_matches_entry query) (items store))) \<and>
           sorted_wrt (\<lambda>x y. sc_memory_entry_compare_desc x y \<le> 0) es \<and>
           t = Some (json_text f (JArray (map (entry_doc number (exports_raw options)) (take (kept_results query es) es)))))"
proof -
  obtain r1 a1 where search: "sc_memory_store_search qsort store query a = (r1, a1)" by (cases "sc_memory_store_search qsort store query a")
  note s = store_search_spec [OF search assms(2)]
  show ?thesis
  proof (cases r1)
    case (Inl e)
    with s search assms(1) show ?thesis by (auto simp: sc_memory_store_export_snapshot_def)
  next
    case (Inr found)
    obtain r2 a2 where print: "snapshot_text options (items found) a1 = (r2, a2)" by (cases "snapshot_text options (items found) a1")
    have out: "r = r2" "a' = sc_memory_result_clear found a2"
      using assms(1) search Inr print by (simp_all add: sc_memory_store_export_snapshot_def)
    have p: "case r2 of Inl e \<Rightarrow> \<not> sc_status_is_ok e \<and> live a2 = live a1
        | Inr t \<Rightarrow> t = Some (json_text f (JArray (map (entry_doc number (exports_raw options)) (items found)))) \<and> live a2 = live a1 + 1"
      by (rule snapshot_text_spec [OF print]) (rule assms(3))
    from s Inr have found: "result_inv found" "live a1 = live a + store_blocks found" by simp_all
    have live: "live a' = live a2 - store_blocks found" unfolding out(2) by (rule memory_result_clear_live [OF found(1)])
    from s Inr obtain es where "mset es = mset (map entry_copy (filter (sc_memory_query_matches_entry query) (items store)))"
      "sorted_wrt (\<lambda>x y. sc_memory_entry_compare_desc x y \<le> 0) es" "items found = take (kept_results query es) es" by auto
    with p live found(2) show ?thesis unfolding out(1) by (cases r2) auto
  qed
qed

theorem memory_export_witness:
  "case sc_memory_store_export_snapshot insertion_qsort (sc_memory_store_init :: int sc_memory_store) None None heap0 of (r, a') \<Rightarrow>
     (case r of Inl e \<Rightarrow> \<not> sc_status_is_ok e \<and> live a' = live heap0 | Inr t \<Rightarrow> live a' = live heap0 + 1 \<and> t = Some ''[]'')"
proof -
  obtain r a' where run: "sc_memory_store_export_snapshot insertion_qsort (sc_memory_store_init :: int sc_memory_store) None None heap0 = (r, a')"
    by (cases "sc_memory_store_export_snapshot insertion_qsort (sc_memory_store_init :: int sc_memory_store) None None heap0")
  have "items (sc_memory_store_init :: int sc_memory_store) = []" by (simp add: sc_memory_store_init_def sc_vec_init_def)
  with memory_export_is_document [where f = dec_int and number = "\<lambda>n. n", OF run insertion_qsort_ok] run
  show ?thesis by (auto split: sum.splits)
qed







end
