(* ===== verification/SC_Agent.thy ===== *)
theory SC_Agent
  imports SC_Tool_Loop SC_History SC_Snapshot SC_File_Tools
begin

text \<open>
  The agent of \<^verbatim>\<open>src/runtime/agent.c\<close> around the tool loop: its options, its histories, one for turns without a session and one
  for each session, the memory it reads before and writes after a turn, the prompt it builds, and the whole of a synchronous
  turn. \<open>sc_agent\<close> of \<^verbatim>\<open>SC_Tool_Loop\<close> is the part of the struct that the loop looks at; \<open>agent\<close> is all of it, without the flags
  of streaming turns. The scratch arena and the caller's allocator are one allocator, as there.

  \<^verbatim>\<open>gmtime_r\<close> and the random session key of the receipt chain are arguments.
\<close>

section \<open>The agent\<close>

record agent_session_history =
  sh_session_id :: sc_string
  sh_history :: sc_history

definition SIZEOF_SESSION_HISTORY :: nat where
  "SIZEOF_SESSION_HISTORY = 80"

definition SIZEOF_POINTER :: nat where
  "SIZEOF_POINTER = 8"

definition SIZEOF_AGENT :: nat where
  "SIZEOF_AGENT = 408"

record ('d, 'w) agent =
  gn_provider :: "('d, 'w, unit) sc_provider option"
  gn_memory :: "('d, 'w) sc_memory option"
  gn_observer :: "(sc_str \<Rightarrow> sc_str \<Rightarrow> 'w \<Rightarrow> sc_status \<times> 'w) option"
  gn_policy :: "sc_security_policy option"
  gn_tools :: "('d, 'w) sc_tool option sc_vec"
  gn_history :: sc_history
  gn_session_histories :: "agent_session_history sc_vec"
  gn_model :: sc_string
  gn_identity :: sc_string
  gn_workspace :: sc_string
  gn_runtime_environment :: sc_string
  gn_memory_namespace :: sc_string
  gn_turn_namespace :: sc_string
  gn_cached_tool_specs_json :: sc_string
  gn_cached_tool_specs_tool_count :: nat
  gn_max_memory_entries :: nat
  gn_max_prompt_bytes :: nat
  gn_max_tool_iterations :: nat
  gn_max_tool_output_bytes :: nat
  gn_turn_counter :: nat
  gn_include_wall_time :: bool
  gn_default_timeout_ms :: nat

record ('d, 'w) sc_agent_options =
  op_provider :: "('d, 'w, unit) sc_provider option"
  op_memory :: "('d, 'w) sc_memory option"
  op_tools :: "('d, 'w) sc_tool option list"
  op_observer :: "(sc_str \<Rightarrow> sc_str \<Rightarrow> 'w \<Rightarrow> sc_status \<times> 'w) option"
  op_policy :: "sc_security_policy option"
  op_model :: sc_str
  op_identity :: sc_str
  op_workspace :: sc_str
  op_runtime_environment :: sc_str
  op_memory_namespace :: sc_str
  op_turn_namespace :: sc_str
  op_max_history_messages :: nat
  op_max_memory_entries :: nat
  op_max_prompt_bytes :: nat
  op_max_tool_iterations :: nat
  op_max_tool_output_bytes :: nat
  op_deterministic_prompts :: bool
  op_include_wall_time :: bool
  op_default_timeout_ms :: nat

text \<open>What the tool loop sees of the agent.\<close>

definition loop_view :: "('d, 'w) agent \<Rightarrow> ('d, 'w) sc_agent" where
  "loop_view g =
     \<lparr>sa_provider = gn_provider g, sa_observer = gn_observer g, sa_policy = gn_policy g, sa_tools = items (gn_tools g),
      sa_model = gn_model g, sa_identity = gn_identity g, sa_max_tool_iterations = gn_max_tool_iterations g,
      sa_max_tool_output_bytes = gn_max_tool_output_bytes g\<rparr>"

definition or_default :: "nat \<Rightarrow> nat \<Rightarrow> nat" where
  "or_default given fallback = (if given = 0 then fallback else given)"

definition copy_option_string :: "sc_str \<Rightarrow> string \<Rightarrow> sc_allocator \<Rightarrow> sc_string res \<times> sc_allocator" where
  "copy_option_string v fallback a = sc_string_from_str (if ptr_null v \<or> str_len v = 0 then Str fallback else v) a"

fun agent_copy_tools :: "('d, 'w) sc_tool option list \<Rightarrow> ('d, 'w) agent \<Rightarrow> sc_allocator \<Rightarrow> ('d, 'w) agent fill_state" where
  "agent_copy_tools [] g a = (sc_status_ok, g, a)"
| "agent_copy_tools (None # ts) g a = (sc_status_invalid_argument ''sc.agent.tools.null_tool'', g, a)"
| "agent_copy_tools (Some t # ts) g a =
     (case sc_vec_push (gn_tools g) (Some (Some t)) a of
        (st, v, a1) \<Rightarrow> (if sc_status_is_ok st then agent_copy_tools ts (g\<lparr>gn_tools := v\<rparr>) a1 else (st, g\<lparr>gn_tools := v\<rparr>, a1)))"

definition agent_session_history_clear :: "agent_session_history \<Rightarrow> sc_allocator \<Rightarrow> sc_allocator" where
  "agent_session_history_clear s a = sc_history_clear (sh_history s) (sc_string_clear (sh_session_id s) a)"

definition agent_strings :: "('d, 'w) agent \<Rightarrow> sc_string list" where
  "agent_strings g = [gn_model g, gn_identity g, gn_workspace g, gn_runtime_environment g, gn_memory_namespace g, gn_turn_namespace g,
     gn_cached_tool_specs_json g]"

definition sc_agent_destroy :: "('d, 'w) agent \<Rightarrow> sc_allocator \<Rightarrow> sc_allocator" where
  "sc_agent_destroy g a =
     (let a1 = sc_history_clear (gn_history g) (snd (sc_vec_clear (gn_tools g) a));
          a2 = snd (sc_vec_clear (gn_session_histories g) (clear_each agent_session_history_clear (items (gn_session_histories g)) a1)) in
      sc_free True (clear_each sc_string_clear (agent_strings g) a2))"

definition agent_zero :: "('d, 'w) sc_agent_options \<Rightarrow> ('d, 'w) agent" where
  "agent_zero options =
     \<lparr>gn_provider = op_provider options, gn_memory = op_memory options, gn_observer = op_observer options, gn_policy = op_policy options,
      gn_tools = sc_vec_init SIZEOF_POINTER, gn_history = sc_history_init (or_default (op_max_history_messages options) 16),
      gn_session_histories = sc_vec_init SIZEOF_SESSION_HISTORY, gn_model = None, gn_identity = None, gn_workspace = None,
      gn_runtime_environment = None, gn_memory_namespace = None, gn_turn_namespace = None, gn_cached_tool_specs_json = None,
      gn_cached_tool_specs_tool_count = 0, gn_max_memory_entries = or_default (op_max_memory_entries options) 4,
      gn_max_prompt_bytes = or_default (op_max_prompt_bytes options) 16384,
      gn_max_tool_iterations = or_default (op_max_tool_iterations options) 4,
      gn_max_tool_output_bytes = or_default (op_max_tool_output_bytes options) 4096, gn_turn_counter = 0,
      gn_include_wall_time = (op_include_wall_time options \<and> \<not> op_deterministic_prompts options),
      gn_default_timeout_ms = op_default_timeout_ms options\<rparr>"

definition agent_strings_step :: "('d, 'w) sc_agent_options \<Rightarrow> ('d, 'w) agent \<Rightarrow> sc_allocator \<Rightarrow> ('d, 'w) agent fill_state" where
  "agent_strings_step options g a =
     fill (\<lambda>_. copy_option_string (op_turn_namespace options) ''smolclaw.turns'') (\<lambda>s q. q\<lparr>gn_turn_namespace := s\<rparr>)
     (fill (\<lambda>_. copy_option_string (op_memory_namespace options) ''smolclaw.memory'') (\<lambda>s q. q\<lparr>gn_memory_namespace := s\<rparr>)
     (fill (\<lambda>_. copy_option_string (op_runtime_environment options) ''smolclaw-runtime'') (\<lambda>s q. q\<lparr>gn_runtime_environment := s\<rparr>)
     (fill (\<lambda>_. copy_option_string (op_workspace options) '''') (\<lambda>s q. q\<lparr>gn_workspace := s\<rparr>)
     (fill (\<lambda>_. copy_option_string (op_identity options) ''SmolClaw agent'') (\<lambda>s q. q\<lparr>gn_identity := s\<rparr>)
     (fill (\<lambda>_. copy_option_string (op_model options) ''mock-model'') (\<lambda>s q. q\<lparr>gn_model := s\<rparr>)
       (sc_status_ok, g, a))))))"

definition sc_agent_new :: "('d, 'w) sc_agent_options \<Rightarrow> sc_allocator \<Rightarrow> ('d, 'w) agent res \<times> sc_allocator" where
  "sc_agent_new options a =
     (if op_provider options = None then (Inl (sc_status_invalid_argument ''sc.agent.invalid_argument''), a)
      else (case sc_alloc SIZEOF_AGENT a of
              (False, a1) \<Rightarrow> (Inl sc_status_no_memory, a1)
            | (True, a1) \<Rightarrow>
                (case agent_strings_step options (agent_zero options) a1 of
                   (st, g, a2) \<Rightarrow>
                     (case (if sc_status_is_ok st then agent_copy_tools (op_tools options) g a2 else (st, g, a2)) of
                        (st2, g2, a3) \<Rightarrow> (if sc_status_is_ok st2 then (Inr g2, a3) else (Inl st2, sc_agent_destroy g2 a3))))))"

section \<open>Histories\<close>

text \<open>Where the history of a turn is: the agent's own, or one of the vector of sessions.\<close>

datatype history_ref = Own_history | Session_history nat

definition history_at :: "('d, 'w) agent \<Rightarrow> history_ref \<Rightarrow> sc_history" where
  "history_at g h = (case h of Own_history \<Rightarrow> gn_history g | Session_history i \<Rightarrow> sh_history (items (gn_session_histories g) ! i))"

definition set_history :: "history_ref \<Rightarrow> sc_history \<Rightarrow> ('d, 'w) agent \<Rightarrow> ('d, 'w) agent" where
  "set_history h x g =
     (case h of
        Own_history \<Rightarrow> g\<lparr>gn_history := x\<rparr>
      | Session_history i \<Rightarrow>
          g\<lparr>gn_session_histories := (gn_session_histories g)
              \<lparr>items := (items (gn_session_histories g))[i := (items (gn_session_histories g) ! i)\<lparr>sh_history := x\<rparr>]\<rparr>\<rparr>)"

definition agent_history_for_session ::
    "('d, 'w) agent \<Rightarrow> sc_str \<Rightarrow> sc_allocator \<Rightarrow> history_ref res \<times> ('d, 'w) agent \<times> sc_allocator" where
  "agent_history_for_session g session a =
     (if ptr_null session \<or> str_len session = 0 then (Inl (sc_status_invalid_argument ''sc.agent.history.invalid_argument''), g, a)
      else (case find_first (\<lambda>i. sc_str_equal (sc_string_as_str (sh_session_id (items (gn_session_histories g) ! i))) session)
                   [0 ..< length (items (gn_session_histories g))] of
              Some i \<Rightarrow> (Inr (Session_history i), g, a)
            | None \<Rightarrow>
                (case push_filled agent_session_history_clear (gn_session_histories g)
                        (fill (\<lambda>_. sc_string_from_str session) (\<lambda>s q. q\<lparr>sh_session_id := s, sh_history := sc_history_init (max_messages (gn_history g))\<rparr>)
                          (sc_status_ok, \<lparr>sh_session_id = None, sh_history = sc_history_init 0\<rparr>, a)) of
                   (st, v, a1) \<Rightarrow>
                     (if sc_status_is_ok st
                      then (Inr (Session_history (length (items (gn_session_histories g)))), g\<lparr>gn_session_histories := v\<rparr>, a1)
                      else (Inl st, g\<lparr>gn_session_histories := v\<rparr>, a1)))))"

definition agent_history_for_turn ::
    "('d, 'w) agent \<Rightarrow> sc_str \<Rightarrow> sc_allocator \<Rightarrow> history_ref res \<times> ('d, 'w) agent \<times> sc_allocator" where
  "agent_history_for_turn g session a =
     (if str_len (empty_if_null session) = 0 then (Inr Own_history, g, a) else agent_history_for_session g (empty_if_null session) a)"

definition sc_agent_history_len :: "('d, 'w) agent option \<Rightarrow> nat" where
  "sc_agent_history_len g =
     (case g of
        None \<Rightarrow> 0
      | Some g \<Rightarrow> foldl (\<lambda>n s. size_add_saturating n (length (items (messages (sh_history s))))) (length (items (messages (gn_history g))))
          (items (gn_session_histories g)))"

section \<open>A turn\<close>

record sc_model_switch_request =
  ms_provider_name :: sc_str
  ms_model :: sc_str
  ms_reason :: sc_str

text \<open>\<open>sc_turn\<close> of \<^verbatim>\<open>SC_Turn\<close> is what the tool loop reads of the turn, \<open>turn_input\<close> the rest.\<close>

record turn_input =
  ti_input :: sc_str
  ti_session_id :: sc_str
  ti_model_switch :: "sc_model_switch_request option"
  ti_timeout_ms :: nat

text \<open>The agent, the result, and the locals of \<^verbatim>\<open>sc_agent_process_message\<close>.\<close>

record ('d, 'w) turn_state =
  tu_agent :: "('d, 'w) agent"
  tu_out :: "'d sc_agent_turn_result"
  tu_alloc :: sc_allocator
  tu_world :: 'w
  tu_history :: history_ref
  tu_memory_context :: sc_string
  tu_prompt :: sc_string

type_synonym ('d, 'w) turn_step = "('d, 'w) turn_state \<Rightarrow> sc_status \<times> ('d, 'w) turn_state"

text \<open>What stays the same during a turn.\<close>

record ('d, 'w) turn_env =
  tv_runtime :: "'w runtime_env"
  tv_gmtime :: "int \<Rightarrow> tm option"
  tv_strtod :: "string \<Rightarrow> 'd option"
  tv_fmt :: "'d \<Rightarrow> string option"
  tv_turn :: "('d, 'w) sc_turn"
  tv_input :: turn_input
  tv_deadline_ns :: int

definition tell :: "('d, 'w) turn_env \<Rightarrow> sc_turn_event_type \<Rightarrow> sc_str \<Rightarrow> sc_str \<Rightarrow> sc_status_code \<Rightarrow> ('d, 'w) turn_step" where
  "tell v ty name msg st_code s =
     (case turn_add_event (tv_turn v) (tu_out s) ty name msg st_code (tu_alloc s) (tu_world s) of
        (st, out, a, w) \<Rightarrow> (st, s\<lparr>tu_out := out, tu_alloc := a, tu_world := w\<rparr>))"

definition observe :: "string \<Rightarrow> sc_str \<Rightarrow> ('d, 'w) turn_step" where
  "observe name status_text s =
     (case agent_emit_observer (loop_view (tu_agent s)) (Str name) status_text (tu_world s) of (st, w) \<Rightarrow> (st, s\<lparr>tu_world := w\<rparr>))"

definition check_step :: "('d, 'w) turn_env \<Rightarrow> ('d, 'w) turn_step" where
  "check_step v s =
     (case turn_check_continue (rt_monotonic (tv_runtime v)) (tv_turn v) (tv_deadline_ns v) (tu_world s) of (st, w) \<Rightarrow> (st, s\<lparr>tu_world := w\<rparr>))"


section \<open>Memory\<close>

fun memory_lines :: "'d sc_memory_entry list \<Rightarrow> sc_string_builder \<Rightarrow> sc_allocator \<Rightarrow> sc_status \<times> sc_string_builder \<times> sc_allocator" where
  "memory_lines [] b a = (sc_status_ok, b, a)"
| "memory_lines (e # es) b a =
     (if sc_memory_key_is_reserved (sc_string_as_str (me_key e)) then memory_lines es b a
      else (case append_line b (sc_string_as_str (me_key e)) (sc_string_as_str (me_content e)) a of
              (st, b1, a1) \<Rightarrow> (if sc_status_is_ok st then memory_lines es b1 a1 else (st, b1, a1))))"

definition memory_query :: "('d, 'w) agent \<Rightarrow> turn_input \<Rightarrow> sc_memory_query" where
  "memory_query g i = memory_query_zero\<lparr>mq_namespace_name := sc_string_as_str (gn_memory_namespace g),
     mq_session_id := empty_if_null (ti_session_id i), mq_query := empty_if_null (ti_input i), mq_limit := gn_max_memory_entries g\<rparr>"

definition load_memory_context ::
    "('d, 'w) agent \<Rightarrow> ('d, 'w) sc_turn \<Rightarrow> turn_input \<Rightarrow> sc_allocator \<Rightarrow> 'w \<Rightarrow> sc_string res \<times> sc_allocator \<times> 'w" where
  "load_memory_context g turn i a w =
     (if gn_memory g = None \<or> turn_memory_disabled turn
      then (case sc_string_from_cstr (Some '''') a of (r, a1) \<Rightarrow> (r, a1, w))
      else (case sc_memory_search (gn_memory g) w (Some (memory_query g i)) a of
              (Inl e, a1, w1) \<Rightarrow> (Inl e, a1, w1)
            | (Inr found, a1, w1) \<Rightarrow>
                (case memory_lines (items found) sc_string_builder_init a1 of
                   (st, b, a2) \<Rightarrow>
                     (if sc_status_is_ok st
                      then (case sc_string_builder_finish b of
                              (t, b1) \<Rightarrow> (Inr t, sc_memory_result_clear found (snd (sc_string_builder_clear b1 a2)), w1))
                      else (Inl st, sc_memory_result_clear found (snd (sc_string_builder_clear b a2)), w1)))))"

definition memory_context_step :: "('d, 'w) turn_env \<Rightarrow> ('d, 'w) turn_step" where
  "memory_context_step v s =
     (case load_memory_context (tu_agent s) (tv_turn v) (tv_input v) (tu_alloc s) (tu_world s) of
        (Inl e, a, w) \<Rightarrow> (e, s\<lparr>tu_alloc := a, tu_world := w\<rparr>)
      | (Inr t, a, w) \<Rightarrow> (sc_status_ok, s\<lparr>tu_memory_context := t, tu_alloc := a, tu_world := w\<rparr>))"

text \<open>The number of the turn wraps at 64 bits; the buffer of 64 bytes always holds the key.\<close>

definition turn_record :: "('d::{zero, one}, 'w) agent \<Rightarrow> turn_input \<Rightarrow> sc_string \<Rightarrow> 'd sc_memory_record" where
  "turn_record g i content =
     memory_record_zero\<lparr>mr_namespace_name := sc_string_as_str (gn_turn_namespace g), mr_session_id := empty_if_null (ti_session_id i),
       mr_category := Str ''turn'', mr_key := Str (''turn-'' @ dec (gn_turn_counter g)), mr_value := sc_string_as_str content,
       mr_score := 1, mr_importance := 1\<rparr>"

definition persist_turn :: "('d::{zero, one}, 'w) turn_env \<Rightarrow> ('d, 'w) turn_step" where
  "persist_turn v s =
     (if gn_memory (tu_agent s) = None \<or> turn_memory_disabled (tv_turn v) then (sc_status_ok, s)
      else (let g = (tu_agent s)\<lparr>gn_turn_counter := (gn_turn_counter (tu_agent s) + 1) mod 2 ^ 64\<rparr>; i = tv_input v in
            (case append_line sc_string_builder_init (Str ''user'') (ti_input i) (tu_alloc s) of
               (st0, b0, a0) \<Rightarrow>
                 (case (if sc_status_is_ok st0 then append_line b0 (Str ''assistant'') (sc_string_as_str (ar_output (tu_out s))) a0 else (st0, b0, a0)) of
                    (st, b, a1) \<Rightarrow>
                      (if \<not> sc_status_is_ok st then (st, s\<lparr>tu_agent := g, tu_alloc := snd (sc_string_builder_clear b a1)\<rparr>)
                       else (case sc_string_builder_finish b of
                               (content, b1) \<Rightarrow>
                                 (case sc_memory_put (gn_memory g) (tu_world s) (turn_record g i content) a1 of
                                    (st2, a2, w) \<Rightarrow>
                                      (st2, s\<lparr>tu_agent := g, tu_alloc := snd (sc_string_builder_clear b1 (sc_string_clear content a2)),
                                         tu_world := w\<rparr>))))))))"

section \<open>The model\<close>

definition switch_text :: "sc_model_switch_request \<Rightarrow> sc_string \<Rightarrow> sc_str list" where
  "switch_text rq model = [sc_string_as_str model] @
     (if str_len (ms_provider_name rq) > 0 then [Str '' provider='', ms_provider_name rq] else []) @
     (if str_len (ms_reason rq) > 0 then [Str '' reason='', ms_reason rq] else [])"

definition apply_model_switch :: "('d, 'w) turn_env \<Rightarrow> ('d, 'w) turn_step" where
  "apply_model_switch v s =
     (case ti_model_switch (tv_input v) of
        None \<Rightarrow> (sc_status_ok, s)
      | Some rq \<Rightarrow>
          (if ptr_null (ms_model rq) \<or> str_len (ms_model rq) = 0 then (sc_status_ok, s)
           else (case sc_string_from_str (ms_model rq) (tu_alloc s) of
                   (Inl e, a1) \<Rightarrow> (e, s\<lparr>tu_alloc := a1\<rparr>)
                 | (Inr m, a1) \<Rightarrow>
                     (let s1 = s\<lparr>tu_agent := (tu_agent s)\<lparr>gn_model := m\<rparr>, tu_out := (tu_out s)\<lparr>ar_model_switched := True\<rparr>\<rparr> in
                      (case sc_string_from_str (sc_string_as_str m) (sc_string_clear (gn_model (tu_agent s)) a1) of
                         (Inl e, a2) \<Rightarrow> (e, s1\<lparr>tu_alloc := a2\<rparr>)
                       | (Inr am, a2) \<Rightarrow>
                           (let s2 = s1\<lparr>tu_out := (tu_out s1)\<lparr>ar_active_model := am\<rparr>\<rparr> in
                            (case build_string (switch_text rq m) a2 of
                               (Inl e, a3) \<Rightarrow> (e, s2\<lparr>tu_alloc := a3\<rparr>)
                             | (Inr t, a3) \<Rightarrow>
                                 (case tell v SC_TURN_EVENT_MODEL_SWITCHED (Str ''model'') (sc_string_as_str t) SC_OK (s2\<lparr>tu_alloc := a3\<rparr>) of
                                    (st, s3) \<Rightarrow> (st, s3\<lparr>tu_alloc := sc_string_clear t (tu_alloc s3)\<rparr>)))))))))"

section \<open>The prompt\<close>

definition rfc3339_text :: "tm \<Rightarrow> string" where
  "rfc3339_text t =
     dec_pad 4 (tm_year t + 1900) @ ''-'' @ dec_pad 2 (tm_mon t + 1) @ ''-'' @ dec_pad 2 (tm_mday t) @ ''T'' @
     dec_pad 2 (tm_hour t) @ '':'' @ dec_pad 2 (tm_min t) @ '':'' @ dec_pad 2 (tm_sec t) @ ''Z''"

definition sc_time_format_rfc3339 :: "(int \<Rightarrow> tm option) \<Rightarrow> int \<Rightarrow> sc_allocator \<Rightarrow> sc_string res \<times> sc_allocator" where
  "sc_time_format_rfc3339 gmtime now a =
     (case gmtime (div_trunc now 1000000000) of
        None \<Rightarrow> (Inl (sc_status_io ''sc.time.rfc3339_failed''), a)
      | Some t \<Rightarrow>
          (if length (rfc3339_text t) \<ge> 21 then (Inl (sc_status_io ''sc.time.rfc3339_failed''), a)
           else sc_string_from_cstr (Some (rfc3339_text t)) a))"

record 'w prompt_state =
  ps_builder :: sc_prompt_builder
  ps_cache :: "sc_string \<times> nat"
  ps_alloc :: sc_allocator
  ps_world :: 'w

definition section_step :: "string \<Rightarrow> sc_str \<Rightarrow> 'w prompt_state \<Rightarrow> sc_status \<times> 'w prompt_state" where
  "section_step title body p =
     (case sc_prompt_builder_append_section (ps_builder p) (Str title) body (ps_alloc p) of
        (st, b, a) \<Rightarrow> (st, p\<lparr>ps_builder := b, ps_alloc := a\<rparr>))"

definition append_date_time_section :: "('d, 'w) turn_env \<Rightarrow> 'w prompt_state \<Rightarrow> sc_status \<times> 'w prompt_state" where
  "append_date_time_section v p =
     (case rt_wall (tv_runtime v) (ps_world p) of
        (ts, w) \<Rightarrow>
          (case sc_clock_wall ts of
             Inl e \<Rightarrow> (e, p\<lparr>ps_world := w\<rparr>)
           | Inr now \<Rightarrow>
               (case sc_time_format_rfc3339 (tv_gmtime v) now (ps_alloc p) of
                  (Inl e, a) \<Rightarrow> (e, p\<lparr>ps_world := w, ps_alloc := a\<rparr>)
                | (Inr t, a) \<Rightarrow>
                    (case section_step ''Date and time'' (sc_string_as_str t) (p\<lparr>ps_world := w, ps_alloc := a\<rparr>) of
                       (st, p1) \<Rightarrow> (st, p1\<lparr>ps_alloc := sc_string_clear t (ps_alloc p1)\<rparr>)))))"

definition append_tool_specs_section ::
    "('d, 'w) turn_env \<Rightarrow> ('d, 'w) sc_tool option list \<Rightarrow> 'w prompt_state \<Rightarrow> sc_status \<times> 'w prompt_state" where
  "append_tool_specs_section v tools p =
     (case tool_specs_json_for_turn (tv_fmt v) tools (tv_turn v) (ps_cache p) (ps_alloc p) of
        (r, owned, cache, a) \<Rightarrow>
          (let p1 = p\<lparr>ps_cache := cache, ps_alloc := a\<rparr> in
           (case (case r of Inl e \<Rightarrow> (e, p1) | Inr specs_json \<Rightarrow> section_step ''Tools'' specs_json p1) of
              (st, p2) \<Rightarrow> (st, p2\<lparr>ps_alloc := sc_string_clear owned (ps_alloc p2)\<rparr>))))"

definition history_section :: "sc_history \<Rightarrow> 'w prompt_state \<Rightarrow> sc_status \<times> 'w prompt_state" where
  "history_section h p =
     (case sc_history_append_to_prompt h (ps_builder p) (ps_alloc p) of (st, b, a) \<Rightarrow> (st, p\<lparr>ps_builder := b, ps_alloc := a\<rparr>))"

definition prompt_workspace :: "('d, 'w) agent \<Rightarrow> sc_str" where
  "prompt_workspace g =
     (if string_len (gn_workspace g) > 0 then sc_string_as_str (gn_workspace g)
      else (case gn_policy g of None \<Rightarrow> Str '''' | Some p \<Rightarrow> sc_string_as_str (workspace_root p)))"

definition prompt_receipts :: "('d, 'w) agent \<Rightarrow> bool" where
  "prompt_receipts g \<longleftrightarrow> (case gn_policy g of None \<Rightarrow> False | Some p \<Rightarrow> receipts_enabled p \<and> receipts_inject_system_prompt p)"

definition prompt_sections ::
    "('d, 'w) turn_env \<Rightarrow> ('d, 'w) agent \<Rightarrow> sc_history \<Rightarrow> sc_str \<Rightarrow> ('w prompt_state \<Rightarrow> sc_status \<times> 'w prompt_state) list" where
  "prompt_sections v g h memory_context =
     [section_step ''Identity'' (sc_string_as_str (gn_identity g)),
      section_step ''Safety and autonomy'' (Str ''Follow security policy, approvals, and emergency stop state.''),
      section_step ''Tool honesty'' (Str ''Only claim tool results that are present in the turn context.''),
      step_if (prompt_receipts g)
        (section_step ''Tool receipts'' (Str ''Use tool results, but do not include receipt tokens in user-visible responses.'')),
      section_step ''Workspace'' (prompt_workspace g),
      section_step ''Runtime environment'' (sc_string_as_str (gn_runtime_environment g)),
      section_step ''Memory context'' memory_context,
      section_step ''Skills'' (Str ''No skills loaded.''),
      section_step ''Channel and media'' (Str ''Text channel only.''),
      step_if (gn_include_wall_time g) (append_date_time_section v),
      append_tool_specs_section v (items (gn_tools g)),
      history_section h,
      section_step ''User message'' (ti_input (tv_input v))]"

definition build_prompt :: "('d, 'w) turn_env \<Rightarrow> ('d, 'w) turn_step" where
  "build_prompt v s =
     (let g = tu_agent s in
      (case run_steps (prompt_sections v g (history_at g (tu_history s)) (sc_string_as_str (tu_memory_context s)))
              (sc_status_ok, \<lparr>ps_builder = sc_prompt_builder_init (gn_max_prompt_bytes g),
                 ps_cache = (gn_cached_tool_specs_json g, gn_cached_tool_specs_tool_count g), ps_alloc = tu_alloc s, ps_world = tu_world s\<rparr>) of
         (st, p) \<Rightarrow>
           (let s1 = s\<lparr>tu_agent := g\<lparr>gn_cached_tool_specs_json := fst (ps_cache p), gn_cached_tool_specs_tool_count := snd (ps_cache p)\<rparr>,
                  tu_world := ps_world p\<rparr> in
            (if sc_status_is_ok st
             then (case sc_prompt_builder_finish (ps_builder p) of
                     (t, b) \<Rightarrow> (sc_status_ok, s1\<lparr>tu_prompt := t, tu_alloc := sc_prompt_builder_clear b (ps_alloc p)\<rparr>))
             else (st, s1\<lparr>tu_alloc := sc_prompt_builder_clear (ps_builder p) (ps_alloc p)\<rparr>)))))"

definition agent_history_prompt_budget :: "('d, 'w) agent \<Rightarrow> ('d, 'w) sc_turn \<Rightarrow> turn_input \<Rightarrow> sc_str \<Rightarrow> nat" where
  "agent_history_prompt_budget g turn i memory_context =
     (let cached = string_len (gn_cached_tool_specs_json g);
          tool_budget = (if cached \<noteq> 0 then cached
                         else if length (items (gn_tools g)) * 384 > SIZE_MAX then SIZE_MAX else length (items (gn_tools g)) * 384);
          reserved = foldl size_add_saturating 1024
            [string_len (gn_identity g), string_len (gn_workspace g), string_len (gn_runtime_environment g), tool_budget,
             str_len (empty_if_null (ti_input i)), str_len (empty_if_null (tn_media_context turn)), str_len (empty_if_null memory_context)] in
      (if gn_max_prompt_bytes g = 0 then 0
       else if reserved \<ge> gn_max_prompt_bytes g then 0
       else min (gn_max_prompt_bytes g - reserved) (gn_max_prompt_bytes g div 2)))"

definition turn_budget :: "('d, 'w) turn_env \<Rightarrow> ('d, 'w) turn_state \<Rightarrow> nat" where
  "turn_budget v s = agent_history_prompt_budget (tu_agent s) (tv_turn v) (tv_input v) (sc_string_as_str (tu_memory_context s))"

definition turn_history :: "('d, 'w) turn_state \<Rightarrow> sc_history" where
  "turn_history s = history_at (tu_agent s) (tu_history s)"

definition with_history :: "('d, 'w) turn_state \<Rightarrow> sc_history \<Rightarrow> sc_allocator \<Rightarrow> ('d, 'w) turn_state" where
  "with_history s h a = s\<lparr>tu_agent := set_history (tu_history s) h (tu_agent s), tu_alloc := a\<rparr>"

definition prune_history_for_prompt_budget :: "('d, 'w) turn_env \<Rightarrow> ('d, 'w) turn_step" where
  "prune_history_for_prompt_budget v s =
     (case sc_history_prune_to_budget (turn_history s) (turn_budget v s) (tu_alloc s) of
        (st, h, a) \<Rightarrow>
          (let s1 = with_history s h a in
           (if sc_status_is_ok st \<and> (length (items (messages h)) \<noteq> length (items (messages (turn_history s))) \<or>
                sc_history_estimated_chars h \<noteq> sc_history_estimated_chars (turn_history s))
            then tell v SC_TURN_EVENT_PROMPT_BUILT (Str ''prompt.context_pruned'') (Str ''budget'') SC_OK s1
            else (st, s1))))"

definition overflow_compress :: "sc_history \<Rightarrow> nat \<Rightarrow> sc_allocator \<Rightarrow> sc_status \<times> sc_history \<times> sc_allocator" where
  "overflow_compress h overflow_budget a =
     (if length (items (messages h)) > 1
      then (let r = history_recent_messages_for_budget h (overflow_budget div 2);
                recent = (if r \<ge> length (items (messages h)) then length (items (messages h)) - 1 else r) in
            sc_history_compress_to_recent h recent (overflow_budget div 4) a)
      else (sc_status_ok, h, a))"

definition compact_history_for_overflow_retry :: "('d, 'w) turn_env \<Rightarrow> ('d, 'w) turn_step" where
  "compact_history_for_overflow_retry v s =
     (let budget = turn_budget v s; overflow_budget = (if budget div 2 = 0 \<and> budget > 0 then 1 else budget div 2) in
      (if items (messages (turn_history s)) = [] then (sc_status_ok, s)
       else (case overflow_compress (turn_history s) overflow_budget (tu_alloc s) of
               (st1, h1, a1) \<Rightarrow>
                 (if \<not> sc_status_is_ok st1 then (st1, with_history s h1 a1)
                  else (case sc_history_prune_to_budget h1 overflow_budget a1 of
                          (st2, h2, a2) \<Rightarrow>
                            (if sc_status_is_ok st2
                             then tell v SC_TURN_EVENT_PROMPT_BUILT (Str ''prompt.context_compacted'') (Str ''overflow_retry'') SC_OK (with_history s h2 a2)
                             else (st2, with_history s h2 a2)))))))"

section \<open>The turn\<close>

definition is_context_overflow_status :: "sc_status \<Rightarrow> bool" where
  "is_context_overflow_status st \<longleftrightarrow>
     code st \<in> {SC_ERR_HTTP, SC_ERR_INVALID_ARGUMENT, SC_ERR_PARSE} \<and>
     (case error_key st of
        None \<Rightarrow> False
      | Some key \<Rightarrow> find_literal key 0 ''context'' \<noteq> None \<or> find_literal key 0 ''token'' \<noteq> None \<or> find_literal key 0 ''too_large'' \<noteq> None)"

definition loop_step_of_turn :: "('d::{zero, plus, ord}, 'w) turn_env \<Rightarrow> ('d, 'w) turn_step" where
  "loop_step_of_turn v s =
     (let g = tu_agent s in
      (case run_provider_loop (tv_strtod v) (tv_fmt v) (tv_runtime v) (loop_view g) (tv_turn v) (sc_string_as_str (tu_prompt s))
              (gn_cached_tool_specs_json g, gn_cached_tool_specs_tool_count g) (tv_deadline_ns v) (tu_out s) (tu_alloc s) (tu_world s) of
         (st, out, cache, a, w) \<Rightarrow>
           (st, s\<lparr>tu_agent := g\<lparr>gn_cached_tool_specs_json := fst cache, gn_cached_tool_specs_tool_count := snd cache\<rparr>, tu_out := out,
              tu_alloc := a, tu_world := w\<rparr>)))"

definition clear_prompt :: "('d, 'w) turn_state \<Rightarrow> ('d, 'w) turn_state" where
  "clear_prompt s = s\<lparr>tu_prompt := None, tu_alloc := sc_string_clear (tu_prompt s) (tu_alloc s)\<rparr>"

text \<open>The \<^verbatim>\<open>while\<close> loop of the turn runs twice at most, because of the flag.\<close>

definition provider_phase :: "('d::{zero, plus, ord}, 'w) turn_env \<Rightarrow> ('d, 'w) turn_step" where
  "provider_phase v s =
     (case check_step v s of
        (c, s0) \<Rightarrow>
          (if \<not> sc_status_is_ok c then (c, s0)
           else (case loop_step_of_turn v s0 of
                   (st, s1) \<Rightarrow>
                     (if sc_status_is_ok st \<or> \<not> is_context_overflow_status st \<or> items (messages (turn_history s1)) = [] then (st, s1)
                      else run_steps
                             [compact_history_for_overflow_retry v, \<lambda>s. build_prompt v (clear_prompt s),
                              tell v SC_TURN_EVENT_PROMPT_BUILT (Str ''prompt.context_trimmed'') (Str ''built'') SC_OK,
                              check_step v, loop_step_of_turn v] (sc_status_ok, s1)))))"

definition clear_scratch :: "('d, 'w) turn_state \<Rightarrow> ('d, 'w) turn_state" where
  "clear_scratch s = (let s1 = clear_prompt s in s1\<lparr>tu_memory_context := None, tu_alloc := sc_string_clear (tu_memory_context s1) (tu_alloc s1)\<rparr>)"

definition receipt_block_step :: "('d, 'w) turn_step" where
  "receipt_block_step s =
     (case append_receipt_block_to_output (gn_policy (tu_agent s)) (tu_out s) (tu_alloc s) of (st, out, a) \<Rightarrow> (st, s\<lparr>tu_out := out, tu_alloc := a\<rparr>))"

definition strip_step :: "('d, 'w) turn_step" where
  "strip_step s = (case strip_receipt_tokens_from_output (tu_out s) (tu_alloc s) of (st, out, a) \<Rightarrow> (st, s\<lparr>tu_out := out, tu_alloc := a\<rparr>))"

definition append_step :: "string \<Rightarrow> (('d, 'w) turn_state \<Rightarrow> sc_str) \<Rightarrow> ('d, 'w) turn_step" where
  "append_step role text_of s =
     (case sc_history_append (turn_history s) (Str role) (text_of s) (tu_alloc s) of (st, h, a) \<Rightarrow> (st, with_history s h a))"

definition before_loop :: "('d, 'w) turn_env \<Rightarrow> ('d, 'w) turn_step list" where
  "before_loop v =
     (let remembers = \<not> turn_memory_disabled (tv_turn v) in
      [tell v SC_TURN_EVENT_STARTED (Str ''turn'') (Str ''started'') SC_OK,
       observe ''runtime.turn.started'' (Str ''ok''),
       apply_model_switch v,
       tell v SC_TURN_EVENT_INPUT_VALIDATED (Str ''input'') (ti_input (tv_input v)) SC_OK,
       observe ''turn.input_validated'' (Str ''ok''),
       step_if remembers (memory_context_step v),
       step_if remembers (tell v SC_TURN_EVENT_MEMORY_LOADED (Str ''memory'') (Str ''loaded'') SC_OK),
       step_if remembers (observe ''runtime.memory.read'' (Str ''ok'')),
       check_step v,
       prune_history_for_prompt_budget v,
       build_prompt v,
       tell v SC_TURN_EVENT_PROMPT_BUILT (Str ''prompt'') (Str ''built'') SC_OK,
       observe ''runtime.prompt.built'' (Str ''ok'')])"

definition after_loop :: "('d::{zero, one}, 'w) turn_env \<Rightarrow> ('d, 'w) turn_step list" where
  "after_loop v =
     (let remembers = \<not> turn_memory_disabled (tv_turn v) in
      [\<lambda>s. (sc_status_ok, clear_scratch s),
       receipt_block_step,
       strip_step,
       check_step v,
       append_step ''user'' (\<lambda>_. ti_input (tv_input v)),
       append_step ''assistant'' (\<lambda>s. sc_string_as_str (ar_output (tu_out s))),
       step_if remembers (persist_turn v),
       step_if remembers (tell v SC_TURN_EVENT_TURN_PERSISTED (Str ''turn'') (Str ''persisted'') SC_OK),
       step_if remembers (observe ''runtime.memory.write'' (Str ''ok'')),
       tell v SC_TURN_EVENT_COMPLETED (Str ''turn'') (Str ''completed'') SC_OK,
       observe ''runtime.turn.completed'' (Str ''ok'')])"

definition turn_steps :: "('d::{zero, one, plus, ord}, 'w) turn_env \<Rightarrow> ('d, 'w) turn_step list" where
  "turn_steps v = before_loop v @ [provider_phase v] @ after_loop v"

text \<open>A failure is reported in the result, as an event and to the observer, whose own failures do not matter any more.\<close>

definition report_failure :: "('d, 'w) turn_env \<Rightarrow> sc_status \<Rightarrow> ('d, 'w) turn_state \<Rightarrow> ('d, 'w) turn_state" where
  "report_failure v st s =
     (let key = error_key_or st ''error'';
          s1 = (if code st = SC_ERR_CANCELLED then s\<lparr>tu_out := (tu_out s)\<lparr>ar_cancelled := True\<rparr>\<rparr>
                else if code st = SC_ERR_TIMEOUT then s\<lparr>tu_out := (tu_out s)\<lparr>ar_timed_out := True\<rparr>\<rparr> else s);
          s2 = snd (tell v (if code st = SC_ERR_CANCELLED then SC_TURN_EVENT_CANCELLED
                            else if code st = SC_ERR_TIMEOUT then SC_TURN_EVENT_TIMEOUT else SC_TURN_EVENT_ERROR) (Str ''turn'') key (code st) s1) in
      snd (observe (if code st = SC_ERR_CANCELLED then ''runtime.turn.cancelled''
                    else if code st = SC_ERR_TIMEOUT then ''runtime.turn.timed_out'' else ''runtime.turn.failed'') key s2))"

definition run_turn :: "('d::{zero, one, plus, ord}, 'w) turn_env \<Rightarrow> ('d, 'w) turn_step" where
  "run_turn v s =
     (case run_steps (turn_steps v) (sc_status_ok, s) of
        (st, s1) \<Rightarrow> (st, clear_scratch (if sc_status_is_ok st then s1 else report_failure v st s1)))"

text \<open>The deadline, zero for none, with the world after the clock was read.\<close>

definition turn_deadline :: "'w runtime_env \<Rightarrow> nat \<Rightarrow> nat \<Rightarrow> 'w \<Rightarrow> int \<times> 'w" where
  "turn_deadline env timeout_ms fallback_ms w =
     (let ms = (if timeout_ms > 0 then timeout_ms else fallback_ms) in
      (if ms = 0 then (0, w)
       else (case rt_monotonic env w of
               (ts, w1) \<Rightarrow> (case sc_clock_monotonic ts of Inl e \<Rightarrow> (0, w1) | Inr now \<Rightarrow> (now + int ms * 1000000, w1)))))"

definition sc_agent_process_message ::
    "('d::{zero, one, plus, ord}, 'w) turn_env \<Rightarrow> nat list option \<Rightarrow> ('d, 'w) agent \<Rightarrow> 'd sc_agent_turn_result \<Rightarrow> sc_allocator \<Rightarrow> 'w \<Rightarrow>
       sc_status \<times> ('d, 'w) agent \<times> 'd sc_agent_turn_result \<times> sc_allocator \<times> 'w" where
  "sc_agent_process_message v0 key g out a w =
     (let i = tv_input v0 in
      (if ptr_null (ti_input i) \<or> str_len (ti_input i) = 0 then (sc_status_invalid_argument ''sc.agent.turn.invalid_argument'', g, out, a, w)
       else (case agent_history_for_turn g (ti_session_id i) a of
               (r, g1, a1) \<Rightarrow>
                 (case turn_deadline (tv_runtime v0) (ti_timeout_ms i) (gn_default_timeout_ms g) w of
                    (deadline, w1) \<Rightarrow>
                      (case r of
                         Inl e \<Rightarrow> (e, g1, sc_agent_turn_result_init key, a1, w1)
                       | Inr h \<Rightarrow>
                           (let v = v0\<lparr>tv_deadline_ns := deadline\<rparr>;
                                s = \<lparr>tu_agent = g1, tu_out = sc_agent_turn_result_init key, tu_alloc = a1, tu_world = w1, tu_history = h,
                                     tu_memory_context = None, tu_prompt = None\<rparr> in
                            (case (if turn_cancel_requested (tv_turn v) w1
                                   then (sc_status_cancelled ''sc.agent.cancelled'',
                                         snd (tell v SC_TURN_EVENT_CANCELLED (Str ''cancelled'') (Str ''input'') SC_ERR_CANCELLED
                                           (s\<lparr>tu_out := (tu_out s)\<lparr>ar_cancelled := True\<rparr>\<rparr>)))
                                   else run_turn v s) of
                               (st, s1) \<Rightarrow> (st, tu_agent s1, tu_out s1, tu_alloc s1, tu_world s1))))))))"

end
