(* ===== verification/SC_Agent_Turn.thy ===== *)
theory SC_Agent_Turn
  imports SC_Agent SC_Tool_Trace
begin

text \<open>
  What the steps of one turn (\<^verbatim>\<open>src/src/runtime/agent.c\<close>, \<^verbatim>\<open>sc_agent_process_message\<close>) keep, shown step by step: the histories of
  the other sessions, the number of provider calls, and the memory of an agent whose turn does not use it.
\<close>

section \<open>Steps that keep a property\<close>

definition turn_keeps :: "(('d, 'w) turn_state \<Rightarrow> bool) \<Rightarrow> ('d, 'w) turn_step \<Rightarrow> bool" where
  "turn_keeps P f \<longleftrightarrow> (\<forall>s st s'. P s \<longrightarrow> f s = (st, s') \<longrightarrow> P s')"

lemma turn_keepsI: "(\<And>s st s'. P s \<Longrightarrow> f s = (st, s') \<Longrightarrow> P s') \<Longrightarrow> turn_keeps P f"
  by (simp add: turn_keeps_def)

lemma turn_keepsD: "turn_keeps P f \<Longrightarrow> P s \<Longrightarrow> f s = (st, s') \<Longrightarrow> P s'"
  by (simp add: turn_keeps_def)

lemma run_turn_steps_keep:
  assumes "\<And>f. f \<in> set fs \<Longrightarrow> turn_keeps P f" "P s" "run_steps fs (st, s) = (st', s')"
  shows "P s'"
  using assms
proof (induction fs arbitrary: st s)
  case (Cons f fs)
  obtain st1 s1 where f: "f s = (st1, s1)" by (cases "f s")
  show ?case
  proof (cases "sc_status_is_ok st")
    case True
    have "P s1" using Cons.prems(1) [of f] Cons.prems(2) f by (auto intro: turn_keepsD)
    with Cons.IH [of s1 st1] Cons.prems True f show ?thesis by simp
  qed (use Cons.prems in auto)
qed simp

lemma run_steps_append: "run_steps (fs @ gs) r = run_steps gs (run_steps fs r)"
proof (induction fs arbitrary: r)
  case (Cons f fs)
  obtain st s where r: "r = (st, s)" by (cases r)
  have stop: "\<not> sc_status_is_ok st \<Longrightarrow> run_steps hs (st, s) = (st, s)" for hs by (cases hs) simp_all
  show ?case using Cons [of "f s"] stop [of gs] by (simp add: r)
qed simp

lemma step_if_turn_keeps: "turn_keeps P f \<Longrightarrow> turn_keeps P (step_if b f)"
  by (simp add: turn_keeps_def step_if_def)

text \<open>What every step of a turn leaves alone, apart from the history of the turn itself.\<close>

definition other_histories :: "history_ref \<Rightarrow> ('d, 'w) agent \<Rightarrow> sc_history option \<times> agent_session_history sc_vec" where
  "other_histories h g =
     (case h of
        Own_history \<Rightarrow> (None, gn_session_histories g)
      | Session_history i \<Rightarrow>
          (Some (gn_history g), (gn_session_histories g)
             \<lparr>items := (items (gn_session_histories g))[i := (items (gn_session_histories g) ! i)\<lparr>sh_history := sc_history_init 0\<rparr>]\<rparr>))"

lemma others_set_history [simp]: "other_histories h (set_history h x g) = other_histories h g"
proof (cases h)
  case (Session_history i)
  then show ?thesis
    by (cases "i < length (items (gn_session_histories g))") (simp_all add: other_histories_def set_history_def list_update_beyond)
qed (simp add: other_histories_def set_history_def)

lemma others_cong:
  "gn_history g' = gn_history g \<Longrightarrow> gn_session_histories g' = gn_session_histories g \<Longrightarrow> other_histories h g' = other_histories h g"
  by (cases h) (simp_all add: other_histories_def)

definition same_others :: "history_ref \<Rightarrow> sc_history option \<times> agent_session_history sc_vec \<Rightarrow> ('d, 'w) turn_state \<Rightarrow> bool" where
  "same_others h q s \<longleftrightarrow> tu_history s = h \<and> other_histories h (tu_agent s) = q"

lemma same_others_upd [simp]:
  "same_others h q (s\<lparr>tu_out := x\<rparr>) = same_others h q s"
  "same_others h q (s\<lparr>tu_alloc := a\<rparr>) = same_others h q s"
  "same_others h q (s\<lparr>tu_world := w\<rparr>) = same_others h q s"
  "same_others h q (s\<lparr>tu_prompt := p\<rparr>) = same_others h q s"
  "same_others h q (s\<lparr>tu_memory_context := c\<rparr>) = same_others h q s"
  by (simp_all add: same_others_def)

lemma same_others_agent [simp]:
  "gn_history g = gn_history (tu_agent s) \<Longrightarrow> gn_session_histories g = gn_session_histories (tu_agent s) \<Longrightarrow>
   same_others h q (s\<lparr>tu_agent := g\<rparr>) = same_others h q s"
  by (simp add: same_others_def others_cong [of g "tu_agent s"])

lemma same_others_with_history [simp]: "same_others h q (with_history s x a) = same_others h q s"
  by (auto simp: same_others_def with_history_def)

lemma tell_others [intro]: "turn_keeps (same_others h q) (tell v ty name msg st_code)"
  by (rule turn_keepsI) (auto simp: tell_def split: prod.splits)

lemma observe_others [intro]: "turn_keeps (same_others h q) (observe name txt)"
  by (rule turn_keepsI) (auto simp: observe_def split: prod.splits)

lemma quiet_others [intro]:
  "turn_keeps (same_others h q) (check_step v)"
  "turn_keeps (same_others h q) (memory_context_step v)"
  "turn_keeps (same_others h q) receipt_block_step"
  "turn_keeps (same_others h q) strip_step"
  "turn_keeps (same_others h q) (append_step role txt)"
  "turn_keeps (same_others h q) (build_prompt v)"
  "turn_keeps (same_others h q) (\<lambda>s. build_prompt v (clear_prompt s))"
  "turn_keeps (same_others h q) (\<lambda>s. (sc_status_ok, clear_scratch s))"
  by (rule turn_keepsI, auto simp: check_step_def memory_context_step_def receipt_block_step_def strip_step_def append_step_def persist_turn_def
    loop_step_of_turn_def build_prompt_def clear_prompt_def clear_scratch_def Let_def split: prod.splits sum.splits if_splits)+

lemma persist_others [intro]: "turn_keeps (same_others h q) (persist_turn v)"
  by (rule turn_keepsI) (auto simp: persist_turn_def Let_def split: prod.splits if_splits)

lemma loop_others [intro]: "turn_keeps (same_others h q) (loop_step_of_turn v)"
  by (rule turn_keepsI) (auto simp: loop_step_of_turn_def Let_def split: prod.splits)

lemma history_steps_others [intro]:
  "turn_keeps (same_others h q) (prune_history_for_prompt_budget v)"
  "turn_keeps (same_others h q) (compact_history_for_overflow_retry v)"
  "turn_keeps (same_others h q) (apply_model_switch v)"
  by (rule turn_keepsI, use tell_others in \<open>auto simp: prune_history_for_prompt_budget_def compact_history_for_overflow_retry_def
    apply_model_switch_def Let_def dest!: turn_keepsD [OF tell_others, rotated] split: prod.splits sum.splits if_splits option.splits\<close>)+

lemma provider_phase_others [intro]: "turn_keeps (same_others h q) (provider_phase v)"
proof (rule turn_keepsI)
  fix s st s'
  assume s: "same_others h q s" and run: "provider_phase v s = (st, s')"
  obtain c s0 where c: "check_step v s = (c, s0)" by (cases "check_step v s")
  have s0: "same_others h q s0" using turn_keepsD [OF quiet_others(1) s c] .
  obtain st1 s1 where l: "loop_step_of_turn v s0 = (st1, s1)" by (cases "loop_step_of_turn v s0")
  have s1: "same_others h q s1" using turn_keepsD [OF loop_others s0 l] .
  let ?fs = "[compact_history_for_overflow_retry v, \<lambda>s. build_prompt v (clear_prompt s),
      tell v SC_TURN_EVENT_PROMPT_BUILT (Str ''prompt.context_trimmed'') (Str ''built'') SC_OK, check_step v, loop_step_of_turn v]"
  have retry: "same_others h q s2" if "run_steps ?fs (sc_status_ok, s1) = (st2, s2)" for st2 s2
    by (rule run_turn_steps_keep [where P = "same_others h q", OF _ s1 that]) auto
  from run c l have "s' = s0 \<or> s' = s1 \<or> run_steps ?fs (sc_status_ok, s1) = (st, s')"
    by (simp add: provider_phase_def split: if_splits)
  with s0 s1 retry show "same_others h q s'" by blast
qed

lemma turn_steps_others: "f \<in> set (turn_steps v) \<Longrightarrow> turn_keeps (same_others h q) f"
  by (auto simp: turn_steps_def before_loop_def after_loop_def Let_def intro: step_if_turn_keeps)

lemma run_turn_others:
  assumes "run_turn v s = (st, s')" "same_others h q s"
  shows "same_others h q s'"
proof -
  obtain st1 s1 where r: "run_steps (turn_steps v) (sc_status_ok, s) = (st1, s1)" by (cases "run_steps (turn_steps v) (sc_status_ok, s)")
  have s1: "same_others h q s1" by (rule run_turn_steps_keep [OF turn_steps_others assms(2) r])
  have tell: "same_others h q (snd (tell v ty name msg c t))" if "same_others h q t" for ty name msg c t
    using turn_keepsD [OF tell_others that, of v ty name msg c] by (metis prod.collapse)
  have observe: "same_others h q (snd (observe name msg t))" if "same_others h q t" for name msg t
    using turn_keepsD [OF observe_others that, of name msg] by (metis prod.collapse)
  have "same_others h q (report_failure v st1 s1)"
    unfolding report_failure_def Let_def by (rule observe, rule tell) (use s1 in simp)
  then have "same_others h q (if sc_status_is_ok st1 then s1 else report_failure v st1 s1)" using s1 by simp
  then show ?thesis using assms(1) r by (auto simp: run_turn_def clear_scratch_def clear_prompt_def Let_def)
qed

section \<open>Sessions\<close>

text \<open>The histories of an agent, by the session's name; the agent's own history belongs to the empty name.\<close>

definition session_names :: "('d, 'w) agent \<Rightarrow> string list" where
  "session_names g = map (\<lambda>s. owned_text (sh_session_id s)) (items (gn_session_histories g))"

definition histories :: "('d, 'w) agent \<Rightarrow> string \<rightharpoonup> sc_history" where
  "histories g k = (if k = [] then Some (gn_history g) else map_of (zip (session_names g) (map sh_history (items (gn_session_histories g)))) k)"

definition sessions_ok :: "('d, 'w) agent \<Rightarrow> bool" where
  "sessions_ok g \<longleftrightarrow> distinct (session_names g) \<and> [] \<notin> set (session_names g) \<and> vec_inv (gn_session_histories g) \<and>
     item_size (gn_session_histories g) = SIZEOF_SESSION_HISTORY"

definition names_history :: "('d, 'w) agent \<Rightarrow> string \<Rightarrow> history_ref \<Rightarrow> bool" where
  "names_history g k h \<longleftrightarrow>
     (case h of Own_history \<Rightarrow> k = [] | Session_history i \<Rightarrow> i < length (session_names g) \<and> session_names g ! i = k)"

lemma names_nth: "i < length (items (gn_session_histories g)) \<Longrightarrow> session_names g ! i = owned_text (sh_session_id (items (gn_session_histories g) ! i))"
  by (simp add: session_names_def)

text \<open>Finding the history of a turn creates at most one, empty, and changes no other.\<close>

lemma histories_alt: "k \<noteq> [] \<Longrightarrow>
   histories g k = map_option sh_history (find_first (\<lambda>s. owned_text (sh_session_id s) = k) (items (gn_session_histories g)))"
proof -
  assume "k \<noteq> []"
  have "map_of (zip (map (\<lambda>s. owned_text (sh_session_id s)) xs) (map sh_history xs)) k =
      map_option sh_history (find_first (\<lambda>s. owned_text (sh_session_id s) = k) xs)" for xs
    by (induction xs) auto
  with \<open>k \<noteq> []\<close> show ?thesis by (simp add: histories_def session_names_def)
qed

lemma history_for_turn_spec:
  assumes "agent_history_for_turn g session a = (r, g', a')" "sessions_ok g"
  shows "sessions_ok g'"
    and "k \<noteq> str_bytes session \<or> histories g k \<noteq> None \<Longrightarrow> histories g' k = histories g k"
    and "g' = g\<lparr>gn_session_histories := gn_session_histories g'\<rparr>"
    and "r = Inr h \<Longrightarrow> names_history g' (str_bytes session) h"
proof -
  let ?v = "gn_session_histories g"
  have "sessions_ok g' \<and> (k \<noteq> str_bytes session \<or> histories g k \<noteq> None \<longrightarrow> histories g' k = histories g k) \<and>
    g' = g\<lparr>gn_session_histories := gn_session_histories g'\<rparr> \<and> (r = Inr h \<longrightarrow> names_history g' (str_bytes session) h)"
  proof (cases "str_bytes session = []")
    case True
    then have "str_len (empty_if_null session) = 0" by (cases session) (simp_all add: empty_if_null_def)
    with True assms show ?thesis by (auto simp: agent_history_for_turn_def names_history_def)
  next
    case False
    then obtain t where session: "session = Str t" "t \<noteq> []" by (cases session) auto
    let ?P = "\<lambda>i. sc_str_equal (sc_string_as_str (sh_session_id (items ?v ! i))) session"
    have P: "?P i \<longleftrightarrow> session_names g ! i = t" if "i < length (items ?v)" for i
      using that session str_equal_owned [of session "sh_session_id (items ?v ! i)"] by (simp add: names_nth str_is_empty_def)
    show ?thesis
    proof (cases "find_first ?P [0 ..< length (items ?v)]")
      case (Some i)
      then have "i < length (items ?v)" "?P i" by (auto dest: find_first_SomeD)
      with P [of i] Some assms session show ?thesis
        by (auto simp: agent_history_for_turn_def agent_history_for_session_def empty_if_null_def names_history_def session_names_def)
    next
      case None
      have new: "t \<notin> set (session_names g)"
      proof
        assume "t \<in> set (session_names g)"
        then obtain i where "i < length (items ?v)" "session_names g ! i = t" by (auto simp: in_set_conv_nth session_names_def)
        with P [of i] None show False by (auto simp: find_first_None_iff)
      qed
      let ?fill = "fill (\<lambda>_. sc_string_from_str session) (\<lambda>s q. q\<lparr>sh_session_id := s, sh_history := sc_history_init (max_messages (gn_history g))\<rparr>)
          (sc_status_ok, \<lparr>sh_session_id = None, sh_history = sc_history_init 0\<rparr>, a)"
      obtain st v a1 where push: "push_filled agent_session_history_clear ?v ?fill = (st, v, a1)"
        by (cases "push_filled agent_session_history_clear ?v ?fill")
      have out: "g' = g\<lparr>gn_session_histories := v\<rparr>" "sc_status_is_ok st \<Longrightarrow> r = Inr (Session_history (length (items ?v)))"
        "\<not> sc_status_is_ok st \<Longrightarrow> r = Inl st"
        using assms(1) None push session by (auto simp: agent_history_for_turn_def agent_history_for_session_def empty_if_null_def split: if_splits)
      have inv: "vec_inv ?v" "item_size ?v = SIZEOF_SESSION_HISTORY" using assms(2) by (simp_all add: sessions_ok_def)
      have v: "vec_inv v \<and> item_size v = item_size ?v \<and>
          (if sc_status_is_ok st then items v = items ?v @ [\<lparr>sh_session_id = Some t, sh_history = sc_history_init (max_messages (gn_history g))\<rparr>] else v = ?v)"
        using push vec_push_spec [OF _ inv(1)] session inv
        by (auto simp: push_filled_def fill_def sc_string_from_str_def split: prod.splits if_splits sum.splits)
      show ?thesis
      proof (cases "sc_status_is_ok st")
        case False
        then have "v = ?v" using v by simp
        then have "g' = g" using out(1) by simp
        with False assms(2) out(3) show ?thesis by simp
      next
        case True
        then have it: "items v = items ?v @ [\<lparr>sh_session_id = Some t, sh_history = sc_history_init (max_messages (gn_history g))\<rparr>]" using v by simp
        have names: "session_names g' = session_names g @ [t]" using it out(1) by (simp add: session_names_def)
        have "histories g' k = histories g k" if "k \<noteq> t"
          using that it out(1) by (cases "k = []") (simp_all add: histories_def [of _ "[]"] histories_alt find_first_append split: option.split)
        moreover have "histories g t = None" using new session(2) by (simp add: histories_def map_of_zip_is_None session_names_def)
        ultimately show ?thesis
          using names new assms(2) v inv out True session it by (auto simp: sessions_ok_def names_history_def nth_append session_names_def)
      qed
    qed
  qed
  then show "sessions_ok g'" "k \<noteq> str_bytes session \<or> histories g k \<noteq> None \<Longrightarrow> histories g' k = histories g k"
    "g' = g\<lparr>gn_session_histories := gn_session_histories g'\<rparr>" "r = Inr h \<Longrightarrow> names_history g' (str_bytes session) h" by blast+
qed

text \<open>When only the history of one reference changed, the histories of all other names are as before.\<close>

lemma map_of_zip_upd:
  "i < length ks \<Longrightarrow> length xs = length ks \<Longrightarrow> ks ! i \<noteq> k \<Longrightarrow> map_of (zip ks (xs[i := y])) k = map_of (zip ks xs) k"
proof (induction ks arbitrary: i xs)
  case (Cons k' ks)
  then obtain x xs' where "xs = x # xs'" by (cases xs) auto
  with Cons show ?case by (cases i) auto
qed simp

lemma others_session:
  assumes "other_histories (Session_history i) g' = other_histories (Session_history i) g" "i < length (items (gn_session_histories g))"
  shows "gn_history g' = gn_history g" "session_names g' = session_names g"
    "map sh_history (items (gn_session_histories g')) =
       (map sh_history (items (gn_session_histories g)))[i := sh_history (items (gn_session_histories g') ! i)]"
    "vec_inv (gn_session_histories g) \<Longrightarrow> vec_inv (gn_session_histories g')" "item_size (gn_session_histories g') = item_size (gn_session_histories g)"
proof -
  let ?v = "gn_session_histories g" and ?v' = "gn_session_histories g'"
  from assms(1) show "gn_history g' = gn_history g" by (simp add: other_histories_def)
  from assms(1) have vec: "?v'\<lparr>items := (items ?v')[i := (items ?v' ! i)\<lparr>sh_history := sc_history_init 0\<rparr>]\<rparr> =
      ?v\<lparr>items := (items ?v)[i := (items ?v ! i)\<lparr>sh_history := sc_history_init 0\<rparr>]\<rparr>"
    by (simp add: other_histories_def)
  have upd: "(items ?v')[i := (items ?v' ! i)\<lparr>sh_history := sc_history_init 0\<rparr>] = (items ?v)[i := (items ?v ! i)\<lparr>sh_history := sc_history_init 0\<rparr>]"
    using arg_cong [OF vec, of items] by simp
  then have len: "length (items ?v') = length (items ?v)" by (metis length_list_update)
  have nth: "items ?v' ! j = items ?v ! j" if "j \<noteq> i" for j using arg_cong [OF upd, of "\<lambda>xs. xs ! j"] that by simp
  have id: "sh_session_id (items ?v' ! i) = sh_session_id (items ?v ! i)"
    using arg_cong [OF upd, of "\<lambda>xs. sh_session_id (xs ! i)"] assms(2) len by simp
  show "session_names g' = session_names g"
    by (rule nth_equalityI) (use len nth id in \<open>auto simp: session_names_def\<close>, metis)
  show "map sh_history (items ?v') = (map sh_history (items ?v))[i := sh_history (items ?v' ! i)]"
    by (rule nth_equalityI) (use len nth assms(2) in \<open>auto simp: nth_list_update\<close>)
  show "vec_inv ?v \<Longrightarrow> vec_inv ?v'" "item_size ?v' = item_size ?v"
    using arg_cong [OF vec, of vec_inv] arg_cong [OF vec, of item_size] len by (auto simp: vec_inv_def)
qed

lemma others_histories:
  assumes "other_histories h g' = other_histories h g" "names_history g n h" "sessions_ok g"
  shows "sessions_ok g'" "k \<noteq> n \<Longrightarrow> histories g' k = histories g k" "histories g' n = Some (history_at g' h)"
proof -
  have "sessions_ok g' \<and> (k \<noteq> n \<longrightarrow> histories g' k = histories g k) \<and> histories g' n = Some (history_at g' h)"
  proof (cases h)
    case Own_history
    with assms show ?thesis by (simp add: other_histories_def names_history_def sessions_ok_def histories_def session_names_def history_at_def)
  next
    case (Session_history i)
    let ?v = "gn_session_histories g" and ?v' = "gn_session_histories g'"
    have i: "i < length (items ?v)" "session_names g ! i = n" using assms(2) Session_history by (auto simp: names_history_def session_names_def)
    note same = others_session [OF assms(1) [unfolded Session_history] i(1)]
    have ok: "sessions_ok g'" using assms(3) same(2,4,5) by (simp add: sessions_ok_def)
    have "histories g' k = histories g k" if "k \<noteq> n"
      using map_of_zip_upd [of i "session_names g" "map sh_history (items ?v)" k] i that same(1)
      by (simp add: histories_def same(2,3)) (simp add: session_names_def)
    moreover have "n \<in> set (session_names g)" using i by (metis length_map nth_mem session_names_def)
    then have "n \<noteq> []" using assms(3) by (auto simp: sessions_ok_def)
    moreover have len: "length (items ?v') = length (items ?v)" using arg_cong [OF same(2), of length] by (simp add: session_names_def)
    have "map_of (zip (session_names g') (map sh_history (items ?v'))) (session_names g' ! i) = Some (map sh_history (items ?v') ! i)"
      by (rule map_of_zip_nth) (use ok len i(1) in \<open>simp_all add: sessions_ok_def session_names_def\<close>)
    then have "map_of (zip (session_names g') (map sh_history (items ?v'))) n = Some (history_at g' h)"
      using same(2) i len Session_history by (simp add: history_at_def)
    ultimately show ?thesis using ok by (simp add: histories_def)
  qed
  then show "sessions_ok g'" "k \<noteq> n \<Longrightarrow> histories g' k = histories g k" "histories g' n = Some (history_at g' h)" by blast+
qed

text \<open>A message that is taken up: its turn is cancelled at once or run, from a state with an empty result.\<close>

definition turn_start :: "nat list option \<Rightarrow> ('d::zero, 'w) agent \<Rightarrow> history_ref \<Rightarrow> sc_allocator \<Rightarrow> 'w \<Rightarrow> ('d, 'w) turn_state" where
  "turn_start key g h a w = \<lparr>tu_agent = g, tu_out = sc_agent_turn_result_init key, tu_alloc = a, tu_world = w, tu_history = h,
     tu_memory_context = None, tu_prompt = None\<rparr>"

lemma process_message_cases [consumes 1, case_names refused unplaced cancelled ran]:
  assumes "sc_agent_process_message v key g out a w = (st, g', out', a', w')"
  obtains "str_bytes (ti_input (tv_input v)) = []" "g' = g" "out' = out" "\<not> sc_status_is_ok st"
  | "agent_history_for_turn g (ti_session_id (tv_input v)) a = (Inl st, g', a')" "out' = sc_agent_turn_result_init key"
  | ref g1 a1 w1 v1 s1 where "agent_history_for_turn g (ti_session_id (tv_input v)) a = (Inr ref, g1, a1)" "\<not> sc_status_is_ok st"
      "s1 = (turn_start key g1 ref a1 w1)\<lparr>tu_out := (sc_agent_turn_result_init key)\<lparr>ar_cancelled := True\<rparr>\<rparr>"
      "g' = tu_agent (snd (tell v1 SC_TURN_EVENT_CANCELLED (Str ''cancelled'') (Str ''input'') SC_ERR_CANCELLED s1))"
      "out' = tu_out (snd (tell v1 SC_TURN_EVENT_CANCELLED (Str ''cancelled'') (Str ''input'') SC_ERR_CANCELLED s1))"
  | ref g1 a1 w1 v1 s1 where "agent_history_for_turn g (ti_session_id (tv_input v)) a = (Inr ref, g1, a1)" "tv_input v1 = tv_input v"
      "run_turn v1 (turn_start key g1 ref a1 w1) = (st, s1)" "g' = tu_agent s1" "out' = tu_out s1"
proof -
  obtain r g1 a1 where h: "agent_history_for_turn g (ti_session_id (tv_input v)) a = (r, g1, a1)"
    by (cases "agent_history_for_turn g (ti_session_id (tv_input v)) a")
  obtain deadline w1 where d: "turn_deadline (tv_runtime v) (ti_timeout_ms (tv_input v)) (gn_default_timeout_ms g) w = (deadline, w1)"
    by (cases "turn_deadline (tv_runtime v) (ti_timeout_ms (tv_input v)) (gn_default_timeout_ms g) w")
  note run = assms [unfolded sc_agent_process_message_def Let_def h d prod.case]
  show thesis
  proof (cases "ptr_null (ti_input (tv_input v)) \<or> str_len (ti_input (tv_input v)) = 0")
    case True
    then have "str_bytes (ti_input (tv_input v)) = []" by (cases "ti_input (tv_input v)") auto
    moreover from True run have "st = sc_status_invalid_argument ''sc.agent.turn.invalid_argument''" "g' = g" "out' = out" by simp_all
    ultimately show thesis using that(1) by simp
  next
    case valid: False
    show thesis
    proof (cases r)
      case (Inl e)
      with valid run have "e = st" "g1 = g'" "a1 = a'" "out' = sc_agent_turn_result_init key" by simp_all
      with that(2) h Inl show thesis by simp
    next
      case (Inr ref)
      let ?v = "v\<lparr>tv_deadline_ns := deadline\<rparr>" and ?s = "turn_start key g1 ref a1 w1"
      let ?t = "?s\<lparr>tu_out := (sc_agent_turn_result_init key)\<lparr>ar_cancelled := True\<rparr>\<rparr>"
      let ?c = "tell ?v SC_TURN_EVENT_CANCELLED (Str ''cancelled'') (Str ''input'') SC_ERR_CANCELLED ?t"
      have h': "agent_history_for_turn g (ti_session_id (tv_input v)) a = (Inr ref, g1, a1)" using h Inr by simp
      have split: "(case (if turn_cancel_requested (tv_turn v) w1 then (sc_status_cancelled ''sc.agent.cancelled'', snd ?c) else run_turn ?v ?s) of
          (st, s1) \<Rightarrow> (st, tu_agent s1, tu_out s1, tu_alloc s1, tu_world s1)) = (st, g', out', a', w')"
        using run valid Inr by (cases "turn_cancel_requested (tv_turn v) w1") (simp_all add: turn_start_def)
      show thesis
      proof (cases "turn_cancel_requested (tv_turn v) w1")
        case True
        with split have "st = sc_status_cancelled ''sc.agent.cancelled''" "g' = tu_agent (snd ?c)" "out' = tu_out (snd ?c)" by simp_all
        then show thesis by (intro that(3) [OF h' _ refl]) simp_all
      next
        case False
        with split have "run_turn ?v ?s = (st, snd (run_turn ?v ?s))" "g' = tu_agent (snd (run_turn ?v ?s))" "out' = tu_out (snd (run_turn ?v ?s))"
          by (cases "run_turn ?v ?s"; simp)+
        then show thesis by (intro that(4) [OF h', of ?v w1 "snd (run_turn ?v ?s)"]) simp_all
      qed
    qed
  qed
qed

lemma process_message_others:
  assumes "sc_agent_process_message v key g out a w = (st, g', out', a', w')" "sessions_ok g" "k \<noteq> str_bytes (ti_session_id (tv_input v))"
  shows "sessions_ok g' \<and> histories g' k = histories g k"
proof -
  have found: "sessions_ok g' \<and> histories g' k = histories g k"
    if h: "agent_history_for_turn g (ti_session_id (tv_input v)) a = (Inr ref, g1, a1)" and others: "other_histories ref g' = other_histories ref g1" for ref g1 a1
  proof -
    note spec = history_for_turn_spec [OF h assms(2)]
    have "histories g1 k = histories g k" using spec(2) assms(3) by blast
    with others_histories(1,2) [OF others spec(4) [OF refl] spec(1)] assms(3) show ?thesis by simp
  qed
  from assms(1) show ?thesis
  proof (cases rule: process_message_cases)
    case unplaced
    with history_for_turn_spec(1,2) [OF unplaced(1) assms(2)] assms(3) show ?thesis by blast
  next
    case (cancelled ref g1 a1 w1 v1 s1)
    have "same_others ref (other_histories ref g1) s1" by (simp add: cancelled(3) same_others_def turn_start_def)
    from turn_keepsD [OF tell_others this prod.collapse [symmetric]] show ?thesis
      by (intro found [OF cancelled(1)]) (simp add: same_others_def cancelled(4))
  next
    case (ran ref g1 a1 w1 v1 s1)
    have "same_others ref (other_histories ref g1) (turn_start key g1 ref a1 w1)" by (simp add: same_others_def turn_start_def)
    from run_turn_others [OF ran(3) this] show ?thesis by (intro found [OF ran(1)]) (simp add: same_others_def ran(4))
  qed (use assms(2) in simp)
qed

section \<open>How often a turn asks the provider\<close>

definition counted_calls :: "nat \<Rightarrow> nat \<Rightarrow> ('d, 'w) turn_state \<Rightarrow> bool" where
  "counted_calls c n s \<longleftrightarrow> ar_provider_call_count (tu_out s) = c \<and> gn_max_tool_iterations (tu_agent s) = n"

lemma counted_calls_upd [simp]:
  "counted_calls c n (s\<lparr>tu_alloc := a\<rparr>) = counted_calls c n s"
  "counted_calls c n (s\<lparr>tu_world := w\<rparr>) = counted_calls c n s"
  "counted_calls c n (s\<lparr>tu_prompt := p\<rparr>) = counted_calls c n s"
  "counted_calls c n (s\<lparr>tu_memory_context := m\<rparr>) = counted_calls c n s"
  "ar_provider_call_count x = ar_provider_call_count (tu_out s) \<Longrightarrow> counted_calls c n (s\<lparr>tu_out := x\<rparr>) = counted_calls c n s"
  "gn_max_tool_iterations g = gn_max_tool_iterations (tu_agent s) \<Longrightarrow> counted_calls c n (s\<lparr>tu_agent := g\<rparr>) = counted_calls c n s"
  by (simp_all add: counted_calls_def)

lemma counted_with_history [simp]: "counted_calls c n (with_history s h a) = counted_calls c n s"
  by (cases "tu_history s") (simp_all add: counted_calls_def with_history_def set_history_def)

lemma add_event_count: "turn_add_event turn out ty name msg st_code a w = (st, out', a', w') \<Longrightarrow> ar_provider_call_count out' = ar_provider_call_count out"
  by (auto simp: turn_add_event_def result_add_event_def split: prod.splits if_splits)

lemma tell_counted [intro]: "turn_keeps (counted_calls c n) (tell v ty name msg st_code)"
  by (rule turn_keepsI) (auto simp: tell_def add_event_count split: prod.splits)

lemma observe_counted [intro]: "turn_keeps (counted_calls c n) (observe name txt)"
  by (rule turn_keepsI) (auto simp: observe_def split: prod.splits)

lemma receipt_text_count:
  "append_receipt_block_to_output policy out a = (st, out', a') \<Longrightarrow> ar_provider_call_count out' = ar_provider_call_count out"
  "strip_receipt_tokens_from_output out a = (st, out', a') \<Longrightarrow> ar_provider_call_count out' = ar_provider_call_count out"
  by (auto simp: append_receipt_block_to_output_def strip_receipt_tokens_from_output_def Let_def split: prod.splits if_splits sum.splits)

lemma quiet_counted [intro]:
  "turn_keeps (counted_calls c n) (check_step v)"
  "turn_keeps (counted_calls c n) (memory_context_step v)"
  "turn_keeps (counted_calls c n) receipt_block_step"
  "turn_keeps (counted_calls c n) strip_step"
  "turn_keeps (counted_calls c n) (append_step role txt)"
  "turn_keeps (counted_calls c n) (build_prompt v)"
  "turn_keeps (counted_calls c n) (\<lambda>s. build_prompt v (clear_prompt s))"
  "turn_keeps (counted_calls c n) (\<lambda>s. (sc_status_ok, clear_scratch s))"
  by (rule turn_keepsI, auto simp: check_step_def memory_context_step_def receipt_block_step_def strip_step_def append_step_def
    build_prompt_def clear_prompt_def clear_scratch_def Let_def receipt_text_count split: prod.splits sum.splits if_splits)+

lemma persist_counted [intro]: "turn_keeps (counted_calls c n) (persist_turn v)"
  by (rule turn_keepsI) (auto simp: persist_turn_def Let_def split: prod.splits if_splits)

lemma history_steps_counted [intro]:
  "turn_keeps (counted_calls c n) (prune_history_for_prompt_budget v)"
  "turn_keeps (counted_calls c n) (compact_history_for_overflow_retry v)"
  "turn_keeps (counted_calls c n) (apply_model_switch v)"
  by (rule turn_keepsI, auto simp: prune_history_for_prompt_budget_def compact_history_for_overflow_retry_def
    apply_model_switch_def Let_def dest!: turn_keepsD [OF tell_counted, rotated] split: prod.splits sum.splits if_splits option.splits)+

lemma loop_step_counted:
  assumes "loop_step_of_turn v s = (st, s')" "counted_calls c n s"
  shows "\<exists>c'. counted_calls c' n s' \<and> c' \<le> c + n"
proof -
  obtain st1 out cache a w where run: "run_provider_loop (tv_strtod v) (tv_fmt v) (tv_runtime v) (loop_view (tu_agent s)) (tv_turn v)
      (sc_string_as_str (tu_prompt s)) (gn_cached_tool_specs_json (tu_agent s), gn_cached_tool_specs_tool_count (tu_agent s)) (tv_deadline_ns v)
      (tu_out s) (tu_alloc s) (tu_world s) = (st1, out, cache, a, w)" by (metis prod.exhaust)
  have "sa_max_tool_iterations (loop_view (tu_agent s)) = gn_max_tool_iterations (tu_agent s)" by (simp add: loop_view_def)
  with run_calls_made [OF run] assms run show ?thesis by (auto simp: loop_step_of_turn_def Let_def counted_calls_def)
qed

lemma provider_phase_counted:
  assumes "provider_phase v s = (st, s')" "counted_calls c n s"
  shows "\<exists>c'. counted_calls c' n s' \<and> c' \<le> c + 2 * n"
proof -
  obtain ck s0 where ck: "check_step v s = (ck, s0)" by (cases "check_step v s")
  have s0: "counted_calls c n s0" using turn_keepsD [OF quiet_counted(1) assms(2) ck] .
  obtain st1 s1 where l: "loop_step_of_turn v s0 = (st1, s1)" by (cases "loop_step_of_turn v s0")
  from loop_step_counted [OF l s0] obtain c1 where s1: "counted_calls c1 n s1" "c1 \<le> c + n" by blast
  let ?fs = "[compact_history_for_overflow_retry v, \<lambda>s. build_prompt v (clear_prompt s),
      tell v SC_TURN_EVENT_PROMPT_BUILT (Str ''prompt.context_trimmed'') (Str ''built'') SC_OK, check_step v]"
  have retry: "\<exists>c'. counted_calls c' n s2 \<and> c' \<le> c1 + n" if run: "run_steps (?fs @ [loop_step_of_turn v]) (sc_status_ok, s1) = (st2, s2)" for st2 s2
  proof -
    obtain st3 s3 where pre: "run_steps ?fs (sc_status_ok, s1) = (st3, s3)" by (cases "run_steps ?fs (sc_status_ok, s1)")
    have s3: "counted_calls c1 n s3" by (rule run_turn_steps_keep [where P = "counted_calls c1 n", OF _ s1(1) pre]) auto
    have "run_steps [loop_step_of_turn v] (st3, s3) = (st2, s2)" using run run_steps_append [of ?fs "[loop_step_of_turn v]" "(sc_status_ok, s1)"] pre by simp
    then consider "s2 = s3" | "loop_step_of_turn v s3 = (st2, s2)" by (auto split: if_splits)
    then show ?thesis using s3 loop_step_counted [OF _ s3] by cases auto
  qed
  from assms(1) ck l consider "s' = s0" | "s' = s1" | "run_steps (?fs @ [loop_step_of_turn v]) (sc_status_ok, s1) = (st, s')"
    by (auto simp: provider_phase_def split: if_splits)
  then show ?thesis
  proof cases
    case 3
    from retry [OF this] s1(2) show ?thesis by (metis add_le_mono le_trans mult_2 add.assoc add_le_cancel_right)
  qed (use s0 s1 in auto)
qed

lemma run_turn_counted:
  assumes "run_turn v s = (st, s')" "counted_calls c n s"
  shows "ar_provider_call_count (tu_out s') \<le> c + 2 * n"
proof -
  let ?before = "before_loop v" and ?after = "after_loop v"
  obtain st1 s1 where one: "run_steps ?before (sc_status_ok, s) = (st1, s1)" by (cases "run_steps ?before (sc_status_ok, s)")
  have s1: "counted_calls c n s1"
    by (rule run_turn_steps_keep [where P = "counted_calls c n", OF _ assms(2) one]) (auto simp: before_loop_def Let_def intro: step_if_turn_keeps)
  obtain st2 s2 where two: "run_steps [provider_phase v] (st1, s1) = (st2, s2)" by (cases "run_steps [provider_phase v] (st1, s1)")
  then consider "s2 = s1" | "provider_phase v s1 = (st2, s2)" by (auto split: if_splits)
  then have "\<exists>c2. counted_calls c2 n s2 \<and> c2 \<le> c + 2 * n"
  proof cases
    case 1
    with s1 show ?thesis by auto
  next
    case 2
    show ?thesis by (rule provider_phase_counted [OF 2 s1])
  qed
  then obtain c2 where s2: "counted_calls c2 n s2" "c2 \<le> c + 2 * n" by blast
  obtain st3 s3 where three: "run_steps ?after (st2, s2) = (st3, s3)" by (cases "run_steps ?after (st2, s2)")
  have s3: "counted_calls c2 n s3"
    by (rule run_turn_steps_keep [where P = "counted_calls c2 n", OF _ s2(1) three]) (auto simp: after_loop_def Let_def intro: step_if_turn_keeps)
  have all: "run_steps (turn_steps v) (sc_status_ok, s) = (st3, s3)" unfolding turn_steps_def run_steps_append one two three ..
  have tell: "counted_calls c2 n (snd (tell v ty name msg cd t))" if "counted_calls c2 n t" for ty name msg cd t
    using turn_keepsD [OF tell_counted that, of v ty name msg cd] by (metis prod.collapse)
  have observe: "counted_calls c2 n (snd (observe name msg t))" if "counted_calls c2 n t" for name msg t
    using turn_keepsD [OF observe_counted that, of name msg] by (metis prod.collapse)
  have "counted_calls c2 n (report_failure v st3 s3)" unfolding report_failure_def Let_def by (rule observe, rule tell) (use s3 in simp)
  then have "counted_calls c2 n (clear_scratch (if sc_status_is_ok st3 then s3 else report_failure v st3 s3))"
    using s3 by (simp add: clear_scratch_def clear_prompt_def Let_def)
  with assms(1) all s2(2) show ?thesis by (auto simp: run_turn_def counted_calls_def)
qed


lemma process_message_counted:
  assumes "sc_agent_process_message v key g out a w = (st, g', out', a', w')" "sessions_ok g" "str_bytes (ti_input (tv_input v)) \<noteq> []"
  shows "ar_provider_call_count out' \<le> 2 * gn_max_tool_iterations g"
  using assms(1)
proof (cases rule: process_message_cases)
  case (cancelled ref g1 a1 w1 v1 s1)
  have "counted_calls 0 (gn_max_tool_iterations g1) s1"
    by (simp add: cancelled(3) counted_calls_def turn_start_def sc_agent_turn_result_init_def)
  from turn_keepsD [OF tell_counted this prod.collapse [symmetric]] show ?thesis by (simp add: counted_calls_def cancelled(5))
next
  case (ran ref g1 a1 w1 v1 s1)
  have "counted_calls 0 (gn_max_tool_iterations g1) (turn_start key g1 ref a1 w1)"
    by (simp add: counted_calls_def turn_start_def sc_agent_turn_result_init_def)
  moreover have "gn_max_tool_iterations g1 = gn_max_tool_iterations g" by (subst history_for_turn_spec(3) [OF ran(1) assms(2)]) simp
  ultimately show ?thesis using run_turn_counted [OF ran(3)] ran(5) by fastforce
qed (use assms(3) in \<open>simp_all add: sc_agent_turn_result_init_def\<close>)

section \<open>Turns without memory\<close>

text \<open>A step that does the same whatever memory the agent has, and leaves it alone.\<close>

definition with_memory :: "('d, 'w) sc_memory option \<Rightarrow> ('d, 'w) turn_state \<Rightarrow> ('d, 'w) turn_state" where
  "with_memory m s = s\<lparr>tu_agent := (tu_agent s)\<lparr>gn_memory := m\<rparr>\<rparr>"

definition ignores_memory :: "('d, 'w) turn_step \<Rightarrow> bool" where
  "ignores_memory f \<longleftrightarrow> (\<forall>m s. f (with_memory m s) = (fst (f s), with_memory m (snd (f s))))"

lemma ignores_memoryD: "ignores_memory f \<Longrightarrow> f (with_memory m s) = (fst (f s), with_memory m (snd (f s)))"
  by (simp add: ignores_memory_def)

lemma with_memory_simps [simp]:
  "tu_out (with_memory m s) = tu_out s" "tu_alloc (with_memory m s) = tu_alloc s" "tu_world (with_memory m s) = tu_world s"
  "tu_history (with_memory m s) = tu_history s" "tu_prompt (with_memory m s) = tu_prompt s" "tu_memory_context (with_memory m s) = tu_memory_context s"
  "tu_agent (with_memory m s) = (tu_agent s)\<lparr>gn_memory := m\<rparr>"
  by (simp_all add: with_memory_def)

lemma loop_view_memory [simp]: "loop_view (g\<lparr>gn_memory := m\<rparr>) = loop_view g"
  by (simp add: loop_view_def)

lemma turn_history_memory [simp]: "turn_history (with_memory m s) = turn_history s"
  by (simp add: turn_history_def history_at_def split: history_ref.splits)

lemma turn_budget_memory [simp]: "turn_budget v (with_memory m s) = turn_budget v s"
  by (simp add: turn_budget_def agent_history_prompt_budget_def Let_def)

lemma with_history_memory [simp]: "with_history (with_memory m s) h a = with_memory m (with_history s h a)"
  by (cases "tu_history s") (simp_all add: with_history_def with_memory_def set_history_def)

lemma clear_memory [simp]: "clear_scratch (with_memory m s) = with_memory m (clear_scratch s)" "clear_prompt (with_memory m s) = with_memory m (clear_prompt s)"
  by (simp_all add: clear_scratch_def clear_prompt_def with_memory_def Let_def)

lemma tell_ignores [intro]: "ignores_memory (tell v ty name msg st_code)"
  by (auto simp: ignores_memory_def tell_def with_memory_def split: prod.splits)

lemma observe_ignores [intro]: "ignores_memory (observe name txt)"
  by (auto simp: ignores_memory_def observe_def with_memory_def split: prod.splits)

lemma quiet_ignores [intro]:
  "ignores_memory (check_step v)"
  "ignores_memory receipt_block_step"
  "ignores_memory strip_step"
  "ignores_memory (\<lambda>s. (sc_status_ok, clear_scratch s))"
  "ignores_memory (step_if False f)"
  by (auto simp: ignores_memory_def check_step_def receipt_block_step_def strip_step_def step_if_def with_memory_def clear_scratch_def clear_prompt_def Let_def
    split: prod.splits)

lemma append_ignores [intro]: "(\<And>m s. txt (with_memory m s) = txt s) \<Longrightarrow> ignores_memory (append_step role txt)"
  by (auto simp: ignores_memory_def append_step_def split: prod.splits)

lemma loop_ignores [intro]: "ignores_memory (loop_step_of_turn v)"
  by (auto simp: ignores_memory_def loop_step_of_turn_def with_memory_def Let_def split: prod.splits)

lemma build_prompt_ignores [intro]:
  fixes v :: "('d, 'w) turn_env"
  shows "ignores_memory (build_prompt v)"
  unfolding ignores_memory_def
proof (intro allI)
  fix m and s :: "('d, 'w) turn_state"
  let ?g = "tu_agent s"
  have sections: "prompt_sections v (?g\<lparr>gn_memory := m\<rparr>) h c = prompt_sections v ?g h c" for h c
    by (simp add: prompt_sections_def prompt_workspace_def prompt_receipts_def)
  have hist: "history_at (?g\<lparr>gn_memory := m\<rparr>) h = history_at ?g h" for h by (simp add: history_at_def split: history_ref.splits)
  obtain st p where run: "run_steps (prompt_sections v ?g (history_at ?g (tu_history s)) (sc_string_as_str (tu_memory_context s)))
      (sc_status_ok, \<lparr>ps_builder = sc_prompt_builder_init (gn_max_prompt_bytes ?g),
         ps_cache = (gn_cached_tool_specs_json ?g, gn_cached_tool_specs_tool_count ?g), ps_alloc = tu_alloc s, ps_world = tu_world s\<rparr>) = (st, p)"
    by (meson surj_pair)
  obtain t b where finish: "sc_prompt_builder_finish (ps_builder p) = (t, b)" by (cases "sc_prompt_builder_finish (ps_builder p)")
  show "build_prompt v (with_memory m s) = (fst (build_prompt v s), with_memory m (snd (build_prompt v s)))"
    by (simp add: build_prompt_def sections hist run finish Let_def with_memory_def)
qed

lemma rebuild_ignores [intro]: "ignores_memory (\<lambda>s. build_prompt v (clear_prompt s))"
  unfolding ignores_memory_def clear_memory by (intro allI ignores_memoryD build_prompt_ignores)

lemma history_steps_ignore [intro]:
  "ignores_memory (prune_history_for_prompt_budget v)"
  "ignores_memory (compact_history_for_overflow_retry v)"
  by (auto simp: ignores_memory_def prune_history_for_prompt_budget_def compact_history_for_overflow_retry_def Let_def
    ignores_memoryD [OF tell_ignores] split: prod.splits)

lemma with_memory_upd:
  "with_memory m s\<lparr>tu_alloc := a\<rparr> = with_memory m (s\<lparr>tu_alloc := a\<rparr>)" "with_memory m s\<lparr>tu_out := x\<rparr> = with_memory m (s\<lparr>tu_out := x\<rparr>)"
  "with_memory m s\<lparr>tu_agent := (tu_agent s)\<lparr>gn_memory := m, gn_model := d\<rparr>\<rparr> = with_memory m (s\<lparr>tu_agent := (tu_agent s)\<lparr>gn_model := d\<rparr>\<rparr>)"
  by (simp_all add: with_memory_def)

lemma switch_ignores [intro]: "ignores_memory (apply_model_switch v)"
  by (auto simp: ignores_memory_def apply_model_switch_def Let_def with_memory_upd ignores_memoryD [OF tell_ignores] split: option.splits prod.splits sum.splits)

lemma run_steps_ignore:
  assumes "\<And>f. f \<in> set fs \<Longrightarrow> ignores_memory f"
  shows "run_steps fs (st, with_memory m s) = (fst (run_steps fs (st, s)), with_memory m (snd (run_steps fs (st, s))))"
  using assms
proof (induction fs arbitrary: st s)
  case (Cons f fs)
  have f: "f (with_memory m s) = (fst (f s), with_memory m (snd (f s)))" using Cons.prems [of f] by (simp add: ignores_memoryD)
  show ?case
  proof (cases "sc_status_is_ok st")
    case True
    have "run_steps (f # fs) (st, with_memory m s) = run_steps fs (fst (f s), with_memory m (snd (f s)))" using True f by simp
    also have "\<dots> = (fst (run_steps fs (fst (f s), snd (f s))), with_memory m (snd (run_steps fs (fst (f s), snd (f s)))))"
      by (rule Cons.IH) (use Cons.prems in simp)
    finally show ?thesis using True by simp
  qed simp
qed simp

lemma provider_phase_ignores [intro]: "ignores_memory (provider_phase v)"
  unfolding ignores_memory_def
proof (intro allI)
  fix m s
  let ?fs = "[compact_history_for_overflow_retry v, \<lambda>s. build_prompt v (clear_prompt s),
      tell v SC_TURN_EVENT_PROMPT_BUILT (Str ''prompt.context_trimmed'') (Str ''built'') SC_OK, check_step v, loop_step_of_turn v]"
  obtain c s0 where c: "check_step v s = (c, s0)" by (cases "check_step v s")
  have cm: "check_step v (with_memory m s) = (c, with_memory m s0)" using ignores_memoryD [OF quiet_ignores(1), of v m s] c by simp
  obtain st1 s1 where l: "loop_step_of_turn v s0 = (st1, s1)" by (cases "loop_step_of_turn v s0")
  have lm: "loop_step_of_turn v (with_memory m s0) = (st1, with_memory m s1)" using ignores_memoryD [OF loop_ignores, of v m s0] l by simp
  have r: "run_steps ?fs (sc_status_ok, with_memory m s1) =
      (fst (run_steps ?fs (sc_status_ok, s1)), with_memory m (snd (run_steps ?fs (sc_status_ok, s1))))"
    by (rule run_steps_ignore) auto
  show "provider_phase v (with_memory m s) = (fst (provider_phase v s), with_memory m (snd (provider_phase v s)))"
    using r by (simp add: provider_phase_def c cm l lm del: run_steps.simps)
qed

lemma turn_steps_ignore:
  assumes "tn_disable_memory (tv_turn v)" "f \<in> set (turn_steps v)"
  shows "ignores_memory f"
  using assms by (auto simp: turn_steps_def before_loop_def after_loop_def turn_memory_disabled_def)

lemma run_turn_ignores:
  assumes "tn_disable_memory (tv_turn v)"
  shows "ignores_memory (run_turn v)"
  unfolding ignores_memory_def
proof (intro allI)
  fix m s
  have steps: "run_steps (turn_steps v) (sc_status_ok, with_memory m s) =
      (fst (run_steps (turn_steps v) (sc_status_ok, s)), with_memory m (snd (run_steps (turn_steps v) (sc_status_ok, s))))"
    by (rule run_steps_ignore) (rule turn_steps_ignore [OF assms])
  have report: "report_failure v st (with_memory m t) = with_memory m (report_failure v st t)" for st t
    by (simp add: report_failure_def Let_def with_memory_upd ignores_memoryD [OF tell_ignores] ignores_memoryD [OF observe_ignores])
  show "run_turn v (with_memory m s) = (fst (run_turn v s), with_memory m (snd (run_turn v s)))"
    by (simp add: run_turn_def steps report split: prod.split)
qed

lemma history_for_turn_memory:
  "agent_history_for_turn (g\<lparr>gn_memory := m\<rparr>) session a =
     (case agent_history_for_turn g session a of (r, g', a') \<Rightarrow> (r, g'\<lparr>gn_memory := m\<rparr>, a'))"
  by (simp add: agent_history_for_turn_def agent_history_for_session_def split: option.splits prod.splits)

lemma process_message_without_memory:
  assumes "tn_disable_memory (tv_turn v)"
  shows "sc_agent_process_message v key (g\<lparr>gn_memory := m\<rparr>) out a w =
    (case sc_agent_process_message v key g out a w of (st, g', out', a', w') \<Rightarrow> (st, g'\<lparr>gn_memory := m\<rparr>, out', a', w'))"
proof (cases "ptr_null (ti_input (tv_input v)) \<or> str_len (ti_input (tv_input v)) = 0")
  case True
  then show ?thesis by (simp add: sc_agent_process_message_def Let_def)
next
  case valid: False
  obtain r g1 a1 where h: "agent_history_for_turn g (ti_session_id (tv_input v)) a = (r, g1, a1)"
    by (cases "agent_history_for_turn g (ti_session_id (tv_input v)) a")
  obtain deadline w1 where d: "turn_deadline (tv_runtime v) (ti_timeout_ms (tv_input v)) (gn_default_timeout_ms g) w = (deadline, w1)"
    by (cases "turn_deadline (tv_runtime v) (ti_timeout_ms (tv_input v)) (gn_default_timeout_ms g) w")
  let ?v = "v\<lparr>tv_deadline_ns := deadline\<rparr>"
  have dm: "tn_disable_memory (tv_turn ?v)" using assms by simp
  show ?thesis
  proof (cases r)
    case (Inl e)
    with valid h d show ?thesis by (simp add: sc_agent_process_message_def history_for_turn_memory Let_def)
  next
    case (Inr ref)
    let ?s = "turn_start key g1 ref a1 w1"
    let ?run = "\<lambda>s. if turn_cancel_requested (tv_turn v) w1
        then (sc_status_cancelled ''sc.agent.cancelled'', snd (tell ?v SC_TURN_EVENT_CANCELLED (Str ''cancelled'') (Str ''input'') SC_ERR_CANCELLED
          (s\<lparr>tu_out := (tu_out s)\<lparr>ar_cancelled := True\<rparr>\<rparr>)))
        else run_turn ?v s"
    have start: "turn_start key (g1\<lparr>gn_memory := m\<rparr>) ref a1 w1 = with_memory m ?s" by (simp add: turn_start_def with_memory_def)
    have run: "?run (with_memory m ?s) = (fst (?run ?s), with_memory m (snd (?run ?s)))"
      by (simp add: with_memory_upd ignores_memoryD [OF tell_ignores] ignores_memoryD [OF run_turn_ignores [OF dm]])
    have step: "sc_agent_process_message v key x out a w = (case ?run (turn_start key y ref a1 w1) of
        (st, s1) \<Rightarrow> (st, tu_agent s1, tu_out s1, tu_alloc s1, tu_world s1))"
      if "agent_history_for_turn x (ti_session_id (tv_input v)) a = (Inr ref, y, a1)" "gn_default_timeout_ms x = gn_default_timeout_ms g" for x y
      using that valid d by (simp add: sc_agent_process_message_def turn_start_def Let_def)
    have one: "sc_agent_process_message v key g out a w = (case ?run ?s of (st, s1) \<Rightarrow> (st, tu_agent s1, tu_out s1, tu_alloc s1, tu_world s1))"
      by (rule step) (use h Inr in simp_all)
    have "sc_agent_process_message v key (g\<lparr>gn_memory := m\<rparr>) out a w =
        (case ?run (turn_start key (g1\<lparr>gn_memory := m\<rparr>) ref a1 w1) of (st, s1) \<Rightarrow> (st, tu_agent s1, tu_out s1, tu_alloc s1, tu_world s1))"
      by (rule step) (use h Inr in \<open>simp_all add: history_for_turn_memory\<close>)
    then show ?thesis unfolding start run one by (cases "?run ?s") simp
  qed
qed

end
