(* ===== verification/SC_Agent_Sessions.thy ===== *)
theory SC_Agent_Sessions
  imports SC_Agent_Turn
begin

text \<open>
  The sessions of an agent (\<^verbatim>\<open>src/src/runtime/agent.c\<close>) from its creation on: what a successful turn leaves in the history of its
  session, that no history grows over the limit, that making and destroying an agent give back every block, and the agents that
  serving a sequence of messages can reach.
\<close>

section \<open>What a successful turn leaves in its history\<close>

lemma remove_while_longer: "\<exists>a'. remove_while (\<lambda>ms. length ms > n) ms a = (drop (length ms - n) ms, a')"
proof (induction ms arbitrary: a)
  case (Cons m ms)
  show ?case
  proof (cases "length (m # ms) > n")
    case True
    with Cons [of "history_message_clear m a"] show ?thesis by (simp add: Suc_diff_le)
  qed simp
qed simp

lemma kept_snoc: "\<not> history_role_is_tool_result (message_role m) \<Longrightarrow> kept prev (ms @ [m]) = kept prev ms @ [m]"
  by (induction prev ms rule: kept.induct) auto

lemma history_append_items:
  assumes "sc_history_append h (Str role) content a = (st, h', a')" "sc_status_is_ok st" "role \<notin> {[], ''tool'', ''tool_result''}"
  shows "max_messages h' = max_messages h"
    and "items (messages h') = (let ms = (if max_messages h = 0 then items (messages h) else kept False (items (messages h))) @
             [\<lparr>msg_role = Some role, msg_content = Some (str_bytes content)\<rparr>] in
           (if max_messages h = 0 then ms else drop (length ms - max_messages h) ms))"
proof -
  let ?m = "\<lparr>msg_role = Some role, msg_content = Some (str_bytes content)\<rparr>"
  obtain st1 m a1 where msg: "history_message (Str role) (empty_if_null content) a = (st1, m, a1)"
    by (cases "history_message (Str role) (empty_if_null content) a")
  obtain st2 h1 a2 where push: "history_push_message h m a1 = (st2, h1, a2)" by (cases "history_push_message h m a1")
  have ok: "sc_status_is_ok st1" "sc_status_is_ok st2" "sc_history_trim h1 a2 = (h', a')"
    using assms(1,2) msg push by (auto simp: sc_history_append_def split: if_splits prod.splits)
  have "str_bytes (empty_if_null content) = str_bytes content" by (cases content) (simp_all add: empty_if_null_def)
  then have m: "m = ?m" using msg ok(1)
    by (auto simp: history_message_def fill_def message_zero_def sc_string_from_str_def empty_if_null_def split: prod.splits sum.splits if_splits)
  have h1: "max_messages h1 = max_messages h" "items (messages h1) = items (messages h) @ [?m]"
    using push ok(2) m by (auto simp: history_push_message_def sc_vec_push_def sc_vec_reserve_def Let_def split: prod.splits if_splits option.splits)
  have role: "\<not> history_role_is_tool_result (message_role ?m)"
    using assms(3) by (auto simp: history_role_is_tool_result_def history_role_is_def message_role_def)
  obtain a3 where p: "prune_orphans_from False (items (messages h) @ [?m]) a2 = (kept False (items (messages h)) @ [?m], a3)"
    using prune_from_spec kept_snoc [OF role] by metis
  obtain a4 where r: "remove_while (\<lambda>ms. max_messages h < length ms) (kept False (items (messages h)) @ [?m]) a3 =
      (drop (length (kept False (items (messages h)) @ [?m]) - max_messages h) (kept False (items (messages h)) @ [?m]), a4)"
    using remove_while_longer by blast
  have "max_messages h' = max_messages h \<and> items (messages h') = (let ms = (if max_messages h = 0 then items (messages h) else kept False (items (messages h))) @ [?m] in
      (if max_messages h = 0 then ms else drop (length ms - max_messages h) ms))"
  proof (cases "max_messages h = 0")
    case True
    with ok(3) h1 show ?thesis by (simp add: sc_history_trim_def)
  next
    case False
    have "sc_history_prune_orphans h1 a2 = (with_messages h1 (kept False (items (messages h)) @ [?m]), a3)"
      using p h1 by (simp add: sc_history_prune_orphans_def)
    with False ok(3) h1 r show ?thesis by (auto simp: sc_history_trim_def remove_oldest_while_def Let_def)
  qed
  then show "max_messages h' = max_messages h" "items (messages h') = (let ms = (if max_messages h = 0 then items (messages h) else kept False (items (messages h))) @ [?m] in
      (if max_messages h = 0 then ms else drop (length ms - max_messages h) ms))" by blast+
qed

lemma history_append_last:
  assumes "sc_history_append h (Str role) content a = (st, h', a')" "sc_status_is_ok st" "role \<notin> {[], ''tool'', ''tool_result''}"
  shows "\<exists>ms. items (messages h') = ms @ [\<lparr>msg_role = Some role, msg_content = Some (str_bytes content)\<rparr>]"
  using history_append_items(2) [OF assms] by (auto simp: Let_def split: if_splits)

text \<open>A message and the answer after it.\<close>

lemma two_appends:
  assumes "sc_history_append h (Str ''user'') u a = (st1, h1, a1)" "sc_status_is_ok st1"
    and "sc_history_append h1 (Str ''assistant'') v a1 = (st2, h2, a2)" "sc_status_is_ok st2" "max_messages h2 \<noteq> 1"
  shows "\<exists>ms. items (messages h2) = ms @ [\<lparr>msg_role = Some ''user'', msg_content = Some (str_bytes u)\<rparr>,
    \<lparr>msg_role = Some ''assistant'', msg_content = Some (str_bytes v)\<rparr>]"
proof -
  let ?u = "\<lparr>msg_role = Some ''user'', msg_content = Some (str_bytes u)\<rparr>" and ?v = "\<lparr>msg_role = Some ''assistant'', msg_content = Some (str_bytes v)\<rparr>"
  obtain ms where h1: "items (messages h1) = ms @ [?u]" using history_append_last [OF assms(1,2)] by auto
  have role: "\<not> history_role_is_tool_result (message_role ?u)" by (simp add: history_role_is_tool_result_def history_role_is_def message_role_def)
  have max: "max_messages h2 = max_messages h1" using history_append_items(1) [OF assms(3,4)] by simp
  have items: "items (messages h2) = (let ms = (if max_messages h1 = 0 then items (messages h1) else kept False (items (messages h1))) @ [?v] in
      (if max_messages h1 = 0 then ms else drop (length ms - max_messages h1) ms))" using history_append_items(2) [OF assms(3,4)] by simp
  show ?thesis
  proof (cases "max_messages h1 = 0")
    case True
    with items h1 show ?thesis by simp
  next
    case False
    with max assms(5) have two: "max_messages h1 \<ge> 2" by simp
    have "items (messages h2) = drop (length (kept False ms) + 2 - max_messages h1) (kept False ms @ [?u, ?v])"
      using items False by (simp add: Let_def h1 kept_snoc [OF role])
    moreover have "length (kept False ms) + 2 - max_messages h1 \<le> length (kept False ms)" using two by simp
    ultimately show ?thesis by simp
  qed
qed

lemma run_steps_ok: "run_steps fs (st, s) = (st', s') \<Longrightarrow> sc_status_is_ok st' \<Longrightarrow> sc_status_is_ok st"
  by (cases fs) (auto split: if_splits)

definition settled :: "sc_history \<Rightarrow> sc_string \<Rightarrow> ('d, 'w) turn_state \<Rightarrow> bool" where
  "settled h t s \<longleftrightarrow> turn_history s = h \<and> ar_output (tu_out s) = t"

lemma settled_upd [simp]:
  "settled h t (s\<lparr>tu_alloc := a\<rparr>) = settled h t s"
  "settled h t (s\<lparr>tu_world := w\<rparr>) = settled h t s"
  "settled h t (s\<lparr>tu_prompt := p\<rparr>) = settled h t s"
  "settled h t (s\<lparr>tu_memory_context := m\<rparr>) = settled h t s"
  "ar_output x = ar_output (tu_out s) \<Longrightarrow> settled h t (s\<lparr>tu_out := x\<rparr>) = settled h t s"
  "gn_history g = gn_history (tu_agent s) \<Longrightarrow> gn_session_histories g = gn_session_histories (tu_agent s) \<Longrightarrow> settled h t (s\<lparr>tu_agent := g\<rparr>) = settled h t s"
  by (simp_all add: settled_def turn_history_def history_at_def split: history_ref.splits)

lemma add_event_output: "turn_add_event turn out ty name msg st_code a w = (st, out', a', w') \<Longrightarrow> ar_output out' = ar_output out"
  by (auto simp: turn_add_event_def result_add_event_def split: prod.splits if_splits)

lemma tell_settled [intro]: "turn_keeps (settled h t) (tell v ty name msg st_code)"
  by (rule turn_keepsI) (auto simp: tell_def add_event_output split: prod.splits)

lemma observe_settled [intro]: "turn_keeps (settled h t) (observe name txt)"
  by (rule turn_keepsI) (auto simp: observe_def split: prod.splits)

lemma persist_settled [intro]: "turn_keeps (settled h t) (persist_turn v)"
  by (rule turn_keepsI) (auto simp: persist_turn_def Let_def split: prod.splits if_splits)



text \<open>The history of the turn is really there, so what is stored in it is read again.\<close>

lemma with_history_read:
  assumes "same_others h (other_histories h g) s" "names_history g n h"
  shows "turn_history (with_history s x a) = x"
proof (cases h)
  case Own_history
  with assms(1) show ?thesis by (simp add: same_others_def turn_history_def with_history_def history_at_def set_history_def)
next
  case (Session_history i)
  have i: "i < length (items (gn_session_histories g))" using assms(2) Session_history by (simp add: names_history_def session_names_def)
  have "other_histories (Session_history i) (tu_agent s) = other_histories (Session_history i) g" "tu_history s = Session_history i"
    using assms(1) Session_history by (simp_all add: same_others_def)
  then have "i < length (items (gn_session_histories (tu_agent s)))" "tu_history s = Session_history i"
    using arg_cong [OF others_session(2), of _ _ _ length] i by (metis length_map session_names_def)+
  then show ?thesis by (simp add: turn_history_def with_history_def history_at_def set_history_def)
qed

lemma append_step_read:
  assumes "append_step role txt s = (st, s')" "same_others h (other_histories h g) s" "names_history g n h"
  shows "\<exists>a. sc_history_append (turn_history s) (Str role) (txt s) (tu_alloc s) = (st, turn_history s', a) \<and> tu_alloc s' = a \<and>
    tu_out s' = tu_out s"
  using assms(1) with_history_read [OF assms(2,3)] by (auto simp: append_step_def with_history_def split: prod.splits)

lemma after_loop_split:
  "turn_steps v = (before_loop v @ [provider_phase v] @ take 4 (after_loop v)) @
     [append_step ''user'' (\<lambda>_. ti_input (tv_input v))] @ [append_step ''assistant'' (\<lambda>s. sc_string_as_str (ar_output (tu_out s)))] @
     drop 6 (after_loop v)"
  by (simp add: turn_steps_def after_loop_def Let_def)

lemma take_drop_others:
  "f \<in> set (before_loop v @ [provider_phase v] @ take 4 (after_loop v)) \<Longrightarrow> turn_keeps (same_others h q) f"
  by (rule turn_steps_others) (auto simp: turn_steps_def dest: in_set_takeD)

lemma after_answer_settled: "f \<in> set (drop 6 (after_loop v)) \<Longrightarrow> turn_keeps (settled h t) f"
  by (auto simp: after_loop_def Let_def intro: step_if_turn_keeps)

lemma owned_view: "str_bytes (sc_string_as_str s) = owned_text s"
  by (cases s) simp_all

lemma run_turn_answers:
  fixes v :: "('d::{zero, one, plus, ord}, 'w) turn_env"
  assumes "run_turn v s = (st, s')" "sc_status_is_ok st" "same_others h (other_histories h g) s" "names_history g n h"
    and "max_messages (turn_history s') \<noteq> 1"
  shows "\<exists>ms. items (messages (turn_history s')) =
    ms @ [\<lparr>msg_role = Some ''user'', msg_content = Some (str_bytes (ti_input (tv_input v)))\<rparr>,
      \<lparr>msg_role = Some ''assistant'', msg_content = Some (owned_text (ar_output (tu_out s')))\<rparr>]"
proof -
  let ?pre = "before_loop v @ [provider_phase v] @ take 4 (after_loop v)" and ?post = "drop 6 (after_loop v)"
  let ?u = "append_step ''user'' (\<lambda>_. ti_input (tv_input v)) :: ('d, 'w) turn_step"
  let ?p = "append_step ''assistant'' (\<lambda>s. sc_string_as_str (ar_output (tu_out s))) :: ('d, 'w) turn_step"
  obtain st0 s0 where r0: "run_steps ?pre (sc_status_ok, s) = (st0, s0)" by (cases "run_steps ?pre (sc_status_ok, s)")
  obtain st1 s1 where r1: "run_steps [?u] (st0, s0) = (st1, s1)" by (cases "run_steps [?u] (st0, s0)")
  obtain st2 s2 where r2: "run_steps [?p] (st1, s1) = (st2, s2)" by (cases "run_steps [?p] (st1, s1)")
  obtain st3 s3 where r3: "run_steps ?post (st2, s2) = (st3, s3)" by (cases "run_steps ?post (st2, s2)")
  have "run_steps (turn_steps v) (sc_status_ok, s) = run_steps ?post (run_steps [?p] (run_steps [?u] (run_steps ?pre (sc_status_ok, s))))"
    by (subst after_loop_split) (simp only: run_steps_append)
  then have "run_steps (turn_steps v) (sc_status_ok, s) = (st3, s3)" by (simp only: r0 r1 r2 r3)
  with assms(1,2) have st3: "sc_status_is_ok st3" "s' = clear_scratch s3" by (auto simp: run_turn_def)
  have ok: "sc_status_is_ok st2" "sc_status_is_ok st1" "sc_status_is_ok st0"
    using run_steps_ok [OF r3 st3(1)] run_steps_ok [OF r2] run_steps_ok [OF r1] by blast+
  have "settled (turn_history s2) (ar_output (tu_out s2)) s3"
    by (rule run_turn_steps_keep [where P = "settled (turn_history s2) (ar_output (tu_out s2))", OF after_answer_settled _ r3])
       (simp_all add: settled_def)
  then have s': "turn_history s' = turn_history s2" "ar_output (tu_out s') = ar_output (tu_out s2)"
    unfolding st3(2) by (auto simp: settled_def clear_scratch_def clear_prompt_def Let_def turn_history_def)
  have one: "?u s0 = (st1, s1)" and two: "?p s1 = (st2, s2)" using r1 r2 ok by auto
  have s0: "same_others h (other_histories h g) s0" by (rule run_turn_steps_keep [OF take_drop_others assms(3) r0])
  have s1: "same_others h (other_histories h g) s1" by (rule turn_keepsD [OF quiet_others(5) s0 one])
  from append_step_read [OF one s0 assms(4)] append_step_read [OF two s1 assms(4)]
  show ?thesis using two_appends ok(1,2) s' assms(5) by (metis owned_view)
qed

lemma history_for_turn_error: "agent_history_for_turn g session a = (Inl e, g', a') \<Longrightarrow> \<not> sc_status_is_ok e"
  by (auto simp: agent_history_for_turn_def agent_history_for_session_def split: if_splits option.splits prod.splits)

lemma process_message_answers:
  assumes "sc_agent_process_message v key g out a w = (st, g', out', a', w')" "sessions_ok g" "sc_status_is_ok st"
  shows "\<exists>x. histories g' (str_bytes (ti_session_id (tv_input v))) = Some x \<and> (max_messages x \<noteq> 1 \<longrightarrow> (\<exists>ms. items (messages x) =
    ms @ [\<lparr>msg_role = Some ''user'', msg_content = Some (str_bytes (ti_input (tv_input v)))\<rparr>,
      \<lparr>msg_role = Some ''assistant'', msg_content = Some (owned_text (ar_output out'))\<rparr>]))"
  using assms(1)
proof (cases rule: process_message_cases)
  case unplaced
  with history_for_turn_error assms(3) show ?thesis by blast
next
  case (ran ref g1 a1 w1 v1 s1)
  note spec = history_for_turn_spec [OF ran(1) assms(2)]
  have start: "same_others ref (other_histories ref g1) (turn_start key g1 ref a1 w1)" by (simp add: same_others_def turn_start_def)
  have same: "other_histories ref g' = other_histories ref g1" "tu_history s1 = ref"
    using run_turn_others [OF ran(3) start] by (simp_all add: same_others_def ran(4))
  have "histories g' (str_bytes (ti_session_id (tv_input v))) = Some (turn_history s1)"
    using others_histories(3) [OF same(1) spec(4) [OF refl] spec(1)] same(2) by (simp add: turn_history_def ran(4))
  with run_turn_answers [OF ran(3) assms(3) start spec(4) [OF refl]] show ?thesis by (simp add: ran(2,5))
qed (use assms(3) in simp_all)

section \<open>How long the histories get\<close>

definition history_within :: "nat \<Rightarrow> sc_history \<Rightarrow> bool" where
  "history_within n h \<longleftrightarrow> history_inv h \<and> max_messages h = n \<and> length (items (messages h)) \<le> n"

lemma kept_shorter: "length (kept prev ms) \<le> length ms"
  by (rule list_emb_length [OF kept_subseq])

lemma compress_shorter:
  assumes "sc_history_compress_to_recent h recent max_chars a = (st, h', a')" "history_inv h"
  shows "length (items (messages h')) \<le> length (items (messages h))"
proof -
  let ?ms = "kept False (items (messages h))" and ?r = "if recent = 0 then 1 else recent"
  have ms: "length ?ms \<le> length (items (messages h))" by (rule kept_shorter)
  have rest: "length (kept False (drop (length ?ms - ?r) ?ms)) \<le> ?r" by (rule le_trans [OF kept_shorter]) simp
  show ?thesis
  proof (cases "sc_status_is_ok st \<and> length ?ms > ?r")
    case True
    with compress_spec(2) [OF assms] obtain s where
      "items (messages h') = \<lparr>msg_role = Some ''system'', msg_content = Some s\<rparr> # kept False (drop (length ?ms - ?r) ?ms)" by auto
    then have "length (items (messages h')) \<le> Suc ?r" using rest by (simp del: length_drop)
    with True ms show ?thesis by simp
  next
    case False
    with compress_spec(2) [OF assms] ms show ?thesis by (simp split: if_splits)
  qed
qed

lemma compress_for_budget_shorter:
  assumes "compress_for_budget h max_chars a = (st, h', a')" "history_inv h"
  shows "length (items (messages h')) \<le> length (items (messages h))"
  using assms compress_shorter by (auto simp: compress_for_budget_def Let_def split: if_splits)

lemma prune_to_budget_within:
  assumes "sc_history_prune_to_budget h max_chars a = (st, h', a')" "history_within n h"
  shows "history_within n h'"
proof -
  have inv: "history_inv h" using assms(2) by (simp add: history_within_def)
  obtain h1 a1 where p: "sc_history_prune_orphans h a = (h1, a1)" by (cases "sc_history_prune_orphans h a")
  note pr = prune_orphans_spec [OF p inv]
  have inv1: "history_inv h1" using pr(1) by (simp add: rebuilt_def)
  obtain s2 h2 a2 where c: "compress_for_budget h1 max_chars a1 = (s2, h2, a2)" by (cases "compress_for_budget h1 max_chars a1")
  have inv2: "history_inv h2"
    using compress_for_budget_spec(1) [OF c inv1] kept_no_orphans pr(2) by (simp add: rebuilt_def)
  obtain h3 a3 where r: "remove_oldest_while (\<lambda>ms. estimated_chars ms > max_chars) h2 a2 = (h3, a3)"
    by (cases "remove_oldest_while (\<lambda>ms. estimated_chars ms > max_chars) h2 a2")
  have inv3: "history_inv h3" using remove_oldest_while_spec(1) [OF r inv2] by (simp add: rebuilt_def)
  obtain h4 a4 where po: "sc_history_prune_orphans h3 a3 = (h4, a4)" by (cases "sc_history_prune_orphans h3 a3")
  obtain h5 a5 where e: "remove_oldest_while (\<lambda>ms. length ms > 0) h1 a1 = (h5, a5)" by (cases "remove_oldest_while (\<lambda>ms. length ms > 0) h1 a1")
  have len: "length (items (messages h1)) \<le> length (items (messages h))" "length (items (messages h2)) \<le> length (items (messages h1))"
    "length (items (messages h3)) \<le> length (items (messages h2))" "length (items (messages h4)) \<le> length (items (messages h3))"
    "length (items (messages h5)) \<le> length (items (messages h1))"
    using compress_for_budget_shorter [OF c inv1] remove_oldest_while_spec(2) [OF r inv2] remove_oldest_while_spec(2) [OF e inv1]
    by (auto simp: pr(2) prune_orphans_spec(2) [OF po inv3] kept_shorter)
  have "h' = h1 \<or> h' = h2 \<or> h' = h4 \<or> h' = h5"
    using assms(1) p c r po e by (auto simp: sc_history_prune_to_budget_def split: if_splits)
  with len assms(2) prune_to_budget_spec(1) [OF assms(1) inv] show ?thesis by (auto simp: history_within_def rebuilt_def)
qed

lemma append_within:
  assumes "sc_history_append h (Str role) content a = (st, h', a')" "history_within n h" "role \<notin> {[], ''tool'', ''tool_result''}" "n > 0"
  shows "history_within n h'"
proof (cases "sc_status_is_ok st")
  case True
  with assms append_spec(1,3) [OF assms(1)] history_append_items(1) [OF assms(1) _ assms(3)] show ?thesis by (simp add: history_within_def)
next
  case False
  with assms append_spec(4) [OF assms(1)] show ?thesis by (simp add: history_within_def)
qed

text \<open>The history of the turn stays within the limit at every step, whether or not the step succeeds.\<close>

definition turn_within :: "nat \<Rightarrow> history_ref \<Rightarrow> ('d, 'w) agent \<Rightarrow> ('d, 'w) turn_state \<Rightarrow> bool" where
  "turn_within n h g s \<longleftrightarrow> same_others h (other_histories h g) s \<and> history_within n (turn_history s)"

lemma turn_within_upd [simp]:
  "turn_within n h g (s\<lparr>tu_alloc := a\<rparr>) = turn_within n h g s"
  "turn_within n h g (s\<lparr>tu_world := w\<rparr>) = turn_within n h g s"
  "turn_within n h g (s\<lparr>tu_prompt := p\<rparr>) = turn_within n h g s"
  "turn_within n h g (s\<lparr>tu_memory_context := m\<rparr>) = turn_within n h g s"
  "turn_within n h g (s\<lparr>tu_out := x\<rparr>) = turn_within n h g s"
  "gn_history g' = gn_history (tu_agent s) \<Longrightarrow> gn_session_histories g' = gn_session_histories (tu_agent s) \<Longrightarrow>
   turn_within n h g (s\<lparr>tu_agent := g'\<rparr>) = turn_within n h g s"
  by (simp_all add: turn_within_def turn_history_def history_at_def split: history_ref.splits)

lemma turn_within_history: "turn_within n h g s \<Longrightarrow> names_history g k h \<Longrightarrow> history_within n x \<Longrightarrow> turn_within n h g (with_history s x a)"
  using with_history_read [of h g s k x a] by (auto simp: turn_within_def)

lemma quiet_within [intro]:
  "turn_keeps (turn_within n h g) (tell v ty name msg st_code)"
  "turn_keeps (turn_within n h g) (observe nm txt)"
  "turn_keeps (turn_within n h g) (check_step v)"
  "turn_keeps (turn_within n h g) (memory_context_step v)"
  "turn_keeps (turn_within n h g) receipt_block_step"
  "turn_keeps (turn_within n h g) strip_step"
  "turn_keeps (turn_within n h g) (build_prompt v)"
  "turn_keeps (turn_within n h g) (\<lambda>s. build_prompt v (clear_prompt s))"
  "turn_keeps (turn_within n h g) (\<lambda>s. (sc_status_ok, clear_scratch s))"
  by (rule turn_keepsI, auto simp: tell_def observe_def check_step_def memory_context_step_def receipt_block_step_def strip_step_def
    build_prompt_def clear_prompt_def clear_scratch_def Let_def split: prod.splits sum.splits if_splits)+

lemma switch_within [intro]: "turn_keeps (turn_within n h g) (apply_model_switch v)"
  by (rule turn_keepsI) (auto simp: apply_model_switch_def Let_def dest!: turn_keepsD [OF quiet_within(1), rotated]
    split: option.splits prod.splits sum.splits if_splits)

lemma persist_within [intro]: "turn_keeps (turn_within n h g) (persist_turn v)"
  by (rule turn_keepsI) (auto simp: persist_turn_def Let_def split: prod.splits if_splits)

lemma loop_within [intro]: "turn_keeps (turn_within n h g) (loop_step_of_turn v)"
  by (rule turn_keepsI) (auto simp: loop_step_of_turn_def Let_def split: prod.splits)


lemma history_for_turn_items:
  assumes "agent_history_for_turn g session a = (r, g', a')" "sessions_ok g"
  shows "gn_history g' = gn_history g \<and> (items (gn_session_histories g') = items (gn_session_histories g) \<or>
    (\<exists>s. items (gn_session_histories g') = items (gn_session_histories g) @
      [\<lparr>sh_session_id = s, sh_history = sc_history_init (max_messages (gn_history g))\<rparr>]))"
proof -
  have inv: "vec_inv (gn_session_histories g)" using assms(2) by (simp add: sessions_ok_def)
  show ?thesis
    using assms(1)
    by (auto dest: vec_push_spec(4,5) [OF _ inv] simp: agent_history_for_turn_def agent_history_for_session_def push_filled_def fill_def sc_string_from_str_def
      split: if_splits option.splits prod.splits sum.splits)
qed

lemma history_for_turn_new:
  assumes "agent_history_for_turn g session a = (r, g', a')" "sessions_ok g" "histories g k = None" "histories g' k = Some x"
  shows "x = sc_history_init (max_messages (gn_history g))"
proof -
  have k: "k \<noteq> []" using assms(3) by (auto simp: histories_def)
  from history_for_turn_items [OF assms(1,2)] assms(3,4) show ?thesis
    by (auto simp: histories_alt [OF k] find_first_append split: if_splits option.splits)
qed


lemma append_step_within:
  assumes "names_history g k h" "role \<notin> {[], ''tool'', ''tool_result''}" "n > 0"
  shows "turn_keeps (turn_within n h g) (append_step role txt)"
proof (rule turn_keepsI)
  fix s st s'
  assume s: "turn_within n h g s" and run: "append_step role txt s = (st, s')"
  then obtain h' a where "sc_history_append (turn_history s) (Str role) (txt s) (tu_alloc s) = (st, h', a)" "s' = with_history s h' a"
    by (auto simp: append_step_def split: prod.splits)
  with append_within [OF _ _ assms(2,3)] turn_within_history [OF s assms(1)] s show "turn_within n h g s'" by (auto simp: turn_within_def)
qed

lemma prune_step_within:
  assumes "names_history g k h"
  shows "turn_keeps (turn_within n h g) (prune_history_for_prompt_budget v)"
proof (rule turn_keepsI)
  fix s st s'
  assume s: "turn_within n h g s" and run: "prune_history_for_prompt_budget v s = (st, s')"
  obtain st1 h1 a where p: "sc_history_prune_to_budget (turn_history s) (turn_budget v s) (tu_alloc s) = (st1, h1, a)" by (metis prod.exhaust)
  have "history_within n h1" using prune_to_budget_within [OF p] s by (simp add: turn_within_def)
  from turn_within_history [OF s assms this] have s1: "turn_within n h g (with_history s h1 a)" .
  from run p show "turn_within n h g s'"
    using s1 turn_keepsD [OF quiet_within(1) s1] by (auto simp: prune_history_for_prompt_budget_def Let_def split: if_splits)
qed

lemma overflow_compress_within:
  assumes "overflow_compress h budget a = (st, h', a')" "history_within n h"
  shows "history_within n h'"
proof (cases "length (items (messages h)) > 1")
  case True
  then obtain recent chars where "sc_history_compress_to_recent h recent chars a = (st, h', a')"
    using assms(1) unfolding overflow_compress_def Let_def by (metis (full_types))
  with compress_spec(1) [OF this] compress_shorter [OF this] assms(2) show ?thesis by (auto simp: history_within_def rebuilt_def)
qed (use assms in \<open>simp add: overflow_compress_def\<close>)

lemma compact_step_within:
  assumes "names_history g k h"
  shows "turn_keeps (turn_within n h g) (compact_history_for_overflow_retry v)"
proof (rule turn_keepsI)
  fix s st s'
  assume s: "turn_within n h g s" and run: "compact_history_for_overflow_retry v s = (st, s')"
  obtain b where run: "(if items (messages (turn_history s)) = [] then (sc_status_ok, s)
      else (case overflow_compress (turn_history s) b (tu_alloc s) of
        (st1, h1, a1) \<Rightarrow> (if \<not> sc_status_is_ok st1 then (st1, with_history s h1 a1)
          else (case sc_history_prune_to_budget h1 b a1 of
            (st2, h2, a2) \<Rightarrow> (if sc_status_is_ok st2
              then tell v SC_TURN_EVENT_PROMPT_BUILT (Str ''prompt.context_compacted'') (Str ''overflow_retry'') SC_OK (with_history s h2 a2)
              else (st2, with_history s h2 a2)))))) = (st, s')"
    using run by (auto simp: compact_history_for_overflow_retry_def Let_def)
  obtain st1 h1 a1 where c: "overflow_compress (turn_history s) b (tu_alloc s) = (st1, h1, a1)" by (metis prod.exhaust)
  obtain st2 h2 a2 where p: "sc_history_prune_to_budget h1 b a1 = (st2, h2, a2)" by (metis prod.exhaust)
  have within: "history_within n h1" "history_within n h2"
    using overflow_compress_within [OF c] prune_to_budget_within [OF p] s by (auto simp: turn_within_def)
  note s2 = turn_within_history [OF s assms within(1), of a1] turn_within_history [OF s assms within(2), of a2]
  from run show "turn_within n h g s'" using s s2 turn_keepsD [OF quiet_within(1) s2(2)] by (auto simp: c p split: if_splits)
qed

lemma provider_phase_within:
  assumes "names_history g k h"
  shows "turn_keeps (turn_within n h g) (provider_phase v)"
proof (rule turn_keepsI)
  fix s st s'
  assume s: "turn_within n h g s" and run: "provider_phase v s = (st, s')"
  obtain c s0 where c: "check_step v s = (c, s0)" by (cases "check_step v s")
  have s0: "turn_within n h g s0" using turn_keepsD [OF quiet_within(3) s c] .
  obtain st1 s1 where l: "loop_step_of_turn v s0 = (st1, s1)" by (cases "loop_step_of_turn v s0")
  have s1: "turn_within n h g s1" using turn_keepsD [OF loop_within s0 l] .
  let ?fs = "[compact_history_for_overflow_retry v, \<lambda>s. build_prompt v (clear_prompt s),
      tell v SC_TURN_EVENT_PROMPT_BUILT (Str ''prompt.context_trimmed'') (Str ''built'') SC_OK, check_step v, loop_step_of_turn v]"
  have retry: "turn_within n h g s2" if "run_steps ?fs (sc_status_ok, s1) = (st2, s2)" for st2 s2
    by (rule run_turn_steps_keep [where P = "turn_within n h g", OF _ s1 that]) (auto intro: compact_step_within [OF assms])
  from run c l have "s' = s0 \<or> s' = s1 \<or> run_steps ?fs (sc_status_ok, s1) = (st, s')"
    by (simp add: provider_phase_def split: if_splits)
  with s0 s1 retry show "turn_within n h g s'" by blast
qed

lemma run_turn_within:
  assumes "run_turn v s = (st, s')" "turn_within n h g s" "names_history g k h" "n > 0"
  shows "turn_within n h g s'"
proof -
  have steps: "turn_keeps (turn_within n h g) f" if "f \<in> set (turn_steps v)" for f
    using that by (auto simp: turn_steps_def before_loop_def after_loop_def Let_def
      intro: step_if_turn_keeps append_step_within [OF assms(3) _ assms(4)] prune_step_within [OF assms(3)] provider_phase_within [OF assms(3)])
  obtain st1 s1 where r: "run_steps (turn_steps v) (sc_status_ok, s) = (st1, s1)" by (cases "run_steps (turn_steps v) (sc_status_ok, s)")
  have s1: "turn_within n h g s1" by (rule run_turn_steps_keep [OF steps assms(2) r])
  have "turn_within n h g (report_failure v st1 s1)"
    unfolding report_failure_def Let_def
    by (rule turn_keepsD [OF quiet_within(2) _ prod.collapse [symmetric]], rule turn_keepsD [OF quiet_within(1) _ prod.collapse [symmetric]])
      (use s1 in simp)
  with s1 assms(1) r show ?thesis by (auto simp: run_turn_def clear_scratch_def clear_prompt_def Let_def split: if_splits)
qed

text \<open>The invariant of an agent between its turns.\<close>

definition agent_inv :: "nat \<Rightarrow> ('d, 'w) agent \<Rightarrow> bool" where
  "agent_inv n g \<longleftrightarrow> sessions_ok g \<and> (\<forall>k x. histories g k = Some x \<longrightarrow> history_within n x)"

lemma history_for_turn_within:
  assumes "agent_history_for_turn g session a = (r, g', a')" "agent_inv n g"
  shows "agent_inv n g'"
proof -
  have ok: "sessions_ok g" and all: "\<And>k x. histories g k = Some x \<Longrightarrow> history_within n x" using assms(2) by (auto simp: agent_inv_def)
  note spec = history_for_turn_spec [OF assms(1) ok]
  have "max_messages (gn_history g) = n" using all [of "[]" "gn_history g"] by (simp add: histories_def history_within_def)
  have "history_within n x" if x: "histories g' k = Some x" for k x
  proof (cases "k \<noteq> str_bytes session \<or> histories g k \<noteq> None")
    case True
    with spec(2) [OF this] x all show ?thesis by simp
  next
    case False
    from history_for_turn_new [OF assms(1) ok] False x have "x = sc_history_init n" using \<open>max_messages (gn_history g) = n\<close> by auto
    then show ?thesis by (simp add: history_within_def sc_history_init_def history_inv_def)
  qed
  with spec(1) show ?thesis by (simp add: agent_inv_def)
qed

lemma others_inv:
  assumes "agent_inv n g" "names_history g k h" "other_histories h g' = other_histories h g" "history_within n (history_at g' h)"
  shows "agent_inv n g'"
proof -
  have ok: "sessions_ok g" using assms(1) by (simp add: agent_inv_def)
  note same = others_histories [OF assms(3,2) ok]
  have "history_within n x" if "histories g' j = Some x" for j x
    using that same(2) [of j] same(3) assms(1,4) by (cases "j = k") (auto simp: agent_inv_def)
  with same(1) show ?thesis by (simp add: agent_inv_def)
qed

lemma process_message_inv:
  assumes "sc_agent_process_message v key g out a w = (st, g', out', a', w')" "agent_inv n g" "n > 0"
  shows "agent_inv n g'"
proof -
  have ok: "sessions_ok g" using assms(2) by (simp add: agent_inv_def)
  have start: "turn_within n ref g1 ((turn_start key g1 ref a1 w1)\<lparr>tu_out := x\<rparr>)" "agent_inv n g1" "names_history g1 (str_bytes (ti_session_id (tv_input v))) ref"
    if h: "agent_history_for_turn g (ti_session_id (tv_input v)) a = (Inr ref, g1, a1)" for ref g1 a1 w1 x
  proof -
    note spec = history_for_turn_spec [OF h ok]
    show inv: "agent_inv n g1" by (rule history_for_turn_within [OF h assms(2)])
    show names: "names_history g1 (str_bytes (ti_session_id (tv_input v))) ref" by (rule spec(4) [OF refl])
    have "history_within n (history_at g1 ref)" using others_histories(3) [OF refl names spec(1)] inv by (simp add: agent_inv_def)
    then show "turn_within n ref g1 ((turn_start key g1 ref a1 w1)\<lparr>tu_out := x\<rparr>)"
      by (simp add: turn_within_def same_others_def turn_start_def turn_history_def)
  qed
  have ends: "agent_inv n (tu_agent s)"
    if "agent_history_for_turn g (ti_session_id (tv_input v)) a = (Inr ref, g1, a1)" "turn_within n ref g1 s" for ref g1 a1 s
    by (rule others_inv [OF start(2,3) [OF that(1)]]) (use that(2) in \<open>auto simp: turn_within_def same_others_def turn_history_def\<close>)
  from assms(1) show ?thesis
  proof (cases rule: process_message_cases)
    case unplaced
    show ?thesis by (rule history_for_turn_within [OF unplaced(1) assms(2)])
  next
    case (cancelled ref g1 a1 w1 v1 s1)
    from start(1) [OF cancelled(1)] cancelled(3) have "turn_within n ref g1 s1" by simp
    from ends [OF cancelled(1) turn_keepsD [OF quiet_within(1) this prod.collapse [symmetric]]] show ?thesis by (simp add: cancelled(4))
  next
    case (ran ref g1 a1 w1 v1 s1)
    have "turn_within n ref g1 (turn_start key g1 ref a1 w1)" using start(1) [OF ran(1), of "sc_agent_turn_result_init key" w1] by (simp add: turn_start_def)
    from ends [OF ran(1) run_turn_within [OF ran(3) this start(3) [OF ran(1)] assms(3)]] show ?thesis by (simp add: ran(4))
  qed (use assms(2) in simp)
qed


section \<open>Making and destroying an agent\<close>

definition session_blocks :: "agent_session_history \<Rightarrow> int" where
  "session_blocks s = string_blocks (sh_session_id s) + history_blocks (sh_history s)"

definition agent_blocks :: "('d, 'w) agent \<Rightarrow> int" where
  "agent_blocks g = vec_blocks (gn_tools g) + history_blocks (gn_history g) + vec_blocks (gn_session_histories g) +
     sum_list (map session_blocks (items (gn_session_histories g))) + sum_list (map string_blocks (agent_strings g))"

lemma clear_each_live:
  "(\<And>q a. q \<in> set qs \<Longrightarrow> live (clear q a) = live a - B q) \<Longrightarrow> live (clear_each clear qs a) = live a - sum_list (map B qs)"
  by (induction qs arbitrary: a) auto

lemma agent_destroy_live:
  assumes "vec_inv (gn_tools g)" "history_inv (gn_history g)" "vec_inv (gn_session_histories g)"
    "\<forall>s \<in> set (items (gn_session_histories g)). history_inv (sh_history s)"
  shows "live (sc_agent_destroy g a) = live a - agent_blocks g - 1"
proof -
  have "live (clear_each agent_session_history_clear (items (gn_session_histories g)) b) =
      live b - sum_list (map session_blocks (items (gn_session_histories g)))" for b
    by (rule clear_each_live) (use assms(4) in \<open>simp add: agent_session_history_clear_def history_clear_live session_blocks_def\<close>)
  moreover have "live (clear_each sc_string_clear qs b) = live b - sum_list (map string_blocks qs)" for qs b
    by (rule clear_each_live) simp
  ultimately show ?thesis
    using assms(1-3) by (simp add: sc_agent_destroy_def Let_def vec_clear_live history_clear_live agent_blocks_def)
qed

lemma option_string_filled:
  assumes "filled B k R Q s"
    and "\<And>q t. Q q \<Longrightarrow> R q \<Longrightarrow> B (put (Some t) q) = B q + 1 \<and> R (put (Some t) q) \<and> Q' (put (Some t) q)"
  shows "filled B k R Q' (fill (\<lambda>_. copy_option_string v fallback) put s)"
proof (rule fill_filled [OF assms(1)])
  fix q a e a'
  assume "copy_option_string v fallback a = (Inl e, a')"
  then show "\<not> sc_status_is_ok e \<and> live a' = live a" unfolding copy_option_string_def by (rule string_from_str_Inl)
next
  fix q a s a'
  assume q: "Q q" "R q" and "copy_option_string v fallback a = (Inr s, a')"
  then obtain t where "s = Some t" "live a' = live a + 1" unfolding copy_option_string_def by (auto dest: string_from_str_Inr)
  with assms(2) [OF q] show "live a' = live a + (B (put s q) - B q) \<and> R (put s q) \<and> Q' (put s q)" by simp
qed

definition fresh_agent :: "('d, 'w) sc_agent_options \<Rightarrow> ('d, 'w) agent \<Rightarrow> bool" where
  "fresh_agent options g \<longleftrightarrow> gn_history g = gn_history (agent_zero options) \<and> gn_session_histories g = gn_session_histories (agent_zero options) \<and>
     vec_inv (gn_tools g) \<and> gn_cached_tool_specs_json g = None"

definition strings_set :: "nat \<Rightarrow> ('d, 'w) agent \<Rightarrow> bool" where
  "strings_set n g \<longleftrightarrow> items (gn_tools g) = [] \<and> list_all2 (\<lambda>i s. (s \<noteq> None) = (i < n)) [0 ..< 6]
     [gn_model g, gn_identity g, gn_workspace g, gn_runtime_environment g, gn_memory_namespace g, gn_turn_namespace g]"

lemma agent_strings_filled:
  "filled agent_blocks (live a) (fresh_agent options) (strings_set 6) (agent_strings_step options (agent_zero options) a)"
proof -
  have start: "filled agent_blocks (live a) (fresh_agent options) (strings_set 0) (sc_status_ok, agent_zero options, a)"
    by (simp add: filled_def fresh_agent_def strings_set_def upt_rec agent_blocks_def agent_strings_def agent_zero_def history_blocks_def
      sc_history_init_def sc_vec_init_def vec_blocks_def string_blocks_def vec_inv_def)
  show ?thesis
    unfolding agent_strings_step_def
    apply (rule option_string_filled [where Q = "strings_set 5"], rule option_string_filled [where Q = "strings_set 4"],
      rule option_string_filled [where Q = "strings_set 3"], rule option_string_filled [where Q = "strings_set 2"],
      rule option_string_filled [where Q = "strings_set 1"], rule option_string_filled [where Q = "strings_set 0"], rule start)
    by (auto simp: strings_set_def fresh_agent_def agent_blocks_def agent_strings_def string_blocks_def upt_rec)
qed

lemma copy_tools_filled:
  assumes "filled agent_blocks k (fresh_agent options) (\<lambda>g. items (gn_tools g) = ts0) (sc_status_ok, g, a)"
  shows "filled agent_blocks k (fresh_agent options) (\<lambda>g. items (gn_tools g) = ts0 @ ts) (agent_copy_tools ts g a)"
  using assms
proof (induction ts g a arbitrary: ts0 rule: agent_copy_tools.induct)
  case (3 t ts g a)
  obtain st v a1 where push: "sc_vec_push (gn_tools g) (Some (Some t)) a = (st, v, a1)" by (cases "sc_vec_push (gn_tools g) (Some (Some t)) a")
  have inv: "vec_inv (gn_tools g)" "items (gn_tools g) = ts0" using 3(2) by (simp_all add: filled_def fresh_agent_def)
  note p = vec_push_spec [OF push inv(1)]
  have step: "filled agent_blocks k (fresh_agent options) (\<lambda>g. items (gn_tools g) = ts0 @ [Some t]) (st, g\<lparr>gn_tools := v\<rparr>, a1)"
    using 3(2) p inv(2) by (auto simp: filled_def fresh_agent_def agent_blocks_def agent_strings_def)
  show ?case
  proof (cases "sc_status_is_ok st")
    case True
    with step have "filled agent_blocks k (fresh_agent options) (\<lambda>g. items (gn_tools g) = ts0 @ [Some t]) (sc_status_ok, g\<lparr>gn_tools := v\<rparr>, a1)"
      by (simp add: filled_def)
    from 3(1) [OF push [symmetric] refl True this] True push show ?thesis by simp
  next
    case False
    with step push show ?thesis by (simp add: filled_def)
  qed
qed (simp_all add: filled_def)

lemma agent_new_spec:
  assumes "sc_agent_new options a = (r, a')"
  shows "case r of Inl e \<Rightarrow> \<not> sc_status_is_ok e \<and> live a' = live a
    | Inr g \<Rightarrow> op_provider options \<noteq> None \<and> fresh_agent options g \<and> items (gn_tools g) = op_tools options \<and> live a' = live a + agent_blocks g + 1"
proof (cases "op_provider options = None")
  case True
  with assms show ?thesis by (auto simp: sc_agent_new_def)
next
  case provider: False
  obtain b a1 where al: "sc_alloc SIZEOF_AGENT a = (b, a1)" by (cases "sc_alloc SIZEOF_AGENT a")
  show ?thesis
  proof (cases b)
    case False
    with assms provider al alloc_cases [OF al] show ?thesis by (auto simp: sc_agent_new_def)
  next
    case True
    obtain st g a2 where s: "agent_strings_step options (agent_zero options) a1 = (st, g, a2)"
      by (cases "agent_strings_step options (agent_zero options) a1")
    obtain st2 g2 a3 where t: "(if sc_status_is_ok st then agent_copy_tools (op_tools options) g a2 else (st, g, a2)) = (st2, g2, a3)" by (metis prod.exhaust)
    have f1: "filled agent_blocks (live a1) (fresh_agent options) (\<lambda>g. items (gn_tools g) = []) (st, g, a2)"
      using agent_strings_filled [of a1 options] s by (auto simp: filled_def strings_set_def)
    have f2: "filled agent_blocks (live a1) (fresh_agent options) (\<lambda>g. items (gn_tools g) = op_tools options) (st2, g2, a3)"
    proof (cases "sc_status_is_ok st")
      case True
      with f1 have "filled agent_blocks (live a1) (fresh_agent options) (\<lambda>g. items (gn_tools g) = []) (sc_status_ok, g, a2)" by (simp add: filled_def)
      from copy_tools_filled [OF this, of "op_tools options"] t True show ?thesis by simp
    next
      case False
      with f1 t show ?thesis by (auto simp: filled_def)
    qed
    have live: "live a1 = live a + 1" using alloc_cases [OF al] True by simp
    have "live (sc_agent_destroy g2 a3) = live a3 - agent_blocks g2 - 1"
      by (rule agent_destroy_live) (use f2 in \<open>simp_all add: filled_def fresh_agent_def agent_zero_def sc_vec_init_def vec_inv_def SIZEOF_SESSION_HISTORY_def\<close>)
    with assms provider al True s t f2 live show ?thesis by (auto simp: sc_agent_new_def filled_def split: if_splits)
  qed
qed

lemma fresh_agent_inv: "fresh_agent options g \<Longrightarrow> agent_inv (or_default (op_max_history_messages options) 16) g"
  by (auto simp: fresh_agent_def agent_inv_def sessions_ok_def session_names_def histories_def agent_zero_def history_within_def sc_vec_init_def
    SIZEOF_SESSION_HISTORY_def vec_inv_def sc_history_init_def history_inv_def)

section \<open>Sequences of turns\<close>

text \<open>
  The agents reached from \<open>g\<close> by serving messages, the newest last. Allocator, world and the result that is passed in are
  arbitrary for each message: other code may run between two turns.
\<close>

inductive served :: "('d::{zero, one, plus, ord}, 'w) agent \<Rightarrow> ('d, 'w) turn_env list \<Rightarrow> ('d, 'w) agent \<Rightarrow> bool" for g where
  none: "served g [] g"
| turn: "served g vs g1 \<Longrightarrow> sc_agent_process_message v key g1 out a w = (st, g2, out', a', w') \<Longrightarrow> served g (vs @ [v]) g2"

lemma served_inv: "served g vs g' \<Longrightarrow> agent_inv n g \<Longrightarrow> n > 0 \<Longrightarrow> agent_inv n g'"
  by (induction rule: served.induct) (auto intro: process_message_inv)

lemma new_agent_inv:
  assumes "sc_agent_new options a = (Inr g, a')"
  shows "agent_inv (or_default (op_max_history_messages options) 16) g"
  using agent_new_spec [OF assms] by (simp add: fresh_agent_inv)

lemma served_new_inv:
  assumes "sc_agent_new options a = (Inr g0, a0)" "served g0 vs g"
  shows "agent_inv (or_default (op_max_history_messages options) 16) g"
  by (rule served_inv [OF assms(2) new_agent_inv [OF assms(1)]]) (simp add: or_default_def)

lemma served_others:
  assumes "served g vs g'" "sessions_ok g" "\<forall>v \<in> set vs. str_bytes (ti_session_id (tv_input v)) \<noteq> k"
  shows "sessions_ok g' \<and> histories g' k = histories g k"
  using assms
proof (induction rule: served.induct)
  case (turn vs g1 v key out a w st g2 out' a' w')
  then have "sessions_ok g1 \<and> histories g1 k = histories g k" by simp
  with process_message_others [OF turn.hyps(2), of k] turn.prems show ?case by auto
qed simp

end
