(* ===== verification/SC_Turn_Properties.thy ===== *)
theory SC_Turn_Properties
  imports "HOL-Library.Code_Target_Numeral" SC_Agent_Sessions SC_Providers
begin

text \<open>
  The properties of the agent and its turns (\<^verbatim>\<open>src/src/runtime/agent.c\<close>): making and destroying an agent, the sessions, the
  messages a turn leaves behind, the number of provider calls, and turns without memory. The witnesses run an agent with the
  mock provider.
\<close>

text \<open>An agent with the mock provider and no tools, and a message to it.\<close>

definition turn_options :: "(int, unit) sc_agent_options" where
  "turn_options = \<lparr>op_provider = Some (mock_vtab (\<lambda>_. None) \<lparr>mock_mode = SC_PROVIDER_MOCK_TEXT, mock_text = Some ''t''\<rparr>),
     op_memory = None, op_tools = [], op_observer = None, op_policy = None, op_model = NullStr 0, op_identity = NullStr 0, op_workspace = NullStr 0,
     op_runtime_environment = NullStr 0, op_memory_namespace = NullStr 0, op_turn_namespace = NullStr 0, op_max_history_messages = 0,
     op_max_memory_entries = 0, op_max_prompt_bytes = 1, op_max_tool_iterations = 0, op_max_tool_output_bytes = 0,
     op_deterministic_prompts = True, op_include_wall_time = False, op_default_timeout_ms = 0\<rparr>"

definition message_to :: "string \<Rightarrow> (int, unit) turn_env" where
  "message_to session =
     \<lparr>tv_runtime = \<lparr>rt_monotonic = (\<lambda>w. (Some (1, 0), w)), rt_wall = (\<lambda>w. (Some (1, 0), w)),
        rt_sodium = \<lparr>hmac = (\<lambda>key msg. [length msg]), base64 = (\<lambda>bs. map (\<lambda>_. CHR ''b'') bs)\<rparr>, rt_set_override = (\<lambda>_ w. w)\<rparr>,
      tv_gmtime = (\<lambda>_. None), tv_strtod = (\<lambda>_. None), tv_fmt = (\<lambda>_. None),
      tv_turn = \<lparr>tn_cancel_requested = (\<lambda>_. False), tn_media_count = 0, tn_media_context = Str [], tn_allowed_tools = [], tn_denied_tools = [],
        tn_autonomy_override = None, tn_max_total_tokens = 0, tn_max_cost_usd = 0, tn_route_hint = Str [], tn_request_tool_approval = None,
        tn_event_callback = None, tn_disable_memory = True\<rparr>,
      tv_input = \<lparr>ti_input = Str ''hi'', ti_session_id = Str session, ti_model_switch = None, ti_timeout_ms = 0\<rparr>, tv_deadline_ns = 0\<rparr>"

definition first_turn :: "string \<Rightarrow> sc_status \<times> (int, unit) agent \<times> int sc_agent_turn_result \<times> sc_allocator \<times> unit" where
  "first_turn session =
     (case sc_agent_new turn_options heap0 of
        (Inl e, a) \<Rightarrow> (e, agent_zero turn_options, sc_agent_turn_result_init None, a, ())
      | (Inr g, a) \<Rightarrow> sc_agent_process_message (message_to session) None g (sc_agent_turn_result_init None) a ())"

lemma turn_agent: "\<exists>g a. sc_agent_new turn_options heap0 = (Inr g, a)"
proof -
  have "case fst (sc_agent_new turn_options heap0) of Inl e \<Rightarrow> False | Inr g \<Rightarrow> True" by code_simp
  then show ?thesis by (cases "sc_agent_new turn_options heap0") (auto split: sum.splits)
qed

lemma first_turn_ok: "sc_status_is_ok (fst (first_turn ''s''))"
  by code_simp

lemma first_turn_run:
  obtains g a0 st g' out' a' where "sc_agent_new turn_options heap0 = (Inr g, a0)" "first_turn session = (st, g', out', a', ())"
    "sc_agent_process_message (message_to session) None g (sc_agent_turn_result_init None) a0 () = (st, g', out', a', ())"
proof -
  obtain g a0 where new: "sc_agent_new turn_options heap0 = (Inr g, a0)" using turn_agent by blast
  obtain st g' out' a' w' where run: "sc_agent_process_message (message_to session) None g (sc_agent_turn_result_init None) a0 () = (st, g', out', a', w')"
    by (metis prod.exhaust)
  from that [OF new _ run [unfolded unit_eq [of w']]] new run show thesis by (simp add: first_turn_def)
qed

text \<open>C4. The history of a session is touched only by turns of that session: whatever messages an agent has served since it was made,
  serving any further messages of other sessions, failed, cancelled and retried ones included, leaves the session's history, or its
  absence, as it was; turns without a session id have the agent's own history, which is no session's.\<close>

theorem session_untouched_by_others:
  assumes "sc_agent_new options a0 = (Inr g0, a1)" "served g0 vs g" "served g ws g'"
    and "\<forall>v \<in> set ws. str_bytes (ti_session_id (tv_input v)) \<noteq> k"
  shows "histories g' k = histories g k"
proof -
  have "sessions_ok g" using served_new_inv [OF assms(1,2)] by (simp add: agent_inv_def)
  from served_others [OF assms(3) this assms(4)] show ?thesis by simp
qed

theorem session_untouched_witness: "histories (fst (snd (first_turn ''s''))) ''t'' = None"
proof -
  obtain g a0 st g' out' a' where new: "sc_agent_new turn_options heap0 = (Inr g, a0)" and first: "first_turn ''s'' = (st, g', out', a', ())"
    and run: "sc_agent_process_message (message_to ''s'') None g (sc_agent_turn_result_init None) a0 () = (st, g', out', a', ())"
    by (rule first_turn_run)
  have served: "served g [message_to ''s''] g'" using served.turn [OF served.none run] by simp
  have "histories g' ''t'' = histories g ''t''"
    by (rule session_untouched_by_others [OF new served.none served]) (simp add: message_to_def)
  moreover have "histories g ''t'' = None"
    using agent_new_spec [OF new] by (simp add: fresh_agent_def histories_def session_names_def agent_zero_def sc_vec_init_def)
  ultimately show ?thesis by (simp add: first)
qed

text \<open>C6. A turn that succeeds leaves its message and the answer it returned as the two newest entries of its session's history, and of
  no other, unless the history is limited to a single message: after any messages the agent has served before, with pruning and the
  retry after a context overflow in between.\<close>

theorem turn_answer_recorded:
  assumes "sc_agent_new options a0 = (Inr g0, a1)" "served g0 vs g" "op_max_history_messages options \<noteq> 1"
    and "sc_agent_process_message v key g out a w = (st, g', out', a', w')" "sc_status_is_ok st"
  shows "\<exists>x ms. histories g' (str_bytes (ti_session_id (tv_input v))) = Some x \<and>
    items (messages x) = ms @ [\<lparr>msg_role = Some ''user'', msg_content = Some (str_bytes (ti_input (tv_input v)))\<rparr>,
      \<lparr>msg_role = Some ''assistant'', msg_content = Some (owned_text (ar_output out'))\<rparr>]"
proof -
  note inv = served_new_inv [OF assms(1,2)]
  then have ok: "sessions_ok g" by (simp add: agent_inv_def)
  have "agent_inv (or_default (op_max_history_messages options) 16) g'"
    by (rule process_message_inv [OF assms(4) inv]) (simp add: or_default_def)
  then have "max_messages x \<noteq> 1" if "histories g' k = Some x" for k x
    using that assms(3) by (auto simp: agent_inv_def history_within_def or_default_def)
  with process_message_answers [OF assms(4) ok assms(5)] show ?thesis by blast
qed

theorem turn_answer_witness:
  "case first_turn ''s'' of (st, g', out', a', w') \<Rightarrow> \<exists>x ms. histories g' ''s'' = Some x \<and>
     items (messages x) = ms @ [\<lparr>msg_role = Some ''user'', msg_content = Some ''hi''\<rparr>,
       \<lparr>msg_role = Some ''assistant'', msg_content = Some (owned_text (ar_output out'))\<rparr>]"
proof -
  obtain g a0 st g' out' a' where new: "sc_agent_new turn_options heap0 = (Inr g, a0)" and first: "first_turn ''s'' = (st, g', out', a', ())"
    and run: "sc_agent_process_message (message_to ''s'') None g (sc_agent_turn_result_init None) a0 () = (st, g', out', a', ())"
    by (rule first_turn_run)
  have ok: "sc_status_is_ok st" using first_turn_ok by (simp add: first)
  have "op_max_history_messages turn_options \<noteq> 1" by (simp add: turn_options_def)
  from turn_answer_recorded [OF new served.none this run ok] show ?thesis by (simp add: first message_to_def)
qed

text \<open>C7. No history of an agent, its own or a session's, ever holds more messages than the limit given when the agent was made, 16 when
  none is given, and the vector of every history is well formed: after any sequence of messages, whatever fails in between.\<close>

theorem histories_bounded:
  assumes "sc_agent_new options a0 = (Inr g0, a1)" "served g0 vs g" "histories g k = Some x"
  shows "history_inv x \<and> length (items (messages x)) \<le> (if op_max_history_messages options = 0 then 16 else op_max_history_messages options)"
  using served_new_inv [OF assms(1,2)] assms(3) by (auto simp: agent_inv_def history_within_def or_default_def)

theorem histories_bounded_witness:
  "case histories (fst (snd (first_turn ''s''))) ''s'' of None \<Rightarrow> False | Some x \<Rightarrow> length (items (messages x)) \<le> 16"
proof -
  obtain g a0 st g' out' a' where new: "sc_agent_new turn_options heap0 = (Inr g, a0)" and first: "first_turn ''s'' = (st, g', out', a', ())"
    and run: "sc_agent_process_message (message_to ''s'') None g (sc_agent_turn_result_init None) a0 () = (st, g', out', a', ())"
    by (rule first_turn_run)
  have served: "served g [message_to ''s''] g'" using served.turn [OF served.none run] by simp
  have "sessions_ok g" using new_agent_inv [OF new] by (simp add: agent_inv_def)
  from process_message_answers [OF run this] first_turn_ok obtain x where x: "histories g' ''s'' = Some x" by (auto simp: first message_to_def)
  from histories_bounded [OF new served x] x show ?thesis by (simp add: first turn_options_def)
qed



text \<open>C17. A turn with memory disabled neither reads nor writes the memory: with any memory in the place of the agent's it gives the same
  status and the same result, leaves the world and the allocator the same, and changes the rest of the agent in the same way.\<close>

theorem turn_without_memory:
  assumes "tn_disable_memory (tv_turn v)"
  shows "sc_agent_process_message v key (g\<lparr>gn_memory := m\<rparr>) out a w =
    (case sc_agent_process_message v key g out a w of (st, g', out', a', w') \<Rightarrow> (st, g'\<lparr>gn_memory := m\<rparr>, out', a', w'))"
  by (rule process_message_without_memory [OF assms])

theorem turn_without_memory_witness:
  "fst (sc_agent_process_message (message_to ''s'') None ((agent_zero turn_options)\<lparr>gn_memory := Some (none_vtab (\<lambda>_. None))\<rparr>) (sc_agent_turn_result_init None) heap0 ()) =
   fst (sc_agent_process_message (message_to ''s'') None (agent_zero turn_options) (sc_agent_turn_result_init None) heap0 ())"
  by (subst turn_without_memory) (simp_all add: message_to_def split: prod.split)

text \<open>Making an agent either fails and gives back every block it took, or yields an agent that has exactly the given tools and no
  message yet; destroying that agent gives back every block.\<close>

theorem agent_new_destroy:
  "case sc_agent_new options a of
     (Inl e, a') \<Rightarrow> \<not> sc_status_is_ok e \<and> live a' = live a
   | (Inr g, a') \<Rightarrow> items (gn_tools g) = op_tools options \<and> histories g = [[] \<mapsto> sc_history_init (or_default (op_max_history_messages options) 16)] \<and>
       live (sc_agent_destroy g a') = live a"
proof -
  obtain r a' where new: "sc_agent_new options a = (r, a')" by (cases "sc_agent_new options a")
  show ?thesis
  proof (cases r)
    case (Inl e)
    with agent_new_spec [OF new] new show ?thesis by simp
  next
    case (Inr g)
    with agent_new_spec [OF new] have g: "fresh_agent options g" "items (gn_tools g) = op_tools options" "live a' = live a + agent_blocks g + 1" by simp_all
    then have "live (sc_agent_destroy g a') = live a' - agent_blocks g - 1"
      by (intro agent_destroy_live) (simp_all add: fresh_agent_def agent_zero_def sc_vec_init_def vec_inv_def SIZEOF_SESSION_HISTORY_def)
    moreover have "histories g = [[] \<mapsto> sc_history_init (or_default (op_max_history_messages options) 16)]"
      using g(1) by (auto simp: fresh_agent_def histories_def session_names_def agent_zero_def sc_vec_init_def)
    ultimately show ?thesis using new Inr g by simp
  qed
qed

end
