(* ===== verification/Spec2Isabelle.thy ===== *)
theory Spec2Isabelle
  imports "HOL-Library.Code_Target_Numeral" SC_Utf8 SC_Hash_Map SC_Time SC_Request SC_Receipts SC_Agent_Properties SC_Tool_Properties
    SC_Memory_Properties SC_Turn_Properties
begin

text \<open>
  A verification library for the C core of SmolClaw, an agent runtime that lets a language model use tools on a user's
  machine. The sources are under \<^verbatim>\<open>src/src/\<close> with their headers under \<^verbatim>\<open>src/include/\<close>; names of files below are
  relative to these.

  \<^bold>\<open>The program.\<close> A message reaches the agent (\<^verbatim>\<open>runtime/agent.c\<close>) through a queue of turns
  (\<^verbatim>\<open>runtime/turn_queue.c\<close>). For each turn the agent finds the history of the session, recalls what its
  memory (\<^verbatim>\<open>memory/\<close>) has on the message, builds a prompt from both, asks a provider
  (\<^verbatim>\<open>providers/\<close>), executes the tool calls of the answer (\<^verbatim>\<open>tools/\<close>), shows their results to the provider and
  asks again, until the answer holds no call; message and answer then go into the history and the memory. Every tool asks the security layer (\<^verbatim>\<open>security/\<close>) before it acts: the
  policy, the emergency stop, the workspace boundary, the checks of URLs and commands, approvals. What was done is recorded
  in hash-linked chains of audit records and receipts. Below lie strings, vectors, maps, JSON and URLs (\<^verbatim>\<open>core/\<close>,
  \<^verbatim>\<open>json/\<close>, \<^verbatim>\<open>net/\<close>).

  \<^bold>\<open>How the code is modelled.\<close> A C struct is a record with the struct's fields, an enumeration or tagged union a datatype,
  one definition stands for each C function and carries its name, and the loops and branches inside a long function are
  definitions of their own. A status is a value (\<open>sc_status\<close>), a function with an out-parameter returns a sum
  (\<open>Inl\<close> the status of the failure), and every early return of the source is a branch. Memory is accounted for, not laid
  out: the allocator is a state that counts the live blocks and decides, by a budget that may be any number, which
  request it refuses; so every path after a refused allocation is part of the model, and \<open>live\<close> before and after says
  whether blocks are lost. The one place where addresses matter, the arena, is modelled with its blocks and offsets.
  Machine words are words where they wrap (hashes, counters of the retry loop) and numbers with explicit overflow tests
  where the code has them. What lies outside the sources is an argument: the file system calls, clocks,
  environment variables, libsodium, \<^verbatim>\<open>strtod\<close> and the printing of doubles, and the world in which callbacks live.

  \<^bold>\<open>The theories\<close>, from the bottom up:
  \<^item> \<open>SC_Prelude\<close> (sizes, overflow tests, rewrite collections, list lemmas), \<open>SC_Result\<close> (\<^verbatim>\<open>core/result.c\<close>),
    \<open>SC_Allocator\<close> (\<^verbatim>\<open>core/allocator.c\<close>: the allocator and the arena), \<open>SC_String\<close> (\<^verbatim>\<open>core/string.c\<close>,
    \<^verbatim>\<open>core/buffer.c\<close>), \<open>SC_Utf8\<close>, \<open>SC_Vector\<close> (\<^verbatim>\<open>core/vector.c\<close>, with the interface \<open>appendable\<close> that byte buffers
    and vectors share), \<open>SC_Hash_Map\<close> (\<^verbatim>\<open>core/map.c\<close>, with the interface \<open>string_table\<close>), \<open>SC_Time\<close>
    (\<^verbatim>\<open>core/time.c\<close>), \<open>SC_Ctype\<close> (character classes and number parsing of the C library), and \<open>SC_Steps\<close> (records that
    are filled field by field, with the accounting of what was filled);
  \<^item> \<open>SC_Url\<close> (\<^verbatim>\<open>net/url.c\<close>), \<open>SC_Json\<close>, \<open>SC_Json_Parse\<close>, \<open>SC_Json_Print\<close>, \<open>SC_Json_Memory\<close> (\<^verbatim>\<open>json/json.c\<close>,
    \<^verbatim>\<open>json/json_schema.c\<close> and the vendored writer the printer uses);
  \<^item> security: \<open>SC_Sandbox_Kinds\<close> (the enumerations of \<^verbatim>\<open>sandbox.c\<close>, interface \<open>enum_codec\<close>), \<open>SC_Policy\<close>
    (\<^verbatim>\<open>policy.c\<close>), \<open>SC_Domain_Matcher\<close>, \<open>SC_Workspace\<close> (\<^verbatim>\<open>workspace_boundary.c\<close>), \<open>SC_Estop\<close> (\<^verbatim>\<open>estop.c\<close>,
    \<^verbatim>\<open>approval.c\<close>), \<open>SC_Request\<close> (the validation of a whole tool request, interface \<open>sound_check\<close>), \<open>SC_Chain\<close> and
    \<open>SC_Receipts\<close> (\<^verbatim>\<open>audit.c\<close>, \<^verbatim>\<open>receipts.c\<close>, interface \<open>hash_chain\<close>);
  \<^item> providers: \<open>SC_Provider\<close> (\<^verbatim>\<open>provider_common.c\<close> and the handle of \<^verbatim>\<open>contracts/contracts.c\<close>), \<open>SC_Providers\<close>
    (\<^verbatim>\<open>mock_provider.c\<close>, interface \<open>provider_contract\<close>), \<open>SC_Reliable\<close>, \<open>SC_Router\<close>;
  \<^item> tools: \<open>SC_Tools\<close> (\<^verbatim>\<open>tool_common.c\<close> and the tool handle), \<open>SC_Wrappers\<close> (\<^verbatim>\<open>tool_wrappers.c\<close>, interfaces
    \<open>tool_contract\<close> and \<open>wrapped_tool\<close>), \<open>SC_File_Tools\<close> (\<^verbatim>\<open>file_read.c\<close>, \<^verbatim>\<open>file_tools.c\<close>, \<^verbatim>\<open>time_tool.c\<close> on a disk);
  \<^item> runtime: \<open>SC_Turn_Queue\<close> (\<^verbatim>\<open>turn_queue.c\<close> and the cancel tokens of \<^verbatim>\<open>loop.c\<close>), \<open>SC_History\<close>, \<open>SC_Turn\<close>,
    \<open>SC_Turn_Text\<close>, \<open>SC_Tool_Loop\<close> (interface \<open>guarded_tools\<close>) and \<open>SC_Tool_Trace\<close>, all of \<^verbatim>\<open>agent.c\<close>;
  \<^item> memory: \<open>SC_Memory\<close> (\<^verbatim>\<open>memory_common.c\<close>: entries, records, queries and the store) and \<open>SC_Snapshot\<close> (export, import with
    \<^verbatim>\<open>memory_hydrate.c\<close>, the memory handle and \<^verbatim>\<open>none_memory.c\<close>, interface \<open>record_put\<close> for what an import stores through);
  \<^item> the agent: \<open>SC_Agent\<close> (the rest of \<^verbatim>\<open>agent.c\<close>: making and destroying an agent, sessions, memory, prompt, budgets and the
    synchronous turn as a list of steps), \<open>SC_Agent_Turn\<close> (what the steps keep) and \<open>SC_Agent_Sessions\<close> (the invariant of the
    histories, blocks, and the relation \<open>served\<close> of agents reached by serving messages);
  \<^item> \<open>SC_Agent_Properties\<close>, \<open>SC_Tool_Properties\<close>, \<open>SC_Memory_Properties\<close>, \<open>SC_Turn_Properties\<close> and this theory hold the properties, each stated over the definitions
    of the model, and the concrete inputs on which their hypotheses are discharged.

  \<^bold>\<open>What is shown.\<close>
  \<^item> Security: an accepted request satisfies every part of the policy; an accepted path lies in the workspace and outside
    the denied paths; URLs are accepted exactly when the policy says so; a tripped stop refuses everything; chains stay
    verified and a receipt token fixes its receipt; text filters are substring searches. Three of the theorems record
    where the code does less than it means to.
  \<^item> Turns: whatever a provider answers, tools run only when the turn allows them and after the user granted what needs
    a grant, and never after the user declined them; the provider is asked a bounded number of times; the model is offered exactly the tools the
    turn allows; the queue calls every callback once and in order, and serves every job.
  \<^item> Sessions: over any sequence of messages, a turn touches only the history of its own session; a successful turn leaves its message
    and its answer there; no history exceeds its limit; a turn without memory does not depend on it; the retry after a context overflow
    at most doubles the provider calls; making and destroying an agent gives back every block.
  \<^item> Memory: the store refines an abstract map under any sequence of operations and refused allocations; a search returns the best
    matches within its limits; forgetting erases; an import is bounded and keeps reserved and secret keys out; an export
    hides contents unless allowed, and is otherwise restored by an import.
  \<^item> Tools: the file tools touch only the file the admitted path names; a replaced file is either old or new whatever
    call fails; a schema admits exactly the well-formed calls.
  \<^item> Data: the map refines a finite map; parsers and printers are inverse; the JSON parser returns on every input; the
    UTF-8 validator accepts exactly the encodings; every operation accounts for its blocks.

  \<^bold>\<open>Bounds and fuel.\<close> The mutually recursive JSON parser carries a fuel of twice the length of the text plus one, and the
  theorem \<open>json_parser_returns\<close> shows that this is always enough; the recursion in the source is bounded by its depth check. All
  other loops are recursions with a termination proof: the probe loop of the map by the distance to a free slot, the retry loop by the attempts left at 32 bits,
  the text scanners by the length of the rest, the provider loop by the iterations left. Round trips of the printer assume a text shorter than
  \<^verbatim>\<open>2^56\<close> bytes (\<open>TEXT_MAX\<close>), which keeps every size computation in range. The disk of the file tools follows scripts of transfers and
  faults, so that short, interrupted and failing calls are covered; after the scripts end every call succeeds.

  \<^bold>\<open>Not modelled.\<close> In a turn the scratch arena and the caller's allocator are one allocator. Asynchronous and streamed turns
  (\<^verbatim>\<open>agent_async_*\<close>) are left out: they are callbacks of libuv. Left out with their libraries are the HTTP client and the providers on it, the
  channels of messaging services, the gateway, the SQLite and Markdown files behind the memory handle, plugins, media codecs, hardware, the command
  line, and the sandbox backends that call the kernel. Log entries are left out except where a theorem is about them.
\<close>

section \<open>Concrete inputs for the closed instances\<close>

text \<open>
  A file system with a workspace \<^verbatim>\<open>/w\<close> that holds the directory \<^verbatim>\<open>/w/d\<close> and the file
  \<^verbatim>\<open>/w/d/f\<close>, and beside it the directory \<^verbatim>\<open>/etc\<close>.
\<close>

definition demo_paths :: "string list" where
  "demo_paths = [''/'', ''/w'', ''/w/d'', ''/w/d/f'', ''/etc'', ''/etc/passwd'']"

definition demo_fs :: fs where
  "demo_fs = \<lparr>realpath = (\<lambda>p. if p \<in> set demo_paths then Some p else None), getcwd = Some ''/w'',
     home_dir = Some ''/w'', open_dir = (\<lambda>_. Some 3), openat_dir = (\<lambda>fd _. Inr (fd + 1))\<rparr>"

definition demo_list :: "string list \<Rightarrow> string_list" where
  "demo_list xs = (sc_vec_init SIZEOF_SC_STRING)\<lparr>items := map Some xs, vcap := 8, vheld := True\<rparr>"

definition demo_policy :: sc_security_policy where
  "demo_policy = sc_security_policy_init\<lparr>autonomy := SC_AUTONOMY_FULL, workspace_root := Some ''/w'',
     workspace_only := True, shell_enabled := True, denied_paths := demo_list [''/w/x''],
     denied_domains := demo_list [''evil.io''], allowed_commands := demo_list [''ls'']\<rparr>"

definition demo_request :: sc_security_tool_request where
  "demo_request = \<lparr>tool_name = Str ''sh'', risk = SC_TOOL_RISK_SHELL, path_arg = Str ''/w/d/f'',
     path_must_exist = True, url_arg = Str ''http://a.io/'', shell_arg = Str ''ls d'',
     device_arg = Str [], req_otp_code = Str []\<rparr>"

section \<open>The security policy\<close>

text \<open>C1. A tool request that \<^verbatim>\<open>sc_security_validate_request\<close> accepts satisfies the whole policy:
  the emergency stop is off, the tool is admitted at its risk level, and each argument that is
  present keeps its promise (the command, the path, the URL and the sandbox network); the
  approval flag is the policy's answer, and every block taken on the way is given back.\<close>

theorem accepted_request_satisfies_policy:
  assumes "sc_security_validate_request f p e req a = (st, approval, a')"
  shows "live a' = live a \<and> (sc_status_is_ok st \<longrightarrow>
    sc_status_is_ok (sc_estop_check e) \<and> sc_status_is_ok (sc_security_validate_tool p (tool_name req)) \<and>
    sc_status_is_ok (risk_check p req) \<and>
    (0 < str_len (shell_arg req) \<longrightarrow> shell_promise p (shell_arg req)) \<and>
    (0 < str_len (path_arg req) \<longrightarrow> path_promise f p (path_arg req) (path_must_exist req)) \<and>
    (0 < str_len (url_arg req) \<longrightarrow> url_promise p (url_arg req) \<and> network_promise p (url_arg req)) \<and>
    sc_status_is_ok (validate_device_policy p req) \<and> sc_status_is_ok (validate_otp_policy p req) \<and>
    approval = request_requires_approval p req)"
  using validate_request_ok [OF assms] validate_request_live [OF assms] by blast

lemma demo_request_accepted:
  "\<exists>a'. sc_security_validate_request demo_fs demo_policy None demo_request heap0 = (sc_status_ok, False, a')"
proof -
  have "fst (sc_security_validate_request demo_fs demo_policy None demo_request heap0) = sc_status_ok"
    "fst (snd (sc_security_validate_request demo_fs demo_policy None demo_request heap0)) = False" by code_simp+
  then show ?thesis by (metis prod.collapse)
qed

theorem accepted_request_witness:
  "shell_promise demo_policy (Str ''ls d'') \<and> path_promise demo_fs demo_policy (Str ''/w/d/f'') True \<and>
   url_promise demo_policy (Str ''http://a.io/'')"
proof -
  obtain a' where "sc_security_validate_request demo_fs demo_policy None demo_request heap0 = (sc_status_ok, False, a')"
    using demo_request_accepted by blast
  from accepted_request_satisfies_policy [OF this] show ?thesis
    by (simp add: demo_request_def sc_status_is_ok_def sc_status_ok_def)
qed



text \<open>C9. A URL is accepted exactly when it parses and the parsed URL has scheme http or https, carries
  no credentials unless they are allowed, its host lies in no denied domain, lies in an allowed domain
  when there are any, and is no private address while those are blocked; the parsed URL is released.\<close>

theorem url_accepted_iff:
  assumes "sc_security_validate_url p t a = (st, a')"
  shows "live a' = live a \<and> (sc_status_is_ok st \<longleftrightarrow>
    (\<exists>u a1 h s. sc_url_parse t a = (Inr u, a1) \<and> host u = Some h \<and> scheme u = Some s \<and>
      (s = ''http'' \<or> s = ''https'') \<and> (url_credentials_allowed p \<or> \<not> sc_url_has_credentials u) \<and>
      \<not> (\<exists>d \<in> list_strings (denied_domains p). domain_covers d h) \<and>
      (items (allowed_domains p) = [] \<or> (\<exists>d \<in> list_strings (allowed_domains p). domain_covers d h)) \<and>
      \<not> (private_network_policy p = SC_PRIVATE_NETWORK_BLOCK \<and> sc_url_host_is_private_address u)))"
proof -
  obtain r a1 where parse: "sc_url_parse t a = (r, a1)" by (cases "sc_url_parse t a")
  show ?thesis
  proof (cases r)
    case (Inl err)
    with parse validate_url_live [OF assms] validate_url_ok [OF assms] show ?thesis by simp
  next
    case (Inr u)
    obtain h s where hs: "host u = Some h" "scheme u = Some s"
      by (rule url_parse_host_scheme [OF parse [unfolded Inr]])
    show ?thesis using validate_url_live [OF assms]
      by (simp add: validate_url_ok [OF assms] parse Inr url_verdict_ok [OF hs] hs)
  qed
qed

theorem url_accepted_witness:
  "\<exists>st a'. sc_security_validate_url demo_policy (Str ''http://x.evil.io/'') heap0 = (st, a') \<and>
     \<not> sc_status_is_ok st \<and> live a' = live heap0"
proof -
  obtain st a' where v: "sc_security_validate_url demo_policy (Str ''http://x.evil.io/'') heap0 = (st, a')"
    by (cases "sc_security_validate_url demo_policy (Str ''http://x.evil.io/'') heap0")
  have "\<not> sc_status_is_ok (fst (sc_security_validate_url demo_policy (Str ''http://x.evil.io/'') heap0))"
    by code_simp
  with v url_accepted_iff [OF v] show ?thesis by simp
qed

text \<open>C10. Whatever the copy of the reason does, a tripped emergency stop is active, and from then on
  no request is accepted and none is sent to approval; the reason's block is accounted for.\<close>

theorem tripped_estop_blocks_requests:
  assumes "sc_estop_trip e reason a = (st, e', a1)"
    "sc_security_validate_request f p (Some e') req b = (st', approval, b')"
  shows "st' = sc_status_security_denied ''sc.estop.active'' \<and> \<not> approval \<and>
    live a1 = live a + string_blocks (estop_reason e') - string_blocks (estop_reason e)"
proof -
  note trip = estop_trip_spec [OF assms(1)]
  then have "run_checks (request_checks f p (Some e') req) b = (sc_status_security_denied ''sc.estop.active'', b)"
    by (simp add: request_checks_def pure_check_def sc_estop_check_def)
  with assms(2) trip(2) show ?thesis by (simp add: sc_security_validate_request_def)
qed

theorem tripped_estop_witness:
  "\<exists>st e' a1 st' approval b'. sc_estop_trip sc_estop_init (NullStr 2) heap0 = (st, e', a1) \<and> \<not> sc_status_is_ok st \<and>
     sc_security_validate_request demo_fs demo_policy (Some e') demo_request heap0 = (st', approval, b') \<and>
     st' = sc_status_security_denied ''sc.estop.active''"
proof -
  obtain st e' a1 where t: "sc_estop_trip sc_estop_init (NullStr 2) heap0 = (st, e', a1)"
    by (cases "sc_estop_trip sc_estop_init (NullStr 2) heap0")
  obtain st' approval b' where v:
    "sc_security_validate_request demo_fs demo_policy (Some e') demo_request heap0 = (st', approval, b')"
    by (cases "sc_security_validate_request demo_fs demo_policy (Some e') demo_request heap0")
  have "\<not> sc_status_is_ok (fst (sc_estop_trip sc_estop_init (NullStr 2) heap0))" by code_simp
  with t have "\<not> sc_status_is_ok st" by simp
  with t v tripped_estop_blocks_requests [OF t v] show ?thesis by blast
qed

section \<open>The hash map\<close>

text \<open>C11. \<^verbatim>\<open>sc_map_put\<close> on a well-formed map always returns, keeps the map well formed and refines the
  update of a finite map: on success the key now has the value, on failure nothing changed, in either
  case the blocks held are accounted for. With memory for the doubled table it succeeds on every valid key.\<close>

theorem map_put_refines_update:
  assumes "map_inv m"
  shows "\<exists>st m' a'. sc_map_put m key v a = Some (st, m', a') \<and> map_inv m' \<and>
    live a' = live a + map_blocks m' - map_blocks m \<and>
    (if sc_status_is_ok st then valid_key key \<and> map_abs m' = (map_abs m)(str_bytes key \<mapsto> v)
     else map_abs m' = map_abs m) \<and>
    (generous a \<and> valid_key key \<and> str_len key < SIZE_MAX \<and>
       (2 * mcap m + 8) * SIZEOF_MAP_ENTRY \<le> SIZE_MAX \<longrightarrow> sc_status_is_ok st)"
  using map_put_spec [OF assms, of key v a] by auto

theorem map_put_witness:
  "\<exists>st m' a'. sc_map_put sc_map_init (Str ''k'') (Some (7 :: nat)) heap0 = Some (st, m', a') \<and>
     sc_status_is_ok st \<and> map_abs m' = [''k'' \<mapsto> Some 7]"
proof -
  have "generous heap0 \<and> valid_key (Str ''k'') \<and> str_len (Str ''k'') < SIZE_MAX \<and>
      (2 * mcap sc_map_init + 8) * SIZEOF_MAP_ENTRY \<le> SIZE_MAX"
    by (simp add: generous_heap0 valid_key_def SIZE_MAX_def SIZEOF_MAP_ENTRY_def sc_map_init_def)
  with map_put_refines_update [OF map_inv_init, of "Str ''k''" "Some (7 :: nat)" heap0] show ?thesis by auto
qed

text \<open>Any sequence of insertions into a fresh map returns, a later \<^verbatim>\<open>sc_map_get\<close> answers with the last
  accepted value of each key and nothing for the others, and clearing the map gives back every block.\<close>

theorem map_gets_last_put:
  "\<exists>sts m a1 m' a2. hash_table.put_all sc_map_init kvs a = Some (sts, m, a1) \<and> length sts = length kvs \<and>
     (\<forall>k. sc_map_get m (Str k) =
        Some (case map_of (rev (hash_table.accepted sts kvs)) k of None \<Rightarrow> None | Some v \<Rightarrow> v)) \<and>
     sc_map_clear m a1 = (m', a2) \<and> m' = sc_map_init \<and> live a2 = live a"
proof -
  obtain sts m a1 where puts: "hash_table.put_all sc_map_init kvs a = Some (sts, m, a1)" "map_inv m"
    "length sts = length kvs" "map_abs m = map_of (rev (hash_table.accepted sts kvs))"
    "live a1 = live a + map_blocks m"
    using hash_table.put_all_spec [OF map_inv_init, of kvs a] by auto
  obtain m' a2 where clear: "sc_map_clear m a1 = (m', a2)" by (cases "sc_map_clear m a1")
  show ?thesis
    using puts clear map_clear_spec [OF puts(2) clear] map_get_spec(1) [OF puts(2)]
    by (auto simp: valid_key_def)
qed

section \<open>URLs\<close>

text \<open>C19. What a successful \<^verbatim>\<open>sc_url_parse\<close> read is what the text says: the input is the scheme, the
  authority and a rest that starts at the first slash, question mark or hash sign, the host is the
  lower-cased text between the last at-sign and the port, and the URL has credentials exactly when the
  text before that at-sign has some. On failure nothing is held, on success exactly the URL's fields.\<close>

theorem url_parse_reads_authority:
  assumes "sc_url_parse input a = (r, a')"
  shows "live a' = live a + (case r of Inl e \<Rightarrow> 0 | Inr u \<Rightarrow> url_blocks u) \<and>
    (\<forall>u. r = Inr u \<longrightarrow> (\<exists>sch info h p rest.
      input = Str (sch @ ''://'' @ (case info of None \<Rightarrow> [] | Some ui \<Rightarrow> ui @ ''@'') @ h @
        (case p of None \<Rightarrow> [] | Some t \<Rightarrow> CHR '':'' # t) @ rest) \<and>
      scheme u = Some sch \<and> (\<forall>c \<in> set sch. is_scheme_char c) \<and> host u = Some (map to_lower h) \<and> h \<noteq> [] \<and>
      (\<forall>c \<in> set h. \<not> authority_end c \<and> c \<noteq> CHR ''@'' \<and> c \<noteq> CHR '':'') \<and>
      (rest = [] \<or> authority_end (hd rest)) \<and>
      (sc_url_has_credentials u \<longleftrightarrow> (\<exists>ui. info = Some ui \<and> ui \<noteq> [] \<and> ui \<noteq> '':''))))"
  using url_parse_live(1) [OF assms] url_parse_sound [of input a _ a'] assms by simp

lemma demo_url: "\<exists>u a'. sc_url_parse (Str ''http://u@A.io/p'') heap0 = (Inr u, a') \<and> host u = Some ''a.io''"
proof -
  obtain r a' where v: "sc_url_parse (Str ''http://u@A.io/p'') heap0 = (r, a')"
    by (cases "sc_url_parse (Str ''http://u@A.io/p'') heap0")
  have "(case fst (sc_url_parse (Str ''http://u@A.io/p'') heap0) of Inl _ \<Rightarrow> False | Inr u \<Rightarrow> host u = Some ''a.io'')"
    by code_simp
  with v show ?thesis by (cases r) auto
qed

theorem url_parse_witness:
  "\<exists>u a'. sc_url_parse (Str ''http://u@A.io/p'') heap0 = (Inr u, a') \<and> live a' = live heap0 + url_blocks u"
proof -
  obtain u a' where u: "sc_url_parse (Str ''http://u@A.io/p'') heap0 = (Inr u, a')" using demo_url by blast
  from url_parse_reads_authority [OF u] u show ?thesis by simp
qed

text \<open>Round trip: the text put together from a scheme, a host, an optional port, a path, an optional
  query and an optional fragment parses back to these parts, the host in lower case and an empty path as
  the root path, with no credentials.\<close>

theorem url_print_parse:
  assumes "generous a" "wf_parts sch h p pth q f"
  shows "\<exists>u a'. sc_url_parse (Str (url_build sch h p pth q f)) a = (Inr u, a') \<and>
    scheme u = Some sch \<and> host u = Some (map to_lower h) \<and>
    path u = Some (if pth = [] then ''/'' else pth) \<and>
    url_query u = (case q of None \<Rightarrow> None | Some t \<Rightarrow> opt_part t) \<and>
    fragment u = (case f of None \<Rightarrow> None | Some t \<Rightarrow> opt_part t) \<and>
    has_port u = (p \<noteq> None) \<and> port u = (case p of None \<Rightarrow> 0 | Some n \<Rightarrow> n) \<and>
    \<not> sc_url_has_credentials u"
  by (rule url_roundtrip [OF assms])

theorem url_print_parse_witness:
  "\<exists>u a'. sc_url_parse (Str (url_build ''https'' ''Api.io'' (Some 8080) ''/v1'' (Some ''k=v'') None)) heap0 = (Inr u, a') \<and>
     host u = Some ''api.io'' \<and> port u = 8080"
proof -
  have "wf_parts ''https'' ''Api.io'' (Some 8080) ''/v1'' (Some ''k=v'') None"
    by code_simp
  moreover have "map to_lower ''Api.io'' = ''api.io''" by code_simp
  ultimately show ?thesis using url_print_parse [OF generous_heap0, of "''https''" "''Api.io''"] by fastforce
qed

section \<open>UTF-8\<close>

text \<open>C20. \<^verbatim>\<open>sc_str_is_valid_utf8\<close> accepts exactly the byte strings that are the concatenated UTF-8
  encodings of Unicode scalar values: nothing overlong, no surrogate, nothing beyond U+10FFFF, nothing cut.\<close>

theorem utf8_accepts_exactly_encodings:
  "sc_str_is_valid_utf8 (Str s) \<longleftrightarrow> (\<exists>cps. utf8_text cps = Some (byte_values s))"
  using utf8_text_valid utf8_valid_text [of "byte_values s"] byte_values_bounded [of _ s]
  by (auto simp: sc_str_is_valid_utf8_def)

section \<open>Audit records and receipts\<close>

text \<open>C21. Appending to an audit chain that verifies gives a chain that verifies, one record longer, with
  the event and summary it was given; a failed append leaves the chain as it was. From a chain that
  verifies no inner record can be taken out unnoticed unless its hash equals the one before it.\<close>

theorem audit_append_keeps_verified:
  assumes "sc_audit_chain_append ts chain ev summ a = (st, chain', a')" "vec_inv chain" "sc_audit_chain_verify chain"
  shows "vec_inv chain' \<and> sc_audit_chain_verify chain' \<and>
    live a' = live a + audit_blocks chain' - audit_blocks chain \<and>
    (if sc_status_is_ok st
     then \<exists>r. items chain' = items chain @ [r] \<and> event_type r = Some (str_bytes ev) \<and>
            audit_summary r = Some (str_bytes summ)
     else chain' = chain) \<and>
    (\<forall>xs r y zs. items chain' = xs @ r # y # zs \<and> audit_stored_hash r \<noteq> audit_previous_hash r \<longrightarrow>
       \<not> sc_audit_chain_verify (chain'\<lparr>items := xs @ y # zs\<rparr>))"
proof -
  note spec = audit_append_spec [OF assms(1,2)]
  have ok: "sc_audit_chain_verify chain'"
  proof (cases "sc_status_is_ok st")
    case True
    with spec obtain r where "items chain' = items chain @ [r]"
      "audit_previous_hash r = audit.tip 0 (items chain)" "audit_hash r = audit_stored_hash r" by blast
    with assms(3) show ?thesis unfolding sc_audit_chain_verify_def by (simp add: audit.verify_snoc)
  next
    case False
    with spec assms(3) show ?thesis by simp
  qed
  then have "\<not> sc_audit_chain_verify (chain'\<lparr>items := xs @ y # zs\<rparr>)"
    if "items chain' = xs @ r # y # zs" "audit_stored_hash r \<noteq> audit_previous_hash r" for xs r y zs
    using audit.deletion_detected that unfolding sc_audit_chain_verify_def by simp
  with ok spec show ?thesis by auto
qed

theorem audit_append_witness:
  "\<exists>st chain' a'. sc_audit_chain_append (Some (1, 0)) sc_audit_chain_init (Str ''e'') (Str ''s'') heap0 = (st, chain', a') \<and>
     sc_status_is_ok st \<and> sc_audit_chain_verify chain' \<and> length (items chain') = 1"
proof -
  obtain st chain' a' where
    v: "sc_audit_chain_append (Some (1, 0)) sc_audit_chain_init (Str ''e'') (Str ''s'') heap0 = (st, chain', a')"
    by (cases "sc_audit_chain_append (Some (1, 0)) sc_audit_chain_init (Str ''e'') (Str ''s'') heap0")
  have "sc_status_is_ok (fst (sc_audit_chain_append (Some (1, 0)) sc_audit_chain_init (Str ''e'') (Str ''s'') heap0))"
    by code_simp
  with v have ok: "sc_status_is_ok st" by simp
  have "vec_inv sc_audit_chain_init" "sc_audit_chain_verify sc_audit_chain_init"
    by (simp_all add: sc_audit_chain_init_def sc_audit_chain_verify_def)
  from audit_append_keeps_verified [OF v this] ok v show ?thesis
    by (auto simp: sc_audit_chain_init_def)
qed

text \<open>C22. Appending to a receipt chain that verifies gives a chain that verifies under the same key, whenever
  the allocator grants the comparison its memory; verification itself holds no block afterwards and, when
  it says yes, every receipt carries the token its fields have under the session key.\<close>

theorem receipt_append_keeps_verified:
  assumes "sc_receipt_chain_append_ex sd ts chain tool args outp success decision reason outc a = (st, chain', a')"
    "vec_inv (receipts chain)" "sc_receipt_chain_verify sd chain b = (True, b')" "generous c"
  shows "vec_inv (receipts chain') \<and> live a' = live a + chain_blocks chain' - chain_blocks chain \<and>
    (\<exists>c'. sc_receipt_chain_verify sd chain' c = (True, c') \<and> live c' = live c) \<and>
    (\<forall>r \<in> set (items (receipts chain')). sealed_receipt sd chain' r) \<and>
    (sc_status_is_ok st \<longrightarrow> (\<exists>r. items (receipts chain') = items (receipts chain) @ [r] \<and>
       rc_success r = success \<and> rc_tool_name r = Some (str_bytes tool) \<and>
       rc_args_summary r = Some (str_bytes args) \<and> rc_output_summary r = Some (str_bytes outp)))"
proof -
  note spec = receipt_append_spec [OF assms(1,2)]
  have old: "valid_receipts sd chain 0 (items (receipts chain))"
    using verify_from_spec assms(3) unfolding sc_receipt_chain_verify_def by blast
  have new: "valid_receipts sd chain' 0 (items (receipts chain'))"
  proof (cases "sc_status_is_ok st")
    case True
    with spec obtain r where r: "items (receipts chain') = items (receipts chain) @ [r]" "sealed_receipt sd chain r"
      "rc_previous_hash r = receipt.tip 0 (items (receipts chain))"
      "session_key chain' = session_key chain" "key_initialized chain' = key_initialized chain" by blast
    have "sealed_receipt sd chain' = sealed_receipt sd chain"
      using r(4,5) by (simp add: sealed_receipt_def fun_eq_iff)
    moreover from this have "valid_receipts sd chain' h rs = valid_receipts sd chain h rs" for h rs
      by (induction rs arbitrary: h) auto
    ultimately show ?thesis using old r by (simp add: receipt.verify_snoc)
  qed (use spec old in simp)
  have sealed: "valid_receipts sd chain' h rs \<Longrightarrow> \<forall>r \<in> set rs. sealed_receipt sd chain' r" for h rs
    by (induction rs arbitrary: h) auto
  obtain c' where c': "sc_receipt_chain_verify sd chain' c = (True, c')"
    using verify_from_generous [OF assms(4) new] unfolding sc_receipt_chain_verify_def by blast
  with verify_from_spec [OF c' [unfolded sc_receipt_chain_verify_def]] new sealed spec show ?thesis by blast
qed

text \<open>The closed instances use stand-ins for the two library functions: an authentication code that is the
  message length and an encoding that is a fixed letter per byte.\<close>

definition demo_sodium :: sodium where
  "demo_sodium = \<lparr>hmac = (\<lambda>key msg. [length msg]), base64 = (\<lambda>bs. map (\<lambda>_. CHR ''b'') bs)\<rparr>"

theorem receipt_append_witness:
  "\<exists>st chain' a'. sc_receipt_chain_append_ex demo_sodium (Some (2, 0)) (sc_receipt_chain_init (Some [1, 2]))
       (Str ''t'') (Str ''x'') (Str ''y'') True (Str ''allowed'') (NullStr 0) (Str ''ok'') heap0 = (st, chain', a') \<and>
     sc_status_is_ok st \<and> (\<exists>r. items (receipts chain') = [r] \<and> sealed_receipt demo_sodium chain' r)"
proof -
  let ?chain = "sc_receipt_chain_init (Some [1, 2])"
  let ?run = "sc_receipt_chain_append_ex demo_sodium (Some (2, 0)) ?chain
    (Str ''t'') (Str ''x'') (Str ''y'') True (Str ''allowed'') (NullStr 0) (Str ''ok'') heap0"
  obtain st chain' a' where v: "?run = (st, chain', a')" by (cases ?run)
  have "dec 2 = ''2''" by code_simp
  then have "sc_status_is_ok (fst ?run)"
    by (simp add: sc_receipt_chain_append_ex_def receipt_fields_def receipt_copy_def receipt_seal_def
        receipt_token_def sc_string_from_str_def sc_string_from_cstr_def sc_clock_wall_def receipt_link_def
        token_text_def demo_sodium_def Let_def sc_receipt_chain_init_def heap0_def sc_alloc_def SIZE_MAX_def
        sc_str_from_cstr_def dec_int_def div_trunc_def sc_vec_push_def sc_vec_reserve_def sc_vec_init_def
        sc_size_add_overflow_def sc_size_mul_overflow_def grow_cap.simps SIZEOF_RECEIPT_def sc_realloc_def)
  with v have ok: "sc_status_is_ok st" by simp
  have "vec_inv (receipts ?chain)" "sc_receipt_chain_verify demo_sodium ?chain heap0 = (True, heap0)"
    "items (receipts ?chain) = []"
    by (simp_all add: sc_receipt_chain_init_def sc_receipt_chain_verify_def)
  from receipt_append_keeps_verified [OF v this(1,2) generous_heap0] ok v this(3) show ?thesis by auto
qed

text \<open>C23. What the token authenticates determines the receipt: two receipts with the same message agree in
  the link, every text, both times and the outcome. The length prefixes of \<^verbatim>\<open>mac_str\<close> make it so.\<close>

theorem receipt_mac_determines_fields:
  assumes "receipt_mac_bytes r = receipt_mac_bytes q" "c_receipt r" "c_receipt q"
  shows "rc_previous_hash r = rc_previous_hash q \<and> owned_text (rc_tool_name r) = owned_text (rc_tool_name q) \<and>
    owned_text (rc_args_summary r) = owned_text (rc_args_summary q) \<and>
    owned_text (rc_output_summary r) = owned_text (rc_output_summary q) \<and>
    owned_text (rc_policy_decision r) = owned_text (rc_policy_decision q) \<and>
    owned_text (rc_failure_reason r) = owned_text (rc_failure_reason q) \<and>
    owned_text (rc_outcome r) = owned_text (rc_outcome q) \<and>
    rc_started_at r = rc_started_at q \<and> rc_ended_at r = rc_ended_at q \<and> rc_success r = rc_success q"
  by (rule receipt_mac_inj [OF assms])

theorem receipt_mac_witness:
  "receipt_mac_bytes (receipt_zero\<lparr>rc_tool_name := Some ''ab'', rc_args_summary := Some ''c''\<rparr>) \<noteq>
   receipt_mac_bytes (receipt_zero\<lparr>rc_tool_name := Some ''a'', rc_args_summary := Some ''bc''\<rparr>)"
proof
  assume eq: "receipt_mac_bytes (receipt_zero\<lparr>rc_tool_name := Some ''ab'', rc_args_summary := Some ''c''\<rparr>) =
    receipt_mac_bytes (receipt_zero\<lparr>rc_tool_name := Some ''a'', rc_args_summary := Some ''bc''\<rparr>)"
  have "c_receipt (receipt_zero\<lparr>rc_tool_name := Some ''ab'', rc_args_summary := Some ''c''\<rparr>)"
    "c_receipt (receipt_zero\<lparr>rc_tool_name := Some ''a'', rc_args_summary := Some ''bc''\<rparr>)" by code_simp+
  from receipt_mac_determines_fields [OF eq this] show False by (simp add: receipt_zero_def)
qed

section \<open>Memory\<close>

text \<open>C24. However an arena came about by allocations and resets, the regions handed out since the last
  reset are aligned as asked, lie in the used part of a block that has that capacity, and overlap
  nowhere, whatever addresses and refusals the allocator below answers with.\<close>

theorem arena_regions_sound:
  assumes "arena_reach arena rs"
  shows "(\<forall>(p, sz, al) \<in> set rs. al dvd p \<and> (\<exists>b \<in> set (SC_Allocator.blocks arena).
      blk_data b \<le> p \<and> p + sz \<le> blk_data b + blk_used b \<and> blk_used b \<le> blk_cap b)) \<and>
    sorted_wrt region_disjoint rs"
  using arena_reach_inv [OF assms] unfolding arena_inv_def block_wf_def by fastforce

definition demo_parent :: "nat \<Rightarrow> nat option" where
  "demo_parent n = (if n = 4160 then Some 65536 else None)"

theorem arena_regions_witness:
  "\<exists>arena p q. arena_reach arena [(q, 16, 8), (p, 24, 16)] \<and> region_disjoint (q, 16, 8) (p, 24, 16) \<and> 16 dvd p"
proof -
  let ?a0 = "sc_arena_init 0"
  let ?a1 = "snd (sc_arena_alloc demo_parent ?a0 24 16)"
  have one: "sc_arena_alloc demo_parent ?a0 24 16 = (Some 65536, ?a1)"
    and two: "sc_arena_alloc demo_parent ?a1 16 8 = (Some 65560, snd (sc_arena_alloc demo_parent ?a1 16 8))"
    by (simp_all add: sc_arena_alloc_def sc_arena_init_def demo_parent_def align_offset_def Let_def
        sc_size_add_overflow_def SIZE_MAX_def SIZEOF_ARENA_BLOCK_def SC_ARENA_DEFAULT_BLOCK_SIZE_def)
  have ok: "parent_ok demo_parent ?a0"
    by (auto simp: parent_ok_def demo_parent_def SIZEOF_ARENA_BLOCK_def sc_arena_init_def split: if_splits)
  have r1: "arena_reach ?a1 [(65536, 24, 16)]"
    using arena_reach.granted [OF arena_reach.init ok _ one] by simp
  have "SC_Allocator.blocks ?a1 = [\<lparr>blk_data = 65536, blk_used = 24, blk_cap = 4096\<rparr>]"
    by (simp add: sc_arena_alloc_def sc_arena_init_def demo_parent_def align_offset_def Let_def
        sc_size_add_overflow_def SIZE_MAX_def SIZEOF_ARENA_BLOCK_def SC_ARENA_DEFAULT_BLOCK_SIZE_def)
  then have served: "sc_arena_alloc (\<lambda>_. None) ?a1 16 8 = (Some 65560, snd (sc_arena_alloc (\<lambda>_. None) ?a1 16 8))"
    by (simp add: sc_arena_alloc_def align_offset_def Let_def)
  have "parent_ok (\<lambda>_. None) ?a1" by (simp add: parent_ok_def)
  from arena_reach.granted [OF r1 this _ served]
  have r2: "arena_reach (snd (sc_arena_alloc (\<lambda>_. None) ?a1 16 8)) [(65560, 16, 8), (65536, 24, 16)]" by simp
  from arena_regions_sound [OF r2] r2 show ?thesis by fastforce
qed

text \<open>A test allocator armed with \<^verbatim>\<open>sc_test_allocator_fail_after\<close> grants at most that many requests, in
  whatever order allocations, resizes and releases come.\<close>

theorem test_allocator_budget:
  "fst (test_run heap ps (sc_test_allocator_fail_after t n)) \<le> n"
proof -
  let ?t = "sc_test_allocator_fail_after t n"
  obtain k t' where run: "test_run heap ps ?t = (k, t')" by (cases "test_run heap ps ?t")
  show ?thesis
  proof (cases "allocations ?t + resize_calls ?t \<le> fail_after ?t + 1")
    case True
    with test_run_budget [OF run] run show ?thesis by (simp add: sc_test_allocator_fail_after_def)
  next
    case False
    then have "fail_enabled ?t" "fail_after ?t \<le> allocations ?t + resize_calls ?t"
      by (simp_all add: sc_test_allocator_fail_after_def)
    from test_run_exhausted [OF this, of heap ps] show ?thesis by simp
  qed
qed

text \<open>Appending pieces to a string builder and finishing it gives their concatenation in one owned
  block, or an error that holds nothing.\<close>

theorem builder_concatenates:
  "case build_string ps a of
     (Inr s, a') \<Rightarrow> live a' = live a + string_blocks s \<and>
       s = (if ps = [] then None else Some (concat (map str_bytes ps)))
   | (Inl e, a') \<Rightarrow> live a' = live a \<and> \<not> sc_status_is_ok e"
  using build_string_spec [of ps a] by (cases "build_string ps a") (auto split: sum.splits)

text \<open>A sequence of pushes onto a vector appends the items in order, keeps the vector well formed and
  holds one block however often it grows; a push that fails is reported and the items already there stay.\<close>

theorem vector_pushes_append:
  assumes "vec_inv v" "vec_app.append_all v xs a = (st, v', a')"
  shows "vec_inv v' \<and> live a' = live a + vec_blocks v' - vec_blocks v \<and>
    (\<exists>done rest. xs = done @ rest \<and> items v' = items v @ done \<and> (sc_status_is_ok st \<longrightarrow> rest = []))"
proof -
  note spec = vec_app.append_all_spec [OF assms]
  have single: "concat (map (\<lambda>x. [x]) ys) = ys" for ys :: "'a list" by (induction ys) auto
  show ?thesis
  proof (cases "sc_status_is_ok st")
    case True
    with spec show ?thesis by (simp add: single)
  next
    case False
    with spec show ?thesis by (auto simp: single)
  qed
qed

theorem vector_pushes_witness:
  "\<exists>st v' a'. vec_app.append_all (sc_vec_init 8) [1, 2 :: nat] heap0 = (st, v', a') \<and> vec_inv v' \<and>
     live a' = vec_blocks v'"
proof -
  obtain st v' a' where run: "vec_app.append_all (sc_vec_init 8) [1, 2 :: nat] heap0 = (st, v', a')"
    by (cases "vec_app.append_all (sc_vec_init 8) [1, 2 :: nat] heap0")
  have "live heap0 = 0" by (simp add: heap0_def)
  with vector_pushes_append [OF vec_inv_init run] run show ?thesis by auto
qed

section \<open>Files, filters and defaults\<close>

text \<open>An emergency-stop state written to its file is read back as it was, when the reason is one line
  of at most 503 bytes; a missing reason comes back as the empty one.\<close>

theorem estop_file_roundtrip:
  assumes "\<And>r. estop_reason e = Some r \<Longrightarrow> one_line r" "generous a" "valid_path_arg p"
  shows "\<exists>content a'. sc_estop_write_file e p True True True = (sc_status_ok, Some content) \<and>
    sc_estop_read_file p (Some content) True a =
      (sc_status_ok, \<lparr>estop_active = estop_active e,
         estop_reason = Some (case estop_reason e of None \<Rightarrow> [] | Some r \<Rightarrow> r)\<rparr>, a')"
proof -
  have "sc_estop_write_file e p True True True = (sc_status_ok, Some (estop_text e))"
    using assms(3) by (simp add: sc_estop_write_file_def)
  with estop_roundtrip [OF assms this] show ?thesis by auto
qed

theorem estop_file_witness:
  "\<exists>content a'. sc_estop_read_file (Str ''s'') (Some content) True heap0 =
     (sc_status_ok, \<lparr>estop_active = True, estop_reason = Some ''fire''\<rparr>, a')"
proof -
  have "one_line ''fire''" "valid_path_arg (Str ''s'')"
    by (simp_all add: one_line_def newline_def valid_path_arg_def)
  with estop_file_roundtrip [of "\<lparr>estop_active = True, estop_reason = Some ''fire''\<rparr>" heap0 "Str ''s''"]
  show ?thesis using generous_heap0 by auto
qed

text \<open>Loading the default policy and clearing it gives back every block, also when any of the
  allocations on the way was refused.\<close>

theorem default_policy_balanced:
  "case sc_security_policy_init_defaults a of (st, p, a') \<Rightarrow> live (sc_security_policy_clear p a') = live a"
  using policy_defaults_accounts [of a] policy_clear_live
  by (cases "sc_security_policy_init_defaults a") auto

text \<open>C25. The outbound filter refuses a message exactly when one of its needles occurs in it, in any case:
  the exemption for receipt tokens never applies.\<close>

theorem outbound_filter_is_substring_search:
  "sc_status_is_ok (sc_security_validate_outbound_message (Str m)) \<longleftrightarrow>
     \<not> (\<exists>needle \<in> set outbound_needles. sublist needle (map to_lower m))"
  using outbound_scan_iff [of m]
  by (auto simp: sc_security_validate_outbound_message_def sc_status_is_ok_def sc_status_ok_def
      sc_status_security_denied_def status_with_key_def sc_status_make_def outbound_needles_def)

text \<open>\<^verbatim>\<open>sc_workspace_open_parent\<close> leaks nothing on any path through the descent: after a success
  exactly one more descriptor is open and one more block held (the leaf name), after a failure none.\<close>

theorem open_parent_balanced:
  "case sc_workspace_open_parent f p input a fds of
     (Inr (fd, leaf), a', fds') \<Rightarrow> live a' = live a + 1 \<and> fds' = fds + 1
   | (Inl e, a', fds') \<Rightarrow> live a' = live a \<and> fds' = fds"
  using open_parent_spec [of f p input a fds]
  by (cases "sc_workspace_open_parent f p input a fds") (auto split: sum.splits)

text \<open>On a host in dotted-decimal form the private-address test reads the four octets as written and
  answers by the reserved ranges.\<close>

theorem private_address_by_octets:
  assumes "a < 256" "b < 256" "c < 256" "d < 256" "host u = Some (dotted a b c d)"
  shows "sc_url_host_is_private_address u \<longleftrightarrow>
    a = 0 \<or> a = 10 \<or> a = 127 \<or> a \<ge> 224 \<or> (a = 100 \<and> 64 \<le> b \<and> b \<le> 127) \<or>
    (a = 172 \<and> 16 \<le> b \<and> b \<le> 31) \<or> (a = 192 \<and> b = 168) \<or> (a = 169 \<and> b = 254) \<or>
    (a = 198 \<and> (b = 18 \<or> b = 19))"
  unfolding private_dotted [OF assms] private_octets_def by blast

theorem private_address_witness:
  "sc_url_host_is_private_address (sc_url_init\<lparr>host := Some (dotted 172 20 0 1)\<rparr>) \<and>
   \<not> sc_url_host_is_private_address (sc_url_init\<lparr>host := Some (dotted 8 8 8 8)\<rparr>)"
  using private_address_by_octets [of 172 20 0 1 "sc_url_init\<lparr>host := Some (dotted 172 20 0 1)\<rparr>"]
    private_address_by_octets [of 8 8 8 8 "sc_url_init\<lparr>host := Some (dotted 8 8 8 8)\<rparr>"]
  by simp

section \<open>Where the code and its intent part\<close>

text \<open>C26. A denied directory directly below the root is never matched: \<^verbatim>\<open>canonicalize_for_write\<close> joins the
  parent \<^verbatim>\<open>/\<close> and the leaf with a second slash, so the loop over the denied paths passes every
  canonical path of an existing file, also the ones inside that directory.\<close>

theorem top_level_denied_path_never_matches:
  assumes "realpath f ''/'' = Some ''/''" "leaf \<noteq> []" "CHR ''/'' \<notin> set leaf" "CHR 0x00 \<notin> set leaf"
    "leaf \<noteq> ''.''" "leaf \<noteq> ''..''" "c \<noteq> CHR ''/''"
  shows "denied_loop f [Some (CHR ''/'' # leaf)] (Str (CHR ''/'' # c # r)) a =
    (case canonicalize_for_write f (Str (CHR ''/'' # leaf)) a of
       (Inl e, a1) \<Rightarrow> (e, a1)
     | (Inr d, a1) \<Rightarrow> (sc_status_ok, sc_string_clear d a1))"
proof -
  obtain res a1 where run: "canonicalize_for_write f (Str (CHR ''/'' # leaf)) a = (res, a1)"
    by (cases "canonicalize_for_write f (Str (CHR ''/'' # leaf)) a")
  show ?thesis
  proof (cases res)
    case (Inr d)
    with canonicalize_for_write_canon [OF run [unfolded Inr]] canon_write_top [OF assms(1-6)]
    have "d = Some (''//'' @ leaf)" by simp
    with run Inr not_under_double [OF assms(7), of r leaf] show ?thesis by (simp add: has_prefix_under)
  qed (use run in simp)
qed

theorem top_level_denied_path_witness:
  "fst (denied_loop demo_fs [Some ''/etc''] (Str ''/etc/passwd'') heap0) = sc_status_ok"
proof -
  have "denied_loop demo_fs [Some ''/etc''] (Str ''/etc/passwd'') heap0 =
    (case canonicalize_for_write demo_fs (Str ''/etc'') heap0 of
       (Inl e, a1) \<Rightarrow> (e, a1) | (Inr d, a1) \<Rightarrow> (sc_status_ok, sc_string_clear d a1))"
    using top_level_denied_path_never_matches [of demo_fs "''etc''" "CHR ''e''" "''tc/passwd''" heap0]
    by (simp add: demo_fs_def demo_paths_def del: denied_loop.simps)
  moreover have "fst (case canonicalize_for_write demo_fs (Str ''/etc'') heap0 of
       (Inl e, a1) \<Rightarrow> (e, a1) | (Inr d, a1) \<Rightarrow> (sc_status_ok, sc_string_clear d a1)) = sc_status_ok"
    by code_simp
  ultimately show ?thesis by simp
qed

text \<open>Without \<^verbatim>\<open>workspace_only\<close> the function \<^verbatim>\<open>sc_workspace_open_parent\<close> takes the root to be \<^verbatim>\<open>/\<close>,
  and the prefix test then asks for a path that starts with two slashes: a path in a directory below the
  root is never opened.\<close>

theorem open_parent_refuses_without_workspace:
  assumes "\<not> workspace_only p" "canon_write f bs = Some (CHR ''/'' # c # r)" "c \<noteq> CHR ''/''"
  shows "\<exists>e a'. sc_workspace_open_parent f p (Str bs) a fds = (Inl e, a', fds) \<and> \<not> sc_status_is_ok e"
proof -
  obtain st a0 where v: "sc_security_validate_path f p (Str bs) False a = (st, a0)"
    by (cases "sc_security_validate_path f p (Str bs) False a")
  obtain r1 a1 where w: "sc_workspace_resolve f p (Str bs) False a0 = (r1, a1)"
    by (cases "sc_workspace_resolve f p (Str bs) False a0")
  obtain r2 a2 where root: "sc_string_from_cstr (Some ''/'') a1 = (r2, a2)"
    by (cases "sc_string_from_cstr (Some ''/'') a1")
  show ?thesis
  proof (cases r1)
    case (Inl e)
    with v w workspace_resolve_live [OF w] show ?thesis by (auto simp: sc_workspace_open_parent_def)
  next
    case (Inr s)
    with workspace_resolve_ok w assms(2) have s: "s = Some (CHR ''/'' # c # r)"
      by (fastforce simp: canon_input_def)
    have far: "\<not> sc_security_path_has_prefix (Str (CHR ''/'' # c # r)) (Str ''/'')"
      using assms(3) by (simp add: path_has_prefix_iff)
    show ?thesis
    proof (cases r2)
      case err: (Inl e)
      with root have "\<not> sc_status_is_ok e"
        by (auto simp: sc_string_from_cstr_def dest: string_from_str_Inl)
      with v w Inr root err assms(1) show ?thesis by (simp add: sc_workspace_open_parent_def)
    next
      case ok: (Inr t)
      with root have "t = Some ''/''"
        by (auto simp: sc_string_from_cstr_def sc_str_from_cstr_def dest!: string_from_str_Inr)
      with v w Inr s root ok assms(1) far show ?thesis by (simp add: sc_workspace_open_parent_def)
    qed
  qed
qed

theorem open_parent_refuses_witness:
  "\<exists>e a'. sc_workspace_open_parent demo_fs sc_security_policy_init (Str ''/w/d/g'') heap0 0 = (Inl e, a', 0) \<and>
     \<not> sc_status_is_ok e"
proof -
  have "canon_write demo_fs ''/w/d/g'' = Some ''/w/d/g''" by code_simp
  moreover have "\<not> workspace_only sc_security_policy_init" by code_simp
  ultimately show ?thesis using open_parent_refuses_without_workspace [of _ demo_fs "''/w/d/g''" "CHR ''w''"] by simp
qed

text \<open>The audit hash does not separate the event from the summary: two records whose texts join to the
  same bytes have the same hash, so text moved from one field to the other is not noticed.\<close>

theorem audit_hash_ignores_field_boundary:
  assumes "event_type r = Some e" "audit_summary r = Some m" "e @ m = e' @ m'"
  shows "audit_hash (r\<lparr>event_type := Some e', audit_summary := Some m'\<rparr>) = audit_hash r"
  using assms by (simp add: audit_hash_def hash_bytes_append)

theorem audit_hash_witness:
  "audit_hash \<lparr>event_type = Some ''ab'', audit_summary = Some ''c'', audit_timestamp = 0,
     audit_previous_hash = 0, audit_stored_hash = 0\<rparr> =
   audit_hash \<lparr>event_type = Some ''a'', audit_summary = Some ''bc'', audit_timestamp = 0,
     audit_previous_hash = 0, audit_stored_hash = 0\<rparr>"
  using audit_hash_ignores_field_boundary [of "\<lparr>event_type = Some ''a'', audit_summary = Some ''bc'',
      audit_timestamp = 0, audit_previous_hash = 0, audit_stored_hash = 0\<rparr>" "''a''" "''bc''" "''ab''" "''c''"]
  by simp

section \<open>JSON\<close>

text \<open>C33. The JSON parser returns on every input, whatever the allocator refuses: the fuel of the model is
  enough. What it returns is a well-formed value that accounts for every block taken, or an error that is not a
  success; an error other than a refused allocation has given every block back.\<close>

theorem json_parser_returns:
  "\<exists>r err a'. sc_json_parse strtod input a = Some (r, err, a') \<and>
     (case r of Inl e \<Rightarrow> \<not> sc_status_is_ok e \<and> (e \<noteq> sc_status_no_memory \<longrightarrow> live a' = live a)
      | Inr v \<Rightarrow> json_inv v \<and> live a' = live a + json_blocks v)"
  by (rule json_parse_total)

theorem json_parser_returns_witness:
  "\<exists>r err a'. sc_json_parse (\<lambda>_. None :: nat option) (Str ''[tru]'') heap0 = Some (r, err, a') \<and>
     (case r of Inl e \<Rightarrow> \<not> sc_status_is_ok e \<and> (e \<noteq> sc_status_no_memory \<longrightarrow> live a' = live heap0)
      | Inr v \<Rightarrow> json_inv v \<and> live a' = live heap0 + json_blocks v)"
  using json_parser_returns [of "\<lambda>_. None :: nat option" "Str ''[tru]''" heap0] by simp

text \<open>C34. Printing a JSON value and parsing the text gives the same document back: for every document whose
  numbers the number format and the number reader agree on, whose texts are UTF-8, which nests no deeper than the
  parser's limit and whose arrays are no longer than it allows, when no allocation is refused.\<close>

theorem json_print_parse_roundtrip:
  assumes "generous a" "doc_ok strtod (fmt_text fmt) (json_view v)" "\<forall>d \<in> json_numbers (json_view v). printable fmt d"
    and "json_depth (json_view v) \<le> JSON_MAX_DEPTH" "length (json_text (fmt_text fmt) (json_view v)) \<le> TEXT_MAX"
  shows "\<exists>t a1 v' a2. sc_json_serialize fmt v a = (Inr (Some t), a1) \<and>
    sc_json_parse strtod (Str t) a1 = Some (Inr v', json_error_zero, a2) \<and> json_view v' = json_view v"
proof -
  obtain r a1 where run: "sc_json_serialize fmt v a = (r, a1)" by (cases "sc_json_serialize fmt v a")
  have "length (json_text (fmt_text fmt) (json_view v)) < SIZE_MAX" using assms(5) by (simp add: TEXT_MAX_def SIZE_MAX_def)
  with serialize_text(2) [OF assms(3) _ run assms(1)]
  have "r = Inr (Some (json_text (fmt_text fmt) (json_view v)))" "generous a1" by auto
  with run parse_printed [OF _ assms(2,4,5)] show ?thesis by metis
qed

definition demo_json :: "nat sc_json_value" where
  "demo_json = SC_JSON_OBJECT [(Some ''k'', SC_JSON_ARRAY [SC_JSON_NUMBER 17, SC_JSON_STRING (Some [CHR 0x22, CHR 0x0A])] 4 True)] 4 True"

definition demo_strtod :: "string \<Rightarrow> nat option" where
  "demo_strtod t = Some (nat (digits_value 0 t))"

lemma demo_json_printable: "\<forall>d \<in> json_numbers (json_view demo_json). printable (\<lambda>n. Some (dec n)) d"
  using length_dec_le [of 17 2] by (simp add: demo_json_def printable_def)

theorem json_print_parse_witness:
  "\<exists>t a1 v' a2. sc_json_serialize (\<lambda>n. Some (dec n)) demo_json heap0 = (Inr (Some t), a1) \<and>
    sc_json_parse demo_strtod (Str t) a1 = Some (Inr v', json_error_zero, a2) \<and> json_view v' = json_view demo_json"
proof (rule json_print_parse_roundtrip)
  show "generous heap0" by (rule generous_heap0)
  have "sc_str_is_valid_utf8 (Str ''k'')" "sc_str_is_valid_utf8 (Str [CHR 0x22, CHR 0x0A])"
    by (simp_all add: sc_str_is_valid_utf8_def byte_values_def valid1)
  moreover have "number_text (dec 17)" "demo_strtod (dec 17) = Some 17" by code_simp+
  ultimately show "doc_ok demo_strtod (fmt_text (\<lambda>n. Some (dec n))) (json_view demo_json)"
    by (simp add: demo_json_def JSON_MAX_ARRAY_ITEMS_def)
  show "\<forall>d \<in> json_numbers (json_view demo_json). printable (\<lambda>n. Some (dec n)) d" by (rule demo_json_printable)
  show "json_depth (json_view demo_json) \<le> JSON_MAX_DEPTH" by code_simp
  show "length (json_text (fmt_text (\<lambda>n. Some (dec n))) (json_view demo_json)) \<le> TEXT_MAX" by code_simp
qed

text \<open>Serialisation writes exactly the reference text of the document, in one block of its length and a
  terminator; when that block is refused the error is out of memory and nothing is kept.\<close>

theorem json_serialize_is_reference:
  assumes "\<forall>d \<in> json_numbers (json_view v). printable fmt d" "length (json_text (fmt_text fmt) (json_view v)) < SIZE_MAX"
    and "sc_json_serialize fmt v a = (r, a')"
  shows "(r = Inl sc_status_no_memory \<and> live a' = live a) \<or>
    (r = Inr (Some (json_text (fmt_text fmt) (json_view v))) \<and> live a' = live a + 1)"
  by (rule serialize_text(1) [OF assms])

theorem json_serialize_witness:
  "case sc_json_serialize (\<lambda>n. Some (dec n)) demo_json heap0 of (r, a') \<Rightarrow>
    (r = Inl sc_status_no_memory \<and> live a' = live heap0) \<or>
    (r = Inr (Some (json_text (fmt_text (\<lambda>n. Some (dec n))) (json_view demo_json))) \<and> live a' = live heap0 + 1)"
proof -
  obtain r a' where run: "sc_json_serialize (\<lambda>n. Some (dec n)) demo_json heap0 = (r, a')"
    by (cases "sc_json_serialize (\<lambda>n. Some (dec n)) demo_json heap0")
  have "length (json_text (fmt_text (\<lambda>n. Some (dec n))) (json_view demo_json)) < SIZE_MAX" by code_simp
  from json_serialize_is_reference [OF demo_json_printable this run] run show ?thesis by simp
qed

text \<open>A clone of a JSON value is the same document in blocks of its own, and a clone that fails keeps no
  block.\<close>

theorem json_clone_same_document:
  "case sc_json_clone v a of
     (Inl e, a') \<Rightarrow> \<not> sc_status_is_ok e \<and> live a' = live a
   | (Inr w, a') \<Rightarrow> json_inv w \<and> json_view w = json_view v \<and> live a' = live a + json_blocks w"
  using clone_spec(1) [of v a] by (simp add: cloned_def)

definition no_growth :: sc_allocator where
  "no_growth = heap0\<lparr>vtab_resize := Some (\<lambda>_ _. False)\<rparr>"

text \<open>A child that an object cannot store is lost: with an allocator that refuses to grow the member vector,
  building the provider payload fails and keeps the two blocks of the model name.\<close>

theorem payload_failure_leaks_child:
  "case sc_json_provider_payload (Str ''m'') (Str ''p'') no_growth :: nat sc_json_value res \<times> sc_allocator of
     (r, a') \<Rightarrow> r = Inl sc_status_no_memory \<and> live a' = live no_growth + 2"
  by code_simp

end
